(* ===== verification/Prelude.thy ===== *)
theory Prelude
  imports Main "HOL-Library.Word"
begin

text \<open>
  Shared vocabulary of the development: bytes, the error values of libindy
  (\<^verbatim>\<open>libindy/indy-api-types/src/errors.rs\<close>), Rust's \<^verbatim>\<open>?\<close> operator and
  \<^verbatim>\<open>for ... ?\<close> loops as a bind and a traversal of the sum type, and the generic list facts
  and interface locales the components share. The text of an error message is not modelled;
  the error kind, which callers match on, is.
\<close>

named_theorems result_simps \<open>unfolding Rust results\<close>

section \<open>Bytes, errors and results\<close>

type_synonym byte = "8 word"
type_synonym bytes = "byte list"

datatype IndyErrorKind =
    InvalidState | InvalidStructure | InvalidParam nat | IOError
  | MasterSecretDuplicateName | ProofRejected | RevocationRegistryFull | InvalidUserRevocId
  | CredentialRevoked | CredDefAlreadyExists
  | NoConsensus | InvalidTransaction | LedgerItemNotFound
  | PoolNotCreated | InvalidPoolHandle | PoolTerminated | PoolTimeout
  | PoolConfigAlreadyExists | PoolIncompatibleProtocolVersion
  | UnknownCrypto
  | InvalidWalletHandle | UnknownWalletStorageType | WalletStorageTypeAlreadyRegistered
  | WalletAlreadyExists | WalletNotFound | WalletAlreadyOpened | WalletAccessFailed
  | WalletEncodingError | WalletStorageError | WalletEncryptionError | WalletItemNotFound
  | WalletItemAlreadyExists | WalletQueryError
  | DIDAlreadyExists
  | UnknownPaymentMethodType | IncompatiblePaymentMethods | PaymentInsufficientFunds
  | PaymentSourceDoesNotExist | PaymentOperationNotSupported | PaymentExtraFunds
  | TransactionNotAllowed

text \<open>
  A call ends with a value, with an \<^verbatim>\<open>IndyError\<close>, or with a panic (a failed
  \<^verbatim>\<open>assert!\<close>, an \<^verbatim>\<open>unwrap\<close> of nothing, an arithmetic underflow).
\<close>

datatype failure = Error IndyErrorKind | Panic

type_synonym 'a IndyResult = "failure + 'a"

definition bindr :: "'e + 'a \<Rightarrow> ('a \<Rightarrow> 'e + 'b) \<Rightarrow> 'e + 'b" where
  "bindr m f = (case m of Inl e \<Rightarrow> Inl e | Inr x \<Rightarrow> f x)"

fun traverse :: "('a \<Rightarrow> 'e + 'b) \<Rightarrow> 'a list \<Rightarrow> 'e + 'b list" where
  "traverse f [] = Inr []"
| "traverse f (x # xs) = bindr (f x) (\<lambda>y. bindr (traverse f xs) (\<lambda>ys. Inr (y # ys)))"

definition ok_or :: "'a option \<Rightarrow> 'e \<Rightarrow> 'e + 'a" where
  "ok_or x e = (case x of None \<Rightarrow> Inl e | Some a \<Rightarrow> Inr a)"

fun is_ok :: "'e + 'a \<Rightarrow> bool" where
  "is_ok (Inr _) = True"
| "is_ok (Inl _) = False"

lemma bindr_simps [simp, result_simps]:
  "bindr (Inl e) f = Inl e"
  "bindr (Inr x) f = f x"
  by (simp_all add: bindr_def)

lemma bindr_Inr_iff [result_simps]:
  "bindr m f = Inr y \<longleftrightarrow> (\<exists>x. m = Inr x \<and> f x = Inr y)"
  by (cases m) simp_all

lemma bindr_Inl_iff:
  "bindr m f = Inl e \<longleftrightarrow> m = Inl e \<or> (\<exists>x. m = Inr x \<and> f x = Inl e)"
  by (cases m) simp_all

lemma bindr_cong [fundef_cong]:
  "m = n \<Longrightarrow> (\<And>x. n = Inr x \<Longrightarrow> f x = g x) \<Longrightarrow> bindr m f = bindr n g"
  by (cases n) simp_all

lemma bindr_assoc: "bindr (bindr m f) g = bindr m (\<lambda>x. bindr (f x) g)"
  by (cases m) simp_all

lemma ok_or_simps [simp, result_simps]:
  "ok_or None e = Inl e"
  "ok_or (Some a) e = Inr a"
  by (simp_all add: ok_or_def)

lemma ok_or_Inr_iff [simp]: "ok_or x e = Inr a \<longleftrightarrow> x = Some a"
  by (cases x) simp_all

lemma is_ok_iff: "is_ok m \<longleftrightarrow> (\<exists>x. m = Inr x)"
  by (cases m) simp_all

lemma is_ok_bindr: "is_ok (bindr m f) \<longleftrightarrow> (\<exists>x. m = Inr x \<and> is_ok (f x))"
  by (cases m) simp_all

lemma traverse_cong [fundef_cong]:
  "xs = ys \<Longrightarrow> (\<And>x. x \<in> set ys \<Longrightarrow> f x = g x) \<Longrightarrow> traverse f xs = traverse g ys"
proof (induction ys arbitrary: xs)
  case Nil
  then show ?case by simp
next
  case (Cons y ys)
  then show ?case by simp
qed

lemma traverse_Inr: "traverse (\<lambda>x. Inr (f x)) xs = Inr (map f xs)"
  by (induction xs) simp_all

lemma traverse_Inr_length: "traverse f xs = Inr ys \<Longrightarrow> length ys = length xs"
  by (induction xs arbitrary: ys) (auto simp: bindr_Inr_iff)

lemma traverse_all_Inr:
  "(\<And>x. x \<in> set xs \<Longrightarrow> f x = Inr (g x)) \<Longrightarrow> traverse f xs = Inr (map g xs)"
  by (induction xs) simp_all

lemma is_ok_traverse: "is_ok (traverse f xs) \<longleftrightarrow> (\<forall>x\<in>set xs. is_ok (f x))"
  by (induction xs) (fastforce simp: is_ok_bindr is_ok_iff bindr_Inr_iff)+

lemma traverse_Inr_list_all2:
  "traverse f xs = Inr ys \<longleftrightarrow> list_all2 (\<lambda>x y. f x = Inr y) xs ys"
proof (induction xs arbitrary: ys)
  case Nil
  then show ?case by auto
next
  case (Cons x xs)
  then show ?case by (cases ys) (auto simp: bindr_Inr_iff)
qed

text \<open>\<^verbatim>\<open>flat_map\<close> with an \<^verbatim>\<open>Option\<close>-valued function is \<open>List.map_filter\<close>.\<close>

lemma flat_map_cong [fundef_cong]:
  "xs = ys \<Longrightarrow> (\<And>x. x \<in> set ys \<Longrightarrow> f x = g x) \<Longrightarrow> List.map_filter f xs = List.map_filter g ys"
  by (induction ys arbitrary: xs) (simp_all add: map_filter_simps split: option.split)

lemma set_flat_map: "set (List.map_filter f xs) = {y. \<exists>x\<in>set xs. f x = Some y}"
  by (force simp: map_filter_def)

end
