(* ===== verification/Merkle_Tree.thy ===== *)
theory Merkle_Tree
  imports Prelude
begin

text \<open>
  The Merkle tree of the ledger service: \<^verbatim>\<open>libindy/src/services/ledger/merkletree/\<close>
  \<^verbatim>\<open>tree.rs\<close> (the tree and its two leaf iterators), \<^verbatim>\<open>merkletree.rs\<close> (construction
  from a vector of transactions) and the hashing of \<^verbatim>\<open>indy-utils/src/crypto/hash/openssl.rs\<close>.
  The message digest of OpenSSL is the parameter \<open>digest\<close>, a fallible function on byte
  strings; the streaming updates of a hasher are the concatenation of their inputs.
  Counts and heights (\<^verbatim>\<open>usize\<close>) are natural numbers: they are bounded by the length of a
  vector, and no subtraction on them goes below zero.
\<close>

section \<open>Hashing\<close>

type_synonym digest = "bytes \<Rightarrow> bytes IndyResult"

text \<open>A digest that never fails; \<open>h\<close> is arbitrary.\<close>

abbreviation total_digest :: "(bytes \<Rightarrow> bytes) \<Rightarrow> digest" where
  "total_digest h \<equiv> (\<lambda>x. Inr (h x))"

definition EMPTY_HASH_BYTES :: bytes where
  "EMPTY_HASH_BYTES =
     [227, 176, 196, 66, 152, 252, 28, 20, 154, 251, 244, 200, 153, 111, 185, 36,
      39, 174, 65, 228, 100, 155, 147, 76, 164, 149, 153, 27, 120, 82, 184, 85]"

definition hash_leaf :: "digest \<Rightarrow> bytes \<Rightarrow> bytes IndyResult" where
  "hash_leaf digest leaf = digest (0x00 # leaf)"

definition hash_nodes :: "digest \<Rightarrow> bytes \<Rightarrow> bytes \<Rightarrow> bytes IndyResult" where
  "hash_nodes digest left right = digest (0x01 # left @ right)"

section \<open>The tree\<close>

type_synonym TreeLeafData = bytes

datatype Tree =
    Empty bytes
  | Leaf bytes TreeLeafData
  | Node bytes Tree Tree

definition new_leaf :: "digest \<Rightarrow> TreeLeafData \<Rightarrow> Tree IndyResult" where
  "new_leaf digest value = bindr (hash_leaf digest value) (\<lambda>hash. Inr (Leaf hash value))"

fun tree_hash :: "Tree \<Rightarrow> bytes" where
  "tree_hash (Empty hash) = hash"
| "tree_hash (Leaf hash _) = hash"
| "tree_hash (Node hash _ _) = hash"

fun get_height :: "Tree \<Rightarrow> nat" where
  "get_height (Empty _) = 0"
| "get_height (Node _ left right) = 1 + max (get_height left) (get_height right)"
| "get_height (Leaf _ _) = 0"

fun get_count :: "Tree \<Rightarrow> nat" where
  "get_count (Empty _) = 0"
| "get_count (Node _ left right) = get_count left + get_count right"
| "get_count (Leaf _ _) = 1"

subsection \<open>The borrowing and the consuming leaf iterator\<close>

text \<open>
  The stack \<^verbatim>\<open>right_nodes\<close> is a list whose head is the end the code pushes to and pops from.
\<close>

record LeavesIterator =
  current_value :: "TreeLeafData option"
  right_nodes :: "Tree list"

fun iter_add_left :: "LeavesIterator \<Rightarrow> Tree \<Rightarrow> LeavesIterator" where
  "iter_add_left it (Empty _) = it\<lparr>current_value := None\<rparr>"
| "iter_add_left it (Node _ left right) =
     iter_add_left (it\<lparr>right_nodes := right # right_nodes it\<rparr>) left"
| "iter_add_left it (Leaf _ value) = it\<lparr>current_value := Some value\<rparr>"

definition iter_new :: "Tree \<Rightarrow> LeavesIterator" where
  "iter_new root = iter_add_left \<lparr>current_value = None, right_nodes = []\<rparr> root"

definition iter_next :: "LeavesIterator \<Rightarrow> TreeLeafData option \<times> LeavesIterator" where
  "iter_next it =
     (let result = current_value it;
          it = it\<lparr>current_value := None\<rparr>
      in case right_nodes it of
           [] \<Rightarrow> (result, it)
         | rest # stack \<Rightarrow> (result, iter_add_left (it\<lparr>right_nodes := stack\<rparr>) rest))"

record LeavesIntoIterator =
  into_current_value :: "TreeLeafData option"
  into_right_nodes :: "Tree list"

fun into_iter_add_left :: "LeavesIntoIterator \<Rightarrow> Tree \<Rightarrow> LeavesIntoIterator" where
  "into_iter_add_left it (Empty _) = it\<lparr>into_current_value := None\<rparr>"
| "into_iter_add_left it (Node _ left right) =
     into_iter_add_left (it\<lparr>into_right_nodes := right # into_right_nodes it\<rparr>) left"
| "into_iter_add_left it (Leaf _ value) = it\<lparr>into_current_value := Some value\<rparr>"

definition into_iter_new :: "Tree \<Rightarrow> LeavesIntoIterator" where
  "into_iter_new root =
     into_iter_add_left \<lparr>into_current_value = None, into_right_nodes = []\<rparr> root"

definition into_iter_next ::
  "LeavesIntoIterator \<Rightarrow> TreeLeafData option \<times> LeavesIntoIterator" where
  "into_iter_next it =
     (let result = into_current_value it;
          it = it\<lparr>into_current_value := None\<rparr>
      in case into_right_nodes it of
           [] \<Rightarrow> (result, it)
         | rest # stack \<Rightarrow>
             (result, into_iter_add_left (it\<lparr>into_right_nodes := stack\<rparr>) rest))"

text \<open>
  \<^verbatim>\<open>collect\<close> drains an iterator until it first answers \<^verbatim>\<open>None\<close>. The number of leaves that
  the current value and the stack still hold decreases with every value returned.
\<close>

definition iter_left_over :: "LeavesIterator \<Rightarrow> nat" where
  "iter_left_over it =
     (case current_value it of None \<Rightarrow> 0 | Some _ \<Rightarrow> 1) + sum_list (map get_count (right_nodes it))"

definition into_iter_left_over :: "LeavesIntoIterator \<Rightarrow> nat" where
  "into_iter_left_over it =
     (case into_current_value it of None \<Rightarrow> 0 | Some _ \<Rightarrow> 1)
     + sum_list (map get_count (into_right_nodes it))"

lemma iter_add_left_left_over:
  "iter_left_over (iter_add_left it t) \<le> get_count t + sum_list (map get_count (right_nodes it))"
  by (induction it t rule: iter_add_left.induct) (auto simp: iter_left_over_def)

lemma into_iter_add_left_left_over:
  "into_iter_left_over (into_iter_add_left it t)
     \<le> get_count t + sum_list (map get_count (into_right_nodes it))"
  by (induction it t rule: into_iter_add_left.induct) (auto simp: into_iter_left_over_def)

lemma iter_next_decreases:
  assumes "iter_next it = (Some x, it')"
  shows "iter_left_over it' < iter_left_over it"
proof (cases "right_nodes it")
  case Nil
  with assms show ?thesis
    by (auto simp: iter_next_def iter_left_over_def Let_def)
next
  case (Cons rest stack)
  with assms have cur: "current_value it = Some x"
    and it': "it' = iter_add_left (it\<lparr>current_value := None, right_nodes := stack\<rparr>) rest"
    by (auto simp: iter_next_def Let_def)
  have "iter_left_over it' \<le> get_count rest + sum_list (map get_count stack)"
    using iter_add_left_left_over [of "it\<lparr>current_value := None, right_nodes := stack\<rparr>" rest]
    by (simp add: it')
  with cur Cons show ?thesis by (simp add: iter_left_over_def)
qed

lemma into_iter_next_decreases:
  assumes "into_iter_next it = (Some x, it')"
  shows "into_iter_left_over it' < into_iter_left_over it"
proof (cases "into_right_nodes it")
  case Nil
  with assms show ?thesis
    by (auto simp: into_iter_next_def into_iter_left_over_def Let_def)
next
  case (Cons rest stack)
  let ?it = "it\<lparr>into_current_value := None, into_right_nodes := stack\<rparr>"
  from Cons assms have cur: "into_current_value it = Some x"
    and it': "it' = into_iter_add_left ?it rest"
    by (auto simp: into_iter_next_def Let_def)
  have "into_iter_left_over it' \<le> get_count rest + sum_list (map get_count stack)"
    using into_iter_add_left_left_over [of ?it rest] by (simp add: it')
  with cur Cons show ?thesis by (simp add: into_iter_left_over_def)
qed

function iter_collect :: "LeavesIterator \<Rightarrow> TreeLeafData list" where
  "iter_collect it =
     (case iter_next it of
        (None, _) \<Rightarrow> []
      | (Some x, it') \<Rightarrow> x # iter_collect it')"
  by pat_completeness auto
termination
  by (relation "measure iter_left_over") (auto intro: iter_next_decreases [OF sym])

function into_iter_collect :: "LeavesIntoIterator \<Rightarrow> TreeLeafData list" where
  "into_iter_collect it =
     (case into_iter_next it of
        (None, _) \<Rightarrow> []
      | (Some x, it') \<Rightarrow> x # into_iter_collect it')"
  by pat_completeness auto
termination
  by (relation "measure into_iter_left_over") (auto intro: into_iter_next_decreases [OF sym])

declare iter_collect.simps [simp del] into_iter_collect.simps [simp del]

section \<open>The Merkle tree\<close>

record MerkleTree =
  mt_root :: Tree
  mt_height :: nat
  mt_count :: nat
  mt_nodes_count :: nat

definition mt_default :: MerkleTree where
  "mt_default = \<lparr>mt_root = Empty EMPTY_HASH_BYTES, mt_height = 0, mt_count = 0, mt_nodes_count = 0\<rparr>"

text \<open>The inner \<^verbatim>\<open>while !cur.is_empty()\<close> loop: one level of the tree.\<close>

fun pair_up :: "digest \<Rightarrow> Tree list \<Rightarrow> Tree list \<Rightarrow> nat \<Rightarrow> (Tree list \<times> nat) IndyResult" where
  "pair_up digest [] nxt nodes_count = Inr (nxt, nodes_count)"
| "pair_up digest [t] nxt nodes_count = pair_up digest [] (nxt @ [t]) nodes_count"
| "pair_up digest (left # right # cur) nxt nodes_count =
     bindr (hash_nodes digest (tree_hash left) (tree_hash right)) (\<lambda>combined_hash.
       pair_up digest cur (nxt @ [Node combined_hash left right]) (nodes_count + 1))"

lemma pair_up_length:
  "pair_up digest cur nxt nodes_count = Inr (nxt', nodes_count')
   \<Longrightarrow> length nxt' = length nxt + (length cur + 1) div 2"
  by (induction digest cur nxt nodes_count rule: pair_up.induct) (auto simp: bindr_Inr_iff)

text \<open>The outer \<^verbatim>\<open>while cur.len() > 1\<close> loop: level by level up to the root.\<close>

function build_levels :: "digest \<Rightarrow> Tree list \<Rightarrow> nat \<Rightarrow> nat \<Rightarrow> (Tree list \<times> nat \<times> nat) IndyResult"
where
  "build_levels digest cur height nodes_count =
     (if length cur > 1
      then bindr (pair_up digest cur [] nodes_count) (\<lambda>(nxt, nodes_count).
             build_levels digest nxt (height + 1) nodes_count)
      else Inr (cur, height, nodes_count))"
  by pat_completeness auto
termination
  by (relation "measure (\<lambda>(digest, cur, height, nodes_count). length cur)")
     (auto dest!: pair_up_length)

declare build_levels.simps [simp del]

definition from_vec :: "digest \<Rightarrow> TreeLeafData list \<Rightarrow> MerkleTree IndyResult" where
  "from_vec digest values =
     (if values = [] then Inr mt_default
      else bindr (traverse (new_leaf digest) values) (\<lambda>cur.
           bindr (build_levels digest cur 0 0) (\<lambda>(cur, height, nodes_count).
           case cur of
             [] \<Rightarrow> Inl Panic
           | root # _ \<Rightarrow> Inr \<lparr>mt_root = root, mt_height = height,
                             mt_count = length values, mt_nodes_count = nodes_count\<rparr>)))"

definition root_hash :: "MerkleTree \<Rightarrow> bytes" where
  "root_hash mt = tree_hash (mt_root mt)"

definition mt_is_empty :: "MerkleTree \<Rightarrow> bool" where
  "mt_is_empty mt \<longleftrightarrow> mt_count mt = 0"

definition mt_iter :: "MerkleTree \<Rightarrow> LeavesIterator" where
  "mt_iter mt = iter_new (mt_root mt)"

definition mt_into_iter :: "MerkleTree \<Rightarrow> LeavesIntoIterator" where
  "mt_into_iter mt = into_iter_new (mt_root mt)"

section \<open>The abstract Merkle tree of RFC 6962\<close>

text \<open>
  The specification splits a list of more than one value at the largest power of two below
  its length, and hashes the two parts recursively.
\<close>

fun split_point :: "nat \<Rightarrow> nat" where
  "split_point n = (if n \<le> 2 then 1 else 2 * split_point ((n + 1) div 2))"

declare split_point.simps [simp del]

lemma split_point_pow2: "\<exists>e. split_point n = 2 ^ e"
proof (induction n rule: split_point.induct)
  case (1 n)
  show ?case
  proof (cases "n \<le> 2")
    case True
    then have "split_point n = 2 ^ 0" by (simp add: split_point.simps)
    then show ?thesis by blast
  next
    case False
    with 1 obtain e where "split_point ((n + 1) div 2) = 2 ^ e" by blast
    with False have "split_point n = 2 ^ Suc e" by (simp add: split_point.simps [of n])
    then show ?thesis by blast
  qed
qed

lemma split_point_bounds:
  "1 < n \<Longrightarrow> 0 < split_point n \<and> split_point n < n \<and> n \<le> 2 * split_point n"
proof (induction n rule: split_point.induct)
  case (1 n)
  show ?case
  proof (cases "n \<le> 2")
    case True
    with 1 show ?thesis by (simp add: split_point.simps)
  next
    case False
    then have "1 < (n + 1) div 2" by linarith
    with 1 False have "0 < split_point ((n + 1) div 2)"
      "split_point ((n + 1) div 2) < (n + 1) div 2"
      "(n + 1) div 2 \<le> 2 * split_point ((n + 1) div 2)"
      by blast+
    with False show ?thesis
      unfolding split_point.simps [of n] by (simp only: if_False) linarith
  qed
qed

lemma split_point_eqI:
  assumes k: "2 ^ e < n" "n \<le> 2 * 2 ^ e"
  shows "split_point n = 2 ^ e"
proof -
  from k(1) have "1 < n" using one_le_power [of "2::nat" e] by linarith
  from split_point_bounds [OF this] have b: "split_point n < n" "n \<le> 2 * split_point n"
    by simp_all
  obtain f where f: "split_point n = 2 ^ f" using split_point_pow2 by blast
  have "(2::nat) ^ e < 2 ^ Suc f" using k(1) b(2) f by simp
  then have "e < Suc f" by (rule power_less_imp_less_exp [rotated]) simp
  moreover have "(2::nat) ^ f < 2 ^ Suc e" using k(2) b(1) f by simp
  then have "f < Suc e" by (rule power_less_imp_less_exp [rotated]) simp
  ultimately show ?thesis using f by simp
qed

definition joined :: "(bytes \<Rightarrow> bytes) \<Rightarrow> Tree \<Rightarrow> Tree \<Rightarrow> Tree" where
  "joined h l r = Node (h (0x01 # tree_hash l @ tree_hash r)) l r"

definition hashed_leaf :: "(bytes \<Rightarrow> bytes) \<Rightarrow> TreeLeafData \<Rightarrow> Tree" where
  "hashed_leaf h v = Leaf (h (0x00 # v)) v"

function join_trees :: "(bytes \<Rightarrow> bytes) \<Rightarrow> Tree list \<Rightarrow> Tree" where
  "join_trees h ts =
     (if length ts > 1
      then let k = split_point (length ts)
           in joined h (join_trees h (take k ts)) (join_trees h (drop k ts))
      else case ts of [] \<Rightarrow> Empty EMPTY_HASH_BYTES | t # _ \<Rightarrow> t)"
  by pat_completeness auto
termination
  using split_point_bounds by (relation "measure (\<lambda>(h, ts). length ts)") force+

declare join_trees.simps [simp del]

definition rfc_tree :: "(bytes \<Rightarrow> bytes) \<Rightarrow> TreeLeafData list \<Rightarrow> Tree" where
  "rfc_tree h vs = join_trees h (map (hashed_leaf h) vs)"

text \<open>The Merkle tree hash (MTH) of RFC 6962, section 2.1.\<close>

function mth :: "(bytes \<Rightarrow> bytes) \<Rightarrow> TreeLeafData list \<Rightarrow> bytes" where
  "mth h vs =
     (if length vs > 1
      then let k = split_point (length vs)
           in h (0x01 # mth h (take k vs) @ mth h (drop k vs))
      else case vs of [] \<Rightarrow> EMPTY_HASH_BYTES | v # _ \<Rightarrow> h (0x00 # v))"
  by pat_completeness auto
termination
  using split_point_bounds by (relation "measure (\<lambda>(h, vs). length vs)") force+

declare mth.simps [simp del]

fun leaves :: "Tree \<Rightarrow> TreeLeafData list" where
  "leaves (Empty _) = []"
| "leaves (Leaf _ v) = [v]"
| "leaves (Node _ l r) = leaves l @ leaves r"

fun no_empty :: "Tree \<Rightarrow> bool" where
  "no_empty (Empty _) = False"
| "no_empty (Leaf _ _) = True"
| "no_empty (Node _ l r) = (no_empty l \<and> no_empty r)"

fun well_hashed :: "(bytes \<Rightarrow> bytes) \<Rightarrow> Tree \<Rightarrow> bool" where
  "well_hashed h (Empty hash) = (hash = EMPTY_HASH_BYTES)"
| "well_hashed h (Leaf hash v) = (hash = h (0x00 # v))"
| "well_hashed h (Node hash l r) =
     (hash = h (0x01 # tree_hash l @ tree_hash r) \<and> well_hashed h l \<and> well_hashed h r)"

fun clog2 :: "nat \<Rightarrow> nat" where
  "clog2 n = (if n \<le> 1 then 0 else 1 + clog2 ((n + 1) div 2))"

declare clog2.simps [simp del]

subsection \<open>Facts about the specification\<close>

lemma join_trees_single [simp]: "join_trees h [t] = t"
  by (simp add: join_trees.simps)

lemma join_trees_two: "join_trees h [s, t] = joined h s t"
  by (simp add: join_trees.simps [of h "[s, t]"] split_point.simps [of "Suc (Suc 0)"] Let_def)

lemma tree_hash_rfc_tree: "tree_hash (rfc_tree h vs) = mth h vs"
proof (induction h vs rule: mth.induct)
  case (1 h vs)
  show ?case
  proof (cases "length vs > 1")
    case True
    with 1 show ?thesis
      by (simp add: rfc_tree_def join_trees.simps [of h "map (hashed_leaf h) vs"]
          mth.simps [of h vs] joined_def Let_def take_map drop_map)
  next
    case False
    then show ?thesis
      by (cases vs) (simp_all add: rfc_tree_def join_trees.simps mth.simps hashed_leaf_def)
  qed
qed

lemma join_trees_induct [consumes 1, case_names single split]:
  assumes "ts \<noteq> []"
    and single: "\<And>t. P [t]"
    and split: "\<And>ts. 1 < length ts \<Longrightarrow> P (take (split_point (length ts)) ts)
      \<Longrightarrow> P (drop (split_point (length ts)) ts) \<Longrightarrow> P ts"
  shows "P (ts :: 'a list)"
  using assms(1)
proof (induction "length ts" arbitrary: ts rule: less_induct)
  case less
  show ?case
  proof (cases "length ts > 1")
    case True
    let ?k = "split_point (length ts)"
    from split_point_bounds [OF True] have "0 < ?k" "?k < length ts" by simp_all
    then have "P (take ?k ts)" "P (drop ?k ts)"
      by (auto intro!: less.hyps)
    with True show ?thesis by (rule split)
  next
    case False
    with less.prems obtain t where "ts = [t]" by (cases ts) auto
    with single show ?thesis by simp
  qed
qed

lemma join_trees_split:
  "1 < length ts \<Longrightarrow> join_trees h ts =
     joined h (join_trees h (take (split_point (length ts)) ts))
              (join_trees h (drop (split_point (length ts)) ts))"
  by (simp add: join_trees.simps [of h ts] Let_def)

lemma leaves_join_trees: "ts \<noteq> [] \<Longrightarrow> leaves (join_trees h ts) = concat (map leaves ts)"
proof (induction ts rule: join_trees_induct)
  case (split ts)
  then have "leaves (join_trees h ts) =
      concat (map leaves (take (split_point (length ts)) ts @ drop (split_point (length ts)) ts))"
    by (simp only: join_trees_split joined_def leaves.simps map_append concat_append)
  then show ?case by simp
qed simp

lemma no_empty_join_trees:
  "ts \<noteq> [] \<Longrightarrow> list_all no_empty ts \<Longrightarrow> no_empty (join_trees h ts)"
proof (induction ts rule: join_trees_induct)
  case (split ts)
  then show ?case
    by (auto simp: join_trees_split joined_def list_all_iff dest: in_set_takeD in_set_dropD)
qed simp

lemma well_hashed_join_trees:
  "ts \<noteq> [] \<Longrightarrow> list_all (well_hashed h) ts \<Longrightarrow> well_hashed h (join_trees h ts)"
proof (induction ts rule: join_trees_induct)
  case (split ts)
  then show ?case
    by (auto simp: join_trees_split joined_def list_all_iff dest: in_set_takeD in_set_dropD)
qed simp

lemma well_hashed_rfc_tree: "well_hashed h (rfc_tree h vs)"
proof (cases "vs = []")
  case False
  then show ?thesis
    unfolding rfc_tree_def
    by (intro well_hashed_join_trees) (auto simp: list_all_iff hashed_leaf_def)
qed (simp add: rfc_tree_def join_trees.simps)

lemma leaves_rfc_tree [simp]: "leaves (rfc_tree h vs) = vs"
proof (cases "vs = []")
  case False
  then show ?thesis
    by (simp add: rfc_tree_def leaves_join_trees hashed_leaf_def comp_def concat_map_singleton)
qed (simp add: rfc_tree_def join_trees.simps)

lemma no_empty_rfc_tree: "vs \<noteq> [] \<Longrightarrow> no_empty (rfc_tree h vs)"
  unfolding rfc_tree_def by (rule no_empty_join_trees) (auto simp: list_all_iff hashed_leaf_def)

lemma rfc_tree_single [simp]: "rfc_tree h [v] = hashed_leaf h v"
  by (simp add: rfc_tree_def)

lemma rfc_tree_split:
  "1 < length vs \<Longrightarrow> rfc_tree h vs =
     joined h (rfc_tree h (take (split_point (length vs)) vs))
              (rfc_tree h (drop (split_point (length vs)) vs))"
  by (simp add: rfc_tree_def join_trees_split take_map drop_map)

lemma clog2_le_iff: "clog2 n \<le> e \<longleftrightarrow> n \<le> 2 ^ e"
proof (induction n arbitrary: e rule: clog2.induct)
  case (1 n)
  show ?case
  proof (cases "n \<le> 1")
    case True
    have "1 \<le> (2::nat) ^ e" by simp
    with True have "n \<le> 2 ^ e" by linarith
    with True show ?thesis by (simp add: clog2.simps [of n])
  next
    case False
    show ?thesis
    proof (cases e)
      case 0
      with False show ?thesis by (simp add: clog2.simps [of n])
    next
      case (Suc f)
      have "clog2 n \<le> e \<longleftrightarrow> clog2 ((n + 1) div 2) \<le> f"
        using False Suc by (simp add: clog2.simps [of n])
      also have "\<dots> \<longleftrightarrow> (n + 1) div 2 \<le> 2 ^ f" using 1 False by blast
      also have "\<dots> \<longleftrightarrow> n \<le> 2 ^ e" using Suc by auto
      finally show ?thesis .
    qed
  qed
qed

section \<open>Level-by-level construction builds the specified tree\<close>

fun pairs :: "(bytes \<Rightarrow> bytes) \<Rightarrow> Tree list \<Rightarrow> Tree list" where
  "pairs h [] = []"
| "pairs h [t] = [t]"
| "pairs h (l # r # ts) = joined h l r # pairs h ts"

lemma pair_up_total:
  "pair_up (total_digest h) cur nxt n = Inr (nxt @ pairs h cur, n + length cur div 2)"
  by (induction h cur arbitrary: nxt n rule: pairs.induct)
     (simp_all add: hash_nodes_def joined_def)

lemma length_pairs [simp]: "length (pairs h ts) = (length ts + 1) div 2"
  by (induction h ts rule: pairs.induct) simp_all

lemma pairs_append_even:
  "even (length xs) \<Longrightarrow> pairs h (xs @ ys) = pairs h xs @ pairs h ys"
  by (induction h xs rule: pairs.induct) simp_all

lemma join_trees_pairs: "ts \<noteq> [] \<Longrightarrow> join_trees h (pairs h ts) = join_trees h ts"
proof (induction ts rule: join_trees_induct)
  case (split ts)
  show ?case
  proof (cases "length ts = 2")
    case True
    then obtain s t where "ts = [s, t]"
      by (auto simp: numeral_2_eq_2 length_Suc_conv)
    then show ?thesis by (simp add: join_trees_two)
  next
    case False
    let ?k = "split_point (length ts)"
    let ?m = "split_point ((length ts + 1) div 2)"
    from False split(1) have k: "?k = 2 * ?m"
      by (simp add: split_point.simps [of "length ts"])
    from split_point_bounds [OF split(1)] have lt: "?k < length ts" by simp
    have "pairs h ts = pairs h (take ?k ts @ drop ?k ts)" by simp
    also have "\<dots> = pairs h (take ?k ts) @ pairs h (drop ?k ts)"
      using k lt by (intro pairs_append_even) simp
    finally have eq: "pairs h ts = pairs h (take ?k ts) @ pairs h (drop ?k ts)" .
    have "length (pairs h (take ?k ts)) = ?m" using k lt by simp
    then have parts: "take ?m (pairs h ts) = pairs h (take ?k ts)"
      "drop ?m (pairs h ts) = pairs h (drop ?k ts)"
      unfolding eq by simp_all
    have "1 < length (pairs h ts)" using False split(1) by simp
    from join_trees_split [OF this, of h] have "join_trees h (pairs h ts) =
        joined h (join_trees h (pairs h (take ?k ts))) (join_trees h (pairs h (drop ?k ts)))"
      unfolding length_pairs parts .
    also have "\<dots> = join_trees h ts"
      using split by (simp add: join_trees_split)
    finally show ?thesis .
  qed
qed simp

lemma build_levels_total:
  "ts \<noteq> [] \<Longrightarrow> build_levels (total_digest h) ts height n =
     Inr ([join_trees h ts], height + clog2 (length ts), n + (length ts - 1))"
proof (induction "length ts" arbitrary: ts height n rule: less_induct)
  case less
  show ?case
  proof (cases "length ts > 1")
    case True
    have "length (pairs h ts) < length ts" "pairs h ts \<noteq> []"
      using True by (simp_all flip: length_0_conv)
    note IH = less.hyps [OF this]
    show ?thesis
      using True IH
      by (simp add: build_levels.simps [of _ ts] pair_up_total join_trees_pairs less.prems
          clog2.simps [of "length ts"])
  next
    case False
    with less.prems obtain t where "ts = [t]" by (cases ts) auto
    then show ?thesis by (simp add: build_levels.simps clog2.simps)
  qed
qed

lemma new_leaf_total: "new_leaf (total_digest h) = (\<lambda>v. Inr (hashed_leaf h v))"
  by (simp add: fun_eq_iff new_leaf_def hash_leaf_def hashed_leaf_def)

definition rfc_merkle :: "(bytes \<Rightarrow> bytes) \<Rightarrow> TreeLeafData list \<Rightarrow> MerkleTree" where
  "rfc_merkle h vs =
     \<lparr>mt_root = rfc_tree h vs, mt_height = clog2 (length vs),
      mt_count = length vs, mt_nodes_count = length vs - 1\<rparr>"

lemma from_vec_rfc_merkle: "from_vec (total_digest h) vs = Inr (rfc_merkle h vs)"
proof (cases "vs = []")
  case True
  then show ?thesis
    by (simp add: from_vec_def rfc_merkle_def mt_default_def rfc_tree_def join_trees.simps
        clog2.simps)
next
  case False
  then show ?thesis
    by (simp add: from_vec_def new_leaf_total traverse_Inr build_levels_total rfc_merkle_def
        rfc_tree_def)
qed

lemma root_hash_rfc_merkle [simp]: "root_hash (rfc_merkle h vs) = mth h vs"
  by (simp add: root_hash_def rfc_merkle_def tree_hash_rfc_tree)

lemma clog2_pow2 [simp]: "clog2 (2 ^ e) = e"
proof (rule antisym)
  show "clog2 (2 ^ e) \<le> e" by (simp add: clog2_le_iff)
  have "(2::nat) ^ e \<le> 2 ^ clog2 (2 ^ e)" using clog2_le_iff [of "2 ^ e"] by blast
  then show "e \<le> clog2 (2 ^ e)" by (rule power_le_imp_le_exp [rotated]) simp
qed

lemma clog2_between: "2 ^ e < n \<Longrightarrow> n \<le> 2 * 2 ^ e \<Longrightarrow> clog2 n = Suc e"
  using clog2_le_iff [of n e] clog2_le_iff [of n "Suc e"] by simp

lemma clog2_mono: "m \<le> n \<Longrightarrow> clog2 m \<le> clog2 n"
  by (meson clog2_le_iff le_trans order_refl)

lemma get_height_join_trees:
  "ts \<noteq> [] \<Longrightarrow> list_all (\<lambda>t. get_height t = 0) ts \<Longrightarrow> get_height (join_trees h ts) = clog2 (length ts)"
proof (induction ts rule: join_trees_induct)
  case (split ts)
  let ?k = "split_point (length ts)"
  from split_point_bounds [OF split(1)] have b: "?k < length ts" "length ts \<le> 2 * ?k" by simp_all
  obtain e where e: "?k = 2 ^ e" using split_point_pow2 by blast
  have flat: "list_all (\<lambda>t. get_height t = 0) (take ?k ts)"
    "list_all (\<lambda>t. get_height t = 0) (drop ?k ts)"
    using split.prems by (auto simp: list_all_iff dest: in_set_takeD in_set_dropD)
  have "get_height (join_trees h (take ?k ts)) = clog2 (length (take ?k ts))"
    by (rule split.IH(1) [OF flat(1)])
  also have "length (take ?k ts) = 2 ^ e" using b(1) e by simp
  finally have "get_height (join_trees h (take ?k ts)) = e" by simp
  moreover have "get_height (join_trees h (drop ?k ts)) = clog2 (length ts - ?k)"
    using split.IH(2) [OF flat(2)] by simp
  moreover have "clog2 (length ts - ?k) \<le> e" using b e by (simp add: clog2_le_iff)
  moreover have "clog2 (length ts) = Suc e" using b e by (simp add: clog2_between)
  ultimately show ?case using split(1) by (simp add: join_trees_split joined_def)
qed (simp add: clog2.simps)

lemma get_count_leaves: "get_count t = length (leaves t)"
  by (induction t) simp_all

section \<open>The iterator interface\<close>

text \<open>
  What the clients of the two leaf iterators rely on: \<open>collect\<close> is the loop over
  \<open>nxt\<close>, and \<open>pending\<close> is the abstract view, the leaves still to come. A tree is
  iterable when it is the empty tree or has no empty subtree: an empty subtree would end the
  iteration early.
\<close>

definition iterable :: "Tree \<Rightarrow> bool" where
  "iterable t \<longleftrightarrow> no_empty t \<or> (\<exists>hash. t = Empty hash)"

locale leaf_iterator =
  fixes start :: "Tree \<Rightarrow> 'it"
    and nxt :: "'it \<Rightarrow> TreeLeafData option \<times> 'it"
    and collect :: "'it \<Rightarrow> TreeLeafData list"
    and pending :: "'it \<Rightarrow> TreeLeafData list"
    and valid :: "'it \<Rightarrow> bool"
  assumes collect_unfold:
      "collect it = (case nxt it of (None, _) \<Rightarrow> [] | (Some x, it') \<Rightarrow> x # collect it')"
    and valid_start: "iterable t \<Longrightarrow> valid (start t)"
    and pending_start: "iterable t \<Longrightarrow> pending (start t) = leaves t"
    and nxt_Cons: "valid it \<Longrightarrow> pending it = x # xs \<Longrightarrow>
      \<exists>it'. nxt it = (Some x, it') \<and> valid it' \<and> pending it' = xs"
    and nxt_Nil: "valid it \<Longrightarrow> pending it = [] \<Longrightarrow> fst (nxt it) = None"
begin

lemma collect_pending: "valid it \<Longrightarrow> collect it = pending it"
proof (induction "pending it" arbitrary: it)
  case Nil
  then have "fst (nxt it) = None" by (simp add: nxt_Nil)
  then obtain it' where "nxt it = (None, it')" by (cases "nxt it") auto
  with Nil show ?case by (simp add: collect_unfold [of it])
next
  case (Cons x xs)
  from nxt_Cons [OF Cons.prems Cons.hyps(2) [symmetric]] obtain it' where
    it': "nxt it = (Some x, it')" "valid it'" "pending it' = xs" by blast
  with Cons.hyps have "collect it' = xs" by simp
  with it' Cons.hyps(2) show ?case by (simp add: collect_unfold [of it])
qed

lemma collect_start: "iterable t \<Longrightarrow> collect (start t) = leaves t"
  by (simp add: collect_pending valid_start pending_start)

end

definition iter_pending :: "LeavesIterator \<Rightarrow> TreeLeafData list" where
  "iter_pending it =
     (case current_value it of None \<Rightarrow> [] | Some v \<Rightarrow> [v]) @ concat (map leaves (right_nodes it))"

definition iter_valid :: "LeavesIterator \<Rightarrow> bool" where
  "iter_valid it \<longleftrightarrow> list_all no_empty (right_nodes it) \<and>
     (current_value it = None \<longrightarrow> right_nodes it = [])"

lemma iter_add_left_no_empty:
  "no_empty t \<Longrightarrow> list_all no_empty (right_nodes it) \<Longrightarrow>
     iter_valid (iter_add_left it t) \<and>
     iter_pending (iter_add_left it t) = leaves t @ concat (map leaves (right_nodes it))"
  by (induction it t rule: iter_add_left.induct) (auto simp: iter_valid_def iter_pending_def)

lemma iter_new_spec:
  "iterable t \<Longrightarrow> iter_valid (iter_new t) \<and> iter_pending (iter_new t) = leaves t"
  using iter_add_left_no_empty [of t "\<lparr>current_value = None, right_nodes = []\<rparr>"]
  by (auto simp: iterable_def iter_new_def iter_valid_def iter_pending_def)

lemma iter_next_Cons:
  assumes "iter_valid it" "iter_pending it = x # xs"
  shows "\<exists>it'. iter_next it = (Some x, it') \<and> iter_valid it' \<and> iter_pending it' = xs"
proof -
  from assms obtain v where v: "current_value it = Some v"
    by (auto simp: iter_valid_def iter_pending_def split: option.splits)
  show ?thesis
  proof (cases "right_nodes it")
    case Nil
    with v assms show ?thesis
      by (simp add: iter_next_def iter_valid_def iter_pending_def)
  next
    case (Cons rest stack)
    let ?it = "it\<lparr>current_value := None, right_nodes := stack\<rparr>"
    from Cons assms v have "no_empty rest" "list_all no_empty (right_nodes ?it)"
      and xs: "x = v" "xs = leaves rest @ concat (map leaves stack)"
      by (auto simp: iter_valid_def iter_pending_def)
    from iter_add_left_no_empty [OF this(1,2)] Cons v xs show ?thesis
      by (simp add: iter_next_def)
  qed
qed

interpretation borrowing: leaf_iterator iter_new iter_next iter_collect iter_pending iter_valid
proof
  show "iter_collect it = (case iter_next it of (None, _) \<Rightarrow> [] | (Some x, it') \<Rightarrow> x # iter_collect it')"
    for it by (rule iter_collect.simps)
  show "iterable t \<Longrightarrow> iter_valid (iter_new t)"
    and "iterable t \<Longrightarrow> iter_pending (iter_new t) = leaves t" for t
    using iter_new_spec by blast+
  show "\<exists>it'. iter_next it = (Some x, it') \<and> iter_valid it' \<and> iter_pending it' = xs"
    if "iter_valid it" "iter_pending it = x # xs" for it x xs
    using that by (rule iter_next_Cons)
  show "iter_valid it \<Longrightarrow> iter_pending it = [] \<Longrightarrow> fst (iter_next it) = None" for it
    by (auto simp: iter_next_def iter_pending_def Let_def split: option.splits list.splits)
qed

definition into_iter_pending :: "LeavesIntoIterator \<Rightarrow> TreeLeafData list" where
  "into_iter_pending it =
     (case into_current_value it of None \<Rightarrow> [] | Some v \<Rightarrow> [v])
     @ concat (map leaves (into_right_nodes it))"

definition into_iter_valid :: "LeavesIntoIterator \<Rightarrow> bool" where
  "into_iter_valid it \<longleftrightarrow> list_all no_empty (into_right_nodes it) \<and>
     (into_current_value it = None \<longrightarrow> into_right_nodes it = [])"

lemma into_iter_add_left_no_empty:
  "no_empty t \<Longrightarrow> list_all no_empty (into_right_nodes it) \<Longrightarrow>
     into_iter_valid (into_iter_add_left it t) \<and>
     into_iter_pending (into_iter_add_left it t) = leaves t @ concat (map leaves (into_right_nodes it))"
  by (induction it t rule: into_iter_add_left.induct)
     (auto simp: into_iter_valid_def into_iter_pending_def)

lemma into_iter_new_spec:
  "iterable t \<Longrightarrow> into_iter_valid (into_iter_new t) \<and> into_iter_pending (into_iter_new t) = leaves t"
  using into_iter_add_left_no_empty [of t "\<lparr>into_current_value = None, into_right_nodes = []\<rparr>"]
  by (auto simp: iterable_def into_iter_new_def into_iter_valid_def into_iter_pending_def)

lemma into_iter_next_Cons:
  assumes "into_iter_valid it" "into_iter_pending it = x # xs"
  shows "\<exists>it'. into_iter_next it = (Some x, it') \<and> into_iter_valid it' \<and> into_iter_pending it' = xs"
proof -
  from assms obtain v where v: "into_current_value it = Some v"
    by (auto simp: into_iter_valid_def into_iter_pending_def split: option.splits)
  show ?thesis
  proof (cases "into_right_nodes it")
    case Nil
    with v assms show ?thesis
      by (simp add: into_iter_next_def into_iter_valid_def into_iter_pending_def)
  next
    case (Cons rest stack)
    let ?it = "it\<lparr>into_current_value := None, into_right_nodes := stack\<rparr>"
    from Cons assms v have "no_empty rest" "list_all no_empty (into_right_nodes ?it)"
      and xs: "x = v" "xs = leaves rest @ concat (map leaves stack)"
      by (auto simp: into_iter_valid_def into_iter_pending_def)
    from into_iter_add_left_no_empty [OF this(1,2)] Cons v xs show ?thesis
      by (simp add: into_iter_next_def)
  qed
qed

interpretation consuming: leaf_iterator
  into_iter_new into_iter_next into_iter_collect into_iter_pending into_iter_valid
proof
  show "into_iter_collect it =
      (case into_iter_next it of (None, _) \<Rightarrow> [] | (Some x, it') \<Rightarrow> x # into_iter_collect it')"
    for it by (rule into_iter_collect.simps)
  show "iterable t \<Longrightarrow> into_iter_valid (into_iter_new t)"
    and "iterable t \<Longrightarrow> into_iter_pending (into_iter_new t) = leaves t" for t
    using into_iter_new_spec by blast+
  show "\<exists>it'. into_iter_next it = (Some x, it') \<and> into_iter_valid it' \<and> into_iter_pending it' = xs"
    if "into_iter_valid it" "into_iter_pending it = x # xs" for it x xs
    using that by (rule into_iter_next_Cons)
  show "into_iter_valid it \<Longrightarrow> into_iter_pending it = [] \<Longrightarrow> fst (into_iter_next it) = None" for it
    by (auto simp: into_iter_next_def into_iter_pending_def Let_def
        split: option.splits list.splits)
qed

lemma iterable_rfc_tree: "iterable (rfc_tree h vs)"
proof (cases "vs = []")
  case True
  then show ?thesis by (simp add: iterable_def rfc_tree_def join_trees.simps)
next
  case False
  then show ?thesis by (simp add: iterable_def no_empty_rfc_tree)
qed

section \<open>Properties\<close>

lemma get_height_rfc_tree: "get_height (rfc_tree h vs) = clog2 (length vs)"
proof (cases "vs = []")
  case False
  then have "get_height (rfc_tree h vs) = clog2 (length (map (hashed_leaf h) vs))"
    unfolding rfc_tree_def
    by (intro get_height_join_trees) (auto simp: list_all_iff hashed_leaf_def)
  then show ?thesis by simp
qed (simp add: rfc_tree_def join_trees.simps clog2.simps)

text \<open>
  C1: the level-by-level loops of \<^verbatim>\<open>MerkleTree::from_vec\<close> terminate with the Merkle tree that
  RFC 6962 defines recursively: for every vector and every digest that does not fail, the root
  hash is the Merkle tree hash of the vector, the recorded count, height and number of inner
  nodes are those of the tree, and the height is the least \<open>e\<close> with \<open>count \<le> 2 ^ e\<close>.
  The empty vector gives the default tree, where the comment on \<^verbatim>\<open>from_vec\<close> promises \<^verbatim>\<open>None\<close>, and \<^verbatim>\<open>nodes_count\<close>,
  in its comment the number of nodes, is one less than the number of leaves.
\<close>
theorem from_vec_is_rfc6962:
  "\<exists>mt. from_vec (total_digest h) vs = Inr mt
      \<and> root_hash mt = mth h vs
      \<and> mt_count mt = length vs \<and> get_count (mt_root mt) = mt_count mt
      \<and> mt_nodes_count mt = length vs - 1
      \<and> get_height (mt_root mt) = mt_height mt
      \<and> (\<forall>e. mt_height mt \<le> e \<longleftrightarrow> mt_count mt \<le> 2 ^ e)"
proof (intro exI conjI)
  show "from_vec (total_digest h) vs = Inr (rfc_merkle h vs)" by (rule from_vec_rfc_merkle)
  show "root_hash (rfc_merkle h vs) = mth h vs" by simp
qed (simp_all add: rfc_merkle_def get_count_leaves get_height_rfc_tree clog2_le_iff)

text \<open>
  Both leaf iterators are round trips of \<^verbatim>\<open>from_vec\<close>: draining the borrowing or the
  consuming iterator of the tree of a vector ends, and returns the vector in its order.
\<close>
theorem from_vec_iter_roundtrip:
  "\<exists>mt. from_vec (total_digest h) vs = Inr mt
      \<and> iter_collect (mt_iter mt) = vs \<and> into_iter_collect (mt_into_iter mt) = vs"
  by (simp add: from_vec_rfc_merkle mt_iter_def mt_into_iter_def rfc_merkle_def
      borrowing.collect_start consuming.collect_start iterable_rfc_tree)

end
