(* ===== verification/Merkle_Ops.thy ===== *)
theory Merkle_Ops
  imports Merkle_Tree
begin

text \<open>
  The operations of \<^verbatim>\<open>libindy/src/services/ledger/merkletree/mod.rs\<close> on a Merkle tree:
  the population count, the search for a subtree by its hash, the appending of a transaction
  and the check of a consistency proof. The main result on \<open>append\<close> is that appending to
  the tree of \<open>vs\<close> is building the tree of \<open>vs @ [v]\<close>.
\<close>

unbundle bit_operations_syntax

section \<open>Counting bits\<close>

lemma nat_and_pred_less: "0 < n \<Longrightarrow> n AND (n - 1) < (n::nat)"
proof -
  assume "0 < n"
  have "n AND (n - 1) \<le> n - 1"
    by (simp add: nat_le_iff and_nat_def)
  with \<open>0 < n\<close> show ?thesis by linarith
qed

function count_bits_loop :: "nat \<Rightarrow> nat \<Rightarrow> nat" where
  "count_bits_loop val ret =
     (if val \<noteq> 0 then count_bits_loop (val AND (val - 1)) (ret + 1) else ret)"
  by pat_completeness auto
termination
  using nat_and_pred_less by (relation "measure fst") auto

declare count_bits_loop.simps [simp del]

definition count_bits :: "nat \<Rightarrow> nat" where
  "count_bits v = count_bits_loop v 0"

section \<open>Searching a subtree by hash\<close>

fun find_hash :: "Tree \<Rightarrow> bytes \<Rightarrow> Tree option IndyResult" where
  "find_hash (Empty _) required_hash = Inl Panic"
| "find_hash (Node hash left right) required_hash =
     (if hash = required_hash then Inr (Some (Node hash left right))
      else bindr (find_hash right required_hash) (\<lambda>r.
             case r of
               Some r \<Rightarrow> Inr (Some r)
             | None \<Rightarrow> find_hash left required_hash))"
| "find_hash (Leaf hash v) required_hash =
     (if hash = required_hash then Inr (Some (Leaf hash v)) else Inr None)"

section \<open>Appending a transaction\<close>

definition append_to_right :: "digest \<Rightarrow> MerkleTree \<Rightarrow> TreeLeafData \<Rightarrow> MerkleTree IndyResult" where
  "append_to_right digest mt node =
     (case mt_root mt of
        Node _ left right \<Rightarrow>
          bindr (from_vec digest (iter_collect (iter_new right) @ [node])) (\<lambda>new_right.
          bindr (hash_nodes digest (tree_hash left) (root_hash new_right)) (\<lambda>combined_hash.
          Inr (mt\<lparr>mt_root := Node combined_hash left (mt_root new_right),
                  mt_count := mt_count mt + 1,
                  mt_nodes_count := mt_nodes_count mt + 1\<rparr>)))
      | _ \<Rightarrow> Inl Panic)"

definition append_layer :: "digest \<Rightarrow> MerkleTree \<Rightarrow> TreeLeafData \<Rightarrow> MerkleTree IndyResult" where
  "append_layer digest mt node =
     bindr (from_vec digest [node]) (\<lambda>new_right.
     bindr
       (case mt_root mt of
          Node hash _ _ \<Rightarrow>
            bindr (hash_nodes digest hash (root_hash new_right)) (\<lambda>combined_hash.
            Inr (mt\<lparr>mt_root := Node combined_hash (mt_root mt) (mt_root new_right),
                    mt_count := mt_count mt + 1,
                    mt_nodes_count := mt_nodes_count mt + 1\<rparr>))
        | Leaf hash value \<Rightarrow>
            bindr (hash_nodes digest hash (root_hash new_right)) (\<lambda>combined_hash.
            bindr (new_leaf digest value) (\<lambda>left.
            Inr (mt\<lparr>mt_root := Node combined_hash left (mt_root new_right),
                    mt_count := mt_count mt + 1,
                    mt_nodes_count := mt_nodes_count mt + 1\<rparr>)))
        | Empty _ \<Rightarrow> Inl Panic)
       (\<lambda>mt. Inr (mt\<lparr>mt_height := mt_height mt + 1\<rparr>)))"

definition mt_append :: "digest \<Rightarrow> MerkleTree \<Rightarrow> TreeLeafData \<Rightarrow> MerkleTree IndyResult" where
  "mt_append digest mt node =
     (if mt_count mt = 0 then
        bindr (new_leaf digest node) (\<lambda>leaf.
        Inr (mt\<lparr>mt_root := leaf, mt_count := mt_count mt + 1\<rparr>))
      else if count_bits (mt_count mt) \<noteq> 1 then append_to_right digest mt node
      else append_layer digest mt node)"

section \<open>Checking a consistency proof\<close>

text \<open>
  The three loops of \<^verbatim>\<open>consistency_proof\<close>. The second and the third return \<^verbatim>\<open>None\<close>
  where the code leaves with \<^verbatim>\<open>Ok(false)\<close> because the proof has no further hash.
\<close>

function strip_right :: "nat \<Rightarrow> nat \<Rightarrow> nat \<times> nat" where
  "strip_right old_node new_node =
     (if odd old_node then strip_right (old_node div 2) (new_node div 2) else (old_node, new_node))"
  by pat_completeness auto
termination
  by (relation "measure fst") (auto elim: oddE)

declare strip_right.simps [simp del]

function climb_old ::
  "digest \<Rightarrow> nat \<Rightarrow> nat \<Rightarrow> bytes \<Rightarrow> bytes \<Rightarrow> bytes list \<Rightarrow> (nat \<times> bytes \<times> bytes \<times> bytes list) option IndyResult"
where
  "climb_old digest old_node new_node old_hash new_hash proofs =
     (if old_node = 0 then Inr (Some (new_node, old_hash, new_hash, proofs))
      else if odd old_node then
        (case proofs of
           [] \<Rightarrow> Inr None
         | next_proof # proofs \<Rightarrow>
             bindr (hash_nodes digest next_proof old_hash) (\<lambda>old_hash.
             bindr (hash_nodes digest next_proof new_hash) (\<lambda>new_hash.
             climb_old digest (old_node div 2) (new_node div 2) old_hash new_hash proofs)))
      else if old_node < new_node then
        (case proofs of
           [] \<Rightarrow> Inr None
         | next_proof # proofs \<Rightarrow>
             bindr (hash_nodes digest new_hash next_proof) (\<lambda>new_hash.
             climb_old digest (old_node div 2) (new_node div 2) old_hash new_hash proofs))
      else climb_old digest (old_node div 2) (new_node div 2) old_hash new_hash proofs)"
  by pat_completeness auto
termination
  by (relation "measure (\<lambda>(digest, old_node, rest). old_node)") auto

declare climb_old.simps [simp del]

fun climb_new :: "digest \<Rightarrow> nat \<Rightarrow> bytes \<Rightarrow> bytes list \<Rightarrow> bytes option IndyResult" where
  "climb_new digest new_node new_hash proofs =
     (if new_node = 0 then Inr (Some new_hash)
      else case proofs of
             [] \<Rightarrow> Inr None
           | n # proofs \<Rightarrow>
               bindr (hash_nodes digest new_hash n) (\<lambda>new_hash.
               climb_new digest (new_node div 2) new_hash proofs))"

declare climb_new.simps [simp del]

definition consistency_proof ::
  "digest \<Rightarrow> MerkleTree \<Rightarrow> bytes \<Rightarrow> nat \<Rightarrow> bytes list \<Rightarrow> bool IndyResult" where
  "consistency_proof digest mt new_root_hash new_size proof =
     (if mt_count mt = 0 then Inr True
      else if mt_count mt = new_size \<and> root_hash mt = new_root_hash then Inr True
      else if mt_count mt > new_size then Inl Panic
      else
        let (old_node, new_node) = strip_right (mt_count mt - 1) (new_size - 1)
        in case (if old_node \<noteq> 0
                 then (case proof of [] \<Rightarrow> None | p # proofs \<Rightarrow> Some (p, proofs))
                 else Some (root_hash mt, proof)) of
             None \<Rightarrow> Inr False
           | Some (new_hash, proofs) \<Rightarrow>
               bindr (climb_old digest old_node new_node new_hash new_hash proofs) (\<lambda>climbed.
               case climbed of
                 None \<Rightarrow> Inr False
               | Some (new_node, old_hash, new_hash, proofs) \<Rightarrow>
                   bindr (climb_new digest new_node new_hash proofs) (\<lambda>top.
                   case top of
                     None \<Rightarrow> Inr False
                   | Some new_hash \<Rightarrow>
                       if new_hash \<noteq> new_root_hash then Inr False
                       else if old_hash \<noteq> root_hash mt then Inr False
                       else Inr True)))"

section \<open>A power of two has one bit\<close>

lemma count_bits_loop_0 [simp]: "count_bits_loop 0 ret = ret"
  by (simp add: count_bits_loop.simps)

lemma count_bits_loop_pos:
  "0 < val \<Longrightarrow> count_bits_loop val ret = count_bits_loop (val AND (val - 1)) (ret + 1)"
  by (simp add: count_bits_loop.simps [of val])

lemma count_bits_loop_ge: "ret \<le> count_bits_loop val ret"
proof (induction val ret rule: count_bits_loop.induct)
  case (1 val ret)
  then show ?case
    by (cases "val = 0") (auto simp: count_bits_loop_pos)
qed

lemma count_bits_loop_eq_iff: "count_bits_loop val ret = ret \<longleftrightarrow> val = 0"
proof (cases "val = 0")
  case False
  then have "ret + 1 \<le> count_bits_loop val ret"
    using count_bits_loop_ge [of "ret + 1"] by (simp add: count_bits_loop_pos)
  with False show ?thesis by simp
qed simp

lemma count_bits_one_iff_and: "0 < n \<Longrightarrow> count_bits n = 1 \<longleftrightarrow> n AND (n - 1) = 0"
  using count_bits_loop_eq_iff [of "n AND (n - 1)" 1]
  by (simp add: count_bits_def count_bits_loop_pos [of n])

lemma and_pred_zero_iff: "0 < n \<Longrightarrow> n AND (n - 1) = 0 \<longleftrightarrow> (\<exists>e. n = 2 ^ e)" for n :: nat
proof (induction n rule: less_induct)
  case (less n)
  show ?case
  proof (cases "even n")
    case True
    then obtain m where m: "n = 2 * m" by blast
    with less.prems have pos: "0 < m" "m < n" by simp_all
    have div: "(2 * m - Suc 0) div 2 = m - Suc 0" using pos by linarith
    have "n AND (n - 1) = 2 * (m AND (m - 1))"
      by (subst and_rec) (simp add: m div)
    then have "n AND (n - 1) = 0 \<longleftrightarrow> (\<exists>e. m = 2 ^ e)"
      using less.IH [OF pos(2,1)] by simp
    also have "\<dots> \<longleftrightarrow> (\<exists>e. n = 2 ^ e)"
    proof
      assume "\<exists>e. m = 2 ^ e"
      then obtain e where "n = 2 ^ Suc e" using m by auto
      then show "\<exists>e. n = 2 ^ e" by blast
    next
      assume "\<exists>e. n = 2 ^ e"
      then obtain e where "n = 2 ^ e" by blast
      with m show "\<exists>e. m = 2 ^ e" by (cases e) auto
    qed
    finally show ?thesis .
  next
    case False
    then obtain m where m: "n = 2 * m + 1" by (blast elim: oddE)
    have "n AND (n - 1) = 2 * m" by (subst and_rec) (simp add: m)
    moreover have "(\<exists>e. n = 2 ^ e) \<longleftrightarrow> m = 0"
    proof
      assume "\<exists>e. n = 2 ^ e"
      then obtain e where "n = 2 ^ e" by blast
      with False have "n = 1" by (cases e) auto
      with m show "m = 0" by simp
    qed (use m in \<open>auto intro: exI [of _ 0]\<close>)
    ultimately show ?thesis by simp
  qed
qed

lemma count_bits_one_iff: "0 < n \<Longrightarrow> count_bits n = 1 \<longleftrightarrow> (\<exists>e. n = 2 ^ e)"
  by (simp only: count_bits_one_iff_and and_pred_zero_iff)

section \<open>Appending builds the tree of the longer vector\<close>

lemma split_point_Suc_same:
  assumes "1 < n" "\<nexists>e. n = 2 ^ e"
  shows "split_point (n + 1) = split_point n \<and> clog2 (n + 1) = clog2 n"
proof -
  from split_point_bounds [OF assms(1)] have b: "split_point n < n" "n \<le> 2 * split_point n"
    by simp_all
  obtain e where e: "split_point n = 2 ^ e" using split_point_pow2 by blast
  have "n \<noteq> 2 * 2 ^ e" using assms(2) by (metis power_Suc)
  with b e have "n + 1 \<le> 2 * 2 ^ e" "2 ^ e < n + 1" "2 ^ e < n" by simp_all
  then show ?thesis by (simp add: e split_point_eqI clog2_between)
qed

lemma iter_collect_rfc_tree: "iter_collect (iter_new (rfc_tree h vs)) = vs"
  by (simp add: borrowing.collect_start iterable_rfc_tree)

lemma append_to_right_rfc:
  assumes "1 < length vs" "\<nexists>e. length vs = 2 ^ e"
  shows "append_to_right (total_digest h) (rfc_merkle h vs) v = Inr (rfc_merkle h (vs @ [v]))"
proof -
  let ?k = "split_point (length vs)"
  note same = split_point_Suc_same [OF assms]
  have k: "?k < length vs" using split_point_bounds [OF assms(1)] by simp
  have root: "rfc_tree h vs = joined h (rfc_tree h (take ?k vs)) (rfc_tree h (drop ?k vs))"
    using assms(1) by (rule rfc_tree_split)
  have "1 < length (vs @ [v])" using assms(1) unfolding length_append by linarith
  from rfc_tree_split [OF this, of h] have "rfc_tree h (vs @ [v]) =
      joined h (rfc_tree h (take ?k vs)) (rfc_tree h (drop ?k vs @ [v]))"
    using same k by simp
  with root same assms(1) show ?thesis
    by (simp add: append_to_right_def rfc_merkle_def joined_def iter_collect_rfc_tree
        from_vec_rfc_merkle hash_nodes_def tree_hash_rfc_tree root_hash_def)
qed

lemma append_layer_rfc:
  assumes "length vs = 2 ^ e"
  shows "append_layer (total_digest h) (rfc_merkle h vs) v = Inr (rfc_merkle h (vs @ [v]))"
proof -
  let ?n = "length vs"
  have pos: "0 < ?n" using assms by simp
  have "split_point (?n + 1) = ?n" "clog2 (?n + 1) = clog2 ?n + 1"
    using assms by (simp_all add: split_point_eqI clog2_between)
  moreover have "1 < length (vs @ [v])" using pos by simp
  note rfc_tree_split [OF this, of h]
  ultimately have new: "rfc_tree h (vs @ [v]) = joined h (rfc_tree h vs) (hashed_leaf h v)"
    and height: "clog2 (?n + 1) = clog2 ?n + 1"
    by simp_all
  show ?thesis
  proof (cases "?n = 1")
    case True
    then obtain w where "vs = [w]" by (auto simp: length_Suc_conv)
    with new height show ?thesis
      by (simp add: append_layer_def rfc_merkle_def from_vec_rfc_merkle root_hash_def
          joined_def hash_nodes_def new_leaf_total hashed_leaf_def)
  next
    case False
    with pos have "1 < ?n" by linarith
    from rfc_tree_split [OF this, of h] obtain hash l r where "rfc_tree h vs = Node hash l r"
      by (simp add: joined_def)
    with new height pos show ?thesis
      by (simp add: append_layer_def rfc_merkle_def from_vec_rfc_merkle root_hash_def
          joined_def hash_nodes_def)
  qed
qed

lemma mt_append_rfc:
  "mt_append (total_digest h) (rfc_merkle h vs) v = Inr (rfc_merkle h (vs @ [v]))"
proof (cases "vs = []")
  case True
  then show ?thesis
    by (simp add: mt_append_def rfc_merkle_def new_leaf_total clog2.simps)
next
  case False
  then have pos: "0 < length vs" by simp
  have count: "mt_count (rfc_merkle h vs) = length vs" by (simp add: rfc_merkle_def)
  show ?thesis
  proof (cases "\<exists>e. length vs = 2 ^ e")
    case True
    then show ?thesis
      using count pos append_layer_rfc count_bits_one_iff [OF pos]
      by (auto simp: mt_append_def)
  next
    case no_pow: False
    then have "length vs \<noteq> 2 ^ 0" by blast
    with pos have "1 < length vs" unfolding power_0 by linarith
    then show ?thesis
      using count pos no_pow append_to_right_rfc count_bits_one_iff [OF pos]
      by (auto simp: mt_append_def)
  qed
qed

section \<open>Properties\<close>

text \<open>
  C2: \<^verbatim>\<open>MerkleTree::append\<close> agrees with rebuilding: appending a transaction to the tree of a
  vector, by extending the right subtree or by adding a layer, gives the very tree (root,
  height, count and number of nodes) that \<^verbatim>\<open>from_vec\<close> builds for the longer vector. In
  particular none of the asserted-unreachable branches is reached.
\<close>
theorem append_is_from_vec:
  "bindr (from_vec (total_digest h) vs) (\<lambda>mt. mt_append (total_digest h) mt v)
     = from_vec (total_digest h) (vs @ [v])"
  by (simp add: from_vec_rfc_merkle mt_append_rfc)

fun subtrees :: "Tree \<Rightarrow> Tree list" where
  "subtrees (Node hash l r) = Node hash l r # subtrees l @ subtrees r"
| "subtrees t = [t]"

lemma find_hash_spec:
  "no_empty t \<Longrightarrow> \<exists>r. find_hash t x = Inr r
     \<and> (case r of None \<Rightarrow> x \<notin> tree_hash ` set (subtrees t)
                | Some s \<Rightarrow> s \<in> set (subtrees t) \<and> tree_hash s = x)"
proof (induction t)
  case (Node hash l r)
  then obtain rr rl where "find_hash r x = Inr rr" "find_hash l x = Inr rl"
    and "case rr of None \<Rightarrow> x \<notin> tree_hash ` set (subtrees r)
                | Some s \<Rightarrow> s \<in> set (subtrees r) \<and> tree_hash s = x"
    and "case rl of None \<Rightarrow> x \<notin> tree_hash ` set (subtrees l)
                | Some s \<Rightarrow> s \<in> set (subtrees l) \<and> tree_hash s = x"
    by auto
  then show ?case by (cases rr; cases rl) (auto split: option.splits)
qed auto

text \<open>
  \<^verbatim>\<open>MerkleTree::find_hash\<close> on the tree of a non-empty vector never hits its assertion; it
  returns a subtree that carries the required hash, and returns nothing only when no subtree
  carries it.
\<close>
theorem find_hash_correct:
  assumes "vs \<noteq> []" and "from_vec (total_digest h) vs = Inr mt"
  shows "\<exists>r. find_hash (mt_root mt) x = Inr r
    \<and> (r = None \<longleftrightarrow> x \<notin> tree_hash ` set (subtrees (mt_root mt)))
    \<and> (\<forall>s. r = Some s \<longrightarrow> s \<in> set (subtrees (mt_root mt)) \<and> tree_hash s = x)"
proof -
  have "no_empty (mt_root mt)"
    using assms no_empty_rfc_tree by (auto simp: from_vec_rfc_merkle rfc_merkle_def)
  from find_hash_spec [OF this, of x] obtain r where "find_hash (mt_root mt) x = Inr r"
    "case r of None \<Rightarrow> x \<notin> tree_hash ` set (subtrees (mt_root mt))
      | Some s \<Rightarrow> s \<in> set (subtrees (mt_root mt)) \<and> tree_hash s = x"
    by blast
  then show ?thesis by (cases r) auto
qed

text \<open>Instance of the above: a tree of three transactions, the hash of its last leaf.\<close>
theorem find_hash_correct_witness:
  "\<exists>mt r. from_vec (total_digest id) [[1], [2], [3]] = Inr mt
    \<and> find_hash (mt_root mt) [0, 3] = Inr r
    \<and> (r = None \<longleftrightarrow> [0, 3] \<notin> tree_hash ` set (subtrees (mt_root mt)))"
  using find_hash_correct [OF _ from_vec_rfc_merkle, of "[[1], [2], [3]]" id "[0, 3]"]
    from_vec_rfc_merkle [of id "[[1], [2], [3]]"]
  by blast

end
