(* ===== verification/Merkle_Proof.thy ===== *)
theory Merkle_Proof
  imports Merkle_Tree
begin

text \<open>
  Inclusion proofs of \<^verbatim>\<open>libindy/src/services/ledger/merkletree/proof.rs\<close> and
  \<^verbatim>\<open>MerkleTree::gen_proof\<close> of \<^verbatim>\<open>merkletree.rs\<close>.
\<close>

section \<open>Proofs and lemmas\<close>

datatype 'a Positioned = Left 'a | Right 'a

datatype Lemma =
  Lemma (node_hash: bytes) (sibling_hash: "bytes Positioned option") (sub_lemma: "Lemma option")

record Proof =
  proof_root_hash :: bytes
  proof_lemma :: Lemma
  proof_value :: TreeLeafData

definition new_leaf_proof :: "bytes \<Rightarrow> bytes \<Rightarrow> Lemma option" where
  "new_leaf_proof hash needle = (if hash = needle then Some (Lemma hash None None) else None)"

function lemma_new :: "Tree \<Rightarrow> bytes \<Rightarrow> Lemma option"
  and new_tree_proof :: "bytes \<Rightarrow> bytes \<Rightarrow> Tree \<Rightarrow> Tree \<Rightarrow> Lemma option" where
  "lemma_new (Empty _) needle = None"
| "lemma_new (Leaf hash _) needle = new_leaf_proof hash needle"
| "lemma_new (Node hash left right) needle = new_tree_proof hash needle left right"
| "new_tree_proof hash needle left right =
     map_option (\<lambda>(sub_lemma, sibling_hash). Lemma hash sibling_hash (Some sub_lemma))
       (case map_option (\<lambda>lemma. (lemma, Some (Right (tree_hash right)))) (lemma_new left needle) of
          Some found \<Rightarrow> Some found
        | None \<Rightarrow>
            map_option (\<lambda>lemma. (lemma, Some (Left (tree_hash left)))) (lemma_new right needle))"
  by pat_completeness auto
termination
  by (relation "measure (\<lambda>x. case x of Inl (t, _) \<Rightarrow> 2 * size t
                                      | Inr (_, _, l, r) \<Rightarrow> 2 * (size l + size r) + 1)") auto

fun validate_lemma :: "digest \<Rightarrow> Lemma \<Rightarrow> bool IndyResult" where
  "validate_lemma digest (Lemma hash sibling None) = Inr (sibling = None)"
| "validate_lemma digest (Lemma hash None (Some sub)) = Inr False"
| "validate_lemma digest (Lemma hash (Some (Left sib)) (Some sub)) =
     bindr (hash_nodes digest sib (node_hash sub)) (\<lambda>combined.
     if combined = hash then validate_lemma digest sub else Inr False)"
| "validate_lemma digest (Lemma hash (Some (Right sib)) (Some sub)) =
     bindr (hash_nodes digest (node_hash sub) sib) (\<lambda>combined.
     if combined = hash then validate_lemma digest sub else Inr False)"

definition validate_proof :: "digest \<Rightarrow> Proof \<Rightarrow> bytes \<Rightarrow> bool IndyResult" where
  "validate_proof digest p root =
     (if proof_root_hash p \<noteq> root \<or> node_hash (proof_lemma p) \<noteq> root then Inr False
      else validate_lemma digest (proof_lemma p))"

definition gen_proof :: "digest \<Rightarrow> MerkleTree \<Rightarrow> TreeLeafData \<Rightarrow> Proof option IndyResult" where
  "gen_proof digest mt value =
     bindr (hash_leaf digest value) (\<lambda>leaf_hash.
     Inr (map_option
            (\<lambda>lemma. \<lparr>proof_root_hash = root_hash mt, proof_lemma = lemma, proof_value = value\<rparr>)
            (lemma_new (mt_root mt) leaf_hash)))"

section \<open>Generated proofs validate\<close>

fun bottom_hash :: "Lemma \<Rightarrow> bytes" where
  "bottom_hash (Lemma hash _ None) = hash"
| "bottom_hash (Lemma _ _ (Some sub)) = bottom_hash sub"

lemma lemma_new_Node:
  "lemma_new (Node hash l r) needle =
     (case lemma_new l needle of
        Some sub \<Rightarrow> Some (Lemma hash (Some (Right (tree_hash r))) (Some sub))
      | None \<Rightarrow> map_option (\<lambda>sub. Lemma hash (Some (Left (tree_hash l))) (Some sub)) (lemma_new r needle))"
  by (simp add: option.map_comp comp_def split: option.splits)

lemmas lemma_new_simps = lemma_new.simps(1,2) lemma_new_Node new_leaf_proof_def

lemma lemma_new_complete:
  "well_hashed h t \<Longrightarrow> v \<in> set (leaves t) \<Longrightarrow> lemma_new t (h (0x00 # v)) \<noteq> None"
  by (induction t) (auto simp: lemma_new_simps simp del: lemma_new.simps(3) split: option.splits)

lemma lemma_new_node_hash: "lemma_new t needle = Some l \<Longrightarrow> node_hash l = tree_hash t"
  by (cases t)
     (auto simp: lemma_new_simps simp del: lemma_new.simps(3) split: option.splits if_splits)

lemma lemma_new_bottom: "lemma_new t needle = Some l \<Longrightarrow> bottom_hash l = needle"
  by (induction t arbitrary: l)
     (auto simp: lemma_new_simps simp del: lemma_new.simps(3) split: option.splits if_splits)

lemma lemma_new_valid:
  "well_hashed h t \<Longrightarrow> lemma_new t needle = Some l \<Longrightarrow> validate_lemma (total_digest h) l = Inr True"
proof (induction t arbitrary: l)
  case (Node hash t1 t2)
  show ?case
  proof (cases "lemma_new t1 needle")
    case None
    with Node.prems(2) obtain sub where sub: "lemma_new t2 needle = Some sub"
      and l: "l = Lemma hash (Some (Left (tree_hash t1))) (Some sub)"
      by (auto simp: lemma_new_Node simp del: lemma_new.simps(3))
    with Node show ?thesis by (simp add: hash_nodes_def lemma_new_node_hash [OF sub])
  next
    case (Some sub)
    with Node.prems(2) have l: "l = Lemma hash (Some (Right (tree_hash t2))) (Some sub)"
      by (simp add: lemma_new_Node del: lemma_new.simps(3))
    with Node Some show ?thesis by (simp add: hash_nodes_def lemma_new_node_hash [OF Some])
  qed
qed (auto simp: lemma_new_simps split: if_splits)

lemma gen_proof_rfc_merkle:
  assumes "v \<in> set vs"
  shows "\<exists>l. gen_proof (total_digest h) (rfc_merkle h vs) v =
      Inr (Some \<lparr>proof_root_hash = mth h vs, proof_lemma = l, proof_value = v\<rparr>)
    \<and> node_hash l = mth h vs \<and> bottom_hash l = h (0x00 # v)
    \<and> validate_lemma (total_digest h) l = Inr True"
proof -
  have "v \<in> set (leaves (rfc_tree h vs))" using assms by simp
  with lemma_new_complete [OF well_hashed_rfc_tree] obtain l where
    l: "lemma_new (rfc_tree h vs) (h (0x00 # v)) = Some l" by blast
  have "mt_root (rfc_merkle h vs) = rfc_tree h vs" by (simp add: rfc_merkle_def)
  with l show ?thesis
    using lemma_new_node_hash [OF l] lemma_new_bottom [OF l]
      lemma_new_valid [OF well_hashed_rfc_tree l]
    by (simp add: gen_proof_def hash_leaf_def tree_hash_rfc_tree)
qed

section \<open>Validated proofs whose leaf is bound are sound\<close>

text \<open>The byte strings that are hashed for a tree, and for a proof of a value.\<close>

fun tree_inputs :: "Tree \<Rightarrow> bytes list" where
  "tree_inputs (Empty _) = []"
| "tree_inputs (Leaf _ v) = [0x00 # v]"
| "tree_inputs (Node _ l r) = (0x01 # tree_hash l @ tree_hash r) # tree_inputs l @ tree_inputs r"

fun lemma_inputs :: "TreeLeafData \<Rightarrow> Lemma \<Rightarrow> bytes list" where
  "lemma_inputs v (Lemma _ (Some (Left s)) (Some sub)) = (0x01 # s @ node_hash sub) # lemma_inputs v sub"
| "lemma_inputs v (Lemma _ (Some (Right s)) (Some sub)) = (0x01 # node_hash sub @ s) # lemma_inputs v sub"
| "lemma_inputs v _ = [0x00 # v]"

definition collision_free :: "(bytes \<Rightarrow> bytes) \<Rightarrow> bytes list \<Rightarrow> bytes list \<Rightarrow> bool" where
  "collision_free h xs ys \<longleftrightarrow> (\<forall>x\<in>set xs. \<forall>y\<in>set ys. h x = h y \<longrightarrow> x = y)"

lemma collision_freeD: "collision_free h xs ys \<Longrightarrow> x \<in> set xs \<Longrightarrow> y \<in> set ys \<Longrightarrow> h x = h y \<Longrightarrow> x = y"
  by (auto simp: collision_free_def)

lemma collision_free_subset:
  "collision_free h xs ys \<Longrightarrow> set xs' \<subseteq> set xs \<Longrightarrow> set ys' \<subseteq> set ys \<Longrightarrow> collision_free h xs' ys'"
  by (auto simp: collision_free_def)

lemma validated_cases [consumes 1, case_names leaf left right]:
  assumes "validate_lemma (total_digest h) l = Inr True"
  obtains (leaf) hash where "l = Lemma hash None None"
  | (left) s sub where "l = Lemma (h (0x01 # s @ node_hash sub)) (Some (Left s)) (Some sub)"
      "validate_lemma (total_digest h) sub = Inr True"
  | (right) s sub where "l = Lemma (h (0x01 # node_hash sub @ s)) (Some (Right s)) (Some sub)"
      "validate_lemma (total_digest h) sub = Inr True"
proof (cases l)
  case (Lemma hash sib sub)
  show thesis
  proof (cases sub)
    case None
    with Lemma assms leaf show ?thesis by simp
  next
    case (Some sub')
    with Lemma assms obtain pos where "sib = Some pos" by (cases sib) simp_all
    with Some Lemma assms left right show ?thesis
      by (cases pos) (simp_all add: hash_nodes_def split: if_splits)
  qed
qed

lemma validated_node_hash:
  assumes "validate_lemma (total_digest h) l = Inr True" and "bottom_hash l = h (0x00 # v)"
  shows "\<exists>x\<in>set (lemma_inputs v l). node_hash l = h x"
  using assms by (cases rule: validated_cases) auto

lemma validated_lemma_sound:
  assumes len: "\<And>x. length (h x) = n"
  shows "no_empty t \<Longrightarrow> well_hashed h t \<Longrightarrow> validate_lemma (total_digest h) l = Inr True \<Longrightarrow>
    bottom_hash l = h (0x00 # v) \<Longrightarrow> node_hash l = tree_hash t \<Longrightarrow>
    collision_free h (tree_inputs t) (lemma_inputs v l) \<Longrightarrow> v \<in> set (leaves t)"
proof (induction t arbitrary: l)
  case (Leaf hash w)
  have bound: "0x00 # w = y" if "y \<in> set (lemma_inputs v l)" "node_hash l = h y" for y
    by (rule collision_freeD [OF Leaf.prems(6) _ that(1)])
       (use Leaf.prems(2,5) that(2) in simp_all)
  from Leaf.prems(3) show ?case
  proof (cases rule: validated_cases)
    case (leaf hash')
    with Leaf.prems(4) bound [of "0x00 # v"] show ?thesis by simp
  next
    case (left s sub)
    with bound [of "0x01 # s @ node_hash sub"] show ?thesis by simp
  next
    case (right s sub)
    with bound [of "0x01 # node_hash sub @ s"] show ?thesis by simp
  qed
next
  case (Node hash t1 t2)
  let ?x = "0x01 # tree_hash t1 @ tree_hash t2"
  have wh: "well_hashed h t1" "well_hashed h t2" "no_empty t1" "no_empty t2" "hash = h ?x"
    using Node.prems(1,2) by simp_all
  have hlen: "length (tree_hash t) = n" if "well_hashed h t" "no_empty t" for t
    using that len by (cases t) auto
  have bound: "?x = y" if "y \<in> set (lemma_inputs v l)" "node_hash l = h y" for y
    by (rule collision_freeD [OF Node.prems(6) _ that(1)])
       (use Node.prems(5) wh(5) that(2) in simp_all)
  from Node.prems(3) show ?case
  proof (cases rule: validated_cases)
    case (leaf hash')
    with Node.prems(4) bound [of "0x00 # v"] show ?thesis by simp
  next
    case (left s sub)
    with bound [of "0x01 # s @ node_hash sub"]
    have eq: "tree_hash t1 @ tree_hash t2 = s @ node_hash sub" by simp
    have bot: "bottom_hash sub = h (0x00 # v)" using left Node.prems(4) by simp
    have "length (node_hash sub) = n" using validated_node_hash [OF left(2) bot] len by auto
    with eq hlen [OF wh(2,4)] have "node_hash sub = tree_hash t2" by simp
    moreover have "collision_free h (tree_inputs t2) (lemma_inputs v sub)"
      using Node.prems(6) by (rule collision_free_subset) (auto simp: left)
    ultimately have "v \<in> set (leaves t2)"
      using Node.IH(2) [OF wh(4,2) left(2) bot] by blast
    then show ?thesis by simp
  next
    case (right s sub)
    with bound [of "0x01 # node_hash sub @ s"]
    have eq: "tree_hash t1 @ tree_hash t2 = node_hash sub @ s" by simp
    have bot: "bottom_hash sub = h (0x00 # v)" using right Node.prems(4) by simp
    have "length (node_hash sub) = n" using validated_node_hash [OF right(2) bot] len by auto
    with eq hlen [OF wh(1,3)] have "node_hash sub = tree_hash t1" by simp
    moreover have "collision_free h (tree_inputs t1) (lemma_inputs v sub)"
      using Node.prems(6) by (rule collision_free_subset) (auto simp: right)
    ultimately have "v \<in> set (leaves t1)"
      using Node.IH(1) [OF wh(3,1) right(2) bot] by blast
    then show ?thesis by simp
  qed
qed simp

section \<open>Properties\<close>

text \<open>
  C4: completeness of inclusion proofs: for every value of the vector, \<^verbatim>\<open>gen_proof\<close> on its tree
  returns a proof of that value, and \<^verbatim>\<open>Proof::validate\<close> accepts it against the root hash.
\<close>
theorem gen_proof_validates:
  assumes "v \<in> set vs"
  shows "\<exists>mt p. from_vec (total_digest h) vs = Inr mt
    \<and> gen_proof (total_digest h) mt v = Inr (Some p) \<and> proof_value p = v
    \<and> validate_proof (total_digest h) p (root_hash mt) = Inr True"
proof -
  from gen_proof_rfc_merkle [OF assms, of h] obtain l where
    l: "gen_proof (total_digest h) (rfc_merkle h vs) v =
      Inr (Some \<lparr>proof_root_hash = mth h vs, proof_lemma = l, proof_value = v\<rparr>)"
      "node_hash l = mth h vs" "validate_lemma (total_digest h) l = Inr True" by blast
  show ?thesis
    by (rule exI, rule exI, rule conjI [OF from_vec_rfc_merkle], rule conjI [OF l(1)])
       (simp add: validate_proof_def l)
qed

text \<open>Witness for C4: the second of three values.\<close>
theorem gen_proof_validates_witness:
  "[2] \<in> set [[1], [2], [3]] \<and>
   (\<exists>mt p. from_vec (total_digest rev) [[1], [2], [3]] = Inr mt
    \<and> gen_proof (total_digest rev) mt [2] = Inr (Some p) \<and> proof_value p = [2]
    \<and> validate_proof (total_digest rev) p (root_hash mt) = Inr True)"
  using gen_proof_validates [of "[2]" "[[1], [2], [3]]" rev] by simp

text \<open>
  C3: soundness of inclusion proofs: let the digest have a fixed output length and no collision
  between what the tree hashes and what the proof hashes. If \<^verbatim>\<open>Proof::validate\<close> accepts a proof
  against the root hash of the tree of a non-empty vector, and the lowest lemma of the proof
  carries the leaf hash of the proved value, then the value is in the vector.
\<close>
theorem validate_proof_sound:
  assumes "vs \<noteq> []" and mt: "from_vec (total_digest h) vs = Inr mt"
    and valid: "validate_proof (total_digest h) p (root_hash mt) = Inr True"
    and bound: "bottom_hash (proof_lemma p) = h (0x00 # proof_value p)"
    and len: "\<And>x. length (h x) = 32"
    and coll: "collision_free h (tree_inputs (mt_root mt)) (lemma_inputs (proof_value p) (proof_lemma p))"
  shows "proof_value p \<in> set vs"
proof -
  have root: "mt_root mt = rfc_tree h vs" using mt by (auto simp: from_vec_rfc_merkle rfc_merkle_def)
  from valid have "node_hash (proof_lemma p) = tree_hash (rfc_tree h vs)"
    and "validate_lemma (total_digest h) (proof_lemma p) = Inr True"
    by (auto simp: validate_proof_def root_hash_def root split: if_splits)
  with validated_lemma_sound [OF len no_empty_rfc_tree [OF assms(1)] well_hashed_rfc_tree]
    bound coll root
  have "proof_value p \<in> set (leaves (rfc_tree h vs))" by auto
  then show ?thesis by simp
qed

definition sum_digest :: "bytes \<Rightarrow> bytes" where
  "sum_digest x = replicate 31 0 @ [sum_list x]"

text \<open>Witness for C3: two transactions, and the proof of the second one.\<close>
theorem validate_proof_sound_witness:
  "\<exists>mt p. from_vec (total_digest sum_digest) [[1], [2]] = Inr mt
     \<and> validate_proof (total_digest sum_digest) p (root_hash mt) = Inr True
     \<and> proof_value p = [2] \<and> proof_value p \<in> set [[1], [2]]"
proof -
  let ?l = "hashed_leaf sum_digest [1]" and ?r = "hashed_leaf sum_digest [2]"
  let ?x = "0x01 # tree_hash ?l @ tree_hash ?r"
  let ?p = "\<lparr>proof_root_hash = sum_digest ?x,
    proof_lemma = Lemma (sum_digest ?x) (Some (Left (tree_hash ?l)))
      (Some (Lemma (tree_hash ?r) None None)), proof_value = [2]\<rparr>"
  obtain mt where mt: "from_vec (total_digest sum_digest) [[1], [2]] = Inr mt"
    and root: "mt_root mt = joined sum_digest ?l ?r"
    by (simp add: from_vec_rfc_merkle rfc_merkle_def rfc_tree_def join_trees_two)
  have valid: "validate_proof (total_digest sum_digest) ?p (root_hash mt) = Inr True"
    by (simp add: validate_proof_def root_hash_def root joined_def hash_nodes_def)
  have bound: "bottom_hash (proof_lemma ?p) = sum_digest (0x00 # proof_value ?p)"
    by (simp add: hashed_leaf_def)
  have coll: "collision_free sum_digest (tree_inputs (mt_root mt))
      (lemma_inputs (proof_value ?p) (proof_lemma ?p))"
    by (simp add: root joined_def collision_free_def hashed_leaf_def sum_digest_def
        sum_list_replicate)
  have "proof_value ?p \<in> set [[1], [2]]"
    by (rule validate_proof_sound [OF _ mt valid bound _ coll]) (simp_all add: sum_digest_def)
  with mt valid show ?thesis by (intro exI [of _ mt] exI [of _ ?p]) simp
qed

text \<open>
  \<^verbatim>\<open>Proof::validate\<close> does not bind the value: for any value \<open>w\<close> whatever, some proof
  carrying \<open>w\<close> is accepted against the root hash of the tree of a non-empty vector, so
  acceptance alone does not show that the value of a proof is a member of the tree.
\<close>
theorem validate_accepts_any_value:
  assumes "vs \<noteq> []"
  shows "\<exists>mt p. from_vec (total_digest h) vs = Inr mt \<and> proof_value p = w
    \<and> validate_proof (total_digest h) p (root_hash mt) = Inr True"
proof -
  from assms obtain v where "v \<in> set vs" by (cases vs) auto
  from gen_proof_rfc_merkle [OF this, of h] obtain l where
    "node_hash l = mth h vs" "validate_lemma (total_digest h) l = Inr True" by blast
  then show ?thesis
    by (intro exI [of _ "rfc_merkle h vs"]
        exI [of _ "\<lparr>proof_root_hash = mth h vs, proof_lemma = l, proof_value = w\<rparr>"])
       (simp add: from_vec_rfc_merkle validate_proof_def)
qed

text \<open>Instance of the above: a proof of the value 9 against the tree of the value 1.\<close>
theorem validate_accepts_any_value_witness:
  "[9] \<notin> set [[1 :: byte]] \<and>
   (\<exists>mt p. from_vec (total_digest rev) [[1]] = Inr mt \<and> proof_value p = [9]
    \<and> validate_proof (total_digest rev) p (root_hash mt) = Inr True)"
  using validate_accepts_any_value [of "[[1]]" rev "[9]"] by simp

end
