(* ===== verification/Merkle_Consistency.thy ===== *)
theory Merkle_Consistency
  imports Merkle_Ops Merkle_Proof
begin

text \<open>
  Correctness of \<^verbatim>\<open>MerkleTree::consistency_proof\<close> (\<^verbatim>\<open>merkletree/mod.rs\<close>). The check climbs
  from the last complete subtree of the old tree to the two roots. Its loops are related to the
  levels of the two trees: a level is a list of subtrees, and the next level is \<open>pairs\<close>
  of it. \<open>honest_path\<close> is the proof an honest ledger node sends; the check accepts it,
  and an accepted proof shows, up to hash collisions, that the old tree is a prefix of the new.
\<close>

section \<open>Levels of a tree\<close>

lemma pairs_nth:
  "2 * i < length ts \<Longrightarrow> pairs h ts ! i =
     (if 2 * i + 1 < length ts then joined h (ts ! (2 * i)) (ts ! (2 * i + 1)) else ts ! (2 * i))"
proof (induction h ts arbitrary: i rule: pairs.induct)
  case (3 h l r ts)
  then show ?case by (cases i) auto
qed auto

lemma pairs_last: "2 * k < length ts \<Longrightarrow> \<not> 2 * k < length ts - 1 \<Longrightarrow> pairs h ts ! k = ts ! (2 * k)"
proof -
  assume a: "2 * k < length ts" "\<not> 2 * k < length ts - 1"
  then have "\<not> 2 * k + 1 < length ts" by linarith
  with a show ?thesis by (simp add: pairs_nth)
qed

lemma take_pairs: "2 * j \<le> length ts \<Longrightarrow> take j (pairs h ts) = pairs h (take (2 * j) ts)"
proof (induction h ts arbitrary: j rule: pairs.induct)
  case (2 h t)
  then have "j = 0" by simp
  then show ?case by simp
next
  case (3 h l r ts)
  then show ?case by (cases j) auto
qed simp

lemma concat_leaves_pairs: "concat (map leaves (pairs h ts)) = concat (map leaves ts)"
  by (induction h ts rule: pairs.induct) (auto simp: joined_def)

definition well_formed :: "(bytes \<Rightarrow> bytes) \<Rightarrow> Tree list \<Rightarrow> bool" where
  "well_formed h ts \<longleftrightarrow> list_all (\<lambda>t. no_empty t \<and> well_hashed h t) ts"

lemma well_formed_pairs: "well_formed h ts \<Longrightarrow> well_formed h (pairs h ts)"
  unfolding well_formed_def by (induction h ts rule: pairs.induct) (auto simp: joined_def)

lemma well_formed_nth: "well_formed h ts \<Longrightarrow> i < length ts \<Longrightarrow> no_empty (ts ! i) \<and> well_hashed h (ts ! i)"
  by (auto simp: well_formed_def list_all_length)

lemma well_formed_hash:
  assumes "\<And>x. length (h x) = n" "well_formed h ts" "i < length ts"
  shows "length (tree_hash (ts ! i)) = n"
  using well_formed_nth [OF assms(2,3)] assms(1) by (cases "ts ! i") auto

lemma tree_inputs_join_trees:
  "ts \<noteq> [] \<Longrightarrow> t \<in> set ts \<Longrightarrow> set (tree_inputs t) \<subseteq> set (tree_inputs (join_trees h ts))"
proof (induction ts rule: join_trees_induct)
  case (split ts)
  let ?k = "split_point (length ts)"
  have "t \<in> set (take ?k ts @ drop ?k ts)" using split.prems by simp
  then have "t \<in> set (take ?k ts) \<or> t \<in> set (drop ?k ts)" unfolding set_append by blast
  with split show ?case by (auto simp: join_trees_split joined_def)
qed simp

lemma pairs_Nil_iff [simp]: "pairs h ts = [] \<longleftrightarrow> ts = []"
  by (induction h ts rule: pairs.induct) auto

text \<open>The string hashed for an inner node of the next level is one of the tree's inputs.\<close>

lemma joined_input:
  assumes "2 * i + 1 < length ts"
  shows "0x01 # tree_hash (ts ! (2 * i)) @ tree_hash (ts ! (2 * i + 1))
    \<in> set (tree_inputs (join_trees h ts))"
proof -
  have "pairs h ts ! i = joined h (ts ! (2 * i)) (ts ! (2 * i + 1))"
    using assms by (simp add: pairs_nth)
  moreover have "pairs h ts ! i \<in> set (pairs h ts)" using assms by (intro nth_mem) simp
  ultimately have "set (tree_inputs (joined h (ts ! (2 * i)) (ts ! (2 * i + 1))))
      \<subseteq> set (tree_inputs (join_trees h (pairs h ts)))"
    using assms by (intro tree_inputs_join_trees) auto
  moreover have "ts \<noteq> []" using assms by auto
  ultimately show ?thesis by (auto simp: join_trees_pairs joined_def)
qed

section \<open>The proof of an honest node is accepted\<close>

function climb_path :: "(bytes \<Rightarrow> bytes) \<Rightarrow> nat \<Rightarrow> Tree list \<Rightarrow> bytes list" where
  "climb_path h i ts =
     (if length ts \<le> 1 then []
      else if odd i then tree_hash (ts ! (i - 1)) # climb_path h (i div 2) (pairs h ts)
      else if i + 1 < length ts then tree_hash (ts ! (i + 1)) # climb_path h (i div 2) (pairs h ts)
      else climb_path h (i div 2) (pairs h ts))"
  by pat_completeness auto
termination
  by (relation "measure (\<lambda>(h, i, ts). length ts)") auto

declare climb_path.simps [simp del]

function honest_path :: "(bytes \<Rightarrow> bytes) \<Rightarrow> nat \<Rightarrow> Tree list \<Rightarrow> bytes list" where
  "honest_path h i ts =
     (if odd i then honest_path h (i div 2) (pairs h ts)
      else (if i \<noteq> 0 then [tree_hash (ts ! i)] else []) @ climb_path h i ts)"
  by pat_completeness auto
termination
  by (relation "measure (\<lambda>(h, i, ts). i)") (auto elim: oddE)

declare honest_path.simps [simp del]

lemma tree_hash_joined [simp]: "tree_hash (joined h l r) = h (0x01 # tree_hash l @ tree_hash r)"
  by (simp add: joined_def)

lemma climb_new_honest:
  "ts \<noteq> [] \<Longrightarrow> climb_new (total_digest h) (length ts - 1) (tree_hash (ts ! 0)) (climb_path h 0 ts)
     = Inr (Some (tree_hash (join_trees h ts)))"
proof (induction "length ts" arbitrary: ts rule: less_induct)
  case less
  show ?case
  proof (cases "length ts = 1")
    case True
    then obtain t where "ts = [t]" by (auto simp: length_Suc_conv)
    then show ?thesis by (simp add: climb_new.simps)
  next
    case False
    with less.prems have len: "1 < length ts" by (cases ts) auto
    have "climb_new (total_digest h) (length (pairs h ts) - 1) (tree_hash (pairs h ts ! 0))
        (climb_path h 0 (pairs h ts)) = Inr (Some (tree_hash (join_trees h ts)))"
      using less.hyps [of "pairs h ts"] less.prems len by (simp add: join_trees_pairs)
    moreover have "length (pairs h ts) - 1 = (length ts - 1) div 2" using len by simp
    moreover have "pairs h ts ! 0 = joined h (ts ! 0) (ts ! 1)"
      using len less.prems pairs_nth [of 0 ts h] by simp
    ultimately show ?thesis
      using len by (simp add: climb_new.simps [of _ "length ts - Suc 0"] climb_path.simps [of h 0 ts]
          hash_nodes_def)
  qed
qed

lemma climb_honest:
  "i < length new \<Longrightarrow> length old = i + 1 \<Longrightarrow> take i old = take i new \<Longrightarrow>
   \<exists>n nh ps. climb_old (total_digest h) i (length new - 1) (tree_hash (old ! i)) (tree_hash (new ! i))
        (climb_path h i new) = Inr (Some (n, tree_hash (join_trees h old), nh, ps))
     \<and> climb_new (total_digest h) n nh ps = Inr (Some (tree_hash (join_trees h new)))"
proof (induction "length new" arbitrary: new old i rule: less_induct)
  case less
  show ?case
  proof (cases "i = 0")
    case True
    then obtain t where "old = [t]" using less.prems(2) by (auto simp: length_Suc_conv)
    with True less.prems show ?thesis
      using climb_new_honest [of new h] by (auto simp: climb_old.simps)
  next
    case False
    let ?new = "pairs h new" and ?old = "pairs h old" and ?j = "i div 2"
    have ne: "old \<noteq> []" "new \<noteq> []" using less.prems by auto
    have *: "length ?new < length new" "?j < length ?new" "length ?old = ?j + 1"
      using False less.prems by auto
    have "take ?j ?old = pairs h (take (2 * ?j) (take i old))"
      using less.prems(2) by (subst take_pairs) auto
    also have "\<dots> = take ?j ?new"
      unfolding less.prems(3) using less.prems(1) by (subst take_pairs) auto
    finally have "take ?j ?old = take ?j ?new" .
    from less.hyps [OF * this] obtain n nh ps where
      IH: "climb_old (total_digest h) ?j (length ?new - 1) (tree_hash (?old ! ?j))
          (tree_hash (?new ! ?j)) (climb_path h ?j ?new)
          = Inr (Some (n, tree_hash (join_trees h ?old), nh, ps))"
      "climb_new (total_digest h) n nh ps = Inr (Some (tree_hash (join_trees h ?new)))"
      by blast
    have len: "length ?new - 1 = (length new - 1) div 2" using less.prems(1) by simp
    note roots = join_trees_pairs [OF ne(1)] join_trees_pairs [OF ne(2)]
    show ?thesis
    proof (cases "odd i")
      case True
      then obtain k where k: "i = 2 * k + 1" by (blast elim: oddE)
      have same: "old ! (2 * k) = new ! (2 * k)"
        using less.prems(3) k nth_take [of "2 * k" i old] nth_take [of "2 * k" i new] by simp
      have "?old ! ?j = joined h (new ! (2 * k)) (old ! i)" "?new ! ?j = joined h (new ! (2 * k)) (new ! i)"
        using k less.prems by (simp_all add: pairs_nth same)
      with IH len roots k less.prems show ?thesis
        by (simp add: climb_old.simps [of _ "Suc (2 * k)"] climb_path.simps [of h "Suc (2 * k)"]
            hash_nodes_def)
    next
      case even: False
      then obtain k where k: "i = 2 * k" by blast
      have old: "?old ! ?j = old ! i" using k less.prems by (simp add: pairs_nth)
      show ?thesis
      proof (cases "i + 1 < length new")
        case True
        then have "?new ! ?j = joined h (new ! i) (new ! (i + 1))"
          using k by (simp add: pairs_nth)
        moreover have "2 * k < length new - Suc 0" using k True by simp
        ultimately show ?thesis
          using IH len roots k old True False by (simp add: climb_old.simps [of _ "2 * k"] climb_path.simps [of h "2 * k"]
              hash_nodes_def)
      next
        case last: False
        then have "?new ! ?j = new ! i" using k less.prems(1) by (simp add: pairs_nth)
        moreover have "\<not> 2 * k < length new - Suc 0" using k last by simp
        ultimately show ?thesis
          using IH len roots k old last False less.prems(1) by (simp add: climb_old.simps [of _ "2 * k"] climb_path.simps [of h "2 * k"])
      qed
    qed
  qed
qed

text \<open>
  The first loop: both trees move up while the old level has an even number of nodes.
\<close>

definition lifted :: "(bytes \<Rightarrow> bytes) \<Rightarrow> Tree list \<Rightarrow> Tree list \<Rightarrow> Tree list \<Rightarrow> Tree list \<Rightarrow> bool" where
  "lifted h old new old' new' \<longleftrightarrow>
     old' \<noteq> [] \<and> new' \<noteq> [] \<and> well_formed h old' \<and> well_formed h new'
     \<and> join_trees h old' = join_trees h old \<and> join_trees h new' = join_trees h new
     \<and> concat (map leaves old') = concat (map leaves old)
     \<and> concat (map leaves new') = concat (map leaves new)
     \<and> (length old \<le> length new \<longrightarrow> length old' \<le> length new')
     \<and> (old = take (length old) new \<longrightarrow> old' = take (length old') new')"

lemma lifted_pairs:
  assumes "lifted h (pairs h old) (pairs h new) old' new'" "even (length old)"
    and "old \<noteq> []" "new \<noteq> []"
  shows "lifted h old new old' new'"
proof -
  have "pairs h old = take (length (pairs h old)) (pairs h new)" if "old = take (length old) new"
  proof -
    from assms(2) obtain k where k: "length old = 2 * k" by blast
    have "length old \<le> length new" using that by (metis length_take min.cobounded1)
    then have "take k (pairs h new) = pairs h (take (2 * k) new)"
      using k by (intro take_pairs) simp
    with that k show ?thesis by simp
  qed
  with assms(1,3,4) show ?thesis
    unfolding lifted_def by (simp add: join_trees_pairs concat_leaves_pairs)
qed

lemma strip_levels:
  "old \<noteq> [] \<Longrightarrow> new \<noteq> [] \<Longrightarrow> well_formed h old \<Longrightarrow> well_formed h new \<Longrightarrow>
   \<exists>old' new'. lifted h old new old' new' \<and> even (length old' - 1)
     \<and> strip_right (length old - 1) (length new - 1) = (length old' - 1, length new' - 1)
     \<and> honest_path h (length old - 1) new = honest_path h (length old' - 1) new'"
proof (induction "length old" arbitrary: old new rule: less_induct)
  case less
  show ?case
  proof (cases "odd (length old - 1)")
    case False
    with less.prems show ?thesis
      by (intro exI [of _ old] exI [of _ new])
         (simp add: strip_right.simps [of "length old - Suc 0"] lifted_def)
  next
    case True
    with less.prems(1) have ev: "even (length old)" by (cases old) auto
    have ne: "pairs h old \<noteq> []" "pairs h new \<noteq> []" using less.prems by simp_all
    have "length old \<noteq> 1" using ev by auto
    then have "length (pairs h old) < length old" using less.prems(1) by (cases old) auto
    from less.hyps [OF this ne well_formed_pairs [OF less.prems(3)]
        well_formed_pairs [OF less.prems(4)]]
    obtain old' new' where IH: "lifted h (pairs h old) (pairs h new) old' new'"
      "even (length old' - 1)"
      "strip_right (length (pairs h old) - 1) (length (pairs h new) - 1)
         = (length old' - 1, length new' - 1)"
      "honest_path h (length (pairs h old) - 1) (pairs h new) = honest_path h (length old' - 1) new'"
      by blast
    have idx: "length (pairs h old) - 1 = (length old - 1) div 2"
      "length (pairs h new) - 1 = (length new - 1) div 2"
      using less.prems by (cases old; cases new; simp)+
    have "strip_right (length old - 1) (length new - 1)
        = strip_right (length (pairs h old) - 1) (length (pairs h new) - 1)"
      "honest_path h (length old - 1) new = honest_path h (length (pairs h old) - 1) (pairs h new)"
      unfolding idx
      by (subst strip_right.simps, simp only: True if_True simp_thms)
         (subst honest_path.simps, simp only: True if_True simp_thms)
    with IH lifted_pairs [OF IH(1) ev less.prems(1,2)] show ?thesis by auto
  qed
qed

lemma well_formed_leaves: "well_formed h (map (hashed_leaf h) vs)"
  by (auto simp: well_formed_def list_all_iff hashed_leaf_def)

lemma concat_hashed_leaves: "concat (map leaves (map (hashed_leaf h) vs)) = vs"
  by (induction vs) (simp_all add: hashed_leaf_def)

lemma mth_join_trees: "tree_hash (join_trees h (map (hashed_leaf h) vs)) = mth h vs"
  by (simp add: tree_hash_rfc_tree flip: rfc_tree_def)

lemma consistency_proof_honest:
  assumes "0 < m" "m \<le> length ws"
  shows "consistency_proof (total_digest h) (rfc_merkle h (take m ws)) (mth h ws) (length ws)
      (honest_path h (m - 1) (map (hashed_leaf h) ws)) = Inr True"
proof -
  let ?old = "map (hashed_leaf h) (take m ws)" and ?new = "map (hashed_leaf h) ws"
  have len: "length ?old = m" using assms by simp
  have ne: "?old \<noteq> []" "?new \<noteq> []" using assms by auto
  from strip_levels [OF ne well_formed_leaves well_formed_leaves] obtain old new where
    l: "lifted h ?old ?new old new" and ev: "even (length old - 1)"
    and strip: "strip_right (length ?old - 1) (length ?new - 1) = (length old - 1, length new - 1)"
    and path: "honest_path h (length ?old - 1) ?new = honest_path h (length old - 1) new"
    by blast
  define i where "i = length old - 1"
  from l have nonempty: "old \<noteq> []" and pre: "old = take (length old) new"
    using assms by (simp_all add: lifted_def take_map)
  from nonempty have l1: "length old = i + 1" by (cases old) (simp_all add: i_def)
  with pre have l2: "i < length new" by (metis Suc_eq_plus1 Suc_le_eq length_take min.cobounded1)
  from pre l1 have l3: "old = take (i + 1) new" by simp
  note old = l1 l2 l3
  then have old_i: "old ! i = new ! i" "take i old = take i new"
    by (metis lessI add.commute nth_take plus_1_eq_Suc)
       (metis old(3) le_add1 min.absorb1 take_take)
  from climb_honest [OF old(2,1) old_i(2), of h] obtain n nh ps where
    climb: "climb_old (total_digest h) i (length new - 1) (tree_hash (new ! i)) (tree_hash (new ! i))
        (climb_path h i new) = Inr (Some (n, tree_hash (join_trees h old), nh, ps))"
      "climb_new (total_digest h) n nh ps = Inr (Some (tree_hash (join_trees h new)))"
    unfolding old_i(1) by blast
  from l have roots: "tree_hash (join_trees h old) = mth h (take m ws)"
    "tree_hash (join_trees h new) = mth h ws"
    by (simp_all add: lifted_def mth_join_trees)
  have start: "mth h (take m ws) = tree_hash (new ! 0)" if "i = 0"
  proof -
    from that old(1) obtain t where "old = [t]" by (auto simp: length_Suc_conv)
    with roots(1) old_i(1) that show ?thesis by simp
  qed
  have "honest_path h (m - 1) ?new =
      (if i \<noteq> 0 then [tree_hash (new ! i)] else []) @ climb_path h i new"
    using path ev unfolding len i_def [symmetric] by (simp add: honest_path.simps [of h i])
  moreover have "strip_right (m - 1) (length ws - 1) = (i, length new - 1)"
    using strip assms by (simp add: i_def)
  moreover have "mt_count (rfc_merkle h (take m ws)) = m" using assms by (simp add: rfc_merkle_def)
  ultimately show ?thesis
    using assms climb roots start
    by (cases "i = 0") (auto simp: consistency_proof_def)
qed

section \<open>An accepted proof shows that the old tree is a prefix\<close>

text \<open>The byte strings that the check hashes.\<close>

fun climb_new_inputs :: "(bytes \<Rightarrow> bytes) \<Rightarrow> nat \<Rightarrow> bytes \<Rightarrow> bytes list \<Rightarrow> bytes list" where
  "climb_new_inputs h n nh [] = []"
| "climb_new_inputs h n nh (p # ps) =
     (if n = 0 then []
      else (0x01 # nh @ p) # climb_new_inputs h (n div 2) (h (0x01 # nh @ p)) ps)"

function climb_inputs ::
  "(bytes \<Rightarrow> bytes) \<Rightarrow> nat \<Rightarrow> nat \<Rightarrow> bytes \<Rightarrow> bytes \<Rightarrow> bytes list \<Rightarrow> bytes list" where
  "climb_inputs h i n oh nh ps =
     (if i = 0 then climb_new_inputs h n nh ps
      else if odd i then
        (case ps of
           [] \<Rightarrow> []
         | p # ps \<Rightarrow> (0x01 # p @ oh) # (0x01 # p @ nh)
             # climb_inputs h (i div 2) (n div 2) (h (0x01 # p @ oh)) (h (0x01 # p @ nh)) ps)
      else if i < n then
        (case ps of
           [] \<Rightarrow> []
         | p # ps \<Rightarrow> (0x01 # nh @ p) # climb_inputs h (i div 2) (n div 2) oh (h (0x01 # nh @ p)) ps)
      else climb_inputs h (i div 2) (n div 2) oh nh ps)"
  by pat_completeness auto
termination
  by (relation "measure (\<lambda>(h, i, rest). i)") auto

declare climb_inputs.simps [simp del]

definition check_inputs :: "(bytes \<Rightarrow> bytes) \<Rightarrow> MerkleTree \<Rightarrow> nat \<Rightarrow> bytes list \<Rightarrow> bytes list" where
  "check_inputs h mt new_size proof =
     (let (i, n) = strip_right (mt_count mt - 1) (new_size - 1)
      in if i = 0 then climb_inputs h i n (root_hash mt) (root_hash mt) proof
         else case proof of [] \<Rightarrow> [] | p # ps \<Rightarrow> climb_inputs h i n p p ps)"

lemma climb_new_sound:
  assumes len: "\<And>x. length (h x) = w"
  shows "ts \<noteq> [] \<Longrightarrow> well_formed h ts \<Longrightarrow> length nh = w \<Longrightarrow>
    climb_new (total_digest h) (length ts - 1) nh ps = Inr (Some (tree_hash (join_trees h ts))) \<Longrightarrow>
    collision_free h (tree_inputs (join_trees h ts)) (climb_new_inputs h (length ts - 1) nh ps) \<Longrightarrow>
    nh = tree_hash (ts ! 0)"
proof (induction "length ts" arbitrary: ts nh ps rule: less_induct)
  case less
  show ?case
  proof (cases "length ts = 1")
    case True
    then obtain t where "ts = [t]" by (auto simp: length_Suc_conv)
    with less.prems show ?thesis by (simp add: climb_new.simps)
  next
    case False
    with less.prems(1) have gt: "1 < length ts" by (cases ts) auto
    then have n: "length ts - 1 \<noteq> 0" by simp
    from less.prems(4) n obtain p ps' where ps: "ps = p # ps'"
      and climb: "climb_new (total_digest h) ((length ts - 1) div 2) (h (0x01 # nh @ p)) ps'
        = Inr (Some (tree_hash (join_trees h ts)))"
      by (auto simp: climb_new.simps [of _ "length ts - Suc 0"] hash_nodes_def split: list.splits)
    let ?x = "0x01 # tree_hash (ts ! 0) @ tree_hash (ts ! 1)"
    have idx: "(length ts - 1) div 2 = length (pairs h ts) - 1" using gt by simp
    have cf: "collision_free h (tree_inputs (join_trees h ts))
        (climb_new_inputs h ((length ts - 1) div 2) (h (0x01 # nh @ p)) ps')"
      by (rule collision_free_subset [OF less.prems(5)]) (use n ps in auto)
    have small: "length (pairs h ts) < length ts" and ne: "pairs h ts \<noteq> []"
      using gt less.prems(1) by simp_all
    from less.hyps [OF small ne well_formed_pairs [OF less.prems(2)] len]
    have "h (0x01 # nh @ p) = tree_hash (pairs h ts ! 0)"
      using climb cf unfolding join_trees_pairs [OF less.prems(1)] idx by blast
    also have "\<dots> = h ?x" using gt less.prems(1) pairs_nth [of 0 ts h] by simp
    finally have eq: "h (0x01 # nh @ p) = h ?x" .
    have "?x = 0x01 # nh @ p"
      by (rule collision_freeD [OF less.prems(5) _ _ eq [symmetric]])
         (use joined_input [of 0 ts h] gt n ps in simp_all)
    with less.prems(1,3) well_formed_hash [OF len less.prems(2), of 0] show ?thesis by simp
  qed
qed

text \<open>
  If the hashes of the first \<open>j\<close> nodes of the next levels agree, so do the hashes of the
  first \<open>2 * j\<close> nodes of these levels.
\<close>

lemma prefix_down:
  assumes len: "\<And>x. length (h x) = w"
    and wf: "well_formed h old" "well_formed h new"
    and cf: "collision_free h (tree_inputs (join_trees h old)) (tree_inputs (join_trees h new))"
    and bound: "2 * j \<le> length old" "2 * j \<le> length new"
    and agree: "\<forall>a<j. tree_hash (pairs h old ! a) = tree_hash (pairs h new ! a)"
  shows "\<forall>b<2 * j. tree_hash (old ! b) = tree_hash (new ! b)"
proof (intro allI impI)
  fix b assume "b < 2 * j"
  define a where "a = b div 2"
  have "a < j" using \<open>b < 2 * j\<close> unfolding a_def by linarith
  then have a: "a < j" "2 * a + 1 < length old" "2 * a + 1 < length new" using bound by simp_all
  let ?x = "\<lambda>ts. 0x01 # tree_hash (ts ! (2 * a)) @ tree_hash (ts ! (2 * a + 1))"
  have "pairs h old ! a = joined h (old ! (2 * a)) (old ! (2 * a + 1))"
    "pairs h new ! a = joined h (new ! (2 * a)) (new ! (2 * a + 1))"
    using a by (simp_all add: pairs_nth)
  with agree a(1) have "h (?x old) = h (?x new)" by (metis tree_hash_joined)
  then have "?x old = ?x new"
    by (rule collision_freeD [OF cf joined_input [OF a(2)] joined_input [OF a(3)]])
  moreover have "length (tree_hash (old ! (2 * a))) = length (tree_hash (new ! (2 * a)))"
    using a well_formed_hash [OF len wf(1), of "2 * a"] well_formed_hash [OF len wf(2), of "2 * a"]
    by simp
  ultimately have "tree_hash (old ! (2 * a)) = tree_hash (new ! (2 * a))"
    "tree_hash (old ! (2 * a + 1)) = tree_hash (new ! (2 * a + 1))"
    by auto
  moreover have "b = 2 * a \<or> b = 2 * a + 1" by (auto simp: a_def)
  ultimately show "tree_hash (old ! b) = tree_hash (new ! b)" by auto
qed

text \<open>
  One run of the second and third loop, from index \<open>i\<close> of the levels \<open>old\<close> and \<open>new\<close> to
  the two roots, without a collision.
\<close>

definition run_ok ::
  "(bytes \<Rightarrow> bytes) \<Rightarrow> Tree list \<Rightarrow> Tree list \<Rightarrow> nat \<Rightarrow> bytes \<Rightarrow> bytes \<Rightarrow> bytes list \<Rightarrow> bool" where
  "run_ok h old new i oh nh ps \<longleftrightarrow>
     i < length new \<and> length old = i + 1 \<and> well_formed h old \<and> well_formed h new
     \<and> collision_free h (tree_inputs (join_trees h old)) (tree_inputs (join_trees h new))
     \<and> collision_free h (tree_inputs (join_trees h old)) (climb_inputs h i (length new - 1) oh nh ps)
     \<and> collision_free h (tree_inputs (join_trees h new)) (climb_inputs h i (length new - 1) oh nh ps)
     \<and> (\<exists>n' nh' ps'. climb_old (total_digest h) i (length new - 1) oh nh ps
            = Inr (Some (n', tree_hash (join_trees h old), nh', ps'))
          \<and> climb_new (total_digest h) n' nh' ps' = Inr (Some (tree_hash (join_trees h new))))"

lemma run_okI_pairs:
  assumes "run_ok h old new i oh nh ps" "i \<noteq> 0"
    and sub: "set (climb_inputs h (i div 2) ((length new - 1) div 2) oh' nh' ps')
      \<subseteq> set (climb_inputs h i (length new - 1) oh nh ps)"
    and run: "climb_old (total_digest h) i (length new - 1) oh nh ps
      = climb_old (total_digest h) (i div 2) ((length new - 1) div 2) oh' nh' ps'"
  shows "run_ok h (pairs h old) (pairs h new) (i div 2) oh' nh' ps'"
proof -
  have len: "i < length new" "length old = i + 1" using assms(1) by (simp_all add: run_ok_def)
  then have ne: "old \<noteq> []" "new \<noteq> []" by auto
  have idx: "length (pairs h new) - 1 = (length new - 1) div 2" using len by simp
  have shape: "i div 2 < length (pairs h new)" "length (pairs h old) = i div 2 + 1"
    using len assms(2) by auto
  note roots = join_trees_pairs [OF ne(1), of h] join_trees_pairs [OF ne(2), of h]
  show ?thesis
    using assms(1) shape sub unfolding run_ok_def idx roots run
    by (auto intro: well_formed_pairs elim: collision_free_subset)
qed

lemma run_ok_odd:
  assumes ok: "run_ok h old new i oh nh ps" and i: "odd i"
  obtains p ps' where "ps = p # ps'"
    "run_ok h (pairs h old) (pairs h new) (i div 2) (h (0x01 # p @ oh)) (h (0x01 # p @ nh)) ps'"
    "0x01 # p @ oh \<in> set (climb_inputs h i (length new - 1) oh nh ps)"
    "0x01 # p @ nh \<in> set (climb_inputs h i (length new - 1) oh nh ps)"
proof -
  have i0: "i \<noteq> 0" using i by (metis even_zero)
  from ok i i0 obtain p ps' where ps: "ps = p # ps'"
    by (auto simp: run_ok_def climb_old.simps [of _ i] split: list.splits)
  then have "run_ok h (pairs h old) (pairs h new) (i div 2) (h (0x01 # p @ oh)) (h (0x01 # p @ nh)) ps'"
    using i i0 by (intro run_okI_pairs [OF ok i0])
      (auto simp: climb_inputs.simps [of h i] climb_old.simps [of _ i] hash_nodes_def)
  with ps i i0 that show thesis by (simp add: climb_inputs.simps [of h i])
qed

lemma run_ok_even_less:
  assumes ok: "run_ok h old new i oh nh ps" and i: "even i" "i \<noteq> 0" "i < length new - 1"
  obtains p ps' where "ps = p # ps'"
    "run_ok h (pairs h old) (pairs h new) (i div 2) oh (h (0x01 # nh @ p)) ps'"
    "0x01 # nh @ p \<in> set (climb_inputs h i (length new - 1) oh nh ps)"
proof -
  from ok i obtain p ps' where ps: "ps = p # ps'"
    by (auto simp: run_ok_def climb_old.simps [of _ i] split: list.splits)
  then have "run_ok h (pairs h old) (pairs h new) (i div 2) oh (h (0x01 # nh @ p)) ps'"
    using i by (intro run_okI_pairs [OF ok i(2)])
      (auto simp: climb_inputs.simps [of h i] climb_old.simps [of _ i] hash_nodes_def)
  with ps i that show thesis by (simp add: climb_inputs.simps [of h i])
qed

lemma run_ok_even_last:
  assumes ok: "run_ok h old new i oh nh ps" and i: "even i" "i \<noteq> 0" "\<not> i < length new - 1"
  shows "run_ok h (pairs h old) (pairs h new) (i div 2) oh nh ps"
  using i by (intro run_okI_pairs [OF ok i(2)])
    (auto simp: climb_inputs.simps [of h i] climb_old.simps [of _ i])

lemma run_ok_facts:
  assumes "run_ok h old new i oh nh ps"
  shows "i < length new" "length old = i + 1" "old \<noteq> []" "new \<noteq> []" "well_formed h old"
    "well_formed h new"
    "collision_free h (tree_inputs (join_trees h old)) (tree_inputs (join_trees h new))"
    "collision_free h (tree_inputs (join_trees h old)) (climb_inputs h i (length new - 1) oh nh ps)"
    "collision_free h (tree_inputs (join_trees h new)) (climb_inputs h i (length new - 1) oh nh ps)"
  using assms by (auto simp: run_ok_def)

definition agree :: "(bytes \<Rightarrow> bytes) \<Rightarrow> Tree list \<Rightarrow> Tree list \<Rightarrow> nat \<Rightarrow> bytes \<Rightarrow> bytes \<Rightarrow> bool" where
  "agree h old new i oh nh \<longleftrightarrow> oh = tree_hash (old ! i) \<and> nh = tree_hash (new ! i)
     \<and> (\<forall>b<i. tree_hash (old ! b) = tree_hash (new ! b))"

lemma agree_prefix:
  assumes len: "\<And>x. length (h x) = w" and ok: "run_ok h old new i oh nh ps"
    and a: "\<forall>a<i div 2. tree_hash (pairs h old ! a) = tree_hash (pairs h new ! a)"
  shows "\<forall>b<2 * (i div 2). tree_hash (old ! b) = tree_hash (new ! b)"
  using run_ok_facts [OF ok] by (intro prefix_down [OF len _ _ _ _ _ a]) auto

lemma hash_split:
  assumes len: "\<And>x. length (h x) = w"
    and wf: "well_formed h ts" "2 * k + 1 < length ts"
    and cf: "collision_free h (tree_inputs (join_trees h ts)) xs" "0x01 # a @ b \<in> set xs"
    and eq: "h (0x01 # a @ b) = tree_hash (pairs h ts ! k)"
  shows "a @ b = tree_hash (ts ! (2 * k)) @ tree_hash (ts ! (2 * k + 1))
    \<and> length (tree_hash (ts ! (2 * k))) = w \<and> length (tree_hash (ts ! (2 * k + 1))) = w"
proof -
  have "pairs h ts ! k = joined h (ts ! (2 * k)) (ts ! (2 * k + 1))"
    using wf(2) by (simp add: pairs_nth)
  with eq have eq': "h (0x01 # tree_hash (ts ! (2 * k)) @ tree_hash (ts ! (2 * k + 1))) = h (0x01 # a @ b)"
    by simp
  from collision_freeD [OF cf(1) joined_input [OF wf(2)] cf(2) eq']
  show ?thesis using well_formed_hash [OF len wf(1)] wf(2) by simp
qed

lemma agree_odd:
  assumes len: "\<And>x. length (h x) = w" and ok: "run_ok h old new i oh nh (p # ps)" and k: "i = 2 * k + 1"
    and ins: "0x01 # p @ oh \<in> set (climb_inputs h i (length new - 1) oh nh (p # ps))"
      "0x01 # p @ nh \<in> set (climb_inputs h i (length new - 1) oh nh (p # ps))"
    and up: "agree h (pairs h old) (pairs h new) k (h (0x01 # p @ oh)) (h (0x01 # p @ nh))"
  shows "\<forall>b<2 * k. tree_hash (old ! b) = tree_hash (new ! b)"
    and "p @ nh = tree_hash (new ! (2 * k)) @ tree_hash (new ! i)"
    and "p @ oh = tree_hash (old ! (2 * k)) @ tree_hash (old ! i)"
    and "length (tree_hash (new ! (2 * k))) = w" "length (tree_hash (new ! i)) = w"
    and "length (tree_hash (old ! (2 * k))) = w" "length (tree_hash (old ! i)) = w"
proof -
  note f = run_ok_facts [OF ok]
  show "\<forall>b<2 * k. tree_hash (old ! b) = tree_hash (new ! b)"
    using agree_prefix [OF len ok] up k by (simp add: agree_def)
  from hash_split [OF len f(6) _ f(9) ins(2), of k] up k f
  show "p @ nh = tree_hash (new ! (2 * k)) @ tree_hash (new ! i)"
    "length (tree_hash (new ! (2 * k))) = w" "length (tree_hash (new ! i)) = w"
    by (auto simp: agree_def)
  from hash_split [OF len f(5) _ f(8) ins(1), of k] up k f
  show "p @ oh = tree_hash (old ! (2 * k)) @ tree_hash (old ! i)"
    "length (tree_hash (old ! (2 * k))) = w" "length (tree_hash (old ! i)) = w"
    by (auto simp: agree_def)
qed

lemma agree_even_less:
  assumes len: "\<And>x. length (h x) = w" and ok: "run_ok h old new i oh nh ps" and k: "i = 2 * k"
    and less: "i < length new - 1"
    and ins: "0x01 # nh @ p \<in> set (climb_inputs h i (length new - 1) oh nh ps)"
    and up: "agree h (pairs h old) (pairs h new) k oh (h (0x01 # nh @ p))"
  shows "\<forall>b<i. tree_hash (old ! b) = tree_hash (new ! b)" and "oh = tree_hash (old ! i)"
    and "nh @ p = tree_hash (new ! i) @ tree_hash (new ! (i + 1))" and "length (tree_hash (new ! i)) = w"
    and "length oh = w"
proof -
  note f = run_ok_facts [OF ok]
  have bound: "2 * k + 1 < length new" using k less by simp
  show "\<forall>b<i. tree_hash (old ! b) = tree_hash (new ! b)"
    using agree_prefix [OF len ok] up k by (simp add: agree_def)
  have "pairs h old ! k = old ! i" using k f(2) by (simp add: pairs_nth)
  with up show "oh = tree_hash (old ! i)" by (simp add: agree_def)
  with well_formed_hash [OF len f(5), of i] f(2) show "length oh = w" by simp
  from hash_split [OF len f(6) bound f(9) ins] up k
  show "nh @ p = tree_hash (new ! i) @ tree_hash (new ! (i + 1))" "length (tree_hash (new ! i)) = w"
    by (simp_all add: agree_def)
qed

lemma agree_even_last:
  assumes len: "\<And>x. length (h x) = w" and ok: "run_ok h old new i oh nh ps" and k: "i = 2 * k"
    and last: "\<not> i < length new - 1" and up: "agree h (pairs h old) (pairs h new) k oh nh"
  shows "agree h old new i oh nh"
proof -
  note f = run_ok_facts [OF ok]
  have "pairs h old ! k = old ! i" "pairs h new ! k = new ! i"
    using k f(1,2) last by (auto intro: pairs_last)
  moreover have "\<forall>b<2 * k. tree_hash (old ! b) = tree_hash (new ! b)"
    using agree_prefix [OF len ok] up k by (simp add: agree_def)
  ultimately show ?thesis using up k by (simp add: agree_def)
qed

lemma run_sound:
  assumes len: "\<And>x. length (h x) = w"
  shows "run_ok h old new i oh nh ps \<Longrightarrow> length nh = w \<Longrightarrow> agree h old new i oh nh"
proof (induction i arbitrary: old new oh nh ps rule: less_induct)
  case (less i)
  note ok = less.prems(1)
  note f = run_ok_facts [OF ok]
  consider "i = 0" | "odd i" | "even i" "i \<noteq> 0" "i < length new - 1"
    | "even i" "i \<noteq> 0" "\<not> i < length new - 1" by blast
  then show ?case
  proof cases
    case 1
    from 1 f(2) obtain t where old: "old = [t]" by (auto simp: length_Suc_conv)
    from ok 1 have "oh = tree_hash (join_trees h old)"
      and new: "climb_new (total_digest h) (length new - 1) nh ps = Inr (Some (tree_hash (join_trees h new)))"
      by (auto simp: run_ok_def climb_old.simps)
    moreover have "nh = tree_hash (new ! 0)"
      using f(9) 1 by (intro climb_new_sound [OF len f(4,6) less.prems(2) new])
        (simp add: climb_inputs.simps)
    ultimately show ?thesis using 1 old by (simp add: agree_def)
  next
    case 2
    then obtain k where k: "i = 2 * k + 1" by (blast elim: oddE)
    from run_ok_odd [OF ok 2] obtain p ps' where ps: "ps = p # ps'"
      and ok': "run_ok h (pairs h old) (pairs h new) (i div 2) (h (0x01 # p @ oh)) (h (0x01 # p @ nh)) ps'"
      and ins: "0x01 # p @ oh \<in> set (climb_inputs h i (length new - 1) oh nh ps)"
        "0x01 # p @ nh \<in> set (climb_inputs h i (length new - 1) oh nh ps)" by blast
    have "agree h (pairs h old) (pairs h new) k (h (0x01 # p @ oh)) (h (0x01 # p @ nh))"
      using less.IH [OF _ ok' len] k by simp
    note a = agree_odd [OF len ok [unfolded ps] k ins [unfolded ps] this]
    from a(2,4,5) less.prems(2) have "p = tree_hash (new ! (2 * k))" "nh = tree_hash (new ! i)" by auto
    moreover from this a(3,4,6) have "p = tree_hash (old ! (2 * k))" "oh = tree_hash (old ! i)" by auto
    ultimately show ?thesis using a(1) k by (auto simp: agree_def less_Suc_eq)
  next
    case 3
    then obtain k where k: "i = 2 * k" by blast
    from run_ok_even_less [OF ok 3] obtain p ps' where
      ok': "run_ok h (pairs h old) (pairs h new) (i div 2) oh (h (0x01 # nh @ p)) ps'"
      and ins: "0x01 # nh @ p \<in> set (climb_inputs h i (length new - 1) oh nh ps)" by blast
    have "agree h (pairs h old) (pairs h new) k oh (h (0x01 # nh @ p))"
      using less.IH [OF _ ok' len] k 3(2) by simp
    note a = agree_even_less [OF len ok k 3(3) ins this]
    then show ?thesis using less.prems(2) by (auto simp: agree_def)
  next
    case 4
    then obtain k where k: "i = 2 * k" by blast
    from run_ok_even_last [OF ok 4] k 4(2) less.prems(2)
    have "agree h (pairs h old) (pairs h new) k oh nh" by (intro less.IH) auto
    then show ?thesis by (rule agree_even_last [OF len ok k 4(3)])
  qed
qed

text \<open>The start: one and the same hash for both trees, of unknown length.\<close>

lemma run_start_sound:
  assumes len: "\<And>x. length (h x) = w"
  shows "run_ok h old new i s s ps \<Longrightarrow> \<forall>b\<le>i. tree_hash (old ! b) = tree_hash (new ! b)"
proof (induction i arbitrary: old new ps rule: less_induct)
  case (less i)
  note ok = less.prems
  note f = run_ok_facts [OF ok]
  consider "i = 0" | "odd i" | "even i" "i \<noteq> 0" "i < length new - 1"
    | "even i" "i \<noteq> 0" "\<not> i < length new - 1" by blast
  then show ?case
  proof cases
    case 1
    then obtain t where old: "old = [t]" using f(2) by (auto simp: length_Suc_conv)
    from ok 1 have "s = tree_hash (join_trees h old)" by (auto simp: run_ok_def climb_old.simps)
    with old have s: "s = tree_hash (old ! 0)" by simp
    with well_formed_hash [OF len f(5), of 0] old have "length s = w" by simp
    from run_sound [OF len ok this] 1 s show ?thesis by (simp add: agree_def)
  next
    case 2
    then obtain k where k: "i = 2 * k + 1" by (blast elim: oddE)
    from run_ok_odd [OF ok 2] obtain p ps' where ps: "ps = p # ps'"
      and ok': "run_ok h (pairs h old) (pairs h new) (i div 2) (h (0x01 # p @ s)) (h (0x01 # p @ s)) ps'"
      and ins: "0x01 # p @ s \<in> set (climb_inputs h i (length new - 1) s s ps)" by blast
    have "agree h (pairs h old) (pairs h new) k (h (0x01 # p @ s)) (h (0x01 # p @ s))"
      using run_sound [OF len ok' len] k by simp
    note a = agree_odd [OF len ok [unfolded ps] k ins [unfolded ps] ins [unfolded ps] this]
    from a(2-7) have "tree_hash (old ! (2 * k)) = tree_hash (new ! (2 * k))"
      "tree_hash (old ! i) = tree_hash (new ! i)" by auto
    with a(1) k show ?thesis by (auto simp: le_Suc_eq less_Suc_eq simp flip: less_Suc_eq_le)
  next
    case 3
    then obtain k where k: "i = 2 * k" by blast
    from run_ok_even_less [OF ok 3] obtain p ps' where
      ok': "run_ok h (pairs h old) (pairs h new) (i div 2) s (h (0x01 # s @ p)) ps'"
      and ins: "0x01 # s @ p \<in> set (climb_inputs h i (length new - 1) s s ps)" by blast
    have "agree h (pairs h old) (pairs h new) k s (h (0x01 # s @ p))"
      using run_sound [OF len ok' len] k by simp
    note a = agree_even_less [OF len ok k 3(3) ins this]
    from a(3-5) have "s = tree_hash (new ! i)" by auto
    with a(1,2) show ?thesis by (auto simp: le_less)
  next
    case 4
    then obtain k where k: "i = 2 * k" by blast
    from run_ok_even_last [OF ok 4] k 4(2)
    have up: "\<forall>b\<le>k. tree_hash (pairs h old ! b) = tree_hash (pairs h new ! b)"
      by (intro less.IH) auto
    have "pairs h old ! k = old ! i" "pairs h new ! k = new ! i"
      using k f(1,2) 4(3) by (auto intro: pairs_last)
    moreover have "\<forall>b<2 * k. tree_hash (old ! b) = tree_hash (new ! b)"
      using agree_prefix [OF len ok] up k by simp
    ultimately show ?thesis using up k by (auto simp: le_less)
  qed
qed

lemma tree_hash_inj:
  assumes len: "\<And>x. length (h x) = w"
  shows "no_empty s \<Longrightarrow> well_hashed h s \<Longrightarrow> no_empty t \<Longrightarrow> well_hashed h t \<Longrightarrow>
    collision_free h (tree_inputs s) (tree_inputs t) \<Longrightarrow> tree_hash s = tree_hash t \<Longrightarrow> s = t"
proof (induction s arbitrary: t)
  case (Leaf hash v)
  then show ?case by (cases t) (auto simp: collision_free_def)
next
  case (Node hash l r)
  note cf = Node.prems(5)
  show ?case
  proof (cases t)
    case (Leaf hash' v)
    with Node.prems show ?thesis by (auto simp: collision_free_def)
  next
    case t: (Node hash' l' r')
    have "0x01 # tree_hash l @ tree_hash r = 0x01 # tree_hash l' @ tree_hash r'"
      by (rule collision_freeD [OF cf]) (use Node.prems t in simp_all)
    moreover have "length (tree_hash l) = w" "length (tree_hash l') = w"
      using Node.prems t len by (cases l; cases l'; auto)+
    ultimately have "tree_hash l = tree_hash l'" "tree_hash r = tree_hash r'" by auto
    moreover have "collision_free h (tree_inputs l) (tree_inputs l')"
      "collision_free h (tree_inputs r) (tree_inputs r')"
      using t by (auto intro: collision_free_subset [OF cf])
    ultimately have "l = l'" "r = r'" using Node t by auto
    with Node.prems t show ?thesis by simp
  qed (use Node.prems in simp)
qed simp

lemma levels_prefix:
  assumes len: "\<And>x. length (h x) = w" and ok: "run_ok h old new i s s ps"
  shows "old = take (i + 1) new"
proof (rule nth_equalityI)
  note f = run_ok_facts [OF ok]
  show "length old = length (take (i + 1) new)" using f(1,2) by simp
  fix b assume "b < length old"
  then have b: "b \<le> i" "b < length old" "b < length new" using f(1,2) by simp_all
  have "old ! b = new ! b"
  proof (rule tree_hash_inj [OF len])
    show "collision_free h (tree_inputs (old ! b)) (tree_inputs (new ! b))"
      using tree_inputs_join_trees [OF f(3), of "old ! b" h] tree_inputs_join_trees [OF f(4), of "new ! b" h] b
      by (intro collision_free_subset [OF f(7)]) auto
    show "tree_hash (old ! b) = tree_hash (new ! b)" using run_start_sound [OF len ok] b by blast
  qed (use well_formed_nth [OF f(5) b(2)] well_formed_nth [OF f(6) b(3)] in simp_all)
  then show "old ! b = take (i + 1) new ! b" using b by simp
qed

lemma consistency_proof_True_cases:
  assumes "consistency_proof (total_digest h) mt root n proof = Inr True" "mt_count mt \<noteq> 0"
  obtains "mt_count mt = n" "root_hash mt = root"
  | i k s ps n' nh' ps' where "mt_count mt \<le> n" "strip_right (mt_count mt - 1) (n - 1) = (i, k)"
      "i = 0 \<Longrightarrow> s = root_hash mt \<and> ps = proof" "i \<noteq> 0 \<Longrightarrow> proof = s # ps"
      "climb_old (total_digest h) i k s s ps = Inr (Some (n', root_hash mt, nh', ps'))"
      "climb_new (total_digest h) n' nh' ps' = Inr (Some root)"
proof (cases "mt_count mt = n \<and> root_hash mt = root")
  case True
  with that(1) show thesis by blast
next
  case False
  obtain i k where strip: "strip_right (mt_count mt - 1) (n - 1) = (i, k)" by fastforce
  from assms False have le: "mt_count mt \<le> n"
    by (auto simp: consistency_proof_def split: if_splits)
  with assms False strip obtain s ps where
    start: "(if i \<noteq> 0 then (case proof of [] \<Rightarrow> None | p # proofs \<Rightarrow> Some (p, proofs))
       else Some (root_hash mt, proof)) = Some (s, ps)"
    and rest: "bindr (climb_old (total_digest h) i k s s ps) (\<lambda>climbed.
               case climbed of
                 None \<Rightarrow> Inr False
               | Some (new_node, old_hash, new_hash, proofs) \<Rightarrow>
                   bindr (climb_new (total_digest h) new_node new_hash proofs) (\<lambda>top.
                   case top of
                     None \<Rightarrow> Inr False
                   | Some new_hash \<Rightarrow>
                       if new_hash \<noteq> root then Inr False
                       else if old_hash \<noteq> root_hash mt then Inr False
                       else Inr True)) = Inr True"
    by (auto simp: consistency_proof_def not_less split: option.splits)
  from rest obtain n' nh' ps' where
    "climb_old (total_digest h) i k s s ps = Inr (Some (n', root_hash mt, nh', ps'))"
    "climb_new (total_digest h) n' nh' ps' = Inr (Some root)"
    by (auto simp: bindr_Inr_iff split: option.splits if_splits)
  with le strip start show thesis
    by (intro that(2)) (auto split: if_splits list.splits)
qed

lemma prefix_of_leaves:
  assumes "old = take k new" "concat (map leaves old) = vs" "concat (map leaves new) = ws"
  shows "vs = take (length vs) ws"
proof -
  have "ws = concat (map leaves (take k new @ drop k new))" using assms(3) by simp
  also have "\<dots> = vs @ concat (map leaves (drop k new))"
    using assms(1,2) unfolding map_append concat_append by simp
  finally show ?thesis by simp
qed

lemma consistency_proof_prefix:
  assumes len: "\<And>x. length (h x) = w" and "vs \<noteq> []" "ws \<noteq> []"
    and acc: "consistency_proof (total_digest h) (rfc_merkle h vs) (mth h ws) (length ws) proof = Inr True"
    and cf: "collision_free h (tree_inputs (rfc_tree h vs)) (tree_inputs (rfc_tree h ws))"
      "collision_free h (tree_inputs (rfc_tree h vs)) (check_inputs h (rfc_merkle h vs) (length ws) proof)"
      "collision_free h (tree_inputs (rfc_tree h ws)) (check_inputs h (rfc_merkle h vs) (length ws) proof)"
  shows "vs = take (length vs) ws"
proof -
  let ?mt = "rfc_merkle h vs"
  have count: "mt_count ?mt = length vs" by (simp add: rfc_merkle_def)
  with acc assms(2) have "mt_count ?mt \<noteq> 0" by simp
  with acc show ?thesis
  proof (cases rule: consistency_proof_True_cases)
    case 1
    then have "tree_hash (rfc_tree h vs) = tree_hash (rfc_tree h ws)" by (simp add: tree_hash_rfc_tree)
    then have "rfc_tree h vs = rfc_tree h ws"
      using assms(2,3) cf(1)
      by (intro tree_hash_inj [OF len]) (simp_all add: no_empty_rfc_tree well_hashed_rfc_tree)
    then have "leaves (rfc_tree h vs) = leaves (rfc_tree h ws)" by simp
    then show ?thesis by simp
  next
    case (2 i k s ps n' nh' ps')
    let ?old = "map (hashed_leaf h) vs" and ?new = "map (hashed_leaf h) ws"
    have ne: "?old \<noteq> []" "?new \<noteq> []" using assms(2,3) by simp_all
    from strip_levels [OF ne well_formed_leaves well_formed_leaves] obtain old new where
      l: "lifted h ?old ?new old new"
      and strip: "strip_right (length ?old - 1) (length ?new - 1) = (length old - 1, length new - 1)"
      by blast
    from strip 2(2) count have ik: "i = length old - 1" "k = length new - 1" by simp_all
    from l 2(1) count have shape: "old \<noteq> []" "length old \<le> length new" by (simp_all add: lifted_def)
    then have i: "length old = i + 1" "i < length new"
      unfolding ik by (cases old; simp)+
    from l have roots: "join_trees h old = rfc_tree h vs" "join_trees h new = rfc_tree h ws"
      by (simp_all add: lifted_def rfc_tree_def)
    have "check_inputs h ?mt (length ws) proof = climb_inputs h i k s s ps"
      using 2(2-4) by (cases "i = 0") (auto simp: check_inputs_def)
    then have "run_ok h old new i s s ps"
      using l i 2(5,6) cf unfolding run_ok_def roots ik(2)
      by (auto simp: lifted_def tree_hash_rfc_tree)
    from levels_prefix [OF len this] have "old = take (i + 1) new" .
    then show ?thesis
      by (rule prefix_of_leaves) (use l in \<open>simp_all add: lifted_def concat_hashed_leaves del: map_map\<close>)
  qed
qed

section \<open>Properties\<close>

text \<open>
  C6: completeness of consistency proofs: the hashes an honest node reads off the levels of the
  new tree convince \<^verbatim>\<open>consistency_proof\<close> on the tree of any non-empty prefix; all its loops end
  without running out of hashes.
\<close>
theorem consistency_proof_complete:
  assumes "0 < m" and "m \<le> length ws" and "from_vec (total_digest h) (take m ws) = Inr mt"
  shows "consistency_proof (total_digest h) mt (mth h ws) (length ws)
    (honest_path h (m - 1) (map (hashed_leaf h) ws)) = Inr True"
  using consistency_proof_honest [OF assms(1,2)] assms(3) by (auto simp: from_vec_rfc_merkle)

text \<open>Witness for C6: the first three of seven transactions.\<close>
theorem consistency_proof_complete_witness:
  "\<exists>mt. from_vec (total_digest rev) (take 3 [[1], [2], [3], [4], [5], [6], [7]]) = Inr mt \<and>
   consistency_proof (total_digest rev) mt (mth rev [[1], [2], [3], [4], [5], [6], [7]])
     (length [[1 :: byte], [2], [3], [4], [5], [6], [7]])
     (honest_path rev 2 (map (hashed_leaf rev) [[1], [2], [3], [4], [5], [6], [7]])) = Inr True"
  using consistency_proof_complete [OF _ _ from_vec_rfc_merkle,
      of 3 "[[1], [2], [3], [4], [5], [6], [7]]" rev]
    from_vec_rfc_merkle [of rev "take 3 [[1], [2], [3], [4], [5], [6], [7]]"]
  by auto

text \<open>
  C5: soundness of consistency proofs: let the digest have a fixed output length and no collision
  among the strings hashed for the old tree, for the new tree and by the check. If
  \<^verbatim>\<open>consistency_proof\<close> accepts, for the tree of the non-empty \<open>vs\<close>, the root hash and size of
  \<open>ws\<close>, then \<open>vs\<close> is a prefix of \<open>ws\<close>: a ledger that was accepted has only been appended to.
\<close>
theorem consistency_proof_sound:
  assumes "vs \<noteq> []" and "ws \<noteq> []"
    and old: "from_vec (total_digest h) vs = Inr old" and new: "from_vec (total_digest h) ws = Inr new"
    and acc: "consistency_proof (total_digest h) old (root_hash new) (mt_count new) proof = Inr True"
    and len: "\<And>x. length (h x) = 32"
    and "collision_free h (tree_inputs (mt_root old)) (tree_inputs (mt_root new))"
    and "collision_free h (tree_inputs (mt_root old)) (check_inputs h old (mt_count new) proof)"
    and "collision_free h (tree_inputs (mt_root new)) (check_inputs h old (mt_count new) proof)"
  shows "vs = take (length vs) ws"
proof -
  have trees: "old = rfc_merkle h vs" "new = rfc_merkle h ws" using old new by (simp_all add: from_vec_rfc_merkle)
  then have parts: "mt_root old = rfc_tree h vs" "mt_root new = rfc_tree h ws" "mt_count new = length ws"
    "root_hash new = mth h ws" by (simp_all add: rfc_merkle_def root_hash_def tree_hash_rfc_tree)
  note cf = assms(7-9) [unfolded parts, unfolded trees(1)]
  show ?thesis
    by (rule consistency_proof_prefix [OF len assms(1,2) acc [unfolded parts, unfolded trees(1)] cf])
qed

text \<open>Witness for C5: one transaction, then two, with the leaf hash of the second as the proof.\<close>
theorem consistency_proof_sound_witness:
  "\<exists>old new. from_vec (total_digest sum_digest) [[1]] = Inr old
    \<and> from_vec (total_digest sum_digest) [[1], [2]] = Inr new
    \<and> consistency_proof (total_digest sum_digest) old (root_hash new) (mt_count new)
        [sum_digest [0, 2]] = Inr True
    \<and> [[1 :: byte]] = take 1 [[1], [2]]"
proof -
  let ?old = "rfc_merkle sum_digest [[1]]" and ?new = "rfc_merkle sum_digest [[1], [2]]"
  let ?ps = "[sum_digest [0, 2]]"
  have old: "mt_root ?old = hashed_leaf sum_digest [1]" "mt_count ?old = 1"
    by (simp_all add: rfc_merkle_def)
  have new: "mt_root ?new = joined sum_digest (hashed_leaf sum_digest [1]) (hashed_leaf sum_digest [2])"
    "mt_count ?new = 2" by (simp_all add: rfc_merkle_def rfc_tree_def join_trees_two)
  have strip: "strip_right 0 (Suc 0) = (0, Suc 0)" by (simp add: strip_right.simps)
  have acc: "consistency_proof (total_digest sum_digest) ?old (root_hash ?new) (mt_count ?new) ?ps = Inr True"
    by (simp add: consistency_proof_def old new strip climb_old.simps climb_new.simps
        root_hash_def hashed_leaf_def hash_nodes_def)
  have chk: "check_inputs sum_digest ?old (mt_count ?new) ?ps
      = [0x01 # sum_digest [0, 1] @ sum_digest [0, 2]]"
    by (simp add: check_inputs_def old new strip climb_inputs.simps root_hash_def hashed_leaf_def)
  have inp: "tree_inputs (mt_root ?old) = [[0, 1]]"
    "tree_inputs (mt_root ?new) = [0x01 # sum_digest [0, 1] @ sum_digest [0, 2], [0, 1], [0, 2]]"
    unfolding old new by (simp_all add: joined_def hashed_leaf_def)
  have cf: "collision_free sum_digest (tree_inputs (mt_root ?old)) (tree_inputs (mt_root ?new))"
    "collision_free sum_digest (tree_inputs (mt_root ?old)) (check_inputs sum_digest ?old (mt_count ?new) ?ps)"
    "collision_free sum_digest (tree_inputs (mt_root ?new)) (check_inputs sum_digest ?old (mt_count ?new) ?ps)"
    unfolding inp chk by (simp_all add: collision_free_def sum_digest_def sum_list_replicate)
  have "[[1 :: byte]] = take (length [[1 :: byte]]) [[1], [2]]"
    by (rule consistency_proof_sound [OF _ _ from_vec_rfc_merkle from_vec_rfc_merkle acc _ cf])
       (simp_all add: sum_digest_def)
  with acc show ?thesis
    by (intro exI [of _ ?old] exI [of _ ?new]) (simp add: from_vec_rfc_merkle)
qed

end
