(* ===== verification/Wql.thy ===== *)
theory Wql
  imports Prelude "HOL-Library.Char_ord" "HOL-Library.List_Lexorder"
begin

text \<open>
  The wallet query language (\<^verbatim>\<open>libindy/indy-utils/src/wql.rs\<close>): the JSON values serde
  hands to \<^verbatim>\<open>Query::deserialize\<close>, the parser with its error texts, \<^verbatim>\<open>to_value\<close>,
  \<^verbatim>\<open>optimise\<close>, and the meaning of a query on the tags of a record. A Rust \<^verbatim>\<open>String\<close> is
  a HOL string read as its UTF-8 bytes (a HOL \<open>char\<close> has eight bits), so lengths and orders are those of
  the code. A JSON object is the list of its entries in the order its iterator has; keys are distinct.
\<close>

section \<open>JSON values\<close>

datatype Value =
    Null | Bool bool | Number int | String string
  | Array "Value list" | Object "(string \<times> Value) list"

fun is_null :: "Value \<Rightarrow> bool" where
  "is_null Null = True"
| "is_null _ = False"

section \<open>Queries and their parser\<close>

datatype Query =
    QAnd "Query list" | QOr "Query list" | QNot Query
  | QEq string string | QNeq string string
  | QGt string string | QGte string string | QLt string string | QLte string string
  | QLike string string | QIn string "string list"

text \<open>Parser errors carry the message, the \<^verbatim>\<open>&'static str\<close> of the code.\<close>

fun string_values :: "Value list \<Rightarrow> string + string list" where
  "string_values [] = Inr []"
| "string_values (String s # vs) = bindr (string_values vs) (\<lambda>ss. Inr (s # ss))"
| "string_values (_ # vs) = Inl ''$in must be used with array of strings''"

definition parse_single_operator :: "string \<Rightarrow> string \<Rightarrow> Value \<Rightarrow> string + Query" where
  "parse_single_operator operator_name key value =
    (if operator_name = ''$neq'' then
       (case value of String v \<Rightarrow> Inr (QNeq key v) | _ \<Rightarrow> Inl ''$neq must be used with string'')
     else if operator_name = ''$gt'' then
       (case value of String v \<Rightarrow> Inr (QGt key v) | _ \<Rightarrow> Inl ''$gt must be used with string'')
     else if operator_name = ''$gte'' then
       (case value of String v \<Rightarrow> Inr (QGte key v) | _ \<Rightarrow> Inl ''$gte must be used with string'')
     else if operator_name = ''$lt'' then
       (case value of String v \<Rightarrow> Inr (QLt key v) | _ \<Rightarrow> Inl ''$lt must be used with string'')
     else if operator_name = ''$lte'' then
       (case value of String v \<Rightarrow> Inr (QLte key v) | _ \<Rightarrow> Inl ''$lte must be used with string'')
     else if operator_name = ''$like'' then
       (case value of String v \<Rightarrow> Inr (QLike key v) | _ \<Rightarrow> Inl ''$like must be used with string'')
     else if operator_name = ''$in'' then
       (case value of
          Array vs \<Rightarrow> bindr (string_values vs) (\<lambda>targets. Inr (QIn key targets))
        | _ \<Rightarrow> Inl ''$in must be used with array of strings'')
     else Inl ''Unknown operator'')"

definition single_or_and :: "Query list \<Rightarrow> Query" where
  "single_or_and operators = (case operators of [q] \<Rightarrow> q | _ \<Rightarrow> QAnd operators)"

function (sequential) parse_query :: "(string \<times> Value) list \<Rightarrow> string + Query"
  and parse_entries :: "(string \<times> Value) list \<Rightarrow> string + Query list"
  and parse_operator :: "string \<Rightarrow> Value \<Rightarrow> string + Query option"
  and parse_list_operators :: "Value list \<Rightarrow> string + Query list" where
  "parse_query obj = bindr (parse_entries obj) (\<lambda>operators. Inr (single_or_and operators))"
| "parse_entries [] = Inr []"
| "parse_entries ((key, value) # rest) =
    bindr (parse_operator key value) (\<lambda>operator.
    bindr (parse_entries rest) (\<lambda>operators.
      Inr (case operator of Some q \<Rightarrow> q # operators | None \<Rightarrow> operators)))"
| "parse_operator key value =
    (if key = ''$and'' then
       (case value of
          Array [] \<Rightarrow> Inr None
        | Array values \<Rightarrow> bindr (parse_list_operators values) (\<lambda>ops. Inr (Some (QAnd ops)))
        | _ \<Rightarrow> Inl ''$and must be array of JSON objects'')
     else if key = ''$or'' then
       (case value of
          Array [] \<Rightarrow> Inr None
        | Array values \<Rightarrow> bindr (parse_list_operators values) (\<lambda>ops. Inr (Some (QOr ops)))
        | _ \<Rightarrow> Inl ''$or must be array of JSON objects'')
     else if key = ''$not'' then
       (case value of
          Object obj \<Rightarrow> bindr (parse_query obj) (\<lambda>q. Inr (Some (QNot q)))
        | _ \<Rightarrow> Inl ''$not must be JSON object'')
     else
       (case value of
          String v \<Rightarrow> Inr (Some (QEq key v))
        | Object obj \<Rightarrow>
            (case obj of
               [(operator_name, v)] \<Rightarrow>
                 bindr (parse_single_operator operator_name key v) (\<lambda>q. Inr (Some q))
             | _ \<Rightarrow> Inl ''value must be JSON object of length 1'')
        | _ \<Rightarrow> Inl ''Unsupported value''))"
| "parse_list_operators [] = Inr []"
| "parse_list_operators (Object obj # rest) =
    bindr (parse_query obj) (\<lambda>q. bindr (parse_list_operators rest) (\<lambda>qs. Inr (q # qs)))"
| "parse_list_operators (_ # rest) = Inl ''operator must be array of JSON objects''"
  by pat_completeness auto
termination
  by (relation "measure (\<lambda>x. case x of
       Inl (Inl m) \<Rightarrow> 2 * size_list (size_prod (\<lambda>_. 0) size) m + 1
     | Inl (Inr m) \<Rightarrow> 2 * size_list (size_prod (\<lambda>_. 0) size) m
     | Inr (Inl (k, v)) \<Rightarrow> 2 * size v + 1
     | Inr (Inr vs) \<Rightarrow> 2 * size_list size vs)") auto

text \<open>The error values of \<^verbatim>\<open>serde::de::Error\<close> the deserializer builds.\<close>

datatype DeError = MissingField string | Custom string

fun old_restrictions :: "Value list \<Rightarrow> DeError + Value list" where
  "old_restrictions [] = Inr []"
| "old_restrictions (Object entries # rest) =
    bindr (old_restrictions rest) (\<lambda>res.
      let sub_query = [e \<leftarrow> entries. \<not> is_null (snd e)]
      in Inr (if sub_query = [] then res else Object sub_query # res))"
| "old_restrictions (_ # rest) = Inl (Custom ''Restriction is invalid'')"

fun map_err :: "('e \<Rightarrow> 'f) \<Rightarrow> 'e + 'a \<Rightarrow> 'f + 'a" where
  "map_err f (Inl e) = Inl (f e)"
| "map_err f (Inr x) = Inr x"

fun deserialize :: "Value \<Rightarrow> DeError + Query" where
  "deserialize (Object obj) = map_err MissingField (parse_query obj)"
| "deserialize (Array array) =
    bindr (old_restrictions array) (\<lambda>res.
      map_err Custom (parse_query [(''$or'', Array res)]))"
| "deserialize _ = Inl (MissingField ''Restriction must be either object or array'')"

fun to_value :: "Query \<Rightarrow> Value" where
  "to_value (QEq n v) = Object [(n, String v)]"
| "to_value (QNeq n v) = Object [(n, Object [(''$neq'', String v)])]"
| "to_value (QGt n v) = Object [(n, Object [(''$gt'', String v)])]"
| "to_value (QGte n v) = Object [(n, Object [(''$gte'', String v)])]"
| "to_value (QLt n v) = Object [(n, Object [(''$lt'', String v)])]"
| "to_value (QLte n v) = Object [(n, Object [(''$lte'', String v)])]"
| "to_value (QLike n v) = Object [(n, Object [(''$like'', String v)])]"
| "to_value (QIn n vs) = Object [(n, Object [(''$in'', Array (map String vs))])]"
| "to_value (QAnd qs) = (if qs \<noteq> [] then Object [(''$and'', Array (map to_value qs))] else Object [])"
| "to_value (QOr qs) = (if qs \<noteq> [] then Object [(''$or'', Array (map to_value qs))] else Object [])"
| "to_value (QNot q) = Object [(''$not'', to_value q)]"

definition default_query :: Query where
  "default_query = QAnd []"

section \<open>Simplification\<close>

fun optimise :: "Query \<Rightarrow> Query option" where
  "optimise (QNot (QNot nested)) = Some nested"
| "optimise (QNot operator) = Some (QNot operator)"
| "optimise (QAnd []) = None"
| "optimise (QAnd [q]) = optimise q"
| "optimise (QAnd suboperators) =
    (case List.map_filter optimise suboperators of
       [] \<Rightarrow> None | [q] \<Rightarrow> Some q | qs \<Rightarrow> Some (QAnd qs))"
| "optimise (QOr []) = None"
| "optimise (QOr [q]) = optimise q"
| "optimise (QOr suboperators) =
    (case List.map_filter optimise suboperators of
       [] \<Rightarrow> None | [q] \<Rightarrow> Some q | qs \<Rightarrow> Some (QOr qs))"
| "optimise (QIn key [target]) = Some (QEq key target)"
| "optimise q = Some q"

section \<open>Meaning of a query\<close>

text \<open>
  The specification: which records, given by their tags, a query asks for. As in the storage's
  translation every test but a negation asks for a tag of that name, also an inequality. \<open>like\<close> is
  the pattern match of the storage engine.
\<close>

definition tag_sat :: "('n \<Rightarrow> 'v option) \<Rightarrow> 'n \<Rightarrow> ('v \<Rightarrow> bool) \<Rightarrow> bool" where
  "tag_sat tags n P \<longleftrightarrow> (case tags n of Some w \<Rightarrow> P w | None \<Rightarrow> False)"

fun sat :: "(string \<Rightarrow> string \<Rightarrow> bool) \<Rightarrow> (string \<Rightarrow> string option) \<Rightarrow> Query \<Rightarrow> bool" where
  "sat like tags (QAnd qs) \<longleftrightarrow> (\<forall>q\<in>set qs. sat like tags q)"
| "sat like tags (QOr qs) \<longleftrightarrow> (\<exists>q\<in>set qs. sat like tags q)"
| "sat like tags (QNot q) \<longleftrightarrow> \<not> sat like tags q"
| "sat like tags (QEq n v) \<longleftrightarrow> tag_sat tags n (\<lambda>w. w = v)"
| "sat like tags (QNeq n v) \<longleftrightarrow> tag_sat tags n (\<lambda>w. w \<noteq> v)"
| "sat like tags (QGt n v) \<longleftrightarrow> tag_sat tags n (\<lambda>w. w > v)"
| "sat like tags (QGte n v) \<longleftrightarrow> tag_sat tags n (\<lambda>w. w \<ge> v)"
| "sat like tags (QLt n v) \<longleftrightarrow> tag_sat tags n (\<lambda>w. w < v)"
| "sat like tags (QLte n v) \<longleftrightarrow> tag_sat tags n (\<lambda>w. w \<le> v)"
| "sat like tags (QLike n v) \<longleftrightarrow> tag_sat tags n (\<lambda>w. like v w)"
| "sat like tags (QIn n vs) \<longleftrightarrow> tag_sat tags n (\<lambda>w. w \<in> set vs)"

text \<open>The query a caller gets after \<^verbatim>\<open>optimise().unwrap_or_default()\<close>.\<close>

fun sat_opt :: "(string \<Rightarrow> string \<Rightarrow> bool) \<Rightarrow> (string \<Rightarrow> string option) \<Rightarrow> Query option \<Rightarrow> bool" where
  "sat_opt like tags None \<longleftrightarrow> sat like tags default_query"
| "sat_opt like tags (Some q) \<longleftrightarrow> sat like tags q"


section \<open>Round trip\<close>

definition reserved :: "string \<Rightarrow> bool" where
  "reserved n \<longleftrightarrow> n \<in> {''$and'', ''$or'', ''$not''}"

text \<open>The queries whose JSON form means the same: no empty alternative, no tag named like a connective.\<close>

fun printable :: "Query \<Rightarrow> bool" where
  "printable (QAnd qs) \<longleftrightarrow> (\<forall>q\<in>set qs. printable q)"
| "printable (QOr qs) \<longleftrightarrow> qs \<noteq> [] \<and> (\<forall>q\<in>set qs. printable q)"
| "printable (QNot q) \<longleftrightarrow> printable q"
| "printable (QEq n v) \<longleftrightarrow> \<not> reserved n"
| "printable (QNeq n v) \<longleftrightarrow> \<not> reserved n"
| "printable (QGt n v) \<longleftrightarrow> \<not> reserved n"
| "printable (QGte n v) \<longleftrightarrow> \<not> reserved n"
| "printable (QLt n v) \<longleftrightarrow> \<not> reserved n"
| "printable (QLte n v) \<longleftrightarrow> \<not> reserved n"
| "printable (QLike n v) \<longleftrightarrow> \<not> reserved n"
| "printable (QIn n vs) \<longleftrightarrow> \<not> reserved n"

fun entries :: "Value \<Rightarrow> (string \<times> Value) list" where
  "entries (Object obj) = obj"
| "entries _ = []"

lemma to_value_Object: "to_value q = Object (entries (to_value q))"
  by (cases q) simp_all

lemma map_err_Inr [simp]: "map_err f r = Inr x \<longleftrightarrow> r = Inr x"
  by (cases r) simp_all

lemma string_values_String [simp]: "string_values (map String vs) = Inr vs"
  by (induction vs) simp_all

lemma single_or_and_simps [simp]:
  "single_or_and [q] = q" "single_or_and [] = QAnd []"
  by (simp_all add: single_or_and_def)

lemma parse_single [simp]:
  "parse_query [(k, v)] = bindr (parse_operator k v)
     (\<lambda>q. Inr (case q of Some q \<Rightarrow> q | None \<Rightarrow> QAnd []))"
  by (cases "parse_operator k v") (auto split: option.split)

declare parse_query.simps [simp del] parse_operator.simps [simp del]

lemma parse_list_operators_to_value:
  "parse_list_operators (map to_value qs) = traverse (\<lambda>q. parse_query (entries (to_value q))) qs"
  by (induction qs) (simp, subst list.map(2), subst to_value_Object, simp)

lemma parse_connective:
  assumes "qs \<noteq> []"
  shows "parse_query [(''$and'', Array (map to_value qs))] =
      bindr (traverse (\<lambda>q. parse_query (entries (to_value q))) qs) (\<lambda>ops. Inr (QAnd ops))"
    and "parse_query [(''$or'', Array (map to_value qs))] =
      bindr (traverse (\<lambda>q. parse_query (entries (to_value q))) qs) (\<lambda>ops. Inr (QOr ops))"
  using assms parse_list_operators_to_value [of qs]
  by (cases qs; simp add: parse_operator.simps bindr_assoc)+

text \<open>A test of a reserved name is read as something else than a test of that name.\<close>

fun is_test :: "Query \<Rightarrow> bool" where
  "is_test (QAnd _) = False" | "is_test (QOr _) = False" | "is_test (QNot _) = False"
| "is_test _ = True"

lemma parse_reserved_not_test:
  "reserved n \<Longrightarrow> parse_query [(n, v)] = Inr q \<Longrightarrow> \<not> is_test q"
  by (auto simp: reserved_def parse_operator.simps bindr_Inr_iff
      split: Value.splits list.splits if_splits)

lemma parse_unreserved_Object:
  "\<not> reserved n \<Longrightarrow> parse_query [(n, Object [(p, v)])] = parse_single_operator p n v"
  by (cases "parse_single_operator p n v") (auto simp: reserved_def parse_operator.simps)

lemma parse_unreserved_String:
  "\<not> reserved n \<Longrightarrow> parse_query [(n, String v)] = Inr (QEq n v)"
  by (auto simp: reserved_def parse_operator.simps)

lemma traverse_same_iff: "traverse f xs = Inr xs \<longleftrightarrow> (\<forall>x\<in>set xs. f x = Inr x)"
  by (induction xs) (auto simp: bindr_Inr_iff)

lemma parse_test_iff:
  assumes "\<not> reserved n \<Longrightarrow> parse_query [(n, v)] = Inr q" and "is_test q"
  shows "parse_query [(n, v)] = Inr q \<longleftrightarrow> \<not> reserved n"
  using assms parse_reserved_not_test by blast

lemma parse_to_value_iff: "parse_query (entries (to_value q)) = Inr q \<longleftrightarrow> printable q"
proof (induction q)
  case (QAnd qs)
  then show ?case
    by (cases "qs = []") (simp_all del: parse_single add: parse_query.simps [of "[]"]
        parse_connective bindr_Inr_iff traverse_same_iff)
next
  case (QOr qs)
  then show ?case
    by (cases "qs = []") (simp_all del: parse_single add: parse_query.simps [of "[]"]
        parse_connective bindr_Inr_iff traverse_same_iff)
next
  case (QNot q)
  have "to_value q = Object (entries (to_value q))" by (rule to_value_Object)
  with QNot show ?case
    by (cases "to_value q") (auto simp: parse_operator.simps bindr_Inr_iff)
qed (simp_all del: parse_single add: parse_test_iff parse_unreserved_Object parse_unreserved_String
      parse_single_operator_def)

text \<open>
  A query survives the trip through its JSON form exactly when it has no empty \<^verbatim>\<open>$or\<close> and no test of
  a tag named \<^verbatim>\<open>$and\<close>, \<^verbatim>\<open>$or\<close> or \<^verbatim>\<open>$not\<close>.
\<close>
theorem query_json_roundtrip: "deserialize (to_value q) = Inr q \<longleftrightarrow> printable q"
  by (subst to_value_Object) (simp add: parse_to_value_iff)

section \<open>Simplification keeps the meaning\<close>

text \<open>\<open>or_nonempty\<close> holds of every parsed query; \<open>or_restricts\<close> says that no alternative of a
  disjunction simplifies to the query that matches everything.\<close>

fun or_nonempty :: "Query \<Rightarrow> bool" where
  "or_nonempty (QAnd qs) \<longleftrightarrow> (\<forall>q\<in>set qs. or_nonempty q)"
| "or_nonempty (QOr qs) \<longleftrightarrow> qs \<noteq> [] \<and> (\<forall>q\<in>set qs. or_nonempty q)"
| "or_nonempty (QNot q) \<longleftrightarrow> or_nonempty q"
| "or_nonempty _ \<longleftrightarrow> True"

fun or_restricts :: "Query \<Rightarrow> bool" where
  "or_restricts (QAnd qs) \<longleftrightarrow> (\<forall>q\<in>set qs. or_restricts q)"
| "or_restricts (QOr qs) \<longleftrightarrow>
    (\<forall>q\<in>set qs. or_restricts q) \<and>
    (length qs > 1 \<and> list_ex (\<lambda>q. optimise q = None) qs \<longrightarrow> list_all (\<lambda>q. optimise q = None) qs)"
| "or_restricts _ \<longleftrightarrow> True"

lemma parse_single_operator_test: "parse_single_operator p n v = Inr q \<Longrightarrow> is_test q"
  by (auto simp: parse_single_operator_def bindr_Inr_iff split: Value.splits if_splits)

lemma is_test_or_nonempty: "is_test q \<Longrightarrow> or_nonempty q"
  by (cases q) simp_all

lemma single_or_and_or_nonempty:
  "\<forall>q\<in>set qs. or_nonempty q \<Longrightarrow> or_nonempty (single_or_and qs)"
  by (auto simp: single_or_and_def split: list.splits)

lemma parse_list_operators_length: "parse_list_operators vs = Inr qs \<Longrightarrow> length qs = length vs"
proof (induction vs arbitrary: qs)
  case (Cons v vs)
  then show ?case by (cases v) (auto simp: bindr_Inr_iff)
qed simp

lemma parse_list_operators_Cons [simp]: "parse_list_operators (v # vs) \<noteq> Inr []"
  using parse_list_operators_length by fastforce

lemma parse_or_nonempty:
  "parse_query obj = Inr q \<Longrightarrow> or_nonempty q"
  "parse_entries obj = Inr qs \<Longrightarrow> \<forall>q\<in>set qs. or_nonempty q"
  "parse_operator k v = Inr oq \<Longrightarrow> \<forall>q\<in>set_option oq. or_nonempty q"
  "parse_list_operators vs = Inr qs \<Longrightarrow> \<forall>q\<in>set qs. or_nonempty q"
proof (induction obj and obj and k v and vs arbitrary: q and qs and oq and qs
    rule: parse_query_parse_entries_parse_operator_parse_list_operators.induct)
  case (1 obj)
  then show ?case by (auto simp: parse_query.simps bindr_Inr_iff single_or_and_or_nonempty)
next
  case (3 k v rest)
  then show ?case by (fastforce simp: bindr_Inr_iff split: option.splits)
next
  case (4 key v)
  show ?case
  proof (cases "reserved key")
    case True
    with 4 show ?thesis
      by (auto simp: parse_operator.simps reserved_def bindr_Inr_iff
          split: Value.splits list.splits)
  next
    case False
    with 4(4) show ?thesis
      by (auto simp: parse_operator.simps reserved_def bindr_Inr_iff is_test_or_nonempty
          dest!: parse_single_operator_test split: Value.splits list.splits)
  qed
qed (auto simp: bindr_Inr_iff)

lemma deserialize_or_nonempty: "deserialize v = Inr q \<Longrightarrow> or_nonempty q"
  by (cases v) (auto simp: bindr_Inr_iff simp del: parse_single dest: parse_or_nonempty(1))

lemma sat_default [simp]: "sat like tags default_query"
  by (simp add: default_query_def)

lemma sat_opt_collapse:
  "sat_opt like tags (case qs of [] \<Rightarrow> None | [q] \<Rightarrow> Some q | x # y # zs \<Rightarrow> Some (QAnd (x # y # zs))) \<longleftrightarrow>
    (\<forall>q\<in>set qs. sat like tags q)"
  "sat_opt like tags (case qs of [] \<Rightarrow> None | [q] \<Rightarrow> Some q | x # y # zs \<Rightarrow> Some (QOr (x # y # zs))) \<longleftrightarrow>
    qs = [] \<or> (\<exists>q\<in>set qs. sat like tags q)"
  by (simp_all split: list.split)

lemma optimise_And:
  "sat_opt like tags (optimise (QAnd qs)) \<longleftrightarrow> (\<forall>q\<in>set qs. sat_opt like tags (optimise q))"
proof -
  have *: "(\<forall>q\<in>set (List.map_filter optimise qs). sat like tags q)
      \<longleftrightarrow> (\<forall>q\<in>set qs. sat_opt like tags (optimise q))"
  proof (rule iffI)
    assume L: "\<forall>q\<in>set (List.map_filter optimise qs). sat like tags q"
    show "\<forall>q\<in>set qs. sat_opt like tags (optimise q)"
    proof
      fix q assume "q \<in> set qs"
      with L show "sat_opt like tags (optimise q)"
        by (cases "optimise q") (auto simp: set_flat_map)
    qed
  next
    assume R: "\<forall>q\<in>set qs. sat_opt like tags (optimise q)"
    then show "\<forall>q\<in>set (List.map_filter optimise qs). sat like tags q"
      by (fastforce simp: set_flat_map)
  qed
  show ?thesis
  proof (cases qs rule: remdups_adj.cases)
    case (3 q r rest)
    then show ?thesis using * by (simp only: optimise.simps sat_opt_collapse)
  qed simp_all
qed

lemma optimise_Or:
  assumes "qs \<noteq> []"
  shows "sat_opt like tags (optimise (QOr qs)) \<longleftrightarrow>
    (\<forall>q\<in>set qs. optimise q = None) \<or> (\<exists>q\<in>set qs. optimise q \<noteq> None \<and> sat_opt like tags (optimise q))"
proof (cases qs rule: remdups_adj.cases)
  case (3 q r rest)
  have e: "List.map_filter optimise qs = [] \<longleftrightarrow> (\<forall>q\<in>set qs. optimise q = None)"
    using set_flat_map [of optimise qs] by (auto simp: set_empty2 [symmetric] simp del: set_empty2)
  have x: "(\<exists>q\<in>set (List.map_filter optimise qs). sat like tags q) \<longleftrightarrow>
      (\<exists>q\<in>set qs. optimise q \<noteq> None \<and> sat_opt like tags (optimise q))"
    by (force simp: set_flat_map)
  have "sat_opt like tags (optimise (QOr qs)) \<longleftrightarrow> List.map_filter optimise qs = [] \<or>
      (\<exists>q\<in>set (List.map_filter optimise qs). sat like tags q)"
    unfolding 3 by (simp only: optimise.simps sat_opt_collapse)
  then show ?thesis by (simp only: e x)
qed (use assms in auto)

lemma optimise_Not: "sat_opt like tags (optimise (QNot q)) \<longleftrightarrow> sat like tags (QNot q)"
  by (cases q) simp_all

lemma optimise_In: "sat_opt like tags (optimise (QIn n vs)) \<longleftrightarrow> sat like tags (QIn n vs)"
  by (cases vs rule: remdups_adj.cases) simp_all

lemma optimise_narrows:
  "or_nonempty q \<Longrightarrow> sat_opt like tags (optimise q) \<Longrightarrow> sat like tags q"
proof (induction q)
  case (QOr qs)
  then obtain r rs where qs: "qs = r # rs" by (cases qs) simp_all
  then have "(\<forall>q\<in>set qs. optimise q = None) \<or> (\<exists>q\<in>set qs. sat_opt like tags (optimise q))"
    using QOr(3) optimise_Or [of qs like tags] by auto
  then have "\<exists>q\<in>set qs. sat_opt like tags (optimise q)"
    by (rule disjE) (simp_all add: qs)
  then show ?case using QOr(1,2) by auto
qed (simp_all add: optimise_And optimise_Not optimise_In)

lemma optimise_exact:
  "or_nonempty q \<Longrightarrow> or_restricts q \<Longrightarrow> sat_opt like tags (optimise q) \<longleftrightarrow> sat like tags q"
proof (induction q)
  case (QOr qs)
  have IH: "\<And>q. q \<in> set qs \<Longrightarrow> sat_opt like tags (optimise q) \<longleftrightarrow> sat like tags q"
    using QOr by simp
  show ?case
  proof (cases "length qs > 1")
    case True
    have "(\<exists>q\<in>set qs. optimise q = None) \<longrightarrow> (\<forall>q\<in>set qs. optimise q = None)"
      using QOr(3) True by (auto simp: list_ex_iff list_all_iff)
    then show ?thesis
      using IH QOr(2) optimise_Or [of qs like tags] by (fastforce simp: neq_Nil_conv)
  next
    case False
    then show ?thesis using IH QOr(2) by (cases qs rule: remdups_adj.cases) simp_all
  qed
qed (simp_all add: optimise_And optimise_Not optimise_In)

text \<open>
  C40: \<^verbatim>\<open>optimise\<close> on a parsed query never lets through a record the query rejects, and it
  keeps the meaning exactly when every disjunction has only alternatives that restrict something, or
  none that does.
\<close>
theorem optimise_parsed:
  assumes "deserialize v = Inr q"
  shows "(sat_opt like tags (optimise q) \<longrightarrow> sat like tags q)
    \<and> (or_restricts q \<longrightarrow> (sat_opt like tags (optimise q) \<longleftrightarrow> sat like tags q))"
  using optimise_narrows optimise_exact deserialize_or_nonempty [OF assms] by blast

text \<open>Witness for C40: \<^verbatim>\<open>{"$or": [{"a": "1"}, {"b": {"$in": ["2"]}}], "$and": []}\<close>.\<close>
theorem optimise_parsed_witness:
  "deserialize (Object [(''$or'', Array [Object [(''a'', String ''1'')],
       Object [(''b'', Object [(''$in'', Array [String ''2''])])]]), (''$and'', Array [])])
     = Inr (QOr [QEq ''a'' ''1'', QIn ''b'' [''2'']])
   \<and> or_restricts (QOr [QEq ''a'' ''1'', QIn ''b'' [''2'']])
   \<and> optimise (QOr [QEq ''a'' ''1'', QIn ''b'' [''2'']]) = Some (QOr [QEq ''a'' ''1'', QEq ''b'' ''2''])
   \<and> sat_opt (=) [''b'' \<mapsto> ''2''] (optimise (QOr [QEq ''a'' ''1'', QIn ''b'' [''2'']]))"
proof -
  have d: "deserialize (Object [(''$or'', Array [Object [(''a'', String ''1'')],
       Object [(''b'', Object [(''$in'', Array [String ''2''])])]]), (''$and'', Array [])])
     = Inr (QOr [QEq ''a'' ''1'', QIn ''b'' [''2'']])"
    by (simp add: parse_query.simps parse_operator.simps parse_single_operator_def)
  show ?thesis
    using optimise_parsed [OF d, of "(=)" "[''b'' \<mapsto> ''2'']"] d
    by (simp add: tag_sat_def map_filter_simps)
qed

text \<open>
  The other direction fails. A query with an unrestricted alternative matches every record,
  but \<^verbatim>\<open>optimise\<close> throws that alternative away: \<^verbatim>\<open>{"$or": [{}, {n: v}, {n: w}]}\<close> loses all
  records without such a tag.
\<close>
theorem optimise_drops_unrestricted_alternative:
  "\<exists>q. deserialize (Object [(''$or'', Array [Object [], Object [(''a'', String v)], Object [(''b'', String w)]])]) = Inr q
    \<and> sat like tags q
    \<and> (sat_opt like tags (optimise q) \<longleftrightarrow> tags ''a'' = Some v \<or> tags ''b'' = Some w)"
  by (auto simp: parse_query.simps parse_operator.simps map_filter_simps tag_sat_def split: option.splits)

end
