(* ===== verification/Rust_Std.thy ===== *)
theory Rust_Std
  imports Prelude
begin

text \<open>
  What the components use of Rust's standard library: strings as their UTF-8 bytes, white space and
  \<^verbatim>\<open>trim\<close>, lines, little-endian numbers and decimal numerals, and \<^verbatim>\<open>usize\<close> subtraction in builds
  with and without overflow checks.
\<close>

section \<open>Strings and bytes\<close>

definition byte_of_char :: "char \<Rightarrow> byte" where
  "byte_of_char c = of_nat (of_char c)"

definition char_of_byte :: "byte \<Rightarrow> char" where
  "char_of_byte b = char_of (unat b)"

definition as_bytes :: "string \<Rightarrow> bytes" where
  "as_bytes s = map byte_of_char s"

definition of_bytes :: "bytes \<Rightarrow> string" where
  "of_bytes bs = map char_of_byte bs"

lemma char_byte_inverse [simp]:
  "char_of_byte (byte_of_char c) = c"
  "byte_of_char (char_of_byte b) = b"
proof -
  have "of_char c < (256 :: nat)" by simp
  then show "char_of_byte (byte_of_char c) = c"
    by (simp add: char_of_byte_def byte_of_char_def unat_of_nat take_bit_eq_mod)
  have "unat b < 2 ^ LENGTH(8)" by (rule unsigned_less)
  then have "unat b < 256" by simp
  then have "(of_char (char_of (unat b)) :: nat) = unat b" by simp
  then show "byte_of_char (char_of_byte b) = b"
    by (simp add: char_of_byte_def byte_of_char_def)
qed

lemma string_bytes_inverse [simp]:
  "of_bytes (as_bytes s) = s"
  "as_bytes (of_bytes bs) = bs"
  by (simp_all add: as_bytes_def of_bytes_def map_idI)

lemma as_bytes_inj [simp]: "as_bytes s = as_bytes t \<longleftrightarrow> s = t"
  by (metis string_bytes_inverse(1))

lemma as_bytes_simps [simp]:
  "as_bytes [] = []" "as_bytes (c # s) = byte_of_char c # as_bytes s" "length (as_bytes s) = length s"
  by (simp_all add: as_bytes_def)

text \<open>Validity of UTF-8 (\<^verbatim>\<open>core::str::from_utf8\<close>): no overlong form, no surrogate, at most U+10FFFF.\<close>

definition utf8_cont :: "byte \<Rightarrow> bool" where
  "utf8_cont b \<longleftrightarrow> 0x80 \<le> b \<and> b \<le> 0xBF"

fun utf8_ok :: "bytes \<Rightarrow> bool" where
  "utf8_ok [] = True"
| "utf8_ok (a # bs) =
    (if a < 0x80 then utf8_ok bs
     else if 0xC2 \<le> a \<and> a \<le> 0xDF then
       (case bs of b # rest \<Rightarrow> utf8_cont b \<and> utf8_ok rest | _ \<Rightarrow> False)
     else if 0xE0 \<le> a \<and> a \<le> 0xEF then
       (case bs of b # c # rest \<Rightarrow>
          utf8_cont b \<and> (a = 0xE0 \<longrightarrow> 0xA0 \<le> b) \<and> (a = 0xED \<longrightarrow> b \<le> 0x9F) \<and> utf8_cont c \<and> utf8_ok rest
        | _ \<Rightarrow> False)
     else if 0xF0 \<le> a \<and> a \<le> 0xF4 then
       (case bs of b # c # d # rest \<Rightarrow>
          utf8_cont b \<and> (a = 0xF0 \<longrightarrow> 0x90 \<le> b) \<and> (a = 0xF4 \<longrightarrow> b \<le> 0x8F) \<and> utf8_cont c \<and> utf8_cont d
            \<and> utf8_ok rest
        | _ \<Rightarrow> False)
     else False)"

definition from_utf8 :: "bytes \<Rightarrow> failure \<Rightarrow> string IndyResult" where
  "from_utf8 bs e = (if utf8_ok bs then Inr (of_bytes bs) else Inl e)"

text \<open>A Rust \<^verbatim>\<open>String\<close> always holds valid UTF-8.\<close>

definition rust_string :: "string \<Rightarrow> bool" where
  "rust_string s \<longleftrightarrow> utf8_ok (as_bytes s)"

lemma from_utf8_as_bytes [simp]: "rust_string s \<Longrightarrow> from_utf8 (as_bytes s) e = Inr s"
  by (simp add: from_utf8_def rust_string_def)

lemma rust_string_tilde: "rust_string (CHR ''~'' # s) \<longleftrightarrow> rust_string s"
  by (simp add: rust_string_def byte_of_char_def)

section \<open>White space, lines and numerals\<close>

text \<open>The UTF-8 sequences of the characters with the property \<^verbatim>\<open>White_Space\<close>.\<close>

definition white_spaces :: "bytes list" where
  "white_spaces =
    map (\<lambda>b. [b]) [9, 10, 11, 12, 13, 32] @ [[0xC2, 0x85], [0xC2, 0xA0], [0xE1, 0x9A, 0x80]] @
    map (\<lambda>b. [0xE2, 0x80, b]) [0x80, 0x81, 0x82, 0x83, 0x84, 0x85, 0x86, 0x87, 0x88, 0x89, 0x8A, 0xA8, 0xA9, 0xAF] @
    [[0xE2, 0x81, 0x9F], [0xE3, 0x80, 0x80]]"

function trim_seqs :: "bytes list \<Rightarrow> bytes \<Rightarrow> bytes" where
  "trim_seqs ws xs =
    (case List.find (\<lambda>w. w \<noteq> [] \<and> w = take (length w) xs) ws of
       None \<Rightarrow> xs
     | Some w \<Rightarrow> trim_seqs ws (drop (length w) xs))"
  by pat_completeness auto
termination
proof (relation "measure (\<lambda>(ws, xs). length xs)")
  fix ws xs :: "bytes list" and ys w :: bytes
  assume "List.find (\<lambda>w. w \<noteq> [] \<and> w = take (length w) ys) ws = Some w"
  then have "w \<noteq> []" "w = take (length w) ys" by (auto simp: find_Some_iff)
  then have "0 < length w" "0 < length ys" by auto
  then show "((ws, drop (length w) ys), ws, ys) \<in> measure (\<lambda>(ws, xs). length xs)" by simp
qed simp

declare trim_seqs.simps [simp del]

definition trim_bytes :: "bytes \<Rightarrow> bytes" where
  "trim_bytes xs = rev (trim_seqs (map rev white_spaces) (rev (trim_seqs white_spaces xs)))"

definition trim :: "string \<Rightarrow> string" where
  "trim s = of_bytes (trim_bytes (as_bytes s))"

text \<open>
  \<^verbatim>\<open>BufRead::lines\<close>: a line ends at a line feed, before which one carriage return is dropped; the last
  line need not end; a line that is not UTF-8 is an error.
\<close>

fun split_lines :: "bytes \<Rightarrow> bytes list" where
  "split_lines [] = []"
| "split_lines [b] = (if b = 10 then [[]] else [[b]])"
| "split_lines (b # c # bs) =
    (if b = 10 then [] # split_lines (c # bs)
     else if b = 13 \<and> c = 10 then [] # split_lines bs
     else case split_lines (c # bs) of [] \<Rightarrow> [[b]] | l # ls \<Rightarrow> (b # l) # ls)"

definition decode_line :: "bytes \<Rightarrow> string IndyResult" where
  "decode_line l = from_utf8 l (Error IOError)"

text \<open>Eight-byte little-endian numbers (\<^verbatim>\<open>byteorder\<close>).\<close>

fun le_bytes :: "nat \<Rightarrow> nat \<Rightarrow> bytes" where
  "le_bytes 0 n = []"
| "le_bytes (Suc k) n = of_nat n # le_bytes k (n div 256)"

definition u64_le :: "nat \<Rightarrow> bytes" where
  "u64_le n = le_bytes 8 n"

definition le_nat :: "bytes \<Rightarrow> nat" where
  "le_nat bs = foldr (\<lambda>b n. unat b + 256 * n) bs 0"

lemma length_le_bytes [simp]: "length (le_bytes k n) = k"
  by (induction k arbitrary: n) simp_all

lemma length_u64_le [simp]: "length (u64_le n) = 8"
  by (simp add: u64_le_def)

lemma le_nat_bytes: "n < 256 ^ k \<Longrightarrow> le_nat (le_bytes k n) = n"
proof (induction k arbitrary: n)
  case (Suc k)
  then have "le_nat (le_bytes k (n div 256)) = n div 256" by (simp add: less_mult_imp_div_less)
  moreover have "unat (of_nat n :: byte) = n mod 256" by (simp add: unat_of_nat)
  ultimately show ?case by (simp add: le_nat_def)
qed (simp add: le_nat_def)

lemma le_nat_u64: "n < 2 ^ 64 \<Longrightarrow> le_nat (u64_le n) = n"
  unfolding u64_le_def by (rule le_nat_bytes) simp

text \<open>\<^verbatim>\<open>usize::to_string\<close> and \<^verbatim>\<open>parse::<usize>\<close>, which admits a plus sign and leading zeros.\<close>

definition digit :: "nat \<Rightarrow> char" where
  "digit d = char_of (48 + d)"

definition digit_val :: "char \<Rightarrow> nat option" where
  "digit_val c = (let n = of_char c in if 48 \<le> n \<and> n \<le> 57 then Some (n - 48) else None)"

fun decimal :: "nat \<Rightarrow> string" where
  "decimal n = (if n < 10 then [digit n] else decimal (n div 10) @ [digit (n mod 10)])"

declare decimal.simps [simp del]

fun parse_digits :: "nat \<Rightarrow> string \<Rightarrow> nat option" where
  "parse_digits n [] = Some n"
| "parse_digits n (c # s) = Option.bind (digit_val c) (\<lambda>d. parse_digits (10 * n + d) s)"

definition parse_usize :: "string \<Rightarrow> nat option" where
  "parse_usize s =
    (let ds = (case s of c # r \<Rightarrow> if c = CHR ''+'' then r else s | [] \<Rightarrow> s) in
     if ds = [] then None
     else Option.bind (parse_digits 0 ds) (\<lambda>n. if n < 2 ^ 64 then Some n else None))"

lemma digit_val_digit [simp]: "d < 10 \<Longrightarrow> digit_val (digit d) = Some d"
  by (simp add: digit_val_def digit_def)

lemma digit_not_plus: "d < 10 \<Longrightarrow> digit d \<noteq> CHR ''+''"
proof
  assume d: "d < 10" "digit d = CHR ''+''"
  then have "(of_char (digit d) :: nat) = of_char CHR ''+''" by simp
  with d(1) show False by (simp add: digit_def)
qed

lemma parse_digits_append:
  "parse_digits n (s @ t) = Option.bind (parse_digits n s) (\<lambda>m. parse_digits m t)"
  by (induction s arbitrary: n) (auto split: Option.bind_split)

lemma parse_digits_decimal: "parse_digits 0 (decimal n) = Some n"
proof (induction n rule: less_induct)
  case (less n)
  then show ?case by (subst decimal.simps) (auto simp: parse_digits_append)
qed

lemma decimal_Cons: "\<exists>d r. decimal n = digit d # r \<and> d < 10"
proof (induction n rule: less_induct)
  case (less n)
  show ?case
  proof (cases "n < 10")
    case True
    then show ?thesis by (subst decimal.simps) auto
  next
    case False
    then obtain d r where "decimal (n div 10) = digit d # r" "d < 10" using less [of "n div 10"] by auto
    then show ?thesis using False by (subst decimal.simps) auto
  qed
qed

lemma parse_usize_decimal: "n < 2 ^ 64 \<Longrightarrow> parse_usize (decimal n) = Some n"
  using decimal_Cons [of n] parse_digits_decimal [of n] digit_not_plus by (auto simp: parse_usize_def)

lemma decimal_inject [simp]: "decimal m = decimal n \<longleftrightarrow> m = n"
proof
  assume "decimal m = decimal n"
  then have "parse_digits 0 (decimal m) = parse_digits 0 (decimal n)" by simp
  then show "m = n" by (simp only: parse_digits_decimal option.inject)
qed simp

section \<open>Arithmetic on 64-bit numbers\<close>

definition usize_sub :: "bool \<Rightarrow> nat \<Rightarrow> nat \<Rightarrow> nat IndyResult" where
  "usize_sub overflow_checks a b =
    (if b \<le> a then Inr (a - b) else if overflow_checks then Inl Panic else Inr (2 ^ 64 + a - b))"

definition u64_add :: "bool \<Rightarrow> nat \<Rightarrow> nat \<Rightarrow> nat IndyResult" where
  "u64_add overflow_checks a b =
    (if a + b < 2 ^ 64 then Inr (a + b) else if overflow_checks then Inl Panic else Inr ((a + b) mod 2 ^ 64))"

lemma usize_sub_Inl: "usize_sub c a b = Inl e \<longleftrightarrow> c \<and> a < b \<and> e = Panic"
  by (auto simp: usize_sub_def)

lemma u64_add_Inl: "u64_add c a b = Inl e \<Longrightarrow> e = Panic"
  by (auto simp: u64_add_def split: if_splits)

lemma usize_sub_le: "b \<le> a \<Longrightarrow> usize_sub c a b = Inr (a - b)"
  by (simp add: usize_sub_def)

end
