(* ===== verification/Wallet_Crypto.thy ===== *)
theory Wallet_Crypto
  imports Rust_Std "HOL-Library.AList"
begin

text \<open>
  Wallet encryption: \<^verbatim>\<open>indy-wallet/src/encryption.rs\<close> and the keys and encrypted values of
  \<^verbatim>\<open>wallet.rs\<close>. The cipher, the MAC, key derivation and base58 are code of other packages and
  therefore parameters, collected in a record; what the wallet relies on is \<open>crypto_ok\<close>. Randomness
  (fresh keys and nonces) is an argument of the functions that draw it. Rust strings are HOL
  strings of UTF-8 bytes.
\<close>

section \<open>The primitives\<close>

definition KEYBYTES :: nat where "KEYBYTES = 32"
definition NONCEBYTES :: nat where "NONCEBYTES = 12"
definition TAGBYTES :: nat where "TAGBYTES = 16"
definition HMAC_TAGBYTES :: nat where "HMAC_TAGBYTES = 32"

text \<open>
  \<open>seal\<close>/\<open>unseal\<close> are \<^verbatim>\<open>chacha20poly1305_ietf::seal\<close>/\<^verbatim>\<open>open\<close> of sodiumoxide on data, nonce
  and key; \<open>authenticate\<close> is HMAC-SHA256 on data and key; \<open>argon2i\<close> is libsodium's password hash
  with the cost limits of the method (\<open>None\<close> if it fails), \<open>salt_bytes\<close> the length of its salt.
\<close>

datatype KeyDerivationMethod = ARGON2I_MOD | ARGON2I_INT | RAW

record crypto =
  seal :: "bytes \<Rightarrow> bytes \<Rightarrow> bytes \<Rightarrow> bytes"
  unseal :: "bytes \<Rightarrow> bytes \<Rightarrow> bytes \<Rightarrow> bytes option"
  authenticate :: "bytes \<Rightarrow> bytes \<Rightarrow> bytes"
  argon2i :: "bytes \<Rightarrow> bytes \<Rightarrow> KeyDerivationMethod \<Rightarrow> bytes option"
  salt_bytes :: nat
  from_base58 :: "string \<Rightarrow> bytes option"

definition crypto_ok :: "crypto \<Rightarrow> bool" where
  "crypto_ok c \<longleftrightarrow>
    (\<forall>d n k. unseal c (seal c d n k) n k = Some d) \<and>
    (\<forall>d n k. length (seal c d n k) = length d + TAGBYTES) \<and>
    (\<forall>d k. length (authenticate c d k) = HMAC_TAGBYTES)"

lemma crypto_okD [simp]:
  assumes "crypto_ok c"
  shows "unseal c (seal c d n k) n k = Some d"
    and "length (seal c d n k) = length d + TAGBYTES"
    and "length (authenticate c d k) = HMAC_TAGBYTES"
  using assms by (auto simp: crypto_ok_def)

text \<open>\<^verbatim>\<open>from_slice\<close> of the macro \<^verbatim>\<open>sodium_type!\<close>: a key, nonce or salt has its length.\<close>

definition from_slice :: "nat \<Rightarrow> bytes \<Rightarrow> bytes IndyResult" where
  "from_slice n bs = (if length bs = n then Inr bs else Inl (Error InvalidStructure))"

definition chacha_encrypt :: "crypto \<Rightarrow> bytes \<Rightarrow> bytes \<Rightarrow> bytes \<Rightarrow> bytes" where
  "chacha_encrypt c data key nonce = seal c data nonce key"

definition chacha_decrypt :: "crypto \<Rightarrow> bytes \<Rightarrow> bytes \<Rightarrow> bytes \<Rightarrow> bytes IndyResult" where
  "chacha_decrypt c data key nonce = ok_or (unseal c data nonce key) (Error InvalidStructure)"

definition pwhash :: "crypto \<Rightarrow> bytes \<Rightarrow> bytes \<Rightarrow> KeyDerivationMethod \<Rightarrow> bytes IndyResult" where
  "pwhash c passwd salt meth =
    (if meth = RAW then Inl (Error InvalidStructure)
     else ok_or (argon2i c passwd salt meth) (Error InvalidState))"

definition derive_key :: "crypto \<Rightarrow> string \<Rightarrow> bytes \<Rightarrow> KeyDerivationMethod \<Rightarrow> bytes IndyResult" where
  "derive_key c passphrase salt meth = pwhash c (as_bytes passphrase) salt meth"

text \<open>\<^verbatim>\<open>gen_nonce_and_encrypt\<close>, with the nonce it draws as an argument.\<close>

definition gen_nonce_and_encrypt :: "crypto \<Rightarrow> bytes \<Rightarrow> bytes \<Rightarrow> bytes \<Rightarrow> bytes \<times> bytes" where
  "gen_nonce_and_encrypt c nonce data key = (seal c data nonce key, nonce)"

section \<open>Key derivation data and wallet metadata\<close>

record MetadataArgon =
  argon_keys :: bytes
  master_key_salt :: bytes

record MetadataRaw =
  raw_keys :: bytes

datatype Metadata = MetadataArgon MetadataArgon | MetadataRaw MetadataRaw

fun get_keys :: "Metadata \<Rightarrow> bytes" where
  "get_keys (MetadataArgon metadata) = argon_keys metadata"
| "get_keys (MetadataRaw metadata) = raw_keys metadata"

datatype KeyDerivationData = Raw string | Argon2iMod string bytes | Argon2iInt string bytes

fun from_passphrase_with_new_salt :: "bytes \<Rightarrow> string \<Rightarrow> KeyDerivationMethod \<Rightarrow> KeyDerivationData" where
  "from_passphrase_with_new_salt salt passphrase ARGON2I_INT = Argon2iInt passphrase salt"
| "from_passphrase_with_new_salt salt passphrase ARGON2I_MOD = Argon2iMod passphrase salt"
| "from_passphrase_with_new_salt salt passphrase RAW = Raw passphrase"

text \<open>\<^verbatim>\<open>to_indy\<close> replaces the kind of an error.\<close>

fun to_indy :: "IndyErrorKind \<Rightarrow> 'a IndyResult \<Rightarrow> 'a IndyResult" where
  "to_indy k (Inl (Error _)) = Inl (Error k)"
| "to_indy k r = r"

definition master_key_salt_from_slice :: "crypto \<Rightarrow> bytes \<Rightarrow> bytes IndyResult" where
  "master_key_salt_from_slice c bs = to_indy WalletAccessFailed (from_slice (salt_bytes c) bs)"

fun from_passphrase_and_metadata ::
  "crypto \<Rightarrow> string \<Rightarrow> Metadata \<Rightarrow> KeyDerivationMethod \<Rightarrow> KeyDerivationData IndyResult" where
  "from_passphrase_and_metadata c passphrase (MetadataRaw _) RAW = Inr (Raw passphrase)"
| "from_passphrase_and_metadata c passphrase (MetadataArgon metadata) ARGON2I_INT =
    bindr (master_key_salt_from_slice c (master_key_salt metadata)) (\<lambda>salt. Inr (Argon2iInt passphrase salt))"
| "from_passphrase_and_metadata c passphrase (MetadataArgon metadata) ARGON2I_MOD =
    bindr (master_key_salt_from_slice c (master_key_salt metadata)) (\<lambda>salt. Inr (Argon2iMod passphrase salt))"
| "from_passphrase_and_metadata c _ _ _ = Inl (Error WalletAccessFailed)"

definition raw_master_key :: "crypto \<Rightarrow> string \<Rightarrow> bytes IndyResult" where
  "raw_master_key c passphrase =
    bindr (ok_or (from_base58 c passphrase) (Error InvalidStructure)) (\<lambda>bytes. from_slice KEYBYTES bytes)"

fun calc_master_key :: "crypto \<Rightarrow> KeyDerivationData \<Rightarrow> bytes IndyResult" where
  "calc_master_key c (Raw passphrase) = raw_master_key c passphrase"
| "calc_master_key c (Argon2iInt passphrase salt) = derive_key c passphrase salt ARGON2I_INT"
| "calc_master_key c (Argon2iMod passphrase salt) = derive_key c passphrase salt ARGON2I_MOD"

section \<open>Searchable and non-searchable encryption\<close>

definition encrypt_as_searchable :: "crypto \<Rightarrow> bytes \<Rightarrow> bytes \<Rightarrow> bytes \<Rightarrow> bytes" where
  "encrypt_as_searchable c data key hmac_key =
    (let tag = authenticate c data hmac_key; nonce = take NONCEBYTES tag
     in nonce @ chacha_encrypt c data key nonce)"

definition encrypt_as_not_searchable :: "crypto \<Rightarrow> bytes \<Rightarrow> bytes \<Rightarrow> bytes \<Rightarrow> bytes" where
  "encrypt_as_not_searchable c rnd_nonce data key =
    (let (ct, nonce) = gen_nonce_and_encrypt c rnd_nonce data key in nonce @ ct)"

text \<open>Slicing \<^verbatim>\<open>joined_data[..NONCEBYTES]\<close> panics on shorter data.\<close>

definition decrypt_merged :: "crypto \<Rightarrow> bytes \<Rightarrow> bytes \<Rightarrow> bytes IndyResult" where
  "decrypt_merged c joined_data key =
    (if length joined_data < NONCEBYTES then Inl Panic
     else chacha_decrypt c (drop NONCEBYTES joined_data) key (take NONCEBYTES joined_data))"

lemma decrypt_searchable [simp]:
  "crypto_ok c \<Longrightarrow> decrypt_merged c (encrypt_as_searchable c d k hk) k = Inr d"
  by (simp add: decrypt_merged_def encrypt_as_searchable_def chacha_encrypt_def chacha_decrypt_def
      Let_def HMAC_TAGBYTES_def NONCEBYTES_def)

lemma decrypt_not_searchable [simp]:
  "crypto_ok c \<Longrightarrow> length n = NONCEBYTES \<Longrightarrow> decrypt_merged c (encrypt_as_not_searchable c n d k) k = Inr d"
  by (simp add: decrypt_merged_def encrypt_as_not_searchable_def gen_nonce_and_encrypt_def chacha_decrypt_def)

lemma searchable_inj:
  assumes "crypto_ok c"
  shows "encrypt_as_searchable c d k hk = encrypt_as_searchable c d' k hk \<longleftrightarrow> d = d'"
proof
  assume "encrypt_as_searchable c d k hk = encrypt_as_searchable c d' k hk"
  then have "decrypt_merged c (encrypt_as_searchable c d k hk) k
      = decrypt_merged c (encrypt_as_searchable c d' k hk) k" by (rule arg_cong)
  then show "d = d'" by (simp only: decrypt_searchable [OF assms] sum.inject)
qed simp

section \<open>Keys and encrypted values\<close>

record Keys =
  type_key :: bytes
  name_key :: bytes
  value_key :: bytes
  item_hmac_key :: bytes
  tag_name_key :: bytes
  tag_value_key :: bytes
  tags_hmac_key :: bytes

text \<open>\<open>to_vec\<close>/\<open>from_vec\<close> below are MessagePack (\<^verbatim>\<open>rmp_serde\<close>) on keys, parameters too.\<close>

definition serialize_encrypted ::
  "crypto \<Rightarrow> (Keys \<Rightarrow> bytes option) \<Rightarrow> bytes \<Rightarrow> Keys \<Rightarrow> bytes \<Rightarrow> bytes IndyResult" where
  "serialize_encrypted c rmp_to_vec rnd_nonce keys master_key =
    bindr (ok_or (rmp_to_vec keys) (Error InvalidState)) (\<lambda>serialized.
      Inr (encrypt_as_not_searchable c rnd_nonce serialized master_key))"

definition deserialize_encrypted ::
  "crypto \<Rightarrow> (bytes \<Rightarrow> Keys option) \<Rightarrow> bytes \<Rightarrow> bytes \<Rightarrow> Keys IndyResult" where
  "deserialize_encrypted c rmp_from_slice data master_key =
    bindr (decrypt_merged c data master_key) (\<lambda>decrypted.
      ok_or (rmp_from_slice decrypted) (Error InvalidState))"

record EncryptedValue =
  ev_data :: bytes
  ev_key :: bytes

definition ENCRYPTED_KEY_LEN :: nat where
  "ENCRYPTED_KEY_LEN = TAGBYTES + NONCEBYTES + KEYBYTES"

text \<open>The randomness of one \<^verbatim>\<open>EncryptedValue::encrypt\<close>: the value key and both nonces.\<close>

record value_rnd =
  rnd_key :: bytes
  rnd_data_nonce :: bytes
  rnd_key_nonce :: bytes

definition rnd_ok :: "value_rnd \<Rightarrow> bool" where
  "rnd_ok r \<longleftrightarrow> length (rnd_key r) = KEYBYTES \<and> length (rnd_data_nonce r) = NONCEBYTES
    \<and> length (rnd_key_nonce r) = NONCEBYTES"

definition ev_encrypt :: "crypto \<Rightarrow> value_rnd \<Rightarrow> string \<Rightarrow> bytes \<Rightarrow> EncryptedValue" where
  "ev_encrypt c r data key =
    \<lparr> ev_data = encrypt_as_not_searchable c (rnd_data_nonce r) (as_bytes data) (rnd_key r),
      ev_key = encrypt_as_not_searchable c (rnd_key_nonce r) (rnd_key r) key \<rparr>"

definition ev_decrypt :: "crypto \<Rightarrow> EncryptedValue \<Rightarrow> bytes \<Rightarrow> string IndyResult" where
  "ev_decrypt c ev key =
    bindr (decrypt_merged c (ev_key ev) key) (\<lambda>value_key_bytes.
    bindr (from_slice KEYBYTES value_key_bytes) (\<lambda>vkey.
    bindr (decrypt_merged c (ev_data ev) vkey) (\<lambda>bs. from_utf8 bs (Error InvalidState))))"

definition ev_to_bytes :: "EncryptedValue \<Rightarrow> bytes" where
  "ev_to_bytes ev = ev_key ev @ ev_data ev"

definition ev_from_bytes :: "bytes \<Rightarrow> EncryptedValue IndyResult" where
  "ev_from_bytes joined_data =
    (if length joined_data < ENCRYPTED_KEY_LEN then Inl (Error InvalidStructure)
     else Inr \<lparr> ev_data = drop ENCRYPTED_KEY_LEN joined_data, ev_key = take ENCRYPTED_KEY_LEN joined_data \<rparr>)"

lemma ev_decrypt_encrypt [simp]:
  "crypto_ok c \<Longrightarrow> rnd_ok r \<Longrightarrow> rust_string v \<Longrightarrow> ev_decrypt c (ev_encrypt c r v k) k = Inr v"
  by (simp add: ev_decrypt_def ev_encrypt_def rnd_ok_def from_slice_def)

lemma ev_from_to_bytes:
  "crypto_ok c \<Longrightarrow> rnd_ok r \<Longrightarrow> ev_from_bytes (ev_to_bytes (ev_encrypt c r v k)) = Inr (ev_encrypt c r v k)"
  by (simp add: ev_from_bytes_def ev_to_bytes_def ev_encrypt_def rnd_ok_def ENCRYPTED_KEY_LEN_def
      encrypt_as_not_searchable_def gen_nonce_and_encrypt_def)

section \<open>Tags\<close>

datatype Tag = Encrypted bytes bytes | PlainText bytes string

datatype TagName = OfEncrypted bytes | OfPlain bytes

text \<open>A Rust \<^verbatim>\<open>HashMap<String, String>\<close> is the association list of its entries in iteration order, with distinct keys.\<close>

type_synonym Tags = "(string \<times> string) list"

definition starts_tilde :: "string \<Rightarrow> bool" where
  "starts_tilde s \<longleftrightarrow> (case s of c # _ \<Rightarrow> c = CHR ''~'' | [] \<Rightarrow> False)"

definition encrypt_tag_names :: "crypto \<Rightarrow> string list \<Rightarrow> bytes \<Rightarrow> bytes \<Rightarrow> TagName list" where
  "encrypt_tag_names c tag_names nkey hkey =
    map (\<lambda>tag_name.
      if starts_tilde tag_name
      then OfPlain (encrypt_as_searchable c (drop 1 (as_bytes tag_name)) nkey hkey)
      else OfEncrypted (encrypt_as_searchable c (as_bytes tag_name) nkey hkey)) tag_names"

definition encrypt_tag :: "crypto \<Rightarrow> bytes \<Rightarrow> bytes \<Rightarrow> bytes \<Rightarrow> string \<Rightarrow> string \<Rightarrow> Tag" where
  "encrypt_tag c nkey vkey hkey tag_name tag_value =
    (if starts_tilde tag_name
     then PlainText (encrypt_as_searchable c (drop 1 (as_bytes tag_name)) nkey hkey) tag_value
     else Encrypted (encrypt_as_searchable c (as_bytes tag_name) nkey hkey)
                    (encrypt_as_searchable c (as_bytes tag_value) vkey hkey))"

definition encrypt_tags :: "crypto \<Rightarrow> Tags \<Rightarrow> bytes \<Rightarrow> bytes \<Rightarrow> bytes \<Rightarrow> Tag list" where
  "encrypt_tags c tags nkey vkey hkey =
    map (\<lambda>(tag_name, tag_value). encrypt_tag c nkey vkey hkey tag_name tag_value) tags"

fun decrypt_tag :: "crypto \<Rightarrow> bytes \<Rightarrow> bytes \<Rightarrow> Tag \<Rightarrow> (string \<times> string) IndyResult" where
  "decrypt_tag c nkey vkey (PlainText ename value) =
    bindr (to_indy WalletEncryptionError (decrypt_merged c ename nkey)) (\<lambda>bs.
    bindr (from_utf8 bs (Error WalletEncryptionError)) (\<lambda>name. Inr (CHR ''~'' # name, value)))"
| "decrypt_tag c nkey vkey (Encrypted ename evalue) =
    bindr (decrypt_merged c ename nkey) (\<lambda>bs.
    bindr (from_utf8 bs (Error WalletEncryptionError)) (\<lambda>name.
    bindr (decrypt_merged c evalue vkey) (\<lambda>vs.
    bindr (from_utf8 vs (Error WalletEncryptionError)) (\<lambda>value. Inr (name, value)))))"

text \<open>The loop inserts into a \<^verbatim>\<open>HashMap\<close>: a later tag of the same name wins.\<close>

fun decrypt_tags_loop :: "crypto \<Rightarrow> bytes \<Rightarrow> bytes \<Rightarrow> Tag list \<Rightarrow> Tags \<Rightarrow> Tags IndyResult" where
  "decrypt_tags_loop c nkey vkey [] tags = Inr tags"
| "decrypt_tags_loop c nkey vkey (etag # etags) tags =
    bindr (decrypt_tag c nkey vkey etag) (\<lambda>(name, value).
      decrypt_tags_loop c nkey vkey etags (AList.update name value tags))"

definition decrypt_tags :: "crypto \<Rightarrow> Tag list option \<Rightarrow> bytes \<Rightarrow> bytes \<Rightarrow> Tags option IndyResult" where
  "decrypt_tags c etags nkey vkey =
    (case etags of
       None \<Rightarrow> Inr None
     | Some etags \<Rightarrow> bindr (decrypt_tags_loop c nkey vkey etags []) (\<lambda>tags. Inr (Some tags)))"


text \<open>The tags of a Rust map: distinct names, valid strings.\<close>

definition tags_ok :: "Tags \<Rightarrow> bool" where
  "tags_ok tags \<longleftrightarrow> distinct (map fst tags) \<and> (\<forall>(n, v)\<in>set tags. rust_string n \<and> rust_string v)"

lemma starts_tildeE:
  assumes "starts_tilde s" obtains t where "s = CHR ''~'' # t"
  using assms by (cases s) (auto simp: starts_tilde_def)

lemma decrypt_encrypt_tag:
  assumes "crypto_ok c" and "rust_string n" and "rust_string v"
  shows "decrypt_tag c nk vk (encrypt_tag c nk vk hk n v) = Inr (n, v)"
proof (cases "starts_tilde n")
  case True
  then obtain t where n: "n = CHR ''~'' # t" by (rule starts_tildeE)
  then have "rust_string t" using assms(2) by (simp add: rust_string_tilde)
  then show ?thesis using assms True by (simp add: encrypt_tag_def n)
next
  case False
  then show ?thesis using assms by (simp add: encrypt_tag_def)
qed

lemma AList_update_new: "k \<notin> fst ` set al \<Longrightarrow> AList.update k v al = al @ [(k, v)]"
  by (induction al) auto

lemma decrypt_tags_loop_encrypt:
  assumes "crypto_ok c"
  shows "\<forall>(n, v)\<in>set tags. rust_string n \<and> rust_string v \<Longrightarrow> distinct (map fst (acc @ tags)) \<Longrightarrow>
    decrypt_tags_loop c nk vk (encrypt_tags c tags nk vk hk) acc = Inr (acc @ tags)"
proof (induction tags arbitrary: acc)
  case Nil
  then show ?case by (simp add: encrypt_tags_def)
next
  case (Cons t tags)
  obtain n v where t: "t = (n, v)" by force
  have u: "AList.update n v acc = acc @ [(n, v)]"
    using Cons.prems(2) by (intro AList_update_new) (auto simp: t)
  have d: "decrypt_tag c nk vk (encrypt_tag c nk vk hk n v) = Inr (n, v)"
    using Cons.prems(1) by (intro decrypt_encrypt_tag [OF assms]) (auto simp: t)
  show ?case
    using Cons.IH [of "acc @ [(n, v)]"] Cons.prems d u
    by (simp add: encrypt_tags_def t)
qed

lemma decrypt_encrypt_tags:
  "crypto_ok c \<Longrightarrow> tags_ok tags \<Longrightarrow>
    decrypt_tags c (Some (encrypt_tags c tags nk vk hk)) nk vk = Inr (Some tags)"
  using decrypt_tags_loop_encrypt [of c tags "[]" nk vk hk] by (simp add: decrypt_tags_def tags_ok_def)

section \<open>Records\<close>

record StorageRecord =
  sr_id :: bytes
  sr_value :: "EncryptedValue option"
  sr_type :: "bytes option"
  sr_tags :: "Tag list option"

record WalletRecord =
  wr_type :: "string option"
  wr_id :: string
  wr_value :: "string option"
  wr_tags :: "Tags option"

definition opt_decrypt :: "('a \<Rightarrow> 'b IndyResult) \<Rightarrow> 'a option \<Rightarrow> 'b option IndyResult" where
  "opt_decrypt f x = (case x of None \<Rightarrow> Inr None | Some a \<Rightarrow> bindr (f a) (\<lambda>b. Inr (Some b)))"

lemma opt_decrypt_simps [simp]:
  "opt_decrypt f None = Inr None"
  "opt_decrypt f (Some a) = bindr (f a) (\<lambda>b. Inr (Some b))"
  by (simp_all add: opt_decrypt_def)

definition decrypt_storage_record :: "crypto \<Rightarrow> Keys \<Rightarrow> StorageRecord \<Rightarrow> WalletRecord IndyResult" where
  "decrypt_storage_record c keys r =
    bindr (decrypt_merged c (sr_id r) (name_key keys)) (\<lambda>bs.
    bindr (from_utf8 bs (Error WalletEncryptionError)) (\<lambda>decrypted_name.
    bindr (opt_decrypt (\<lambda>v. ev_decrypt c v (value_key keys)) (sr_value r)) (\<lambda>decrypted_value.
    bindr (opt_decrypt (\<lambda>t. bindr (decrypt_merged c t (type_key keys)) (\<lambda>ts.
             from_utf8 ts (Error WalletEncryptionError))) (sr_type r)) (\<lambda>decrypted_type.
    bindr (decrypt_tags c (sr_tags r) (tag_name_key keys) (tag_value_key keys)) (\<lambda>decrypted_tags.
      Inr \<lparr> wr_type = decrypted_type, wr_id = decrypted_name, wr_value = decrypted_value,
             wr_tags = decrypted_tags \<rparr>)))))"

section \<open>An instance\<close>

text \<open>Primitives and keys for witnesses: a cipher that appends an empty tag.\<close>

definition toy_crypto :: crypto where
  "toy_crypto = \<lparr> seal = (\<lambda>d n k. d @ replicate TAGBYTES 0),
     unseal = (\<lambda>d n k. if length d < TAGBYTES then None else Some (take (length d - TAGBYTES) d)),
     authenticate = (\<lambda>d k. replicate HMAC_TAGBYTES 0),
     argon2i = (\<lambda>p s m. Some (replicate KEYBYTES 0)), salt_bytes = 16,
     from_base58 = (\<lambda>s. Some (as_bytes s)) \<rparr>"

definition toy_keys :: Keys where
  "toy_keys = \<lparr> type_key = [1], name_key = [2], value_key = [3], item_hmac_key = [4], tag_name_key = [5],
     tag_value_key = [6], tags_hmac_key = [7] \<rparr>"

lemma toy_crypto_ok [simp]: "crypto_ok toy_crypto"
  by (simp add: crypto_ok_def toy_crypto_def)

end
