(* ===== verification/Wallet_Query.thy ===== *)
theory Wallet_Query
  imports Wql Wallet_Crypto
begin

text \<open>
  From queries to SQL: the encrypted operators of \<^verbatim>\<open>indy-wallet/src/language.rs\<close>, their
  construction in \<^verbatim>\<open>query_encryption.rs\<close> and the translation to SQL text and arguments in
  \<^verbatim>\<open>storage/default/query.rs\<close>. The SQL text is modelled character by character. The meaning of
  that text is given by clause trees: every translated operator is the rendering of one
  (\<open>operator_to_sql_render\<close>), and an encrypted query means on encrypted tags what the query means on
  the plain ones.
\<close>

section \<open>Operators (language.rs)\<close>

datatype QTagName = EncryptedTagName bytes | PlainTagName bytes

datatype TargetValue = Unencrypted string | EncryptedTarget bytes

datatype Operator =
    OpAnd "Operator list" | OpOr "Operator list" | OpNot Operator
  | OpEq QTagName TargetValue | OpNeq QTagName TargetValue
  | OpGt QTagName TargetValue | OpGte QTagName TargetValue
  | OpLt QTagName TargetValue | OpLte QTagName TargetValue
  | OpLike QTagName TargetValue | OpIn QTagName "TargetValue list"

definition tag_name_from :: "string \<Rightarrow> QTagName IndyResult" where
  "tag_name_from s =
    (if s = [] \<or> starts_tilde s \<and> length s = 1 then Inl (Error WalletQueryError)
     else if starts_tilde s then Inr (PlainTagName (drop 1 (as_bytes s)))
     else Inr (EncryptedTagName (as_bytes s)))"

text \<open>Printing, with \<^verbatim>\<open>base64::encode\<close> as a parameter.\<close>

fun tag_name_to_string :: "(bytes \<Rightarrow> string) \<Rightarrow> QTagName \<Rightarrow> string" where
  "tag_name_to_string b64 (EncryptedTagName v) = ''\"'' @ b64 v @ ''\"''"
| "tag_name_to_string b64 (PlainTagName v) = ''\"~'' @ b64 v @ ''\"''"

fun target_to_string :: "(bytes \<Rightarrow> string) \<Rightarrow> TargetValue \<Rightarrow> string" where
  "target_to_string b64 (Unencrypted s) = ''\"'' @ s @ ''\"''"
| "target_to_string b64 (EncryptedTarget v) = ''\"'' @ b64 v @ ''\"''"

fun join :: "string \<Rightarrow> string list \<Rightarrow> string" where
  "join sep [] = []"
| "join sep [s] = s"
| "join sep (s # ss) = s @ sep @ join sep ss"

definition op_text :: "(bytes \<Rightarrow> string) \<Rightarrow> string \<Rightarrow> QTagName \<Rightarrow> TargetValue \<Rightarrow> string" where
  "op_text b64 oper n v = ''{'' @ tag_name_to_string b64 n @ '':{\"'' @ oper @ ''\":'' @ target_to_string b64 v @ ''}}''"

fun operator_to_string :: "(bytes \<Rightarrow> string) \<Rightarrow> Operator \<Rightarrow> string" where
  "operator_to_string b64 (OpEq n v) =
    ''{'' @ tag_name_to_string b64 n @ '':'' @ target_to_string b64 v @ ''}''"
| "operator_to_string b64 (OpNeq n v) = op_text b64 ''$neq'' n v"
| "operator_to_string b64 (OpGt n v) = op_text b64 ''$gt'' n v"
| "operator_to_string b64 (OpGte n v) = op_text b64 ''$gte'' n v"
| "operator_to_string b64 (OpLt n v) = op_text b64 ''$lt'' n v"
| "operator_to_string b64 (OpLte n v) = op_text b64 ''$lte'' n v"
| "operator_to_string b64 (OpLike n v) = op_text b64 ''$like'' n v"
| "operator_to_string b64 (OpIn n vs) =
    ''{'' @ tag_name_to_string b64 n @ '':{\"$in\":['' @ join '','' (map (target_to_string b64) vs) @ '']}}''"
| "operator_to_string b64 (OpAnd ops) =
    (if ops \<noteq> [] then ''{\"$and\":['' @ join '','' (map (operator_to_string b64) ops) @ '']}'' else ''{}'')"
| "operator_to_string b64 (OpOr ops) =
    (if ops \<noteq> [] then ''{\"$or\":['' @ join '','' (map (operator_to_string b64) ops) @ '']}'' else ''{}'')"
| "operator_to_string b64 (OpNot op) = ''{\"$not\":'' @ operator_to_string b64 op @ ''}''"

section \<open>Query encryption (query_encryption.rs)\<close>

definition encrypt_name_value :: "crypto \<Rightarrow> Keys \<Rightarrow> string \<Rightarrow> string \<Rightarrow> (QTagName \<times> TargetValue) IndyResult" where
  "encrypt_name_value c keys name value =
    bindr (tag_name_from name) (\<lambda>name.
      (case name of
         EncryptedTagName name \<Rightarrow>
           Inr (EncryptedTagName (encrypt_as_searchable c name (tag_name_key keys) (tags_hmac_key keys)),
                EncryptedTarget (encrypt_as_searchable c (as_bytes value) (tag_value_key keys) (tags_hmac_key keys)))
       | PlainTagName name \<Rightarrow>
           Inr (PlainTagName (encrypt_as_searchable c name (tag_name_key keys) (tags_hmac_key keys)),
                Unencrypted value)))"

fun encrypt_in_name :: "crypto \<Rightarrow> Keys \<Rightarrow> QTagName \<Rightarrow> QTagName" where
  "encrypt_in_name c keys (EncryptedTagName name) =
    EncryptedTagName (encrypt_as_searchable c name (tag_name_key keys) (tags_hmac_key keys))"
| "encrypt_in_name c keys (PlainTagName name) =
    PlainTagName (encrypt_as_searchable c name (tag_name_key keys) (tags_hmac_key keys))"

fun transform :: "crypto \<Rightarrow> Keys \<Rightarrow> Query \<Rightarrow> Operator IndyResult" where
  "transform c keys (QEq n v) = bindr (encrypt_name_value c keys n v) (\<lambda>(n, v). Inr (OpEq n v))"
| "transform c keys (QNeq n v) = bindr (encrypt_name_value c keys n v) (\<lambda>(n, v). Inr (OpNeq n v))"
| "transform c keys (QGt n v) = bindr (encrypt_name_value c keys n v) (\<lambda>(n, v). Inr (OpGt n v))"
| "transform c keys (QGte n v) = bindr (encrypt_name_value c keys n v) (\<lambda>(n, v). Inr (OpGte n v))"
| "transform c keys (QLt n v) = bindr (encrypt_name_value c keys n v) (\<lambda>(n, v). Inr (OpLt n v))"
| "transform c keys (QLte n v) = bindr (encrypt_name_value c keys n v) (\<lambda>(n, v). Inr (OpLte n v))"
| "transform c keys (QLike n v) = bindr (encrypt_name_value c keys n v) (\<lambda>(n, v). Inr (OpLike n v))"
| "transform c keys (QIn n vs) =
    bindr (tag_name_from n) (\<lambda>ename.
    bindr (traverse (\<lambda>v. bindr (encrypt_name_value c keys n v) (\<lambda>nv. Inr (snd nv))) vs) (\<lambda>encrypted_values.
      Inr (OpIn (encrypt_in_name c keys ename) encrypted_values)))"
| "transform c keys (QAnd qs) = bindr (traverse (transform c keys) qs) (\<lambda>ops. Inr (OpAnd ops))"
| "transform c keys (QOr qs) = bindr (traverse (transform c keys) qs) (\<lambda>ops. Inr (OpOr ops))"
| "transform c keys (QNot q) = bindr (transform c keys q) (\<lambda>op. Inr (OpNot op))"

definition encrypt_query :: "crypto \<Rightarrow> Keys \<Rightarrow> Query \<Rightarrow> Operator IndyResult" where
  "encrypt_query c keys q = transform c keys q"

section \<open>SQL text (storage/default/query.rs)\<close>

text \<open>A bound argument: a byte vector or a string. \<open>arguments\<close> is the vector the code pushes to.\<close>

datatype ToSql = Blob bytes | Text string

type_synonym sql_result = "(string \<times> ToSql list) IndyResult"

definition eq_to_sql :: "QTagName \<Rightarrow> TargetValue \<Rightarrow> ToSql list \<Rightarrow> sql_result" where
  "eq_to_sql name value args =
    (case (name, value) of
       (PlainTagName n, Unencrypted v) \<Rightarrow>
         Inr (''(i.id in (SELECT item_id FROM tags_plaintext WHERE name = ? AND value = ?))'', args @ [Blob n, Text v])
     | (EncryptedTagName n, EncryptedTarget v) \<Rightarrow>
         Inr (''(i.id in (SELECT item_id FROM tags_encrypted WHERE name = ? AND value = ?))'', args @ [Blob n, Blob v])
     | _ \<Rightarrow> Inl (Error WalletQueryError))"

definition neq_to_sql :: "QTagName \<Rightarrow> TargetValue \<Rightarrow> ToSql list \<Rightarrow> sql_result" where
  "neq_to_sql name value args =
    (case (name, value) of
       (PlainTagName n, Unencrypted v) \<Rightarrow>
         Inr (''(i.id in (SELECT item_id FROM tags_plaintext WHERE name = ? AND value != ?))'', args @ [Blob n, Text v])
     | (EncryptedTagName n, EncryptedTarget v) \<Rightarrow>
         Inr (''(i.id in (SELECT item_id FROM tags_encrypted WHERE name = ? AND value != ?))'', args @ [Blob n, Blob v])
     | _ \<Rightarrow> Inl (Error WalletQueryError))"

definition gt_to_sql :: "QTagName \<Rightarrow> TargetValue \<Rightarrow> ToSql list \<Rightarrow> sql_result" where
  "gt_to_sql name value args =
    (case (name, value) of
       (PlainTagName n, Unencrypted v) \<Rightarrow>
         Inr (''(i.id in (SELECT item_id FROM tags_plaintext WHERE name = ? AND value > ?))'', args @ [Blob n, Text v])
     | _ \<Rightarrow> Inl (Error WalletQueryError))"

definition gte_to_sql :: "QTagName \<Rightarrow> TargetValue \<Rightarrow> ToSql list \<Rightarrow> sql_result" where
  "gte_to_sql name value args =
    (case (name, value) of
       (PlainTagName n, Unencrypted v) \<Rightarrow>
         Inr (''(i.id in (SELECT item_id FROM tags_plaintext WHERE name = ? AND value >= ?))'', args @ [Blob n, Text v])
     | _ \<Rightarrow> Inl (Error WalletQueryError))"

definition lt_to_sql :: "QTagName \<Rightarrow> TargetValue \<Rightarrow> ToSql list \<Rightarrow> sql_result" where
  "lt_to_sql name value args =
    (case (name, value) of
       (PlainTagName n, Unencrypted v) \<Rightarrow>
         Inr (''(i.id in (SELECT item_id FROM tags_plaintext WHERE name = ? AND value < ?))'', args @ [Blob n, Text v])
     | _ \<Rightarrow> Inl (Error WalletQueryError))"

definition lte_to_sql :: "QTagName \<Rightarrow> TargetValue \<Rightarrow> ToSql list \<Rightarrow> sql_result" where
  "lte_to_sql name value args =
    (case (name, value) of
       (PlainTagName n, Unencrypted v) \<Rightarrow>
         Inr (''(i.id in (SELECT item_id FROM tags_plaintext WHERE name = ? AND value <= ?))'', args @ [Blob n, Text v])
     | _ \<Rightarrow> Inl (Error WalletQueryError))"

definition like_to_sql :: "QTagName \<Rightarrow> TargetValue \<Rightarrow> ToSql list \<Rightarrow> sql_result" where
  "like_to_sql name value args =
    (case (name, value) of
       (PlainTagName n, Unencrypted v) \<Rightarrow>
         Inr (''(i.id in (SELECT item_id FROM tags_plaintext WHERE name = ? AND value LIKE ?))'', args @ [Blob n, Text v])
     | _ \<Rightarrow> Inl (Error WalletQueryError))"

text \<open>
  The two loops of \<^verbatim>\<open>in_to_sql\<close>. A comma follows the element at index \<open>i\<close> if \<open>comma i\<close> holds.
  \<^verbatim>\<open>values.len() - 2\<close> is a \<^verbatim>\<open>usize\<close> subtraction: below two it panics in a build with overflow
  checks and wraps around in one without.
\<close>

fun in_loop :: "(TargetValue \<Rightarrow> ToSql option) \<Rightarrow> (nat \<Rightarrow> bool) \<Rightarrow> nat \<Rightarrow> TargetValue list \<Rightarrow> ToSql list \<Rightarrow> sql_result" where
  "in_loop target comma i [] args = Inr ([], args)"
| "in_loop target comma i (v # vs) args =
    (case target v of
       None \<Rightarrow> Inl (Error WalletQueryError)
     | Some a \<Rightarrow> bindr (in_loop target comma (Suc i) vs (args @ [a])) (\<lambda>(s, args').
         Inr (''?'' @ (if comma i then '','' else []) @ s, args')))"

fun plain_target :: "TargetValue \<Rightarrow> ToSql option" where
  "plain_target (Unencrypted v) = Some (Text v)"
| "plain_target (EncryptedTarget _) = None"

fun encrypted_target :: "TargetValue \<Rightarrow> ToSql option" where
  "encrypted_target (EncryptedTarget v) = Some (Blob v)"
| "encrypted_target (Unencrypted _) = None"

definition in_to_sql :: "bool \<Rightarrow> QTagName \<Rightarrow> TargetValue list \<Rightarrow> ToSql list \<Rightarrow> sql_result" where
  "in_to_sql overflow_checks name values args =
    (case name of
       PlainTagName n \<Rightarrow>
         bindr (in_loop plain_target (\<lambda>i. i < length values - 1) 0 values (args @ [Blob n])) (\<lambda>(s, args').
           Inr (''(i.id in (SELECT item_id FROM tags_plaintext WHERE name = ? AND value IN ('' @ s @ '')))'', args'))
     | EncryptedTagName n \<Rightarrow>
         bindr (usize_sub overflow_checks (length values) 2) (\<lambda>index_before_last.
         bindr (in_loop encrypted_target (\<lambda>i. i \<le> index_before_last) 0 values (args @ [Blob n])) (\<lambda>(s, args').
           Inr (''(i.id in (SELECT item_id FROM tags_encrypted WHERE name = ? AND value IN ('' @ s @ '')))'', args'))))"

fun operator_to_sql :: "bool \<Rightarrow> Operator \<Rightarrow> ToSql list \<Rightarrow> sql_result"
  and join_operators :: "bool \<Rightarrow> string \<Rightarrow> Operator list \<Rightarrow> ToSql list \<Rightarrow> sql_result" where
  "operator_to_sql chk (OpEq n v) args = eq_to_sql n v args"
| "operator_to_sql chk (OpNeq n v) args = neq_to_sql n v args"
| "operator_to_sql chk (OpGt n v) args = gt_to_sql n v args"
| "operator_to_sql chk (OpGte n v) args = gte_to_sql n v args"
| "operator_to_sql chk (OpLt n v) args = lt_to_sql n v args"
| "operator_to_sql chk (OpLte n v) args = lte_to_sql n v args"
| "operator_to_sql chk (OpLike n v) args = like_to_sql n v args"
| "operator_to_sql chk (OpIn n vs) args = in_to_sql chk n vs args"
| "operator_to_sql chk (OpAnd ops) args =
    (if ops = [] then Inr ([], args)
     else bindr (join_operators chk '' AND '' ops args) (\<lambda>(s, args'). Inr (''('' @ s @ '')'', args')))"
| "operator_to_sql chk (OpOr ops) args =
    (if ops = [] then Inr ([], args)
     else bindr (join_operators chk '' OR '' ops args) (\<lambda>(s, args'). Inr (''('' @ s @ '')'', args')))"
| "operator_to_sql chk (OpNot op) args =
    bindr (operator_to_sql chk op args) (\<lambda>(s, args'). Inr (''NOT ('' @ s @ '')'', args'))"
| "join_operators chk join_str [] args = Inr ([], args)"
| "join_operators chk join_str (op # ops) args =
    bindr (operator_to_sql chk op args) (\<lambda>(s, args').
    bindr (join_operators chk join_str ops args') (\<lambda>(rest, args'').
      Inr (s @ (if ops \<noteq> [] then join_str else []) @ rest, args'')))"

definition BASE :: string where
  "BASE = ''SELECT i.id, i.name, i.value, i.key, i.type FROM items as i WHERE i.type = ?''"

definition COUNT_BASE :: string where
  "COUNT_BASE = ''SELECT count(*) FROM items as i WHERE i.type = ?''"

definition wql_to_sql :: "bool \<Rightarrow> bytes \<Rightarrow> Operator \<Rightarrow> sql_result" where
  "wql_to_sql chk cls op =
    bindr (operator_to_sql chk op [Blob cls]) (\<lambda>(clause_string, arguments).
      if clause_string \<noteq> [] then Inr (BASE @ '' AND '' @ clause_string, arguments)
      else Inr (BASE, arguments))"

definition wql_to_sql_count :: "bool \<Rightarrow> bytes \<Rightarrow> Operator \<Rightarrow> sql_result" where
  "wql_to_sql_count chk cls op =
    bindr (operator_to_sql chk op [Blob cls]) (\<lambda>(clause_string, arguments).
      Inr (COUNT_BASE @ (if clause_string \<noteq> [] then '' AND '' @ clause_string else []), arguments))"

section \<open>Clause trees\<close>

text \<open>
  The part of SQL the translation uses, as trees that carry their arguments: \<open>clause_text\<close> is the
  concrete syntax with one question mark per argument, \<open>clause_args\<close> the arguments in the order of
  their question marks, \<open>clause_sat\<close> the meaning for an item with given encrypted and plain tags.
\<close>

datatype sql_cmp = SqlEq | SqlNeq | SqlGt | SqlGte | SqlLt | SqlLte | SqlLike

datatype clause =
    PlainCmp sql_cmp bytes string | EncCmp sql_cmp bytes bytes
  | PlainIn bytes "string list" | EncIn bytes "bytes list"
  | ClAnd "clause list" | ClOr "clause list" | ClNot clause

fun cmp_text :: "sql_cmp \<Rightarrow> string" where
  "cmp_text SqlEq = ''=''" | "cmp_text SqlNeq = ''!=''"
| "cmp_text SqlGt = ''>''" | "cmp_text SqlGte = ''>=''"
| "cmp_text SqlLt = ''<''" | "cmp_text SqlLte = ''<=''"
| "cmp_text SqlLike = ''LIKE''"

definition in_tags :: "string \<Rightarrow> string \<Rightarrow> string" where
  "in_tags table test = ''(i.id in (SELECT item_id FROM '' @ table @ '' WHERE name = ? AND value '' @ test @ ''))''"

fun clause_text :: "clause \<Rightarrow> string" where
  "clause_text (PlainCmp f n v) = in_tags ''tags_plaintext'' (cmp_text f @ '' ?'')"
| "clause_text (EncCmp f n v) = in_tags ''tags_encrypted'' (cmp_text f @ '' ?'')"
| "clause_text (PlainIn n vs) = in_tags ''tags_plaintext'' (''IN ('' @ join '','' (map (\<lambda>_. ''?'') vs) @ '')'')"
| "clause_text (EncIn n vs) = in_tags ''tags_encrypted'' (''IN ('' @ join '','' (map (\<lambda>_. ''?'') vs) @ '')'')"
| "clause_text (ClAnd cs) = ''('' @ join '' AND '' (map clause_text cs) @ '')''"
| "clause_text (ClOr cs) = ''('' @ join '' OR '' (map clause_text cs) @ '')''"
| "clause_text (ClNot c) = ''NOT ('' @ clause_text c @ '')''"

fun clause_args :: "clause \<Rightarrow> ToSql list" where
  "clause_args (PlainCmp f n v) = [Blob n, Text v]"
| "clause_args (EncCmp f n v) = [Blob n, Blob v]"
| "clause_args (PlainIn n vs) = Blob n # map Text vs"
| "clause_args (EncIn n vs) = Blob n # map Blob vs"
| "clause_args (ClAnd cs) = concat (map clause_args cs)"
| "clause_args (ClOr cs) = concat (map clause_args cs)"
| "clause_args (ClNot c) = clause_args c"

text \<open>A group is not empty, and one clause in parentheses counts as a conjunction.\<close>

fun wf_clause :: "clause \<Rightarrow> bool" where
  "wf_clause (ClAnd cs) \<longleftrightarrow> cs \<noteq> [] \<and> (\<forall>c\<in>set cs. wf_clause c)"
| "wf_clause (ClOr cs) \<longleftrightarrow> 2 \<le> length cs \<and> (\<forall>c\<in>set cs. wf_clause c)"
| "wf_clause (ClNot c) \<longleftrightarrow> wf_clause c"
| "wf_clause (EncCmp f n v) \<longleftrightarrow> f = SqlEq \<or> f = SqlNeq"
| "wf_clause _ \<longleftrightarrow> True"

fun cmp_sat :: "(string \<Rightarrow> string \<Rightarrow> bool) \<Rightarrow> sql_cmp \<Rightarrow> string \<Rightarrow> string \<Rightarrow> bool" where
  "cmp_sat like SqlEq v w = (w = v)" | "cmp_sat like SqlNeq v w = (w \<noteq> v)"
| "cmp_sat like SqlGt v w = (w > v)" | "cmp_sat like SqlGte v w = (w \<ge> v)"
| "cmp_sat like SqlLt v w = (w < v)" | "cmp_sat like SqlLte v w = (w \<le> v)"
| "cmp_sat like SqlLike v w = like v w"

fun clause_sat ::
  "(string \<Rightarrow> string \<Rightarrow> bool) \<Rightarrow> (bytes \<Rightarrow> bytes option) \<Rightarrow> (bytes \<Rightarrow> string option) \<Rightarrow> clause \<Rightarrow> bool" where
  "clause_sat like etags ptags (PlainCmp f n v) \<longleftrightarrow> tag_sat ptags n (cmp_sat like f v)"
| "clause_sat like etags ptags (EncCmp f n v) \<longleftrightarrow> tag_sat etags n (\<lambda>w. if f = SqlEq then w = v else w \<noteq> v)"
| "clause_sat like etags ptags (PlainIn n vs) \<longleftrightarrow> tag_sat ptags n (\<lambda>w. w \<in> set vs)"
| "clause_sat like etags ptags (EncIn n vs) \<longleftrightarrow> tag_sat etags n (\<lambda>w. w \<in> set vs)"
| "clause_sat like etags ptags (ClAnd cs) \<longleftrightarrow> (\<forall>c\<in>set cs. clause_sat like etags ptags c)"
| "clause_sat like etags ptags (ClOr cs) \<longleftrightarrow> (\<exists>c\<in>set cs. clause_sat like etags ptags c)"
| "clause_sat like etags ptags (ClNot c) \<longleftrightarrow> \<not> clause_sat like etags ptags c"

text \<open>The clause of an operator; \<open>None\<close> where the translation fails.\<close>

fun target_plain :: "TargetValue \<Rightarrow> string option" where
  "target_plain (Unencrypted v) = Some v" | "target_plain _ = None"

fun target_enc :: "TargetValue \<Rightarrow> bytes option" where
  "target_enc (EncryptedTarget v) = Some v" | "target_enc _ = None"

fun cmp_clause :: "sql_cmp \<Rightarrow> QTagName \<Rightarrow> TargetValue \<Rightarrow> clause option" where
  "cmp_clause f (PlainTagName n) (Unencrypted v) = Some (PlainCmp f n v)"
| "cmp_clause f (EncryptedTagName n) (EncryptedTarget v) =
    (if f = SqlEq \<or> f = SqlNeq then Some (EncCmp f n v) else None)"
| "cmp_clause f _ _ = None"

fun collect :: "'a option list \<Rightarrow> 'a list option" where
  "collect [] = Some []"
| "collect (None # _) = None"
| "collect (Some x # xs) = map_option (Cons x) (collect xs)"

fun in_clause :: "QTagName \<Rightarrow> TargetValue list \<Rightarrow> clause option" where
  "in_clause (PlainTagName n) vs = map_option (PlainIn n) (collect (map target_plain vs))"
| "in_clause (EncryptedTagName n) vs =
    (if length vs < 2 then None else map_option (EncIn n) (collect (map target_enc vs)))"

text \<open>Parentheses around one clause are a conjunction, whichever operator wrote them.\<close>

definition clause_group :: "bool \<Rightarrow> clause list \<Rightarrow> clause" where
  "clause_group is_and cs = (if is_and \<or> length cs = 1 then ClAnd cs else ClOr cs)"

fun clause_of :: "Operator \<Rightarrow> clause option" where
  "clause_of (OpEq n v) = cmp_clause SqlEq n v"
| "clause_of (OpNeq n v) = cmp_clause SqlNeq n v"
| "clause_of (OpGt n v) = cmp_clause SqlGt n v"
| "clause_of (OpGte n v) = cmp_clause SqlGte n v"
| "clause_of (OpLt n v) = cmp_clause SqlLt n v"
| "clause_of (OpLte n v) = cmp_clause SqlLte n v"
| "clause_of (OpLike n v) = cmp_clause SqlLike n v"
| "clause_of (OpIn n vs) = in_clause n vs"
| "clause_of (OpAnd ops) = (if ops = [] then None else map_option (clause_group True) (collect (map clause_of ops)))"
| "clause_of (OpOr ops) = (if ops = [] then None else map_option (clause_group False) (collect (map clause_of ops)))"
| "clause_of (OpNot op) = map_option ClNot (clause_of op)"

lemma collect_eq_Some: "collect xs = Some ys \<longleftrightarrow> xs = map Some ys"
proof (induction xs arbitrary: ys rule: collect.induct)
  case (3 x xs)
  then show ?case by (cases ys) auto
qed auto

lemma in_tags_append: "in_tags t s @ r = ''(i.id in (SELECT item_id FROM '' @ t @ '' WHERE name = ? AND value '' @ s @ ''))'' @ r"
  by (simp add: in_tags_def)

lemma cmp_clause_text:
  assumes "cmp_clause f n v = Some c"
  shows "wf_clause c"
    and "f = SqlEq \<Longrightarrow> eq_to_sql n v args = Inr (clause_text c, args @ clause_args c)"
    and "f = SqlNeq \<Longrightarrow> neq_to_sql n v args = Inr (clause_text c, args @ clause_args c)"
    and "f = SqlGt \<Longrightarrow> gt_to_sql n v args = Inr (clause_text c, args @ clause_args c)"
    and "f = SqlGte \<Longrightarrow> gte_to_sql n v args = Inr (clause_text c, args @ clause_args c)"
    and "f = SqlLt \<Longrightarrow> lt_to_sql n v args = Inr (clause_text c, args @ clause_args c)"
    and "f = SqlLte \<Longrightarrow> lte_to_sql n v args = Inr (clause_text c, args @ clause_args c)"
    and "f = SqlLike \<Longrightarrow> like_to_sql n v args = Inr (clause_text c, args @ clause_args c)"
  using assms
  by (cases n; cases v; auto simp: eq_to_sql_def neq_to_sql_def gt_to_sql_def gte_to_sql_def lt_to_sql_def
      lte_to_sql_def like_to_sql_def in_tags_def split: if_splits)+

lemma in_loop_text:
  assumes "\<And>v x. t v = Some x \<Longrightarrow> target v = Some (g x)"
    and "\<And>j. i \<le> j \<Longrightarrow> j < i + length vs \<Longrightarrow> comma j \<longleftrightarrow> j < i + length vs - 1"
    and "map t vs = map Some xs"
  shows "in_loop target comma i vs args = Inr (join '','' (map (\<lambda>_. ''?'') xs), args @ map g xs)"
  using assms(2,3)
proof (induction vs arbitrary: i xs args)
  case (Cons v vs)
  then obtain y ys where xs: "xs = y # ys" "t v = Some y" "map t vs = map Some ys" by (cases xs) auto
  have "in_loop target comma (Suc i) vs (args @ [g y]) =
      Inr (join '','' (map (\<lambda>_. ''?'') ys), (args @ [g y]) @ map g ys)"
    using Cons.prems(1) by (intro Cons.IH [OF _ xs(3)]) auto
  moreover have "comma i \<longleftrightarrow> ys \<noteq> []"
    using Cons.prems(1) [of i] xs(3) by (cases vs) auto
  moreover have "target v = Some (g y)" using assms(1) xs(2) by blast
  ultimately show ?case using xs by (cases ys) simp_all
qed simp

lemma in_clause_text:
  assumes "in_clause n vs = Some c"
  shows "wf_clause c" and "in_to_sql chk n vs args = Inr (clause_text c, args @ clause_args c)"
proof -
  show "wf_clause c" using assms by (cases n) (auto split: if_splits)
  show "in_to_sql chk n vs args = Inr (clause_text c, args @ clause_args c)"
  proof (cases n)
    case (PlainTagName m)
    then obtain xs where xs: "map target_plain vs = map Some xs" "c = PlainIn m xs"
      using assms by (auto simp: collect_eq_Some)
    have "in_loop plain_target (\<lambda>i. i < length vs - 1) 0 vs (args @ [Blob m]) =
        Inr (join '','' (map (\<lambda>_. ''?'') xs), (args @ [Blob m]) @ map Text xs)"
    proof (rule in_loop_text [OF _ _ xs(1)])
      fix v x assume "target_plain v = Some x" then show "plain_target v = Some (Text x)" by (cases v) auto
    qed simp
    then show ?thesis by (simp add: in_to_sql_def PlainTagName xs(2) in_tags_def)
  next
    case (EncryptedTagName m)
    then obtain xs where xs: "map target_enc vs = map Some xs" "c = EncIn m xs" and l: "2 \<le> length vs"
      using assms by (auto simp: collect_eq_Some not_less split: if_splits)
    have "in_loop encrypted_target (\<lambda>i. i \<le> length vs - 2) 0 vs (args @ [Blob m]) =
        Inr (join '','' (map (\<lambda>_. ''?'') xs), (args @ [Blob m]) @ map Blob xs)"
    proof (rule in_loop_text [OF _ _ xs(1)])
      fix v x assume "target_enc v = Some x" then show "encrypted_target v = Some (Blob x)" by (cases v) auto
    qed (use l in auto)
    then show ?thesis using l by (simp add: in_to_sql_def EncryptedTagName xs(2) in_tags_def usize_sub_def)
  qed
qed

lemma clause_text_group:
  "clause_text (clause_group is_and cs) = ''('' @ join (if is_and then '' AND '' else '' OR '') (map clause_text cs) @ '')''"
  by (cases cs rule: remdups_adj.cases) (auto simp: clause_group_def)

lemma clause_args_group [simp]: "clause_args (clause_group is_and cs) = concat (map clause_args cs)"
  by (simp add: clause_group_def)

lemma wf_clause_group: "cs \<noteq> [] \<Longrightarrow> \<forall>c\<in>set cs. wf_clause c \<Longrightarrow> wf_clause (clause_group is_and cs)"
  by (cases cs rule: remdups_adj.cases) (auto simp: clause_group_def)

text \<open>The translation renders the clause tree of the operator.\<close>

lemma operator_to_sql_render:
  "clause_of op = Some c \<Longrightarrow>
    operator_to_sql chk op args = Inr (clause_text c, args @ clause_args c) \<and> wf_clause c"
  "map clause_of ops = map Some cs \<Longrightarrow>
    join_operators chk sep ops args = Inr (join sep (map clause_text cs), args @ concat (map clause_args cs))
    \<and> (\<forall>c\<in>set cs. wf_clause c)"
proof (induction chk op args and chk sep ops args arbitrary: c and cs
    rule: operator_to_sql_join_operators.induct)
  case (9 chk ops args)
  then obtain cs where "map clause_of ops = map Some cs" "c = clause_group True cs" "ops \<noteq> []"
    by (auto simp: collect_eq_Some split: if_splits)
  with 9 show ?case by (auto simp: clause_text_group intro!: wf_clause_group)
next
  case (10 chk ops args)
  then obtain cs where "map clause_of ops = map Some cs" "c = clause_group False cs" "ops \<noteq> []"
    by (auto simp: collect_eq_Some split: if_splits)
  with 10 show ?case by (auto simp: clause_text_group intro!: wf_clause_group)
next
  case (11 chk op args)
  then show ?case by auto
next
  case (13 chk sep op ops args)
  then obtain d ds where cs: "cs = d # ds" "clause_of op = Some d" "map clause_of ops = map Some ds"
    by (cases cs) auto
  then have ne: "ops \<noteq> [] \<longleftrightarrow> ds \<noteq> []" by auto
  have A: "operator_to_sql chk op args = Inr (clause_text d, args @ clause_args d) \<and> wf_clause d"
    by (rule 13(1) [OF cs(2)])
  have B: "join_operators chk sep ops (args @ clause_args d) = Inr (join sep (map clause_text ds),
      (args @ clause_args d) @ concat (map clause_args ds)) \<and> (\<forall>c\<in>set ds. wf_clause c)"
    using A by (intro 13(2) [OF _ _ cs(3)]) auto
  show ?case
  proof (cases ds)
    case Nil
    with A B ne cs(1) show ?thesis by simp
  next
    case (Cons a list)
    with A B ne cs(1) show ?thesis by simp
  qed
qed (auto simp: cmp_clause_text in_clause_text)

section \<open>Meaning of encrypted queries\<close>

text \<open>
  \<open>enc_view\<close>: the tables hold the tags of a record, names encrypted, values encrypted unless the name
  starts with a tilde, which the plaintext table drops.
\<close>

definition enc_name :: "crypto \<Rightarrow> Keys \<Rightarrow> string \<Rightarrow> bytes" where
  "enc_name c keys n = encrypt_as_searchable c (as_bytes n) (tag_name_key keys) (tags_hmac_key keys)"

definition enc_val :: "crypto \<Rightarrow> Keys \<Rightarrow> string \<Rightarrow> bytes" where
  "enc_val c keys v = encrypt_as_searchable c (as_bytes v) (tag_value_key keys) (tags_hmac_key keys)"

definition enc_view :: "crypto \<Rightarrow> Keys \<Rightarrow> (string \<Rightarrow> string option) \<Rightarrow> (bytes \<Rightarrow> bytes option) \<Rightarrow> (bytes \<Rightarrow> string option) \<Rightarrow> bool" where
  "enc_view c keys tags etags ptags \<longleftrightarrow>
    (\<forall>n. \<not> starts_tilde n \<longrightarrow> etags (enc_name c keys n) = map_option (enc_val c keys) (tags n)) \<and>
    (\<forall>n. ptags (enc_name c keys n) = tags (CHR ''~'' # n))"

definition name_ok :: "string \<Rightarrow> bool" where
  "name_ok n \<longleftrightarrow> n \<noteq> [] \<and> n \<noteq> ''~''"

text \<open>The queries the default storage can answer.\<close>

fun translatable :: "Query \<Rightarrow> bool" where
  "translatable (QAnd qs) \<longleftrightarrow> qs \<noteq> [] \<and> (\<forall>q\<in>set qs. translatable q)"
| "translatable (QOr qs) \<longleftrightarrow> qs \<noteq> [] \<and> (\<forall>q\<in>set qs. translatable q)"
| "translatable (QNot q) \<longleftrightarrow> translatable q"
| "translatable (QEq n v) \<longleftrightarrow> name_ok n"
| "translatable (QNeq n v) \<longleftrightarrow> name_ok n"
| "translatable (QGt n v) \<longleftrightarrow> name_ok n \<and> starts_tilde n"
| "translatable (QGte n v) \<longleftrightarrow> name_ok n \<and> starts_tilde n"
| "translatable (QLt n v) \<longleftrightarrow> name_ok n \<and> starts_tilde n"
| "translatable (QLte n v) \<longleftrightarrow> name_ok n \<and> starts_tilde n"
| "translatable (QLike n v) \<longleftrightarrow> name_ok n \<and> starts_tilde n"
| "translatable (QIn n vs) \<longleftrightarrow> name_ok n \<and> (starts_tilde n \<or> 2 \<le> length vs)"

lemma starts_tilde_simps [simp]:
  "starts_tilde (CHR ''~'' # s)" "\<not> starts_tilde []"
  by (simp_all add: starts_tilde_def)

lemma tag_name_from_simps:
  "name_ok (CHR ''~'' # s) \<Longrightarrow> tag_name_from (CHR ''~'' # s) = Inr (PlainTagName (as_bytes s))"
  "name_ok n \<Longrightarrow> \<not> starts_tilde n \<Longrightarrow> tag_name_from n = Inr (EncryptedTagName (as_bytes n))"
  by (auto simp: tag_name_from_def name_ok_def)

lemma encrypt_name_value_simps:
  "name_ok (CHR ''~'' # s) \<Longrightarrow>
     encrypt_name_value c keys (CHR ''~'' # s) v = Inr (PlainTagName (enc_name c keys s), Unencrypted v)"
  "name_ok n \<Longrightarrow> \<not> starts_tilde n \<Longrightarrow>
     encrypt_name_value c keys n v = Inr (EncryptedTagName (enc_name c keys n), EncryptedTarget (enc_val c keys v))"
  by (simp_all add: encrypt_name_value_def tag_name_from_simps enc_name_def enc_val_def)

lemma enc_view_simps:
  assumes "crypto_ok c" and "enc_view c keys tags etags ptags"
  shows "tag_sat ptags (enc_name c keys s) P \<longleftrightarrow> tag_sat tags (CHR ''~'' # s) P"
    and "\<not> starts_tilde n \<Longrightarrow> tag_sat etags (enc_name c keys n) Q \<longleftrightarrow> tag_sat tags n (\<lambda>v. Q (enc_val c keys v))"
    and "enc_val c keys v = enc_val c keys w \<longleftrightarrow> v = w"
  using assms by (auto simp: enc_view_def tag_sat_def enc_val_def searchable_inj split: option.splits)

lemma collect_total: "(\<And>x. x \<in> set xs \<Longrightarrow> f x = Some (g x)) \<Longrightarrow> collect (map f xs) = Some (map g xs)"
  by (induction xs) auto

text \<open>The clause of a query, computed directly.\<close>

fun test_clause :: "crypto \<Rightarrow> Keys \<Rightarrow> sql_cmp \<Rightarrow> string \<Rightarrow> string \<Rightarrow> clause" where
  "test_clause c keys f n v =
    (if starts_tilde n then PlainCmp f (enc_name c keys (drop 1 n)) v
     else EncCmp f (enc_name c keys n) (enc_val c keys v))"

fun query_clause :: "crypto \<Rightarrow> Keys \<Rightarrow> Query \<Rightarrow> clause" where
  "query_clause c keys (QAnd qs) = clause_group True (map (query_clause c keys) qs)"
| "query_clause c keys (QOr qs) = clause_group False (map (query_clause c keys) qs)"
| "query_clause c keys (QNot q) = ClNot (query_clause c keys q)"
| "query_clause c keys (QEq n v) = test_clause c keys SqlEq n v"
| "query_clause c keys (QNeq n v) = test_clause c keys SqlNeq n v"
| "query_clause c keys (QGt n v) = test_clause c keys SqlGt n v"
| "query_clause c keys (QGte n v) = test_clause c keys SqlGte n v"
| "query_clause c keys (QLt n v) = test_clause c keys SqlLt n v"
| "query_clause c keys (QLte n v) = test_clause c keys SqlLte n v"
| "query_clause c keys (QLike n v) = test_clause c keys SqlLike n v"
| "query_clause c keys (QIn n vs) =
    (if starts_tilde n then PlainIn (enc_name c keys (drop 1 n)) vs
     else EncIn (enc_name c keys n) (map (enc_val c keys) vs))"

lemma transform_test:
  assumes "name_ok n" and "starts_tilde n \<or> f = SqlEq \<or> f = SqlNeq"
  shows "\<exists>t w. encrypt_name_value c keys n v = Inr (t, w) \<and> cmp_clause f t w = Some (test_clause c keys f n v)"
proof (cases "starts_tilde n")
  case True
  then obtain s where "n = CHR ''~'' # s" by (rule starts_tildeE)
  then show ?thesis using assms by (simp add: encrypt_name_value_simps)
next
  case False
  then show ?thesis using assms by (simp add: encrypt_name_value_simps)
qed

lemma transform_in:
  assumes "name_ok n" and "starts_tilde n \<or> 2 \<le> length vs"
  shows "\<exists>op. transform c keys (QIn n vs) = Inr op \<and> clause_of op = Some (query_clause c keys (QIn n vs))"
proof (cases "starts_tilde n")
  case True
  then obtain s where "n = CHR ''~'' # s" by (rule starts_tildeE)
  then show ?thesis
    using assms by (simp add: encrypt_name_value_simps tag_name_from_simps traverse_Inr collect_total
        enc_name_def [symmetric] o_def)
next
  case False
  then show ?thesis
    using assms by (simp add: encrypt_name_value_simps tag_name_from_simps traverse_Inr collect_total
        enc_name_def [symmetric] o_def)
qed

lemma traverse_transform:
  assumes "\<And>q. q \<in> set qs \<Longrightarrow> \<exists>op. transform c keys q = Inr op \<and> clause_of op = Some (query_clause c keys q)"
  shows "\<exists>ops. traverse (transform c keys) qs = Inr ops \<and>
    collect (map clause_of ops) = Some (map (query_clause c keys) qs)"
  using assms
proof (induction qs)
  case (Cons q qs)
  obtain op where op: "transform c keys q = Inr op" "clause_of op = Some (query_clause c keys q)"
    using Cons.prems [of q] by auto
  obtain ops where ops: "traverse (transform c keys) qs = Inr ops"
    "collect (map clause_of ops) = Some (map (query_clause c keys) qs)"
    using Cons by auto
  from op ops show ?case by (intro exI [of _ "op # ops"]) simp
qed simp

lemma transform_clause:
  "translatable q \<Longrightarrow> \<exists>op. transform c keys q = Inr op \<and> clause_of op = Some (query_clause c keys q)"
proof (induction q)
  case (QAnd qs)
  then obtain ops where ops: "traverse (transform c keys) qs = Inr ops"
    "collect (map clause_of ops) = Some (map (query_clause c keys) qs)"
    using traverse_transform [of qs c keys] by fastforce
  moreover have "ops \<noteq> []" using traverse_Inr_length [OF ops(1)] QAnd(2) by auto
  ultimately show ?case by simp
next
  case (QOr qs)
  then obtain ops where ops: "traverse (transform c keys) qs = Inr ops"
    "collect (map clause_of ops) = Some (map (query_clause c keys) qs)"
    using traverse_transform [of qs c keys] by fastforce
  moreover have "ops \<noteq> []" using traverse_Inr_length [OF ops(1)] QOr(2) by auto
  ultimately show ?case by simp
next
  case (QIn n vs)
  then show ?case using transform_in by simp
next
  case (QEq n v) then show ?case using transform_test [of n SqlEq c keys v] by auto
next
  case (QNeq n v) then show ?case using transform_test [of n SqlNeq c keys v] by auto
next
  case (QGt n v) then show ?case using transform_test [of n SqlGt c keys v] by auto
next
  case (QGte n v) then show ?case using transform_test [of n SqlGte c keys v] by auto
next
  case (QLt n v) then show ?case using transform_test [of n SqlLt c keys v] by auto
next
  case (QLte n v) then show ?case using transform_test [of n SqlLte c keys v] by auto
next
  case (QLike n v) then show ?case using transform_test [of n SqlLike c keys v] by auto
qed auto

lemma clause_sat_group: "clause_sat like et pt (clause_group is_and cs) \<longleftrightarrow>
  (if is_and \<or> length cs = 1 then \<forall>x\<in>set cs. clause_sat like et pt x else \<exists>x\<in>set cs. clause_sat like et pt x)"
  by (simp add: clause_group_def)

lemma list_ex_singleton: "length xs = 1 \<Longrightarrow> (\<forall>x\<in>set xs. P x) \<longleftrightarrow> (\<exists>x\<in>set xs. P x)"
  by (cases xs) auto

lemma cmp_sat_fun:
  "cmp_sat like SqlEq v = (\<lambda>w. w = v)" "cmp_sat like SqlNeq v = (\<lambda>w. w \<noteq> v)"
  "cmp_sat like SqlGt v = (\<lambda>w. w > v)" "cmp_sat like SqlGte v = (\<lambda>w. w \<ge> v)"
  "cmp_sat like SqlLt v = (\<lambda>w. w < v)" "cmp_sat like SqlLte v = (\<lambda>w. w \<le> v)"
  "cmp_sat like SqlLike v = (\<lambda>w. like v w)"
  by (simp_all add: fun_eq_iff)

lemma query_clause_sat:
  assumes "crypto_ok c" and "enc_view c keys tags etags ptags"
  shows "translatable q \<Longrightarrow> clause_sat like etags ptags (query_clause c keys q) \<longleftrightarrow> sat like tags q"
proof (induction q)
  case (QOr qs)
  then show ?case
    by (cases "length qs = 1") (auto simp: clause_sat_group length_Suc_conv)
next
  case (QIn n vs)
  then show ?case
    by (cases "starts_tilde n") (auto elim!: starts_tildeE simp: enc_view_simps [OF assms] image_iff
        intro: arg_cong [where f = "tag_sat tags n"])
qed (auto simp: clause_sat_group enc_view_simps [OF assms] cmp_sat_fun elim!: starts_tildeE)

lemma placeholders_join:
  "length (filter P (join sep ss)) = sum_list (map (\<lambda>s. length (filter P s)) ss)
    + (length ss - 1) * length (filter P sep)"
  by (induction sep ss rule: join.induct) auto

lemma placeholders_clause:
  "length (filter (\<lambda>ch. ch = CHR ''?'') (clause_text c)) = length (clause_args c)"
proof (induction c)
  case (PlainCmp f n v) then show ?case by (cases f) (simp_all add: in_tags_def)
next
  case (EncCmp f n v) then show ?case by (cases f) (simp_all add: in_tags_def)
qed (simp_all add: in_tags_def placeholders_join o_def sum_list_replicate map_replicate_const
      length_concat cong: map_cong)

section \<open>Properties\<close>

lemma clause_text_nonempty [simp]: "clause_text c \<noteq> []"
  by (cases c) (simp_all add: in_tags_def)

text \<open>A statement restricted by a clause.\<close>

definition where_clause :: "string \<Rightarrow> clause \<Rightarrow> string" where
  "where_clause base cl = base @ '' AND '' @ clause_text cl"

lemma wql_to_sql_render:
  assumes "clause_of op = Some cl"
  shows "wql_to_sql chk cls op = Inr (where_clause BASE cl, Blob cls # clause_args cl)"
    and "wql_to_sql_count chk cls op = Inr (where_clause COUNT_BASE cl, Blob cls # clause_args cl)"
  using operator_to_sql_render(1) [OF assms, of chk "[Blob cls]"]
  by (simp_all add: wql_to_sql_def wql_to_sql_count_def where_clause_def)

text \<open>
  C39: for every query the storage supports, encryption and translation succeed; the statement
  has one placeholder per argument, in order, and its condition selects an item exactly if the item's
  plain tags satisfy the query, whatever view of them the two encrypted tables hold.
\<close>
theorem query_translation_correct:
  assumes "crypto_ok c" and "translatable q"
  shows "\<exists>op cl. encrypt_query c keys q = Inr op \<and>
    wql_to_sql chk cls op = Inr (where_clause BASE cl, Blob cls # clause_args cl) \<and>
    wf_clause cl \<and>
    length (filter (\<lambda>ch. ch = CHR ''?'') (where_clause BASE cl)) = length (Blob cls # clause_args cl) \<and>
    (\<forall>like tags etags ptags. enc_view c keys tags etags ptags \<longrightarrow>
      (clause_sat like etags ptags cl \<longleftrightarrow> sat like tags q))"
proof -
  obtain op where op: "transform c keys q = Inr op" "clause_of op = Some (query_clause c keys q)"
    using transform_clause [OF assms(2)] by blast
  have "wf_clause (query_clause c keys q)"
    using operator_to_sql_render(1) [OF op(2)] by blast
  moreover have "length (filter (\<lambda>ch. ch = CHR ''?'') BASE) = 1" by (simp add: BASE_def)
  ultimately show ?thesis
    using op wql_to_sql_render [OF op(2)] query_clause_sat [OF assms(1) _ assms(2)]
    by (intro exI [of _ op] exI [of _ "query_clause c keys q"])
       (simp add: encrypt_query_def placeholders_clause where_clause_def)
qed

text \<open>A cipher for witnesses: a fixed tag is appended, keys and nonces are ignored.\<close>

text \<open>Witness for C39: \<^verbatim>\<open>{"$not": {"a": "1"}, "~b": {"$gt": "2"}}\<close>.\<close>
theorem query_translation_correct_witness:
  "\<exists>op cl. encrypt_query toy_crypto toy_keys (QAnd [QNot (QEq ''a'' ''1''), QGt ''~b'' ''2'']) = Inr op \<and>
    wql_to_sql True [9] op = Inr (where_clause BASE cl, Blob [9] # clause_args cl) \<and>
    length (clause_args cl) = 4"
proof -
  have t: "translatable (QAnd [QNot (QEq ''a'' ''1''), QGt ''~b'' ''2''])"
    by (simp add: name_ok_def starts_tilde_def)
  from query_translation_correct [OF toy_crypto_ok t, of toy_keys True "[9]"]
  obtain op cl where *: "encrypt_query toy_crypto toy_keys (QAnd [QNot (QEq ''a'' ''1''), QGt ''~b'' ''2'']) = Inr op"
    "wql_to_sql True [9] op = Inr (where_clause BASE cl, Blob [9] # clause_args cl)" by auto
  have "wql_to_sql True [9] op = Inr (where_clause BASE
      (query_clause toy_crypto toy_keys (QAnd [QNot (QEq ''a'' ''1''), QGt ''~b'' ''2''])),
      Blob [9] # clause_args (query_clause toy_crypto toy_keys (QAnd [QNot (QEq ''a'' ''1''), QGt ''~b'' ''2''])))"
    using transform_clause [OF t, of toy_crypto toy_keys] *(1) wql_to_sql_render(1)
    by (auto simp: encrypt_query_def)
  then have "clause_args cl = clause_args (query_clause toy_crypto toy_keys
      (QAnd [QNot (QEq ''a'' ''1''), QGt ''~b'' ''2'']))"
    using *(2) by simp
  then show ?thesis using * by (auto simp: starts_tilde_def)
qed

text \<open>Which tests the encrypted table refuses.\<close>

fun range_on_encrypted :: "Query \<Rightarrow> bool" where
  "range_on_encrypted (QGt n v) \<longleftrightarrow> \<not> starts_tilde n"
| "range_on_encrypted (QGte n v) \<longleftrightarrow> \<not> starts_tilde n"
| "range_on_encrypted (QLt n v) \<longleftrightarrow> \<not> starts_tilde n"
| "range_on_encrypted (QLte n v) \<longleftrightarrow> \<not> starts_tilde n"
| "range_on_encrypted (QLike n v) \<longleftrightarrow> \<not> starts_tilde n"
| "range_on_encrypted _ \<longleftrightarrow> False"

text \<open>
  An order or pattern test of an encrypted tag, which could only be answered on ciphertexts, is
  never turned into SQL: encryption or translation ends with \<^verbatim>\<open>WalletQueryError\<close>.
\<close>
theorem encrypted_range_rejected:
  assumes "range_on_encrypted q"
  shows "bindr (encrypt_query c keys q) (\<lambda>op. wql_to_sql chk cls op) = Inl (Error WalletQueryError)"
proof -
  have "\<not> starts_tilde n \<Longrightarrow> encrypt_name_value c keys n v = (if n = [] then Inl (Error WalletQueryError)
      else Inr (EncryptedTagName (enc_name c keys n), EncryptedTarget (enc_val c keys v)))" for n v
    by (auto simp: encrypt_name_value_def tag_name_from_def enc_name_def enc_val_def)
  then show ?thesis
    using assms
    by (cases q) (simp_all add: encrypt_query_def wql_to_sql_def gt_to_sql_def gte_to_sql_def
        lt_to_sql_def lte_to_sql_def like_to_sql_def)
qed

text \<open>Instance of the above: \<^verbatim>\<open>{"age": {"$gt": "18"}}\<close>.\<close>
theorem encrypted_range_rejected_witness:
  "bindr (encrypt_query toy_crypto toy_keys (QGt ''age'' ''18'')) (\<lambda>op. wql_to_sql True [9] op)
    = Inl (Error WalletQueryError)"
  by (rule encrypted_range_rejected) (simp add: starts_tilde_def)

text \<open>
  \<^verbatim>\<open>optimise\<close> turns a one-element \<^verbatim>\<open>$in\<close> into an equality, but not below \<^verbatim>\<open>$not\<close>. There
  \<^verbatim>\<open>values.len() - 2\<close> underflows: \<^verbatim>\<open>{"$not": {"a": {"$in": ["x"]}}}\<close> panics with overflow
  checks; without them the statement ends in \<^verbatim>\<open>IN (?,)\<close>, which is not SQL.
\<close>
theorem single_encrypted_in_breaks:
  "deserialize (Object [(''$not'', Object [(''a'', Object [(''$in'', Array [String x])])])])
     = Inr (QNot (QIn ''a'' [x]))
   \<and> optimise (QNot (QIn ''a'' [x])) = Some (QNot (QIn ''a'' [x]))
   \<and> bindr (encrypt_query c keys (QNot (QIn ''a'' [x]))) (\<lambda>op. wql_to_sql True cls op) = Inl Panic
   \<and> (\<exists>args. bindr (encrypt_query c keys (QNot (QIn ''a'' [x]))) (\<lambda>op. wql_to_sql False cls op) =
        Inr (BASE @ '' AND NOT ((i.id in (SELECT item_id FROM tags_encrypted WHERE name = ? AND value IN (?,))))'', args))"
  by (simp add: parse_operator.simps parse_single_operator_def encrypt_query_def
      tag_name_from_def encrypt_name_value_def starts_tilde_def wql_to_sql_def in_to_sql_def usize_sub_def)

end
