(* ===== verification/Wallet_Storage.thy ===== *)
theory Wallet_Storage
  imports Wallet_Query "HOL-Library.Multiset"
begin

text \<open>
  The storage interface of the wallet (\<^verbatim>\<open>indy-wallet/src/storage/mod.rs\<close>). A
  \<^verbatim>\<open>Box<dyn WalletStorage>\<close> is a record of its methods over the storage's state \<open>'s\<close>, with
  \<open>'i\<close> the state of its iterators. The locale \<open>wallet_storage\<close> is the contract the wallet relies on:
  the methods act on an abstract map from type and id to value and tags, deletion where the storage
  deletes the tags of a record with it (\<open>cascades\<close>).
\<close>

section \<open>Options\<close>

record RecordOptions =
  retrieve_type :: bool
  retrieve_value :: bool
  retrieve_tags :: bool

definition record_options_default :: RecordOptions where
  "record_options_default = \<lparr> retrieve_type = False, retrieve_value = True, retrieve_tags = False \<rparr>"

definition record_options_id :: RecordOptions where
  "record_options_id = \<lparr> retrieve_type = False, retrieve_value = False, retrieve_tags = False \<rparr>"

definition record_options_id_value :: RecordOptions where
  "record_options_id_value = \<lparr> retrieve_type = False, retrieve_value = True, retrieve_tags = False \<rparr>"

record SearchOptions =
  so_records :: bool
  so_total_count :: bool
  so_type :: bool
  so_value :: bool
  so_tags :: bool

definition search_options_default :: SearchOptions where
  "search_options_default = \<lparr> so_records = True, so_total_count = False, so_type = False,
     so_value = True, so_tags = False \<rparr>"

definition search_options_id_value :: SearchOptions where
  "search_options_id_value = \<lparr> so_records = True, so_total_count = True, so_type = True,
     so_value = True, so_tags = False \<rparr>"

text \<open>JSON text to options and back is \<^verbatim>\<open>serde_json\<close>, a parameter.\<close>

record options_serde =
  parse_record_options :: "string \<Rightarrow> RecordOptions option"
  print_record_options :: "RecordOptions \<Rightarrow> string"
  parse_search_options :: "string \<Rightarrow> SearchOptions option"

definition serde_ok :: "options_serde \<Rightarrow> bool" where
  "serde_ok j \<longleftrightarrow> (\<forall>opt. parse_record_options j (print_record_options j opt) = Some opt
     \<and> print_record_options j opt \<noteq> ''{}'')"

definition record_options_of :: "options_serde \<Rightarrow> string \<Rightarrow> RecordOptions IndyResult" where
  "record_options_of j options =
    (if options = ''{}'' then Inr record_options_default
     else ok_or (parse_record_options j options) (Error InvalidStructure))"

lemma record_options_of_print [simp]:
  "serde_ok j \<Longrightarrow> record_options_of j (print_record_options j opt) = Inr opt"
  by (simp add: record_options_of_def serde_ok_def)

text \<open>An option printer and parser for witnesses.\<close>

definition toy_serde :: options_serde where
  "toy_serde = \<lparr>
     parse_record_options = (\<lambda>s. case s of
         [a, b, c] \<Rightarrow> Some \<lparr> retrieve_type = (a = CHR ''1''), retrieve_value = (b = CHR ''1''), retrieve_tags = (c = CHR ''1'') \<rparr>
       | _ \<Rightarrow> None),
     print_record_options = (\<lambda>opt. map (\<lambda>b. if b then CHR ''1'' else CHR ''0'')
         [retrieve_type opt, retrieve_value opt, retrieve_tags opt]),
     parse_search_options = (\<lambda>s. if s = ''all'' then Some \<lparr> so_records = True, so_total_count = True, so_type = True,
         so_value = True, so_tags = True \<rparr> else None) \<rparr>"

lemma toy_serde_ok [simp]: "serde_ok toy_serde"
  by (simp add: serde_ok_def toy_serde_def)

section \<open>The interface\<close>

record ('s, 'i) WalletStorage =
  st_get :: "'s \<Rightarrow> bytes \<Rightarrow> bytes \<Rightarrow> string \<Rightarrow> StorageRecord IndyResult"
  st_add :: "'s \<Rightarrow> bytes \<Rightarrow> bytes \<Rightarrow> EncryptedValue \<Rightarrow> Tag list \<Rightarrow> 's \<times> unit IndyResult"
  st_update :: "'s \<Rightarrow> bytes \<Rightarrow> bytes \<Rightarrow> EncryptedValue \<Rightarrow> 's \<times> unit IndyResult"
  st_add_tags :: "'s \<Rightarrow> bytes \<Rightarrow> bytes \<Rightarrow> Tag list \<Rightarrow> 's \<times> unit IndyResult"
  st_update_tags :: "'s \<Rightarrow> bytes \<Rightarrow> bytes \<Rightarrow> Tag list \<Rightarrow> 's \<times> unit IndyResult"
  st_delete_tags :: "'s \<Rightarrow> bytes \<Rightarrow> bytes \<Rightarrow> TagName list \<Rightarrow> 's \<times> unit IndyResult"
  st_delete :: "'s \<Rightarrow> bytes \<Rightarrow> bytes \<Rightarrow> 's \<times> unit IndyResult"
  st_get_storage_metadata :: "'s \<Rightarrow> bytes IndyResult"
  st_set_storage_metadata :: "'s \<Rightarrow> bytes \<Rightarrow> 's \<times> unit IndyResult"
  st_get_all :: "'s \<Rightarrow> 'i IndyResult"
  st_search :: "'s \<Rightarrow> bytes \<Rightarrow> Operator \<Rightarrow> string option \<Rightarrow> 'i IndyResult"
  st_next :: "'s \<Rightarrow> 'i \<Rightarrow> 'i \<times> StorageRecord option IndyResult"
  st_total_count :: "'i \<Rightarrow> nat option IndyResult"
  st_close :: "'s \<Rightarrow> 's \<times> unit IndyResult"

text \<open>\<^verbatim>\<open>WalletStorageType\<close>: makes, opens and removes storages in a world \<open>'e\<close>.\<close>

record ('e, 'i) WalletStorageType =
  ty_create :: "'e \<Rightarrow> string \<Rightarrow> string option \<Rightarrow> string option \<Rightarrow> bytes \<Rightarrow> 'e \<times> unit IndyResult"
  ty_open :: "'e \<Rightarrow> string \<Rightarrow> string option \<Rightarrow> string option \<Rightarrow> 'e \<times> ('e, 'i) WalletStorage IndyResult"
  ty_delete :: "'e \<Rightarrow> string \<Rightarrow> string option \<Rightarrow> string option \<Rightarrow> 'e \<times> unit IndyResult"

text \<open>A storage whose state is a part of a larger world.\<close>

definition on_part :: "('e \<Rightarrow> 's) \<Rightarrow> ('s \<Rightarrow> 'e \<Rightarrow> 'e) \<Rightarrow> ('s \<Rightarrow> 's \<times> 'r) \<Rightarrow> 'e \<Rightarrow> 'e \<times> 'r" where
  "on_part get put f e = (put (fst (f (get e))) e, snd (f (get e)))"

definition within :: "('e \<Rightarrow> 's) \<Rightarrow> ('s \<Rightarrow> 'e \<Rightarrow> 'e) \<Rightarrow> ('s, 'i) WalletStorage \<Rightarrow> ('e, 'i) WalletStorage" where
  "within get put S = \<lparr>
     st_get = (\<lambda>e. st_get S (get e)),
     st_add = (\<lambda>e t n v ts. on_part get put (\<lambda>s. st_add S s t n v ts) e),
     st_update = (\<lambda>e t n v. on_part get put (\<lambda>s. st_update S s t n v) e),
     st_add_tags = (\<lambda>e t n ts. on_part get put (\<lambda>s. st_add_tags S s t n ts) e),
     st_update_tags = (\<lambda>e t n ts. on_part get put (\<lambda>s. st_update_tags S s t n ts) e),
     st_delete_tags = (\<lambda>e t n ns. on_part get put (\<lambda>s. st_delete_tags S s t n ns) e),
     st_delete = (\<lambda>e t n. on_part get put (\<lambda>s. st_delete S s t n) e),
     st_get_storage_metadata = (\<lambda>e. st_get_storage_metadata S (get e)),
     st_set_storage_metadata = (\<lambda>e m. on_part get put (\<lambda>s. st_set_storage_metadata S s m) e),
     st_get_all = (\<lambda>e. st_get_all S (get e)),
     st_search = (\<lambda>e. st_search S (get e)),
     st_next = (\<lambda>e. st_next S (get e)),
     st_total_count = st_total_count S,
     st_close = (\<lambda>e. on_part get put (st_close S) e) \<rparr>"

section \<open>What a storage holds\<close>

record stored =
  stored_value :: EncryptedValue
  stored_etags :: "bytes \<Rightarrow> bytes option"
  stored_ptags :: "bytes \<Rightarrow> string option"

type_synonym store = "bytes \<times> bytes \<Rightarrow> stored option"

fun put_tag :: "Tag \<Rightarrow> stored \<Rightarrow> stored" where
  "put_tag (Encrypted n v) r = r\<lparr>stored_etags := (stored_etags r)(n \<mapsto> v)\<rparr>"
| "put_tag (PlainText n v) r = r\<lparr>stored_ptags := (stored_ptags r)(n \<mapsto> v)\<rparr>"

fun drop_tag :: "TagName \<Rightarrow> stored \<Rightarrow> stored" where
  "drop_tag (OfEncrypted n) r = r\<lparr>stored_etags := (stored_etags r)(n := None)\<rparr>"
| "drop_tag (OfPlain n) r = r\<lparr>stored_ptags := (stored_ptags r)(n := None)\<rparr>"

definition bare :: "EncryptedValue \<Rightarrow> stored" where
  "bare v = \<lparr> stored_value = v, stored_etags = Map.empty, stored_ptags = Map.empty \<rparr>"

fun tag_name_of :: "Tag \<Rightarrow> TagName" where
  "tag_name_of (Encrypted n v) = OfEncrypted n"
| "tag_name_of (PlainText n v) = OfPlain n"

text \<open>A tag list shows the tags of a stored record: each once.\<close>

definition lists_tags :: "Tag list \<Rightarrow> stored \<Rightarrow> bool" where
  "lists_tags ts r \<longleftrightarrow> distinct (map tag_name_of ts) \<and>
    (\<forall>n v. Encrypted n v \<in> set ts \<longleftrightarrow> stored_etags r n = Some v) \<and>
    (\<forall>n v. PlainText n v \<in> set ts \<longleftrightarrow> stored_ptags r n = Some v)"

text \<open>A storage record shows a stored one through the options.\<close>

definition shows_record :: "RecordOptions \<Rightarrow> bytes \<Rightarrow> bytes \<Rightarrow> stored \<Rightarrow> StorageRecord \<Rightarrow> bool" where
  "shows_record opt t n r sr \<longleftrightarrow> sr_id sr = n \<and>
    sr_value sr = (if retrieve_value opt then Some (stored_value r) else None) \<and>
    sr_type sr = (if retrieve_type opt then Some t else None) \<and>
    (if retrieve_tags opt then \<exists>ts. sr_tags sr = Some ts \<and> lists_tags ts r else sr_tags sr = None)"

section \<open>Sequences of calls\<close>

text \<open>The state-changing calls of the interface, run on a storage and, as specification, on the map.\<close>

datatype storage_call =
    CallAdd bytes bytes EncryptedValue "Tag list"
  | CallUpdate bytes bytes EncryptedValue
  | CallAddTags bytes bytes "Tag list"
  | CallUpdateTags bytes bytes "Tag list"
  | CallDeleteTags bytes bytes "TagName list"
  | CallDelete bytes bytes

fun exec_storage :: "('s, 'i) WalletStorage \<Rightarrow> 's \<Rightarrow> storage_call \<Rightarrow> 's \<times> unit IndyResult" where
  "exec_storage S s (CallAdd t n v ts) = st_add S s t n v ts"
| "exec_storage S s (CallUpdate t n v) = st_update S s t n v"
| "exec_storage S s (CallAddTags t n ts) = st_add_tags S s t n ts"
| "exec_storage S s (CallUpdateTags t n ts) = st_update_tags S s t n ts"
| "exec_storage S s (CallDeleteTags t n ns) = st_delete_tags S s t n ns"
| "exec_storage S s (CallDelete t n) = st_delete S s t n"

definition on_record :: "store \<Rightarrow> bytes \<times> bytes \<Rightarrow> (stored \<Rightarrow> stored option) \<Rightarrow> store \<times> unit IndyResult" where
  "on_record m k f = (case m k of None \<Rightarrow> (m, Inl (Error WalletItemNotFound)) | Some r \<Rightarrow> (m(k := f r), Inr ()))"

fun exec_store :: "store \<Rightarrow> storage_call \<Rightarrow> store \<times> unit IndyResult" where
  "exec_store m (CallAdd t n v ts) =
    (case m (t, n) of
       None \<Rightarrow> (m((t, n) \<mapsto> fold put_tag ts (bare v)), Inr ())
     | Some _ \<Rightarrow> (m, Inl (Error WalletItemAlreadyExists)))"
| "exec_store m (CallUpdate t n v) = on_record m (t, n) (\<lambda>r. Some (r\<lparr>stored_value := v\<rparr>))"
| "exec_store m (CallAddTags t n ts) = on_record m (t, n) (\<lambda>r. Some (fold put_tag ts r))"
| "exec_store m (CallUpdateTags t n ts) = on_record m (t, n) (\<lambda>r. Some (fold put_tag ts (bare (stored_value r))))"
| "exec_store m (CallDeleteTags t n ns) = on_record m (t, n) (\<lambda>r. Some (fold drop_tag ns r))"
| "exec_store m (CallDelete t n) = on_record m (t, n) (\<lambda>r. None)"

fun run_calls :: "('s \<Rightarrow> 'c \<Rightarrow> 's \<times> 'r) \<Rightarrow> 's \<Rightarrow> 'c list \<Rightarrow> 's \<times> 'r list" where
  "run_calls f s [] = (s, [])"
| "run_calls f s (x # xs) = (let (s', r) = f s x; (s'', rs) = run_calls f s' xs in (s'', r # rs))"

text \<open>The tag lists the wallet passes come from maps: no name twice.\<close>

fun call_ok :: "storage_call \<Rightarrow> bool" where
  "call_ok (CallAdd t n v ts) \<longleftrightarrow> distinct (map tag_name_of ts)"
| "call_ok (CallUpdateTags t n ts) \<longleftrightarrow> distinct (map tag_name_of ts)"
| "call_ok _ \<longleftrightarrow> True"

text \<open>Deletions are the calls that rest on more of a storage than the others: that it forgets the tags of a record with the record.\<close>

fun call_deletes :: "storage_call \<Rightarrow> bool" where
  "call_deletes (CallDelete t n) \<longleftrightarrow> True"
| "call_deletes _ \<longleftrightarrow> False"

section \<open>Iteration\<close>

text \<open>What an iterator delivers until it reports the end.\<close>

inductive yields :: "('s, 'i) WalletStorage \<Rightarrow> 's \<Rightarrow> 'i \<Rightarrow> StorageRecord list \<Rightarrow> bool" for S s where
  yields_end: "st_next S s it = (it', Inr None) \<Longrightarrow> yields S s it []"
| yields_more: "st_next S s it = (it', Inr (Some sr)) \<Longrightarrow> yields S s it' srs \<Longrightarrow> yields S s it (sr # srs)"

inductive_cases yields_NilE: "yields S s it []"
inductive_cases yields_ConsE: "yields S s it (sr # srs)"

definition search_options_of :: "options_serde \<Rightarrow> string option \<Rightarrow> SearchOptions IndyResult" where
  "search_options_of j options =
    (case options of
       None \<Rightarrow> Inr search_options_default
     | Some option_str \<Rightarrow> ok_or (parse_search_options j option_str) (Error InvalidStructure))"

definition fetch_options :: "SearchOptions \<Rightarrow> RecordOptions" where
  "fetch_options so = \<lparr> retrieve_type = so_type so, retrieve_value = so_value so, retrieve_tags = so_tags so \<rparr>"

definition all_options :: RecordOptions where
  "all_options = \<lparr> retrieve_type = True, retrieve_value = True, retrieve_tags = True \<rparr>"

text \<open>\<open>shows_all\<close>: the storage records show the stored ones under the given keys, each once.\<close>

definition shows_all :: "RecordOptions \<Rightarrow> store \<Rightarrow> (bytes \<times> bytes) set \<Rightarrow> StorageRecord list \<Rightarrow> bool" where
  "shows_all opt m K srs \<longleftrightarrow> (\<exists>ks. distinct ks \<and> set ks = K \<and>
    list_all2 (\<lambda>k sr. \<exists>r. m k = Some r \<and> shows_record opt (fst k) (snd k) r sr) ks srs)"

section \<open>The contract\<close>

text \<open>
  \<open>inv\<close> is the storage's own invariant, \<open>abs\<close> the map it stores, \<open>j\<close> its option parser.
  A method that fails leaves the state alone. \<open>cascades\<close> says whether deleting a record takes its tags with it; without
  it the contract says nothing about a deletion that finds its record.
\<close>

locale wallet_storage =
  fixes S :: "('s, 'i) WalletStorage"
    and inv :: "'s \<Rightarrow> bool"
    and abs :: "'s \<Rightarrow> store"
    and j :: options_serde
    and like :: "string \<Rightarrow> string \<Rightarrow> bool"
    and cascades :: bool
  assumes get_some: "inv s \<Longrightarrow> record_options_of j opts = Inr opt \<Longrightarrow> abs s (t, n) = Some r \<Longrightarrow>
      \<exists>sr. st_get S s t n opts = Inr sr \<and> shows_record opt t n r sr"
    and get_none: "inv s \<Longrightarrow> record_options_of j opts = Inr opt \<Longrightarrow> abs s (t, n) = None \<Longrightarrow>
      st_get S s t n opts = Inl (Error WalletItemNotFound)"
    and add_new: "inv s \<Longrightarrow> abs s (t, n) = None \<Longrightarrow> distinct (map tag_name_of ts) \<Longrightarrow>
      \<exists>s'. st_add S s t n v ts = (s', Inr ()) \<and> inv s' \<and> abs s' = (abs s)((t, n) \<mapsto> fold put_tag ts (bare v))"
    and add_old: "inv s \<Longrightarrow> abs s (t, n) = Some r \<Longrightarrow>
      st_add S s t n v ts = (s, Inl (Error WalletItemAlreadyExists))"
    and update_some: "inv s \<Longrightarrow> abs s (t, n) = Some r \<Longrightarrow>
      \<exists>s'. st_update S s t n v = (s', Inr ()) \<and> inv s' \<and> abs s' = (abs s)((t, n) \<mapsto> r\<lparr>stored_value := v\<rparr>)"
    and update_none: "inv s \<Longrightarrow> abs s (t, n) = None \<Longrightarrow>
      st_update S s t n v = (s, Inl (Error WalletItemNotFound))"
    and add_tags_some: "inv s \<Longrightarrow> abs s (t, n) = Some r \<Longrightarrow>
      \<exists>s'. st_add_tags S s t n ts = (s', Inr ()) \<and> inv s' \<and> abs s' = (abs s)((t, n) \<mapsto> fold put_tag ts r)"
    and add_tags_none: "inv s \<Longrightarrow> abs s (t, n) = None \<Longrightarrow>
      st_add_tags S s t n ts = (s, Inl (Error WalletItemNotFound))"
    and update_tags_some: "inv s \<Longrightarrow> abs s (t, n) = Some r \<Longrightarrow> distinct (map tag_name_of ts) \<Longrightarrow>
      \<exists>s'. st_update_tags S s t n ts = (s', Inr ()) \<and> inv s' \<and>
        abs s' = (abs s)((t, n) \<mapsto> fold put_tag ts (bare (stored_value r)))"
    and update_tags_none: "inv s \<Longrightarrow> abs s (t, n) = None \<Longrightarrow>
      st_update_tags S s t n ts = (s, Inl (Error WalletItemNotFound))"
    and delete_tags_some: "inv s \<Longrightarrow> abs s (t, n) = Some r \<Longrightarrow>
      \<exists>s'. st_delete_tags S s t n ns = (s', Inr ()) \<and> inv s' \<and> abs s' = (abs s)((t, n) \<mapsto> fold drop_tag ns r)"
    and delete_tags_none: "inv s \<Longrightarrow> abs s (t, n) = None \<Longrightarrow>
      st_delete_tags S s t n ns = (s, Inl (Error WalletItemNotFound))"
    and delete_some: "cascades \<Longrightarrow> inv s \<Longrightarrow> abs s (t, n) = Some r \<Longrightarrow>
      \<exists>s'. st_delete S s t n = (s', Inr ()) \<and> inv s' \<and> abs s' = (abs s)((t, n) := None)"
    and delete_none: "inv s \<Longrightarrow> abs s (t, n) = None \<Longrightarrow>
      st_delete S s t n = (s, Inl (Error WalletItemNotFound))"
    and search_ok: "inv s \<Longrightarrow> search_options_of j sopts = Inr so \<Longrightarrow> so_records so \<Longrightarrow> clause_of op = Some cl \<Longrightarrow>
      \<exists>it srs. st_search S s t op sopts = Inr it \<and> yields S s it srs \<and>
        shows_all (fetch_options so) (abs s)
          {k. fst k = t \<and> (\<exists>r. abs s k = Some r \<and> clause_sat like (stored_etags r) (stored_ptags r) cl)} srs \<and>
        (so_total_count so \<longrightarrow> st_total_count S it = Inr (Some (length srs)))"
    and search_everything: "inv s \<Longrightarrow> search_options_of j sopts = Inr so \<Longrightarrow> so_records so \<Longrightarrow>
      \<exists>it srs. st_search S s t (OpAnd []) sopts = Inr it \<and> yields S s it srs \<and>
        shows_all (fetch_options so) (abs s) {k. fst k = t \<and> abs s k \<noteq> None} srs \<and>
        (so_total_count so \<longrightarrow> st_total_count S it = Inr (Some (length srs)))"
    and get_all_ok: "inv s \<Longrightarrow> \<exists>it srs. st_get_all S s = Inr it \<and> yields S s it srs \<and>
        shows_all all_options (abs s) {k. abs s k \<noteq> None} srs"
begin

lemma exec_refines:
  assumes "inv s" and "call_ok x" and "call_deletes x \<longrightarrow> cascades"
  shows "\<exists>s' r. exec_storage S s x = (s', r) \<and> inv s' \<and> exec_store (abs s) x = (abs s', r)"
proof (cases x)
  case (CallAdd t n v ts)
  then show ?thesis
    using assms add_new [of s t n ts v] add_old [of s t n _ v ts]
    by (cases "abs s (t, n)") auto
next
  case (CallUpdate t n v)
  then show ?thesis
    using assms update_some [of s t n _ v] update_none [of s t n v]
    by (cases "abs s (t, n)") (auto simp: on_record_def)
next
  case (CallAddTags t n ts)
  then show ?thesis
    using assms add_tags_some [of s t n _ ts] add_tags_none [of s t n ts]
    by (cases "abs s (t, n)") (auto simp: on_record_def)
next
  case (CallUpdateTags t n ts)
  then show ?thesis
    using assms update_tags_some [of s t n _ ts] update_tags_none [of s t n ts]
    by (cases "abs s (t, n)") (auto simp: on_record_def)
next
  case (CallDeleteTags t n ns)
  then show ?thesis
    using assms delete_tags_some [of s t n _ ns] delete_tags_none [of s t n ns]
    by (cases "abs s (t, n)") (auto simp: on_record_def)
next
  case (CallDelete t n)
  then show ?thesis
    using assms delete_some [of s t n] delete_none [of s t n]
    by (cases "abs s (t, n)") (auto simp: on_record_def)
qed

lemma run_refines:
  "inv s \<Longrightarrow> \<forall>x\<in>set xs. call_ok x \<Longrightarrow> cascades \<or> (\<forall>x\<in>set xs. \<not> call_deletes x) \<Longrightarrow>
    \<exists>s' rs. run_calls (exec_storage S) s xs = (s', rs) \<and> inv s' \<and> run_calls exec_store (abs s) xs = (abs s', rs)"
proof (induction xs arbitrary: s)
  case (Cons x xs)
  obtain s1 r where 1: "exec_storage S s x = (s1, r)" "inv s1" "exec_store (abs s) x = (abs s1, r)"
    using exec_refines [of s x] Cons.prems by auto
  obtain s2 rs where 2: "run_calls (exec_storage S) s1 xs = (s2, rs)" "inv s2"
    "run_calls exec_store (abs s1) xs = (abs s2, rs)"
    using Cons.IH [OF 1(2)] Cons.prems by auto
  from 1 2 show ?case by simp
qed simp

lemma within_storage:
  fixes get :: "'e \<Rightarrow> 's" and put :: "'s \<Rightarrow> 'e \<Rightarrow> 'e"
  assumes gp: "\<And>s e. get (put s e) = s" and same: "\<And>e. put (get e) e = e"
  shows "wallet_storage (within get put S) (\<lambda>e. inv (get e)) (\<lambda>e. abs (get e)) j like cascades"
proof -
  have y: "yields S (get e) it srs \<Longrightarrow> yields (within get put S) e it srs" for e it srs
    by (induction rule: yields.induct) (auto intro: yields.intros simp: within_def)
  show ?thesis
  proof (unfold_locales, goal_cases)
    case 1
    from get_some [OF 1] show ?case by (auto simp: within_def on_part_def gp same)
  next
    case 2
    from get_none [OF 2] show ?case by (auto simp: within_def on_part_def gp same)
  next
    case (3 s t n ts v)
    from add_new [OF 3, of v] show ?case by (auto simp: within_def on_part_def gp same)
  next
    case (4 s t n r v ts)
    from add_old [OF 4, of v ts] show ?case by (auto simp: within_def on_part_def gp same)
  next
    case (5 s t n r v)
    from update_some [OF 5, of v] show ?case by (auto simp: within_def on_part_def gp same)
  next
    case (6 s t n v)
    from update_none [OF 6, of v] show ?case by (auto simp: within_def on_part_def gp same)
  next
    case (7 s t n r ts)
    from add_tags_some [OF 7, of ts] show ?case by (auto simp: within_def on_part_def gp same)
  next
    case (8 s t n ts)
    from add_tags_none [OF 8, of ts] show ?case by (auto simp: within_def on_part_def gp same)
  next
    case 9
    from update_tags_some [OF 9] show ?case by (auto simp: within_def on_part_def gp same)
  next
    case (10 s t n ts)
    from update_tags_none [OF 10, of ts] show ?case by (auto simp: within_def on_part_def gp same)
  next
    case (11 s t n r ns)
    from delete_tags_some [OF 11, of ns] show ?case by (auto simp: within_def on_part_def gp same)
  next
    case (12 s t n ns)
    from delete_tags_none [OF 12, of ns] show ?case by (auto simp: within_def on_part_def gp same)
  next
    case 13
    from delete_some [OF 13] show ?case by (auto simp: within_def on_part_def gp same)
  next
    case 14
    from delete_none [OF 14] show ?case by (auto simp: within_def on_part_def gp same)
  next
    case (15 s sopts so op cl t)
    from search_ok [OF 15, of t] y show ?case by (fastforce simp: within_def)
  next
    case (16 s sopts so t)
    from search_everything [OF 16, of t] y show ?case by (fastforce simp: within_def)
  next
    case 17
    from get_all_ok [OF 17] y show ?case by (fastforce simp: within_def)
  qed
qed

end

end
