(* ===== verification/Sqlite.thy ===== *)
theory Sqlite
  imports Wallet_Storage
begin

text \<open>
  The default storage (\<^verbatim>\<open>indy-wallet/src/storage/default/mod.rs\<close> and \<^verbatim>\<open>transaction.rs\<close>): the
  tables of its schema, each SQL statement it runs as a function on them, and the storage methods
  built from these statements. The engine that runs a \<^verbatim>\<open>SELECT\<close> given as text is SQLite and
  therefore a parameter; \<open>sql_engine\<close> is what the storage relies on. Row ids are unbounded. An item
  row is read when a search starts, its tags when the iterator reaches it.
\<close>

section \<open>Tables\<close>

record item =
  it_id :: int
  it_type :: bytes
  it_name :: bytes
  it_value :: bytes
  it_key :: bytes

text \<open>
  A tag table is keyed by its primary key, name and item id. \<open>db_foreign_keys\<close> is the setting of the
  connection: SQLite enforces foreign keys, and so the cascades of the schema, only where
  \<^verbatim>\<open>PRAGMA foreign_keys\<close> is on.
\<close>

type_synonym 'v tag_table = "((bytes \<times> int) \<times> 'v) list"

record db =
  db_metadata :: "bytes list"
  db_items :: "item list"
  db_etags :: "bytes tag_table"
  db_ptags :: "string tag_table"
  db_foreign_keys :: bool

datatype SqliteError = QueryReturnedNoRows | ConstraintViolation | SystemIoFailure | OtherSqliteError

fun from_rusqlite :: "SqliteError \<Rightarrow> IndyErrorKind" where
  "from_rusqlite QueryReturnedNoRows = WalletItemNotFound"
| "from_rusqlite ConstraintViolation = WalletItemAlreadyExists"
| "from_rusqlite SystemIoFailure = IOError"
| "from_rusqlite OtherSqliteError = InvalidState"

fun sqlite_result :: "SqliteError + 'a \<Rightarrow> 'a IndyResult" where
  "sqlite_result (Inl e) = Inl (Error (from_rusqlite e))"
| "sqlite_result (Inr x) = Inr x"

section \<open>Statements\<close>

definition is_item :: "bytes \<Rightarrow> bytes \<Rightarrow> item \<Rightarrow> bool" where
  "is_item t n r \<longleftrightarrow> it_type r = t \<and> it_name r = n"

text \<open>\<^verbatim>\<open>SELECT ... FROM items WHERE type = ?1 AND name = ?2\<close>\<close>

definition select_item :: "db \<Rightarrow> bytes \<Rightarrow> bytes \<Rightarrow> SqliteError + item" where
  "select_item d t n = ok_or (List.find (is_item t n) (db_items d)) QueryReturnedNoRows"

text \<open>An \<^verbatim>\<open>INTEGER PRIMARY KEY\<close> left out of an insert gets the largest row id plus one.\<close>

definition new_rowid :: "item list \<Rightarrow> int" where
  "new_rowid items = foldr (\<lambda>r m. max (it_id r) m) items 0 + 1"

text \<open>\<^verbatim>\<open>INSERT INTO items (type, name, value, key) VALUES (?1, ?2, ?3, ?4)\<close>\<close>

definition insert_item :: "db \<Rightarrow> bytes \<Rightarrow> bytes \<Rightarrow> bytes \<Rightarrow> bytes \<Rightarrow> SqliteError + db \<times> int" where
  "insert_item d t n v k =
    (if list_ex (is_item t n) (db_items d) then Inl ConstraintViolation
     else let i = new_rowid (db_items d) in
       Inr (d\<lparr>db_items := db_items d @ [\<lparr> it_id = i, it_type = t, it_name = n, it_value = v, it_key = k \<rparr>]\<rparr>, i))"

definition fk_ok :: "db \<Rightarrow> int \<Rightarrow> bool" where
  "fk_ok d i \<longleftrightarrow> db_foreign_keys d \<longrightarrow> list_ex (\<lambda>r. it_id r = i) (db_items d)"

text \<open>\<^verbatim>\<open>INSERT\<close> and \<^verbatim>\<open>INSERT OR REPLACE INTO tags_...  (item_id, name, value)\<close>\<close>

definition insert_row :: "(bytes \<times> int) \<Rightarrow> 'v \<Rightarrow> 'v tag_table \<Rightarrow> SqliteError + 'v tag_table" where
  "insert_row k v rows = (if list_ex (\<lambda>r. fst r = k) rows then Inl ConstraintViolation else Inr (rows @ [(k, v)]))"

definition replace_row :: "(bytes \<times> int) \<Rightarrow> 'v \<Rightarrow> 'v tag_table \<Rightarrow> SqliteError + 'v tag_table" where
  "replace_row k v rows = Inr ([r \<leftarrow> rows. fst r \<noteq> k] @ [(k, v)])"

fun insert_tag :: "bool \<Rightarrow> int \<Rightarrow> Tag \<Rightarrow> db \<Rightarrow> SqliteError + db" where
  "insert_tag replace i (Encrypted n v) d =
    (if \<not> fk_ok d i then Inl ConstraintViolation
     else bindr ((if replace then replace_row else insert_row) (n, i) v (db_etags d)) (\<lambda>rows.
       Inr (d\<lparr>db_etags := rows\<rparr>)))"
| "insert_tag replace i (PlainText n v) d =
    (if \<not> fk_ok d i then Inl ConstraintViolation
     else bindr ((if replace then replace_row else insert_row) (n, i) v (db_ptags d)) (\<lambda>rows.
       Inr (d\<lparr>db_ptags := rows\<rparr>)))"

fun insert_tags :: "bool \<Rightarrow> int \<Rightarrow> Tag list \<Rightarrow> db \<Rightarrow> SqliteError + db" where
  "insert_tags replace i [] d = Inr d"
| "insert_tags replace i (t # ts) d = bindr (insert_tag replace i t d) (insert_tags replace i ts)"

text \<open>\<^verbatim>\<open>DELETE FROM tags_... WHERE item_id = ?1 [AND name = ?2]\<close>\<close>

definition delete_item_tags :: "int \<Rightarrow> db \<Rightarrow> db" where
  "delete_item_tags i d = d\<lparr>db_etags := [r \<leftarrow> db_etags d. snd (fst r) \<noteq> i],
                              db_ptags := [r \<leftarrow> db_ptags d. snd (fst r) \<noteq> i]\<rparr>"

fun delete_tag :: "int \<Rightarrow> TagName \<Rightarrow> db \<Rightarrow> db" where
  "delete_tag i (OfEncrypted n) d = d\<lparr>db_etags := [r \<leftarrow> db_etags d. fst r \<noteq> (n, i)]\<rparr>"
| "delete_tag i (OfPlain n) d = d\<lparr>db_ptags := [r \<leftarrow> db_ptags d. fst r \<noteq> (n, i)]\<rparr>"

text \<open>\<^verbatim>\<open>DELETE FROM items WHERE ...\<close> with \<^verbatim>\<open>ON DELETE CASCADE\<close>, and its row count\<close>

definition delete_items :: "db \<Rightarrow> bytes \<Rightarrow> bytes \<Rightarrow> db \<times> nat" where
  "delete_items d t n =
    (let gone = [r \<leftarrow> db_items d. is_item t n r];
         d' = d\<lparr>db_items := [r \<leftarrow> db_items d. \<not> is_item t n r]\<rparr>
     in (if db_foreign_keys d then fold delete_item_tags (map it_id gone) d' else d', length gone))"

section \<open>Transactions (transaction.rs)\<close>

datatype DropBehavior = Rollback | Commit | Ignore

text \<open>
  An open transaction: the state of the connection, the state it would go back to, and the fields
  of the struct. \<open>finish\<close> is also what \<^verbatim>\<open>Drop\<close> runs.
\<close>

record transaction =
  tx_now :: db
  tx_start :: db
  tx_drop :: DropBehavior
  tx_committed :: bool

definition tx_new :: "db \<Rightarrow> transaction" where
  "tx_new d = \<lparr> tx_now = d, tx_start = d, tx_drop = Rollback, tx_committed = False \<rparr>"

definition tx_commit :: "transaction \<Rightarrow> transaction" where
  "tx_commit tx = tx\<lparr>tx_committed := True, tx_start := tx_now tx\<rparr>"

definition tx_rollback :: "transaction \<Rightarrow> transaction" where
  "tx_rollback tx = tx\<lparr>tx_committed := True, tx_now := tx_start tx\<rparr>"

definition tx_finish :: "transaction \<Rightarrow> transaction" where
  "tx_finish tx =
    (if tx_committed tx then tx
     else case tx_drop tx of Commit \<Rightarrow> tx_commit tx | Rollback \<Rightarrow> tx_rollback tx | Ignore \<Rightarrow> tx)"

text \<open>
  A method body of the form \<^verbatim>\<open>let tx = Transaction::new(..)?; ...?; tx.commit()?; Ok(())\<close>: the
  statements run inside, an error leaves through \<^verbatim>\<open>Drop\<close>.
\<close>

definition in_transaction :: "db \<Rightarrow> (db \<Rightarrow> SqliteError + db) \<Rightarrow> db \<times> unit IndyResult" where
  "in_transaction d body =
    (let tx = tx_new d in
     case body (tx_now tx) of
       Inr d' \<Rightarrow> (tx_now (tx_finish (tx_commit (tx\<lparr>tx_now := d'\<rparr>))), Inr ())
     | Inl e \<Rightarrow> (tx_now (tx_finish tx), Inl (Error (from_rusqlite e))))"

section \<open>The storage methods\<close>

definition item_etags :: "db \<Rightarrow> int \<Rightarrow> Tag list" where
  "item_etags d i = [Encrypted (fst (fst r)) (snd r). r \<leftarrow> db_etags d, snd (fst r) = i]"

definition item_ptags :: "db \<Rightarrow> int \<Rightarrow> Tag list" where
  "item_ptags d i = [PlainText (fst (fst r)) (snd r). r \<leftarrow> db_ptags d, snd (fst r) = i]"

text \<open>\<^verbatim>\<open>TagRetriever::retrieve\<close>: plain tags first; \<open>get\<close> reads the encrypted ones first.\<close>

definition retrieve :: "db \<Rightarrow> int \<Rightarrow> Tag list" where
  "retrieve d i = item_ptags d i @ item_etags d i"

definition sqlite_get :: "options_serde \<Rightarrow> db \<Rightarrow> bytes \<Rightarrow> bytes \<Rightarrow> string \<Rightarrow> StorageRecord IndyResult" where
  "sqlite_get j d t n options =
    bindr (record_options_of j options) (\<lambda>opt.
    bindr (sqlite_result (select_item d t n)) (\<lambda>r.
      Inr \<lparr> sr_id = n,
             sr_value = (if retrieve_value opt then Some \<lparr> ev_data = it_value r, ev_key = it_key r \<rparr> else None),
             sr_type = (if retrieve_type opt then Some t else None),
             sr_tags = (if retrieve_tags opt then Some (item_etags d (it_id r) @ item_ptags d (it_id r)) else None) \<rparr>))"

definition sqlite_add :: "db \<Rightarrow> bytes \<Rightarrow> bytes \<Rightarrow> EncryptedValue \<Rightarrow> Tag list \<Rightarrow> db \<times> unit IndyResult" where
  "sqlite_add d t n v ts = in_transaction d (\<lambda>d.
    bindr (insert_item d t n (ev_data v) (ev_key v)) (\<lambda>(d', i). insert_tags False i ts d'))"

definition sqlite_update :: "db \<Rightarrow> bytes \<Rightarrow> bytes \<Rightarrow> EncryptedValue \<Rightarrow> db \<times> unit IndyResult" where
  "sqlite_update d t n v =
    (let rows = length [r \<leftarrow> db_items d. is_item t n r];
         d' = d\<lparr>db_items := map (\<lambda>r. if is_item t n r then r\<lparr>it_value := ev_data v, it_key := ev_key v\<rparr> else r) (db_items d)\<rparr>
     in (d', if rows = 1 then Inr () else if rows = 0 then Inl (Error WalletItemNotFound)
             else Inl (Error InvalidState)))"

definition sqlite_add_tags :: "db \<Rightarrow> bytes \<Rightarrow> bytes \<Rightarrow> Tag list \<Rightarrow> db \<times> unit IndyResult" where
  "sqlite_add_tags d t n ts = in_transaction d (\<lambda>d.
    bindr (select_item d t n) (\<lambda>r. insert_tags True (it_id r) ts d))"

definition sqlite_update_tags :: "db \<Rightarrow> bytes \<Rightarrow> bytes \<Rightarrow> Tag list \<Rightarrow> db \<times> unit IndyResult" where
  "sqlite_update_tags d t n ts = in_transaction d (\<lambda>d.
    bindr (select_item d t n) (\<lambda>r. insert_tags False (it_id r) ts (delete_item_tags (it_id r) d)))"

definition sqlite_delete_tags :: "db \<Rightarrow> bytes \<Rightarrow> bytes \<Rightarrow> TagName list \<Rightarrow> db \<times> unit IndyResult" where
  "sqlite_delete_tags d t n ns =
    (case sqlite_result (select_item d t n) of
       Inl e \<Rightarrow> (d, Inl e)
     | Inr r \<Rightarrow> in_transaction d (\<lambda>d. Inr (fold (delete_tag (it_id r)) ns d)))"

definition sqlite_delete :: "db \<Rightarrow> bytes \<Rightarrow> bytes \<Rightarrow> db \<times> unit IndyResult" where
  "sqlite_delete d t n =
    (let (d', row_count) = delete_items d t n
     in (d', if row_count = 1 then Inr () else Inl (Error WalletItemNotFound)))"

definition sqlite_get_storage_metadata :: "db \<Rightarrow> bytes IndyResult" where
  "sqlite_get_storage_metadata d =
    (case db_metadata d of [] \<Rightarrow> Inl (Error (from_rusqlite QueryReturnedNoRows)) | m # _ \<Rightarrow> Inr m)"

definition sqlite_set_storage_metadata :: "db \<Rightarrow> bytes \<Rightarrow> db \<times> unit IndyResult" where
  "sqlite_set_storage_metadata d m = (d\<lparr>db_metadata := map (\<lambda>_. m) (db_metadata d)\<rparr>, Inr ())"

section \<open>Searching\<close>

text \<open>
  \<open>select\<close> and \<open>select_count\<close> run a statement given as text with its arguments; \<open>None\<close> if the engine
  rejects the text.
\<close>

record engine =
  run_select :: "db \<Rightarrow> string \<Rightarrow> ToSql list \<Rightarrow> item list option"
  run_count :: "db \<Rightarrow> string \<Rightarrow> ToSql list \<Rightarrow> nat option"

record SQLiteStorageIterator =
  si_rows :: "item list option"
  si_tag_retriever :: bool
  si_options :: RecordOptions
  si_total_count :: "nat option"

definition sqlite_next :: "db \<Rightarrow> SQLiteStorageIterator \<Rightarrow> SQLiteStorageIterator \<times> StorageRecord option IndyResult" where
  "sqlite_next d it =
    (case si_rows it of
       None \<Rightarrow> (it, Inr None)
     | Some [] \<Rightarrow> (it, Inr None)
     | Some (r # rows) \<Rightarrow>
         let it' = it\<lparr>si_rows := Some rows\<rparr>; opt = si_options it in
         if retrieve_tags opt \<and> \<not> si_tag_retriever it then (it', Inl (Error InvalidState))
         else (it', Inr (Some \<lparr> sr_id = it_name r,
           sr_value = (if retrieve_value opt then Some \<lparr> ev_data = it_value r, ev_key = it_key r \<rparr> else None),
           sr_type = (if retrieve_type opt then Some (it_type r) else None),
           sr_tags = (if retrieve_tags opt then Some (retrieve d (it_id r)) else None) \<rparr>)))"

definition sqlite_total_count :: "SQLiteStorageIterator \<Rightarrow> nat option IndyResult" where
  "sqlite_total_count it = Inr (si_total_count it)"

definition sqlite_get_all :: "db \<Rightarrow> SQLiteStorageIterator IndyResult" where
  "sqlite_get_all d = Inr \<lparr> si_rows = Some (db_items d), si_tag_retriever = True, si_options = all_options,
     si_total_count = None \<rparr>"

definition sqlite_search ::
  "engine \<Rightarrow> options_serde \<Rightarrow> bool \<Rightarrow> db \<Rightarrow> bytes \<Rightarrow> Operator \<Rightarrow> string option \<Rightarrow> SQLiteStorageIterator IndyResult" where
  "sqlite_search E j chk d t query options =
    bindr (search_options_of j options) (\<lambda>search_options.
    bindr (if so_total_count search_options then
             bindr (wql_to_sql_count chk t query) (\<lambda>(query_string, query_arguments).
             bindr (ok_or (run_count E d query_string query_arguments) (Error (from_rusqlite OtherSqliteError)))
               (\<lambda>x. Inr (Some x)))
           else Inr None) (\<lambda>total_count.
    if so_records search_options then
      bindr (wql_to_sql chk t query) (\<lambda>(query_string, query_arguments).
      bindr (ok_or (run_select E d query_string query_arguments) (Error (from_rusqlite OtherSqliteError))) (\<lambda>rows.
        Inr \<lparr> si_rows = Some rows, si_tag_retriever = so_tags search_options,
               si_options = fetch_options search_options, si_total_count = total_count \<rparr>))
    else Inr \<lparr> si_rows = None, si_tag_retriever = False, si_options = record_options_default,
               si_total_count = total_count \<rparr>))"

definition sqlite_close :: "db \<Rightarrow> db \<times> unit IndyResult" where
  "sqlite_close d = (d, Inr ())"

definition SQLiteStorage :: "engine \<Rightarrow> options_serde \<Rightarrow> bool \<Rightarrow> (db, SQLiteStorageIterator) WalletStorage" where
  "SQLiteStorage E j chk = \<lparr>
     st_get = sqlite_get j, st_add = sqlite_add, st_update = sqlite_update,
     st_add_tags = sqlite_add_tags, st_update_tags = sqlite_update_tags, st_delete_tags = sqlite_delete_tags,
     st_delete = sqlite_delete, st_get_storage_metadata = sqlite_get_storage_metadata,
     st_set_storage_metadata = sqlite_set_storage_metadata, st_get_all = sqlite_get_all,
     st_search = sqlite_search E j chk, st_next = sqlite_next, st_total_count = sqlite_total_count,
     st_close = sqlite_close \<rparr>"

section \<open>Database files\<close>

text \<open>
  The file system: paths name files, and a removed file lives on for the connections that have it
  open. A connection is the number of its file. \<^verbatim>\<open>PathBuf::push\<close> of an absolute component replaces
  the path. \<open>fs_default\<close> is the foreign key setting a new connection starts with: a build option of
  the SQLite library (off unless chosen), since \<^verbatim>\<open>open_storage\<close>, other than the schema script, does
  not set it. Failures of the file system itself are not modelled.
\<close>

record files =
  fs_paths :: "string \<Rightarrow> nat option"
  fs_dbs :: "nat \<Rightarrow> db"
  fs_next :: nat
  fs_home :: string
  fs_default :: bool

definition path_push :: "string \<Rightarrow> string \<Rightarrow> string" where
  "path_push p s =
    (if s \<noteq> [] \<and> hd s = CHR ''/'' then s
     else if p = [] \<or> last p = CHR ''/'' then p @ s else p @ ''/'' @ s)"

definition db_dir :: "files \<Rightarrow> string \<Rightarrow> string option option \<Rightarrow> string" where
  "db_dir fs wid config = path_push (case config of Some (Some path) \<Rightarrow> path | _ \<Rightarrow> fs_home fs) wid"

definition db_path :: "files \<Rightarrow> string \<Rightarrow> string option option \<Rightarrow> string" where
  "db_path fs wid config = path_push (db_dir fs wid config) ''sqlite.db''"

text \<open>\<open>parse_config\<close> is serde on the configuration: its optional path.\<close>

definition config_of :: "(string \<Rightarrow> string option option) \<Rightarrow> string option \<Rightarrow> string option option IndyResult" where
  "config_of parse_config config =
    (case config of
       None \<Rightarrow> Inr None
     | Some s \<Rightarrow> (case parse_config s of None \<Rightarrow> Inl (Error InvalidStructure) | Some path \<Rightarrow> Inr (Some path)))"

definition empty_db :: "bytes \<Rightarrow> db" where
  "empty_db metadata = \<lparr> db_metadata = [metadata], db_items = [], db_etags = [], db_ptags = [], db_foreign_keys = True \<rparr>"

definition create_storage ::
  "(string \<Rightarrow> string option option) \<Rightarrow> files \<Rightarrow> string \<Rightarrow> string option \<Rightarrow> bytes \<Rightarrow> files \<times> unit IndyResult" where
  "create_storage parse_config fs wid config metadata =
    (case config_of parse_config config of
       Inl e \<Rightarrow> (fs, Inl e)
     | Inr cfg \<Rightarrow>
         let p = db_path fs wid cfg in
         if fs_paths fs p \<noteq> None then (fs, Inl (Error WalletAlreadyExists))
         else (fs\<lparr>fs_paths := (fs_paths fs)(p \<mapsto> fs_next fs), fs_dbs := (fs_dbs fs)(fs_next fs := empty_db metadata),
                  fs_next := Suc (fs_next fs)\<rparr>, Inr ()))"

definition open_storage ::
  "(string \<Rightarrow> string option option) \<Rightarrow> files \<Rightarrow> string \<Rightarrow> string option \<Rightarrow> files \<times> nat IndyResult" where
  "open_storage parse_config fs wid config =
    (case config_of parse_config config of
       Inl e \<Rightarrow> (fs, Inl e)
     | Inr cfg \<Rightarrow>
         (case fs_paths fs (db_path fs wid cfg) of
            None \<Rightarrow> (fs, Inl (Error WalletNotFound))
          | Some i \<Rightarrow> (fs\<lparr>fs_dbs := (fs_dbs fs)(i := (fs_dbs fs i)\<lparr>db_foreign_keys := fs_default fs\<rparr>)\<rparr>, Inr i)))"

text \<open>
  \<^verbatim>\<open>remove_dir_all\<close> of the parent of the database file takes everything below it; the parent of a bare
  file name is the empty path, which cannot be removed. Paths are compared as text.
\<close>

definition parent_dir :: "string \<Rightarrow> string" where
  "parent_dir p = take (length p - length ''sqlite.db'') p"

definition below :: "string \<Rightarrow> string \<Rightarrow> bool" where
  "below dir p \<longleftrightarrow> take (length dir) p = dir"

definition delete_storage ::
  "(string \<Rightarrow> string option option) \<Rightarrow> files \<Rightarrow> string \<Rightarrow> string option \<Rightarrow> files \<times> unit IndyResult" where
  "delete_storage parse_config fs wid config =
    (case config_of parse_config config of
       Inl e \<Rightarrow> (fs, Inl e)
     | Inr cfg \<Rightarrow>
         let p = db_path fs wid cfg in
         if fs_paths fs p = None then (fs, Inl (Error WalletNotFound))
         else if parent_dir p = [] then (fs, Inl (Error IOError))
         else (fs\<lparr>fs_paths := (\<lambda>q. if below (parent_dir p) q then None else fs_paths fs q)\<rparr>, Inr ()))"

lemma db_path_below: "below (parent_dir (db_path fs wid cfg)) (db_path fs wid cfg)"
  by (cases "db_path fs wid cfg") (simp_all add: below_def parent_dir_def min_def)

section \<open>Invariant and abstraction\<close>

text \<open>
  The constraints of the schema: unique row ids, unique (type, name), primary keys of the tag tables and
  their foreign keys, on a connection that enforces them.
\<close>

definition tags_inv :: "db \<Rightarrow> bool" where
  "tags_inv d \<longleftrightarrow> distinct (map fst (db_etags d)) \<and> distinct (map fst (db_ptags d)) \<and>
    (\<forall>r\<in>set (db_etags d). snd (fst r) \<in> it_id ` set (db_items d)) \<and>
    (\<forall>r\<in>set (db_ptags d). snd (fst r) \<in> it_id ` set (db_items d))"

definition items_inv :: "item list \<Rightarrow> bool" where
  "items_inv items \<longleftrightarrow> distinct (map it_id items) \<and> distinct (map (\<lambda>r. (it_type r, it_name r)) items)"

text \<open>The constraints of the schema, on a connection that enforces foreign keys or does not.\<close>

definition schema_inv :: "db \<Rightarrow> bool" where
  "schema_inv d \<longleftrightarrow> items_inv (db_items d) \<and> tags_inv d"

definition db_inv :: "bool \<Rightarrow> db \<Rightarrow> bool" where
  "db_inv fk d \<longleftrightarrow> db_foreign_keys d = fk \<and> schema_inv d"

lemmas db_inv_defs = db_inv_def schema_inv_def

definition item_value :: "item \<Rightarrow> EncryptedValue" where
  "item_value r = \<lparr> ev_data = it_value r, ev_key = it_key r \<rparr>"

definition tag_view :: "db \<Rightarrow> int \<Rightarrow> EncryptedValue \<Rightarrow> stored" where
  "tag_view d i v = \<lparr> stored_value = v, stored_etags = (\<lambda>m. map_of (db_etags d) (m, i)),
     stored_ptags = (\<lambda>m. map_of (db_ptags d) (m, i)) \<rparr>"

definition db_store :: "db \<Rightarrow> store" where
  "db_store d k = map_option (\<lambda>r. tag_view d (it_id r) (item_value r))
     (List.find (is_item (fst k) (snd k)) (db_items d))"

lemma find_is_item:
  assumes "items_inv items"
  shows "List.find (is_item t n) items = Some r \<longleftrightarrow> r \<in> set items \<and> is_item t n r"
  using assms
proof (induction items)
  case (Cons a items)
  then show ?case
    by (auto simp: items_inv_def is_item_def image_iff)
qed (simp add: items_inv_def)

lemma find_is_item_None: "List.find (is_item t n) items = None \<longleftrightarrow> \<not> list_ex (is_item t n) items"
  by (auto simp: find_None_iff list_ex_iff)

lemma new_rowid_fresh: "r \<in> set items \<Longrightarrow> it_id r < new_rowid items"
proof -
  have "r \<in> set items \<Longrightarrow> it_id r \<le> foldr (\<lambda>r m. max (it_id r) m) items 0"
    by (induction items) auto
  then show "r \<in> set items \<Longrightarrow> it_id r < new_rowid items" by (simp add: new_rowid_def)
qed

lemma map_of_snoc: "k \<notin> fst ` set rows \<Longrightarrow> map_of (rows @ [(k, v)]) = (map_of rows)(k \<mapsto> v)"
  by (auto simp: fun_eq_iff map_add_def dom_map_of_conv_image_fst [symmetric] split: option.splits)

lemma map_of_filter_key: "map_of [r \<leftarrow> rows. P (fst r)] = (\<lambda>k. if P k then map_of rows k else None)"
  by (induction rows) (auto simp: fun_eq_iff)

lemma distinct_fst_filter: "distinct (map fst rows) \<Longrightarrow> distinct (map fst (filter P rows))"
  by (simp add: distinct_map_filter)

text \<open>Inserting one tag updates the view of its item and no other.\<close>

lemma put_row:
  assumes "distinct (map fst rows)" and "repl \<or> map_of rows k = None"
  shows "\<exists>rows'. (if repl then replace_row else insert_row) k v rows = Inr rows' \<and> distinct (map fst rows')
    \<and> map_of rows' = (map_of rows)(k \<mapsto> v) \<and> fst ` set rows' \<subseteq> insert k (fst ` set rows)"
proof (cases repl)
  case True
  have "map_of ([r \<leftarrow> rows. fst r \<noteq> k] @ [(k, v)]) = (map_of rows)(k \<mapsto> v)"
    by (subst map_of_snoc) (auto simp: map_of_filter_key [of "\<lambda>x. x \<noteq> k"] fun_eq_iff)
  with True assms(1) show ?thesis
    by (auto simp: replace_row_def distinct_map_filter)
next
  case False
  then have "k \<notin> fst ` set rows" using assms(2) by (simp add: map_of_eq_None_iff)
  with False assms(1) show ?thesis
    using map_of_snoc [of k rows v] by (auto simp: insert_row_def list_ex_iff simp del: map_of_append)
qed

lemma put_row_ids:
  assumes "fst ` set rows' \<subseteq> insert (n, i) (fst ` set rows)" and "i \<in> I" and "\<forall>r\<in>set rows. snd (fst r) \<in> I"
  shows "\<forall>r\<in>set rows'. snd (fst r) \<in> I"
proof
  fix r assume "r \<in> set rows'"
  then have "fst r = (n, i) \<or> fst r \<in> fst ` set rows" using assms(1) by blast
  then show "snd (fst r) \<in> I" using assms(2,3) by (elim disjE imageE) simp_all
qed

fun tag_absent :: "Tag \<Rightarrow> stored \<Rightarrow> bool" where
  "tag_absent (Encrypted n _) r \<longleftrightarrow> stored_etags r n = None"
| "tag_absent (PlainText n _) r \<longleftrightarrow> stored_ptags r n = None"

text \<open>\<open>same_tables d d'\<close>: only tags of item \<open>i\<close> differ.\<close>

definition only_tags :: "int \<Rightarrow> db \<Rightarrow> db \<Rightarrow> bool" where
  "only_tags i d d' \<longleftrightarrow> db_items d' = db_items d \<and> db_foreign_keys d' = db_foreign_keys d \<and>
    db_metadata d' = db_metadata d \<and> (\<forall>k v. k \<noteq> i \<longrightarrow> tag_view d' k v = tag_view d k v)"

lemma only_tags_trans: "only_tags i d d' \<Longrightarrow> only_tags i d' d'' \<Longrightarrow> only_tags i d d''"
  by (simp add: only_tags_def)

lemma insert_tag_ok:
  assumes inv: "tags_inv d" and i: "i \<in> it_id ` set (db_items d)"
    and ab: "\<not> repl \<Longrightarrow> tag_absent t (tag_view d i v0)"
  shows "\<exists>d'. insert_tag repl i t d = Inr d' \<and> tags_inv d' \<and> only_tags i d d' \<and>
    (\<forall>v. tag_view d' i v = put_tag t (tag_view d i v))"
proof -
  have fk: "fk_ok d i" using i by (auto simp: fk_ok_def list_ex_iff)
  show ?thesis
  proof (cases t)
    case (Encrypted n w)
    have "repl \<or> map_of (db_etags d) (n, i) = None" using ab by (cases repl) (simp_all add: Encrypted tag_view_def)
    moreover have "distinct (map fst (db_etags d))" using inv by (simp add: tags_inv_def)
    ultimately have "\<exists>rows'. (if repl then replace_row else insert_row) (n, i) w (db_etags d) = Inr rows' \<and>
      distinct (map fst rows') \<and> map_of rows' = (map_of (db_etags d))((n, i) \<mapsto> w) \<and>
      fst ` set rows' \<subseteq> insert (n, i) (fst ` set (db_etags d))"
      by (intro put_row)
    then obtain rows where rows:
      "(if repl then replace_row else insert_row) (n, i) w (db_etags d) = Inr rows"
      "distinct (map fst rows)" "map_of rows = (map_of (db_etags d))((n, i) \<mapsto> w)"
      "fst ` set rows \<subseteq> insert (n, i) (fst ` set (db_etags d))"
      by (elim exE conjE)
    have ids: "\<forall>r\<in>set rows. snd (fst r) \<in> it_id ` set (db_items d)"
      using inv by (intro put_row_ids [OF rows(4) i]) (simp add: tags_inv_def)
    let ?d = "d\<lparr>db_etags := rows\<rparr>"
    have "insert_tag repl i t d = Inr ?d" using fk rows(1) by (simp add: Encrypted)
    moreover have "tags_inv ?d" using ids rows(2) inv by (simp add: tags_inv_def)
    moreover have "only_tags i d ?d" using rows(3) by (simp add: only_tags_def tag_view_def)
    moreover have "\<forall>v. tag_view ?d i v = put_tag t (tag_view d i v)"
      using rows(3) by (auto simp: Encrypted tag_view_def fun_eq_iff)
    ultimately show ?thesis by (intro exI [of _ ?d] conjI)
  next
    case (PlainText n w)
    have "repl \<or> map_of (db_ptags d) (n, i) = None" using ab by (cases repl) (simp_all add: PlainText tag_view_def)
    moreover have "distinct (map fst (db_ptags d))" using inv by (simp add: tags_inv_def)
    ultimately have "\<exists>rows'. (if repl then replace_row else insert_row) (n, i) w (db_ptags d) = Inr rows' \<and>
      distinct (map fst rows') \<and> map_of rows' = (map_of (db_ptags d))((n, i) \<mapsto> w) \<and>
      fst ` set rows' \<subseteq> insert (n, i) (fst ` set (db_ptags d))"
      by (intro put_row)
    then obtain rows where rows:
      "(if repl then replace_row else insert_row) (n, i) w (db_ptags d) = Inr rows"
      "distinct (map fst rows)" "map_of rows = (map_of (db_ptags d))((n, i) \<mapsto> w)"
      "fst ` set rows \<subseteq> insert (n, i) (fst ` set (db_ptags d))"
      by (elim exE conjE)
    have ids: "\<forall>r\<in>set rows. snd (fst r) \<in> it_id ` set (db_items d)"
      using inv by (intro put_row_ids [OF rows(4) i]) (simp add: tags_inv_def)
    let ?d = "d\<lparr>db_ptags := rows\<rparr>"
    have "insert_tag repl i t d = Inr ?d" using fk rows(1) by (simp add: PlainText)
    moreover have "tags_inv ?d" using ids rows(2) inv by (simp add: tags_inv_def)
    moreover have "only_tags i d ?d" using rows(3) by (simp add: only_tags_def tag_view_def)
    moreover have "\<forall>v. tag_view ?d i v = put_tag t (tag_view d i v)"
      using rows(3) by (auto simp: PlainText tag_view_def fun_eq_iff)
    ultimately show ?thesis by (intro exI [of _ ?d] conjI)
  qed
qed

lemma tag_absent_put: "tag_name_of s \<noteq> tag_name_of t \<Longrightarrow> tag_absent s (put_tag t r) \<longleftrightarrow> tag_absent s r"
  by (cases s; cases t) auto

lemma insert_tags_ok:
  "tags_inv d \<Longrightarrow> i \<in> it_id ` set (db_items d) \<Longrightarrow>
   (\<not> repl \<Longrightarrow> distinct (map tag_name_of ts) \<and> (\<forall>t\<in>set ts. tag_absent t (tag_view d i v0))) \<Longrightarrow>
   \<exists>d'. insert_tags repl i ts d = Inr d' \<and> tags_inv d' \<and> only_tags i d d' \<and>
     (\<forall>v. tag_view d' i v = fold put_tag ts (tag_view d i v))"
proof (induction ts arbitrary: d)
  case Nil
  then show ?case by (simp add: only_tags_def)
next
  case (Cons t ts)
  obtain d1 where d1: "insert_tag repl i t d = Inr d1" "tags_inv d1" "only_tags i d d1"
    "\<And>v. tag_view d1 i v = put_tag t (tag_view d i v)"
    using insert_tag_ok [OF Cons.prems(1,2), of repl t v0] Cons.prems(3) by auto
  have "\<not> repl \<Longrightarrow> distinct (map tag_name_of ts) \<and> (\<forall>s\<in>set ts. tag_absent s (tag_view d1 i v0))"
    using Cons.prems(3) by (auto simp: d1(4) tag_absent_put image_iff)
  from Cons.IH [OF d1(2) _ this] obtain d2 where "insert_tags repl i ts d1 = Inr d2" "tags_inv d2" "only_tags i d1 d2"
    "\<And>v. tag_view d2 i v = fold put_tag ts (tag_view d1 i v)"
    using d1(3) Cons.prems(2) by (auto simp: only_tags_def)
  then show ?case using d1 by (auto intro: only_tags_trans)
qed

lemma in_transaction_simps:
  "body d = Inr d' \<Longrightarrow> in_transaction d body = (d', Inr ())"
  "body d = Inl e \<Longrightarrow> in_transaction d body = (d, Inl (Error (from_rusqlite e)))"
  by (simp_all add: in_transaction_def tx_new_def tx_commit_def tx_finish_def tx_rollback_def)

lemma db_store_Some:
  "db_inv fk d \<Longrightarrow> db_store d (t, n) = Some r \<longleftrightarrow>
    (\<exists>x\<in>set (db_items d). is_item t n x \<and> r = tag_view d (it_id x) (item_value x))"
  by (auto simp: db_store_def db_inv_defs find_is_item)

lemma select_item_Some:
  "db_inv fk d \<Longrightarrow> x \<in> set (db_items d) \<Longrightarrow> is_item t n x \<Longrightarrow> select_item d t n = Inr x"
  by (simp add: select_item_def db_inv_defs find_is_item)

lemma db_store_None:
  "db_store d (t, n) = None \<longleftrightarrow> \<not> list_ex (is_item t n) (db_items d)"
  by (simp add: db_store_def find_is_item_None)

lemma select_item_None: "db_store d (t, n) = None \<Longrightarrow> select_item d t n = Inl QueryReturnedNoRows"
  by (simp add: select_item_def db_store_def)

text \<open>Changing the tags of one item changes one entry of the store.\<close>

lemma item_id_inj:
  "items_inv items \<Longrightarrow> x \<in> set items \<Longrightarrow> y \<in> set items \<Longrightarrow> it_id x = it_id y \<Longrightarrow> x = y"
  by (auto simp: items_inv_def distinct_map inj_on_def)

lemma item_key_inj:
  "items_inv items \<Longrightarrow> x \<in> set items \<Longrightarrow> y \<in> set items \<Longrightarrow> is_item t n x \<Longrightarrow> is_item t n y \<Longrightarrow> x = y"
  by (auto simp: items_inv_def distinct_map inj_on_def is_item_def)

lemma only_tags_store:
  assumes inv: "db_inv fk d" and x: "x \<in> set (db_items d)" "is_item t n x" and o: "only_tags (it_id x) d d'"
    and v: "tag_view d' (it_id x) (item_value x) = r"
  shows "db_store d' = (db_store d)((t, n) \<mapsto> r)"
proof
  fix k
  have items: "db_items d' = db_items d" and iv: "items_inv (db_items d)"
    using o inv by (simp_all add: only_tags_def db_inv_defs)
  show "db_store d' k = ((db_store d)((t, n) \<mapsto> r)) k"
  proof (cases "k = (t, n)")
    case True
    have "List.find (is_item t n) (db_items d) = Some x" using x iv by (simp add: find_is_item)
    then show ?thesis by (simp add: True db_store_def items v)
  next
    case False
    have "tag_view d' (it_id y) (item_value y) = tag_view d (it_id y) (item_value y)"
      if "List.find (is_item (fst k) (snd k)) (db_items d) = Some y" for y
    proof -
      have y: "y \<in> set (db_items d)" "is_item (fst k) (snd k) y"
        using that iv by (simp_all add: find_is_item)
      then have "x \<noteq> y" using False x(2) by (auto simp: is_item_def prod_eq_iff)
      then have "it_id y \<noteq> it_id x" using item_id_inj [OF iv] x(1) y(1) by metis
      then show ?thesis using o by (simp add: only_tags_def)
    qed
    then show ?thesis using False by (simp add: db_store_def items split: option.split cong: map_option_cong)
  qed
qed

section \<open>The methods against the abstraction\<close>

lemma db_inv_only_tags: "db_inv fk d \<Longrightarrow> only_tags i d d' \<Longrightarrow> tags_inv d' \<Longrightarrow> db_inv fk d'"
  by (simp add: db_inv_defs only_tags_def)

lemma sqlite_add_tags_ok:
  assumes inv: "db_inv fk d" and x: "x \<in> set (db_items d)" "is_item t n x"
  shows "\<exists>d'. sqlite_add_tags d t n ts = (d', Inr ()) \<and> db_inv fk d' \<and>
    db_store d' = (db_store d)((t, n) \<mapsto> fold put_tag ts (tag_view d (it_id x) (item_value x)))"
proof -
  have ti: "tags_inv d" using inv by (simp add: db_inv_defs)
  obtain d' where d': "insert_tags True (it_id x) ts d = Inr d'" "tags_inv d'" "only_tags (it_id x) d d'"
    "\<And>v. tag_view d' (it_id x) v = fold put_tag ts (tag_view d (it_id x) v)"
    using insert_tags_ok [OF ti, of "it_id x" True ts] x by auto
  then show ?thesis
    using select_item_Some [OF inv x] only_tags_store [OF inv x d'(3)] db_inv_only_tags [OF inv]
    by (intro exI [of _ d']) (simp add: sqlite_add_tags_def in_transaction_simps)
qed

lemma map_of_no_item: "map_of [r \<leftarrow> rows. snd (fst r) \<noteq> i] (m, i) = None"
  using map_of_filter_key [of "\<lambda>k. snd k \<noteq> i" rows] by simp

lemma map_of_other_item: "k \<noteq> i \<Longrightarrow> map_of [r \<leftarrow> rows. snd (fst r) \<noteq> i] (m, k) = map_of rows (m, k)"
  using map_of_filter_key [of "\<lambda>k. snd k \<noteq> i" rows] by simp

lemma delete_item_tags_view [simp]:
  "tag_view (delete_item_tags i d) i v = bare v"
  "k \<noteq> i \<Longrightarrow> tag_view (delete_item_tags i d) k v = tag_view d k v"
  by (simp_all add: delete_item_tags_def tag_view_def bare_def map_of_no_item map_of_other_item)

lemma delete_item_tags_inv [simp]:
  "tags_inv d \<Longrightarrow> tags_inv (delete_item_tags i d)"
  "only_tags i d (delete_item_tags i d)"
  "db_items (delete_item_tags i d) = db_items d"
  by (auto simp: tags_inv_def delete_item_tags_def distinct_map_filter only_tags_def tag_view_def map_of_other_item)

lemma tag_absent_bare [simp]: "tag_absent t (bare v)"
  by (cases t) (simp_all add: bare_def)

lemma sqlite_update_tags_ok:
  assumes inv: "db_inv fk d" and x: "x \<in> set (db_items d)" "is_item t n x" and "distinct (map tag_name_of ts)"
  shows "\<exists>d'. sqlite_update_tags d t n ts = (d', Inr ()) \<and> db_inv fk d' \<and>
    db_store d' = (db_store d)((t, n) \<mapsto> fold put_tag ts (bare (item_value x)))"
proof -
  let ?d = "delete_item_tags (it_id x) d"
  have ti: "tags_inv ?d" using inv by (simp add: db_inv_defs)
  obtain d' where d': "insert_tags False (it_id x) ts ?d = Inr d'" "tags_inv d'" "only_tags (it_id x) ?d d'"
    "\<And>v. tag_view d' (it_id x) v = fold put_tag ts (tag_view ?d (it_id x) v)"
    using insert_tags_ok [OF ti, of "it_id x" False ts] x assms(4) by auto
  then have "only_tags (it_id x) d d'" by (blast intro: only_tags_trans delete_item_tags_inv(2))
  with d' show ?thesis
    using select_item_Some [OF inv x] only_tags_store [OF inv x] db_inv_only_tags [OF inv]
    by (intro exI [of _ d']) (simp add: sqlite_update_tags_def in_transaction_simps)
qed

lemma delete_tag_ok:
  assumes "tags_inv d"
  shows "tags_inv (delete_tag i n d)" and "only_tags i d (delete_tag i n d)"
    and "tag_view (delete_tag i n d) i v = drop_tag n (tag_view d i v)"
proof -
  have [simp]: "map_of [r \<leftarrow> rows. fst r \<noteq> (m, i)] = (map_of rows)((m, i) := None)" for m and rows :: "'v tag_table"
    using map_of_filter_key [of "\<lambda>k. k \<noteq> (m, i)" rows] by (auto simp: fun_eq_iff)
  show "tags_inv (delete_tag i n d)"
    using assms by (cases n) (auto simp: tags_inv_def distinct_map_filter)
  show "only_tags i d (delete_tag i n d)"
    by (cases n) (auto simp: only_tags_def tag_view_def fun_eq_iff)
  show "tag_view (delete_tag i n d) i v = drop_tag n (tag_view d i v)"
    by (cases n) (auto simp: tag_view_def fun_eq_iff)
qed

lemma delete_tags_ok:
  "tags_inv d \<Longrightarrow> tags_inv (fold (delete_tag i) ns d) \<and> only_tags i d (fold (delete_tag i) ns d) \<and>
    tag_view (fold (delete_tag i) ns d) i v = fold drop_tag ns (tag_view d i v)"
proof (induction ns arbitrary: d)
  case Nil
  then show ?case by (simp add: only_tags_def)
next
  case (Cons n ns)
  then show ?case using delete_tag_ok [OF Cons.prems, of i n] only_tags_trans by fastforce
qed

lemma sqlite_delete_tags_ok:
  assumes inv: "db_inv fk d" and x: "x \<in> set (db_items d)" "is_item t n x"
  shows "\<exists>d'. sqlite_delete_tags d t n ns = (d', Inr ()) \<and> db_inv fk d' \<and>
    db_store d' = (db_store d)((t, n) \<mapsto> fold drop_tag ns (tag_view d (it_id x) (item_value x)))"
proof -
  let ?d = "fold (delete_tag (it_id x)) ns d"
  have "tags_inv d" using inv by (simp add: db_inv_defs)
  note k = delete_tags_ok [OF this, of "it_id x" ns]
  show ?thesis
    using select_item_Some [OF inv x] only_tags_store [OF inv x, of ?d] db_inv_only_tags [OF inv, of "it_id x" ?d] k
    by (intro exI [of _ ?d]) (simp add: sqlite_delete_tags_def in_transaction_simps)
qed

lemma find_snoc:
  "List.find P (xs @ [x]) = (case List.find P xs of None \<Rightarrow> if P x then Some x else None | Some y \<Rightarrow> Some y)"
  by (induction xs) auto

lemma fresh_view:
  assumes "tags_inv d" and "i \<notin> it_id ` set (db_items d)"
  shows "tag_view d i v = bare v"
proof -
  have "map_of (db_etags d) (m, i) = None" and "map_of (db_ptags d) (m, i) = None" for m
    using assms by (force simp: tags_inv_def map_of_eq_None_iff)+
  then show ?thesis by (simp add: tag_view_def bare_def)
qed

lemma sqlite_add_ok:
  assumes inv: "db_inv fk d" and new: "db_store d (t, n) = None" and dist: "distinct (map tag_name_of ts)"
  shows "\<exists>d'. sqlite_add d t n v ts = (d', Inr ()) \<and> db_inv fk d' \<and>
    db_store d' = (db_store d)((t, n) \<mapsto> fold put_tag ts (bare v))"
proof -
  define i where "i = new_rowid (db_items d)"
  define x where "x = \<lparr> it_id = i, it_type = t, it_name = n, it_value = ev_data v, it_key = ev_key v \<rparr>"
  define e where "e = d\<lparr>db_items := db_items d @ [x]\<rparr>"
  have no: "\<not> list_ex (is_item t n) (db_items d)" using new by (simp add: db_store_None)
  have fresh: "i \<notin> it_id ` set (db_items d)" using new_rowid_fresh by (force simp: i_def)
  have ti: "tags_inv d" and ii: "items_inv (db_items d)" using inv by (simp_all add: db_inv_defs)
  have ins: "insert_item d t n (ev_data v) (ev_key v) = Inr (e, i)"
    using no by (simp add: insert_item_def Let_def e_def x_def i_def)
  have ev: "tag_view e k w = tag_view d k w" for k w by (simp add: tag_view_def e_def)
  have tie: "tags_inv e" using ti by (auto simp: tags_inv_def e_def)
  have inve: "db_inv fk e"
    using inv ii tie no fresh by (auto simp: db_inv_defs items_inv_def e_def x_def is_item_def list_ex_iff)
  have x: "x \<in> set (db_items e)" "is_item t n x" "it_id x = i" "item_value x = v"
    by (simp_all add: e_def x_def is_item_def item_value_def)
  have ste: "db_store e = (db_store d)((t, n) \<mapsto> bare v)"
  proof
    fix k
    have "db_items e = db_items d @ [x]" by (simp add: e_def)
    moreover have "is_item (fst k) (snd k) x \<longleftrightarrow> k = (t, n)" by (auto simp: is_item_def x_def prod_eq_iff)
    moreover have "List.find (is_item t n) (db_items d) = None" using no by (simp add: find_is_item_None)
    ultimately show "db_store e k = ((db_store d)((t, n) \<mapsto> bare v)) k"
      using x(3,4) fresh_view [OF ti fresh]
      by (auto simp: db_store_def find_snoc ev split: option.splits)
  qed
  have "tag_view e i v = bare v" using fresh_view [OF ti fresh] by (simp add: ev)
  then obtain d' where d': "insert_tags False i ts e = Inr d'" "tags_inv d'" "only_tags i e d'"
    "\<And>w. tag_view d' i w = fold put_tag ts (tag_view e i w)"
    using insert_tags_ok [OF tie, of i False ts v] dist x by auto
  have "db_store d' = (db_store e)((t, n) \<mapsto> fold put_tag ts (bare v))"
    using only_tags_store [OF inve x(1,2)] d' x(3,4) \<open>tag_view e i v = bare v\<close> by simp
  then show ?thesis
    using d' ins ste db_inv_only_tags [OF inve d'(3,2)]
    by (intro exI [of _ d']) (simp add: sqlite_add_def in_transaction_simps)
qed

lemma sqlite_add_exists:
  "db_store d (t, n) = Some r \<Longrightarrow> sqlite_add d t n v ts = (d, Inl (Error WalletItemAlreadyExists))"
  using db_store_None [of d t n]
  by (simp add: sqlite_add_def insert_item_def in_transaction_simps)

lemma filter_is_item:
  assumes "items_inv items" and "x \<in> set items" and "is_item t n x"
  shows "[r \<leftarrow> items. is_item t n r] = [x]"
  using assms
proof (induction items)
  case (Cons a items)
  show ?case
  proof (cases "a = x")
    case True
    have "\<forall>r\<in>set items. \<not> is_item t n r"
      using Cons.prems True by (auto simp: items_inv_def is_item_def image_iff)
    then show ?thesis using True Cons.prems by simp
  next
    case False
    then have "\<not> is_item t n a" using Cons.prems item_key_inj [OF Cons.prems(1), of a x] by auto
    then show ?thesis using Cons False by (auto simp: items_inv_def)
  qed
qed simp

lemma filter_no_item: "\<not> list_ex (is_item t n) items \<Longrightarrow> [r \<leftarrow> items. is_item t n r] = []"
  by (simp add: filter_empty_conv list_ex_iff)

lemma find_map_item: "(\<And>r. P (f r) = P r) \<Longrightarrow> List.find P (map f xs) = map_option f (List.find P xs)"
  by (induction xs) auto

lemma db_inv_map_items:
  assumes "db_inv fk d" and "\<And>r. it_id (f r) = it_id r \<and> it_type (f r) = it_type r \<and> it_name (f r) = it_name r"
  shows "db_inv fk (d\<lparr>db_items := map f (db_items d)\<rparr>)"
  using assms by (simp add: db_inv_defs items_inv_def tags_inv_def o_def image_image)

lemma sqlite_update_ok:
  assumes inv: "db_inv fk d" and x: "x \<in> set (db_items d)" "is_item t n x"
  shows "\<exists>d'. sqlite_update d t n v = (d', Inr ()) \<and> db_inv fk d' \<and>
    db_store d' = (db_store d)((t, n) \<mapsto> (tag_view d (it_id x) (item_value x))\<lparr>stored_value := v\<rparr>)"
proof -
  let ?f = "\<lambda>r. if is_item t n r then r\<lparr>it_value := ev_data v, it_key := ev_key v\<rparr> else r"
  let ?d = "d\<lparr>db_items := map ?f (db_items d)\<rparr>"
  have ii: "items_inv (db_items d)" using inv by (simp add: db_inv_defs)
  have "db_inv fk ?d" by (rule db_inv_map_items [OF inv]) simp
  moreover have "db_store ?d = (db_store d)((t, n) \<mapsto> (tag_view d (it_id x) (item_value x))\<lparr>stored_value := v\<rparr>)"
  proof
    fix k
    have "List.find (is_item (fst k) (snd k)) (map ?f (db_items d)) =
        map_option ?f (List.find (is_item (fst k) (snd k)) (db_items d))"
      by (rule find_map_item) (simp add: is_item_def)
    moreover have "List.find (is_item t n) (db_items d) = Some x" using x ii by (simp add: find_is_item)
    moreover have "k = (t, n)" if "List.find (is_item (fst k) (snd k)) (db_items d) = Some y" "is_item t n y" for y
      using that ii by (simp add: find_is_item is_item_def prod_eq_iff)
    ultimately show "db_store ?d k = ((db_store d)((t, n) \<mapsto> (tag_view d (it_id x) (item_value x))\<lparr>stored_value := v\<rparr>)) k"
      using x by (cases "List.find (is_item (fst k) (snd k)) (db_items d)")
        (auto simp: db_store_def tag_view_def item_value_def)
  qed
  ultimately show ?thesis
    using filter_is_item [OF ii x] by (intro exI [of _ ?d]) (simp add: sqlite_update_def)
qed

lemma sqlite_update_none:
  assumes "db_store d (t, n) = None"
  shows "sqlite_update d t n v = (d, Inl (Error WalletItemNotFound))"
proof -
  have no: "\<not> list_ex (is_item t n) (db_items d)" using assms by (simp add: db_store_None)
  then have "map (\<lambda>r. if is_item t n r then r\<lparr>it_value := ev_data v, it_key := ev_key v\<rparr> else r) (db_items d) = db_items d"
    by (intro map_idI) (auto simp: list_ex_iff)
  then show ?thesis using filter_no_item [OF no] by (simp add: sqlite_update_def)
qed

lemma sqlite_delete_none:
  assumes "db_store d (t, n) = None"
  shows "sqlite_delete d t n = (d, Inl (Error WalletItemNotFound))"
proof -
  have no: "\<not> list_ex (is_item t n) (db_items d)" using assms by (simp add: db_store_None)
  then have "[r \<leftarrow> db_items d. \<not> is_item t n r] = db_items d" by (simp add: filter_id_conv list_ex_iff)
  then show ?thesis using filter_no_item [OF no] by (simp add: sqlite_delete_def delete_items_def)
qed

lemma find_filter_item:
  "List.find (is_item a b) [r \<leftarrow> items. \<not> is_item t n r] =
    (if a = t \<and> b = n then None else List.find (is_item a b) items)"
  by (induction items) (auto simp: is_item_def [abs_def])

lemma sqlite_delete_ok:
  assumes inv: "db_inv True d" and x: "x \<in> set (db_items d)" "is_item t n x"
  shows "\<exists>d'. sqlite_delete d t n = (d', Inr ()) \<and> db_inv True d' \<and> db_store d' = (db_store d)((t, n) := None)"
proof -
  let ?keep = "[r \<leftarrow> db_items d. \<not> is_item t n r]"
  let ?e = "d\<lparr>db_items := ?keep\<rparr>"
  let ?d = "delete_item_tags (it_id x) ?e"
  have ii: "items_inv (db_items d)" and fk: "db_foreign_keys d" and ti: "tags_inv d"
    using inv by (simp_all add: db_inv_defs)
  have keep: "items_inv ?keep" using ii by (simp add: items_inv_def distinct_map_filter)
  have ids: "i \<in> it_id ` set ?keep" if "i \<in> it_id ` set (db_items d)" "i \<noteq> it_id x" for i
  proof -
    obtain y where y: "y \<in> set (db_items d)" "i = it_id y" using \<open>i \<in> it_id ` set (db_items d)\<close> by (rule imageE)
    with that(2) have "y \<noteq> x" by auto
    then have "\<not> is_item t n y" using item_key_inj [OF ii y(1) x(1) _ x(2)] by blast
    then show ?thesis using y by simp
  qed
  have "tags_inv ?d"
    using ti ids by (simp add: tags_inv_def delete_item_tags_def distinct_map_filter)
  then have "db_inv True ?d" using keep fk by (simp add: db_inv_defs delete_item_tags_def)
  moreover have "db_store ?d = (db_store d)((t, n) := None)"
  proof
    fix k
    have view: "tag_view ?d (it_id y) v = tag_view d (it_id y) v" if "y \<in> set (db_items d)" "y \<noteq> x" for y v
    proof -
      have "it_id y \<noteq> it_id x" using item_id_inj [OF ii] that x(1) by metis
      then have "tag_view ?d (it_id y) v = tag_view ?e (it_id y) v" by simp
      then show ?thesis by (simp add: tag_view_def)
    qed
    show "db_store ?d k = ((db_store d)((t, n) := None)) k"
    proof (cases "k = (t, n)")
      case False
      then have k: "\<not> (fst k = t \<and> snd k = n)" by (auto simp: prod_eq_iff)
      have "y \<in> set (db_items d) \<and> y \<noteq> x" if "List.find (is_item (fst k) (snd k)) (db_items d) = Some y" for y
        using that k x(2) by (auto simp: find_is_item [OF ii] is_item_def)
      with view k False show ?thesis
        by (cases "List.find (is_item (fst k) (snd k)) (db_items d)")
           (auto simp: db_store_def find_filter_item)
    qed (simp add: db_store_def find_filter_item)
  qed
  ultimately show ?thesis
    using filter_is_item [OF ii x] fk
    by (intro exI [of _ ?d]) (simp add: sqlite_delete_def delete_items_def)
qed

lemma lists_tags_view:
  assumes "tags_inv d"
  shows "lists_tags (item_etags d i @ item_ptags d i) (tag_view d i v)"
    and "lists_tags (retrieve d i) (tag_view d i v)"
proof -
  have dist: "distinct (map fst (db_etags d))" "distinct (map fst (db_ptags d))"
    using assms by (simp_all add: tags_inv_def)
  have row: "distinct (map fst rows) \<Longrightarrow> distinct [g (fst (fst r)). r \<leftarrow> rows, snd (fst r) = i]"
    if "inj g" for rows :: "'v tag_table" and g :: "bytes \<Rightarrow> TagName"
    by (induction rows) (auto simp: inj_eq [OF that], force)
  have names: "map tag_name_of (item_etags d i) = [OfEncrypted (fst (fst r)). r \<leftarrow> db_etags d, snd (fst r) = i]"
    "map tag_name_of (item_ptags d i) = [OfPlain (fst (fst r)). r \<leftarrow> db_ptags d, snd (fst r) = i]"
    by (simp_all add: item_etags_def item_ptags_def map_concat o_def if_distrib [of "map _"] cong: if_cong)
  have d: "distinct (map tag_name_of (item_etags d i))" "distinct (map tag_name_of (item_ptags d i))"
    unfolding names by (intro row dist injI; simp)+
  have disj: "set (map tag_name_of (item_etags d i)) \<inter> set (map tag_name_of (item_ptags d i)) = {}"
    unfolding names by auto
  have mem: "Encrypted m w \<in> set (item_etags d i) \<longleftrightarrow> map_of (db_etags d) (m, i) = Some w"
    "PlainText m u \<in> set (item_ptags d i) \<longleftrightarrow> map_of (db_ptags d) (m, i) = Some u"
    "PlainText m u \<notin> set (item_etags d i)" "Encrypted m w \<notin> set (item_ptags d i)" for m w u
    using dist by (force simp: item_etags_def item_ptags_def map_of_eq_Some_iff)+
  show "lists_tags (item_etags d i @ item_ptags d i) (tag_view d i v)"
    using d disj mem by (simp add: lists_tags_def tag_view_def)
  show "lists_tags (retrieve d i) (tag_view d i v)"
    using d disj mem by (simp add: lists_tags_def tag_view_def retrieve_def Int_commute)
qed

lemma sqlite_get_ok:
  assumes inv: "db_inv fk d" and "record_options_of j opts = Inr opt" and x: "x \<in> set (db_items d)" "is_item t n x"
  shows "\<exists>sr. sqlite_get j d t n opts = Inr sr \<and> shows_record opt t n (tag_view d (it_id x) (item_value x)) sr"
  using assms(2) select_item_Some [OF inv x] inv lists_tags_view [of d "it_id x" "item_value x"]
  by (auto simp: sqlite_get_def shows_record_def db_inv_defs tag_view_def item_value_def)

section \<open>Searches\<close>

definition row_record :: "db \<Rightarrow> RecordOptions \<Rightarrow> item \<Rightarrow> StorageRecord" where
  "row_record d opt r = \<lparr> sr_id = it_name r,
     sr_value = (if retrieve_value opt then Some (item_value r) else None),
     sr_type = (if retrieve_type opt then Some (it_type r) else None),
     sr_tags = (if retrieve_tags opt then Some (retrieve d (it_id r)) else None) \<rparr>"

text \<open>What the storage relies on: the engine selects the rows the clause is true of, in any order.\<close>

definition row_sat :: "(string \<Rightarrow> string \<Rightarrow> bool) \<Rightarrow> db \<Rightarrow> clause \<Rightarrow> item \<Rightarrow> bool" where
  "row_sat like d cl r \<longleftrightarrow> clause_sat like (\<lambda>m. map_of (db_etags d) (m, it_id r)) (\<lambda>m. map_of (db_ptags d) (m, it_id r)) cl"

definition sql_engine :: "(string \<Rightarrow> string \<Rightarrow> bool) \<Rightarrow> engine \<Rightarrow> bool" where
  "sql_engine like E \<longleftrightarrow>
    (\<forall>d t. \<exists>rows. run_select E d BASE [Blob t] = Some rows \<and> mset rows = mset [r \<leftarrow> db_items d. it_type r = t]) \<and>
    (\<forall>d t. run_count E d COUNT_BASE [Blob t] = Some (length [r \<leftarrow> db_items d. it_type r = t])) \<and>
    (\<forall>d t cl. wf_clause cl \<longrightarrow>
      (\<exists>rows. run_select E d (where_clause BASE cl) (Blob t # clause_args cl) = Some rows \<and>
        mset rows = mset [r \<leftarrow> db_items d. it_type r = t \<and> row_sat like d cl r])) \<and>
    (\<forall>d t cl. wf_clause cl \<longrightarrow>
      run_count E d (where_clause COUNT_BASE cl) (Blob t # clause_args cl) =
        Some (length [r \<leftarrow> db_items d. it_type r = t \<and> row_sat like d cl r]))"

lemma sql_engineD:
  assumes "sql_engine like E"
  shows "\<exists>rows. run_select E d BASE [Blob t] = Some rows \<and> mset rows = mset [r \<leftarrow> db_items d. it_type r = t]"
    and "run_count E d COUNT_BASE [Blob t] = Some (length [r \<leftarrow> db_items d. it_type r = t])"
    and "wf_clause cl \<Longrightarrow> \<exists>rows. run_select E d (where_clause BASE cl) (Blob t # clause_args cl) = Some rows \<and>
        mset rows = mset [r \<leftarrow> db_items d. it_type r = t \<and> row_sat like d cl r]"
    and "wf_clause cl \<Longrightarrow> run_count E d (where_clause COUNT_BASE cl) (Blob t # clause_args cl) =
        Some (length [r \<leftarrow> db_items d. it_type r = t \<and> row_sat like d cl r])"
  using assms unfolding sql_engine_def by blast+

lemma rows_yield:
  assumes "st_next S = sqlite_next" and "retrieve_tags opt \<longrightarrow> tr"
  shows "yields S d \<lparr> si_rows = Some rows, si_tag_retriever = tr, si_options = opt, si_total_count = c \<rparr>
    (map (row_record d opt) rows)"
proof (induction rows)
  case Nil
  show ?case by (simp, rule yields_end) (simp add: assms sqlite_next_def)
next
  case (Cons r rows)
  show ?case
    by (simp, rule yields_more [OF _ Cons.IH]) (use assms in \<open>simp add: sqlite_next_def row_record_def item_value_def\<close>)
qed

lemma shows_rows:
  assumes inv: "db_inv fk d" and rows: "mset rows = mset (filter P (db_items d))"
    and K: "\<And>r. r \<in> set (db_items d) \<Longrightarrow> P r \<longleftrightarrow> (it_type r, it_name r) \<in> K" and "K \<subseteq> dom (db_store d)"
  shows "shows_all opt (db_store d) K (map (row_record d opt) rows)"
proof -
  let ?k = "\<lambda>r. (it_type r, it_name r)"
  have ii: "items_inv (db_items d)" and ti: "tags_inv d" using inv by (simp_all add: db_inv_defs)
  have "mset (map ?k rows) = mset (map ?k (filter P (db_items d)))" using rows by simp
  then have dist: "distinct (map ?k rows)"
    using ii distinct_map_filter [of ?k "db_items d" P] mset_eq_imp_distinct_iff
    unfolding items_inv_def by blast
  have set: "set rows = set (filter P (db_items d))" using rows by (rule mset_eq_setD)
  have "K \<subseteq> set (map ?k rows)"
  proof
    fix k assume k: "k \<in> K"
    then obtain r where "r \<in> set (db_items d)" "is_item (fst k) (snd k) r"
      using assms(4) db_store_Some [OF inv, of "fst k" "snd k"] by (auto simp: dom_def)
    then show "k \<in> set (map ?k rows)" using k K [of r] set by (auto simp: is_item_def image_iff)
  qed
  then have K': "set (map ?k rows) = K" using set K by auto
  have one: "\<exists>s. db_store d (?k r) = Some s \<and> shows_record opt (it_type r) (it_name r) s (row_record d opt r)"
    if "r \<in> set (db_items d)" for r
  proof -
    have "db_store d (?k r) = Some (tag_view d (it_id r) (item_value r))"
      using that db_store_Some [OF inv, of "it_type r" "it_name r"] by (auto simp: is_item_def)
    moreover have "shows_record opt (it_type r) (it_name r) (tag_view d (it_id r) (item_value r)) (row_record d opt r)"
      using lists_tags_view(2) [OF ti, of "it_id r" "item_value r"]
      by (simp add: shows_record_def row_record_def) (simp add: tag_view_def)
    ultimately show ?thesis by blast
  qed
  have "list_all2 (\<lambda>k sr. \<exists>r. db_store d k = Some r \<and> shows_record opt (fst k) (snd k) r sr)
      (map ?k rows) (map (row_record d opt) rows)"
    unfolding list.rel_map by (rule list.rel_refl_strong) (use one set in auto)
  with dist K' show ?thesis unfolding shows_all_def by blast
qed

lemma sqlite_search_ok:
  assumes E: "sql_engine like E" and inv: "db_inv fk d" and so: "search_options_of j opts = Inr so" "so_records so"
    and cl: "clause_of op = Some cl"
  shows "\<exists>it srs. sqlite_search E j chk d t op opts = Inr it \<and> yields (SQLiteStorage E j chk) d it srs \<and>
    shows_all (fetch_options so) (db_store d)
      {k. fst k = t \<and> (\<exists>r. db_store d k = Some r \<and> clause_sat like (stored_etags r) (stored_ptags r) cl)} srs \<and>
    (so_total_count so \<longrightarrow> sqlite_total_count it = Inr (Some (length srs)))"
proof -
  have wf: "wf_clause cl" using operator_to_sql_render(1) [OF cl] by blast
  let ?P = "\<lambda>r. it_type r = t \<and> row_sat like d cl r"
  obtain rows where rows: "run_select E d (where_clause BASE cl) (Blob t # clause_args cl) = Some rows"
    "mset rows = mset (filter ?P (db_items d))"
    using sql_engineD(3) [OF E wf] by blast
  have cnt: "run_count E d (where_clause COUNT_BASE cl) (Blob t # clause_args cl) = Some (length rows)"
    using sql_engineD(4) [OF E wf] mset_eq_length [OF rows(2)] by simp
  let ?it = "\<lparr> si_rows = Some rows, si_tag_retriever = so_tags so, si_options = fetch_options so,
     si_total_count = (if so_total_count so then Some (length rows) else None) \<rparr>"
  have "sqlite_search E j chk d t op opts = Inr ?it"
    using so wql_to_sql_render [OF cl] rows(1) cnt by (simp add: sqlite_search_def)
  moreover have "yields (SQLiteStorage E j chk) d ?it (map (row_record d (fetch_options so)) rows)"
    by (rule rows_yield) (simp_all add: SQLiteStorage_def fetch_options_def)
  moreover have "shows_all (fetch_options so) (db_store d)
      {k. fst k = t \<and> (\<exists>r. db_store d k = Some r \<and> clause_sat like (stored_etags r) (stored_ptags r) cl)}
      (map (row_record d (fetch_options so)) rows)"
  proof (rule shows_rows [OF inv rows(2)])
    fix r assume "r \<in> set (db_items d)"
    then have "db_store d (it_type r, it_name r) = Some (tag_view d (it_id r) (item_value r))"
      using db_store_Some [OF inv, of "it_type r" "it_name r"] by (auto simp: is_item_def)
    then show "?P r \<longleftrightarrow> (it_type r, it_name r) \<in> {k. fst k = t \<and> (\<exists>r. db_store d k = Some r \<and>
        clause_sat like (stored_etags r) (stored_ptags r) cl)}"
      by (simp add: row_sat_def tag_view_def)
  qed auto
  ultimately show ?thesis by (intro exI [of _ ?it] exI conjI) (auto simp: sqlite_total_count_def)
qed

lemma wql_to_sql_empty:
  "wql_to_sql chk t (OpAnd []) = Inr (BASE, [Blob t])" "wql_to_sql_count chk t (OpAnd []) = Inr (COUNT_BASE, [Blob t])"
  by (simp_all add: wql_to_sql_def wql_to_sql_count_def)

lemma sqlite_search_everything:
  assumes E: "sql_engine like E" and inv: "db_inv fk d" and so: "search_options_of j opts = Inr so" "so_records so"
  shows "\<exists>it srs. sqlite_search E j chk d t (OpAnd []) opts = Inr it \<and> yields (SQLiteStorage E j chk) d it srs \<and>
    shows_all (fetch_options so) (db_store d) {k. fst k = t \<and> db_store d k \<noteq> None} srs \<and>
    (so_total_count so \<longrightarrow> sqlite_total_count it = Inr (Some (length srs)))"
proof -
  obtain rows where rows: "run_select E d BASE [Blob t] = Some rows"
    "mset rows = mset (filter (\<lambda>r. it_type r = t) (db_items d))"
    using sql_engineD(1) [OF E] by blast
  have cnt: "run_count E d COUNT_BASE [Blob t] = Some (length rows)"
    using sql_engineD(2) [OF E] mset_eq_length [OF rows(2)] by simp
  let ?it = "\<lparr> si_rows = Some rows, si_tag_retriever = so_tags so, si_options = fetch_options so,
     si_total_count = (if so_total_count so then Some (length rows) else None) \<rparr>"
  have "sqlite_search E j chk d t (OpAnd []) opts = Inr ?it"
    using so wql_to_sql_empty rows(1) cnt by (simp add: sqlite_search_def)
  moreover have "yields (SQLiteStorage E j chk) d ?it (map (row_record d (fetch_options so)) rows)"
    by (rule rows_yield) (simp_all add: SQLiteStorage_def fetch_options_def)
  moreover have "shows_all (fetch_options so) (db_store d) {k. fst k = t \<and> db_store d k \<noteq> None}
      (map (row_record d (fetch_options so)) rows)"
  proof (rule shows_rows [OF inv rows(2)])
    fix r assume "r \<in> set (db_items d)"
    then show "it_type r = t \<longleftrightarrow> (it_type r, it_name r) \<in> {k. fst k = t \<and> db_store d k \<noteq> None}"
      using db_store_Some [OF inv, of "it_type r" "it_name r"] by (auto simp: is_item_def)
  qed auto
  ultimately show ?thesis by (intro exI [of _ ?it] exI conjI) (auto simp: sqlite_total_count_def)
qed

lemma sqlite_get_all_ok:
  assumes inv: "db_inv fk d"
  shows "\<exists>it srs. sqlite_get_all d = Inr it \<and> yields (SQLiteStorage E j chk) d it srs \<and>
    shows_all all_options (db_store d) {k. db_store d k \<noteq> None} srs"
proof -
  let ?it = "\<lparr> si_rows = Some (db_items d), si_tag_retriever = True, si_options = all_options, si_total_count = None \<rparr>"
  have "yields (SQLiteStorage E j chk) d ?it (map (row_record d all_options) (db_items d))"
    by (rule rows_yield) (simp_all add: SQLiteStorage_def)
  moreover have "shows_all all_options (db_store d) {k. db_store d k \<noteq> None} (map (row_record d all_options) (db_items d))"
  proof (rule shows_rows [OF inv, of _ "\<lambda>_. True"])
    fix r assume "r \<in> set (db_items d)"
    then show "True \<longleftrightarrow> (it_type r, it_name r) \<in> {k. db_store d k \<noteq> None}"
      using db_store_Some [OF inv, of "it_type r" "it_name r"] by (auto simp: is_item_def)
  qed auto
  ultimately show ?thesis by (intro exI [of _ ?it] exI conjI) (simp_all add: sqlite_get_all_def)
qed

section \<open>The default storage keeps the contract\<close>

lemma item_of_store:
  assumes "db_store d (t, n) = Some r" and "db_inv fk d"
  obtains x where "x \<in> set (db_items d)" "is_item t n x" "r = tag_view d (it_id x) (item_value x)"
  using assms by (auto simp: db_store_Some)

lemma stored_value_view [simp]: "stored_value (tag_view d i v) = v"
  by (simp add: tag_view_def)

lemma sqlite_is_storage:
  assumes E: "sql_engine like E"
  shows "wallet_storage (SQLiteStorage E j chk) (db_inv fk) db_store j like fk"
proof
  fix s :: db and opts opt t n r
  assume "db_inv fk s" "record_options_of j opts = Inr opt" "db_store s (t, n) = Some r"
  then show "\<exists>sr. st_get (SQLiteStorage E j chk) s t n opts = Inr sr \<and> shows_record opt t n r sr"
    by (auto elim!: item_of_store intro: sqlite_get_ok simp: SQLiteStorage_def)
next
  fix s :: db and opts opt t n
  assume "db_inv fk s" "record_options_of j opts = Inr opt" "db_store s (t, n) = None"
  then show "st_get (SQLiteStorage E j chk) s t n opts = Inl (Error WalletItemNotFound)"
    by (simp add: SQLiteStorage_def sqlite_get_def select_item_None)
next
  fix s :: db and t n ts v
  assume "db_inv fk s" "db_store s (t, n) = None" "distinct (map tag_name_of ts)"
  then show "\<exists>s'. st_add (SQLiteStorage E j chk) s t n v ts = (s', Inr ()) \<and> db_inv fk s' \<and>
      db_store s' = (db_store s)((t, n) \<mapsto> fold put_tag ts (bare v))"
    using sqlite_add_ok by (simp add: SQLiteStorage_def)
next
  fix s :: db and t n r v ts
  assume "db_inv fk s" "db_store s (t, n) = Some r"
  then show "st_add (SQLiteStorage E j chk) s t n v ts = (s, Inl (Error WalletItemAlreadyExists))"
    by (simp add: SQLiteStorage_def sqlite_add_exists)
next
  fix s :: db and t n r v
  assume "db_inv fk s" "db_store s (t, n) = Some r"
  then show "\<exists>s'. st_update (SQLiteStorage E j chk) s t n v = (s', Inr ()) \<and> db_inv fk s' \<and>
      db_store s' = (db_store s)((t, n) \<mapsto> r\<lparr>stored_value := v\<rparr>)"
    by (auto elim!: item_of_store simp: SQLiteStorage_def intro: sqlite_update_ok)
next
  fix s :: db and t n v
  assume "db_inv fk s" "db_store s (t, n) = None"
  then show "st_update (SQLiteStorage E j chk) s t n v = (s, Inl (Error WalletItemNotFound))"
    by (simp add: SQLiteStorage_def sqlite_update_none)
next
  fix s :: db and t n r ts
  assume "db_inv fk s" "db_store s (t, n) = Some r"
  then show "\<exists>s'. st_add_tags (SQLiteStorage E j chk) s t n ts = (s', Inr ()) \<and> db_inv fk s' \<and>
      db_store s' = (db_store s)((t, n) \<mapsto> fold put_tag ts r)"
    by (auto elim!: item_of_store simp: SQLiteStorage_def intro: sqlite_add_tags_ok)
next
  fix s :: db and t n ts
  assume "db_inv fk s" "db_store s (t, n) = None"
  then show "st_add_tags (SQLiteStorage E j chk) s t n ts = (s, Inl (Error WalletItemNotFound))"
    by (simp add: SQLiteStorage_def sqlite_add_tags_def in_transaction_simps select_item_None)
next
  fix s :: db and t n r ts
  assume "db_inv fk s" "db_store s (t, n) = Some r" "distinct (map tag_name_of ts)"
  then show "\<exists>s'. st_update_tags (SQLiteStorage E j chk) s t n ts = (s', Inr ()) \<and> db_inv fk s' \<and>
      db_store s' = (db_store s)((t, n) \<mapsto> fold put_tag ts (bare (stored_value r)))"
    by (auto elim!: item_of_store simp: SQLiteStorage_def intro: sqlite_update_tags_ok)
next
  fix s :: db and t n ts
  assume "db_inv fk s" "db_store s (t, n) = None"
  then show "st_update_tags (SQLiteStorage E j chk) s t n ts = (s, Inl (Error WalletItemNotFound))"
    by (simp add: SQLiteStorage_def sqlite_update_tags_def in_transaction_simps select_item_None)
next
  fix s :: db and t n r ns
  assume "db_inv fk s" "db_store s (t, n) = Some r"
  then show "\<exists>s'. st_delete_tags (SQLiteStorage E j chk) s t n ns = (s', Inr ()) \<and> db_inv fk s' \<and>
      db_store s' = (db_store s)((t, n) \<mapsto> fold drop_tag ns r)"
    by (auto elim!: item_of_store simp: SQLiteStorage_def intro: sqlite_delete_tags_ok)
next
  fix s :: db and t n ns
  assume "db_inv fk s" "db_store s (t, n) = None"
  then show "st_delete_tags (SQLiteStorage E j chk) s t n ns = (s, Inl (Error WalletItemNotFound))"
    by (simp add: SQLiteStorage_def sqlite_delete_tags_def select_item_None)
next
  fix s :: db and t n r
  assume fk "db_inv fk s" "db_store s (t, n) = Some r"
  then show "\<exists>s'. st_delete (SQLiteStorage E j chk) s t n = (s', Inr ()) \<and> db_inv fk s' \<and>
      db_store s' = (db_store s)((t, n) := None)"
    by (auto elim!: item_of_store simp: SQLiteStorage_def dest: sqlite_delete_ok)
next
  fix s :: db and t n
  assume "db_inv fk s" "db_store s (t, n) = None"
  then show "st_delete (SQLiteStorage E j chk) s t n = (s, Inl (Error WalletItemNotFound))"
    by (simp add: SQLiteStorage_def sqlite_delete_none)
next
  fix s :: db and sopts so op cl t
  assume "db_inv fk s" "search_options_of j sopts = Inr so" "so_records so" "clause_of op = Some cl"
  from sqlite_search_ok [OF E this]
  show "\<exists>it srs. st_search (SQLiteStorage E j chk) s t op sopts = Inr it \<and> yields (SQLiteStorage E j chk) s it srs \<and>
      shows_all (fetch_options so) (db_store s)
        {k. fst k = t \<and> (\<exists>r. db_store s k = Some r \<and> clause_sat like (stored_etags r) (stored_ptags r) cl)} srs \<and>
      (so_total_count so \<longrightarrow> st_total_count (SQLiteStorage E j chk) it = Inr (Some (length srs)))"
    by (simp add: SQLiteStorage_def)
next
  fix s :: db and sopts so t
  assume "db_inv fk s" "search_options_of j sopts = Inr so" "so_records so"
  from sqlite_search_everything [OF E this]
  show "\<exists>it srs. st_search (SQLiteStorage E j chk) s t (OpAnd []) sopts = Inr it \<and> yields (SQLiteStorage E j chk) s it srs \<and>
      shows_all (fetch_options so) (db_store s) {k. fst k = t \<and> db_store s k \<noteq> None} srs \<and>
      (so_total_count so \<longrightarrow> st_total_count (SQLiteStorage E j chk) it = Inr (Some (length srs)))"
    by (simp add: SQLiteStorage_def)
next
  fix s :: db
  assume "db_inv fk s"
  from sqlite_get_all_ok [OF this, of E j chk]
  show "\<exists>it srs. st_get_all (SQLiteStorage E j chk) s = Inr it \<and> yields (SQLiteStorage E j chk) s it srs \<and>
      shows_all all_options (db_store s) {k. db_store s k \<noteq> None} srs"
    by (simp add: SQLiteStorage_def)
qed

lemma db_inv_empty: "db_inv True (empty_db m)" "db_store (empty_db m) = Map.empty"
  by (simp_all add: db_inv_defs items_inv_def tags_inv_def empty_db_def db_store_def fun_eq_iff)

section \<open>Foreign keys\<close>

text \<open>
  \<^verbatim>\<open>open_storage\<close> leaves the foreign key setting at the library's default. Where that is off,
  deleting a record keeps its tag rows, and the next record gets the freed row id: adding a record with
  a tag of the same name then fails as if the record existed, and a record added without tags
  carries the tag of the deleted one.
\<close>
theorem delete_without_foreign_keys:
  "let d0 = (empty_db m)\<lparr>db_foreign_keys := False\<rparr>;
       d1 = fst (sqlite_add d0 t n v [Encrypted a b]);
       d2 = fst (sqlite_delete d1 t n);
       d3 = fst (sqlite_add d2 t' n' v' [])
   in snd (sqlite_add d0 t n v [Encrypted a b]) = Inr () \<and> snd (sqlite_delete d1 t n) = Inr ()
    \<and> snd (sqlite_add d2 t' n' v' [Encrypted a b']) = Inl (Error WalletItemAlreadyExists)
    \<and> snd (sqlite_add d2 t' n' v' []) = Inr ()
    \<and> (\<exists>r. db_store d3 (t', n') = Some r \<and> stored_etags r a = Some b)"
  by (simp add: empty_db_def sqlite_add_def insert_item_def new_rowid_def in_transaction_def tx_new_def tx_commit_def
      tx_finish_def tx_rollback_def fk_ok_def insert_row_def sqlite_delete_def delete_items_def is_item_def db_store_def
      tag_view_def Let_def)

section \<open>Connections to a file system\<close>

text \<open>A connection works on its file, and nowhere else.\<close>

definition conn_get :: "nat \<Rightarrow> files \<Rightarrow> db" where
  "conn_get i fs = fs_dbs fs i"

definition conn_put :: "nat \<Rightarrow> db \<Rightarrow> files \<Rightarrow> files" where
  "conn_put i d fs = fs\<lparr>fs_dbs := (fs_dbs fs)(i := d)\<rparr>"

lemma conn_get_put [simp]: "conn_get i (conn_put i d fs) = d"
  by (simp add: conn_get_def conn_put_def)

lemma conn_get_other [simp]: "i \<noteq> j \<Longrightarrow> conn_get i (conn_put j d fs) = conn_get i fs"
  by (simp add: conn_get_def conn_put_def)

lemma conn_put_get [simp]: "conn_put i (conn_get i fs) fs = fs"
  by (simp add: conn_get_def conn_put_def)

definition SQLiteConnection :: "engine \<Rightarrow> options_serde \<Rightarrow> bool \<Rightarrow> nat \<Rightarrow> (files, SQLiteStorageIterator) WalletStorage" where
  "SQLiteConnection E j chk i = within (conn_get i) (conn_put i) (SQLiteStorage E j chk)"

definition conn_inv :: "bool \<Rightarrow> nat \<Rightarrow> files \<Rightarrow> bool" where
  "conn_inv fk i fs \<longleftrightarrow> db_inv fk (conn_get i fs)"

definition conn_store :: "nat \<Rightarrow> files \<Rightarrow> store" where
  "conn_store i fs = db_store (conn_get i fs)"

lemma connection_is_storage:
  "sql_engine like E \<Longrightarrow> wallet_storage (SQLiteConnection E j chk i) (conn_inv fk i) (conn_store i) j like fk"
  unfolding SQLiteConnection_def conn_inv_def [abs_def] conn_store_def [abs_def]
  by (rule wallet_storage.within_storage [OF sqlite_is_storage]) simp_all

definition SQLiteStorageType ::
  "(string \<Rightarrow> string option option) \<Rightarrow> engine \<Rightarrow> options_serde \<Rightarrow> bool \<Rightarrow> (files, SQLiteStorageIterator) WalletStorageType" where
  "SQLiteStorageType parse_config E j chk = \<lparr>
     ty_create = (\<lambda>fs wid config credentials metadata. create_storage parse_config fs wid config metadata),
     ty_open = (\<lambda>fs wid config credentials. map_prod (\<lambda>fs'. fs') (map_sum (\<lambda>e. e) (SQLiteConnection E j chk))
       (open_storage parse_config fs wid config)),
     ty_delete = (\<lambda>fs wid config credentials. delete_storage parse_config fs wid config) \<rparr>"

end
