(* ===== verification/Sql_Engine.thy ===== *)
theory Sql_Engine
  imports Sqlite
begin

text \<open>
  A reference engine: a parser for the SQL the wallet's translation writes, and evaluation of what
  it reads. It shows that the text determines the clause (nothing is lost in printing), and it meets the
  assumption the default storage makes of SQLite, so that the storage's contract holds of a concrete
  and executable system.
\<close>

section \<open>Reading clauses\<close>

fun strip :: "string \<Rightarrow> string \<Rightarrow> string option" where
  "strip [] s = Some s"
| "strip (p # ps) (ch # s) = (if p = ch then strip ps s else None)"
| "strip (p # ps) [] = None"

lemma strip_append [simp]: "strip p (p @ s) = Some s"
  by (induction p) simp_all

text \<open>The comma separated question marks after the first, up to the closing parenthesis.\<close>

fun in_tail :: "string \<Rightarrow> ToSql list \<Rightarrow> (ToSql list \<times> string \<times> ToSql list) option" where
  "in_tail (a # b # s) args =
    (if a = CHR '','' \<and> b = CHR ''?'' then
       (case args of [] \<Rightarrow> None
        | x # args' \<Rightarrow> map_option (\<lambda>(xs, s', rest). (x # xs, s', rest)) (in_tail s args'))
     else if a = CHR '')'' then Some ([], b # s, args) else None)"
| "in_tail [a] args = (if a = CHR '')'' then Some ([], [], args) else None)"
| "in_tail [] args = None"

definition in_list :: "string \<Rightarrow> ToSql list \<Rightarrow> (ToSql list \<times> string \<times> ToSql list) option" where
  "in_list s args =
    (case s of
       [] \<Rightarrow> None
     | ch # s' \<Rightarrow>
         if ch = CHR '')'' then Some ([], s', args)
         else if ch = CHR ''?'' then
           (case args of [] \<Rightarrow> None
            | x # args' \<Rightarrow> map_option (\<lambda>(xs, s'', rest). (x # xs, s'', rest)) (in_tail s' args'))
         else None)"

fun text_of :: "ToSql \<Rightarrow> string option" where
  "text_of (Text v) = Some v" | "text_of _ = None"

fun blob_of :: "ToSql \<Rightarrow> bytes option" where
  "blob_of (Blob v) = Some v" | "blob_of _ = None"

definition mk_cmp :: "bool \<Rightarrow> sql_cmp \<Rightarrow> bytes \<Rightarrow> ToSql \<Rightarrow> clause option" where
  "mk_cmp plain f n v =
    (if plain then map_option (PlainCmp f n) (text_of v) else map_option (EncCmp f n) (blob_of v))"

definition mk_in :: "bool \<Rightarrow> bytes \<Rightarrow> ToSql list \<Rightarrow> clause option" where
  "mk_in plain n vs =
    (if plain then map_option (PlainIn n) (collect (map text_of vs))
     else map_option (EncIn n) (collect (map blob_of vs)))"

fun parse_cmp :: "(string \<times> sql_cmp) list \<Rightarrow> string \<Rightarrow> (sql_cmp \<times> string) option" where
  "parse_cmp [] s = None"
| "parse_cmp ((p, f) # rest) s = (case strip (p @ '' ?'') s of Some s' \<Rightarrow> Some (f, s') | None \<Rightarrow> parse_cmp rest s)"

definition cmps :: "(string \<times> sql_cmp) list" where
  "cmps = [(''='', SqlEq), (''!='', SqlNeq), (''>'', SqlGt), (''>='', SqlGte), (''<'', SqlLt), (''<='', SqlLte),
     (''LIKE'', SqlLike)]"

definition parse_test :: "bool \<Rightarrow> string \<Rightarrow> ToSql list \<Rightarrow> (clause \<times> string \<times> ToSql list) option" where
  "parse_test plain s args =
    (case args of
       Blob n # args1 \<Rightarrow>
         (case strip ''IN ('' s of
            Some s1 \<Rightarrow>
              (case in_list s1 args1 of
                 None \<Rightarrow> None
               | Some (vs, s2, args2) \<Rightarrow>
                   (case (mk_in plain n vs, strip ''))'' s2) of
                      (Some cl, Some s3) \<Rightarrow> Some (cl, s3, args2)
                    | _ \<Rightarrow> None))
          | None \<Rightarrow>
              (case (parse_cmp cmps s, args1) of
                 (Some (f, s1), v # args2) \<Rightarrow>
                   (case (mk_cmp plain f n v, strip ''))'' s1) of
                      (Some cl, Some s2) \<Rightarrow> Some (cl, s2, args2)
                    | _ \<Rightarrow> None)
               | _ \<Rightarrow> None))
     | _ \<Rightarrow> None)"

definition parse_atom :: "string \<Rightarrow> ToSql list \<Rightarrow> (clause \<times> string \<times> ToSql list) option" where
  "parse_atom s args =
    (case strip ''tags_plaintext WHERE name = ? AND value '' s of
       Some s' \<Rightarrow> parse_test True s' args
     | None \<Rightarrow>
         (case strip ''tags_encrypted WHERE name = ? AND value '' s of
            Some s' \<Rightarrow> parse_test False s' args
          | None \<Rightarrow> None))"

fun parse_clause :: "nat \<Rightarrow> string \<Rightarrow> ToSql list \<Rightarrow> (clause \<times> string \<times> ToSql list) option"
  and parse_tail :: "nat \<Rightarrow> string \<Rightarrow> string \<Rightarrow> ToSql list \<Rightarrow> (clause list \<times> string \<times> ToSql list) option" where
  "parse_clause 0 s args = None"
| "parse_clause (Suc k) s args =
    (case strip ''(i.id in (SELECT item_id FROM '' s of
       Some s1 \<Rightarrow> parse_atom s1 args
     | None \<Rightarrow>
    (case strip ''NOT ('' s of
       Some s1 \<Rightarrow>
         (case parse_clause k s1 args of
            None \<Rightarrow> None
          | Some (cl, s2, args2) \<Rightarrow> map_option (\<lambda>s3. (ClNot cl, s3, args2)) (strip '')'' s2))
     | None \<Rightarrow>
    (case strip ''('' s of
       None \<Rightarrow> None
     | Some s1 \<Rightarrow>
         (case parse_clause k s1 args of
            None \<Rightarrow> None
          | Some (cl, s2, args2) \<Rightarrow>
              (case strip '' AND '' s2 of
                 Some s3 \<Rightarrow> map_option (\<lambda>(cls, s4, args3). (ClAnd (cl # cls), s4, args3)) (parse_tail k '' AND '' s3 args2)
               | None \<Rightarrow>
              (case strip '' OR '' s2 of
                 Some s3 \<Rightarrow> map_option (\<lambda>(cls, s4, args3). (ClOr (cl # cls), s4, args3)) (parse_tail k '' OR '' s3 args2)
               | None \<Rightarrow> map_option (\<lambda>s3. (ClAnd [cl], s3, args2)) (strip '')'' s2)))))))"
| "parse_tail 0 sep s args = None"
| "parse_tail (Suc k) sep s args =
    (case parse_clause k s args of
       None \<Rightarrow> None
     | Some (cl, s2, args2) \<Rightarrow>
         (case strip sep s2 of
            Some s3 \<Rightarrow> map_option (\<lambda>(cls, s4, args3). (cl # cls, s4, args3)) (parse_tail k sep s3 args2)
          | None \<Rightarrow> map_option (\<lambda>s3. ([cl], s3, args2)) (strip '')'' s2)))"

section \<open>Reading inverts printing\<close>

lemma in_tail_marks:
  "in_tail (concat (map (\<lambda>_. '',?'') vs) @ '')'' @ ch # s) (vs @ args) = Some (vs, ch # s, args)"
  by (induction vs) simp_all

lemma join_marks: "join '','' (map (\<lambda>_. ''?'') (v # vs)) = ''?'' @ concat (map (\<lambda>_. '',?'') vs)"
  by (induction vs) simp_all

lemma in_list_marks:
  "in_list (join '','' (map (\<lambda>_. ''?'') vs) @ '')'' @ ch # s) (vs @ args) = Some (vs, ch # s, args)"
proof (cases vs)
  case (Cons v ws)
  have "in_tail (concat (map (\<lambda>_. '',?'') ws) @ '')'' @ ch # s) (ws @ args) = Some (ws, ch # s, args)"
    by (rule in_tail_marks)
  then show ?thesis unfolding Cons join_marks by (simp add: in_list_def)
qed (simp add: in_list_def)

lemma parse_cmp_text: "parse_cmp cmps (cmp_text f @ '' ?'' @ s) = Some (f, s)"
  by (cases f) (simp_all add: cmps_def)

lemma strip_IN_cmp: "strip ''IN ('' (cmp_text f @ s) = None"
  by (cases f) simp_all

lemma parse_test_cmp:
  "parse_test True (cmp_text f @ '' ?'' @ ''))'' @ s) (Blob n # Text v # args) = Some (PlainCmp f n v, s, args)"
  "parse_test False (cmp_text f @ '' ?'' @ ''))'' @ s) (Blob n # Blob w # args) = Some (EncCmp f n w, s, args)"
  unfolding parse_test_def by (simp_all only: list.case ToSql.case strip_IN_cmp parse_cmp_text option.case prod.case)
    (simp_all add: mk_cmp_def)

lemma collect_marks:
  "collect (map (text_of \<circ> Text) vs) = Some vs" "collect (map (blob_of \<circ> Blob) ws) = Some ws"
  by (simp_all add: collect_eq_Some)

lemma join_map_marks: "map (\<lambda>_. ''?'') (map f vs) = map (\<lambda>_. ''?'') vs"
  by simp

lemma parse_test_in:
  "parse_test True (''IN ('' @ join '','' (map (\<lambda>_. ''?'') vs) @ '')'' @ ''))'' @ s) (Blob n # map Text vs @ args)
     = Some (PlainIn n vs, s, args)"
  "parse_test False (''IN ('' @ join '','' (map (\<lambda>_. ''?'') ws) @ '')'' @ ''))'' @ s) (Blob n # map Blob ws @ args)
     = Some (EncIn n ws, s, args)"
  using in_list_marks [of "map Text vs" "CHR '')''" "'')'' @ s" args]
    in_list_marks [of "map Blob ws" "CHR '')''" "'')'' @ s" args]
  unfolding parse_test_def join_map_marks strip_append list.case ToSql.case option.case
  by (simp_all add: mk_in_def collect_marks)

lemma parse_atom_text:
  "parse_atom (''tags_plaintext WHERE name = ? AND value '' @ s) args = parse_test True s args"
  "parse_atom (''tags_encrypted WHERE name = ? AND value '' @ s) args = parse_test False s args"
  by (simp_all add: parse_atom_def)

lemma in_tags_text:
  "in_tags ''tags_plaintext'' t @ s =
     ''(i.id in (SELECT item_id FROM '' @ ''tags_plaintext WHERE name = ? AND value '' @ t @ ''))'' @ s"
  "in_tags ''tags_encrypted'' t @ s =
     ''(i.id in (SELECT item_id FROM '' @ ''tags_encrypted WHERE name = ? AND value '' @ t @ ''))'' @ s"
  by (simp_all add: in_tags_def)

lemma parse_clause_atom:
  "parse_clause (Suc k) (''(i.id in (SELECT item_id FROM '' @ s) args = parse_atom s args"
  unfolding parse_clause.simps strip_append by simp

lemma parse_test_args:
  "parse_test True ((cmp_text f @ '' ?'') @ ''))'' @ s) (clause_args (PlainCmp f n v) @ args) = Some (PlainCmp f n v, s, args)"
  "parse_test False ((cmp_text f @ '' ?'') @ ''))'' @ s) (clause_args (EncCmp f n w) @ args) = Some (EncCmp f n w, s, args)"
  "parse_test True ((''IN ('' @ join '','' (map (\<lambda>_. ''?'') vs) @ '')'') @ ''))'' @ s) (clause_args (PlainIn n vs) @ args)
     = Some (PlainIn n vs, s, args)"
  "parse_test False ((''IN ('' @ join '','' (map (\<lambda>_. ''?'') ws) @ '')'') @ ''))'' @ s) (clause_args (EncIn n ws) @ args)
     = Some (EncIn n ws, s, args)"
  using parse_test_cmp(1) [of f s n v args] parse_test_cmp(2) [of f s n w args]
    parse_test_in(1) [of vs s n args] parse_test_in(2) [of ws s n args] by simp_all

lemma parse_atomic:
  assumes "case c of ClAnd _ \<Rightarrow> False | ClOr _ \<Rightarrow> False | ClNot _ \<Rightarrow> False | _ \<Rightarrow> True"
  shows "parse_clause (Suc k) (clause_text c @ s) (clause_args c @ args) = Some (c, s, args)"
  using assms
  by (cases c) (simp_all only: clause.case clause_text.simps in_tags_text parse_clause_atom
      parse_atom_text parse_test_args)

fun cfuel :: "clause \<Rightarrow> nat" where
  "cfuel (ClAnd cs) = Suc (sum_list (map (\<lambda>c. Suc (cfuel c)) cs))"
| "cfuel (ClOr cs) = Suc (sum_list (map (\<lambda>c. Suc (cfuel c)) cs))"
| "cfuel (ClNot c) = Suc (cfuel c)"
| "cfuel _ = 1"

lemma strip_atom_group: "strip ''(i.id in (SELECT item_id FROM '' (''('' @ clause_text c @ s) = None"
  by (cases c) (simp_all add: in_tags_def)

lemma parse_group:
  "parse_clause (Suc k) (''('' @ clause_text c @ s) args =
    (case parse_clause k (clause_text c @ s) args of
       None \<Rightarrow> None
     | Some (cl, s2, args2) \<Rightarrow>
         (case strip '' AND '' s2 of
            Some s3 \<Rightarrow> map_option (\<lambda>(cls, s4, args3). (ClAnd (cl # cls), s4, args3)) (parse_tail k '' AND '' s3 args2)
          | None \<Rightarrow>
         (case strip '' OR '' s2 of
            Some s3 \<Rightarrow> map_option (\<lambda>(cls, s4, args3). (ClOr (cl # cls), s4, args3)) (parse_tail k '' OR '' s3 args2)
          | None \<Rightarrow> map_option (\<lambda>s3. (ClAnd [cl], s3, args2)) (strip '')'' s2))))"
proof -
  have "strip ''NOT ('' (''('' @ clause_text c @ s) = None" by simp
  then show ?thesis unfolding parse_clause.simps strip_atom_group strip_append option.case by simp
qed

definition parses :: "clause \<Rightarrow> bool" where
  "parses c \<longleftrightarrow> (\<forall>k s args. cfuel c \<le> k \<longrightarrow>
    parse_clause k (clause_text c @ s) (clause_args c @ args) = Some (c, s, args))"

lemma parse_tail_text:
  assumes "\<And>s. strip sep ('')'' @ s) = None"
  shows "cs \<noteq> [] \<Longrightarrow> \<forall>c\<in>set cs. parses c \<Longrightarrow> sum_list (map (\<lambda>c. Suc (cfuel c)) cs) \<le> k \<Longrightarrow>
    parse_tail k sep (join sep (map clause_text cs) @ '')'' @ s) (concat (map clause_args cs) @ args) = Some (cs, s, args)"
proof (induction cs arbitrary: k args)
  case (Cons c cs)
  then obtain k' where k: "k = Suc k'" "cfuel c \<le> k'" by (cases k) auto
  have c: "parse_clause k' (clause_text c @ r) (clause_args c @ a) = Some (c, r, a)" for r a
    using Cons.prems(2) k(2) by (simp add: parses_def)
  show ?case
  proof (cases cs)
    case Nil
    then show ?thesis using c [of "'')'' @ s"] assms [of s] by (simp add: k(1))
  next
    case (Cons d ds)
    have "parse_tail k' sep (join sep (map clause_text cs) @ '')'' @ s) (concat (map clause_args cs) @ args) = Some (cs, s, args)"
      using Cons.prems k by (intro Cons.IH) (auto simp: Cons)
    then show ?thesis
      using c [of "sep @ join sep (map clause_text cs) @ '')'' @ s" "concat (map clause_args cs) @ args"]
      by (simp add: k(1) Cons)
  qed
qed simp

lemma parse_first:
  assumes "parses c" and "Suc (cfuel c) \<le> k"
  shows "\<exists>k'. k = Suc k' \<and> parse_clause k' (clause_text c @ s) (clause_args c @ args) = Some (c, s, args)"
  using assms by (cases k) (auto simp: parses_def)

lemma parses_group:
  assumes cs: "\<forall>c\<in>set cs. parses c" "cs \<noteq> []"
  shows "parses (ClAnd cs)" and "2 \<le> length cs \<Longrightarrow> parses (ClOr cs)"
proof -
  obtain c ds where cs': "cs = c # ds" using cs(2) by (cases cs) auto
  have sep: "strip '' AND '' ('')'' @ s) = None" "strip '' OR '' ('')'' @ s) = None"
    "strip '' AND '' ('' OR '' @ s) = None" for s by simp_all
  note tail = parse_tail_text [of _ ds, OF sep(1)] parse_tail_text [of _ ds, OF sep(2)]
  show "parses (ClAnd cs)"
    unfolding parses_def
  proof (intro allI impI)
    fix k s args assume k: "cfuel (ClAnd cs) \<le> k"
    let ?a = "concat (map clause_args ds) @ args"
    show "parse_clause k (clause_text (ClAnd cs) @ s) (clause_args (ClAnd cs) @ args) = Some (ClAnd cs, s, args)"
    proof (cases "ds = []")
      case True
      obtain k' where k': "k = Suc k'" "parse_clause k' (clause_text c @ '')'' @ s) (clause_args c @ args) = Some (c, '')'' @ s, args)"
        using parse_first [of c k "'')'' @ s" args] cs(1) k by (auto simp: cs')
      have "clause_text (ClAnd cs) @ s = ''('' @ clause_text c @ '')'' @ s" by (simp add: cs' True)
      moreover have "clause_args (ClAnd cs) @ args = clause_args c @ args" by (simp add: cs' True)
      ultimately show ?thesis by (simp only: k' parse_group) (simp add: cs' True)
    next
      case False
      let ?r = "'' AND '' @ join '' AND '' (map clause_text ds) @ '')'' @ s"
      obtain k' where k': "k = Suc k'" "parse_clause k' (clause_text c @ ?r) (clause_args c @ ?a) = Some (c, ?r, ?a)"
        using parse_first [of c k ?r ?a] cs(1) k by (auto simp: cs')
      have t: "parse_tail k' '' AND '' (join '' AND '' (map clause_text ds) @ '')'' @ s) ?a = Some (ds, s, args)"
        using tail(1) [of k' s args] False cs(1) k k'(1) by (simp add: cs')
      have "clause_text (ClAnd cs) @ s = ''('' @ clause_text c @ ?r" using False by (cases ds) (simp_all add: cs')
      moreover have "clause_args (ClAnd cs) @ args = clause_args c @ ?a" by (simp add: cs')
      ultimately show ?thesis
        by (simp only: k' parse_group option.case prod.case strip_append t option.map cs')
    qed
  qed
  show "parses (ClOr cs)" if "2 \<le> length cs"
    unfolding parses_def
  proof (intro allI impI)
    fix k s args assume k: "cfuel (ClOr cs) \<le> k"
    have ds: "ds \<noteq> []" using that by (auto simp: cs')
    let ?a = "concat (map clause_args ds) @ args"
    let ?r = "'' OR '' @ join '' OR '' (map clause_text ds) @ '')'' @ s"
    obtain k' where k': "k = Suc k'" "parse_clause k' (clause_text c @ ?r) (clause_args c @ ?a) = Some (c, ?r, ?a)"
      using parse_first [of c k ?r ?a] cs(1) k by (auto simp: cs')
    have t: "parse_tail k' '' OR '' (join '' OR '' (map clause_text ds) @ '')'' @ s) ?a = Some (ds, s, args)"
      using tail(2) [of k' s args] ds cs(1) k k'(1) by (simp add: cs')
    have "clause_text (ClOr cs) @ s = ''('' @ clause_text c @ ?r" using ds by (cases ds) (simp_all add: cs')
    moreover have "clause_args (ClOr cs) @ args = clause_args c @ ?a" by (simp add: cs')
    ultimately show "parse_clause k (clause_text (ClOr cs) @ s) (clause_args (ClOr cs) @ args) = Some (ClOr cs, s, args)"
      by (simp only: k' parse_group option.case prod.case sep(3) strip_append t option.map cs')
  qed
qed

lemma parses_not:
  assumes "parses c" shows "parses (ClNot c)"
  unfolding parses_def
proof (intro allI impI)
  fix k s args assume k: "cfuel (ClNot c) \<le> k"
  obtain k' where k': "k = Suc k'" "parse_clause k' (clause_text c @ '')'' @ s) (clause_args c @ args) = Some (c, '')'' @ s, args)"
    using parse_first [of c k "'')'' @ s" args] assms k by auto
  have "strip ''(i.id in (SELECT item_id FROM '' (''NOT ('' @ clause_text c @ '')'' @ s) = None" by simp
  then show "parse_clause k (clause_text (ClNot c) @ s) (clause_args (ClNot c) @ args) = Some (ClNot c, s, args)"
    unfolding clause_text.simps clause_args.simps append_assoc k'(1) parse_clause.simps
    by (simp only: option.case strip_append k'(2) prod.case option.map)
qed

lemma clause_parses: "wf_clause c \<Longrightarrow> parses c"
proof (induction c)
  case (ClAnd cs) then show ?case by (auto intro: parses_group)
next
  case (ClOr cs) then show ?case by (auto intro!: parses_group)
next
  case (ClNot c) then show ?case by (auto intro: parses_not)
next
  case (PlainCmp f n v) show ?case using parse_atomic [of "PlainCmp f n v"] by (auto simp: parses_def Suc_le_eq gr0_conv_Suc simp del: clause_text.simps clause_args.simps parse_clause.simps)
next
  case (EncCmp f n v) show ?case using parse_atomic [of "EncCmp f n v"] by (auto simp: parses_def Suc_le_eq gr0_conv_Suc simp del: clause_text.simps clause_args.simps parse_clause.simps)
next
  case (PlainIn n vs) show ?case using parse_atomic [of "PlainIn n vs"] by (auto simp: parses_def Suc_le_eq gr0_conv_Suc simp del: clause_text.simps clause_args.simps parse_clause.simps)
next
  case (EncIn n vs) show ?case using parse_atomic [of "EncIn n vs"] by (auto simp: parses_def Suc_le_eq gr0_conv_Suc simp del: clause_text.simps clause_args.simps parse_clause.simps)
qed

lemma length_join: "length (join sep ss) = sum_list (map length ss) + (length ss - 1) * length sep"
  by (induction sep ss rule: join.induct) auto

lemma sum_list_Suc_le:
  "(\<And>x. x \<in> set xs \<Longrightarrow> f x \<le> g x) \<Longrightarrow> sum_list (map (\<lambda>x. Suc (f x)) xs) \<le> sum_list (map g xs) + length xs"
proof (induction xs)
  case (Cons x xs)
  from Cons.prems [of x] Cons.IH [OF Cons.prems] show ?case by simp
qed simp

lemma group_text_length:
  "cs \<noteq> [] \<Longrightarrow> length sep \<ge> 1 \<Longrightarrow> sum_list (map (\<lambda>c. length (clause_text c)) cs) + length cs + 1
     \<le> length (''('' @ join sep (map clause_text cs) @ '')'')"
  by (cases cs) (auto simp: length_join o_def)

text \<open>The length of the text is fuel enough.\<close>

lemma cfuel_le: "wf_clause c \<Longrightarrow> cfuel c \<le> length (clause_text c)"
proof (induction c)
  case (ClAnd cs)
  have "sum_list (map (\<lambda>c. Suc (cfuel c)) cs) \<le> sum_list (map (\<lambda>c. length (clause_text c)) cs) + length cs"
    using ClAnd by (intro sum_list_Suc_le) auto
  moreover have "cs \<noteq> []" using ClAnd(2) by auto
  ultimately show ?case using group_text_length [of cs "'' AND ''"] by simp
next
  case (ClOr cs)
  have "sum_list (map (\<lambda>c. Suc (cfuel c)) cs) \<le> sum_list (map (\<lambda>c. length (clause_text c)) cs) + length cs"
    using ClOr by (intro sum_list_Suc_le) auto
  moreover have "cs \<noteq> []" using ClOr(2) by auto
  ultimately show ?case using group_text_length [of cs "'' OR ''"] by simp
qed (auto simp: in_tags_def)

section \<open>The engine\<close>

definition read_where :: "string \<Rightarrow> string \<Rightarrow> ToSql list \<Rightarrow> (bytes \<times> clause option) option" where
  "read_where base s args =
    (case (strip base s, args) of
       (Some s', Blob t # args') \<Rightarrow>
         (if s' = [] then (if args' = [] then Some (t, None) else None)
          else (case strip '' AND '' s' of
                  None \<Rightarrow> None
                | Some s'' \<Rightarrow>
                    (case parse_clause (length s'') s'' args' of
                       Some (cl, [], []) \<Rightarrow> Some (t, Some cl)
                     | _ \<Rightarrow> None)))
     | _ \<Rightarrow> None)"

definition matching :: "(string \<Rightarrow> string \<Rightarrow> bool) \<Rightarrow> db \<Rightarrow> bytes \<times> clause option \<Rightarrow> item list" where
  "matching like d tc = [r \<leftarrow> db_items d. it_type r = fst tc \<and> (case snd tc of None \<Rightarrow> True | Some cl \<Rightarrow> row_sat like d cl r)]"

definition ref_engine :: "(string \<Rightarrow> string \<Rightarrow> bool) \<Rightarrow> engine" where
  "ref_engine like = \<lparr> run_select = (\<lambda>d s args. map_option (matching like d) (read_where BASE s args)),
     run_count = (\<lambda>d s args. map_option (\<lambda>tc. length (matching like d tc)) (read_where COUNT_BASE s args)) \<rparr>"

lemma parse_clause_text:
  assumes "wf_clause c"
  shows "parse_clause (length (clause_text c)) (clause_text c) (clause_args c) = Some (c, [], [])"
proof -
  have "parse_clause (length (clause_text c)) (clause_text c @ []) (clause_args c @ []) = Some (c, [], [])"
    using clause_parses [OF assms] cfuel_le [OF assms] unfolding parses_def by blast
  then show ?thesis by simp
qed

lemma strip_self [simp]: "strip p p = Some []"
  using strip_append [of p "[]"] by simp

lemma read_where_text:
  "read_where base base [Blob t] = Some (t, None)"
  "wf_clause c \<Longrightarrow> read_where base (where_clause base c) (Blob t # clause_args c) = Some (t, Some c)"
  using parse_clause_text [of c] strip_append [of base "'' AND '' @ clause_text c"]
    strip_append [of "'' AND ''" "clause_text c"]
  by (simp_all add: read_where_def where_clause_def)

lemma ref_engine_ok: "sql_engine like (ref_engine like)"
  by (simp add: sql_engine_def ref_engine_def read_where_text matching_def)

interpretation ref_sqlite: wallet_storage "SQLiteStorage (ref_engine like) j chk" "db_inv fk" db_store j like fk for like j chk fk
  by (rule sqlite_is_storage [OF ref_engine_ok])

section \<open>Properties\<close>

text \<open>
  C38: any sequence of calls to the default storage keeps the constraints of its schema and has on
  the stored records, and in the results it reports, exactly the effect of the abstract map: a failed
  call changes nothing, and a deleted record takes its tags with it. The condition is that the connection enforces
  foreign keys or that no record is deleted, and that no tag name is given twice in one call, as the wallet takes them from a map; without it the claim is false, as \<open>delete_without_foreign_keys\<close> shows. Opening a
  storage leaves the setting at the default of the library.
\<close>
theorem sqlite_refines_store:
  assumes "schema_inv d" and "\<forall>x\<in>set xs. call_ok x" and "db_foreign_keys d \<or> (\<forall>x\<in>set xs. \<not> call_deletes x)"
  shows "\<exists>d' rs. run_calls (exec_storage (SQLiteStorage E j chk)) d xs = (d', rs) \<and> schema_inv d' \<and>
    db_foreign_keys d' = db_foreign_keys d \<and> run_calls exec_store (db_store d) xs = (db_store d', rs)"
proof -
  have "exec_storage (SQLiteStorage E j chk) = exec_storage (SQLiteStorage (ref_engine (=)) j chk)"
  proof (intro ext)
    fix s x show "exec_storage (SQLiteStorage E j chk) s x = exec_storage (SQLiteStorage (ref_engine (=)) j chk) s x"
      by (cases x) (simp_all add: SQLiteStorage_def)
  qed
  moreover have "db_inv (db_foreign_keys d) d" using assms(1) by (simp add: db_inv_def)
  ultimately show ?thesis using ref_sqlite.run_refines [where like = "(=)" and j = j and chk = chk and s = d, OF _ assms(2,3)] by (auto simp: db_inv_def)
qed

text \<open>
  Witness for C38: adding, tagging and deleting a record where foreign keys are enforced; adding one and changing its
  tags where they are not.
\<close>
theorem sqlite_refines_store_witness:
  "(\<exists>d' rs. run_calls (exec_storage (SQLiteStorage (ref_engine (=)) toy_serde True)) (empty_db [])
      [CallAdd [1] [2] \<lparr> ev_data = [5], ev_key = [6] \<rparr> [Encrypted [3] [4]], CallAddTags [1] [2] [PlainText [3] ''x''],
       CallDelete [1] [2], CallDelete [1] [2]] = (d', rs)
    \<and> schema_inv d' \<and> rs = [Inr (), Inr (), Inr (), Inl (Error WalletItemNotFound)] \<and> db_store d' = Map.empty) \<and>
   (\<exists>d' rs. run_calls (exec_storage (SQLiteStorage (ref_engine (=)) toy_serde True)) ((empty_db [])\<lparr>db_foreign_keys := False\<rparr>)
      [CallAdd [1] [2] \<lparr> ev_data = [5], ev_key = [6] \<rparr> [Encrypted [3] [4]], CallDeleteTags [1] [2] [OfEncrypted [3]]] = (d', rs)
    \<and> schema_inv d' \<and> rs = [Inr (), Inr ()] \<and> \<not> db_foreign_keys d')"
proof (rule conjI, goal_cases)
  case 1
  have "schema_inv (empty_db [])" "db_foreign_keys (empty_db [])" using db_inv_empty(1) [of "[]"] by (simp_all add: db_inv_def)
  then show ?case
    using sqlite_refines_store [of "empty_db []" "[CallAdd [1] [2] \<lparr> ev_data = [5], ev_key = [6] \<rparr> [Encrypted [3] [4]],
      CallAddTags [1] [2] [PlainText [3] ''x''], CallDelete [1] [2], CallDelete [1] [2]]" "ref_engine (=)" toy_serde True]
    by (auto simp: db_inv_empty on_record_def)
next
  case 2
  have "schema_inv ((empty_db [])\<lparr>db_foreign_keys := False\<rparr>)"
    by (simp add: schema_inv_def items_inv_def tags_inv_def empty_db_def)
  then show ?case
    using sqlite_refines_store [of "(empty_db [])\<lparr>db_foreign_keys := False\<rparr>" "[CallAdd [1] [2] \<lparr> ev_data = [5], ev_key = [6] \<rparr> [Encrypted [3] [4]],
      CallDeleteTags [1] [2] [OfEncrypted [3]]]" "ref_engine (=)" toy_serde True]
    by (auto simp: on_record_def db_store_def empty_db_def)
qed

text \<open>
  The condition the translation writes can be read back unambiguously: parsing its text and
  arguments gives the clause it was printed from, so no two conditions share a text.
\<close>
theorem sql_text_roundtrip:
  assumes "wf_clause c"
  shows "parse_clause (length (clause_text c)) (clause_text c) (clause_args c) = Some (c, [], [])"
  by (rule parse_clause_text [OF assms])

text \<open>Instance of the above: the condition of \<^verbatim>\<open>{"$not": {"a": {"$in": [..]}}}\<close> with two values.\<close>
theorem sql_text_roundtrip_witness:
  "parse_clause (length (clause_text (ClNot (EncIn [1] [[2], [3]])))) (clause_text (ClNot (EncIn [1] [[2], [3]])))
     [Blob [1], Blob [2], Blob [3]] = Some (ClNot (EncIn [1] [[2], [3]]), [], [])"
  using sql_text_roundtrip [of "ClNot (EncIn [1] [[2], [3]])"] by simp

end
