(* ===== verification/Wallet.thy ===== *)
theory Wallet
  imports Sql_Engine
begin

text \<open>
  The wallet (\<^verbatim>\<open>indy-wallet/src/wallet.rs\<close>, \<^verbatim>\<open>iterator.rs\<close>): it encrypts types, names,
  values and tags, hands them to its storage, and decrypts what the storage returns. The locale
  \<open>encrypted_wallet\<close> extends the storage contract by the cipher's: over any such storage the wallet is a
  map from type and id to plain values and tags, and a search returns the records whose plain tags
  satisfy the query.
\<close>

section \<open>The wallet\<close>

record ('s, 'i) Wallet =
  w_id :: string
  w_storage :: "('s, 'i) WalletStorage"
  w_state :: 's
  w_keys :: Keys

definition wallet_new :: "string \<Rightarrow> ('s, 'i) WalletStorage \<Rightarrow> 's \<Rightarrow> Keys \<Rightarrow> ('s, 'i) Wallet" where
  "wallet_new wid S s keys = \<lparr> w_id = wid, w_storage = S, w_state = s, w_keys = keys \<rparr>"

definition enc_type :: "crypto \<Rightarrow> Keys \<Rightarrow> string \<Rightarrow> bytes" where
  "enc_type c keys t = encrypt_as_searchable c (as_bytes t) (type_key keys) (item_hmac_key keys)"

definition enc_item :: "crypto \<Rightarrow> Keys \<Rightarrow> string \<Rightarrow> bytes" where
  "enc_item c keys n = encrypt_as_searchable c (as_bytes n) (name_key keys) (item_hmac_key keys)"

definition enc_tags :: "crypto \<Rightarrow> Keys \<Rightarrow> Tags \<Rightarrow> Tag list" where
  "enc_tags c keys tags = encrypt_tags c tags (tag_name_key keys) (tag_value_key keys) (tags_hmac_key keys)"

definition with_state :: "('s, 'i) Wallet \<Rightarrow> 's \<times> 'r \<Rightarrow> ('s, 'i) Wallet \<times> 'r" where
  "with_state w sr = (w\<lparr>w_state := fst sr\<rparr>, snd sr)"

definition wallet_add ::
  "crypto \<Rightarrow> value_rnd \<Rightarrow> ('s, 'i) Wallet \<Rightarrow> string \<Rightarrow> string \<Rightarrow> string \<Rightarrow> Tags \<Rightarrow> ('s, 'i) Wallet \<times> unit IndyResult" where
  "wallet_add c rnd w t n value tags =
    with_state w (st_add (w_storage w) (w_state w) (enc_type c (w_keys w) t) (enc_item c (w_keys w) n)
      (ev_encrypt c rnd value (value_key (w_keys w))) (enc_tags c (w_keys w) tags))"

definition wallet_add_tags ::
  "crypto \<Rightarrow> ('s, 'i) Wallet \<Rightarrow> string \<Rightarrow> string \<Rightarrow> Tags \<Rightarrow> ('s, 'i) Wallet \<times> unit IndyResult" where
  "wallet_add_tags c w t n tags =
    with_state w (st_add_tags (w_storage w) (w_state w) (enc_type c (w_keys w) t) (enc_item c (w_keys w) n)
      (enc_tags c (w_keys w) tags))"

definition wallet_update_tags ::
  "crypto \<Rightarrow> ('s, 'i) Wallet \<Rightarrow> string \<Rightarrow> string \<Rightarrow> Tags \<Rightarrow> ('s, 'i) Wallet \<times> unit IndyResult" where
  "wallet_update_tags c w t n tags =
    with_state w (st_update_tags (w_storage w) (w_state w) (enc_type c (w_keys w) t) (enc_item c (w_keys w) n)
      (enc_tags c (w_keys w) tags))"

definition wallet_delete_tags ::
  "crypto \<Rightarrow> ('s, 'i) Wallet \<Rightarrow> string \<Rightarrow> string \<Rightarrow> string list \<Rightarrow> ('s, 'i) Wallet \<times> unit IndyResult" where
  "wallet_delete_tags c w t n tag_names =
    with_state w (st_delete_tags (w_storage w) (w_state w) (enc_type c (w_keys w) t) (enc_item c (w_keys w) n)
      (encrypt_tag_names c tag_names (tag_name_key (w_keys w)) (tags_hmac_key (w_keys w))))"

definition wallet_update ::
  "crypto \<Rightarrow> value_rnd \<Rightarrow> ('s, 'i) Wallet \<Rightarrow> string \<Rightarrow> string \<Rightarrow> string \<Rightarrow> ('s, 'i) Wallet \<times> unit IndyResult" where
  "wallet_update c rnd w t n new_value =
    with_state w (st_update (w_storage w) (w_state w) (enc_type c (w_keys w) t) (enc_item c (w_keys w) n)
      (ev_encrypt c rnd new_value (value_key (w_keys w))))"

definition wallet_delete :: "crypto \<Rightarrow> ('s, 'i) Wallet \<Rightarrow> string \<Rightarrow> string \<Rightarrow> ('s, 'i) Wallet \<times> unit IndyResult" where
  "wallet_delete c w t n =
    with_state w (st_delete (w_storage w) (w_state w) (enc_type c (w_keys w) t) (enc_item c (w_keys w) n))"

definition wallet_get :: "crypto \<Rightarrow> ('s, 'i) Wallet \<Rightarrow> string \<Rightarrow> string \<Rightarrow> string \<Rightarrow> WalletRecord IndyResult" where
  "wallet_get c w t n options =
    bindr (st_get (w_storage w) (w_state w) (enc_type c (w_keys w) t) (enc_item c (w_keys w) n) options) (\<lambda>result.
    bindr (opt_decrypt (\<lambda>v. ev_decrypt c v (value_key (w_keys w))) (sr_value result)) (\<lambda>value.
    bindr (decrypt_tags c (sr_tags result) (tag_name_key (w_keys w)) (tag_value_key (w_keys w))) (\<lambda>tags.
      Inr \<lparr> wr_type = map_option (\<lambda>_. t) (sr_type result), wr_id = n, wr_value = value, wr_tags = tags \<rparr>)))"

text \<open>\<open>parse_json\<close> is the JSON parser of \<^verbatim>\<open>serde_json\<close>.\<close>

definition wallet_search ::
  "crypto \<Rightarrow> (string \<Rightarrow> Value option) \<Rightarrow> ('s, 'i) Wallet \<Rightarrow> string \<Rightarrow> string \<Rightarrow> string option \<Rightarrow> 'i IndyResult" where
  "wallet_search c parse_json w t query options =
    bindr (ok_or (parse_json query) (Error WalletQueryError)) (\<lambda>v.
    bindr (map_err (\<lambda>_. Error WalletQueryError) (deserialize v)) (\<lambda>q.
      let parsed_query = (case optimise q of Some q' \<Rightarrow> q' | None \<Rightarrow> default_query) in
    bindr (encrypt_query c (w_keys w) parsed_query) (\<lambda>encrypted_query.
      st_search (w_storage w) (w_state w) (enc_type c (w_keys w) t) encrypted_query options)))"

definition wallet_close :: "('s, 'i) Wallet \<Rightarrow> ('s, 'i) Wallet \<times> unit IndyResult" where
  "wallet_close w = with_state w (st_close (w_storage w) (w_state w))"

definition wallet_get_all :: "('s, 'i) Wallet \<Rightarrow> 'i IndyResult" where
  "wallet_get_all w = st_get_all (w_storage w) (w_state w)"

section \<open>The iterator\<close>

definition iterator_next :: "crypto \<Rightarrow> ('s, 'i) Wallet \<Rightarrow> 'i \<Rightarrow> 'i \<times> WalletRecord option IndyResult" where
  "iterator_next c w it =
    (case st_next (w_storage w) (w_state w) it of
       (it', Inl e) \<Rightarrow> (it', Inl e)
     | (it', Inr None) \<Rightarrow> (it', Inr None)
     | (it', Inr (Some sr)) \<Rightarrow> (it', bindr (decrypt_storage_record c (w_keys w) sr) (\<lambda>r. Inr (Some r))))"

definition iterator_total_count :: "('s, 'i) Wallet \<Rightarrow> 'i \<Rightarrow> nat option IndyResult" where
  "iterator_total_count w it = st_total_count (w_storage w) it"

text \<open>Calling \<open>iterator_next\<close> until it reports the end; \<open>n\<close> bounds the calls.\<close>

fun fetch_all :: "nat \<Rightarrow> crypto \<Rightarrow> ('s, 'i) Wallet \<Rightarrow> 'i \<Rightarrow> WalletRecord list IndyResult" where
  "fetch_all 0 c w it = Inl Panic"
| "fetch_all (Suc k) c w it =
    (case iterator_next c w it of
       (it', Inl e) \<Rightarrow> Inl e
     | (it', Inr None) \<Rightarrow> Inr []
     | (it', Inr (Some r)) \<Rightarrow> bindr (fetch_all k c w it') (\<lambda>rs. Inr (r # rs)))"

section \<open>What a wallet holds\<close>

record plain =
  pl_value :: string
  pl_tags :: "string \<Rightarrow> string option"

type_synonym vault = "string \<times> string \<Rightarrow> plain option"

text \<open>\<open>tag_rel\<close>: the stored tags are the encryptions of the plain ones, and there are no others.\<close>

definition tag_rel :: "crypto \<Rightarrow> Keys \<Rightarrow> (string \<Rightarrow> string option) \<Rightarrow> stored \<Rightarrow> bool" where
  "tag_rel c keys tags r \<longleftrightarrow>
    (\<forall>m w. stored_etags r m = Some w \<longleftrightarrow>
      (\<exists>n v. \<not> starts_tilde n \<and> tags n = Some v \<and> m = enc_name c keys n \<and> w = enc_val c keys v)) \<and>
    (\<forall>m w. stored_ptags r m = Some w \<longleftrightarrow> (\<exists>n. tags (CHR ''~'' # n) = Some w \<and> m = enc_name c keys n)) \<and>
    (\<forall>n v. tags n = Some v \<longrightarrow> rust_string n \<and> rust_string v)"

definition record_rel :: "crypto \<Rightarrow> Keys \<Rightarrow> plain \<Rightarrow> stored \<Rightarrow> bool" where
  "record_rel c keys p r \<longleftrightarrow> ev_decrypt c (stored_value r) (value_key keys) = Inr (pl_value p) \<and> tag_rel c keys (pl_tags p) r"

definition vault_rel :: "crypto \<Rightarrow> Keys \<Rightarrow> vault \<Rightarrow> store \<Rightarrow> bool" where
  "vault_rel c keys V m \<longleftrightarrow>
    (\<forall>t n. rel_option (record_rel c keys) (V (t, n)) (m (enc_type c keys t, enc_item c keys n))) \<and>
    (\<forall>k r. m k = Some r \<longrightarrow> (\<exists>t n. k = (enc_type c keys t, enc_item c keys n))) \<and>
    (\<forall>t n p. V (t, n) = Some p \<longrightarrow> rust_string t \<and> rust_string n)"

definition shows_plain :: "RecordOptions \<Rightarrow> string \<Rightarrow> string \<Rightarrow> plain \<Rightarrow> WalletRecord \<Rightarrow> bool" where
  "shows_plain opt t n p r \<longleftrightarrow> wr_id r = n \<and>
    wr_type r = (if retrieve_type opt then Some t else None) \<and>
    wr_value r = (if retrieve_value opt then Some (pl_value p) else None) \<and>
    (if retrieve_tags opt then \<exists>tags. wr_tags r = Some tags \<and> distinct (map fst tags) \<and> map_of tags = pl_tags p
     else wr_tags r = None)"

section \<open>Tags through encryption\<close>

lemma enc_inj:
  assumes "crypto_ok c"
  shows "enc_name c keys n = enc_name c keys n' \<longleftrightarrow> n = n'"
    and "enc_val c keys v = enc_val c keys v' \<longleftrightarrow> v = v'"
    and "enc_type c keys t = enc_type c keys t' \<longleftrightarrow> t = t'"
    and "enc_item c keys n = enc_item c keys n' \<longleftrightarrow> n = n'"
  by (simp_all add: enc_name_def enc_val_def enc_type_def enc_item_def searchable_inj [OF assms])

lemma encrypt_tag_cases:
  "encrypt_tag c (tag_name_key keys) (tag_value_key keys) (tags_hmac_key keys) n v =
    (if starts_tilde n then PlainText (enc_name c keys (drop 1 n)) v
     else Encrypted (enc_name c keys n) (enc_val c keys v))"
  by (auto simp: encrypt_tag_def enc_name_def enc_val_def elim!: starts_tildeE)

lemma tilde_drop: "starts_tilde n \<Longrightarrow> CHR ''~'' # drop 1 n = n"
  by (auto elim: starts_tildeE)

lemma tilde_drop_eq: "starts_tilde n \<Longrightarrow> CHR ''~'' # m = n \<longleftrightarrow> m = drop 1 n"
  by (auto elim: starts_tildeE)

lemma put_encrypted_tag:
  assumes c: "crypto_ok c" and rel: "tag_rel c keys tags r" and "rust_string n" and "rust_string v"
  shows "tag_rel c keys (tags(n \<mapsto> v))
    (put_tag (encrypt_tag c (tag_name_key keys) (tag_value_key keys) (tags_hmac_key keys) n v) r)"
proof (cases "starts_tilde n")
  case True
  then show ?thesis
    using assms(3,4) rel
    by (auto simp: encrypt_tag_cases tag_rel_def enc_inj [OF c] tilde_drop tilde_drop_eq split: if_splits)
next
  case False
  then show ?thesis
    using assms(3,4) rel
    by (auto simp: encrypt_tag_cases tag_rel_def enc_inj [OF c] split: if_splits)
qed

definition put_tags :: "Tags \<Rightarrow> (string \<Rightarrow> string option) \<Rightarrow> (string \<Rightarrow> string option)" where
  "put_tags new tags = fold (\<lambda>(n, v) m. m(n \<mapsto> v)) new tags"

definition drop_tags :: "string list \<Rightarrow> (string \<Rightarrow> string option) \<Rightarrow> (string \<Rightarrow> string option)" where
  "drop_tags names tags = fold (\<lambda>n m. m(n := None)) names tags"

lemma put_tags_simps [simp]:
  "put_tags [] m = m" "put_tags ((n, v) # new) m = put_tags new (m(n \<mapsto> v))"
  by (simp_all add: put_tags_def)

lemma put_tags_map_of: "distinct (map fst new) \<Longrightarrow> put_tags new m = m ++ map_of new"
proof (induction new arbitrary: m)
  case (Cons t new)
  obtain n v where t: "t = (n, v)" by force
  have "n \<notin> dom (map_of new)" using Cons.prems by (simp add: t dom_map_of_conv_image_fst)
  then have "m(n \<mapsto> v) ++ map_of new = (m ++ map_of new)(n \<mapsto> v)"
    by (auto simp: fun_eq_iff map_add_def split: option.split)
  moreover have "put_tags (t # new) m = m(n \<mapsto> v) ++ map_of new"
    unfolding t put_tags_simps by (rule Cons.IH) (use Cons.prems in simp)
  moreover have "m ++ map_of (t # new) = (m ++ map_of new)(n \<mapsto> v)"
    by (simp only: t map_of.simps fst_conv snd_conv map_add_upd)
  ultimately show ?case by (simp only:)
qed simp

lemma put_encrypted_tags:
  assumes "crypto_ok c"
  shows "tag_rel c keys tags r \<Longrightarrow> \<forall>(n, v)\<in>set new. rust_string n \<and> rust_string v \<Longrightarrow>
    tag_rel c keys (put_tags new tags) (fold put_tag (enc_tags c keys new) r)"
proof (induction new arbitrary: tags r)
  case (Cons t new)
  obtain n v where t: "t = (n, v)" by force
  let ?e = "encrypt_tag c (tag_name_key keys) (tag_value_key keys) (tags_hmac_key keys) n v"
  have "rust_string n" "rust_string v" "\<forall>(n, v)\<in>set new. rust_string n \<and> rust_string v"
    using Cons.prems(2) by (auto simp: t)
  then have "tag_rel c keys (put_tags new (tags(n \<mapsto> v))) (fold put_tag (enc_tags c keys new) (put_tag ?e r))"
    by (intro Cons.IH put_encrypted_tag [OF assms Cons.prems(1)])
  moreover have "enc_tags c keys (t # new) = ?e # enc_tags c keys new"
    by (simp add: t enc_tags_def encrypt_tags_def)
  ultimately show ?case by (simp only: t put_tags_simps fold_Cons o_apply)
qed (simp add: enc_tags_def encrypt_tags_def)

lemma tag_rel_bare: "tag_rel c keys Map.empty (bare v)"
  by (simp add: tag_rel_def bare_def)

lemma tag_rel_value [simp]: "tag_rel c keys tags (r\<lparr>stored_value := v\<rparr>) \<longleftrightarrow> tag_rel c keys tags r"
  by (simp add: tag_rel_def)

lemma encrypt_tag_name_cases:
  "hd (encrypt_tag_names c [n] (tag_name_key keys) (tags_hmac_key keys)) =
    (if starts_tilde n then OfPlain (enc_name c keys (drop 1 n)) else OfEncrypted (enc_name c keys n))"
  by (auto simp: encrypt_tag_names_def enc_name_def elim!: starts_tildeE)

lemma drop_encrypted_tag:
  assumes c: "crypto_ok c" and rel: "tag_rel c keys tags r"
  shows "tag_rel c keys (tags(n := None))
    (drop_tag (hd (encrypt_tag_names c [n] (tag_name_key keys) (tags_hmac_key keys))) r)"
proof (cases "starts_tilde n")
  case True
  then show ?thesis
    unfolding encrypt_tag_name_cases
    using rel by (auto simp: tag_rel_def enc_inj [OF c] tilde_drop tilde_drop_eq split: if_splits)
next
  case False
  then show ?thesis
    unfolding encrypt_tag_name_cases
    using rel by (auto simp: tag_rel_def enc_inj [OF c] split: if_splits)
qed

lemma encrypt_tag_names_Cons:
  "encrypt_tag_names c (n # ns) k hk = hd (encrypt_tag_names c [n] k hk) # encrypt_tag_names c ns k hk"
  "encrypt_tag_names c [] k hk = []"
  by (simp_all add: encrypt_tag_names_def)

lemma drop_encrypted_tags:
  assumes "crypto_ok c"
  shows "tag_rel c keys tags r \<Longrightarrow>
    tag_rel c keys (drop_tags ns tags) (fold drop_tag (encrypt_tag_names c ns (tag_name_key keys) (tags_hmac_key keys)) r)"
proof (induction ns arbitrary: tags r)
  case (Cons n ns)
  from Cons.IH [OF drop_encrypted_tag [OF assms Cons.prems, of n]]
  show ?case
    unfolding drop_tags_def encrypt_tag_names_Cons(1) [of c n ns] fold_Cons o_apply .
qed (simp add: drop_tags_def encrypt_tag_names_Cons)

lemma stored_value_fold [simp]:
  "stored_value (fold put_tag ts r) = stored_value r" "stored_value (fold drop_tag ns r) = stored_value r"
proof -
  have "stored_value (put_tag t r) = stored_value r" "stored_value (drop_tag n r) = stored_value r" for t n r
    by (cases t; simp) (cases n; simp)
  then show "stored_value (fold put_tag ts r) = stored_value r" "stored_value (fold drop_tag ns r) = stored_value r"
    by (induction ts arbitrary: r; simp) (induction ns arbitrary: r; simp add: \<open>\<And>n r. stored_value (drop_tag n r) = stored_value r\<close>)
qed

lemma distinct_enc_tags:
  assumes "crypto_ok c" and "distinct (map fst tags)"
  shows "distinct (map tag_name_of (enc_tags c keys tags))"
proof -
  have "map tag_name_of (enc_tags c keys tags) =
      map (\<lambda>n. if starts_tilde n then OfPlain (enc_name c keys (drop 1 n)) else OfEncrypted (enc_name c keys n)) (map fst tags)"
    by (auto simp: enc_tags_def encrypt_tags_def encrypt_tag_cases split: prod.splits)
  moreover have "inj (\<lambda>n. if starts_tilde n then OfPlain (enc_name c keys (drop 1 n)) else OfEncrypted (enc_name c keys n))"
    by (auto simp: inj_def enc_inj [OF assms(1)] elim!: starts_tildeE split: if_splits)
  ultimately show ?thesis
    using assms(2) by (simp only: distinct_map [of _ "map fst tags"]) (blast intro: inj_on_subset)
qed

text \<open>A tag list read from the storage is the encryption of a list of the plain tags.\<close>

lemma stored_tag_plain:
  assumes "tag_rel c keys tags r" and "lists_tags ts r" and "e \<in> set ts"
  shows "\<exists>n v. tags n = Some v \<and> e = encrypt_tag c (tag_name_key keys) (tag_value_key keys) (tags_hmac_key keys) n v"
proof (cases e)
  case (Encrypted m w)
  then have "stored_etags r m = Some w" using assms(2,3) by (auto simp: lists_tags_def)
  then show ?thesis using assms(1) by (auto simp: tag_rel_def Encrypted encrypt_tag_cases)
next
  case (PlainText m w)
  then have "stored_ptags r m = Some w" using assms(2,3) by (auto simp: lists_tags_def)
  then obtain n where "tags (CHR ''~'' # n) = Some w" "m = enc_name c keys n" using assms(1) by (auto simp: tag_rel_def)
  then show ?thesis by (intro exI [of _ "CHR ''~'' # n"] exI [of _ w]) (simp add: PlainText encrypt_tag_cases)
qed

lemma plain_list_exists:
  "\<forall>e\<in>set ts. \<exists>n v. tags n = Some v \<and> e = f n v \<Longrightarrow>
    \<exists>pl. ts = map (\<lambda>(n, v). f n v) pl \<and> (\<forall>(n, v)\<in>set pl. tags n = Some v)"
proof (induction ts)
  case (Cons e ts)
  then obtain n v where "tags n = Some v" "e = f n v" by auto
  moreover obtain pl where "ts = map (\<lambda>(n, v). f n v) pl" "\<forall>(n, v)\<in>set pl. tags n = Some v" using Cons by auto
  ultimately show ?case by (intro exI [of _ "(n, v) # pl"]) simp
qed simp

lemma lists_tags_plain:
  assumes c: "crypto_ok c" and rel: "tag_rel c keys tags r" and ts: "lists_tags ts r"
  shows "\<exists>pl. ts = enc_tags c keys pl \<and> tags_ok pl \<and> map_of pl = tags"
proof -
  let ?f = "encrypt_tag c (tag_name_key keys) (tag_value_key keys) (tags_hmac_key keys)"
  obtain pl where pl: "ts = map (\<lambda>(n, v). ?f n v) pl" "\<forall>(n, v)\<in>set pl. tags n = Some v"
    using plain_list_exists [of ts tags ?f] stored_tag_plain [OF rel ts] by blast
  have "distinct (map (\<lambda>(n, v). tag_name_of (?f n v)) pl)"
    using ts pl(1) by (simp add: lists_tags_def o_def case_prod_unfold)
  then have "distinct pl" by (simp add: distinct_map)
  moreover have "inj_on fst (set pl)" 
  proof (rule inj_onI)
    fix x y assume xy: "x \<in> set pl" "y \<in> set pl" "fst x = fst y"
    have "tags (fst x) = Some (snd x)" "tags (fst y) = Some (snd y)"
      using bspec [OF pl(2) xy(1)] bspec [OF pl(2) xy(2)] by (simp_all add: case_prod_unfold)
    with xy(3) show "x = y" by (simp add: prod_eq_iff)
  qed
  ultimately have d: "distinct (map fst pl)" by (simp add: distinct_map)
  have "map_of pl = tags"
  proof
    fix n
    show "map_of pl n = tags n"
    proof (cases "tags n")
      case None
      then have "n \<notin> fst ` set pl" using pl(2) by force
      then show ?thesis using None by (simp add: map_of_eq_None_iff)
    next
      case (Some v)
      have "?f n v \<in> set ts"
      proof (cases "starts_tilde n")
        case True
        then have "stored_ptags r (enc_name c keys (drop 1 n)) = Some v"
          using Some rel tilde_drop [OF True] unfolding tag_rel_def by metis
        then show ?thesis using True ts by (simp add: encrypt_tag_cases lists_tags_def)
      next
        case False
        then have "stored_etags r (enc_name c keys n) = Some (enc_val c keys v)"
          using Some rel unfolding tag_rel_def by blast
        then show ?thesis using False ts by (simp add: encrypt_tag_cases lists_tags_def)
      qed
      then obtain n' v' where n': "(n', v') \<in> set pl" "?f n v = ?f n' v'" using pl(1) by auto
      then have "n = n'" by (auto simp: encrypt_tag_cases enc_inj [OF c] elim!: starts_tildeE split: if_splits)
      then show ?thesis using n'(1) pl(2) d Some by force
    qed
  qed
  moreover have "tags_ok pl" using d pl(2) rel by (force simp: tags_ok_def tag_rel_def)
  ultimately show ?thesis using pl(1) by (auto simp: enc_tags_def encrypt_tags_def)
qed

section \<open>The wallet over a storage\<close>

lemma tag_relD:
  assumes "tag_rel c keys tags r"
  shows "stored_etags r m = Some w \<longleftrightarrow>
      (\<exists>n v. \<not> starts_tilde n \<and> tags n = Some v \<and> m = enc_name c keys n \<and> w = enc_val c keys v)"
    and "stored_ptags r m = Some u \<longleftrightarrow> (\<exists>n. tags (CHR ''~'' # n) = Some u \<and> m = enc_name c keys n)"
  using assms unfolding tag_rel_def by blast+

lemma option_eqI: "(\<And>w. x = Some w \<longleftrightarrow> y = Some w) \<Longrightarrow> x = y"
  by (cases x; cases y) auto

lemma tag_rel_enc_view:
  assumes c: "crypto_ok c" and rel: "tag_rel c keys tags r"
  shows "enc_view c keys tags (stored_etags r) (stored_ptags r)"
proof -
  have "stored_etags r (enc_name c keys n) = map_option (enc_val c keys) (tags n)" if "\<not> starts_tilde n" for n
  proof (rule option_eqI)
    fix w
    show "stored_etags r (enc_name c keys n) = Some w \<longleftrightarrow> map_option (enc_val c keys) (tags n) = Some w"
      unfolding tag_relD(1) [OF rel] enc_inj(1) [OF c] using that by auto
  qed
  moreover have "stored_ptags r (enc_name c keys n) = tags (CHR ''~'' # n)" for n
  proof (rule option_eqI)
    fix w
    show "stored_ptags r (enc_name c keys n) = Some w \<longleftrightarrow> tags (CHR ''~'' # n) = Some w"
      unfolding tag_relD(2) [OF rel] enc_inj(1) [OF c] by auto
  qed
  ultimately show ?thesis by (simp add: enc_view_def)
qed

lemma decrypt_shown_tags:
  assumes "crypto_ok c" and "tag_rel c keys tags r" and "lists_tags ts r"
  shows "\<exists>pl. decrypt_tags c (Some ts) (tag_name_key keys) (tag_value_key keys) = Inr (Some pl) \<and>
    distinct (map fst pl) \<and> map_of pl = tags"
  using lists_tags_plain [OF assms] decrypt_encrypt_tags [OF assms(1)]
  by (auto simp: enc_tags_def tags_ok_def)

lemma decrypt_tags_None [simp]: "decrypt_tags c None nk vk = Inr None"
  by (simp add: decrypt_tags_def)

text \<open>Decrypting what the storage shows gives the plain record.\<close>

lemma decrypt_shown_record:
  assumes c: "crypto_ok c" and rel: "record_rel c keys p r" and "rust_string t" and "rust_string n"
    and sr: "shows_record opt (enc_type c keys t) (enc_item c keys n) r sr"
  shows "\<exists>wr. decrypt_storage_record c keys sr = Inr wr \<and> shows_plain opt t n p wr"
proof -
  have v: "ev_decrypt c (stored_value r) (value_key keys) = Inr (pl_value p)" and tr: "tag_rel c keys (pl_tags p) r"
    using rel by (simp_all add: record_rel_def)
  obtain tags where "decrypt_tags c (sr_tags sr) (tag_name_key keys) (tag_value_key keys) = Inr tags"
    "if retrieve_tags opt then \<exists>pl. tags = Some pl \<and> distinct (map fst pl) \<and> map_of pl = pl_tags p else tags = None"
    using sr decrypt_shown_tags [OF c tr] unfolding shows_record_def by (cases "retrieve_tags opt") force+
  then show ?thesis
    using sr assms(3,4) v c
    by (simp add: decrypt_storage_record_def shows_record_def shows_plain_def enc_item_def enc_type_def)
qed

lemma vault_lookup:
  assumes "vault_rel c keys V m"
  shows "V (t, n) = None \<Longrightarrow> m (enc_type c keys t, enc_item c keys n) = None"
    and "V (t, n) = Some p \<Longrightarrow> \<exists>r. m (enc_type c keys t, enc_item c keys n) = Some r \<and> record_rel c keys p r
      \<and> rust_string t \<and> rust_string n"
proof -
  have rel: "rel_option (record_rel c keys) (V (t, n)) (m (enc_type c keys t, enc_item c keys n))"
    and ok: "\<And>p. V (t, n) = Some p \<Longrightarrow> rust_string t \<and> rust_string n"
    using assms unfolding vault_rel_def by blast+
  show "V (t, n) = None \<Longrightarrow> m (enc_type c keys t, enc_item c keys n) = None" using rel by simp
  show "V (t, n) = Some p \<Longrightarrow> \<exists>r. m (enc_type c keys t, enc_item c keys n) = Some r \<and> record_rel c keys p r
      \<and> rust_string t \<and> rust_string n" using rel ok by (auto simp: option_rel_Some1)
qed

lemma vault_update:
  assumes "crypto_ok c" and "vault_rel c keys V m" and "rel_option (record_rel c keys) p r"
    and "p \<noteq> None \<longrightarrow> rust_string t \<and> rust_string n"
  shows "vault_rel c keys (V((t, n) := p)) (m((enc_type c keys t, enc_item c keys n) := r))"
  using assms by (auto simp: vault_rel_def enc_inj [OF assms(1)])

text \<open>The wallet \<open>w\<close> over the storage holds the plain records \<open>V\<close>.\<close>

definition wallet_holds ::
  "('s, 'i) WalletStorage \<Rightarrow> ('s \<Rightarrow> bool) \<Rightarrow> ('s \<Rightarrow> store) \<Rightarrow> crypto \<Rightarrow> ('s, 'i) Wallet \<Rightarrow> vault \<Rightarrow> bool" where
  "wallet_holds S ok view c w V \<longleftrightarrow>
    w_storage w = S \<and> ok (w_state w) \<and> vault_rel c (w_keys w) V (view (w_state w))"

text \<open>The state-changing calls of a wallet, on the code and, as specification, on the plain records.\<close>

datatype wallet_call =
    WAdd value_rnd string string string Tags
  | WUpdate value_rnd string string string
  | WAddTags string string Tags
  | WUpdateTags string string Tags
  | WDeleteTags string string "string list"
  | WDelete string string

fun exec_wallet :: "crypto \<Rightarrow> ('s, 'i) Wallet \<Rightarrow> wallet_call \<Rightarrow> ('s, 'i) Wallet \<times> unit IndyResult" where
  "exec_wallet c w (WAdd rnd t n v tags) = wallet_add c rnd w t n v tags"
| "exec_wallet c w (WUpdate rnd t n v) = wallet_update c rnd w t n v"
| "exec_wallet c w (WAddTags t n tags) = wallet_add_tags c w t n tags"
| "exec_wallet c w (WUpdateTags t n tags) = wallet_update_tags c w t n tags"
| "exec_wallet c w (WDeleteTags t n names) = wallet_delete_tags c w t n names"
| "exec_wallet c w (WDelete t n) = wallet_delete c w t n"

definition on_plain :: "vault \<Rightarrow> string \<times> string \<Rightarrow> (plain \<Rightarrow> plain option) \<Rightarrow> vault \<times> unit IndyResult" where
  "on_plain V k f = (case V k of None \<Rightarrow> (V, Inl (Error WalletItemNotFound)) | Some p \<Rightarrow> (V(k := f p), Inr ()))"

fun exec_vault :: "vault \<Rightarrow> wallet_call \<Rightarrow> vault \<times> unit IndyResult" where
  "exec_vault V (WAdd rnd t n v tags) =
    (case V (t, n) of
       None \<Rightarrow> (V((t, n) \<mapsto> \<lparr> pl_value = v, pl_tags = map_of tags \<rparr>), Inr ())
     | Some _ \<Rightarrow> (V, Inl (Error WalletItemAlreadyExists)))"
| "exec_vault V (WUpdate rnd t n v) = on_plain V (t, n) (\<lambda>p. Some (p\<lparr>pl_value := v\<rparr>))"
| "exec_vault V (WAddTags t n tags) = on_plain V (t, n) (\<lambda>p. Some (p\<lparr>pl_tags := pl_tags p ++ map_of tags\<rparr>))"
| "exec_vault V (WUpdateTags t n tags) = on_plain V (t, n) (\<lambda>p. Some (p\<lparr>pl_tags := map_of tags\<rparr>))"
| "exec_vault V (WDeleteTags t n names) = on_plain V (t, n) (\<lambda>p. Some (p\<lparr>pl_tags := drop_tags names (pl_tags p)\<rparr>))"
| "exec_vault V (WDelete t n) = on_plain V (t, n) (\<lambda>_. None)"

text \<open>Arguments are Rust strings and maps, random keys and nonces have their lengths.\<close>

fun wallet_call_ok :: "wallet_call \<Rightarrow> bool" where
  "wallet_call_ok (WAdd rnd t n v tags) \<longleftrightarrow> rnd_ok rnd \<and> rust_string t \<and> rust_string n \<and> rust_string v \<and> tags_ok tags"
| "wallet_call_ok (WUpdate rnd t n v) \<longleftrightarrow> rnd_ok rnd \<and> rust_string v"
| "wallet_call_ok (WAddTags t n tags) \<longleftrightarrow> tags_ok tags"
| "wallet_call_ok (WUpdateTags t n tags) \<longleftrightarrow> tags_ok tags"
| "wallet_call_ok _ \<longleftrightarrow> True"

fun wallet_call_deletes :: "wallet_call \<Rightarrow> bool" where
  "wallet_call_deletes (WDelete t n) \<longleftrightarrow> True"
| "wallet_call_deletes _ \<longleftrightarrow> False"

text \<open>Draining an iterator decrypts what the storage delivers.\<close>

lemma fetch_all_yields:
  assumes "yields (w_storage w) (w_state w) it srs"
  shows "traverse (decrypt_storage_record c (w_keys w)) srs = Inr wrs \<Longrightarrow> length srs < k \<Longrightarrow>
    fetch_all k c w it = Inr wrs"
  using assms
proof (induction arbitrary: wrs k)
  case (yields_end it it')
  then show ?case by (cases k) (auto simp: iterator_next_def)
next
  case (yields_more it it' sr srs)
  then show ?case by (cases k) (auto simp: iterator_next_def bindr_Inr_iff)
qed

lemma decrypt_shown_list:
  assumes c: "crypto_ok c" and rel: "vault_rel c keys V m"
    and "list_all2 (\<lambda>k sr. \<exists>r. m k = Some r \<and> shows_record opt (fst k) (snd k) r sr) ks srs"
  shows "\<exists>ps wrs. ks = map (\<lambda>(t, n). (enc_type c keys t, enc_item c keys n)) ps \<and>
    traverse (decrypt_storage_record c keys) srs = Inr wrs \<and>
    list_all2 (\<lambda>(t, n) wr. \<exists>p. V (t, n) = Some p \<and> shows_plain opt t n p wr) ps wrs"
  using assms(3)
proof (induction rule: list_all2_induct)
  case Nil
  then show ?case by (auto intro: exI [of _ "[]"])
next
  case (Cons k ks sr srs)
  obtain r where r: "m k = Some r" "shows_record opt (fst k) (snd k) r sr" using Cons.hyps by blast
  obtain t n where k: "k = (enc_type c keys t, enc_item c keys n)" using rel r(1) unfolding vault_rel_def by blast
  obtain p where p: "V (t, n) = Some p" using vault_lookup(1) [OF rel, of t n] r(1) by (cases "V (t, n)") (auto simp: k)
  then have "record_rel c keys p r" "rust_string t" "rust_string n"
    using vault_lookup(2) [OF rel p] r(1) by (auto simp: k)
  then obtain wr where wr: "decrypt_storage_record c keys sr = Inr wr" "shows_plain opt t n p wr"
    using decrypt_shown_record [OF c, of keys p r t n opt sr] r(2) by (auto simp: k)
  obtain ps wrs where "ks = map (\<lambda>(t, n). (enc_type c keys t, enc_item c keys n)) ps"
    "traverse (decrypt_storage_record c keys) srs = Inr wrs"
    "list_all2 (\<lambda>(t, n) wr. \<exists>p. V (t, n) = Some p \<and> shows_plain opt t n p wr) ps wrs"
    using Cons.IH by blast
  with wr p k show ?case by (intro exI [of _ "(t, n) # ps"] exI [of _ "wr # wrs"]) simp
qed

text \<open>\<open>delivers\<close>: the records delivered are exactly those of the vault under the given keys, each once.\<close>

definition delivers :: "RecordOptions \<Rightarrow> vault \<Rightarrow> (string \<times> string) set \<Rightarrow> WalletRecord list \<Rightarrow> bool" where
  "delivers opt V P wrs \<longleftrightarrow> (\<exists>ps. distinct ps \<and> set ps = P \<and>
    list_all2 (\<lambda>(t, n) wr. \<exists>p. V (t, n) = Some p \<and> shows_plain opt t n p wr) ps wrs)"

lemma distinct_set_singleton: "distinct ps \<and> set ps = {x} \<longleftrightarrow> ps = [x]"
  by (cases ps rule: remdups_adj.cases) auto

lemma delivers_singleton:
  "delivers opt V {(t, n)} wrs \<longleftrightarrow> (\<exists>wr p. wrs = [wr] \<and> V (t, n) = Some p \<and> shows_plain opt t n p wr)"
  unfolding delivers_def conj_assoc [symmetric] distinct_set_singleton by (auto simp: list_all2_Cons1)

lemma decrypt_shown_all:
  assumes c: "crypto_ok c" and rel: "vault_rel c keys V m" and sh: "shows_all opt m K srs"
    and P: "\<And>t n. (t, n) \<in> P \<longleftrightarrow> V (t, n) \<noteq> None \<and> (enc_type c keys t, enc_item c keys n) \<in> K"
  shows "\<exists>wrs. traverse (decrypt_storage_record c keys) srs = Inr wrs \<and> delivers opt V P wrs"
proof -
  let ?e = "\<lambda>(t, n). (enc_type c keys t, enc_item c keys n)"
  obtain ks where ks: "distinct ks" "set ks = K"
    "list_all2 (\<lambda>k sr. \<exists>r. m k = Some r \<and> shows_record opt (fst k) (snd k) r sr) ks srs"
    using sh unfolding shows_all_def by blast
  obtain ps wrs where ps: "ks = map ?e ps" "traverse (decrypt_storage_record c keys) srs = Inr wrs"
    "list_all2 (\<lambda>(t, n) wr. \<exists>p. V (t, n) = Some p \<and> shows_plain opt t n p wr) ps wrs"
    using decrypt_shown_list [OF c rel ks(3)] by blast
  have in_V: "V (t, n) \<noteq> None" if "(t, n) \<in> set ps" for t n
    using ps(3) that by (force simp: list_all2_conv_all_nth in_set_conv_nth)
  have "distinct ps" using ks(1) ps(1) by (simp add: distinct_map)
  moreover have "set ps = P"
  proof (rule set_eqI, clarify)
    fix t n
    have "(enc_type c keys t, enc_item c keys n) \<in> K \<longleftrightarrow> (t, n) \<in> set ps"
      using ks(2) ps(1) by (auto simp: enc_inj [OF c])
    then show "(t, n) \<in> set ps \<longleftrightarrow> (t, n) \<in> P" using P in_V by blast
  qed
  ultimately show ?thesis using ps(2,3) unfolding delivers_def by blast
qed

locale encrypted_wallet = wallet_storage S inv abs j like cascades
  for S :: "('s, 'i) WalletStorage" and inv :: "'s \<Rightarrow> bool" and abs :: "'s \<Rightarrow> store" and j :: options_serde
    and like :: "string \<Rightarrow> string \<Rightarrow> bool" and cascades :: bool +
  fixes c :: crypto
  assumes crypto: "crypto_ok c"
begin

text \<open>A call on one record, seen at both levels.\<close>

lemma record_step:
  assumes w: "wallet_holds S inv abs c w V"
    and none: "abs (w_state w) (enc_type c (w_keys w) t, enc_item c (w_keys w) n) = None \<Longrightarrow>
      sr = (w_state w, Inl (Error WalletItemNotFound))"
    and some: "\<And>r. abs (w_state w) (enc_type c (w_keys w) t, enc_item c (w_keys w) n) = Some r \<Longrightarrow>
      \<exists>s'. sr = (s', Inr ()) \<and> inv s' \<and> abs s' = (abs (w_state w))((enc_type c (w_keys w) t, enc_item c (w_keys w) n) := g r)"
    and step: "\<And>p r. record_rel c (w_keys w) p r \<Longrightarrow> rel_option (record_rel c (w_keys w)) (f p) (g r)"
  shows "\<exists>w' V' r. with_state w sr = (w', r) \<and> w_keys w' = w_keys w \<and> wallet_holds S inv abs c w' V' \<and>
    on_plain V (t, n) f = (V', r)"
proof -
  let ?k = "(enc_type c (w_keys w) t, enc_item c (w_keys w) n)"
  have rel: "vault_rel c (w_keys w) V (abs (w_state w))" and st: "w_storage w = S"
    using w by (simp_all add: wallet_holds_def)
  show ?thesis
  proof (cases "V (t, n)")
    case None
    then show ?thesis
      using none vault_lookup(1) [OF rel None] w by (simp add: with_state_def on_plain_def)
  next
    case (Some p)
    obtain r where r: "abs (w_state w) ?k = Some r" "record_rel c (w_keys w) p r" "rust_string t" "rust_string n"
      using vault_lookup(2) [OF rel Some] by blast
    obtain s' where s': "sr = (s', Inr ())" "inv s'" "abs s' = (abs (w_state w))(?k := g r)"
      using some [OF r(1)] by blast
    have "vault_rel c (w_keys w) (V((t, n) := f p)) (abs s')"
      unfolding s'(3) using r by (intro vault_update [OF crypto rel] step) auto
    then show ?thesis using s' st by (simp add: with_state_def on_plain_def Some wallet_holds_def)
  qed
qed

lemma exec_wallet_refines:
  assumes w: "wallet_holds S inv abs c w V" and ok: "wallet_call_ok x" and del: "wallet_call_deletes x \<longrightarrow> cascades"
  shows "\<exists>w' V' r. exec_wallet c w x = (w', r) \<and> w_keys w' = w_keys w \<and> wallet_holds S inv abs c w' V' \<and>
    exec_vault V x = (V', r)"
proof -
  have rel: "vault_rel c (w_keys w) V (abs (w_state w))" and st: "w_storage w = S" and i: "inv (w_state w)"
    using w by (simp_all add: wallet_holds_def)
  have val: "ev_decrypt c (ev_encrypt c rnd v k) k = Inr v" if "rnd_ok rnd" "rust_string v" for rnd v k
    using that crypto by simp
  have tags: "tag_rel c (w_keys w) (m ++ map_of tags) (fold put_tag (enc_tags c (w_keys w) tags) r)"
    if "tags_ok tags" "tag_rel c (w_keys w) m r" for tags m r
    using put_encrypted_tags [OF crypto that(2), of tags] that(1) put_tags_map_of [of tags m]
    by (simp add: tags_ok_def)
  have new: "tag_rel c (w_keys w) (map_of tags) (fold put_tag (enc_tags c (w_keys w) tags) (bare v))"
    if "tags_ok tags" for tags v
    using tags [OF that tag_rel_bare] by simp
  have dist: "distinct (map tag_name_of (enc_tags c (w_keys w) tags))" if "tags_ok tags" for tags
    using distinct_enc_tags [OF crypto] that by (simp add: tags_ok_def)
  show ?thesis
  proof (cases x)
    case (WAdd rnd t n v tags)
    let ?k = "(enc_type c (w_keys w) t, enc_item c (w_keys w) n)"
    let ?v = "ev_encrypt c rnd v (value_key (w_keys w))"
    show ?thesis
    proof (cases "V (t, n)")
      case None
      obtain s' where s': "st_add S (w_state w) (fst ?k) (snd ?k) ?v (enc_tags c (w_keys w) tags) = (s', Inr ())" "inv s'"
        "abs s' = (abs (w_state w))(?k \<mapsto> fold put_tag (enc_tags c (w_keys w) tags) (bare ?v))"
        using add_new [OF i vault_lookup(1) [OF rel None] dist] ok WAdd by auto
      have "vault_rel c (w_keys w) (V((t, n) \<mapsto> \<lparr> pl_value = v, pl_tags = map_of tags \<rparr>)) (abs s')"
        unfolding s'(3) using ok WAdd new val
        by (intro vault_update [OF crypto rel]) (simp_all add: record_rel_def bare_def)
      then show ?thesis using s' st by (simp add: WAdd wallet_add_def with_state_def None wallet_holds_def)
    next
      case (Some p)
      then show ?thesis
        using add_old [OF i] vault_lookup(2) [OF rel Some] w st
        by (fastforce simp: WAdd wallet_add_def with_state_def)
    qed
  next
    case (WUpdate rnd t n v)
    then show ?thesis
      using ok val update_some [OF i] update_none [OF i]
      unfolding WUpdate exec_wallet.simps exec_vault.simps wallet_update_def st
      by (intro record_step [OF w, where g = "\<lambda>r. Some (r\<lparr>stored_value := ev_encrypt c rnd v (value_key (w_keys w))\<rparr>)"])
         (auto simp: record_rel_def)
  next
    case (WAddTags t n tg)
    then show ?thesis
      using ok tags add_tags_some [OF i] add_tags_none [OF i]
      unfolding WAddTags exec_wallet.simps exec_vault.simps wallet_add_tags_def st
      by (intro record_step [OF w, where g = "\<lambda>r. Some (fold put_tag (enc_tags c (w_keys w) tg) r)"])
         (auto simp: record_rel_def)
  next
    case (WUpdateTags t n tg)
    then show ?thesis
      using ok new dist update_tags_some [OF i] update_tags_none [OF i]
      unfolding WUpdateTags exec_wallet.simps exec_vault.simps wallet_update_tags_def st
      by (intro record_step [OF w, where g = "\<lambda>r. Some (fold put_tag (enc_tags c (w_keys w) tg) (bare (stored_value r)))"])
         (auto simp: record_rel_def bare_def)
  next
    case (WDeleteTags t n ns)
    then show ?thesis
      using drop_encrypted_tags [OF crypto] delete_tags_some [OF i] delete_tags_none [OF i]
      unfolding WDeleteTags exec_wallet.simps exec_vault.simps wallet_delete_tags_def st
      by (intro record_step [OF w, where g = "\<lambda>r. Some (fold drop_tag (encrypt_tag_names c ns
             (tag_name_key (w_keys w)) (tags_hmac_key (w_keys w))) r)"])
         (auto simp: record_rel_def)
  next
    case (WDelete t n)
    then show ?thesis
      using del delete_some [OF _ i] delete_none [OF i]
      unfolding WDelete exec_wallet.simps exec_vault.simps wallet_delete_def st
      by (intro record_step [OF w, where g = "\<lambda>r. None"]) auto
  qed
qed

lemma run_wallet_refines:
  "wallet_holds S inv abs c w V \<Longrightarrow> \<forall>x\<in>set xs. wallet_call_ok x \<Longrightarrow> cascades \<or> (\<forall>x\<in>set xs. \<not> wallet_call_deletes x) \<Longrightarrow>
    \<exists>w' V' rs. run_calls (exec_wallet c) w xs = (w', rs) \<and> wallet_holds S inv abs c w' V' \<and>
      run_calls exec_vault V xs = (V', rs)"
proof (induction xs arbitrary: w V)
  case (Cons x xs)
  obtain w1 V1 r where 1: "exec_wallet c w x = (w1, r)" "wallet_holds S inv abs c w1 V1" "exec_vault V x = (V1, r)"
    using exec_wallet_refines [OF Cons.prems(1), of x] Cons.prems(2,3) by auto
  obtain w2 V2 rs where 2: "run_calls (exec_wallet c) w1 xs = (w2, rs)" "wallet_holds S inv abs c w2 V2"
    "run_calls exec_vault V1 xs = (V2, rs)"
    using Cons.IH [OF 1(2)] Cons.prems(2,3) by auto
  from 1 2 show ?case by simp
qed simp

lemma get_plain:
  assumes w: "wallet_holds S inv abs c w V" and o: "record_options_of j opts = Inr opt"
  shows "V (t, n) = None \<Longrightarrow> wallet_get c w t n opts = Inl (Error WalletItemNotFound)"
    and "V (t, n) = Some p \<Longrightarrow> \<exists>wr. wallet_get c w t n opts = Inr wr \<and> shows_plain opt t n p wr"
proof -
  let ?t = "enc_type c (w_keys w) t" and ?n = "enc_item c (w_keys w) n"
  have rel: "vault_rel c (w_keys w) V (abs (w_state w))" and st: "w_storage w = S" and i: "inv (w_state w)"
    using w by (simp_all add: wallet_holds_def)
  show "wallet_get c w t n opts = Inl (Error WalletItemNotFound)" if "V (t, n) = None"
    using get_none [OF i o vault_lookup(1) [OF rel that]] by (simp add: wallet_get_def st)
  show "\<exists>wr. wallet_get c w t n opts = Inr wr \<and> shows_plain opt t n p wr" if "V (t, n) = Some p"
  proof -
    obtain r where r: "abs (w_state w) (?t, ?n) = Some r" "record_rel c (w_keys w) p r"
      using vault_lookup(2) [OF rel \<open>V (t, n) = Some p\<close>] by blast
    obtain sr where sr: "st_get S (w_state w) ?t ?n opts = Inr sr" "shows_record opt ?t ?n r sr"
      using get_some [OF i o r(1)] by blast
    have v: "ev_decrypt c (stored_value r) (value_key (w_keys w)) = Inr (pl_value p)"
      and tr: "tag_rel c (w_keys w) (pl_tags p) r" using r(2) by (simp_all add: record_rel_def)
    obtain tags where "decrypt_tags c (sr_tags sr) (tag_name_key (w_keys w)) (tag_value_key (w_keys w)) = Inr tags"
      "if retrieve_tags opt then \<exists>pl. tags = Some pl \<and> distinct (map fst pl) \<and> map_of pl = pl_tags p else tags = None"
      using sr(2) decrypt_shown_tags [OF crypto tr] unfolding shows_record_def by (cases "retrieve_tags opt") force+
    then show ?thesis
      using sr v by (simp add: wallet_get_def st shows_record_def shows_plain_def)
  qed
qed

lemma search_storage:
  fixes t :: string and q' :: Query and w :: "('s, 'i) Wallet"
  assumes i: "inv (w_state w)" and rel: "vault_rel c (w_keys w) V (abs (w_state w))"
    and so: "search_options_of j sopts = Inr so" "so_records so" and tr: "translatable q' \<or> q' = default_query"
  shows "\<exists>op it srs M. encrypt_query c (w_keys w) q' = Inr op \<and> st_search S (w_state w) (enc_type c (w_keys w) t) op sopts = Inr it \<and>
      yields S (w_state w) it srs \<and> shows_all (fetch_options so) (abs (w_state w)) M srs \<and>
      (so_total_count so \<longrightarrow> st_total_count S it = Inr (Some (length srs))) \<and>
      (\<forall>u n. (u, n) \<in> {k. fst k = t \<and> (\<exists>p. V k = Some p \<and> sat like (pl_tags p) q')} \<longleftrightarrow> V (u, n) \<noteq> None \<and> (enc_type c (w_keys w) u, enc_item c (w_keys w) n) \<in> M)"
proof (cases "q' = default_query")
  case True
  obtain it srs where it: "st_search S (w_state w) (enc_type c (w_keys w) t) (OpAnd []) sopts = Inr it" "yields S (w_state w) it srs"
    "shows_all (fetch_options so) (abs (w_state w)) {k. fst k = enc_type c (w_keys w) t \<and> abs (w_state w) k \<noteq> None} srs"
    "so_total_count so \<longrightarrow> st_total_count S it = Inr (Some (length srs))"
    using search_everything [OF i so] by blast
  have "(u, n) \<in> {k. fst k = t \<and> (\<exists>p. V k = Some p \<and> sat like (pl_tags p) q')} \<longleftrightarrow> V (u, n) \<noteq> None \<and> (enc_type c (w_keys w) u, enc_item c (w_keys w) n) \<in> {k. fst k = enc_type c (w_keys w) t \<and> abs (w_state w) k \<noteq> None}" for u n
    using vault_lookup(2) [OF rel, of u n] True by (auto simp: enc_inj [OF crypto])
  then show ?thesis
    using it by (intro exI [of _ "OpAnd []"] exI [of _ it] exI [of _ srs] exI [of _ "{k. fst k = enc_type c (w_keys w) t \<and> abs (w_state w) k \<noteq> None}"])
      (simp add: True default_query_def encrypt_query_def)
next
  case False
  then have tq: "translatable q'" using tr by blast
  obtain op where op: "transform c (w_keys w) q' = Inr op" "clause_of op = Some (query_clause c (w_keys w) q')"
    using transform_clause [OF tq] by blast
  let ?M = "{k. fst k = enc_type c (w_keys w) t \<and> (\<exists>r. abs (w_state w) k = Some r \<and> clause_sat like (stored_etags r) (stored_ptags r) (query_clause c (w_keys w) q'))}"
  obtain it srs where it: "st_search S (w_state w) (enc_type c (w_keys w) t) op sopts = Inr it" "yields S (w_state w) it srs"
    "shows_all (fetch_options so) (abs (w_state w)) ?M srs" "so_total_count so \<longrightarrow> st_total_count S it = Inr (Some (length srs))"
    using search_ok [OF i so op(2)] by blast
  have "clause_sat like (stored_etags r) (stored_ptags r) (query_clause c (w_keys w) q') \<longleftrightarrow> sat like (pl_tags p) q'"
    if "record_rel c (w_keys w) p r" for p r
    using that tag_rel_enc_view [OF crypto] query_clause_sat [OF crypto _ tq] by (auto simp: record_rel_def)
  then have "(u, n) \<in> {k. fst k = t \<and> (\<exists>p. V k = Some p \<and> sat like (pl_tags p) q')} \<longleftrightarrow> V (u, n) \<noteq> None \<and> (enc_type c (w_keys w) u, enc_item c (w_keys w) n) \<in> ?M" for u n
    using vault_lookup(2) [OF rel, of u n] by (fastforce simp: enc_inj [OF crypto])
  then show ?thesis
    using it op(1) by (intro exI [of _ op] exI [of _ it] exI [of _ srs] exI [of _ ?M]) (simp add: encrypt_query_def)
qed

lemma search_plain:
  assumes w: "wallet_holds S inv abs c w V" and so: "search_options_of j sopts = Inr so" "so_records so"
    and q: "parse_json query = Some v" "deserialize v = Inr q"
    and q': "q' = (case optimise q of Some q' \<Rightarrow> q' | None \<Rightarrow> default_query)"
    and tr: "translatable q' \<or> q' = default_query"
  shows "\<exists>it wrs. wallet_search c parse_json w t query sopts = Inr it \<and>
    (\<forall>k > length wrs. fetch_all k c w it = Inr wrs) \<and>
    delivers (fetch_options so) V {k. fst k = t \<and> (\<exists>p. V k = Some p \<and> sat like (pl_tags p) q')} wrs \<and>
    (so_total_count so \<longrightarrow> iterator_total_count w it = Inr (Some (length wrs)))"
proof -
  let ?K = "{k. fst k = t \<and> (\<exists>p. V k = Some p \<and> sat like (pl_tags p) q')}"
  let ?t = "enc_type c (w_keys w) t" and ?m = "abs (w_state w)"
  have rel: "vault_rel c (w_keys w) V ?m" and st: "w_storage w = S" and i: "inv (w_state w)"
    using w by (simp_all add: wallet_holds_def)
  obtain op it srs M where op: "encrypt_query c (w_keys w) q' = Inr op"
    and it: "st_search S (w_state w) ?t op sopts = Inr it" "yields S (w_state w) it srs"
    and sh: "shows_all (fetch_options so) ?m M srs"
    and cnt: "so_total_count so \<longrightarrow> st_total_count S it = Inr (Some (length srs))"
    and K: "\<And>u n. (u, n) \<in> ?K \<longleftrightarrow> V (u, n) \<noteq> None \<and> (enc_type c (w_keys w) u, enc_item c (w_keys w) n) \<in> M"
    using search_storage [OF i rel so tr, of t] by blast
  obtain wrs where wrs: "traverse (decrypt_storage_record c (w_keys w)) srs = Inr wrs" "delivers (fetch_options so) V ?K wrs"
    using decrypt_shown_all [OF crypto rel sh K] by blast
  have len: "length wrs = length srs" by (rule traverse_Inr_length [OF wrs(1)])
  have "\<forall>k > length wrs. fetch_all k c w it = Inr wrs"
    using fetch_all_yields [of w it srs c wrs] it(2) wrs(1) len st by simp
  moreover have "wallet_search c parse_json w t query sopts = Inr it"
    using q q' op it(1) st by (simp add: wallet_search_def Let_def)
  ultimately show ?thesis
    using wrs(2) cnt len st by (intro exI [of _ it] exI [of _ wrs]) (simp add: iterator_total_count_def)
qed

end

interpretation sqlite_wallet: encrypted_wallet "SQLiteStorage (ref_engine like) j chk" "db_inv fk" db_store j like fk toy_crypto
  for like j chk fk
  by (intro encrypted_wallet.intro encrypted_wallet_axioms.intro ref_sqlite.wallet_storage_axioms toy_crypto_ok)

lemma sqlite_wallet:
  "sql_engine like E \<Longrightarrow> crypto_ok c \<Longrightarrow> encrypted_wallet (SQLiteStorage E j chk) (db_inv fk) db_store j like fk c"
  by (intro encrypted_wallet.intro encrypted_wallet_axioms.intro sqlite_is_storage)

section \<open>Properties\<close>

lemma wallet_holds_empty:
  "wallet_holds S (db_inv True) db_store c (wallet_new wid S (empty_db md) keys) Map.empty"
  by (simp add: wallet_holds_def wallet_new_def db_inv_empty vault_rel_def)

text \<open>
  C36: a wallet over the default storage is a map from type and id to plain values and tags. Every
  sequence of adds, updates, tag changes and deletions succeeds and fails, with the same errors, as on
  that map, and afterwards the wallet's storage holds the encryption of exactly its records. The condition is that the
  connection enforces foreign keys (\<open>fk\<close>, the setting that its invariant records) or that the sequence has no deletion.
\<close>
theorem wallet_refines_vault:
  assumes "sql_engine like E" and "crypto_ok c" and "\<forall>x\<in>set xs. wallet_call_ok x"
    and "wallet_holds (SQLiteStorage E j chk) (db_inv fk) db_store c w V"
    and "fk \<or> (\<forall>x\<in>set xs. \<not> wallet_call_deletes x)"
  shows "\<exists>w' V' rs. run_calls (exec_wallet c) w xs = (w', rs) \<and>
    wallet_holds (SQLiteStorage E j chk) (db_inv fk) db_store c w' V' \<and> run_calls exec_vault V xs = (V', rs)"
  by (rule encrypted_wallet.run_wallet_refines [OF sqlite_wallet [OF assms(1,2)] assms(4,3,5)])

text \<open>A wallet with two records, for witnesses.\<close>

definition toy_rnd :: value_rnd where
  "toy_rnd = \<lparr> rnd_key = replicate KEYBYTES 7, rnd_data_nonce = replicate NONCEBYTES 8, rnd_key_nonce = replicate NONCEBYTES 9 \<rparr>"

definition toy_calls :: "wallet_call list" where
  "toy_calls = [WAdd toy_rnd ''t'' ''n'' ''v'' [(''a'', ''1''), (''~b'', ''2'')], WAdd toy_rnd ''t'' ''m'' ''u'' [(''a'', ''3'')]]"

definition toy_vault :: vault where
  "toy_vault = [(''t'', ''n'') \<mapsto> \<lparr> pl_value = ''v'', pl_tags = [''a'' \<mapsto> ''1'', ''~b'' \<mapsto> ''2''] \<rparr>,
     (''t'', ''m'') \<mapsto> \<lparr> pl_value = ''u'', pl_tags = [''a'' \<mapsto> ''3''] \<rparr>]"

definition toy_new :: "(db, SQLiteStorageIterator) Wallet" where
  "toy_new = wallet_new ''w'' (SQLiteStorage (ref_engine (=)) toy_serde True) (empty_db []) toy_keys"

definition toy_wallet :: "(db, SQLiteStorageIterator) Wallet" where
  "toy_wallet = fst (run_calls (exec_wallet toy_crypto) toy_new toy_calls)"

lemma rust_string_code:
  "rust_string [] \<longleftrightarrow> True" "byte_of_char ch < 0x80 \<Longrightarrow> rust_string (ch # s) \<longleftrightarrow> rust_string s"
  by (simp_all add: rust_string_def)

lemma toy_calls_ok: "\<forall>x\<in>set toy_calls. wallet_call_ok x"
  by (simp add: toy_calls_def rnd_ok_def toy_rnd_def tags_ok_def rust_string_code byte_of_char_def)

lemma toy_vault_calls: "run_calls exec_vault Map.empty toy_calls = (toy_vault, [Inr (), Inr ()])"
  by (simp add: toy_calls_def toy_vault_def fun_upd_twist)

lemma toy_new_holds:
  "wallet_holds (SQLiteStorage (ref_engine (=)) toy_serde True) (db_inv True) db_store toy_crypto toy_new Map.empty"
  unfolding toy_new_def by (rule wallet_holds_empty)

lemma toy_wallet_holds:
  "wallet_holds (SQLiteStorage (ref_engine (=)) toy_serde True) (db_inv True) db_store toy_crypto toy_wallet toy_vault"
  using sqlite_wallet.run_wallet_refines [OF toy_new_holds toy_calls_ok TrueI [THEN disjI1]] by (auto simp: toy_vault_calls toy_wallet_def)

text \<open>Witness for C36: a new wallet, two records added and the value of the first replaced.\<close>
theorem wallet_refines_vault_witness:
  "\<exists>w'. run_calls (exec_wallet toy_crypto) toy_new (toy_calls @ [WUpdate toy_rnd ''t'' ''n'' ''x'', WDelete ''t'' ''z''])
      = (w', [Inr (), Inr (), Inr (), Inl (Error WalletItemNotFound)]) \<and>
    wallet_holds (SQLiteStorage (ref_engine (=)) toy_serde True) (db_inv True) db_store toy_crypto w'
      (toy_vault((''t'', ''n'') \<mapsto> \<lparr> pl_value = ''x'', pl_tags = [''a'' \<mapsto> ''1'', ''~b'' \<mapsto> ''2''] \<rparr>))"
proof -
  have ok: "\<forall>x\<in>set (toy_calls @ [WUpdate toy_rnd ''t'' ''n'' ''x'', WDelete ''t'' ''z'']). wallet_call_ok x"
    using toy_calls_ok by (simp add: rnd_ok_def toy_rnd_def rust_string_code byte_of_char_def)
  have "run_calls exec_vault Map.empty (toy_calls @ [WUpdate toy_rnd ''t'' ''n'' ''x'', WDelete ''t'' ''z'']) =
    (toy_vault((''t'', ''n'') \<mapsto> \<lparr> pl_value = ''x'', pl_tags = [''a'' \<mapsto> ''1'', ''~b'' \<mapsto> ''2''] \<rparr>),
     [Inr (), Inr (), Inr (), Inl (Error WalletItemNotFound)])"
    by (simp add: toy_calls_def toy_vault_def on_plain_def fun_upd_twist)
  then show ?thesis
    using wallet_refines_vault [OF ref_engine_ok toy_crypto_ok ok toy_new_holds TrueI [THEN disjI1]] by auto
qed

text \<open>
  Reading a record back. A stored record is delivered with the plain value, type and tags the
  options ask for, whatever was encrypted on the way; a record that is not there is WalletItemNotFound.
\<close>
theorem wallet_get_correct:
  assumes "sql_engine like E" and "crypto_ok c" and "record_options_of j opts = Inr opt"
    and "wallet_holds (SQLiteStorage E j chk) (db_inv fk) db_store c w V"
  shows "case V (t, n) of None \<Rightarrow> wallet_get c w t n opts = Inl (Error WalletItemNotFound)
     | Some p \<Rightarrow> \<exists>wr. wallet_get c w t n opts = Inr wr \<and> shows_plain opt t n p wr"
  using encrypted_wallet.get_plain [OF sqlite_wallet [OF assms(1,2)] assms(4,3), of t n]
  by (simp split: option.split)

text \<open>Instance of the above: the first record of a wallet with two, asked for with its value and type.\<close>
theorem wallet_get_correct_witness:
  "wallet_get toy_crypto toy_wallet ''t'' ''n'' ''110''
    = Inr \<lparr> wr_type = Some ''t'', wr_id = ''n'', wr_value = Some ''v'', wr_tags = None \<rparr>"
proof -
  have "record_options_of toy_serde ''110'' = Inr \<lparr> retrieve_type = True, retrieve_value = True, retrieve_tags = False \<rparr>"
    by (simp add: record_options_of_def toy_serde_def ok_or_def)
  from wallet_get_correct [OF ref_engine_ok toy_crypto_ok this toy_wallet_holds, of "''t''" "''n''"]
  show ?thesis by (auto simp: toy_vault_def shows_plain_def)
qed

text \<open>
  C35: a search that reaches the storage delivers, one by one and each once, exactly the records of the
  type whose plain tags satisfy the simplified query, and their number when it is asked for. None of
  them fails the query as written, and when every disjunction has only alternatives that restrict
  something, or none that does, no record that satisfies it is missing.
\<close>
theorem wallet_search_correct:
  assumes "sql_engine like E" and "crypto_ok c" and "search_options_of j sopts = Inr so" and "so_records so"
    and "wallet_holds (SQLiteStorage E j chk) (db_inv fk) db_store c w V"
    and "parse_json query = Some v" and "deserialize v = Inr q"
    and "case optimise q of Some q' \<Rightarrow> translatable q' | None \<Rightarrow> True"
  shows "\<exists>it wrs P. wallet_search c parse_json w t query sopts = Inr it \<and>
    (\<forall>k > length wrs. fetch_all k c w it = Inr wrs) \<and> delivers (fetch_options so) V P wrs \<and>
    P \<subseteq> {k. fst k = t \<and> (\<exists>p. V k = Some p \<and> sat like (pl_tags p) q)} \<and>
    (or_restricts q \<longrightarrow> P = {k. fst k = t \<and> (\<exists>p. V k = Some p \<and> sat like (pl_tags p) q)}) \<and>
    (so_total_count so \<longrightarrow> iterator_total_count w it = Inr (Some (length wrs)))"
proof -
  define q' where "q' = (case optimise q of Some q' \<Rightarrow> q' | None \<Rightarrow> default_query)"
  let ?P = "{k. fst k = t \<and> (\<exists>p. V k = Some p \<and> sat like (pl_tags p) q')}"
  have tr: "translatable q' \<or> q' = default_query" using assms(8) by (simp add: q'_def split: option.splits)
  have "sat like tags q' \<longleftrightarrow> sat_opt like tags (optimise q)" for tags
    by (cases "optimise q") (simp_all add: q'_def default_query_def)
  then have sub: "?P \<subseteq> {k. fst k = t \<and> (\<exists>p. V k = Some p \<and> sat like (pl_tags p) q)}"
    and eq: "or_restricts q \<longrightarrow> ?P = {k. fst k = t \<and> (\<exists>p. V k = Some p \<and> sat like (pl_tags p) q)}"
    using optimise_narrows optimise_exact deserialize_or_nonempty [OF assms(7)] by (blast, auto)
  from encrypted_wallet.search_plain [where parse_json = parse_json and query = query,
      OF sqlite_wallet [OF assms(1,2)] assms(5,3,4,6,7) q'_def tr, of t] sub eq
  show ?thesis by blast
qed

text \<open>Witness for C35: \<^verbatim>\<open>{"a": "1"}\<close> on a wallet with two records finds one of them.\<close>
theorem wallet_search_correct_witness:
  "\<exists>it wr. wallet_search toy_crypto (\<lambda>_. Some (Object [(''a'', String ''1'')])) toy_wallet ''t'' ''q'' (Some ''all'') = Inr it \<and>
    fetch_all 2 toy_crypto toy_wallet it = Inr [wr] \<and> wr_id wr = ''n'' \<and> wr_value wr = Some ''v''
    \<and> iterator_total_count toy_wallet it = Inr (Some 1)"
proof -
  let ?q = "Object [(''a'', String ''1'')]"
  have d: "deserialize ?q = Inr (QEq ''a'' ''1'')"
    by (simp add: parse_query.simps parse_operator.simps)
  have so: "search_options_of toy_serde (Some ''all'') =
      Inr \<lparr> so_records = True, so_total_count = True, so_type = True, so_value = True, so_tags = True \<rparr>"
    by (simp add: search_options_of_def toy_serde_def ok_or_def)
  have P: "{k. fst k = ''t'' \<and> (\<exists>p. toy_vault k = Some p \<and> sat (=) (pl_tags p) (QEq ''a'' ''1''))} = {(''t'', ''n'')}"
    by (auto simp: toy_vault_def tag_sat_def split: if_splits)
  obtain it wrs where it: "wallet_search toy_crypto (\<lambda>_. Some ?q) toy_wallet ''t'' ''q'' (Some ''all'') = Inr it"
    "\<forall>k > length wrs. fetch_all k toy_crypto toy_wallet it = Inr wrs"
    "delivers \<lparr> retrieve_type = True, retrieve_value = True, retrieve_tags = True \<rparr> toy_vault {(''t'', ''n'')} wrs"
    "iterator_total_count toy_wallet it = Inr (Some (length wrs))"
    using wallet_search_correct [OF ref_engine_ok toy_crypto_ok so _ toy_wallet_holds, of "\<lambda>_. Some ?q" "''q''" ?q "QEq ''a'' ''1''" "''t''"]
      d P by (auto simp: fetch_options_def name_ok_def)
  obtain wr where "wrs = [wr]" "shows_plain \<lparr> retrieve_type = True, retrieve_value = True, retrieve_tags = True \<rparr> ''t'' ''n''
      \<lparr> pl_value = ''v'', pl_tags = [''a'' \<mapsto> ''1'', ''~b'' \<mapsto> ''2''] \<rparr> wr"
    using it(3) unfolding delivers_singleton by (auto simp: toy_vault_def)
  then show ?thesis using it by (auto simp: shows_plain_def)
qed

end
