(* ===== verification/Crypto_Stream.thy ===== *)
theory Crypto_Stream
  imports Wallet_Crypto
begin

text \<open>
  The encrypted streams of \<^verbatim>\<open>indy-utils/src/crypto/chacha20poly1305_ietf/sodium.rs\<close>:
  \<^verbatim>\<open>Writer\<close> cuts what is written into chunks and seals each under its own nonce, \<^verbatim>\<open>Reader\<close>
  opens them again. The writer's sink is a byte string that takes every write. The reader's
  source is a list of answers to \<^verbatim>\<open>read\<close>: bytes, possibly fewer than asked for, an interruption,
  or a failure; after the last answer the file has ended. \<open>inc\<close> stands for libsodium's
  \<^verbatim>\<open>increment_le\<close> on nonces; nothing is assumed of it.
\<close>

section \<open>The writer\<close>

record Writer =
  wr_buffer :: bytes
  wr_chunk_size :: nat
  wr_key :: bytes
  wr_nonce :: bytes
  wr_inner :: bytes

definition writer_new :: "bytes \<Rightarrow> bytes \<Rightarrow> bytes \<Rightarrow> nat \<Rightarrow> Writer" where
  "writer_new inner key nonce chunk_size =
    \<lparr> wr_buffer = [], wr_chunk_size = chunk_size, wr_key = key, wr_nonce = nonce, wr_inner = inner \<rparr>"

definition seal_chunk :: "crypto \<Rightarrow> (bytes \<Rightarrow> bytes) \<Rightarrow> bytes \<Rightarrow> Writer \<Rightarrow> Writer" where
  "seal_chunk c inc chunk w =
    w\<lparr> wr_inner := wr_inner w @ chacha_encrypt c chunk (wr_key w) (wr_nonce w), wr_nonce := inc (wr_nonce w) \<rparr>"

text \<open>With a chunk size of zero the loop does not end: \<open>None\<close>.\<close>

partial_function (option) write_loop ::
  "crypto \<Rightarrow> (bytes \<Rightarrow> bytes) \<Rightarrow> Writer \<Rightarrow> nat \<Rightarrow> (Writer \<times> nat) option" where
  "write_loop c inc w chunk_start =
    (if chunk_start + wr_chunk_size w \<le> length (wr_buffer w)
     then write_loop c inc (seal_chunk c inc (take (wr_chunk_size w) (drop chunk_start (wr_buffer w))) w)
            (chunk_start + wr_chunk_size w)
     else Some (w, chunk_start))"

definition writer_write :: "crypto \<Rightarrow> (bytes \<Rightarrow> bytes) \<Rightarrow> Writer \<Rightarrow> bytes \<Rightarrow> Writer option" where
  "writer_write c inc w buf =
    map_option (\<lambda>(w', chunk_start). if 0 < chunk_start then w'\<lparr>wr_buffer := drop chunk_start (wr_buffer w')\<rparr> else w')
      (write_loop c inc (w\<lparr>wr_buffer := wr_buffer w @ buf\<rparr>) 0)"

text \<open>\<^verbatim>\<open>Write::write_all\<close>: the writer takes the whole buffer at once.\<close>

definition write_all :: "crypto \<Rightarrow> (bytes \<Rightarrow> bytes) \<Rightarrow> bytes \<Rightarrow> Writer \<Rightarrow> Writer option" where
  "write_all c inc buf w = (if buf = [] then Some w else writer_write c inc w buf)"

definition writer_flush :: "crypto \<Rightarrow> (bytes \<Rightarrow> bytes) \<Rightarrow> Writer \<Rightarrow> Writer" where
  "writer_flush c inc w = (if wr_buffer w = [] then w else seal_chunk c inc (wr_buffer w) w)"

section \<open>The reader\<close>

datatype io_read = Avail bytes | Interrupted | Failed

datatype io_error = UnexpectedEof | InvalidData | OtherIo

text \<open>One \<^verbatim>\<open>read\<close> into a buffer of \<open>n\<close> bytes; no bytes mean the end of the file.\<close>

fun inner_read :: "io_read list \<Rightarrow> nat \<Rightarrow> io_read list \<times> io_read" where
  "inner_read [] n = ([], Avail [])"
| "inner_read (Avail bs # src) n = (if length bs \<le> n then src else Avail (drop n bs) # src, Avail (take n bs))"
| "inner_read (e # src) n = (src, e)"

lemma inner_read_Interrupted: "inner_read src n = (src', Interrupted) \<Longrightarrow> length src' < length src"
  by (cases "(src, n)" rule: inner_read.cases) auto

text \<open>Filling a buffer of \<open>n\<close> bytes until it is full or the file ends.\<close>

function fill :: "io_read list \<Rightarrow> bytes \<Rightarrow> nat \<Rightarrow> io_read list \<times> (io_error + bytes)" where
  "fill src acc n =
    (if length acc < n
     then (case inner_read src (n - length acc) of
             (src', Avail bs) \<Rightarrow> if bs = [] then (src', Inr acc) else fill src' (acc @ bs) n
           | (src', Interrupted) \<Rightarrow> fill src' acc n
           | (src', Failed) \<Rightarrow> (src', Inl OtherIo))
     else (src, Inr acc))"
  by pat_completeness auto
termination
  by (relation "measures [\<lambda>(src, acc, n). n - length acc, \<lambda>(src, acc, n). length src]")
    (auto dest: inner_read_Interrupted [OF sym] simp: neq_Nil_conv)

declare fill.simps [simp del]

record Reader =
  rd_rest :: bytes
  rd_chunk_len :: nat
  rd_key :: bytes
  rd_nonce :: bytes
  rd_inner :: "io_read list"

text \<open>
  \<^verbatim>\<open>vec![0; chunk_size + TAGBYTES]\<close>: the sum of two 64-bit numbers overflows with a panic where
  overflow checks are on (\<open>chk\<close>) and wraps where not; a vector of more than \<^verbatim>\<open>isize::MAX\<close> bytes
  panics.
\<close>

definition reader_new :: "bool \<Rightarrow> io_read list \<Rightarrow> bytes \<Rightarrow> bytes \<Rightarrow> nat \<Rightarrow> Reader IndyResult" where
  "reader_new chk inner key nonce chunk_size =
    (if chk \<and> 2 ^ 64 \<le> chunk_size + TAGBYTES then Inl Panic
     else let len = (chunk_size + TAGBYTES) mod 2 ^ 64 in
       if 2 ^ 63 \<le> len then Inl Panic
       else Inr \<lparr> rd_rest = [], rd_chunk_len = len, rd_key = key, rd_nonce = nonce, rd_inner = inner \<rparr>)"

definition read_chunk :: "Reader \<Rightarrow> Reader \<times> (io_error + bytes)" where
  "read_chunk r =
    (case fill (rd_inner r) [] (rd_chunk_len r) of
       (src, Inl e) \<Rightarrow> (r\<lparr>rd_inner := src\<rparr>, Inl e)
     | (src, Inr bs) \<Rightarrow> (r\<lparr>rd_inner := src\<rparr>, if bs = [] then Inl UnexpectedEof else Inr bs))"

definition io_size :: "io_read list \<Rightarrow> nat" where
  "io_size src = sum_list (map (\<lambda>x. case x of Avail bs \<Rightarrow> Suc (length bs) | _ \<Rightarrow> 1) src)"

lemma inner_read_size:
  "inner_read src n = (src', e) \<Longrightarrow> io_size src' \<le> io_size src \<and> (e \<noteq> Avail [] \<longrightarrow> io_size src' < io_size src)"
  by (cases "(src, n)" rule: inner_read.cases) (auto simp: io_size_def split: if_splits)

lemma fill_size:
  "fill src acc n = (src', r) \<Longrightarrow> io_size src' \<le> io_size src \<and> (\<forall>bs. r = Inr bs \<longrightarrow> bs \<noteq> acc \<longrightarrow> io_size src' < io_size src)"
proof (induction src acc n rule: fill.induct)
  case (1 src acc n)
  obtain src1 e where ie: "inner_read src (n - length acc) = (src1, e)" by force
  note sz = inner_read_size [OF ie]
  show ?case
  proof (cases "length acc < n")
    case True
    show ?thesis
    proof (cases e)
      case (Avail bs)
      then show ?thesis
        using True 1(1) [OF True ie [symmetric] Avail] 1(3) ie sz by (subst (asm) fill.simps) (auto split: if_splits)
    next
      case Interrupted
      then show ?thesis
        using True 1(2) [OF True ie [symmetric] Interrupted] 1(3) ie sz by (subst (asm) fill.simps) auto
    next
      case Failed
      then show ?thesis using True 1(3) ie sz by (subst (asm) fill.simps) auto
    qed
  qed (use 1(3) in \<open>subst (asm) fill.simps; auto\<close>)
qed

lemma read_chunk_size: "read_chunk r = (r', Inr bs) \<Longrightarrow> io_size (rd_inner r') < io_size (rd_inner r)"
  by (auto simp: read_chunk_def dest!: fill_size split: prod.splits sum.splits if_splits)

definition open_chunk :: "crypto \<Rightarrow> (bytes \<Rightarrow> bytes) \<Rightarrow> Reader \<Rightarrow> Reader \<times> (io_error + bytes)" where
  "open_chunk c inc r =
    (case read_chunk r of
       (r', Inl e) \<Rightarrow> (r', Inl e)
     | (r', Inr enc) \<Rightarrow>
         (case chacha_decrypt c enc (rd_key r') (rd_nonce r') of
            Inl _ \<Rightarrow> (r', Inl InvalidData)
          | Inr chunk \<Rightarrow> (r'\<lparr>rd_nonce := inc (rd_nonce r')\<rparr>, Inr chunk)))"

lemma open_chunk_size: "open_chunk c inc r = (r', Inr bs) \<Longrightarrow> io_size (rd_inner r') < io_size (rd_inner r)"
  by (auto simp: open_chunk_def dest!: read_chunk_size split: prod.splits sum.splits)

text \<open>The loop of \<^verbatim>\<open>read\<close>: \<open>acc\<close> is the filled part of a buffer of \<open>n\<close> bytes.\<close>

function reader_loop :: "crypto \<Rightarrow> (bytes \<Rightarrow> bytes) \<Rightarrow> Reader \<Rightarrow> bytes \<Rightarrow> nat \<Rightarrow> Reader \<times> (io_error + bytes)" where
  "reader_loop c inc r acc n =
    (if length acc < n
     then (case open_chunk c inc r of
             (r', Inl e) \<Rightarrow> (r', Inl e)
           | (r', Inr chunk) \<Rightarrow>
               (let to_copy = min (length chunk) (n - length acc) in
                reader_loop c inc
                  (if length acc + to_copy = n \<and> to_copy < length chunk
                   then r'\<lparr>rd_rest := rd_rest r' @ drop to_copy chunk\<rparr> else r')
                  (acc @ take to_copy chunk) n))
     else (r, Inr acc))"
  by pat_completeness auto
termination
  by (relation "measure (\<lambda>(c, inc, r, acc, n). io_size (rd_inner r))") (auto simp: Let_def dest: open_chunk_size [OF sym])

declare reader_loop.simps [simp del]

definition reader_read :: "crypto \<Rightarrow> (bytes \<Rightarrow> bytes) \<Rightarrow> Reader \<Rightarrow> nat \<Rightarrow> Reader \<times> (io_error + bytes)" where
  "reader_read c inc r n =
    (let to_copy = min (length (rd_rest r)) n in
     reader_loop c inc (r\<lparr>rd_rest := drop to_copy (rd_rest r)\<rparr>) (take to_copy (rd_rest r)) n)"

text \<open>\<^verbatim>\<open>Read::read_exact\<close> on the reader, whose \<^verbatim>\<open>read\<close> fills the buffer or fails.\<close>

definition read_exact :: "crypto \<Rightarrow> (bytes \<Rightarrow> bytes) \<Rightarrow> Reader \<Rightarrow> nat \<Rightarrow> Reader \<times> (io_error + bytes)" where
  "read_exact c inc r n = (if n = 0 then (r, Inr []) else reader_read c inc r n)"

section \<open>What a stream holds\<close>

fun sealed :: "crypto \<Rightarrow> (bytes \<Rightarrow> bytes) \<Rightarrow> bytes \<Rightarrow> bytes \<Rightarrow> bytes list \<Rightarrow> bytes" where
  "sealed c inc k n [] = []"
| "sealed c inc k n (ch # chs) = chacha_encrypt c ch k n @ sealed c inc k (inc n) chs"

lemma funpow_later: "(f ^^ (a + b)) x = (f ^^ b) ((f ^^ a) x)"
  by (simp add: add.commute [of a] funpow_add)

lemma sealed_append:
  "sealed c inc k n (xs @ ys) = sealed c inc k n xs @ sealed c inc k ((inc ^^ length xs) n) ys"
  by (induction xs arbitrary: n) (simp_all add: funpow_swap1 [of inc])

text \<open>The plain text \<open>p\<close> has been written on top of \<open>base\<close>.\<close>

definition written ::
  "crypto \<Rightarrow> (bytes \<Rightarrow> bytes) \<Rightarrow> bytes \<Rightarrow> bytes \<Rightarrow> nat \<Rightarrow> bytes \<Rightarrow> bytes list \<Rightarrow> bytes \<Rightarrow> Writer \<Rightarrow> bool" where
  "written c inc k nonce n base chs p w \<longleftrightarrow>
    (\<forall>ch\<in>set chs. length ch = n) \<and> p = concat chs @ wr_buffer w \<and> wr_chunk_size w = n \<and> wr_key w = k \<and>
    wr_nonce w = (inc ^^ length chs) nonce \<and> wr_inner w = base @ sealed c inc k nonce chs"

lemma written_new: "written c inc k nonce n base [] [] (writer_new base k nonce n)"
  by (simp add: written_def writer_new_def)

lemma seal_chunk_more:
  "(seal_chunk c inc ch w)\<lparr>
      wr_inner := wr_inner (seal_chunk c inc ch w) @
        sealed c inc (wr_key (seal_chunk c inc ch w)) (wr_nonce (seal_chunk c inc ch w)) chs,
      wr_nonce := (inc ^^ length chs) (wr_nonce (seal_chunk c inc ch w))\<rparr> =
    w\<lparr>wr_inner := wr_inner w @ sealed c inc (wr_key w) (wr_nonce w) (ch # chs),
      wr_nonce := (inc ^^ length (ch # chs)) (wr_nonce w)\<rparr>"
  by (simp add: seal_chunk_def funpow_swap1)

lemma write_loop_ok:
  assumes "0 < wr_chunk_size w"
  shows "\<exists>chs s'. write_loop c inc w s = Some (w\<lparr>
      wr_inner := wr_inner w @ sealed c inc (wr_key w) (wr_nonce w) chs, wr_nonce := (inc ^^ length chs) (wr_nonce w)\<rparr>, s')
    \<and> concat chs @ drop s' (wr_buffer w) = drop s (wr_buffer w) \<and> (\<forall>ch\<in>set chs. length ch = wr_chunk_size w)
    \<and> length (wr_buffer w) < s' + wr_chunk_size w \<and> s \<le> s'"
  using assms
proof (induction "length (wr_buffer w) - s" arbitrary: w s rule: less_induct)
  case less
  let ?n = "wr_chunk_size w" and ?ch = "take (wr_chunk_size w) (drop s (wr_buffer w))"
  let ?w = "seal_chunk c inc ?ch w"
  have fields: "wr_buffer ?w = wr_buffer w" "wr_chunk_size ?w = ?n" by (simp_all add: seal_chunk_def)
  show ?case
  proof (cases "s + ?n \<le> length (wr_buffer w)")
    case True
    have lt: "length (wr_buffer w) - (s + ?n) < length (wr_buffer w) - s" using True less.prems by simp
    obtain chs s' where IH: "write_loop c inc ?w (s + ?n) = Some (?w\<lparr>
        wr_inner := wr_inner ?w @ sealed c inc (wr_key ?w) (wr_nonce ?w) chs, wr_nonce := (inc ^^ length chs) (wr_nonce ?w)\<rparr>, s')"
      "concat chs @ drop s' (wr_buffer w) = drop (s + ?n) (wr_buffer w)" "\<forall>ch\<in>set chs. length ch = ?n"
      "length (wr_buffer w) < s' + ?n" "s + ?n \<le> s'"
      using less.hyps [of ?w "s + ?n", unfolded fields, OF lt less.prems] by blast
    have "drop (s + ?n) (wr_buffer w) = drop ?n (drop s (wr_buffer w))" by (simp add: add.commute)
    then have "concat (?ch # chs) @ drop s' (wr_buffer w) = drop s (wr_buffer w)"
      by (simp only: concat.simps append_assoc IH(2) append_take_drop_id)
    moreover have "write_loop c inc w s = Some (w\<lparr>
        wr_inner := wr_inner w @ sealed c inc (wr_key w) (wr_nonce w) (?ch # chs),
        wr_nonce := (inc ^^ length (?ch # chs)) (wr_nonce w)\<rparr>, s')"
      unfolding seal_chunk_more [symmetric] IH(1) [symmetric]
      by (subst write_loop.simps) (rule if_P [OF True])
    moreover have "\<forall>ch\<in>set (?ch # chs). length ch = ?n" using IH(3) True by auto
    ultimately show ?thesis using IH(4) add_leD1 [OF IH(5)] by blast
  next
    case False
    then show ?thesis by (intro exI [of _ "[]"] exI [of _ s]) (subst write_loop.simps, simp)
  qed
qed

lemma written_write:
  assumes w: "written c inc k nonce n base chs p w" and "0 < n"
  shows "\<exists>w' chs'. write_all c inc buf w = Some w' \<and> written c inc k nonce n base (chs @ chs') (p @ buf) w' \<and>
    (length (wr_buffer w) < n \<longrightarrow> length (wr_buffer w') < n)"
proof (cases "buf = []")
  case False
  let ?w = "w\<lparr>wr_buffer := wr_buffer w @ buf\<rparr>"
  have "0 < wr_chunk_size ?w" using assms by (simp add: written_def)
  from write_loop_ok [OF this, of c inc 0]
  obtain chs' s' where l: "write_loop c inc ?w 0 = Some (?w\<lparr>wr_inner := wr_inner w @ sealed c inc (wr_key w) (wr_nonce w) chs',
      wr_nonce := (inc ^^ length chs') (wr_nonce w)\<rparr>, s')" "concat chs' @ drop s' (wr_buffer w @ buf) = wr_buffer w @ buf"
    "\<forall>ch\<in>set chs'. length ch = n" "length (wr_buffer w @ buf) < s' + n"
    using w by (auto simp: written_def)
  let ?w' = "?w\<lparr>wr_inner := wr_inner w @ sealed c inc (wr_key w) (wr_nonce w) chs',
      wr_nonce := (inc ^^ length chs') (wr_nonce w), wr_buffer := drop s' (wr_buffer w @ buf)\<rparr>"
  have "write_all c inc buf w = Some ?w'"
    using False l(1) by (simp add: write_all_def writer_write_def)
  moreover have "written c inc k nonce n base (chs @ chs') (p @ buf) ?w'"
    using w l(2,3) by (auto simp: written_def sealed_append funpow_later)
  moreover have "length (wr_buffer ?w') < n" using l(4) assms(2) by auto
  ultimately show ?thesis by blast
qed (use w in \<open>auto simp: write_all_def intro: exI [of _ "[]"]\<close>)

text \<open>A stream of chunks: all of the same length but the last, which may be shorter.\<close>

fun chunked :: "nat \<Rightarrow> bytes list \<Rightarrow> bool" where
  "chunked n [] \<longleftrightarrow> True"
| "chunked n [ch] \<longleftrightarrow> ch \<noteq> [] \<and> length ch \<le> n"
| "chunked n (ch # chs) \<longleftrightarrow> length ch = n \<and> chunked n chs"

lemma chunked_full: "\<forall>ch\<in>set chs. length ch = n \<Longrightarrow> 0 < n \<Longrightarrow> chunked n chs"
  by (induction n chs rule: chunked.induct) auto

lemma chunked_full_rest:
  "\<forall>ch\<in>set chs. length ch = n \<Longrightarrow> 0 < n \<Longrightarrow> x \<noteq> [] \<Longrightarrow> length x < n \<Longrightarrow> chunked n (chs @ [x])"
proof (induction chs)
  case (Cons ch chs)
  then show ?case by (cases "chs @ [x]") auto
qed simp

text \<open>After a flush the sink holds the whole plain text in chunks.\<close>

lemma written_flush:
  assumes "written c inc k nonce n base chs p w" and "0 < n" and "length (wr_buffer w) < n"
  shows "\<exists>cs. wr_inner (writer_flush c inc w) = base @ sealed c inc k nonce cs \<and> concat cs = p \<and> chunked n cs"
proof (cases "wr_buffer w = []")
  case True
  then show ?thesis
    using assms chunked_full by (intro exI [of _ chs]) (auto simp: written_def writer_flush_def)
next
  case False
  then show ?thesis
    using assms chunked_full_rest [of chs n "wr_buffer w"]
    by (intro exI [of _ "chs @ [wr_buffer w]"]) (auto simp: written_def writer_flush_def seal_chunk_def sealed_append)
qed

section \<open>Reading it back\<close>

text \<open>A source that delivers \<open>content src\<close>, in pieces and with interruptions, and does not fail.\<close>

fun delivers_bytes :: "io_read list \<Rightarrow> bytes \<Rightarrow> bool" where
  "delivers_bytes [] p \<longleftrightarrow> p = []"
| "delivers_bytes (Avail bs # src) p \<longleftrightarrow> bs \<noteq> [] \<and> (\<exists>q. p = bs @ q \<and> delivers_bytes src q)"
| "delivers_bytes (Interrupted # src) p \<longleftrightarrow> delivers_bytes src p"
| "delivers_bytes (Failed # src) p \<longleftrightarrow> False"

lemma inner_read_ok:
  assumes "delivers_bytes src p" and "0 < n"
  shows "(inner_read src n = ([], Avail []) \<and> p = [] \<and> src = []) \<or>
    (\<exists>src'. inner_read src n = (src', Interrupted) \<and> delivers_bytes src' p) \<or>
    (\<exists>src' bs q. inner_read src n = (src', Avail bs) \<and> bs \<noteq> [] \<and> length bs \<le> n \<and> p = bs @ q \<and> delivers_bytes src' q)"
proof (cases "(src, n)" rule: inner_read.cases)
  case (2 bs src' m)
  then obtain q where q: "bs \<noteq> []" "p = bs @ q" "delivers_bytes src' q" using assms by auto
  have "p = take n bs @ drop n bs @ q" using q by simp
  then have "\<not> length bs \<le> n \<Longrightarrow> \<exists>q. p = take n bs @ q \<and> delivers_bytes (Avail (drop n bs) # src') q"
    using q(3) by auto
  then show ?thesis using 2 q assms(2) by (cases "length bs \<le> n") auto
qed (use assms in auto)

lemma fill_ok:
  "delivers_bytes src p \<Longrightarrow> length acc \<le> n \<Longrightarrow>
    \<exists>src'. fill src acc n = (src', Inr (acc @ take (n - length acc) p)) \<and> delivers_bytes src' (drop (n - length acc) p)"
proof (induction src acc n arbitrary: p rule: fill.induct)
  case (1 src acc n)
  show ?case
  proof (cases "length acc < n")
    case True
    consider "inner_read src (n - length acc) = ([], Avail [])" "p = []"
      | src' where "inner_read src (n - length acc) = (src', Interrupted)" "delivers_bytes src' p"
      | src' bs q where "inner_read src (n - length acc) = (src', Avail bs)" "bs \<noteq> []" "length bs \<le> n - length acc"
          "p = bs @ q" "delivers_bytes src' q"
      using inner_read_ok [OF 1(3), of "n - length acc"] True by fastforce
    then show ?thesis
    proof cases
      case 1
      then show ?thesis using True by (subst fill.simps) auto
    next
      case (2 src')
      then show ?thesis using True "1.IH"(2) [OF True 2(1) [symmetric] refl 2(2)] by (subst fill.simps) simp
    next
      case (3 src' bs q)
      then show ?thesis
        using True "1.IH"(1) [OF True 3(1) [symmetric] refl 3(2) 3(5)] by (subst fill.simps) auto
    qed
  next
    case False
    then show ?thesis using 1 by (subst fill.simps) auto
  qed
qed

text \<open>The plain text \<open>p\<close> can still be read.\<close>

definition readable :: "crypto \<Rightarrow> (bytes \<Rightarrow> bytes) \<Rightarrow> nat \<Rightarrow> bytes \<Rightarrow> Reader \<Rightarrow> bool" where
  "readable c inc n p r \<longleftrightarrow> rd_chunk_len r = n + TAGBYTES \<and>
    (\<exists>chs. p = rd_rest r @ concat chs \<and> chunked n chs \<and>
      delivers_bytes (rd_inner r) (sealed c inc (rd_key r) (rd_nonce r) chs))"

lemma chunked_Cons: "chunked n (ch # chs) \<Longrightarrow> ch \<noteq> [] \<or> n = 0" "chunked n (ch # chs) \<Longrightarrow> length ch \<le> n"
  "chunked n (ch # chs) \<Longrightarrow> chunked n chs" "chunked n (ch # chs) \<Longrightarrow> chs = [] \<or> length ch = n"
  by (cases chs; auto)+

lemma open_chunk_ok:
  assumes c: "crypto_ok c" and "rd_chunk_len r = n + TAGBYTES" and ch: "chunked n (ch # chs)"
    and d: "delivers_bytes (rd_inner r) (sealed c inc (rd_key r) (rd_nonce r) (ch # chs))"
  shows "\<exists>src. open_chunk c inc r = (r\<lparr>rd_inner := src, rd_nonce := inc (rd_nonce r)\<rparr>, Inr ch) \<and>
    delivers_bytes src (sealed c inc (rd_key r) (inc (rd_nonce r)) chs)"
proof -
  let ?p = "sealed c inc (rd_key r) (rd_nonce r) (ch # chs)" and ?e = "chacha_encrypt c ch (rd_key r) (rd_nonce r)"
  have len: "length ?e = length ch + TAGBYTES" using c by (simp add: chacha_encrypt_def)
  have "take (n + TAGBYTES) ?p = ?e" "drop (n + TAGBYTES) ?p = sealed c inc (rd_key r) (inc (rd_nonce r)) chs"
    using len chunked_Cons(2,4) [OF ch] by auto
  moreover have "?e \<noteq> []" using len by (auto simp: TAGBYTES_def)
  moreover have "chacha_decrypt c ?e (rd_key r) (rd_nonce r) = Inr ch"
    using c by (simp add: chacha_encrypt_def chacha_decrypt_def)
  ultimately show ?thesis
    using fill_ok [OF d, of "[]" "n + TAGBYTES"] assms(2) by (auto simp: open_chunk_def read_chunk_def)
qed

lemma reader_loop_ok:
  assumes c: "crypto_ok c" and n: "0 < n"
  shows "rd_rest r = [] \<Longrightarrow> rd_chunk_len r = n + TAGBYTES \<Longrightarrow> chunked n chs \<Longrightarrow>
    delivers_bytes (rd_inner r) (sealed c inc (rd_key r) (rd_nonce r) chs) \<Longrightarrow>
    length acc \<le> m \<Longrightarrow> m - length acc \<le> length (concat chs) \<Longrightarrow>
    \<exists>r'. reader_loop c inc r acc m = (r', Inr (acc @ take (m - length acc) (concat chs))) \<and>
      readable c inc n (drop (m - length acc) (concat chs)) r'"
proof (induction chs arbitrary: r acc)
  case Nil
  then show ?case by (subst reader_loop.simps) (auto simp: readable_def intro!: exI [of _ "[]"])
next
  case (Cons ch chs)
  show ?case
  proof (cases "length acc < m")
    case True
    note oc = open_chunk_ok [OF c Cons.prems(2-4)]
    obtain src where o: "open_chunk c inc r = (r\<lparr>rd_inner := src, rd_nonce := inc (rd_nonce r)\<rparr>, Inr ch)"
      "delivers_bytes src (sealed c inc (rd_key r) (inc (rd_nonce r)) chs)" using oc by blast
    let ?r = "r\<lparr>rd_inner := src, rd_nonce := inc (rd_nonce r)\<rparr>"
    show ?thesis
    proof (cases "length ch \<le> m - length acc")
      case whole: True
      have lens: "length acc + length ch \<le> m" "m - (length acc + length ch) \<le> length (concat chs)"
        using whole True Cons.prems(6) by auto
      obtain r' where "reader_loop c inc ?r (acc @ ch) m = (r', Inr ((acc @ ch) @ take (m - length (acc @ ch)) (concat chs)))"
        "readable c inc n (drop (m - length (acc @ ch)) (concat chs)) r'"
        using Cons.IH [of ?r "acc @ ch"] Cons.prems whole lens o(2) chunked_Cons(3) [OF Cons.prems(3)] by auto
      then show ?thesis
        using True o(1) whole by (subst reader_loop.simps) (auto simp: Let_def)
    next
      case part: False
      let ?k = "m - length acc"
      have "reader_loop c inc (?r\<lparr>rd_rest := drop ?k ch\<rparr>) (acc @ take ?k ch) m =
          (?r\<lparr>rd_rest := drop ?k ch\<rparr>, Inr (acc @ take ?k ch))"
        using True part by (subst reader_loop.simps) simp
      moreover have "readable c inc n (drop ?k ch @ concat chs) (?r\<lparr>rd_rest := drop ?k ch\<rparr>)"
        using o(2) Cons.prems(2) chunked_Cons(3) [OF Cons.prems(3)] by (auto simp: readable_def)
      ultimately show ?thesis
        using True o(1) part Cons.prems(1) by (subst reader_loop.simps) (auto simp: Let_def min_def)
    qed
  next
    case False
    then show ?thesis using Cons.prems by (subst reader_loop.simps) (auto simp: readable_def intro!: exI [of _ "ch # chs"])
  qed
qed

lemma read_exact_ok:
  assumes "crypto_ok c" and "0 < n" and r: "readable c inc n p r" and m: "m \<le> length p"
  shows "\<exists>r'. read_exact c inc r m = (r', Inr (take m p)) \<and> readable c inc n (drop m p) r'"
proof (cases "m = 0")
  case False
  obtain chs where chs: "rd_chunk_len r = n + TAGBYTES" "p = rd_rest r @ concat chs" "chunked n chs"
    "delivers_bytes (rd_inner r) (sealed c inc (rd_key r) (rd_nonce r) chs)"
    using r by (auto simp: readable_def)
  show ?thesis
  proof (cases "m \<le> length (rd_rest r)")
    case True
    then show ?thesis
      using False chs
      by (auto simp: read_exact_def reader_read_def readable_def Let_def min_def reader_loop.simps)
  next
    case big: False
    show ?thesis
      using False big chs m reader_loop_ok [OF assms(1,2), of "r\<lparr>rd_rest := []\<rparr>" chs inc "rd_rest r" m]
      by (auto simp: read_exact_def reader_read_def min_def)
  qed
qed (use r in \<open>simp add: read_exact_def\<close>)

text \<open>Reading what a writer has written and flushed.\<close>

lemma stream_readable:
  assumes "written c inc k nonce n base chs p w" and "0 < n" and "length (wr_buffer w) < n" and "n + TAGBYTES < 2 ^ 63"
    and "wr_inner (writer_flush c inc w) = base @ ct" and "delivers_bytes src ct"
  shows "\<exists>r. reader_new chk src k nonce n = Inr r \<and> readable c inc n p r"
  using written_flush [OF assms(1-3)] assms(4-6) by (auto simp: reader_new_def Let_def readable_def)

section \<open>Reading consumes the source\<close>

text \<open>Opening a chunk does not make it longer; then every read uses up what it delivers.\<close>

definition shrinks :: "crypto \<Rightarrow> bool" where
  "shrinks c \<longleftrightarrow> (\<forall>d n k p. unseal c d n k = Some p \<longrightarrow> length p \<le> length d)"

definition reader_size :: "Reader \<Rightarrow> nat" where
  "reader_size r = length (rd_rest r) + io_size (rd_inner r)"

lemma inner_read_consumes: "inner_read src n = (src', Avail bs) \<Longrightarrow> io_size src' + length bs \<le> io_size src"
  by (cases "(src, n)" rule: inner_read.cases) (auto simp: io_size_def split: if_splits)

lemma fill_consumes: "fill src acc n = (src', Inr bs) \<Longrightarrow> io_size src' + length bs \<le> io_size src + length acc"
proof (induction src acc n rule: fill.induct)
  case (1 src acc n)
  obtain src1 e where ie: "inner_read src (n - length acc) = (src1, e)" by force
  show ?case
  proof (cases "length acc < n")
    case True
    show ?thesis
    proof (cases e)
      case (Avail bs')
      then show ?thesis
        using True 1(1) [OF True ie [symmetric] Avail] 1(3) ie inner_read_consumes [of src "n - length acc" src1 bs']
        by (subst (asm) fill.simps) (auto split: if_splits)
    next
      case Interrupted
      then show ?thesis
        using True 1(2) [OF True ie [symmetric] Interrupted] 1(3) ie inner_read_size [OF ie] by (subst (asm) fill.simps) auto
    next
      case Failed
      then show ?thesis using True 1(3) ie by (subst (asm) fill.simps) auto
    qed
  qed (use 1(3) in \<open>subst (asm) fill.simps; auto\<close>)
qed

lemma open_chunk_consumes:
  assumes "shrinks c" and "open_chunk c inc r = (r', Inr ch)"
  shows "io_size (rd_inner r') + length ch \<le> io_size (rd_inner r) \<and> rd_rest r' = rd_rest r"
proof -
  obtain src bs where "fill (rd_inner r) [] (rd_chunk_len r) = (src, Inr bs)" "unseal c bs (rd_nonce r) (rd_key r) = Some ch"
    "r' = r\<lparr>rd_inner := src, rd_nonce := inc (rd_nonce r)\<rparr>"
    using assms(2)
    by (auto simp: open_chunk_def read_chunk_def chacha_decrypt_def ok_or_def split: prod.splits sum.splits if_splits option.splits)
  then show ?thesis
    using assms(1) fill_consumes [of "rd_inner r" "[]" "rd_chunk_len r" src bs]
    unfolding shrinks_def by fastforce
qed

lemma reader_loop_consumes:
  assumes "shrinks c"
  shows "reader_loop c inc r acc n = (r', Inr bs) \<Longrightarrow> length acc \<le> n \<Longrightarrow> reader_size r' + n \<le> reader_size r + length acc"
proof (induction "io_size (rd_inner r)" arbitrary: r acc rule: less_induct)
  case less
  show ?case
  proof (cases "length acc < n")
    case True
    obtain r1 ch where o: "open_chunk c inc r = (r1, Inr ch)"
      using less.prems(1) True by (subst (asm) reader_loop.simps) (auto split: prod.splits sum.splits)
    let ?k = "min (length ch) (n - length acc)"
    let ?r = "if length acc + ?k = n \<and> ?k < length ch then r1\<lparr>rd_rest := rd_rest r1 @ drop ?k ch\<rparr> else r1"
    have step: "reader_loop c inc r acc n = reader_loop c inc ?r (acc @ take ?k ch) n"
      using True o by (subst reader_loop.simps) (simp add: Let_def)
    have cons: "io_size (rd_inner r1) + length ch \<le> io_size (rd_inner r)" "rd_rest r1 = rd_rest r"
      using open_chunk_consumes [OF assms o] by simp_all
    have "reader_size r' + n \<le> reader_size ?r + length (acc @ take ?k ch)"
      using open_chunk_size [OF o] less.prems(1) True unfolding step by (intro less.hyps) auto
    also have "\<dots> \<le> reader_size r + length acc" using cons by (auto simp: reader_size_def)
    finally show ?thesis .
  next
    case False
    then show ?thesis using less.prems by (subst (asm) reader_loop.simps) auto
  qed
qed

lemma read_exact_consumes:
  assumes "shrinks c" and "read_exact c inc r n = (r', Inr bs)"
  shows "reader_size r' + n \<le> reader_size r"
proof (cases "n = 0")
  case False
  let ?k = "min (length (rd_rest r)) n"
  have "reader_loop c inc (r\<lparr>rd_rest := drop ?k (rd_rest r)\<rparr>) (take ?k (rd_rest r)) n = (r', Inr bs)"
    using assms(2) False by (simp add: read_exact_def reader_read_def Let_def)
  from reader_loop_consumes [OF assms(1) this] show ?thesis by (auto simp: reader_size_def)
qed (use assms in \<open>simp add: read_exact_def\<close>)

section \<open>Properties\<close>

text \<open>Writing and reading piece by piece.\<close>

fun write_list :: "crypto \<Rightarrow> (bytes \<Rightarrow> bytes) \<Rightarrow> bytes list \<Rightarrow> Writer \<Rightarrow> Writer option" where
  "write_list c inc [] w = Some w"
| "write_list c inc (buf # bufs) w = Option.bind (write_all c inc buf w) (write_list c inc bufs)"

fun read_list :: "crypto \<Rightarrow> (bytes \<Rightarrow> bytes) \<Rightarrow> Reader \<Rightarrow> nat list \<Rightarrow> io_error + bytes list" where
  "read_list c inc r [] = Inr []"
| "read_list c inc r (m # ms) =
    (case read_exact c inc r m of
       (r', Inl e) \<Rightarrow> Inl e
     | (r', Inr bs) \<Rightarrow> bindr (read_list c inc r' ms) (\<lambda>bss. Inr (bs # bss)))"

lemma written_list:
  assumes "0 < n"
  shows "written c inc k nonce n base chs p w \<Longrightarrow> length (wr_buffer w) < n \<Longrightarrow>
    \<exists>w' chs'. write_list c inc bufs w = Some w' \<and> written c inc k nonce n base chs' (p @ concat bufs) w' \<and>
      length (wr_buffer w') < n"
proof (induction bufs arbitrary: chs p w)
  case (Cons buf bufs)
  obtain w1 chs1 where 1: "write_all c inc buf w = Some w1" "written c inc k nonce n base (chs @ chs1) (p @ buf) w1"
    "length (wr_buffer w1) < n"
    using written_write [OF Cons.prems(1) assms, of buf] Cons.prems(2) by blast
  show ?case using Cons.IH [OF 1(2,3)] 1(1) by auto
qed auto

lemma read_list_ok:
  assumes "crypto_ok c" and "0 < n"
  shows "readable c inc n p r \<Longrightarrow> sum_list ms \<le> length p \<Longrightarrow>
    \<exists>bss. read_list c inc r ms = Inr bss \<and> map length bss = ms \<and> concat bss = take (sum_list ms) p"
proof (induction ms arbitrary: p r)
  case (Cons m ms)
  obtain r' where r': "read_exact c inc r m = (r', Inr (take m p))" "readable c inc n (drop m p) r'"
    using read_exact_ok [OF assms Cons.prems(1), of m] Cons.prems(2) by auto
  have "sum_list ms \<le> length (drop m p)" using Cons.prems(2) by simp
  then obtain bss where "read_list c inc r' ms = Inr bss" "map length bss = ms" "concat bss = take (sum_list ms) (drop m p)"
    using Cons.IH [OF r'(2)] by blast
  then show ?case using r'(1) Cons.prems(2) by (simp add: take_add)
qed simp

text \<open>
  C37: an encrypted stream returns what was put into it. However the plain text is split over the
  writes, the writer always comes back, and however the flushed file is split over short reads and
  interruptions and whatever sizes are asked for, the reader delivers exactly the plain text in order.
\<close>
theorem stream_roundtrip:
  assumes "crypto_ok c" and "0 < n" and "n + TAGBYTES < 2 ^ 63" and "sum_list ms \<le> length (concat bufs)"
  shows "\<exists>w. write_list c inc bufs (writer_new [] k nonce n) = Some w \<and>
    (\<forall>src. delivers_bytes src (wr_inner (writer_flush c inc w)) \<longrightarrow>
      (\<exists>r bss. reader_new chk src k nonce n = Inr r \<and> read_list c inc r ms = Inr bss \<and>
        map length bss = ms \<and> concat bss = take (sum_list ms) (concat bufs)))"
proof -
  have new: "length (wr_buffer (writer_new [] k nonce n)) < n" using assms(2) by (simp add: writer_new_def)
  obtain w chs where w: "write_list c inc bufs (writer_new [] k nonce n) = Some w"
    "written c inc k nonce n [] chs (concat bufs) w" "length (wr_buffer w) < n"
    using written_list [OF assms(2) written_new new, where bufs = bufs and c = c and inc = inc] by auto
  show ?thesis
    using w(1) stream_readable [OF w(2) assms(2) w(3) assms(3), where ct = "wr_inner (writer_flush c inc w)" and chk = chk]
      read_list_ok [OF assms(1,2) _ assms(4)] by fastforce
qed

text \<open>Witness for C37: five bytes in two writes, chunks of two bytes, read back in two pieces from an interrupted source.\<close>
theorem stream_roundtrip_witness:
  "\<exists>w r. write_list toy_crypto id [[1, 2, 3], [4, 5]] (writer_new [] [9] [0] 2) = Some w \<and>
    reader_new True [Avail (take 7 (wr_inner (writer_flush toy_crypto id w))), Interrupted,
       Avail (drop 7 (wr_inner (writer_flush toy_crypto id w)))] [9] [0] 2 = Inr r \<and>
    read_list toy_crypto id r [1, 4] = Inr [[1], [2, 3, 4, 5]]"
proof -
  obtain w where w: "write_list toy_crypto id [[1, 2, 3], [4, 5]] (writer_new [] [9] [0] 2) = Some w"
    "\<And>src. delivers_bytes src (wr_inner (writer_flush toy_crypto id w)) \<Longrightarrow>
      \<exists>r bss. reader_new True src [9] [0] 2 = Inr r \<and> read_list toy_crypto id r [1, 4] = Inr bss \<and>
        map length bss = [1, 4] \<and> concat bss = take (sum_list [1, 4]) (concat [[1, 2, 3], [4, 5]])"
    using stream_roundtrip [of toy_crypto 2 "[1, 4]" "[[1, 2, 3], [4, 5]]" id "[9]" "[0]" True]
    by (auto simp: TAGBYTES_def)
  let ?f = "wr_inner (writer_flush toy_crypto id w)"
  have "7 < length ?f"
    using w(1) by (auto simp: write_all_def writer_write_def writer_new_def write_loop.simps seal_chunk_def writer_flush_def
        chacha_encrypt_def toy_crypto_def TAGBYTES_def)
  then have "delivers_bytes [Avail (take 7 ?f), Interrupted, Avail (drop 7 ?f)] ?f" by auto
  from w(2) [OF this] w(1) show ?thesis by (auto simp: map_eq_Cons_conv length_Suc_conv numeral_eq_Suc)
qed

end
