(* ===== verification/Wallet_Export.thy ===== *)
theory Wallet_Export
  imports Wallet Crypto_Stream
begin

text \<open>
  Export and import of wallets (\<^verbatim>\<open>indy-wallet/src/export_import.rs\<close>): a plain header, then an
  encrypted stream of the header's hash and the records, each with its length in front. MessagePack
  (\<^verbatim>\<open>rmp_serde\<close>) and SHA-256 are parameters, the nonce, the clock and the random numbers of the
  added records arguments.
\<close>

section \<open>The file format\<close>

definition CHUNK_SIZE :: nat where "CHUNK_SIZE = 1024"
definition HASHBYTES :: nat where "HASHBYTES = 32"

datatype EncryptionMethod =
    ChaCha20Poly1305IETF (em_salt: bytes) (em_nonce: bytes) (em_chunk_size: nat)
  | ChaCha20Poly1305IETFInteractive (em_salt: bytes) (em_nonce: bytes) (em_chunk_size: nat)
  | ChaCha20Poly1305IETFRaw (em_nonce: bytes) (em_chunk_size: nat)

record Header =
  encryption_method :: EncryptionMethod
  hd_time :: nat
  hd_version :: nat

record Record =
  rec_type :: string
  rec_id :: string
  rec_value :: string
  rec_tags :: Tags

record rmp =
  header_to_vec :: "Header \<Rightarrow> bytes option"
  header_from_slice :: "bytes \<Rightarrow> Header option"
  record_to_vec :: "Record \<Rightarrow> bytes option"
  record_from_slice :: "bytes \<Rightarrow> Record option"

text \<open>Little-endian 32-bit numbers; \<^verbatim>\<open>len() as u32\<close> drops the upper bits.\<close>

definition u32_le :: "nat \<Rightarrow> bytes" where
  "u32_le n = [of_nat n, of_nat (n div 256), of_nat (n div 65536), of_nat (n div 16777216)]"

definition le_u32 :: "bytes \<Rightarrow> nat" where
  "le_u32 bs = foldr (\<lambda>b n. unat b + 256 * n) bs 0"

section \<open>Export\<close>

fun method_of :: "KeyDerivationData \<Rightarrow> bytes \<Rightarrow> nat \<Rightarrow> EncryptionMethod" where
  "method_of (Argon2iMod _ salt) nonce chunk_size = ChaCha20Poly1305IETF salt nonce chunk_size"
| "method_of (Argon2iInt _ salt) nonce chunk_size = ChaCha20Poly1305IETFInteractive salt nonce chunk_size"
| "method_of (Raw _) nonce chunk_size = ChaCha20Poly1305IETFRaw nonce chunk_size"

definition exported_record :: "WalletRecord \<Rightarrow> Record IndyResult" where
  "exported_record r =
    bindr (ok_or (wr_type r) (Error InvalidState)) (\<lambda>t.
    bindr (ok_or (wr_value r) (Error InvalidState)) (\<lambda>v.
    bindr (ok_or (wr_tags r) (Error InvalidState)) (\<lambda>tags.
      Inr \<lparr> rec_type = t, rec_id = wr_id r, rec_value = v, rec_tags = tags \<rparr>)))"

text \<open>One record, with its length in front.\<close>

definition write_frame :: "crypto \<Rightarrow> (bytes \<Rightarrow> bytes) \<Rightarrow> bytes \<Rightarrow> Writer \<Rightarrow> Writer option" where
  "write_frame c inc bs w = Option.bind (write_all c inc (u32_le (length bs)) w) (write_all c inc bs)"

partial_function (option) export_records ::
  "crypto \<Rightarrow> (bytes \<Rightarrow> bytes) \<Rightarrow> rmp \<Rightarrow> ('s, 'i) Wallet \<Rightarrow> 'i \<Rightarrow> Writer \<Rightarrow> (Writer \<times> unit IndyResult) option" where
  "export_records c inc m w it wr =
    (case iterator_next c w it of
       (it', Inl e) \<Rightarrow> Some (wr, Inl e)
     | (it', Inr None) \<Rightarrow> Some (wr, Inr ())
     | (it', Inr (Some r)) \<Rightarrow>
         (case bindr (exported_record r) (\<lambda>x. ok_or (record_to_vec m x) (Error InvalidState)) of
            Inl e \<Rightarrow> Some (wr, Inl e)
          | Inr bs \<Rightarrow> Option.bind (write_frame c inc bs wr) (export_records c inc m w it')))"

definition export_header :: "bytes \<Rightarrow> nat \<Rightarrow> nat \<Rightarrow> KeyDerivationData \<Rightarrow> Header" where
  "export_header nonce time version key_data =
    \<lparr> encryption_method = method_of key_data nonce CHUNK_SIZE, hd_time = time, hd_version = version \<rparr>"

text \<open>The result is what the sink holds in the end and what the call reports.\<close>

definition export_continue ::
  "crypto \<Rightarrow> (bytes \<Rightarrow> bytes) \<Rightarrow> rmp \<Rightarrow> (bytes \<Rightarrow> bytes IndyResult) \<Rightarrow> bytes \<Rightarrow> nat \<Rightarrow> ('s, 'i) Wallet \<Rightarrow> bytes \<Rightarrow> nat
    \<Rightarrow> bytes \<Rightarrow> KeyDerivationData \<Rightarrow> (bytes \<times> unit IndyResult) option" where
  "export_continue c inc m hash nonce time w sink version key key_data =
    (case header_to_vec m (export_header nonce time version key_data) of
       None \<Rightarrow> Some (sink, Inl (Error InvalidState))
     | Some header \<Rightarrow>
         (let sink1 = sink @ u32_le (length header) @ header in
          case hash header of
            Inl e \<Rightarrow> Some (sink1, Inl e)
          | Inr h \<Rightarrow>
              Option.bind (write_all c inc h (writer_new sink1 key nonce CHUNK_SIZE)) (\<lambda>wr1.
                case wallet_get_all w of
                  Inl e \<Rightarrow> Some (wr_inner wr1, Inl e)
                | Inr it \<Rightarrow>
                    Option.bind (export_records c inc m w it wr1) (\<lambda>(wr2, res).
                      case res of
                        Inl e \<Rightarrow> Some (wr_inner wr2, Inl e)
                      | Inr _ \<Rightarrow> Option.bind (write_all c inc (u32_le 0) wr2) (\<lambda>wr3.
                          Some (wr_inner (writer_flush c inc wr3), Inr ()))))))"

section \<open>Import\<close>

fun map_io_err :: "io_error \<Rightarrow> failure" where
  "map_io_err UnexpectedEof = Error InvalidStructure"
| "map_io_err InvalidData = Error InvalidStructure"
| "map_io_err OtherIo = Error IOError"

text \<open>\<^verbatim>\<open>read_exact\<close> on the plain part of the file.\<close>

definition plain_read_exact :: "io_read list \<Rightarrow> nat \<Rightarrow> (io_read list \<times> bytes) IndyResult" where
  "plain_read_exact src n =
    (case fill src [] n of
       (src', Inl e) \<Rightarrow> Inl (map_io_err e)
     | (src', Inr bs) \<Rightarrow> if length bs < n then Inl (map_io_err UnexpectedEof) else Inr (src', bs))"

definition key_derivation_method_of :: "EncryptionMethod \<Rightarrow> KeyDerivationMethod" where
  "key_derivation_method_of em =
    (case em of
       ChaCha20Poly1305IETF _ _ _ \<Rightarrow> ARGON2I_MOD
     | ChaCha20Poly1305IETFInteractive _ _ _ \<Rightarrow> ARGON2I_INT
     | ChaCha20Poly1305IETFRaw _ _ \<Rightarrow> RAW)"

definition salted_key_data ::
  "crypto \<Rightarrow> KeyDerivationMethod \<Rightarrow> string \<Rightarrow> bytes \<Rightarrow> bytes \<Rightarrow> nat \<Rightarrow> (KeyDerivationData \<times> bytes \<times> nat) IndyResult" where
  "salted_key_data c meth passphrase salt nonce chunk_size =
    bindr (to_indy InvalidStructure (from_slice (salt_bytes c) salt)) (\<lambda>salt.
    bindr (to_indy InvalidStructure (from_slice NONCEBYTES nonce)) (\<lambda>nonce.
      case meth of
        ARGON2I_INT \<Rightarrow> Inr (Argon2iInt passphrase salt, nonce, chunk_size)
      | ARGON2I_MOD \<Rightarrow> Inr (Argon2iMod passphrase salt, nonce, chunk_size)
      | _ \<Rightarrow> Inl Panic))"

fun import_key_data ::
  "crypto \<Rightarrow> KeyDerivationMethod \<Rightarrow> string \<Rightarrow> EncryptionMethod \<Rightarrow> (KeyDerivationData \<times> bytes \<times> nat) IndyResult" where
  "import_key_data c meth passphrase (ChaCha20Poly1305IETF salt nonce chunk_size) =
    salted_key_data c meth passphrase salt nonce chunk_size"
| "import_key_data c meth passphrase (ChaCha20Poly1305IETFInteractive salt nonce chunk_size) =
    salted_key_data c meth passphrase salt nonce chunk_size"
| "import_key_data c meth passphrase (ChaCha20Poly1305IETFRaw nonce chunk_size) =
    bindr (to_indy InvalidStructure (from_slice NONCEBYTES nonce)) (\<lambda>nonce. Inr (Raw passphrase, nonce, chunk_size))"

definition preparse_file_to_import ::
  "crypto \<Rightarrow> rmp \<Rightarrow> io_read list \<Rightarrow> string \<Rightarrow> (io_read list \<times> KeyDerivationData \<times> bytes \<times> nat \<times> bytes) IndyResult" where
  "preparse_file_to_import c m src passphrase =
    bindr (plain_read_exact src 4) (\<lambda>(src1, len_bytes).
      if le_u32 len_bytes = 0 then Inl (Error InvalidStructure)
      else
        bindr (plain_read_exact src1 (le_u32 len_bytes)) (\<lambda>(src2, header_bytes).
        bindr (ok_or (header_from_slice m header_bytes) (Error InvalidStructure)) (\<lambda>header.
          if hd_version header \<noteq> 0 then Inl (Error InvalidStructure)
          else
            bindr (import_key_data c (key_derivation_method_of (encryption_method header)) passphrase
                (encryption_method header)) (\<lambda>(key_data, nonce, chunk_size).
              Inr (src2, key_data, nonce, chunk_size, header_bytes)))))"

text \<open>The loop of \<^verbatim>\<open>finish_import\<close>; \<open>rnd\<close> are the random numbers of the records it adds.\<close>

partial_function (option) import_records ::
  "crypto \<Rightarrow> (bytes \<Rightarrow> bytes) \<Rightarrow> rmp \<Rightarrow> (nat \<Rightarrow> value_rnd) \<Rightarrow> nat \<Rightarrow> ('s, 'i) Wallet \<Rightarrow> Reader
    \<Rightarrow> (('s, 'i) Wallet \<times> unit IndyResult) option" where
  "import_records c inc m rnd i w r =
    (case read_exact c inc r 4 of
       (r1, Inl e) \<Rightarrow> Some (w, Inl (map_io_err e))
     | (r1, Inr len_bytes) \<Rightarrow>
         if le_u32 len_bytes = 0 then Some (w, Inr ())
         else
           (case read_exact c inc r1 (le_u32 len_bytes) of
              (r2, Inl e) \<Rightarrow> Some (w, Inl (map_io_err e))
            | (r2, Inr bs) \<Rightarrow>
                (case record_from_slice m bs of
                   None \<Rightarrow> Some (w, Inl (Error InvalidStructure))
                 | Some x \<Rightarrow>
                     (case wallet_add c (rnd i) w (rec_type x) (rec_id x) (rec_value x) (rec_tags x) of
                        (w', Inl e) \<Rightarrow> Some (w', Inl e)
                      | (w', Inr _) \<Rightarrow> import_records c inc m rnd (Suc i) w' r2))))"

definition finish_import ::
  "bool \<Rightarrow> crypto \<Rightarrow> (bytes \<Rightarrow> bytes) \<Rightarrow> rmp \<Rightarrow> (bytes \<Rightarrow> bytes IndyResult) \<Rightarrow> (nat \<Rightarrow> value_rnd) \<Rightarrow> ('s, 'i) Wallet
    \<Rightarrow> io_read list \<Rightarrow> bytes \<Rightarrow> bytes \<Rightarrow> nat \<Rightarrow> bytes \<Rightarrow> (('s, 'i) Wallet \<times> unit IndyResult) option" where
  "finish_import chk c inc m hash rnd w src key nonce chunk_size header_bytes =
    (case reader_new chk src key nonce chunk_size of
       Inl e \<Rightarrow> Some (w, Inl e)
     | Inr r \<Rightarrow>
         (case read_exact c inc r HASHBYTES of
            (r1, Inl e) \<Rightarrow> Some (w, Inl (map_io_err e))
          | (r1, Inr header_hash) \<Rightarrow>
              (case hash header_bytes of
                 Inl e \<Rightarrow> Some (w, Inl e)
               | Inr h \<Rightarrow>
                   if h \<noteq> header_hash then Some (w, Inl (Error InvalidStructure))
                   else import_records c inc m rnd 0 w r1)))"

section \<open>What MessagePack guarantees\<close>

text \<open>A record survives up to the order of its tags, which are a \<^verbatim>\<open>HashMap\<close>.\<close>

definition same_record :: "Record \<Rightarrow> Record \<Rightarrow> bool" where
  "same_record x y \<longleftrightarrow> rec_type x = rec_type y \<and> rec_id x = rec_id y \<and> rec_value x = rec_value y \<and>
    distinct (map fst (rec_tags y)) \<and> map_of (rec_tags x) = map_of (rec_tags y)"

definition rmp_ok :: "rmp \<Rightarrow> bool" where
  "rmp_ok m \<longleftrightarrow>
    (\<forall>h bs. header_to_vec m h = Some bs \<longrightarrow> bs \<noteq> [] \<and> header_from_slice m bs = Some h) \<and>
    (\<forall>x. distinct (map fst (rec_tags x)) \<longrightarrow>
      (\<exists>bs y. record_to_vec m x = Some bs \<and> bs \<noteq> [] \<and> record_from_slice m bs = Some y \<and> same_record x y))"

definition describes :: "Record \<Rightarrow> string \<Rightarrow> string \<Rightarrow> plain \<Rightarrow> bool" where
  "describes x t n p \<longleftrightarrow> rec_type x = t \<and> rec_id x = n \<and> rec_value x = pl_value p \<and>
    distinct (map fst (rec_tags x)) \<and> map_of (rec_tags x) = pl_tags p"

text \<open>No record of the wallet needs \<open>2 ^ 32\<close> bytes or more.\<close>

definition fits :: "rmp \<Rightarrow> vault \<Rightarrow> bool" where
  "fits m V \<longleftrightarrow> (\<forall>t n p x bs. V (t, n) = Some p \<longrightarrow> describes x t n p \<longrightarrow> record_to_vec m x = Some bs \<longrightarrow> length bs < 2 ^ 32)"

section \<open>Frames\<close>

lemma length_u32_le [simp]: "length (u32_le n) = 4"
  by (simp add: u32_le_def)

lemma unat_byte: "unat (of_nat n :: byte) = n mod 256"
  by (simp add: unat_of_nat)

lemma le_u32_le: "n < 2 ^ 32 \<Longrightarrow> le_u32 (u32_le n) = n"
proof -
  assume n: "n < 2 ^ 32"
  have "n div 16777216 < 256" using n by (simp add: div_less_iff_less_mult)
  then have "n div 16777216 mod 256 = n div 16777216" by simp
  moreover have "n div 65536 = n div 65536 mod 256 + 256 * (n div 16777216)"
    using mod_mult_div_eq [of "n div 65536" 256] by (simp add: div_mult2_eq [symmetric])
  moreover have "n div 256 = n div 256 mod 256 + 256 * (n div 65536)"
    using mod_mult_div_eq [of "n div 256" 256] by (simp add: div_mult2_eq [symmetric])
  moreover have "n = n mod 256 + 256 * (n div 256)" by simp
  ultimately show ?thesis by (simp add: le_u32_def u32_le_def unat_byte)
qed

definition frame :: "bytes \<Rightarrow> bytes" where
  "frame bs = u32_le (length bs) @ bs"

lemma write_frame_ok:
  assumes "0 < n" and "written c inc k nonce n base chs p w" and "length (wr_buffer w) < n"
  shows "\<exists>w' chs'. write_frame c inc bs w = Some w' \<and> written c inc k nonce n base chs' (p @ frame bs) w' \<and>
    length (wr_buffer w') < n"
proof -
  have "write_frame c inc bs w = write_list c inc [u32_le (length bs), bs] w"
    by (cases "write_all c inc (u32_le (length bs)) w"; cases "write_all c inc bs (the (write_all c inc (u32_le (length bs)) w))")
      (simp_all add: write_frame_def)
  with written_list [OF assms, of "[u32_le (length bs), bs]"] show ?thesis by (simp add: frame_def)
qed

lemma read_frame:
  assumes "crypto_ok c" and "0 < n" and "readable c inc n (frame bs @ p) r" and "length bs < 2 ^ 32"
  shows "\<exists>r1 r2. read_exact c inc r 4 = (r1, Inr (u32_le (length bs))) \<and>
    read_exact c inc r1 (length bs) = (r2, Inr bs) \<and> readable c inc n p r2"
proof -
  obtain r1 where 1: "read_exact c inc r 4 = (r1, Inr (u32_le (length bs)))" "readable c inc n (bs @ p) r1"
    using read_exact_ok [OF assms(1-3), of 4] by (auto simp: frame_def)
  show ?thesis using 1 read_exact_ok [OF assms(1,2) 1(2), of "length bs"] by auto
qed

section \<open>Export\<close>

lemma fetch_all_Nil: "fetch_all (Suc 0) c w it = Inr [] \<Longrightarrow> \<exists>it'. iterator_next c w it = (it', Inr None)"
  by (auto split: prod.splits sum.splits option.splits)

lemma fetch_all_Cons:
  "fetch_all (Suc k) c w it = Inr (r # rs) \<Longrightarrow> \<exists>it'. iterator_next c w it = (it', Inr (Some r)) \<and> fetch_all k c w it' = Inr rs"
  by (auto simp: bindr_Inr_iff split: prod.splits sum.splits option.splits)

lemma export_records_ok:
  assumes n: "0 < n"
  shows "fetch_all (Suc (length wrs)) c w it = Inr wrs \<Longrightarrow>
    list_all2 (\<lambda>r bs. bindr (exported_record r) (\<lambda>x. ok_or (record_to_vec m x) (Error InvalidState)) = Inr bs) wrs bss \<Longrightarrow>
    written c inc k nonce n base chs p wr \<Longrightarrow> length (wr_buffer wr) < n \<Longrightarrow>
    \<exists>wr' chs'. export_records c inc m w it wr = Some (wr', Inr ()) \<and>
      written c inc k nonce n base chs' (p @ concat (map frame bss)) wr' \<and> length (wr_buffer wr') < n"
proof (induction wrs arbitrary: it bss wr p chs)
  case Nil
  then show ?case using fetch_all_Nil [of c w it] by (subst export_records.simps) auto
next
  case (Cons r wrs)
  obtain bs bss' where b: "bss = bs # bss'" "bindr (exported_record r) (\<lambda>x. ok_or (record_to_vec m x) (Error InvalidState)) = Inr bs"
    "list_all2 (\<lambda>r bs. bindr (exported_record r) (\<lambda>x. ok_or (record_to_vec m x) (Error InvalidState)) = Inr bs) wrs bss'"
    using Cons.prems(2) by (auto simp: list_all2_Cons1)
  obtain it' where it': "iterator_next c w it = (it', Inr (Some r))" "fetch_all (Suc (length wrs)) c w it' = Inr wrs"
    using fetch_all_Cons [of "Suc (length wrs)" c w it r wrs] Cons.prems(1) by (simp only: length_Cons) blast
  obtain wr1 chs1 where w1: "write_frame c inc bs wr = Some wr1" "written c inc k nonce n base chs1 (p @ frame bs) wr1"
    "length (wr_buffer wr1) < n"
    using write_frame_ok [OF n Cons.prems(3,4)] by blast
  obtain wr' chs' where "export_records c inc m w it' wr1 = Some (wr', Inr ())"
    "written c inc k nonce n base chs' ((p @ frame bs) @ concat (map frame bss')) wr'" "length (wr_buffer wr') < n"
    using Cons.IH [OF it'(2) b(3) w1(2,3)] by blast
  then show ?case using it'(1) b(1,2) w1(1) by (subst export_records.simps) auto
qed

text \<open>What a successful export leaves behind.\<close>

lemma export_continue_ok:
  assumes "wallet_get_all w = Inr it" and "fetch_all (Suc (length wrs)) c w it = Inr wrs"
    and "list_all2 (\<lambda>r bs. bindr (exported_record r) (\<lambda>x. ok_or (record_to_vec m x) (Error InvalidState)) = Inr bs) wrs bss"
    and "header_to_vec m (export_header nonce time version key_data) = Some hb" and "hash hb = Inr h"
  shows "\<exists>wr chs. export_continue c inc m hash nonce time w sink version key key_data =
      Some (wr_inner (writer_flush c inc wr), Inr ()) \<and> length (wr_buffer wr) < CHUNK_SIZE \<and>
    written c inc key nonce CHUNK_SIZE (sink @ u32_le (length hb) @ hb) chs (h @ concat (map frame bss) @ u32_le 0) wr"
proof -
  let ?base = "sink @ u32_le (length hb) @ hb"
  let ?written = "written c inc key nonce CHUNK_SIZE ?base"
  have n: "0 < CHUNK_SIZE" by (simp add: CHUNK_SIZE_def)
  have new: "length (wr_buffer (writer_new ?base key nonce CHUNK_SIZE)) < CHUNK_SIZE" by (simp add: writer_new_def n)
  obtain wr1 chs1 where 1: "write_all c inc h (writer_new ?base key nonce CHUNK_SIZE) = Some wr1"
    "?written chs1 h wr1" "length (wr_buffer wr1) < CHUNK_SIZE"
    using written_write [OF written_new [of c inc key nonce CHUNK_SIZE ?base] n, of h] new by auto
  obtain wr2 chs2 where 2: "export_records c inc m w it wr1 = Some (wr2, Inr ())"
    "?written chs2 (h @ concat (map frame bss)) wr2" "length (wr_buffer wr2) < CHUNK_SIZE"
    using export_records_ok [OF n assms(2,3) 1(2,3)] by blast
  obtain wr3 chs3 where 3: "write_all c inc (u32_le 0) wr2 = Some wr3"
    "?written chs3 (h @ concat (map frame bss) @ u32_le 0) wr3" "length (wr_buffer wr3) < CHUNK_SIZE"
    using written_write [OF 2(2) n, of "u32_le 0"] 2(3) by auto
  show ?thesis using assms(1,4,5) 1(1) 2(1) 3 by (auto simp: export_continue_def)
qed

lemma shown_exported:
  assumes "rmp_ok m" and "shows_plain all_options t n p wr"
  shows "\<exists>x bs y. exported_record wr = Inr x \<and> describes x t n p \<and> record_to_vec m x = Some bs \<and> bs \<noteq> [] \<and>
    record_from_slice m bs = Some y \<and> describes y t n p"
proof -
  obtain tags where "wr_type wr = Some t" "wr_id wr = n" "wr_value wr = Some (pl_value p)" "wr_tags wr = Some tags"
    "distinct (map fst tags)" "map_of tags = pl_tags p"
    using assms(2) by (auto simp: shows_plain_def all_options_def)
  then have x: "exported_record wr = Inr \<lparr> rec_type = t, rec_id = n, rec_value = pl_value p, rec_tags = tags \<rparr>"
    and d: "describes \<lparr> rec_type = t, rec_id = n, rec_value = pl_value p, rec_tags = tags \<rparr> t n p"
    by (simp_all add: exported_record_def describes_def)
  let ?x = "\<lparr> rec_type = t, rec_id = n, rec_value = pl_value p, rec_tags = tags \<rparr>"
  have "distinct (map fst (rec_tags ?x))" using d by (simp add: describes_def)
  then obtain bs y where "record_to_vec m ?x = Some bs" "bs \<noteq> []" "record_from_slice m bs = Some y" "same_record ?x y"
    using assms(1) unfolding rmp_ok_def by blast
  then show ?thesis using x d by (auto simp: same_record_def describes_def)
qed

section \<open>Import\<close>

definition vault_put :: "Record \<Rightarrow> vault \<Rightarrow> vault" where
  "vault_put x V = V((rec_type x, rec_id x) \<mapsto> \<lparr> pl_value = rec_value x, pl_tags = map_of (rec_tags x) \<rparr>)"

definition record_key :: "Record \<Rightarrow> string \<times> string" where
  "record_key x = (rec_type x, rec_id x)"

lemma vault_put_other: "record_key y \<noteq> record_key x \<Longrightarrow> vault_put x V (record_key y) = V (record_key y)"
  by (auto simp: vault_put_def record_key_def)

lemma ev_decrypt_rust: "ev_decrypt c v k = Inr s \<Longrightarrow> rust_string s"
  by (auto simp: ev_decrypt_def bindr_Inr_iff from_utf8_def rust_string_def split: if_splits)

context encrypted_wallet
begin

lemma get_all_plain:
  assumes w: "wallet_holds S inv abs c w V"
  shows "\<exists>it wrs. wallet_get_all w = Inr it \<and> fetch_all (Suc (length wrs)) c w it = Inr wrs \<and>
    delivers all_options V (dom V) wrs"
proof -
  have rel: "vault_rel c (w_keys w) V (abs (w_state w))" and st: "w_storage w = S" and i: "inv (w_state w)"
    using w by (simp_all add: wallet_holds_def)
  obtain it srs where it: "st_get_all S (w_state w) = Inr it" "yields S (w_state w) it srs"
    "shows_all all_options (abs (w_state w)) {k. abs (w_state w) k \<noteq> None} srs"
    using get_all_ok [OF i] by blast
  have "(t, n) \<in> dom V \<longleftrightarrow>
      V (t, n) \<noteq> None \<and> (enc_type c (w_keys w) t, enc_item c (w_keys w) n) \<in> {k. abs (w_state w) k \<noteq> None}" for t n
    using vault_lookup(2) [OF rel, of t n] by fastforce
  from decrypt_shown_all [OF crypto rel it(3) this]
  obtain wrs where wrs: "traverse (decrypt_storage_record c (w_keys w)) srs = Inr wrs" "delivers all_options V (dom V) wrs"
    by blast
  have "fetch_all (Suc (length wrs)) c w it = Inr wrs"
    using fetch_all_yields [of w it srs c wrs] it(2) wrs(1) traverse_Inr_length [OF wrs(1)] st
    by (simp del: fetch_all.simps)
  then show ?thesis using it(1) st wrs(2) by (auto simp: wallet_get_all_def)
qed

lemma import_records_ok:
  assumes n: "0 < n"
  shows "wallet_holds S inv abs c w V \<Longrightarrow> readable c inc n (concat (map frame bss) @ u32_le 0) r \<Longrightarrow>
    list_all2 (\<lambda>bs x. record_from_slice m bs = Some x \<and> bs \<noteq> [] \<and> length bs < 2 ^ 32) bss xs \<Longrightarrow>
    \<forall>x\<in>set xs. \<forall>i. wallet_call_ok (WAdd (rnd i) (rec_type x) (rec_id x) (rec_value x) (rec_tags x)) \<Longrightarrow>
    distinct (map record_key xs) \<Longrightarrow> \<forall>x\<in>set xs. V (record_key x) = None \<Longrightarrow>
    \<exists>w'. import_records c inc m rnd i w r = Some (w', Inr ()) \<and> wallet_holds S inv abs c w' (fold vault_put xs V)"
proof (induction bss arbitrary: xs w V r i)
  case Nil
  then obtain r' where "read_exact c inc r 4 = (r', Inr (u32_le 0))"
    using read_exact_ok [OF crypto n, of inc "u32_le 0" r 4] by auto
  with Nil show ?case by (subst import_records.simps) (simp add: le_u32_le)
next
  case (Cons bs bss)
  obtain x xs' where x: "xs = x # xs'" "record_from_slice m bs = Some x" "bs \<noteq> []" "length bs < 2 ^ 32"
    "list_all2 (\<lambda>bs x. record_from_slice m bs = Some x \<and> bs \<noteq> [] \<and> length bs < 2 ^ 32) bss xs'"
    using Cons.prems(3) by (auto simp: list_all2_Cons1)
  have "readable c inc n (frame bs @ concat (map frame bss) @ u32_le 0) r" using Cons.prems(2) by simp
  from read_frame [OF crypto n this x(4)]
  obtain r1 r2 where r: "read_exact c inc r 4 = (r1, Inr (u32_le (length bs)))" "read_exact c inc r1 (length bs) = (r2, Inr bs)"
    "readable c inc n (concat (map frame bss) @ u32_le 0) r2" by blast
  let ?call = "WAdd (rnd i) (rec_type x) (rec_id x) (rec_value x) (rec_tags x)"
  have "V (rec_type x, rec_id x) = None" using Cons.prems(6) x(1) by (simp add: record_key_def)
  then obtain w1 where w1: "wallet_add c (rnd i) w (rec_type x) (rec_id x) (rec_value x) (rec_tags x) = (w1, Inr ())"
    "wallet_holds S inv abs c w1 (vault_put x V)"
    using exec_wallet_refines [OF Cons.prems(1), of ?call] Cons.prems(4) x(1) by (auto simp: vault_put_def)
  have fresh: "\<forall>y\<in>set xs'. vault_put x V (record_key y) = None"
  proof
    fix y assume y: "y \<in> set xs'"
    have "record_key x \<notin> record_key ` set xs'" using Cons.prems(5) x(1) by simp
    then have "record_key y \<noteq> record_key x" using imageI [OF y, of record_key] by metis
    then show "vault_put x V (record_key y) = None" using Cons.prems(6) x(1) y by (simp add: vault_put_other)
  qed
  have "length bs \<noteq> 0" using x(3) by simp
  obtain w' where w': "import_records c inc m rnd (Suc i) w1 r2 = Some (w', Inr ())"
    "wallet_holds S inv abs c w' (fold vault_put xs' (vault_put x V))"
    using Cons.IH [OF w1(2) r(3) x(5), of "Suc i"] Cons.prems(4,5) fresh x(1) by auto
  show ?case
    using w' r(1,2) x(2) w1(1) \<open>length bs \<noteq> 0\<close>
    by (subst import_records.simps) (simp add: le_u32_le [OF x(4)] x(1))
qed

end

section \<open>Export followed by import\<close>

lemma exported_list:
  assumes m: "rmp_ok m" and V: "fits m V"
    and "list_all2 (\<lambda>(t, n) wr. \<exists>p. V (t, n) = Some p \<and> shows_plain all_options t n p wr) ps wrs"
  shows "\<exists>bss ys.
    list_all2 (\<lambda>r bs. bindr (exported_record r) (\<lambda>x. ok_or (record_to_vec m x) (Error InvalidState)) = Inr bs) wrs bss \<and>
    list_all2 (\<lambda>bs x. record_from_slice m bs = Some x \<and> bs \<noteq> [] \<and> length bs < 2 ^ 32) bss ys \<and>
    list_all2 (\<lambda>(t, n) y. \<exists>p. V (t, n) = Some p \<and> describes y t n p) ps ys"
  using assms(3)
proof (induction rule: list_all2_induct)
  case Nil
  then show ?case by (intro exI [of _ "[]"]) simp
next
  case (Cons tn ps wr wrs)
  obtain t n where tn: "tn = (t, n)" by force
  obtain p where p: "V (t, n) = Some p" "shows_plain all_options t n p wr" using Cons.hyps(1) by (auto simp: tn)
  obtain x bs y where x: "exported_record wr = Inr x" "describes x t n p" "record_to_vec m x = Some bs" "bs \<noteq> []"
    "record_from_slice m bs = Some y" "describes y t n p"
    using shown_exported [OF m p(2)] by blast
  have "length bs < 2 ^ 32" using V p(1) x(2,3) unfolding fits_def by blast
  moreover obtain bss ys where
    "list_all2 (\<lambda>r bs. bindr (exported_record r) (\<lambda>x. ok_or (record_to_vec m x) (Error InvalidState)) = Inr bs) wrs bss"
    "list_all2 (\<lambda>bs x. record_from_slice m bs = Some x \<and> bs \<noteq> [] \<and> length bs < 2 ^ 32) bss ys"
    "list_all2 (\<lambda>(t, n) y. \<exists>p. V (t, n) = Some p \<and> describes y t n p) ps ys"
    using Cons.IH by blast
  ultimately show ?case
    using x p(1) by (intro exI [of _ "bs # bss"] exI [of _ "y # ys"]) (simp add: tn)
qed

lemma described_keys:
  "list_all2 (\<lambda>(t, n) y. \<exists>p. V (t, n) = Some p \<and> describes y t n p) ps ys \<Longrightarrow> map record_key ys = ps"
  by (induction rule: list_all2_induct) (auto simp: describes_def record_key_def)

lemma fold_vault_put:
  "list_all2 (\<lambda>(t, n) y. \<exists>p. V (t, n) = Some p \<and> describes y t n p) ps ys \<Longrightarrow> distinct ps \<Longrightarrow>
    fold vault_put ys V0 k = (if k \<in> set ps then V k else V0 k)"
proof (induction arbitrary: V0 rule: list_all2_induct)
  case (Cons tn ps y ys)
  obtain t n p where tn: "tn = (t, n)" "V (t, n) = Some p" "describes y t n p" using Cons.hyps(1) by (cases tn) auto
  then have "vault_put y V0 = V0((t, n) \<mapsto> p)" by (auto simp: vault_put_def describes_def)
  then have "(if k \<in> set ps then V k else vault_put y V0 k) = (if k \<in> set (tn # ps) then V k else V0 k)"
    using Cons.prems tn(1,2) by auto
  moreover have "fold vault_put (y # ys) V0 k = (if k \<in> set ps then V k else vault_put y V0 k)"
    using Cons.IH [of "vault_put y V0"] Cons.prems by (simp only: fold_Cons o_apply distinct.simps)
  ultimately show ?case by (rule trans [rotated])
qed simp

lemma described_call_ok:
  assumes rel: "vault_rel c keys V st" and V: "V (t, n) = Some p" and y: "describes y t n p" and "rnd_ok r"
  shows "wallet_call_ok (WAdd r (rec_type y) (rec_id y) (rec_value y) (rec_tags y))"
proof -
  obtain sr where sr: "record_rel c keys p sr" "rust_string t" "rust_string n" using vault_lookup(2) [OF rel V] by blast
  then have "rust_string (pl_value p)" by (auto simp: record_rel_def dest: ev_decrypt_rust)
  moreover have "tags_ok (rec_tags y)"
  proof -
    have "rust_string a \<and> rust_string b" if "(a, b) \<in> set (rec_tags y)" for a b
    proof -
      have "distinct (map fst (rec_tags y))" "map_of (rec_tags y) = pl_tags p" using y by (simp_all add: describes_def)
      with map_of_is_SomeI [OF this(1) that] have "pl_tags p a = Some b" by simp
      then show ?thesis using sr(1) unfolding record_rel_def tag_rel_def by blast
    qed
    then show ?thesis using y by (auto simp: tags_ok_def describes_def)
  qed
  ultimately show ?thesis using sr y assms(4) by (simp add: describes_def)
qed

fun key_data_for :: "crypto \<Rightarrow> string \<Rightarrow> KeyDerivationData \<Rightarrow> bool" where
  "key_data_for c pp (Raw s) \<longleftrightarrow> s = pp"
| "key_data_for c pp (Argon2iMod s salt) \<longleftrightarrow> s = pp \<and> length salt = salt_bytes c"
| "key_data_for c pp (Argon2iInt s salt) \<longleftrightarrow> s = pp \<and> length salt = salt_bytes c"

lemma plain_read_exact_ok:
  assumes "delivers_bytes src (bs @ p)"
  shows "\<exists>src'. plain_read_exact src (length bs) = Inr (src', bs) \<and> delivers_bytes src' p"
  using fill_ok [OF assms, of "[]" "length bs"] by (auto simp: plain_read_exact_def)

lemma import_key_data_ok:
  assumes "key_data_for c passphrase key_data" and "length nonce = NONCEBYTES"
  shows "import_key_data c (key_derivation_method_of (method_of key_data nonce n)) passphrase (method_of key_data nonce n)
    = Inr (key_data, nonce, n)"
  using assms
  by (cases key_data) (auto simp: salted_key_data_def key_derivation_method_of_def from_slice_def)

lemma preparse_ok:
  assumes m: "rmp_ok m" and h: "header_to_vec m (export_header nonce time 0 key_data) = Some hb" and "length hb < 2 ^ 32"
    and "length nonce = NONCEBYTES" and "key_data_for c passphrase key_data"
    and src: "delivers_bytes src (u32_le (length hb) @ hb @ p)"
  shows "\<exists>src'. preparse_file_to_import c m src passphrase = Inr (src', key_data, nonce, CHUNK_SIZE, hb) \<and> delivers_bytes src' p"
proof -
  obtain src1 where 1: "plain_read_exact src 4 = Inr (src1, u32_le (length hb))" "delivers_bytes src1 (hb @ p)"
    using plain_read_exact_ok [OF src] by auto
  obtain src2 where 2: "plain_read_exact src1 (length hb) = Inr (src2, hb)" "delivers_bytes src2 p"
    using plain_read_exact_ok [OF 1(2)] by auto
  have "hb \<noteq> []" "header_from_slice m hb = Some (export_header nonce time 0 key_data)"
    using m h unfolding rmp_ok_def by blast+
  then show ?thesis
    using 1(1) 2 import_key_data_ok [OF assms(5,4), of CHUNK_SIZE]
    by (simp add: preparse_file_to_import_def le_u32_le [OF assms(3)] export_header_def)
qed

lemma finish_import_ok:
  assumes "crypto_ok c" and "written c inc key nonce CHUNK_SIZE base chs (h @ p) wr" and "length (wr_buffer wr) < CHUNK_SIZE"
    and "wr_inner (writer_flush c inc wr) = base @ ct" and "delivers_bytes src ct"
    and "hash hb = Inr h" and "length h = HASHBYTES"
  shows "\<exists>r. readable c inc CHUNK_SIZE p r \<and>
    finish_import chk c inc m hash rnd w src key nonce CHUNK_SIZE hb = import_records c inc m rnd 0 w r"
proof -
  have n: "0 < CHUNK_SIZE" "CHUNK_SIZE + TAGBYTES < 2 ^ 63" by (simp_all add: CHUNK_SIZE_def TAGBYTES_def)
  obtain r where r: "reader_new chk src key nonce CHUNK_SIZE = Inr r" "readable c inc CHUNK_SIZE (h @ p) r"
    using stream_readable [OF assms(2) n(1) assms(3) n(2) assms(4,5)] by blast
  obtain r1 where "read_exact c inc r HASHBYTES = (r1, Inr h)" "readable c inc CHUNK_SIZE p r1"
    using read_exact_ok [OF assms(1) n(1) r(2), of HASHBYTES] assms(7) by auto
  then show ?thesis using r(1) assms(6) by (auto simp: finish_import_def)
qed

section \<open>Properties\<close>

text \<open>
  C34: what is exported can be imported. The export of a wallet comes to an end and succeeds, and
  however its file is cut into short reads and interruptions, reading the header recovers the key
  derivation data, nonce and chunk size, and the import into an empty wallet, with other keys if it
  has them, succeeds and leaves exactly the exported records there, values and tags included.
\<close>
theorem export_import_roundtrip:
  assumes E: "sql_engine like E" and c: "crypto_ok c" and m: "rmp_ok m" and fits: "fits m V"
    and hb: "header_to_vec m (export_header nonce time 0 key_data) = Some hb" "length hb < 2 ^ 32"
    and h: "hash hb = Inr h" "length h = HASHBYTES"
    and k: "length nonce = NONCEBYTES" "key_data_for c passphrase key_data" and rnd: "\<forall>i. rnd_ok (rnd i)"
    and w: "wallet_holds (SQLiteStorage E j chk) (db_inv fk) db_store c w V"
    and w2: "wallet_holds (SQLiteStorage E j chk) (db_inv fk2) db_store c w2 Map.empty"
  shows "\<exists>f. export_continue c inc m hash nonce time w [] 0 key key_data = Some (f, Inr ()) \<and>
    (\<forall>src. delivers_bytes src f \<longrightarrow>
      (\<exists>src' w2'. preparse_file_to_import c m src passphrase = Inr (src', key_data, nonce, CHUNK_SIZE, hb) \<and>
        finish_import chk c inc m hash rnd w2 src' key nonce CHUNK_SIZE hb = Some (w2', Inr ()) \<and>
        wallet_holds (SQLiteStorage E j chk) (db_inv fk2) db_store c w2' V))"
proof -
  note W = sqlite_wallet [OF E c, of j chk fk2]
  obtain it wrs ps where all: "wallet_get_all w = Inr it" "fetch_all (Suc (length wrs)) c w it = Inr wrs"
    "distinct ps" "set ps = dom V" "list_all2 (\<lambda>(t, n) wr. \<exists>p. V (t, n) = Some p \<and> shows_plain all_options t n p wr) ps wrs"
    using encrypted_wallet.get_all_plain [OF sqlite_wallet [OF E c] w] unfolding delivers_def by blast
  obtain bss ys where ys:
    "list_all2 (\<lambda>r bs. bindr (exported_record r) (\<lambda>x. ok_or (record_to_vec m x) (Error InvalidState)) = Inr bs) wrs bss"
    "list_all2 (\<lambda>bs x. record_from_slice m bs = Some x \<and> bs \<noteq> [] \<and> length bs < 2 ^ 32) bss ys"
    "list_all2 (\<lambda>(t, n) y. \<exists>p. V (t, n) = Some p \<and> describes y t n p) ps ys"
    using exported_list [OF m fits all(5)] by blast
  obtain wr chs where wr: "export_continue c inc m hash nonce time w [] 0 key key_data = Some (wr_inner (writer_flush c inc wr), Inr ())"
    "length (wr_buffer wr) < CHUNK_SIZE"
    "written c inc key nonce CHUNK_SIZE (u32_le (length hb) @ hb) chs (h @ concat (map frame bss) @ u32_le 0) wr"
    using export_continue_ok [where sink = "[]" and hash = hash and inc = inc and key = key, OF all(1,2) ys(1) hb(1) h(1)] by auto
  obtain ct where ct: "wr_inner (writer_flush c inc wr) = (u32_le (length hb) @ hb) @ ct"
    using written_flush [OF wr(3) _ wr(2)] by (auto simp: CHUNK_SIZE_def)
  have final: "fold vault_put ys Map.empty = V"
    using fold_vault_put [OF ys(3) all(3)] all(4) by (fastforce simp: fun_eq_iff)
  have call: "\<forall>y\<in>set ys. \<forall>i. wallet_call_ok (WAdd (rnd i) (rec_type y) (rec_id y) (rec_value y) (rec_tags y))"
  proof (intro ballI allI)
    fix y i assume "y \<in> set ys"
    then obtain t n p where "V (t, n) = Some p" "describes y t n p"
      using ys(3) by (fastforce simp: list_all2_conv_all_nth in_set_conv_nth)
    then show "wallet_call_ok (WAdd (rnd i) (rec_type y) (rec_id y) (rec_value y) (rec_tags y))"
      using w rnd unfolding wallet_holds_def by (blast intro: described_call_ok)
  qed
  have "\<exists>src' w2'. preparse_file_to_import c m src passphrase = Inr (src', key_data, nonce, CHUNK_SIZE, hb) \<and>
        finish_import chk c inc m hash rnd w2 src' key nonce CHUNK_SIZE hb = Some (w2', Inr ()) \<and>
        wallet_holds (SQLiteStorage E j chk) (db_inv fk2) db_store c w2' V"
    if src: "delivers_bytes src (wr_inner (writer_flush c inc wr))" for src
  proof -
    obtain src' where src': "preparse_file_to_import c m src passphrase = Inr (src', key_data, nonce, CHUNK_SIZE, hb)"
      "delivers_bytes src' ct"
      using preparse_ok [OF m hb k] src ct by auto
    obtain r where r: "readable c inc CHUNK_SIZE (concat (map frame bss) @ u32_le 0) r"
      "finish_import chk c inc m hash rnd w2 src' key nonce CHUNK_SIZE hb = import_records c inc m rnd 0 w2 r"
      using finish_import_ok [where hash = hash, OF c wr(3,2) ct src'(2) h] by blast
    have "0 < CHUNK_SIZE" by (simp add: CHUNK_SIZE_def)
    from encrypted_wallet.import_records_ok [OF W this w2 r(1) ys(2) call] final described_keys [OF ys(3)] all(3) r(2) src'(1)
    show ?thesis by auto
  qed
  with wr(1) show ?thesis by blast
qed

text \<open>A serialisation for witnesses: strings with escaped bytes and an end mark, numbers in unary.\<close>

fun esc :: "bytes \<Rightarrow> bytes" where
  "esc [] = [0]"
| "esc (b # bs) = 1 # b # esc bs"

fun unesc :: "bytes \<Rightarrow> (bytes \<times> bytes) option" where
  "unesc [] = None"
| "unesc [a] = (if a = 0 then Some ([], []) else None)"
| "unesc (a # b # rest) = (if a = 0 then Some ([], b # rest) else map_option (\<lambda>(bs, r). (b # bs, r)) (unesc rest))"

lemma unesc_esc: "unesc (esc bs @ rest) = Some (bs, rest)"
  by (induction bs; cases rest) simp_all

definition esc_list :: "bytes list \<Rightarrow> bytes" where
  "esc_list bss = 1 # concat (map (\<lambda>bs. 1 # esc bs) bss) @ [0]"

fun unesc_items :: "nat \<Rightarrow> bytes \<Rightarrow> bytes list option" where
  "unesc_items (Suc k) (a # rest) = (if a = 0 then Some [] else
    Option.bind (unesc rest) (\<lambda>(bs, r). map_option ((#) bs) (unesc_items k r)))"
| "unesc_items _ _ = None"

definition unesc_list :: "bytes \<Rightarrow> bytes list option" where
  "unesc_list bs = unesc_items (length bs) (tl bs)"

lemma unesc_items_esc:
  "length bss < k \<Longrightarrow> unesc_items k (concat (map (\<lambda>bs. 1 # esc bs) bss) @ [0]) = Some bss"
proof (induction bss arbitrary: k)
  case Nil
  then show ?case by (cases k) simp_all
next
  case (Cons bs bss)
  then obtain k' where "k = Suc k'" "length bss < k'" by (cases k) auto
  then show ?case using Cons.IH [of k'] by (simp add: unesc_esc)
qed

lemma unesc_list_esc: "unesc_list (esc_list bss) = Some bss"
proof -
  have "length bss \<le> length (concat (map (\<lambda>bs. 1 # esc bs) bss))" by (induction bss) auto
  then show ?thesis by (simp add: unesc_list_def esc_list_def unesc_items_esc)
qed

fun toy_header :: "bytes list \<Rightarrow> Header option" where
  "toy_header [t, v, k, salt, nonce, n] =
    Some \<lparr> encryption_method =
        (if k = [0] then ChaCha20Poly1305IETF salt nonce (length n)
         else if k = [1] then ChaCha20Poly1305IETFInteractive salt nonce (length n)
         else ChaCha20Poly1305IETFRaw nonce (length n)),
      hd_time = length t, hd_version = length v \<rparr>"
| "toy_header _ = None"

definition toy_header_fields :: "Header \<Rightarrow> bytes list" where
  "toy_header_fields h = [replicate (hd_time h) 0, replicate (hd_version h) 0] @
    (case encryption_method h of
       ChaCha20Poly1305IETF salt nonce n \<Rightarrow> [[0], salt, nonce, replicate n 0]
     | ChaCha20Poly1305IETFInteractive salt nonce n \<Rightarrow> [[1], salt, nonce, replicate n 0]
     | ChaCha20Poly1305IETFRaw nonce n \<Rightarrow> [[2], [], nonce, replicate n 0])"

lemma toy_header_fields: "toy_header (toy_header_fields h) = Some h"
  by (cases h; cases "encryption_method h") (simp_all add: toy_header_fields_def)

fun toy_tags :: "bytes list \<Rightarrow> Tags" where
  "toy_tags (n # v # rest) = (of_bytes n, of_bytes v) # toy_tags rest"
| "toy_tags _ = []"

lemma toy_tags: "toy_tags (concat (map (\<lambda>(n, v). [as_bytes n, as_bytes v]) tags)) = tags"
  by (induction tags) auto

definition toy_rmp :: rmp where
  "toy_rmp = \<lparr> header_to_vec = (\<lambda>h. Some (esc_list (toy_header_fields h))),
     header_from_slice = (\<lambda>bs. Option.bind (unesc_list bs) toy_header),
     record_to_vec = (\<lambda>x. Some (esc_list (as_bytes (rec_type x) # as_bytes (rec_id x) # as_bytes (rec_value x) #
       concat (map (\<lambda>(n, v). [as_bytes n, as_bytes v]) (rec_tags x))))),
     record_from_slice = (\<lambda>bs. case unesc_list bs of
         Some (t # n # v # rest) \<Rightarrow> Some \<lparr> rec_type = of_bytes t, rec_id = of_bytes n, rec_value = of_bytes v, rec_tags = toy_tags rest \<rparr>
       | _ \<Rightarrow> None) \<rparr>"

lemma toy_rmp_ok: "rmp_ok toy_rmp"
  by (auto simp: rmp_ok_def toy_rmp_def unesc_list_esc toy_header_fields toy_tags same_record_def) (simp_all add: esc_list_def)

lemma map_of_single:
  assumes "distinct (map fst xs)" and "map_of xs = [a \<mapsto> b]"
  shows "xs = [(a, b)]"
proof -
  have "set xs = {(a, b)}" using map_of_eq_Some_iff [OF assms(1)] assms(2) by (fastforce split: if_splits)
  then show ?thesis using distinct_set_singleton [of xs "(a, b)"] assms(1) by (simp add: distinct_map)
qed

definition single_vault :: vault where
  "single_vault = [(''t'', ''n'') \<mapsto> \<lparr> pl_value = ''v'', pl_tags = [''a'' \<mapsto> ''1''] \<rparr>]"

definition single_wallet :: "(db, SQLiteStorageIterator) Wallet" where
  "single_wallet = fst (exec_wallet toy_crypto toy_new (WAdd toy_rnd ''t'' ''n'' ''v'' [(''a'', ''1'')]))"

lemma single_wallet_holds:
  "wallet_holds (SQLiteStorage (ref_engine (=)) toy_serde True) (db_inv True) db_store toy_crypto single_wallet single_vault"
proof -
  have "wallet_call_ok (WAdd toy_rnd ''t'' ''n'' ''v'' [(''a'', ''1'')])"
    by (simp add: rnd_ok_def toy_rnd_def tags_ok_def rust_string_code byte_of_char_def)
  from sqlite_wallet.exec_wallet_refines [OF toy_new_holds this] show ?thesis
    by (auto simp: single_wallet_def single_vault_def)
qed

lemma single_fits: "fits toy_rmp single_vault"
proof -
  have "length (the (record_to_vec toy_rmp \<lparr> rec_type = ''t'', rec_id = ''n'', rec_value = ''v'', rec_tags = [(''a'', ''1'')] \<rparr>)) < 2 ^ 32"
    by (simp add: toy_rmp_def esc_list_def)
  moreover have "x = \<lparr> rec_type = ''t'', rec_id = ''n'', rec_value = ''v'', rec_tags = [(''a'', ''1'')] \<rparr>"
    if "describes x ''t'' ''n'' \<lparr> pl_value = ''v'', pl_tags = [''a'' \<mapsto> ''1''] \<rparr>" for x
    using that map_of_single [of "rec_tags x"] by (cases x) (auto simp: describes_def)
  ultimately show ?thesis
    by (auto simp: fits_def single_vault_def split: if_splits)
qed

text \<open>Witness for C34: one tagged record, exported with a raw key and imported into an empty wallet.\<close>
theorem export_import_roundtrip_witness:
  "\<exists>f src' w2'. export_continue toy_crypto id toy_rmp (\<lambda>_. Inr (replicate HASHBYTES 0)) (replicate NONCEBYTES 5) 3
      single_wallet [] 0 [9] (Raw ''pw'') = Some (f, Inr ()) \<and>
    preparse_file_to_import toy_crypto toy_rmp [Interrupted, Avail f] ''pw'' =
      Inr (src', Raw ''pw'', replicate NONCEBYTES 5, CHUNK_SIZE,
        the (header_to_vec toy_rmp (export_header (replicate NONCEBYTES 5) 3 0 (Raw ''pw'')))) \<and>
    finish_import True toy_crypto id toy_rmp (\<lambda>_. Inr (replicate HASHBYTES 0)) (\<lambda>_. toy_rnd) toy_new src' [9]
      (replicate NONCEBYTES 5) CHUNK_SIZE
      (the (header_to_vec toy_rmp (export_header (replicate NONCEBYTES 5) 3 0 (Raw ''pw'')))) = Some (w2', Inr ()) \<and>
    wallet_holds (SQLiteStorage (ref_engine (=)) toy_serde True) (db_inv True) db_store toy_crypto w2' single_vault"
proof -
  let ?h = "export_header (replicate NONCEBYTES 5) 3 0 (Raw ''pw'')"
  have hb: "header_to_vec toy_rmp ?h = Some (the (header_to_vec toy_rmp ?h))" by (simp add: toy_rmp_def)
  have len_esc: "length (esc bs) = Suc (2 * length bs)" for bs by (induction bs) simp_all
  have small: "length (the (header_to_vec toy_rmp ?h)) < 2 ^ 32"
    by (simp add: toy_rmp_def esc_list_def toy_header_fields_def export_header_def len_esc NONCEBYTES_def CHUNK_SIZE_def)
  have side: "length (replicate HASHBYTES (0 :: byte)) = HASHBYTES" "length (replicate NONCEBYTES (5 :: byte)) = NONCEBYTES"
    "key_data_for toy_crypto ''pw'' (Raw ''pw'')" "\<forall>i :: nat. rnd_ok toy_rnd"
    by (simp_all add: rnd_ok_def toy_rnd_def)
  have "\<exists>f. export_continue toy_crypto id toy_rmp (\<lambda>_. Inr (replicate HASHBYTES 0)) (replicate NONCEBYTES 5) 3
      single_wallet [] 0 [9] (Raw ''pw'') = Some (f, Inr ()) \<and>
    (\<forall>src. delivers_bytes src f \<longrightarrow>
      (\<exists>src' w2'. preparse_file_to_import toy_crypto toy_rmp src ''pw'' =
          Inr (src', Raw ''pw'', replicate NONCEBYTES 5, CHUNK_SIZE, the (header_to_vec toy_rmp ?h)) \<and>
        finish_import True toy_crypto id toy_rmp (\<lambda>_. Inr (replicate HASHBYTES 0)) (\<lambda>_. toy_rnd) toy_new src' [9]
          (replicate NONCEBYTES 5) CHUNK_SIZE (the (header_to_vec toy_rmp ?h)) = Some (w2', Inr ()) \<and>
        wallet_holds (SQLiteStorage (ref_engine (=)) toy_serde True) (db_inv True) db_store toy_crypto w2' single_vault))"
    by (rule export_import_roundtrip [OF ref_engine_ok toy_crypto_ok toy_rmp_ok single_fits hb small refl side
          single_wallet_holds toy_new_holds])
  then obtain f where f: "export_continue toy_crypto id toy_rmp (\<lambda>_. Inr (replicate HASHBYTES 0)) (replicate NONCEBYTES 5) 3
      single_wallet [] 0 [9] (Raw ''pw'') = Some (f, Inr ())" and imp: "\<And>src. delivers_bytes src f \<Longrightarrow>
      \<exists>src' w2'. preparse_file_to_import toy_crypto toy_rmp src ''pw'' =
          Inr (src', Raw ''pw'', replicate NONCEBYTES 5, CHUNK_SIZE, the (header_to_vec toy_rmp ?h)) \<and>
        finish_import True toy_crypto id toy_rmp (\<lambda>_. Inr (replicate HASHBYTES 0)) (\<lambda>_. toy_rnd) toy_new src' [9]
          (replicate NONCEBYTES 5) CHUNK_SIZE (the (header_to_vec toy_rmp ?h)) = Some (w2', Inr ()) \<and>
        wallet_holds (SQLiteStorage (ref_engine (=)) toy_serde True) (db_inv True) db_store toy_crypto w2' single_vault" by blast
  have "plain_read_exact [] 4 = Inl (Error InvalidStructure)"
    using fill_ok [of "[]" "[]" "[]" 4] by (auto simp: plain_read_exact_def)
  then have "f \<noteq> []" using imp [of "[]"] by (auto simp: preparse_file_to_import_def)
  then have "delivers_bytes [Interrupted, Avail f] f" by simp
  from imp [OF this] f show ?thesis by blast
qed

section \<open>Malformed files\<close>

lemma import_records_returns:
  fixes w :: "('s, 'i) Wallet"
  assumes "shrinks c"
  shows "\<exists>res. import_records c inc m rnd i w r = Some res"
proof (induction "reader_size r" arbitrary: r i w rule: less_induct)
  case less
  show ?case
  proof (cases "read_exact c inc r 4")
    case (Pair r1 x)
    show ?thesis
    proof (cases x)
      case (Inl e)
      then show ?thesis using Pair by (subst import_records.simps) simp
    next
      case (Inr lb)
      obtain r2 y where 2: "read_exact c inc r1 (le_u32 lb) = (r2, y)" by force
      have "reader_size r1 < reader_size r" using read_exact_consumes [OF assms, of inc r 4 r1 lb] Pair Inr by simp
      then have IH: "\<exists>res. import_records c inc m rnd (Suc i) w' r2 = Some res" if "y = Inr bs" for bs and w' :: "('s, 'i) Wallet"
        using read_exact_consumes [OF assms, of inc r1 "le_u32 lb" r2 bs] 2 that by (intro less.hyps) simp
      show ?thesis
        using Pair Inr 2 IH by (subst import_records.simps) (auto split: prod.split sum.split option.split)
    qed
  qed
qed

text \<open>
  An import never hangs. Whatever the file contains and whatever keys and chunk size it is read
  with, \<^verbatim>\<open>finish_import\<close> returns: every step uses up part of the file.
\<close>
theorem finish_import_returns:
  assumes "shrinks c"
  shows "\<exists>w' res. finish_import chk c inc m hash rnd w src key nonce chunk_size header_bytes = Some (w', res)"
  using import_records_returns [OF assms]
  by (force simp: finish_import_def split: prod.split sum.split)

text \<open>Instance of the above: a cipher that cuts its tag off.\<close>
theorem finish_import_returns_witness:
  "shrinks toy_crypto \<and> (\<exists>w' res. finish_import True toy_crypto id toy_rmp (\<lambda>_. Inr []) (\<lambda>_. toy_rnd) toy_new
     [Avail [1, 2], Interrupted, Avail [3]] [9] [5] 0 [7] = Some (w', res))"
proof -
  have s: "shrinks toy_crypto" by (simp add: shrinks_def toy_crypto_def)
  show ?thesis using finish_import_returns [OF s] s by blast
qed

text \<open>
  The chunk size of a file is trusted. It stands in the plain header, which nothing authenticates
  before the reader allocates a buffer of that size: a header that asks for \<open>2 ^ 63\<close> bytes or more is
  accepted and the import then panics instead of reporting a malformed file.
\<close>
theorem import_chunk_size_panics:
  assumes "delivers_bytes src (u32_le (length hb) @ hb @ rest)" and "hb \<noteq> []" and "length hb < 2 ^ 32"
    and "header_from_slice m hb = Some \<lparr> encryption_method = ChaCha20Poly1305IETFRaw nonce n, hd_time = time, hd_version = 0 \<rparr>"
    and "length nonce = NONCEBYTES" and "2 ^ 63 \<le> n + TAGBYTES" and "n + TAGBYTES < 2 ^ 64"
  shows "\<exists>src'. preparse_file_to_import c m src passphrase = Inr (src', Raw passphrase, nonce, n, hb) \<and>
    (\<forall>key. finish_import chk c inc m hash rnd w src' key nonce n hb = Some (w, Inl Panic))"
proof -
  obtain src1 where 1: "plain_read_exact src 4 = Inr (src1, u32_le (length hb))" "delivers_bytes src1 (hb @ rest)"
    using plain_read_exact_ok [OF assms(1)] by auto
  obtain src2 where 2: "plain_read_exact src1 (length hb) = Inr (src2, hb)"
    using plain_read_exact_ok [OF 1(2)] by auto
  show ?thesis
    using 1(1) 2 assms(2,4-7)
    by (auto simp: preparse_file_to_import_def le_u32_le [OF assms(3)] from_slice_def finish_import_def reader_new_def Let_def)
qed

text \<open>A decoder that finds a chunk size of \<open>2 ^ 63\<close> in every header.\<close>

definition huge_rmp :: rmp where
  "huge_rmp = toy_rmp\<lparr>header_from_slice := \<lambda>_. Some \<lparr> encryption_method = ChaCha20Poly1305IETFRaw (replicate NONCEBYTES 5) (2 ^ 63),
     hd_time = 0, hd_version = 0 \<rparr>\<rparr>"

text \<open>Instance of the above: a file that consists of such a header.\<close>
theorem import_chunk_size_panics_witness:
  "\<exists>src'. preparse_file_to_import toy_crypto huge_rmp [Avail (u32_le 1), Avail [7]] ''pw''
      = Inr (src', Raw ''pw'', replicate NONCEBYTES 5, 2 ^ 63, [7]) \<and>
    finish_import True toy_crypto id huge_rmp (\<lambda>_. Inr []) (\<lambda>_. toy_rnd) toy_new src' [9] (replicate NONCEBYTES 5) (2 ^ 63) [7]
      = Some (toy_new, Inl Panic)"
proof -
  have d: "delivers_bytes [Avail (u32_le 1), Avail [7]] (u32_le (length [7 :: byte]) @ [7] @ [])"
    by (simp add: u32_le_def)
  show ?thesis
    using import_chunk_size_panics [OF d, of huge_rmp "replicate NONCEBYTES 5" "2 ^ 63" 0 toy_crypto "''pw''" True id
        "\<lambda>_. Inr []" "\<lambda>_. toy_rnd" toy_new]
    by (auto simp: huge_rmp_def TAGBYTES_def)
qed

end
