(* ===== verification/Wallet_Service.thy ===== *)
theory Wallet_Service
  imports Wallet_Export
begin

text \<open>
  The wallet service (\<^verbatim>\<open>indy-wallet/src/lib.rs\<close>): which wallets are open, under which handles, what is
  pending between the two halves of opening and importing, and the record operations by handle.
  Opening, deleting and importing come in two halves because the master key is derived elsewhere in
  between, while other calls may run. The storages act on a world \<open>'e\<close> that all of them share.
\<close>

section \<open>State\<close>

type_synonym WalletHandle = "32 word"

record Config =
  cfg_id :: string
  cfg_storage_type :: "string option"
  cfg_storage_config :: "Value option"

record Credentials =
  cr_key :: string
  cr_rekey :: "string option"
  cr_storage_credentials :: "Value option"
  cr_key_derivation_method :: KeyDerivationMethod
  cr_rekey_derivation_method :: KeyDerivationMethod

text \<open>An open wallet; its \<open>Wallet\<close> works on the world as it is when a method is called.\<close>

record ('e, 'i) opened =
  op_id :: string
  op_storage :: "('e, 'i) WalletStorage"
  op_keys :: Keys

definition wallet_in :: "'e \<Rightarrow> ('e, 'i) opened \<Rightarrow> ('e, 'i) Wallet" where
  "wallet_in e x = wallet_new (op_id x) (op_storage x) e (op_keys x)"

record ('e, 'i) WalletService =
  storage_types :: "string \<Rightarrow> ('e, 'i) WalletStorageType option"
  wallets :: "WalletHandle \<Rightarrow> ('e, 'i) opened option"
  wallet_ids :: "string set"
  pending_for_open :: "WalletHandle \<Rightarrow> (string \<times> ('e, 'i) WalletStorage \<times> Metadata \<times> KeyDerivationData option) option"
  pending_for_import :: "WalletHandle \<Rightarrow> (io_read list \<times> bytes \<times> nat \<times> bytes \<times> KeyDerivationData) option"
  ids_counter :: nat
  world :: 'e

text \<open>The libraries the service calls: cryptography, MessagePack of keys, JSON of metadata, values and options.\<close>

record libs =
  lb_crypto :: crypto
  lb_keys_to_vec :: "Keys \<Rightarrow> bytes option"
  lb_keys_from_slice :: "bytes \<Rightarrow> Keys option"
  lb_meta_to_vec :: "Metadata \<Rightarrow> bytes option"
  lb_meta_from_slice :: "bytes \<Rightarrow> Metadata option"
  lb_value_to_string :: "Value \<Rightarrow> string"
  lb_options :: options_serde
  lb_parse_json :: "string \<Rightarrow> Value option"
  lb_increment :: "bytes \<Rightarrow> bytes"
  lb_rmp :: rmp
  lb_hash :: "bytes \<Rightarrow> bytes IndyResult"
  lb_overflow_checks :: bool

definition service_new :: "('e, 'i) WalletStorageType \<Rightarrow> 'e \<Rightarrow> ('e, 'i) WalletService" where
  "service_new sqlite e = \<lparr> storage_types = [''default'' \<mapsto> sqlite], wallets = Map.empty, wallet_ids = {},
     pending_for_open = Map.empty, pending_for_import = Map.empty, ids_counter = 1, world = e \<rparr>"

definition register_wallet_storage ::
  "('e, 'i) WalletService \<Rightarrow> string \<Rightarrow> ('e, 'i) WalletStorageType \<Rightarrow> ('e, 'i) WalletService \<times> unit IndyResult" where
  "register_wallet_storage s typ plugged =
    (if storage_types s typ \<noteq> None then (s, Inl (Error WalletStorageTypeAlreadyRegistered))
     else (s\<lparr>storage_types := (storage_types s)(typ \<mapsto> plugged)\<rparr>, Inr ()))"

text \<open>\<^verbatim>\<open>next_wallet_handle\<close>: a counter of 64 bits read as \<^verbatim>\<open>i32\<close>.\<close>

definition next_wallet_handle :: "('e, 'i) WalletService \<Rightarrow> ('e, 'i) WalletService \<times> WalletHandle" where
  "next_wallet_handle s = (s\<lparr>ids_counter := Suc (ids_counter s)\<rparr>, of_nat (Suc (ids_counter s)))"

section \<open>Configuration, keys and metadata\<close>

definition get_config_and_cred_for_storage ::
  "libs \<Rightarrow> ('e, 'i) WalletService \<Rightarrow> Config \<Rightarrow> Credentials \<Rightarrow> (('e, 'i) WalletStorageType \<times> string option \<times> string option) IndyResult" where
  "get_config_and_cred_for_storage L s config credentials =
    bindr (ok_or (storage_types s (case cfg_storage_type config of Some t \<Rightarrow> t | None \<Rightarrow> ''default''))
        (Error UnknownWalletStorageType)) (\<lambda>storage_type.
      Inr (storage_type, map_option (lb_value_to_string L) (cfg_storage_config config),
        map_option (lb_value_to_string L) (cr_storage_credentials credentials)))"

text \<open>\<^verbatim>\<open>storage_config["path"].as_str()\<close>: indexing anything but an object gives null.\<close>

definition config_path :: "Value \<Rightarrow> string option" where
  "config_path v =
    (case v of
       Object kvs \<Rightarrow> (case map_of kvs ''path'' of Some (String p) \<Rightarrow> Some p | _ \<Rightarrow> None)
     | _ \<Rightarrow> None)"

definition get_wallet_id :: "Config \<Rightarrow> string" where
  "get_wallet_id config =
    cfg_id config @ (case Option.bind (cfg_storage_config config) config_path of Some p \<Rightarrow> p | None \<Rightarrow> [])"

definition is_id_from_config_not_used :: "('e, 'i) WalletService \<Rightarrow> Config \<Rightarrow> unit IndyResult" where
  "is_id_from_config_not_used s config =
    (if get_wallet_id config \<in> wallet_ids s then Inl (Error WalletAlreadyOpened) else Inr ())"

definition open_storage_of ::
  "libs \<Rightarrow> ('e, 'i) WalletService \<Rightarrow> Config \<Rightarrow> Credentials \<Rightarrow> ('e, 'i) WalletService \<times> ('e, 'i) WalletStorage IndyResult" where
  "open_storage_of L s config credentials =
    (case get_config_and_cred_for_storage L s config credentials of
       Inl e \<Rightarrow> (s, Inl e)
     | Inr (storage_type, storage_config, storage_credentials) \<Rightarrow>
         (case ty_open storage_type (world s) (cfg_id config) storage_config storage_credentials of
            (e, r) \<Rightarrow> (s\<lparr>world := e\<rparr>, r)))"

fun metadata_of :: "KeyDerivationData \<Rightarrow> bytes \<Rightarrow> Metadata" where
  "metadata_of (Raw _) encrypted_keys = MetadataRaw \<lparr> raw_keys = encrypted_keys \<rparr>"
| "metadata_of (Argon2iInt _ salt) encrypted_keys = MetadataArgon \<lparr> argon_keys = encrypted_keys, master_key_salt = salt \<rparr>"
| "metadata_of (Argon2iMod _ salt) encrypted_keys = MetadataArgon \<lparr> argon_keys = encrypted_keys, master_key_salt = salt \<rparr>"

text \<open>The nonce under which the keys are encrypted is an argument.\<close>

definition prepare_metadata :: "libs \<Rightarrow> bytes \<Rightarrow> bytes \<Rightarrow> KeyDerivationData \<Rightarrow> Keys \<Rightarrow> bytes IndyResult" where
  "prepare_metadata L nonce master_key key_data keys =
    bindr (serialize_encrypted (lb_crypto L) (lb_keys_to_vec L) nonce keys master_key) (\<lambda>encrypted_keys.
      ok_or (lb_meta_to_vec L (metadata_of key_data encrypted_keys)) (Error InvalidState))"

definition restore_keys :: "libs \<Rightarrow> Metadata \<Rightarrow> bytes \<Rightarrow> Keys IndyResult" where
  "restore_keys L metadata master_key =
    to_indy WalletAccessFailed (deserialize_encrypted (lb_crypto L) (lb_keys_from_slice L) (get_keys metadata) master_key)"

section \<open>Creating, opening, closing, deleting\<close>

text \<open>\<^verbatim>\<open>Keys::new\<close> draws random keys: \<open>keys\<close>.\<close>

definition create_wallet ::
  "libs \<Rightarrow> Keys \<Rightarrow> bytes \<Rightarrow> ('e, 'i) WalletService \<Rightarrow> Config \<Rightarrow> Credentials \<Rightarrow> KeyDerivationData \<times> bytes
    \<Rightarrow> ('e, 'i) WalletService \<times> Keys IndyResult" where
  "create_wallet L keys nonce s config credentials key =
    (case get_config_and_cred_for_storage L s config credentials of
       Inl e \<Rightarrow> (s, Inl e)
     | Inr (storage_type, storage_config, storage_credentials) \<Rightarrow>
         (case prepare_metadata L nonce (snd key) (fst key) keys of
            Inl e \<Rightarrow> (s, Inl e)
          | Inr metadata \<Rightarrow>
              (case ty_create storage_type (world s) (cfg_id config) storage_config storage_credentials metadata of
                 (e, r) \<Rightarrow> (s\<lparr>world := e\<rparr>, bindr r (\<lambda>_. Inr keys)))))"

definition open_storage_and_fetch_metadata ::
  "libs \<Rightarrow> ('e, 'i) WalletService \<Rightarrow> Config \<Rightarrow> Credentials
    \<Rightarrow> ('e, 'i) WalletService \<times> (('e, 'i) WalletStorage \<times> Metadata \<times> KeyDerivationData) IndyResult" where
  "open_storage_and_fetch_metadata L s config credentials =
    (case open_storage_of L s config credentials of
       (s1, Inl e) \<Rightarrow> (s1, Inl e)
     | (s1, Inr storage) \<Rightarrow>
         (s1,
          bindr (st_get_storage_metadata storage (world s1)) (\<lambda>bs.
          bindr (ok_or (lb_meta_from_slice L bs) (Error InvalidState)) (\<lambda>metadata.
          bindr (from_passphrase_and_metadata (lb_crypto L) (cr_key credentials) metadata (cr_key_derivation_method credentials))
            (\<lambda>key_data. Inr (storage, metadata, key_data))))))"

definition delete_wallet_prepare ::
  "libs \<Rightarrow> ('e, 'i) WalletService \<Rightarrow> Config \<Rightarrow> Credentials \<Rightarrow> ('e, 'i) WalletService \<times> (Metadata \<times> KeyDerivationData) IndyResult" where
  "delete_wallet_prepare L s config credentials =
    (if get_wallet_id config \<in> wallet_ids s then (s, Inl (Error InvalidState))
     else (case open_storage_and_fetch_metadata L s config credentials of
             (s1, r) \<Rightarrow> (s1, bindr r (\<lambda>(storage, metadata, key_data). Inr (metadata, key_data)))))"

definition delete_wallet_continue ::
  "libs \<Rightarrow> ('e, 'i) WalletService \<Rightarrow> Config \<Rightarrow> Credentials \<Rightarrow> Metadata \<Rightarrow> bytes \<Rightarrow> ('e, 'i) WalletService \<times> unit IndyResult" where
  "delete_wallet_continue L s config credentials metadata master_key =
    (case restore_keys L metadata master_key of
       Inl e \<Rightarrow> (s, Inl e)
     | Inr _ \<Rightarrow>
         (case get_config_and_cred_for_storage L s config credentials of
            Inl e \<Rightarrow> (s, Inl e)
          | Inr (storage_type, storage_config, storage_credentials) \<Rightarrow>
              (case ty_delete storage_type (world s) (cfg_id config) storage_config storage_credentials of
                 (e, r) \<Rightarrow> (s\<lparr>world := e\<rparr>, r))))"

text \<open>\<open>salt\<close> is the salt drawn for the new key data.\<close>

definition open_wallet_prepare ::
  "libs \<Rightarrow> bytes \<Rightarrow> ('e, 'i) WalletService \<Rightarrow> Config \<Rightarrow> Credentials
    \<Rightarrow> ('e, 'i) WalletService \<times> (WalletHandle \<times> KeyDerivationData \<times> KeyDerivationData option) IndyResult" where
  "open_wallet_prepare L salt s config credentials =
    (case is_id_from_config_not_used s config of
       Inl e \<Rightarrow> (s, Inl e)
     | Inr _ \<Rightarrow>
         (case open_storage_and_fetch_metadata L s config credentials of
            (s1, Inl e) \<Rightarrow> (s1, Inl e)
          | (s1, Inr (storage, metadata, key_data)) \<Rightarrow>
              (let (s2, h) = next_wallet_handle s1;
                   rekey_data = map_option (\<lambda>rekey. from_passphrase_with_new_salt salt rekey (cr_rekey_derivation_method credentials))
                     (cr_rekey credentials)
               in (s2\<lparr>pending_for_open := (pending_for_open s2)(h \<mapsto> (get_wallet_id config, storage, metadata, rekey_data))\<rparr>,
                   Inr (h, key_data, rekey_data)))))"

definition open_wallet_continue ::
  "libs \<Rightarrow> bytes \<Rightarrow> ('e, 'i) WalletService \<Rightarrow> WalletHandle \<Rightarrow> bytes \<times> bytes option
    \<Rightarrow> ('e, 'i) WalletService \<times> WalletHandle IndyResult" where
  "open_wallet_continue L nonce s h master_key =
    (case pending_for_open s h of
       None \<Rightarrow> (s, Inl (Error InvalidState))
     | Some (wid, storage, metadata, rekey_data) \<Rightarrow>
         (let s1 = s\<lparr>pending_for_open := (pending_for_open s)(h := None)\<rparr> in
          case restore_keys L metadata (fst master_key) of
            Inl e \<Rightarrow> (s1, Inl e)
          | Inr keys \<Rightarrow>
              (let (s2, r) =
                 (case (snd master_key, rekey_data) of
                    (Some rekey, Some data) \<Rightarrow>
                      (case prepare_metadata L nonce rekey data keys of
                         Inl e \<Rightarrow> (s1, Inl e)
                       | Inr bs \<Rightarrow> (case st_set_storage_metadata storage (world s1) bs of (e, r) \<Rightarrow> (s1\<lparr>world := e\<rparr>, r)))
                  | _ \<Rightarrow> (s1, Inr ()))
               in case r of
                    Inl e \<Rightarrow> (s2, Inl e)
                  | Inr _ \<Rightarrow>
                      (s2\<lparr>wallets := (wallets s2)(h \<mapsto> \<lparr> op_id = wid, op_storage = storage, op_keys = keys \<rparr>),
                          wallet_ids := insert wid (wallet_ids s2)\<rparr>, Inr h))))"

definition close_wallet :: "('e, 'i) WalletService \<Rightarrow> WalletHandle \<Rightarrow> ('e, 'i) WalletService \<times> unit IndyResult" where
  "close_wallet s h =
    (case wallets s h of
       None \<Rightarrow> (s, Inl (Error InvalidWalletHandle))
     | Some x \<Rightarrow>
         (case wallet_close (wallet_in (world s) x) of
            (w, r) \<Rightarrow> (s\<lparr>wallets := (wallets s)(h := None), wallet_ids := wallet_ids s - {op_id x}, world := w_state w\<rparr>, r)))"

section \<open>Records\<close>

text \<open>Rewrites the message of two errors, keeping their kinds.\<close>

fun map_wallet_storage_error :: "failure \<Rightarrow> failure" where
  "map_wallet_storage_error (Error WalletItemAlreadyExists) = Error WalletItemAlreadyExists"
| "map_wallet_storage_error (Error WalletItemNotFound) = Error WalletItemNotFound"
| "map_wallet_storage_error err = err"

definition on_wallet ::
  "('e, 'i) WalletService \<Rightarrow> WalletHandle \<Rightarrow> (('e, 'i) Wallet \<Rightarrow> ('e, 'i) Wallet \<times> 'r IndyResult)
    \<Rightarrow> ('e, 'i) WalletService \<times> 'r IndyResult" where
  "on_wallet s h f =
    (case wallets s h of
       None \<Rightarrow> (s, Inl (Error InvalidWalletHandle))
     | Some x \<Rightarrow> (case f (wallet_in (world s) x) of (w, r) \<Rightarrow> (s\<lparr>world := w_state w\<rparr>, r)))"

definition of_wallet :: "('e, 'i) WalletService \<Rightarrow> WalletHandle \<Rightarrow> (('e, 'i) Wallet \<Rightarrow> 'r IndyResult) \<Rightarrow> 'r IndyResult" where
  "of_wallet s h f =
    (case wallets s h of None \<Rightarrow> Inl (Error InvalidWalletHandle) | Some x \<Rightarrow> f (wallet_in (world s) x))"

definition mapped :: "('e, 'i) Wallet \<times> 'r IndyResult \<Rightarrow> ('e, 'i) Wallet \<times> 'r IndyResult" where
  "mapped wr = (fst wr, map_err map_wallet_storage_error (snd wr))"

definition add_record ::
  "libs \<Rightarrow> value_rnd \<Rightarrow> ('e, 'i) WalletService \<Rightarrow> WalletHandle \<Rightarrow> string \<Rightarrow> string \<Rightarrow> string \<Rightarrow> Tags
    \<Rightarrow> ('e, 'i) WalletService \<times> unit IndyResult" where
  "add_record L rnd s h typ name val tags = on_wallet s h (\<lambda>w. mapped (wallet_add (lb_crypto L) rnd w typ name val tags))"

definition update_record_value ::
  "libs \<Rightarrow> value_rnd \<Rightarrow> ('e, 'i) WalletService \<Rightarrow> WalletHandle \<Rightarrow> string \<Rightarrow> string \<Rightarrow> string
    \<Rightarrow> ('e, 'i) WalletService \<times> unit IndyResult" where
  "update_record_value L rnd s h typ name val = on_wallet s h (\<lambda>w. mapped (wallet_update (lb_crypto L) rnd w typ name val))"

definition add_record_tags ::
  "libs \<Rightarrow> ('e, 'i) WalletService \<Rightarrow> WalletHandle \<Rightarrow> string \<Rightarrow> string \<Rightarrow> Tags \<Rightarrow> ('e, 'i) WalletService \<times> unit IndyResult" where
  "add_record_tags L s h typ name tags = on_wallet s h (\<lambda>w. mapped (wallet_add_tags (lb_crypto L) w typ name tags))"

definition update_record_tags ::
  "libs \<Rightarrow> ('e, 'i) WalletService \<Rightarrow> WalletHandle \<Rightarrow> string \<Rightarrow> string \<Rightarrow> Tags \<Rightarrow> ('e, 'i) WalletService \<times> unit IndyResult" where
  "update_record_tags L s h typ name tags = on_wallet s h (\<lambda>w. mapped (wallet_update_tags (lb_crypto L) w typ name tags))"

definition delete_record_tags ::
  "libs \<Rightarrow> ('e, 'i) WalletService \<Rightarrow> WalletHandle \<Rightarrow> string \<Rightarrow> string \<Rightarrow> string list \<Rightarrow> ('e, 'i) WalletService \<times> unit IndyResult" where
  "delete_record_tags L s h typ name tag_names =
    on_wallet s h (\<lambda>w. mapped (wallet_delete_tags (lb_crypto L) w typ name tag_names))"

definition delete_record ::
  "libs \<Rightarrow> ('e, 'i) WalletService \<Rightarrow> WalletHandle \<Rightarrow> string \<Rightarrow> string \<Rightarrow> ('e, 'i) WalletService \<times> unit IndyResult" where
  "delete_record L s h typ name = on_wallet s h (\<lambda>w. mapped (wallet_delete (lb_crypto L) w typ name))"

definition get_record ::
  "libs \<Rightarrow> ('e, 'i) WalletService \<Rightarrow> WalletHandle \<Rightarrow> string \<Rightarrow> string \<Rightarrow> string \<Rightarrow> WalletRecord IndyResult" where
  "get_record L s h typ name options_json =
    of_wallet s h (\<lambda>w. map_err map_wallet_storage_error (wallet_get (lb_crypto L) w typ name options_json))"

definition search_records ::
  "libs \<Rightarrow> ('e, 'i) WalletService \<Rightarrow> WalletHandle \<Rightarrow> string \<Rightarrow> string \<Rightarrow> string \<Rightarrow> 'i IndyResult" where
  "search_records L s h typ query_json options_json =
    of_wallet s h (\<lambda>w. wallet_search (lb_crypto L) (lb_parse_json L) w typ query_json (Some options_json))"

definition check_handle :: "('e, 'i) WalletService \<Rightarrow> WalletHandle \<Rightarrow> unit IndyResult" where
  "check_handle s h = of_wallet s h (\<lambda>_. Inr ())"

section \<open>Objects of libindy\<close>

text \<open>
  Objects of a Rust type are stored under the type's short name with a prefix; \<open>tn\<close> is that name,
  \<open>to_json\<close> and \<open>of_json\<close> are \<^verbatim>\<open>serde_json\<close> at the type.
\<close>

definition add_prefix :: "string \<Rightarrow> string" where
  "add_prefix typ = ''Indy'' @ ''::'' @ typ"

definition add_indy_record ::
  "libs \<Rightarrow> value_rnd \<Rightarrow> ('e, 'i) WalletService \<Rightarrow> WalletHandle \<Rightarrow> string \<Rightarrow> string \<Rightarrow> string \<Rightarrow> Tags
    \<Rightarrow> ('e, 'i) WalletService \<times> unit IndyResult" where
  "add_indy_record L rnd s h tn name val tags = add_record L rnd s h (add_prefix tn) name val tags"

definition add_indy_object ::
  "libs \<Rightarrow> value_rnd \<Rightarrow> ('o \<Rightarrow> string option) \<Rightarrow> ('e, 'i) WalletService \<Rightarrow> WalletHandle \<Rightarrow> string \<Rightarrow> string \<Rightarrow> 'o \<Rightarrow> Tags
    \<Rightarrow> ('e, 'i) WalletService \<times> string IndyResult" where
  "add_indy_object L rnd to_json s h tn name obj tags =
    (case to_json obj of
       None \<Rightarrow> (s, Inl (Error InvalidState))
     | Some object_json \<Rightarrow>
         (case add_indy_record L rnd s h tn name object_json tags of
            (s', r) \<Rightarrow> (s', bindr r (\<lambda>_. Inr object_json))))"

definition update_indy_object ::
  "libs \<Rightarrow> value_rnd \<Rightarrow> ('o \<Rightarrow> string option) \<Rightarrow> ('e, 'i) WalletService \<Rightarrow> WalletHandle \<Rightarrow> string \<Rightarrow> string \<Rightarrow> 'o
    \<Rightarrow> ('e, 'i) WalletService \<times> string IndyResult" where
  "update_indy_object L rnd to_json s h tn name obj =
    on_wallet s h (\<lambda>w.
      case to_json obj of
        None \<Rightarrow> (w, Inl (Error InvalidState))
      | Some object_json \<Rightarrow>
          (case wallet_update (lb_crypto L) rnd w (add_prefix tn) name object_json of
             (w', r) \<Rightarrow> (w', bindr r (\<lambda>_. Inr object_json))))"

definition delete_indy_record ::
  "libs \<Rightarrow> ('e, 'i) WalletService \<Rightarrow> WalletHandle \<Rightarrow> string \<Rightarrow> string \<Rightarrow> ('e, 'i) WalletService \<times> unit IndyResult" where
  "delete_indy_record L s h tn name = delete_record L s h (add_prefix tn) name"

definition get_indy_record ::
  "libs \<Rightarrow> ('e, 'i) WalletService \<Rightarrow> WalletHandle \<Rightarrow> string \<Rightarrow> string \<Rightarrow> string \<Rightarrow> WalletRecord IndyResult" where
  "get_indy_record L s h tn name options_json = get_record L s h (add_prefix tn) name options_json"

definition get_indy_record_value ::
  "libs \<Rightarrow> ('e, 'i) WalletService \<Rightarrow> WalletHandle \<Rightarrow> string \<Rightarrow> string \<Rightarrow> string \<Rightarrow> string IndyResult" where
  "get_indy_record_value L s h tn name options_json =
    bindr (of_wallet s h (\<lambda>w. wallet_get (lb_crypto L) w (add_prefix tn) name options_json)) (\<lambda>record.
      ok_or (wr_value record) (Error InvalidState))"

definition get_indy_object ::
  "libs \<Rightarrow> (string \<Rightarrow> 'o option) \<Rightarrow> ('e, 'i) WalletService \<Rightarrow> WalletHandle \<Rightarrow> string \<Rightarrow> string \<Rightarrow> string \<Rightarrow> 'o IndyResult" where
  "get_indy_object L of_json s h tn name options_json =
    bindr (get_indy_record_value L s h tn name options_json) (\<lambda>record_value.
      ok_or (of_json record_value) (Error InvalidState))"

definition get_indy_opt_object ::
  "libs \<Rightarrow> (string \<Rightarrow> 'o option) \<Rightarrow> ('e, 'i) WalletService \<Rightarrow> WalletHandle \<Rightarrow> string \<Rightarrow> string \<Rightarrow> string \<Rightarrow> 'o option IndyResult" where
  "get_indy_opt_object L of_json s h tn name options_json =
    (case get_indy_object L of_json s h tn name options_json of
       Inr res \<Rightarrow> Inr (Some res)
     | Inl err \<Rightarrow> if err = Error WalletItemNotFound then Inr None else Inl err)"

definition search_indy_records ::
  "libs \<Rightarrow> ('e, 'i) WalletService \<Rightarrow> WalletHandle \<Rightarrow> string \<Rightarrow> string \<Rightarrow> string \<Rightarrow> 'i IndyResult" where
  "search_indy_records L s h tn query_json options_json = search_records L s h (add_prefix tn) query_json options_json"

definition record_exists ::
  "libs \<Rightarrow> ('e, 'i) WalletService \<Rightarrow> WalletHandle \<Rightarrow> string \<Rightarrow> string \<Rightarrow> bool IndyResult" where
  "record_exists L s h tn name =
    of_wallet s h (\<lambda>w.
      case wallet_get (lb_crypto L) w (add_prefix tn) name (print_record_options (lb_options L) record_options_id) of
        Inr _ \<Rightarrow> Inr True
      | Inl err \<Rightarrow> if err = Error WalletItemNotFound then Inr False else Inl err)"

definition upsert_indy_object ::
  "libs \<Rightarrow> value_rnd \<Rightarrow> ('o \<Rightarrow> string option) \<Rightarrow> ('e, 'i) WalletService \<Rightarrow> WalletHandle \<Rightarrow> string \<Rightarrow> string \<Rightarrow> 'o
    \<Rightarrow> ('e, 'i) WalletService \<times> string IndyResult" where
  "upsert_indy_object L rnd to_json s h tn name obj =
    (case record_exists L s h tn name of
       Inl e \<Rightarrow> (s, Inl e)
     | Inr ex \<Rightarrow> if ex then update_indy_object L rnd to_json s h tn name obj
                 else add_indy_object L rnd to_json s h tn name obj [])"

section \<open>Export and import\<close>

text \<open>
  \<open>exists\<close> says whether the export file is already there; the result carries the bytes written to it.
  Failures to create directories are left out.
\<close>

definition export_wallet ::
  "libs \<Rightarrow> bytes \<Rightarrow> nat \<Rightarrow> bool \<Rightarrow> ('e, 'i) WalletService \<Rightarrow> WalletHandle \<Rightarrow> nat \<Rightarrow> KeyDerivationData \<times> bytes
    \<Rightarrow> (bytes \<times> unit IndyResult) option" where
  "export_wallet L nonce time exists s h version key =
    (if version \<noteq> 0 then Some ([], Inl (Error InvalidState))
     else
       (case wallets s h of
          None \<Rightarrow> Some ([], Inl (Error InvalidWalletHandle))
        | Some x \<Rightarrow>
            if exists then Some ([], Inl (Error IOError))
            else export_continue (lb_crypto L) (lb_increment L) (lb_rmp L) (lb_hash L) nonce time (wallet_in (world s) x) []
              version (snd key) (fst key)))"

text \<open>\<open>src\<close> is the opened import file, \<open>None\<close> if it cannot be opened.\<close>

definition import_wallet_prepare ::
  "libs \<Rightarrow> bytes \<Rightarrow> ('e, 'i) WalletService \<Rightarrow> Credentials \<Rightarrow> io_read list option \<Rightarrow> string
    \<Rightarrow> ('e, 'i) WalletService \<times> (WalletHandle \<times> KeyDerivationData \<times> KeyDerivationData) IndyResult" where
  "import_wallet_prepare L salt s credentials src export_key =
    (case bindr (ok_or src (Error IOError)) (\<lambda>f. preparse_file_to_import (lb_crypto L) (lb_rmp L) f export_key) of
       Inl e \<Rightarrow> (s, Inl e)
     | Inr (reader, import_kd, nonce, chunk_size, header_bytes) \<Rightarrow>
         (let key_data = from_passphrase_with_new_salt salt (cr_key credentials) (cr_key_derivation_method credentials);
              (s1, h) = next_wallet_handle s
          in (s1\<lparr>pending_for_import := (pending_for_import s1)(h \<mapsto> (reader, nonce, chunk_size, header_bytes, key_data))\<rparr>,
              Inr (h, key_data, import_kd))))"

text \<open>A failed import deletes the wallet again; a panic does not get there.\<close>

definition import_cleanup ::
  "libs \<Rightarrow> ('e, 'i) WalletService \<Rightarrow> Config \<Rightarrow> Credentials \<Rightarrow> bytes \<Rightarrow> bytes \<Rightarrow> unit IndyResult
    \<Rightarrow> ('e, 'i) WalletService \<times> unit IndyResult" where
  "import_cleanup L s config credentials bs master_key res =
    (case res of
       Inl (Error k) \<Rightarrow>
         (case lb_meta_from_slice L bs of
            None \<Rightarrow> (s, Inl (Error InvalidState))
          | Some metadata \<Rightarrow>
              (case delete_wallet_continue L s config credentials metadata master_key of
                 (s', r) \<Rightarrow> (s', bindr r (\<lambda>_. res))))
     | _ \<Rightarrow> (s, res))"

definition import_wallet_continue ::
  "libs \<Rightarrow> Keys \<Rightarrow> bytes \<Rightarrow> (nat \<Rightarrow> value_rnd) \<Rightarrow> ('e, 'i) WalletService \<Rightarrow> WalletHandle \<Rightarrow> Config \<Rightarrow> Credentials
    \<Rightarrow> bytes \<times> bytes \<Rightarrow> (('e, 'i) WalletService \<times> unit IndyResult) option" where
  "import_wallet_continue L keys nonce rnd s h config credentials key =
    (case pending_for_import s h of
       None \<Rightarrow> Some (s, Inl Panic)
     | Some (reader, file_nonce, chunk_size, header_bytes, key_data) \<Rightarrow>
         (case create_wallet L keys nonce (s\<lparr>pending_for_import := (pending_for_import s)(h := None)\<rparr>) config credentials
             (key_data, snd key) of
            (s1, Inl e) \<Rightarrow> Some (s1, Inl e)
          | (s1, Inr keys') \<Rightarrow>
              (case is_id_from_config_not_used s1 config of
                 Inl e \<Rightarrow> Some (s1, Inl e)
               | Inr _ \<Rightarrow>
                   (case open_storage_of L s1 config credentials of
                      (s2, Inl e) \<Rightarrow> Some (s2, Inl e)
                    | (s2, Inr storage) \<Rightarrow>
                        (case st_get_storage_metadata storage (world s2) of
                           Inl e \<Rightarrow> Some (s2, Inl e)
                         | Inr bs \<Rightarrow>
                             Option.bind
                               (finish_import (lb_overflow_checks L) (lb_crypto L) (lb_increment L) (lb_rmp L) (lb_hash L) rnd
                                 (wallet_new (get_wallet_id config) storage (world s2) keys') reader (fst key) file_nonce
                                 chunk_size header_bytes)
                               (\<lambda>(w, res). Some (import_cleanup L (s2\<lparr>world := w_state w\<rparr>) config credentials bs (snd key) res)))))))"

section \<open>Calls one after another\<close>

text \<open>Any call of the service, with any arguments and random numbers, is a step.\<close>

inductive step :: "libs \<Rightarrow> ('e, 'i) WalletService \<Rightarrow> ('e, 'i) WalletService \<Rightarrow> bool" for L where
  step_register: "step L s (fst (register_wallet_storage s typ plugged))"
| step_create: "step L s (fst (create_wallet L keys nonce s config credentials key))"
| step_delete_prepare: "step L s (fst (delete_wallet_prepare L s config credentials))"
| step_delete_continue: "step L s (fst (delete_wallet_continue L s config credentials metadata master_key))"
| step_open_prepare: "step L s (fst (open_wallet_prepare L salt s config credentials))"
| step_open_continue: "step L s (fst (open_wallet_continue L nonce s h master_key))"
| step_close: "step L s (fst (close_wallet s h))"
| step_record: "step L s (fst (on_wallet s h (f :: ('e, 'i) Wallet \<Rightarrow> ('e, 'i) Wallet \<times> unit IndyResult)))"
| step_object: "step L s (fst (on_wallet s h (g :: ('e, 'i) Wallet \<Rightarrow> ('e, 'i) Wallet \<times> string IndyResult)))"
| step_import_prepare: "step L s (fst (import_wallet_prepare L salt s credentials src export_key))"
| step_import_continue: "import_wallet_continue L keys nonce rnd s h config credentials key = Some (s', r) \<Longrightarrow> step L s s'"

inductive reachable :: "libs \<Rightarrow> ('e, 'i) WalletStorageType \<Rightarrow> 'e \<Rightarrow> ('e, 'i) WalletService \<Rightarrow> bool" for L sqlite e where
  reachable_new: "reachable L sqlite e (service_new sqlite e)"
| reachable_step: "reachable L sqlite e s \<Longrightarrow> step L s s' \<Longrightarrow> reachable L sqlite e s'"

definition issued :: "nat \<Rightarrow> WalletHandle \<Rightarrow> bool" where
  "issued n h \<longleftrightarrow> (\<exists>k. 1 < k \<and> k \<le> n \<and> h = of_nat k)"

text \<open>
  Every handle in use has been issued and stands for one thing only; every id that is taken belongs to
  an open wallet.
\<close>

definition tables_ok :: "nat \<Rightarrow> WalletHandle set \<Rightarrow> WalletHandle set \<Rightarrow> WalletHandle set \<Rightarrow> bool" where
  "tables_ok n A B C \<longleftrightarrow> (\<forall>h\<in>A \<union> B \<union> C. issued n h) \<and> A \<inter> B = {} \<and> A \<inter> C = {} \<and> B \<inter> C = {}"

definition service_ok :: "('e, 'i) WalletService \<Rightarrow> bool" where
  "service_ok s \<longleftrightarrow> tables_ok (ids_counter s) (dom (wallets s)) (dom (pending_for_open s)) (dom (pending_for_import s)) \<and>
    wallet_ids s \<subseteq> op_id ` ran (wallets s) \<and> 1 \<le> ids_counter s"

lemma issued_mono: "issued n h \<Longrightarrow> n \<le> m \<Longrightarrow> issued m h"
  by (auto simp: issued_def)

lemma issued_fresh:
  assumes "Suc n < 2 ^ 32"
  shows "\<not> issued n (of_nat (Suc n))"
proof
  assume "issued n (of_nat (Suc n))"
  then obtain k where k: "k \<le> n" "(of_nat (Suc n) :: 32 word) = of_nat k" by (auto simp: issued_def)
  have "unat (of_nat (Suc n) :: 32 word) = Suc n" "unat (of_nat k :: 32 word) = k"
    using assms k(1) by (simp_all add: unat_of_nat del: of_nat_Suc)
  then show False using k by simp
qed

text \<open>The part of the state the invariant reads; calls that leave it alone keep the invariant.\<close>

definition same_tables :: "('e, 'i) WalletService \<Rightarrow> ('e, 'i) WalletService \<Rightarrow> bool" where
  "same_tables s s' \<longleftrightarrow> wallets s' = wallets s \<and> wallet_ids s' = wallet_ids s \<and> pending_for_open s' = pending_for_open s \<and>
    pending_for_import s' = pending_for_import s \<and> ids_counter s' = ids_counter s"

lemma same_tables_refl [simp]: "same_tables s s"
  by (simp add: same_tables_def)

lemma same_tables_trans: "same_tables s t \<Longrightarrow> same_tables t u \<Longrightarrow> same_tables s u"
  by (simp add: same_tables_def)

lemma same_tables_ok: "same_tables s s' \<Longrightarrow> service_ok s \<Longrightarrow> service_ok s'"
  by (simp add: same_tables_def service_ok_def)

lemma same_tables_ops:
  "same_tables s (s\<lparr>world := e\<rparr>)"
  "same_tables s (fst (register_wallet_storage s typ plugged))"
  "same_tables s (fst (open_storage_of L s config credentials))"
  "same_tables s (fst (create_wallet L keys nonce s config credentials key))"
  "same_tables s (fst (open_storage_and_fetch_metadata L s config credentials))"
  "same_tables s (fst (delete_wallet_prepare L s config credentials))"
  "same_tables s (fst (delete_wallet_continue L s config credentials metadata master_key))"
  "same_tables s (fst (on_wallet s h f))"
proof -
  show w: "same_tables s (s\<lparr>world := e\<rparr>)" for e by (simp add: same_tables_def)
  show "same_tables s (fst (register_wallet_storage s typ plugged))" by (simp add: register_wallet_storage_def same_tables_def)
  show o: "same_tables s (fst (open_storage_of L s config credentials))"
    by (auto simp: open_storage_of_def w split: sum.split prod.split)
  show "same_tables s (fst (create_wallet L keys nonce s config credentials key))"
    by (auto simp: create_wallet_def w split: sum.split prod.split)
  show of: "same_tables s (fst (open_storage_and_fetch_metadata L s config credentials))"
    using o by (auto simp: open_storage_and_fetch_metadata_def split: sum.split prod.split)
  show "same_tables s (fst (delete_wallet_prepare L s config credentials))"
    using of by (auto simp: delete_wallet_prepare_def split: prod.split)
  show "same_tables s (fst (delete_wallet_continue L s config credentials metadata master_key))"
    by (auto simp: delete_wallet_continue_def w split: sum.split prod.split)
  show "same_tables s (fst (on_wallet s h f))"
    by (auto simp: on_wallet_def w split: option.split prod.split)
qed

lemma issued_new: "1 \<le> n \<Longrightarrow> issued (Suc n) (of_nat (Suc n))"
  unfolding issued_def by (intro exI [of _ "Suc n"]) simp

lemma tables_ok_mono: "tables_ok n A B C \<Longrightarrow> A' \<subseteq> A \<Longrightarrow> B' \<subseteq> B \<Longrightarrow> C' \<subseteq> C \<Longrightarrow> tables_ok n A' B' C'"
  unfolding tables_ok_def by blast

lemma tables_ok_new:
  assumes "tables_ok n A B C" and "Suc n < 2 ^ 32" and "1 \<le> n"
  shows "tables_ok (Suc n) A (insert (of_nat (Suc n)) B) C" "tables_ok (Suc n) A B (insert (of_nat (Suc n)) C)"
proof -
  have "h \<noteq> of_nat (Suc n) \<and> issued (Suc n) h" if "h \<in> A \<union> B \<union> C" for h
    using that assms(1) issued_fresh [OF assms(2)] issued_mono [of n h "Suc n"] unfolding tables_ok_def by auto
  then show "tables_ok (Suc n) A (insert (of_nat (Suc n)) B) C" "tables_ok (Suc n) A B (insert (of_nat (Suc n)) C)"
    using assms(1) issued_new [OF assms(3)] unfolding tables_ok_def by blast+
qed

lemma tables_ok_opened: "tables_ok n A B C \<Longrightarrow> h \<in> B \<Longrightarrow> tables_ok n (insert h A) (B - {h}) C"
  unfolding tables_ok_def by blast

lemma open_prepare_ok:
  assumes ok: "service_ok s" and n: "ids_counter (fst (open_wallet_prepare L salt s config credentials)) < 2 ^ 32"
  shows "service_ok (fst (open_wallet_prepare L salt s config credentials))"
proof -
  obtain s1 r where o: "open_storage_and_fetch_metadata L s config credentials = (s1, r)" by force
  have "same_tables s s1" using same_tables_ops(5) [of s L config credentials] o by simp
  then have s1: "service_ok s1" "ids_counter s1 = ids_counter s" using ok same_tables_ok by (auto simp: same_tables_def)
  show ?thesis
    using ok s1 n o tables_ok_new(1) [of "ids_counter s1"]
    by (auto simp: open_wallet_prepare_def next_wallet_handle_def service_ok_def Let_def simp del: of_nat_Suc split: sum.splits)
qed

lemma import_prepare_ok:
  "service_ok s \<Longrightarrow> ids_counter (fst (import_wallet_prepare L salt s credentials src export_key)) < 2 ^ 32 \<Longrightarrow>
    service_ok (fst (import_wallet_prepare L salt s credentials src export_key))"
  using tables_ok_new(2) [of "ids_counter s"]
  by (auto simp: import_wallet_prepare_def next_wallet_handle_def service_ok_def Let_def simp del: of_nat_Suc split: sum.splits)

lemma forget_ok:
  assumes "service_ok s"
  shows "service_ok (s\<lparr>pending_for_open := (pending_for_open s)(h := None)\<rparr>)"
    "service_ok (s\<lparr>pending_for_import := (pending_for_import s)(h := None)\<rparr>)"
  using assms by (auto simp: service_ok_def elim!: tables_ok_mono)

lemma opened_ok:
  assumes "service_ok s" and "h \<in> dom (pending_for_open s)"
  shows "service_ok (s\<lparr>pending_for_open := (pending_for_open s)(h := None), world := e,
      wallets := (wallets s)(h \<mapsto> \<lparr> op_id = i, op_storage = st, op_keys = k \<rparr>), wallet_ids := insert i (wallet_ids s)\<rparr>)"
    "service_ok (s\<lparr>pending_for_open := (pending_for_open s)(h := None),
      wallets := (wallets s)(h \<mapsto> \<lparr> op_id = i, op_storage = st, op_keys = k \<rparr>), wallet_ids := insert i (wallet_ids s)\<rparr>)"
proof -
  let ?x = "\<lparr> op_id = i, op_storage = st, op_keys = k \<rparr>"
  have "h \<notin> dom (wallets s)" using assms unfolding service_ok_def tables_ok_def by blast
  then have "ran ((wallets s)(h \<mapsto> ?x)) = insert ?x (ran (wallets s))" by (simp add: domIff ran_map_upd)
  then show "service_ok (s\<lparr>pending_for_open := (pending_for_open s)(h := None), world := e,
      wallets := (wallets s)(h \<mapsto> ?x), wallet_ids := insert i (wallet_ids s)\<rparr>)"
    "service_ok (s\<lparr>pending_for_open := (pending_for_open s)(h := None),
      wallets := (wallets s)(h \<mapsto> ?x), wallet_ids := insert i (wallet_ids s)\<rparr>)"
    using assms tables_ok_opened [of "ids_counter s"] by (auto simp: service_ok_def)
qed

lemma open_continue_ok:
  assumes "service_ok s"
  shows "service_ok (fst (open_wallet_continue L nonce s h master_key))"
proof (cases "pending_for_open s h")
  case (Some y)
  have w: "service_ok (s'\<lparr>world := e\<rparr>) \<longleftrightarrow> service_ok s'" for s' :: "('a, 'b) WalletService" and e by (simp add: service_ok_def)
  show ?thesis
    using Some forget_ok(1) [OF assms, of h] opened_ok [OF assms domI, of h]
    by (auto simp: open_wallet_continue_def w Let_def split: prod.split sum.split option.split)
qed (use assms in \<open>simp add: open_wallet_continue_def\<close>)

lemma close_ok:
  assumes "service_ok s"
  shows "service_ok (fst (close_wallet s h))"
proof (cases "wallets s h")
  case (Some x)
  have "wallet_ids s - {op_id x} \<subseteq> op_id ` ran ((wallets s)(h := None))"
  proof
    fix i assume i: "i \<in> wallet_ids s - {op_id x}"
    then obtain k y where "wallets s k = Some y" "op_id y = i"
      using assms by (auto simp: service_ok_def ran_def)
    moreover then have "k \<noteq> h" using Some i by auto
    ultimately show "i \<in> op_id ` ran ((wallets s)(h := None))" by (auto simp: ran_def)
  qed
  moreover have "tables_ok (ids_counter s) (dom (wallets s) - {h}) (dom (pending_for_open s)) (dom (pending_for_import s))"
    using assms by (auto simp: service_ok_def elim!: tables_ok_mono)
  ultimately show ?thesis
    using Some assms by (auto simp: close_wallet_def service_ok_def split: prod.split)
qed (use assms in \<open>simp add: close_wallet_def\<close>)

lemma same_tables_dest:
  "create_wallet L keys nonce s config credentials key = (s', r1) \<Longrightarrow> same_tables s s'"
  "open_storage_of L s config credentials = (s', r2) \<Longrightarrow> same_tables s s'"
  "delete_wallet_continue L s config credentials metadata master_key = (s', r3) \<Longrightarrow> same_tables s s'"
  using same_tables_ops(3,4,7) [of s] by (metis fst_conv)+

lemma import_continue_pending:
  assumes "import_wallet_continue L keys nonce rnd s h config credentials key = Some (s', r)" "pending_for_import s h = Some pend"
  shows "same_tables (s\<lparr>pending_for_import := (pending_for_import s)(h := None)\<rparr>) s'"
proof -
  let ?s = "s\<lparr>pending_for_import := (pending_for_import s)(h := None)\<rparr>"
  have world: "same_tables ?s s2 \<Longrightarrow> same_tables ?s (s2\<lparr>world := e\<rparr>)" for s2 e by (simp add: same_tables_def)
  have cleanup: "same_tables ?s s2 \<Longrightarrow> import_cleanup L (s2\<lparr>world := e\<rparr>) config credentials bs (snd key) res = (s4, r4) \<Longrightarrow>
      same_tables ?s s4" for s2 e bs res s4 r4
    using same_tables_ops(7) [of "s2\<lparr>world := e\<rparr>" L config credentials _ "snd key"]
    by (auto simp: import_cleanup_def intro: world split: sum.splits option.splits failure.splits prod.splits
        dest!: same_tables_dest(3) intro: same_tables_trans [OF world])
  obtain s1 r1 where 1: "create_wallet L keys nonce ?s config credentials (snd (snd (snd (snd pend))), snd key) = (s1, r1)" by force
  obtain s2 r2 where 2: "open_storage_of L s1 config credentials = (s2, r2)" by force
  have "same_tables ?s s1" "same_tables ?s s2"
    using same_tables_dest(1) [OF 1] same_tables_dest(2) [OF 2] by (auto intro: same_tables_trans)
  then show ?thesis
    using assms 1 2
    by (auto simp: import_wallet_continue_def bind_eq_Some_conv split: prod.splits sum.splits intro: cleanup)
qed

lemma import_continue_tables:
  assumes "import_wallet_continue L keys nonce rnd s h config credentials key = Some (s', r)"
  shows "same_tables (s\<lparr>pending_for_import := (pending_for_import s)(h := None)\<rparr>) s' \<or> s' = s"
proof (cases "pending_for_import s h")
  case (Some pend)
  then show ?thesis using import_continue_pending [OF assms] by blast
qed (use assms in \<open>simp add: import_wallet_continue_def\<close>)

lemma same_tables_counter: "same_tables s s' \<Longrightarrow> ids_counter s' = ids_counter s"
  by (simp add: same_tables_def)

lemma counter_mono:
  assumes "step L s s'"
  shows "ids_counter s \<le> ids_counter s'"
  using assms
proof cases
  case (step_open_prepare salt config credentials)
  then show ?thesis
    using same_tables_ops(5) [of s L config credentials]
    by (auto simp: open_wallet_prepare_def next_wallet_handle_def same_tables_def Let_def split: sum.splits prod.splits)
next
  case (step_open_continue nonce h master_key)
  then show ?thesis by (auto simp: open_wallet_continue_def Let_def split: option.splits sum.splits prod.splits)
next
  case (step_close h)
  then show ?thesis by (auto simp: close_wallet_def split: option.splits prod.splits)
next
  case (step_import_prepare salt credentials src export_key)
  then show ?thesis by (auto simp: import_wallet_prepare_def next_wallet_handle_def Let_def split: sum.splits)
next
  case (step_import_continue keys nonce rnd h config credentials key r)
  then show ?thesis using import_continue_tables [OF step_import_continue] by (auto simp: same_tables_def)
qed (simp_all add: same_tables_ops [THEN same_tables_counter])

lemma step_ok:
  assumes "step L s s'" and ok: "service_ok s" and n: "ids_counter s' < 2 ^ 32"
  shows "service_ok s'"
  using assms(1)
proof cases
  case (step_open_prepare salt config credentials)
  then show ?thesis using open_prepare_ok [OF ok] n by simp
next
  case (step_open_continue nonce h master_key)
  then show ?thesis using open_continue_ok [OF ok] by simp
next
  case (step_close h)
  then show ?thesis using close_ok [OF ok] by simp
next
  case (step_import_prepare salt credentials src export_key)
  then show ?thesis using import_prepare_ok [OF ok] n by simp
next
  case (step_import_continue keys nonce rnd h config credentials key r)
  then show ?thesis
    using import_continue_tables [OF step_import_continue] ok forget_ok(2) [OF ok] by (auto intro: same_tables_ok)
qed (simp_all add: same_tables_ops [THEN same_tables_ok, OF ok])

section \<open>Wallets of the default storage\<close>

text \<open>What the service relies on: keys and metadata survive their serialisations, and the cipher decrypts.\<close>

definition libs_ok :: "libs \<Rightarrow> bool" where
  "libs_ok L \<longleftrightarrow> crypto_ok (lb_crypto L) \<and>
    (\<forall>k. \<exists>bs. lb_keys_to_vec L k = Some bs \<and> lb_keys_from_slice L bs = Some k) \<and>
    (\<forall>m. \<exists>bs. lb_meta_to_vec L m = Some bs \<and> lb_meta_from_slice L bs = Some m)"

definition default_service ::
  "libs \<Rightarrow> (string \<Rightarrow> string option option) \<Rightarrow> engine \<Rightarrow> (files, SQLiteStorageIterator) WalletService \<Rightarrow> bool" where
  "default_service L pc E s \<longleftrightarrow>
    storage_types s ''default'' = Some (SQLiteStorageType pc E (lb_options L) (lb_overflow_checks L))"

definition uses_default :: "Config \<Rightarrow> bool" where
  "uses_default config \<longleftrightarrow> cfg_storage_type config = None \<or> cfg_storage_type config = Some ''default''"

text \<open>The database file of a configuration.\<close>

definition wallet_path :: "libs \<Rightarrow> (string \<Rightarrow> string option option) \<Rightarrow> files \<Rightarrow> Config \<Rightarrow> string IndyResult" where
  "wallet_path L pc fs config =
    bindr (config_of pc (map_option (lb_value_to_string L) (cfg_storage_config config))) (\<lambda>cfg.
      Inr (db_path fs (cfg_id config) cfg))"

abbreviation conn :: "libs \<Rightarrow> engine \<Rightarrow> nat \<Rightarrow> (files, SQLiteStorageIterator) WalletStorage" where
  "conn L E i \<equiv> SQLiteConnection E (lb_options L) (lb_overflow_checks L) i"

definition open_file :: "nat \<Rightarrow> files \<Rightarrow> files" where
  "open_file i fs = fs\<lparr>fs_dbs := (fs_dbs fs)(i := (fs_dbs fs i)\<lparr>db_foreign_keys := fs_default fs\<rparr>)\<rparr>"

text \<open>The file holds the keys, encrypted under the master key.\<close>

definition keyed :: "libs \<Rightarrow> nat \<Rightarrow> KeyDerivationData \<Rightarrow> bytes \<Rightarrow> Keys \<Rightarrow> files \<Rightarrow> bool" where
  "keyed L i kd mk keys fs \<longleftrightarrow>
    (\<exists>nonce bs. length nonce = NONCEBYTES \<and> prepare_metadata L nonce mk kd keys = Inr bs \<and> db_metadata (fs_dbs fs i) = [bs])"

lemma prepared_metadata:
  assumes L: "libs_ok L" and n: "length nonce = NONCEBYTES"
  shows "\<exists>bs ek. prepare_metadata L nonce mk kd keys = Inr bs \<and> lb_meta_from_slice L bs = Some (metadata_of kd ek) \<and>
    restore_keys L (metadata_of kd ek) mk = Inr keys"
proof -
  have c: "crypto_ok (lb_crypto L)" using L by (simp add: libs_ok_def)
  obtain ks where ks: "lb_keys_to_vec L keys = Some ks" "lb_keys_from_slice L ks = Some keys" using L unfolding libs_ok_def by blast
  let ?ek = "encrypt_as_not_searchable (lb_crypto L) nonce ks mk"
  obtain bs where "lb_meta_to_vec L (metadata_of kd ?ek) = Some bs" "lb_meta_from_slice L bs = Some (metadata_of kd ?ek)"
    using L unfolding libs_ok_def by blast
  moreover have "get_keys (metadata_of kd ?ek) = ?ek" by (cases kd) simp_all
  ultimately show ?thesis
    using ks c n by (intro exI [of _ bs] exI [of _ ?ek])
      (simp add: prepare_metadata_def serialize_encrypted_def restore_keys_def deserialize_encrypted_def)
qed

lemma keyed_metadata:
  assumes "libs_ok L" and "keyed L i kd mk keys fs"
  shows "\<exists>bs ek. st_get_storage_metadata (conn L E i) fs = Inr bs \<and> lb_meta_from_slice L bs = Some (metadata_of kd ek) \<and>
    restore_keys L (metadata_of kd ek) mk = Inr keys"
proof -
  obtain nonce bs where b: "length nonce = NONCEBYTES" "prepare_metadata L nonce mk kd keys = Inr bs" "db_metadata (fs_dbs fs i) = [bs]"
    using assms(2) by (auto simp: keyed_def)
  then show ?thesis
    using prepared_metadata [OF assms(1) b(1), of mk kd keys]
    by (auto simp: SQLiteConnection_def within_def SQLiteStorage_def sqlite_get_storage_metadata_def conn_get_def)
qed

lemma keyed_open_file [simp]: "keyed L i kd mk keys (open_file i fs) \<longleftrightarrow> keyed L i kd mk keys fs"
  by (simp add: keyed_def open_file_def)

lemma open_storage_file:
  assumes "default_service L pc E s" and "uses_default config" and "wallet_path L pc (world s) config = Inr p"
    and "fs_paths (world s) p = Some i"
  shows "open_storage_of L s config credentials = (s\<lparr>world := open_file i (world s)\<rparr>, Inr (conn L E i))"
  using assms
  by (auto simp: open_storage_of_def get_config_and_cred_for_storage_def default_service_def uses_default_def wallet_path_def
      bindr_Inr_iff SQLiteStorageType_def open_storage_def open_file_def)

lemma passphrase_metadata:
  "length salt = salt_bytes c \<Longrightarrow> kd = from_passphrase_with_new_salt salt pp meth \<Longrightarrow>
    from_passphrase_and_metadata c pp (metadata_of kd ek) meth = Inr kd"
  by (cases meth) (simp_all add: master_key_salt_from_slice_def from_slice_def)

definition rekey_data_of :: "bytes \<Rightarrow> Credentials \<Rightarrow> KeyDerivationData option" where
  "rekey_data_of salt credentials =
    map_option (\<lambda>rekey. from_passphrase_with_new_salt salt rekey (cr_rekey_derivation_method credentials)) (cr_rekey credentials)"

text \<open>The state after the first and after the second half of opening.\<close>

definition pend ::
  "string \<times> ('e, 'i) WalletStorage \<times> Metadata \<times> KeyDerivationData option \<Rightarrow> ('e, 'i) WalletService \<Rightarrow> ('e, 'i) WalletService" where
  "pend x s = s\<lparr>ids_counter := Suc (ids_counter s),
     pending_for_open := (pending_for_open s)(of_nat (Suc (ids_counter s)) \<mapsto> x)\<rparr>"

definition settle :: "WalletHandle \<Rightarrow> string \<Rightarrow> ('e, 'i) WalletStorage \<Rightarrow> Keys \<Rightarrow> ('e, 'i) WalletService \<Rightarrow> ('e, 'i) WalletService" where
  "settle h wid storage keys s = s\<lparr>pending_for_open := (pending_for_open s)(h := None),
     wallets := (wallets s)(h \<mapsto> \<lparr> op_id = wid, op_storage = storage, op_keys = keys \<rparr>),
     wallet_ids := insert wid (wallet_ids s)\<rparr>"

lemma pend_simps [simp]:
  "world (pend x s) = world s" "wallets (pend x s) = wallets s" "wallet_ids (pend x s) = wallet_ids s"
  "storage_types (pend x s) = storage_types s" "ids_counter (pend x s) = Suc (ids_counter s)"
  "pending_for_open (pend x s) = (pending_for_open s)(of_nat (Suc (ids_counter s)) \<mapsto> x)"
  by (simp_all add: pend_def)

lemma settle_simps [simp]:
  "world (settle h wid st k s) = world s" "wallets (settle h wid st k s) = (wallets s)(h \<mapsto> \<lparr> op_id = wid, op_storage = st, op_keys = k \<rparr>)"
  "wallet_ids (settle h wid st k s) = insert wid (wallet_ids s)" "storage_types (settle h wid st k s) = storage_types s"
  "ids_counter (settle h wid st k s) = ids_counter s" "pending_for_open (settle h wid st k s) = (pending_for_open s)(h := None)"
  by (simp_all add: settle_def)

lemma open_prepare_keyed:
  assumes L: "libs_ok L" and s: "default_service L pc E s" "uses_default config" "wallet_path L pc (world s) config = Inr p"
      "fs_paths (world s) p = Some i"
    and k: "keyed L i kd mk keys (world s)" "length salt = salt_bytes (lb_crypto L)"
      "kd = from_passphrase_with_new_salt salt (cr_key credentials) (cr_key_derivation_method credentials)"
    and free: "get_wallet_id config \<notin> wallet_ids s"
  shows "\<exists>md. open_wallet_prepare L salt' s config credentials =
      (pend (get_wallet_id config, conn L E i, md, rekey_data_of salt' credentials) (s\<lparr>world := open_file i (world s)\<rparr>),
       Inr (of_nat (Suc (ids_counter s)), kd, rekey_data_of salt' credentials)) \<and>
    restore_keys L md mk = Inr keys"
proof -
  obtain bs ek where m: "st_get_storage_metadata (conn L E i) (open_file i (world s)) = Inr bs"
    "lb_meta_from_slice L bs = Some (metadata_of kd ek)" "restore_keys L (metadata_of kd ek) mk = Inr keys"
    using keyed_metadata [OF L, of i kd mk keys "open_file i (world s)" E] k(1) by auto
  show ?thesis
    using m free passphrase_metadata [OF k(2,3), of ek] open_storage_file [OF s]
    by (intro exI [of _ "metadata_of kd ek"])
      (simp add: open_wallet_prepare_def is_id_from_config_not_used_def open_storage_and_fetch_metadata_def next_wallet_handle_def
        Let_def rekey_data_of_def pend_def)
qed

lemma open_continue_keyed:
  assumes "pending_for_open s h = Some (wid, storage, md, rd)" and "restore_keys L md mk = Inr keys" and "rd = None \<or> rk = None"
  shows "open_wallet_continue L nonce s h (mk, rk) = (settle h wid storage keys s, Inr h)"
  using assms by (auto simp: open_wallet_continue_def settle_def Let_def split: option.split)

lemma db_path_created [simp]:
  "db_path (fs\<lparr>fs_paths := a, fs_dbs := b, fs_next := c\<rparr>) wid cfg = db_path fs wid cfg"
  by (simp add: db_path_def db_dir_def cong: option.case_cong)

lemma create_file:
  assumes "default_service L pc E s" and "uses_default config" and "create_wallet L keys nonce s config credentials (kd, mk) = (s1, Inr k)"
    and "length nonce = NONCEBYTES"
  shows "\<exists>p bs. s1 = s\<lparr>world := (world s)\<lparr>fs_paths := (fs_paths (world s))(p \<mapsto> fs_next (world s)),
        fs_dbs := (fs_dbs (world s))(fs_next (world s) := empty_db bs), fs_next := Suc (fs_next (world s))\<rparr>\<rparr> \<and>
    k = keys \<and> prepare_metadata L nonce mk kd keys = Inr bs \<and> fs_paths (world s) p = None \<and>
    wallet_path L pc (world s1) config = Inr p"
proof -
  note defs = create_wallet_def get_config_and_cred_for_storage_def default_service_def uses_default_def SQLiteStorageType_def
    create_storage_def
  obtain bs where bs: "prepare_metadata L nonce mk kd keys = Inr bs"
    using assms(1-3) by (cases "prepare_metadata L nonce mk kd keys") (auto simp: defs)
  obtain cfg where cfg: "config_of pc (map_option (lb_value_to_string L) (cfg_storage_config config)) = Inr cfg"
    using assms(1-3) bs
    by (cases "config_of pc (map_option (lb_value_to_string L) (cfg_storage_config config))") (auto simp: defs)
  let ?p = "db_path (world s) (cfg_id config) cfg"
  have "fs_paths (world s) ?p = None" using assms(1-3) bs cfg by (auto simp: defs Let_def split: if_splits)
  then show ?thesis
    using assms(1-3) bs cfg
    by (intro exI [of _ ?p] exI [of _ bs]) (auto simp: defs Let_def wallet_path_def)
qed

lemma create_keyed:
  assumes L: "libs_ok L" and s: "default_service L pc E s" "uses_default config"
    and c: "create_wallet L keys nonce s config credentials (kd, mk) = (s1, Inr k)" "length nonce = NONCEBYTES"
  shows "\<exists>p i. wallet_path L pc (world s1) config = Inr p \<and> fs_paths (world s1) p = Some i \<and> keyed L i kd mk keys (world s1) \<and>
    default_service L pc E s1 \<and> wallet_ids s1 = wallet_ids s \<and> fs_default (world s1) = fs_default (world s) \<and>
    db_store (fs_dbs (world s1) i) = Map.empty \<and> items_inv (db_items (fs_dbs (world s1) i)) \<and> tags_inv (fs_dbs (world s1) i)"
proof -
  obtain p bs where "s1 = s\<lparr>world := (world s)\<lparr>fs_paths := (fs_paths (world s))(p \<mapsto> fs_next (world s)),
        fs_dbs := (fs_dbs (world s))(fs_next (world s) := empty_db bs), fs_next := Suc (fs_next (world s))\<rparr>\<rparr>"
    "prepare_metadata L nonce mk kd keys = Inr bs" "wallet_path L pc (world s1) config = Inr p"
    using create_file [OF s c] by blast
  then show ?thesis
    using s(1) c(2) db_inv_empty [of bs]
    by (intro exI [of _ p] exI [of _ "fs_next (world s)"])
      (auto simp: keyed_def default_service_def db_inv_defs empty_db_def)
qed

text \<open>The contents of an open file do not depend on the foreign key setting.\<close>

lemma db_store_fk [simp]: "db_store (d\<lparr>db_foreign_keys := b\<rparr>) = db_store d"
  by (rule ext) (simp add: db_store_def tag_view_def)

lemma tags_inv_fk [simp]: "tags_inv (d\<lparr>db_foreign_keys := b\<rparr>) \<longleftrightarrow> tags_inv d"
  by (simp add: tags_inv_def)

lemma conn_open_file:
  assumes "items_inv (db_items (fs_dbs fs i))" and "tags_inv (fs_dbs fs i)"
  shows "conn_inv (fs_default fs) i (open_file i fs)" "conn_store i (open_file i fs) = db_store (fs_dbs fs i)"
  using assms by (simp_all add: conn_inv_def conn_store_def conn_get_def open_file_def db_inv_defs)

definition with_metadata :: "nat \<Rightarrow> bytes \<Rightarrow> files \<Rightarrow> files" where
  "with_metadata i bs fs = conn_put i ((conn_get i fs)\<lparr>db_metadata := [bs]\<rparr>) fs"

lemma open_continue_rekey:
  assumes L: "libs_ok L" and p: "pending_for_open s h = Some (wid, conn L E i, md, Some rd)"
    and k: "restore_keys L md mk = Inr keys" "keyed L i kd mk keys (world s)" and n: "length nonce = NONCEBYTES"
  shows "\<exists>bs. open_wallet_continue L nonce s h (mk, Some rk) =
      (settle h wid (conn L E i) keys (s\<lparr>world := with_metadata i bs (world s)\<rparr>), Inr h) \<and> prepare_metadata L nonce rk rd keys = Inr bs"
proof -
  obtain bs where bs: "prepare_metadata L nonce rk rd keys = Inr bs" using prepared_metadata [OF L n] by blast
  have "st_set_storage_metadata (conn L E i) (world s) bs = (with_metadata i bs (world s), Inr ())"
    using k(2) by (auto simp: keyed_def SQLiteConnection_def within_def on_part_def SQLiteStorage_def sqlite_set_storage_metadata_def
        with_metadata_def conn_get_def)
  then show ?thesis using p k bs by (simp add: open_wallet_continue_def settle_def Let_def)
qed

lemma close_conn:
  "wallets s h = Some x \<Longrightarrow> op_storage x = conn L E i \<Longrightarrow>
    close_wallet s h = (s\<lparr>wallets := (wallets s)(h := None), wallet_ids := wallet_ids s - {op_id x}\<rparr>, Inr ())"
  by (simp add: close_wallet_def wallet_close_def wallet_in_def wallet_new_def with_state_def SQLiteConnection_def within_def
      on_part_def SQLiteStorage_def sqlite_close_def)

lemma db_store_metadata [simp]: "db_store (d\<lparr>db_metadata := m\<rparr>) = db_store d"
  by (rule ext) (simp add: db_store_def tag_view_def)

lemma wallet_path_files [simp]:
  "wallet_path L pc (open_file i fs) = wallet_path L pc fs" "wallet_path L pc (with_metadata i bs fs) = wallet_path L pc fs"
  by (simp_all add: fun_eq_iff wallet_path_def open_file_def with_metadata_def conn_put_def db_path_def db_dir_def
      cong: option.case_cong)

lemma files_simps [simp]:
  "fs_paths (open_file i fs) = fs_paths fs" "fs_paths (with_metadata i bs fs) = fs_paths fs"
  "conn_store i (open_file i fs) = db_store (fs_dbs fs i)" "db_store (fs_dbs (with_metadata i bs fs) i) = db_store (fs_dbs fs i)"
  "db_store (fs_dbs (open_file i fs) i) = db_store (fs_dbs fs i)"
  by (simp_all add: open_file_def with_metadata_def conn_put_def conn_store_def conn_get_def)

section \<open>Records by handle\<close>

lemma map_wallet_storage_error_id [simp]: "map_wallet_storage_error e = e"
  by (cases e rule: map_wallet_storage_error.cases) simp_all

lemma mapped_id [simp]: "mapped wr = wr"
  by (cases wr; cases "snd wr") (simp_all add: mapped_def)

text \<open>The record calls of the service, and what they do to the world.\<close>

fun exec_service ::
  "libs \<Rightarrow> ('e, 'i) WalletService \<Rightarrow> WalletHandle \<Rightarrow> wallet_call \<Rightarrow> ('e, 'i) WalletService \<times> unit IndyResult" where
  "exec_service L s h (WAdd rnd t n v tags) = add_record L rnd s h t n v tags"
| "exec_service L s h (WUpdate rnd t n v) = update_record_value L rnd s h t n v"
| "exec_service L s h (WAddTags t n tags) = add_record_tags L s h t n tags"
| "exec_service L s h (WUpdateTags t n tags) = update_record_tags L s h t n tags"
| "exec_service L s h (WDeleteTags t n names) = delete_record_tags L s h t n names"
| "exec_service L s h (WDelete t n) = delete_record L s h t n"

lemma exec_service_wallet:
  assumes "wallets s h = Some x"
  shows "exec_service L s h call = (s\<lparr>world := w_state (fst (exec_wallet (lb_crypto L) (wallet_in (world s) x) call))\<rparr>,
    snd (exec_wallet (lb_crypto L) (wallet_in (world s) x) call))"
  using assms
  by (cases call) (simp_all add: add_record_def update_record_value_def add_record_tags_def update_record_tags_def
      delete_record_tags_def delete_record_def on_wallet_def split: prod.split)

lemma exec_wallet_same: "w_storage (fst (exec_wallet c w call)) = w_storage w" "w_keys (fst (exec_wallet c w call)) = w_keys w"
  by (cases call; simp add: wallet_add_def wallet_update_def wallet_add_tags_def wallet_update_tags_def wallet_delete_tags_def
      wallet_delete_def with_state_def)+

text \<open>A wallet on a connection changes its own file only.\<close>

lemma exec_wallet_conn:
  assumes "w_storage w = SQLiteConnection E j chk i"
  shows "\<exists>d. w_state (fst (exec_wallet c w call)) = conn_put i d (w_state w)"
  using assms
  by (cases call) (auto simp: wallet_add_def wallet_update_def wallet_add_tags_def wallet_update_tags_def wallet_delete_tags_def
      wallet_delete_def with_state_def SQLiteConnection_def within_def on_part_def)

lemma holds_other_file:
  "i \<noteq> i' \<Longrightarrow> wallet_holds S (conn_inv fk i') (conn_store i') c (wallet_in (conn_put i d fs) x) V \<longleftrightarrow>
    wallet_holds S (conn_inv fk i') (conn_store i') c (wallet_in fs x) V"
  by (simp add: wallet_holds_def wallet_in_def wallet_new_def conn_inv_def conn_store_def)

lemma wallet_in_state: "wallet_in e x\<lparr>w_state := e'\<rparr> = wallet_in e' x"
  by (simp add: wallet_in_def wallet_new_def)

text \<open>One record call by handle, over any storage.\<close>

context encrypted_wallet
begin

lemma exec_service_refines:
  assumes "lb_crypto L = c" and x: "wallets s h = Some x" "wallet_holds S inv abs c (wallet_in (world s) x) V" and "wallet_call_ok call"
    and "wallet_call_deletes call \<longrightarrow> cascades"
  shows "\<exists>s' V' r. exec_service L s h call = (s', r) \<and> exec_vault V call = (V', r) \<and> wallets s' = wallets s \<and>
    wallet_holds S inv abs c (wallet_in (world s') x) V'"
proof -
  obtain w' V' r where w': "exec_wallet c (wallet_in (world s) x) call = (w', r)" "wallet_holds S inv abs c w' V'" "exec_vault V call = (V', r)"
    using exec_wallet_refines [OF x(2) assms(4,5)] by blast
  have "wallet_holds S inv abs c (wallet_in (w_state w') x) V'"
    using w'(1,2) exec_wallet_same [of c "wallet_in (world s) x" call] by (simp add: wallet_holds_def wallet_in_def wallet_new_def)
  then show ?thesis using exec_service_wallet [OF x(1), of L call] w'(1,3) assms(1) by auto
qed

lemma record_exists_plain:
  assumes "lb_crypto L = c" and "lb_options L = j" and "serde_ok j"
    and x: "wallets s h = Some x" "wallet_holds S inv abs c (wallet_in (world s) x) V"
  shows "record_exists L s h tn name = Inr (V (add_prefix tn, name) \<noteq> None)"
proof (cases "V (add_prefix tn, name)")
  case None
  then show ?thesis
    using get_plain(1) [OF x(2) record_options_of_print [OF assms(3), of record_options_id], of "add_prefix tn" name] x(1) assms(1,2)
    by (simp add: record_exists_def of_wallet_def)
next
  case (Some p)
  then show ?thesis
    using get_plain(2) [OF x(2) record_options_of_print [OF assms(3), of record_options_id], of "add_prefix tn" name p] x(1) assms(1,2)
    by (auto simp: record_exists_def of_wallet_def)
qed

lemma upsert_plain:
  assumes L: "lb_crypto L = c" "lb_options L = j" "serde_ok j"
    and x: "wallets s h = Some x" "wallet_holds S inv abs c (wallet_in (world s) x) V"
    and "to_json obj = Some js" and ok: "rust_string js" "rust_string name" "rust_string (add_prefix tn)" "rnd_ok rnd"
  shows "\<exists>s' p. upsert_indy_object L rnd to_json s h tn name obj = (s', Inr js) \<and> wallets s' = wallets s \<and> pl_value p = js \<and>
    pl_tags p = (case V (add_prefix tn, name) of None \<Rightarrow> Map.empty | Some q \<Rightarrow> pl_tags q) \<and>
    wallet_holds S inv abs c (wallet_in (world s') x) (V((add_prefix tn, name) \<mapsto> p))"
proof (cases "V (add_prefix tn, name)")
  case None
  have "wallet_call_ok (WAdd rnd (add_prefix tn) name js [])" using ok by (simp add: tags_ok_def)
  from exec_service_refines [OF L(1) x this] None
  obtain s' where s': "add_record L rnd s h (add_prefix tn) name js [] = (s', Inr ())" "wallets s' = wallets s"
    "wallet_holds S inv abs c (wallet_in (world s') x) (V((add_prefix tn, name) \<mapsto> \<lparr> pl_value = js, pl_tags = Map.empty \<rparr>))"
    by auto
  then show ?thesis
    using record_exists_plain [OF L x, of tn name] assms(6) None
    by (auto simp: upsert_indy_object_def add_indy_object_def add_indy_record_def intro!: exI [of _ "\<lparr> pl_value = js, pl_tags = Map.empty \<rparr>"])
next
  case (Some q)
  have "wallet_call_ok (WUpdate rnd (add_prefix tn) name js)" using ok by simp
  from exec_service_refines [OF L(1) x this] Some
  obtain s' where s': "update_record_value L rnd s h (add_prefix tn) name js = (s', Inr ())" "wallets s' = wallets s"
    "wallet_holds S inv abs c (wallet_in (world s') x) (V((add_prefix tn, name) \<mapsto> q\<lparr>pl_value := js\<rparr>))"
    by (auto simp: on_plain_def)
  have "update_indy_object L rnd to_json s h tn name obj = (s', Inr js)"
    using s'(1) x(1) assms(6) by (auto simp: update_indy_object_def update_record_value_def on_wallet_def split: prod.splits)
  then show ?thesis
    using s'(2,3) record_exists_plain [OF L x, of tn name] Some
    by (auto simp: upsert_indy_object_def intro!: exI [of _ "q\<lparr>pl_value := js\<rparr>"])
qed

lemma get_indy_object_plain:
  assumes "lb_crypto L = c" and x: "wallets s h = Some x" "wallet_holds S inv abs c (wallet_in (world s) x) V"
    and "record_options_of j opts = Inr opt" and "retrieve_value opt" and "V (add_prefix tn, name) = Some p"
  shows "get_indy_object L of_json s h tn name opts = ok_or (of_json (pl_value p)) (Error InvalidState)"
  using get_plain(2) [OF x(2) assms(4,6)] x(1) assms(1,5)
  by (auto simp: get_indy_object_def get_indy_record_value_def of_wallet_def shows_plain_def)

end

lemma conn_wallet:
  "sql_engine like E \<Longrightarrow> libs_ok L \<Longrightarrow>
    encrypted_wallet (conn L E i) (conn_inv fk i) (conn_store i) (lb_options L) like fk (lb_crypto L)"
  by (intro encrypted_wallet.intro encrypted_wallet_axioms.intro connection_is_storage) (simp_all add: libs_ok_def)

section \<open>Imports that fail\<close>

text \<open>Importing records changes the file of the connection and nothing else.\<close>

definition same_files :: "files \<Rightarrow> files \<Rightarrow> bool" where
  "same_files fs fs' \<longleftrightarrow> fs_paths fs' = fs_paths fs \<and> fs_home fs' = fs_home fs \<and> fs_default fs' = fs_default fs \<and> fs_next fs' = fs_next fs"

lemma same_files_refl [simp]: "same_files fs fs"
  by (simp add: same_files_def)

lemma same_files_trans: "same_files a b \<Longrightarrow> same_files b c \<Longrightarrow> same_files a c"
  by (simp add: same_files_def)

lemma same_files_put [simp]: "same_files fs (conn_put i d fs)"
  by (simp add: same_files_def conn_put_def)

lemma same_files_open [simp]: "same_files fs (open_file i fs)"
  by (simp add: same_files_def open_file_def)

lemma same_files_path: "same_files fs fs' \<Longrightarrow> wallet_path L pc fs' = wallet_path L pc fs"
  by (simp add: fun_eq_iff same_files_def wallet_path_def db_path_def db_dir_def cong: option.case_cong)

lemma wallet_add_conn:
  assumes "wallet_add c rnd w t n v tags = (w', r)" and "w_storage w = SQLiteConnection E j chk i"
  shows "w_storage w' = SQLiteConnection E j chk i \<and> same_files (w_state w) (w_state w')"
proof -
  have "w' = fst (exec_wallet c w (WAdd rnd t n v tags))" using assms(1) by simp
  moreover obtain d where "w_state (fst (exec_wallet c w (WAdd rnd t n v tags))) = conn_put i d (w_state w)"
    using exec_wallet_conn [OF assms(2)] by blast
  ultimately show ?thesis using exec_wallet_same(1) [of c w "WAdd rnd t n v tags"] assms(2) by simp
qed

lemma import_records_files:
  assumes "import_records c inc m rnd n w r = Some y" and "w_storage w = SQLiteConnection E j chk i"
  shows "same_files (w_state w) (w_state (fst y))"
proof -
  let ?P = "\<lambda>c inc m rnd n w r y. w_storage w = SQLiteConnection E j chk i \<longrightarrow> same_files (w_state w) (w_state (fst y))"
  have "?P c inc m rnd n w r y"
    by (rule import_records.raw_induct [where P = ?P, OF _ assms(1)],
      auto split: prod.splits sum.splits if_splits option.splits dest!: wallet_add_conn, blast intro: same_files_trans)
  then show ?thesis using assms(2) by simp
qed

lemma finish_import_files:
  assumes "finish_import ck c inc m hash rnd w src key nonce chunk_size hb = Some (w', res)"
    and "w_storage w = SQLiteConnection E j chk i"
  shows "same_files (w_state w) (w_state w')"
  using assms import_records_files [OF _ assms(2)]
  by (fastforce simp: finish_import_def split: sum.splits prod.splits if_splits)

lemma delete_file:
  assumes "default_service L pc E s" and "uses_default config" and "wallet_path L pc (world s) config = Inr p"
    and "fs_paths (world s) p = Some i" and "parent_dir p \<noteq> []" and "restore_keys L md mk = Inr keys"
  shows "delete_wallet_continue L s config credentials md mk =
    (s\<lparr>world := (world s)\<lparr>fs_paths := \<lambda>q. if below (parent_dir p) q then None else fs_paths (world s) q\<rparr>\<rparr>, Inr ())"
  using assms
  by (auto simp: delete_wallet_continue_def get_config_and_cred_for_storage_def default_service_def uses_default_def wallet_path_def
      bindr_Inr_iff SQLiteStorageType_def delete_storage_def Let_def)

lemma wallet_path_below: "wallet_path L pc fs config = Inr p \<Longrightarrow> below (parent_dir p) p"
  by (auto simp: wallet_path_def bindr_Inr_iff db_path_below)

lemma create_error:
  assumes "default_service L pc E s" and "uses_default config"
    and "create_wallet L keys nonce s config credentials (kd, mk) = (s1, Inl e)"
  shows "world s1 = world s"
  using assms
  by (auto simp: create_wallet_def get_config_and_cred_for_storage_def default_service_def uses_default_def
      SQLiteStorageType_def create_storage_def Let_def split: sum.splits if_splits)

text \<open>An import into a fresh file, up to the reading of records.\<close>

lemma import_created:
  assumes L: "libs_ok L" and s: "default_service L pc E s" "uses_default config"
    and pend: "pending_for_import s h = Some (reader, fnonce, chunk_size, hb, kd)"
    and c: "create_wallet L keys nonce (s\<lparr>pending_for_import := (pending_for_import s)(h := None)\<rparr>) config credentials (kd, snd key)
      = (s1, Inr k)" "length nonce = NONCEBYTES" and free: "get_wallet_id config \<notin> wallet_ids s"
  shows "\<exists>p i bs md s2. wallet_path L pc (world s1) config = Inr p \<and> fs_paths (world s1) p = Some i \<and>
    s2 = s1\<lparr>world := open_file i (world s1)\<rparr> \<and> lb_meta_from_slice L bs = Some md \<and> restore_keys L md (snd key) = Inr keys \<and>
    default_service L pc E s1 \<and>
    import_wallet_continue L keys nonce rnd s h config credentials key =
      Option.bind (finish_import (lb_overflow_checks L) (lb_crypto L) (lb_increment L) (lb_rmp L) (lb_hash L) rnd
        (wallet_new (get_wallet_id config) (conn L E i) (world s2) keys) reader (fst key) fnonce chunk_size hb)
        (\<lambda>(w, res). Some (import_cleanup L (s2\<lparr>world := w_state w\<rparr>) config credentials bs (snd key) res))"
proof -
  let ?s = "s\<lparr>pending_for_import := (pending_for_import s)(h := None)\<rparr>"
  have d: "default_service L pc E ?s" using s(1) by (simp add: default_service_def)
  obtain p i where f: "wallet_path L pc (world s1) config = Inr p" "fs_paths (world s1) p = Some i" "keyed L i kd (snd key) keys (world s1)"
    "default_service L pc E s1" "wallet_ids s1 = wallet_ids ?s"
    using create_keyed [OF L d s(2) c] by blast
  have k: "k = keys" using create_file [OF d s(2) c] by blast
  obtain bs ek where m: "st_get_storage_metadata (conn L E i) (open_file i (world s1)) = Inr bs"
    "lb_meta_from_slice L bs = Some (metadata_of kd ek)" "restore_keys L (metadata_of kd ek) (snd key) = Inr keys"
    using keyed_metadata [OF L, of i kd "snd key" keys "open_file i (world s1)" E] f(3) by auto
  then show ?thesis
    using pend c(1) k free f open_storage_file [OF f(4) s(2) f(1,2)]
    by (intro exI [of _ p] exI [of _ i] exI [of _ bs] exI [of _ "metadata_of kd ek"] exI [of _ "s1\<lparr>world := open_file i (world s1)\<rparr>"])
      (simp add: import_wallet_continue_def is_id_from_config_not_used_def)
qed

end
