(* ===== verification/Wallet_Lifecycle.thy ===== *)
theory Wallet_Lifecycle
  imports Wallet_Service
begin

text \<open>
  Properties of the wallet service: the invariant of its tables, creating and opening wallets, changing
  the master key, overlapping calls, isolation of wallets, objects, and imports that fail.
\<close>

section \<open>A service with one wallet\<close>

text \<open>Libraries and a service for witnesses.\<close>

definition keys_bytes :: "Keys \<Rightarrow> bytes list" where
  "keys_bytes k = [type_key k, name_key k, value_key k, item_hmac_key k, tag_name_key k, tag_value_key k, tags_hmac_key k]"

fun bytes_keys :: "bytes list \<Rightarrow> Keys option" where
  "bytes_keys [a, b, c, d, e, f, g] = Some \<lparr> type_key = a, name_key = b, value_key = c, item_hmac_key = d, tag_name_key = e,
     tag_value_key = f, tags_hmac_key = g \<rparr>"
| "bytes_keys _ = None"

fun meta_bytes :: "Metadata \<Rightarrow> bytes list" where
  "meta_bytes (MetadataArgon m) = [argon_keys m, master_key_salt m]"
| "meta_bytes (MetadataRaw m) = [raw_keys m]"

fun bytes_meta :: "bytes list \<Rightarrow> Metadata option" where
  "bytes_meta [k, salt] = Some (MetadataArgon \<lparr> argon_keys = k, master_key_salt = salt \<rparr>)"
| "bytes_meta [k] = Some (MetadataRaw \<lparr> raw_keys = k \<rparr>)"
| "bytes_meta _ = None"

definition toy_libs :: libs where
  "toy_libs = \<lparr> lb_crypto = toy_crypto,
     lb_keys_to_vec = (\<lambda>k. Some (esc_list (keys_bytes k))), lb_keys_from_slice = (\<lambda>bs. Option.bind (unesc_list bs) bytes_keys),
     lb_meta_to_vec = (\<lambda>m. Some (esc_list (meta_bytes m))), lb_meta_from_slice = (\<lambda>bs. Option.bind (unesc_list bs) bytes_meta),
     lb_value_to_string = (\<lambda>_. []), lb_options = toy_serde, lb_parse_json = (\<lambda>_. None), lb_increment = id, lb_rmp = toy_rmp,
     lb_hash = (\<lambda>_. Inr (replicate HASHBYTES 0)), lb_overflow_checks = True \<rparr>"

lemma toy_libs_ok: "libs_ok toy_libs"
proof -
  have "bytes_keys (keys_bytes k) = Some k" for k by (simp add: keys_bytes_def)
  moreover have "bytes_meta (meta_bytes m) = Some m" for m by (cases m) simp_all
  ultimately show ?thesis by (simp add: libs_ok_def toy_libs_def unesc_list_esc)
qed

definition toy_fs :: files where
  "toy_fs = \<lparr> fs_paths = Map.empty, fs_dbs = (\<lambda>_. empty_db []), fs_next = 0, fs_home = ''/h'', fs_default = True \<rparr>"

abbreviation toy_pc :: "string \<Rightarrow> string option option" where
  "toy_pc \<equiv> \<lambda>_. Some None"

definition toy_service :: "(files, SQLiteStorageIterator) WalletService" where
  "toy_service = service_new (SQLiteStorageType toy_pc (ref_engine (=)) toy_serde True) toy_fs"

definition toy_config :: "string \<Rightarrow> Config" where
  "toy_config wid = \<lparr> cfg_id = wid, cfg_storage_type = None, cfg_storage_config = None \<rparr>"

definition toy_cred :: Credentials where
  "toy_cred = \<lparr> cr_key = ''k'', cr_rekey = Some ''n'', cr_storage_credentials = None, cr_key_derivation_method = ARGON2I_MOD,
     cr_rekey_derivation_method = RAW \<rparr>"

definition toy_salt :: bytes where
  "toy_salt = replicate 16 3"

definition toy_nonce :: bytes where
  "toy_nonce = replicate NONCEBYTES 4"

abbreviation toy_kd :: KeyDerivationData where
  "toy_kd \<equiv> Argon2iMod ''k'' toy_salt"

definition toy_created :: "(files, SQLiteStorageIterator) WalletService" where
  "toy_created = fst (create_wallet toy_libs toy_keys toy_nonce toy_service (toy_config ''w'') toy_cred (toy_kd, [9]))"

lemmas toy_defs = toy_libs_def toy_fs_def toy_service_def toy_config_def toy_cred_def service_new_def

lemma toy_side:
  "default_service toy_libs toy_pc (ref_engine (=)) toy_service" "uses_default (toy_config wid)"
  "length toy_nonce = NONCEBYTES" "length toy_salt = salt_bytes (lb_crypto toy_libs)"
  "toy_kd = from_passphrase_with_new_salt toy_salt (cr_key toy_cred) (cr_key_derivation_method toy_cred)"
  "get_wallet_id (toy_config wid) \<notin> wallet_ids toy_service" "fs_default (world toy_service)"
  by (simp_all add: default_service_def uses_default_def toy_nonce_def toy_salt_def get_wallet_id_def toy_crypto_def toy_defs)

lemma toy_create:
  "create_wallet toy_libs toy_keys toy_nonce toy_service (toy_config ''w'') toy_cred (toy_kd, [9]) = (toy_created, Inr toy_keys)"
proof -
  obtain bs where "prepare_metadata toy_libs toy_nonce [9] toy_kd toy_keys = Inr bs"
    using prepared_metadata [OF toy_libs_ok toy_side(3)] by blast
  then show ?thesis
    by (simp add: toy_created_def create_wallet_def get_config_and_cred_for_storage_def SQLiteStorageType_def create_storage_def
        config_of_def toy_defs Let_def)
qed

lemma toy_file:
  "wallet_path toy_libs toy_pc (world toy_created) (toy_config ''w'') = Inr ''/h/w/sqlite.db''"
  "fs_paths (world toy_created) ''/h/w/sqlite.db'' = Some 0" "keyed toy_libs 0 toy_kd [9] toy_keys (world toy_created)"
  "default_service toy_libs toy_pc (ref_engine (=)) toy_created" "get_wallet_id (toy_config ''w'') \<notin> wallet_ids toy_created"
  "ids_counter toy_created = 1"
proof -
  obtain p bs where c: "toy_created = toy_service\<lparr>world := (world toy_service)\<lparr>fs_paths := (fs_paths (world toy_service))(p \<mapsto> fs_next (world toy_service)),
        fs_dbs := (fs_dbs (world toy_service))(fs_next (world toy_service) := empty_db bs), fs_next := Suc (fs_next (world toy_service))\<rparr>\<rparr>"
    "prepare_metadata toy_libs toy_nonce [9] toy_kd toy_keys = Inr bs" "wallet_path toy_libs toy_pc (world toy_created) (toy_config ''w'') = Inr p"
    using create_file [OF toy_side(1,2) toy_create toy_side(3)] by blast
  show path: "wallet_path toy_libs toy_pc (world toy_created) (toy_config ''w'') = Inr ''/h/w/sqlite.db''"
    unfolding c(1) by (simp add: wallet_path_def toy_defs config_of_def db_path_def db_dir_def path_push_def)
  have "p = ''/h/w/sqlite.db''" using path c(3) by simp
  then show "fs_paths (world toy_created) ''/h/w/sqlite.db'' = Some 0"
    unfolding c(1) by (simp add: toy_service_def service_new_def toy_fs_def)
  show "keyed toy_libs 0 toy_kd [9] toy_keys (world toy_created)"
    using c(2) toy_side(3) unfolding c(1) keyed_def by (auto simp: toy_service_def service_new_def toy_fs_def empty_db_def)
  show "default_service toy_libs toy_pc (ref_engine (=)) toy_created" "get_wallet_id (toy_config ''w'') \<notin> wallet_ids toy_created"
    "ids_counter toy_created = 1"
    using toy_side(1,6) unfolding c(1) by (simp_all add: default_service_def) (simp add: toy_service_def service_new_def)
qed

section \<open>Properties\<close>

text \<open>
  C30: after any sequence of calls, as long as fewer than \<open>2 ^ 32\<close> handles have been drawn, every
  handle stands for at most one open wallet, pending opening or pending import, and every id that
  blocks opening belongs to a wallet that is open.
\<close>
theorem service_reachable_ok:
  assumes "reachable L sqlite e s" and "ids_counter s < 2 ^ 32"
  shows "service_ok s"
  using assms
proof (induction rule: reachable.induct)
  case reachable_new
  show ?case by (simp add: service_ok_def service_new_def tables_ok_def)
next
  case (reachable_step s s')
  have "ids_counter s < 2 ^ 32"
    using counter_mono [OF reachable_step.hyps(2)] reachable_step.prems by (rule le_less_trans)
  then show ?case using step_ok [OF reachable_step.hyps(2) _ reachable_step.prems] reachable_step.IH by blast
qed

text \<open>Witness for C30: the state after creating a wallet.\<close>
theorem service_reachable_ok_witness:
  "reachable toy_libs (SQLiteStorageType toy_pc (ref_engine (=)) toy_serde True) toy_fs toy_created \<and> service_ok toy_created"
proof -
  have "reachable toy_libs (SQLiteStorageType toy_pc (ref_engine (=)) toy_serde True) toy_fs toy_created"
    unfolding toy_created_def toy_service_def by (intro reachable_step [OF reachable_new] step_create)
  then show ?thesis using service_reachable_ok toy_file(6) by fastforce
qed

text \<open>
  C31: a wallet that was created can be opened. With the credentials it was created with, and unless a wallet of its id is open, the first half
  of opening reports the key derivation data of its creation, the second half, given that master key,
  succeeds, and the open wallet has the keys drawn at creation and no records. Its connection has the foreign key setting that is the
  default of the library.
\<close>
theorem create_open_roundtrip:
  assumes L: "libs_ok L" and s: "default_service L pc E s" "uses_default config"
    and c: "create_wallet L keys nonce s config credentials (kd, mk) = (s1, Inr k)" "length nonce = NONCEBYTES"
    and kd: "length salt = salt_bytes (lb_crypto L)"
      "kd = from_passphrase_with_new_salt salt (cr_key credentials) (cr_key_derivation_method credentials)"
    and free: "get_wallet_id config \<notin> wallet_ids s"
  shows "\<exists>s2 h s3 x i. open_wallet_prepare L salt' s1 config credentials = (s2, Inr (h, kd, rekey_data_of salt' credentials)) \<and>
    open_wallet_continue L nonce' s2 h (mk, None) = (s3, Inr h) \<and> wallets s3 h = Some x \<and> op_keys x = keys \<and>
    wallet_holds (conn L E i) (conn_inv (fs_default (world s)) i) (conn_store i) (lb_crypto L) (wallet_in (world s3) x) Map.empty"
proof -
  obtain p i where f: "wallet_path L pc (world s1) config = Inr p" "fs_paths (world s1) p = Some i" "keyed L i kd mk keys (world s1)"
    "default_service L pc E s1" "wallet_ids s1 = wallet_ids s" "fs_default (world s1) = fs_default (world s)"
    "db_store (fs_dbs (world s1) i) = Map.empty" "items_inv (db_items (fs_dbs (world s1) i))" "tags_inv (fs_dbs (world s1) i)"
    using create_keyed [OF L s c] by blast
  have "get_wallet_id config \<notin> wallet_ids s1" using free f(5) by simp
  from open_prepare_keyed [OF L f(4) s(2) f(1,2,3) kd this, of salt']
  obtain md where o: "open_wallet_prepare L salt' s1 config credentials =
      (pend (get_wallet_id config, conn L E i, md, rekey_data_of salt' credentials) (s1\<lparr>world := open_file i (world s1)\<rparr>),
       Inr (of_nat (Suc (ids_counter s1)), kd, rekey_data_of salt' credentials))" "restore_keys L md mk = Inr keys" by blast
  show ?thesis
    using o conn_open_file [OF f(8,9)] f(6,7)
    by (auto simp: open_continue_keyed wallet_holds_def wallet_in_def wallet_new_def vault_rel_def simp del: of_nat_Suc)
qed

text \<open>Witness for C31: a wallet with a derived key, created and opened.\<close>
theorem create_open_roundtrip_witness:
  "\<exists>s2 h s3 x i. open_wallet_prepare toy_libs toy_salt toy_created (toy_config ''w'') toy_cred =
      (s2, Inr (h, toy_kd, rekey_data_of toy_salt toy_cred)) \<and>
    open_wallet_continue toy_libs toy_nonce s2 h ([9], None) = (s3, Inr h) \<and> wallets s3 h = Some x \<and> op_keys x = toy_keys \<and>
    wallet_holds (conn toy_libs (ref_engine (=)) i) (conn_inv (fs_default (world toy_service)) i) (conn_store i) (lb_crypto toy_libs) (wallet_in (world s3) x) Map.empty"
  by (rule create_open_roundtrip [OF toy_libs_ok toy_side(1,2) toy_create toy_side(3,4,5,6)])

text \<open>
  Changing the master key. A wallet opened with a new passphrase is, after closing, opened by the new
  passphrase and the key derived from it, with the same keys and the same records as before.
\<close>
theorem rekey_roundtrip:
  assumes L: "libs_ok L" and s: "default_service L pc E s" "uses_default config" "wallet_path L pc (world s) config = Inr p"
      "fs_paths (world s) p = Some i"
    and k: "keyed L i kd mk keys (world s)" "length salt = salt_bytes (lb_crypto L)"
      "kd = from_passphrase_with_new_salt salt (cr_key credentials) (cr_key_derivation_method credentials)"
    and free: "get_wallet_id config \<notin> wallet_ids s" and n: "length nonce = NONCEBYTES"
    and new: "cr_rekey credentials = Some (cr_key credentials2)"
      "cr_rekey_derivation_method credentials = cr_key_derivation_method credentials2" "length salt2 = salt_bytes (lb_crypto L)"
  shows "\<exists>s1 h kd2 s2 s3 s4 h' s5 x.
    open_wallet_prepare L salt2 s config credentials = (s1, Inr (h, kd, Some kd2)) \<and>
    open_wallet_continue L nonce s1 h (mk, Some rk) = (s2, Inr h) \<and> close_wallet s2 h = (s3, Inr ()) \<and>
    open_wallet_prepare L salt3 s3 config credentials2 = (s4, Inr (h', kd2, rekey_data_of salt3 credentials2)) \<and>
    open_wallet_continue L nonce' s4 h' (rk, None) = (s5, Inr h') \<and>
    wallets s5 h' = Some x \<and> op_keys x = keys \<and> conn_store i (world s5) = db_store (fs_dbs (world s) i)"
proof -
  let ?h = "of_nat (Suc (ids_counter s)) :: WalletHandle"
  let ?kd2 = "from_passphrase_with_new_salt salt2 (cr_key credentials2) (cr_key_derivation_method credentials2)"
  let ?wid = "get_wallet_id config" and ?c = "conn L E i"
  have rd: "rekey_data_of salt2 credentials = Some ?kd2" using new by (simp add: rekey_data_of_def)
  obtain md where 1: "open_wallet_prepare L salt2 s config credentials =
      (pend (?wid, ?c, md, Some ?kd2) (s\<lparr>world := open_file i (world s)\<rparr>), Inr (?h, kd, Some ?kd2))"
    "restore_keys L md mk = Inr keys"
    using open_prepare_keyed [OF L s k free, of salt2] unfolding rd by blast
  define s1 where "s1 = pend (?wid, ?c, md, Some ?kd2) (s\<lparr>world := open_file i (world s)\<rparr>)"
  obtain bs where 2: "open_wallet_continue L nonce s1 ?h (mk, Some rk) =
      (settle ?h ?wid ?c keys (s1\<lparr>world := with_metadata i bs (world s1)\<rparr>), Inr ?h)" "prepare_metadata L nonce rk ?kd2 keys = Inr bs"
    using open_continue_rekey [OF L _ 1(2) _ n, of s1 ?h ?wid E i ?kd2 kd rk] k(1) by (auto simp: s1_def)
  define s2 where "s2 = settle ?h ?wid ?c keys (s1\<lparr>world := with_metadata i bs (world s1)\<rparr>)"
  define s3 where "s3 = s2\<lparr>wallets := (wallets s2)(?h := None), wallet_ids := wallet_ids s2 - {?wid}\<rparr>"
  have 3: "close_wallet s2 ?h = (s3, Inr ())"
    using close_conn [of s2 ?h "\<lparr> op_id = ?wid, op_storage = ?c, op_keys = keys \<rparr>"] by (simp add: s2_def s3_def)
  have w3: "world s3 = with_metadata i bs (open_file i (world s))" by (simp add: s1_def s2_def s3_def)
  have "keyed L i ?kd2 rk keys (world s3)"
    unfolding w3 using 2(2) n by (auto simp: keyed_def with_metadata_def conn_put_def)
  moreover have "default_service L pc E s3" "?wid \<notin> wallet_ids s3" using s(1) by (simp_all add: s1_def s2_def s3_def default_service_def)
  ultimately obtain md' where 4: "open_wallet_prepare L salt3 s3 config credentials2 =
      (pend (?wid, ?c, md', rekey_data_of salt3 credentials2) (s3\<lparr>world := open_file i (world s3)\<rparr>),
       Inr (of_nat (Suc (ids_counter s3)), ?kd2, rekey_data_of salt3 credentials2))" "restore_keys L md' rk = Inr keys"
    using open_prepare_keyed [OF L _ s(2), of pc E s3 p i ?kd2 rk keys salt2 credentials2 salt3] s(3,4) new(3) w3 by auto
  define s4 where "s4 = pend (?wid, ?c, md', rekey_data_of salt3 credentials2) (s3\<lparr>world := open_file i (world s3)\<rparr>)"
  have 5: "open_wallet_continue L nonce' s4 (of_nat (Suc (ids_counter s3))) (rk, None) =
      (settle (of_nat (Suc (ids_counter s3))) ?wid ?c keys s4, Inr (of_nat (Suc (ids_counter s3))))"
    by (rule open_continue_keyed [OF _ 4(2)]) (simp_all add: s4_def del: of_nat_Suc)
  have "conn_store i (world s4) = db_store (fs_dbs (world s) i)" by (simp add: s4_def w3)
  then show ?thesis
    using 1(1) [folded s1_def] 2(1) [folded s2_def] 3 4(1) [folded s4_def] 5
    by (intro exI conjI) (assumption | simp)+
qed

text \<open>Instance of the above: from a derived key to a raw one.\<close>
theorem rekey_roundtrip_witness:
  "\<exists>s1 h kd2 s2 s3 s4 h' s5 x.
    open_wallet_prepare toy_libs toy_salt toy_created (toy_config ''w'') toy_cred = (s1, Inr (h, toy_kd, Some kd2)) \<and>
    open_wallet_continue toy_libs toy_nonce s1 h ([9], Some [8]) = (s2, Inr h) \<and> close_wallet s2 h = (s3, Inr ()) \<and>
    open_wallet_prepare toy_libs toy_salt s3 (toy_config ''w'') (toy_cred\<lparr>cr_key := ''n'', cr_key_derivation_method := RAW\<rparr>) =
      (s4, Inr (h', kd2, rekey_data_of toy_salt (toy_cred\<lparr>cr_key := ''n'', cr_key_derivation_method := RAW\<rparr>))) \<and>
    open_wallet_continue toy_libs toy_nonce s4 h' ([8], None) = (s5, Inr h') \<and>
    wallets s5 h' = Some x \<and> op_keys x = toy_keys \<and> conn_store 0 (world s5) = db_store (fs_dbs (world toy_created) 0)"
  by (rule rekey_roundtrip [OF toy_libs_ok toy_file(4) toy_side(2) toy_file(1,2,3) toy_side(4,5) toy_file(5) toy_side(3) _ _ toy_side(4)])
    (simp_all add: toy_cred_def)

text \<open>
  Opening the same wallet twice is not prevented when the two openings overlap. Only finished
  openings are checked, so two first halves followed by the two second halves succeed and leave two open
  wallets on one file. Closing one of them gives the id free: the wallet can then be deleted although
  the other is still open.
\<close>
theorem open_race:
  assumes L: "libs_ok L" and s: "default_service L pc E s" "uses_default config" "wallet_path L pc (world s) config = Inr p"
      "fs_paths (world s) p = Some i"
    and k: "keyed L i kd mk keys (world s)" "length salt = salt_bytes (lb_crypto L)"
      "kd = from_passphrase_with_new_salt salt (cr_key credentials) (cr_key_derivation_method credentials)"
    and free: "get_wallet_id config \<notin> wallet_ids s" and n: "Suc (Suc (ids_counter s)) < 2 ^ 32"
  shows "\<exists>s1 h1 r s2 h2 s3 s4 s5 s6 md x1 x2. h1 \<noteq> h2 \<and>
    open_wallet_prepare L salt' s config credentials = (s1, Inr (h1, r)) \<and>
    open_wallet_prepare L salt' s1 config credentials = (s2, Inr (h2, r)) \<and>
    open_wallet_continue L nonce s2 h1 (mk, None) = (s3, Inr h1) \<and>
    open_wallet_continue L nonce s3 h2 (mk, None) = (s4, Inr h2) \<and>
    wallets s4 h1 = Some x1 \<and> wallets s4 h2 = Some x2 \<and> op_id x1 = op_id x2 \<and> op_storage x1 = op_storage x2 \<and>
    close_wallet s4 h1 = (s5, Inr ()) \<and> wallets s5 h2 = Some x2 \<and> op_id x2 \<notin> wallet_ids s5 \<and>
    delete_wallet_prepare L s5 config credentials = (s6, Inr (md, kd))"
proof -
  let ?h1 = "of_nat (Suc (ids_counter s)) :: WalletHandle" and ?h2 = "of_nat (Suc (Suc (ids_counter s))) :: WalletHandle"
  let ?wid = "get_wallet_id config" and ?c = "conn L E i" and ?rd = "rekey_data_of salt' credentials"
  let ?x = "\<lparr> op_id = ?wid, op_storage = ?c, op_keys = keys \<rparr>"
  have "issued (Suc (ids_counter s)) ?h1 \<or> ids_counter s = 0" using issued_new [of "ids_counter s"] by linarith
  then have ne: "?h1 \<noteq> ?h2" using issued_fresh [OF n] by (auto simp: issued_def)
  define fs where "fs = open_file i (world s)"
  have fs: "open_file i fs = fs" by (simp add: fs_def open_file_def)
  obtain md1 where 1: "open_wallet_prepare L salt' s config credentials =
      (pend (?wid, ?c, md1, ?rd) (s\<lparr>world := fs\<rparr>), Inr (?h1, kd, ?rd))" "restore_keys L md1 mk = Inr keys"
    using open_prepare_keyed [OF L s k free, of salt'] unfolding fs_def by blast
  define s1 where "s1 = pend (?wid, ?c, md1, ?rd) (s\<lparr>world := fs\<rparr>)"
  have dbf: "wallet_path L pc fs config = Inr p" "fs_paths fs p = Some i" "keyed L i kd mk keys fs"
    using s(3,4) k(1) by (simp_all add: fs_def)
  have "default_service L pc E s1" "world s1 = fs" "?wid \<notin> wallet_ids s1" "ids_counter s1 = Suc (ids_counter s)"
    using s(1) free by (simp_all add: s1_def default_service_def)
  with open_prepare_keyed [OF L, of pc E s1 config p i kd mk keys salt credentials salt'] s(2) dbf k(2,3) fs
  obtain md2 where 2: "open_wallet_prepare L salt' s1 config credentials =
      (pend (?wid, ?c, md2, ?rd) (s1\<lparr>world := fs\<rparr>), Inr (?h2, kd, ?rd))" "restore_keys L md2 mk = Inr keys"
    by auto
  define s2 where "s2 = pend (?wid, ?c, md2, ?rd) (s1\<lparr>world := fs\<rparr>)"
  have p2: "pending_for_open s2 ?h1 = Some (?wid, ?c, md1, ?rd)" "pending_for_open s2 ?h2 = Some (?wid, ?c, md2, ?rd)"
    using ne by (simp_all add: s2_def s1_def del: of_nat_Suc)
  define s3 where "s3 = settle ?h1 ?wid ?c keys s2"
  have 3: "open_wallet_continue L nonce s2 ?h1 (mk, None) = (s3, Inr ?h1)"
    unfolding s3_def by (rule open_continue_keyed [OF p2(1) 1(2)]) simp
  define s4 where "s4 = settle ?h2 ?wid ?c keys s3"
  have "pending_for_open s3 ?h2 = Some (?wid, ?c, md2, ?rd)" using p2(2) ne by (simp add: s3_def del: of_nat_Suc)
  then have 4: "open_wallet_continue L nonce s3 ?h2 (mk, None) = (s4, Inr ?h2)"
    unfolding s4_def by (rule open_continue_keyed [OF _ 2(2)]) simp
  define s5 where "s5 = s4\<lparr>wallets := (wallets s4)(?h1 := None), wallet_ids := wallet_ids s4 - {?wid}\<rparr>"
  have w4: "wallets s4 ?h1 = Some ?x" "wallets s4 ?h2 = Some ?x" using ne by (simp_all add: s4_def s3_def del: of_nat_Suc)
  then have 5: "close_wallet s4 ?h1 = (s5, Inr ())" unfolding s5_def using close_conn [OF w4(1)] by simp
  have "wallets s5 ?h2 = Some ?x" "?wid \<notin> wallet_ids s5" using w4(2) ne by (simp_all add: s5_def del: of_nat_Suc)
  moreover have "\<exists>s6 md. delete_wallet_prepare L s5 config credentials = (s6, Inr (md, kd))"
  proof -
    have s5: "default_service L pc E s5" "world s5 = fs"
      using s(1) by (simp_all add: s5_def s4_def s3_def s2_def s1_def default_service_def)
    obtain bs ek where "st_get_storage_metadata ?c fs = Inr bs" "lb_meta_from_slice L bs = Some (metadata_of kd ek)"
      using keyed_metadata [OF L dbf(3)] by blast
    then show ?thesis
      using open_storage_file [OF s5(1) s(2)] s5(2) dbf(1,2) fs passphrase_metadata [OF k(2,3), of ek] \<open>?wid \<notin> wallet_ids s5\<close>
      by (simp add: delete_wallet_prepare_def open_storage_and_fetch_metadata_def)
  qed
  ultimately show ?thesis
    using ne 1(1) [folded s1_def] 2(1) [folded s2_def] 3 4 5 w4 by (metis opened.select_convs)
qed

text \<open>Instance of the above: the wallet opened twice, closed once and ready to be deleted.\<close>
theorem open_race_witness:
  "\<exists>s1 h1 r s2 h2 s3 s4 s5 s6 md x1 x2. h1 \<noteq> h2 \<and>
    open_wallet_prepare toy_libs toy_salt toy_created (toy_config ''w'') toy_cred = (s1, Inr (h1, r)) \<and>
    open_wallet_prepare toy_libs toy_salt s1 (toy_config ''w'') toy_cred = (s2, Inr (h2, r)) \<and>
    open_wallet_continue toy_libs toy_nonce s2 h1 ([9], None) = (s3, Inr h1) \<and>
    open_wallet_continue toy_libs toy_nonce s3 h2 ([9], None) = (s4, Inr h2) \<and>
    wallets s4 h1 = Some x1 \<and> wallets s4 h2 = Some x2 \<and> op_id x1 = op_id x2 \<and> op_storage x1 = op_storage x2 \<and>
    close_wallet s4 h1 = (s5, Inr ()) \<and> wallets s5 h2 = Some x2 \<and> op_id x2 \<notin> wallet_ids s5 \<and>
    delete_wallet_prepare toy_libs s5 (toy_config ''w'') toy_cred = (s6, Inr (md, toy_kd))"
  by (rule open_race [OF toy_libs_ok toy_file(4) toy_side(2) toy_file(1,2,3) toy_side(4,5) toy_file(5)]) (simp add: toy_file(6))

text \<open>
  C33: the wallets behind different handles do not touch each other. A record call on one handle has on that
  wallet the effect, and reports the result, of the plain map of records, and leaves the records of every
  wallet on another file as they were. If the call deletes a record, its connection enforces foreign keys (\<open>fk\<close>).
\<close>
theorem record_calls_isolated:
  assumes "sql_engine like E" and "libs_ok L" and "wallet_call_ok call" and "i \<noteq> i'" and "wallet_call_deletes call \<longrightarrow> fk"
    and x: "wallets s h = Some x" "wallet_holds (conn L E i) (conn_inv fk i) (conn_store i) (lb_crypto L) (wallet_in (world s) x) V"
    and y: "wallets s h' = Some y" "wallet_holds (conn L E i') (conn_inv fk' i') (conn_store i') (lb_crypto L) (wallet_in (world s) y) V'"
  shows "\<exists>s' V1 r. exec_service L s h call = (s', r) \<and> exec_vault V call = (V1, r) \<and> wallets s' = wallets s \<and>
    wallet_holds (conn L E i) (conn_inv fk i) (conn_store i) (lb_crypto L) (wallet_in (world s') x) V1 \<and>
    wallet_holds (conn L E i') (conn_inv fk' i') (conn_store i') (lb_crypto L) (wallet_in (world s') y) V'"
proof -
  let ?w = "wallet_in (world s) x"
  note W = conn_wallet [OF assms(1,2), of i fk]
  obtain w' V1 r where w': "exec_wallet (lb_crypto L) ?w call = (w', r)" "exec_vault V call = (V1, r)"
    "wallet_holds (conn L E i) (conn_inv fk i) (conn_store i) (lb_crypto L) w' V1"
    using encrypted_wallet.exec_wallet_refines [OF W x(2) assms(3,5)] by blast
  have "w_storage ?w = conn L E i" using x(2) by (simp add: wallet_holds_def)
  from exec_wallet_conn [OF this, of "lb_crypto L" call] w'(1)
  obtain d where d: "w_state w' = conn_put i d (world s)" by (auto simp: wallet_in_def wallet_new_def)
  have "wallet_holds (conn L E i) (conn_inv fk i) (conn_store i) (lb_crypto L) (wallet_in (w_state w') x) V1"
    using w'(1,3) exec_wallet_same [of "lb_crypto L" ?w call] by (simp add: wallet_holds_def wallet_in_def wallet_new_def)
  moreover have "wallet_holds (conn L E i') (conn_inv fk' i') (conn_store i') (lb_crypto L) (wallet_in (w_state w') y) V'"
    using y(2) holds_other_file [OF assms(4)] unfolding d by blast
  ultimately show ?thesis using exec_service_wallet [OF x(1), of L call] w'(1,2) by auto
qed

text \<open>A service with two open wallets.\<close>

definition toy_open :: "nat \<Rightarrow> (files, SQLiteStorageIterator) opened" where
  "toy_open i = \<lparr> op_id = replicate (Suc i) CHR ''a'', op_storage = conn toy_libs (ref_engine (=)) i, op_keys = toy_keys \<rparr>"

definition toy_two :: "(files, SQLiteStorageIterator) WalletService" where
  "toy_two = toy_service\<lparr>wallets := [2 \<mapsto> toy_open 0, 3 \<mapsto> toy_open 1]\<rparr>"

lemma toy_two_holds:
  "wallet_holds (conn toy_libs (ref_engine (=)) i) (conn_inv True i) (conn_store i) (lb_crypto toy_libs) (wallet_in (world toy_two) (toy_open i)) Map.empty"
  by (simp add: wallet_holds_def wallet_in_def wallet_new_def toy_open_def toy_two_def toy_service_def service_new_def toy_fs_def
      conn_inv_def conn_store_def conn_get_def db_inv_empty vault_rel_def)

lemma toy_two_wallets: "wallets toy_two 2 = Some (toy_open 0)" "wallets toy_two 3 = Some (toy_open 1)"
  by (simp_all add: toy_two_def)

text \<open>Witness for C33: a record added to the first of two wallets.\<close>
theorem record_calls_isolated_witness:
  "\<exists>s' V1. exec_service toy_libs toy_two 2 (WAdd toy_rnd ''t'' ''n'' ''v'' []) = (s', Inr ()) \<and>
    exec_vault Map.empty (WAdd toy_rnd ''t'' ''n'' ''v'' []) = (V1, Inr ()) \<and>
    wallet_holds (conn toy_libs (ref_engine (=)) 0) (conn_inv True 0) (conn_store 0) (lb_crypto toy_libs) (wallet_in (world s') (toy_open 0)) V1 \<and>
    wallet_holds (conn toy_libs (ref_engine (=)) 1) (conn_inv True 1) (conn_store 1) (lb_crypto toy_libs) (wallet_in (world s') (toy_open 1)) Map.empty"
proof -
  have "wallet_call_ok (WAdd toy_rnd ''t'' ''n'' ''v'' [])"
    by (simp add: rnd_ok_def toy_rnd_def tags_ok_def rust_string_code byte_of_char_def)
  from record_calls_isolated [OF ref_engine_ok toy_libs_ok this zero_neq_one _ toy_two_wallets(1) toy_two_holds toy_two_wallets(2) toy_two_holds]
  show ?thesis by auto
qed

text \<open>
  \<^verbatim>\<open>upsert_indy_object\<close> stores the object whether or not it was there: it returns the object's JSON,
  reading the object back gives it, its tags are kept if it was there, and no other record changes.
\<close>
theorem upsert_get:
  assumes "sql_engine like E" and L: "libs_ok L" "serde_ok (lb_options L)"
    and x: "wallets s h = Some x" "wallet_holds (conn L E i) (conn_inv fk i) (conn_store i) (lb_crypto L) (wallet_in (world s) x) V"
    and json: "to_json obj = Some js" "of_json js = Some obj"
    and ok: "rust_string js" "rust_string name" "rust_string (add_prefix tn)" "rnd_ok rnd"
    and opts: "record_options_of (lb_options L) opts = Inr opt" "retrieve_value opt"
  shows "\<exists>s' p. upsert_indy_object L rnd to_json s h tn name obj = (s', Inr js) \<and>
    get_indy_object L of_json s' h tn name opts = Inr obj \<and>
    pl_tags p = (case V (add_prefix tn, name) of None \<Rightarrow> Map.empty | Some q \<Rightarrow> pl_tags q) \<and>
    wallet_holds (conn L E i) (conn_inv fk i) (conn_store i) (lb_crypto L) (wallet_in (world s') x) (V((add_prefix tn, name) \<mapsto> p))"
proof -
  note W = conn_wallet [OF assms(1) L(1), of i fk]
  obtain s' p where s': "upsert_indy_object L rnd to_json s h tn name obj = (s', Inr js)" "wallets s' = wallets s" "pl_value p = js"
    "pl_tags p = (case V (add_prefix tn, name) of None \<Rightarrow> Map.empty | Some q \<Rightarrow> pl_tags q)"
    "wallet_holds (conn L E i) (conn_inv fk i) (conn_store i) (lb_crypto L) (wallet_in (world s') x) (V((add_prefix tn, name) \<mapsto> p))"
    using encrypted_wallet.upsert_plain [OF W refl refl L(2) x, of to_json, OF json(1) ok] by blast
  have "wallets s' h = Some x" using s'(2) x(1) by simp
  from encrypted_wallet.get_indy_object_plain [OF W refl this s'(5) opts, of tn name p of_json] s' json(2)
  show ?thesis by auto
qed

text \<open>Instance of the above: a string stored as an object.\<close>
theorem upsert_get_witness:
  "\<exists>s'. upsert_indy_object toy_libs toy_rnd Some toy_two 2 ''T'' ''x'' ''obj'' = (s', Inr ''obj'') \<and>
    get_indy_object toy_libs Some s' 2 ''T'' ''x'' ''{}'' = Inr ''obj''"
proof -
  have "rust_string ''obj''" "rust_string ''x''" "rust_string (add_prefix ''T'')" "rnd_ok toy_rnd"
    "serde_ok (lb_options toy_libs)" "record_options_of (lb_options toy_libs) ''{}'' = Inr record_options_default"
    by (simp_all add: rnd_ok_def toy_rnd_def rust_string_code byte_of_char_def add_prefix_def toy_libs_def record_options_of_def)
  then show ?thesis
    using upsert_get [where to_json = Some and obj = "''obj''" and js = "''obj''" and of_json = Some and name = "''x''" and tn = "''T''"
        and rnd = toy_rnd and opts = "''{}''" and opt = record_options_default, OF ref_engine_ok toy_libs_ok _ toy_two_wallets(1) toy_two_holds]
    by (auto simp: record_options_default_def)
qed

text \<open>
  C32: an import that fails leaves no wallet behind. If no wallet of that id is open and no file is in the
  way, then after an import that ends in an error there is still none: the file created for it, and
  whatever records had been read into it, are gone, and no table of the service mentions it: open wallets, ids in use and pending
  openings are as before, and of the pending imports exactly this one has been removed.
\<close>
theorem failed_import_leaves_nothing:
  assumes L: "libs_ok L" and s: "default_service L pc E s" "uses_default config" "wallet_path L pc (world s) config = Inr p"
      "fs_paths (world s) p = None" "parent_dir p \<noteq> []"
    and n: "length nonce = NONCEBYTES" and free: "get_wallet_id config \<notin> wallet_ids s"
    and r: "import_wallet_continue L keys nonce rnd s h config credentials key = Some (s', Inl (Error e))"
  shows "fs_paths (world s') p = None \<and> wallets s' = wallets s \<and> wallet_ids s' = wallet_ids s \<and>
    pending_for_open s' = pending_for_open s \<and> pending_for_import s' = (pending_for_import s)(h := None)"
proof -
  let ?s = "s\<lparr>pending_for_import := (pending_for_import s)(h := None)\<rparr>"
  have d: "default_service L pc E ?s" using s(1) by (simp add: default_service_def)
  obtain reader fnonce chunk_size hb kd where pend: "pending_for_import s h = Some (reader, fnonce, chunk_size, hb, kd)"
    using r by (cases "pending_for_import s h") (auto simp: import_wallet_continue_def)
  have tables: "wallets s' = wallets s \<and> wallet_ids s' = wallet_ids s \<and> pending_for_open s' = pending_for_open s \<and>
      pending_for_import s' = (pending_for_import s)(h := None)"
    using import_continue_pending [OF r pend] by (auto simp: same_tables_def)
  obtain s1 r1 where c: "create_wallet L keys nonce ?s config credentials (kd, snd key) = (s1, r1)" by force
  have "fs_paths (world s') p = None"
  proof (cases r1)
    case (Inl e1)
    then have "s' = s1" using r pend c by (simp add: import_wallet_continue_def)
    then show ?thesis using create_error [OF d s(2)] c Inl s(4) by simp
  next
    case (Inr k)
    obtain p' bs where cf: "s1 = ?s\<lparr>world := (world ?s)\<lparr>fs_paths := (fs_paths (world ?s))(p' \<mapsto> fs_next (world ?s)),
        fs_dbs := (fs_dbs (world ?s))(fs_next (world ?s) := empty_db bs), fs_next := Suc (fs_next (world ?s))\<rparr>\<rparr>"
      "wallet_path L pc (world s1) config = Inr p'"
      using create_file [OF d s(2) c [unfolded Inr] n] by blast
    have "wallet_path L pc (world s1) config = wallet_path L pc (world s) config"
      unfolding cf(1) by (simp add: wallet_path_def)
    then have p': "p' = p" using cf(2) s(3) by simp
    obtain i bs md s2 where im: "fs_paths (world s1) p = Some i" "s2 = s1\<lparr>world := open_file i (world s1)\<rparr>"
      "lb_meta_from_slice L bs = Some md" "restore_keys L md (snd key) = Inr keys" "default_service L pc E s1"
      "import_wallet_continue L keys nonce rnd s h config credentials key =
      Option.bind (finish_import (lb_overflow_checks L) (lb_crypto L) (lb_increment L) (lb_rmp L) (lb_hash L) rnd
        (wallet_new (get_wallet_id config) (conn L E i) (world s2) keys) reader (fst key) fnonce chunk_size hb)
        (\<lambda>(w, res). Some (import_cleanup L (s2\<lparr>world := w_state w\<rparr>) config credentials bs (snd key) res))"
      using import_created [OF L s(1,2) pend c [unfolded Inr] n free, of rnd] cf(2) p' by auto
    obtain w res where w: "finish_import (lb_overflow_checks L) (lb_crypto L) (lb_increment L) (lb_rmp L) (lb_hash L) rnd
        (wallet_new (get_wallet_id config) (conn L E i) (world s2) keys) reader (fst key) fnonce chunk_size hb = Some (w, res)"
      "import_cleanup L (s2\<lparr>world := w_state w\<rparr>) config credentials bs (snd key) res = (s', Inl (Error e))"
      using r unfolding im(6) by (auto simp: bind_eq_Some_conv)
    have "same_files (world s2) (w_state w)" using finish_import_files [OF w(1)] by (simp add: wallet_new_def)
    then have files: "same_files (world s1) (w_state w)" using same_files_trans [OF same_files_open] im(2) by simp
    define s3 where "s3 = s2\<lparr>world := w_state w\<rparr>"
    have "default_service L pc E s3" "wallet_path L pc (world s3) config = Inr p" "fs_paths (world s3) p = Some i"
      using im(1,2,5) cf(2) p' same_files_path [OF files] files by (simp_all add: s3_def default_service_def same_files_def)
    from delete_file [OF this(1) s(2) this(2,3) s(5) im(4), of credentials] show ?thesis
      using w(2) [folded s3_def] im(3) wallet_path_below [OF s(3)]
      by (cases res) (auto simp: import_cleanup_def s3_def split: failure.splits)
  qed
  then show ?thesis using tables by blast
qed

text \<open>Witness for C32: the import of an empty file.\<close>
theorem failed_import_leaves_nothing_witness:
  "\<exists>s'. import_wallet_continue toy_libs toy_keys toy_nonce (\<lambda>_. toy_rnd)
      (toy_service\<lparr>pending_for_import := [5 \<mapsto> ([], toy_nonce, 1024, [], toy_kd)]\<rparr>) 5 (toy_config ''w'') toy_cred ([7], [9])
      = Some (s', Inl (Error InvalidStructure)) \<and> fs_paths (world s') ''/h/w/sqlite.db'' = None"
proof -
  let ?s = "toy_service\<lparr>pending_for_import := [5 \<mapsto> ([], toy_nonce, 1024, [], toy_kd)]\<rparr>"
  have d: "default_service toy_libs toy_pc (ref_engine (=)) ?s" "pending_for_import ?s 5 = Some ([], toy_nonce, 1024, [], toy_kd)"
    "get_wallet_id (toy_config ''w'') \<notin> wallet_ids ?s" "fs_paths (world ?s) ''/h/w/sqlite.db'' = None"
    "wallet_path toy_libs toy_pc (world ?s) (toy_config ''w'') = Inr ''/h/w/sqlite.db''" "parent_dir ''/h/w/sqlite.db'' \<noteq> []"
    using toy_side(1) toy_side(6) [of "''w''"]
    by (simp_all add: default_service_def toy_service_def service_new_def toy_fs_def wallet_path_def toy_config_def config_of_def
        db_path_def db_dir_def path_push_def parent_dir_def)
  have "?s\<lparr>pending_for_import := (pending_for_import ?s)(5 := None)\<rparr> = toy_service"
    by (simp add: toy_service_def service_new_def)
  then have c: "create_wallet toy_libs toy_keys toy_nonce (?s\<lparr>pending_for_import := (pending_for_import ?s)(5 := None)\<rparr>) (toy_config ''w'') toy_cred
      (toy_kd, snd ([7 :: byte], [9])) = (toy_created, Inr toy_keys)" using toy_create by (simp only: snd_conv)
  from import_created [OF toy_libs_ok d(1) toy_side(2) d(2) c toy_side(3) d(3), of "\<lambda>_. toy_rnd"]
  obtain i bs md s2 where im: "s2 = toy_created\<lparr>world := open_file i (world toy_created)\<rparr>" "fs_paths (world toy_created) ''/h/w/sqlite.db'' = Some i"
    "lb_meta_from_slice toy_libs bs = Some md" "restore_keys toy_libs md [9] = Inr toy_keys"
    "import_wallet_continue toy_libs toy_keys toy_nonce (\<lambda>_. toy_rnd) ?s 5 (toy_config ''w'') toy_cred ([7], [9]) =
      Option.bind (finish_import True toy_crypto id toy_rmp (\<lambda>_. Inr (replicate HASHBYTES 0)) (\<lambda>_. toy_rnd)
        (wallet_new (get_wallet_id (toy_config ''w'')) (conn toy_libs (ref_engine (=)) i) (world s2) toy_keys) [] [7] toy_nonce 1024 [])
        (\<lambda>(w, res). Some (import_cleanup toy_libs (s2\<lparr>world := w_state w\<rparr>) (toy_config ''w'') toy_cred bs [9] res))"
    using toy_file(1) by (auto simp: toy_libs_def)
  have "finish_import True toy_crypto id toy_rmp (\<lambda>_. Inr (replicate HASHBYTES 0)) (\<lambda>_. toy_rnd) w [] [7] toy_nonce 1024 [] =
      Some (w, Inl (Error InvalidStructure))" for w :: "(files, SQLiteStorageIterator) Wallet"
    using fill_ok [of "[]" "[]" "[]" "1024 + TAGBYTES"]
    by (auto simp: finish_import_def reader_new_def Let_def TAGBYTES_def read_exact_def HASHBYTES_def reader_read_def reader_loop.simps
        open_chunk_def read_chunk_def)
  moreover have "\<exists>s3. import_cleanup toy_libs s2 (toy_config ''w'') toy_cred bs [9] (Inl (Error InvalidStructure)) = (s3, Inl (Error InvalidStructure))"
  proof -
    have "default_service toy_libs toy_pc (ref_engine (=)) s2" "wallet_path toy_libs toy_pc (world s2) (toy_config ''w'') = Inr ''/h/w/sqlite.db''"
      "fs_paths (world s2) ''/h/w/sqlite.db'' = Some i"
      using im(1,2) toy_file(1,4) by (simp_all add: default_service_def)
    from delete_file [OF this(1) toy_side(2) this(2,3) d(6) im(4), of toy_cred] im(3) show ?thesis by (simp add: import_cleanup_def)
  qed
  ultimately obtain s3 where "import_wallet_continue toy_libs toy_keys toy_nonce (\<lambda>_. toy_rnd) ?s 5 (toy_config ''w'') toy_cred ([7], [9]) =
      Some (s3, Inl (Error InvalidStructure))" using im(1,5) by (auto simp: wallet_new_def)
  with failed_import_leaves_nothing [OF toy_libs_ok d(1) toy_side(2) d(5,4,6) toy_side(3) d(3) this] show ?thesis by blast
qed

text \<open>
  An import whose id is taken fails only after it has created the wallet. Ids are made by joining the
  wallet's id and its path, so a wallet that is open elsewhere can have the same one; the import then
  reports WalletAlreadyOpened and leaves the new, empty wallet in place.
\<close>
theorem import_id_clash_leaves_wallet:
  assumes s: "default_service L pc E s" "uses_default config"
    and pend: "pending_for_import s h = Some (reader, fnonce, chunk_size, hb, kd)" and n: "length nonce = NONCEBYTES"
    and c: "create_wallet L keys nonce (s\<lparr>pending_for_import := (pending_for_import s)(h := None)\<rparr>) config credentials (kd, snd key)
      = (s1, Inr k)" and clash: "get_wallet_id config \<in> wallet_ids s"
  shows "import_wallet_continue L keys nonce rnd s h config credentials key = Some (s1, Inl (Error WalletAlreadyOpened)) \<and>
    (\<exists>p i. wallet_path L pc (world s1) config = Inr p \<and> fs_paths (world s1) p = Some i)"
proof -
  have d: "default_service L pc E (s\<lparr>pending_for_import := (pending_for_import s)(h := None)\<rparr>)"
    using s(1) by (simp add: default_service_def)
  have "wallet_ids s1 = wallet_ids s" using same_tables_dest(1) [OF c] by (simp add: same_tables_def)
  then show ?thesis
    using create_file [OF d s(2) c n] pend c clash
    by (auto simp: import_wallet_continue_def is_id_from_config_not_used_def)
qed

text \<open>Instance of the above: \<open>ab\<close> is open, and \<open>a\<close> at the path \<open>b\<close> is imported.\<close>
theorem import_id_clash_leaves_wallet_witness:
  "\<exists>(s :: (files, SQLiteStorageIterator) WalletService) s1 p i. op_id ` ran (wallets s) = {''ab''} \<and>
    import_wallet_continue toy_libs toy_keys toy_nonce (\<lambda>_. toy_rnd) s 5
      \<lparr> cfg_id = ''a'', cfg_storage_type = None, cfg_storage_config = Some (Object [(''path'', String ''b'')]) \<rparr> toy_cred ([7], [9])
      = Some (s1, Inl (Error WalletAlreadyOpened)) \<and>
    wallet_path toy_libs toy_pc (world s1)
      \<lparr> cfg_id = ''a'', cfg_storage_type = None, cfg_storage_config = Some (Object [(''path'', String ''b'')]) \<rparr> = Inr p \<and>
    fs_paths (world s1) p = Some i"
proof -
  let ?c = "\<lparr> cfg_id = ''a'', cfg_storage_type = None, cfg_storage_config = Some (Object [(''path'', String ''b'')]) \<rparr>"
  define s where "s = toy_service\<lparr>wallets := [2 \<mapsto> (toy_open 0)\<lparr>op_id := ''ab''\<rparr>], wallet_ids := {''ab''},
    pending_for_import := [5 \<mapsto> ([], toy_nonce, 1024, [], toy_kd)]\<rparr>"
  have d: "default_service toy_libs toy_pc (ref_engine (=)) s" "uses_default ?c"
    "pending_for_import s 5 = Some ([], toy_nonce, 1024, [], toy_kd)" "get_wallet_id ?c \<in> wallet_ids s"
    using toy_side(1) by (simp_all add: default_service_def uses_default_def get_wallet_id_def config_path_def s_def)
  obtain bs where "prepare_metadata toy_libs toy_nonce [9] toy_kd toy_keys = Inr bs"
    using prepared_metadata [OF toy_libs_ok toy_side(3)] by blast
  then have "\<exists>s1. create_wallet toy_libs toy_keys toy_nonce (s\<lparr>pending_for_import := (pending_for_import s)(5 := None)\<rparr>) ?c toy_cred
      (toy_kd, snd ([7 :: byte], [9])) = (s1, Inr toy_keys)"
    by (simp add: create_wallet_def get_config_and_cred_for_storage_def SQLiteStorageType_def create_storage_def
        config_of_def toy_service_def service_new_def toy_fs_def Let_def s_def)
  then obtain s1 where "create_wallet toy_libs toy_keys toy_nonce (s\<lparr>pending_for_import := (pending_for_import s)(5 := None)\<rparr>) ?c toy_cred
      (toy_kd, snd ([7 :: byte], [9])) = (s1, Inr toy_keys)" by blast
  note X = import_id_clash_leaves_wallet [OF d(1-3) toy_side(3) this d(4), of "\<lambda>_. toy_rnd"]
  obtain p i where f: "wallet_path toy_libs toy_pc (world s1) ?c = Inr p" "fs_paths (world s1) p = Some i"
    using conjunct2 [OF X] by (elim exE conjE)
  have "op_id ` ran (wallets s) = {''ab''}" by (auto simp: ran_def s_def)
  then show ?thesis by (intro exI conjI) (assumption, rule conjunct1 [OF X], rule f(1), rule f(2))
qed

text \<open>
  A wrong master key. The second half of opening then fails with WalletAccessFailed, opens nothing and
  takes no id, and the pending opening is used up: a second attempt with the same handle, even with
  the right key, is InvalidState.
\<close>
theorem wrong_master_key:
  assumes "pending_for_open s h = Some (wid, storage, md, rekey_data)"
    and "decrypt_merged (lb_crypto L) (get_keys md) mk = Inl (Error k)"
  shows "open_wallet_continue L nonce s h (mk, rk) =
      (s\<lparr>pending_for_open := (pending_for_open s)(h := None)\<rparr>, Inl (Error WalletAccessFailed)) \<and>
    snd (open_wallet_continue L nonce (fst (open_wallet_continue L nonce s h (mk, rk))) h key) = Inl (Error InvalidState)"
  using assms by (simp add: open_wallet_continue_def restore_keys_def deserialize_encrypted_def Let_def)

text \<open>Instance of the above: stored keys too short to be decrypted.\<close>
theorem wrong_master_key_witness:
  "\<exists>s. pending_for_open s 2 = Some (''w'', conn toy_libs (ref_engine (=)) 0, MetadataRaw \<lparr> raw_keys = replicate 12 0 \<rparr>, None) \<and>
    snd (open_wallet_continue toy_libs toy_nonce s 2 ([9], None)) = Inl (Error WalletAccessFailed)"
proof -
  let ?s = "toy_service\<lparr>pending_for_open := [2 \<mapsto> (''w'', conn toy_libs (ref_engine (=)) 0, MetadataRaw \<lparr> raw_keys = replicate 12 0 \<rparr>, None)]\<rparr>"
  have "pending_for_open ?s 2 = Some (''w'', conn toy_libs (ref_engine (=)) 0, MetadataRaw \<lparr> raw_keys = replicate 12 0 \<rparr>, None)"
    "decrypt_merged (lb_crypto toy_libs) (get_keys (MetadataRaw \<lparr> raw_keys = replicate 12 0 \<rparr>)) [9] = Inl (Error InvalidStructure)"
    by (simp_all add: decrypt_merged_def chacha_decrypt_def toy_libs_def toy_crypto_def NONCEBYTES_def TAGBYTES_def)
  with wrong_master_key [OF this, of toy_nonce None] show ?thesis by (metis snd_conv)
qed

text \<open>
  Deleting a wallet removes its directory with everything below. A wallet whose id has another's as a
  leading path component lives there: deleting the one takes the other along, open or not, and only
  the id of the first is checked.
\<close>
theorem delete_takes_nested_wallet:
  assumes s: "default_service L pc E s" "uses_default a" "cfg_storage_config a = None" "cfg_storage_config b = None"
    and ids: "cfg_id b = cfg_id a @ ''/'' @ sub" "cfg_id a \<noteq> []" "hd (cfg_id a) \<noteq> CHR ''/''" "last (cfg_id a) \<noteq> CHR ''/''" "sub \<noteq> []"
    and home: "fs_home (world s) \<noteq> []" and k: "restore_keys L md mk = Inr keys"
    and files: "wallet_path L pc (world s) a = Inr p" "fs_paths (world s) p = Some i"
      "wallet_path L pc (world s) b = Inr q" "fs_paths (world s) q = Some j"
  shows "\<exists>s'. delete_wallet_continue L s a credentials md mk = (s', Inr ()) \<and> fs_paths (world s') p = None \<and>
    fs_paths (world s') q = None \<and> wallets s' = wallets s"
proof -
  define h where "h = (if last (fs_home (world s)) = CHR ''/'' then fs_home (world s) else fs_home (world s) @ ''/'')"
  have hd: "hd (cfg_id b) \<noteq> CHR ''/''" using ids(1-3) by simp
  have p: "p = h @ cfg_id a @ ''/sqlite.db''"
    using files(1) s(3) ids(2-4) home by (auto simp: wallet_path_def config_of_def db_path_def db_dir_def path_push_def h_def)
  have q: "\<exists>z. q = h @ cfg_id a @ ''/'' @ z"
  proof -
    have "db_dir (world s) (cfg_id b) None = h @ cfg_id b" using hd home by (simp add: db_dir_def path_push_def h_def)
    then have "q = path_push (h @ cfg_id b) ''sqlite.db''" using files(3) s(4) by (simp add: wallet_path_def config_of_def db_path_def)
    then show ?thesis by (simp add: ids(1) path_push_def)
  qed
  have pd: "parent_dir p = h @ cfg_id a @ ''/''" unfolding p by (simp add: parent_dir_def)
  then have "below (parent_dir p) q" "below (parent_dir p) p" "parent_dir p \<noteq> []" using q p by (auto simp: below_def)
  then show ?thesis using delete_file [OF s(1,2) files(1,2) _ k, of credentials] by auto
qed

text \<open>Instance of the above: the wallets \<open>a\<close> and \<open>a/b\<close>.\<close>
theorem delete_takes_nested_wallet_witness:
  "\<exists>md s'. delete_wallet_continue toy_libs
      (toy_two\<lparr>world := toy_fs\<lparr>fs_paths := [''/h/a/sqlite.db'' \<mapsto> 0, ''/h/a/b/sqlite.db'' \<mapsto> 1]\<rparr>\<rparr>) (toy_config ''a'') toy_cred md [9]
      = (s', Inr ()) \<and> fs_paths (world s') ''/h/a/b/sqlite.db'' = None \<and> wallets s' = wallets toy_two"
proof -
  let ?fs = "toy_fs\<lparr>fs_paths := [''/h/a/sqlite.db'' \<mapsto> 0, ''/h/a/b/sqlite.db'' \<mapsto> 1]\<rparr>"
  let ?s = "toy_two\<lparr>world := ?fs\<rparr>"
  obtain md where md: "restore_keys toy_libs md [9] = Inr toy_keys"
    using prepared_metadata [OF toy_libs_ok toy_side(3)] by blast
  have d: "default_service toy_libs toy_pc (ref_engine (=)) ?s"
    using toy_side(1) by (simp add: default_service_def toy_two_def)
  have paths: "wallet_path toy_libs toy_pc (world ?s) (toy_config ''a'') = Inr ''/h/a/sqlite.db''"
    "wallet_path toy_libs toy_pc (world ?s) (toy_config ''a/b'') = Inr ''/h/a/b/sqlite.db''"
    by (simp_all add: wallet_path_def toy_config_def toy_fs_def config_of_def db_path_def db_dir_def path_push_def)
  have "fs_paths (world ?s) ''/h/a/sqlite.db'' = Some 0" "fs_paths (world ?s) ''/h/a/b/sqlite.db'' = Some 1" by simp_all
  from delete_takes_nested_wallet [OF d toy_side(2) _ _ _ _ _ _ _ _ md paths(1) this(1) paths(2) this(2), of "''b''" toy_cred]
  show ?thesis by (auto simp: toy_config_def toy_fs_def)
qed

end
