(* ===== verification/Pool_Ledger.thy ===== *)
theory Pool_Ledger
  imports Merkle_Proof Merkle_Ops Rust_Std Wql
begin

text \<open>
  The transactions of a pool on disk (\<^verbatim>\<open>libindy/src/services/pool/merkle_tree_factory.rs\<close>): the
  genesis file the pool was created with and the cache \<^verbatim>\<open>stored.btxn\<close> of all transactions known so
  far, the Merkle tree built from either, and adding transactions to the cache. The directory of a pool is
  a record: the contents of the two files if they exist, the operations the system refuses, and the
  number of bytes that can still be written, so that a full disk cuts a write short. Reading a file that
  was opened does not fail. JSON and MessagePack are parameters.
\<close>

section \<open>Parameters\<close>

text \<open>
  \<open>pb_json\<close> is \<^verbatim>\<open>serde_json::from_str\<close> and \<open>pb_to_json\<close> \<^verbatim>\<open>Value::to_string\<close>; \<open>pb_rmp\<close> is
  \<^verbatim>\<open>rmp_serde::to_vec_named\<close> of a JSON value; \<open>pb_overflow_checks\<close> is the build profile.
\<close>

record plibs =
  pb_digest :: digest
  pb_json :: "string \<Rightarrow> Value option"
  pb_to_json :: "Value \<Rightarrow> string"
  pb_rmp :: "Value \<Rightarrow> bytes option"
  pb_from_base58 :: "string \<Rightarrow> bytes option"
  pb_to_base58 :: "bytes \<Rightarrow> string"
  pb_overflow_checks :: bool

section \<open>The directory of a pool\<close>

datatype PoolOp = OpenStored | OpenGenesis | RemoveStored | AppendStored | CreateStored

record PoolDir =
  genesis_file :: "bytes option"
  stored_file :: "bytes option"
  refused :: "PoolOp set"
  free_space :: nat

definition write_stored :: "bytes \<Rightarrow> PoolDir \<Rightarrow> PoolDir \<times> unit IndyResult" where
  "write_stored bs d =
    (let k = min (length bs) (free_space d) in
     (d\<lparr> stored_file := map_option (\<lambda>old. old @ take k bs) (stored_file d), free_space := free_space d - k \<rparr>,
      if k = length bs then Inr () else Inl (Error IOError)))"

section \<open>Reading\<close>

definition parse_txn_from_json :: "plibs \<Rightarrow> string \<Rightarrow> bytes IndyResult" where
  "parse_txn_from_json L txn =
    (let txn = trim txn in
     if txn = [] then Inr []
     else bindr (ok_or (pb_json L txn) (Error InvalidStructure)) (\<lambda>v.
       ok_or (pb_rmp L v) (Error InvalidState)))"

fun genesis_loop :: "plibs \<Rightarrow> bytes list \<Rightarrow> MerkleTree \<Rightarrow> MerkleTree IndyResult" where
  "genesis_loop L [] mt = Inr mt"
| "genesis_loop L (l # ls) mt =
    bindr (decode_line l) (\<lambda>line.
      if trim line = [] then genesis_loop L ls mt
      else bindr (parse_txn_from_json L line) (\<lambda>txn.
           bindr (mt_append (pb_digest L) mt txn) (genesis_loop L ls)))"

definition from_genesis :: "plibs \<Rightarrow> PoolDir \<Rightarrow> bytes \<Rightarrow> MerkleTree IndyResult" where
  "from_genesis L d contents =
    bindr (from_vec (pb_digest L) []) (\<lambda>mt.
      if OpenGenesis \<in> refused d then Inl (Error IOError) else genesis_loop L (split_lines contents) mt)"

text \<open>A length of \<^verbatim>\<open>isize::MAX\<close> or more cannot be allocated; fewer than eight bytes end the loop.\<close>

function cache_loop :: "plibs \<Rightarrow> bytes \<Rightarrow> MerkleTree \<Rightarrow> MerkleTree IndyResult" where
  "cache_loop L bs mt =
    (if length bs < 8 then Inr mt
     else let len = le_nat (take 8 bs); rest = drop 8 bs in
       if 2 ^ 63 \<le> len then Inl Panic
       else if length rest < len then Inl (Error InvalidState)
       else bindr (mt_append (pb_digest L) mt (take len rest)) (cache_loop L (drop len rest)))"
  by pat_completeness auto
termination
  by (relation "measure (\<lambda>(L, bs, mt). length bs)") auto

declare cache_loop.simps [simp del]

definition from_cache :: "plibs \<Rightarrow> PoolDir \<Rightarrow> bytes \<Rightarrow> MerkleTree IndyResult" where
  "from_cache L d contents =
    bindr (from_vec (pb_digest L) []) (\<lambda>mt.
      if OpenStored \<in> refused d then Inl (Error IOError) else cache_loop L contents mt)"

definition create :: "plibs \<Rightarrow> PoolDir \<Rightarrow> MerkleTree IndyResult" where
  "create L d =
    (case stored_file d of
       None \<Rightarrow>
         (case genesis_file d of
            None \<Rightarrow> Inl (Error PoolNotCreated)
          | Some contents \<Rightarrow> from_genesis L d contents)
     | Some contents \<Rightarrow> from_cache L d contents)"

definition drop_cache :: "PoolDir \<Rightarrow> PoolDir \<times> unit IndyResult" where
  "drop_cache d =
    (case stored_file d of
       None \<Rightarrow> (d, Inl (Error InvalidState))
     | Some contents \<Rightarrow>
         if RemoveStored \<in> refused d then (d, Inl (Error IOError))
         else (d\<lparr>stored_file := None, free_space := free_space d + length contents\<rparr>, Inr ()))"

section \<open>Adding transactions\<close>

fun dump_vec_to_file :: "bytes list \<Rightarrow> PoolDir \<Rightarrow> PoolDir \<times> unit IndyResult" where
  "dump_vec_to_file [] d = (d, Inr ())"
| "dump_vec_to_file (line # v) d =
    (case write_stored (u64_le (length line)) d of
       (d1, Inl e) \<Rightarrow> (d1, Inl e)
     | (d1, Inr _) \<Rightarrow>
         (case write_stored line d1 of
            (d2, Inl e) \<Rightarrow> (d2, Inl e)
          | (d2, Inr _) \<Rightarrow> dump_vec_to_file v d2))"

definition genesis_to_binary :: "plibs \<Rightarrow> PoolDir \<Rightarrow> bytes \<Rightarrow> bytes list IndyResult" where
  "genesis_to_binary L d contents =
    (if OpenGenesis \<in> refused d then Inl (Error IOError)
     else traverse (\<lambda>l. bindr (decode_line l) (parse_txn_from_json L)) (split_lines contents))"

definition dump_genesis_to_stored :: "plibs \<Rightarrow> PoolDir \<Rightarrow> PoolDir \<times> unit IndyResult" where
  "dump_genesis_to_stored L d =
    (case genesis_file d of
       None \<Rightarrow> (d, Inl (Error PoolNotCreated))
     | Some contents \<Rightarrow>
         if CreateStored \<in> refused d then (d, Inl (Error IOError))
         else let d1 = d\<lparr>stored_file := Some []\<rparr> in
           (case genesis_to_binary L d1 contents of
              Inl e \<Rightarrow> (d1, Inl e)
            | Inr genesis_vec \<Rightarrow> dump_vec_to_file genesis_vec d1))"

definition dump_new_txns :: "plibs \<Rightarrow> PoolDir \<Rightarrow> bytes list \<Rightarrow> PoolDir \<times> unit IndyResult" where
  "dump_new_txns L d txns =
    (case (if stored_file d = None then dump_genesis_to_stored L d else (d, Inr ())) of
       (d1, Inl e) \<Rightarrow> (d1, Inl e)
     | (d1, Inr _) \<Rightarrow>
         if AppendStored \<in> refused d1 then (d1, Inl (Error IOError)) else dump_vec_to_file txns d1)"

section \<open>What the directory holds\<close>

text \<open>The cache of a list of transactions.\<close>

definition frames :: "bytes list \<Rightarrow> bytes" where
  "frames txns = concat (map (\<lambda>t. u64_le (length t) @ t) txns)"

definition small_txns :: "bytes list \<Rightarrow> bool" where
  "small_txns txns \<longleftrightarrow> (\<forall>t\<in>set txns. length t < 2 ^ 63)"

definition is_blank :: "bytes \<Rightarrow> bool" where
  "is_blank l \<longleftrightarrow> (\<forall>line. decode_line l = Inr line \<longrightarrow> trim line = [])"

text \<open>The transactions of a directory: those of the cache, else those of the lines of the genesis file.\<close>

definition holds_txns :: "plibs \<Rightarrow> PoolDir \<Rightarrow> bytes list \<Rightarrow> bool" where
  "holds_txns L d txns \<longleftrightarrow> small_txns txns \<and> refused d = {} \<and>
    (case stored_file d of
       Some contents \<Rightarrow> contents = frames txns
     | None \<Rightarrow> \<exists>g. genesis_file d = Some g \<and> genesis_to_binary L d g = Inr txns \<and> (\<forall>l\<in>set (split_lines g). \<not> is_blank l))"

lemma frames_simps [simp]:
  "frames [] = []"
  "frames (t # ts) = u64_le (length t) @ t @ frames ts"
  "frames (ts @ us) = frames ts @ frames us"
  by (simp_all add: frames_def)

lemma small_txns_simps [simp]:
  "small_txns []"
  "small_txns (t # ts) \<longleftrightarrow> length t < 2 ^ 63 \<and> small_txns ts"
  "small_txns (ts @ us) \<longleftrightarrow> small_txns ts \<and> small_txns us"
  by (auto simp: small_txns_def)

lemma cache_loop_frames:
  assumes dg: "pb_digest L = total_digest h"
  shows "small_txns txns \<Longrightarrow>
    cache_loop L (frames txns @ rest) (rfc_merkle h us) = cache_loop L rest (rfc_merkle h (us @ txns))"
proof (induction txns arbitrary: us)
  case (Cons t ts)
  have "le_nat (u64_le (length t)) = length t" using Cons.prems by (simp add: le_nat_u64)
  then have "cache_loop L (frames (t # ts) @ rest) (rfc_merkle h us) = cache_loop L (frames ts @ rest) (rfc_merkle h (us @ [t]))"
    using Cons.prems by (subst cache_loop.simps) (simp add: dg mt_append_rfc)
  then show ?case using Cons by simp
qed simp

lemma cache_loop_short [simp]: "length bs < 8 \<Longrightarrow> cache_loop L bs mt = Inr mt"
  by (subst cache_loop.simps) simp

lemma rfc_merkle_Nil: "from_vec (total_digest h) [] = Inr (rfc_merkle h [])"
  by (rule from_vec_rfc_merkle)

lemma genesis_loop_append:
  assumes dg: "pb_digest L = total_digest h"
  shows "traverse (\<lambda>l. bindr (decode_line l) (parse_txn_from_json L)) ls = Inr ts \<Longrightarrow>
    genesis_loop L ls (rfc_merkle h us) =
      Inr (rfc_merkle h (us @ map snd (filter (\<lambda>(l, t). \<not> is_blank l) (zip ls ts))))"
proof (induction ls arbitrary: ts us)
  case (Cons l ls)
  then obtain line t ts' where l: "decode_line l = Inr line" "parse_txn_from_json L line = Inr t"
    "traverse (\<lambda>l. bindr (decode_line l) (parse_txn_from_json L)) ls = Inr ts'" "ts = t # ts'"
    by (auto simp: bindr_Inr_iff)
  show ?case
    using Cons.IH [OF l(3)] l by (simp add: is_blank_def mt_append_rfc dg)
qed simp

lemma is_blank_dump:
  assumes "traverse (\<lambda>l. bindr (decode_line l) (parse_txn_from_json L)) ls = Inr ts"
  shows "length (filter (\<lambda>(l, t). \<not> is_blank l) (zip ls ts)) + length (filter is_blank ls) = length ts"
proof -
  have "length ts = length ls" using assms by (rule traverse_Inr_length)
  then show ?thesis by (induction ts ls rule: list_induct2) auto
qed

lemma no_blank_zip:
  "length ts = length ls \<Longrightarrow> \<forall>l\<in>set ls. \<not> is_blank l \<Longrightarrow> map snd (filter (\<lambda>(l, t). \<not> is_blank l) (zip ls ts)) = ts"
  by (induction ts ls rule: list_induct2) auto

lemma create_genesis:
  assumes "pb_digest L = total_digest h" "refused d = {}" "stored_file d = None" "genesis_file d = Some g"
    and "genesis_to_binary L d g = Inr ts"
  shows "create L d = Inr (rfc_merkle h (map snd (filter (\<lambda>(l, t). \<not> is_blank l) (zip (split_lines g) ts))))"
  using assms genesis_loop_append [OF assms(1), of "split_lines g" ts "[]"]
  by (simp add: create_def from_genesis_def rfc_merkle_Nil genesis_to_binary_def)

lemma create_stored:
  assumes "pb_digest L = total_digest h" "refused d = {}" "stored_file d = Some (frames txns @ rest)" "small_txns txns"
  shows "create L d = cache_loop L rest (rfc_merkle h txns)"
  using assms cache_loop_frames [OF assms(1,4), of rest "[]"] by (simp add: create_def from_cache_def rfc_merkle_Nil)

lemma create_holds:
  assumes dg: "pb_digest L = total_digest h" and "holds_txns L d txns"
  shows "create L d = from_vec (total_digest h) txns"
proof (cases "stored_file d")
  case None
  then obtain g where g: "genesis_file d = Some g" "genesis_to_binary L d g = Inr txns" "\<forall>l\<in>set (split_lines g). \<not> is_blank l"
      "refused d = {}" using assms(2) by (auto simp: holds_txns_def)
  then have "length txns = length (split_lines g)"
    using traverse_Inr_length by (fastforce simp: genesis_to_binary_def)
  then show ?thesis
    using create_genesis [OF dg g(4) None g(1,2)] no_blank_zip [of txns, OF _ g(3)] by (simp add: from_vec_rfc_merkle)
next
  case (Some contents)
  then show ?thesis
    using create_stored [OF dg, of d txns "[]"] assms(2) by (simp add: holds_txns_def from_vec_rfc_merkle)
qed

section \<open>Writing\<close>

lemma write_stored_cases:
  assumes "stored_file d = Some old" "write_stored bs d = (d', r)"
  shows "\<exists>k. stored_file d' = Some (old @ take k bs) \<and> refused d' = refused d \<and> genesis_file d' = genesis_file d \<and>
    (r = Inr () \<and> length bs \<le> k \<or> r = Inl (Error IOError) \<and> k < length bs)"
  using assms by (intro exI [of _ "min (length bs) (free_space d)"]) (auto simp: write_stored_def Let_def min_def split: if_splits)

lemma dump_vec_cases:
  "stored_file d = Some old \<Longrightarrow> dump_vec_to_file txns d = (d', r) \<Longrightarrow>
    \<exists>k. stored_file d' = Some (old @ take k (frames txns)) \<and> refused d' = refused d \<and> genesis_file d' = genesis_file d \<and>
      (r = Inr () \<and> length (frames txns) \<le> k \<or> r = Inl (Error IOError) \<and> k < length (frames txns))"
proof (induction txns arbitrary: d old)
  case (Cons t ts)
  obtain d1 r1 where w1: "write_stored (u64_le (length t)) d = (d1, r1)" by force
  from write_stored_cases [OF Cons.prems(1) w1] obtain k1 where k1:
    "stored_file d1 = Some (old @ take k1 (u64_le (length t)))" "refused d1 = refused d" "genesis_file d1 = genesis_file d"
    "r1 = Inr () \<and> 8 \<le> k1 \<or> r1 = Inl (Error IOError) \<and> k1 < 8" by auto
  show ?case
  proof (cases "r1 = Inr ()")
    case False
    then show ?thesis using k1 w1 Cons.prems(2) by (intro exI [of _ k1]) auto
  next
    case True
    then have s1: "stored_file d1 = Some (old @ u64_le (length t))" using k1 by auto
    obtain d2 r2 where w2: "write_stored t d1 = (d2, r2)" by force
    from write_stored_cases [OF s1 w2] obtain k2 where k2:
      "stored_file d2 = Some ((old @ u64_le (length t)) @ take k2 t)" "refused d2 = refused d1" "genesis_file d2 = genesis_file d1"
      "r2 = Inr () \<and> length t \<le> k2 \<or> r2 = Inl (Error IOError) \<and> k2 < length t" by blast
    show ?thesis
    proof (cases "r2 = Inr ()")
      case False
      then show ?thesis using k1 k2 w1 w2 True Cons.prems(2) by (intro exI [of _ "8 + k2"]) auto
    next
      case r2: True
      then have s2: "stored_file d2 = Some ((old @ u64_le (length t)) @ t)" using k2 by auto
      have "dump_vec_to_file ts d2 = (d', r)" using Cons.prems(2) w1 w2 True r2 by simp
      from Cons.IH [OF s2 this] obtain k where k:
        "stored_file d' = Some (((old @ u64_le (length t)) @ t) @ take k (frames ts))" "refused d' = refused d2" "genesis_file d' = genesis_file d2"
        "r = Inr () \<and> length (frames ts) \<le> k \<or> r = Inl (Error IOError) \<and> k < length (frames ts)" by blast
      then show ?thesis using k1 k2 by (intro exI [of _ "8 + length t + k"]) auto
    qed
  qed
qed auto

text \<open>What the cache holds after its creation from the genesis file, blank lines included.\<close>

definition cached_txns :: "plibs \<Rightarrow> PoolDir \<Rightarrow> bytes list \<Rightarrow> bool" where
  "cached_txns L d txns \<longleftrightarrow>
    (case stored_file d of
       Some contents \<Rightarrow> contents = frames txns
     | None \<Rightarrow> \<exists>g. genesis_file d = Some g \<and> genesis_to_binary L d g = Inr txns)"

lemma dump_new_cases:
  assumes "cached_txns L d ts" "refused d = {}" "dump_new_txns L d txns = (d', r)"
  shows "\<exists>k. stored_file d' = Some (take k (frames (ts @ txns))) \<and> refused d' = {} \<and> genesis_file d' = genesis_file d \<and>
    (r = Inr () \<and> length (frames (ts @ txns)) \<le> k \<or> r = Inl (Error IOError) \<and> k < length (frames (ts @ txns)))"
proof -
  have *: "\<exists>k. stored_file d' = Some (take k (frames (ts @ txns))) \<and> refused d' = {} \<and> genesis_file d' = genesis_file d1 \<and>
      (r = Inr () \<and> length (frames (ts @ txns)) \<le> k \<or> r = Inl (Error IOError) \<and> k < length (frames (ts @ txns)))"
    if d1: "stored_file d1 = Some (frames ts)" "refused d1 = {}" "dump_vec_to_file txns d1 = (d', r)" for d1
  proof -
    from dump_vec_cases [OF d1(1,3)] obtain k where "stored_file d' = Some (frames ts @ take k (frames txns))"
      "refused d' = refused d1" "genesis_file d' = genesis_file d1"
      "r = Inr () \<and> length (frames txns) \<le> k \<or> r = Inl (Error IOError) \<and> k < length (frames txns)" by blast
    then show ?thesis using d1(2) by (intro exI [of _ "length (frames ts) + k"]) auto
  qed
  show ?thesis
  proof (cases "stored_file d")
    case (Some contents)
    then show ?thesis using * [of d] assms by (simp add: cached_txns_def dump_new_txns_def)
  next
    case None
    then obtain g where g: "genesis_file d = Some g" "genesis_to_binary L d g = Inr ts"
      using assms(1) by (auto simp: cached_txns_def)
    let ?d = "d\<lparr>stored_file := Some []\<rparr>"
    have gb: "genesis_to_binary L ?d g = Inr ts" using g(2) by (simp add: genesis_to_binary_def)
    obtain d1 r1 where v: "dump_vec_to_file ts ?d = (d1, r1)" by force
    then have dn: "dump_new_txns L d txns = (case (d1, r1) of (d1, Inl e) \<Rightarrow> (d1, Inl e) | (d1, Inr _) \<Rightarrow>
        if AppendStored \<in> refused d1 then (d1, Inl (Error IOError)) else dump_vec_to_file txns d1)"
      using None g(1) gb assms(2) by (simp add: dump_new_txns_def dump_genesis_to_stored_def)
    from dump_vec_cases [OF _ v, of "[]"] obtain k where k: "stored_file d1 = Some (take k (frames ts))"
      "refused d1 = {}" "genesis_file d1 = genesis_file d"
      "r1 = Inr () \<and> length (frames ts) \<le> k \<or> r1 = Inl (Error IOError) \<and> k < length (frames ts)"
      using assms(2) by auto
    show ?thesis
    proof (cases "r1 = Inr ()")
      case True
      then have "stored_file d1 = Some (frames ts)" "dump_vec_to_file txns d1 = (d', r)"
        using k dn assms(3) by auto
      then show ?thesis using * [of d1] k by simp
    next
      case False
      then show ?thesis using k dn assms(3) by (intro exI [of _ k]) auto
    qed
  qed
qed

text \<open>Reading a cache that was cut off.\<close>

lemma cache_loop_cut:
  assumes dg: "pb_digest L = total_digest h"
  shows "small_txns txns \<Longrightarrow> cache_loop L (take k (frames txns)) (rfc_merkle h us) = Inl (Error InvalidState) \<or>
    (\<exists>n. cache_loop L (take k (frames txns)) (rfc_merkle h us) = Inr (rfc_merkle h (us @ take n txns)))"
proof (induction txns arbitrary: us k)
  case Nil
  then show ?case by simp
next
  case (Cons t ts)
  consider "k < 8" | "8 \<le> k" "k < 8 + length t" | "8 + length t \<le> k" by linarith
  then show ?case
  proof cases
    case 1
    then have "cache_loop L (take k (frames (t # ts))) (rfc_merkle h us) = Inr (rfc_merkle h (us @ take 0 (t # ts)))" by simp
    then show ?thesis by blast
  next
    case 2
    have "le_nat (u64_le (length t)) = length t" using Cons.prems by (simp add: le_nat_u64)
    then have "cache_loop L (take k (frames (t # ts))) (rfc_merkle h us) = Inl (Error InvalidState)"
      using 2 Cons.prems by (subst cache_loop.simps) (simp add: Let_def, linarith)
    then show ?thesis ..
  next
    case 3
    then have split: "take k (frames (t # ts)) = frames [t] @ take (k - (8 + length t)) (frames ts)"
      by (simp add: diff_diff_left)
    have "cache_loop L (take k (frames (t # ts))) (rfc_merkle h us) =
        cache_loop L (take (k - (8 + length t)) (frames ts)) (rfc_merkle h (us @ [t]))"
      unfolding split using Cons.prems by (intro cache_loop_frames [OF dg]) simp
    moreover have "(us @ [t]) @ take n ts = us @ take (Suc n) (t # ts)" for n by simp
    ultimately show ?thesis using Cons.IH [of "k - (8 + length t)" "us @ [t]"] Cons.prems by (metis small_txns_simps(2))
  qed
qed

lemma pool_holds_after:
  assumes h: "holds_txns L d vs" and "small_txns txns" and "dump_new_txns L d txns = (d', Inr ())"
  shows "holds_txns L d' (vs @ txns)"
proof -
  have "cached_txns L d vs" "refused d = {}" using h by (auto simp: holds_txns_def cached_txns_def split: option.splits)
  from dump_new_cases [OF this assms(3)] have "stored_file d' = Some (frames (vs @ txns))" "refused d' = {}" by auto
  then show ?thesis using h assms(2) by (simp add: holds_txns_def)
qed

section \<open>A small instance\<close>

text \<open>
  Parameters for concrete runs: every text is a JSON string, MessagePack writes the bytes of short
  strings, base58 is the identity. \<open>toy_dir\<close> is a pool with two genesis transactions, \<open>blank_dir\<close> one with a blank line between
  them.
\<close>

definition toy_plibs :: plibs where
  "toy_plibs = \<lparr> pb_digest = total_digest sum_digest, pb_json = (\<lambda>s. Some (String s)),
     pb_to_json = (\<lambda>v. case v of String s \<Rightarrow> s | _ \<Rightarrow> []),
     pb_rmp = (\<lambda>v. case v of String s \<Rightarrow> if length s < 256 then Some (as_bytes s) else None | _ \<Rightarrow> None),
     pb_from_base58 = (\<lambda>s. Some (as_bytes s)), pb_to_base58 = of_bytes, pb_overflow_checks = True \<rparr>"

definition toy_dir :: PoolDir where
  "toy_dir = \<lparr> genesis_file = Some [97, 10, 98], stored_file = None, refused = {}, free_space = 100 \<rparr>"

definition blank_dir :: PoolDir where
  "blank_dir = toy_dir\<lparr> genesis_file := Some [97, 10, 32, 10, 98] \<rparr>"

lemma toy_plibs_simps [simp]:
  "pb_digest toy_plibs = total_digest sum_digest"
  "pb_from_base58 toy_plibs s = Some (as_bytes s)"
  "pb_to_base58 toy_plibs = of_bytes"
  "pb_rmp toy_plibs (String s) = (if length s < 256 then Some (as_bytes s) else None)"
  "pb_json toy_plibs s = Some (String s)"
  "pb_overflow_checks toy_plibs"
  by (simp_all add: toy_plibs_def)

lemmas toy_digest = toy_plibs_simps(1)

lemma toy_rmp_small: "pb_rmp toy_plibs v = Some t \<Longrightarrow> length t < 2 ^ 63"
  by (auto simp: toy_plibs_def split: Value.splits if_splits)

lemma toy_genesis:
  "genesis_to_binary toy_plibs toy_dir [97, 10, 98] = Inr [[97], [98]]"
  "genesis_to_binary toy_plibs blank_dir [97, 10, 32, 10, 98] = Inr [[97], [], [98]]"
  by code_simp+

lemma is_blank_code: "is_blank l \<longleftrightarrow> (case decode_line l of Inl _ \<Rightarrow> True | Inr line \<Rightarrow> trim line = [])"
  by (simp add: is_blank_def split: sum.split)

lemma toy_blank: "is_blank [97] = False" "is_blank [32] = True" "is_blank [98] = False"
  unfolding is_blank_code by code_simp+

lemma toy_dump:
  "dump_new_txns toy_plibs toy_dir [[99]] =
    (toy_dir\<lparr> stored_file := Some (frames [[97], [98], [99]]), free_space := 73 \<rparr>, Inr ())"
  "dump_new_txns toy_plibs (toy_dir\<lparr>free_space := 20\<rparr>) [[99]] =
    (toy_dir\<lparr> stored_file := Some (take 20 (frames [[97], [98], [99]])), free_space := 0 \<rparr>, Inl (Error IOError))"
  "dump_new_txns toy_plibs blank_dir [[99]] =
    (blank_dir\<lparr> stored_file := Some (frames [[97], [], [98], [99]]), free_space := 65 \<rparr>, Inr ())"
  by code_simp+

lemma toy_holds: "holds_txns toy_plibs (toy_dir\<lparr>free_space := n\<rparr>) [[97], [98]]"
proof -
  have "genesis_to_binary toy_plibs (toy_dir\<lparr>free_space := n\<rparr>) [97, 10, 98] = Inr [[97], [98]]"
    using toy_genesis(1) by (simp add: genesis_to_binary_def toy_dir_def)
  moreover have "split_lines [97, 10, 98] = [[97], [98]]" by simp
  ultimately show ?thesis by (simp add: holds_txns_def toy_dir_def toy_blank)
qed

section \<open>Properties\<close>

text \<open>
  C10: the cache is a round trip of the pool's transactions. From a directory that holds \<open>vs\<close>, in its cache
  or in a genesis file without blank lines, \<^verbatim>\<open>create\<close> builds the tree of \<open>vs\<close>; after
  \<^verbatim>\<open>dump_new_txns\<close> succeeded the directory holds \<open>vs @ txns\<close>, and \<^verbatim>\<open>create\<close> builds their tree.
\<close>
theorem pool_cache_roundtrip:
  assumes dg: "pb_digest L = total_digest h" and h: "holds_txns L d vs" and "small_txns txns"
    and "dump_new_txns L d txns = (d', Inr ())"
  shows "create L d = from_vec (pb_digest L) vs \<and> create L d' = from_vec (pb_digest L) (vs @ txns) \<and> holds_txns L d' (vs @ txns)"
  using create_holds [OF dg] h pool_holds_after [OF h assms(3,4)] dg by simp

text \<open>Witness for C10: two genesis transactions and a new one.\<close>
theorem pool_cache_roundtrip_witness:
  "\<exists>d'. dump_new_txns toy_plibs toy_dir [[99]] = (d', Inr ()) \<and>
    create toy_plibs d' = from_vec (total_digest sum_digest) [[97], [98], [99]]"
proof -
  have "holds_txns toy_plibs toy_dir [[97], [98]]" using toy_holds [of 100] by (simp add: toy_dir_def)
  from pool_cache_roundtrip [OF toy_digest this _ toy_dump(1)] show ?thesis using toy_dump(1) by simp
qed

text \<open>
  A full disk. When \<^verbatim>\<open>dump_new_txns\<close> fails half-way, the cache is cut off, and \<^verbatim>\<open>create\<close> either
  reports a malformed cache or builds the tree of the transactions up to some point: never of others.
\<close>
theorem cut_cache_is_prefix:
  assumes dg: "pb_digest L = total_digest h" and h: "holds_txns L d vs" and "small_txns txns"
    and "dump_new_txns L d txns = (d', Inl e)"
  shows "e = Error IOError \<and> (create L d' = Inl (Error InvalidState) \<or>
    (\<exists>n. create L d' = from_vec (pb_digest L) (take n (vs @ txns))))"
proof -
  have "cached_txns L d vs" "refused d = {}" using h by (auto simp: holds_txns_def cached_txns_def split: option.splits)
  from dump_new_cases [OF this assms(4)] obtain k where k: "stored_file d' = Some (take k (frames (vs @ txns)))" "refused d' = {}"
    "e = Error IOError" by auto
  have "create L d' = cache_loop L (take k (frames (vs @ txns))) (rfc_merkle h [])"
    using create_stored [OF dg k(2), of "[]"] k(1) by simp
  moreover have "small_txns (vs @ txns)" using h assms(3) by (simp add: holds_txns_def)
  ultimately show ?thesis
    using cache_loop_cut [OF dg, of "vs @ txns" k "[]"] k(3) dg by (auto simp: from_vec_rfc_merkle)
qed

text \<open>Instance of the above: there is room for two transactions and two bytes of the third one's length.\<close>
theorem cut_cache_is_prefix_witness:
  "\<exists>d'. dump_new_txns toy_plibs (toy_dir\<lparr>free_space := 20\<rparr>) [[99]] = (d', Inl (Error IOError)) \<and>
    (create toy_plibs d' = Inl (Error InvalidState) \<or>
     (\<exists>n. create toy_plibs d' = from_vec (total_digest sum_digest) (take n [[97], [98], [99]])))"
  using cut_cache_is_prefix [OF toy_digest toy_holds _ toy_dump(2)] toy_dump(2) by simp

text \<open>
  Blank lines of the genesis file. \<^verbatim>\<open>_from_genesis\<close> skips them, \<^verbatim>\<open>_genesis_to_binary\<close> writes an
  empty transaction for each, so once the cache exists the tree has one leaf too many for every blank line.
\<close>
theorem blank_genesis_lines:
  assumes dg: "pb_digest L = total_digest h" and d: "refused d = {}" "stored_file d = None" "genesis_file d = Some g"
      "genesis_to_binary L d g = Inr ts" and small: "small_txns ts" "small_txns txns"
    and "dump_new_txns L d txns = (d', Inr ())"
  shows "\<exists>mt mt'. create L d = Inr mt \<and> create L d' = Inr mt' \<and>
    mt_count mt' = mt_count mt + length (filter is_blank (split_lines g)) + length txns"
proof -
  have "cached_txns L d ts" using d by (simp add: cached_txns_def)
  from dump_new_cases [OF this d(1) assms(8)] have s: "stored_file d' = Some (frames (ts @ txns) @ [])" "refused d' = {}" by auto
  then have "create L d' = Inr (rfc_merkle h (ts @ txns))"
    using create_stored [OF dg s(2,1)] small by simp
  moreover note create_genesis [OF dg d]
  moreover have "length (filter (\<lambda>(l, t). \<not> is_blank l) (zip (split_lines g) ts)) + length (filter is_blank (split_lines g)) = length ts"
    using is_blank_dump d(1,4) by (simp add: genesis_to_binary_def)
  ultimately show ?thesis by (auto simp: rfc_merkle_def)
qed

text \<open>Instance of the above: two transactions with a blank line between them, and one new transaction: four leaves.\<close>
theorem blank_genesis_lines_witness:
  "\<exists>d' mt mt'. dump_new_txns toy_plibs blank_dir [[99]] = (d', Inr ()) \<and> create toy_plibs blank_dir = Inr mt \<and>
    create toy_plibs d' = Inr mt' \<and> mt_count mt' = mt_count mt + 2"
proof -
  have "refused blank_dir = {}" "stored_file blank_dir = None" "genesis_file blank_dir = Some [97, 10, 32, 10, 98]"
    by (simp_all add: blank_dir_def toy_dir_def)
  from blank_genesis_lines [OF toy_digest this toy_genesis(2) _ _ toy_dump(3)] show ?thesis
    using toy_dump(3) by (auto simp: toy_blank)
qed

end
