(* ===== verification/Catchup.thy ===== *)
theory Catchup
  imports Pool_Ledger Merkle_Consistency
begin

text \<open>
  Catching up with the pool's ledger (\<^verbatim>\<open>libindy/src/services/pool/catchup.rs\<close>, with
  \<^verbatim>\<open>CatchupRep::min_tx\<close> of \<^verbatim>\<open>types.rs\<close> and \<^verbatim>\<open>_process_catchup_reply\<close> of
  \<^verbatim>\<open>request_handler.rs\<close>): the decision on the nodes' statuses, the request for the missing transactions,
  and the check of a reply. A hash map is the list of its entries in the order it iterates, a hash set the
  list of its elements; a 64-bit subtraction that goes below zero panics with overflow checks and wraps
  without.
\<close>

section \<open>Messages\<close>

record CatchupReq =
  cq_ledgerId :: nat
  cq_seqNoStart :: nat
  cq_seqNoEnd :: nat
  cq_catchupTill :: nat

record CatchupRep =
  cp_ledgerId :: nat
  cp_consProof :: "string list"
  cp_txns :: "(string \<times> Value) list"

datatype CatchupProgress =
    ShouldBeStarted bytes nat MerkleTree
  | NotNeeded MerkleTree
  | Restart MerkleTree
  | InProgress

text \<open>What a node reports: root, size, consistency proof; with it the names of the nodes that do.\<close>

type_synonym vote = "string \<times> nat \<times> string list option"
type_synonym votes = "(vote \<times> string list) list"

definition catchup_req_json :: "CatchupReq \<Rightarrow> Value" where
  "catchup_req_json cr =
    Object [(''op'', String ''CATCHUP_REQ''), (''ledgerId'', Number (int (cq_ledgerId cr))),
      (''seqNoStart'', Number (int (cq_seqNoStart cr))), (''seqNoEnd'', Number (int (cq_seqNoEnd cr))),
      (''catchupTill'', Number (int (cq_catchupTill cr)))]"

definition build_catchup_req :: "plibs \<Rightarrow> MerkleTree \<Rightarrow> nat \<Rightarrow> (string \<times> string) option IndyResult" where
  "build_catchup_req L merkle target_mt_size =
    (if target_mt_size \<le> mt_count merkle then Inr None
     else let seq_no_start = mt_count merkle + 1; seq_no_end = target_mt_size;
              cr = \<lparr> cq_ledgerId = 0, cq_seqNoStart = seq_no_start, cq_seqNoEnd = seq_no_end, cq_catchupTill = target_mt_size \<rparr>
          in Inr (Some (decimal seq_no_start @ decimal seq_no_end, pb_to_json L (catchup_req_json cr))))"

section \<open>The decision on the nodes' statuses\<close>

definition decode_proofs :: "plibs \<Rightarrow> string list \<Rightarrow> bytes list IndyResult" where
  "decode_proofs L cons_proofs = traverse (\<lambda>p. ok_or (pb_from_base58 L p) (Error InvalidStructure)) cons_proofs"

definition check_cons_proofs :: "plibs \<Rightarrow> MerkleTree \<Rightarrow> string list \<Rightarrow> bytes \<Rightarrow> nat \<Rightarrow> unit IndyResult" where
  "check_cons_proofs L mt cons_proofs target_mt_root target_mt_size =
    bindr (decode_proofs L cons_proofs) (\<lambda>bytes_proofs.
    bindr (consistency_proof (pb_digest L) mt target_mt_root target_mt_size bytes_proofs) (\<lambda>ok.
      if \<not> ok then Inl (Error InvalidState) else Inr ()))"

definition try_to_catch_up :: "plibs \<Rightarrow> vote \<Rightarrow> MerkleTree \<Rightarrow> CatchupProgress IndyResult" where
  "try_to_catch_up L ledger_status merkle_tree =
    (case ledger_status of (target_mt_root, target_mt_size, hashes) \<Rightarrow>
      if target_mt_size = mt_count merkle_tree then
        if pb_to_base58 L (root_hash merkle_tree) = target_mt_root then Inr (NotNeeded merkle_tree)
        else Inl (Error InvalidState)
      else if target_mt_size > mt_count merkle_tree then
        bindr (ok_or (pb_from_base58 L target_mt_root) (Error InvalidStructure)) (\<lambda>root.
        bindr (case hashes of None \<Rightarrow> Inr () | Some hs \<Rightarrow> check_cons_proofs L merkle_tree hs root target_mt_size) (\<lambda>_.
          Inr (ShouldBeStarted root target_mt_size merkle_tree)))
      else Inl (Error InvalidState))"

definition try_to_restart_catch_up :: "plibs \<Rightarrow> PoolDir \<Rightarrow> failure \<Rightarrow> PoolDir \<times> CatchupProgress IndyResult" where
  "try_to_restart_catch_up L d err =
    (case drop_cache d of
       (d', Inr _) \<Rightarrow> (d', bindr (create L d') (\<lambda>merkle_tree. Inr (Restart merkle_tree)))
     | (d', Inl _) \<Rightarrow> (d', Inl err))"

definition if_consensus_reachable ::
  "plibs \<Rightarrow> PoolDir \<Rightarrow> votes \<Rightarrow> nat \<Rightarrow> nat \<Rightarrow> nat \<Rightarrow> PoolDir \<times> CatchupProgress IndyResult" where
  "if_consensus_reachable L d nodes_votes node_cnt votes_cnt f =
    (let reps_cnt = sum_list (map (length \<circ> snd) nodes_votes) in
     case bindr (usize_sub (pb_overflow_checks L) node_cnt reps_cnt) (\<lambda>rest.
          bindr (usize_sub (pb_overflow_checks L) node_cnt f) (\<lambda>needed.
            Inr ((votes_cnt + rest) mod 2 ^ 64 < needed))) of
       Inl e \<Rightarrow> (d, Inl e)
     | Inr True \<Rightarrow> try_to_restart_catch_up L d (Error PoolTimeout)
     | Inr False \<Rightarrow> (d, Inr InProgress))"

text \<open>\<^verbatim>\<open>Iterator::max_by_key\<close>: the last of the greatest.\<close>

fun max_by_key :: "('a \<Rightarrow> nat) \<Rightarrow> 'a list \<Rightarrow> 'a option" where
  "max_by_key key [] = None"
| "max_by_key key (x # xs) =
    (case max_by_key key xs of None \<Rightarrow> Some x | Some y \<Rightarrow> if key x \<le> key y then Some y else Some x)"

definition check_nodes_responses_on_status ::
  "plibs \<Rightarrow> PoolDir \<Rightarrow> votes \<Rightarrow> MerkleTree \<Rightarrow> nat \<Rightarrow> nat \<Rightarrow> PoolDir \<times> CatchupProgress IndyResult" where
  "check_nodes_responses_on_status L d nodes_votes merkle_tree node_cnt f =
    (let is_timeout = (\<lambda>e. fst (fst e) = ''timeout'');
         votes = filter (\<lambda>e. \<not> is_timeout e) nodes_votes;
         timeout_votes = filter is_timeout nodes_votes
     in case max_by_key (length \<circ> snd) votes of
          Some (vote, ns) \<Rightarrow>
            if length ns = f + 1 then
              (case try_to_catch_up L vote merkle_tree of
                 Inr p \<Rightarrow> (d, Inr p)
               | Inl Panic \<Rightarrow> (d, Inl Panic)
               | Inl (Error e) \<Rightarrow>
                   (case drop_cache d of
                      (d', Inr _) \<Rightarrow> (d', bindr (create L d') (try_to_catch_up L vote))
                    | (d', Inl _) \<Rightarrow> (d', Inl (Error e))))
            else if_consensus_reachable L d nodes_votes node_cnt (length ns) f
        | None \<Rightarrow>
            if timeout_votes = [] then (d, Inr InProgress)
            else let votes_cnt = length (snd (last timeout_votes)) in
              (case usize_sub (pb_overflow_checks L) node_cnt f of
                 Inl e \<Rightarrow> (d, Inl e)
               | Inr needed \<Rightarrow>
                   if votes_cnt = needed then try_to_restart_catch_up L d (Error PoolTimeout)
                   else if_consensus_reachable L d nodes_votes node_cnt votes_cnt f))"

section \<open>Replies with transactions\<close>

fun min_loop :: "nat option \<Rightarrow> (string \<times> Value) list \<Rightarrow> nat option IndyResult" where
  "min_loop m [] = Inr m"
| "min_loop m ((k, _) # rest) =
    bindr (ok_or (parse_usize k) (Error InvalidStructure)) (\<lambda>val.
      min_loop (case m of None \<Rightarrow> Some val | Some n \<Rightarrow> if val < n then Some val else Some n) rest)"

definition min_tx :: "(string \<times> Value) list \<Rightarrow> nat IndyResult" where
  "min_tx txns = bindr (min_loop None txns) (\<lambda>m. ok_or m (Error InvalidStructure))"

function catchup_loop ::
  "plibs \<Rightarrow> (string \<times> Value) list \<Rightarrow> MerkleTree \<Rightarrow> bytes list \<Rightarrow> (MerkleTree \<times> bytes list) IndyResult" where
  "catchup_loop L txns merkle txns_to_drop =
    (if txns = [] then Inr (merkle, txns_to_drop)
     else bindr (min_tx txns) (\<lambda>key.
       case map_of txns (decimal key) of
         None \<Rightarrow> Inl Panic
       | Some v \<Rightarrow>
           bindr (ok_or (pb_rmp L v) (Error InvalidStructure)) (\<lambda>txn.
           bindr (mt_append (pb_digest L) merkle txn) (\<lambda>merkle'.
             catchup_loop L (filter (\<lambda>e. fst e \<noteq> decimal key) txns) merkle' (txns_to_drop @ [txn])))))"
  by pat_completeness auto
termination
proof (relation "measure (\<lambda>(L, txns, merkle, acc). length txns)")
  fix L :: plibs and txns :: "(string \<times> Value) list" and merkle merkle' :: MerkleTree and acc :: "bytes list" and key v txn
  assume "map_of txns (decimal key) = Some v"
  then have "(decimal key, v) \<in> set txns" by (rule map_of_SomeD)
  then show "((L, filter (\<lambda>e. fst e \<noteq> decimal key) txns, merkle', acc @ [txn]), L, txns, merkle, acc)
      \<in> measure (\<lambda>(L, txns, merkle, acc). length txns)"
    by (auto intro: length_filter_less)
qed simp

declare catchup_loop.simps [simp del]

definition process_catchup_reply ::
  "plibs \<Rightarrow> PoolDir \<Rightarrow> CatchupRep \<Rightarrow> MerkleTree \<Rightarrow> bytes \<Rightarrow> nat \<Rightarrow> PoolDir \<times> MerkleTree IndyResult" where
  "process_catchup_reply L d rep merkle target_mt_root target_mt_size =
    (case bindr (catchup_loop L (cp_txns rep) merkle []) (\<lambda>(merkle', txns_to_drop).
          bindr (check_cons_proofs L merkle' (cp_consProof rep) target_mt_root target_mt_size) (\<lambda>_.
            Inr (merkle', txns_to_drop))) of
       Inl e \<Rightarrow> (d, Inl e)
     | Inr (merkle', txns_to_drop) \<Rightarrow>
         (case dump_new_txns L d txns_to_drop of
            (d', r) \<Rightarrow> (d', bindr r (\<lambda>_. Inr merkle'))))"

section \<open>The transactions of a reply, in order\<close>

lemma min_loop_spec:
  "(\<And>e. e \<in> set es \<Longrightarrow> parse_usize (fst e) = Some (f e)) \<Longrightarrow>
   min_loop m es = Inr (if es = [] then m else Some (Min (set_option m \<union> f ` set es)))"
proof (induction es arbitrary: m)
  case (Cons e es)
  obtain k v where e: "e = (k, v)" by force
  have p: "parse_usize k = Some (f e)" using Cons.prems [of e] e by simp
  let ?m = "case m of None \<Rightarrow> Some (f e) | Some n \<Rightarrow> if f e < n then Some (f e) else Some n"
  have "min_loop m (e # es) = min_loop ?m es" using p unfolding e by simp
  also have "\<dots> = Inr (if es = [] then ?m else Some (Min (set_option ?m \<union> f ` set es)))" using Cons by simp
  also have "\<dots> = Inr (Some (Min (set_option m \<union> f ` set (e # es))))"
  proof (cases "es = []")
    case True
    then show ?thesis by (cases m) (auto simp: min_def)
  next
    case False
    then have "Min (insert x (f ` set es)) = min x (Min (f ` set es))" for x by simp
    then show ?thesis using False by (cases m) (auto simp: min_def insert_commute)
  qed
  finally show ?case by simp
qed simp

lemma min_tx_spec:
  assumes "es \<noteq> []" "\<And>e. e \<in> set es \<Longrightarrow> parse_usize (fst e) = Some (f e)"
  shows "min_tx es = Inr (Min (f ` set es))"
  using assms min_loop_spec [of es f None] by (simp add: min_tx_def)

text \<open>The entries of consecutive transactions, in any order.\<close>

definition numbered :: "(string \<times> Value) list \<Rightarrow> nat \<Rightarrow> Value list \<Rightarrow> bool" where
  "numbered es n vs \<longleftrightarrow> distinct (map fst es) \<and> set es = set (zip (map decimal [n ..< n + length vs]) vs)"

lemma numbered_Nil: "numbered es n [] \<longleftrightarrow> es = []"
  by (auto simp: numbered_def)

lemma zip_decimal_Cons:
  "zip (map decimal [n ..< n + length (v # vs)]) (v # vs) = (decimal n, v) # zip (map decimal [Suc n ..< Suc n + length vs]) vs"
proof -
  have "[n ..< n + length (v # vs)] = n # [Suc n ..< Suc n + length vs]" by (simp add: upt_rec)
  then show ?thesis by simp
qed

lemma numbered_Cons:
  assumes "numbered es n (v # vs)" "n + length vs < 2 ^ 64"
  shows "min_tx es = Inr n" "map_of es (decimal n) = Some v" "numbered (filter (\<lambda>e. fst e \<noteq> decimal n) es) (Suc n) vs"
proof -
  let ?rest = "zip (map decimal [Suc n ..< Suc n + length vs]) vs"
  have s: "set es = insert (decimal n, v) (set ?rest)" and d: "distinct (map fst es)"
    using assms(1) zip_decimal_Cons [of n v vs] by (auto simp: numbered_def)
  have rest: "\<exists>m. fst e = decimal m \<and> n < m \<and> m < 2 ^ 64" if "e \<in> set ?rest" for e
  proof -
    have "(fst e, snd e) \<in> set ?rest" using that by simp
    then have "fst e \<in> set (map decimal [Suc n ..< Suc n + length vs])" by (rule set_zip_leftD)
    then obtain m where "fst e = decimal m" "m \<in> set [Suc n ..< Suc n + length vs]" by auto
    then show ?thesis using assms(2) unfolding set_upt by (intro exI [of _ m]) auto
  qed
  define f where "f e = the (parse_usize (fst e))" for e :: "string \<times> Value"
  have key: "parse_usize (fst e) = Some (f e) \<and> n \<le> f e" if e: "e \<in> set es" for e
  proof (cases "e = (decimal n, v)")
    case True
    then show ?thesis using assms(2) by (simp add: f_def parse_usize_decimal)
  next
    case False
    then obtain m where "fst e = decimal m" "n < m" "m < 2 ^ 64" using e s rest by blast
    then show ?thesis by (simp add: f_def parse_usize_decimal)
  qed
  have "f (decimal n, v) = n" using assms(2) by (simp add: f_def parse_usize_decimal)
  then have "Min (f ` set es) = n" using s key by (intro Min_eqI) (auto intro: rev_image_eqI)
  moreover have "es \<noteq> []" using s by auto
  ultimately show "min_tx es = Inr n" using min_tx_spec [of es f] key by simp
  show "map_of es (decimal n) = Some v" using d s by (intro map_of_is_SomeI) auto
  have "fst e \<noteq> decimal n" if "e \<in> set ?rest" for e using rest [OF that] by auto
  then have "set (filter (\<lambda>e. fst e \<noteq> decimal n) es) = set ?rest" using s by auto
  then show "numbered (filter (\<lambda>e. fst e \<noteq> decimal n) es) (Suc n) vs"
    using d distinct_map_filter unfolding numbered_def by blast
qed

lemma catchup_loop_numbered:
  assumes dg: "pb_digest L = total_digest h"
  shows "numbered es n vs \<Longrightarrow> n + length vs \<le> 2 ^ 64 \<Longrightarrow> list_all2 (\<lambda>v t. pb_rmp L v = Some t) vs ts \<Longrightarrow>
    catchup_loop L es (rfc_merkle h us) acc = Inr (rfc_merkle h (us @ ts), acc @ ts)"
proof (induction vs arbitrary: es n ts us acc)
  case Nil
  then show ?case by (subst catchup_loop.simps) (simp add: numbered_Nil)
next
  case (Cons v vs)
  then obtain t ts' where ts: "ts = t # ts'" "pb_rmp L v = Some t" "list_all2 (\<lambda>v t. pb_rmp L v = Some t) vs ts'"
    by (auto simp: list_all2_Cons1)
  have n: "n + length vs < 2 ^ 64" using Cons.prems(2) by simp
  note c = numbered_Cons [OF Cons.prems(1) n]
  have "es \<noteq> []" using c(2) by auto
  then have "catchup_loop L es (rfc_merkle h us) acc =
      catchup_loop L (filter (\<lambda>e. fst e \<noteq> decimal n) es) (rfc_merkle h (us @ [t])) (acc @ [t])"
    using c(1,2) ts(2) by (subst catchup_loop.simps) (simp add: dg mt_append_rfc)
  also have "\<dots> = Inr (rfc_merkle h ((us @ [t]) @ ts'), (acc @ [t]) @ ts')"
    using Cons.IH [OF c(3) _ ts(3)] n by simp
  finally show ?case by (simp add: ts(1))
qed

lemma catchup_loop_appends:
  assumes dg: "pb_digest L = total_digest h"
  shows "catchup_loop L es (rfc_merkle h us) acc = Inr (mt, acc') \<Longrightarrow> distinct (map fst es) \<Longrightarrow>
    \<exists>ts. mt = rfc_merkle h (us @ ts) \<and> acc' = acc @ ts \<and> length ts = length es \<and> set ts \<subseteq> {t. \<exists>v. pb_rmp L v = Some t}"
proof (induction "length es" arbitrary: es us acc rule: less_induct)
  case less
  show ?case
  proof (cases "es = []")
    case True
    then show ?thesis using less.prems by (subst (asm) catchup_loop.simps) auto
  next
    case False
    obtain key v txn where kv: "map_of es (decimal key) = Some v" "pb_rmp L v = Some txn"
      "catchup_loop L (filter (\<lambda>e. fst e \<noteq> decimal key) es) (rfc_merkle h (us @ [txn])) (acc @ [txn]) = Inr (mt, acc')"
      using less.prems(1) False
      by (subst (asm) (1) catchup_loop.simps) (auto simp: bindr_Inr_iff dg mt_append_rfc split: option.splits)
    let ?es = "filter (\<lambda>e. fst e \<noteq> decimal key) es"
    have "filter (\<lambda>e. fst e = decimal key) es = [(decimal key, v)]"
    proof -
      have "(decimal key, v) \<in> set es" using kv(1) by (rule map_of_SomeD)
      then show ?thesis using less.prems(2) by (induction es) (auto simp: image_iff filter_empty_conv)
    qed
    then have len: "length es = Suc (length ?es)"
      using sum_length_filter_compl [of "\<lambda>e. fst e = decimal key" es] by simp
    have "distinct (map fst ?es)" using less.prems(2) by (simp add: distinct_map_filter)
    from less.hyps [OF _ kv(3) this] len obtain ts where ts: "mt = rfc_merkle h ((us @ [txn]) @ ts)" "acc' = (acc @ [txn]) @ ts"
      "length ts = length ?es" "set ts \<subseteq> {t. \<exists>v. pb_rmp L v = Some t}" by auto
    then show ?thesis using len kv(2) by (intro exI [of _ "txn # ts"]) auto
  qed
qed

section \<open>A small instance\<close>

text \<open>A pool with one genesis transaction, and replies with the second one.\<close>

definition one_dir :: PoolDir where
  "one_dir = toy_dir\<lparr> genesis_file := Some [97] \<rparr>"

definition toy_rep :: "(string \<times> Value) list \<Rightarrow> string list \<Rightarrow> CatchupRep" where
  "toy_rep txns proofs = \<lparr> cp_ledgerId = 0, cp_consProof = proofs, cp_txns = txns \<rparr>"

lemma toy_rep_simps [simp]: "cp_consProof (toy_rep txns ps) = ps" "cp_txns (toy_rep txns ps) = txns"
  by (simp_all add: toy_rep_def)

lemma one_dir_holds: "holds_txns toy_plibs one_dir [[97]]"
proof -
  have "genesis_to_binary toy_plibs one_dir [97] = Inr [[97]]" by code_simp
  then show ?thesis by (simp add: holds_txns_def one_dir_def toy_dir_def toy_blank)
qed

lemma one_dir_dump: "dump_new_txns toy_plibs one_dir [[98]] = (one_dir\<lparr>stored_file := Some (frames [[97], [98]]), free_space := 82\<rparr>, Inr ())"
  "dump_new_txns toy_plibs one_dir [] = (one_dir\<lparr>stored_file := Some (frames [[97]]), free_space := 91\<rparr>, Inr ())"
  by code_simp+

lemma toy_numbered: "numbered [(''2'', String ''b'')] (length [[97 :: byte]] + 1) [String ''b'']"
proof -
  have "decimal 2 = ''2''" by code_simp
  then show ?thesis by (simp add: numbered_def numeral_2_eq_2)
qed

lemma toy_encoded: "list_all2 (\<lambda>v t. pb_rmp toy_plibs v = Some t) [String ''b''] [[98]]"
  by (simp add: byte_of_char_def)

lemma toy_no_proofs: "decode_proofs toy_plibs [] = Inr []"
  by (simp add: decode_proofs_def)

lemma toy_tree2:
  "mt_root (rfc_merkle sum_digest [[97], [98]]) = joined sum_digest (hashed_leaf sum_digest [97]) (hashed_leaf sum_digest [98])"
  "mt_count (rfc_merkle sum_digest [[97], [98]]) = 2"
  by (simp_all add: rfc_merkle_def rfc_tree_def join_trees_two)

section \<open>Properties of replies\<close>

text \<open>
  C7: what a single node cannot do to the ledger. Let the local directory and tree hold the transactions
  \<open>vs\<close> and let the root and size agreed on with the pool be those of the ledger \<open>ws\<close>; let the digest have no
  collision among the strings hashed. If \<^verbatim>\<open>_process_catchup_reply\<close> accepts the reply of a node, whatever
  it contains, then the new tree is that of \<open>vs\<close> followed by the transactions of the reply, these are a
  prefix of the pool's ledger, the cache holds exactly them, and if as many as were missing came, the tree is
  that of the pool.
\<close>
theorem catchup_reply_sound:
  assumes dg: "pb_digest L = total_digest h" and holds: "holds_txns L d vs" and ne: "vs \<noteq> []" "ws \<noteq> []"
    and old: "from_vec (total_digest h) vs = Inr mt" and new: "from_vec (total_digest h) ws = Inr new"
    and keys: "distinct (map fst (cp_txns rep))" and small: "\<And>v t. pb_rmp L v = Some t \<Longrightarrow> length t < 2 ^ 63"
    and acc: "process_catchup_reply L d rep mt (root_hash new) (mt_count new) = (d', Inr mt')"
    and ps: "decode_proofs L (cp_consProof rep) = Inr ps" and len: "\<And>x. length (h x) = 32"
    and cf: "collision_free h (tree_inputs (mt_root mt')) (tree_inputs (mt_root new))"
      "collision_free h (tree_inputs (mt_root mt')) (check_inputs h mt' (mt_count new) ps)"
      "collision_free h (tree_inputs (mt_root new)) (check_inputs h mt' (mt_count new) ps)"
  shows "\<exists>ts. length ts = length (cp_txns rep) \<and> from_vec (total_digest h) (vs @ ts) = Inr mt' \<and>
    vs @ ts = take (length vs + length ts) ws \<and> holds_txns L d' (vs @ ts) \<and> (length vs + length ts = length ws \<longrightarrow> mt' = new)"
proof -
  have trees: "mt = rfc_merkle h vs" "new = rfc_merkle h ws" using old new by (simp_all add: from_vec_rfc_merkle)
  then have target: "root_hash new = mth h ws" "mt_count new = length ws" "mt_root new = rfc_tree h ws"
    by (simp_all add: rfc_merkle_def root_hash_def tree_hash_rfc_tree)
  obtain ts where ts: "catchup_loop L (cp_txns rep) mt [] = Inr (mt', ts)"
      "check_cons_proofs L mt' (cp_consProof rep) (root_hash new) (mt_count new) = Inr ()" "dump_new_txns L d ts = (d', Inr ())"
    using acc by (auto simp: process_catchup_reply_def bindr_Inr_iff split: sum.splits prod.splits)
  from catchup_loop_appends [OF dg ts(1) [unfolded trees(1)] keys]
  have mt': "mt' = rfc_merkle h (vs @ ts)" "length ts = length (cp_txns rep)" "\<forall>t\<in>set ts. length t < 2 ^ 63" using small by auto
  have cp: "consistency_proof (total_digest h) (rfc_merkle h (vs @ ts)) (mth h ws) (length ws) ps = Inr True"
    using ts(2) ps dg unfolding check_cons_proofs_def target mt'(1) by (auto simp: bindr_Inr_iff split: if_splits)
  have "mt_root mt' = rfc_tree h (vs @ ts)" by (simp add: mt'(1) rfc_merkle_def)
  then have "vs @ ts = take (length (vs @ ts)) ws"
    using cf ne unfolding target by (intro consistency_proof_prefix [OF len _ _ cp]) (simp_all add: mt'(1))
  moreover have "holds_txns L d' (vs @ ts)"
    using pool_holds_after [OF holds _ ts(3)] mt'(3) by (simp add: small_txns_def)
  ultimately show ?thesis using mt' trees(2) by (intro exI [of _ ts]) (auto simp: from_vec_rfc_merkle)
qed

text \<open>Witness for C7: the reply with the one missing transaction.\<close>
theorem catchup_reply_sound_witness:
  "\<exists>d' mt new ts. from_vec (total_digest sum_digest) [[97]] = Inr mt \<and> from_vec (total_digest sum_digest) [[97], [98]] = Inr new \<and>
    process_catchup_reply toy_plibs one_dir (toy_rep [(''2'', String ''b'')] []) mt (root_hash new) (mt_count new) = (d', Inr new) \<and>
    holds_txns toy_plibs d' ([[97]] @ ts) \<and> [[97]] @ ts = take (1 + length ts) [[97], [98]]"
proof -
  let ?rep = "toy_rep [(''2'', String ''b'')] []" and ?new = "rfc_merkle sum_digest [[97], [98]]" and ?old = "rfc_merkle sum_digest [[97]]"
  have loop: "catchup_loop toy_plibs (cp_txns ?rep) ?old [] = Inr (?new, [[98]])"
    using catchup_loop_numbered [OF toy_digest toy_numbered _ toy_encoded, of "[[97]]" "[]"] by simp
  have acc: "process_catchup_reply toy_plibs one_dir ?rep ?old (root_hash ?new) (mt_count ?new) =
      (one_dir\<lparr>stored_file := Some (frames [[97], [98]]), free_space := 82\<rparr>, Inr ?new)"
    using loop one_dir_dump(1) by (simp add: process_catchup_reply_def check_cons_proofs_def toy_no_proofs consistency_proof_def)
  have inp: "tree_inputs (mt_root ?new) = [0x01 # sum_digest [0, 97] @ sum_digest [0, 98], [0, 97], [0, 98]]"
    unfolding toy_tree2 by (simp add: joined_def hashed_leaf_def)
  have chk: "check_inputs sum_digest ?new (mt_count ?new) [] = []"
    by (simp add: check_inputs_def toy_tree2 strip_right.simps climb_inputs.simps)
  have cf: "collision_free sum_digest (tree_inputs (mt_root ?new)) (tree_inputs (mt_root ?new))"
    "collision_free sum_digest (tree_inputs (mt_root ?new)) (check_inputs sum_digest ?new (mt_count ?new) [])"
    unfolding inp chk by (simp_all add: collision_free_def sum_digest_def sum_list_replicate)
  have "\<exists>ts. length ts = length (cp_txns ?rep) \<and> from_vec (total_digest sum_digest) ([[97]] @ ts) = Inr ?new \<and>
    [[97]] @ ts = take (length [[97 :: byte]] + length ts) [[97], [98]] \<and>
    holds_txns toy_plibs (one_dir\<lparr>stored_file := Some (frames [[97], [98]]), free_space := 82\<rparr>) ([[97]] @ ts) \<and>
    (length [[97 :: byte]] + length ts = length [[97 :: byte], [98]] \<longrightarrow> ?new = ?new)"
    by (rule catchup_reply_sound [OF toy_digest one_dir_holds _ _ from_vec_rfc_merkle from_vec_rfc_merkle _ toy_rmp_small acc _ _ cf(1,2,2)])
       (simp_all add: sum_digest_def toy_no_proofs)
  then show ?thesis using acc by (auto simp: from_vec_rfc_merkle)
qed

text \<open>
  C9: an honest reply brings the tree up to date. If the reply has the missing transactions, numbered from
  the first missing one in whatever order the map iterates, and any decodable proof, then it is accepted, the
  new tree is that of the pool's ledger, and the transactions are written to the cache.
\<close>
theorem catchup_reply_complete:
  assumes dg: "pb_digest L = total_digest h" and old: "from_vec (total_digest h) vs = Inr mt"
    and new: "from_vec (total_digest h) (vs @ ts) = Inr new" and num: "numbered (cp_txns rep) (length vs + 1) vals"
    and enc: "list_all2 (\<lambda>v t. pb_rmp L v = Some t) vals ts" and "length vs + length ts < 2 ^ 64"
    and ps: "decode_proofs L (cp_consProof rep) = Inr ps" and dump: "dump_new_txns L d ts = (d', Inr ())"
  shows "process_catchup_reply L d rep mt (root_hash new) (mt_count new) = (d', Inr new)"
proof -
  have "length vals = length ts" using enc by (rule list_all2_lengthD)
  then have "catchup_loop L (cp_txns rep) mt [] = Inr (new, ts)"
    using catchup_loop_numbered [OF dg num _ enc, of vs "[]"] assms(6) old new by (simp add: from_vec_rfc_merkle)
  moreover have "consistency_proof (pb_digest L) new (root_hash new) (mt_count new) ps = Inr True"
    by (simp add: consistency_proof_def)
  ultimately show ?thesis using ps dump by (simp add: process_catchup_reply_def check_cons_proofs_def)
qed

text \<open>Witness for C9: one transaction was missing.\<close>
theorem catchup_reply_complete_witness:
  "\<exists>d' mt new. from_vec (total_digest sum_digest) [[97]] = Inr mt \<and> from_vec (total_digest sum_digest) [[97], [98]] = Inr new \<and>
    process_catchup_reply toy_plibs one_dir (toy_rep [(''2'', String ''b'')] []) mt (root_hash new) (mt_count new) = (d', Inr new)"
  using catchup_reply_complete [OF toy_digest from_vec_rfc_merkle from_vec_rfc_merkle, of "toy_rep [(''2'', String ''b'')] []" "[[97]]" "[String ''b'']" "[[98]]"]
    toy_numbered toy_encoded toy_no_proofs one_dir_dump(1)
  by (auto simp: from_vec_rfc_merkle)

text \<open>
  A reply without transactions. A node that answers with none at all and the proof that the local
  ledger is a prefix of the pool's is believed: the catch-up ends with the old tree.
\<close>
theorem empty_catchup_reply_accepted:
  assumes dg: "pb_digest L = total_digest h" and old: "from_vec (total_digest h) (take m ws) = Inr mt"
    and new: "from_vec (total_digest h) ws = Inr new" and m: "0 < m" "m \<le> length ws" and "cp_txns rep = []"
    and ps: "decode_proofs L (cp_consProof rep) = Inr (honest_path h (m - 1) (map (hashed_leaf h) ws))"
    and dump: "dump_new_txns L d [] = (d', Inr ())"
  shows "process_catchup_reply L d rep mt (root_hash new) (mt_count new) = (d', Inr mt)"
proof -
  have "catchup_loop L (cp_txns rep) mt [] = Inr (mt, [])" using assms(6) by (subst catchup_loop.simps) simp
  moreover have "consistency_proof (pb_digest L) mt (root_hash new) (mt_count new) (honest_path h (m - 1) (map (hashed_leaf h) ws)) = Inr True"
    using consistency_proof_honest [OF m, of h] old new dg by (auto simp: from_vec_rfc_merkle rfc_merkle_def root_hash_def tree_hash_rfc_tree)
  ultimately show ?thesis using ps dump by (simp add: process_catchup_reply_def check_cons_proofs_def)
qed

text \<open>Instance of the above: the second transaction is missing and the reply has none.\<close>
theorem empty_catchup_reply_accepted_witness:
  "\<exists>d' mt new. from_vec (total_digest sum_digest) [[97]] = Inr mt \<and> from_vec (total_digest sum_digest) [[97], [98]] = Inr new \<and>
    process_catchup_reply toy_plibs one_dir (toy_rep [] (map of_bytes (honest_path sum_digest 0 (map (hashed_leaf sum_digest) [[97], [98]]))))
      mt (root_hash new) (mt_count new) = (d', Inr mt)"
proof -
  let ?ps = "honest_path sum_digest 0 (map (hashed_leaf sum_digest) [[97], [98]])"
  have "traverse (\<lambda>p. ok_or (Some (as_bytes p)) (Error InvalidStructure)) (map of_bytes ps) = Inr ps" for ps
    by (induction ps) simp_all
  then have "decode_proofs toy_plibs (cp_consProof (toy_rep [] (map of_bytes ?ps))) = Inr (honest_path sum_digest (1 - 1) (map (hashed_leaf sum_digest) [[97], [98]]))"
    by (simp add: decode_proofs_def)
  from empty_catchup_reply_accepted [OF toy_digest from_vec_rfc_merkle from_vec_rfc_merkle _ _ _ this one_dir_dump(2)]
  show ?thesis by (auto simp: from_vec_rfc_merkle)
qed

text \<open>
  A single node can end the pool's thread. A reply with a transaction number that is written with a
  leading zero or a plus sign, or one with more transactions than were asked for, panics.
\<close>
theorem catchup_reply_panics:
  assumes dg: "pb_digest L = total_digest h" and old: "from_vec (total_digest h) vs = Inr mt"
    and rep: "cp_txns rep = [(k, v)] \<and> parse_usize k = Some n \<and> k \<noteq> decimal n \<or>
      numbered (cp_txns rep) (length vs + 1) vals \<and> list_all2 (\<lambda>v t. pb_rmp L v = Some t) vals ts \<and>
      decode_proofs L (cp_consProof rep) = Inr ps \<and> length vs + length ts < 2 ^ 64 \<and> sz < length vs + length ts"
  shows "process_catchup_reply L d rep mt root sz = (d, Inl Panic)"
  using rep
proof
  assume "cp_txns rep = [(k, v)] \<and> parse_usize k = Some n \<and> k \<noteq> decimal n"
  then have "min_tx (cp_txns rep) = Inr n" "map_of (cp_txns rep) (decimal n) = None" "cp_txns rep \<noteq> []"
    by (auto simp: min_tx_def)
  then show ?thesis by (simp add: process_catchup_reply_def catchup_loop.simps)
next
  assume "numbered (cp_txns rep) (length vs + 1) vals \<and> list_all2 (\<lambda>v t. pb_rmp L v = Some t) vals ts \<and>
      decode_proofs L (cp_consProof rep) = Inr ps \<and> length vs + length ts < 2 ^ 64 \<and> sz < length vs + length ts"
  then have a: "numbered (cp_txns rep) (length vs + 1) vals" "list_all2 (\<lambda>v t. pb_rmp L v = Some t) vals ts"
    "decode_proofs L (cp_consProof rep) = Inr ps" "length vs + length ts < 2 ^ 64" "sz < length vs + length ts" by simp_all
  have "length vals = length ts" using a(2) by (rule list_all2_lengthD)
  then have "catchup_loop L (cp_txns rep) mt [] = Inr (rfc_merkle h (vs @ ts), ts)"
    using catchup_loop_numbered [OF dg a(1) _ a(2), of vs "[]"] old a(4) by (simp add: from_vec_rfc_merkle)
  moreover have "consistency_proof (pb_digest L) (rfc_merkle h (vs @ ts)) root sz ps = Inl Panic"
    using a(5) by (auto simp: consistency_proof_def rfc_merkle_def)
  ultimately show ?thesis using a(3) by (simp add: process_catchup_reply_def check_cons_proofs_def)
qed

text \<open>Instance of the above: the transaction number 02, and one transaction too many.\<close>
theorem catchup_reply_panics_witness:
  "\<exists>mt. from_vec (total_digest sum_digest) [[97]] = Inr mt \<and>
    process_catchup_reply toy_plibs one_dir (toy_rep [(''02'', String ''b'')] []) mt [] 2 = (one_dir, Inl Panic) \<and>
    process_catchup_reply toy_plibs one_dir (toy_rep [(''2'', String ''b'')] []) mt [] 1 = (one_dir, Inl Panic)"
proof -
  have "parse_usize ''02'' = Some 2" by (simp add: parse_usize_def digit_val_def)
  moreover have "''02'' \<noteq> decimal 2" by code_simp
  ultimately have "cp_txns (toy_rep [(''02'', String ''b'')] []) = [(''02'', String ''b'')] \<and> parse_usize ''02'' = Some 2 \<and> ''02'' \<noteq> decimal 2"
    unfolding toy_rep_simps by blast
  from catchup_reply_panics [OF toy_digest from_vec_rfc_merkle disjI1, OF this]
  have "process_catchup_reply toy_plibs one_dir (toy_rep [(''02'', String ''b'')] []) (rfc_merkle sum_digest [[97]]) [] 2 = (one_dir, Inl Panic)" .
  moreover have "process_catchup_reply toy_plibs one_dir (toy_rep [(''2'', String ''b'')] []) (rfc_merkle sum_digest [[97]]) [] 1 = (one_dir, Inl Panic)"
    by (intro catchup_reply_panics [OF toy_digest from_vec_rfc_merkle, where vals = "[String ''b'']" and ts = "[[98]]" and ps = "[]"] disjI2)
       (use toy_numbered toy_encoded toy_no_proofs in simp)
  ultimately show ?thesis by (auto simp: from_vec_rfc_merkle)
qed

end
