(* ===== verification/Request_Handler.thy ===== *)
theory Request_Handler
  imports Catchup
begin

text \<open>
  The state machine of one request to the pool (\<^verbatim>\<open>libindy/src/services/pool/request_handler.rs\<close>, with
  the events of \<^verbatim>\<open>events.rs\<close>, the messages of \<^verbatim>\<open>types.rs\<close> and the response metadata of
  \<^verbatim>\<open>mod.rs\<close>). A handler reacts to an event with a new state, possibly an event for the pool, and effects
  in order: events for the networker and acknowledgements of commands. The verification of a state proof
  (\<^verbatim>\<open>state_proof\<close>, the theory \<open>State_Proof\<close>), the clock and the freshness
  threshold are parameters. A hash map is the list of its entries, a hash set the list of its elements.
\<close>

section \<open>Messages and events\<close>

record LedgerStatus =
  txnSeqNo :: nat
  merkleRoot :: string
  ls_ledgerId :: nat
  ppSeqNo :: "nat option"
  viewNo :: "nat option"
  protocolVersion :: "nat option"

record ConsistencyProof =
  seqNoEnd :: nat
  seqNoStart :: nat
  co_ledgerId :: nat
  hashes :: "string list"
  oldMerkleRoot :: string
  newMerkleRoot :: string

datatype Reply = ReplyV0 nat | ReplyV1 nat
datatype Response = ResponseV0 nat | ResponseV1 nat

fun reply_req_id :: "Reply \<Rightarrow> nat" where
  "reply_req_id (ReplyV0 i) = i"
| "reply_req_id (ReplyV1 i) = i"

fun response_req_id :: "Response \<Rightarrow> nat" where
  "response_req_id (ResponseV0 i) = i"
| "response_req_id (ResponseV1 i) = i"

record RemoteNode =
  rn_name :: string
  rn_public_key :: bytes
  rn_zaddr :: string
  rn_is_blacklisted :: bool

datatype NetworkerEvent =
    SendOneRequest string string int
  | SendAllRequest string string int "string list option"
  | Resend string int
  | NodesStateUpdated "RemoteNode list"
  | ExtendTimeout string string int
  | CleanTimeout string "string option"
  | NetworkerTimeout

type_synonym CommandHandle = int

datatype PoolEvent =
    CheckCache CommandHandle
  | NodeReply string string
  | Close CommandHandle
  | Refresh CommandHandle
  | CatchupTargetFound bytes nat MerkleTree
  | CatchupRestart MerkleTree
  | CatchupTargetNotFound failure
  | PoolOutdated
  | Synced MerkleTree
  | NodesBlacklisted
  | SendRequest CommandHandle string "int option" "string option"
  | PoolEventTimeout string string

datatype RequestEvent =
    LedgerStatusEvent LedgerStatus "string option" "MerkleTree option"
  | CatchupReqEvent MerkleTree nat bytes
  | TimeoutEvent string string
  | CatchupRepEvent CatchupRep string
  | CustomSingleRequest string string "bytes option" "nat option \<times> nat option"
  | CustomConsensusRequest string string
  | CustomFullRequest string string "int option" "string option"
  | ConsistencyProofEvent ConsistencyProof string
  | ReplyEvent Reply string string string
  | ReqACKEvent Response string string string
  | ReqNACKEvent Response string string string
  | RejectEvent Response string string string
  | PoolLedgerTxnsEvent
  | PingEvent
  | PongEvent
  | TerminateEvent

fun get_req_id :: "RequestEvent \<Rightarrow> string" where
  "get_req_id (CustomSingleRequest _ i _ _) = i"
| "get_req_id (CustomConsensusRequest _ i) = i"
| "get_req_id (CustomFullRequest _ i _ _) = i"
| "get_req_id (ReplyEvent _ _ _ i) = i"
| "get_req_id (ReqACKEvent _ _ _ i) = i"
| "get_req_id (ReqNACKEvent _ _ _ i) = i"
| "get_req_id (RejectEvent _ _ _ i) = i"
| "get_req_id _ = []"

text \<open>What a handler does besides changing its state.\<close>

datatype effect = ToNetworker NetworkerEvent | SubmitAck CommandHandle "string IndyResult"

definition send_replies :: "CommandHandle list \<Rightarrow> string IndyResult \<Rightarrow> effect list" where
  "send_replies cmd_ids msg = map (\<lambda>i. SubmitAck i msg) cmd_ids"

definition send_ok_replies :: "CommandHandle list \<Rightarrow> string \<Rightarrow> effect list" where
  "send_ok_replies cmd_ids msg = send_replies cmd_ids (Inr msg)"

definition finish_request :: "CommandHandle list \<Rightarrow> effect list" where
  "finish_request cmd_ids = send_replies cmd_ids (Inl (Error PoolTerminated))"

section \<open>Reading JSON\<close>

text \<open>Indexing a JSON value with a key gives \<^verbatim>\<open>Null\<close> where there is none.\<close>

fun value_get :: "Value \<Rightarrow> string \<Rightarrow> Value" where
  "value_get (Object kvs) k = (case map_of kvs k of Some v \<Rightarrow> v | None \<Rightarrow> Null)"
| "value_get _ k = Null"

fun value_remove :: "string \<Rightarrow> Value \<Rightarrow> Value" where
  "value_remove k (Object kvs) = Object (filter (\<lambda>e. fst e \<noteq> k) kvs)"
| "value_remove k v = v"

fun value_map :: "string \<Rightarrow> (Value \<Rightarrow> Value) \<Rightarrow> Value \<Rightarrow> Value" where
  "value_map k g (Object kvs) = Object (map (\<lambda>(k', v). (k', if k' = k then g v else v)) kvs)"
| "value_map k g v = v"

fun is_object :: "Value \<Rightarrow> bool" where
  "is_object (Object _) = True"
| "is_object _ = False"

fun as_u64 :: "Value \<Rightarrow> nat option" where
  "as_u64 (Number n) = (if 0 \<le> n \<and> n < 2 ^ 64 then Some (nat n) else None)"
| "as_u64 _ = None"

fun as_str :: "Value \<Rightarrow> string option" where
  "as_str (String s) = Some s"
| "as_str _ = None"

abbreviation value_path :: "Value \<Rightarrow> string list \<Rightarrow> Value" where
  "value_path v ks \<equiv> foldl value_get v ks"

definition get_msg_result_without_state_proof :: "plibs \<Rightarrow> string \<Rightarrow> (Value \<times> Value) IndyResult" where
  "get_msg_result_without_state_proof L msg =
    bindr (ok_or (pb_json L msg) (Error InvalidStructure)) (\<lambda>v.
      let msg_result = value_get v ''result'';
          without = value_remove ''state_proof'' msg_result;
          without' = (if is_object (value_get without ''data'')
                      then value_map ''data'' (value_remove ''stateProofFrom'') without else without)
      in Inr (msg_result, without'))"

text \<open>
  \<^verbatim>\<open>parse_response_metadata\<close>: a reply of the first kind has a field \<^verbatim>\<open>result\<close>, one of the second
  kind a list of such replies, of which the first is taken.
\<close>

fun reply_v0 :: "Value \<Rightarrow> Value option" where
  "reply_v0 (Object kvs) = map_of kvs ''result''"
| "reply_v0 _ = None"

fun reply_v1 :: "Value \<Rightarrow> Value list option" where
  "reply_v1 (Array vs) = those (map reply_v0 vs)"
| "reply_v1 _ = None"

definition reply_result :: "Value \<Rightarrow> Value option IndyResult" where
  "reply_result msg =
    (if value_get msg ''op'' \<noteq> String ''REPLY'' then Inr None
     else case reply_v0 msg of
       Some r \<Rightarrow> Inr (Some r)
     | None \<Rightarrow>
         (case reply_v1 (value_path msg [''data'', ''result'']) of
            None \<Rightarrow> Inr None
          | Some [] \<Rightarrow> Inl Panic
          | Some (r # _) \<Rightarrow> Inr (Some r)))"

definition last_txn_time :: "Value \<Rightarrow> nat option" where
  "last_txn_time result =
    (case as_str (value_get result ''ver'') of
       None \<Rightarrow> as_u64 (value_path result [''state_proof'', ''multi_signature'', ''value'', ''timestamp''])
     | Some ver \<Rightarrow>
         if ver = ''1'' then as_u64 (value_path result [''multiSignature'', ''signedState'', ''stateMetadata'', ''timestamp''])
         else None)"

definition get_last_signed_time :: "plibs \<Rightarrow> string \<Rightarrow> nat option IndyResult" where
  "get_last_signed_time L response =
    (case pb_json L response of
       None \<Rightarrow> Inr None
     | Some msg \<Rightarrow> bindr (reply_result msg) (\<lambda>r. Inr (Option.bind r last_txn_time)))"

section \<open>State proofs and freshness\<close>

text \<open>
  \<open>sp_verify\<close> is \<^verbatim>\<open>parse_generic_reply_for_proof_checking\<close> followed by \<^verbatim>\<open>verify_parsed_sp\<close>, on the
  result, the raw message, the expected key, the nodes and the number of nodes that may fail: \<^const>\<open>None\<close> if it does not
  return. The theory \<open>State_Proof\<close> models it.
\<close>

type_synonym Nodes = "(string \<times> bytes option) list"

record splibs =
  sp_verify :: "Value \<Rightarrow> string \<Rightarrow> bytes option \<Rightarrow> Nodes \<Rightarrow> nat \<Rightarrow> bool option"
  sp_threshold :: nat
  sp_cur_time :: nat

definition GET_REVOC_REG_DELTA :: string where "GET_REVOC_REG_DELTA = ''117''"

definition extract_left_last_write_time :: "Value \<Rightarrow> nat option" where
  "extract_left_last_write_time msg_result =
    (if as_str (value_get msg_result ''type'') = Some GET_REVOC_REG_DELTA
     then as_u64 (value_path msg_result [''data'', ''stateProofFrom'', ''multi_signature'', ''value'', ''timestamp''])
     else None)"

definition fresh_at :: "plibs \<Rightarrow> splibs \<Rightarrow> nat \<Rightarrow> nat \<Rightarrow> bool IndyResult" where
  "fresh_at L sp time last_write_time =
    bindr (u64_add (pb_overflow_checks L) (sp_threshold sp) last_write_time) (\<lambda>limit. Inr (time \<le> limit))"

definition check_freshness :: "plibs \<Rightarrow> splibs \<Rightarrow> Value \<Rightarrow> nat option \<times> nat option \<Rightarrow> nat \<Rightarrow> bool IndyResult" where
  "check_freshness L sp msg_result requested_timestamps last_write_time =
    (let left = (case extract_left_last_write_time msg_result of Some t \<Rightarrow> t | None \<Rightarrow> 0) in
     case requested_timestamps of
       (Some from, Some to) \<Rightarrow>
         bindr (fresh_at L sp from left) (\<lambda>ok. if ok then fresh_at L sp to last_write_time else Inr False)
     | (None, Some to) \<Rightarrow> fresh_at L sp to last_write_time
     | (Some from, None) \<Rightarrow>
         bindr (fresh_at L sp from left) (\<lambda>ok. if ok then fresh_at L sp (sp_cur_time sp) last_write_time else Inr False)
     | (None, None) \<Rightarrow> fresh_at L sp (sp_cur_time sp) last_write_time)"

definition check_state_proof ::
  "plibs \<Rightarrow> splibs \<Rightarrow> Value \<Rightarrow> nat \<Rightarrow> Nodes \<Rightarrow> string \<Rightarrow> bytes option \<Rightarrow> nat option \<times> nat option \<Rightarrow> nat \<Rightarrow> bool IndyResult" where
  "check_state_proof L sp msg_result f nodes raw_msg sp_key requested_timestamps last_write_time =
    (case sp_verify sp msg_result raw_msg sp_key nodes f of
       None \<Rightarrow> Inl Panic
     | Some True \<Rightarrow> check_freshness L sp msg_result requested_timestamps last_write_time
     | Some False \<Rightarrow> Inr False)"

section \<open>States\<close>

record ConsensusState =
  co_denied_nodes :: "string list"
  co_replies :: "(Value \<times> string list) list"
  co_timeout_nodes :: "string list"

record CatchupConsensusState =
  cc_replies :: votes
  cc_merkle_tree :: MerkleTree

record CatchupSingleState =
  cs_target_mt_root :: bytes
  cs_target_mt_size :: nat
  cs_merkle_tree :: MerkleTree
  cs_req_id :: string

text \<open>Two responses are equal, as elements of a hash set, if they come from the same node.\<close>

record NodeResponse =
  nr_raw_msg :: string
  nr_node_alias :: string
  nr_timestamp :: nat

record SingleState =
  si_denied_nodes :: "string list"
  si_replies :: "(Value \<times> NodeResponse list) list"
  si_timeout_nodes :: "string list"
  si_sp_key :: "bytes option"
  si_timestamps :: "nat option \<times> nat option"

record FullState =
  fu_accum_reply :: "(string \<times> string) list option"
  fu_nodes_to_send :: "string list option"

datatype RequestState =
    Start
  | Single SingleState
  | Consensus ConsensusState
  | CatchupSingle CatchupSingleState
  | CatchupConsensus CatchupConsensusState
  | Full FullState
  | Finish

record RequestSM =
  sm_f :: nat
  sm_cmd_ids :: "CommandHandle list"
  sm_nodes :: Nodes
  sm_timeout :: int
  sm_extended_timeout :: int
  sm_number_read_nodes :: nat
  sm_state :: RequestState

definition request_sm_new :: "nat \<Rightarrow> CommandHandle list \<Rightarrow> Nodes \<Rightarrow> int \<Rightarrow> int \<Rightarrow> nat \<Rightarrow> RequestSM" where
  "request_sm_new f cmd_ids nodes timeout extended_timeout number_read_nodes =
    \<lparr> sm_f = f, sm_cmd_ids = cmd_ids, sm_nodes = nodes, sm_timeout = timeout, sm_extended_timeout = extended_timeout,
      sm_number_read_nodes = number_read_nodes, sm_state = Start \<rparr>"

type_synonym handled = "PoolDir \<times> effect list \<times> (RequestState \<times> PoolEvent option) IndyResult"

abbreviation handled_ok :: "PoolDir \<Rightarrow> effect list \<Rightarrow> RequestState \<Rightarrow> handled" where
  "handled_ok d effs st \<equiv> (d, effs, Inr (st, None))"

text \<open>\<^verbatim>\<open>entry(k).or_insert_with(..)\<close> followed by a change of the entry.\<close>

fun upsert :: "'k \<Rightarrow> ('v \<Rightarrow> 'v) \<Rightarrow> 'v \<Rightarrow> ('k \<times> 'v) list \<Rightarrow> ('k \<times> 'v) list" where
  "upsert k g init [] = [(k, g init)]"
| "upsert k g init ((k', v) # rest) = (if k' = k then (k', g v) # rest else (k', v) # upsert k g init rest)"

lemma map_of_upsert [simp]:
  "map_of (upsert k g init xs) = (map_of xs)(k \<mapsto> g (case map_of xs k of Some v \<Rightarrow> v | None \<Rightarrow> init))"
  by (induction xs) (auto simp: fun_eq_iff)

section \<open>Start\<close>

definition ledger_status_json :: "LedgerStatus \<Rightarrow> Value" where
  "ledger_status_json ls =
    Object ([(''op'', String ''LEDGER_STATUS''), (''txnSeqNo'', Number (int (txnSeqNo ls))), (''merkleRoot'', String (merkleRoot ls)),
      (''ledgerId'', Number (int (ls_ledgerId ls))),
      (''ppSeqNo'', case ppSeqNo ls of None \<Rightarrow> Null | Some n \<Rightarrow> Number (int n)),
      (''viewNo'', case viewNo ls of None \<Rightarrow> Null | Some n \<Rightarrow> Number (int n))] @
      (case protocolVersion ls of None \<Rightarrow> [] | Some n \<Rightarrow> [(''protocolVersion'', Number (int n))]))"

fun string_list :: "Value \<Rightarrow> string list option" where
  "string_list (Array vs) = those (map as_str vs)"
| "string_list _ = None"

definition single_new :: "bytes option \<Rightarrow> nat option \<times> nat option \<Rightarrow> SingleState" where
  "single_new sp_key timestamps =
    \<lparr> si_denied_nodes = [], si_replies = [], si_timeout_nodes = [], si_sp_key = sp_key, si_timestamps = timestamps \<rparr>"

definition consensus_new :: ConsensusState where
  "consensus_new = \<lparr> co_denied_nodes = [], co_replies = [], co_timeout_nodes = [] \<rparr>"

text \<open>\<^verbatim>\<open>number_read_nodes - 1\<close> on \<^verbatim>\<open>u8\<close>.\<close>

definition resend_count :: "plibs \<Rightarrow> nat \<Rightarrow> nat IndyResult" where
  "resend_count L n = (if n = 0 then if pb_overflow_checks L then Inl Panic else Inr 255 else Inr (n - 1))"

definition start_full :: "plibs \<Rightarrow> PoolDir \<Rightarrow> RequestSM \<Rightarrow> string \<Rightarrow> string \<Rightarrow> int option \<Rightarrow> string option \<Rightarrow> handled" where
  "start_full L d sm msg req_id local_timeout nodes_to_send =
    (let timeout = (case local_timeout of Some to \<Rightarrow> to | None \<Rightarrow> sm_extended_timeout sm) in
     case nodes_to_send of
       Some text \<Rightarrow>
         (case Option.bind (pb_json L text) string_list of
            Some ns \<Rightarrow>
              if ns \<noteq> [] \<and> list_all (\<lambda>n. n \<in> fst ` set (sm_nodes sm)) ns then
                handled_ok d [ToNetworker (SendAllRequest msg req_id timeout (Some ns))]
                  (Full \<lparr> fu_accum_reply = None, fu_nodes_to_send = Some ns \<rparr>)
              else handled_ok d (send_replies (sm_cmd_ids sm) (Inl (Error InvalidStructure))) Finish
          | None \<Rightarrow> handled_ok d (send_replies (sm_cmd_ids sm) (Inl (Error InvalidStructure))) Finish)
     | None \<Rightarrow>
         handled_ok d [ToNetworker (SendAllRequest msg req_id timeout None)]
           (Full \<lparr> fu_accum_reply = None, fu_nodes_to_send = None \<rparr>))"

fun start_event :: "plibs \<Rightarrow> PoolDir \<Rightarrow> RequestSM \<Rightarrow> RequestEvent \<Rightarrow> handled" where
  "start_event L d sm (LedgerStatusEvent ls _ (Some merkle)) =
    handled_ok d [ToNetworker (SendAllRequest (pb_to_json L (ledger_status_json ls)) (merkleRoot ls) (sm_extended_timeout sm) None)]
      (CatchupConsensus \<lparr> cc_replies = [], cc_merkle_tree = merkle \<rparr>)"
| "start_event L d sm (CatchupReqEvent merkle target_mt_size target_mt_root) =
    (case build_catchup_req L merkle target_mt_size of
       Inr (Some (req_id, req_json)) \<Rightarrow>
         handled_ok d [ToNetworker (SendOneRequest req_json req_id (sm_timeout sm))]
           (CatchupSingle \<lparr> cs_target_mt_root = target_mt_root, cs_target_mt_size = target_mt_size, cs_merkle_tree = merkle, cs_req_id = req_id \<rparr>)
     | Inr None \<Rightarrow> (d, [], Inr (Finish, Some (Synced merkle)))
     | Inl e \<Rightarrow> handled_ok d (send_replies (sm_cmd_ids sm) (Inl e)) Finish)"
| "start_event L d sm (CustomSingleRequest msg req_id sp_key timestamps) =
    (case resend_count L (sm_number_read_nodes sm) of
       Inl e \<Rightarrow> (d, [ToNetworker (SendOneRequest msg req_id (sm_timeout sm))], Inl e)
     | Inr n \<Rightarrow>
         handled_ok d (ToNetworker (SendOneRequest msg req_id (sm_timeout sm)) # replicate n (ToNetworker (Resend req_id (sm_timeout sm))))
           (Single (single_new sp_key timestamps)))"
| "start_event L d sm (CustomFullRequest msg req_id local_timeout nodes_to_send) = start_full L d sm msg req_id local_timeout nodes_to_send"
| "start_event L d sm (CustomConsensusRequest msg req_id) =
    handled_ok d [ToNetworker (SendAllRequest msg req_id (sm_timeout sm) None)] (Consensus consensus_new)"
| "start_event L d sm _ = handled_ok d [] Start"

section \<open>Consensus\<close>

definition max_count :: "('a \<times> 'b list) list \<Rightarrow> nat" where
  "max_count replies = foldr (\<lambda>e m. max (length (snd e)) m) replies 0"

definition reply_count :: "('a \<times> 'b list) list \<Rightarrow> nat" where
  "reply_count replies = sum_list (map (length \<circ> snd) replies)"

definition consensus_reachable :: "plibs \<Rightarrow> ConsensusState \<Rightarrow> nat \<Rightarrow> nat \<Rightarrow> bool IndyResult" where
  "consensus_reachable L st f total_nodes_cnt =
    bindr (usize_sub (pb_overflow_checks L) (max_count (co_replies st) + total_nodes_cnt) (reply_count (co_replies st))) (\<lambda>a.
    bindr (usize_sub (pb_overflow_checks L) a (length (co_timeout_nodes st))) (\<lambda>b.
    bindr (usize_sub (pb_overflow_checks L) b (length (co_denied_nodes st))) (\<lambda>c. Inr (f < c))))"

definition consensus_continue :: "plibs \<Rightarrow> PoolDir \<Rightarrow> RequestSM \<Rightarrow> ConsensusState \<Rightarrow> string \<Rightarrow> string \<Rightarrow> handled" where
  "consensus_continue L d sm st node_alias req_id =
    (case consensus_reachable L st (sm_f sm) (length (sm_nodes sm)) of
       Inl e \<Rightarrow> (d, [], Inl e)
     | Inr True \<Rightarrow> handled_ok d [ToNetworker (CleanTimeout req_id (Some node_alias))] (Consensus st)
     | Inr False \<Rightarrow>
         handled_ok d (send_replies (sm_cmd_ids sm) (Inl (Error PoolTimeout)) @ [ToNetworker (CleanTimeout req_id None)]) Finish)"

definition consensus_reply :: "plibs \<Rightarrow> PoolDir \<Rightarrow> RequestSM \<Rightarrow> ConsensusState \<Rightarrow> string \<Rightarrow> string \<Rightarrow> string \<Rightarrow> handled" where
  "consensus_reply L d sm st raw node_alias req_id =
    (case get_msg_result_without_state_proof L raw of
       Inr (_, result_without_proof) \<Rightarrow>
         (let st' = st\<lparr>co_replies := upsert result_without_proof (List.insert node_alias) [] (co_replies st)\<rparr>;
              cnt = length (the (map_of (co_replies st') result_without_proof))
          in if cnt > sm_f sm then
               handled_ok d (send_ok_replies (sm_cmd_ids sm) raw @ [ToNetworker (CleanTimeout req_id None)]) Finish
             else consensus_continue L d sm st' node_alias req_id)
     | Inl _ \<Rightarrow>
         (let st' = st\<lparr>co_denied_nodes := List.insert node_alias (co_denied_nodes st)\<rparr> in
          if length (co_denied_nodes st') + length (co_replies st') = length (sm_nodes sm) then
            handled_ok d (send_replies (sm_cmd_ids sm) (Inl (Error PoolTimeout))) Finish
          else handled_ok d [] (Consensus st')))"

fun consensus_event :: "plibs \<Rightarrow> PoolDir \<Rightarrow> RequestSM \<Rightarrow> ConsensusState \<Rightarrow> RequestEvent \<Rightarrow> handled" where
  "consensus_event L d sm st (ReplyEvent _ raw node_alias req_id) = consensus_reply L d sm st raw node_alias req_id"
| "consensus_event L d sm st (ReqNACKEvent _ raw node_alias req_id) = consensus_reply L d sm st raw node_alias req_id"
| "consensus_event L d sm st (RejectEvent _ raw node_alias req_id) = consensus_reply L d sm st raw node_alias req_id"
| "consensus_event L d sm st (ReqACKEvent _ _ node_alias req_id) =
    handled_ok d [ToNetworker (ExtendTimeout req_id node_alias (sm_extended_timeout sm))] (Consensus st)"
| "consensus_event L d sm st (TimeoutEvent req_id node_alias) =
    consensus_continue L d sm (st\<lparr>co_timeout_nodes := List.insert node_alias (co_timeout_nodes st)\<rparr>) node_alias req_id"
| "consensus_event L d sm st TerminateEvent = handled_ok d (finish_request (sm_cmd_ids sm)) Finish"
| "consensus_event L d sm st _ = handled_ok d [] (Consensus st)"

section \<open>Single\<close>

definition single_reachable :: "SingleState \<Rightarrow> nat \<Rightarrow> bool" where
  "single_reachable st total_nodes_cnt \<longleftrightarrow>
    length (si_timeout_nodes st) + length (si_denied_nodes st) + reply_count (si_replies st) < total_nodes_cnt"

definition try_to_continue :: "PoolDir \<Rightarrow> RequestSM \<Rightarrow> SingleState \<Rightarrow> string \<Rightarrow> string \<Rightarrow> handled" where
  "try_to_continue d sm st req_id node_alias =
    (if single_reachable st (length (sm_nodes sm)) then
       handled_ok d [ToNetworker (Resend req_id (sm_timeout sm)), ToNetworker (Resend req_id (sm_timeout sm)),
         ToNetworker (CleanTimeout req_id (Some node_alias))] (Single st)
     else
       handled_ok d (send_replies (sm_cmd_ids sm) (Inl (Error PoolTimeout)) @ [ToNetworker (CleanTimeout req_id None)]) Finish)"

definition insert_response :: "NodeResponse \<Rightarrow> NodeResponse list \<Rightarrow> NodeResponse list" where
  "insert_response r rs = (if nr_node_alias r \<in> nr_node_alias ` set rs then rs else r # rs)"

text \<open>The reply recorded, and the answer if there is one: enough equal replies or a valid state proof.\<close>

definition single_record :: "SingleState \<Rightarrow> string \<Rightarrow> string \<Rightarrow> Value \<Rightarrow> nat \<Rightarrow> SingleState" where
  "single_record st raw alias result_without_proof last_write_time =
    st\<lparr>si_replies := upsert result_without_proof
      (insert_response \<lparr> nr_raw_msg = raw, nr_node_alias = alias, nr_timestamp = last_write_time \<rparr>) [] (si_replies st)\<rparr>"

definition single_decide ::
  "plibs \<Rightarrow> splibs \<Rightarrow> RequestSM \<Rightarrow> SingleState \<Rightarrow> string \<Rightarrow> Value \<Rightarrow> Value \<Rightarrow> nat \<Rightarrow> string option IndyResult" where
  "single_decide L sp sm st' raw result result_without_proof last_write_time =
    (let rs = the (map_of (si_replies st') result_without_proof);
         soonest = (case max_by_key nr_timestamp rs of Some r \<Rightarrow> nr_raw_msg r | None \<Rightarrow> raw)
     in if length rs > sm_f sm then Inr (Some soonest)
        else bindr (check_state_proof L sp result (sm_f sm) (sm_nodes sm) raw (si_sp_key st') (si_timestamps st') last_write_time)
          (\<lambda>ok. Inr (if ok then Some raw else None)))"

definition single_reply ::
  "plibs \<Rightarrow> splibs \<Rightarrow> PoolDir \<Rightarrow> RequestSM \<Rightarrow> SingleState \<Rightarrow> string \<Rightarrow> string \<Rightarrow> string \<Rightarrow> handled" where
  "single_reply L sp d sm st0 raw alias req_id =
    (let st = st0\<lparr>si_timeout_nodes := removeAll alias (si_timeout_nodes st0)\<rparr> in
     case get_msg_result_without_state_proof L raw of
       Inr (result, result_without_proof) \<Rightarrow>
         (case get_last_signed_time L raw of
            Inl e \<Rightarrow> (d, [], Inl e)
          | Inr t \<Rightarrow>
              (let last_write_time = (case t of Some n \<Rightarrow> n | None \<Rightarrow> 0);
                   st' = single_record st raw alias result_without_proof last_write_time
               in case single_decide L sp sm st' raw result result_without_proof last_write_time of
                    Inl e \<Rightarrow> (d, [], Inl e)
                  | Inr (Some answer) \<Rightarrow>
                      handled_ok d (ToNetworker (CleanTimeout req_id None) # send_ok_replies (sm_cmd_ids sm) answer) Finish
                  | Inr None \<Rightarrow> try_to_continue d sm st' req_id alias))
     | Inl _ \<Rightarrow> try_to_continue d sm (st\<lparr>si_denied_nodes := List.insert alias (si_denied_nodes st)\<rparr>) req_id alias)"

fun single_event :: "plibs \<Rightarrow> splibs \<Rightarrow> PoolDir \<Rightarrow> RequestSM \<Rightarrow> SingleState \<Rightarrow> RequestEvent \<Rightarrow> handled" where
  "single_event L sp d sm st (ReplyEvent _ raw alias req_id) = single_reply L sp d sm st raw alias req_id"
| "single_event L sp d sm st (ReqNACKEvent _ raw alias req_id) = single_reply L sp d sm st raw alias req_id"
| "single_event L sp d sm st (RejectEvent _ raw alias req_id) = single_reply L sp d sm st raw alias req_id"
| "single_event L sp d sm st (ReqACKEvent _ _ alias req_id) =
    handled_ok d [ToNetworker (ExtendTimeout req_id alias (sm_extended_timeout sm))] (Single st)"
| "single_event L sp d sm st (TimeoutEvent req_id alias) =
    try_to_continue d sm (st\<lparr>si_timeout_nodes := List.insert alias (si_timeout_nodes st)\<rparr>) req_id alias"
| "single_event L sp d sm st TerminateEvent = handled_ok d (finish_request (sm_cmd_ids sm)) Finish"
| "single_event L sp d sm st _ = handled_ok d [] (Single st)"

section \<open>Finding the catch-up target\<close>

definition process_catchup_target ::
  "plibs \<Rightarrow> PoolDir \<Rightarrow> string \<Rightarrow> nat \<Rightarrow> string list option \<Rightarrow> string \<Rightarrow> CatchupConsensusState \<Rightarrow> nat \<Rightarrow> Nodes
    \<Rightarrow> PoolDir \<times> CatchupConsensusState \<times> (bool \<times> PoolEvent option) IndyResult" where
  "process_catchup_target L d merkle_root txn_seq_no cons_proof node_alias st f nodes =
    (let st' = st\<lparr>cc_replies := upsert (merkle_root, txn_seq_no, cons_proof) (List.insert node_alias) [] (cc_replies st)\<rparr> in
     case check_nodes_responses_on_status L d (cc_replies st') (cc_merkle_tree st') (length nodes) f of
       (d', r) \<Rightarrow> (d', st',
         (case r of
            Inr InProgress \<Rightarrow> Inr (False, None)
          | Inr (NotNeeded merkle_tree) \<Rightarrow> Inr (True, Some (Synced merkle_tree))
          | Inr (Restart merkle_tree) \<Rightarrow> Inr (False, Some (CatchupRestart merkle_tree))
          | Inr (ShouldBeStarted target_mt_root target_mt_size merkle_tree) \<Rightarrow>
              Inr (True, Some (CatchupTargetFound target_mt_root target_mt_size merkle_tree))
          | Inl Panic \<Rightarrow> Inl Panic
          | Inl (Error e) \<Rightarrow> Inr (True, Some (CatchupTargetNotFound (Error e))))))"

definition catchup_target_handle_consensus_state ::
  "plibs \<Rightarrow> PoolDir \<Rightarrow> CatchupConsensusState \<Rightarrow> string \<Rightarrow> nat \<Rightarrow> string list option \<Rightarrow> string \<Rightarrow> string \<Rightarrow> nat \<Rightarrow> Nodes \<Rightarrow> handled" where
  "catchup_target_handle_consensus_state L d st merkle_root sz cons_proof node_alias req_id f nodes =
    (case process_catchup_target L d merkle_root sz cons_proof node_alias st f nodes of
       (d', st', Inl e) \<Rightarrow> (d', [], Inl e)
     | (d', st', Inr (True, result)) \<Rightarrow> (d', [ToNetworker (CleanTimeout req_id None)], Inr (Finish, result))
     | (d', st', Inr (False, Some (CatchupRestart merkle_tree))) \<Rightarrow>
         (d', [ToNetworker (CleanTimeout req_id None)], Inr (CatchupConsensus st', Some (CatchupRestart merkle_tree)))
     | (d', st', Inr (False, result)) \<Rightarrow>
         (d', [ToNetworker (CleanTimeout req_id (Some node_alias))], Inr (CatchupConsensus st', result)))"

fun catchup_consensus_event :: "plibs \<Rightarrow> PoolDir \<Rightarrow> RequestSM \<Rightarrow> CatchupConsensusState \<Rightarrow> RequestEvent \<Rightarrow> handled" where
  "catchup_consensus_event L d sm st (LedgerStatusEvent ls (Some node_alias) _) =
    catchup_target_handle_consensus_state L d st (merkleRoot ls) (txnSeqNo ls) None node_alias (merkleRoot ls) (sm_f sm) (sm_nodes sm)"
| "catchup_consensus_event L d sm st (ConsistencyProofEvent cp node_alias) =
    catchup_target_handle_consensus_state L d st (newMerkleRoot cp) (seqNoEnd cp) (Some (hashes cp)) node_alias (oldMerkleRoot cp)
      (sm_f sm) (sm_nodes sm)"
| "catchup_consensus_event L d sm st (TimeoutEvent req_id node_alias) =
    catchup_target_handle_consensus_state L d st ''timeout'' 0 None node_alias req_id (sm_f sm) (sm_nodes sm)"
| "catchup_consensus_event L d sm st TerminateEvent = handled_ok d (finish_request (sm_cmd_ids sm)) Finish"
| "catchup_consensus_event L d sm st _ = handled_ok d [] (CatchupConsensus st)"

section \<open>Fetching the missing transactions\<close>

fun catchup_single_event :: "plibs \<Rightarrow> PoolDir \<Rightarrow> RequestSM \<Rightarrow> CatchupSingleState \<Rightarrow> RequestEvent \<Rightarrow> handled" where
  "catchup_single_event L d sm st (CatchupRepEvent cr node_alias) =
    (case process_catchup_reply L d cr (cs_merkle_tree st) (cs_target_mt_root st) (cs_target_mt_size st) of
       (d', Inr merkle) \<Rightarrow> (d', [ToNetworker (CleanTimeout (cs_req_id st) None)], Inr (Finish, Some (Synced merkle)))
     | (d', Inl Panic) \<Rightarrow> (d', [], Inl Panic)
     | (d', Inl (Error _)) \<Rightarrow>
         handled_ok d' [ToNetworker (Resend (cs_req_id st) (sm_timeout sm)), ToNetworker (CleanTimeout (cs_req_id st) (Some node_alias))]
           (CatchupSingle st))"
| "catchup_single_event L d sm st (TimeoutEvent req_id node_alias) =
    handled_ok d [ToNetworker (Resend (cs_req_id st) (sm_timeout sm)), ToNetworker (CleanTimeout req_id (Some node_alias))] (CatchupSingle st)"
| "catchup_single_event L d sm st TerminateEvent = handled_ok d (finish_request (sm_cmd_ids sm)) Finish"
| "catchup_single_event L d sm st _ = handled_ok d [] (CatchupSingle st)"

section \<open>Requests to all nodes\<close>

text \<open>A JSON object keeps its entries sorted; inserting replaces an entry.\<close>

fun object_insert :: "string \<Rightarrow> 'a \<Rightarrow> (string \<times> 'a) list \<Rightarrow> (string \<times> 'a) list" where
  "object_insert k v [] = [(k, v)]"
| "object_insert k v ((k', v') # rest) =
    (if k = k' then (k, v) # rest else if k < k' then (k, v) # (k', v') # rest else (k', v') # object_insert k v rest)"

definition full_request_handle_consensus_state ::
  "plibs \<Rightarrow> PoolDir \<Rightarrow> FullState \<Rightarrow> string \<Rightarrow> string \<Rightarrow> string \<Rightarrow> CommandHandle list \<Rightarrow> Nodes \<Rightarrow> handled" where
  "full_request_handle_consensus_state L d st req_id node_alias node_result cmd_ids nodes =
    (let accum = (case fu_accum_reply st of None \<Rightarrow> [(node_alias, node_result)] | Some kvs \<Rightarrow> object_insert node_alias node_result kvs);
         required_reply_cnt = (case fu_nodes_to_send st of Some ns \<Rightarrow> length ns | None \<Rightarrow> length nodes)
     in if length accum = required_reply_cnt then
          handled_ok d (ToNetworker (CleanTimeout req_id None) #
            send_ok_replies cmd_ids (pb_to_json L (Object (map (\<lambda>(k, v). (k, String v)) accum)))) Finish
        else
          handled_ok d [ToNetworker (CleanTimeout req_id (Some node_alias))] (Full (st\<lparr>fu_accum_reply := Some accum\<rparr>)))"

fun full_event :: "plibs \<Rightarrow> PoolDir \<Rightarrow> RequestSM \<Rightarrow> FullState \<Rightarrow> RequestEvent \<Rightarrow> handled" where
  "full_event L d sm st (ReplyEvent _ raw node_alias req_id) =
    full_request_handle_consensus_state L d st req_id node_alias raw (sm_cmd_ids sm) (sm_nodes sm)"
| "full_event L d sm st (ReqNACKEvent _ raw node_alias req_id) =
    full_request_handle_consensus_state L d st req_id node_alias raw (sm_cmd_ids sm) (sm_nodes sm)"
| "full_event L d sm st (RejectEvent _ raw node_alias req_id) =
    full_request_handle_consensus_state L d st req_id node_alias raw (sm_cmd_ids sm) (sm_nodes sm)"
| "full_event L d sm st (TimeoutEvent req_id node_alias) =
    full_request_handle_consensus_state L d st req_id node_alias ''timeout'' (sm_cmd_ids sm) (sm_nodes sm)"
| "full_event L d sm st TerminateEvent = handled_ok d (finish_request (sm_cmd_ids sm)) Finish"
| "full_event L d sm st _ = handled_ok d [] (Full st)"

section \<open>The handler\<close>

definition state_event :: "plibs \<Rightarrow> splibs \<Rightarrow> PoolDir \<Rightarrow> RequestSM \<Rightarrow> RequestEvent \<Rightarrow> handled" where
  "state_event L sp d sm re =
    (case sm_state sm of
       Start \<Rightarrow> start_event L d sm re
     | Consensus st \<Rightarrow> consensus_event L d sm st re
     | Single st \<Rightarrow> single_event L sp d sm st re
     | CatchupConsensus st \<Rightarrow> catchup_consensus_event L d sm st re
     | CatchupSingle st \<Rightarrow> catchup_single_event L d sm st re
     | Full st \<Rightarrow> full_event L d sm st re
     | Finish \<Rightarrow> handled_ok d [] Finish)"

definition handle_event ::
  "plibs \<Rightarrow> splibs \<Rightarrow> PoolDir \<Rightarrow> RequestSM \<Rightarrow> RequestEvent \<Rightarrow> PoolDir \<times> effect list \<times> (RequestSM \<times> PoolEvent option) IndyResult" where
  "handle_event L sp d sm re =
    (case state_event L sp d sm re of
       (d', effs, r) \<Rightarrow> (d', effs, bindr r (\<lambda>(st, event). Inr (sm\<lparr>sm_state := st\<rparr>, event))))"

definition request_is_terminal :: "RequestSM \<Rightarrow> bool" where
  "request_is_terminal sm = (case sm_state sm of Finish \<Rightarrow> True | _ \<Rightarrow> False)"

text \<open>\<^verbatim>\<open>RequestHandlerImpl\<close> keeps the machine in an \<^verbatim>\<open>Option\<close> and ignores the missing event.\<close>

definition request_process_event ::
  "plibs \<Rightarrow> splibs \<Rightarrow> PoolDir \<Rightarrow> RequestSM option \<Rightarrow> RequestEvent option
    \<Rightarrow> PoolDir \<times> effect list \<times> (RequestSM option \<times> PoolEvent option) IndyResult" where
  "request_process_event L sp d wrapper ore =
    (case ore of
       None \<Rightarrow> (d, [], Inr (wrapper, None))
     | Some re \<Rightarrow>
         (case wrapper of
            None \<Rightarrow> (d, [], Inr (None, None))
          | Some w \<Rightarrow>
              (case handle_event L sp d w re of
                 (d', effs, r) \<Rightarrow> (d', effs, bindr r (\<lambda>(rw, res). Inr (Some rw, res))))))"

end
