(* ===== verification/Pool_Nodes.thy ===== *)
theory Pool_Nodes
  imports Request_Handler
begin

text \<open>
  The nodes of a pool as its transactions describe them: \<^verbatim>\<open>build_node_state\<close> of \<^verbatim>\<open>merkle_tree_factory.rs\<close>, the node transactions
  of \<^verbatim>\<open>types.rs\<close> with their update, \<^verbatim>\<open>build_full_verkey\<close> of \<^verbatim>\<open>utils/crypto/verkey_builder.rs\<close>, and the selection of validators
  \<^verbatim>\<open>_get_nodes_and_remotes\<close> of \<^verbatim>\<open>pool.rs\<close> with \<^verbatim>\<open>_get_f\<close> and \<^verbatim>\<open>_ledger_status\<close>. Decoding a transaction from MessagePack,
  the conversion of keys and the order in which a hash map iterates are parameters.
\<close>

section \<open>Transactions\<close>

record NodeData =
  nd_alias :: string
  nd_client_ip :: "string option"
  nd_client_port :: "nat option"
  nd_node_ip :: "string option"
  nd_node_port :: "nat option"
  nd_services :: "string list option"
  nd_blskey :: "string option"
  nd_blskey_pop :: "string option"

record NodeTransactionV0 =
  n0_data :: NodeData
  n0_dest :: string
  n0_identifier :: string
  n0_txn_id :: "string option"
  n0_verkey :: "string option"
  n0_txn_type :: string

record TxnData =
  td_data :: NodeData
  td_dest :: string
  td_verkey :: "string option"

record TxnMetadata =
  tm_req_id :: "int option"
  tm_from :: string

record Txn =
  tx_txn_type :: string
  tx_protocol_version :: "int option"
  tx_data :: TxnData
  tx_metadata :: TxnMetadata

record NodeMetadata =
  me_creation_time :: "nat option"
  me_seq_no :: "int option"
  me_txn_id :: "string option"

record ReqSignature =
  rs_type :: "string option"
  rs_values :: "(string option \<times> string option) list option"

record NodeTransactionV1 =
  n1_txn :: Txn
  n1_txn_metadata :: NodeMetadata
  n1_req_signature :: ReqSignature
  n1_ver :: string

datatype NodeTransaction = TransactionV0 NodeTransactionV0 | TransactionV1 NodeTransactionV1

text \<open>
  \<open>nb_decode\<close> is \<^verbatim>\<open>rmp_serde::decode::from_slice\<close>, \<open>nb_transport_key\<close> the conversion of an Ed25519 key for the transport,
  \<open>nb_bls_key\<close> \<^verbatim>\<open>VerKey::from_bytes\<close>, \<open>nb_order\<close> the order in which the map of nodes iterates.
\<close>

record nlibs =
  nb_plibs :: plibs
  nb_decode :: "bytes \<Rightarrow> NodeTransaction option"
  nb_transport_key :: "bytes \<Rightarrow> bytes option"
  nb_bls_key :: "bytes \<Rightarrow> bytes option"
  nb_order :: "(string \<times> NodeTransactionV1) list \<Rightarrow> (string \<times> NodeTransactionV1) list"
  nb_protocol_version :: nat

abbreviation txn_dest :: "NodeTransactionV1 \<Rightarrow> string" where
  "txn_dest t \<equiv> td_dest (tx_data (n1_txn t))"

abbreviation txn_data :: "NodeTransactionV1 \<Rightarrow> NodeData" where
  "txn_data t \<equiv> td_data (tx_data (n1_txn t))"

abbreviation txn_verkey :: "NodeTransactionV1 \<Rightarrow> string option" where
  "txn_verkey t \<equiv> td_verkey (tx_data (n1_txn t))"

definition from_v0 :: "NodeTransactionV0 \<Rightarrow> NodeTransactionV1" where
  "from_v0 t =
    \<lparr> n1_txn = \<lparr> tx_txn_type = n0_txn_type t, tx_protocol_version = None,
        tx_data = \<lparr> td_data = n0_data t, td_dest = n0_dest t, td_verkey = n0_verkey t \<rparr>,
        tx_metadata = \<lparr> tm_req_id = None, tm_from = n0_identifier t \<rparr> \<rparr>,
      n1_txn_metadata = \<lparr> me_creation_time = None, me_seq_no = None, me_txn_id = n0_txn_id t \<rparr>,
      n1_req_signature = \<lparr> rs_type = None, rs_values = None \<rparr>,
      n1_ver = ''1'' \<rparr>"

section \<open>Keys\<close>

text \<open>\<^verbatim>\<open>split(':')\<close>.\<close>

fun split_colon :: "string \<Rightarrow> string list" where
  "split_colon [] = [[]]"
| "split_colon (c # cs) =
    (if c = CHR '':'' then [] # split_colon cs
     else case split_colon cs of s # ss \<Rightarrow> (c # s) # ss | [] \<Rightarrow> [[c]])"

text \<open>An abbreviated key, marked by a tilde, is completed with the identifier; a crypto type after a colon is kept.\<close>

definition build_full_verkey :: "plibs \<Rightarrow> string \<Rightarrow> string option \<Rightarrow> string IndyResult" where
  "build_full_verkey L dest verkey =
    (case verkey of
       None \<Rightarrow> Inr dest
     | Some vk \<Rightarrow>
         (let (key, crypto_type) =
              (if CHR '':'' \<in> set vk then (split_colon vk ! 0, Some (split_colon vk ! 1)) else (vk, None))
          in bindr
            (case key of
               c # rest \<Rightarrow>
                 if c = CHR ''~'' then
                   bindr (ok_or (pb_from_base58 L dest) (Error InvalidStructure)) (\<lambda>start.
                   bindr (ok_or (pb_from_base58 L rest) (Error InvalidStructure)) (\<lambda>suffix.
                     Inr (pb_to_base58 L (start @ suffix))))
                 else Inr key
             | [] \<Rightarrow> Inr key) (\<lambda>full.
            Inr (case crypto_type of Some ct \<Rightarrow> full @ '':'' @ ct | None \<Rightarrow> full))))"

section \<open>The state of the nodes\<close>

definition newer :: "'a option \<Rightarrow> 'a option \<Rightarrow> 'a option" where
  "newer old new = (case new of Some x \<Rightarrow> Some x | None \<Rightarrow> old)"

definition update_data :: "NodeData \<Rightarrow> NodeData \<Rightarrow> NodeData" where
  "update_data d other =
    d\<lparr> nd_client_ip := newer (nd_client_ip d) (nd_client_ip other),
       nd_client_port := newer (nd_client_port d) (nd_client_port other),
       nd_node_ip := newer (nd_node_ip d) (nd_node_ip other),
       nd_node_port := newer (nd_node_port d) (nd_node_port other),
       nd_blskey := newer (nd_blskey d) (nd_blskey other),
       nd_blskey_pop := newer (nd_blskey_pop d) (nd_blskey_pop other),
       nd_services := newer (nd_services d) (nd_services other) \<rparr>"

definition set_data :: "(TxnData \<Rightarrow> TxnData) \<Rightarrow> NodeTransactionV1 \<Rightarrow> NodeTransactionV1" where
  "set_data g t = t\<lparr> n1_txn := (n1_txn t)\<lparr> tx_data := g (tx_data (n1_txn t)) \<rparr> \<rparr>"

text \<open>Two failed assertions panic.\<close>

definition txn_update :: "plibs \<Rightarrow> NodeTransactionV1 \<Rightarrow> NodeTransactionV1 \<Rightarrow> NodeTransactionV1 IndyResult" where
  "txn_update L self other =
    (if txn_dest self \<noteq> txn_dest other \<or> nd_alias (txn_data self) \<noteq> nd_alias (txn_data other) then Inl Panic
     else let self1 = set_data (\<lambda>d. d\<lparr>td_data := update_data (td_data d) (txn_data other)\<rparr>) self in
       (case txn_verkey other of
          None \<Rightarrow> Inr self1
        | Some vk \<Rightarrow>
            bindr (build_full_verkey L (txn_dest self) (Some vk)) (\<lambda>full.
              Inr (set_data (\<lambda>d. d\<lparr>td_verkey := Some full\<rparr>) self1))))"

definition check_version :: "nlibs \<Rightarrow> NodeTransaction \<Rightarrow> NodeTransactionV1 IndyResult" where
  "check_version N t =
    (case t of
       TransactionV0 txn \<Rightarrow> if nb_protocol_version N \<noteq> 1 then Inl (Error PoolIncompatibleProtocolVersion) else Inr (from_v0 txn)
     | TransactionV1 txn \<Rightarrow> if nb_protocol_version N \<noteq> 2 then Inl (Error PoolIncompatibleProtocolVersion) else Inr txn)"

fun node_state_loop :: "nlibs \<Rightarrow> bytes list \<Rightarrow> (string \<times> NodeTransactionV1) list \<Rightarrow> (string \<times> NodeTransactionV1) list IndyResult" where
  "node_state_loop N [] gen_txns = Inr gen_txns"
| "node_state_loop N (x # xs) gen_txns =
    bindr (ok_or (nb_decode N x) (Error InvalidState)) (\<lambda>t.
    bindr (check_version N t) (\<lambda>txn.
      case map_of gen_txns (txn_dest txn) of
        Some old \<Rightarrow> bindr (txn_update (nb_plibs N) old txn) (\<lambda>new. node_state_loop N xs (upsert (txn_dest txn) (\<lambda>_. new) new gen_txns))
      | None \<Rightarrow> node_state_loop N xs (upsert (txn_dest txn) (\<lambda>_. txn) txn gen_txns)))"

definition build_node_state :: "nlibs \<Rightarrow> MerkleTree \<Rightarrow> (string \<times> NodeTransactionV1) list IndyResult" where
  "build_node_state N mt = node_state_loop N (iter_collect (mt_iter mt)) []"

section \<open>Validators\<close>

definition node_of_txn :: "nlibs \<Rightarrow> NodeTransactionV1 \<Rightarrow> ((string \<times> bytes option) \<times> RemoteNode) IndyResult" where
  "node_of_txn N t =
    (let L = nb_plibs N; data = txn_data t in
     bindr (ok_or (pb_from_base58 L (txn_dest t)) (Error InvalidStructure)) (\<lambda>vk.
     bindr (ok_or (nb_transport_key N vk) (Error InvalidStructure)) (\<lambda>public_key.
     if (case nd_services data of Some ss \<Rightarrow> ''VALIDATOR'' \<notin> set ss | None \<Rightarrow> True) then Inl (Error InvalidState)
     else case (nd_client_ip data, nd_client_port data) of
       (Some ip, Some port) \<Rightarrow>
         (let remote = \<lparr> rn_name = nd_alias data, rn_public_key = public_key, rn_zaddr = ''tcp://'' @ ip @ '':'' @ decimal port, rn_is_blacklisted = False \<rparr>
          in bindr (case nd_blskey data of
                      None \<Rightarrow> Inr None
                    | Some blskey \<Rightarrow>
                        bindr (ok_or (pb_from_base58 L blskey) (Error InvalidStructure)) (\<lambda>key.
                        bindr (ok_or (nb_bls_key N key) (Error InvalidStructure)) (\<lambda>k. Inr (Some k)))) (\<lambda>verkey.
             Inr ((nd_alias data, verkey), remote)))
     | _ \<Rightarrow> Inl (Error InvalidState))))"

text \<open>A transaction that does not describe a usable validator is left out.\<close>

fun collect_nodes :: "nlibs \<Rightarrow> NodeTransactionV1 list \<Rightarrow> Nodes \<times> RemoteNode list \<Rightarrow> Nodes \<times> RemoteNode list" where
  "collect_nodes N [] acc = acc"
| "collect_nodes N (t # ts) (nodes, remotes) =
    collect_nodes N ts
      (case node_of_txn N t of
         Inl _ \<Rightarrow> (nodes, remotes)
       | Inr ((alias, verkey), remote) \<Rightarrow> (upsert alias (\<lambda>_. verkey) verkey nodes, remotes @ [remote]))"

definition get_nodes_and_remotes :: "nlibs \<Rightarrow> MerkleTree \<Rightarrow> (Nodes \<times> RemoteNode list) IndyResult" where
  "get_nodes_and_remotes N mt =
    bindr (build_node_state N mt) (\<lambda>state. Inr (collect_nodes N (map snd (nb_order N state)) ([], [])))"

definition get_f :: "nat \<Rightarrow> nat" where
  "get_f cnt = (if cnt < 4 then 0 else (cnt - 1) div 3)"

definition ledger_status :: "nlibs \<Rightarrow> MerkleTree \<Rightarrow> LedgerStatus" where
  "ledger_status N mt =
    \<lparr> txnSeqNo = mt_count mt, merkleRoot = pb_to_base58 (nb_plibs N) (root_hash mt), ls_ledgerId = 0, ppSeqNo = None, viewNo = None,
      protocolVersion = (if 1 < nb_protocol_version N then Some (nb_protocol_version N) else None) \<rparr>"

section \<open>What the state of a node is\<close>

definition node_txns :: "nlibs \<Rightarrow> MerkleTree \<Rightarrow> NodeTransactionV1 list IndyResult" where
  "node_txns N mt = traverse (\<lambda>x. bindr (ok_or (nb_decode N x) (Error InvalidState)) (check_version N)) (iter_collect (mt_iter mt))"

abbreviation txns_for :: "string \<Rightarrow> NodeTransactionV1 list \<Rightarrow> NodeTransactionV1 list" where
  "txns_for d ts \<equiv> filter (\<lambda>t. txn_dest t = d) ts"

text \<open>The last value a field was given.\<close>

definition latest :: "(NodeData \<Rightarrow> 'a option) \<Rightarrow> NodeTransactionV1 list \<Rightarrow> 'a option" where
  "latest g ts = foldl (\<lambda>old t. newer old (g (txn_data t))) None ts"

lemma newer_None [simp]: "newer None x = x"
  by (cases x) (simp_all add: newer_def)

lemma latest_simps [simp]:
  "latest g [] = None" "latest g [t] = g (txn_data t)" "latest g (ts @ [t]) = newer (latest g ts) (g (txn_data t))"
  by (simp_all add: latest_def)

definition holds_latest :: "string \<Rightarrow> NodeTransactionV1 \<Rightarrow> NodeTransactionV1 list \<Rightarrow> bool" where
  "holds_latest d t ts \<longleftrightarrow> txn_dest t = d \<and>
    nd_client_ip (txn_data t) = latest nd_client_ip ts \<and> nd_client_port (txn_data t) = latest nd_client_port ts \<and>
    nd_node_ip (txn_data t) = latest nd_node_ip ts \<and> nd_node_port (txn_data t) = latest nd_node_port ts \<and>
    nd_services (txn_data t) = latest nd_services ts \<and>
    nd_blskey (txn_data t) = latest nd_blskey ts \<and> nd_blskey_pop (txn_data t) = latest nd_blskey_pop ts \<and>
    (\<forall>u\<in>set ts. nd_alias (txn_data u) = nd_alias (txn_data t))"

definition latest_map :: "NodeTransactionV1 list \<Rightarrow> (string \<times> NodeTransactionV1) list \<Rightarrow> bool" where
  "latest_map ts st \<longleftrightarrow> (\<forall>d. case map_of st d of
     None \<Rightarrow> txns_for d ts = []
   | Some t \<Rightarrow> txns_for d ts \<noteq> [] \<and> holds_latest d t (txns_for d ts))"

lemma holds_latest_first: "holds_latest (txn_dest t) t [t]"
  by (simp add: holds_latest_def)

lemma txn_update_latest:
  assumes "txn_update L old t = Inr new" "holds_latest (txn_dest t) old ts"
  shows "holds_latest (txn_dest t) new (ts @ [t])"
proof -
  have "txn_dest new = txn_dest old \<and> txn_data new = update_data (txn_data old) (txn_data t) \<and> nd_alias (txn_data t) = nd_alias (txn_data old)"
    using assms(1) by (auto simp: txn_update_def set_data_def Let_def bindr_Inr_iff split: if_splits option.splits)
  then show ?thesis using assms(2) by (simp add: holds_latest_def update_data_def)
qed

lemma node_state_loop_latest:
  "node_state_loop N xs st = Inr st' \<Longrightarrow> latest_map ts st \<Longrightarrow>
    \<exists>us. traverse (\<lambda>x. bindr (ok_or (nb_decode N x) (Error InvalidState)) (check_version N)) xs = Inr us \<and> latest_map (ts @ us) st'"
proof (induction xs arbitrary: ts st)
  case (Cons x xs)
  from Cons.prems(1) obtain y t where t: "nb_decode N x = Some y" "check_version N y = Inr t" by (auto simp: bindr_Inr_iff)
  have step: "\<exists>us. traverse (\<lambda>x. bindr (ok_or (nb_decode N x) (Error InvalidState)) (check_version N)) (x # xs) = Inr us \<and> latest_map (ts @ us) st'"
    if n: "node_state_loop N xs (upsert (txn_dest t) (\<lambda>_. new) new st) = Inr st'" "holds_latest (txn_dest t) new (txns_for (txn_dest t) ts @ [t])" for new
  proof -
    have "latest_map (ts @ [t]) (upsert (txn_dest t) (\<lambda>_. new) new st)"
      unfolding latest_map_def
    proof
      fix d
      have "case map_of st d of None \<Rightarrow> txns_for d ts = [] | Some t \<Rightarrow> txns_for d ts \<noteq> [] \<and> holds_latest d t (txns_for d ts)"
        using Cons.prems(2) by (simp add: latest_map_def)
      then show "case map_of (upsert (txn_dest t) (\<lambda>_. new) new st) d of None \<Rightarrow> txns_for d (ts @ [t]) = []
          | Some u \<Rightarrow> txns_for d (ts @ [t]) \<noteq> [] \<and> holds_latest d u (txns_for d (ts @ [t]))"
        using n(2) by (cases "d = txn_dest t") (auto split: option.splits)
    qed
    from Cons.IH [OF n(1) this] t show ?thesis by (auto simp: bindr_Inr_iff)
  qed
  show ?case
  proof (cases "map_of st (txn_dest t)")
    case None
    then have "txns_for (txn_dest t) ts = []" using spec [OF Cons.prems(2) [unfolded latest_map_def], of "txn_dest t"] by simp
    moreover have "node_state_loop N xs (upsert (txn_dest t) (\<lambda>_. t) t st) = Inr st'" using Cons.prems(1) t None by simp
    ultimately show ?thesis using step [of t] holds_latest_first [of t] by simp
  next
    case (Some old)
    then have h: "holds_latest (txn_dest t) old (txns_for (txn_dest t) ts)" using spec [OF Cons.prems(2) [unfolded latest_map_def], of "txn_dest t"] by simp
    from Cons.prems(1) t Some obtain new where "txn_update (nb_plibs N) old t = Inr new"
        "node_state_loop N xs (upsert (txn_dest t) (\<lambda>_. new) new st) = Inr st'" by (auto simp: bindr_Inr_iff)
    then show ?thesis using step txn_update_latest [OF _ h] by blast
  qed
qed simp

section \<open>Nodes and quorums\<close>

lemma map_fst_upsert: "map fst (upsert k g i xs) = (if k \<in> fst ` set xs then map fst xs else map fst xs @ [k])"
  by (induction xs) force+

lemma collect_nodes_inv:
  "collect_nodes N ts (nodes, remotes) = (nodes', remotes') \<Longrightarrow>
    distinct (map fst nodes) \<and> fst ` set nodes = rn_name ` set remotes \<and> length nodes \<le> length remotes \<Longrightarrow>
    distinct (map fst nodes') \<and> fst ` set nodes' = rn_name ` set remotes' \<and> length nodes' \<le> length remotes'"
proof (induction ts arbitrary: nodes remotes)
  case (Cons t ts)
  show ?case
  proof (cases "node_of_txn N t")
    case (Inl e)
    then show ?thesis using Cons by simp
  next
    case (Inr x)
    obtain a v r where x: "x = ((a, v), r)" by (metis surj_pair)
    have name: "rn_name r = a" using Inr unfolding x node_of_txn_def Let_def
      by (auto simp: bindr_Inr_iff split: if_splits option.splits)
    let ?nodes = "upsert a (\<lambda>_. v) v nodes"
    have "map fst ?nodes = (if a \<in> fst ` set nodes then map fst nodes else map fst nodes @ [a])" by (rule map_fst_upsert)
    moreover from arg_cong [OF this, of set] arg_cong [OF this, of length]
    have "fst ` set ?nodes = insert a (fst ` set nodes)" "length ?nodes \<le> Suc (length nodes)" by (auto split: if_splits)
    ultimately show ?thesis
      using Cons.IH [of ?nodes "remotes @ [r]"] Cons.prems Inr x name by (auto split: if_splits)
  qed
qed simp

lemma get_nodes_distinct:
  assumes "get_nodes_and_remotes N mt = Inr (nodes, remotes)"
  shows "distinct (map fst nodes)" "fst ` set nodes = rn_name ` set remotes" "length nodes \<le> length remotes"
  using assms collect_nodes_inv [of N _ "[]" "[]" nodes remotes] by (auto simp: get_nodes_and_remotes_def bindr_Inr_iff)

lemma get_f_bound: "0 < n \<Longrightarrow> 3 * get_f n < n"
  by (auto simp: get_f_def)

end
