(* ===== verification/Patricia.thy ===== *)
theory Patricia
  imports Rust_Std
begin

unbundle bit_operations_syntax

text \<open>
  The nodes of a Patricia Merkle trie as a pool node sends them in a state proof
  (\<^verbatim>\<open>libindy/src/services/pool/state_proof/node.rs\<close>): decoding them from RLP items and encoding them, looking up the
  node at a path, the value of a key, and all values below a prefix. The RLP crate and SHA3 are parameters. A
  lookup follows hashes through the nodes of the proof, which may form a cycle, so the lookups are partial
  functions: \<^const>\<open>None\<close> stands for a lookup that never returns.
\<close>

section \<open>RLP\<close>

text \<open>
  An item as the RLP crate sees it: data, the items a list iterates over, or data of some size that is not encoded canonically and whose
  value cannot be read. \<open>rlp_parse\<close> is the view of a byte string, \<open>rlp_encode\<close> writes an item, \<open>rlp_sha3\<close> is
  SHA3-256.
\<close>

datatype Rlp = RlpData bytes | RlpList "Rlp list" | RlpInvalid nat

record rlplibs =
  rlp_parse :: "bytes \<Rightarrow> Rlp"
  rlp_encode :: "Rlp \<Rightarrow> bytes"
  rlp_sha3 :: "bytes \<Rightarrow> bytes"

datatype RlpPrototype = PrototypeData nat | PrototypeList nat

fun rlp_prototype :: "Rlp \<Rightarrow> RlpPrototype" where
  "rlp_prototype (RlpData bs) = PrototypeData (length bs)"
| "rlp_prototype (RlpInvalid n) = PrototypeData n"
| "rlp_prototype (RlpList rs) = PrototypeList (length rs)"

text \<open>A \<^verbatim>\<open>DecoderError\<close> is never looked at; it is \<^term>\<open>Error InvalidStructure\<close> here.\<close>

fun rlp_bytes :: "Rlp \<Rightarrow> bytes IndyResult" where
  "rlp_bytes (RlpData bs) = Inr bs"
| "rlp_bytes _ = Inl (Error InvalidStructure)"

fun rlp_is_empty :: "Rlp \<Rightarrow> bool" where
  "rlp_is_empty (RlpData bs) = (bs = [])"
| "rlp_is_empty (RlpList rs) = (rs = [])"
| "rlp_is_empty (RlpInvalid _) = False"

fun rlp_items :: "Rlp \<Rightarrow> Rlp list" where
  "rlp_items (RlpList rs) = rs"
| "rlp_items _ = []"

text \<open>\<^verbatim>\<open>as_list().unwrap_or_default()\<close>: an error gives the empty list, a panic remains.\<close>

definition rlp_list_or_default :: "(Rlp \<Rightarrow> 'a IndyResult) \<Rightarrow> Rlp \<Rightarrow> 'a list IndyResult" where
  "rlp_list_or_default dec r =
    (case traverse dec (rlp_items r) of
       Inr xs \<Rightarrow> Inr xs
     | Inl Panic \<Rightarrow> Inl Panic
     | Inl (Error _) \<Rightarrow> Inr [])"

section \<open>Nodes\<close>

datatype TrieNode =
    TrieLeaf bytes bytes
  | TrieExtension bytes TrieNode
  | TrieFull "TrieNode option list" "bytes option"
  | TrieHash bytes
  | TrieBlank

abbreviation RADIX :: nat where "RADIX \<equiv> 16"
abbreviation HASH_SIZE :: nat where "HASH_SIZE \<equiv> 32"
abbreviation IS_LEAF_MASK :: byte where "IS_LEAF_MASK \<equiv> 0x20"
abbreviation IS_PATH_ODD_MASK :: byte where "IS_PATH_ODD_MASK \<equiv> 0x10"

fun rlp_append :: "TrieNode \<Rightarrow> Rlp" where
  "rlp_append (TrieHash hash) = RlpData hash"
| "rlp_append (TrieLeaf path val) = RlpList [RlpData path, RlpData val]"
| "rlp_append (TrieExtension path nxt) = RlpList [RlpData path, rlp_append nxt]"
| "rlp_append (TrieFull nodes val) =
    RlpList (map (\<lambda>n. case n of Some n \<Rightarrow> rlp_append n | None \<Rightarrow> RlpData []) nodes @
      [case val of Some v \<Rightarrow> RlpData v | None \<Rightarrow> RlpData []])"
| "rlp_append TrieBlank = RlpData []"

definition is_leaf_path :: "bytes \<Rightarrow> bool" where
  "is_leaf_path path \<longleftrightarrow> hd path AND IS_LEAF_MASK = IS_LEAF_MASK"

fun decode_child :: "(Rlp \<Rightarrow> TrieNode IndyResult) \<Rightarrow> Rlp \<Rightarrow> TrieNode option IndyResult" where
  "decode_child dec cur =
    (if rlp_prototype cur = PrototypeData 0 then Inr None else bindr (dec cur) (\<lambda>n. Inr (Some n)))"

lemma decode_child_cong [fundef_cong]:
  "r = s \<Longrightarrow> (rlp_prototype s \<noteq> PrototypeData 0 \<Longrightarrow> f s = g s) \<Longrightarrow> decode_child f r = decode_child g s"
  by simp

declare decode_child.simps [simp del]

text \<open>
  A list of two items is a leaf or an extension, by a flag of the first byte of the path: an empty path panics.
  A list of seventeen is a full node, whose last item is its value. Data of 32 bytes is a hash.
\<close>

function decode :: "Rlp \<Rightarrow> TrieNode IndyResult" where
  "decode (RlpList rs) =
    (if length rs = 2 then
       bindr (rlp_bytes (rs ! 0)) (\<lambda>path.
       if path = [] then Inl Panic
       else if is_leaf_path path then bindr (rlp_bytes (rs ! 1)) (\<lambda>val. Inr (TrieLeaf path val))
       else bindr (decode (rs ! 1)) (\<lambda>nxt. Inr (TrieExtension path nxt)))
     else if length rs = RADIX + 1 then
       bindr (traverse (decode_child decode) (take RADIX rs)) (\<lambda>nodes.
       bindr (if rlp_is_empty (rs ! RADIX) then Inr None else bindr (rlp_bytes (rs ! RADIX)) (\<lambda>v. Inr (Some v))) (\<lambda>val.
       Inr (TrieFull nodes val)))
     else Inl (Error InvalidStructure))"
| "decode (RlpData bs) =
    (if length bs = HASH_SIZE then Inr (TrieHash bs) else if bs = [] then Inr TrieBlank else Inl (Error InvalidStructure))"
| "decode (RlpInvalid n) = (if n = 0 then Inr TrieBlank else Inl (Error InvalidStructure))"
  by pat_completeness auto
termination
  by (relation "measure size") (auto dest!: in_set_takeD simp: less_Suc_eq_le intro!: size_list_estimation' nth_mem)

declare decode.simps(1) [simp del]

definition get_hash :: "rlplibs \<Rightarrow> TrieNode \<Rightarrow> bytes" where
  "get_hash R n = rlp_sha3 R (rlp_encode R (rlp_append n))"

section \<open>Paths\<close>

definition path_to_nibbles :: "bytes \<Rightarrow> bytes" where
  "path_to_nibbles path = concat (map (\<lambda>s. [drop_bit 4 s, s AND 0x0F]) path)"

text \<open>An odd number of nibbles reads past the end.\<close>

fun nibbles_to_bytes :: "bytes \<Rightarrow> bytes IndyResult" where
  "nibbles_to_bytes [] = Inr []"
| "nibbles_to_bytes [_] = Inl Panic"
| "nibbles_to_bytes (a # b # rest) = bindr (nibbles_to_bytes rest) (\<lambda>bs. Inr ((push_bit 4 a + b) # bs))"

definition nibbles_to_str :: "bytes \<Rightarrow> string IndyResult" where
  "nibbles_to_str nibbles = bindr (nibbles_to_bytes nibbles) (\<lambda>bs. from_utf8 bs (Error InvalidStructure))"

definition parse_path :: "bytes \<Rightarrow> (bool \<times> bytes) IndyResult" where
  "parse_path path =
    (if path = [] then Inl Panic
     else Inr (is_leaf_path path,
       (if hd path AND IS_PATH_ODD_MASK = IS_PATH_ODD_MASK then [hd path AND 0x0F] else []) @ path_to_nibbles (tl path)))"

section \<open>Lookups\<close>

text \<open>A \<^verbatim>\<open>for\<close> loop with \<^verbatim>\<open>?\<close> whose body may not return.\<close>

fun traverse_partial :: "('a \<Rightarrow> ('e + 'b) option) \<Rightarrow> 'a list \<Rightarrow> ('e + 'b list) option" where
  "traverse_partial f [] = Some (Inr [])"
| "traverse_partial f (x # xs) =
    Option.bind (f x) (\<lambda>r. case r of
      Inl e \<Rightarrow> Some (Inl e)
    | Inr y \<Rightarrow> Option.bind (traverse_partial f xs) (\<lambda>rs. Some (bindr rs (\<lambda>ys. Inr (y # ys)))))"

lemma traverse_partial_mono [partial_function_mono]:
  assumes "\<And>x. mono_option (\<lambda>f. B x f)"
  shows "mono_option (\<lambda>f. traverse_partial (\<lambda>x. B x f) xs)"
proof (induction xs)
  case Nil
  show ?case by (simp add: option.const_mono)
next
  case (Cons x xs)
  have "mono_option (\<lambda>f. case r of
      Inl e \<Rightarrow> Some (Inl e)
    | Inr y \<Rightarrow> Option.bind (traverse_partial (\<lambda>x. B x f) xs) (\<lambda>rs. Some (bindr rs (\<lambda>ys. Inr (y # ys)))))" for r
    by (cases r) (simp_all add: bind_mono Cons.IH option.const_mono)
  then show ?case unfolding traverse_partial.simps by (intro bind_mono assms)
qed

type_synonym TrieDB = "(bytes \<times> TrieNode) list"

text \<open>\<^verbatim>\<open>starts_with\<close>.\<close>

definition starts_with :: "'a list \<Rightarrow> 'a list \<Rightarrow> bool" where
  "starts_with xs ys \<longleftrightarrow> take (length ys) xs = ys"

text \<open>\<^verbatim>\<open>NodeHash::from_slice\<close> panics on a wrong length.\<close>

definition db_get :: "TrieDB \<Rightarrow> bytes \<Rightarrow> TrieNode option IndyResult" where
  "db_get db hash = (if length hash = HASH_SIZE then Inr (map_of db hash) else Inl Panic)"

partial_function (option) get_node_at ::
  "TrieDB \<Rightarrow> TrieNode \<Rightarrow> bytes \<Rightarrow> bytes \<Rightarrow> (TrieNode \<times> bytes) option IndyResult option" where
  "get_node_at db node path seen_path =
    (case node of
       TrieFull nodes _ \<Rightarrow>
         if path = [] then Some (Inr (Some (node, seen_path)))
         else if length nodes \<le> unat (hd path) then Some (Inl Panic)
         else (case nodes ! unat (hd path) of
                 None \<Rightarrow> Some (Inr None)
               | Some nxt \<Rightarrow> get_node_at db nxt (tl path) (seen_path @ [hd path]))
     | TrieHash hash \<Rightarrow>
         (case db_get db hash of
            Inl e \<Rightarrow> Some (Inl e)
          | Inr None \<Rightarrow> Some (Inl (Error InvalidStructure))
          | Inr (Some nxt) \<Rightarrow> get_node_at db nxt path seen_path)
     | TrieLeaf lpath _ \<Rightarrow>
         (case parse_path lpath of
            Inl e \<Rightarrow> Some (Inl e)
          | Inr (is_leaf, pair_path) \<Rightarrow>
              if \<not> is_leaf then Some (Inl (Error InvalidState))
              else if starts_with pair_path path then Some (Inr (Some (node, seen_path))) else Some (Inr None))
     | TrieExtension epath nxt \<Rightarrow>
         (case parse_path epath of
            Inl e \<Rightarrow> Some (Inl e)
          | Inr (is_leaf, pair_path) \<Rightarrow>
              if is_leaf then Some (Inl (Error InvalidState))
              else if starts_with path pair_path then get_node_at db nxt (drop (length pair_path) path) (seen_path @ pair_path)
              else if starts_with pair_path path then Some (Inr (Some (node, seen_path))) else Some (Inr None))
     | TrieBlank \<Rightarrow> Some (Inr None))"

definition get_node :: "TrieDB \<Rightarrow> TrieNode \<Rightarrow> bytes \<Rightarrow> (TrieNode \<times> bytes) option IndyResult option" where
  "get_node db node path = get_node_at db node (path_to_nibbles path) []"

definition node_value :: "TrieNode \<Rightarrow> bytes option IndyResult" where
  "node_value node =
    (case node of
       TrieFull _ val \<Rightarrow> Inr val
     | TrieLeaf lpath val \<Rightarrow>
         bindr (parse_path lpath) (\<lambda>(is_leaf, _). if is_leaf then Inr (Some val) else Inl (Error InvalidState))
     | _ \<Rightarrow> Inr None)"

definition get_raw_value :: "TrieDB \<Rightarrow> TrieNode \<Rightarrow> bytes \<Rightarrow> bytes option IndyResult option" where
  "get_raw_value db node path =
    map_option (\<lambda>r. bindr r (\<lambda>found. case found of Some (n, _) \<Rightarrow> node_value n | None \<Rightarrow> Inr None)) (get_node_at db node path [])"

text \<open>A value of the trie is an RLP list of one item.\<close>

definition single_item :: "rlplibs \<Rightarrow> bytes \<Rightarrow> bytes option" where
  "single_item R v =
    (case rlp_list_or_default rlp_bytes (rlp_parse R v) of Inr [val] \<Rightarrow> Some val | _ \<Rightarrow> None)"

definition get_value :: "rlplibs \<Rightarrow> TrieDB \<Rightarrow> TrieNode \<Rightarrow> bytes \<Rightarrow> bytes option IndyResult option" where
  "get_value R db node path =
    map_option (\<lambda>r. bindr r (\<lambda>raw.
      case raw of
        Some v \<Rightarrow> bindr (ok_or (single_item R v) (Error InvalidStructure)) (\<lambda>val. Inr (Some val))
      | None \<Rightarrow> Inr None)) (get_raw_value db node (path_to_nibbles path))"

definition get_str_value :: "rlplibs \<Rightarrow> TrieDB \<Rightarrow> TrieNode \<Rightarrow> bytes \<Rightarrow> string option IndyResult option" where
  "get_str_value R db node path =
    map_option (\<lambda>r. bindr r (\<lambda>val.
      case val of
        Some bs \<Rightarrow> bindr (from_utf8 bs (Error InvalidStructure)) (\<lambda>s. Inr (Some s))
      | None \<Rightarrow> Inr None)) (get_value R db node path)"

partial_function (option) get_all_values_at :: "rlplibs \<Rightarrow> TrieDB \<Rightarrow> TrieNode \<Rightarrow> bytes \<Rightarrow> (bytes \<times> string) list IndyResult option" where
  "get_all_values_at R db node prefix =
    (case node of
       TrieFull nodes val \<Rightarrow>
         Option.bind (traverse_partial (\<lambda>(nibble, n). case n of
             None \<Rightarrow> Some (Inr [])
           | Some nxt \<Rightarrow> get_all_values_at R db nxt (prefix @ [of_nat nibble])) (enumerate 0 nodes)) (\<lambda>r.
           Some (bindr r (\<lambda>sub_res.
             case Option.bind val (single_item R) of
               Some v \<Rightarrow> bindr (from_utf8 v (Error InvalidStructure)) (\<lambda>s. Inr (concat sub_res @ [(prefix, s)]))
             | None \<Rightarrow> Inr (concat sub_res))))
     | TrieHash hash \<Rightarrow>
         (case db_get db hash of
            Inl e \<Rightarrow> Some (Inl e)
          | Inr None \<Rightarrow> Some (Inl (Error InvalidState))
          | Inr (Some nxt) \<Rightarrow> get_all_values_at R db nxt prefix)
     | TrieLeaf lpath val \<Rightarrow>
         Some (bindr (parse_path lpath) (\<lambda>(is_leaf, pair_path).
           if \<not> is_leaf then Inl (Error InvalidState)
           else bindr (ok_or (single_item R val) (Error InvalidStructure)) (\<lambda>v.
                bindr (from_utf8 v (Error InvalidStructure)) (\<lambda>s. Inr [(prefix @ pair_path, s)]))))
     | TrieExtension epath nxt \<Rightarrow>
         (case parse_path epath of
            Inl e \<Rightarrow> Some (Inl e)
          | Inr (is_leaf, pair_path) \<Rightarrow>
              if is_leaf then Some (Inl (Error InvalidState)) else get_all_values_at R db nxt (prefix @ pair_path))
     | TrieBlank \<Rightarrow> Some (Inr []))"

definition get_all_values :: "rlplibs \<Rightarrow> TrieDB \<Rightarrow> TrieNode \<Rightarrow> bytes option \<Rightarrow> (string \<times> string) list IndyResult option" where
  "get_all_values R db node prefix =
    Option.bind (case prefix of Some prf \<Rightarrow> get_node db node prf | None \<Rightarrow> Some (Inr (Some (node, [])))) (\<lambda>r.
      case r of
        Inl e \<Rightarrow> Some (Inl e)
      | Inr None \<Rightarrow> Some (Inr [])
      | Inr (Some (n, prf)) \<Rightarrow>
          map_option (\<lambda>vs. bindr vs (traverse (\<lambda>(key, val). bindr (nibbles_to_str key) (\<lambda>k. Inr (k, val)))))
            (get_all_values_at R db n prf))"

section \<open>Well-formed nodes\<close>

text \<open>The nodes that decoding yields.\<close>

fun wf_node :: "TrieNode \<Rightarrow> bool" where
  "wf_node (TrieLeaf path _) = (path \<noteq> [] \<and> is_leaf_path path)"
| "wf_node (TrieExtension path nxt) = (path \<noteq> [] \<and> \<not> is_leaf_path path \<and> wf_node nxt)"
| "wf_node (TrieFull nodes val) =
    (length nodes = RADIX \<and> val \<noteq> Some [] \<and> list_all (\<lambda>n. case n of Some n \<Rightarrow> n \<noteq> TrieBlank \<and> wf_node n | None \<Rightarrow> True) nodes)"
| "wf_node (TrieHash hash) = (length hash = HASH_SIZE)"
| "wf_node TrieBlank = True"

lemma traverse_Inr_mem: "traverse f xs = Inr ys \<Longrightarrow> y \<in> set ys \<Longrightarrow> \<exists>x\<in>set xs. f x = Inr y"
  by (induction xs arbitrary: ys) (auto simp: bindr_Inr_iff)

lemma decode_not_blank: "decode r = Inr TrieBlank \<Longrightarrow> rlp_prototype r = PrototypeData 0"
  by (cases r) (auto simp: decode.simps(1) bindr_Inr_iff Let_def split: if_splits)

lemma decode_wf: "decode r = Inr n \<Longrightarrow> wf_node n"
proof (induction r arbitrary: n rule: decode.induct)
  case (1 rs)
  consider (two) "length rs = 2" | (full) "length rs = RADIX + 1" "length rs \<noteq> 2"
    using 1(3) by (auto simp: decode.simps(1) split: if_splits)
  then show ?case
  proof cases
    case two
    then show ?thesis using 1(1,3) by (auto simp: decode.simps(1) bindr_Inr_iff split: if_splits)
  next
    case full
    then obtain nodes val where n: "n = TrieFull nodes val"
      and t: "traverse (decode_child decode) (take RADIX rs) = Inr nodes" and v: "val \<noteq> Some []"
      using 1(3) by (auto simp: decode.simps(1) bindr_Inr_iff split: if_splits elim!: rlp_is_empty.elims)
    have "length nodes = RADIX" using traverse_Inr_length [OF t] full by simp
    moreover have "case m of Some m \<Rightarrow> m \<noteq> TrieBlank \<and> wf_node m | None \<Rightarrow> True" if m: "m \<in> set nodes" for m
    proof -
      obtain r where r: "r \<in> set (take RADIX rs)" "decode_child decode r = Inr m"
        using traverse_Inr_mem [OF t m] by blast
      show ?thesis
      proof (cases m)
        case (Some m')
        then have "decode r = Inr m'" "rlp_prototype r \<noteq> PrototypeData 0"
          using r(2) by (auto simp: decode_child.simps bindr_Inr_iff split: if_splits)
        then show ?thesis using 1(2) [OF full(2,1) r(1)] decode_not_blank Some by auto
      qed simp
    qed
    ultimately show ?thesis using v by (simp add: n list_all_iff)
  qed
qed (auto split: if_splits)

lemma rlp_append_not_empty: "n \<noteq> TrieBlank \<Longrightarrow> wf_node n \<Longrightarrow> rlp_prototype (rlp_append n) \<noteq> PrototypeData 0"
  by (cases n) auto

lemma decode_rlp_append: "wf_node n \<Longrightarrow> decode (rlp_append n) = Inr n"
proof (induction n)
  case (TrieFull nodes val)
  have "decode_child decode (case m of Some n \<Rightarrow> rlp_append n | None \<Rightarrow> RlpData []) = Inr m" if "m \<in> set nodes" for m
  proof (cases m)
    case (Some n)
    then have "n \<noteq> TrieBlank" "wf_node n" using that TrieFull.prems by (auto simp: list_all_iff split: option.splits)
    then show ?thesis
      using TrieFull.IH [OF that, of n] rlp_append_not_empty Some by (simp add: decode_child.simps)
  qed (simp add: decode_child.simps)
  then have "traverse (decode_child decode) (map (\<lambda>m. case m of Some n \<Rightarrow> rlp_append n | None \<Rightarrow> RlpData []) nodes) = Inr nodes"
    by (simp add: traverse_Inr_list_all2 list_all2_conv_all_nth)
  moreover have "length nodes = 16" "val \<noteq> Some []" using TrieFull.prems by simp_all
  ultimately show ?case by (cases val) (simp_all add: decode.simps(1) nth_append)
qed (simp_all add: decode.simps(1))

section \<open>What a trie holds\<close>

text \<open>
  The entries of a trie, as paths of nibbles with raw values, independently of the lookups of the code: \<open>trie_maps db n k v\<close>
  says that below the node \<open>n\<close>, resolving hashes in \<open>db\<close>, the key \<open>k\<close> has the value \<open>v\<close>.
\<close>

inductive trie_maps :: "TrieDB \<Rightarrow> TrieNode \<Rightarrow> bytes \<Rightarrow> bytes \<Rightarrow> bool" for db where
  leaf: "parse_path p = Inr (True, k) \<Longrightarrow> trie_maps db (TrieLeaf p v) k v"
| extension: "parse_path p = Inr (False, q) \<Longrightarrow> trie_maps db n k v \<Longrightarrow> trie_maps db (TrieExtension p n) (q @ k) v"
| here: "trie_maps db (TrieFull ns (Some v)) [] v"
| child: "unat c < length ns \<Longrightarrow> ns ! unat c = Some n \<Longrightarrow> trie_maps db n k v \<Longrightarrow> trie_maps db (TrieFull ns w) (c # k) v"
| hash: "length h = HASH_SIZE \<Longrightarrow> map_of db h = Some n \<Longrightarrow> trie_maps db n k v \<Longrightarrow> trie_maps db (TrieHash h) k v"

inductive_cases trie_maps_cases:
  "trie_maps db (TrieLeaf p v) k w" "trie_maps db (TrieExtension p n) k w" "trie_maps db (TrieFull ns v) k w"
  "trie_maps db (TrieHash h) k w" "trie_maps db TrieBlank k w"

lemma starts_with_append [simp]: "starts_with (xs @ ys) xs"
  by (simp add: starts_with_def)

lemma starts_with_refl [simp]: "starts_with xs xs"
  by (simp add: starts_with_def)

lemma starts_withE: "starts_with xs ys \<Longrightarrow> \<exists>zs. xs = ys @ zs"
  by (metis starts_with_def append_take_drop_id)

lemma unat_nibble: "i < RADIX \<Longrightarrow> unat (of_nat i :: byte) = i"
  by (simp add: unat_of_nat)

lemma parse_path_flag: "parse_path p = Inr (b, q) \<Longrightarrow> b = is_leaf_path p"
  by (simp add: parse_path_def split: if_splits)

text \<open>A key of the trie is found.\<close>

lemma get_raw_value_complete: "trie_maps db n k v \<Longrightarrow> \<exists>m q. get_node_at db n k seen = Some (Inr (Some (m, q))) \<and> node_value m = Inr (Some v)"
proof (induction arbitrary: seen rule: trie_maps.induct)
  case (leaf p k v)
  then show ?case by (subst get_node_at.simps) (simp add: node_value_def)
next
  case (extension p q n k v)
  then show ?case by (subst get_node_at.simps) simp
next
  case (here ns v)
  then show ?case by (subst get_node_at.simps) (simp add: node_value_def)
next
  case (child c ns n k v w)
  then show ?case by (subst get_node_at.simps) simp
next
  case (hash h n k v)
  then show ?case by (subst get_node_at.simps) (simp add: db_get_def)
qed

text \<open>What is found is the value of a key that extends the one looked up.\<close>

lemma get_node_at_sound:
  assumes "get_node_at db n k seen = Some r"
  shows "\<forall>m q v. r = Inr (Some (m, q)) \<longrightarrow> node_value m = Inr (Some v) \<longrightarrow>
    (\<exists>s. trie_maps db n (k @ s) v \<and> (s = [] \<or> (\<exists>p. m = TrieLeaf p v)))" (is "?P db n k seen r")
proof (rule get_node_at.raw_induct [where P = ?P, OF _ assms], intro allI impI, goal_cases)
  case (1 f db n k seen r m q v)
  note IH = 1(1) [rule_format, OF _ 1(3,4)]
  show ?case
  proof (cases n)
    case (TrieLeaf p w)
    then obtain l where l: "m = n" "parse_path p = Inr (True, l)" "starts_with l k"
      using 1(2,3) by (auto split: sum.splits if_splits prod.splits)
    then obtain s where "parse_path p = Inr (True, k @ s)" using starts_withE by metis
    moreover have "w = v" using 1(4) l(1) TrieLeaf by (auto simp: node_value_def bindr_Inr_iff split: if_splits)
    ultimately show ?thesis using TrieLeaf l(1) trie_maps.leaf by blast
  next
    case (TrieExtension p nx)
    then obtain l where l: "parse_path p = Inr (False, l)"
      using 1(2,3) by (auto split: sum.splits if_splits prod.splits)
    have "m \<noteq> n" using 1(4) TrieExtension by (auto simp: node_value_def)
    then have s: "starts_with k l" "f db nx (drop (length l) k) (seen @ l) = Some r"
      using 1(2,3) l TrieExtension by (auto split: if_splits)
    then obtain k' where k: "k = l @ k'" using starts_withE by blast
    obtain s where s: "trie_maps db nx (k' @ s) v" "s = [] \<or> (\<exists>p. m = TrieLeaf p v)" using IH [OF s(2)] k by auto
    have "trie_maps db n (k @ s) v" using trie_maps.extension [OF l s(1)] k TrieExtension by simp
    then show ?thesis using s(2) by blast
  next
    case (TrieFull ns w)
    show ?thesis
    proof (cases k)
      case Nil
      then have "m = n" using TrieFull 1(2,3) by auto
      then have "w = Some v" using 1(4) TrieFull by (simp add: node_value_def)
      then show ?thesis using Nil TrieFull trie_maps.here by force
    next
      case (Cons c k')
      then obtain nx where nx: "unat c < length ns" "ns ! unat c = Some nx" "f db nx k' (seen @ [c]) = Some r"
        using TrieFull 1(2,3) by (auto split: if_splits option.splits)
      obtain s where s: "trie_maps db nx (k' @ s) v" "s = [] \<or> (\<exists>p. m = TrieLeaf p v)" using IH [OF nx(3)] by blast
      have "trie_maps db n (k @ s) v" using trie_maps.child [OF nx(1,2) s(1)] Cons TrieFull by simp
      then show ?thesis using s(2) by blast
    qed
  next
    case (TrieHash h)
    then obtain nx where "length h = HASH_SIZE" "map_of db h = Some nx" "f db nx k seen = Some r"
      using 1(2,3) by (auto simp: db_get_def split: if_splits option.splits)
    then show ?thesis using IH trie_maps.hash TrieHash by blast
  next
    case TrieBlank
    then show ?thesis using 1(2,3) by simp
  qed
qed

text \<open>Two sets of nodes without a collision never disagree on a lookup.\<close>

definition db_agree :: "TrieDB \<Rightarrow> TrieDB \<Rightarrow> bool" where
  "db_agree db1 db2 \<longleftrightarrow> (\<forall>h a b. map_of db1 h = Some a \<longrightarrow> map_of db2 h = Some b \<longrightarrow> a = b)"

lemma get_node_at_agree:
  assumes "get_node_at db1 n k seen = Some r" and "db_agree db1 db2"
  shows "\<forall>a b. r = Inr a \<longrightarrow> get_node_at db2 n k seen = Some (Inr b) \<longrightarrow> a = b"
proof -
  let ?P = "\<lambda>db n k seen r. \<forall>a b. db_agree db db2 \<longrightarrow> r = Inr a \<longrightarrow> get_node_at db2 n k seen = Some (Inr b) \<longrightarrow> a = b"
  have "?P db1 n k seen r"
  proof (rule get_node_at.raw_induct [where P = ?P, OF _ assms(1)], intro allI impI, goal_cases)
    case (1 f db n k seen r a b)
    note IH = 1(1) [rule_format, OF _ 1(3,4)]
    note r2 = 1(5) [unfolded get_node_at.simps [of db2 n]]
    show ?case
    proof (cases n)
      case (TrieHash h)
      then obtain x y where "map_of db h = Some x" "f db x k seen = Some r" "map_of db2 h = Some y" "get_node_at db2 y k seen = Some (Inr b)"
        using 1(2,4) r2 by (auto simp: db_get_def split: if_splits option.splits)
      then show ?thesis using IH 1(3) unfolding db_agree_def by blast
    qed (use 1(2,4) r2 IH in \<open>auto split: sum.splits if_splits option.splits prod.splits\<close>)
  qed
  then show ?thesis using assms(2) by blast
qed

lemma traverse_partial_Inr:
  "traverse_partial f xs = Some (Inr ys) \<longleftrightarrow> list_all2 (\<lambda>x y. f x = Some (Inr y)) xs ys"
proof (induction xs arbitrary: ys)
  case Nil
  then show ?case by auto
next
  case (Cons x xs)
  have "(\<exists>r. f x = Some r \<and> P r) \<longleftrightarrow> (\<exists>e. f x = Some (Inl e) \<and> P (Inl e)) \<or> (\<exists>y. f x = Some (Inr y) \<and> P (Inr y))" for P
    by (metis sum.exhaust)
  with Cons show ?case by (cases ys) (auto simp: bindr_Inr_iff Option.bind_eq_Some_conv)
qed

text \<open>The text of a raw value, if it is well-formed, and the entries below a node with their texts.\<close>

definition value_text :: "rlplibs \<Rightarrow> bytes \<Rightarrow> string option" where
  "value_text R v = Option.bind (single_item R v) (\<lambda>b. case from_utf8 b (Error InvalidStructure) of Inr s \<Rightarrow> Some s | Inl _ \<Rightarrow> None)"

definition entries :: "rlplibs \<Rightarrow> TrieDB \<Rightarrow> TrieNode \<Rightarrow> (bytes \<times> string) set" where
  "entries R db n = {(k, s). \<exists>v. trie_maps db n k v \<and> value_text R v = Some s}"

lemma entries_simps:
  "entries R db TrieBlank = {}"
  "length h = HASH_SIZE \<Longrightarrow> map_of db h = Some n \<Longrightarrow> entries R db (TrieHash h) = entries R db n"
  "parse_path p = Inr (True, k) \<Longrightarrow> entries R db (TrieLeaf p v) = {(k, s) |s. value_text R v = Some s}"
  "parse_path p = Inr (False, q) \<Longrightarrow> entries R db (TrieExtension p n) = (\<lambda>(k, s). (q @ k, s)) ` entries R db n"
  by (force simp: entries_def intro: trie_maps.intros elim!: trie_maps_cases)+

lemma entries_full:
  assumes "length ns = RADIX"
  shows "entries R db (TrieFull ns w) =
    (\<Union>i<RADIX. case ns ! i of None \<Rightarrow> {} | Some n \<Rightarrow> (\<lambda>(k, s). (of_nat i # k, s)) ` entries R db n) \<union>
    {([], s) |s. Option.bind w (value_text R) = Some s}" (is "?L = ?U \<union> ?V")
proof (intro equalityI subsetI)
  fix x assume "x \<in> ?L"
  then obtain k s v where x: "x = (k, s)" "trie_maps db (TrieFull ns w) k v" "value_text R v = Some s" by (auto simp: entries_def)
  from x(2) show "x \<in> ?U \<union> ?V"
  proof (cases rule: trie_maps.cases)
    case here
    then show ?thesis using x by simp
  next
    case (child c n k')
    then have "x \<in> (\<lambda>(k, s). (of_nat (unat c) # k, s)) ` entries R db n" using x by (auto simp: entries_def)
    moreover have "unat c < RADIX" using child assms by simp
    ultimately show ?thesis using child by force
  qed
next
  fix x assume "x \<in> ?U \<union> ?V"
  then show "x \<in> ?L"
  proof
    assume "x \<in> ?V"
    then show ?thesis by (auto simp: entries_def Option.bind_eq_Some_conv intro: trie_maps.here)
  next
    assume "x \<in> ?U"
    then obtain i n k s v where i: "i < RADIX" "ns ! i = Some n" "x = (of_nat i # k, s)" "trie_maps db n k v" "value_text R v = Some s"
      by (auto simp: entries_def split: option.splits)
    have "trie_maps db (TrieFull ns w) (of_nat i # k) v"
      by (rule trie_maps.child [of _ _ n]) (use i unat_nibble [OF i(1)] assms in simp_all)
    then show ?thesis using i by (auto simp: entries_def)
  qed
qed

definition wf_db :: "TrieDB \<Rightarrow> bool" where
  "wf_db db \<longleftrightarrow> (\<forall>n\<in>snd ` set db. wf_node n)"

lemma wf_db_get: "wf_db db \<Longrightarrow> map_of db h = Some n \<Longrightarrow> wf_node n"
  by (force simp: wf_db_def dest: map_of_SomeD)

abbreviation prefixed :: "bytes \<Rightarrow> (bytes \<times> string) set \<Rightarrow> (bytes \<times> string) set" where
  "prefixed p es \<equiv> (\<lambda>(k, s). (p @ k, s)) ` es"

lemma prefixed_prefixed: "prefixed p (prefixed q es) = prefixed (p @ q) es"
  by (auto simp: image_image split_def)

lemma set_concat_nth: "set (concat xss) = (\<Union>i<length xss. set (xss ! i))"
  unfolding set_concat set_conv_nth [of xss] by blast

lemma prefixed_full:
  assumes "length ns = RADIX" "list_all2 (\<lambda>(i, n) kvs. set kvs = (case n of None \<Rightarrow> {} | Some n \<Rightarrow> prefixed (p @ [of_nat i]) (entries R db n)))
      (enumerate 0 ns) kvss"
  shows "set (concat kvss) \<union> {(p, s) |s. Option.bind w (value_text R) = Some s} = prefixed p (entries R db (TrieFull ns w))"
proof -
  have len: "length kvss = RADIX" using assms list_all2_lengthD [OF assms(2)] by simp
  have "set (kvss ! i) = prefixed p (case ns ! i of None \<Rightarrow> {} | Some n \<Rightarrow> (\<lambda>(k, s). (of_nat i # k, s)) ` entries R db n)" if "i < RADIX" for i
    using list_all2_nthD2 [OF assms(2), of i] that len assms(1)
    by (auto simp: nth_enumerate_eq image_image split_def split: option.splits)
  then have "set (concat kvss) = (\<Union>i<RADIX. prefixed p (case ns ! i of None \<Rightarrow> {} | Some n \<Rightarrow> (\<lambda>(k, s). (of_nat i # k, s)) ` entries R db n))"
    using set_concat_nth [of kvss] len by simp
  moreover have "{(p, s) |s. Option.bind w (value_text R) = Some s} = prefixed p {([], s) |s. Option.bind w (value_text R) = Some s}" by force
  ultimately show ?thesis by (simp only: entries_full [OF assms(1)] image_Un image_UN)
qed

lemma set_with_value:
  assumes "Inr kvs = (case Option.bind w (single_item R) of
      Some v \<Rightarrow> bindr (from_utf8 v (Error InvalidStructure)) (\<lambda>s. Inr (kvs' @ [(p, s)]))
    | None \<Rightarrow> Inr kvs')"
  shows "set kvs = set kvs' \<union> {(p, s) |s. Option.bind w (value_text R) = Some s}"
proof (cases w)
  case (Some v)
  then show ?thesis
    using assms by (cases "single_item R v"; cases "from_utf8 (the (single_item R v)) (Error InvalidStructure)") (auto simp: value_text_def)
qed (use assms in simp)

lemma get_all_values_at_entries:
  assumes "get_all_values_at R db n prefix = Some r" and "wf_db db" "wf_node n"
  shows "\<forall>kvs. r = Inr kvs \<longrightarrow> set kvs = prefixed prefix (entries R db n)"
proof -
  let ?P = "\<lambda>R db n prefix r. \<forall>kvs. wf_db db \<longrightarrow> wf_node n \<longrightarrow> r = Inr kvs \<longrightarrow> set kvs = prefixed prefix (entries R db n)"
  have "?P R db n prefix r"
  proof (rule get_all_values_at.raw_induct [where P = ?P, OF _ assms(1)], intro allI impI, goal_cases)
    case (1 f R db n prefix r kvs)
    note IH = 1(1) [rule_format, OF _ 1(3) _ 1(5)]
    show ?case
    proof (cases n)
      case (TrieFull ns w)
      then obtain kvss where kvss: "list_all2 (\<lambda>(i, n) kvs. (case n of None \<Rightarrow> Some (Inr [])
             | Some nxt \<Rightarrow> f R db nxt (prefix @ [of_nat i])) = Some (Inr kvs)) (enumerate 0 ns) kvss"
          and r: "Inr kvs = (case Option.bind w (single_item R) of
               Some v \<Rightarrow> bindr (from_utf8 v (Error InvalidStructure)) (\<lambda>s. Inr (concat kvss @ [(prefix, s)]))
             | None \<Rightarrow> Inr (concat kvss))"
        using 1(2,5) by (auto simp: Option.bind_eq_Some_conv bindr_Inr_iff traverse_partial_Inr split_def)
      have len: "length ns = RADIX" using 1(4) TrieFull by simp
      have "list_all2 (\<lambda>(i, n) kvs. set kvs = (case n of None \<Rightarrow> {} | Some n \<Rightarrow> prefixed (prefix @ [of_nat i]) (entries R db n)))
        (enumerate 0 ns) kvss"
        unfolding list_all2_conv_all_nth
      proof (intro conjI allI impI)
        show "length (enumerate 0 ns) = length kvss" using kvss by (rule list_all2_lengthD)
      next
        fix i assume i: "i < length (enumerate 0 ns)"
        then have e: "enumerate 0 ns ! i = (i, ns ! i)" "ns ! i \<in> set ns" by (simp_all add: nth_enumerate_eq)
        have k: "(case ns ! i of None \<Rightarrow> Some (Inr []) | Some nxt \<Rightarrow> f R db nxt (prefix @ [of_nat i])) = Some (Inr (kvss ! i))"
          using list_all2_nthD [OF kvss i] e(1) by simp
        have "set (kvss ! i) = (case ns ! i of None \<Rightarrow> {} | Some n \<Rightarrow> prefixed (prefix @ [of_nat i]) (entries R db n))"
        proof (cases "ns ! i")
          case None
          then show ?thesis using k e(1) by simp
        next
          case (Some x)
          then have "wf_node x" using 1(4) TrieFull e(2) by (auto simp: list_all_iff split: option.splits)
          then show ?thesis using 1(1) [rule_format, OF _ 1(3)] k Some e(1) by simp
        qed
        then show "(case enumerate 0 ns ! i of (j, n) \<Rightarrow> \<lambda>kvs. set kvs =
            (case n of None \<Rightarrow> {} | Some n \<Rightarrow> prefixed (prefix @ [of_nat j]) (entries R db n))) (kvss ! i)"
          by (simp add: e(1))
      qed
      from prefixed_full [OF len this, of w] show ?thesis using set_with_value [OF r] TrieFull by simp
    next
      case (TrieHash h)
      then obtain x where x: "length h = HASH_SIZE" "map_of db h = Some x" "f R db x prefix = Some r"
        using 1(2,5) by (auto simp: db_get_def split: if_splits option.splits)
      then show ?thesis using 1(1) [rule_format, OF x(3) 1(3) wf_db_get [OF 1(3) x(2)] 1(5)] entries_simps(2) TrieHash by simp
    next
      case (TrieLeaf p v)
      then show ?thesis using 1(2,5) by (auto simp: bindr_Inr_iff entries_simps(3) value_text_def split: if_splits)
    next
      case (TrieExtension p x)
      then obtain q where q: "parse_path p = Inr (False, q)" "f R db x (prefix @ q) = Some r" "wf_node x"
        using 1(2,4,5) by (auto split: sum.splits if_splits)
      then show ?thesis using 1(1) [rule_format, OF q(2) 1(3) q(3) 1(5)] TrieExtension by (simp add: entries_simps(4) prefixed_prefixed)
    next
      case TrieBlank
      then show ?thesis using 1(2,5) by (simp add: entries_simps)
    qed
  qed
  then show ?thesis using assms(2,3) by blast
qed

end
