(* ===== verification/Request_Runs.thy ===== *)
theory Request_Runs
  imports Request_Handler
begin

text \<open>
  Runs of the request handler: what holds of every sequence of events a handler sees. Every command is
  answered at most once, and a handler is finished exactly if it has answered or reported a final event to
  the pool; an answer of a consensus request is backed by more than \<open>f\<close> nodes, that of a read request by as
  many or by a state proof; a request is finished once every node has answered or timed out.
\<close>

section \<open>Runs\<close>

text \<open>The events with the clock and the threshold at their time; a panic ends the run.\<close>

fun run_events ::
  "plibs \<Rightarrow> PoolDir \<Rightarrow> RequestSM \<Rightarrow> (splibs \<times> RequestEvent) list \<Rightarrow> PoolDir \<times> effect list \<times> (RequestSM \<times> PoolEvent list) IndyResult" where
  "run_events L d sm [] = (d, [], Inr (sm, []))"
| "run_events L d sm ((sp, re) # evs) =
    (case handle_event L sp d sm re of
       (d1, effs, Inl e) \<Rightarrow> (d1, effs, Inl e)
     | (d1, effs, Inr (sm', ev)) \<Rightarrow>
         (case run_events L d1 sm' evs of
            (d2, effs', r) \<Rightarrow> (d2, effs @ effs', bindr r (\<lambda>(sm2, pes). Inr (sm2, (case ev of None \<Rightarrow> [] | Some p \<Rightarrow> [p]) @ pes)))))"

lemma request_sm_new_simps [simp]:
  "sm_state (request_sm_new f ids nodes t et nr) = Start" "sm_cmd_ids (request_sm_new f ids nodes t et nr) = ids"
  "sm_nodes (request_sm_new f ids nodes t et nr) = nodes" "sm_f (request_sm_new f ids nodes t et nr) = f"
  "sm_number_read_nodes (request_sm_new f ids nodes t et nr) = nr"
  by (simp_all add: request_sm_new_def)

definition acks :: "effect list \<Rightarrow> effect list" where
  "acks effs = filter (\<lambda>e. case e of SubmitAck _ _ \<Rightarrow> True | ToNetworker _ \<Rightarrow> False) effs"

fun is_final :: "PoolEvent \<Rightarrow> bool" where
  "is_final (CatchupTargetFound _ _ _) = True"
| "is_final (CatchupTargetNotFound _) = True"
| "is_final (Synced _) = True"
| "is_final _ = False"

lemma acks_simps [simp]:
  "acks [] = []"
  "acks (ToNetworker n # effs) = acks effs"
  "acks (SubmitAck i m # effs) = SubmitAck i m # acks effs"
  "acks (effs @ effs') = acks effs @ acks effs'"
  by (simp_all add: acks_def)

lemma acks_send [simp]:
  "acks (send_replies ids m) = send_replies ids m"
  "acks (send_ok_replies ids s) = send_replies ids (Inr s)"
  "acks (finish_request ids) = send_replies ids (Inl (Error PoolTerminated))"
  "acks (replicate n (ToNetworker x)) = []"
proof -
  show *: "acks (send_replies ids m) = send_replies ids m" for m by (induction ids) (simp_all add: send_replies_def)
  show "acks (replicate n (ToNetworker x)) = []" by (induction n) simp_all
qed (simp_all add: send_ok_replies_def finish_request_def send_replies_def acks_def filter_id_conv)

text \<open>What one event can do: nothing final, an answer to all commands, or a final event.\<close>

definition step_outcome :: "CommandHandle list \<Rightarrow> effect list \<Rightarrow> RequestState \<Rightarrow> PoolEvent option \<Rightarrow> bool" where
  "step_outcome ids effs st ev \<longleftrightarrow>
    acks effs = [] \<and> (case ev of None \<Rightarrow> st \<noteq> Finish | Some p \<Rightarrow> st = Finish \<longleftrightarrow> is_final p) \<or>
    (\<exists>m. acks effs = send_replies ids m \<and> st = Finish \<and> ev = None)"

abbreviation good :: "CommandHandle list \<Rightarrow> handled \<Rightarrow> bool" where
  "good ids h \<equiv> (case h of (d, effs, Inr (st, ev)) \<Rightarrow> step_outcome ids effs st ev | (d, effs, Inl e) \<Rightarrow> acks effs = [] \<and> e = Panic)"

lemma consensus_reachable_panics: "consensus_reachable L st f n = Inl e \<Longrightarrow> e = Panic"
  by (auto simp: consensus_reachable_def bindr_Inl_iff usize_sub_Inl)

lemma good_consensus_continue: "good (sm_cmd_ids sm) (consensus_continue L d sm st a i)"
proof (cases "consensus_reachable L st (sm_f sm) (length (sm_nodes sm))")
  case (Inl e)
  then show ?thesis using consensus_reachable_panics by (auto simp: consensus_continue_def)
next
  case (Inr b)
  then show ?thesis by (cases b) (auto simp: consensus_continue_def step_outcome_def)
qed

lemma good_consensus: "good (sm_cmd_ids sm) (consensus_event L d sm st re)"
proof -
  have "good (sm_cmd_ids sm) (consensus_reply L d sm st raw a i)" for raw a i
    using good_consensus_continue [of sm L d]
    by (auto simp: consensus_reply_def Let_def step_outcome_def split: sum.splits)
  then show ?thesis
    using good_consensus_continue [of sm L d] by (cases re) (auto simp: step_outcome_def)
qed

lemma good_try_to_continue: "good (sm_cmd_ids sm) (try_to_continue d sm st i a)"
  by (auto simp: try_to_continue_def step_outcome_def)

lemma fresh_at_panics: "fresh_at L sp t l = Inl e \<Longrightarrow> e = Panic"
  by (auto simp: fresh_at_def bindr_Inl_iff dest: u64_add_Inl)

lemma check_freshness_panics: "check_freshness L sp v ts l = Inl e \<Longrightarrow> e = Panic"
  by (auto simp: check_freshness_def Let_def bindr_Inl_iff dest: fresh_at_panics split: prod.splits option.splits if_splits)

lemma check_state_proof_panics: "check_state_proof L sp v f ns raw k ts l = Inl e \<Longrightarrow> e = Panic"
  by (auto simp: check_state_proof_def dest: check_freshness_panics split: option.splits bool.splits)

lemma get_last_signed_time_panics: "get_last_signed_time L raw = Inl e \<Longrightarrow> e = Panic"
  by (auto simp: get_last_signed_time_def reply_result_def bindr_Inl_iff split: option.splits if_splits list.splits)

lemma single_decide_panics: "single_decide L sp sm st raw v w l = Inl e \<Longrightarrow> e = Panic"
  by (auto simp: single_decide_def Let_def bindr_Inl_iff dest: check_state_proof_panics split: if_splits)

lemma good_single: "good (sm_cmd_ids sm) (single_event L sp d sm st re)"
proof -
  have "good (sm_cmd_ids sm) (single_reply L sp d sm st raw a i)" for raw a i
    using good_try_to_continue [of sm d] get_last_signed_time_panics [of L raw] single_decide_panics [of L sp sm]
    by (auto simp: single_reply_def Let_def step_outcome_def split: sum.splits option.splits)
  then show ?thesis using good_try_to_continue [of sm d] by (cases re) (auto simp: step_outcome_def)
qed

lemma good_full: "good (sm_cmd_ids sm) (full_event L d sm st re)"
  by (cases re) (auto simp: step_outcome_def full_request_handle_consensus_state_def Let_def)

lemma catchup_target_outcome:
  assumes "process_catchup_target L d root sz proof a st f ns = (d', st', Inr (b, ev))"
  shows "case ev of None \<Rightarrow> \<not> b | Some p \<Rightarrow> if b then is_final p else \<exists>t. p = CatchupRestart t"
  using assms by (auto simp: process_catchup_target_def Let_def split: prod.splits sum.splits CatchupProgress.splits failure.splits)

lemma catchup_target_panics: "process_catchup_target L d root sz pr a st f ns = (d', st', Inl e) \<Longrightarrow> e = Panic"
  by (auto simp: process_catchup_target_def Let_def split: prod.splits sum.splits CatchupProgress.splits failure.splits)

lemma good_catchup_target: "good ids (catchup_target_handle_consensus_state L d st root sz pr a i f ns)"
proof -
  obtain d' st' r where p: "process_catchup_target L d root sz pr a st f ns = (d', st', r)" by (rule prod_cases3)
  show ?thesis
  proof (cases r)
    case (Inl e)
    then show ?thesis using p catchup_target_panics by (auto simp: catchup_target_handle_consensus_state_def)
  next
    case (Inr x)
    then obtain b ev where "r = Inr (b, ev)" by (cases x) auto
    then show ?thesis using p catchup_target_outcome [of L d root sz pr a st f ns d' st' b ev]
      by (cases b; cases ev) (auto simp: catchup_target_handle_consensus_state_def step_outcome_def)
  qed
qed

lemma good_catchup_consensus: "good (sm_cmd_ids sm) (catchup_consensus_event L d sm st re)"
proof (cases re)
  case (LedgerStatusEvent ls a m)
  then show ?thesis using good_catchup_target by (cases a) (simp_all add: step_outcome_def)
qed (use good_catchup_target in \<open>simp_all add: step_outcome_def, blast\<close>)

lemma good_catchup_single: "good (sm_cmd_ids sm) (catchup_single_event L d sm st re)"
  by (cases re) (auto simp: step_outcome_def split: prod.splits sum.splits failure.splits)

lemma good_start: "good (sm_cmd_ids sm) (start_event L d sm re)"
proof (cases re)
  case (LedgerStatusEvent ls a m)
  then show ?thesis by (cases m) (simp_all add: step_outcome_def)
qed (auto simp: step_outcome_def start_full_def resend_count_def build_catchup_req_def Let_def split: sum.splits option.splits if_splits)

lemma good_event: "sm_state sm \<noteq> Finish \<Longrightarrow> good (sm_cmd_ids sm) (state_event L sp d sm re)"
  by (cases "sm_state sm")
     (simp_all add: state_event_def good_start good_single good_consensus good_catchup_single good_catchup_consensus good_full)

lemma run_finished: "sm_state sm = Finish \<Longrightarrow> run_events L d sm evs = (d, [], Inr (sm, []))"
proof (induction evs)
  case (Cons e evs)
  have "sm\<lparr>sm_state := Finish\<rparr> = sm" using Cons.prems by (cases sm) simp
  then have "handle_event L (fst e) d sm (snd e) = (d, [], Inr (sm, None))"
    using Cons.prems by (simp add: handle_event_def state_event_def)
  then show ?case using Cons by (cases e) simp
qed simp

text \<open>What a run can amount to.\<close>

definition run_outcome :: "CommandHandle list \<Rightarrow> effect list \<Rightarrow> (RequestSM \<times> PoolEvent list) IndyResult \<Rightarrow> bool" where
  "run_outcome ids effs r \<longleftrightarrow>
    (\<exists>ans. acks effs = (case ans of None \<Rightarrow> [] | Some m \<Rightarrow> send_replies ids m) \<and>
      (case r of
         Inl e \<Rightarrow> e = Panic \<and> ans = None
       | Inr (sm, pes) \<Rightarrow>
           (sm_state sm = Finish \<longleftrightarrow> ans \<noteq> None \<or> (\<exists>p\<in>set pes. is_final p)) \<and> \<not> (ans \<noteq> None \<and> (\<exists>p\<in>set pes. is_final p))))"

lemma run_outcome_live:
  "sm_state sm \<noteq> Finish \<Longrightarrow> run_events L d sm evs = (d', effs, r) \<Longrightarrow> run_outcome (sm_cmd_ids sm) effs r"
proof (induction evs arbitrary: d sm d' effs r)
  case Nil
  then show ?case by (auto simp: run_outcome_def intro: exI [of _ None])
next
  case (Cons e evs)
  obtain sp re where e: "e = (sp, re)" by force
  obtain d1 effs1 r1 where st: "state_event L sp d sm re = (d1, effs1, r1)" by (rule prod_cases3)
  note g = good_event [OF Cons.prems(1), of L sp d re, unfolded st]
  show ?case
  proof (cases r1)
    case (Inl x)
    then show ?thesis using g st Cons.prems(2) unfolding e
      by (auto simp: handle_event_def run_outcome_def intro: exI [of _ None])
  next
    case (Inr x)
    obtain st' ev where x: "x = (st', ev)" by force
    let ?sm = "sm\<lparr>sm_state := st'\<rparr>"
    have h: "handle_event L sp d sm re = (d1, effs1, Inr (?sm, ev))" using st Inr x by (simp add: handle_event_def)
    obtain d2 effs2 r2 where run: "run_events L d1 ?sm evs = (d2, effs2, r2)" by (rule prod_cases3)
    have res: "effs = effs1 @ effs2" "r = bindr r2 (\<lambda>(sm2, pes). Inr (sm2, (case ev of None \<Rightarrow> [] | Some p \<Rightarrow> [p]) @ pes))"
      using Cons.prems(2) h run unfolding e by simp_all
    have out: "step_outcome (sm_cmd_ids sm) effs1 st' ev" using g Inr x by simp
    show ?thesis
    proof (cases "st' = Finish")
      case True
      then have "effs2 = []" "r2 = Inr (?sm, [])" using run run_finished [of ?sm L d1 evs] by auto
      then show ?thesis using out True res
        by (cases ev) (auto simp: step_outcome_def run_outcome_def split: option.splits intro: exI [of _ None] exI [of _ "Some m" for m])
    next
      case False
      then have acks1: "acks effs1 = []" and ev: "\<forall>p. ev = Some p \<longrightarrow> \<not> is_final p"
        using out by (auto simp: step_outcome_def split: option.splits)
      have "run_outcome (sm_cmd_ids ?sm) effs2 r2" using Cons.IH [OF _ run] False by simp
      then obtain ans where "acks effs2 = (case ans of None \<Rightarrow> [] | Some m \<Rightarrow> send_replies (sm_cmd_ids sm) m) \<and>
        (case r2 of Inl e \<Rightarrow> e = Panic \<and> ans = None | Inr (sm, pes) \<Rightarrow>
           (sm_state sm = Finish \<longleftrightarrow> ans \<noteq> None \<or> (\<exists>p\<in>set pes. is_final p)) \<and> \<not> (ans \<noteq> None \<and> (\<exists>p\<in>set pes. is_final p)))"
        by (auto simp: run_outcome_def)
      then show ?thesis using acks1 ev unfolding res run_outcome_def
        by (intro exI [of _ ans]) (cases r2; cases ev; auto)
    qed
  qed
qed

section \<open>Who backs an answer\<close>

fun reply_of :: "RequestEvent \<Rightarrow> (string \<times> string) option" where
  "reply_of (ReplyEvent _ raw a _) = Some (a, raw)"
| "reply_of (ReqNACKEvent _ raw a _) = Some (a, raw)"
| "reply_of (RejectEvent _ raw a _) = Some (a, raw)"
| "reply_of _ = None"

text \<open>The result of a message without its state proofs, and the nodes that sent it.\<close>

definition result_of :: "plibs \<Rightarrow> string \<Rightarrow> Value option" where
  "result_of L raw = (case get_msg_result_without_state_proof L raw of Inr (_, v) \<Rightarrow> Some v | Inl _ \<Rightarrow> None)"

definition voters :: "plibs \<Rightarrow> (splibs \<times> RequestEvent) list \<Rightarrow> Value \<Rightarrow> string set" where
  "voters L evs v = {a. \<exists>sp re raw. (sp, re) \<in> set evs \<and> reply_of re = Some (a, raw) \<and> result_of L raw = Some v}"

text \<open>A reply whose state proof is valid, and fresh at its time.\<close>

definition proved :: "plibs \<Rightarrow> Nodes \<Rightarrow> nat \<Rightarrow> (splibs \<times> RequestEvent) list \<Rightarrow> string \<Rightarrow> bool" where
  "proved L nodes f evs m \<longleftrightarrow>
    (\<exists>sp re a result v key ts t. (sp, re) \<in> set evs \<and> reply_of re = Some (a, m) \<and> get_msg_result_without_state_proof L m = Inr (result, v) \<and>
      get_last_signed_time L m = Inr t \<and> sp_verify sp result m key nodes f = Some True \<and>
      check_freshness L sp result ts (case t of Some n \<Rightarrow> n | None \<Rightarrow> 0) = Inr True)"

definition backed :: "plibs \<Rightarrow> Nodes \<Rightarrow> nat \<Rightarrow> (splibs \<times> RequestEvent) list \<Rightarrow> string \<Rightarrow> bool" where
  "backed L nodes f evs m \<longleftrightarrow> (\<exists>v. result_of L m = Some v \<and> f < card (voters L evs v)) \<or> proved L nodes f evs m"

lemma voters_mono: "set evs \<subseteq> set evs' \<Longrightarrow> voters L evs v \<subseteq> voters L evs' v"
  unfolding voters_def by blast

lemma finite_voters [simp]: "finite (voters L evs v)"
proof (rule finite_subset)
  show "voters L evs v \<subseteq> (\<lambda>(sp, re). fst (the (reply_of re))) ` set evs" unfolding voters_def by force
qed simp

lemma proved_mono: "proved L nodes f evs m \<Longrightarrow> set evs \<subseteq> set evs' \<Longrightarrow> proved L nodes f evs' m"
  unfolding proved_def by blast

lemma backed_mono:
  assumes "backed L nodes f evs m" "set evs \<subseteq> set evs'"
  shows "backed L nodes f evs' m"
proof -
  have "card (voters L evs v) \<le> card (voters L evs' v)" for v using voters_mono [OF assms(2)] by (intro card_mono) auto
  then show ?thesis using assms proved_mono unfolding backed_def by (meson less_le_trans)
qed

definition backing :: "plibs \<Rightarrow> (splibs \<times> RequestEvent) list \<Rightarrow> RequestState \<Rightarrow> bool" where
  "backing L evs st =
    (case st of
       Consensus c \<Rightarrow> (\<forall>v ns. map_of (co_replies c) v = Some ns \<longrightarrow> distinct ns \<and> set ns \<subseteq> voters L evs v)
     | Single c \<Rightarrow> (\<forall>v rs. map_of (si_replies c) v = Some rs \<longrightarrow> distinct (map nr_node_alias rs) \<and>
         nr_node_alias ` set rs \<subseteq> voters L evs v \<and> (\<forall>r\<in>set rs. result_of L (nr_raw_msg r) = Some v))
     | Full _ \<Rightarrow> False
     | _ \<Rightarrow> True)"

lemma backing_simps [simp]:
  "backing L evs Start" "backing L evs Finish" "backing L evs (CatchupSingle cs)" "backing L evs (CatchupConsensus cc)"
  "\<not> backing L evs (Full fu)" "backing L evs (Single (single_new k ts))" "backing L evs (Consensus consensus_new)"
  by (simp_all add: backing_def single_new_def consensus_new_def)

lemma backing_mono: "backing L evs st \<Longrightarrow> set evs \<subseteq> set evs' \<Longrightarrow> backing L evs' st"
  using voters_mono [of evs evs' L] unfolding backing_def by (cases st) (simp_all, blast+)

definition oks :: "effect list \<Rightarrow> string set" where
  "oks effs = {m. \<exists>i. SubmitAck i (Inr m) \<in> set effs}"

lemma oks_simps [simp]:
  "oks [] = {}" "oks (ToNetworker n # effs) = oks effs" "oks (effs @ effs') = oks effs \<union> oks effs'"
  "oks (send_replies ids (Inl e)) = {}" "oks (finish_request ids) = {}" "oks (replicate k (ToNetworker n)) = {}"
  by (auto simp: oks_def send_replies_def finish_request_def)

lemma oks_send_ok: "oks (send_ok_replies ids m) \<subseteq> {m}"
  by (auto simp: oks_def send_ok_replies_def send_replies_def)

text \<open>One event keeps the records true and makes only backed answers.\<close>

definition keeps :: "plibs \<Rightarrow> Nodes \<Rightarrow> nat \<Rightarrow> (splibs \<times> RequestEvent) list \<Rightarrow> handled \<Rightarrow> bool" where
  "keeps L nodes f evs h \<longleftrightarrow>
    (case h of (d, effs, r) \<Rightarrow> (\<forall>m\<in>oks effs. backed L nodes f evs m) \<and> (\<forall>st ev. r = Inr (st, ev) \<longrightarrow> backing L evs st))"

lemma keeps_simps [simp]:
  "keeps L nodes f evs (d, effs, Inl e) \<longleftrightarrow> (\<forall>m\<in>oks effs. backed L nodes f evs m)"
  "keeps L nodes f evs (d, effs, Inr (st, ev)) \<longleftrightarrow> (\<forall>m\<in>oks effs. backed L nodes f evs m) \<and> backing L evs st"
  by (auto simp: keeps_def)

lemma keepsD:
  "keeps L nodes f evs (d, effs, r) \<Longrightarrow> m \<in> oks effs \<Longrightarrow> backed L nodes f evs m"
  "keeps L nodes f evs (d, effs, Inr (st, ev)) \<Longrightarrow> backing L evs st"
  by (simp_all add: keeps_def)

lemma keeps_consensus_continue:
  "backing L evs (Consensus st) \<Longrightarrow> keeps L nodes f evs (consensus_continue L d sm st a i)"
  by (auto simp: consensus_continue_def backing_def split: sum.splits bool.splits)

lemma consensus_reply_eq:
  assumes "get_msg_result_without_state_proof L raw = Inr (result, v)"
    and "st' = st\<lparr>co_replies := upsert v (List.insert a) [] (co_replies st)\<rparr>" "map_of (co_replies st') v = Some ns"
  shows "consensus_reply L d sm st raw a i =
    (if sm_f sm < length ns then handled_ok d (send_ok_replies (sm_cmd_ids sm) raw @ [ToNetworker (CleanTimeout i None)]) Finish
     else consensus_continue L d sm st' a i)"
  using assms(3) by (simp add: consensus_reply_def assms(1,2))

lemma keeps_consensus_reply:
  assumes b: "backing L evs (Consensus st)" and e: "(sp, re) \<in> set evs" "reply_of re = Some (a, raw)"
  shows "keeps L nodes (sm_f sm) evs (consensus_reply L d sm st raw a i)"
proof (cases "get_msg_result_without_state_proof L raw")
  case (Inl x)
  then show ?thesis using b by (auto simp: consensus_reply_def Let_def backing_def)
next
  case (Inr x)
  obtain result v where x: "x = (result, v)" by force
  define st' where "st' = st\<lparr>co_replies := upsert v (List.insert a) [] (co_replies st)\<rparr>"
  have res: "result_of L raw = Some v" using Inr x by (simp add: result_of_def)
  then have a: "a \<in> voters L evs v" using e unfolding voters_def by blast
  then have b': "backing L evs (Consensus st')"
    using b unfolding backing_def st'_def by (auto split: option.split)
  obtain ns where ns: "map_of (co_replies st') v = Some ns" by (simp add: st'_def)
  then have "distinct ns" "set ns \<subseteq> voters L evs v" using b' by (auto simp: backing_def)
  then have "length ns \<le> card (voters L evs v)" by (metis card_mono distinct_card finite_voters)
  then have "sm_f sm < length ns \<Longrightarrow> backed L nodes (sm_f sm) evs raw" using res by (auto simp: backed_def)
  then show ?thesis
    using consensus_reply_eq [OF Inr [unfolded x] st'_def ns, of d sm i] keeps_consensus_continue [OF b', of nodes "sm_f sm" d sm a i] oks_send_ok [of "sm_cmd_ids sm" raw]
    by (auto simp: backing_def)
qed

lemma keeps_consensus:
  assumes b: "backing L evs (Consensus st)" and e: "(sp, re) \<in> set evs"
  shows "keeps L nodes (sm_f sm) evs (consensus_event L d sm st re)"
proof -
  have t: "backing L evs (Consensus (st\<lparr>co_timeout_nodes := ns\<rparr>))" for ns using b by (simp add: backing_def)
  show ?thesis
    using keeps_consensus_reply [OF b e] keeps_consensus_continue [OF t] b by (cases re) (auto simp: backing_def)
qed

lemma keeps_try_to_continue: "backing L evs (Single st) \<Longrightarrow> keeps L nodes f evs (try_to_continue d sm st i a)"
  by (auto simp: try_to_continue_def backing_def)

lemma max_by_key_None: "max_by_key key xs = None \<longleftrightarrow> xs = []"
  by (cases xs) (auto split: option.splits)

lemma max_by_key_mem: "max_by_key key xs = Some x \<Longrightarrow> x \<in> set xs \<and> (\<forall>y\<in>set xs. key y \<le> key x)"
proof (induction xs arbitrary: x)
  case (Cons z zs)
  show ?case using Cons max_by_key_None [of key zs] by (cases "max_by_key key zs") (auto split: if_splits)
qed simp

lemma keeps_single_reply:
  assumes b: "backing L evs (Single st0)" and e: "(sp, re) \<in> set evs" "reply_of re = Some (a, raw)" and n: "sm_nodes sm = nodes"
  shows "keeps L nodes (sm_f sm) evs (single_reply L sp d sm st0 raw a i)"
proof -
  define st where "st = st0\<lparr>si_timeout_nodes := removeAll a (si_timeout_nodes st0)\<rparr>"
  have b1: "backing L evs (Single st)" using b by (simp add: st_def backing_def)
  show ?thesis
  proof (cases "get_msg_result_without_state_proof L raw")
    case (Inl x)
    have "backing L evs (Single (st\<lparr>si_denied_nodes := ns\<rparr>))" for ns using b1 by (simp add: backing_def)
    then show ?thesis using keeps_try_to_continue [of L evs _ nodes "sm_f sm" d sm i a]
      by (simp add: single_reply_def Inl st_def)
  next
    case (Inr x)
    obtain result v where x: "x = (result, v)" by force
    have res: "result_of L raw = Some v" using Inr x by (simp add: result_of_def)
    show ?thesis
    proof (cases "get_last_signed_time L raw")
      case (Inl y)
      then show ?thesis by (simp add: single_reply_def Inr x)
    next
      case t: (Inr t)
      define l where "l = (case t of Some n \<Rightarrow> n | None \<Rightarrow> 0)"
      define st' where "st' = single_record st raw a v l"
      have eq: "single_reply L sp d sm st0 raw a i =
        (case single_decide L sp sm st' raw result v l of
           Inl e \<Rightarrow> (d, [], Inl e)
         | Inr (Some answer) \<Rightarrow> handled_ok d (ToNetworker (CleanTimeout i None) # send_ok_replies (sm_cmd_ids sm) answer) Finish
         | Inr None \<Rightarrow> try_to_continue d sm st' i a)"
        unfolding single_reply_def st'_def st_def l_def Let_def by (simp only: Inr x t prod.case sum.case)
      have "a \<in> voters L evs v" using e res unfolding voters_def by blast
      then have b': "backing L evs (Single st')"
        using b1 res unfolding backing_def st'_def single_record_def by (auto simp: insert_response_def split: option.splits)
      obtain rs where rs: "map_of (si_replies st') v = Some rs" by (simp add: st'_def single_record_def)
      then have r: "distinct (map nr_node_alias rs)" "nr_node_alias ` set rs \<subseteq> voters L evs v"
        "\<forall>r\<in>set rs. result_of L (nr_raw_msg r) = Some v" using b' by (auto simp: backing_def)
      have "length rs = card (nr_node_alias ` set rs)" using distinct_card [OF r(1)] by simp
      also have "\<dots> \<le> card (voters L evs v)" using r(2) by (intro card_mono) auto
      finally have len: "length rs \<le> card (voters L evs v)" .
      have "backed L nodes (sm_f sm) evs answer" if a: "single_decide L sp sm st' raw result v l = Inr (Some answer)" for answer
      proof (cases "sm_f sm < length rs")
        case True
        then obtain y where "max_by_key nr_timestamp rs = Some y" using max_by_key_None [of nr_timestamp rs] by fastforce
        with a True rs have "answer = nr_raw_msg y" "y \<in> set rs" using max_by_key_mem by (fastforce simp: single_decide_def)+
        then show ?thesis using r(3) len True unfolding backed_def by auto
      next
        case False
        then have c: "check_state_proof L sp result (sm_f sm) (sm_nodes sm) raw (si_sp_key st') (si_timestamps st') l = Inr True" "answer = raw"
          using a rs by (auto simp: single_decide_def bindr_Inr_iff split: if_splits)
        then have "sp_verify sp result raw (si_sp_key st') nodes (sm_f sm) = Some True" "check_freshness L sp result (si_timestamps st') l = Inr True"
          using n by (auto simp: check_state_proof_def split: option.splits bool.splits)
        then show ?thesis using e Inr x t l_def c(2) unfolding backed_def proved_def by blast
      qed
      then show ?thesis
        using keeps_try_to_continue [OF b', of nodes "sm_f sm" d sm i a] oks_send_ok unfolding eq
        by (fastforce simp: backing_def split: sum.splits option.splits)
    qed
  qed
qed

lemma keeps_single:
  assumes b: "backing L evs (Single st)" and e: "(sp, re) \<in> set evs" and n: "sm_nodes sm = nodes"
  shows "keeps L nodes (sm_f sm) evs (single_event L sp d sm st re)"
proof -
  have t: "backing L evs (Single (st\<lparr>si_timeout_nodes := ns\<rparr>))" for ns using b by (simp add: backing_def)
  show ?thesis
    using keeps_single_reply [OF b e _ n] keeps_try_to_continue [OF t] b by (cases re) (auto simp: backing_def)
qed

lemma keeps_start:
  assumes "\<nexists>m i t ns. re = CustomFullRequest m i t ns"
  shows "keeps L nodes f evs (start_event L d sm re)"
proof (cases re)
  case (LedgerStatusEvent ls a m)
  then show ?thesis by (cases m) auto
qed (use assms in \<open>auto simp: resend_count_def build_catchup_req_def Let_def
      split: sum.splits option.splits if_splits\<close>)

lemma keeps_catchup_target: "keeps L nodes f evs (catchup_target_handle_consensus_state L d st root sz pr a i f' ns)"
proof -
  obtain d' st' r where p: "process_catchup_target L d root sz pr a st f' ns = (d', st', r)" by (rule prod_cases3)
  show ?thesis
    by (auto simp: catchup_target_handle_consensus_state_def p split: sum.splits bool.splits option.splits PoolEvent.splits)
qed

lemma keeps_catchup_consensus: "keeps L nodes f evs (catchup_consensus_event L d sm st re)"
proof (cases re)
  case (LedgerStatusEvent ls a m)
  then show ?thesis using keeps_catchup_target by (cases a) simp_all
qed (simp_all add: keeps_catchup_target)

lemma keeps_catchup_single: "keeps L nodes f evs (catchup_single_event L d sm st re)"
  by (cases re) (auto split: prod.splits sum.splits failure.splits)

lemma keeps_event:
  assumes "backing L evs (sm_state sm)" "(sp, re) \<in> set evs" "\<nexists>m i t ns. re = CustomFullRequest m i t ns"
  shows "keeps L (sm_nodes sm) (sm_f sm) evs (state_event L sp d sm re)"
proof (cases "sm_state sm")
  case Start
  then show ?thesis using keeps_start [OF assms(3)] by (simp add: state_event_def)
next
  case (Single st)
  then show ?thesis using keeps_single assms by (simp add: state_event_def)
next
  case (Consensus st)
  then show ?thesis using keeps_consensus assms by (simp add: state_event_def)
next
  case (Full st)
  then show ?thesis using assms(1) by simp
qed (simp_all add: state_event_def keeps_catchup_single keeps_catchup_consensus)

lemma run_backed:
  "backing L hist (sm_state sm) \<Longrightarrow> run_events L d sm evs = (d', effs, r) \<Longrightarrow>
   \<forall>e\<in>set evs. \<nexists>m i t ns. snd e = CustomFullRequest m i t ns \<Longrightarrow>
   \<forall>m\<in>oks effs. backed L (sm_nodes sm) (sm_f sm) (hist @ evs) m"
proof (induction evs arbitrary: hist d sm d' effs r)
  case (Cons e evs)
  obtain sp re where e: "e = (sp, re)" by force
  obtain d1 effs1 r1 where st: "state_event L sp d sm re = (d1, effs1, r1)" by (rule prod_cases3)
  have "backing L (hist @ [e]) (sm_state sm)" using Cons.prems(1) by (rule backing_mono) auto
  then have k: "keeps L (sm_nodes sm) (sm_f sm) (hist @ [e]) (state_event L sp d sm re)"
    by (rule keeps_event) (use Cons.prems(3) e in auto)
  have k1: "\<forall>m\<in>oks effs1. backed L (sm_nodes sm) (sm_f sm) (hist @ e # evs) m"
    by (intro ballI backed_mono [OF keepsD(1) [OF k [unfolded st]]]) auto
  show ?case
  proof (cases r1)
    case (Inl x)
    then have "effs = effs1" using Cons.prems(2) st unfolding e by (simp add: handle_event_def)
    then show ?thesis using k1 by simp
  next
    case (Inr x)
    obtain st' ev where x: "x = (st', ev)" by force
    let ?sm = "sm\<lparr>sm_state := st'\<rparr>"
    have h: "handle_event L sp d sm re = (d1, effs1, Inr (?sm, ev))" using st Inr x by (simp add: handle_event_def)
    obtain d2 effs2 r2 where run: "run_events L d1 ?sm evs = (d2, effs2, r2)" by (rule prod_cases3)
    have "backing L (hist @ [e]) (sm_state ?sm)" using k Inr x unfolding st by simp
    from Cons.IH [OF this run] Cons.prems(3)
    have "\<forall>m\<in>oks effs2. backed L (sm_nodes sm) (sm_f sm) (hist @ e # evs) m" by simp
    moreover have "effs = effs1 @ effs2" using Cons.prems(2) h run unfolding e by simp
    ultimately show ?thesis using k1 by auto
  qed
qed simp

section \<open>Nodes heard\<close>

fun responder :: "RequestEvent \<Rightarrow> string option" where
  "responder (TimeoutEvent _ a) = Some a"
| "responder re = map_option fst (reply_of re)"

definition heard :: "(splibs \<times> RequestEvent) list \<Rightarrow> string set" where
  "heard evs = {a. \<exists>e\<in>set evs. responder (snd e) = Some a}"

definition reply_nodes :: "(Value \<times> NodeResponse list) list \<Rightarrow> string set" where
  "reply_nodes replies = (\<Union>e\<in>set replies. nr_node_alias ` set (snd e))"

lemma heard_simps [simp]: "heard [] = {}" "heard (evs @ [e]) = (case responder (snd e) of Some a \<Rightarrow> insert a (heard evs) | None \<Rightarrow> heard evs)"
  by (auto simp: heard_def split: option.split)

lemma reply_nodes_upsert [simp]: "reply_nodes (upsert v (insert_response r) [] xs) = insert (nr_node_alias r) (reply_nodes xs)"
proof -
  have c: "reply_nodes ((k, rs) # ys) = nr_node_alias ` set rs \<union> reply_nodes ys" "reply_nodes [] = {}" for k rs ys
    by (simp_all add: reply_nodes_def)
  have i: "nr_node_alias ` set (insert_response r rs) = insert (nr_node_alias r) (nr_node_alias ` set rs)" for rs
    by (auto simp: insert_response_def)
  show ?thesis
  proof (induction xs)
    case (Cons x xs)
    then show ?case by (cases x) (auto simp: c i)
  qed (simp add: c i)
qed

lemma card_reply_nodes: "card (reply_nodes xs) \<le> reply_count xs"
proof (induction xs)
  case (Cons x xs)
  have "reply_nodes (x # xs) = nr_node_alias ` set (snd x) \<union> reply_nodes xs" by (simp add: reply_nodes_def)
  then have "card (reply_nodes (x # xs)) \<le> card (nr_node_alias ` set (snd x)) + card (reply_nodes xs)" by (simp add: card_Un_le)
  also have "card (nr_node_alias ` set (snd x)) \<le> length (snd x)" by (meson card_image_le card_length finite_set le_trans)
  finally show ?case using Cons by (simp add: reply_count_def)
qed (simp add: reply_nodes_def)

text \<open>A read request that is not finished knows every node it heard of, and has not heard of all.\<close>

definition hearing :: "nat \<Rightarrow> (splibs \<times> RequestEvent) list \<Rightarrow> SingleState \<Rightarrow> bool" where
  "hearing n evs st \<longleftrightarrow>
    heard evs \<subseteq> set (si_timeout_nodes st) \<union> set (si_denied_nodes st) \<union> reply_nodes (si_replies st) \<and>
    (heard evs = {} \<or> single_reachable st n)"

lemma hearing_not_all:
  assumes "hearing (length nodes) evs st" "distinct (map fst nodes)" "nodes \<noteq> []" "fst ` set nodes \<subseteq> heard evs"
  shows False
proof -
  let ?t = "set (si_timeout_nodes st)" and ?d = "set (si_denied_nodes st)" and ?r = "reply_nodes (si_replies st)"
  have "heard evs \<noteq> {}" using assms(3,4) by auto
  then have s: "single_reachable st (length nodes)" "fst ` set nodes \<subseteq> ?t \<union> ?d \<union> ?r" using assms(1,4) by (auto simp: hearing_def)
  have "length nodes = card (fst ` set nodes)" using distinct_card [OF assms(2)] by simp
  also have "\<dots> \<le> card (?t \<union> ?d \<union> ?r)" using s(2) by (intro card_mono) (auto simp: reply_nodes_def)
  also have "\<dots> \<le> card ?t + card ?d + card ?r" by (meson add_le_mono1 card_Un_le le_trans)
  also have "\<dots> \<le> length (si_timeout_nodes st) + length (si_denied_nodes st) + reply_count (si_replies st)"
    by (intro add_mono card_length card_reply_nodes)
  finally show False using s(1) by (simp add: single_reachable_def)
qed

text \<open>
  A reply that the handler of a read request can check: if it has a result, its signed time can be read, and the
  verification of its state proof, for the key, nodes and number of faults of the request, returns.
\<close>

definition checkable :: "plibs \<Rightarrow> bytes option \<Rightarrow> Nodes \<Rightarrow> nat \<Rightarrow> splibs \<times> RequestEvent \<Rightarrow> bool" where
  "checkable L key nodes f e \<longleftrightarrow>
    (\<forall>a raw result v. reply_of (snd e) = Some (a, raw) \<and> get_msg_result_without_state_proof L raw = Inr (result, v) \<longrightarrow>
      is_ok (get_last_signed_time L raw) \<and> sp_verify (fst e) result raw key nodes f \<noteq> None)"

lemma single_decide_ok:
  assumes c: "\<not> pb_overflow_checks L" and r: "sp_verify sp v raw (si_sp_key st) (sm_nodes sm) (sm_f sm) \<noteq> None"
  shows "is_ok (single_decide L sp sm st raw v w l)"
proof -
  have f: "\<exists>b. fresh_at L sp t l = Inr b" for t l using c by (auto simp: fresh_at_def u64_add_def)
  have "\<exists>b. check_freshness L sp v ts l = Inr b" for ts
  proof -
    obtain x y where ts: "ts = (x, y)" by force
    define k where "k = (case extract_left_last_write_time v of Some t \<Rightarrow> t | None \<Rightarrow> 0)"
    obtain g where g: "fresh_at L sp t l = Inr (g t l)" for t l using f by metis
    show ?thesis by (cases x; cases y) (auto simp: check_freshness_def ts g)
  qed
  moreover obtain b where "sp_verify sp v raw (si_sp_key st) (sm_nodes sm) (sm_f sm) = Some b" using r by blast
  ultimately show ?thesis by (cases b) (auto simp: single_decide_def check_state_proof_def Let_def is_ok_bindr)
qed

lemma hearing_continue:
  assumes "heard (evs @ [e]) \<subseteq> set (si_timeout_nodes st) \<union> set (si_denied_nodes st) \<union> reply_nodes (si_replies st)"
  shows "\<exists>effs st'. try_to_continue d sm st i a = (d, effs, Inr (st', None)) \<and>
    (st' = Finish \<or> (\<exists>s. st' = Single s \<and> si_sp_key s = si_sp_key st \<and> hearing (length (sm_nodes sm)) (evs @ [e]) s))"
  using assms by (auto simp: try_to_continue_def hearing_def)

lemma hearing_event:
  assumes h: "hearing (length (sm_nodes sm)) evs st" and o: "\<not> pb_overflow_checks L"
    and c: "checkable L (si_sp_key st) (sm_nodes sm) (sm_f sm) (sp, re)"
  shows "\<exists>effs st'. single_event L sp d sm st re = (d, effs, Inr (st', None)) \<and>
    (st' = Finish \<or> (\<exists>s. st' = Single s \<and> si_sp_key s = si_sp_key st \<and> hearing (length (sm_nodes sm)) (evs @ [(sp, re)]) s))"
proof -
  have reply: "\<exists>effs st'. single_reply L sp d sm st raw a i = (d, effs, Inr (st', None)) \<and>
      (st' = Finish \<or> (\<exists>s. st' = Single s \<and> si_sp_key s = si_sp_key st \<and> hearing (length (sm_nodes sm)) (evs @ [(sp, re)]) s))"
    if re: "reply_of re = Some (a, raw)" "responder re = Some a" for a raw i
  proof -
    define st1 where "st1 = st\<lparr>si_timeout_nodes := removeAll a (si_timeout_nodes st)\<rparr>"
    have k1: "si_sp_key st1 = si_sp_key st" by (simp add: st1_def)
    have h1: "heard evs \<subseteq> insert a (set (si_timeout_nodes st1) \<union> set (si_denied_nodes st1) \<union> reply_nodes (si_replies st1))"
      using h by (auto simp: hearing_def st1_def)
    show ?thesis
    proof (cases "get_msg_result_without_state_proof L raw")
      case (Inl x)
      have "single_reply L sp d sm st raw a i =
          try_to_continue d sm (st1\<lparr>si_denied_nodes := List.insert a (si_denied_nodes st1)\<rparr>) i a"
        by (simp add: single_reply_def Inl st1_def)
      moreover have "heard (evs @ [(sp, re)]) \<subseteq> insert a (set (si_timeout_nodes st1) \<union> set (si_denied_nodes st1) \<union> reply_nodes (si_replies st1))"
        using h1 re by auto
      ultimately show ?thesis
        using hearing_continue [of evs "(sp, re)" "st1\<lparr>si_denied_nodes := List.insert a (si_denied_nodes st1)\<rparr>" d sm i a] k1 by simp
    next
      case (Inr x)
      obtain result v where x: "x = (result, v)" by force
      obtain t where t: "get_last_signed_time L raw = Inr t" using c re(1) Inr x by (auto simp: checkable_def is_ok_iff)
      define l where "l = (case t of Some n \<Rightarrow> n | None \<Rightarrow> 0)"
      define st' where "st' = single_record st1 raw a v l"
      have key: "si_sp_key st' = si_sp_key st" by (simp add: st'_def st1_def single_record_def)
      obtain ans where ans: "single_decide L sp sm st' raw result v l = Inr ans"
        using single_decide_ok [OF o, of sp result raw st' sm v l] c re(1) Inr x key by (auto simp: checkable_def is_ok_iff)
      have "single_reply L sp d sm st raw a i =
        (case ans of Some answer \<Rightarrow> handled_ok d (ToNetworker (CleanTimeout i None) # send_ok_replies (sm_cmd_ids sm) answer) Finish
         | None \<Rightarrow> try_to_continue d sm st' i a)"
        using ans unfolding single_reply_def st'_def st1_def l_def Let_def by (simp only: Inr x t prod.case sum.case split: option.split)
      moreover have "heard (evs @ [(sp, re)]) \<subseteq> set (si_timeout_nodes st') \<union> set (si_denied_nodes st') \<union> reply_nodes (si_replies st')"
        using h1 re by (auto simp: st'_def single_record_def)
      ultimately show ?thesis using hearing_continue [of evs "(sp, re)" st' d sm i a] key by (cases ans) auto
    qed
  qed
  show ?thesis
  proof (cases re)
    case (TimeoutEvent i a)
    let ?st = "st\<lparr>si_timeout_nodes := List.insert a (si_timeout_nodes st)\<rparr>"
    have "heard (evs @ [(sp, re)]) \<subseteq> set (si_timeout_nodes ?st) \<union> set (si_denied_nodes ?st) \<union> reply_nodes (si_replies ?st)"
      using h by (auto simp: hearing_def TimeoutEvent)
    from hearing_continue [OF this, of d sm i a] show ?thesis by (simp add: TimeoutEvent)
  qed (use reply h in \<open>simp_all add: hearing_def\<close>)
qed

lemma hearing_run:
  "sm_state sm = Single st \<Longrightarrow> hearing (length (sm_nodes sm)) hist st \<Longrightarrow> \<not> pb_overflow_checks L \<Longrightarrow>
   \<forall>e\<in>set evs. checkable L (si_sp_key st) (sm_nodes sm) (sm_f sm) e \<Longrightarrow>
   \<exists>d' effs sm'. run_events L d sm evs = (d', effs, Inr (sm', [])) \<and>
     (sm_state sm' = Finish \<or> (\<exists>s. sm_state sm' = Single s \<and> hearing (length (sm_nodes sm)) (hist @ evs) s))"
proof (induction evs arbitrary: hist d sm st)
  case (Cons e evs)
  obtain sp re where e: "e = (sp, re)" by force
  have "checkable L (si_sp_key st) (sm_nodes sm) (sm_f sm) (sp, re)" using Cons.prems(4) e by simp
  from hearing_event [OF Cons.prems(2,3) this, of d] obtain effs st' where
    ev: "single_event L sp d sm st re = (d, effs, Inr (st', None))"
      "st' = Finish \<or> (\<exists>s. st' = Single s \<and> si_sp_key s = si_sp_key st \<and> hearing (length (sm_nodes sm)) (hist @ [e]) s)" unfolding e by blast
  let ?sm = "sm\<lparr>sm_state := st'\<rparr>"
  have h: "handle_event L sp d sm re = (d, effs, Inr (?sm, None))"
    using ev(1) Cons.prems(1) by (simp add: handle_event_def state_event_def)
  show ?case
  proof (cases "st' = Finish")
    case True
    then show ?thesis using h run_finished [of ?sm L d evs] by (simp add: e)
  next
    case False
    then obtain s where "st' = Single s" "si_sp_key s = si_sp_key st" "hearing (length (sm_nodes sm)) (hist @ [e]) s" using ev(2) by blast
    with Cons.IH [of ?sm s "hist @ [e]" d] Cons.prems(3,4) show ?thesis using h by (auto simp: e)
  qed
qed simp

section \<open>One node with many answers\<close>

definition one_voter :: "string \<Rightarrow> Value list \<Rightarrow> ConsensusState" where
  "one_voter a vs = consensus_new\<lparr>co_replies := map (\<lambda>v. (v, [a])) vs\<rparr>"

lemma one_voter_upsert:
  "v \<notin> set vs \<Longrightarrow> upsert v (List.insert a) [] (map (\<lambda>v. (v, [a])) vs) = map (\<lambda>v. (v, [a])) (vs @ [v])"
  by (induction vs) auto

lemma one_voter_counts: "reply_count (map (\<lambda>v. (v, [a])) vs) = length vs" "vs \<noteq> [] \<Longrightarrow> max_count (map (\<lambda>v. (v, [a])) vs) = 1"
proof -
  show "reply_count (map (\<lambda>v. (v, [a])) vs) = length vs" by (induction vs) (simp_all add: reply_count_def)
  have "max_count (map (\<lambda>v. (v, [a])) vs) \<le> 1" by (induction vs) (simp_all add: max_count_def)
  then show "vs \<noteq> [] \<Longrightarrow> max_count (map (\<lambda>v. (v, [a])) vs) = 1" by (cases vs) (simp_all add: max_count_def)
qed

lemma one_voter_reply:
  assumes "v \<notin> set vs" "result_of L raw = Some v" "1 \<le> sm_f sm" "length vs \<le> length (sm_nodes sm)"
  shows "consensus_reply L d sm (one_voter a vs) raw a i =
    (if sm_f sm < Suc (length (sm_nodes sm)) - Suc (length vs)
     then handled_ok d [ToNetworker (CleanTimeout i (Some a))] (Consensus (one_voter a (vs @ [v])))
     else handled_ok d (send_replies (sm_cmd_ids sm) (Inl (Error PoolTimeout)) @ [ToNetworker (CleanTimeout i None)]) Finish)"
proof -
  obtain result where g: "get_msg_result_without_state_proof L raw = Inr (result, v)"
    using assms(2) by (auto simp: result_of_def split: sum.splits prod.splits)
  have st: "(one_voter a vs)\<lparr>co_replies := upsert v (List.insert a) [] (co_replies (one_voter a vs))\<rparr> = one_voter a (vs @ [v])"
    using one_voter_upsert [OF assms(1), of a] by (simp add: one_voter_def)
  have "map_of (co_replies (one_voter a (vs @ [v]))) v = Some [a]"
    using assms(1) by (simp add: one_voter_def map_add_def split: option.split) (auto dest: map_of_SomeD)
  from consensus_reply_eq [OF g st [symmetric] this, of d sm i]
  have "consensus_reply L d sm (one_voter a vs) raw a i = consensus_continue L d sm (one_voter a (vs @ [v])) a i" using assms(3) by simp
  moreover have "consensus_reachable L (one_voter a (vs @ [v])) (sm_f sm) (length (sm_nodes sm)) =
      Inr (sm_f sm < Suc (length (sm_nodes sm)) - Suc (length vs))"
    using assms(4) one_voter_counts(1) [of a "vs @ [v]"] one_voter_counts(2) [of "vs @ [v]" a]
    by (simp add: consensus_reachable_def one_voter_def consensus_new_def usize_sub_le)
  ultimately show ?thesis by (simp add: consensus_continue_def)
qed

lemma one_voter_run:
  "raws \<noteq> [] \<Longrightarrow> map (result_of L) raws = map Some ws \<Longrightarrow> distinct (vs @ ws) \<Longrightarrow> 1 \<le> sm_f sm \<Longrightarrow> sm_f sm \<le> length (sm_nodes sm) \<Longrightarrow>
   length vs + length raws = Suc (length (sm_nodes sm)) - sm_f sm \<Longrightarrow> sm_state sm = Consensus (one_voter a vs) \<Longrightarrow>
   \<exists>effs sm'. run_events L d sm (map (\<lambda>raw. (sp, ReplyEvent rep raw a i)) raws) = (d, effs, Inr (sm', [])) \<and>
     sm_state sm' = Finish \<and> acks effs = send_replies (sm_cmd_ids sm) (Inl (Error PoolTimeout))"
proof (induction raws arbitrary: vs ws sm)
  case (Cons raw raws)
  then obtain w ws' where ws: "ws = w # ws'" "result_of L raw = Some w" "map (result_of L) raws = map Some ws'" by (cases ws) auto
  have "w \<notin> set vs" using Cons.prems(3) ws(1) by auto
  moreover have len: "length vs \<le> length (sm_nodes sm)" using Cons.prems(4-6) by simp
  ultimately have r: "state_event L sp d sm (ReplyEvent rep raw a i) =
      (if sm_f sm < Suc (length (sm_nodes sm)) - Suc (length vs)
       then handled_ok d [ToNetworker (CleanTimeout i (Some a))] (Consensus (one_voter a (vs @ [w])))
       else handled_ok d (send_replies (sm_cmd_ids sm) (Inl (Error PoolTimeout)) @ [ToNetworker (CleanTimeout i None)]) Finish)"
    using one_voter_reply [OF _ ws(2) Cons.prems(4)] Cons.prems(7) by (simp add: state_event_def)
  show ?case
  proof (cases "raws = []")
    case True
    then have "\<not> sm_f sm < Suc (length (sm_nodes sm)) - Suc (length vs)" using Cons.prems(6) by simp
    then show ?thesis using r True by (simp add: handle_event_def)
  next
    case False
    then have "0 < length raws" by simp
    then have "sm_f sm < Suc (length (sm_nodes sm)) - Suc (length vs)"
      using Cons.prems(5,6) by (simp only: list.size length_map)
    moreover have "\<exists>effs sm'. run_events L d (sm\<lparr>sm_state := Consensus (one_voter a (vs @ [w]))\<rparr>)
        (map (\<lambda>raw. (sp, ReplyEvent rep raw a i)) raws) = (d, effs, Inr (sm', [])) \<and>
        sm_state sm' = Finish \<and> acks effs = send_replies (sm_cmd_ids sm) (Inl (Error PoolTimeout))"
      using Cons.IH [OF False ws(3), of "vs @ [w]" "sm\<lparr>sm_state := Consensus (one_voter a (vs @ [w]))\<rparr>"] Cons.prems ws(1) by simp
    ultimately show ?thesis using r by (auto simp: handle_event_def)
  qed
qed simp

section \<open>A small instance\<close>

text \<open>
  Four nodes, of which one may fail. Every text is an object whose result is the text itself; state proofs are
  never accepted.
\<close>

definition toy_net :: plibs where
  "toy_net = toy_plibs\<lparr> pb_json := (\<lambda>s. Some (Object [(''result'', String s)])), pb_overflow_checks := False \<rparr>"

definition toy_sp :: splibs where
  "toy_sp = \<lparr> sp_verify = (\<lambda>_ _ _ _ _. Some False), sp_threshold = 600, sp_cur_time = 0 \<rparr>"

definition toy_nodes :: Nodes where
  "toy_nodes = [(''A'', None), (''B'', None), (''C'', None), (''D'', None)]"

abbreviation toy_reply :: "string \<Rightarrow> string \<Rightarrow> splibs \<times> RequestEvent" where
  "toy_reply a raw \<equiv> (toy_sp, ReplyEvent (ReplyV0 1) raw a ''1'')"

abbreviation toy_request :: RequestSM where
  "toy_request \<equiv> request_sm_new 1 [7] toy_nodes 20 60 2"

lemma toy_result: "get_msg_result_without_state_proof toy_net raw = Inr (String raw, String raw)" "result_of toy_net raw = Some (String raw)"
  by (simp_all add: result_of_def get_msg_result_without_state_proof_def toy_net_def Let_def)

lemma toy_time: "get_last_signed_time toy_net raw = Inr None"
  by (simp add: get_last_signed_time_def toy_net_def reply_result_def)

lemma toy_consensus:
  "run_events toy_net d toy_request [(sp, CustomConsensusRequest ''q'' ''1''), (sp, ReplyEvent (ReplyV0 1) ''x'' ''A'' ''1''),
      (sp, ReplyEvent (ReplyV0 1) ''x'' ''B'' ''1'')] =
    (d, [ToNetworker (SendAllRequest ''q'' ''1'' 20 None), ToNetworker (CleanTimeout ''1'' (Some ''A'')),
       SubmitAck 7 (Inr ''x''), ToNetworker (CleanTimeout ''1'' None)], Inr (toy_request\<lparr>sm_state := Finish\<rparr>, []))"
  by (simp add: handle_event_def state_event_def consensus_new_def consensus_reply_def toy_result consensus_continue_def
      consensus_reachable_def max_count_def reply_count_def usize_sub_def toy_nodes_def send_ok_replies_def send_replies_def request_sm_new_def)

section \<open>Properties\<close>

text \<open>
  Every command is answered at most once. Whatever events a request handler sees, in whatever order: the
  acknowledgements it sends are none, or one answer, the same for every command of the request; unless it
  panics it is finished exactly if it has answered or has reported a final event to the pool, never both.
\<close>
theorem answered_once:
  assumes "run_events L d (request_sm_new f ids nodes t et nr) evs = (d', effs, r)"
  shows "\<exists>ans. acks effs = (case ans of None \<Rightarrow> [] | Some m \<Rightarrow> send_replies ids m) \<and>
    (case r of
       Inl e \<Rightarrow> e = Panic \<and> ans = None
     | Inr (sm, pes) \<Rightarrow>
         (sm_state sm = Finish \<longleftrightarrow> ans \<noteq> None \<or> (\<exists>p\<in>set pes. is_final p)) \<and> \<not> (ans \<noteq> None \<and> (\<exists>p\<in>set pes. is_final p)))"
proof -
  have "run_outcome ids effs r" using run_outcome_live [OF _ assms] by simp
  then show ?thesis unfolding run_outcome_def .
qed

text \<open>Instance of the above: a consensus request answered after two equal replies.\<close>
theorem answered_once_witness:
  "\<exists>effs sm ans. run_events toy_net toy_dir toy_request [(toy_sp, CustomConsensusRequest ''q'' ''1''), toy_reply ''A'' ''x'', toy_reply ''B'' ''x''] =
      (toy_dir, effs, Inr (sm, [])) \<and> sm_state sm = Finish \<and> acks effs = [SubmitAck 7 (Inr ''x'')] \<and>
    acks effs = (case ans of None \<Rightarrow> [] | Some m \<Rightarrow> send_replies [7] m)"
  using toy_consensus [of toy_dir toy_sp] answered_once [OF toy_consensus [of toy_dir toy_sp]] by auto

text \<open>
  Agreement. If a request that is not sent for the answers of all nodes is answered with a message, then
  more than \<open>f\<close> nodes sent its result, so with at most \<open>f\<close> faulty nodes an honest one did; or, for a read
  request, the message is a reply whose state proof was valid and fresh.
\<close>
theorem answer_backed:
  assumes "run_events L d (request_sm_new f ids nodes t et nr) evs = (d', effs, r)" "SubmitAck i (Inr m) \<in> set effs"
    and "\<forall>e\<in>set evs. \<nexists>m i t ns. snd e = CustomFullRequest m i t ns"
  shows "(\<exists>v. result_of L m = Some v \<and> f < card (voters L evs v)) \<or> proved L nodes f evs m"
proof -
  have "backing L [] (sm_state (request_sm_new f ids nodes t et nr))" by simp
  from run_backed [OF this assms(1,3)] assms(2)
  have "backed L nodes f evs m" by (auto simp: oks_def)
  then show ?thesis by (simp add: backed_def)
qed

text \<open>Instance of the above: the answer of a consensus request with two equal replies of four nodes.\<close>
theorem answer_backed_witness:
  "\<exists>effs r. run_events toy_net toy_dir toy_request [(toy_sp, CustomConsensusRequest ''q'' ''1''), toy_reply ''A'' ''x'', toy_reply ''B'' ''x''] =
      (toy_dir, effs, r) \<and> SubmitAck 7 (Inr ''x'') \<in> set effs \<and>
    ((\<exists>v. result_of toy_net ''x'' = Some v \<and>
        1 < card (voters toy_net [(toy_sp, CustomConsensusRequest ''q'' ''1''), toy_reply ''A'' ''x'', toy_reply ''B'' ''x''] v)) \<or>
     proved toy_net toy_nodes 1 [(toy_sp, CustomConsensusRequest ''q'' ''1''), toy_reply ''A'' ''x'', toy_reply ''B'' ''x''] ''x'')"
  using toy_consensus [of toy_dir toy_sp] answer_backed [OF toy_consensus [of toy_dir toy_sp], of 7 "''x''"] by simp

text \<open>
  C8: a read request ends. Once every node of the pool has answered it or timed out, in whatever order and however the answers
  differ, the request is finished and every command has been answered. The pool has nodes, no two of one name, and the request is sent
  to at least one of them. The build is one without overflow checks, and the answers are
  such that the handler can check them: the signed time of each that has a result can be read, and the verification of its state proof
  neither panics nor fails to return.
\<close>
theorem single_request_ends:
  assumes "0 < nr" "nodes \<noteq> []" "distinct (map fst nodes)" "\<not> pb_overflow_checks L" "\<forall>e\<in>set evs. checkable L k nodes f e"
    and "\<forall>n\<in>set nodes. \<exists>e\<in>set evs. responder (snd e) = Some (fst n)"
  shows "\<exists>d' effs sm m. run_events L d (request_sm_new f ids nodes t et nr) ((sp, CustomSingleRequest msg i k ts) # evs) = (d', effs, Inr (sm, [])) \<and>
    sm_state sm = Finish \<and> acks effs = send_replies ids m"
proof -
  let ?new = "request_sm_new f ids nodes t et nr" and ?st = "single_new k ts"
  let ?sm = "?new\<lparr>sm_state := Single ?st\<rparr>"
  obtain effs0 where h: "handle_event L sp d ?new (CustomSingleRequest msg i k ts) = (d, effs0, Inr (?sm, None))"
    using assms(1) by (simp add: handle_event_def state_event_def resend_count_def)
  have "hearing (length (sm_nodes ?sm)) [] ?st" by (simp add: hearing_def)
  moreover have "\<forall>e\<in>set evs. checkable L (si_sp_key ?st) (sm_nodes ?sm) (sm_f ?sm) e" using assms(5) by (simp add: single_new_def)
  ultimately obtain d' effs sm' where
    run: "run_events L d ?sm evs = (d', effs, Inr (sm', []))"
      "sm_state sm' = Finish \<or> (\<exists>s. sm_state sm' = Single s \<and> hearing (length nodes) evs s)"
    using hearing_run [of ?sm ?st "[]" L evs d] assms(4) by auto
  have "fst ` set nodes \<subseteq> heard evs" using assms(6) by (auto simp: heard_def)
  then have fin: "sm_state sm' = Finish" using run(2) hearing_not_all [OF _ assms(3,2)] by blast
  have all: "run_events L d ?new ((sp, CustomSingleRequest msg i k ts) # evs) = (d', effs0 @ effs, Inr (sm', []))"
    using h run(1) by simp
  have "sm_state ?new \<noteq> Finish" "sm_cmd_ids ?new = ids" by simp_all
  with run_outcome_live [OF _ all] fin obtain m where "acks (effs0 @ effs) = send_replies ids m"
    by (auto simp: run_outcome_def)
  then show ?thesis using all fin by blast
qed

text \<open>A verifier of state proofs that accepts one reply, does not return on another, and refuses the rest.\<close>

definition picky_sp :: splibs where
  "picky_sp = toy_sp\<lparr>sp_verify := (\<lambda>_ raw _ _ _. if raw = ''w'' then None else Some (raw = ''z''))\<rparr>"

text \<open>Witness for C8: three nodes give different answers, the last of them with a valid state proof, and one times out.\<close>
theorem single_request_ends_witness:
  "\<exists>d' effs sm m. run_events toy_net toy_dir toy_request ((picky_sp, CustomSingleRequest ''q'' ''1'' None (None, None)) #
      [(picky_sp, ReplyEvent (ReplyV0 1) ''x'' ''A'' ''1''), (picky_sp, ReplyEvent (ReplyV0 1) ''y'' ''B'' ''1''),
       (picky_sp, TimeoutEvent ''1'' ''C''), (picky_sp, ReplyEvent (ReplyV0 1) ''z'' ''D'' ''1'')]) = (d', effs, Inr (sm, [])) \<and>
    sm_state sm = Finish \<and> acks effs = send_replies [7] m"
proof (rule single_request_ends)
  show "\<not> pb_overflow_checks toy_net" by (simp add: toy_net_def)
qed (simp_all add: toy_nodes_def checkable_def toy_time picky_sp_def del: not_None_eq)

text \<open>
  A single faulty node can make a write request fail, however many may be faulty. The answers of a node
  are counted as often as they differ: \<open>n + 1 - f\<close> different ones from one node of \<open>n\<close> end the request with
  \<^verbatim>\<open>PoolTimeout\<close>, although no other node has been heard.
\<close>
theorem one_node_ends_consensus:
  assumes "1 \<le> f" "f \<le> length nodes" "length raws = length nodes + 1 - f" "map (result_of L) raws = map Some vs" "distinct vs"
  shows "\<exists>effs sm. run_events L d (request_sm_new f ids nodes t et nr)
      ((sp, CustomConsensusRequest msg i) # map (\<lambda>raw. (sp, ReplyEvent rep raw a i)) raws) = (d, effs, Inr (sm, [])) \<and>
    sm_state sm = Finish \<and> acks effs = send_replies ids (Inl (Error PoolTimeout))"
proof -
  let ?new = "request_sm_new f ids nodes t et nr"
  let ?sm = "?new\<lparr>sm_state := Consensus (one_voter a [])\<rparr>"
  have h: "handle_event L sp d ?new (CustomConsensusRequest msg i) = (d, [ToNetworker (SendAllRequest msg i (sm_timeout ?new) None)], Inr (?sm, None))"
    by (simp add: handle_event_def state_event_def one_voter_def consensus_new_def)
  have "raws \<noteq> []" using assms(2,3) by auto
  from one_voter_run [OF this assms(4), of "[]" ?sm a d sp rep i] assms h show ?thesis by auto
qed

text \<open>Instance of the above: one of four nodes sends four different answers.\<close>
theorem one_node_ends_consensus_witness:
  "\<exists>effs sm. run_events toy_net toy_dir toy_request ((toy_sp, CustomConsensusRequest ''q'' ''1'') #
      map (\<lambda>raw. (toy_sp, ReplyEvent (ReplyV0 1) raw ''A'' ''1'')) [''w'', ''x'', ''y'', ''z'']) = (toy_dir, effs, Inr (sm, [])) \<and>
    sm_state sm = Finish \<and> acks effs = send_replies [7] (Inl (Error PoolTimeout))"
  by (rule one_node_ends_consensus [where vs = "map String [''w'', ''x'', ''y'', ''z'']"]) (simp_all add: toy_nodes_def toy_result)

end
