(* ===== verification/State_Proof.thy ===== *)
theory State_Proof
  imports Patricia Request_Runs
begin

text \<open>
  State proofs (\<^verbatim>\<open>libindy/src/services/pool/state_proof/mod.rs\<close>): the key of the state a read request asks for, the
  proofs contained in a reply of a node, and their verification: the multi-signature of the pool nodes over the root
  hash, then the lookup of the key in the Patricia trie of the proof, the check of a range of numbered keys, or the
  audit path of a transaction. Base64, hexadecimal digits, the BLS signatures of \<^verbatim>\<open>ursa\<close>, the parsers that plug-ins
  register and the protocol version are parameters. A verification ends with an answer, with a panic, or never
  (\<^const>\<open>None\<close>).
\<close>

section \<open>Parameters and data\<close>

datatype VerificationType =
    VerifySimple
  | NumericalSuffixAscendingNoGaps "nat option" "nat option" string
  | VerifyMerkleTree nat

type_synonym kv = "string \<times> string option"

datatype KeyValuesInSP = KvSimple "kv list" VerificationType | KvSubTrie "string option" "kv list"

record ParsedSP =
  ps_proof_nodes :: string
  ps_root_hash :: string
  ps_kvs_to_verify :: KeyValuesInSP
  ps_multi_signature :: Value

record stlibs =
  st_plibs :: plibs
  st_rlp :: rlplibs
  st_base64_encode :: "bytes \<Rightarrow> string"
  st_base64_decode :: "string \<Rightarrow> bytes option"
  st_hex :: "bytes \<Rightarrow> string"
  st_rmp :: "Value \<Rightarrow> bytes option"
  st_signature_ok :: "bytes \<Rightarrow> bool"
  st_verify_multi_sig :: "bytes \<Rightarrow> bytes \<Rightarrow> bytes list \<Rightarrow> bool"
  st_sp_parser :: "string \<Rightarrow> (string \<Rightarrow> ParsedSP list option) option"
  st_protocol_version :: nat

abbreviation GET_TXN :: string where "GET_TXN \<equiv> ''3''"
abbreviation GET_TXN_AUTHR_AGRMT :: string where "GET_TXN_AUTHR_AGRMT \<equiv> ''6''"
abbreviation GET_TXN_AUTHR_AGRMT_AML :: string where "GET_TXN_AUTHR_AGRMT_AML \<equiv> ''7''"
abbreviation ATTRIB :: string where "ATTRIB \<equiv> ''100''"
abbreviation GET_ATTR :: string where "GET_ATTR \<equiv> ''104''"
abbreviation GET_NYM :: string where "GET_NYM \<equiv> ''105''"
abbreviation GET_SCHEMA :: string where "GET_SCHEMA \<equiv> ''107''"
abbreviation GET_CRED_DEF :: string where "GET_CRED_DEF \<equiv> ''108''"
abbreviation GET_REVOC_REG_DEF :: string where "GET_REVOC_REG_DEF \<equiv> ''115''"
abbreviation GET_REVOC_REG :: string where "GET_REVOC_REG \<equiv> ''116''"
abbreviation GET_AUTH_RULE :: string where "GET_AUTH_RULE \<equiv> ''121''"

definition REQUESTS_FOR_STATE_PROOFS :: "string list" where
  "REQUESTS_FOR_STATE_PROOFS =
    [GET_NYM, GET_TXN_AUTHR_AGRMT, GET_TXN_AUTHR_AGRMT_AML, GET_SCHEMA, GET_CRED_DEF, GET_ATTR, GET_REVOC_REG,
     GET_REVOC_REG_DEF, GET_REVOC_REG_DELTA, GET_AUTH_RULE, GET_TXN]"

definition REQUESTS_FOR_MULTI_STATE_PROOFS :: "string list" where
  "REQUESTS_FOR_MULTI_STATE_PROOFS = [GET_REVOC_REG_DELTA]"

definition is_node_1_3 :: "stlibs \<Rightarrow> bool" where
  "is_node_1_3 S \<longleftrightarrow> st_protocol_version S = 1"

definition hash_hex :: "stlibs \<Rightarrow> string \<Rightarrow> string option" where
  "hash_hex S text = (case pb_digest (st_plibs S) (as_bytes text) of Inr h \<Rightarrow> Some (st_hex S h) | Inl _ \<Rightarrow> None)"

section \<open>The key a request asks for\<close>

definition or_else :: "'a option \<Rightarrow> 'a option \<Rightarrow> 'a option" where
  "or_else x y = (case x of Some a \<Rightarrow> Some a | None \<Rightarrow> y)"

definition unwrap_or :: "'a option \<Rightarrow> 'a \<Rightarrow> 'a" where
  "unwrap_or x a = (case x of Some b \<Rightarrow> b | None \<Rightarrow> a)"

abbreviation str_at :: "Value \<Rightarrow> string \<Rightarrow> string option" where
  "str_at v k \<equiv> as_str (value_get v k)"

text \<open>A marker is a control character for the old protocol and a digit for the new one.\<close>

definition marker :: "stlibs \<Rightarrow> nat \<Rightarrow> char" where
  "marker S n = (if is_node_1_3 S then char_of n else digit n)"

definition attr_suffix :: "stlibs \<Rightarrow> Value \<Rightarrow> string option" where
  "attr_suffix S op =
    Option.bind (or_else (str_at op ''raw'') (or_else (str_at op ''enc'') (str_at op ''hash''))) (\<lambda>attr_name.
    Option.bind (hash_hex S attr_name) (\<lambda>h. Some ('':'' @ [marker S 1] @ '':'' @ h)))"

definition cred_def_suffix :: "stlibs \<Rightarrow> Value \<Rightarrow> string option" where
  "cred_def_suffix S op =
    (case (str_at op ''signature_type'', as_u64 (value_get op ''ref'')) of
       (Some sign_type, Some sch_seq_no) \<Rightarrow>
         (let tag = (if is_node_1_3 S then None else str_at op ''tag'') in
          Some ('':'' @ [marker S 3] @ '':'' @ sign_type @ '':'' @ decimal sch_seq_no @
            (case tag of Some t \<Rightarrow> '':'' @ t | None \<Rightarrow> [])))
     | _ \<Rightarrow> None)"

definition schema_suffix :: "stlibs \<Rightarrow> Value \<Rightarrow> string option" where
  "schema_suffix S op =
    (case (str_at (value_get op ''data'') ''name'', str_at (value_get op ''data'') ''version'') of
       (Some name, Some ver) \<Rightarrow> Some ('':'' @ [marker S 2] @ '':'' @ name @ '':'' @ ver)
     | _ \<Rightarrow> None)"

definition revoc_suffix :: "stlibs \<Rightarrow> nat \<Rightarrow> Value \<Rightarrow> string option" where
  "revoc_suffix S n op = map_option (\<lambda>i. [marker S n] @ '':'' @ i) (str_at op ''revocRegDefId'')"

definition auth_rule_suffix :: "Value \<Rightarrow> string option" where
  "auth_rule_suffix op =
    (case (str_at op ''auth_type'', str_at op ''auth_action'', str_at op ''field'') of
       (Some auth_type, Some auth_action, Some field) \<Rightarrow>
         (let default_old_value = (if auth_action = ''ADD'' then ''*'' else []) in
          Some (''1:'' @ auth_type @ ''--'' @ auth_action @ ''--'' @ field @ ''--'' @
            unwrap_or (str_at op ''old_value'') default_old_value @ ''--'' @ unwrap_or (str_at op ''new_value'') []))
     | _ \<Rightarrow> None)"

definition taa_suffix :: "Value \<Rightarrow> string option" where
  "taa_suffix op =
    (case (str_at op ''version'', str_at op ''digest'', as_u64 (value_get op ''timestamp'')) of
       (None, None, _) \<Rightarrow> Some ''2:latest''
     | (None, Some dg, None) \<Rightarrow> Some (''2:d:'' @ dg)
     | (Some version, None, None) \<Rightarrow> Some (''2:v:'' @ version)
     | _ \<Rightarrow> None)"

definition aml_suffix :: "Value \<Rightarrow> string option" where
  "aml_suffix op = (case str_at op ''version'' of Some version \<Rightarrow> Some (''3:v:'' @ version) | None \<Rightarrow> Some ''3:latest'')"

definition key_suffix :: "stlibs \<Rightarrow> string \<Rightarrow> Value \<Rightarrow> string option" where
  "key_suffix S typ op =
    (if typ = GET_ATTR then attr_suffix S op
     else if typ = GET_CRED_DEF then cred_def_suffix S op
     else if typ = GET_NYM \<or> typ = GET_REVOC_REG_DEF then Some []
     else if typ = GET_SCHEMA then schema_suffix S op
     else if typ = GET_REVOC_REG then revoc_suffix S 6 op
     else if typ = GET_AUTH_RULE then auth_rule_suffix op
     else if typ = GET_REVOC_REG_DELTA then revoc_suffix S (if is_null (value_get op ''from'') then 5 else 6) op
     else if typ = GET_TXN_AUTHR_AGRMT then taa_suffix op
     else if typ = GET_TXN_AUTHR_AGRMT_AML then aml_suffix op
     else if typ = GET_TXN then map_option decimal (as_u64 (value_get op ''data''))
     else None)"

definition key_prefix :: "stlibs \<Rightarrow> string \<Rightarrow> Value \<Rightarrow> bytes option" where
  "key_prefix S typ op =
    (let dest = or_else (str_at op ''dest'') (str_at op ''origin'') in
     if typ = GET_NYM then Option.bind dest (\<lambda>dest. case pb_digest (st_plibs S) (as_bytes dest) of Inr h \<Rightarrow> Some h | Inl _ \<Rightarrow> None)
     else if typ \<in> {GET_REVOC_REG, GET_REVOC_REG_DELTA, GET_TXN_AUTHR_AGRMT, GET_TXN_AUTHR_AGRMT_AML, GET_AUTH_RULE} then Some []
     else if typ = GET_REVOC_REG_DEF then map_option as_bytes (str_at op ''id'')
     else if typ = GET_TXN then Some []
     else map_option as_bytes dest)"

definition parse_key_from_request_for_builtin_sp :: "stlibs \<Rightarrow> Value \<Rightarrow> bytes option" where
  "parse_key_from_request_for_builtin_sp S json_msg =
    (let op = value_get json_msg ''operation'' in
     Option.bind (str_at op ''type'') (\<lambda>typ.
     Option.bind (key_suffix S typ op) (\<lambda>suffix.
     Option.bind (key_prefix S typ op) (\<lambda>prefix. Some (prefix @ as_bytes suffix)))))"

section \<open>The proofs in a reply\<close>

text \<open>Assigning to a key of a JSON value: \<^verbatim>\<open>Null\<close> becomes an object.\<close>

fun value_set :: "Value \<Rightarrow> string \<Rightarrow> Value \<Rightarrow> Value" where
  "value_set (Object kvs) k v = Object (object_insert k v kvs)"
| "value_set Null k v = Object [(k, v)]"
| "value_set w k v = w"

definition calculate_taa_digest :: "stlibs \<Rightarrow> string \<Rightarrow> string \<Rightarrow> string option" where
  "calculate_taa_digest S text version = hash_hex S (version @ text)"

definition is_full_taa_state_value_expected :: "bytes \<Rightarrow> bool" where
  "is_full_taa_state_value_expected key \<longleftrightarrow> starts_with key (as_bytes ''2:d:'')"

definition if_rev_delta_multi_state_proof_expected :: "bytes \<Rightarrow> bool" where
  "if_rev_delta_multi_state_proof_expected key \<longleftrightarrow> starts_with key [0x06, 0x3A] \<or> starts_with key (as_bytes ''6:'')"

text \<open>The sequence number and time a value starts with.\<close>

definition value_header :: "Value \<Rightarrow> string \<Rightarrow> bytes \<Rightarrow> Value" where
  "value_header json_msg xtype sp_key =
    (let seq_no = value_get json_msg ''seqNo''; time = value_get json_msg ''txnTime'' in
     if xtype = GET_NYM then value_set (value_set (Object []) ''seqNo'' seq_no) ''txnTime'' time
     else if xtype = GET_AUTH_RULE then Object []
     else if xtype \<noteq> GET_TXN_AUTHR_AGRMT \<or> is_full_taa_state_value_expected sp_key
     then value_set (value_set (Object []) ''lsn'' seq_no) ''lut'' time
     else Object [])"

definition copy_field :: "Value \<Rightarrow> string \<Rightarrow> Value \<Rightarrow> Value" where
  "copy_field from k v = (if is_null (value_get from k) then v else value_set v k (value_get from k))"

definition hash_attr :: "stlibs \<Rightarrow> Value \<Rightarrow> string \<Rightarrow> string \<Rightarrow> Value option" where
  "hash_attr S v k text =
    Option.bind (if text = [] then Some [] else hash_hex S text) (\<lambda>h.
      let txn = value_get v ''txn''; data = value_get txn ''data'' in
      Some (value_set v ''txn'' (value_set txn ''data'' (value_set data k (String h)))))"

text \<open>A transaction is proved with the values of an attribute replaced by their hashes.\<close>

definition txn_value :: "stlibs \<Rightarrow> Value \<Rightarrow> Value option option" where
  "txn_value S parsed =
    (if list_all (\<lambda>k. is_null (value_get parsed k)) [''txn'', ''txnMetadata'', ''ver'', ''reqSignature''] then Some None
     else let v = foldl (\<lambda>v k. copy_field parsed k v) (Object []) [''txn'', ''txnMetadata'', ''ver'', ''reqSignature''] in
       if as_str (value_path v [''txn'', ''type'']) = Some ATTRIB then
         (case as_str (value_path v [''txn'', ''data'', ''raw'']) of
            Some raw \<Rightarrow> map_option Some (hash_attr S v ''raw'' raw)
          | None \<Rightarrow>
              (case as_str (value_path v [''txn'', ''data'', ''enc'']) of
                 Some enc \<Rightarrow> map_option Some (hash_attr S v ''enc'' enc)
               | None \<Rightarrow> Some (Some v)))
       else Some (Some v))"

definition auth_rule_value :: "Value \<Rightarrow> Value option option" where
  "auth_rule_value parsed =
    (case parsed of Array (rule # _) \<Rightarrow> Some (Some (value_get rule ''constraint'')) | _ \<Rightarrow> Some None)"

definition schema_value :: "Value \<Rightarrow> Value \<Rightarrow> Value option option" where
  "schema_value header parsed =
    (case parsed of
       Object kvs \<Rightarrow>
         (let m = filter (\<lambda>(k, _). k \<noteq> ''name'' \<and> k \<noteq> ''version'') kvs in
          if m = [] then Some None else Some (Some (value_set header ''val'' (Object m))))
     | _ \<Rightarrow> None)"

text \<open>The value a reply claims for the key: an error (\<^const>\<open>None\<close>), no value, or a JSON value.\<close>

definition proof_json ::
  "stlibs \<Rightarrow> Value \<Rightarrow> string \<Rightarrow> Value \<Rightarrow> string \<Rightarrow> bytes \<Rightarrow> Value option option" where
  "proof_json S json_msg data parsed xtype sp_key =
    (let header = value_header json_msg xtype sp_key in
     if xtype = GET_TXN then txn_value S parsed
     else if xtype = GET_NYM then
       Some (Some (foldl (\<lambda>v k. value_set v k (value_get parsed k)) header [''identifier'', ''role'', ''verkey'']))
     else if xtype = GET_ATTR then map_option (\<lambda>h. Some (value_set header ''val'' (String h))) (hash_hex S data)
     else if xtype \<in> {GET_CRED_DEF, GET_REVOC_REG_DEF, GET_REVOC_REG, GET_TXN_AUTHR_AGRMT_AML} then
       Some (Some (value_set header ''val'' parsed))
     else if xtype = GET_AUTH_RULE then auth_rule_value parsed
     else if xtype = GET_SCHEMA then schema_value header parsed
     else if xtype = GET_REVOC_REG_DELTA then
       (let to = value_path parsed [''value'', ''accum_to''] in
        if is_null to then Some None else Some (Some (value_set header ''val'' to)))
     else if xtype = GET_TXN_AUTHR_AGRMT then
       (if is_full_taa_state_value_expected sp_key then Some (Some (value_set header ''val'' parsed))
        else map_option (\<lambda>h. Some (String h))
          (calculate_taa_digest S (unwrap_or (str_at parsed ''text'') []) (unwrap_or (str_at parsed ''version'') [])))
     else None)"

definition parse_reply_for_proof_value ::
  "stlibs \<Rightarrow> Value \<Rightarrow> string option \<Rightarrow> Value \<Rightarrow> string \<Rightarrow> bytes \<Rightarrow> string option option" where
  "parse_reply_for_proof_value S json_msg data parsed xtype sp_key =
    (case data of
       None \<Rightarrow> Some None
     | Some data \<Rightarrow>
         map_option (map_option (\<lambda>v. case v of String s \<Rightarrow> s | _ \<Rightarrow> pb_to_json (st_plibs S) v))
           (proof_json S json_msg data parsed xtype sp_key))"

fun as_array :: "Value \<Rightarrow> Value list option" where
  "as_array (Array vs) = Some vs"
| "as_array _ = None"

definition parse_reply_for_sp ::
  "stlibs \<Rightarrow> Value \<Rightarrow> string option \<Rightarrow> Value \<Rightarrow> string \<Rightarrow> bytes \<Rightarrow> ParsedSP option" where
  "parse_reply_for_sp S json_msg data parsed xtype sp_key =
    (let sp = value_get json_msg ''state_proof'' in
     Option.bind
       (if xtype \<noteq> GET_TXN then
          Option.bind (str_at sp ''proof_nodes'') (\<lambda>proof_nodes.
          Option.bind (str_at sp ''root_hash'') (\<lambda>root. Some (proof_nodes, root, VerifySimple)))
        else
          Option.bind (as_array (value_get parsed ''auditPath'')) (\<lambda>path.
          Option.bind (str_at parsed ''rootHash'') (\<lambda>root.
          Option.bind (as_u64 (value_get parsed ''ledgerSize'')) (\<lambda>len.
            Some (st_base64_encode S (as_bytes (pb_to_json (st_plibs S) (Array path))), root, VerifyMerkleTree len)))))
       (\<lambda>(proof_nodes, root, ver_type).
     Option.bind (parse_reply_for_proof_value S json_msg data parsed xtype sp_key) (\<lambda>val.
       Some \<lparr> ps_proof_nodes = proof_nodes, ps_root_hash = root,
         ps_kvs_to_verify = KvSimple [(st_base64_encode S sp_key, val)] ver_type,
         ps_multi_signature = value_get sp ''multi_signature'' \<rparr>)))"

definition parse_reply_for_multi_sp :: "stlibs \<Rightarrow> Value \<Rightarrow> string \<Rightarrow> bytes \<Rightarrow> ParsedSP option option" where
  "parse_reply_for_multi_sp S parsed xtype sp_key =
    (if xtype = GET_REVOC_REG_DELTA then
       if if_rev_delta_multi_state_proof_expected sp_key then
         (let sp = value_get parsed ''stateProofFrom''; from = value_path parsed [''value'', ''accum_from''] in
          Option.bind (str_at sp ''proof_nodes'') (\<lambda>proof_nodes.
          Option.bind (str_at sp ''root_hash'') (\<lambda>root.
            let val = (if is_null from then None
              else Some (pb_to_json (st_plibs S)
                (Object [(''lsn'', value_get from ''seqNo''), (''lut'', value_get from ''txnTime''), (''val'', from)])))
            in Some (Some \<lparr> ps_proof_nodes = proof_nodes, ps_root_hash = root,
              ps_kvs_to_verify = KvSimple [(st_base64_encode S sp_key, val)] VerifySimple,
              ps_multi_signature = value_get sp ''multi_signature'' \<rparr>))))
       else Some None
     else None)"

definition reply_data :: "stlibs \<Rightarrow> Value \<Rightarrow> (string option \<times> Value) option" where
  "reply_data S json_msg =
    (case value_get json_msg ''data'' of
       Null \<Rightarrow> Some (None, Null)
     | String str \<Rightarrow> map_option (\<lambda>v. (Some str, v)) (pb_json (st_plibs S) str)
     | Object kvs \<Rightarrow> Some (Some (pb_to_json (st_plibs S) (Object kvs)), Object kvs)
     | Array vs \<Rightarrow> Some (Some (pb_to_json (st_plibs S) (Array vs)), Array vs)
     | _ \<Rightarrow> None)"

definition parse_reply_for_builtin_sp :: "stlibs \<Rightarrow> Value \<Rightarrow> string \<Rightarrow> bytes \<Rightarrow> ParsedSP list option IndyResult" where
  "parse_reply_for_builtin_sp S json_msg typ key =
    (if typ \<notin> set REQUESTS_FOR_STATE_PROOFS then Inl Panic
     else Inr (Option.bind (reply_data S json_msg) (\<lambda>(data, parsed).
       Option.bind (parse_reply_for_sp S json_msg data parsed typ key) (\<lambda>sp.
         if typ \<in> set REQUESTS_FOR_MULTI_STATE_PROOFS then
           map_option (\<lambda>m. case m of Some sp' \<Rightarrow> [sp, sp'] | None \<Rightarrow> [sp]) (parse_reply_for_multi_sp S parsed typ key)
         else Some [sp]))))"

definition parse_generic_reply_for_proof_checking ::
  "stlibs \<Rightarrow> Value \<Rightarrow> string \<Rightarrow> bytes option \<Rightarrow> ParsedSP list option IndyResult" where
  "parse_generic_reply_for_proof_checking S json_msg raw_msg sp_key =
    (case str_at json_msg ''type'' of
       None \<Rightarrow> Inr None
     | Some typ \<Rightarrow>
         if typ \<in> set REQUESTS_FOR_STATE_PROOFS then
           (case sp_key of Some key \<Rightarrow> parse_reply_for_builtin_sp S json_msg typ key | None \<Rightarrow> Inr None)
         else (case st_sp_parser S typ of Some parser \<Rightarrow> Inr (parser raw_msg) | None \<Rightarrow> Inr None))"

section \<open>Verification\<close>

text \<open>A step that fails makes the verification answer \<^verbatim>\<open>false\<close>.\<close>

definition or_false :: "'a option \<Rightarrow> ('a \<Rightarrow> bool IndyResult option) \<Rightarrow> bool IndyResult option" where
  "or_false x f = (case x of None \<Rightarrow> Some (Inr False) | Some a \<Rightarrow> f a)"

definition utf8_opt :: "bytes \<Rightarrow> string option" where
  "utf8_opt bs = (case from_utf8 bs (Error InvalidStructure) of Inr s \<Rightarrow> Some s | Inl _ \<Rightarrow> None)"

subsection \<open>Signatures\<close>

definition parse_reply_for_proof_signature_checking :: "stlibs \<Rightarrow> Value \<Rightarrow> (string \<times> string list \<times> bytes) option" where
  "parse_reply_for_proof_signature_checking S json_msg =
    (case (str_at json_msg ''signature'', as_array (value_get json_msg ''participants''), pb_rmp (st_plibs S) (value_get json_msg ''value'')) of
       (Some signature, Some participants, Some val) \<Rightarrow>
         (let ps = List.map_filter as_str participants in
          if length participants = length ps then Some (signature, ps, val) else None)
     | _ \<Rightarrow> None)"

fun collect_ver_keys :: "string list \<Rightarrow> Nodes \<Rightarrow> bytes list IndyResult" where
  "collect_ver_keys participants [] = Inr []"
| "collect_ver_keys participants ((name, verkey) # nodes) =
    (if name \<in> set participants then
       (case verkey of
          Some blskey \<Rightarrow> bindr (collect_ver_keys participants nodes) (\<lambda>ks. Inr (blskey # ks))
        | None \<Rightarrow> Inl (Error InvalidState))
     else collect_ver_keys participants nodes)"

definition verify_proof_signature :: "stlibs \<Rightarrow> string \<Rightarrow> string list \<Rightarrow> bytes \<Rightarrow> Nodes \<Rightarrow> nat \<Rightarrow> bool IndyResult" where
  "verify_proof_signature S signature participants val nodes f =
    bindr (collect_ver_keys participants nodes) (\<lambda>ver_keys.
    bindr (usize_sub (pb_overflow_checks (st_plibs S)) (length nodes) f) (\<lambda>quorum.
      if length ver_keys < quorum then Inr False
      else case pb_from_base58 (st_plibs S) signature of
        None \<Rightarrow> Inr False
      | Some sig \<Rightarrow> Inr (st_signature_ok S sig \<and> st_verify_multi_sig S sig val ver_keys)))"

subsection \<open>Tries\<close>

definition proof_nodes_of :: "stlibs \<Rightarrow> bytes \<Rightarrow> TrieNode list IndyResult" where
  "proof_nodes_of S proofs_rlp = rlp_list_or_default decode (rlp_parse (st_rlp S) proofs_rlp)"

text \<open>A later node with the same hash replaces an earlier one.\<close>

definition trie_db :: "stlibs \<Rightarrow> TrieNode list \<Rightarrow> TrieDB" where
  "trie_db S nodes = rev (map (\<lambda>n. (get_hash (st_rlp S) n, n)) nodes)"

definition verify_proof :: "stlibs \<Rightarrow> bytes \<Rightarrow> bytes \<Rightarrow> bytes \<Rightarrow> string option \<Rightarrow> bool IndyResult option" where
  "verify_proof S proofs_rlp root key expected_value =
    (case proof_nodes_of S proofs_rlp of
       Inl e \<Rightarrow> Some (Inl e)
     | Inr nodes \<Rightarrow>
         (let db = trie_db S nodes in
          or_false (map_of db root) (\<lambda>node.
            map_option (\<lambda>r. case r of
                Inr val \<Rightarrow> Inr (val = expected_value)
              | Inl Panic \<Rightarrow> Inl Panic
              | Inl (Error _) \<Rightarrow> Inr False) (get_str_value (st_rlp S) db node key))))"

subsection \<open>Audit paths\<close>

definition next_power_of_two :: "bool \<Rightarrow> nat \<Rightarrow> nat IndyResult" where
  "next_power_of_two checks n =
    (let p = 2 ^ clog2 n in if p < 2 ^ 64 then Inr p else if checks then Inl Panic else Inr 0)"

partial_function (option) calculate_turns_loop :: "bool \<Rightarrow> nat \<Rightarrow> nat \<Rightarrow> bool list \<Rightarrow> bool list IndyResult option" where
  "calculate_turns_loop checks len idx result =
    (if len \<noteq> 1 then
       (case next_power_of_two checks len of
          Inl e \<Rightarrow> Some (Inl e)
        | Inr p \<Rightarrow>
            (let middle = p div 2; right = (idx < middle) in
             calculate_turns_loop checks (if right then middle else len - middle) (if right then idx else idx - middle) (result @ [right])))
     else Some (Inr (rev result)))"

definition calculate_turns :: "bool \<Rightarrow> nat \<Rightarrow> nat \<Rightarrow> bool list IndyResult option" where
  "calculate_turns checks len idx = calculate_turns_loop checks len idx []"

fun climb_audit :: "plibs \<Rightarrow> bytes \<Rightarrow> (string \<times> bool) list \<Rightarrow> bytes option" where
  "climb_audit L hash [] = Some hash"
| "climb_audit L hash ((next_hash, turn_right) # rest) =
    Option.bind (pb_from_base58 L next_hash) (\<lambda>nh.
      case (if turn_right then hash_nodes (pb_digest L) hash nh else hash_nodes (pb_digest L) nh hash) of
        Inr h \<Rightarrow> climb_audit L h rest
      | Inl _ \<Rightarrow> None)"

definition leaf_hash_of :: "stlibs \<Rightarrow> string \<Rightarrow> bytes option" where
  "leaf_hash_of S text =
    Option.bind (pb_json (st_plibs S) text) (\<lambda>v. Option.bind (st_rmp S v) (\<lambda>bs.
      case hash_leaf (pb_digest (st_plibs S)) bs of Inr h \<Rightarrow> Some h | Inl _ \<Rightarrow> None))"

definition audit_matches :: "stlibs \<Rightarrow> string list \<Rightarrow> string option \<Rightarrow> bytes \<Rightarrow> bool list \<Rightarrow> bool" where
  "audit_matches S path val root turns \<longleftrightarrow>
    length path = length turns \<and>
    (case Option.bind val (leaf_hash_of S) of
       None \<Rightarrow> False
     | Some hash \<Rightarrow> climb_audit (st_plibs S) hash (zip path turns) = Some root)"

definition verify_merkle_tree :: "stlibs \<Rightarrow> bytes \<Rightarrow> bytes \<Rightarrow> kv list \<Rightarrow> nat \<Rightarrow> bool IndyResult option" where
  "verify_merkle_tree S proof_nodes root kvs len =
    or_false (utf8_opt proof_nodes) (\<lambda>nodes.
    or_false (Option.bind (pb_json (st_plibs S) nodes) string_list) (\<lambda>path.
    case kvs of
      [] \<Rightarrow> Some (Inl Panic)
    | (key, val) # _ \<Rightarrow>
        or_false (Option.bind (Option.bind (st_base64_decode S key) utf8_opt) parse_usize) (\<lambda>seq_no.
        case usize_sub (pb_overflow_checks (st_plibs S)) seq_no 1 of
          Inl e \<Rightarrow> Some (Inl e)
        | Inr idx \<Rightarrow>
            map_option (\<lambda>r. bindr r (\<lambda>turns. Inr (audit_matches S path val root turns)))
              (calculate_turns (pb_overflow_checks (st_plibs S)) len idx))))"

subsection \<open>Ranges of numbered keys\<close>

text \<open>The binary search of the standard library: the index of an equal key, or where it would be inserted.\<close>

function search_loop :: "nat list \<Rightarrow> nat \<Rightarrow> nat \<Rightarrow> nat \<Rightarrow> nat" where
  "search_loop xs x base sz =
    (if sz \<le> 1 then base
     else let half = sz div 2; mid = base + half in search_loop xs x (if x < xs ! mid then base else mid) (sz - half))"
  by pat_completeness auto
termination by (relation "measure (\<lambda>(xs, x, base, sz). sz)") auto

declare search_loop.simps [simp del]

definition binary_search :: "nat list \<Rightarrow> nat \<Rightarrow> nat + nat" where
  "binary_search xs x =
    (if xs = [] then Inl 0
     else let base = search_loop xs x 0 (length xs) in
       if xs ! base = x then Inr base else Inl (base + (if xs ! base < x then 1 else 0)))"

text \<open>The number that follows the prefix of a key.\<close>

definition numbered_value :: "string \<Rightarrow> string \<times> string \<Rightarrow> (nat \<times> kv) option" where
  "numbered_value prefix = (\<lambda>(key, val). map_option (\<lambda>a. (a, key, Some val)) (parse_usize (drop (length prefix) key)))"

definition from_number :: "nat option \<Rightarrow> (nat \<times> kv) list \<Rightarrow> (nat \<times> kv) list" where
  "from_number from vals =
    (case from of
       None \<Rightarrow> vals
     | Some n \<Rightarrow> (case binary_search (map fst vals) n of Inr i \<Rightarrow> drop i vals | Inl i \<Rightarrow> drop i vals))"

definition until_number :: "nat option \<Rightarrow> (nat \<times> kv) list \<Rightarrow> (nat \<times> kv) list option" where
  "until_number nxt vals =
    (case nxt of
       None \<Rightarrow> Some vals
     | Some n \<Rightarrow> (case binary_search (map fst vals) n of Inr i \<Rightarrow> Some (take i vals) | Inl _ \<Rightarrow> None))"

definition range_matches :: "string \<Rightarrow> nat option \<Rightarrow> nat option \<Rightarrow> kv list \<Rightarrow> (string \<times> string) list \<Rightarrow> bool" where
  "range_matches prefix from nxt kvs vals =
    (case those (map (numbered_value prefix) (filter (\<lambda>(key, _). starts_with key prefix) vals)) of
       None \<Rightarrow> False
     | Some vals' \<Rightarrow>
         (case until_number nxt (from_number from (sort_key fst vals')) of
            None \<Rightarrow> False
          | Some vs \<Rightarrow> map snd vs = kvs))"

definition verify_proof_range ::
  "stlibs \<Rightarrow> bytes \<Rightarrow> bytes \<Rightarrow> string \<Rightarrow> nat option \<Rightarrow> nat option \<Rightarrow> kv list \<Rightarrow> bool IndyResult option" where
  "verify_proof_range S proofs_rlp root prefix from nxt kvs =
    (case proof_nodes_of S proofs_rlp of
       Inl e \<Rightarrow> Some (Inl e)
     | Inr nodes \<Rightarrow>
         (let db = trie_db S nodes in
          or_false (map_of db root) (\<lambda>node.
            map_option (\<lambda>r. case r of
                Inr vals \<Rightarrow> Inr (range_matches prefix from nxt kvs vals)
              | Inl Panic \<Rightarrow> Inl Panic
              | Inl (Error _) \<Rightarrow> Inr False) (get_all_values (st_rlp S) db node (Some (as_bytes prefix))))))"

subsection \<open>Parsed proofs\<close>

fun verify_kvs :: "stlibs \<Rightarrow> bytes \<Rightarrow> bytes \<Rightarrow> kv list \<Rightarrow> bool IndyResult option" where
  "verify_kvs S proof_nodes root [] = Some (Inr True)"
| "verify_kvs S proof_nodes root ((k, v) # kvs) =
    or_false (st_base64_decode S k) (\<lambda>key.
      Option.bind (verify_proof S proof_nodes root key v) (\<lambda>r.
        case r of Inr True \<Rightarrow> verify_kvs S proof_nodes root kvs | _ \<Rightarrow> Some r))"

definition verify_content :: "stlibs \<Rightarrow> bytes \<Rightarrow> bytes \<Rightarrow> KeyValuesInSP \<Rightarrow> bool IndyResult option" where
  "verify_content S proof_nodes root kvs_to_verify =
    (case kvs_to_verify of
       KvSimple kvs VerifySimple \<Rightarrow> verify_kvs S proof_nodes root kvs
     | KvSimple kvs (NumericalSuffixAscendingNoGaps from nxt prefix) \<Rightarrow> verify_proof_range S proof_nodes root prefix from nxt kvs
     | KvSimple kvs (VerifyMerkleTree len) \<Rightarrow> verify_merkle_tree S proof_nodes root kvs len
     | KvSubTrie _ _ \<Rightarrow> Some (Inr False))"

definition signed_root :: "ParsedSP \<Rightarrow> bool" where
  "signed_root sp \<longleftrightarrow>
    as_str (value_path (ps_multi_signature sp) [''value'', ''state_root_hash'']) = Some (ps_root_hash sp) \<or>
    as_str (value_path (ps_multi_signature sp) [''value'', ''txn_root_hash'']) = Some (ps_root_hash sp)"

definition verify_one_sp :: "stlibs \<Rightarrow> Nodes \<Rightarrow> nat \<Rightarrow> ParsedSP \<Rightarrow> bool IndyResult option" where
  "verify_one_sp S nodes f sp =
    (if \<not> signed_root sp then Some (Inr False)
     else or_false (parse_reply_for_proof_signature_checking S (ps_multi_signature sp)) (\<lambda>(signature, participants, val).
       case verify_proof_signature S signature participants val nodes f of
         Inl Panic \<Rightarrow> Some (Inl Panic)
       | Inr True \<Rightarrow>
           or_false (st_base64_decode S (ps_proof_nodes sp)) (\<lambda>proof_nodes.
           or_false (pb_from_base58 (st_plibs S) (ps_root_hash sp)) (\<lambda>root.
             verify_content S proof_nodes root (ps_kvs_to_verify sp)))
       | _ \<Rightarrow> Some (Inr False)))"

fun verify_parsed_sp :: "stlibs \<Rightarrow> Nodes \<Rightarrow> nat \<Rightarrow> ParsedSP list \<Rightarrow> bool IndyResult option" where
  "verify_parsed_sp S nodes f [] = Some (Inr True)"
| "verify_parsed_sp S nodes f (sp # sps) =
    Option.bind (verify_one_sp S nodes f sp) (\<lambda>r.
      case r of Inr True \<Rightarrow> verify_parsed_sp S nodes f sps | _ \<Rightarrow> Some r)"

end
