(* ===== verification/Pool_SM.thy ===== *)
theory Pool_SM
  imports Pool_Nodes State_Proof
begin

text \<open>
  The state machine of an open pool (\<^verbatim>\<open>libindy/src/services/pool/pool.rs\<close>) with the conversion of pool events
  to the events of a request (\<^verbatim>\<open>events.rs\<close>) and the messages of the nodes (\<^verbatim>\<open>types.rs\<close>). The machine reacts to an event
  with a new state and effects in order: events for the networker, acknowledgements of requests, and acknowledgements of
  the commands that open, refresh and close the pool. The JSON decoding of a message is a parameter. A panic of a
  handler ends the thread of the pool.
\<close>

section \<open>Messages\<close>

datatype PoolLedgerTxn = PoolLedgerTxnV0 Response | PoolLedgerTxnV1 Response

datatype Message =
    ConsistencyProofMsg ConsistencyProof
  | LedgerStatusMsg LedgerStatus
  | CatchupReqMsg CatchupReq
  | CatchupRepMsg CatchupRep
  | ReqACKMsg Response
  | ReqNACKMsg Response
  | ReplyMsg Reply
  | RejectMsg Response
  | PoolLedgerTxnsMsg PoolLedgerTxn
  | PingMsg
  | PongMsg

record poollibs =
  po_nlibs :: nlibs
  po_stlibs :: stlibs
  po_message :: "string \<Rightarrow> Message option"

abbreviation po_plibs :: "poollibs \<Rightarrow> plibs" where
  "po_plibs P \<equiv> nb_plibs (po_nlibs P)"

definition from_raw_str :: "poollibs \<Rightarrow> string \<Rightarrow> Message IndyResult" where
  "from_raw_str P str =
    (if str = ''po'' then Inr PongMsg
     else if str = ''pi'' then Inr PingMsg
     else ok_or (po_message P str) (Error InvalidStructure))"

definition parse_msg :: "poollibs \<Rightarrow> string \<Rightarrow> Message option" where
  "parse_msg P msg = (case from_raw_str P msg of Inr m \<Rightarrow> Some m | Inl _ \<Rightarrow> None)"

section \<open>Requests\<close>

definition REQUEST_FOR_FULL :: "string list" where
  "REQUEST_FOR_FULL = [''118'', ''119'']"

definition REQUESTS_FOR_STATE_PROOFS_IN_THE_PAST :: "string list" where
  "REQUESTS_FOR_STATE_PROOFS_IN_THE_PAST = [GET_REVOC_REG, GET_REVOC_REG_DELTA, GET_TXN_AUTHR_AGRMT, GET_TXN_AUTHR_AGRMT_AML, GET_TXN]"

definition parse_timestamp_from_req_for_builtin_sp :: "Value \<Rightarrow> string \<Rightarrow> nat option \<times> nat option" where
  "parse_timestamp_from_req_for_builtin_sp req op =
    (if op \<notin> set REQUESTS_FOR_STATE_PROOFS_IN_THE_PAST then (None, None)
     else if op = GET_TXN then (None, Some 0)
     else if op \<in> {GET_REVOC_REG, GET_TXN_AUTHR_AGRMT, GET_TXN_AUTHR_AGRMT_AML} then
       (None, as_u64 (value_path req [''operation'', ''timestamp'']))
     else if op = GET_REVOC_REG_DELTA then
       (as_u64 (value_path req [''operation'', ''from'']), as_u64 (value_path req [''operation'', ''to'']))
     else (None, None))"

definition parse_req_id_and_op :: "plibs \<Rightarrow> string \<Rightarrow> (Value \<times> string \<times> string) IndyResult" where
  "parse_req_id_and_op L msg =
    bindr (ok_or (pb_json L msg) (Error InvalidStructure)) (\<lambda>req_json.
    bindr (ok_or (as_u64 (value_get req_json ''reqId'')) (Error InvalidStructure)) (\<lambda>req_id.
    bindr (ok_or (as_str (value_path req_json [''operation'', ''type''])) (Error InvalidStructure)) (\<lambda>op.
      Inr (req_json, decimal req_id, op))))"

fun message_event :: "string \<Rightarrow> string \<Rightarrow> Message \<Rightarrow> RequestEvent" where
  "message_event msg node_alias (CatchupReqMsg _) = CatchupReqEvent mt_default 0 []"
| "message_event msg node_alias (CatchupRepMsg rep) = CatchupRepEvent rep node_alias"
| "message_event msg node_alias (LedgerStatusMsg ls) = LedgerStatusEvent ls (Some node_alias) None"
| "message_event msg node_alias (ConsistencyProofMsg cp) = ConsistencyProofEvent cp node_alias"
| "message_event msg node_alias (ReplyMsg rep) = ReplyEvent rep msg node_alias (decimal (reply_req_id rep))"
| "message_event msg node_alias (ReqACKMsg rep) = ReqACKEvent rep msg node_alias (decimal (response_req_id rep))"
| "message_event msg node_alias (ReqNACKMsg rep) = ReqNACKEvent rep msg node_alias (decimal (response_req_id rep))"
| "message_event msg node_alias (RejectMsg rep) = RejectEvent rep msg node_alias (decimal (response_req_id rep))"
| "message_event msg node_alias (PoolLedgerTxnsMsg _) = PoolLedgerTxnsEvent"
| "message_event msg node_alias PingMsg = PingEvent"
| "message_event msg node_alias PongMsg = PongEvent"

definition request_event :: "poollibs \<Rightarrow> string \<Rightarrow> int option \<Rightarrow> string option \<Rightarrow> RequestEvent option" where
  "request_event P msg timeout nodes =
    (case parse_req_id_and_op (po_plibs P) msg of
       Inl _ \<Rightarrow> None
     | Inr (req, req_id, op) \<Rightarrow>
         if op \<in> set REQUEST_FOR_FULL then Some (CustomFullRequest msg req_id timeout nodes)
         else if timeout \<noteq> None \<or> nodes \<noteq> None then None
         else if op \<in> set REQUESTS_FOR_STATE_PROOFS then
           Some (CustomSingleRequest msg req_id (parse_key_from_request_for_builtin_sp (po_stlibs P) req)
             (parse_timestamp_from_req_for_builtin_sp req op))
         else if st_sp_parser (po_stlibs P) op \<noteq> None then Some (CustomSingleRequest msg req_id None (None, None))
         else Some (CustomConsensusRequest msg req_id))"

fun into_request_event :: "poollibs \<Rightarrow> PoolEvent \<Rightarrow> RequestEvent option" where
  "into_request_event P (NodeReply msg node_alias) = map_option (message_event msg node_alias) (parse_msg P msg)"
| "into_request_event P (SendRequest _ msg timeout nodes) = request_event P msg timeout nodes"
| "into_request_event P (PoolEventTimeout req_id node_alias) = Some (TimeoutEvent req_id node_alias)"
| "into_request_event P _ = None"

section \<open>States\<close>

type_synonym handler = "RequestSM option"

record Catching =
  ca_handler :: handler
  ca_cmd_id :: CommandHandle
  ca_refresh :: bool

record ActiveState =
  ac_handlers :: "(string \<times> handler) list"
  ac_nodes :: Nodes

datatype PoolState =
    Initialization
  | GettingCatchupTarget Catching
  | Active ActiveState
  | SyncCatchup Catching
  | Terminated
  | Closed

record PoolSM =
  pl_id :: int
  pl_timeout :: int
  pl_extended_timeout :: int
  pl_number_read_nodes :: nat
  pl_state :: PoolState

definition pool_sm_new :: "int \<Rightarrow> int \<Rightarrow> int \<Rightarrow> nat \<Rightarrow> PoolSM" where
  "pool_sm_new pool_id timeout extended_timeout number_read_nodes =
    \<lparr> pl_id = pool_id, pl_timeout = timeout, pl_extended_timeout = extended_timeout, pl_number_read_nodes = number_read_nodes,
      pl_state = Initialization \<rparr>"

datatype pool_effect =
    RequestEffect effect
  | OpenAck CommandHandle int "unit IndyResult"
  | RefreshAck CommandHandle "unit IndyResult"
  | CloseAck CommandHandle "unit IndyResult"

abbreviation notify :: "NetworkerEvent \<Rightarrow> pool_effect" where
  "notify e \<equiv> RequestEffect (ToNetworker e)"

type_synonym pool_handled = "PoolDir \<times> pool_effect list \<times> PoolState IndyResult"

definition close_pool_ack :: "CommandHandle \<Rightarrow> pool_effect list" where
  "close_pool_ack cmd_id = [CloseAck cmd_id (Inr ())]"

definition send_submit_ack :: "CommandHandle \<Rightarrow> string IndyResult \<Rightarrow> pool_effect list" where
  "send_submit_ack cmd_id res = [RequestEffect (SubmitAck cmd_id res)]"

definition send_open_refresh_ack :: "PoolSM \<Rightarrow> Catching \<Rightarrow> unit IndyResult \<Rightarrow> pool_effect list" where
  "send_open_refresh_ack sm st res = [if ca_refresh st then RefreshAck (ca_cmd_id st) res else OpenAck (ca_cmd_id st) (pl_id sm) res]"

text \<open>Further effects after some have been made; and what follows a step that may fail.\<close>

fun after :: "pool_effect list \<Rightarrow> pool_handled \<Rightarrow> pool_handled" where
  "after effs (d, effs', r) = (d, effs @ effs', r)"

section \<open>Handlers of requests\<close>

definition new_handler :: "PoolSM \<Rightarrow> Nodes \<Rightarrow> CommandHandle list \<Rightarrow> handler" where
  "new_handler sm nodes cmd_ids =
    Some (request_sm_new (get_f (length nodes)) cmd_ids nodes (pl_timeout sm) (pl_extended_timeout sm) (pl_number_read_nodes sm))"

definition handler_is_terminal :: "handler \<Rightarrow> bool" where
  "handler_is_terminal h = (case h of Some sm \<Rightarrow> request_is_terminal sm | None \<Rightarrow> True)"

text \<open>A handler processes an event; the event it has for the pool goes to the continuation.\<close>

definition process :: "poollibs \<Rightarrow> splibs \<Rightarrow> PoolDir \<Rightarrow> handler \<Rightarrow> RequestEvent option
    \<Rightarrow> (PoolDir \<Rightarrow> handler \<Rightarrow> PoolEvent option \<Rightarrow> pool_handled) \<Rightarrow> pool_handled" where
  "process P sp d h ore k =
    (case request_process_event (po_plibs P) sp d h ore of
       (d1, effs, Inl e) \<Rightarrow> (d1, map RequestEffect effs, Inl e)
     | (d1, effs, Inr (h', ev)) \<Rightarrow> after (map RequestEffect effs) (k d1 h' ev))"

definition tree_and_nodes :: "poollibs \<Rightarrow> PoolDir \<Rightarrow> PoolDir \<times> (MerkleTree \<times> Nodes \<times> RemoteNode list) IndyResult" where
  "tree_and_nodes P d =
    (let N = po_nlibs P; L = po_plibs P;
         load = (\<lambda>d. bindr (create L d) (\<lambda>merkle. bindr (get_nodes_and_remotes N merkle) (\<lambda>n. Inr (merkle, n))))
     in case create L d of
          Inl e \<Rightarrow> (d, Inl e)
        | Inr merkle \<Rightarrow>
            (case get_nodes_and_remotes N merkle of
               Inr n \<Rightarrow> (d, Inr (merkle, n))
             | Inl Panic \<Rightarrow> (d, Inl Panic)
             | Inl (Error e) \<Rightarrow>
                 (case drop_cache d of
                    (d1, Inr _) \<Rightarrow> (d1, load d1)
                  | (d1, Inl _) \<Rightarrow> (d1, Inl (Error e)))))"

text \<open>\<^verbatim>\<open>_get_request_handler_with_ledger_status_sent\<close>: the last argument says what to do with the handler or the error.\<close>

definition with_ledger_status_sent ::
  "poollibs \<Rightarrow> splibs \<Rightarrow> PoolDir \<Rightarrow> PoolSM \<Rightarrow> (IndyErrorKind + handler \<Rightarrow> pool_effect list \<times> PoolState) \<Rightarrow> pool_handled" where
  "with_ledger_status_sent P sp d sm k =
    (case tree_and_nodes P d of
       (d1, Inl Panic) \<Rightarrow> (d1, [], Inl Panic)
     | (d1, Inl (Error e)) \<Rightarrow> (case k (Inl e) of (effs, st) \<Rightarrow> (d1, effs, Inr st))
     | (d1, Inr (merkle, nodes, remotes)) \<Rightarrow>
         after [notify (NodesStateUpdated remotes)]
           (process P sp d1 (new_handler sm nodes []) (Some (LedgerStatusEvent (ledger_status (po_nlibs P) merkle) None (Some merkle)))
             (\<lambda>d2 h _. case k (Inr h) of (effs, st) \<Rightarrow> (d2, effs, Inr st))))"

text \<open>\<^verbatim>\<open>if let Ok(..) = _get_nodes_and_remotes(..)\<close>, else the pool is terminated.\<close>

definition with_nodes :: "poollibs \<Rightarrow> PoolDir \<Rightarrow> MerkleTree \<Rightarrow> (Nodes \<Rightarrow> pool_handled) \<Rightarrow> pool_handled" where
  "with_nodes P d merkle k =
    (case get_nodes_and_remotes (po_nlibs P) merkle of
       Inl Panic \<Rightarrow> (d, [], Inl Panic)
     | Inl (Error _) \<Rightarrow> (d, [], Inr Terminated)
     | Inr (nodes, remotes) \<Rightarrow> after [notify (NodesStateUpdated remotes)] (k nodes))"

section \<open>The states' reactions\<close>

definition close_catching :: "poollibs \<Rightarrow> splibs \<Rightarrow> PoolDir \<Rightarrow> Catching \<Rightarrow> CommandHandle \<Rightarrow> pool_handled" where
  "close_catching P sp d st cmd_id =
    after (close_pool_ack cmd_id) (process P sp d (ca_handler st) (Some TerminateEvent) (\<lambda>d1 _ _. (d1, [], Inr Closed)))"

definition activate :: "poollibs \<Rightarrow> PoolDir \<Rightarrow> PoolSM \<Rightarrow> Catching \<Rightarrow> MerkleTree \<Rightarrow> pool_handled" where
  "activate P d sm st merkle =
    with_nodes P d merkle (\<lambda>nodes. (d, send_open_refresh_ack sm st (Inr ()), Inr (Active \<lparr> ac_handlers = [], ac_nodes = nodes \<rparr>)))"

fun init_event :: "poollibs \<Rightarrow> splibs \<Rightarrow> PoolDir \<Rightarrow> PoolSM \<Rightarrow> PoolEvent \<Rightarrow> pool_handled" where
  "init_event P sp d sm (CheckCache cmd_id) =
    with_ledger_status_sent P sp d sm (\<lambda>r. case r of
      Inr h \<Rightarrow> ([], GettingCatchupTarget \<lparr> ca_handler = h, ca_cmd_id = cmd_id, ca_refresh = False \<rparr>)
    | Inl e \<Rightarrow> ([OpenAck cmd_id (pl_id sm) (Inl (Error e))], Terminated))"
| "init_event P sp d sm (Close cmd_id) = (d, close_pool_ack cmd_id, Inr Closed)"
| "init_event P sp d sm _ = (d, [], Inr Initialization)"

fun target_event :: "poollibs \<Rightarrow> splibs \<Rightarrow> PoolDir \<Rightarrow> PoolSM \<Rightarrow> Catching \<Rightarrow> PoolEvent \<Rightarrow> pool_handled" where
  "target_event P sp d sm st (Close cmd_id) = close_catching P sp d st cmd_id"
| "target_event P sp d sm st (CatchupTargetNotFound err) = (d, send_open_refresh_ack sm st (Inl err), Inr Terminated)"
| "target_event P sp d sm st (CatchupRestart merkle_tree) =
    with_nodes P d merkle_tree (\<lambda>nodes.
      process P sp d (new_handler sm nodes []) (Some (LedgerStatusEvent (ledger_status (po_nlibs P) merkle_tree) None (Some merkle_tree)))
        (\<lambda>d1 h _. (d1, [], Inr (GettingCatchupTarget (st\<lparr>ca_handler := h\<rparr>)))))"
| "target_event P sp d sm st (CatchupTargetFound target_mt_root target_mt_size merkle_tree) =
    with_nodes P d merkle_tree (\<lambda>nodes.
      process P sp d (new_handler sm nodes []) (Some (CatchupReqEvent merkle_tree target_mt_size target_mt_root))
        (\<lambda>d1 h _. (d1, [], Inr (SyncCatchup (st\<lparr>ca_handler := h\<rparr>)))))"
| "target_event P sp d sm st (Synced merkle) = activate P d sm st merkle"
| "target_event P sp d sm st _ = (d, [], Inr (GettingCatchupTarget st))"

fun sync_event :: "poollibs \<Rightarrow> splibs \<Rightarrow> PoolDir \<Rightarrow> PoolSM \<Rightarrow> Catching \<Rightarrow> PoolEvent \<Rightarrow> pool_handled" where
  "sync_event P sp d sm st (Close cmd_id) = close_catching P sp d st cmd_id"
| "sync_event P sp d sm st NodesBlacklisted = (d, [], Inr Terminated)"
| "sync_event P sp d sm st (Synced merkle) = activate P d sm st merkle"
| "sync_event P sp d sm st _ = (d, [], Inr (SyncCatchup st))"

fun terminated_event :: "poollibs \<Rightarrow> splibs \<Rightarrow> PoolDir \<Rightarrow> PoolSM \<Rightarrow> PoolEvent \<Rightarrow> pool_handled" where
  "terminated_event P sp d sm (Close cmd_id) = (d, close_pool_ack cmd_id, Inr Closed)"
| "terminated_event P sp d sm (Refresh cmd_id) =
    with_ledger_status_sent P sp d sm (\<lambda>r. case r of
      Inr h \<Rightarrow> ([], GettingCatchupTarget \<lparr> ca_handler = h, ca_cmd_id = cmd_id, ca_refresh = True \<rparr>)
    | Inl _ \<Rightarrow> ([], Terminated))"
| "terminated_event P sp d sm (PoolEventTimeout req_id node_alias) =
    (d, if req_id = [] then [notify NetworkerTimeout] else [], Inr Terminated)"
| "terminated_event P sp d sm _ = (d, [], Inr Terminated)"

text \<open>Closing terminates the requests under way, in the order of the map.\<close>

fun terminate_all :: "poollibs \<Rightarrow> splibs \<Rightarrow> PoolDir \<Rightarrow> handler list \<Rightarrow> pool_handled" where
  "terminate_all P sp d [] = (d, [], Inr Closed)"
| "terminate_all P sp d (h # hs) = process P sp d h (Some TerminateEvent) (\<lambda>d1 _ _. terminate_all P sp d1 hs)"

definition active_send :: "poollibs \<Rightarrow> splibs \<Rightarrow> PoolDir \<Rightarrow> PoolSM \<Rightarrow> ActiveState \<Rightarrow> CommandHandle \<Rightarrow> RequestEvent option \<Rightarrow> pool_handled" where
  "active_send P sp d sm st cmd_id re =
    (case re of
       Some r \<Rightarrow>
         process P sp d (new_handler sm (ac_nodes st) [cmd_id]) re (\<lambda>d1 h _.
           (d1, [], Inr (Active (st\<lparr>ac_handlers := upsert (get_req_id r) (\<lambda>_. h) h (ac_handlers st)\<rparr>))))
     | None \<Rightarrow> (d, send_submit_ack cmd_id (Inl (Error InvalidStructure)), Inr (Active st)))"

abbreviation remove_handler :: "string \<Rightarrow> (string \<times> handler) list \<Rightarrow> (string \<times> handler) list" where
  "remove_handler k hs \<equiv> filter (\<lambda>e. fst e \<noteq> k) hs"

definition active_reply :: "poollibs \<Rightarrow> splibs \<Rightarrow> PoolDir \<Rightarrow> ActiveState \<Rightarrow> RequestEvent option \<Rightarrow> pool_handled" where
  "active_reply P sp d st re =
    (case re of
       None \<Rightarrow> (d, [], Inr (Active st))
     | Some r \<Rightarrow>
         (case map_of (ac_handlers st) (get_req_id r) of
            None \<Rightarrow> (d, [], Inr (Active st))
          | Some rh \<Rightarrow>
              process P sp d rh re (\<lambda>d1 h _.
                (d1, [], Inr (Active (st\<lparr>ac_handlers :=
                  (if handler_is_terminal h then remove_handler (get_req_id r) (ac_handlers st)
                   else upsert (get_req_id r) (\<lambda>_. h) h (ac_handlers st))\<rparr>))))))"

definition active_timeout :: "poollibs \<Rightarrow> splibs \<Rightarrow> PoolDir \<Rightarrow> ActiveState \<Rightarrow> string \<Rightarrow> string \<Rightarrow> pool_handled" where
  "active_timeout P sp d st req_id node_alias =
    (case map_of (ac_handlers st) req_id of
       Some rh \<Rightarrow>
         process P sp d rh (into_request_event P (PoolEventTimeout req_id node_alias)) (\<lambda>d1 h _.
           (d1, [], Inr (Active (st\<lparr>ac_handlers := upsert req_id (\<lambda>_. h) h (ac_handlers st)\<rparr>))))
     | None \<Rightarrow> (d, if req_id = [] then [notify NetworkerTimeout] else [], Inr (Active st)))"

fun active_event :: "poollibs \<Rightarrow> splibs \<Rightarrow> PoolDir \<Rightarrow> PoolSM \<Rightarrow> ActiveState \<Rightarrow> PoolEvent \<Rightarrow> pool_handled" where
  "active_event P sp d sm st PoolOutdated = (d, [], Inr Terminated)"
| "active_event P sp d sm st (Close cmd_id) = after (close_pool_ack cmd_id) (terminate_all P sp d (map snd (ac_handlers st)))"
| "active_event P sp d sm st (Refresh cmd_id) =
    with_ledger_status_sent P sp d sm (\<lambda>r. case r of
      Inr h \<Rightarrow> ([], GettingCatchupTarget \<lparr> ca_handler = h, ca_cmd_id = cmd_id, ca_refresh = True \<rparr>)
    | Inl _ \<Rightarrow> ([], Terminated))"
| "active_event P sp d sm st (SendRequest cmd_id msg timeout nodes) =
    active_send P sp d sm st cmd_id (into_request_event P (SendRequest cmd_id msg timeout nodes))"
| "active_event P sp d sm st (NodeReply reply node) = active_reply P sp d st (into_request_event P (NodeReply reply node))"
| "active_event P sp d sm st (PoolEventTimeout req_id node_alias) = active_timeout P sp d st req_id node_alias"
| "active_event P sp d sm st _ = (d, [], Inr (Active st))"

definition unwrap_event :: "PoolEvent option \<Rightarrow> PoolEvent \<Rightarrow> PoolEvent" where
  "unwrap_event ev pe = (case ev of Some p \<Rightarrow> p | None \<Rightarrow> pe)"

definition pool_state_event :: "poollibs \<Rightarrow> splibs \<Rightarrow> PoolDir \<Rightarrow> PoolSM \<Rightarrow> PoolEvent \<Rightarrow> pool_handled" where
  "pool_state_event P sp d sm pe =
    (case pl_state sm of
       Initialization \<Rightarrow> init_event P sp d sm pe
     | GettingCatchupTarget st \<Rightarrow>
         process P sp d (ca_handler st) (into_request_event P pe) (\<lambda>d1 h ev.
           target_event P sp d1 sm (st\<lparr>ca_handler := h\<rparr>) (unwrap_event ev pe))
     | Terminated \<Rightarrow> terminated_event P sp d sm pe
     | Closed \<Rightarrow> (d, [], Inr Closed)
     | Active st \<Rightarrow> active_event P sp d sm st pe
     | SyncCatchup st \<Rightarrow>
         process P sp d (ca_handler st) (into_request_event P pe) (\<lambda>d1 h ev.
           sync_event P sp d1 sm (st\<lparr>ca_handler := h\<rparr>) (unwrap_event ev pe)))"

definition pool_handle_event :: "poollibs \<Rightarrow> splibs \<Rightarrow> PoolDir \<Rightarrow> PoolSM \<Rightarrow> PoolEvent \<Rightarrow> PoolDir \<times> pool_effect list \<times> PoolSM IndyResult" where
  "pool_handle_event P sp d sm pe =
    (case pool_state_event P sp d sm pe of (d', effs, r) \<Rightarrow> (d', effs, bindr r (\<lambda>st. Inr (sm\<lparr>pl_state := st\<rparr>))))"

definition pool_is_terminal :: "PoolSM \<Rightarrow> bool" where
  "pool_is_terminal sm = (case pl_state sm of Closed \<Rightarrow> True | _ \<Rightarrow> False)"

section \<open>The thread of a pool\<close>

text \<open>\<^verbatim>\<open>_loop\<close> handles the events that were fetched, in order, with the clock at the time of each.\<close>

fun pool_loop :: "poollibs \<Rightarrow> PoolDir \<Rightarrow> PoolSM \<Rightarrow> (splibs \<times> PoolEvent) list \<Rightarrow> PoolDir \<times> pool_effect list \<times> PoolSM IndyResult" where
  "pool_loop P d sm [] = (d, [], Inr sm)"
| "pool_loop P d sm ((sp, pe) # evs) =
    (case pool_handle_event P sp d sm pe of
       (d1, effs, Inl e) \<Rightarrow> (d1, effs, Inl e)
     | (d1, effs, Inr sm') \<Rightarrow> (case pool_loop P d1 sm' evs of (d2, effs', r) \<Rightarrow> (d2, effs @ effs', r)))"

text \<open>\<^verbatim>\<open>work\<close>: rounds of fetching and handling until the machine is terminal; the rounds that were polled are given.\<close>

fun pool_work :: "poollibs \<Rightarrow> PoolDir \<Rightarrow> PoolSM \<Rightarrow> (splibs \<times> PoolEvent) list list \<Rightarrow> PoolDir \<times> pool_effect list \<times> PoolSM IndyResult" where
  "pool_work P d sm [] = (d, [], Inr sm)"
| "pool_work P d sm (evs # rounds) =
    (case pool_loop P d sm evs of
       (d1, effs, Inl e) \<Rightarrow> (d1, effs, Inl e)
     | (d1, effs, Inr sm') \<Rightarrow>
         if pool_is_terminal sm' then (d1, effs, Inr sm')
         else (case pool_work P d1 sm' rounds of (d2, effs', r) \<Rightarrow> (d2, effs @ effs', r)))"

end
