(* ===== verification/Catchup_Agreement.thy ===== *)
theory Catchup_Agreement
  imports Request_Runs
begin

text \<open>
  Agreement on the catch-up target: what the handler of \<^verbatim>\<open>request_handler.rs\<close> reports to the pool while it
  collects the statuses of the nodes is backed by more than \<open>f\<close> of them.
\<close>

section \<open>Agreement on the catch-up target\<close>

fun status_of :: "RequestEvent \<Rightarrow> (vote \<times> string) option" where
  "status_of (LedgerStatusEvent ls (Some a) _) = Some ((merkleRoot ls, txnSeqNo ls, None), a)"
| "status_of (ConsistencyProofEvent cp a) = Some ((newMerkleRoot cp, seqNoEnd cp, Some (hashes cp)), a)"
| "status_of (TimeoutEvent _ a) = Some ((''timeout'', 0, None), a)"
| "status_of _ = None"

definition status_voters :: "(splibs \<times> RequestEvent) list \<Rightarrow> vote \<Rightarrow> string set" where
  "status_voters evs k = {a. \<exists>e\<in>set evs. status_of (snd e) = Some (k, a)}"

definition voted :: "(splibs \<times> RequestEvent) list \<Rightarrow> votes \<Rightarrow> bool" where
  "voted evs vs \<longleftrightarrow> (\<forall>(k, ns)\<in>set vs. distinct ns \<and> set ns \<subseteq> status_voters evs k)"

text \<open>What backs an event of the catch-up: more than \<open>f\<close> nodes that reported its root and size.\<close>

definition agreed :: "plibs \<Rightarrow> nat \<Rightarrow> (splibs \<times> RequestEvent) list \<Rightarrow> PoolEvent \<Rightarrow> bool" where
  "agreed L f evs p =
    (case p of
       CatchupTargetFound r sz mt \<Rightarrow>
         (\<exists>root hs. f < card (status_voters evs (root, sz, hs)) \<and> pb_from_base58 L root = Some r \<and> mt_count mt < sz \<and>
           (case hs of None \<Rightarrow> True | Some ps \<Rightarrow> check_cons_proofs L mt ps r sz = Inr ()))
     | Synced mt \<Rightarrow> (\<exists>hs. f < card (status_voters evs (pb_to_base58 L (root_hash mt), mt_count mt, hs)))
     | _ \<Rightarrow> True)"

lemma finite_status_voters [simp]: "finite (status_voters evs k)"
proof (rule finite_subset)
  show "status_voters evs k \<subseteq> (\<lambda>e. snd (the (status_of (snd e)))) ` set evs" unfolding status_voters_def by force
qed simp

lemma status_voters_mono: "set evs \<subseteq> set evs' \<Longrightarrow> status_voters evs k \<subseteq> status_voters evs' k"
  unfolding status_voters_def by blast

lemma card_status_voters_mono: "set evs \<subseteq> set evs' \<Longrightarrow> card (status_voters evs k) \<le> card (status_voters evs' k)"
  by (intro card_mono status_voters_mono) auto

lemma agreed_mono: "agreed L f evs p \<Longrightarrow> set evs \<subseteq> set evs' \<Longrightarrow> agreed L f evs' p"
proof -
  assume a: "agreed L f evs p" and s: "set evs \<subseteq> set evs'"
  have m: "f < card (status_voters evs' k)" if "f < card (status_voters evs k)" for k
    using that card_status_voters_mono [OF s, of k] by linarith
  show ?thesis using a m unfolding agreed_def by (cases p) (simp_all, blast+)
qed

lemma voted_simps [simp]:
  "voted evs []" "voted evs ((k, ns) # vs) \<longleftrightarrow> distinct ns \<and> set ns \<subseteq> status_voters evs k \<and> voted evs vs"
  by (simp_all add: voted_def)

lemma voted_mono: "voted evs vs \<Longrightarrow> set evs \<subseteq> set evs' \<Longrightarrow> voted evs' vs"
  using status_voters_mono [of evs evs'] unfolding voted_def by blast

lemma voted_upsert: "voted evs vs \<Longrightarrow> a \<in> status_voters evs k \<Longrightarrow> voted evs (upsert k (List.insert a) [] vs)"
proof (induction vs)
  case (Cons x vs)
  then show ?case by (cases x) auto
qed simp

lemma try_to_catch_up_agreed:
  assumes "try_to_catch_up L (root, sz, hs) t = Inr p" "f < card (status_voters evs (root, sz, hs))"
  shows "case p of ShouldBeStarted r n mt \<Rightarrow> agreed L f evs (CatchupTargetFound r n mt) | NotNeeded mt \<Rightarrow> agreed L f evs (Synced mt) | _ \<Rightarrow> False"
proof -
  consider "sz = mt_count t" "pb_to_base58 L (root_hash t) = root" "p = NotNeeded t"
    | r where "mt_count t < sz" "pb_from_base58 L root = Some r" "p = ShouldBeStarted r sz t"
        "case hs of None \<Rightarrow> True | Some ps \<Rightarrow> check_cons_proofs L t ps r sz = Inr ()"
    using assms(1) by (auto simp: try_to_catch_up_def bindr_Inr_iff split: if_splits option.splits)
  then show ?thesis
  proof cases
    case 1
    then show ?thesis using assms(2) by (auto simp: agreed_def)
  next
    case 2
    then show ?thesis using assms(2) unfolding agreed_def by auto
  qed
qed

lemma restart_outcome: "try_to_restart_catch_up L d e = (d', Inr p) \<Longrightarrow> \<exists>t. p = Restart t"
  by (auto simp: try_to_restart_catch_up_def bindr_Inr_iff split: prod.splits sum.splits)

lemma reachable_outcome: "if_consensus_reachable L d vs n c f = (d', Inr p) \<Longrightarrow> p = InProgress \<or> (\<exists>t. p = Restart t)"
  by (auto simp: if_consensus_reachable_def Let_def dest: restart_outcome split: sum.splits bool.splits)

lemma status_decision:
  assumes v: "voted evs vs" and c: "check_nodes_responses_on_status L d vs mt n f = (d', Inr p)"
  shows "case p of ShouldBeStarted r n mt \<Rightarrow> agreed L f evs (CatchupTargetFound r n mt) | NotNeeded mt \<Rightarrow> agreed L f evs (Synced mt) | _ \<Rightarrow> True"
proof (cases "max_by_key (length \<circ> snd) (filter (\<lambda>e. fst (fst e) \<noteq> ''timeout'') vs)")
  case None
  then have "p = InProgress \<or> (\<exists>t. p = Restart t)" using c
    by (auto simp: check_nodes_responses_on_status_def Let_def dest: restart_outcome reachable_outcome split: if_splits sum.splits)
  then show ?thesis by auto
next
  case (Some e)
  obtain root sz hs ns where e: "e = ((root, sz, hs), ns)" by (metis surj_pair)
  show ?thesis
  proof (cases "length ns = f + 1")
    case False
    then have "p = InProgress \<or> (\<exists>t. p = Restart t)" using c Some
      by (auto simp: check_nodes_responses_on_status_def Let_def e dest: reachable_outcome)
    then show ?thesis by auto
  next
    case True
    have "e \<in> set vs" using max_by_key_mem [OF Some] by simp
    then have ns: "distinct ns" "set ns \<subseteq> status_voters evs (root, sz, hs)" using v e by (auto simp: voted_def)
    have "f < card (set ns)" using True distinct_card [OF ns(1)] by simp
    also have "\<dots> \<le> card (status_voters evs (root, sz, hs))" using ns(2) by (intro card_mono) auto
    finally have q: "f < card (status_voters evs (root, sz, hs))" .
    obtain t where "try_to_catch_up L (root, sz, hs) t = Inr p"
      using c Some True
      by (auto simp: check_nodes_responses_on_status_def Let_def e bindr_Inr_iff split: sum.splits failure.splits prod.splits)
    from try_to_catch_up_agreed [OF this q] show ?thesis by (cases p) auto
  qed
qed

lemma catchup_target_step:
  assumes v: "voted evs (cc_replies st)" and a: "a \<in> status_voters evs (root, sz, hs)"
    and h: "catchup_target_handle_consensus_state L d st root sz hs a i f ns = (d', effs, Inr (st', ev))"
  shows "(\<forall>p. ev = Some p \<longrightarrow> agreed L f evs p) \<and> (st' = Finish \<or> (\<exists>c. st' = CatchupConsensus c \<and> voted evs (cc_replies c)))"
proof -
  define st1 where "st1 = st\<lparr>cc_replies := upsert (root, sz, hs) (List.insert a) [] (cc_replies st)\<rparr>"
  have v1: "voted evs (cc_replies st1)" using voted_upsert [OF v a] by (simp add: st1_def)
  obtain d1 r where c: "check_nodes_responses_on_status L d (cc_replies st1) (cc_merkle_tree st1) (length ns) f = (d1, r)" by force
  have p: "process_catchup_target L d root sz hs a st f ns = (d1, st1, (case r of
            Inr InProgress \<Rightarrow> Inr (False, None)
          | Inr (NotNeeded merkle_tree) \<Rightarrow> Inr (True, Some (Synced merkle_tree))
          | Inr (Restart merkle_tree) \<Rightarrow> Inr (False, Some (CatchupRestart merkle_tree))
          | Inr (ShouldBeStarted target_mt_root target_mt_size merkle_tree) \<Rightarrow>
              Inr (True, Some (CatchupTargetFound target_mt_root target_mt_size merkle_tree))
          | Inl Panic \<Rightarrow> Inl Panic
          | Inl (Error e) \<Rightarrow> Inr (True, Some (CatchupTargetNotFound (Error e)))))"
    using c by (simp add: process_catchup_target_def st1_def [symmetric])
  show ?thesis
  proof (cases r)
    case (Inl e)
    then show ?thesis using h p by (cases e) (auto simp: catchup_target_handle_consensus_state_def agreed_def)
  next
    case (Inr q)
    then show ?thesis using h p status_decision [OF v1 c [unfolded Inr]] v1
      by (cases q) (auto simp: catchup_target_handle_consensus_state_def agreed_def [of L f evs "CatchupRestart t" for t])
  qed
qed

lemma catchup_consensus_step:
  assumes v: "voted (hist @ [(sp, re)]) (cc_replies st)"
    and h: "catchup_consensus_event L d sm st re = (d', effs, Inr (st', ev))"
  shows "(\<forall>p. ev = Some p \<longrightarrow> agreed L (sm_f sm) (hist @ [(sp, re)]) p) \<and>
    (st' = Finish \<or> (\<exists>c. st' = CatchupConsensus c \<and> voted (hist @ [(sp, re)]) (cc_replies c)))"
proof (cases "status_of re")
  case None
  then show ?thesis using v h by (cases "(L, d, sm, st, re)" rule: catchup_consensus_event.cases) auto
next
  case (Some x)
  obtain root sz hs a where x: "x = ((root, sz, hs), a)" by (metis surj_pair)
  have a: "a \<in> status_voters (hist @ [(sp, re)]) (root, sz, hs)" using Some x by (simp add: status_voters_def)
  have "\<exists>i. catchup_target_handle_consensus_state L d st root sz hs a i (sm_f sm) (sm_nodes sm) = (d', effs, Inr (st', ev))"
    using Some x h by (cases "(L, d, sm, st, re)" rule: catchup_consensus_event.cases) auto
  then show ?thesis using catchup_target_step [OF v a] by blast
qed

lemma catchup_run:
  "sm_state sm = CatchupConsensus st \<Longrightarrow> voted hist (cc_replies st) \<Longrightarrow> run_events L d sm evs = (d', effs, Inr (sm', pes)) \<Longrightarrow>
   \<forall>p\<in>set pes. agreed L (sm_f sm) (hist @ evs) p"
proof (induction evs arbitrary: hist d sm st effs pes)
  case (Cons e evs)
  obtain sp re where e: "e = (sp, re)" by force
  obtain d1 effs1 r1 where c: "catchup_consensus_event L d sm st re = (d1, effs1, r1)" by (rule prod_cases3)
  have "\<exists>x. r1 = Inr x" using Cons.prems(1,3) c by (cases r1) (auto simp: e handle_event_def state_event_def)
  then obtain st' ev where r1: "r1 = Inr (st', ev)" by auto
  let ?sm = "sm\<lparr>sm_state := st'\<rparr>"
  have h: "handle_event L sp d sm re = (d1, effs1, Inr (?sm, ev))"
    using c r1 Cons.prems(1) by (simp add: handle_event_def state_event_def)
  obtain effs2 pes2 where run: "run_events L d1 ?sm evs = (d', effs2, Inr (sm', pes2))"
    "pes = (case ev of None \<Rightarrow> [] | Some p \<Rightarrow> [p]) @ pes2"
    using Cons.prems(3) h by (auto simp: e bindr_Inr_iff split: prod.splits)
  have "voted (hist @ [(sp, re)]) (cc_replies st)" using Cons.prems(2) by (rule voted_mono) auto
  note step = catchup_consensus_step [OF this c [unfolded r1]]
  have s: "\<forall>p. ev = Some p \<longrightarrow> agreed L (sm_f sm) (hist @ e # evs) p"
  proof (intro allI impI)
    fix p
    assume "ev = Some p"
    then have "agreed L (sm_f sm) (hist @ [(sp, re)]) p" using step by blast
    then show "agreed L (sm_f sm) (hist @ e # evs) p" by (rule agreed_mono) (auto simp: e)
  qed
  have next_st: "st' = Finish \<or> (\<exists>c. st' = CatchupConsensus c \<and> voted (hist @ [e]) (cc_replies c))"
    using step unfolding e by blast
  have "\<forall>p\<in>set pes2. agreed L (sm_f sm) (hist @ e # evs) p"
    using next_st
  proof
    assume "st' = Finish"
    then show ?thesis using run(1) run_finished [of ?sm L d1 evs] by simp
  next
    assume "\<exists>c. st' = CatchupConsensus c \<and> voted (hist @ [e]) (cc_replies c)"
    then obtain c where c: "st' = CatchupConsensus c" "voted (hist @ [e]) (cc_replies c)" by blast
    from Cons.IH [OF _ c(2) run(1)] c(1) show ?thesis by simp
  qed
  then show ?case using s run(2) by (cases ev) auto
qed simp

definition toy_status :: "nat \<Rightarrow> LedgerStatus" where
  "toy_status n = \<lparr> txnSeqNo = n, merkleRoot = ''r'', ls_ledgerId = 0, ppSeqNo = None, viewNo = None, protocolVersion = None \<rparr>"

lemma toy_target:
  "run_events toy_net toy_dir toy_request ((toy_sp, LedgerStatusEvent (toy_status 1) None (Some (rfc_merkle sum_digest [[97]]))) #
      [(toy_sp, LedgerStatusEvent (toy_status 3) (Some ''A'') None), (toy_sp, LedgerStatusEvent (toy_status 3) (Some ''B'') None)]) =
    (toy_dir, [ToNetworker (SendAllRequest (pb_to_json toy_net (ledger_status_json (toy_status 1))) ''r'' 60 None),
       ToNetworker (CleanTimeout ''r'' (Some ''A'')), ToNetworker (CleanTimeout ''r'' None)],
     Inr (toy_request\<lparr>sm_state := Finish\<rparr>, [CatchupTargetFound (as_bytes ''r'') 3 (rfc_merkle sum_digest [[97]])]))"
  by (simp add: handle_event_def state_event_def toy_status_def request_sm_new_def catchup_target_handle_consensus_state_def
      process_catchup_target_def check_nodes_responses_on_status_def if_consensus_reachable_def usize_sub_def toy_nodes_def
      try_to_catch_up_def rfc_merkle_def toy_net_def)

section \<open>Properties\<close>

text \<open>
  The catch-up target is the pool's. If a handler that was started with the local tree reports that
  transactions up to a root and size are to be fetched, or that the tree is up to date, then more than \<open>f\<close>
  nodes reported that root and size; in the first case the target is larger than the tree it is reported
  with, and extends it if the nodes sent a consistency proof.
\<close>
theorem catchup_target_agreed:
  assumes "run_events L d (request_sm_new f ids nodes t et nr) ((sp, LedgerStatusEvent ls a (Some merkle)) # evs) = (d', effs, Inr (sm, pes))"
    and "p \<in> set pes"
  shows "agreed L f evs p"
proof -
  let ?new = "request_sm_new f ids nodes t et nr"
  let ?sm = "?new\<lparr>sm_state := CatchupConsensus \<lparr> cc_replies = [], cc_merkle_tree = merkle \<rparr>\<rparr>"
  have "\<exists>e0. handle_event L sp d ?new (LedgerStatusEvent ls a (Some merkle)) = (d, e0, Inr (?sm, None))"
    by (simp add: handle_event_def state_event_def)
  then obtain effs1 where "run_events L d ?sm evs = (d', effs1, Inr (sm, pes))"
    using assms(1) by (auto simp: bindr_Inr_iff split: prod.splits)
  from catchup_run [OF _ _ this, of "\<lparr> cc_replies = [], cc_merkle_tree = merkle \<rparr>" "[]"] assms(2) show ?thesis by simp
qed

text \<open>Instance of the above: two of four nodes report a ledger of three transactions to a client that has one.\<close>
theorem catchup_target_agreed_witness:
  "\<exists>d' effs sm mt. run_events toy_net toy_dir toy_request ((toy_sp, LedgerStatusEvent (toy_status 1) None (Some (rfc_merkle sum_digest [[97]]))) #
      [(toy_sp, LedgerStatusEvent (toy_status 3) (Some ''A'') None), (toy_sp, LedgerStatusEvent (toy_status 3) (Some ''B'') None)]) =
      (d', effs, Inr (sm, [CatchupTargetFound (as_bytes ''r'') 3 mt])) \<and>
    agreed toy_net 1 [(toy_sp, LedgerStatusEvent (toy_status 3) (Some ''A'') None), (toy_sp, LedgerStatusEvent (toy_status 3) (Some ''B'') None)]
      (CatchupTargetFound (as_bytes ''r'') 3 mt)"
  using toy_target catchup_target_agreed [OF toy_target] by auto

end
