(* ===== verification/Request_Phases.thy ===== *)
theory Request_Phases
  imports Catchup_Agreement
begin

text \<open>
  The phases of a request handler: which states follow one another, and which events for the pool each can give. A request
  for a client goes from its start to its answer, a catch-up from the search of its target to the target or from the
  fetching of transactions to the new tree, and none of them changes its kind.
\<close>

section \<open>Requests of a client\<close>

fun asking :: "RequestState \<Rightarrow> bool" where
  "asking (Single _) = True"
| "asking (Consensus _) = True"
| "asking (Full _) = True"
| "asking Finish = True"
| "asking _ = False"

definition asks :: "handled \<Rightarrow> bool" where
  "asks h \<longleftrightarrow> (case h of (d, effs, Inl _) \<Rightarrow> True | (d, effs, Inr (st, ev)) \<Rightarrow> asking st \<and> ev = None)"

lemma asks_simps [simp]:
  "asks (d, effs, Inl e)" "asks (d, effs, Inr (st, ev)) \<longleftrightarrow> asking st \<and> ev = None"
  by (simp_all add: asks_def)

lemma asks_continue: "asks (consensus_continue L d sm cst a i)" "asks (try_to_continue d sm st i a)"
  by (simp_all add: consensus_continue_def try_to_continue_def split: sum.split bool.split)

lemma asks_consensus: "asks (consensus_event L d sm st re)"
proof -
  have "asks (consensus_reply L d sm st raw a i)" for raw a i
    by (auto simp: consensus_reply_def Let_def asks_continue split: sum.splits prod.splits)
  then show ?thesis by (cases "(L, d, sm, st, re)" rule: consensus_event.cases) (simp_all add: asks_continue)
qed

lemma asks_single: "asks (single_event L sp d sm st re)"
proof -
  have "asks (single_reply L sp d sm st raw a i)" for raw a i
    by (auto simp: single_reply_def Let_def asks_continue split: sum.splits prod.splits option.splits)
  then show ?thesis by (cases "(L, sp, d, sm, st, re)" rule: single_event.cases) (simp_all add: asks_continue)
qed

lemma asks_full: "asks (full_event L d sm st re)"
  by (cases "(L, d, sm, st, re)" rule: full_event.cases) (simp_all add: full_request_handle_consensus_state_def Let_def)

lemma asks_event: "asking (sm_state sm) \<Longrightarrow> asks (state_event L sp d sm re)"
  by (cases "sm_state sm") (simp_all add: state_event_def asks_consensus asks_single asks_full)

fun is_custom :: "RequestEvent \<Rightarrow> bool" where
  "is_custom (CustomSingleRequest _ _ _ _) = True"
| "is_custom (CustomConsensusRequest _ _) = True"
| "is_custom (CustomFullRequest _ _ _ _) = True"
| "is_custom _ = False"

lemma asks_start: "is_custom re \<Longrightarrow> asks (start_event L d sm re)"
  by (cases re) (auto simp: start_full_def Let_def split: sum.split option.split)

section \<open>Searching the target\<close>

definition target_outcome :: "RequestState \<Rightarrow> PoolEvent option \<Rightarrow> bool" where
  "target_outcome st ev \<longleftrightarrow>
    (case ev of
       None \<Rightarrow> (\<exists>c. st = CatchupConsensus c)
     | Some (CatchupRestart _) \<Rightarrow> (\<exists>c. st = CatchupConsensus c)
     | Some (CatchupTargetFound _ sz mt) \<Rightarrow> mt_count mt < sz
     | Some (Synced _) \<Rightarrow> True
     | Some (CatchupTargetNotFound e) \<Rightarrow> e \<noteq> Panic
     | Some _ \<Rightarrow> False)"

lemma should_be_started:
  assumes "check_nodes_responses_on_status L d vs mt n f = (d', Inr (ShouldBeStarted r sz t))"
  shows "mt_count t < sz"
proof -
  have *: "mt_count t < sz" if "try_to_catch_up L v u = Inr (ShouldBeStarted r sz t)" for v u
    using that by (auto simp: try_to_catch_up_def bindr_Inr_iff split: if_splits prod.splits)
  have ne: "if_consensus_reachable L d vs n c f \<noteq> (d', Inr (ShouldBeStarted r sz t))"
    "try_to_restart_catch_up L d e \<noteq> (d', Inr (ShouldBeStarted r sz t))" for c e
    using reachable_outcome [of L d vs n c f d'] restart_outcome [of L d e d'] by blast+
  show ?thesis using assms ne *
    by (auto simp: check_nodes_responses_on_status_def Let_def bindr_Inr_iff split: option.splits prod.splits if_splits sum.splits failure.splits)
qed

lemma target_handled:
  assumes "catchup_target_handle_consensus_state L d st root sz hs a i f ns = (d', effs, Inr (st', ev))"
  shows "target_outcome st' ev"
proof -
  define st1 where "st1 = st\<lparr>cc_replies := upsert (root, sz, hs) (List.insert a) [] (cc_replies st)\<rparr>"
  obtain d1 r where c: "check_nodes_responses_on_status L d (cc_replies st1) (cc_merkle_tree st1) (length ns) f = (d1, r)" by force
  have p: "process_catchup_target L d root sz hs a st f ns = (d1, st1, (case r of
            Inr InProgress \<Rightarrow> Inr (False, None)
          | Inr (NotNeeded merkle_tree) \<Rightarrow> Inr (True, Some (Synced merkle_tree))
          | Inr (Restart merkle_tree) \<Rightarrow> Inr (False, Some (CatchupRestart merkle_tree))
          | Inr (ShouldBeStarted target_mt_root target_mt_size merkle_tree) \<Rightarrow>
              Inr (True, Some (CatchupTargetFound target_mt_root target_mt_size merkle_tree))
          | Inl Panic \<Rightarrow> Inl Panic
          | Inl (Error e) \<Rightarrow> Inr (True, Some (CatchupTargetNotFound (Error e)))))"
    using c by (simp add: process_catchup_target_def st1_def [symmetric])
  show ?thesis
  proof (cases r)
    case (Inl e)
    then show ?thesis using assms p by (cases e) (auto simp: catchup_target_handle_consensus_state_def target_outcome_def)
  next
    case (Inr q)
    then show ?thesis using assms p should_be_started c
      by (cases q) (auto simp: catchup_target_handle_consensus_state_def target_outcome_def)
  qed
qed

lemma target_step:
  assumes "sm_state sm = CatchupConsensus c" "re \<noteq> TerminateEvent" "state_event L sp d sm re = (d', effs, Inr (st, ev))"
  shows "target_outcome st ev"
proof -
  have "catchup_consensus_event L d sm c re = (d', effs, Inr (st, ev))" using assms(1,3) by (simp add: state_event_def)
  then show ?thesis using assms(2)
    by (cases "(L, d, sm, c, re)" rule: catchup_consensus_event.cases) (auto simp: target_outcome_def [of "CatchupConsensus c"] dest: target_handled)
qed

section \<open>Fetching transactions\<close>

definition sync_outcome :: "plibs \<Rightarrow> CatchupSingleState \<Rightarrow> RequestState \<Rightarrow> PoolEvent option \<Rightarrow> bool" where
  "sync_outcome L c st ev \<longleftrightarrow>
    (case ev of
       None \<Rightarrow> st = CatchupSingle c
     | Some (Synced mt) \<Rightarrow> \<exists>ps. check_cons_proofs L mt ps (cs_target_mt_root c) (cs_target_mt_size c) = Inr ()
     | Some _ \<Rightarrow> False)"

lemma catchup_reply_checked:
  assumes "process_catchup_reply L d rep mt root sz = (d', Inr mt')"
  shows "\<exists>ps. check_cons_proofs L mt' ps root sz = Inr ()"
  using assms by (auto simp: process_catchup_reply_def bindr_Inr_iff split: sum.splits prod.splits)

lemma sync_step:
  assumes "sm_state sm = CatchupSingle c" "re \<noteq> TerminateEvent" "state_event L sp d sm re = (d', effs, Inr (st, ev))"
  shows "sync_outcome L c st ev"
  using assms
  by (cases "(L, d, sm, c, re)" rule: catchup_single_event.cases)
     (auto simp: state_event_def sync_outcome_def dest: catchup_reply_checked split: prod.splits sum.splits failure.splits)

section \<open>Any step\<close>

lemma start_outcome:
  assumes "start_event L d sm re = (d', effs, Inr (st, Some p))"
  shows "\<exists>mt. p = Synced mt"
  using assms
  by (cases re) (auto simp: start_full_def Let_def build_catchup_req_def
      split: option.splits sum.splits if_splits elim!: start_event.elims)

text \<open>The events a handler has for the pool.\<close>

fun is_catchup_event :: "PoolEvent \<Rightarrow> bool" where
  "is_catchup_event (CatchupTargetFound _ _ _) = True"
| "is_catchup_event (CatchupRestart _) = True"
| "is_catchup_event (CatchupTargetNotFound _) = True"
| "is_catchup_event (Synced _) = True"
| "is_catchup_event _ = False"

lemma handler_events:
  assumes "request_process_event L sp d h ore = (d1, effs, Inr (h', Some p))"
  shows "is_catchup_event p"
proof -
  obtain sm re st where st: "state_event L sp d sm re = (d1, effs, Inr (st, Some p))"
    using assms by (auto simp: request_process_event_def handle_event_def bindr_Inr_iff split: option.splits prod.splits)
  then have re: "asking (sm_state sm) \<Longrightarrow> False" using asks_event [of sm L sp d re] by (auto simp: asks_def)
  show ?thesis
  proof (cases "sm_state sm")
    case Start
    then show ?thesis using st start_outcome by (fastforce simp: state_event_def)
  next
    case (CatchupConsensus c)
    then have "re \<noteq> TerminateEvent" using st by (auto simp: state_event_def)
    from target_step [OF CatchupConsensus this st] show ?thesis by (cases p) (simp_all add: target_outcome_def)
  next
    case (CatchupSingle c)
    then have "re \<noteq> TerminateEvent" using st by (auto simp: state_event_def)
    from sync_step [OF CatchupSingle this st] show ?thesis by (cases p) (simp_all add: sync_outcome_def)
  qed (use re in simp_all)
qed

end
