(* ===== verification/Pool_Commands.thy ===== *)
theory Pool_Commands
  imports Pool_SM Request_Phases "HOL-Library.Multiset"
begin

text \<open>
  The commands of a pool and their acknowledgements. A step of the machine acknowledges, or goes on owing an answer to, no
  more than the commands it owed an answer to before and the command of its event. Commands are counted in multisets: a command
  handle that was used twice may be acknowledged twice.
\<close>

section \<open>Commands given, acknowledged and owed\<close>

fun command_of :: "PoolEvent \<Rightarrow> CommandHandle multiset" where
  "command_of (CheckCache c) = {#c#}"
| "command_of (Close c) = {#c#}"
| "command_of (Refresh c) = {#c#}"
| "command_of (SendRequest c _ _ _) = {#c#}"
| "command_of _ = {#}"

definition commands :: "(splibs \<times> PoolEvent) list \<Rightarrow> CommandHandle multiset" where
  "commands evs = sum_list (map (command_of \<circ> snd) evs)"

fun ack_of :: "pool_effect \<Rightarrow> CommandHandle multiset" where
  "ack_of (RequestEffect (SubmitAck c _)) = {#c#}"
| "ack_of (RequestEffect (ToNetworker _)) = {#}"
| "ack_of (OpenAck c _ _) = {#c#}"
| "ack_of (RefreshAck c _) = {#c#}"
| "ack_of (CloseAck c _) = {#c#}"

definition acknowledged :: "pool_effect list \<Rightarrow> CommandHandle multiset" where
  "acknowledged effs = sum_list (map ack_of effs)"

fun owed_by :: "handler \<Rightarrow> CommandHandle multiset" where
  "owed_by None = {#}"
| "owed_by (Some sm) = (if sm_state sm = Finish then {#} else mset (sm_cmd_ids sm))"

definition owed_by_all :: "(string \<times> handler) list \<Rightarrow> CommandHandle multiset" where
  "owed_by_all hs = sum_list (map (owed_by \<circ> snd) hs)"

fun owed :: "PoolState \<Rightarrow> CommandHandle multiset" where
  "owed (GettingCatchupTarget st) = {#ca_cmd_id st#} + owed_by (ca_handler st)"
| "owed (SyncCatchup st) = {#ca_cmd_id st#} + owed_by (ca_handler st)"
| "owed (Active st) = owed_by_all (ac_handlers st)"
| "owed _ = {#}"

lemma acknowledged_simps [simp]:
  "acknowledged [] = {#}" "acknowledged (e # effs) = ack_of e + acknowledged effs" "acknowledged (a @ b) = acknowledged a + acknowledged b"
  by (simp_all add: acknowledged_def)

lemma commands_simps [simp]:
  "commands [] = {#}" "commands ((sp, pe) # evs) = command_of pe + commands evs"
  by (simp_all add: commands_def)

lemma owed_by_all_simps [simp]: "owed_by_all [] = {#}" "owed_by_all (e # hs) = owed_by (snd e) + owed_by_all hs"
  by (simp_all add: owed_by_all_def)

lemma owed_new_handler [simp]: "owed_by (new_handler sm nodes ids) = mset ids"
  by (simp add: new_handler_def)

lemma acknowledged_requests: "acknowledged (map RequestEffect effs) = acknowledged (map RequestEffect (acks effs))"
proof (induction effs)
  case (Cons e effs)
  then show ?case by (cases e) simp_all
qed simp

lemma acknowledged_send_replies [simp]: "acknowledged (map RequestEffect (send_replies ids m)) = mset ids"
  by (induction ids) (simp_all add: send_replies_def)

section \<open>A step\<close>

definition accounts :: "CommandHandle multiset \<Rightarrow> pool_handled \<Rightarrow> bool" where
  "accounts M h \<longleftrightarrow> (case h of (d, effs, r) \<Rightarrow> acknowledged effs + (case r of Inr st \<Rightarrow> owed st | Inl _ \<Rightarrow> {#}) \<subseteq># M)"

lemma accounts_simps [simp]:
  "accounts M (d, effs, Inr st) \<longleftrightarrow> acknowledged effs + owed st \<subseteq># M"
  "accounts M (d, effs, Inl e) \<longleftrightarrow> acknowledged effs \<subseteq># M"
  by (simp_all add: accounts_def)

lemma accounts_mono: "accounts M h \<Longrightarrow> M \<subseteq># M' \<Longrightarrow> accounts M' h"
  by (auto simp: accounts_def split: prod.splits intro: subset_mset.trans)

lemma accounts_after: "accounts M h \<Longrightarrow> acknowledged effs + M = M' \<Longrightarrow> accounts M' (after effs h)"
proof -
  assume a: "accounts M h" "acknowledged effs + M = M'"
  obtain d effs' r where "h = (d, effs', r)" by (rule prod_cases3)
  then show ?thesis using a by (auto simp: accounts_def add.assoc)
qed

lemma request_step_owed:
  assumes "request_process_event L sp d h ore = (d1, effs, r)"
  shows "acknowledged (map RequestEffect effs) + (case r of Inr (h', _) \<Rightarrow> owed_by h' | Inl _ \<Rightarrow> {#}) \<subseteq># owed_by h"
proof (cases ore)
  case None
  then show ?thesis using assms by (auto simp: request_process_event_def)
next
  case ore: (Some re)
  show ?thesis
  proof (cases h)
    case None
    then show ?thesis using assms ore by (auto simp: request_process_event_def)
  next
    case h: (Some sm)
    obtain d2 effs2 r2 where st: "state_event L sp d sm re = (d2, effs2, r2)" by (rule prod_cases3)
    have eq: "effs = effs2" "r = bindr r2 (\<lambda>(st, ev). Inr (Some (sm\<lparr>sm_state := st\<rparr>), ev))"
      using assms ore h st by (auto simp: request_process_event_def handle_event_def bindr_assoc case_prod_unfold)
    show ?thesis
    proof (cases "sm_state sm = Finish")
      case True
      then have "effs2 = []" "r2 = Inr (Finish, None)" using st by (simp_all add: state_event_def)
      then show ?thesis using eq by simp
    next
      case False
      from good_event [OF this, of L sp d re] show ?thesis
        using st eq h False by (cases r2) (auto simp: acknowledged_requests [of effs2] step_outcome_def split: prod.splits)
    qed
  qed
qed

lemma is_catchup_event_command: "is_catchup_event p \<Longrightarrow> command_of p = {#}"
  by (cases p) simp_all

lemma accounts_process:
  assumes "\<And>d1 h' ev. \<forall>p. ev = Some p \<longrightarrow> command_of p = {#} \<Longrightarrow> accounts (M + owed_by h') (k d1 h' ev)" "N = M + owed_by h"
  shows "accounts N (process P sp d h ore k)"
proof -
  obtain d1 effs r where pe: "request_process_event (po_plibs P) sp d h ore = (d1, effs, r)" by (rule prod_cases3)
  note step = request_step_owed [OF pe]
  show ?thesis
  proof (cases r)
    case (Inl e)
    then show ?thesis using pe step assms(2) by (auto simp: process_def intro: subset_mset.trans [OF step] subset_mset.add_increasing)
  next
    case (Inr x)
    obtain h' ev where x: "x = (h', ev)" by force
    have "\<forall>p. ev = Some p \<longrightarrow> command_of p = {#}"
      using pe Inr x handler_events [of "po_plibs P" sp d h ore d1 effs h'] is_catchup_event_command by blast
    from accounts_after [OF assms(1) [OF this] refl]
    have "accounts (acknowledged (map RequestEffect effs) + (M + owed_by h')) (after (map RequestEffect effs) (k d1 h' ev))" .
    moreover have "acknowledged (map RequestEffect effs) + (M + owed_by h') \<subseteq># N"
      using step Inr x assms(2) by (simp add: add.left_commute)
    ultimately show ?thesis using pe Inr x by (auto simp: process_def intro: accounts_mono)
  qed
qed

lemma accounts_ledger_status:
  assumes "\<And>e effs st. k (Inl e) = (effs, st) \<Longrightarrow> acknowledged effs + owed st \<subseteq># M"
    and "\<And>h effs st. k (Inr h) = (effs, st) \<Longrightarrow> acknowledged effs + owed st \<subseteq># M + owed_by h"
  shows "accounts M (with_ledger_status_sent P sp d sm k)"
proof -
  obtain d1 r where t: "tree_and_nodes P d = (d1, r)" by force
  show ?thesis
  proof (cases r)
    case (Inl e)
    then show ?thesis using t assms(1) by (cases e) (auto simp: with_ledger_status_sent_def split: prod.splits)
  next
    case (Inr x)
    obtain merkle nodes remotes where x: "x = (merkle, nodes, remotes)" by (metis surj_pair)
    have "accounts M (process P sp d1 (new_handler sm nodes []) ore (\<lambda>d2 h _. case k (Inr h) of (effs, st) \<Rightarrow> (d2, effs, Inr st)))" for ore
      by (rule accounts_process) (auto simp: assms(2) split: prod.splits)
    from accounts_after [OF this] show ?thesis using t Inr x by (simp add: with_ledger_status_sent_def)
  qed
qed

lemma accounts_with_nodes:
  assumes "\<And>nodes. accounts M (k nodes)"
  shows "accounts M (with_nodes P d merkle k)"
  using accounts_after [OF assms] by (auto simp: with_nodes_def split: sum.splits failure.splits)

lemma accounts_activate: "{#ca_cmd_id st#} \<subseteq># M \<Longrightarrow> accounts M (activate P d sm st merkle)"
  unfolding activate_def by (rule accounts_with_nodes) (auto simp: send_open_refresh_ack_def)

lemma accounts_close_catching: "accounts ({#c#} + ({#ca_cmd_id st#} + owed_by (ca_handler st))) (close_catching P sp d st c)"
  unfolding close_catching_def
  by (rule accounts_after [OF accounts_process [OF _ refl, where M = "{#ca_cmd_id st#}"]]) (simp_all add: close_pool_ack_def)

lemma accounts_terminate_all: "accounts (owed_by_all hs) (terminate_all P sp d (map snd hs))"
proof (induction hs arbitrary: d)
  case (Cons h hs)
  show ?case
    by (simp, rule accounts_process [where M = "owed_by_all hs"]) (auto intro: accounts_mono [OF Cons])
qed simp

lemma owed_by_all_upsert:
  "owed_by_all (upsert k (\<lambda>_. h) h hs) + (case map_of hs k of Some h0 \<Rightarrow> owed_by h0 | None \<Rightarrow> {#}) = owed_by_all hs + owed_by h"
  by (induction hs) (auto simp: ac_simps)

lemma owed_by_all_upsert_le: "owed_by_all (upsert k (\<lambda>_. h) h hs) \<subseteq># owed_by_all hs + owed_by h"
  unfolding owed_by_all_upsert [of k h hs, symmetric] by simp

lemma owed_by_all_remove:
  "map_of hs k = Some h0 \<Longrightarrow> owed_by_all (filter (\<lambda>e. fst e \<noteq> k) hs) + owed_by h0 \<subseteq># owed_by_all hs"
proof (induction hs)
  case (Cons e hs)
  have le: "owed_by_all (filter (\<lambda>e. fst e \<noteq> k) xs) \<subseteq># owed_by_all xs" for xs :: "(string \<times> handler) list"
    by (induction xs) (auto intro: subset_mset.add_increasing)
  show ?case using Cons le [of hs] by (auto simp: add.assoc add.commute split: if_splits)
qed simp

lemma accounts_active:
  "accounts (owed (Active st) + command_of pe) (active_event P sp d sm st pe)"
proof (cases "(P, sp, d, sm, st, pe)" rule: active_event.cases)
  case (2 P sp d sm st c)
  have "accounts (owed (Active st) + {#c#}) (after (close_pool_ack c) (terminate_all P sp d (map snd (ac_handlers st))))"
    by (rule accounts_after [OF accounts_terminate_all]) (simp add: close_pool_ack_def)
  then show ?thesis using 2 by simp
next
  case (3 P sp d sm st c)
  then show ?thesis by (simp, intro accounts_ledger_status) auto
next
  case (4 P sp d sm st c msg t ns)
  show ?thesis
  proof (cases "request_event P msg t ns")
    case None
    then show ?thesis using 4 by (simp add: active_send_def send_submit_ack_def)
  next
    case (Some r)
    then show ?thesis using 4
      by (simp add: active_send_def) (rule accounts_process [where M = "owed_by_all (ac_handlers st)"], simp_all add: owed_by_all_upsert_le)
  qed
next
  case (5 P sp d sm st reply node)
  have "accounts (owed_by_all (ac_handlers st)) (active_reply P sp d st re)" for re
  proof (cases "re = None \<or> map_of (ac_handlers st) (get_req_id (the re)) = None")
    case True
    then show ?thesis by (auto simp: active_reply_def split: option.splits)
  next
    case False
    then obtain r rh where re: "re = Some r" "map_of (ac_handlers st) (get_req_id r) = Some rh" by auto
    define M where "M = owed_by_all (ac_handlers st) - owed_by rh"
    have M: "owed_by_all (ac_handlers st) = M + owed_by rh"
      using owed_by_all_remove [OF re(2)] unfolding M_def by (metis subset_mset.add_diff_inverse add.commute mset_subset_eq_add_right subset_mset.trans)
    have "owed_by_all (upsert (get_req_id r) (\<lambda>_. h) h (ac_handlers st)) = M + owed_by h" for h
      using owed_by_all_upsert [of "get_req_id r" h "ac_handlers st"] re(2) M by simp
    moreover have "owed_by_all (remove_handler (get_req_id r) (ac_handlers st)) \<subseteq># M"
      using owed_by_all_remove [OF re(2)] M by simp
    ultimately show ?thesis using re unfolding active_reply_def
      by simp (rule accounts_process [OF _ M], auto intro: subset_mset.add_increasing2)
  qed
  then show ?thesis using 5 by simp
next
  case (6 P sp d sm st i a)
  show ?thesis
  proof (cases "map_of (ac_handlers st) i")
    case None
    then show ?thesis using 6 by (simp add: active_timeout_def)
  next
    case (Some rh)
    define M where "M = owed_by_all (ac_handlers st) - owed_by rh"
    have M: "owed_by_all (ac_handlers st) = M + owed_by rh"
      using owed_by_all_remove [OF Some] unfolding M_def by (metis subset_mset.add_diff_inverse add.commute mset_subset_eq_add_right subset_mset.trans)
    have "owed_by_all (upsert i (\<lambda>_. h) h (ac_handlers st)) = M + owed_by h" for h
      using owed_by_all_upsert [of i h "ac_handlers st"] Some M by simp
    then show ?thesis using Some 6 by (simp add: active_timeout_def) (rule accounts_process [OF _ M], simp)
  qed
qed simp_all

lemma accounts_catching:
  "accounts ({#ca_cmd_id st#} + owed_by (ca_handler st) + command_of pe) (target_event P sp d sm st pe)"
  "accounts ({#ca_cmd_id st#} + owed_by (ca_handler st) + command_of pe) (sync_event P sp d sm st pe)"
proof -
  show "accounts ({#ca_cmd_id st#} + owed_by (ca_handler st) + command_of pe) (target_event P sp d sm st pe)"
  proof (cases "(P, sp, d, sm, st, pe)" rule: target_event.cases)
    case (1 P sp d sm st c)
    then show ?thesis using accounts_close_catching [of c st P sp d] by (simp add: add_mset_commute)
  next
    case (3 P sp d sm st merkle)
    then show ?thesis
      by (simp, intro accounts_with_nodes accounts_process [where M = "add_mset (ca_cmd_id st) (owed_by (ca_handler st))"]) simp_all
  next
    case (4 P sp d sm st root sz merkle)
    then show ?thesis
      by (simp, intro accounts_with_nodes accounts_process [where M = "add_mset (ca_cmd_id st) (owed_by (ca_handler st))"]) simp_all
  qed (simp_all add: send_open_refresh_ack_def accounts_activate)
  show "accounts ({#ca_cmd_id st#} + owed_by (ca_handler st) + command_of pe) (sync_event P sp d sm st pe)"
  proof (cases "(P, sp, d, sm, st, pe)" rule: sync_event.cases)
    case (1 P sp d sm st c)
    then show ?thesis using accounts_close_catching [of c st P sp d] by (simp add: add_mset_commute)
  qed (simp_all add: accounts_activate)
qed

lemma accounts_state_event: "accounts (owed (pl_state sm) + command_of pe) (pool_state_event P sp d sm pe)"
proof (cases "pl_state sm")
  case Initialization
  then show ?thesis
    by (cases "(P, sp, d, sm, pe)" rule: init_event.cases)
       (auto simp: pool_state_event_def close_pool_ack_def intro!: accounts_ledger_status)
next
  case Terminated
  then show ?thesis
    by (cases "(P, sp, d, sm, pe)" rule: terminated_event.cases)
       (auto simp: pool_state_event_def close_pool_ack_def intro!: accounts_ledger_status)
next
  case (GettingCatchupTarget st)
  have k: "accounts ({#ca_cmd_id st#} + command_of pe + owed_by h) (target_event P sp d1 sm (st\<lparr>ca_handler := h\<rparr>) (unwrap_event ev pe))"
    if "\<forall>p. ev = Some p \<longrightarrow> command_of p = {#}" for d1 h ev
    using that by (intro accounts_mono [OF accounts_catching(1)]) (auto simp: unwrap_event_def split: option.splits)
  show ?thesis using GettingCatchupTarget
    by (simp add: pool_state_event_def) (rule accounts_process [OF k], simp_all)
next
  case (SyncCatchup st)
  have k: "accounts ({#ca_cmd_id st#} + command_of pe + owed_by h) (sync_event P sp d1 sm (st\<lparr>ca_handler := h\<rparr>) (unwrap_event ev pe))"
    if "\<forall>p. ev = Some p \<longrightarrow> command_of p = {#}" for d1 h ev
    using that by (intro accounts_mono [OF accounts_catching(2)]) (auto simp: unwrap_event_def split: option.splits)
  show ?thesis using SyncCatchup
    by (simp add: pool_state_event_def) (rule accounts_process [OF k], simp_all)
next
  case (Active st)
  then show ?thesis using accounts_active [of st pe P sp d sm] by (simp add: pool_state_event_def)
next
  case Closed
  then show ?thesis by (simp add: pool_state_event_def)
qed

section \<open>Runs\<close>

lemma pool_step_accounts:
  assumes "pool_handle_event P sp d sm pe = (d', effs, r)"
  shows "acknowledged effs + (case r of Inr sm' \<Rightarrow> owed (pl_state sm') | Inl _ \<Rightarrow> {#}) \<subseteq># owed (pl_state sm) + command_of pe"
  using accounts_state_event [of sm pe P sp d] assms
  by (auto simp: pool_handle_event_def accounts_def split: prod.splits sum.splits)

lemma pool_loop_accounts:
  "pool_loop P d sm evs = (d', effs, r) \<Longrightarrow>
    acknowledged effs + (case r of Inr sm' \<Rightarrow> owed (pl_state sm') | Inl _ \<Rightarrow> {#}) \<subseteq># owed (pl_state sm) + commands evs"
proof (induction evs arbitrary: d sm effs)
  case (Cons e evs)
  obtain sp pe where e: "e = (sp, pe)" by force
  obtain d1 effs1 r1 where h: "pool_handle_event P sp d sm pe = (d1, effs1, r1)" by (rule prod_cases3)
  note step = pool_step_accounts [OF h]
  show ?case
  proof (cases r1)
    case (Inl x)
    then have "effs = effs1" "r = Inl x" using Cons.prems h e by simp_all
    then have "acknowledged effs \<subseteq># owed (pl_state sm) + command_of pe" using step Inl by simp
    also have "\<dots> \<subseteq># owed (pl_state sm) + commands (e # evs)" by (simp add: e)
    finally show ?thesis using \<open>r = Inl x\<close> by simp
  next
    case (Inr sm1)
    obtain effs2 where l: "pool_loop P d1 sm1 evs = (d', effs2, r)" "effs = effs1 @ effs2"
      using Cons.prems h e Inr by (auto split: prod.splits)
    let ?M = "case r of Inr sm' \<Rightarrow> owed (pl_state sm') | Inl _ \<Rightarrow> {#}"
    have "acknowledged effs + ?M = acknowledged effs1 + (acknowledged effs2 + ?M)" by (simp add: l(2) add.assoc)
    also have "\<dots> \<subseteq># acknowledged effs1 + (owed (pl_state sm1) + commands evs)" using Cons.IH [OF l(1)] by simp
    also have "\<dots> = acknowledged effs1 + owed (pl_state sm1) + commands evs" by (simp add: add.assoc)
    also have "\<dots> \<subseteq># owed (pl_state sm) + command_of pe + commands evs" using step Inr by simp
    finally show ?thesis by (simp add: e add.assoc)
  qed
qed auto

end
