(* ===== verification/Pool_Runs.thy ===== *)
theory Pool_Runs
  imports Pool_Commands
begin

text \<open>
  Runs of the machine of a pool. An invariant of the events seen so far and the state is preserved by every step and bounds
  what the steps acknowledge; the contract is a locale, with the lemma that carries it over a run.
\<close>

section \<open>Contracts of steps\<close>

text \<open>The events that \<^verbatim>\<open>_poll\<close> fetches: those of the networker and the commander, and timeouts.\<close>

fun fetched :: "PoolEvent \<Rightarrow> bool" where
  "fetched (CheckCache _) = True"
| "fetched (NodeReply _ _) = True"
| "fetched (Close _) = True"
| "fetched (Refresh _) = True"
| "fetched (SendRequest _ _ _ _) = True"
| "fetched (PoolEventTimeout _ _) = True"
| "fetched _ = False"

type_synonym history = "(splibs \<times> PoolEvent) list"

text \<open>
  The ledgers that a directory holds: the one it caches or, with the cache dropped, that of the genesis file. The ledgers
  that the directory of the pool held at some moment of a run.
\<close>

definition loaded :: "poollibs \<Rightarrow> PoolDir \<Rightarrow> MerkleTree \<Rightarrow> bool" where
  "loaded P d mt \<longleftrightarrow> create (po_plibs P) d = Inr mt \<or> (\<exists>d1. drop_cache d = (d1, Inr ()) \<and> create (po_plibs P) d1 = Inr mt)"

definition held :: "poollibs \<Rightarrow> PoolDir \<Rightarrow> PoolSM \<Rightarrow> history \<Rightarrow> MerkleTree \<Rightarrow> bool" where
  "held P d sm evs mt \<longleftrightarrow>
    (\<exists>evs0 evs1 d0 effs0 sm0. evs = evs0 @ evs1 \<and> pool_loop P d sm evs0 = (d0, effs0, Inr sm0) \<and> loaded P d0 mt)"

lemma held_now: "loaded P d mt \<Longrightarrow> held P d sm evs mt"
  unfolding held_def by (rule exI [of _ "[]"]) simp

lemma held_later:
  assumes "pool_handle_event P sp d sm pe = (d1, effs, Inr sm1)" "held P d1 sm1 evs mt"
  shows "held P d sm ((sp, pe) # evs) mt"
proof -
  obtain evs0 evs1 d0 effs0 sm0 where "evs = evs0 @ evs1" "pool_loop P d1 sm1 evs0 = (d0, effs0, Inr sm0)" "loaded P d0 mt"
    using assms(2) unfolding held_def by blast
  then show ?thesis using assms(1) unfolding held_def by (intro exI [of _ "(sp, pe) # evs0"] exI [of _ evs1]) auto
qed

text \<open>
  \<open>Good\<close> is kept by every step as long as the ledgers in the directory are \<open>Known\<close>; \<open>Emits\<close> says of an effect what backs it, given
  the events up to the step that makes it and the state before that step.
\<close>

locale pool_contract =
  fixes P :: poollibs
    and Known :: "MerkleTree \<Rightarrow> bool"
    and Good :: "history \<Rightarrow> PoolState \<Rightarrow> bool"
    and Emits :: "history \<Rightarrow> PoolState \<Rightarrow> pool_effect \<Rightarrow> bool"
  assumes step: "Good hist (pl_state sm) \<Longrightarrow> fetched pe \<Longrightarrow> \<forall>mt. loaded P d mt \<longrightarrow> Known mt \<Longrightarrow>
      pool_state_event P sp d sm pe = (d', effs, r) \<Longrightarrow>
      list_all (Emits (hist @ [(sp, pe)]) (pl_state sm)) effs \<and> (\<forall>st. r = Inr st \<longrightarrow> Good (hist @ [(sp, pe)]) st)"
begin

lemma run_keeps:
  "Good hist (pl_state sm) \<Longrightarrow> \<forall>e\<in>set evs. fetched (snd e) \<Longrightarrow> \<forall>mt. held P d sm evs mt \<longrightarrow> Known mt \<Longrightarrow>
    pool_loop P d sm evs = (d', effs, Inr sm') \<Longrightarrow> Good (hist @ evs) (pl_state sm')"
proof (induction evs arbitrary: hist d sm effs)
  case (Cons e evs)
  obtain sp pe where e: "e = (sp, pe)" by force
  obtain d1 effs1 r1 where h: "pool_state_event P sp d sm pe = (d1, effs1, r1)" by (rule prod_cases3)
  obtain st where st: "r1 = Inr st" using Cons.prems(4) h by (cases r1) (auto simp: e pool_handle_event_def)
  let ?sm = "sm\<lparr>pl_state := st\<rparr>"
  have hd: "pool_handle_event P sp d sm pe = (d1, effs1, Inr ?sm)" using h st by (simp add: pool_handle_event_def)
  obtain effs2 where l: "pool_loop P d1 ?sm evs = (d', effs2, Inr sm')" using Cons.prems(4) hd by (auto simp: e split: prod.splits)
  have "\<forall>mt. loaded P d mt \<longrightarrow> Known mt" using Cons.prems(3) held_now by blast
  from step [OF Cons.prems(1) _ this h] Cons.prems(2) have "Good (hist @ [e]) (pl_state ?sm)" by (simp add: e st)
  moreover have "\<forall>mt. held P d1 ?sm evs mt \<longrightarrow> Known mt" using Cons.prems(3) held_later [OF hd] unfolding e by blast
  ultimately show ?case using Cons.IH [of "hist @ [e]" ?sm d1 effs2] l Cons.prems(2) by simp
qed simp

lemma run_emits:
  "Good hist (pl_state sm) \<Longrightarrow> \<forall>e\<in>set evs. fetched (snd e) \<Longrightarrow> \<forall>mt. held P d sm evs mt \<longrightarrow> Known mt \<Longrightarrow>
    pool_loop P d sm evs = (d', effs, r) \<Longrightarrow> x \<in> set effs \<Longrightarrow>
    \<exists>evs1 sp pe evs2 d1 effs1 sm1. evs = evs1 @ (sp, pe) # evs2 \<and> pool_loop P d sm evs1 = (d1, effs1, Inr sm1) \<and>
      x \<in> set (fst (snd (pool_handle_event P sp d1 sm1 pe))) \<and> Emits (hist @ evs1 @ [(sp, pe)]) (pl_state sm1) x"
proof (induction evs arbitrary: hist d sm effs)
  case (Cons e evs)
  obtain sp pe where e: "e = (sp, pe)" by force
  obtain d1 effs1 r1 where h: "pool_state_event P sp d sm pe = (d1, effs1, r1)" by (rule prod_cases3)
  have "\<forall>mt. loaded P d mt \<longrightarrow> Known mt" using Cons.prems(3) held_now by blast
  from step [OF Cons.prems(1) _ this h] Cons.prems(2)
  have s: "list_all (Emits (hist @ [e]) (pl_state sm)) effs1" "\<And>st. r1 = Inr st \<Longrightarrow> Good (hist @ [e]) st" by (simp_all add: e)
  show ?case
  proof (cases "x \<in> set effs1")
    case True
    then show ?thesis using s(1) h by (intro exI [of _ "[]"] exI [of _ sp] exI [of _ pe] exI [of _ evs]) (auto simp: e list_all_iff pool_handle_event_def)
  next
    case False
    then obtain st effs2 where st: "r1 = Inr st" "pool_loop P d1 (sm\<lparr>pl_state := st\<rparr>) evs = (d', effs2, r)" "x \<in> set effs2"
      using Cons.prems(4,5) h by (cases r1) (auto simp: e pool_handle_event_def split: prod.splits)
    let ?sm = "sm\<lparr>pl_state := st\<rparr>"
    have hd: "pool_handle_event P sp d sm pe = (d1, effs1, Inr ?sm)" using h st(1) by (simp add: pool_handle_event_def)
    have "\<forall>mt. held P d1 ?sm evs mt \<longrightarrow> Known mt" using Cons.prems(3) held_later [OF hd] unfolding e by blast
    moreover have "Good (hist @ [e]) (pl_state ?sm)" using s(2) st(1) by simp
    ultimately obtain evs1 sp' pe' evs2 d2 effs3 sm2 where t: "evs = evs1 @ (sp', pe') # evs2"
        "pool_loop P d1 ?sm evs1 = (d2, effs3, Inr sm2)" "x \<in> set (fst (snd (pool_handle_event P sp' d2 sm2 pe')))"
        "Emits (hist @ e # evs1 @ [(sp', pe')]) (pl_state sm2) x"
      using Cons.IH [of "hist @ [e]" ?sm d1 effs2] st(2,3) Cons.prems(2) by auto
    then show ?thesis using hd by (intro exI [of _ "e # evs1"] exI [of _ sp'] exI [of _ pe'] exI [of _ evs2]) (auto simp: e)
  qed
qed simp

end

section \<open>What a pool keeps\<close>

text \<open>The events of a request, among those of the pool.\<close>

definition request_events :: "poollibs \<Rightarrow> history \<Rightarrow> (splibs \<times> RequestEvent) list" where
  "request_events P hist = List.map_filter (\<lambda>(sp, pe). map_option (Pair sp) (into_request_event P pe)) hist"

definition concerns :: "string \<Rightarrow> RequestEvent \<Rightarrow> bool" where
  "concerns i re \<longleftrightarrow> get_req_id re = i \<or> (\<exists>a. re = TimeoutEvent i a)"

definition events_of :: "poollibs \<Rightarrow> string \<Rightarrow> history \<Rightarrow> (splibs \<times> RequestEvent) list" where
  "events_of P i hist = filter (concerns i \<circ> snd) (request_events P hist)"

text \<open>A command that asked for the request with this number; and whether one that goes to all nodes did.\<close>

definition asked :: "poollibs \<Rightarrow> history \<Rightarrow> string \<Rightarrow> CommandHandle \<Rightarrow> bool" where
  "asked P hist i c \<longleftrightarrow> (\<exists>sp msg t ns re. (sp, SendRequest c msg t ns) \<in> set hist \<and> request_event P msg t ns = Some re \<and> get_req_id re = i)"

definition full_asked :: "poollibs \<Rightarrow> history \<Rightarrow> string \<Rightarrow> bool" where
  "full_asked P hist i \<longleftrightarrow> (\<exists>e\<in>set (events_of P i hist). \<exists>m t ns. snd e = CustomFullRequest m i t ns)"

text \<open>Nodes that the transactions of some tree describe.\<close>

definition nodes_of :: "poollibs \<Rightarrow> MerkleTree \<Rightarrow> Nodes \<Rightarrow> bool" where
  "nodes_of P mt nodes \<longleftrightarrow> (\<exists>remotes. get_nodes_and_remotes (po_nlibs P) mt = Inr (nodes, remotes))"

text \<open>A tree that more than \<open>f\<close> nodes reported, or that a consistency proof relates to a tree they reported.\<close>

definition tree_agreed :: "poollibs \<Rightarrow> history \<Rightarrow> nat \<Rightarrow> MerkleTree \<Rightarrow> bool" where
  "tree_agreed P hist f mt \<longleftrightarrow>
    (\<exists>hs. f < card (status_voters (request_events P hist) (pb_to_base58 (po_plibs P) (root_hash mt), mt_count mt, hs))) \<or>
    (\<exists>root r sz hs ps. f < card (status_voters (request_events P hist) (root, sz, hs)) \<and> pb_from_base58 (po_plibs P) root = Some r \<and>
      check_cons_proofs (po_plibs P) mt ps r sz = Inr ())"

definition target_agreed :: "poollibs \<Rightarrow> (MerkleTree \<Rightarrow> bool) \<Rightarrow> history \<Rightarrow> bytes \<Rightarrow> nat \<Rightarrow> bool" where
  "target_agreed P K hist root sz \<longleftrightarrow>
    (\<exists>mt nodes t. K mt \<and> nodes_of P mt nodes \<and> agreed (po_plibs P) (get_f (length nodes)) (request_events P hist) (CatchupTargetFound root sz t))"

text \<open>
  Nodes that the transactions of a tree describe on which more than \<open>f\<close> nodes agreed, with the \<open>f\<close> of the nodes of a ledger
  that was known before.
\<close>

definition synced_nodes :: "poollibs \<Rightarrow> (MerkleTree \<Rightarrow> bool) \<Rightarrow> history \<Rightarrow> Nodes \<Rightarrow> bool" where
  "synced_nodes P K hist nodes \<longleftrightarrow>
    (\<exists>mt0 nodes0 mt. K mt0 \<and> nodes_of P mt0 nodes0 \<and> tree_agreed P hist (get_f (length nodes0)) mt \<and> nodes_of P mt nodes)"

definition handles :: "poollibs \<Rightarrow> history \<Rightarrow> Nodes \<Rightarrow> string \<times> handler \<Rightarrow> bool" where
  "handles P hist nodes e \<longleftrightarrow>
    (case e of (i, h) \<Rightarrow> \<exists>sm c. h = Some sm \<and> sm_nodes sm = nodes \<and> sm_f sm = get_f (length nodes) \<and> sm_cmd_ids sm = [c] \<and>
      asked P hist i c \<and> asking (sm_state sm) \<and>
      (full_asked P hist i \<or> backing (po_plibs P) (events_of P i hist) (sm_state sm)))"

definition pool_good :: "poollibs \<Rightarrow> (MerkleTree \<Rightarrow> bool) \<Rightarrow> history \<Rightarrow> PoolState \<Rightarrow> bool" where
  "pool_good P K hist st \<longleftrightarrow>
    (case st of
       GettingCatchupTarget c \<Rightarrow>
         (\<exists>sm cc mt. ca_handler c = Some sm \<and> sm_cmd_ids sm = [] \<and> sm_state sm = CatchupConsensus cc \<and>
           K mt \<and> nodes_of P mt (sm_nodes sm) \<and> sm_f sm = get_f (length (sm_nodes sm)) \<and> voted (request_events P hist) (cc_replies cc))
     | SyncCatchup c \<Rightarrow>
         (\<exists>sm cs. ca_handler c = Some sm \<and> sm_cmd_ids sm = [] \<and> sm_state sm = CatchupSingle cs \<and>
           target_agreed P K hist (cs_target_mt_root cs) (cs_target_mt_size cs))
     | Active a \<Rightarrow> synced_nodes P K hist (ac_nodes a) \<and> list_all (handles P hist (ac_nodes a)) (ac_handlers a)
     | _ \<Rightarrow> True)"

text \<open>An answer is given by an active pool, and backed by its nodes.\<close>

definition emits :: "poollibs \<Rightarrow> history \<Rightarrow> PoolState \<Rightarrow> pool_effect \<Rightarrow> bool" where
  "emits P hist s0 e \<longleftrightarrow>
    (case e of
       RequestEffect (SubmitAck c (Inr m)) \<Rightarrow>
         \<exists>i a. s0 = Active a \<and> asked P hist i c \<and>
           (full_asked P hist i \<or> backed (po_plibs P) (ac_nodes a) (get_f (length (ac_nodes a))) (events_of P i hist) m)
     | _ \<Rightarrow> True)"

lemma request_events_append [simp]: "request_events P (a @ b) = request_events P a @ request_events P b"
  by (simp add: request_events_def map_filter_def)

lemma request_events_one [simp]:
  "request_events P [(sp, pe)] = (case into_request_event P pe of Some re \<Rightarrow> [(sp, re)] | None \<Rightarrow> [])"
  by (simp add: request_events_def map_filter_def split: option.split)

lemma events_of_later: "set (events_of P i hist) \<subseteq> set (events_of P i (hist @ evs))"
  by (auto simp: events_of_def)

lemma events_of_last: "into_request_event P pe = Some re \<Longrightarrow> concerns i re \<Longrightarrow> (sp, re) \<in> set (events_of P i (hist @ [(sp, pe)]))"
  by (simp add: events_of_def)

lemma asked_later: "asked P hist i c \<Longrightarrow> asked P (hist @ evs) i c"
  unfolding asked_def by fastforce

lemma full_asked_later: "full_asked P hist i \<Longrightarrow> full_asked P (hist @ evs) i"
  using events_of_later [of P i hist evs] unfolding full_asked_def by blast

lemma tree_agreed_later: "tree_agreed P hist f mt \<Longrightarrow> tree_agreed P (hist @ evs) f mt"
proof -
  have "f < card (status_voters (request_events P (hist @ evs)) k)" if "f < card (status_voters (request_events P hist) k)" for k
    using that card_status_voters_mono [of "request_events P hist" "request_events P (hist @ evs)" k] by simp
  then show "tree_agreed P hist f mt \<Longrightarrow> tree_agreed P (hist @ evs) f mt" unfolding tree_agreed_def by blast
qed

lemma synced_nodes_later: "synced_nodes P K hist nodes \<Longrightarrow> synced_nodes P K (hist @ evs) nodes"
  unfolding synced_nodes_def using tree_agreed_later by blast

lemma target_agreed_later: "target_agreed P K hist root sz \<Longrightarrow> target_agreed P K (hist @ evs) root sz"
  unfolding target_agreed_def using agreed_mono [of "po_plibs P" _ "request_events P hist" _ "request_events P (hist @ evs)"] by fastforce

lemma target_tree_agreed:
  assumes "target_agreed P K hist root sz" "check_cons_proofs (po_plibs P) mt ps root sz = Inr ()"
  obtains mt0 nodes where "K mt0" "nodes_of P mt0 nodes" "tree_agreed P hist (get_f (length nodes)) mt"
proof -
  obtain mt0 nodes t where n: "K mt0" "nodes_of P mt0 nodes"
      "agreed (po_plibs P) (get_f (length nodes)) (request_events P hist) (CatchupTargetFound root sz t)"
    using assms(1) unfolding target_agreed_def by blast
  then have "tree_agreed P hist (get_f (length nodes)) mt" using assms(2) unfolding tree_agreed_def agreed_def by simp blast
  with n(1,2) show thesis by (rule that)
qed

lemma handles_later: "handles P hist nodes e \<Longrightarrow> handles P (hist @ evs) nodes e"
  unfolding handles_def using asked_later full_asked_later backing_mono [OF _ events_of_later] by (fastforce split: prod.splits)

section \<open>Steps of a handler\<close>

lemma request_process_Some:
  "request_process_event L sp d (Some sm) (Some re) =
    (case state_event L sp d sm re of (d', effs, r) \<Rightarrow> (d', effs, bindr r (\<lambda>(st, ev). Inr (Some (sm\<lparr>sm_state := st\<rparr>), ev))))"
  by (simp add: request_process_event_def handle_event_def bindr_assoc case_prod_unfold)

lemma only_own_acks:
  assumes "state_event L sp d sm re = (d', effs, r)" "SubmitAck c m \<in> set effs"
  shows "c \<in> set (sm_cmd_ids sm)"
proof (cases "sm_state sm = Finish")
  case True
  then show ?thesis using assms by (simp add: state_event_def)
next
  case False
  have "SubmitAck c m \<in> set (acks effs)" using assms(2) by (simp add: acks_def)
  then show ?thesis using good_event [OF False, of L sp d re] assms(1)
    by (cases r) (auto simp: step_outcome_def send_replies_def)
qed

lemma terminate_effects:
  assumes "state_event L sp d sm TerminateEvent = (d', effs, r)"
  shows "(effs = [] \<or> effs = finish_request (sm_cmd_ids sm)) \<and> (\<exists>st. r = Inr (st, None))"
  using assms by (cases "sm_state sm") (auto simp: state_event_def)

abbreviation emits_all :: "poollibs \<Rightarrow> history \<Rightarrow> PoolState \<Rightarrow> effect list \<Rightarrow> bool" where
  "emits_all P hist s0 effs \<equiv> list_all (emits P hist s0) (map RequestEffect effs)"

lemma emits_simps [simp]:
  "emits P hist s0 (notify n)" "emits P hist s0 (OpenAck c i u)" "emits P hist s0 (RefreshAck c u)" "emits P hist s0 (CloseAck c u)"
  "emits P hist s0 (RequestEffect (SubmitAck c (Inl x)))"
  by (simp_all add: emits_def)

lemma emits_allI: "(\<And>c m. SubmitAck c (Inr m) \<in> set effs \<Longrightarrow> emits P hist s0 (RequestEffect (SubmitAck c (Inr m)))) \<Longrightarrow> emits_all P hist s0 effs"
proof (induction effs)
  case (Cons e effs)
  show ?case
  proof (cases e)
    case (SubmitAck c x)
    then show ?thesis using Cons by (cases x) auto
  qed (use Cons in auto)
qed simp

lemma emits_terminate:
  assumes "request_process_event L sp d h (Some TerminateEvent) = (d', effs, r)"
  shows "emits_all P hist s0 effs" "\<exists>x. r = Inr x"
proof -
  have "(effs = [] \<or> (\<exists>ids. effs = finish_request ids)) \<and> (\<exists>x. r = Inr x)"
  proof (cases h)
    case None
    then show ?thesis using assms by (auto simp: request_process_event_def)
  next
    case (Some sm)
    obtain d1 effs1 r1 where "state_event L sp d sm TerminateEvent = (d1, effs1, r1)" by (rule prod_cases3)
    with terminate_effects [OF this] show ?thesis using assms unfolding Some request_process_Some by auto
  qed
  then show "emits_all P hist s0 effs" "\<exists>x. r = Inr x" by (auto simp: finish_request_def send_replies_def list_all_iff)
qed

lemma emits_own_nothing:
  assumes "request_process_event L sp d (Some sm) ore = (d', effs, r)" "sm_cmd_ids sm = []"
  shows "emits_all P hist s0 effs"
proof (cases ore)
  case None
  then show ?thesis using assms by (auto simp: request_process_event_def)
next
  case (Some re)
  then show ?thesis using assms only_own_acks [of L sp d sm re]
    by (intro emits_allI) (force simp: request_process_Some split: prod.splits)
qed

lemma request_step_good:
  assumes re: "into_request_event P pe = Some re" "concerns i re"
    and pe: "request_process_event (po_plibs P) sp d (Some sm) (Some re) = (d', effs, r)"
    and a: "s0 = Active a" "ac_nodes a = nodes"
    and sm: "sm_nodes sm = nodes" "sm_f sm = get_f (length nodes)" "sm_cmd_ids sm = [c]" "asked P (hist @ [(sp, pe)]) i c"
      "asking (sm_state sm) \<or> sm_state sm = Start \<and> is_custom re"
      "full_asked P (hist @ [(sp, pe)]) i \<or> backing (po_plibs P) (events_of P i (hist @ [(sp, pe)])) (sm_state sm)"
  shows "emits_all P (hist @ [(sp, pe)]) s0 effs \<and> (\<forall>h' ev. r = Inr (h', ev) \<longrightarrow> handles P (hist @ [(sp, pe)]) nodes (i, h'))"
proof (intro conjI allI impI)
  let ?H = "hist @ [(sp, pe)]" and ?L = "po_plibs P"
  obtain r1 where st: "state_event ?L sp d sm re = (d', effs, r1)" "r = bindr r1 (\<lambda>(st, ev). Inr (Some (sm\<lparr>sm_state := st\<rparr>), ev))"
    using pe unfolding request_process_Some by (auto split: prod.splits)
  have k: "keeps ?L nodes (get_f (length nodes)) (events_of P i ?H) (d', effs, r1)" if "\<not> full_asked P ?H i"
  proof -
    have mem: "(sp, re) \<in> set (events_of P i ?H)" using re by (rule events_of_last)
    then have "\<nexists>m i' t ns. re = CustomFullRequest m i' t ns" using that re(2) unfolding full_asked_def concerns_def by fastforce
    from keeps_event [OF _ mem this, of ?L sm d] that sm(1,2,6) show ?thesis by (simp add: st)
  qed
  show "emits_all P ?H s0 effs"
  proof (rule emits_allI)
    fix c' m
    assume ack: "SubmitAck c' (Inr m) \<in> set effs"
    then have "c' = c" using only_own_acks [OF st(1)] sm(3) by simp
    moreover have "full_asked P ?H i \<or> backed ?L nodes (get_f (length nodes)) (events_of P i ?H) m"
      using k keepsD(1) ack by (fastforce simp: oks_def)
    ultimately show "emits P ?H s0 (RequestEffect (SubmitAck c' (Inr m)))"
      using sm(4) a unfolding emits_def by fastforce
  qed
  fix h' ev
  assume "r = Inr (h', ev)"
  then obtain s where s: "r1 = Inr (s, ev)" "h' = Some (sm\<lparr>sm_state := s\<rparr>)" using st(2) by (auto simp: bindr_Inr_iff)
  have "asks (state_event ?L sp d sm re)" using sm(5) asks_event asks_start by (auto simp: state_event_def)
  then have "asking s" using st(1) s(1) by simp
  moreover have "full_asked P ?H i \<or> backing ?L (events_of P i ?H) s" using k s(1) by auto
  ultimately show "handles P ?H nodes (i, h')" using s(2) sm unfolding handles_def by auto
qed

lemma handles_step:
  assumes h: "handles P hist nodes (i, h)" and re: "into_request_event P pe = Some re" "concerns i re"
    and pe: "request_process_event (po_plibs P) sp d h (Some re) = (d', effs, r)" and a: "s0 = Active a" "ac_nodes a = nodes"
  shows "emits_all P (hist @ [(sp, pe)]) s0 effs \<and> (\<forall>h' ev. r = Inr (h', ev) \<longrightarrow> handles P (hist @ [(sp, pe)]) nodes (i, h'))"
proof -
  obtain sm c where sm: "h = Some sm" "sm_nodes sm = nodes" "sm_f sm = get_f (length nodes)" "sm_cmd_ids sm = [c]"
    "asked P (hist @ [(sp, pe)]) i c" "asking (sm_state sm)"
    "full_asked P (hist @ [(sp, pe)]) i \<or> backing (po_plibs P) (events_of P i (hist @ [(sp, pe)])) (sm_state sm)"
    using handles_later [OF h, of "[(sp, pe)]"] unfolding handles_def by auto
  show ?thesis by (rule request_step_good [OF re pe [unfolded sm(1)] a sm(2-5) _ sm(7)]) (simp add: sm(6))
qed

section \<open>Steps of the pool\<close>

definition pool_yields :: "poollibs \<Rightarrow> (MerkleTree \<Rightarrow> bool) \<Rightarrow> history \<Rightarrow> PoolState \<Rightarrow> pool_handled \<Rightarrow> bool" where
  "pool_yields P K hist s0 h \<longleftrightarrow> (case h of (d, effs, r) \<Rightarrow> list_all (emits P hist s0) effs \<and> (\<forall>st. r = Inr st \<longrightarrow> pool_good P K hist st))"

lemma pool_yields_simps [simp]:
  "pool_yields P K hist s0 (d, effs, Inl e) \<longleftrightarrow> list_all (emits P hist s0) effs"
  "pool_yields P K hist s0 (d, effs, Inr st) \<longleftrightarrow> list_all (emits P hist s0) effs \<and> pool_good P K hist st"
  by (simp_all add: pool_yields_def)

lemma pool_good_simps [simp]: "pool_good P K hist Initialization" "pool_good P K hist Terminated" "pool_good P K hist Closed"
  by (simp_all add: pool_good_def)

lemma yields_after: "list_all (emits P hist s0) effs \<Longrightarrow> pool_yields P K hist s0 h \<Longrightarrow> pool_yields P K hist s0 (after effs h)"
  by (cases "(effs, h)" rule: after.cases) (auto simp: pool_yields_def)

lemma yields_process:
  assumes "\<And>d1 effs r. request_process_event (po_plibs P) sp d h ore = (d1, effs, r) \<Longrightarrow>
    emits_all P hist s0 effs \<and> (\<forall>h' ev. r = Inr (h', ev) \<longrightarrow> pool_yields P K hist s0 (k d1 h' ev))"
  shows "pool_yields P K hist s0 (process P sp d h ore k)"
proof -
  obtain d1 effs r where pe: "request_process_event (po_plibs P) sp d h ore = (d1, effs, r)" by (rule prod_cases3)
  note a = assms [OF pe]
  show ?thesis
  proof (cases r)
    case (Inl e)
    then show ?thesis using a pe by (simp add: process_def)
  next
    case (Inr x)
    then show ?thesis using a pe by (cases x) (simp add: process_def yields_after)
  qed
qed

lemma yields_with_nodes:
  assumes "\<And>nodes. nodes_of P merkle nodes \<Longrightarrow> pool_yields P K hist s0 (k nodes)"
  shows "pool_yields P K hist s0 (with_nodes P d merkle k)"
  using assms by (auto simp: with_nodes_def nodes_of_def intro!: yields_after split: sum.splits failure.splits)

text \<open>A handler that has just been started to search for the target.\<close>

lemma started_target:
  assumes "request_process_event (po_plibs P) sp d (new_handler sm nodes []) (Some (LedgerStatusEvent ls None (Some merkle))) = (d1, effs, r)"
    and "K mt" "nodes_of P mt nodes"
  shows "emits_all P hist s0 effs \<and> (\<exists>h. r = Inr (h, None) \<and> (\<forall>c rf. pool_good P K hist (GettingCatchupTarget \<lparr> ca_handler = h, ca_cmd_id = c, ca_refresh = rf \<rparr>)))"
  using assms by (auto simp: new_handler_def request_process_Some state_event_def pool_good_def)

lemma tree_nodes_of:
  assumes "tree_and_nodes P d = (d1, Inr (merkle, nodes, remotes))"
  shows "loaded P d merkle" "nodes_of P merkle nodes"
  using assms by (auto simp: tree_and_nodes_def nodes_of_def loaded_def Let_def bindr_Inr_iff split: sum.splits failure.splits prod.splits)

lemma yields_ledger_status:
  assumes "\<And>e effs st. k (Inl e) = (effs, st) \<Longrightarrow> list_all (emits P hist s0) effs \<and> pool_good P K hist st"
    and "\<And>h. k (Inr h) = ([], GettingCatchupTarget \<lparr> ca_handler = h, ca_cmd_id = c, ca_refresh = rf \<rparr>)"
    and "\<forall>mt. loaded P d mt \<longrightarrow> K mt"
  shows "pool_yields P K hist s0 (with_ledger_status_sent P sp d sm k)"
proof -
  obtain d1 r where t: "tree_and_nodes P d = (d1, r)" by force
  show ?thesis
  proof (cases r)
    case (Inl e)
    then show ?thesis using t assms(1) by (cases e) (auto simp: with_ledger_status_sent_def split: prod.splits)
  next
    case (Inr x)
    obtain merkle nodes remotes where x: "x = (merkle, nodes, remotes)" by (metis surj_pair)
    note n = tree_nodes_of [OF t [unfolded Inr x]]
    have "K merkle" using n(1) assms(3) by blast
    have "pool_yields P K hist s0 (process P sp d1 (new_handler sm nodes []) (Some (LedgerStatusEvent ls None (Some merkle)))
        (\<lambda>d2 h _. case k (Inr h) of (effs, st) \<Rightarrow> (d2, effs, Inr st)))" for ls
      by (rule yields_process, drule started_target [where hist = hist and ?s0.0 = s0 and K = K, OF _ \<open>K merkle\<close> n(2)]) (auto simp: assms(2))
    then show ?thesis using t Inr x by (simp add: with_ledger_status_sent_def yields_after)
  qed
qed

lemma yields_close_catching: "pool_yields P K hist s0 (close_catching P sp d st c)"
  unfolding close_catching_def
  by (intro yields_after yields_process) (auto simp: close_pool_ack_def dest: emits_terminate)

lemma yields_activate:
  assumes "K mt0" "nodes_of P mt0 nodes0" "tree_agreed P hist (get_f (length nodes0)) merkle"
  shows "pool_yields P K hist s0 (activate P d sm st merkle)"
  unfolding activate_def
  by (rule yields_with_nodes) (use assms in \<open>auto simp: send_open_refresh_ack_def pool_good_def synced_nodes_def\<close>)

lemma into_not_terminate: "into_request_event P pe = Some re \<Longrightarrow> re \<noteq> TerminateEvent"
proof -
  have "message_event msg a m \<noteq> TerminateEvent" for msg a m by (cases m) simp_all
  moreover have "request_event P msg t ns \<noteq> Some TerminateEvent" for msg t ns
    by (auto simp: request_event_def split: sum.splits)
  ultimately show "into_request_event P pe = Some re \<Longrightarrow> re \<noteq> TerminateEvent" by (cases pe) auto
qed

lemma fetched_quiet:
  assumes "fetched pe" "\<forall>c. pe \<noteq> Close c"
  shows "target_event P sp d sm st pe = (d, [], Inr (GettingCatchupTarget st))" "sync_event P sp d sm st pe = (d, [], Inr (SyncCatchup st))"
  using assms by (cases pe; simp)+

lemma into_Close [simp]: "into_request_event P (Close c) = None"
  by simp

lemma yields_fetched:
  assumes "fetched pe"
  shows "pool_good P K hist (GettingCatchupTarget st) \<Longrightarrow> pool_yields P K hist s0 (target_event P sp d sm st pe)"
    "pool_good P K hist (SyncCatchup st) \<Longrightarrow> pool_yields P K hist s0 (sync_event P sp d sm st pe)"
proof -
  show "pool_yields P K hist s0 (target_event P sp d sm st pe)" if "pool_good P K hist (GettingCatchupTarget st)"
    using that assms fetched_quiet(1) [OF assms] yields_close_catching by (cases "\<exists>c. pe = Close c") auto
  show "pool_yields P K hist s0 (sync_event P sp d sm st pe)" if "pool_good P K hist (SyncCatchup st)"
    using that assms fetched_quiet(2) [OF assms] yields_close_catching by (cases "\<exists>c. pe = Close c") auto
qed

lemma yields_found:
  assumes "mt_count merkle < sz" "K mt" "nodes_of P mt nodes"
    and "agreed (po_plibs P) (get_f (length nodes)) (request_events P hist) (CatchupTargetFound root sz merkle)"
  shows "pool_yields P K hist s0 (target_event P sp d sm st (CatchupTargetFound root sz merkle))"
proof -
  have ex: "target_agreed P K hist root sz" using assms(2-4) unfolding target_agreed_def by blast
  have "emits_all P hist s0 effs \<and> (\<forall>h' ev. r = Inr (h', ev) \<longrightarrow> pool_good P K hist (SyncCatchup (st\<lparr>ca_handler := h'\<rparr>)))"
    if "request_process_event (po_plibs P) sp d (new_handler sm ns []) (Some (CatchupReqEvent merkle sz root)) = (d1, effs, r)" for ns d1 effs r
    using that assms(1) ex
    by (auto simp: new_handler_def request_process_Some state_event_def build_catchup_req_def pool_good_def)
  then show ?thesis by (simp, intro yields_with_nodes yields_process) auto
qed

lemma yields_restart:
  assumes "K merkle"
  shows "pool_yields P K hist s0 (target_event P sp d sm st (CatchupRestart merkle))"
proof -
  have upd: "st\<lparr>ca_handler := h\<rparr> = \<lparr> ca_handler = h, ca_cmd_id = ca_cmd_id st, ca_refresh = ca_refresh st \<rparr>" for h by simp
  show ?thesis unfolding target_event.simps upd
    by (intro yields_with_nodes yields_process) (drule started_target [where hist = hist and ?s0.0 = s0 and K = K, OF _ assms], auto)
qed

text \<open>A catch-up is restarted with the ledger of the directory.\<close>

lemma restart_loaded:
  assumes "sm_state rm = CatchupConsensus cc" "state_event (po_plibs P) sp d rm re = (d1, effs, Inr (s, Some (CatchupRestart merkle)))"
  shows "loaded P d merkle"
proof -
  let ?L = "po_plibs P"
  have re: "try_to_restart_catch_up ?L d e = (d', Inr (Restart t)) \<Longrightarrow> loaded P d t" for e d' t
    by (auto simp: try_to_restart_catch_up_def loaded_def bindr_Inr_iff split: prod.splits sum.splits)
  have up: "try_to_catch_up ?L v u \<noteq> Inr (Restart t)" for v u t
    by (auto simp: try_to_catch_up_def bindr_Inr_iff split: if_splits prod.splits)
  have "loaded P d t" if "check_nodes_responses_on_status ?L d vs mt n f = (d', Inr (Restart t))" for vs mt n f d' t
    using that up re by (auto simp: check_nodes_responses_on_status_def if_consensus_reachable_def Let_def bindr_Inr_iff
        split: option.splits prod.splits if_splits sum.splits failure.splits bool.splits)
  then have "loaded P d merkle"
    if "catchup_target_handle_consensus_state ?L d cc root sz hs a i f ns = (d1, effs, Inr (s, Some (CatchupRestart merkle)))" for root sz hs a i f ns
    using that by (auto simp: catchup_target_handle_consensus_state_def process_catchup_target_def Let_def
        split: prod.splits sum.splits failure.splits CatchupProgress.splits option.splits bool.splits PoolEvent.splits)
  then show ?thesis using assms
    by (cases "(?L, d, rm, cc, re)" rule: catchup_consensus_event.cases) (auto simp: state_event_def)
qed

lemma yields_target:
  assumes good: "pool_good P K hist (GettingCatchupTarget st)" and "fetched pe" and known: "\<forall>mt. loaded P d mt \<longrightarrow> K mt"
  shows "pool_yields P K (hist @ [(sp, pe)]) s0 (process P sp d (ca_handler st) (into_request_event P pe) (\<lambda>d1 h ev.
           target_event P sp d1 sm (st\<lparr>ca_handler := h\<rparr>) (unwrap_event ev pe)))"
proof (rule yields_process, intro conjI allI impI)
  let ?H = "hist @ [(sp, pe)]" and ?L = "po_plibs P"
  fix d1 effs r
  assume pe: "request_process_event ?L sp d (ca_handler st) (into_request_event P pe) = (d1, effs, r)"
  obtain rm cc mt where c: "ca_handler st = Some rm" "sm_cmd_ids rm = []" "sm_state rm = CatchupConsensus cc"
      "nodes_of P mt (sm_nodes rm)" "sm_f rm = get_f (length (sm_nodes rm))" "voted (request_events P hist) (cc_replies cc)" "K mt"
    using good by (auto simp: pool_good_def)
  show "emits_all P ?H s0 effs" using pe emits_own_nothing c(1,2) by metis
  fix h' ev
  assume r: "r = Inr (h', ev)"
  show "pool_yields P K ?H s0 (target_event P sp d1 sm (st\<lparr>ca_handler := h'\<rparr>) (unwrap_event ev pe))"
  proof (cases "into_request_event P pe")
    case None
    then have "h' = Some rm" "ev = None" using pe r c(1) by (auto simp: request_process_event_def)
    moreover have "pool_good P K ?H (GettingCatchupTarget (st\<lparr>ca_handler := Some rm\<rparr>))"
      using c None by (auto simp: pool_good_def)
    ultimately show ?thesis using yields_fetched(1) [OF assms(2)] by (simp add: unwrap_event_def)
  next
    case (Some re)
    obtain s where s: "state_event ?L sp d rm re = (d1, effs, Inr (s, ev))" "h' = Some (rm\<lparr>sm_state := s\<rparr>)"
      using pe r Some c(1) by (auto simp: request_process_Some bindr_Inr_iff split: prod.splits)
    have out: "target_outcome s ev" using target_step [OF c(3) into_not_terminate [OF Some] s(1)] .
    have ev: "request_events P ?H = request_events P hist @ [(sp, re)]" using Some by simp
    have "voted (request_events P hist @ [(sp, re)]) (cc_replies cc)" using c(6) by (rule voted_mono) auto
    from catchup_consensus_step [OF this, of ?L d rm] s(1) c(3)
    have v: "\<And>p. ev = Some p \<Longrightarrow> agreed ?L (sm_f rm) (request_events P ?H) p"
      "s = Finish \<or> (\<exists>c. s = CatchupConsensus c \<and> voted (request_events P ?H) (cc_replies c))"
      unfolding ev by (auto simp: state_event_def)
    show ?thesis
    proof (cases ev)
      case None
      then have "pool_good P K ?H (GettingCatchupTarget (st\<lparr>ca_handler := h'\<rparr>))"
        using c v(2) out s(2) by (auto simp: pool_good_def target_outcome_def)
      then show ?thesis using None yields_fetched(1) [OF assms(2)] by (simp add: unwrap_event_def)
    next
      case (Some p)
      note a = v(1) [OF Some]
      show ?thesis
      proof (cases p)
        case (CatchupTargetFound root sz merkle)
        then show ?thesis using Some out a c(5) yields_found [where K = K, OF _ c(7,4)] unfolding unwrap_event_def target_outcome_def by simp
      next
        case (CatchupRestart merkle)
        then have "K merkle" using restart_loaded [OF c(3) s(1) [unfolded Some CatchupRestart]] known by blast
        then show ?thesis using Some CatchupRestart yields_restart [where K = K] unfolding unwrap_event_def by simp
      next
        case (Synced merkle)
        then have "tree_agreed P ?H (get_f (length (sm_nodes rm))) merkle" using a c(5) unfolding tree_agreed_def agreed_def by simp
        from yields_activate [where K = K, OF c(7,4) this] show ?thesis using Some Synced by (simp add: unwrap_event_def)
      next
        case (CatchupTargetNotFound e)
        then show ?thesis using Some by (simp add: unwrap_event_def send_open_refresh_ack_def)
      qed (use out Some in \<open>simp_all add: target_outcome_def\<close>)
    qed
  qed
qed

lemma yields_sync:
  assumes good: "pool_good P K hist (SyncCatchup st)" and "fetched pe"
  shows "pool_yields P K (hist @ [(sp, pe)]) s0 (process P sp d (ca_handler st) (into_request_event P pe) (\<lambda>d1 h ev.
           sync_event P sp d1 sm (st\<lparr>ca_handler := h\<rparr>) (unwrap_event ev pe)))"
proof (rule yields_process, intro conjI allI impI)
  let ?H = "hist @ [(sp, pe)]" and ?L = "po_plibs P"
  fix d1 effs r
  assume pe: "request_process_event ?L sp d (ca_handler st) (into_request_event P pe) = (d1, effs, r)"
  obtain rm cs where c: "ca_handler st = Some rm" "sm_cmd_ids rm = []" "sm_state rm = CatchupSingle cs"
      "target_agreed P K hist (cs_target_mt_root cs) (cs_target_mt_size cs)"
    using good by (auto simp: pool_good_def)
  note a = target_agreed_later [OF c(4), of "[(sp, pe)]"]
  show "emits_all P ?H s0 effs" using pe emits_own_nothing c(1,2) by metis
  fix h' ev
  assume r: "r = Inr (h', ev)"
  show "pool_yields P K ?H s0 (sync_event P sp d1 sm (st\<lparr>ca_handler := h'\<rparr>) (unwrap_event ev pe))"
  proof (cases ev)
    case None
    have "\<exists>rm'. h' = Some rm' \<and> sm_cmd_ids rm' = [] \<and> sm_state rm' = CatchupSingle cs"
    proof (cases "into_request_event P pe")
      case None
      then have "h' = Some rm" using pe r c(1) by (simp add: request_process_event_def)
      then show ?thesis using c(2,3) by simp
    next
      case (Some re)
      obtain s where s: "state_event ?L sp d rm re = (d1, effs, Inr (s, ev))" "h' = Some (rm\<lparr>sm_state := s\<rparr>)"
        using pe r Some c(1) by (auto simp: request_process_Some bindr_Inr_iff split: prod.splits)
      then show ?thesis using sync_step [OF c(3) into_not_terminate [OF Some] s(1)] None c(2) by (simp add: sync_outcome_def)
    qed
    then have "pool_good P K ?H (SyncCatchup (st\<lparr>ca_handler := h'\<rparr>))"
      using a unfolding pool_good_def by auto
    then show ?thesis using None yields_fetched(2) [OF assms(2)] by (simp add: unwrap_event_def)
  next
    case (Some p)
    then obtain re where re: "into_request_event P pe = Some re"
      using pe r by (cases "into_request_event P pe") (auto simp: request_process_event_def)
    obtain s where s: "state_event ?L sp d rm re = (d1, effs, Inr (s, ev))"
      using pe r re c(1) by (auto simp: request_process_Some bindr_Inr_iff split: prod.splits)
    obtain merkle ps where m: "p = Synced merkle" "check_cons_proofs ?L merkle ps (cs_target_mt_root cs) (cs_target_mt_size cs) = Inr ()"
      using sync_step [OF c(3) into_not_terminate [OF re] s] Some by (cases p) (auto simp: sync_outcome_def)
    obtain mt nodes where n: "K mt" "nodes_of P mt nodes" "tree_agreed P ?H (get_f (length nodes)) merkle"
      using target_tree_agreed [OF a m(2)] by blast
    from yields_activate [where K = K, OF n] show ?thesis using Some m(1) by (simp add: unwrap_event_def)
  qed
qed

lemma request_event_custom: "request_event P msg t ns = Some re \<Longrightarrow> is_custom re"
  by (auto simp: request_event_def split: sum.splits if_splits)

lemma yields_terminate_all: "pool_yields P K hist s0 (terminate_all P sp d hs)"
proof (induction hs arbitrary: d)
  case (Cons h hs)
  then show ?case by (simp, intro yields_process) (auto dest: emits_terminate)
qed simp

lemma list_all_upsert: "list_all Q hs \<Longrightarrow> Q (k, h) \<Longrightarrow> list_all Q (upsert k (\<lambda>_. h) h hs)"
  by (induction hs) auto

lemma active_goodI:
  assumes "synced_nodes P K hist (ac_nodes st)" "list_all (handles P hist (ac_nodes st)) hs"
  shows "pool_good P K hist (Active (st\<lparr>ac_handlers := hs\<rparr>))"
  using assms by (simp add: pool_good_def)

lemma yields_active:
  assumes good: "pool_good P K hist (Active st)" and "fetched pe"
    and dir: "\<forall>mt. loaded P d mt \<longrightarrow> K mt"
  shows "pool_yields P K (hist @ [(sp, pe)]) (Active st) (active_event P sp d sm st pe)"
proof -
  let ?H = "hist @ [(sp, pe)]" and ?L = "po_plibs P"
  have g: "synced_nodes P K hist (ac_nodes st)" "list_all (handles P hist (ac_nodes st)) (ac_handlers st)"
    using good by (simp_all add: pool_good_def)
  have g': "synced_nodes P K ?H (ac_nodes st)" "list_all (handles P ?H (ac_nodes st)) (ac_handlers st)"
    using synced_nodes_later [OF g(1)] g(2) handles_later by (auto simp: list_all_iff)
  then have stay: "pool_good P K ?H (Active st)" by (simp add: pool_good_def)
  have upd: "pool_good P K ?H (Active (st\<lparr>ac_handlers := upsert i (\<lambda>_. h) h (ac_handlers st)\<rparr>))"
      "pool_good P K ?H (Active (st\<lparr>ac_handlers := remove_handler i (ac_handlers st)\<rparr>))" if "handles P ?H (ac_nodes st) (i, h)" for i h
    using g' that by (auto intro!: active_goodI list_all_upsert simp: list_all_iff)
  have known: "emits_all P ?H (Active st) effs \<and> (\<forall>h' ev. r = Inr (h', ev) \<longrightarrow> handles P ?H (ac_nodes st) (i, h'))"
    if "map_of (ac_handlers st) i = Some rh" "into_request_event P pe = Some re" "concerns i re"
      "request_process_event ?L sp d rh (Some re) = (d1, effs, r)" for i rh re d1 effs r
    using g(2) map_of_SomeD [OF that(1)] by (intro handles_step [OF _ that(2-4) refl]) (auto simp: list_all_iff)
  show ?thesis
  proof (cases pe)
    case (Close c)
    then show ?thesis by (simp, intro yields_after yields_terminate_all) (simp add: close_pool_ack_def)
  next
    case (Refresh c)
    then show ?thesis by simp (rule yields_ledger_status [OF _ _ dir], auto)
  next
    case (SendRequest c msg t ns)
    show ?thesis
    proof (cases "request_event P msg t ns")
      case None
      then show ?thesis using stay SendRequest by (simp add: active_send_def send_submit_ack_def)
    next
      case (Some re)
      have into: "into_request_event P pe = Some re" using Some SendRequest by simp
      have ask: "asked P ?H (get_req_id re) c" using Some SendRequest unfolding asked_def by fastforce
      have "emits_all P ?H (Active st) effs \<and> (\<forall>h' ev. r = Inr (h', ev) \<longrightarrow> handles P ?H (ac_nodes st) (get_req_id re, h'))"
        if "request_process_event ?L sp d (new_handler sm (ac_nodes st) [c]) (Some re) = (d1, effs, r)" for d1 effs r
        by (rule request_step_good [OF into _ that [unfolded new_handler_def] refl _ _ _ _ ask])
           (simp_all add: request_event_custom [OF Some] concerns_def)
      then have "pool_yields P K ?H (Active st) (active_send P sp d sm st c (Some re))"
        unfolding active_send_def by simp (rule yields_process, auto intro: upd)
      then show ?thesis using Some SendRequest by simp
    qed
  next
    case (NodeReply msg a)
    have "pool_yields P K ?H (Active st) (active_reply P sp d st re)" if "re = into_request_event P pe" for re
    proof (cases "re = None \<or> map_of (ac_handlers st) (get_req_id (the re)) = None")
      case True
      then show ?thesis using stay by (auto simp: active_reply_def split: option.splits)
    next
      case False
      then obtain r rh where r: "re = Some r" "map_of (ac_handlers st) (get_req_id r) = Some rh" by auto
      have "concerns (get_req_id r) r" by (simp add: concerns_def)
      note k = known [OF r(2) that [unfolded r(1), symmetric] this]
      show ?thesis using r unfolding active_reply_def
        by simp (rule yields_process, frule k, auto intro: upd)
    qed
    then show ?thesis using NodeReply by simp
  next
    case (PoolEventTimeout i a)
    show ?thesis
    proof (cases "map_of (ac_handlers st) i")
      case None
      then show ?thesis using PoolEventTimeout stay by (simp add: active_timeout_def)
    next
      case (Some rh)
      have "concerns i (TimeoutEvent i a)" by (simp add: concerns_def)
      note k = known [OF Some _ this]
      have into: "into_request_event P pe = Some (TimeoutEvent i a)" by (simp add: PoolEventTimeout)
      have "pool_yields P K ?H (Active st) (active_timeout P sp d st i a)" using Some unfolding active_timeout_def
        by simp (rule yields_process, frule k [OF into], auto intro: upd)
      then show ?thesis using PoolEventTimeout by simp
    qed
  qed (use assms(2) stay in simp_all)
qed

lemma pool_good_step:
  assumes "pool_good P K hist (pl_state sm)" "fetched pe" "\<forall>mt. loaded P d mt \<longrightarrow> K mt" "pool_state_event P sp d sm pe = (d', effs, r)"
  shows "list_all (emits P (hist @ [(sp, pe)]) (pl_state sm)) effs \<and> (\<forall>st. r = Inr st \<longrightarrow> pool_good P K (hist @ [(sp, pe)]) st)"
proof -
  have "pool_yields P K (hist @ [(sp, pe)]) (pl_state sm) (pool_state_event P sp d sm pe)"
  proof (cases "pl_state sm")
    case Initialization
    then show ?thesis using assms(3)
      by (cases "(P, sp, d, sm, pe)" rule: init_event.cases) (auto simp: pool_state_event_def close_pool_ack_def intro!: yields_ledger_status)
  next
    case Terminated
    then show ?thesis using assms(3)
      by (cases "(P, sp, d, sm, pe)" rule: terminated_event.cases) (auto simp: pool_state_event_def close_pool_ack_def intro!: yields_ledger_status)
  next
    case (GettingCatchupTarget st)
    then show ?thesis using yields_target assms(1-3) by (simp add: pool_state_event_def)
  next
    case (SyncCatchup st)
    then show ?thesis using yields_sync assms(1-3) by (simp add: pool_state_event_def)
  next
    case (Active st)
    then show ?thesis using yields_active assms(1-3) by (simp add: pool_state_event_def)
  next
    case Closed
    then show ?thesis by (simp add: pool_state_event_def)
  qed
  then show ?thesis by (simp add: assms(4) pool_yields_def)
qed

interpretation good: pool_contract P K "pool_good P K" "emits P" for P K
  by unfold_locales (rule pool_good_step)

end
