(* ===== verification/Audit_Path.thy ===== *)
theory Audit_Path
  imports State_Proof
begin

text \<open>
  The audit path of a transaction, \<^verbatim>\<open>_calculate_turns\<close> and \<^verbatim>\<open>_verify_merkle_tree\<close> of
  \<^verbatim>\<open>state_proof/mod.rs\<close>: for which ledger sizes the turns are computed at all, which leaf of the tree an accepted path
  leads to, and how far the sequence number of the transaction is bound.
\<close>

section \<open>Turns\<close>

text \<open>The turns on the way from a leaf to the root, as RFC 6962 splits the leaves.\<close>

function turns :: "nat \<Rightarrow> nat \<Rightarrow> bool list" where
  "turns n m =
    (if n \<le> 1 then []
     else let k = split_point n in if m < k then turns k m @ [True] else turns (n - k) (m - k) @ [False])"
  by pat_completeness auto
termination
  using split_point_bounds by (relation "measure fst") force+

declare turns.simps [simp del]

lemma turns_simps:
  "turns (Suc 0) m = []"
  "1 < n \<Longrightarrow> m < split_point n \<Longrightarrow> turns n m = turns (split_point n) m @ [True]"
  "1 < n \<Longrightarrow> split_point n \<le> m \<Longrightarrow> turns n m = turns (n - split_point n) (m - split_point n) @ [False]"
  by (simp_all add: turns.simps [of "Suc 0"] turns.simps [of n] Let_def)

lemma next_power_of_two_split:
  assumes "1 < n" "n \<le> 2 ^ 63"
  shows "next_power_of_two c n = Inr (2 * split_point n)"
proof -
  obtain e where e: "split_point n = 2 ^ e" using split_point_pow2 by blast
  have c: "clog2 n = Suc e" using split_point_bounds [OF assms(1)] e by (intro clog2_between) simp_all
  have "clog2 n \<le> 63" using assms(2) by (simp only: clog2_le_iff)
  then have "(2::nat) ^ clog2 n \<le> 2 ^ 63" by (rule power_increasing) simp
  then have "(2::nat) ^ clog2 n < 2 ^ 64" by simp
  then show ?thesis using c e by (simp add: next_power_of_two_def)
qed

lemma calculate_turns_loop_eq:
  "0 < n \<Longrightarrow> n \<le> 2 ^ 63 \<Longrightarrow> calculate_turns_loop c n m res = Some (Inr (turns n m @ rev res))"
proof (induction n m arbitrary: res rule: turns.induct)
  case (1 n m)
  show ?case
  proof (cases "n = 1")
    case True
    then show ?thesis by (subst calculate_turns_loop.simps) (simp add: turns_simps)
  next
    case False
    then have n: "1 < n" "\<not> n \<le> 1" using 1(3) by simp_all
    let ?k = "split_point n"
    have b: "0 < ?k" "?k < n" using split_point_bounds [OF n(1)] by simp_all
    have "calculate_turns_loop c n m res =
        calculate_turns_loop c (if m < ?k then ?k else n - ?k) (if m < ?k then m else m - ?k) (res @ [m < ?k])"
      using False next_power_of_two_split [OF n(1) 1(4), of c] by (subst calculate_turns_loop.simps) (simp add: Let_def)
    then show ?thesis
      using 1(1) [OF n(2) refl, of "res @ [True]"] 1(2) [OF n(2) refl, of "res @ [False]"] b 1(4) turns_simps(2,3) [OF n(1)]
      by (cases "m < ?k") simp_all
  qed
qed

lemma calculate_turns_eq: "0 < n \<Longrightarrow> n \<le> 2 ^ 63 \<Longrightarrow> calculate_turns c n m = Some (Inr (turns n m))"
  by (simp add: calculate_turns_def calculate_turns_loop_eq)

lemma calculate_turns_zero: "calculate_turns c 0 m = None"
proof -
  let ?P = "\<lambda>(c :: bool) len (idx :: nat) (res :: bool list) (y :: bool list IndyResult). len \<noteq> (0 :: nat)"
  have "?P c 0 m [] y" if "calculate_turns_loop c 0 m [] = Some y" for y
    by (rule calculate_turns_loop.raw_induct [where P = ?P, OF _ that])
       (auto simp: next_power_of_two_def clog2.simps split: if_splits)
  then show ?thesis unfolding calculate_turns_def by (cases "calculate_turns_loop c 0 m []") auto
qed

text \<open>Past the last leaf the turns are those of the last leaf; a larger ledger can have the turns of a smaller one.\<close>

lemma turns_beyond: "0 < n \<Longrightarrow> n - 1 \<le> m \<Longrightarrow> turns n m = turns n (n - 1)"
proof (induction n m rule: turns.induct)
  case (1 n m)
  show ?case
  proof (cases "n = 1")
    case False
    then have n: "1 < n" using 1(3) by simp
    have b: "split_point n < n" "0 < split_point n" using split_point_bounds [OF n] by simp_all
    have "turns (n - split_point n) (m - split_point n) = turns (n - split_point n) (n - split_point n - 1)"
      using 1(2) [OF _ refl] 1(4) b n by (simp add: Let_def)
    moreover have "n - 1 - split_point n = n - split_point n - 1" by simp
    ultimately show ?thesis using turns_simps(3) [OF n, of m] turns_simps(3) [OF n, of "n - 1"] b 1(4) by simp
  qed (simp add: turns_simps)
qed

lemma turns_shift:
  assumes "1 < n" "split_point n \<le> m"
  shows "turns (n + split_point n) (m + split_point n) = turns n m"
proof -
  obtain e where e: "split_point n = 2 ^ e" using split_point_pow2 by blast
  have b: "split_point n < n" "n \<le> 2 * split_point n" using split_point_bounds [OF assms(1)] by simp_all
  have k: "split_point (n + split_point n) = 2 * split_point n"
    using split_point_eqI [of "Suc e" "n + split_point n"] b e by simp
  show ?thesis
    using turns_simps(3) [of "n + split_point n" "m + split_point n"] turns_simps(3) [OF assms] assms b by (simp add: k)
qed

section \<open>Where a path leads\<close>

lemma climb_audit_append: "climb_audit L x (ps @ qs) = Option.bind (climb_audit L x ps) (\<lambda>y. climb_audit L y qs)"
proof (induction ps arbitrary: x)
  case (Cons p ps)
  obtain s b where p: "p = (s, b)" by force
  show ?case
  proof (cases "pb_from_base58 L s")
    case (Some nh)
    then show ?thesis
      using Cons.IH by (cases "if b then hash_nodes (pb_digest L) x nh else hash_nodes (pb_digest L) nh x") (simp_all add: p)
  qed (simp add: p)
qed simp

lemma climb_audit_snoc_right:
  assumes "pb_digest L = total_digest h"
  shows "climb_audit L x (ps @ [(s, True)]) = Some r \<longleftrightarrow>
    (\<exists>y nh. climb_audit L x ps = Some y \<and> pb_from_base58 L s = Some nh \<and> r = h (0x01 # y @ nh))"
  "climb_audit L x (ps @ [(s, False)]) = Some r \<longleftrightarrow>
    (\<exists>y nh. climb_audit L x ps = Some y \<and> pb_from_base58 L s = Some nh \<and> r = h (0x01 # nh @ y))"
  using assms by (auto simp: climb_audit_append Option.bind_eq_Some_conv hash_nodes_def)

text \<open>What is hashed on the way up.\<close>

fun audit_inputs :: "plibs \<Rightarrow> (bytes \<Rightarrow> bytes) \<Rightarrow> bytes \<Rightarrow> (string \<times> bool) list \<Rightarrow> bytes list" where
  "audit_inputs L h hash [] = []"
| "audit_inputs L h hash ((s, right) # rest) =
    (case pb_from_base58 L s of
       None \<Rightarrow> []
     | Some nh \<Rightarrow> (let x = 0x01 # (if right then hash @ nh else nh @ hash) in x # audit_inputs L h (h x) rest))"

lemma audit_inputs_snoc:
  assumes "pb_digest L = total_digest h" "climb_audit L x ps = Some y" "pb_from_base58 L s = Some nh"
  shows "set (audit_inputs L h x (ps @ [(s, right)])) =
    insert (0x01 # (if right then y @ nh else nh @ y)) (set (audit_inputs L h x ps))"
  using assms(2)
proof (induction ps arbitrary: x)
  case Nil
  then show ?case using assms(3) by simp
next
  case (Cons p ps)
  obtain t b where p: "p = (t, b)" by force
  from Cons.prems obtain nt where t: "pb_from_base58 L t = Some nt"
      "climb_audit L (h (0x01 # (if b then x @ nt else nt @ x))) ps = Some y"
    using assms(1) by (auto simp: p Option.bind_eq_Some_conv hash_nodes_def split: if_splits)
  show ?case using Cons.IH [OF t(2)] t(1) by (simp add: p Let_def insert_commute)
qed

lemma climb_audit_length:
  assumes "pb_digest L = total_digest h" "\<And>x. length (h x) = n"
  shows "length x = n \<Longrightarrow> climb_audit L x ps = Some y \<Longrightarrow> length y = n"
proof (induction ps arbitrary: x)
  case (Cons p ps)
  obtain s b where p: "p = (s, b)" by force
  show ?case using Cons assms by (auto simp: p Option.bind_eq_Some_conv hash_nodes_def split: if_splits)
qed simp

lemma mth_split: "1 < length vs \<Longrightarrow> mth h vs = h (0x01 # mth h (take (split_point (length vs)) vs) @ mth h (drop (split_point (length vs)) vs))"
  by (simp add: mth.simps [of h vs] Let_def)

lemma length_mth: "(\<And>x. length (h x) = n) \<Longrightarrow> vs \<noteq> [] \<Longrightarrow> length (mth h vs) = n"
  by (subst mth.simps) (auto simp: Let_def split: list.splits)

lemma zip_turns_snoc:
  assumes "length hs = length (ts @ [b])"
  obtains hs' s where "hs = hs' @ [s]" "zip hs (ts @ [b]) = zip hs' ts @ [(s, b)]" "length hs' = length ts"
proof -
  from assms obtain hs' s where "hs = hs' @ [s]" by (cases hs rule: rev_cases) auto
  then show thesis using that [of hs' s] assms by simp
qed

lemma rfc_tree_inputs_split:
  assumes "1 < length vs"
  defines "k \<equiv> split_point (length vs)"
  shows "0x01 # mth h (take k vs) @ mth h (drop k vs) \<in> set (tree_inputs (rfc_tree h vs))"
    "set (tree_inputs (rfc_tree h (take k vs))) \<subseteq> set (tree_inputs (rfc_tree h vs))"
    "set (tree_inputs (rfc_tree h (drop k vs))) \<subseteq> set (tree_inputs (rfc_tree h vs))"
  using rfc_tree_split [OF assms(1), of h] by (auto simp: k_def joined_def tree_hash_rfc_tree)

lemma climb_audit_sound:
  assumes dg: "pb_digest L = total_digest h" and len: "\<And>x. length (h x) = 32"
  shows "vs \<noteq> [] \<Longrightarrow> m < length vs \<Longrightarrow> length hs = length (turns (length vs) m) \<Longrightarrow>
    climb_audit L (h (0x00 # bs)) (zip hs (turns (length vs) m)) = Some (mth h vs) \<Longrightarrow>
    collision_free h (tree_inputs (rfc_tree h vs)) ((0x00 # bs) # audit_inputs L h (h (0x00 # bs)) (zip hs (turns (length vs) m))) \<Longrightarrow>
    bs = vs ! m"
proof (induction "length vs" arbitrary: vs m hs rule: less_induct)
  case less
  show ?case
  proof (cases "length vs = 1")
    case True
    then obtain v where vs: "vs = [v]" by (metis One_nat_def length_0_conv length_Suc_conv)
    have "0x00 # v = 0x00 # bs"
      by (rule collision_freeD [OF less.prems(5)]) (use less.prems(4) in \<open>simp_all add: vs turns_simps(1) mth.simps [of h "[v]"] hashed_leaf_def\<close>)
    then show ?thesis using vs less.prems(2) by simp
  next
    case False
    then have n: "1 < length vs" using less.prems(1) by (cases vs) auto
    let ?k = "split_point (length vs)"
    note b = split_point_bounds [OF n]
    have lm: "length (mth h ws) = 32" if "ws \<noteq> []" for ws using length_mth [of h 32 ws] len that by blast
    have ne: "take ?k vs \<noteq> []" "drop ?k vs \<noteq> []" using b by auto
    note coll = collision_freeD [OF less.prems(5) rfc_tree_inputs_split(1) [OF n]]
    show ?thesis
    proof (cases "m < ?k")
      case True
      have t: "turns (length vs) m = turns ?k m @ [True]" by (rule turns_simps(2) [OF n True])
      obtain hs' s where "hs = hs' @ [s]" and z: "zip hs (turns ?k m @ [True]) = zip hs' (turns ?k m) @ [(s, True)]"
          and hs': "length hs' = length (turns ?k m)"
        by (rule zip_turns_snoc [OF less.prems(3) [unfolded t]])
      note hs = z [folded t] hs'
      from less.prems(4) obtain y nh where y: "climb_audit L (h (0x00 # bs)) (zip hs' (turns ?k m)) = Some y"
          "pb_from_base58 L s = Some nh" "mth h vs = h (0x01 # y @ nh)"
        unfolding hs(1) climb_audit_snoc_right(1) [OF dg] by auto
      have "0x01 # mth h (take ?k vs) @ mth h (drop ?k vs) = 0x01 # y @ nh"
        by (rule coll) (use audit_inputs_snoc [OF dg y(1,2)] y(3) mth_split [OF n] in \<open>simp_all add: hs(1)\<close>)
      moreover have "length y = 32" "length (mth h (take ?k vs)) = 32"
        using climb_audit_length [OF dg len _ y(1)] len lm [OF ne(1)] lm [OF ne(2)] by simp_all
      ultimately have "y = mth h (take ?k vs)" by simp
      moreover have "collision_free h (tree_inputs (rfc_tree h (take ?k vs))) ((0x00 # bs) # audit_inputs L h (h (0x00 # bs)) (zip hs' (turns ?k m)))"
        using less.prems(5) rfc_tree_inputs_split(2) [OF n] audit_inputs_snoc [OF dg y(1,2), of True]
        by (elim collision_free_subset) (auto simp: hs(1))
      ultimately show ?thesis using less.hyps [of "take ?k vs" m hs'] b ne True hs(2) y(1) by (simp add: min_absorb2)
    next
      case False
      then have "?k \<le> m" by simp
      have t: "turns (length vs) m = turns (length vs - ?k) (m - ?k) @ [False]" by (rule turns_simps(3) [OF n \<open>?k \<le> m\<close>])
      obtain hs' s where "hs = hs' @ [s]" and z: "zip hs (turns (length vs - ?k) (m - ?k) @ [False]) = zip hs' (turns (length vs - ?k) (m - ?k)) @ [(s, False)]"
          and hs': "length hs' = length (turns (length vs - ?k) (m - ?k))"
        by (rule zip_turns_snoc [OF less.prems(3) [unfolded t]])
      note hs = z [folded t] hs'
      from less.prems(4) obtain y nh where y: "climb_audit L (h (0x00 # bs)) (zip hs' (turns (length vs - ?k) (m - ?k))) = Some y"
          "pb_from_base58 L s = Some nh" "mth h vs = h (0x01 # nh @ y)"
        unfolding hs(1) climb_audit_snoc_right(2) [OF dg] by auto
      have "0x01 # mth h (take ?k vs) @ mth h (drop ?k vs) = 0x01 # nh @ y"
        by (rule coll) (use audit_inputs_snoc [OF dg y(1,2)] y(3) mth_split [OF n] in \<open>simp_all add: hs(1)\<close>)
      moreover have "length y = 32" "length (mth h (drop ?k vs)) = 32"
        using climb_audit_length [OF dg len _ y(1)] len lm [OF ne(1)] lm [OF ne(2)] by simp_all
      ultimately have "y = mth h (drop ?k vs)" by simp
      moreover have "collision_free h (tree_inputs (rfc_tree h (drop ?k vs)))
          ((0x00 # bs) # audit_inputs L h (h (0x00 # bs)) (zip hs' (turns (length vs - ?k) (m - ?k))))"
        using less.prems(5) rfc_tree_inputs_split(3) [OF n] audit_inputs_snoc [OF dg y(1,2), of False]
        by (elim collision_free_subset) (auto simp: hs(1))
      ultimately show ?thesis using less.hyps [of "drop ?k vs" "m - ?k" hs'] b ne False hs(2) y(1) less.prems(2) by simp
    qed
  qed
qed

text \<open>The audit path of RFC 6962, from the leaf up, leads to the root.\<close>

function audit_path :: "(bytes \<Rightarrow> bytes) \<Rightarrow> nat \<Rightarrow> TreeLeafData list \<Rightarrow> bytes list" where
  "audit_path h m vs =
    (if length vs \<le> 1 then []
     else let k = split_point (length vs) in
       if m < k then audit_path h m (take k vs) @ [mth h (drop k vs)]
       else audit_path h (m - k) (drop k vs) @ [mth h (take k vs)])"
  by pat_completeness auto
termination
proof (relation "measure (\<lambda>(h, m, vs). length vs)", goal_cases)
  case (2 h m vs k)
  then show ?case using split_point_bounds [of "length vs"] by simp
next
  case (3 h m vs k)
  then show ?case using split_point_bounds [of "length vs"] by auto
qed simp

declare audit_path.simps [simp del]

lemma climb_audit_complete:
  assumes dg: "pb_digest L = total_digest h" and b58: "\<And>x. pb_from_base58 L (pb_to_base58 L x) = Some x"
  shows "m < length vs \<Longrightarrow> length (audit_path h m vs) = length (turns (length vs) m) \<and>
    climb_audit L (h (0x00 # vs ! m)) (zip (map (pb_to_base58 L) (audit_path h m vs)) (turns (length vs) m)) = Some (mth h vs)"
proof (induction "length vs" arbitrary: vs m rule: less_induct)
  case less
  show ?case
  proof (cases "length vs = 1")
    case True
    then obtain v where "vs = [v]" by (metis One_nat_def length_0_conv length_Suc_conv)
    then show ?thesis using less.prems by (simp add: audit_path.simps turns_simps(1) mth.simps [of h "[v]"])
  next
    case False
    then have n: "1 < length vs" using less.prems by (cases vs) auto
    let ?k = "split_point (length vs)"
    have b: "0 < ?k" "?k < length vs" using split_point_bounds [OF n] by simp_all
    show ?thesis
    proof (cases "m < ?k")
      case True
      note t = turns_simps(2) [OF n True]
      have p: "audit_path h m vs = audit_path h m (take ?k vs) @ [mth h (drop ?k vs)]" using n True by (subst audit_path.simps) (simp add: Let_def)
      have IH: "length (audit_path h m (take ?k vs)) = length (turns ?k m)"
          "climb_audit L (h (0x00 # vs ! m)) (zip (map (pb_to_base58 L) (audit_path h m (take ?k vs))) (turns ?k m)) = Some (mth h (take ?k vs))"
        using less.hyps [of "take ?k vs" m] b True by (simp_all add: min_absorb2)
      then show ?thesis using mth_split [OF n, of h] climb_audit_snoc_right(1) [OF dg] b58 by (simp add: p t)
    next
      case False
      then have "?k \<le> m" by simp
      note t = turns_simps(3) [OF n this]
      have p: "audit_path h m vs = audit_path h (m - ?k) (drop ?k vs) @ [mth h (take ?k vs)]" using n False by (subst audit_path.simps) (simp add: Let_def)
      have IH: "length (audit_path h (m - ?k) (drop ?k vs)) = length (turns (length vs - ?k) (m - ?k))"
          "climb_audit L (h (0x00 # vs ! m)) (zip (map (pb_to_base58 L) (audit_path h (m - ?k) (drop ?k vs))) (turns (length vs - ?k) (m - ?k)))
            = Some (mth h (drop ?k vs))"
        using less.hyps [of "drop ?k vs" "m - ?k"] b False less.prems by simp_all
      then show ?thesis using mth_split [OF n, of h] climb_audit_snoc_right(2) [OF dg] b58 by (simp add: p t)
    qed
  qed
qed

section \<open>Verification of an audit path\<close>

text \<open>How a claim reads: the hashes of the path, the sequence number and the bytes of the transaction.\<close>

definition audit_claim :: "stlibs \<Rightarrow> bytes \<Rightarrow> kv list \<Rightarrow> string list \<Rightarrow> nat \<Rightarrow> bytes \<Rightarrow> bool" where
  "audit_claim S proof_nodes kvs hs seq_no bs \<longleftrightarrow>
    Option.bind (Option.bind (utf8_opt proof_nodes) (pb_json (st_plibs S))) string_list = Some hs \<and>
    (\<exists>key text rest. kvs = (key, Some text) # rest \<and>
      Option.bind (Option.bind (st_base64_decode S key) utf8_opt) parse_usize = Some seq_no \<and>
      Option.bind (pb_json (st_plibs S) text) (st_rmp S) = Some bs)"

lemma audit_matches_claim:
  assumes "pb_digest (st_plibs S) = total_digest h" "Option.bind (pb_json (st_plibs S) text) (st_rmp S) = Some bs"
  shows "audit_matches S hs (Some text) root ts \<longleftrightarrow>
    length hs = length ts \<and> climb_audit (st_plibs S) (h (0x00 # bs)) (zip hs ts) = Some root"
  using assms by (auto simp: audit_matches_def leaf_hash_of_def hash_leaf_def Option.bind_eq_Some_conv)

lemma verify_merkle_tree_eq:
  assumes "pb_digest (st_plibs S) = total_digest h" "audit_claim S proof_nodes kvs hs seq_no bs"
    and "0 < seq_no" "0 < len" "len \<le> 2 ^ 63"
  shows "verify_merkle_tree S proof_nodes root kvs len = Some (Inr (length hs = length (turns len (seq_no - 1)) \<and>
    climb_audit (st_plibs S) (h (0x00 # bs)) (zip hs (turns len (seq_no - 1))) = Some root))"
proof -
  from assms(2) obtain nodes key tx rest where c: "utf8_opt proof_nodes = Some nodes"
      "Option.bind (pb_json (st_plibs S) nodes) string_list = Some hs" "kvs = (key, Some tx) # rest"
      "Option.bind (Option.bind (st_base64_decode S key) utf8_opt) parse_usize = Some seq_no"
      "Option.bind (pb_json (st_plibs S) tx) (st_rmp S) = Some bs"
    by (auto simp: audit_claim_def Option.bind_eq_Some_conv)
  show ?thesis
    using assms(3) calculate_turns_eq [OF assms(4,5)] audit_matches_claim [OF assms(1) c(5)] c(1-4)
    by (simp add: verify_merkle_tree_def or_false_def usize_sub_le)
qed

lemma or_false_True: "or_false x f = Some (Inr True) \<longleftrightarrow> (\<exists>a. x = Some a \<and> f a = Some (Inr True))"
  by (cases x) (simp_all add: or_false_def)

lemma verify_merkle_tree_accepts:
  assumes "verify_merkle_tree S proof_nodes root kvs len = Some (Inr True)"
  shows "\<exists>hs seq_no bs. audit_claim S proof_nodes kvs hs seq_no bs"
proof (cases kvs)
  case (Cons kv rest)
  obtain key val where kv: "kv = (key, val)" by force
  from assms obtain nodes hs seq_no where a: "utf8_opt proof_nodes = Some nodes" "Option.bind (pb_json (st_plibs S) nodes) string_list = Some hs"
      "Option.bind (Option.bind (st_base64_decode S key) utf8_opt) parse_usize = Some seq_no"
    and b: "(case usize_sub (pb_overflow_checks (st_plibs S)) seq_no 1 of
          Inl e \<Rightarrow> Some (Inl e)
        | Inr idx \<Rightarrow>
            map_option (\<lambda>r. bindr r (\<lambda>turns. Inr (audit_matches S hs val root turns)))
              (calculate_turns (pb_overflow_checks (st_plibs S)) len idx)) = Some (Inr True)"
    unfolding verify_merkle_tree_def Cons kv by (auto simp: or_false_True)
  have "\<exists>ts. audit_matches S hs val root ts"
    using b by (cases "usize_sub (pb_overflow_checks (st_plibs S)) seq_no 1") (auto simp: bindr_Inr_iff)
  then obtain tx bs where "val = Some tx" "Option.bind (pb_json (st_plibs S) tx) (st_rmp S) = Some bs"
    by (auto simp: audit_matches_def leaf_hash_of_def Option.bind_eq_Some_conv split: option.splits)
  then show ?thesis using a Cons kv by (auto simp: audit_claim_def)
qed (use assms in \<open>simp add: verify_merkle_tree_def or_false_True\<close>)

lemma audit_path_verifies:
  assumes dg: "pb_digest (st_plibs S) = total_digest h" and b58: "\<And>x. pb_from_base58 (st_plibs S) (pb_to_base58 (st_plibs S) x) = Some x"
    and m: "m < length vs" "length vs \<le> 2 ^ 63"
    and claim: "audit_claim S proof_nodes kvs (map (pb_to_base58 (st_plibs S)) (audit_path h m vs)) (m + 1) (vs ! m)"
  shows "verify_merkle_tree S proof_nodes (mth h vs) kvs (length vs) = Some (Inr True)"
proof -
  have "0 < length vs" using m(1) by linarith
  from verify_merkle_tree_eq [OF dg claim _ this m(2)] climb_audit_complete [OF dg b58 m(1)] show ?thesis by simp
qed

section \<open>A small instance\<close>

text \<open>
  Parameters for concrete runs: a text that starts with a bracket is a JSON list of one string, any other text a string; base64 and
  base58 are the identity, MessagePack writes the bytes of a string.
\<close>

definition toy_json :: "string \<Rightarrow> Value option" where
  "toy_json s = (case s of c # t \<Rightarrow> Some (if c = CHR ''['' then Array [String t] else String s) | [] \<Rightarrow> None)"

definition toy_st :: stlibs where
  "toy_st = \<lparr> st_plibs = toy_plibs\<lparr>pb_json := toy_json\<rparr>,
     st_rlp = \<lparr> rlp_parse = RlpData, rlp_encode = (\<lambda>r. case r of RlpData bs \<Rightarrow> bs | _ \<Rightarrow> []), rlp_sha3 = sum_digest \<rparr>,
     st_base64_encode = of_bytes, st_base64_decode = (\<lambda>s. Some (as_bytes s)), st_hex = of_bytes,
     st_rmp = (\<lambda>v. case v of String s \<Rightarrow> Some (as_bytes s) | _ \<Rightarrow> None),
     st_signature_ok = (\<lambda>_. True), st_verify_multi_sig = (\<lambda>_ _ _. True), st_sp_parser = (\<lambda>_. None), st_protocol_version = 2 \<rparr>"

text \<open>The path of the second of two leaves.\<close>

definition toy_audit :: bytes where
  "toy_audit = as_bytes (CHR ''['' # of_bytes (sum_digest [0, 1]))"

lemma toy_st_simps [simp]:
  "pb_digest (st_plibs toy_st) = total_digest sum_digest"
  "pb_overflow_checks (st_plibs toy_st)"
  "pb_from_base58 (st_plibs toy_st) s = Some (as_bytes s)"
  by (simp_all add: toy_st_def)

lemma length_sum_digest: "length (sum_digest x) = 32"
  by (simp add: sum_digest_def)

lemma toy_audit_claim:
  "audit_claim toy_st toy_audit [(''2'', Some (of_bytes [2]))] [of_bytes (sum_digest [0, 1])] 2 [2]"
  "audit_claim toy_st toy_audit [(''3'', Some (of_bytes [2]))] [of_bytes (sum_digest [0, 1])] 3 [2]"
proof -
  have "utf8_opt toy_audit = Some (CHR ''['' # of_bytes (sum_digest [0, 1]))" by code_simp
  moreover have "utf8_opt (as_bytes ''2'') = Some ''2''" "utf8_opt (as_bytes ''3'') = Some ''3''" by code_simp+
  moreover have "decimal 2 = ''2''" "decimal 3 = ''3''" by code_simp+
  then have "parse_usize ''2'' = Some 2" "parse_usize ''3'' = Some 3" using parse_usize_decimal [of 2] parse_usize_decimal [of 3] by simp_all
  moreover have "pb_json (st_plibs toy_st) (of_bytes [2]) = Some (String (of_bytes [2]))" by code_simp
  ultimately show "audit_claim toy_st toy_audit [(''2'', Some (of_bytes [2]))] [of_bytes (sum_digest [0, 1])] 2 [2]"
    "audit_claim toy_st toy_audit [(''3'', Some (of_bytes [2]))] [of_bytes (sum_digest [0, 1])] 3 [2]"
    by (simp_all add: audit_claim_def toy_st_def toy_json_def)
qed

lemma toy_audit_accepts:
  "verify_merkle_tree toy_st toy_audit (mth sum_digest [[1], [2]]) [(''2'', Some (of_bytes [2]))] 2 = Some (Inr True)"
proof -
  have "turns 2 1 = [False]" by code_simp
  then show ?thesis
    using verify_merkle_tree_eq [OF toy_st_simps(1) toy_audit_claim(1), of 2]
    by (simp add: mth_split [of "[[1], [2]]"] mth.simps [of _ "[_]"] split_point.simps hash_nodes_def)
qed

section \<open>Properties\<close>

text \<open>
  C19: \<^verbatim>\<open>_calculate_turns\<close> returns for every ledger size from one to \<open>2 ^ 63\<close>, with the turns of RFC 6962, and never for the
  size zero: a reply that carries the ledger size zero, which no signature covers, makes the pool's thread loop for ever.
\<close>
theorem calculate_turns_returns:
  assumes "n \<le> 2 ^ 63"
  shows "calculate_turns c n m = (if n = 0 then None else Some (Inr (turns n m)))"
  using calculate_turns_zero calculate_turns_eq assms by simp

text \<open>Witness for C19: the third of five leaves, and no leaf at all.\<close>
theorem calculate_turns_returns_witness:
  "calculate_turns True 5 2 = Some (Inr (turns 5 2)) \<and> turns 5 2 = [True, False, True] \<and> calculate_turns True 0 2 = None"
proof -
  have "turns 5 2 = [True, False, True]" by code_simp
  then show ?thesis using calculate_turns_returns [of 5 True 2] calculate_turns_returns [of 0 True 2] by simp
qed

text \<open>
  C18: soundness of audit paths. Let the digest have a fixed output length and no collision between what the tree hashes and what the
  path hashes. If \<^verbatim>\<open>_verify_merkle_tree\<close> accepts a transaction against the root of the ledger and its size, then it is
  the transaction of the ledger with the claimed number, or the last one if the number is larger than the ledger.
\<close>
theorem audit_path_sound:
  assumes dg: "pb_digest (st_plibs S) = total_digest h" and len: "\<And>x. length (h x) = 32"
    and vs: "vs \<noteq> []" "length vs \<le> 2 ^ 63" and mt: "from_vec (pb_digest (st_plibs S)) vs = Inr mt"
    and acc: "verify_merkle_tree S proof_nodes (root_hash mt) kvs (length vs) = Some (Inr True)"
    and claim: "audit_claim S proof_nodes kvs hs seq_no bs" "0 < seq_no"
    and coll: "collision_free h (tree_inputs (mt_root mt))
      ((0x00 # bs) # audit_inputs (st_plibs S) h (h (0x00 # bs)) (zip hs (turns (length vs) (seq_no - 1))))"
  shows "bs = vs ! min (seq_no - 1) (length vs - 1)"
proof -
  have root: "mt_root mt = rfc_tree h vs" "root_hash mt = mth h vs" using mt dg by (auto simp: from_vec_rfc_merkle rfc_merkle_def root_hash_def tree_hash_rfc_tree)
  have pos: "0 < length vs" using vs(1) by simp
  define m where "m = min (seq_no - 1) (length vs - 1)"
  have t: "turns (length vs) (seq_no - 1) = turns (length vs) m"
    using turns_beyond [OF pos, of "seq_no - 1"] by (cases "seq_no - 1 < length vs") (auto simp: m_def min_def)
  have a: "length hs = length (turns (length vs) m)" "climb_audit (st_plibs S) (h (0x00 # bs)) (zip hs (turns (length vs) m)) = Some (mth h vs)"
    using acc verify_merkle_tree_eq [OF dg claim pos vs(2), of "root_hash mt"] by (simp_all add: t [unfolded One_nat_def] root)
  have "m < length vs" using pos by (simp add: m_def min_less_iff_disj)
  from climb_audit_sound [OF dg len vs(1) this a] coll show ?thesis unfolding root t m_def [symmetric] by blast
qed

text \<open>Witness for C18: the second of two transactions.\<close>
theorem audit_path_sound_witness:
  "\<exists>mt. from_vec (total_digest sum_digest) [[1], [2]] = Inr mt \<and>
    verify_merkle_tree toy_st toy_audit (root_hash mt) [(''2'', Some (of_bytes [2]))] 2 = Some (Inr True) \<and>
    [2] = [[1], [2 :: byte]] ! min (2 - 1) (2 - 1)"
proof -
  obtain mt where mt: "from_vec (total_digest sum_digest) [[1], [2]] = Inr mt" "root_hash mt = mth sum_digest [[1], [2]]"
      "mt_root mt = rfc_tree sum_digest [[1], [2]]" by (simp add: from_vec_rfc_merkle rfc_merkle_def root_hash_def tree_hash_rfc_tree)
  have t: "turns (length [[1], [2 :: byte]]) (2 - 1) = [False]" by code_simp
  have acc: "verify_merkle_tree toy_st toy_audit (root_hash mt) [(''2'', Some (of_bytes [2]))] (length [[1], [2 :: byte]]) = Some (Inr True)"
    using toy_audit_accepts mt(2) by (simp add: numeral_2_eq_2)
  have coll: "collision_free sum_digest (tree_inputs (mt_root mt)) ((0x00 # [2]) #
      audit_inputs (st_plibs toy_st) sum_digest (sum_digest (0x00 # [2])) (zip [of_bytes (sum_digest [0, 1])] (turns (length [[1], [2 :: byte]]) (2 - 1))))"
    unfolding t by (simp add: mt(3) rfc_tree_def join_trees_two joined_def hashed_leaf_def collision_free_def sum_digest_def sum_list_replicate)
  have "[2] = [[1], [2 :: byte]] ! min (2 - 1) (length [[1], [2 :: byte]] - 1)"
    by (rule audit_path_sound [OF toy_st_simps(1) length_sum_digest _ _ _ acc toy_audit_claim(1) _ coll]) (use mt(1) in simp_all)
  with mt(1) acc show ?thesis by (simp add: numeral_2_eq_2)
qed

text \<open>
  The sequence number is not bound. The verification of an audit path looks the same for the transaction number \<open>m + 1\<close> of a
  ledger of \<open>n\<close>, in the right half of the tree, and for the number \<open>m + 1 + k\<close> of a ledger of \<open>n + k\<close>, where \<open>k\<close> is the
  size of the left half; and for any two numbers past the end. The size of the ledger is not covered by the signature, so a node can
  answer a request for one transaction with another.
\<close>
theorem audit_index_not_bound:
  assumes dg: "pb_digest (st_plibs S) = total_digest h"
    and c: "audit_claim S proof_nodes kvs hs (m + 1) bs" "audit_claim S proof_nodes kvs' hs (m' + 1) bs"
    and n: "0 < n" "n' \<le> 2 ^ 63"
    and shift: "(1 < n \<and> split_point n \<le> m \<and> n' = n + split_point n \<and> m' = m + split_point n) \<or> (n' = n \<and> n - 1 \<le> m \<and> n - 1 \<le> m')"
  shows "verify_merkle_tree S proof_nodes root kvs n = verify_merkle_tree S proof_nodes root kvs' n'"
proof -
  have "turns n' m' = turns n m" using shift turns_shift [of n m] turns_beyond [OF n(1), of m] turns_beyond [OF n(1), of m'] by auto
  moreover have "0 < n'" "n \<le> 2 ^ 63" using shift n by auto
  ultimately show ?thesis
    using verify_merkle_tree_eq [OF dg c(1) _ n(1), of root] verify_merkle_tree_eq [OF dg c(2) _ _ n(2), of root] by simp
qed

text \<open>Instance of the above: the second transaction of two is accepted as the third of three.\<close>
theorem audit_index_not_bound_witness:
  "verify_merkle_tree toy_st toy_audit (mth sum_digest [[1], [2]]) [(''3'', Some (of_bytes [2]))] 3 = Some (Inr True)"
proof -
  have k: "split_point 2 = 1" by (simp add: split_point.simps)
  have c: "audit_claim toy_st toy_audit [(''2'', Some (of_bytes [2]))] [of_bytes (sum_digest [0, 1])] (1 + 1) [2]"
    "audit_claim toy_st toy_audit [(''3'', Some (of_bytes [2]))] [of_bytes (sum_digest [0, 1])] (2 + 1) [2]"
    using toy_audit_claim by (simp_all add: numeral_eq_Suc)
  from audit_index_not_bound [OF toy_st_simps(1) c, of 2 3] k toy_audit_accepts show ?thesis by simp
qed

end
