(* ===== verification/Trie_Proof.thy ===== *)
theory Trie_Proof
  imports Audit_Path
begin

text \<open>
  What an accepted state proof shows (\<^verbatim>\<open>verify_parsed_sp\<close> of \<^verbatim>\<open>state_proof/mod.rs\<close>): the value of a key is determined by the root
  hash, the key is one of the trie up to a flaw of the lookup in leaves, the root hash is signed by all but \<open>f\<close> nodes, and what this means for
  the answers of read requests.
\<close>

section \<open>Proofs of keys\<close>

lemma proof_nodes_wf:
  assumes "proof_nodes_of S p = Inr ns" "n \<in> set ns"
  shows "wf_node n"
proof -
  obtain r where r: "traverse decode (rlp_items (rlp_parse (st_rlp S) p)) = r" by blast
  have "r = Inr ns" using assms r by (cases r; cases "projl r") (auto simp: proof_nodes_of_def rlp_list_or_default_def)
  then show ?thesis using traverse_Inr_mem [OF _ assms(2)] r decode_wf by blast
qed

lemma map_of_trie_db: "map_of (trie_db S ns) h = Some n \<Longrightarrow> n \<in> set ns \<and> get_hash (st_rlp S) n = h"
  by (auto simp: trie_db_def dest!: map_of_SomeD)

text \<open>The encodings of nodes, which are hashed.\<close>

definition node_inputs :: "stlibs \<Rightarrow> TrieNode list \<Rightarrow> bytes list" where
  "node_inputs S ns = map (\<lambda>n. rlp_encode (st_rlp S) (rlp_append n)) ns"

lemma db_agree_collision_free:
  assumes p: "proof_nodes_of S p1 = Inr ns1" "proof_nodes_of S p2 = Inr ns2"
    and inj: "inj_on (rlp_encode (st_rlp S)) (rlp_append ` (set ns1 \<union> set ns2))"
    and coll: "collision_free (rlp_sha3 (st_rlp S)) (node_inputs S ns1) (node_inputs S ns2)"
  shows "db_agree (trie_db S ns1) (trie_db S ns2)"
  unfolding db_agree_def
proof (intro allI impI)
  fix h a b
  assume "map_of (trie_db S ns1) h = Some a" "map_of (trie_db S ns2) h = Some b"
  then have ab: "a \<in> set ns1" "b \<in> set ns2" "get_hash (st_rlp S) a = h" "get_hash (st_rlp S) b = h" using map_of_trie_db by blast+
  have e: "rlp_sha3 (st_rlp S) (rlp_encode (st_rlp S) (rlp_append a)) = rlp_sha3 (st_rlp S) (rlp_encode (st_rlp S) (rlp_append b))"
    using ab(3,4) by (simp add: get_hash_def)
  have "rlp_encode (st_rlp S) (rlp_append a) = rlp_encode (st_rlp S) (rlp_append b)"
    by (rule collision_freeD [OF coll _ _ e]) (use ab(1,2) in \<open>simp_all add: node_inputs_def\<close>)
  then have "rlp_append a = rlp_append b" by (rule inj_onD [OF inj _ imageI [OF UnI1 [OF ab(1)]] imageI [OF UnI2 [OF ab(2)]]])
  then show "a = b" using decode_rlp_append [OF proof_nodes_wf [OF p(1) ab(1)]] decode_rlp_append [OF proof_nodes_wf [OF p(2) ab(2)]] by (metis Inr_inject)
qed

lemma verify_proof_accepts:
  assumes "verify_proof S p root key v = Some (Inr True)"
  shows "\<exists>ns n. proof_nodes_of S p = Inr ns \<and> map_of (trie_db S ns) root = Some n \<and>
    get_str_value (st_rlp S) (trie_db S ns) n key = Some (Inr v)"
proof (cases "proof_nodes_of S p")
  case (Inr ns)
  with assms obtain n r where r: "map_of (trie_db S ns) root = Some n" "get_str_value (st_rlp S) (trie_db S ns) n key = Some r"
      "(case r of Inr val \<Rightarrow> Inr (val = v) | Inl Panic \<Rightarrow> Inl Panic | Inl (Error _) \<Rightarrow> Inr False) = Inr True"
    by (auto simp: verify_proof_def Let_def or_false_True)
  then have "r = Inr v" by (cases r; cases "projl r") simp_all
  then show ?thesis using Inr r(1,2) by blast
qed (use assms in \<open>simp add: verify_proof_def\<close>)

definition found_text :: "rlplibs \<Rightarrow> (TrieNode \<times> bytes) option \<Rightarrow> string option IndyResult" where
  "found_text R found =
    (case found of
       None \<Rightarrow> Inr None
     | Some (m, _) \<Rightarrow> bindr (node_value m) (\<lambda>raw.
         case raw of
           None \<Rightarrow> Inr None
         | Some v \<Rightarrow> bindr (ok_or (single_item R v) (Error InvalidStructure)) (\<lambda>bs.
             bindr (from_utf8 bs (Error InvalidStructure)) (\<lambda>s. Inr (Some s)))))"

lemma get_str_value_eq:
  "get_str_value R db n key = map_option (\<lambda>r. bindr r (found_text R)) (get_node_at db n (path_to_nibbles key) [])"
proof -
  have "bindr (bindr (bindr r (\<lambda>found. case found of Some (n, _) \<Rightarrow> node_value n | None \<Rightarrow> Inr None)) (\<lambda>raw.
      case raw of
        Some v \<Rightarrow> bindr (ok_or (single_item R v) (Error InvalidStructure)) (\<lambda>val. Inr (Some val))
      | None \<Rightarrow> Inr None)) (\<lambda>val.
      case val of
        Some bs \<Rightarrow> bindr (from_utf8 bs (Error InvalidStructure)) (\<lambda>s. Inr (Some s))
      | None \<Rightarrow> Inr None) = bindr r (found_text R)" for r
    unfolding found_text_def bindr_assoc
    by (intro bindr_cong refl) (auto simp: bindr_assoc split: option.splits intro!: bindr_cong)
  then show ?thesis by (simp add: get_str_value_def get_value_def get_raw_value_def option.map_comp comp_def)
qed

lemma found_text_Some: "found_text R (Some (m, q)) = Inr (Some s) \<longleftrightarrow> (\<exists>v. node_value m = Inr (Some v) \<and> value_text R v = Some s)"
proof -
  have "from_utf8 b e = Inr s \<longleftrightarrow> (case from_utf8 b e of Inr s \<Rightarrow> Some s | Inl _ \<Rightarrow> None) = Some s" for b e
    by (cases "from_utf8 b e") simp_all
  then show ?thesis by (auto simp: found_text_def value_text_def bindr_Inr_iff Option.bind_eq_Some_conv split: option.splits)
qed

lemma verify_proof_eq:
  assumes "proof_nodes_of S p = Inr ns" "map_of (trie_db S ns) root = Some n"
    and "get_node_at (trie_db S ns) n (path_to_nibbles key) [] = Some (Inr found)" "found_text (st_rlp S) found = Inr v"
  shows "verify_proof S p root key w = Some (Inr (v = w))"
  using assms by (simp add: verify_proof_def Let_def or_false_def get_str_value_eq)

text \<open>An accepted value is that of a key of the trie that the requested key is a prefix of.\<close>

lemma state_proof_sound:
  assumes "verify_proof S p root key (Some s) = Some (Inr True)"
  shows "\<exists>ns n ext v. proof_nodes_of S p = Inr ns \<and> map_of (trie_db S ns) root = Some n \<and>
    trie_maps (trie_db S ns) n (path_to_nibbles key @ ext) v \<and> value_text (st_rlp S) v = Some s"
proof -
  from verify_proof_accepts [OF assms] obtain ns n where n: "proof_nodes_of S p = Inr ns" "map_of (trie_db S ns) root = Some n"
      "get_str_value (st_rlp S) (trie_db S ns) n key = Some (Inr (Some s))" by blast
  then obtain found where f: "get_node_at (trie_db S ns) n (path_to_nibbles key) [] = Some (Inr found)" "found_text (st_rlp S) found = Inr (Some s)"
    by (auto simp: get_str_value_eq bindr_Inr_iff)
  then obtain m q where m: "found = Some (m, q)" by (cases found) (auto simp: found_text_def)
  with f(2) obtain v where v: "node_value m = Inr (Some v)" "value_text (st_rlp S) v = Some s" by (auto simp: found_text_Some)
  from get_node_at_sound [OF f(1)] m v n(1,2) show ?thesis by blast
qed

section \<open>Signatures\<close>

text \<open>The root hash of a proof is part of a value with a valid multi-signature, by all nodes of the pool but \<open>f\<close>.\<close>

definition signed_by :: "stlibs \<Rightarrow> Nodes \<Rightarrow> nat \<Rightarrow> ParsedSP \<Rightarrow> bool" where
  "signed_by S nodes f sp \<longleftrightarrow> signed_root sp \<and>
    (\<exists>signature participants val keys sig.
      parse_reply_for_proof_signature_checking S (ps_multi_signature sp) = Some (signature, participants, val) \<and>
      collect_ver_keys participants nodes = Inr keys \<and> pb_from_base58 (st_plibs S) signature = Some sig \<and>
      st_verify_multi_sig S sig val keys \<and> length nodes \<le> card (fst ` set nodes \<inter> set participants) + f)"

lemma collect_ver_keys_length:
  "collect_ver_keys ps nodes = Inr ks \<Longrightarrow> length ks = length (filter (\<lambda>n. fst n \<in> set ps) nodes)"
  by (induction ps nodes arbitrary: ks rule: collect_ver_keys.induct) (auto simp: bindr_Inr_iff split: if_splits option.splits)

lemma card_participants:
  "distinct (map fst nodes) \<Longrightarrow> card (fst ` set nodes \<inter> set ps) = length (filter (\<lambda>n. fst n \<in> set ps) nodes)"
proof -
  assume "distinct (map fst nodes)"
  then have "distinct (map fst (filter (\<lambda>n. fst n \<in> set ps) nodes))" by (rule distinct_map_filter)
  then have "length (filter (\<lambda>n. fst n \<in> set ps) nodes) = card (set (map fst (filter (\<lambda>n. fst n \<in> set ps) nodes)))"
    using distinct_card by fastforce
  moreover have "set (map fst (filter (\<lambda>n. fst n \<in> set ps) nodes)) = fst ` set nodes \<inter> set ps" by auto
  ultimately show ?thesis by simp
qed

lemma verify_one_sp_signed:
  assumes "verify_one_sp S nodes f sp = Some (Inr True)" "distinct (map fst nodes)" "f \<le> length nodes"
  shows "signed_by S nodes f sp"
proof -
  have r: "signed_root sp" using assms(1) by (auto simp: verify_one_sp_def split: if_splits)
  then obtain signature participants val where parsed:
      "parse_reply_for_proof_signature_checking S (ps_multi_signature sp) = Some (signature, participants, val)"
    using assms(1) by (auto simp: verify_one_sp_def or_false_True)
  obtain x where x: "verify_proof_signature S signature participants val nodes f = x" by blast
  have "x = Inr True" using assms(1) r parsed x by (cases x; cases "projl x"; cases "projr x") (simp_all add: verify_one_sp_def or_false_def)
  with parsed x have p:
      "parse_reply_for_proof_signature_checking S (ps_multi_signature sp) = Some (signature, participants, val)"
      "verify_proof_signature S signature participants val nodes f = Inr True" by simp_all
  from p(2) obtain keys sig where k: "collect_ver_keys participants nodes = Inr keys" "length nodes - f \<le> length keys"
      "pb_from_base58 (st_plibs S) signature = Some sig" "st_verify_multi_sig S sig val keys"
    using assms(3) by (auto simp: verify_proof_signature_def bindr_Inr_iff usize_sub_le split: if_splits option.splits)
  then have "length nodes \<le> card (fst ` set nodes \<inter> set participants) + f"
    using collect_ver_keys_length [OF k(1)] card_participants [OF assms(2), of participants] by simp
  then show ?thesis using r p(1) k unfolding signed_by_def by blast
qed

lemma verify_parsed_sp_signed:
  "verify_parsed_sp S nodes f sps = Some (Inr True) \<Longrightarrow> distinct (map fst nodes) \<Longrightarrow> f \<le> length nodes \<Longrightarrow> \<forall>sp\<in>set sps. signed_by S nodes f sp"
proof (induction sps)
  case (Cons sp sps)
  from Cons.prems(1) obtain x where x: "verify_one_sp S nodes f sp = Some x" by (cases "verify_one_sp S nodes f sp") auto
  then have "verify_one_sp S nodes f sp = Some (Inr True)" "verify_parsed_sp S nodes f sps = Some (Inr True)"
    using Cons.prems(1) by (cases x; cases "projr x"; simp)+
  then show ?case using Cons verify_one_sp_signed by simp
qed simp

text \<open>The verification of state proofs as the request handler calls it.\<close>

definition state_proof_libs :: "stlibs \<Rightarrow> nat \<Rightarrow> nat \<Rightarrow> splibs" where
  "state_proof_libs S threshold now =
    \<lparr> sp_verify = (\<lambda>result raw key nodes f.
        case parse_generic_reply_for_proof_checking S result raw key of
          Inl _ \<Rightarrow> None
        | Inr None \<Rightarrow> Some False
        | Inr (Some sps) \<Rightarrow> (case verify_parsed_sp S nodes f sps of Some (Inr b) \<Rightarrow> Some b | _ \<Rightarrow> None)),
      sp_threshold = threshold, sp_cur_time = now \<rparr>"

lemma state_proof_libs_verify:
  assumes "sp_verify (state_proof_libs S th now) result raw key nodes f = Some True"
  shows "\<exists>sps. parse_generic_reply_for_proof_checking S result raw key = Inr (Some sps) \<and> verify_parsed_sp S nodes f sps = Some (Inr True)"
proof -
  obtain r where r: "parse_generic_reply_for_proof_checking S result raw key = r" by blast
  with assms obtain sps where "r = Inr (Some sps)" "(case verify_parsed_sp S nodes f sps of Some (Inr b) \<Rightarrow> Some b | _ \<Rightarrow> None) = Some True"
    by (cases r) (auto simp: state_proof_libs_def split: option.splits)
  then show ?thesis using r by (cases "verify_parsed_sp S nodes f sps"; cases "the (verify_parsed_sp S nodes f sps)") auto
qed

lemma builtin_sps_not_empty:
  "parse_generic_reply_for_proof_checking S result raw key = Inr (Some sps) \<Longrightarrow> str_at result ''type'' = Some typ \<Longrightarrow>
    typ \<in> set REQUESTS_FOR_STATE_PROOFS \<Longrightarrow> sps \<noteq> []"
  by (auto simp: parse_generic_reply_for_proof_checking_def parse_reply_for_builtin_sp_def Option.bind_eq_Some_conv
      split: option.splits if_splits prod.splits)

section \<open>A small instance\<close>

text \<open>A proof is one leaf, with a path of three bytes; a value is marked as a list of one item by the byte two.\<close>

definition toy_rlp :: rlplibs where
  "toy_rlp = \<lparr>
     rlp_parse = (\<lambda>bs. case bs of
         [] \<Rightarrow> RlpInvalid 0
       | b # rest \<Rightarrow>
           if b = 1 then RlpList [RlpList [RlpData (take 3 rest), RlpData (drop 3 rest)]]
           else if b = 2 then RlpList [RlpData rest] else RlpData bs),
     rlp_encode = (\<lambda>r. case r of RlpList [RlpData p, RlpData v] \<Rightarrow> p @ v | _ \<Rightarrow> []),
     rlp_sha3 = sum_digest \<rparr>"

definition toy_trie :: stlibs where
  "toy_trie = toy_st\<lparr>st_rlp := toy_rlp\<rparr>"

text \<open>The trie with the single key \<^verbatim>\<open>ab\<close> and value \<^verbatim>\<open>x\<close>.\<close>

definition toy_leaf :: TrieNode where
  "toy_leaf = TrieLeaf [0x20, 0x61, 0x62] [2, 0x78]"

definition toy_proof :: bytes where
  "toy_proof = [1, 0x20, 0x61, 0x62, 2, 0x78]"

definition toy_root :: bytes where
  "toy_root = sum_digest [0x20, 0x61, 0x62, 2, 0x78]"

lemma toy_proof_nodes: "proof_nodes_of toy_trie toy_proof = Inr [toy_leaf]"
  by code_simp

lemma toy_trie_db: "trie_db toy_trie [toy_leaf] = [(toy_root, toy_leaf)]"
  by code_simp

lemma toy_leaf_text: "value_text (st_rlp toy_trie) [2, 0x78] = Some ''x''"
  by code_simp

lemma toy_leaf_path: "parse_path [0x20, 0x61, 0x62] = Inr (True, path_to_nibbles (as_bytes ''a'' @ as_bytes ''b''))"
  by code_simp

lemma toy_leaf_maps: "trie_maps (trie_db toy_trie [toy_leaf]) toy_leaf (path_to_nibbles (as_bytes ''ab'')) [2, 0x78]"
  unfolding toy_leaf_def by (rule trie_maps.leaf) code_simp

section \<open>Properties\<close>

text \<open>
  C17: a state proof determines the value. Two proofs that are accepted against the same root hash for the same key claim the same value,
  or the same absence of one, unless two different nodes of the proofs have the same encoding or the same hash.
\<close>
theorem state_proof_unique:
  assumes acc: "verify_proof S p1 root key v1 = Some (Inr True)" "verify_proof S p2 root key v2 = Some (Inr True)"
    and nodes: "proof_nodes_of S p1 = Inr ns1" "proof_nodes_of S p2 = Inr ns2"
    and inj: "inj_on (rlp_encode (st_rlp S)) (rlp_append ` (set ns1 \<union> set ns2))"
    and coll: "collision_free (rlp_sha3 (st_rlp S)) (node_inputs S ns1) (node_inputs S ns2)"
  shows "v1 = v2"
proof -
  note agree = db_agree_collision_free [OF nodes inj coll]
  from verify_proof_accepts [OF acc(1)] nodes(1) obtain n1 where n1: "map_of (trie_db S ns1) root = Some n1"
      "get_str_value (st_rlp S) (trie_db S ns1) n1 key = Some (Inr v1)" by auto
  from verify_proof_accepts [OF acc(2)] nodes(2) obtain n2 where n2: "map_of (trie_db S ns2) root = Some n2"
      "get_str_value (st_rlp S) (trie_db S ns2) n2 key = Some (Inr v2)" by auto
  have "n1 = n2" using agree n1(1) n2(1) by (auto simp: db_agree_def)
  from n1(2) n2(2) obtain f1 f2 where f: "get_node_at (trie_db S ns1) n1 (path_to_nibbles key) [] = Some (Inr f1)" "found_text (st_rlp S) f1 = Inr v1"
      "get_node_at (trie_db S ns2) n2 (path_to_nibbles key) [] = Some (Inr f2)" "found_text (st_rlp S) f2 = Inr v2"
    by (auto simp: get_str_value_eq bindr_Inr_iff)
  have "f1 = f2" using get_node_at_agree [OF f(1) agree] f(3) \<open>n1 = n2\<close> by blast
  then show ?thesis using f(2,4) by simp
qed

text \<open>Witness for C17: the only proof for a trie of one leaf.\<close>
theorem state_proof_unique_witness:
  "verify_proof toy_trie toy_proof toy_root (as_bytes ''ab'') (Some ''x'') = Some (Inr True) \<and> Some ''x'' = Some ''x''"
proof -
  have db: "map_of (trie_db toy_trie [toy_leaf]) toy_root = Some toy_leaf" by (simp add: toy_trie_db)
  have path: "parse_path [0x20, 0x61, 0x62] = Inr (True, path_to_nibbles (as_bytes ''ab''))" by code_simp
  then have "get_node_at (trie_db toy_trie [toy_leaf]) toy_leaf (path_to_nibbles (as_bytes ''ab'')) [] = Some (Inr (Some (toy_leaf, [])))"
    by (subst get_node_at.simps) (simp add: toy_leaf_def)
  moreover have "found_text (st_rlp toy_trie) (Some (toy_leaf, [])) = Inr (Some ''x'')"
    using toy_leaf_text path by (simp add: found_text_Some node_value_def toy_leaf_def)
  ultimately have acc: "verify_proof toy_trie toy_proof toy_root (as_bytes ''ab'') (Some ''x'') = Some (Inr True)"
    using verify_proof_eq [OF toy_proof_nodes db] by simp
  have "inj_on (rlp_encode (st_rlp toy_trie)) (rlp_append ` (set [toy_leaf] \<union> set [toy_leaf]))"
    "collision_free (rlp_sha3 (st_rlp toy_trie)) (node_inputs toy_trie [toy_leaf]) (node_inputs toy_trie [toy_leaf])"
    by (simp_all add: collision_free_def node_inputs_def)
  from state_proof_unique [OF acc acc toy_proof_nodes toy_proof_nodes this] acc show ?thesis by blast
qed

text \<open>
  Completeness of state proofs. For a key of the trie of the proof the verification returns, and accepts exactly the value of the key.
\<close>
theorem state_proof_complete:
  assumes "proof_nodes_of S p = Inr ns" "map_of (trie_db S ns) root = Some n"
    and "trie_maps (trie_db S ns) n (path_to_nibbles key) v" "value_text (st_rlp S) v = Some s"
  shows "verify_proof S p root key w = Some (Inr (w = Some s))"
proof -
  from get_raw_value_complete [OF assms(3), of "[]"] obtain m q where m: "get_node_at (trie_db S ns) n (path_to_nibbles key) [] = Some (Inr (Some (m, q)))"
      "node_value m = Inr (Some v)" by blast
  then have "found_text (st_rlp S) (Some (m, q)) = Inr (Some s)" using assms(4) by (simp add: found_text_Some)
  from verify_proof_eq [OF assms(1,2) m(1) this] show ?thesis by auto
qed

text \<open>Instance of the above: the only key of a trie.\<close>
theorem state_proof_complete_witness:
  "verify_proof toy_trie toy_proof toy_root (as_bytes ''ab'') (Some ''x'') = Some (Inr True) \<and>
   verify_proof toy_trie toy_proof toy_root (as_bytes ''ab'') None = Some (Inr False)"
proof -
  have "map_of (trie_db toy_trie [toy_leaf]) toy_root = Some toy_leaf" by (simp add: toy_trie_db)
  from state_proof_complete [OF toy_proof_nodes this toy_leaf_maps toy_leaf_text] show ?thesis by simp
qed

text \<open>
  A leaf is taken for any prefix of its key. Where the search ends in a leaf, the code asks whether the path of the leaf starts with
  what is left of the key, not whether they are equal. The value of a leaf is accepted for every key that its own key extends, although the trie
  has no such key; a proof that the shorter key is absent is rejected.
\<close>
theorem prefix_key_accepted:
  assumes "proof_nodes_of S p = Inr ns" "map_of (trie_db S ns) root = Some (TrieLeaf path v)"
    and "parse_path path = Inr (True, path_to_nibbles (key @ ext))" "ext \<noteq> []" "value_text (st_rlp S) v = Some s"
  shows "verify_proof S p root key (Some s) = Some (Inr True) \<and> verify_proof S p root key None = Some (Inr False) \<and>
    (\<nexists>w. trie_maps (trie_db S ns) (TrieLeaf path v) (path_to_nibbles key) w)"
proof -
  have app: "path_to_nibbles (key @ ext) = path_to_nibbles key @ path_to_nibbles ext" "path_to_nibbles ext \<noteq> []"
    using assms(4) by (cases ext; simp add: path_to_nibbles_def)+
  have found: "get_node_at (trie_db S ns) (TrieLeaf path v) (path_to_nibbles key) [] = Some (Inr (Some (TrieLeaf path v, [])))"
    using assms(3) app(1) by (subst get_node_at.simps) simp
  have "found_text (st_rlp S) (Some (TrieLeaf path v, [])) = Inr (Some s)"
    using assms(3,5) by (simp add: found_text_Some node_value_def)
  note v = verify_proof_eq [OF assms(1,2) found this]
  have "\<not> trie_maps (trie_db S ns) (TrieLeaf path v) (path_to_nibbles key) w" for w
    using assms(3) app by (auto elim!: trie_maps_cases)
  then show ?thesis using v by auto
qed

text \<open>Instance of the above: the value of the key \<^verbatim>\<open>ab\<close> is accepted for the key \<^verbatim>\<open>a\<close>.\<close>
theorem prefix_key_accepted_witness:
  "verify_proof toy_trie toy_proof toy_root (as_bytes ''a'') (Some ''x'') = Some (Inr True)"
proof -
  have "map_of (trie_db toy_trie [toy_leaf]) toy_root = Some (TrieLeaf [0x20, 0x61, 0x62] [2, 0x78])"
    unfolding toy_leaf_def [symmetric] toy_trie_db by simp
  from prefix_key_accepted [OF toy_proof_nodes this toy_leaf_path _ toy_leaf_text] show ?thesis by simp
qed

text \<open>
  C16: an answer on the word of one node is signed by the others. A read or write request of a pool of distinct nodes is only answered with a message
  if more than \<open>f\<close> nodes sent its result, or if it carries state proofs whose root hashes all nodes but \<open>f\<close> have signed together; a message
  of a built-in type carries at least one.
\<close>
theorem answer_signed:
  assumes run: "run_events L d (request_sm_new f ids nodes t et nr) evs = (d', effs, r)" "SubmitAck i (Inr m) \<in> set effs"
    and evs: "\<forall>e\<in>set evs. (\<exists>th now. fst e = state_proof_libs S th now) \<and> (\<nexists>m i t ns. snd e = CustomFullRequest m i t ns)"
    and nodes: "distinct (map fst nodes)" "f \<le> length nodes"
  shows "(\<exists>v. result_of L m = Some v \<and> f < card (voters L evs v)) \<or>
    (\<exists>result v key sps. get_msg_result_without_state_proof L m = Inr (result, v) \<and>
      parse_generic_reply_for_proof_checking S result m key = Inr (Some sps) \<and> (\<forall>sp\<in>set sps. signed_by S nodes f sp) \<and>
      (\<forall>typ. str_at result ''type'' = Some typ \<and> typ \<in> set REQUESTS_FOR_STATE_PROOFS \<longrightarrow> sps \<noteq> []))"
proof -
  have "backing L [] (sm_state (request_sm_new f ids nodes t et nr))" by simp
  from run_backed [OF this run(1)] run(2) evs have "backed L nodes f evs m" by (auto simp: oks_def)
  moreover have ?thesis if p: "proved L nodes f evs m"
  proof -
    from p obtain sp re a result v key where e: "(sp, re) \<in> set evs" "get_msg_result_without_state_proof L m = Inr (result, v)"
        "sp_verify sp result m key nodes f = Some True" unfolding proved_def by blast
    from evs e(1) obtain th now where "sp = state_proof_libs S th now" by fastforce
    with state_proof_libs_verify e(3) obtain sps where "parse_generic_reply_for_proof_checking S result m key = Inr (Some sps)"
        "verify_parsed_sp S nodes f sps = Some (Inr True)" by blast
    with e(2) verify_parsed_sp_signed [OF _ nodes] builtin_sps_not_empty show ?thesis by blast
  qed
  ultimately show ?thesis by (auto simp: backed_def)
qed

text \<open>Witness for C16: two of four nodes send the same result.\<close>
theorem answer_signed_witness:
  "\<exists>effs r. run_events toy_net toy_dir toy_request [(state_proof_libs toy_trie 600 0, CustomConsensusRequest ''q'' ''1''),
      (state_proof_libs toy_trie 600 0, ReplyEvent (ReplyV0 1) ''x'' ''A'' ''1''),
      (state_proof_libs toy_trie 600 0, ReplyEvent (ReplyV0 1) ''x'' ''B'' ''1'')] = (toy_dir, effs, r) \<and> SubmitAck 7 (Inr ''x'') \<in> set effs \<and>
    ((\<exists>v. result_of toy_net ''x'' = Some v \<and> 1 < card (voters toy_net [(state_proof_libs toy_trie 600 0, CustomConsensusRequest ''q'' ''1''),
      (state_proof_libs toy_trie 600 0, ReplyEvent (ReplyV0 1) ''x'' ''A'' ''1''),
      (state_proof_libs toy_trie 600 0, ReplyEvent (ReplyV0 1) ''x'' ''B'' ''1'')] v)) \<or>
     (\<exists>result v key sps. get_msg_result_without_state_proof toy_net ''x'' = Inr (result, v) \<and>
        parse_generic_reply_for_proof_checking toy_trie result ''x'' key = Inr (Some sps) \<and> (\<forall>sp\<in>set sps. signed_by toy_trie toy_nodes 1 sp)))"
proof -
  let ?sp = "state_proof_libs toy_trie 600 0"
  note run = toy_consensus [of toy_dir ?sp]
  have evs: "\<forall>e\<in>set [(?sp, CustomConsensusRequest ''q'' ''1''), (?sp, ReplyEvent (ReplyV0 1) ''x'' ''A'' ''1''), (?sp, ReplyEvent (ReplyV0 1) ''x'' ''B'' ''1'')].
      (\<exists>th now. fst e = state_proof_libs toy_trie th now) \<and> (\<nexists>m i t ns. snd e = CustomFullRequest m i t ns)" by auto
  have nodes: "distinct (map fst toy_nodes)" "1 \<le> length toy_nodes" by (simp_all add: toy_nodes_def)
  have i: "SubmitAck 7 (Inr ''x'') \<in> set [ToNetworker (SendAllRequest ''q'' ''1'' 20 None), ToNetworker (CleanTimeout ''1'' (Some ''A'')),
      SubmitAck 7 (Inr ''x''), ToNetworker (CleanTimeout ''1'' None)]" by simp
  from answer_signed [OF run i evs nodes] show ?thesis using run i by blast
qed

end
