(* ===== verification/Pool_Session.thy ===== *)
theory Pool_Session
  imports Pool_Runs Trie_Proof
begin

text \<open>
  What a client of an open pool can rely on: the answers to its requests, the acknowledgements of its commands, the end of
  a session; and what the machine does not do. The runs are those of \<^verbatim>\<open>PoolThread::_loop\<close> from a machine that was
  just created, over any sequence of events that \<^verbatim>\<open>_poll\<close> can fetch.
\<close>

section \<open>The diagram of the pool's states\<close>

datatype phase = Initial | Targeting | Running | Syncing | Stopped | Ended

fun phase_of :: "PoolState \<Rightarrow> phase" where
  "phase_of Initialization = Initial"
| "phase_of (GettingCatchupTarget _) = Targeting"
| "phase_of (Active _) = Running"
| "phase_of (SyncCatchup _) = Syncing"
| "phase_of Terminated = Stopped"
| "phase_of Closed = Ended"

text \<open>The transitions that the comment on \<^verbatim>\<open>PoolState\<close> lists.\<close>

inductive listed :: "phase \<Rightarrow> phase \<Rightarrow> bool" where
  init: "q \<in> {Targeting, Running, Stopped, Ended} \<Longrightarrow> listed Initial q"
| target: "q \<in> {Syncing, Running, Stopped, Ended} \<Longrightarrow> listed Targeting q"
| active: "q \<in> {Targeting, Stopped, Ended} \<Longrightarrow> listed Running q"
| sync: "q \<in> {Running, Stopped, Ended} \<Longrightarrow> listed Syncing q"
| stopped: "q \<in> {Targeting, Ended} \<Longrightarrow> listed Stopped q"
| closed: "listed Ended Ended"

inductive_simps listed_simps: "listed p q"

inductive_cases listed_Ended: "listed Ended q"

definition follows :: "phase \<Rightarrow> pool_handled \<Rightarrow> bool" where
  "follows p h \<longleftrightarrow> (case h of (d, effs, r) \<Rightarrow> \<forall>st. r = Inr st \<longrightarrow> phase_of st = p \<or> listed p (phase_of st))"

lemma follows_simps [simp]:
  "follows p (d, effs, Inl e)" "follows p (d, effs, Inr st) \<longleftrightarrow> phase_of st = p \<or> listed p (phase_of st)"
  by (simp_all add: follows_def)

lemma follows_after [simp]: "follows p (after effs h) \<longleftrightarrow> follows p h"
  by (cases "(effs, h)" rule: after.cases) (simp add: follows_def)

lemma follows_process: "(\<And>d1 h' ev. follows p (k d1 h' ev)) \<Longrightarrow> follows p (process P sp d h ore k)"
  by (simp add: process_def split: prod.split sum.split)

lemma follows_with_nodes: "listed p Stopped \<Longrightarrow> (\<And>nodes. follows p (k nodes)) \<Longrightarrow> follows p (with_nodes P d merkle k)"
  by (auto simp: with_nodes_def split: sum.split failure.split)

lemma follows_ledger_status:
  assumes "\<And>x effs st. k x = (effs, st) \<Longrightarrow> phase_of st = p \<or> listed p (phase_of st)"
  shows "follows p (with_ledger_status_sent P sp d sm k)"
proof -
  have "follows p (process P sp d1 h ore (\<lambda>d2 h _. case k (Inr h) of (effs, st) \<Rightarrow> (d2, effs, Inr st)))" for d1 h ore
    by (rule follows_process) (auto simp: assms split: prod.split)
  then show ?thesis using assms by (auto simp: with_ledger_status_sent_def split: prod.split sum.split failure.split)
qed

lemma follows_terminate_all: "listed p Ended \<Longrightarrow> follows p (terminate_all P sp d hs)"
proof (induction hs arbitrary: d)
  case (Cons h hs)
  then show ?case by (simp add: follows_process)
qed simp

lemma follows_catching:
  "follows Targeting (target_event P sp d sm st pe)" "follows Syncing (sync_event P sp d sm st pe)"
proof -
  have c: "follows p (close_catching P sp d st c)" if "listed p Ended" for p c
    using that by (auto simp: close_catching_def intro!: follows_process)
  have a: "follows p (activate P d sm st merkle)" if "listed p Stopped" "listed p Running" for p merkle
    using that by (auto simp: activate_def intro!: follows_with_nodes)
  show "follows Targeting (target_event P sp d sm st pe)"
    by (cases "(P, sp, d, sm, st, pe)" rule: target_event.cases)
       (auto simp: c a listed_simps intro!: follows_with_nodes follows_process)
  show "follows Syncing (sync_event P sp d sm st pe)"
    by (cases "(P, sp, d, sm, st, pe)" rule: sync_event.cases) (auto simp: c a listed_simps)
qed

lemma follows_active: "follows Running (active_event P sp d sm st pe)"
  by (cases "(P, sp, d, sm, st, pe)" rule: active_event.cases)
     (auto simp: listed_simps active_send_def active_reply_def active_timeout_def
       intro!: follows_process follows_ledger_status follows_terminate_all split: option.split sum.splits)

lemma follows_step: "follows (phase_of (pl_state sm)) (pool_state_event P sp d sm pe)"
proof (cases "pl_state sm")
  case Initialization
  then show ?thesis by (cases "(P, sp, d, sm, pe)" rule: init_event.cases)
      (auto simp: pool_state_event_def listed_simps intro!: follows_ledger_status split: sum.splits)
next
  case Terminated
  then show ?thesis by (cases "(P, sp, d, sm, pe)" rule: terminated_event.cases)
      (auto simp: pool_state_event_def listed_simps intro!: follows_ledger_status split: sum.splits)
next
  case (GettingCatchupTarget st)
  then show ?thesis by (simp add: pool_state_event_def follows_process follows_catching)
next
  case (SyncCatchup st)
  then show ?thesis by (simp add: pool_state_event_def follows_process follows_catching)
next
  case (Active st)
  then show ?thesis by (simp add: pool_state_event_def follows_active)
next
  case Closed
  then show ?thesis by (simp add: pool_state_event_def)
qed

section \<open>Closing\<close>

lemma terminate_asking:
  assumes "asking (sm_state sm)"
  shows "request_process_event L sp d (Some sm) (Some TerminateEvent) =
    (d, if sm_state sm = Finish then [] else finish_request (sm_cmd_ids sm), Inr (Some (sm\<lparr>sm_state := Finish\<rparr>), None))"
  using assms by (cases "sm_state sm") (simp_all add: request_process_Some state_event_def)

definition cancelled :: "pool_effect \<Rightarrow> bool" where
  "cancelled e \<longleftrightarrow> (\<exists>c. e = RequestEffect (SubmitAck c (Inl (Error PoolTerminated))))"

lemma terminate_all_answers:
  "list_all (\<lambda>e. \<exists>sm. snd e = Some sm \<and> asking (sm_state sm)) hs \<Longrightarrow>
    \<exists>effs. terminate_all P sp d (map snd hs) = (d, effs, Inr Closed) \<and> acknowledged effs = owed_by_all hs \<and> list_all cancelled effs"
proof (induction hs)
  case (Cons e hs)
  then obtain sm effs where sm: "snd e = Some sm" "asking (sm_state sm)"
      and ih: "terminate_all P sp d (map snd hs) = (d, effs, Inr Closed)" "acknowledged effs = owed_by_all hs" "list_all cancelled effs"
    by auto
  have "list_all cancelled (map RequestEffect (finish_request ids))" for ids
    by (simp add: finish_request_def send_replies_def list_all_iff cancelled_def)
  moreover have "acknowledged (map RequestEffect (finish_request ids)) = mset ids" for ids by (simp add: finish_request_def)
  ultimately show ?case using ih sm by (simp add: process_def terminate_asking)
qed simp

section \<open>Requests that nobody answers\<close>

lemma idle_send:
  assumes "pool_good P K hist (pl_state sm)" "phase_of (pl_state sm) \<noteq> Running"
  shows "pool_handle_event P sp d sm (SendRequest c msg t ns) = (d, [], Inr sm)"
proof -
  have nop: "after [] h = h" for h by (cases h) simp
  have k: "process P sp d (Some rm) (request_event P msg t ns) k = k d (Some rm) None"
    if "(\<exists>cc. sm_state rm = CatchupConsensus cc) \<or> (\<exists>cs. sm_state rm = CatchupSingle cs)" for rm k
  proof (cases "request_event P msg t ns")
    case (Some re)
    have "state_event (po_plibs P) sp d rm re = (d, [], Inr (sm_state rm, None))"
      using that request_event_custom [OF Some] by (cases re) (auto simp: state_event_def)
    then show ?thesis using Some by (simp add: process_def request_process_Some nop)
  qed (simp add: process_def request_process_event_def nop)
  have same: "st\<lparr>ca_handler := Some rm\<rparr> = st" if "ca_handler st = Some rm" for st :: Catching and rm
    using that by (cases st) simp
  have "pool_state_event P sp d sm (SendRequest c msg t ns) = (d, [], Inr (pl_state sm))"
    using assms by (cases "pl_state sm") (auto simp: pool_state_event_def pool_good_def unwrap_event_def k same)
  then show ?thesis by (simp add: pool_handle_event_def)
qed

text \<open>What a run from the start keeps, and the moment at which it gives an answer.\<close>

lemma pool_new_run:
  assumes "pool_loop P d (pool_sm_new pool_id t et nr) evs = (d', effs, r)" "\<forall>e\<in>set evs. fetched (snd e)"
  shows "\<And>sm. r = Inr sm \<Longrightarrow> pool_good P (held P d (pool_sm_new pool_id t et nr) evs) evs (pl_state sm)"
    "acknowledged effs + (case r of Inr sm \<Rightarrow> owed (pl_state sm) | Inl _ \<Rightarrow> {#}) \<subseteq># commands evs"
proof -
  show "pool_good P (held P d (pool_sm_new pool_id t et nr) evs) evs (pl_state sm)" if "r = Inr sm" for sm
    using good.run_keeps [of P "held P d (pool_sm_new pool_id t et nr) evs" "[]", OF _ assms(2) _ assms(1) [unfolded that]]
    by (simp add: pool_sm_new_def)
  show "acknowledged effs + (case r of Inr sm \<Rightarrow> owed (pl_state sm) | Inl _ \<Rightarrow> {#}) \<subseteq># commands evs"
    using pool_loop_accounts [OF assms(1)] by (simp add: pool_sm_new_def)
qed

lemma answer_moment:
  assumes "pool_loop P d (pool_sm_new pool_id t et nr) evs = (d', effs, r)" "\<forall>e\<in>set evs. fetched (snd e)"
    and "RequestEffect (SubmitAck c (Inr m)) \<in> set effs"
  obtains evs1 sp pe evs2 d1 effs1 sm st i where "evs = evs1 @ (sp, pe) # evs2"
    "pool_loop P d (pool_sm_new pool_id t et nr) evs1 = (d1, effs1, Inr sm)" "pl_state sm = Active st"
    "RequestEffect (SubmitAck c (Inr m)) \<in> set (fst (snd (pool_handle_event P sp d1 sm pe)))"
    "asked P (evs1 @ [(sp, pe)]) i c"
    "full_asked P (evs1 @ [(sp, pe)]) i \<or>
      backed (po_plibs P) (ac_nodes st) (get_f (length (ac_nodes st))) (events_of P i (evs1 @ [(sp, pe)])) m"
  using good.run_emits [of P "\<lambda>_. True" "[]" "pool_sm_new pool_id t et nr", OF _ assms(2) _ assms(1,3)]
  by (fastforce simp: emits_def pool_sm_new_def)

lemma refresh_drops:
  assumes "pool_handle_event P sp d sm (Refresh r) = (d', effs, x)" "pl_state sm = Active st"
  shows "acknowledged effs + (case x of Inr sm' \<Rightarrow> owed (pl_state sm') | Inl _ \<Rightarrow> {#}) \<subseteq># {#r#}"
proof -
  have "accounts {#r#} (active_event P sp d sm st (Refresh r))" by (simp, intro accounts_ledger_status) auto
  then show ?thesis using assms by (auto simp: pool_handle_event_def pool_state_event_def accounts_def split: prod.splits sum.splits)
qed

lemma loop_Cons:
  assumes "pool_loop P d sm ((sp, pe) # evs) = (d2, effs, r)" "pool_handle_event P sp d sm pe = (d1, effs1, x)"
  shows "acknowledged effs \<subseteq># acknowledged effs1 + (case x of Inr sm' \<Rightarrow> owed (pl_state sm') | Inl _ \<Rightarrow> {#}) + commands evs"
proof (cases x)
  case (Inl e)
  then show ?thesis using assms by auto
next
  case (Inr sm')
  then obtain effs2 where e: "pool_loop P d1 sm' evs = (d2, effs2, r)" "effs = effs1 @ effs2"
    using assms by (auto split: prod.splits)
  have "acknowledged effs2 \<subseteq># owed (pl_state sm') + commands evs"
    using pool_loop_accounts [OF e(1)] mset_subset_eq_add_left subset_mset.trans by blast
  then show ?thesis using e(2) Inr by (simp add: add.assoc)
qed

section \<open>Signatures\<close>

text \<open>The nodes whose signatures a state proof names.\<close>

definition signers :: "stlibs \<Rightarrow> Nodes \<Rightarrow> ParsedSP \<Rightarrow> string set" where
  "signers S nodes sp =
    (case parse_reply_for_proof_signature_checking S (ps_multi_signature sp) of
       Some (_, participants, _) \<Rightarrow> fst ` set nodes \<inter> set participants
     | None \<Rightarrow> {})"

lemma signed_by_signers: "signed_by S nodes f sp \<Longrightarrow> length nodes \<le> card (signers S nodes sp) + f \<and> signers S nodes sp \<subseteq> fst ` set nodes"
  by (auto simp: signed_by_def signers_def)

lemma quorums_meet:
  assumes "A \<subseteq> N" "B \<subseteq> N" "finite N" "card N \<le> n" "n \<le> card A + f" "n \<le> card B + f"
  shows "n \<le> card (A \<inter> B) + 2 * f"
proof -
  have "card A + card B = card (A \<union> B) + card (A \<inter> B)" using assms(1-3) by (intro card_Un_Int) (auto intro: finite_subset)
  moreover have "card (A \<union> B) \<le> card N" using assms(1-3) by (intro card_mono) auto
  ultimately show ?thesis using assms(4-6) by linarith
qed

section \<open>A small instance\<close>

text \<open>
  A pool of one node, whose name is its only transaction. The node can report a ledger of one transaction, and
  answers every request with the text \<^verbatim>\<open>x\<close>.
\<close>

definition toy_txn :: "string \<Rightarrow> NodeTransactionV1" where
  "toy_txn name = from_v0 \<lparr> n0_data = \<lparr> nd_alias = name, nd_client_ip = Some ''h'', nd_client_port = Some 1, nd_node_ip = None, nd_node_port = None,
     nd_services = Some [''VALIDATOR''], nd_blskey = Some ''k'', nd_blskey_pop = None \<rparr>, n0_dest = name, n0_identifier = [], n0_txn_id = None,
     n0_verkey = None, n0_txn_type = ''0'' \<rparr>"

definition pool_plibs :: plibs where
  "pool_plibs = toy_plibs\<lparr> pb_json := (\<lambda>s. if s = ''q'' then Some (Object [(''reqId'', Number 1), (''operation'', Object [(''type'', String ''1'')])])
     else if s = ''a'' then Some (String s) else Some (Object [(''result'', String s)])) \<rparr>"

abbreviation toy_ring :: Nodes where
  "toy_ring \<equiv> [(''a'', Some [107])]"

definition toy_root58 :: string where
  "toy_root58 = of_bytes (mth sum_digest [[97]])"

definition toy_pool :: poollibs where
  "toy_pool = \<lparr> po_nlibs = \<lparr> nb_plibs = pool_plibs, nb_decode = (\<lambda>x. Some (TransactionV1 (toy_txn (of_bytes x)))), nb_transport_key = Some,
       nb_bls_key = Some, nb_order = (\<lambda>xs. xs), nb_protocol_version = 2 \<rparr>,
     po_stlibs = toy_st,
     po_message = (\<lambda>s. if s = ''x'' then Some (ReplyMsg (ReplyV0 1))
       else if s = ''s'' then Some (LedgerStatusMsg \<lparr> txnSeqNo = 1, merkleRoot = toy_root58, ls_ledgerId = 0, ppSeqNo = None, viewNo = None, protocolVersion = None \<rparr>)
       else None) \<rparr>"

abbreviation toy_machine :: PoolSM where
  "toy_machine \<equiv> pool_sm_new 5 20 60 2"

definition toy_active :: "(string \<times> handler) list \<Rightarrow> PoolSM" where
  "toy_active hs = toy_machine\<lparr> pl_state := Active \<lparr> ac_handlers = hs, ac_nodes = toy_ring \<rparr> \<rparr>"

definition toy_remote :: RemoteNode where
  "toy_remote = \<lparr> rn_name = ''a'', rn_public_key = [97], rn_zaddr = ''tcp://h:1'', rn_is_blacklisted = False \<rparr>"

lemma pool_create: "create pool_plibs one_dir = Inr (rfc_merkle sum_digest [[97]])"
proof -
  have "holds_txns pool_plibs one_dir [[97]]"
  proof -
    have "genesis_to_binary pool_plibs one_dir [97] = Inr [[97]]" by code_simp
    then show ?thesis by (simp add: holds_txns_def one_dir_def toy_dir_def toy_blank)
  qed
  from create_holds [OF _ this] show ?thesis by (simp add: pool_plibs_def from_vec_rfc_merkle)
qed

lemma toy_nodes_and_remotes:
  "get_nodes_and_remotes (po_nlibs toy_pool) (rfc_merkle sum_digest [[97]]) = Inr (toy_ring, [toy_remote])"
proof -
  have "iter_collect (mt_iter (rfc_merkle sum_digest [[97]])) = [[97]]" by (simp only: mt_iter_def rfc_merkle_def MerkleTree.simps iter_collect_rfc_tree)
  moreover have "of_bytes [97] = ''a''" "as_bytes ''a'' = [97]" "as_bytes ''k'' = [107]" "decimal 1 = ''1''" by code_simp+
  ultimately show ?thesis
    by (simp add: get_nodes_and_remotes_def build_node_state_def toy_pool_def check_version_def toy_txn_def from_v0_def
        node_of_txn_def pool_plibs_def toy_remote_def)
qed

lemma toy_pool_simps [simp]: "po_plibs toy_pool = pool_plibs" "pb_to_base58 pool_plibs = of_bytes" "po_stlibs toy_pool = toy_st"
  by (simp_all add: toy_pool_def pool_plibs_def)

lemma toy_tree_and_nodes:
  "tree_and_nodes toy_pool one_dir = (one_dir, Inr (rfc_merkle sum_digest [[97]], toy_ring, [toy_remote]))"
  by (simp add: tree_and_nodes_def toy_nodes_and_remotes pool_create Let_def)

definition toy_target :: "PoolSM" where
  "toy_target = toy_machine\<lparr> pl_state := GettingCatchupTarget \<lparr>
     ca_handler = Some ((request_sm_new 0 [] toy_ring 20 60 2)\<lparr>sm_state := CatchupConsensus \<lparr> cc_replies = [], cc_merkle_tree = rfc_merkle sum_digest [[97]] \<rparr>\<rparr>),
     ca_cmd_id = 1, ca_refresh = False \<rparr> \<rparr>"

lemma toy_open:
  "\<exists>msg. pool_handle_event toy_pool toy_sp one_dir toy_machine (CheckCache 1) =
    (one_dir, [notify (NodesStateUpdated [toy_remote]), notify (SendAllRequest msg toy_root58 60 None)], Inr toy_target)"
  by (simp add: pool_handle_event_def pool_state_event_def pool_sm_new_def with_ledger_status_sent_def toy_tree_and_nodes process_def
      new_handler_def request_process_Some state_event_def toy_target_def get_f_def ledger_status_def
      toy_root58_def request_sm_new_def)

lemma toy_synced:
  "pool_handle_event toy_pool toy_sp one_dir toy_target (NodeReply ''s'' ''a'') =
    (one_dir, [notify (CleanTimeout toy_root58 None), notify (NodesStateUpdated [toy_remote]), OpenAck 1 5 (Inr ())], Inr (toy_active []))"
proof -
  have "parse_msg toy_pool ''s'' = Some (LedgerStatusMsg \<lparr> txnSeqNo = 1, merkleRoot = toy_root58, ls_ledgerId = 0, ppSeqNo = None, viewNo = None, protocolVersion = None \<rparr>)"
    by (simp add: parse_msg_def from_raw_str_def toy_pool_def)
  moreover have "try_to_catch_up pool_plibs (toy_root58, 1, None) (rfc_merkle sum_digest [[97]]) = Inr (NotNeeded (rfc_merkle sum_digest [[97]]))"
    using tree_hash_rfc_tree [of sum_digest "[[97]]"] by (simp add: try_to_catch_up_def toy_root58_def rfc_merkle_def root_hash_def)
  moreover have "toy_root58 \<noteq> ''timeout''" unfolding toy_root58_def by (simp add: mth.simps sum_digest_def) code_simp
  ultimately show ?thesis
    by (simp add: pool_handle_event_def pool_state_event_def toy_target_def pool_sm_new_def process_def request_process_Some state_event_def
      catchup_target_handle_consensus_state_def process_catchup_target_def check_nodes_responses_on_status_def request_sm_new_def
      unwrap_event_def activate_def with_nodes_def toy_nodes_and_remotes send_open_refresh_ack_def toy_active_def)
qed

abbreviation toy_asking :: handler where
  "toy_asking \<equiv> Some ((request_sm_new 0 [2] toy_ring 20 60 2)\<lparr>sm_state := Consensus consensus_new\<rparr>)"

lemma toy_request_event: "request_event toy_pool ''q'' None None = Some (CustomConsensusRequest ''q'' ''1'')"
proof -
  have "decimal 1 = ''1''" by code_simp
  then have "parse_req_id_and_op pool_plibs ''q'' = Inr (Object [(''reqId'', Number 1), (''operation'', Object [(''type'', String ''1'')])], ''1'', ''1'')"
    by (simp add: parse_req_id_and_op_def pool_plibs_def)
  moreover have "''1'' \<notin> set REQUEST_FOR_FULL" "''1'' \<notin> set REQUESTS_FOR_STATE_PROOFS"
    by (simp_all add: REQUEST_FOR_FULL_def REQUESTS_FOR_STATE_PROOFS_def GET_REVOC_REG_DELTA_def)
  ultimately show ?thesis by (simp add: request_event_def toy_st_def)
qed

lemma toy_asked:
  "pool_handle_event toy_pool toy_sp one_dir (toy_active []) (SendRequest 2 ''q'' None None) =
    (one_dir, [notify (SendAllRequest ''q'' ''1'' 20 None)], Inr (toy_active [(''1'', toy_asking)]))"
  by (simp add: pool_handle_event_def pool_state_event_def toy_active_def active_send_def toy_request_event new_handler_def get_f_def
      process_def request_process_Some state_event_def pool_sm_new_def request_sm_new_def)

lemma toy_message: "parse_msg toy_pool ''x'' = Some (ReplyMsg (ReplyV0 1))"
  by (simp add: parse_msg_def from_raw_str_def toy_pool_def)

lemma toy_answered:
  "pool_handle_event toy_pool toy_sp one_dir (toy_active [(''1'', toy_asking)]) (NodeReply ''x'' ''a'') =
    (one_dir, [RequestEffect (SubmitAck 2 (Inr ''x'')), notify (CleanTimeout ''1'' None)], Inr (toy_active []))"
proof -
  have "decimal 1 = ''1''" by code_simp
  moreover have "get_msg_result_without_state_proof pool_plibs ''x'' = Inr (String ''x'', String ''x'')"
    by (simp add: get_msg_result_without_state_proof_def pool_plibs_def Let_def)
  ultimately show ?thesis
    by (simp add: pool_handle_event_def pool_state_event_def toy_active_def active_reply_def toy_message process_def request_process_Some
      state_event_def consensus_reply_def consensus_new_def Let_def send_ok_replies_def send_replies_def request_sm_new_def
      handler_is_terminal_def request_is_terminal_def)
qed

abbreviation toy_opening :: history where
  "toy_opening \<equiv> [(toy_sp, CheckCache 1), (toy_sp, NodeReply ''s'' ''a'')]"

abbreviation toy_session :: history where
  "toy_session \<equiv> toy_opening @ [(toy_sp, SendRequest 2 ''q'' None None)]"

lemma toy_runs:
  "\<exists>effs. pool_loop toy_pool one_dir toy_machine toy_opening = (one_dir, effs, Inr (toy_active []))"
  "\<exists>effs. pool_loop toy_pool one_dir toy_machine toy_session = (one_dir, effs, Inr (toy_active [(''1'', toy_asking)]))"
  "\<exists>effs. pool_loop toy_pool one_dir toy_machine (toy_session @ [(toy_sp, NodeReply ''x'' ''a'')]) = (one_dir, effs, Inr (toy_active [])) \<and>
     RequestEffect (SubmitAck 2 (Inr ''x'')) \<in> set effs"
  using toy_open by (auto simp: toy_synced toy_asked toy_answered)

text \<open>A proof that the only node has signed.\<close>

definition toy_signed :: ParsedSP where
  "toy_signed = \<lparr> ps_proof_nodes = [], ps_root_hash = ''r'', ps_kvs_to_verify = KvSimple [] VerifySimple,
     ps_multi_signature = Object [(''signature'', String ''z''), (''participants'', Array [String ''a'']),
       (''value'', Object [(''state_root_hash'', String ''r'')])] \<rparr>"

definition toy_signatures :: stlibs where
  "toy_signatures = toy_st\<lparr>st_plibs := (st_plibs toy_st)\<lparr>pb_rmp := (\<lambda>_. Some [])\<rparr>\<rparr>"

lemma toy_signed_accepted: "verify_parsed_sp toy_signatures toy_ring 0 [toy_signed] = Some (Inr True)"
  by code_simp

section \<open>Properties\<close>



text \<open>
  C12: no command is acknowledged more often than it was given. Over any run, the commands that were acknowledged, by an
  answer, an open, a refresh or a close, together with those that the machine still owes an answer, are among the commands given.
\<close>
theorem pool_acknowledges_once:
  assumes "pool_loop P d (pool_sm_new pool_id t et nr) evs = (d', effs, r)"
  shows "acknowledged effs + (case r of Inr sm \<Rightarrow> owed (pl_state sm) | Inl _ \<Rightarrow> {#}) \<subseteq># commands evs"
  using pool_loop_accounts [OF assms] by (simp add: pool_sm_new_def)

text \<open>Witness for C12: the request is owed an answer, and the opening of the pool has been acknowledged.\<close>
theorem pool_acknowledges_once_witness:
  "\<exists>effs sm. pool_loop toy_pool one_dir toy_machine toy_session = (one_dir, effs, Inr sm) \<and> owed (pl_state sm) = {#2#} \<and>
    acknowledged effs + owed (pl_state sm) \<subseteq># {#1, 2#}"
proof -
  obtain effs where run: "pool_loop toy_pool one_dir toy_machine toy_session = (one_dir, effs, Inr (toy_active [(''1'', toy_asking)]))"
    using toy_runs(2) by blast
  moreover have "owed (pl_state (toy_active [(''1'', toy_asking)])) = {#2#}" by (simp add: toy_active_def)
  ultimately show ?thesis using pool_acknowledges_once [OF run] by (auto simp: add_mset_commute)
qed

text \<open>
  C13: closing answers everything that is under way. Whatever happened before, a pool that is active reacts to the command to close
  it with the acknowledgement of that command and, for every request that has not been answered yet, exactly one answer, the error
  \<^verbatim>\<open>PoolTerminated\<close>; then it is closed. It does not panic.
\<close>
theorem close_answers_all:
  assumes "pool_loop P d (pool_sm_new pool_id t et nr) evs = (d', effs, Inr sm)" "\<forall>e\<in>set evs. fetched (snd e)" "pl_state sm = Active st"
  shows "\<exists>effs'. pool_handle_event P sp d' sm (Close c) = (d', CloseAck c (Inr ()) # effs', Inr (sm\<lparr>pl_state := Closed\<rparr>)) \<and>
    acknowledged effs' = owed (pl_state sm) \<and> list_all cancelled effs'"
proof -
  have "list_all (handles P evs (ac_nodes st)) (ac_handlers st)" using pool_new_run(1) [OF assms(1,2)] assms(3) by (simp add: pool_good_def)
  then have "list_all (\<lambda>e. \<exists>rm. snd e = Some rm \<and> asking (sm_state rm)) (ac_handlers st)" by (auto simp: list_all_iff handles_def)
  from terminate_all_answers [OF this, of P sp d'] show ?thesis
    using assms(3) by (auto simp: pool_handle_event_def pool_state_event_def close_pool_ack_def)
qed

text \<open>Witness for C13: closing with one request under way.\<close>
theorem close_answers_all_witness:
  "\<exists>effs' sm. pool_handle_event toy_pool toy_sp one_dir sm (Close 3) = (one_dir, CloseAck 3 (Inr ()) # effs', Inr (sm\<lparr>pl_state := Closed\<rparr>)) \<and>
    acknowledged effs' = {#2#} \<and> list_all cancelled effs'"
proof -
  let ?sm = "toy_active [(''1'', toy_asking)]"
  obtain effs where run: "pool_loop toy_pool one_dir toy_machine toy_session = (one_dir, effs, Inr ?sm)" using toy_runs(2) by blast
  have st: "pl_state ?sm = Active \<lparr> ac_handlers = [(''1'', toy_asking)], ac_nodes = toy_ring \<rparr>" "owed (pl_state ?sm) = {#2#}"
    by (simp_all add: toy_active_def)
  have "\<forall>e\<in>set toy_session. fetched (snd e)" by simp
  from close_answers_all [OF run this st(1), of toy_sp 3] show ?thesis unfolding st(2) by blast
qed

text \<open>
  C14: the machine follows its diagram. A step stays in its state or takes one of the transitions listed in the comment on
  \<^verbatim>\<open>PoolState\<close>, keeping the parameters of the pool; a closed pool stays closed and does nothing.
\<close>
theorem pool_follows_diagram:
  assumes "pool_handle_event P sp d sm pe = (d', effs, Inr sm')"
  shows "(phase_of (pl_state sm') = phase_of (pl_state sm) \<or> listed (phase_of (pl_state sm)) (phase_of (pl_state sm'))) \<and>
    sm' = sm\<lparr>pl_state := pl_state sm'\<rparr> \<and> (pool_is_terminal sm \<longrightarrow> sm' = sm \<and> effs = [] \<and> d' = d)"
proof -
  obtain st where st: "pool_state_event P sp d sm pe = (d', effs, Inr st)" "sm' = sm\<lparr>pl_state := st\<rparr>"
    using assms by (auto simp: pool_handle_event_def bindr_Inr_iff split: prod.splits)
  have "pool_is_terminal sm \<longrightarrow> sm' = sm \<and> effs = [] \<and> d' = d"
    using st by (cases sm) (auto simp: pool_is_terminal_def pool_state_event_def split: PoolState.splits)
  then show ?thesis using follows_step [of sm P sp d pe] st by (simp add: follows_def)
qed

text \<open>Witness for C14: the pool becomes active.\<close>
theorem pool_follows_diagram_witness:
  "\<exists>d' effs. pool_handle_event toy_pool toy_sp one_dir toy_target (NodeReply ''s'' ''a'') = (d', effs, Inr (toy_active [])) \<and>
    listed (phase_of (pl_state toy_target)) (phase_of (pl_state (toy_active [])))"
  using toy_synced pool_follows_diagram [OF toy_synced] by (auto simp: toy_target_def toy_active_def)

text \<open>
  Requests that are never answered. A request submitted while the pool is not active, because it is opening, refreshing or
  terminated, is dropped; a refresh drops every request under way. Neither is ever acknowledged, whatever happens later, unless the
  same command is given again.
\<close>
theorem requests_lost:
  assumes "pool_loop P d0 (pool_sm_new pool_id t et nr) evs0 = (d, effs0, Inr sm)" "\<forall>e\<in>set evs0. fetched (snd e)"
    and "(\<exists>msg to ns. pe = SendRequest c msg to ns) \<and> phase_of (pl_state sm) \<noteq> Running \<and> c \<notin># commands evs0 \<or>
      (\<exists>r. pe = Refresh r \<and> r \<noteq> c) \<and> phase_of (pl_state sm) = Running"
    and "pool_loop P d sm ((sp, pe) # evs) = (d', effs, x)" "c \<notin># commands evs"
  shows "c \<notin># acknowledged effs"
proof -
  obtain d1 effs1 y where h: "pool_handle_event P sp d sm pe = (d1, effs1, y)" by (rule prod_cases3)
  have "c \<notin># acknowledged effs1 + (case y of Inr sm' \<Rightarrow> owed (pl_state sm') | Inl _ \<Rightarrow> {#})"
    using assms(3)
  proof (elim disjE conjE exE)
    fix msg to ns
    assume a: "pe = SendRequest c msg to ns" "phase_of (pl_state sm) \<noteq> Running" "c \<notin># commands evs0"
    have "pool_handle_event P sp d sm pe = (d, [], Inr sm)" unfolding a(1) by (rule idle_send [OF pool_new_run(1) [OF assms(1,2) refl] a(2)])
    then have "effs1 = []" "y = Inr sm" using h by simp_all
    moreover have "acknowledged effs0 + owed (pl_state sm) \<subseteq># commands evs0" using pool_new_run(2) [OF assms(1,2)] by simp
    then have le: "owed (pl_state sm) \<subseteq># commands evs0" by (rule subset_mset.trans [OF mset_subset_eq_add_right])
    have "c \<notin># owed (pl_state sm)" using mset_subset_eqD [OF le, of c] a(3) by blast
    ultimately show ?thesis by simp
  next
    fix r
    assume a: "pe = Refresh r" "r \<noteq> c" "phase_of (pl_state sm) = Running"
    then obtain st where st: "pl_state sm = Active st" by (cases "pl_state sm") auto
    have "c \<notin># {#r#}" using a(2) by simp
    then show ?thesis using mset_subset_eqD [OF refresh_drops [OF h [unfolded a(1)] st]] by blast
  qed
  then have "c \<notin># acknowledged effs1 + (case y of Inr sm' \<Rightarrow> owed (pl_state sm') | Inl _ \<Rightarrow> {#}) + commands evs"
    using assms(5) by simp
  then show ?thesis using mset_subset_eqD [OF loop_Cons [OF assms(4) h]] by blast
qed

text \<open>Instance of the above: one request is under way when the pool is refreshed.\<close>
theorem requests_lost_witness:
  "\<exists>d' effs x. pool_loop toy_pool one_dir (toy_active [(''1'', toy_asking)])
      [(toy_sp, Refresh 3), (toy_sp, NodeReply ''x'' ''a''), (toy_sp, Close 4)] = (d', effs, x) \<and>
    2 \<in># owed (pl_state (toy_active [(''1'', toy_asking)])) \<and> 2 \<notin># acknowledged effs"
proof -
  let ?sm = "toy_active [(''1'', toy_asking)]" and ?evs = "[(toy_sp, NodeReply ''x'' ''a''), (toy_sp, Close 4)]"
  obtain effs where run: "pool_loop toy_pool one_dir toy_machine toy_session = (one_dir, effs, Inr ?sm)" using toy_runs(2) by blast
  obtain d' effs' x where loop: "pool_loop toy_pool one_dir ?sm ((toy_sp, Refresh 3) # ?evs) = (d', effs', x)" by (rule prod_cases3)
  have "\<forall>e\<in>set toy_session. fetched (snd e)" by simp
  from requests_lost [OF run this _ loop, of 2] have "2 \<notin># acknowledged effs'" by (simp add: toy_active_def)
  moreover have "2 \<in># owed (pl_state ?sm)" by (simp add: toy_active_def)
  ultimately show ?thesis using loop by blast
qed

text \<open>
  C15: two quorums of signatures share an honest node. For the nodes that the transactions of a ledger describe, any two
  state proofs that are accepted, in the same reply or in different ones, name more than \<open>f\<close> common nodes as signers.
\<close>
theorem signatures_overlap:
  assumes nodes: "get_nodes_and_remotes N mt = Inr (nodes, remotes)" "nodes \<noteq> []"
    and acc: "verify_parsed_sp S nodes (get_f (length nodes)) sps = Some (Inr True)" "verify_parsed_sp S nodes (get_f (length nodes)) sps' = Some (Inr True)"
    and mem: "a \<in> set sps" "b \<in> set sps'"
  shows "get_f (length nodes) < card (signers S nodes a \<inter> signers S nodes b)"
proof -
  have f: "3 * get_f (length nodes) < length nodes" using get_f_bound [of "length nodes"] nodes(2) by simp
  then have "get_f (length nodes) \<le> length nodes" by linarith
  with verify_parsed_sp_signed [OF _ get_nodes_distinct(1) [OF nodes(1)]] acc mem
  have "signed_by S nodes (get_f (length nodes)) a" "signed_by S nodes (get_f (length nodes)) b" by blast+
  moreover have "card (fst ` set nodes) \<le> length nodes" by (metis card_image_le card_length finite_set order_trans)
  ultimately have "length nodes \<le> card (signers S nodes a \<inter> signers S nodes b) + 2 * get_f (length nodes)"
    using signed_by_signers by (intro quorums_meet [of _ "fst ` set nodes"]) auto
  then show ?thesis using f by simp
qed

text \<open>Witness for C15: a proof signed by the only node of the pool, received twice.\<close>
theorem signatures_overlap_witness:
  "verify_parsed_sp toy_signatures toy_ring (get_f (length toy_ring)) [toy_signed] = Some (Inr True) \<and>
    get_f (length toy_ring) < card (signers toy_signatures toy_ring toy_signed \<inter> signers toy_signatures toy_ring toy_signed)"
proof -
  have acc: "verify_parsed_sp toy_signatures toy_ring (get_f (length toy_ring)) [toy_signed] = Some (Inr True)"
    using toy_signed_accepted by (simp add: get_f_def)
  have "toy_signed \<in> set [toy_signed]" "toy_ring \<noteq> []" by simp_all
  from signatures_overlap [OF toy_nodes_and_remotes this(2) acc acc this(1,1)] acc show ?thesis by blast
qed

text \<open>
  The state of a node is what its transactions say last. If the nodes of a ledger can be built, then every
  transaction can be decoded and has the version in use, and there is a state for exactly the nodes with a transaction: each field has
  the last value that a transaction of the node gave it, in the order of the ledger, or none, and all of them have the same alias.
\<close>
theorem node_state_latest:
  assumes "build_node_state N mt = Inr state"
  shows "\<exists>ts. node_txns N mt = Inr ts \<and> (\<forall>dest. case map_of state dest of
      None \<Rightarrow> \<forall>t\<in>set ts. txn_dest t \<noteq> dest
    | Some t \<Rightarrow> txns_for dest ts \<noteq> [] \<and> holds_latest dest t (txns_for dest ts))"
proof -
  have "latest_map [] []" by (simp add: latest_map_def)
  from node_state_loop_latest [OF assms [unfolded build_node_state_def] this] obtain ts where
    ts: "node_txns N mt = Inr ts" "latest_map ts state" by (auto simp: node_txns_def)
  have "case map_of state dest of None \<Rightarrow> \<forall>t\<in>set ts. txn_dest t \<noteq> dest | Some t \<Rightarrow> txns_for dest ts \<noteq> [] \<and> holds_latest dest t (txns_for dest ts)" for dest
    using spec [OF ts(2) [unfolded latest_map_def], of dest] by (cases "map_of state dest") (auto simp: filter_empty_conv)
  with ts(1) show ?thesis by blast
qed

text \<open>Instance of the above: the ledger with one node.\<close>
theorem node_state_latest_witness:
  "\<exists>state ts. build_node_state (po_nlibs toy_pool) (rfc_merkle sum_digest [[97]]) = Inr state \<and>
    node_txns (po_nlibs toy_pool) (rfc_merkle sum_digest [[97]]) = Inr ts \<and> (\<forall>dest. map_of state dest = None \<longrightarrow> (\<forall>t\<in>set ts. txn_dest t \<noteq> dest))"
proof -
  obtain state where st: "build_node_state (po_nlibs toy_pool) (rfc_merkle sum_digest [[97]]) = Inr state"
    using toy_nodes_and_remotes by (auto simp: get_nodes_and_remotes_def bindr_Inr_iff)
  from node_state_latest [OF st] obtain ts where ts: "node_txns (po_nlibs toy_pool) (rfc_merkle sum_digest [[97]]) = Inr ts"
    "\<forall>dest. case map_of state dest of None \<Rightarrow> \<forall>t\<in>set ts. txn_dest t \<noteq> dest | Some t \<Rightarrow> txns_for dest ts \<noteq> [] \<and> holds_latest dest t (txns_for dest ts)"
    by blast
  have "\<forall>dest. map_of state dest = None \<longrightarrow> (\<forall>t\<in>set ts. txn_dest t \<noteq> dest)"
    using ts(2) by (metis (mono_tags, lifting) option.simps(4))
  with st ts(1) show ?thesis by blast
qed

end
