(* ===== verification/Identifiers.thy ===== *)
theory Identifiers
  imports Rust_Std
begin

text \<open>
  The identifiers of anonymous credentials: \<^verbatim>\<open>src/utils/qualifier.rs\<close>, the DIDs of
  \<^verbatim>\<open>src/domain/crypto/did.rs\<close>, and the ids of schemas, credential definitions and revocation registries
  with the data they name (\<^verbatim>\<open>src/domain/anoncreds/\<close>). An id is a string with colons that is put together from
  its parts and taken apart again; the lemmas say for which parts this gives back what was put in.
\<close>

section \<open>Patterns\<close>

text \<open>
  The regular expressions of the code are sequences of literals and greedy repetitions, anchored at the end. As in the
  \<^verbatim>\<open>regex\<close> crate a repetition takes the longest run with which the rest of the pattern matches. The captures are the
  runs of the repetitions, in order. All literals are ASCII, so that bytes stand for characters.
\<close>

datatype pattern = Lit string | Rep nat "char \<Rightarrow> bool"

primrec longest :: "(nat \<Rightarrow> 'a option) \<Rightarrow> nat \<Rightarrow> nat \<Rightarrow> 'a option" where
  "longest f lo 0 = (if lo = 0 then f 0 else None)"
| "longest f lo (Suc n) =
    (if Suc n < lo then None else case f (Suc n) of Some x \<Rightarrow> Some x | None \<Rightarrow> longest f lo n)"

primrec captures :: "pattern list \<Rightarrow> string \<Rightarrow> string list option" where
  "captures [] s = (if s = [] then Some [] else None)"
| "captures (p # ps) s =
    (case p of
       Lit l \<Rightarrow> if take (length l) s = l then captures ps (drop (length l) s) else None
     | Rep lo q \<Rightarrow>
         longest (\<lambda>n. map_option (Cons (take n s)) (captures ps (drop n s))) lo (length (takeWhile q s)))"

text \<open>A pattern that is not anchored at the start is tried at every position, from the left.\<close>

fun search_captures :: "pattern list \<Rightarrow> string \<Rightarrow> string list option" where
  "search_captures ps s =
    (case captures ps s of
       Some cs \<Rightarrow> Some cs
     | None \<Rightarrow> (case s of [] \<Rightarrow> None | _ # t \<Rightarrow> search_captures ps t))"

declare search_captures.simps [simp del]

definition alnum :: "char \<Rightarrow> bool" where
  "alnum c \<longleftrightarrow> (let n = of_char c :: nat in (48 \<le> n \<and> n \<le> 57) \<or> (97 \<le> n \<and> n \<le> 122))"

definition dot :: "char \<Rightarrow> bool" where
  "dot c \<longleftrightarrow> c \<noteq> CHR 0x0A"

section \<open>Splitting at a delimiter\<close>

abbreviation colon :: char where
  "colon \<equiv> CHR '':''"

definition DELIMITER :: string where
  "DELIMITER = '':''"

fun split_on :: "char \<Rightarrow> string \<Rightarrow> string list" where
  "split_on d [] = [[]]"
| "split_on d (c # s) =
    (if c = d then [] # split_on d s
     else case split_on d s of [] \<Rightarrow> [[c]] | p # ps \<Rightarrow> (c # p) # ps)"

definition split_terminator :: "char \<Rightarrow> string \<Rightarrow> string list" where
  "split_terminator d s = (let ps = split_on d s in if last ps = [] then butlast ps else ps)"

fun join_str :: "string list \<Rightarrow> string \<Rightarrow> string" where
  "join_str [] d = []"
| "join_str [p] d = p"
| "join_str (p # q # ps) d = p @ d @ join_str (q # ps) d"

definition str_starts_with :: "string \<Rightarrow> string \<Rightarrow> bool" where
  "str_starts_with s p \<longleftrightarrow> take (length p) s = p"

definition parse_i32 :: "string \<Rightarrow> int option" where
  "parse_i32 s =
    (let (neg, ds) = (case s of
           [] \<Rightarrow> (False, [])
         | c # r \<Rightarrow> if c = CHR ''-'' then (True, r) else if c = CHR ''+'' then (False, r) else (False, s)) in
     if ds = [] then None
     else Option.bind (parse_digits 0 ds) (\<lambda>n.
       let i = (if neg then - int n else int n) in
       if - (2 ^ 31) \<le> i \<and> i < 2 ^ 31 then Some i else None))"

section \<open>Qualifiers\<close>

definition REGEX :: "pattern list" where
  "REGEX = [Rep 1 alnum, Lit '':'', Rep 1 alnum, Lit '':'', Rep 0 dot]"

definition qualify :: "string \<Rightarrow> string \<Rightarrow> string \<Rightarrow> string" where
  "qualify entity pre meth = pre @ '':'' @ meth @ '':'' @ entity"

definition to_unqualified :: "string \<Rightarrow> string" where
  "to_unqualified entity = (case captures REGEX entity of Some [_, _, e] \<Rightarrow> e | _ \<Rightarrow> entity)"

definition qualifier_method :: "string \<Rightarrow> string option" where
  "qualifier_method entity = (case captures REGEX entity of Some [_, m, _] \<Rightarrow> Some m | _ \<Rightarrow> None)"

definition is_fully_qualified :: "string \<Rightarrow> bool" where
  "is_fully_qualified entity \<longleftrightarrow> captures REGEX entity \<noteq> None"

section \<open>DIDs\<close>

datatype DidValue = DidValue (did_str: string)

datatype ShortDidValue = ShortDidValue (short_did_str: string)

definition DID_PREFIX :: string where
  "DID_PREFIX = ''did''"

definition did_get_method :: "DidValue \<Rightarrow> string option" where
  "did_get_method d = qualifier_method (did_str d)"

definition did_set_method :: "DidValue \<Rightarrow> string \<Rightarrow> DidValue" where
  "did_set_method d m = DidValue (qualify (did_str d) DID_PREFIX m)"

definition did_is_fully_qualified :: "DidValue \<Rightarrow> bool" where
  "did_is_fully_qualified d \<longleftrightarrow> str_starts_with (did_str d) DID_PREFIX \<and> is_fully_qualified (did_str d)"

definition did_new :: "string \<Rightarrow> string option \<Rightarrow> DidValue" where
  "did_new did m = (case m of Some m' \<Rightarrow> did_set_method (DidValue did) m' | None \<Rightarrow> DidValue did)"

definition did_qualify :: "DidValue \<Rightarrow> string \<Rightarrow> DidValue" where
  "did_qualify d m = did_set_method d m"

definition did_to_unqualified :: "DidValue \<Rightarrow> DidValue" where
  "did_to_unqualified d = DidValue (to_unqualified (did_str d))"

definition did_to_short :: "DidValue \<Rightarrow> ShortDidValue" where
  "did_to_short d = ShortDidValue (did_str (did_to_unqualified d))"

definition did_is_abbreviatable :: "DidValue \<Rightarrow> bool" where
  "did_is_abbreviatable d = (case did_get_method d of Some m \<Rightarrow> str_starts_with m ''sov'' | None \<Rightarrow> True)"

definition short_did_qualify :: "ShortDidValue \<Rightarrow> string option \<Rightarrow> DidValue" where
  "short_did_qualify d m =
    (case m of Some m' \<Rightarrow> DidValue (qualify (short_did_str d) DID_PREFIX m') | None \<Rightarrow> DidValue (short_did_str d))"

text \<open>\<^verbatim>\<open>from_base58\<close> is foreign; a validation says whether it returns \<^verbatim>\<open>Ok\<close>.\<close>

definition short_did_validate :: "(string \<Rightarrow> bytes option) \<Rightarrow> ShortDidValue \<Rightarrow> bool" where
  "short_did_validate from_base58 d =
    (case from_base58 (short_did_str d) of None \<Rightarrow> False | Some b \<Rightarrow> length b = 16 \<or> length b = 32)"

definition did_validate :: "(string \<Rightarrow> bytes option) \<Rightarrow> DidValue \<Rightarrow> bool" where
  "did_validate from_base58 d =
    (if did_is_fully_qualified d then True
     else case from_base58 (did_str d) of None \<Rightarrow> False | Some b \<Rightarrow> length b = 16 \<or> length b = 32)"

definition did_method_validate :: "string \<Rightarrow> bool" where
  "did_method_validate m \<longleftrightarrow> captures [Rep 1 alnum] m \<noteq> None"

section \<open>Schemas\<close>

datatype SchemaId = SchemaId (schema_str: string)

definition SCHEMA_PREFIX :: string where
  "SCHEMA_PREFIX = ''schema''"

definition schema_new :: "DidValue \<Rightarrow> string \<Rightarrow> string \<Rightarrow> SchemaId" where
  "schema_new did name version =
    (let i = did_str did @ DELIMITER @ ''2'' @ DELIMITER @ name @ DELIMITER @ version in
     case did_get_method did of
       Some m \<Rightarrow> SchemaId (qualify i SCHEMA_PREFIX m)
     | None \<Rightarrow> SchemaId i)"

definition schema_parts :: "SchemaId \<Rightarrow> (DidValue \<times> string \<times> string) option" where
  "schema_parts sid =
    (let parts = split_terminator colon (schema_str sid) in
     if length parts = 1 then None
     else if length parts = 4 then Some (DidValue (parts ! 0), parts ! 2, parts ! 3)
     else if length parts = 8 then
       Some (DidValue (join_str (take 3 (drop 2 parts)) DELIMITER), parts ! 6, parts ! 7)
     else None)"

definition schema_qualify :: "SchemaId \<Rightarrow> string \<Rightarrow> SchemaId" where
  "schema_qualify sid m =
    (case schema_parts sid of
       Some (did, name, version) \<Rightarrow> schema_new (did_qualify did m) name version
     | None \<Rightarrow> sid)"

definition schema_to_unqualified :: "SchemaId \<Rightarrow> SchemaId" where
  "schema_to_unqualified sid =
    (case schema_parts sid of
       Some (did, name, version) \<Rightarrow> schema_new (did_to_unqualified did) name version
     | None \<Rightarrow> sid)"

definition schema_id_validate :: "SchemaId \<Rightarrow> bool" where
  "schema_id_validate sid \<longleftrightarrow> parse_i32 (schema_str sid) \<noteq> None \<or> schema_parts sid \<noteq> None"

text \<open>A set of names is the list of its elements in the order it iterates, without repetition.\<close>

record SchemaV1 =
  sv_id :: SchemaId
  sv_name :: string
  sv_version :: string
  sv_attr_names :: "string list"
  sv_seq_no :: "nat option"

definition MAX_ATTRIBUTES_COUNT :: nat where
  "MAX_ATTRIBUTES_COUNT = 125"

definition attribute_names_validate :: "string list \<Rightarrow> bool" where
  "attribute_names_validate attrs \<longleftrightarrow> attrs \<noteq> [] \<and> \<not> length attrs > MAX_ATTRIBUTES_COUNT"

definition schema_v1_to_unqualified :: "SchemaV1 \<Rightarrow> SchemaV1" where
  "schema_v1_to_unqualified s = s\<lparr>sv_id := schema_to_unqualified (sv_id s)\<rparr>"

definition schema_validate :: "SchemaV1 \<Rightarrow> bool" where
  "schema_validate s \<longleftrightarrow>
    attribute_names_validate (sv_attr_names s) \<and> schema_id_validate (sv_id s) \<and>
    (case schema_parts (sv_id s) of
       Some (_, name, version) \<Rightarrow> name = sv_name s \<and> version = sv_version s
     | None \<Rightarrow> True)"

section \<open>Credential definitions\<close>

datatype CredentialDefinitionId = CredentialDefinitionId (cred_def_str: string)

definition CREDDEF_PREFIX :: string where
  "CREDDEF_PREFIX = ''creddef''"

text \<open>\<^verbatim>\<open>ProtocolVersion::is_node_1_3\<close> reads a global; its value is the first argument.\<close>

definition cred_def_new :: "bool \<Rightarrow> DidValue \<Rightarrow> SchemaId \<Rightarrow> string \<Rightarrow> string \<Rightarrow> CredentialDefinitionId" where
  "cred_def_new node_1_3 did sid signature_type tag =
    (let i =
       (if node_1_3 then
          did_str did @ DELIMITER @ ''3'' @ DELIMITER @ signature_type @ DELIMITER @ schema_str sid
        else
          let tag' = (if tag = [] then [] else DELIMITER @ tag) in
          did_str did @ DELIMITER @ ''3'' @ DELIMITER @ signature_type @ DELIMITER @ schema_str sid @ tag') in
     case did_get_method did of
       Some m \<Rightarrow> CredentialDefinitionId (qualify i CREDDEF_PREFIX m)
     | None \<Rightarrow> CredentialDefinitionId i)"

definition cred_def_parts :: "CredentialDefinitionId \<Rightarrow> (DidValue \<times> string \<times> SchemaId \<times> string) option" where
  "cred_def_parts cid =
    (let parts = split_terminator colon (cred_def_str cid) in
     if length parts = 4 then Some (DidValue (parts ! 0), parts ! 2, SchemaId (parts ! 3), [])
     else if length parts = 5 then Some (DidValue (parts ! 0), parts ! 2, SchemaId (parts ! 3), parts ! 4)
     else if length parts = 7 then
       Some (DidValue (parts ! 0), parts ! 2, SchemaId (join_str (take 4 (drop 3 parts)) DELIMITER), [])
     else if length parts = 8 then
       Some (DidValue (parts ! 0), parts ! 2, SchemaId (join_str (take 4 (drop 3 parts)) DELIMITER), parts ! 7)
     else if length parts = 9 then
       Some (DidValue (join_str (take 3 (drop 2 parts)) DELIMITER), parts ! 6, SchemaId (parts ! 7), parts ! 8)
     else if length parts = 16 then
       Some (DidValue (join_str (take 3 (drop 2 parts)) DELIMITER), parts ! 6,
             SchemaId (join_str (take 8 (drop 7 parts)) DELIMITER), parts ! 15)
     else None)"

definition cred_def_issuer_did :: "CredentialDefinitionId \<Rightarrow> DidValue option" where
  "cred_def_issuer_did cid = map_option fst (cred_def_parts cid)"

definition cred_def_qualify :: "bool \<Rightarrow> CredentialDefinitionId \<Rightarrow> string \<Rightarrow> CredentialDefinitionId" where
  "cred_def_qualify node_1_3 cid m =
    (case cred_def_parts cid of
       Some (did, signature_type, sid, tag) \<Rightarrow>
         cred_def_new node_1_3 (did_qualify did m) (schema_qualify sid m) signature_type tag
     | None \<Rightarrow> cid)"

definition cred_def_to_unqualified :: "bool \<Rightarrow> CredentialDefinitionId \<Rightarrow> CredentialDefinitionId" where
  "cred_def_to_unqualified node_1_3 cid =
    (case cred_def_parts cid of
       Some (did, signature_type, sid, tag) \<Rightarrow>
         cred_def_new node_1_3 (did_to_unqualified did) (schema_to_unqualified sid) signature_type tag
     | None \<Rightarrow> cid)"

definition cred_def_id_validate :: "CredentialDefinitionId \<Rightarrow> bool" where
  "cred_def_id_validate cid \<longleftrightarrow> cred_def_parts cid \<noteq> None"

datatype SignatureType = CL

record ('pk, 'rk) CredentialDefinitionData =
  cdd_primary :: 'pk
  cdd_revocation :: "'rk option"

record ('pk, 'rk) CredentialDefinitionV1 =
  cd_id :: CredentialDefinitionId
  cd_schema_id :: SchemaId
  cd_signature_type :: SignatureType
  cd_tag :: string
  cd_value :: "('pk, 'rk) CredentialDefinitionData"

definition cred_def_v1_to_unqualified ::
  "bool \<Rightarrow> ('pk, 'rk) CredentialDefinitionV1 \<Rightarrow> ('pk, 'rk) CredentialDefinitionV1" where
  "cred_def_v1_to_unqualified node_1_3 c =
    c\<lparr>cd_id := cred_def_to_unqualified node_1_3 (cd_id c), cd_schema_id := schema_to_unqualified (cd_schema_id c)\<rparr>"

definition cred_def_validate :: "('pk, 'rk) CredentialDefinitionV1 \<Rightarrow> bool" where
  "cred_def_validate c \<longleftrightarrow> cred_def_id_validate (cd_id c) \<and> schema_id_validate (cd_schema_id c)"

section \<open>Revocation registries\<close>

datatype RevocationRegistryId = RevocationRegistryId (rev_reg_str: string)

definition REVREG_PREFIX :: string where
  "REVREG_PREFIX = ''revreg''"

definition rev_reg_new ::
  "DidValue \<Rightarrow> CredentialDefinitionId \<Rightarrow> string \<Rightarrow> string \<Rightarrow> RevocationRegistryId" where
  "rev_reg_new did cid rev_reg_type tag =
    (let i = did_str did @ DELIMITER @ ''4'' @ DELIMITER @ cred_def_str cid @ DELIMITER @ rev_reg_type @ DELIMITER @ tag in
     case did_get_method did of
       Some m \<Rightarrow> RevocationRegistryId (qualify i REVREG_PREFIX m)
     | None \<Rightarrow> RevocationRegistryId i)"

text \<open>
  \<^verbatim>\<open>QUALIFIED_REV_REG_ID\<close>. Its anchor is inside the optional group, so that without the prefix the pattern may start
  anywhere.
\<close>

definition REV_REG_BODY :: "pattern list" where
  "REV_REG_BODY = [Rep 1 dot, Lit '':4:'', Rep 1 dot, Lit '':'', Rep 1 dot, Lit '':'', Rep 1 dot]"

definition rev_reg_captures :: "string \<Rightarrow> string list option" where
  "rev_reg_captures s =
    (case captures (Lit ''revreg:'' # Rep 1 alnum # Lit '':'' # REV_REG_BODY) s of
       Some (_ # cs) \<Rightarrow> Some cs
     | _ \<Rightarrow> search_captures REV_REG_BODY s)"

definition rev_reg_parts ::
  "RevocationRegistryId \<Rightarrow> (DidValue \<times> CredentialDefinitionId \<times> string \<times> string) option" where
  "rev_reg_parts rid =
    (case rev_reg_captures (rev_reg_str rid) of
       Some [did, cid, rev_reg_type, tag] \<Rightarrow> Some (DidValue did, CredentialDefinitionId cid, rev_reg_type, tag)
     | _ \<Rightarrow> None)"

definition rev_reg_to_unqualified :: "bool \<Rightarrow> RevocationRegistryId \<Rightarrow> RevocationRegistryId" where
  "rev_reg_to_unqualified node_1_3 rid =
    (case rev_reg_parts rid of
       Some (did, cid, rev_reg_type, tag) \<Rightarrow>
         rev_reg_new (did_to_unqualified did) (cred_def_to_unqualified node_1_3 cid) rev_reg_type tag
     | None \<Rightarrow> rid)"

definition rev_reg_id_validate :: "RevocationRegistryId \<Rightarrow> bool" where
  "rev_reg_id_validate rid \<longleftrightarrow> rev_reg_parts rid \<noteq> None"

definition rev_reg_config_validate :: "nat option \<Rightarrow> bool" where
  "rev_reg_config_validate max_cred_num \<longleftrightarrow> max_cred_num \<noteq> Some 0"

datatype IssuanceType = ISSUANCE_BY_DEFAULT | ISSUANCE_ON_DEMAND

definition issuance_to_bool :: "IssuanceType \<Rightarrow> bool" where
  "issuance_to_bool t \<longleftrightarrow> t = ISSUANCE_BY_DEFAULT"

datatype RegistryType = CL_ACCUM

record 'ak RevocationRegistryDefinitionValue =
  rdv_issuance_type :: IssuanceType
  rdv_max_cred_num :: nat
  rdv_accum_key :: 'ak
  rdv_tails_hash :: string
  rdv_tails_location :: string

record 'ak RevocationRegistryDefinitionV1 =
  rd_id :: RevocationRegistryId
  rd_revoc_def_type :: RegistryType
  rd_tag :: string
  rd_cred_def_id :: CredentialDefinitionId
  rd_value :: "'ak RevocationRegistryDefinitionValue"

definition rev_reg_def_to_unqualified ::
  "bool \<Rightarrow> 'ak RevocationRegistryDefinitionV1 \<Rightarrow> 'ak RevocationRegistryDefinitionV1" where
  "rev_reg_def_to_unqualified node_1_3 d =
    d\<lparr>rd_id := rev_reg_to_unqualified node_1_3 (rd_id d), rd_cred_def_id := cred_def_to_unqualified node_1_3 (rd_cred_def_id d)\<rparr>"

definition rev_reg_def_validate :: "'ak RevocationRegistryDefinitionV1 \<Rightarrow> bool" where
  "rev_reg_def_validate d \<longleftrightarrow> rev_reg_id_validate (rd_id d)"

section \<open>What a pattern matches\<close>

text \<open>The strings a pattern stands for, with the runs of its repetitions.\<close>

fun matches :: "pattern list \<Rightarrow> string list \<Rightarrow> string \<Rightarrow> bool" where
  "matches [] cs s \<longleftrightarrow> cs = [] \<and> s = []"
| "matches (Lit l # ps) cs s \<longleftrightarrow> (\<exists>t. s = l @ t \<and> matches ps cs t)"
| "matches (Rep lo q # ps) cs s \<longleftrightarrow>
    (\<exists>r cs' t. cs = r # cs' \<and> s = r @ t \<and> lo \<le> length r \<and> list_all q r \<and> matches ps cs' t)"

lemma longest_Some:
  "longest f lo hi = Some x \<longleftrightarrow> (\<exists>n. lo \<le> n \<and> n \<le> hi \<and> f n = Some x \<and> (\<forall>k. n < k \<longrightarrow> k \<le> hi \<longrightarrow> f k = None))"
proof (induction hi)
  case 0
  then show ?case by auto
next
  case (Suc hi)
  show ?case
  proof (cases "f (Suc hi)")
    case None
    then have "(\<exists>n. lo \<le> n \<and> n \<le> Suc hi \<and> f n = Some x \<and> (\<forall>k. n < k \<longrightarrow> k \<le> Suc hi \<longrightarrow> f k = None)) \<longleftrightarrow>
        (\<exists>n. lo \<le> n \<and> n \<le> hi \<and> f n = Some x \<and> (\<forall>k. n < k \<longrightarrow> k \<le> hi \<longrightarrow> f k = None))"
      by (metis le_Suc_eq option.distinct(1))
    with None Suc show ?thesis by auto
  next
    case (Some y)
    then have "(\<exists>n. lo \<le> n \<and> n \<le> Suc hi \<and> f n = Some x \<and> (\<forall>k. n < k \<longrightarrow> k \<le> Suc hi \<longrightarrow> f k = None)) \<longleftrightarrow>
        lo \<le> Suc hi \<and> x = y"
      by (metis le_eq_less_or_eq less_Suc_eq_le option.distinct(1) option.inject order_refl not_less_eq)
    with Some show ?thesis by auto
  qed
qed

lemma longest_None: "longest f lo hi = None \<longleftrightarrow> (\<forall>n. lo \<le> n \<longrightarrow> n \<le> hi \<longrightarrow> f n = None)"
proof (induction hi)
  case (Suc hi)
  then show ?case by (cases "f (Suc hi)") (auto simp: le_Suc_eq intro!: exI [of _ "Suc hi"])
qed auto

lemma takeWhile_run: "s = r @ t \<Longrightarrow> list_all q r \<Longrightarrow> length r \<le> length (takeWhile q s)"
  by (simp add: takeWhile_append2 list_all_iff)

lemma take_run: "n \<le> length (takeWhile q s) \<Longrightarrow> list_all q (take n s)"
  by (metis list_all_iff set_takeWhileD set_take_subset subset_eq takeWhile_eq_take take_take min_absorb1)

theorem captures_sound: "captures ps s = Some cs \<Longrightarrow> matches ps cs s"
proof (induction ps arbitrary: s cs)
  case Nil
  then show ?case by (simp split: if_splits)
next
  case (Cons p ps)
  show ?case
  proof (cases p)
    case (Lit l)
    with Cons.prems have "take (length l) s = l" "captures ps (drop (length l) s) = Some cs"
      by (simp_all split: if_splits)
    with Cons.IH Lit show ?thesis by (metis append_take_drop_id matches.simps(2))
  next
    case (Rep lo q)
    with Cons.prems obtain n where n: "lo \<le> n" "n \<le> length (takeWhile q s)"
        "map_option (Cons (take n s)) (captures ps (drop n s)) = Some cs"
      by (auto simp: longest_Some)
    moreover from this have "n \<le> length s" using length_takeWhile_le [of q s] by simp
    ultimately obtain z where z: "cs = take n s # z" "matches ps z (drop n s)" "lo \<le> n" "n \<le> length s"
        "list_all q (take n s)"
      using Cons.IH take_run [OF n(2)] by auto
    then have "s = take n s @ drop n s" "lo \<le> length (take n s)" by simp_all
    with Rep z show ?thesis by (metis matches.simps(3))
  qed
qed

theorem captures_complete: "matches ps cs s \<Longrightarrow> captures ps s \<noteq> None"
proof (induction ps cs s rule: matches.induct)
  case (1 cs s)
  then show ?case by simp
next
  case (2 l ps cs s)
  then show ?case by auto
next
  case (3 lo q ps cs s)
  then obtain r cs' t where r: "cs = r # cs'" "s = r @ t" "lo \<le> length r" "list_all q r" "matches ps cs' t" by auto
  then have "captures ps t \<noteq> None" using "3.IH" by blast
  then have "map_option (Cons (take (length r) s)) (captures ps (drop (length r) s)) \<noteq> None" by (simp add: r(2))
  moreover have "length r \<le> length (takeWhile q s)" by (rule takeWhile_run [OF r(2,4)])
  ultimately show ?case using r(3) by (auto simp: longest_None)
qed

text \<open>Where a pattern can match in one way only, that is what is captured.\<close>

lemma captures_unique:
  assumes "matches ps cs s" "\<And>cs'. matches ps cs' s \<Longrightarrow> cs' = cs"
  shows "captures ps s = Some cs"
  using captures_complete [OF assms(1)] captures_sound [of ps s] assms(2) by auto

section \<open>Qualified names\<close>

definition no_colon :: "string \<Rightarrow> bool" where
  "no_colon s \<longleftrightarrow> colon \<notin> set s"

definition method_name :: "string \<Rightarrow> bool" where
  "method_name m \<longleftrightarrow> m \<noteq> [] \<and> list_all alnum m"

definition one_line :: "string \<Rightarrow> bool" where
  "one_line s \<longleftrightarrow> list_all dot s"

lemma first_delimiter:
  "d \<notin> set p \<Longrightarrow> d \<notin> set p' \<Longrightarrow> p @ d # s = p' @ d # s' \<longleftrightarrow> p = p' \<and> s = s'"
proof (induction p arbitrary: p')
  case Nil
  then show ?case by (cases p') auto
next
  case (Cons a p)
  then show ?case by (cases p') auto
qed

lemma method_name_plain: "method_name m \<Longrightarrow> no_colon m"
  by (auto simp: method_name_def no_colon_def list_all_iff alnum_def)

lemma method_name_one_line: "method_name m \<Longrightarrow> one_line m"
  by (auto simp: method_name_def one_line_def list_all_iff alnum_def dot_def)

lemma matches_REGEX:
  "matches REGEX cs s \<longleftrightarrow>
    (\<exists>p m e. cs = [p, m, e] \<and> s = p @ colon # m @ colon # e \<and> method_name p \<and> method_name m \<and> one_line e)"
  by (auto simp: REGEX_def method_name_def one_line_def Suc_le_eq)

lemma captures_REGEX_None: "no_colon s \<Longrightarrow> captures REGEX s = None"
  using captures_sound [of REGEX s] by (cases "captures REGEX s") (auto simp: matches_REGEX no_colon_def)

lemma captures_REGEX:
  assumes "method_name p" "method_name m" "one_line e"
  shows "captures REGEX (p @ colon # m @ colon # e) = Some [p, m, e]"
proof (rule captures_unique)
  fix cs
  assume "matches REGEX cs (p @ colon # m @ colon # e)"
  then obtain p' m' e' where eq: "cs = [p', m', e']" "p @ colon # m @ colon # e = p' @ colon # m' @ colon # e'"
      "method_name p'" "method_name m'"
    by (auto simp: matches_REGEX)
  have "colon \<notin> set p" "colon \<notin> set p'" "colon \<notin> set m" "colon \<notin> set m'"
    using assms eq method_name_plain by (auto simp: no_colon_def)
  then show "cs = [p, m, e]" using eq by (simp add: first_delimiter)
qed (use assms in \<open>auto simp: matches_REGEX\<close>)

lemma qualified_name:
  assumes "method_name p" "method_name m" "one_line e"
  shows "qualifier_method (qualify e p m) = Some m" "to_unqualified (qualify e p m) = e" "is_fully_qualified (qualify e p m)"
  using captures_REGEX [OF assms]
  by (simp_all add: qualifier_method_def to_unqualified_def is_fully_qualified_def qualify_def)

lemma plain_name:
  assumes "no_colon s"
  shows "qualifier_method s = None" "to_unqualified s = s" "\<not> is_fully_qualified s"
  using captures_REGEX_None [OF assms] by (simp_all add: qualifier_method_def to_unqualified_def is_fully_qualified_def)

lemma prefixes_are_names [simp]:
  "method_name ''did''" "method_name ''schema''" "method_name ''creddef''" "method_name ''revreg''"
  by (simp_all add: method_name_def alnum_def)

section \<open>Taking an identifier apart\<close>

lemma split_on_plain: "d \<notin> set p \<Longrightarrow> split_on d p = [p]"
  by (induction p) auto

lemma split_on_append: "d \<notin> set p \<Longrightarrow> split_on d (p @ d # s) = p # split_on d s"
  by (induction p) auto

lemma split_on_join:
  "ps \<noteq> [] \<Longrightarrow> list_all no_colon ps \<Longrightarrow> split_on colon (join_str ps DELIMITER) = ps"
  by (induction ps DELIMITER rule: join_str.induct)
    (simp_all add: split_on_plain split_on_append no_colon_def DELIMITER_def)

lemma split_terminator_join:
  "ps \<noteq> [] \<Longrightarrow> last ps \<noteq> [] \<Longrightarrow> list_all no_colon ps \<Longrightarrow> split_terminator colon (join_str ps DELIMITER) = ps"
  by (simp add: split_terminator_def split_on_join)

text \<open>A DID as the code hands it around: without colons, or qualified with a method.\<close>

definition short_did :: "string \<Rightarrow> bool" where
  "short_did d \<longleftrightarrow> no_colon d \<and> one_line d"

definition full_did :: "string \<Rightarrow> string \<Rightarrow> DidValue" where
  "full_did m d = DidValue (''did:'' @ m @ '':'' @ d)"

lemma full_did_qualify: "full_did m d = DidValue (qualify d ''did'' m)"
  by (simp add: full_did_def qualify_def)

lemma did_simps:
  "short_did d \<Longrightarrow> did_get_method (DidValue d) = None"
  "short_did d \<Longrightarrow> did_to_unqualified (DidValue d) = DidValue d"
  "method_name m \<Longrightarrow> short_did d \<Longrightarrow> did_get_method (full_did m d) = Some m"
  "method_name m \<Longrightarrow> short_did d \<Longrightarrow> did_to_unqualified (full_did m d) = DidValue d"
  "did_qualify (DidValue d) m = full_did m d"
  by (simp_all add: did_get_method_def did_to_unqualified_def plain_name qualified_name short_did_def full_did_qualify
        did_qualify_def did_set_method_def DID_PREFIX_def)

end
