(* ===== verification/Proof_Request.thy ===== *)
theory Proof_Request
  imports Identifiers Wql
begin

text \<open>
  Proof requests (\<^verbatim>\<open>src/domain/anoncreds/proof_request.rs\<close>) and proofs (\<^verbatim>\<open>proof.rs\<close>): what a verifier asks for
  and what a prover answers. A hash map is the list of its entries in the order it iterates. The nonce and the
  cryptographic proof are values of the package \<^verbatim>\<open>ursa\<close>; their types are parameters.
\<close>

section \<open>Data\<close>

record NonRevocedInterval =
  nri_from :: "nat option"
  nri_to :: "nat option"

record AttributeInfo =
  ai_name :: "string option"
  ai_names :: "string list option"
  ai_restrictions :: "Query option"
  ai_non_revoked :: "NonRevocedInterval option"

datatype PredicateTypes = GE | LE | GT | LT

record PredicateInfo =
  pi_name :: string
  pi_p_type :: PredicateTypes
  pi_p_value :: "32 word"
  pi_restrictions :: "Query option"
  pi_non_revoked :: "NonRevocedInterval option"

record 'nonce ProofRequestPayload =
  pr_nonce :: 'nonce
  pr_name :: string
  pr_version :: string
  pr_requested_attributes :: "(string \<times> AttributeInfo) list"
  pr_requested_predicates :: "(string \<times> PredicateInfo) list"
  pr_non_revoked :: "NonRevocedInterval option"

datatype 'nonce ProofRequest =
  ProofRequestV1 "'nonce ProofRequestPayload" | ProofRequestV2 "'nonce ProofRequestPayload"

datatype ProofRequestsVersion = V1 | V2

fun payload :: "'nonce ProofRequest \<Rightarrow> 'nonce ProofRequestPayload" where
  "payload (ProofRequestV1 p) = p"
| "payload (ProofRequestV2 p) = p"

fun request_version :: "'nonce ProofRequest \<Rightarrow> ProofRequestsVersion" where
  "request_version (ProofRequestV1 _) = V1"
| "request_version (ProofRequestV2 _) = V2"

fun predicate_type_str :: "PredicateTypes \<Rightarrow> string" where
  "predicate_type_str GE = ''GE''"
| "predicate_type_str GT = ''GT''"
| "predicate_type_str LE = ''LE''"
| "predicate_type_str LT = ''LT''"

record Identifier =
  id_schema_id :: SchemaId
  id_cred_def_id :: CredentialDefinitionId
  id_rev_reg_id :: "RevocationRegistryId option"
  id_timestamp :: "nat option"

record SubProofReferent =
  spr_index :: nat

record RevealedAttributeInfo =
  rai_index :: nat
  rai_raw :: string
  rai_encoded :: string

record AttributeValue =
  av_raw :: string
  av_encoded :: string

record RevealedAttributeGroupInfo =
  rag_index :: nat
  rag_values :: "(string \<times> AttributeValue) list"

record RequestedProof =
  rp_revealed_attrs :: "(string \<times> RevealedAttributeInfo) list"
  rp_revealed_attr_groups :: "(string \<times> RevealedAttributeGroupInfo) list"
  rp_self_attested_attrs :: "(string \<times> string) list"
  rp_unrevealed_attrs :: "(string \<times> SubProofReferent) list"
  rp_predicates :: "(string \<times> SubProofReferent) list"

record 'cp FullProof =
  pf_proof :: 'cp
  pf_requested_proof :: RequestedProof
  pf_identifiers :: "Identifier list"

section \<open>Reading a request\<close>

text \<open>
  The two fields that are read first, then the whole request by the derived reader \<open>de\<close>. \<open>to_dec\<close> prints a nonce; it
  may fail. The error texts are left out: \<open>None\<close> is a refused request.
\<close>

fun helper_ver :: "(string \<times> Value) list \<Rightarrow> string option option" where
  "helper_ver obj = (case map_of obj ''ver'' of
     None \<Rightarrow> Some None
   | Some Null \<Rightarrow> Some None
   | Some (String v) \<Rightarrow> Some (Some v)
   | Some _ \<Rightarrow> None)"

definition helper_nonce :: "(string \<times> Value) list \<Rightarrow> string option" where
  "helper_nonce obj = (case map_of obj ''nonce'' of Some (String n) \<Rightarrow> Some n | _ \<Rightarrow> None)"

definition proof_request_deserialize ::
  "(Value \<Rightarrow> 'nonce ProofRequestPayload option) \<Rightarrow> ('nonce \<Rightarrow> string option) \<Rightarrow> Value \<Rightarrow> 'nonce ProofRequest option" where
  "proof_request_deserialize de to_dec v =
    (case v of
       Object obj \<Rightarrow>
         Option.bind (helper_ver obj) (\<lambda>ver.
         Option.bind (helper_nonce obj) (\<lambda>nonce.
         let nonce_cleaned = filter (\<lambda>c. c \<noteq> CHR ''_'') (filter (\<lambda>c. c \<noteq> CHR '' '') nonce) in
         Option.bind
           (case ver of
              Some version \<Rightarrow>
                if version = ''1.0'' then map_option ProofRequestV1 (de v)
                else if version = ''2.0'' then map_option ProofRequestV2 (de v)
                else None
            | None \<Rightarrow> map_option ProofRequestV1 (de v)) (\<lambda>proof_req.
         Option.bind (to_dec (pr_nonce (payload proof_req))) (\<lambda>nonce_parsed.
         if nonce_cleaned \<noteq> nonce_parsed then None else Some proof_req))))
     | _ \<Rightarrow> None)"

section \<open>Validation\<close>

definition QUALIFIABLE_TAGS :: "string list" where
  "QUALIFIABLE_TAGS = [''issuer_did'', ''cred_def_id'', ''schema_id'', ''schema_issuer_did'', ''rev_reg_id'']"

definition check_restriction :: "string \<Rightarrow> string \<Rightarrow> ProofRequestsVersion \<Rightarrow> bool" where
  "check_restriction tag_name tag_value version \<longleftrightarrow>
    \<not> (version = V1 \<and> tag_name \<in> set QUALIFIABLE_TAGS \<and> is_fully_qualified tag_value)"

fun check_operator :: "Query \<Rightarrow> ProofRequestsVersion \<Rightarrow> bool" where
  "check_operator (QEq n v) version = check_restriction n v version"
| "check_operator (QNeq n v) version = check_restriction n v version"
| "check_operator (QGt n v) version = check_restriction n v version"
| "check_operator (QGte n v) version = check_restriction n v version"
| "check_operator (QLt n v) version = check_restriction n v version"
| "check_operator (QLte n v) version = check_restriction n v version"
| "check_operator (QLike n v) version = check_restriction n v version"
| "check_operator (QIn n vs) version = list_all (\<lambda>v. check_restriction n v version) vs"
| "check_operator (QAnd qs) version = list_all (\<lambda>q. check_operator q version) qs"
| "check_operator (QOr qs) version = list_all (\<lambda>q. check_operator q version) qs"
| "check_operator (QNot q) version = check_operator q version"

definition has_name :: "AttributeInfo \<Rightarrow> bool" where
  "has_name a \<longleftrightarrow> (case ai_name a of Some n \<Rightarrow> n \<noteq> [] | None \<Rightarrow> False)"

definition has_names :: "AttributeInfo \<Rightarrow> bool" where
  "has_names a \<longleftrightarrow> (case ai_names a of Some ns \<Rightarrow> ns \<noteq> [] | None \<Rightarrow> False)"

definition proof_request_validate :: "'nonce ProofRequest \<Rightarrow> bool" where
  "proof_request_validate r =
    (let p = payload r; version = request_version r in
     if pr_requested_attributes p = [] \<and> pr_requested_predicates p = [] then False
     else
       list_all (\<lambda>(_, a).
         if \<not> has_name a \<and> \<not> has_names a then False
         else if has_name a \<and> has_names a then False
         else case ai_restrictions a of Some q \<Rightarrow> check_operator q version | None \<Rightarrow> True) (pr_requested_attributes p) \<and>
       list_all (\<lambda>(_, i).
         if pi_name i = [] then False
         else case pi_restrictions i of Some q \<Rightarrow> check_operator q version | None \<Rightarrow> True) (pr_requested_predicates p))"

section \<open>Dropping qualifiers\<close>

definition convert_value_to_unqualified :: "bool \<Rightarrow> string \<Rightarrow> string \<Rightarrow> string" where
  "convert_value_to_unqualified node_1_3 tag_name tag_value =
    (if tag_name = ''issuer_did'' \<or> tag_name = ''schema_issuer_did'' then
       did_str (did_to_unqualified (DidValue tag_value))
     else if tag_name = ''schema_id'' then schema_str (schema_to_unqualified (SchemaId tag_value))
     else if tag_name = ''cred_def_id'' then
       cred_def_str (cred_def_to_unqualified node_1_3 (CredentialDefinitionId tag_value))
     else if tag_name = ''rev_reg_id'' then
       rev_reg_str (rev_reg_to_unqualified node_1_3 (RevocationRegistryId tag_value))
     else tag_value)"

fun convert_query_to_unqualified :: "bool \<Rightarrow> Query \<Rightarrow> Query" where
  "convert_query_to_unqualified b (QEq n v) = QEq n (convert_value_to_unqualified b n v)"
| "convert_query_to_unqualified b (QNeq n v) = QNeq n (convert_value_to_unqualified b n v)"
| "convert_query_to_unqualified b (QIn n vs) = QIn n (map (convert_value_to_unqualified b n) vs)"
| "convert_query_to_unqualified b (QAnd qs) = QAnd (map (convert_query_to_unqualified b) qs)"
| "convert_query_to_unqualified b (QOr qs) = QOr (map (convert_query_to_unqualified b) qs)"
| "convert_query_to_unqualified b (QNot q) = convert_query_to_unqualified b q"
| "convert_query_to_unqualified b q = q"

definition payload_to_unqualified :: "bool \<Rightarrow> 'nonce ProofRequestPayload \<Rightarrow> 'nonce ProofRequestPayload" where
  "payload_to_unqualified b p =
    p\<lparr>pr_requested_attributes := map (\<lambda>(r, a).
        (r, a\<lparr>ai_restrictions := map_option (convert_query_to_unqualified b) (ai_restrictions a)\<rparr>)) (pr_requested_attributes p),
      pr_requested_predicates := map (\<lambda>(r, i).
        (r, i\<lparr>pi_restrictions := map_option (convert_query_to_unqualified b) (pi_restrictions i)\<rparr>)) (pr_requested_predicates p)\<rparr>"

fun proof_request_to_unqualified :: "bool \<Rightarrow> 'nonce ProofRequest \<Rightarrow> 'nonce ProofRequest" where
  "proof_request_to_unqualified b (ProofRequestV1 p) = ProofRequestV1 (payload_to_unqualified b p)"
| "proof_request_to_unqualified b (ProofRequestV2 p) = ProofRequestV2 (payload_to_unqualified b p)"

end
