(* ===== verification/Verifier.thy ===== *)
theory Verifier
  imports Proof_Request "HOL-Library.AList"
begin

text \<open>
  The verifier of anonymous credentials: \<^verbatim>\<open>src/services/anoncreds/verifier.rs\<close> and what it uses of
  \<^verbatim>\<open>helpers.rs\<close>. The cryptography is the package \<^verbatim>\<open>ursa\<close>, which is a parameter: an object it builds up is the
  list of the calls made on it, each of which may fail, and its verdict is a function of what was handed to it.
\<close>

section \<open>What is foreign\<close>

datatype request_call = AddRevealedAttr string | AddPredicate string string "32 word"

record ('key, 'ak, 'reg) sub_proof =
  sp_request :: "request_call list"
  sp_schema :: "string list"
  sp_non_schema :: "string list"
  sp_key :: 'key
  sp_accum_key :: "'ak option"
  sp_registry :: "'reg option"

text \<open>
  \<open>us_lowercase\<close> is \<^verbatim>\<open>str::to_lowercase\<close>, which rests on the tables of Unicode. \<open>us_sub_proofs\<close> are the parts of a
  cryptographic proof, each with the result of \<^verbatim>\<open>revealed_attrs\<close>. A hash map built on the way has its own order of
  iteration: \<open>us_order_attrs\<close> and \<open>us_order_values\<close> (the latter for the map of a requested attribute or predicate).
\<close>

record ('cp, 'nonce, 'bn, 'pk, 'rk, 'key, 'ak, 'reg) ursa =
  us_lowercase :: "string \<Rightarrow> string"
  us_from_dec :: "string \<Rightarrow> 'bn IndyResult"
  us_sub_proofs :: "'cp \<Rightarrow> (string \<times> string) list IndyResult list"
  us_schema_call :: "string list \<Rightarrow> unit IndyResult"
  us_schema_finalize :: "string list \<Rightarrow> unit IndyResult"
  us_non_schema_call :: "string list \<Rightarrow> unit IndyResult"
  us_non_schema_finalize :: "string list \<Rightarrow> unit IndyResult"
  us_request_call :: "request_call list \<Rightarrow> unit IndyResult"
  us_request_finalize :: "request_call list \<Rightarrow> unit IndyResult"
  us_build_key :: "'pk \<Rightarrow> 'rk option \<Rightarrow> 'key IndyResult"
  us_verifier_call :: "('key, 'ak, 'reg) sub_proof list \<Rightarrow> unit IndyResult"
  us_verify :: "('key, 'ak, 'reg) sub_proof list \<Rightarrow> 'cp \<Rightarrow> 'nonce \<Rightarrow> bool IndyResult"
  us_order_attrs :: "(string \<times> AttributeInfo) list \<Rightarrow> (string \<times> AttributeInfo) list"
  us_order_values :: "bool \<Rightarrow> string \<Rightarrow> (string \<times> string option) list \<Rightarrow> (string \<times> string option) list"

fun run_builder :: "('c list \<Rightarrow> unit IndyResult) \<Rightarrow> 'c list \<Rightarrow> 'c list \<Rightarrow> 'c list IndyResult" where
  "run_builder call h [] = Inr h"
| "run_builder call h (c # cs) = bindr (call (h @ [c])) (\<lambda>_. run_builder call (h @ [c]) cs)"

section \<open>Helpers\<close>

definition attr_common_view ::
  "('cp, 'nonce, 'bn, 'pk, 'rk, 'key, 'ak, 'reg) ursa \<Rightarrow> string \<Rightarrow> string" where
  "attr_common_view U attr = us_lowercase U (filter (\<lambda>c. c \<noteq> CHR '' '') attr)"

definition build_credential_schema ::
  "('cp, 'nonce, 'bn, 'pk, 'rk, 'key, 'ak, 'reg) ursa \<Rightarrow> string list \<Rightarrow> string list IndyResult" where
  "build_credential_schema U attrs =
    bindr (us_schema_call U []) (\<lambda>_.
    bindr (run_builder (us_schema_call U) [] (map (attr_common_view U) attrs)) (\<lambda>b.
    bindr (us_schema_finalize U b) (\<lambda>_. Inr b)))"

definition build_non_credential_schema ::
  "('cp, 'nonce, 'bn, 'pk, 'rk, 'key, 'ak, 'reg) ursa \<Rightarrow> string list IndyResult" where
  "build_non_credential_schema U =
    bindr (us_non_schema_call U []) (\<lambda>_.
    bindr (run_builder (us_non_schema_call U) [] [''master_secret'']) (\<lambda>b.
    bindr (us_non_schema_finalize U b) (\<lambda>_. Inr b)))"

definition names_of :: "AttributeInfo \<Rightarrow> string list IndyResult" where
  "names_of attr =
    (case ai_name attr of
       Some name \<Rightarrow> Inr [name]
     | None \<Rightarrow> (case ai_names attr of Some names \<Rightarrow> Inr names | None \<Rightarrow> Inl (Error InvalidStructure)))"

fun add_revealed ::
  "('cp, 'nonce, 'bn, 'pk, 'rk, 'key, 'ak, 'reg) ursa \<Rightarrow> request_call list \<Rightarrow> AttributeInfo list \<Rightarrow>
    request_call list IndyResult" where
  "add_revealed U b [] = Inr b"
| "add_revealed U b (attr # attrs) =
    bindr (names_of attr) (\<lambda>names.
    bindr (run_builder (us_request_call U) b (map (\<lambda>n. AddRevealedAttr (attr_common_view U n)) names)) (\<lambda>b'.
      add_revealed U b' attrs))"

definition predicate_call ::
  "('cp, 'nonce, 'bn, 'pk, 'rk, 'key, 'ak, 'reg) ursa \<Rightarrow> PredicateInfo \<Rightarrow> request_call" where
  "predicate_call U p = AddPredicate (attr_common_view U (pi_name p)) (predicate_type_str (pi_p_type p)) (pi_p_value p)"

definition build_sub_proof_request ::
  "('cp, 'nonce, 'bn, 'pk, 'rk, 'key, 'ak, 'reg) ursa \<Rightarrow> AttributeInfo list \<Rightarrow> PredicateInfo list \<Rightarrow>
    request_call list IndyResult" where
  "build_sub_proof_request U attrs preds =
    bindr (us_request_call U []) (\<lambda>_.
    bindr (add_revealed U [] attrs) (\<lambda>b.
    bindr (run_builder (us_request_call U) b (map (predicate_call U) preds)) (\<lambda>b'.
    bindr (us_request_finalize U b') (\<lambda>_. Inr b'))))"

definition get_non_revoc_interval ::
  "NonRevocedInterval option \<Rightarrow> NonRevocedInterval option \<Rightarrow> NonRevocedInterval option" where
  "get_non_revoc_interval global local =
    (case (case local of Some i \<Rightarrow> Some i | None \<Rightarrow> global) of
       Some i \<Rightarrow> if nri_to i \<noteq> None \<or> nri_from i \<noteq> None then Some i else None
     | None \<Rightarrow> None)"

section \<open>What the proof claims\<close>

definition get_proof_identifier :: "'cp FullProof \<Rightarrow> nat \<Rightarrow> Identifier IndyResult" where
  "get_proof_identifier proof i =
    (if i < length (pf_identifiers proof) then Inr (pf_identifiers proof ! i) else Inl (Error InvalidStructure))"

fun insert_identifiers ::
  "'cp FullProof \<Rightarrow> (string \<times> nat) list \<Rightarrow> (string \<times> Identifier) list \<Rightarrow> (string \<times> Identifier) list IndyResult" where
  "insert_identifiers proof [] m = Inr m"
| "insert_identifiers proof ((r, i) # rs) m =
    bindr (get_proof_identifier proof i) (\<lambda>x. insert_identifiers proof rs (AList.update r x m))"

definition received_revealed_attrs :: "'cp FullProof \<Rightarrow> (string \<times> Identifier) list IndyResult" where
  "received_revealed_attrs proof =
    bindr (insert_identifiers proof (map (\<lambda>(r, i). (r, rai_index i)) (rp_revealed_attrs (pf_requested_proof proof))) []) (\<lambda>m.
      insert_identifiers proof (map (\<lambda>(r, i). (r, rag_index i)) (rp_revealed_attr_groups (pf_requested_proof proof))) m)"

definition received_unrevealed_attrs :: "'cp FullProof \<Rightarrow> (string \<times> Identifier) list IndyResult" where
  "received_unrevealed_attrs proof =
    insert_identifiers proof (map (\<lambda>(r, i). (r, spr_index i)) (rp_unrevealed_attrs (pf_requested_proof proof))) []"

definition received_predicates :: "'cp FullProof \<Rightarrow> (string \<times> Identifier) list IndyResult" where
  "received_predicates proof =
    insert_identifiers proof (map (\<lambda>(r, i). (r, spr_index i)) (rp_predicates (pf_requested_proof proof))) []"

definition received_self_attested_attrs :: "'cp FullProof \<Rightarrow> string list" where
  "received_self_attested_attrs proof = map fst (rp_self_attested_attrs (pf_requested_proof proof))"

definition compare_attr_from_proof_and_request ::
  "'nonce ProofRequestPayload \<Rightarrow> (string \<times> Identifier) list \<Rightarrow> (string \<times> Identifier) list \<Rightarrow> string list \<Rightarrow>
    (string \<times> Identifier) list \<Rightarrow> unit IndyResult" where
  "compare_attr_from_proof_and_request req revealed unrevealed self_attested predicates =
    (if set (map fst (pr_requested_attributes req)) \<noteq>
        set (map fst (revealed @ unrevealed)) \<union> set self_attested then Inl (Error InvalidStructure)
     else if set (map fst (pr_requested_predicates req)) \<noteq> set (map fst predicates) then Inl (Error InvalidStructure)
     else Inr ())"

definition validate_timestamp ::
  "(string \<times> Identifier) list \<Rightarrow> string \<Rightarrow> NonRevocedInterval option \<Rightarrow> NonRevocedInterval option \<Rightarrow> unit IndyResult" where
  "validate_timestamp received referent global local =
    (if get_non_revoc_interval global local = None then Inr ()
     else if \<not> (case map_of received referent of Some a \<Rightarrow> id_timestamp a \<noteq> None | None \<Rightarrow> False)
     then Inl (Error InvalidStructure)
     else Inr ())"

definition or_result :: "'a IndyResult \<Rightarrow> 'a IndyResult \<Rightarrow> 'a IndyResult" where
  "or_result a b = (case a of Inr x \<Rightarrow> Inr x | Inl _ \<Rightarrow> b)"

definition compare_timestamps_from_proof_and_request ::
  "'nonce ProofRequestPayload \<Rightarrow> (string \<times> Identifier) list \<Rightarrow> (string \<times> Identifier) list \<Rightarrow> string list \<Rightarrow>
    (string \<times> Identifier) list \<Rightarrow> unit IndyResult" where
  "compare_timestamps_from_proof_and_request req revealed unrevealed self_attested predicates =
    bindr (traverse (\<lambda>(referent, info).
      or_result (validate_timestamp revealed referent (pr_non_revoked req) (ai_non_revoked info))
        (or_result (validate_timestamp unrevealed referent (pr_non_revoked req) (ai_non_revoked info))
          (if referent \<in> set self_attested then Inr () else Inl (Error InvalidStructure))))
      (pr_requested_attributes req)) (\<lambda>_.
    bindr (traverse (\<lambda>(referent, info).
      validate_timestamp predicates referent (pr_non_revoked req) (pi_non_revoked info))
      (pr_requested_predicates req)) (\<lambda>_. Inr ()))"

definition verify_revealed_attribute_value ::
  "('cp, 'nonce, 'bn, 'pk, 'rk, 'key, 'ak, 'reg) ursa \<Rightarrow> string \<Rightarrow> 'cp FullProof \<Rightarrow> RevealedAttributeInfo \<Rightarrow> unit IndyResult" where
  "verify_revealed_attribute_value U attr_name proof info =
    (let ps = us_sub_proofs U (pf_proof proof); i = rai_index info in
     bindr (if i < length ps then Inr (ps ! i) else Inl (Error ProofRejected)) (\<lambda>p.
     bindr p (\<lambda>attrs.
     bindr (ok_or (List.find (\<lambda>(key, _). attr_common_view U attr_name = attr_common_view U key) attrs) (Error ProofRejected))
       (\<lambda>(_, crypto_proof_encoded).
     bindr (us_from_dec U (rai_encoded info)) (\<lambda>a.
     bindr (us_from_dec U crypto_proof_encoded) (\<lambda>b.
     if a \<noteq> b then Inl (Error ProofRejected) else Inr ()))))))"

definition verify_revealed_group ::
  "('cp, 'nonce, 'bn, 'pk, 'rk, 'key, 'ak, 'reg) ursa \<Rightarrow> 'nonce ProofRequestPayload \<Rightarrow> 'cp FullProof \<Rightarrow>
    string \<times> RevealedAttributeGroupInfo \<Rightarrow> unit IndyResult" where
  "verify_revealed_group U req proof = (\<lambda>(referent, infos).
    bindr (ok_or (map_of (pr_requested_attributes req) referent) (Error ProofRejected)) (\<lambda>requested.
    bindr (ok_or (ai_names requested) (Error ProofRejected)) (\<lambda>attr_names.
    if length (rag_values infos) \<noteq> length attr_names then Inl (Error InvalidStructure)
    else bindr (traverse (\<lambda>attr_name.
      bindr (ok_or (map_of (rag_values infos) attr_name) (Error InvalidStructure)) (\<lambda>v.
        verify_revealed_attribute_value U attr_name proof
          \<lparr>rai_index = rag_index infos, rai_raw = av_raw v, rai_encoded = av_encoded v\<rparr>)) attr_names) (\<lambda>_. Inr ()))))"

definition verify_revealed_attribute_values ::
  "('cp, 'nonce, 'bn, 'pk, 'rk, 'key, 'ak, 'reg) ursa \<Rightarrow> 'nonce ProofRequestPayload \<Rightarrow> 'cp FullProof \<Rightarrow> unit IndyResult" where
  "verify_revealed_attribute_values U req proof =
    bindr (traverse (\<lambda>(referent, info).
      bindr (ok_or (map_of (pr_requested_attributes req) referent) (Error ProofRejected)) (\<lambda>requested.
      bindr (ok_or (ai_name requested) (Error ProofRejected)) (\<lambda>attr_name.
        verify_revealed_attribute_value U attr_name proof info)))
      (rp_revealed_attrs (pf_requested_proof proof))) (\<lambda>_.
    bindr (traverse (verify_revealed_group U req proof) (rp_revealed_attr_groups (pf_requested_proof proof))) (\<lambda>_. Inr ()))"

section \<open>Restrictions\<close>

record Filter =
  fl_schema_id :: string
  fl_schema_issuer_did :: string
  fl_schema_name :: string
  fl_schema_version :: string
  fl_issuer_did :: string
  fl_cred_def_id :: string

definition VALUE_TAG_MATCHER :: "pattern list" where
  "VALUE_TAG_MATCHER = [Lit ''attr::'', Rep 1 (\<lambda>c. c \<noteq> colon), Lit ''::value'']"

definition MARKER_TAG_MATCHER :: "pattern list" where
  "MARKER_TAG_MATCHER = [Lit ''attr::'', Rep 1 (\<lambda>c. c \<noteq> colon), Lit ''::marker'']"

definition attr_request_by_value :: "string \<Rightarrow> string option" where
  "attr_request_by_value key = (case captures VALUE_TAG_MATCHER key of Some [s] \<Rightarrow> Some s | _ \<Rightarrow> None)"

definition attr_request_by_marker :: "string \<Rightarrow> string option" where
  "attr_request_by_marker key = (case captures MARKER_TAG_MATCHER key of Some [s] \<Rightarrow> Some s | _ \<Rightarrow> None)"

definition is_attr_marker_operator :: "string \<Rightarrow> bool" where
  "is_attr_marker_operator key \<longleftrightarrow> captures MARKER_TAG_MATCHER key \<noteq> None"

definition is_attr_with_revealed_value ::
  "('cp, 'nonce, 'bn, 'pk, 'rk, 'key, 'ak, 'reg) ursa \<Rightarrow> string \<Rightarrow> (string \<times> string option) list \<Rightarrow> bool" where
  "is_attr_with_revealed_value U key values =
    (case captures VALUE_TAG_MATCHER key of
       Some [s] \<Rightarrow> list_ex (\<lambda>(k, _). attr_common_view U k = attr_common_view U s) values
     | _ \<Rightarrow> False)"

definition check_internal_tag_revealed_value ::
  "('cp, 'nonce, 'bn, 'pk, 'rk, 'key, 'ak, 'reg) ursa \<Rightarrow> string \<Rightarrow> string \<Rightarrow> (string \<times> string option) list \<Rightarrow> unit IndyResult" where
  "check_internal_tag_revealed_value U key tag_value values =
    (case captures VALUE_TAG_MATCHER key of
       Some [attr_name] \<Rightarrow>
         (case List.find (\<lambda>(k, _). attr_common_view U k = attr_common_view U attr_name) values of
            Some (_, Some revealed_value) \<Rightarrow>
              if revealed_value \<noteq> tag_value then Inl (Error ProofRejected) else Inr ()
          | _ \<Rightarrow> Inl (Error ProofRejected))
     | _ \<Rightarrow> Inl (Error InvalidState))"

definition precess_filed :: "string \<Rightarrow> string \<Rightarrow> unit IndyResult" where
  "precess_filed filter_value tag_value = (if filter_value = tag_value then Inr () else Inl (Error ProofRejected))"

definition process_filter ::
  "('cp, 'nonce, 'bn, 'pk, 'rk, 'key, 'ak, 'reg) ursa \<Rightarrow> (string \<times> string option) list \<Rightarrow> string \<Rightarrow> string \<Rightarrow> Filter \<Rightarrow> unit IndyResult" where
  "process_filter U values tag tag_value f =
    (if tag = ''schema_id'' then precess_filed (fl_schema_id f) tag_value
     else if tag = ''schema_issuer_did'' then precess_filed (fl_schema_issuer_did f) tag_value
     else if tag = ''schema_name'' then precess_filed (fl_schema_name f) tag_value
     else if tag = ''schema_version'' then precess_filed (fl_schema_version f) tag_value
     else if tag = ''cred_def_id'' then precess_filed (fl_cred_def_id f) tag_value
     else if tag = ''issuer_did'' then precess_filed (fl_issuer_did f) tag_value
     else if is_attr_with_revealed_value U tag values then check_internal_tag_revealed_value U tag tag_value values
     else if is_attr_marker_operator tag then Inr ()
     else Inl (Error InvalidStructure))"

fun do_process_operator ::
  "('cp, 'nonce, 'bn, 'pk, 'rk, 'key, 'ak, 'reg) ursa \<Rightarrow> (string \<times> string option) list \<Rightarrow> Query \<Rightarrow> Filter \<Rightarrow> unit IndyResult" where
  "do_process_operator U values (QEq n v) f = process_filter U values n v f"
| "do_process_operator U values (QNeq n v) f =
    (if \<not> is_ok (process_filter U values n v f) then Inr () else Inl (Error ProofRejected))"
| "do_process_operator U values (QIn n vs) f =
    (if list_ex (\<lambda>v. is_ok (process_filter U values n v f)) vs then Inr () else Inl (Error ProofRejected))"
| "do_process_operator U values (QAnd qs) f = bindr (traverse (\<lambda>q. do_process_operator U values q f) qs) (\<lambda>_. Inr ())"
| "do_process_operator U values (QOr qs) f =
    (if list_ex (\<lambda>q. is_ok (do_process_operator U values q f)) qs then Inr () else Inl (Error ProofRejected))"
| "do_process_operator U values (QNot q) f =
    (if \<not> is_ok (do_process_operator U values q f) then Inr () else Inl (Error ProofRejected))"
| "do_process_operator U values _ f = Inl (Error ProofRejected)"

fun is_self_attested :: "string \<Rightarrow> AttributeInfo \<Rightarrow> string list \<Rightarrow> bool" where
  "is_self_attested referent info self_attested =
    (case ai_restrictions info of
       Some (QAnd qs) \<Rightarrow> qs = [] \<and> referent \<in> set self_attested
     | Some (QOr qs) \<Rightarrow> qs = [] \<and> referent \<in> set self_attested
     | None \<Rightarrow> referent \<in> set self_attested
     | Some _ \<Rightarrow> False)"

definition gather_filter_info :: "string \<Rightarrow> (string \<Rightarrow> Identifier option) \<Rightarrow> Filter IndyResult" where
  "gather_filter_info referent identifiers =
    bindr (ok_or (identifiers referent) (Error InvalidState)) (\<lambda>identifier.
    bindr (ok_or (schema_parts (id_schema_id identifier)) (Error InvalidState)) (\<lambda>(schema_issuer_did, schema_name, schema_version).
    bindr (ok_or (cred_def_issuer_did (id_cred_def_id identifier)) (Error InvalidState)) (\<lambda>issuer_did.
      Inr \<lparr>fl_schema_id = schema_str (id_schema_id identifier), fl_schema_issuer_did = did_str schema_issuer_did,
           fl_schema_name = schema_name, fl_schema_version = schema_version, fl_issuer_did = did_str issuer_did,
           fl_cred_def_id = cred_def_str (id_cred_def_id identifier)\<rparr>)))"

definition name_value_map ::
  "('cp, 'nonce, 'bn, 'pk, 'rk, 'key, 'ak, 'reg) ursa \<Rightarrow> RequestedProof \<Rightarrow> string \<Rightarrow> AttributeInfo \<Rightarrow>
    (string \<times> string option) list IndyResult" where
  "name_value_map U rp referent info =
    (case ai_name info of
       Some name \<Rightarrow> Inr [(name, map_option rai_raw (map_of (rp_revealed_attrs rp) referent))]
     | None \<Rightarrow>
         (case ai_names info of
            Some names \<Rightarrow>
              bindr (ok_or (map_of (rp_revealed_attr_groups rp) referent) (Error InvalidStructure)) (\<lambda>attrs.
                Inr (us_order_values U True referent
                  (fold (\<lambda>name. AList.update name (map_option av_raw (map_of (rag_values attrs) name))) names [])))
          | None \<Rightarrow> Inl (Error InvalidStructure)))"

text \<open>The values a restriction of a predicate may refer to: those the same sub proof reveals.\<close>

fun revealed_values ::
  "(string \<times> AttributeInfo) list \<Rightarrow> nat \<Rightarrow> (string \<times> RevealedAttributeInfo) list \<Rightarrow> (string \<times> string option) list \<Rightarrow>
    (string \<times> string option) list IndyResult" where
  "revealed_values requested_attrs i [] m = Inr m"
| "revealed_values requested_attrs i ((attr_referent, attr_info) # rest) m =
    (if i = rai_index attr_info then
       bindr (ok_or (map_of requested_attrs attr_referent) Panic) (\<lambda>requested.
         revealed_values requested_attrs i rest
           (case ai_name requested of Some name \<Rightarrow> AList.update name (Some (rai_raw attr_info)) m | None \<Rightarrow> m))
     else revealed_values requested_attrs i rest m)"

fun revealed_group_values ::
  "nat \<Rightarrow> (string \<times> RevealedAttributeGroupInfo) list \<Rightarrow> (string \<times> string option) list \<Rightarrow> (string \<times> string option) list" where
  "revealed_group_values i [] m = m"
| "revealed_group_values i ((_, info) # rest) m =
    revealed_group_values i rest
      (if i = rag_index info then fold (\<lambda>(name, v). AList.update name (Some (av_raw v))) (rag_values info) m else m)"

definition verify_attr_restrictions ::
  "('cp, 'nonce, 'bn, 'pk, 'rk, 'key, 'ak, 'reg) ursa \<Rightarrow> RequestedProof \<Rightarrow> (string \<Rightarrow> Identifier option) \<Rightarrow>
    string \<times> AttributeInfo \<Rightarrow> unit IndyResult" where
  "verify_attr_restrictions U rp identifiers = (\<lambda>(referent, info).
    case ai_restrictions info of
      None \<Rightarrow> Inr ()
    | Some query \<Rightarrow>
        bindr (gather_filter_info referent identifiers) (\<lambda>f.
        bindr (name_value_map U rp referent info) (\<lambda>m. do_process_operator U m query f)))"

definition verify_predicate_restrictions ::
  "('cp, 'nonce, 'bn, 'pk, 'rk, 'key, 'ak, 'reg) ursa \<Rightarrow> RequestedProof \<Rightarrow> (string \<times> AttributeInfo) list \<Rightarrow>
    (string \<times> Identifier) list \<Rightarrow> string \<times> PredicateInfo \<Rightarrow> unit IndyResult" where
  "verify_predicate_restrictions U rp requested_attrs predicates = (\<lambda>(referent, info).
    case pi_restrictions info of
      None \<Rightarrow> Inr ()
    | Some query \<Rightarrow>
        bindr (gather_filter_info referent (map_of predicates)) (\<lambda>f.
        bindr (ok_or (map_of (rp_predicates rp) referent) Panic) (\<lambda>p.
        bindr (revealed_values requested_attrs (spr_index p) (rp_revealed_attrs rp) [(pi_name info, None)]) (\<lambda>m.
          do_process_operator U
            (us_order_values U False referent (revealed_group_values (spr_index p) (rp_revealed_attr_groups rp) m)) query f))))"

definition verify_requested_restrictions ::
  "('cp, 'nonce, 'bn, 'pk, 'rk, 'key, 'ak, 'reg) ursa \<Rightarrow> 'nonce ProofRequestPayload \<Rightarrow> RequestedProof \<Rightarrow>
    (string \<times> Identifier) list \<Rightarrow> (string \<times> Identifier) list \<Rightarrow> (string \<times> Identifier) list \<Rightarrow> string list \<Rightarrow> unit IndyResult" where
  "verify_requested_restrictions U req rp revealed unrevealed predicates self_attested =
    (let identifiers = map_of revealed ++ map_of unrevealed;
         requested_attrs = us_order_attrs U
           (filter (\<lambda>(referent, info). \<not> is_self_attested referent info self_attested) (pr_requested_attributes req)) in
     bindr (traverse (verify_attr_restrictions U rp identifiers) requested_attrs) (\<lambda>_.
     bindr (traverse (verify_predicate_restrictions U rp requested_attrs predicates) (pr_requested_predicates req)) (\<lambda>_. Inr ())))"

section \<open>Verification\<close>

definition get_revealed_attributes_for_credential ::
  "nat \<Rightarrow> RequestedProof \<Rightarrow> 'nonce ProofRequestPayload \<Rightarrow> AttributeInfo list" where
  "get_revealed_attributes_for_credential i rp req =
    List.map_filter (\<lambda>(referent, info).
      if i = rai_index info then map_of (pr_requested_attributes req) referent else None) (rp_revealed_attrs rp) @
    List.map_filter (\<lambda>(referent, info).
      if i = rag_index info then map_of (pr_requested_attributes req) referent else None) (rp_revealed_attr_groups rp)"

definition get_predicates_for_credential ::
  "nat \<Rightarrow> RequestedProof \<Rightarrow> 'nonce ProofRequestPayload \<Rightarrow> PredicateInfo list" where
  "get_predicates_for_credential i rp req =
    List.map_filter (\<lambda>(referent, info).
      if i = spr_index info then map_of (pr_requested_predicates req) referent else None) (rp_predicates rp)"

record ('pk, 'rk, 'ak, 'reg) published =
  pub_schemas :: "SchemaId \<Rightarrow> SchemaV1 option"
  pub_cred_defs :: "CredentialDefinitionId \<Rightarrow> ('pk, 'rk) CredentialDefinitionV1 option"
  pub_rev_reg_defs :: "RevocationRegistryId \<Rightarrow> 'ak RevocationRegistryDefinitionV1 option"
  pub_rev_regs :: "RevocationRegistryId \<Rightarrow> (nat \<Rightarrow> 'reg option) option"

definition revocation_of ::
  "('pk, 'rk, 'ak, 'reg) published \<Rightarrow> Identifier \<Rightarrow> ('ak RevocationRegistryDefinitionV1 option \<times> 'reg option) IndyResult" where
  "revocation_of B identifier =
    (case id_timestamp identifier of
       Some timestamp \<Rightarrow>
         bindr (ok_or (id_rev_reg_id identifier) (Error InvalidStructure)) (\<lambda>rev_reg_id.
         bindr (ok_or (pub_rev_reg_defs B rev_reg_id) (Error InvalidStructure)) (\<lambda>rev_reg_def.
         bindr (ok_or (pub_rev_regs B rev_reg_id) (Error InvalidStructure)) (\<lambda>rev_regs_for_cred.
         bindr (ok_or (rev_regs_for_cred timestamp) (Error InvalidStructure)) (\<lambda>rev_reg.
           Inr (Some rev_reg_def, Some rev_reg)))))
     | None \<Rightarrow> Inr (None, None))"

definition build_sub_proof ::
  "('cp, 'nonce, 'bn, 'pk, 'rk, 'key, 'ak, 'reg) ursa \<Rightarrow> ('pk, 'rk, 'ak, 'reg) published \<Rightarrow> 'nonce ProofRequestPayload \<Rightarrow>
    RequestedProof \<Rightarrow> string list \<Rightarrow> nat \<Rightarrow> Identifier \<Rightarrow> ('key, 'ak, 'reg) sub_proof IndyResult" where
  "build_sub_proof U B req rp non_schema i identifier =
    bindr (ok_or (pub_schemas B (id_schema_id identifier)) (Error InvalidStructure)) (\<lambda>schema.
    bindr (ok_or (pub_cred_defs B (id_cred_def_id identifier)) (Error InvalidStructure)) (\<lambda>cred_def.
    bindr (revocation_of B identifier) (\<lambda>(rev_reg_def, rev_reg).
    bindr (build_credential_schema U (sv_attr_names schema)) (\<lambda>credential_schema.
    bindr (build_sub_proof_request U (get_revealed_attributes_for_credential i rp req)
      (get_predicates_for_credential i rp req)) (\<lambda>request.
    bindr (us_build_key U (cdd_primary (cd_value cred_def)) (cdd_revocation (cd_value cred_def))) (\<lambda>key.
      Inr \<lparr>sp_request = request, sp_schema = credential_schema, sp_non_schema = non_schema, sp_key = key,
           sp_accum_key = map_option (\<lambda>d. rdv_accum_key (rd_value d)) rev_reg_def, sp_registry = rev_reg\<rparr>))))))"

fun add_sub_proofs ::
  "('cp, 'nonce, 'bn, 'pk, 'rk, 'key, 'ak, 'reg) ursa \<Rightarrow> ('pk, 'rk, 'ak, 'reg) published \<Rightarrow> 'nonce ProofRequestPayload \<Rightarrow>
    RequestedProof \<Rightarrow> string list \<Rightarrow> nat \<Rightarrow> Identifier list \<Rightarrow> ('key, 'ak, 'reg) sub_proof list \<Rightarrow>
    ('key, 'ak, 'reg) sub_proof list IndyResult" where
  "add_sub_proofs U B req rp non_schema i [] added = Inr added"
| "add_sub_proofs U B req rp non_schema i (identifier # rest) added =
    bindr (build_sub_proof U B req rp non_schema i identifier) (\<lambda>sp.
    bindr (us_verifier_call U (added @ [sp])) (\<lambda>_.
      add_sub_proofs U B req rp non_schema (Suc i) rest (added @ [sp])))"

definition verify ::
  "('cp, 'nonce, 'bn, 'pk, 'rk, 'key, 'ak, 'reg) ursa \<Rightarrow> 'cp FullProof \<Rightarrow> 'nonce ProofRequestPayload \<Rightarrow>
    ('pk, 'rk, 'ak, 'reg) published \<Rightarrow> bool IndyResult" where
  "verify U full_proof req B =
    bindr (received_revealed_attrs full_proof) (\<lambda>revealed.
    bindr (received_unrevealed_attrs full_proof) (\<lambda>unrevealed.
    bindr (received_predicates full_proof) (\<lambda>predicates.
    let self_attested = received_self_attested_attrs full_proof; rp = pf_requested_proof full_proof in
    bindr (compare_attr_from_proof_and_request req revealed unrevealed self_attested predicates) (\<lambda>_.
    bindr (verify_revealed_attribute_values U req full_proof) (\<lambda>_.
    bindr (verify_requested_restrictions U req rp revealed unrevealed predicates self_attested) (\<lambda>_.
    bindr (compare_timestamps_from_proof_and_request req revealed unrevealed self_attested predicates) (\<lambda>_.
    bindr (us_verifier_call U []) (\<lambda>_.
    bindr (build_non_credential_schema U) (\<lambda>non_schema.
    bindr (add_sub_proofs U B req rp non_schema 0 (pf_identifiers full_proof) []) (\<lambda>added.
      us_verify U added (pf_proof full_proof) (pr_nonce req)))))))))))"

end
