(* ===== verification/Prover.thy ===== *)
theory Prover
  imports Verifier
begin

text \<open>
  The prover of anonymous credentials: \<^verbatim>\<open>src/services/anoncreds/prover.rs\<close> with the data of
  \<^verbatim>\<open>credential.rs\<close>, \<^verbatim>\<open>requested_credential.rs\<close> and \<^verbatim>\<open>credential_attr_tag_policy.rs\<close>: the tags under which a credential
  is kept in the wallet, the wallet query made from the restrictions of a request, and the making of a proof. As in
  the verifier, an object that \<^verbatim>\<open>ursa\<close> builds up is the list of the calls made on it.
\<close>

section \<open>Data\<close>

record AttributeValues =
  cv_raw :: string
  cv_encoded :: string

record ('sig, 'scp, 'reg, 'wit) Credential =
  cr_schema_id :: SchemaId
  cr_cred_def_id :: CredentialDefinitionId
  cr_rev_reg_id :: "RevocationRegistryId option"
  cr_values :: "(string \<times> AttributeValues) list"
  cr_signature :: 'sig
  cr_signature_correctness_proof :: 'scp
  cr_rev_reg :: "'reg option"
  cr_witness :: "'wit option"

definition add_extra_tag_suffix :: "string \<Rightarrow> string" where
  "add_extra_tag_suffix tag = tag @ ''_short''"

definition credential_values_validate :: "(string \<times> AttributeValues) list \<Rightarrow> bool" where
  "credential_values_validate vs \<longleftrightarrow> vs \<noteq> []"

definition credential_validate :: "('sig, 'scp, 'reg, 'wit) Credential \<Rightarrow> bool" where
  "credential_validate c \<longleftrightarrow>
    schema_id_validate (cr_schema_id c) \<and> cred_def_id_validate (cr_cred_def_id c) \<and> credential_values_validate (cr_values c) \<and>
    \<not> (cr_rev_reg_id c \<noteq> None \<and> (cr_witness c = None \<or> cr_rev_reg c = None)) \<and> cr_values c \<noteq> []"

definition cred_def_is_fully_qualified :: "CredentialDefinitionId \<Rightarrow> bool" where
  "cred_def_is_fully_qualified cid \<longleftrightarrow> str_starts_with (cred_def_str cid) CREDDEF_PREFIX \<and> is_fully_qualified (cred_def_str cid)"

record RequestedAttribute =
  ra_cred_id :: string
  ra_timestamp :: "nat option"
  ra_revealed :: bool

record ProvingCredentialKey =
  pk_cred_id :: string
  pk_timestamp :: "nat option"

record RequestedCredentials =
  rc_self_attested_attributes :: "(string \<times> string) list"
  rc_requested_attributes :: "(string \<times> RequestedAttribute) list"
  rc_requested_predicates :: "(string \<times> ProvingCredentialKey) list"

definition requested_credentials_validate :: "RequestedCredentials \<Rightarrow> bool" where
  "requested_credentials_validate r \<longleftrightarrow>
    \<not> (rc_self_attested_attributes r = [] \<and> rc_requested_attributes r = [] \<and> rc_requested_predicates r = [])"

record RequestedAttributeInfo =
  rqa_attr_referent :: string
  rqa_attr_info :: AttributeInfo
  rqa_revealed :: bool

record RequestedPredicateInfo =
  rqp_predicate_referent :: string
  rqp_predicate_info :: PredicateInfo

record ('reg, 'wit) RevocationState =
  rs_witness :: 'wit
  rs_rev_reg :: 'reg
  rs_timestamp :: nat

definition revocation_state_validate :: "('reg, 'wit) RevocationState \<Rightarrow> bool" where
  "revocation_state_validate s \<longleftrightarrow> rs_timestamp s \<noteq> 0"

text \<open>A tag policy is the set of its names in their common view.\<close>

definition policy_from :: "('cp, 'nonce, 'bn, 'pk, 'rk, 'key, 'ak, 'reg) ursa \<Rightarrow> string list \<Rightarrow> string list" where
  "policy_from U names = remdups (map (\<lambda>a. us_lowercase U (filter (\<lambda>c. c \<noteq> CHR '' '') a)) names)"

definition is_taggable :: "('cp, 'nonce, 'bn, 'pk, 'rk, 'key, 'ak, 'reg) ursa \<Rightarrow> string list \<Rightarrow> string \<Rightarrow> bool" where
  "is_taggable U taggable attr_name \<longleftrightarrow> us_lowercase U (filter (\<lambda>c. c \<noteq> CHR '' '') attr_name) \<in> set taggable"

section \<open>Tags and queries\<close>

definition build_attr_marker_tag :: "('cp, 'nonce, 'bn, 'pk, 'rk, 'key, 'ak, 'reg) ursa \<Rightarrow> string \<Rightarrow> string" where
  "build_attr_marker_tag U attr = ''attr::'' @ attr_common_view U attr @ ''::marker''"

definition build_attr_value_tag :: "('cp, 'nonce, 'bn, 'pk, 'rk, 'key, 'ak, 'reg) ursa \<Rightarrow> string \<Rightarrow> string" where
  "build_attr_value_tag U attr = ''attr::'' @ attr_common_view U attr @ ''::value''"

definition ATTRIBUTE_EXISTENCE_MARKER :: string where
  "ATTRIBUTE_EXISTENCE_MARKER = ''1''"

definition rev_reg_tag :: "string option \<Rightarrow> string" where
  "rev_reg_tag r = (case r of Some s \<Rightarrow> s | None \<Rightarrow> ''None'')"

definition insert_attr_tags ::
  "('cp, 'nonce, 'bn, 'pk, 'rk, 'key, 'ak, 'reg) ursa \<Rightarrow> string list option \<Rightarrow> string \<times> AttributeValues \<Rightarrow>
    (string \<times> string) list \<Rightarrow> (string \<times> string) list" where
  "insert_attr_tags U catpol = (\<lambda>(attr, values) res.
    if (case catpol of Some cp \<Rightarrow> is_taggable U cp attr | None \<Rightarrow> True) then
      AList.update (build_attr_value_tag U attr) (cv_raw values)
        (AList.update (build_attr_marker_tag U attr) ATTRIBUTE_EXISTENCE_MARKER res)
    else res)"

definition build_credential_tags ::
  "('cp, 'nonce, 'bn, 'pk, 'rk, 'key, 'ak, 'reg) ursa \<Rightarrow> bool \<Rightarrow> ('sig, 'scp, 'reg, 'wit) Credential \<Rightarrow> string list option \<Rightarrow>
    (string \<times> string) list IndyResult" where
  "build_credential_tags U node_1_3 c catpol =
    bindr (ok_or (schema_parts (cr_schema_id c)) (Error InvalidState)) (\<lambda>(schema_issuer_did, schema_name, schema_version).
    bindr (ok_or (cred_def_issuer_did (cr_cred_def_id c)) (Error InvalidState)) (\<lambda>issuer_did.
    let res = fold (\<lambda>(k, v). AList.update k v)
      [(''schema_id'', schema_str (cr_schema_id c)), (''schema_issuer_did'', did_str schema_issuer_did),
       (''schema_name'', schema_name), (''schema_version'', schema_version), (''issuer_did'', did_str issuer_did),
       (''cred_def_id'', cred_def_str (cr_cred_def_id c)), (''rev_reg_id'', rev_reg_tag (map_option rev_reg_str (cr_rev_reg_id c)))] [];
      res = (if cred_def_is_fully_qualified (cr_cred_def_id c) then
        fold (\<lambda>(k, v). AList.update (add_extra_tag_suffix k) v)
        [(''schema_id'', schema_str (schema_to_unqualified (cr_schema_id c))),
         (''schema_issuer_did'', did_str (did_to_unqualified schema_issuer_did)),
         (''issuer_did'', did_str (did_to_unqualified issuer_did)),
         (''cred_def_id'', cred_def_str (cred_def_to_unqualified node_1_3 (cr_cred_def_id c))),
         (''rev_reg_id'', rev_reg_tag (map_option (\<lambda>r. rev_reg_str (rev_reg_to_unqualified node_1_3 r)) (cr_rev_reg_id c)))] res
        else res) in
    Inr (fold (insert_attr_tags U catpol) (cr_values c) res)))"

fun insensitive_tag :: "('cp, 'nonce, 'bn, 'pk, 'rk, 'key, 'ak, 'reg) ursa \<Rightarrow> string \<Rightarrow> string" where
  "insensitive_tag U tag =
    (case attr_request_by_value tag of
       Some a \<Rightarrow> build_attr_value_tag U a
     | None \<Rightarrow> (case attr_request_by_marker tag of Some a \<Rightarrow> build_attr_marker_tag U a | None \<Rightarrow> tag))"

fun make_restrictions_case_insensitive ::
  "('cp, 'nonce, 'bn, 'pk, 'rk, 'key, 'ak, 'reg) ursa \<Rightarrow> Query \<Rightarrow> Query IndyResult" where
  "make_restrictions_case_insensitive U (QEq n v) = Inr (QEq (insensitive_tag U n) v)"
| "make_restrictions_case_insensitive U (QNeq n v) = Inr (QNeq (insensitive_tag U n) v)"
| "make_restrictions_case_insensitive U (QIn n vs) = Inr (QIn (insensitive_tag U n) vs)"
| "make_restrictions_case_insensitive U (QAnd qs) =
    bindr (traverse (make_restrictions_case_insensitive U) qs) (\<lambda>qs'. Inr (QAnd qs'))"
| "make_restrictions_case_insensitive U (QOr qs) =
    bindr (traverse (make_restrictions_case_insensitive U) qs) (\<lambda>qs'. Inr (QOr qs'))"
| "make_restrictions_case_insensitive U (QNot q) = bindr (make_restrictions_case_insensitive U q) (\<lambda>q'. Inr (QNot q'))"
| "make_restrictions_case_insensitive U _ = Inl (Error InvalidStructure)"

fun double_restrictions :: "Query \<Rightarrow> Query IndyResult" where
  "double_restrictions (QEq n v) = Inr
    (if n \<in> set QUALIFIABLE_TAGS then QOr [QEq n v, QEq (add_extra_tag_suffix n) v] else QEq n v)"
| "double_restrictions (QNeq n v) = Inr
    (if n \<in> set QUALIFIABLE_TAGS then QAnd [QNeq n v, QNeq (add_extra_tag_suffix n) v] else QNeq n v)"
| "double_restrictions (QIn n vs) = Inr
    (if n \<in> set QUALIFIABLE_TAGS then QOr [QIn n vs, QIn (add_extra_tag_suffix n) vs] else QIn n vs)"
| "double_restrictions (QAnd qs) = bindr (traverse double_restrictions qs) (\<lambda>qs'. Inr (QAnd qs'))"
| "double_restrictions (QOr qs) = bindr (traverse double_restrictions qs) (\<lambda>qs'. Inr (QOr qs'))"
| "double_restrictions (QNot q) = bindr (double_restrictions q) (\<lambda>q'. Inr (QNot q'))"
| "double_restrictions _ = Inl (Error InvalidStructure)"

definition process_proof_request_restrictions ::
  "('cp, 'nonce, 'bn, 'pk, 'rk, 'key, 'ak, 'reg) ursa \<Rightarrow> ProofRequestsVersion \<Rightarrow> string option \<Rightarrow> string list option \<Rightarrow> string \<Rightarrow>
    Query option \<Rightarrow> (string \<Rightarrow> Query option) option \<Rightarrow> Query IndyResult" where
  "process_proof_request_restrictions U version name names referent restrictions extra_query =
    bindr (ok_or (case names of Some ns \<Rightarrow> Some ns | None \<Rightarrow> map_option (\<lambda>n. [n]) name) (Error InvalidStructure)) (\<lambda>ns.
    let attr_queries = map (\<lambda>n. QEq (build_attr_marker_tag U n) ATTRIBUTE_EXISTENCE_MARKER) ns in
    bindr
      (case restrictions of
         Some q \<Rightarrow>
           (case version of
              V1 \<Rightarrow> bindr (make_restrictions_case_insensitive U q) (\<lambda>q'. bindr (double_restrictions q') (\<lambda>q''. Inr [q'']))
            | V2 \<Rightarrow> bindr (make_restrictions_case_insensitive U q) (\<lambda>q'. Inr [q']))
       | None \<Rightarrow> Inr []) (\<lambda>queries.
    let extra = (case extra_query of None \<Rightarrow> [] | Some e \<Rightarrow> (case e referent of Some q \<Rightarrow> [q] | None \<Rightarrow> [])) in
    Inr (QAnd (queries @ extra @ attr_queries))))"

definition attribute_satisfy_predicate :: "PredicateInfo \<Rightarrow> string \<Rightarrow> bool IndyResult" where
  "attribute_satisfy_predicate p attribute_value =
    bindr (ok_or (parse_i32 attribute_value) (Error InvalidStructure)) (\<lambda>v.
      Inr (case pi_p_type p of
        GE \<Rightarrow> sint (pi_p_value p) \<le> v | GT \<Rightarrow> sint (pi_p_value p) < v
      | LE \<Rightarrow> v \<le> sint (pi_p_value p) | LT \<Rightarrow> v < sint (pi_p_value p)))"

section \<open>Making a proof\<close>

datatype 'mv value_call = AddDecKnown string string | AddValueHidden string 'mv

record ('mv, 'sig, 'key, 'reg, 'wit) proof_part =
  pp_request :: "request_call list"
  pp_schema :: "string list"
  pp_non_schema :: "string list"
  pp_signature :: 'sig
  pp_values :: "'mv value_call list"
  pp_key :: 'key
  pp_rev_reg :: "'reg option"
  pp_witness :: "'wit option"

text \<open>The calls of the prover's side of \<^verbatim>\<open>ursa\<close>; \<open>pu_order_keys\<close> is the order of the hash map of credentials.\<close>

record ('ms, 'mv, 'sig, 'key, 'reg, 'wit, 'cp, 'nonce) prover_ursa =
  pu_master_secret_value :: "'ms \<Rightarrow> 'mv IndyResult"
  pu_values_call :: "'mv value_call list \<Rightarrow> unit IndyResult"
  pu_values_finalize :: "'mv value_call list \<Rightarrow> unit IndyResult"
  pu_new_proof_builder :: "unit IndyResult"
  pu_add_common_attribute :: "string \<Rightarrow> unit IndyResult"
  pu_add_sub_proof :: "('mv, 'sig, 'key, 'reg, 'wit) proof_part list \<Rightarrow> unit IndyResult"
  pu_finalize :: "('mv, 'sig, 'key, 'reg, 'wit) proof_part list \<Rightarrow> 'nonce \<Rightarrow> 'cp IndyResult"
  pu_order_keys :: "(ProvingCredentialKey \<times> RequestedAttributeInfo list \<times> RequestedPredicateInfo list) list \<Rightarrow>
    (ProvingCredentialKey \<times> RequestedAttributeInfo list \<times> RequestedPredicateInfo list) list"

definition build_credential_values ::
  "('cp, 'nonce, 'bn, 'pk, 'rk, 'key, 'ak, 'reg) ursa \<Rightarrow> ('ms, 'mv, 'sig, 'key, 'reg, 'wit, 'cp, 'nonce) prover_ursa \<Rightarrow>
    (string \<times> AttributeValues) list \<Rightarrow> 'ms option \<Rightarrow> 'mv value_call list IndyResult" where
  "build_credential_values U P values master_secret =
    bindr (pu_values_call P []) (\<lambda>_.
    bindr (run_builder (pu_values_call P) [] (map (\<lambda>(attr, v). AddDecKnown (attr_common_view U attr) (cv_encoded v)) values)) (\<lambda>b.
    bindr (case master_secret of
        Some ms \<Rightarrow> bindr (pu_master_secret_value P ms) (\<lambda>mv. run_builder (pu_values_call P) b [AddValueHidden ''master_secret'' mv])
      | None \<Rightarrow> Inr b) (\<lambda>b'.
    bindr (pu_values_finalize P b') (\<lambda>_. Inr b'))))"

text \<open>
  A credential request and the processing of a received credential: the values handed to \<^verbatim>\<open>ursa\<close>, whose own functions
  are the arguments \<open>blind\<close> and \<open>process\<close>.
\<close>

definition new_credential_request ::
  "('cp, 'nonce, 'bn, 'pk, 'rk, 'key, 'ak, 'reg) ursa \<Rightarrow> ('ms, 'mv, 'sig, 'key, 'reg, 'wit, 'cp, 'nonce) prover_ursa \<Rightarrow>
    ('key \<Rightarrow> 'kcp \<Rightarrow> 'mv value_call list \<Rightarrow> 'nonce \<Rightarrow> 'b IndyResult) \<Rightarrow> ('pk, 'rk) CredentialDefinitionV1 \<Rightarrow> 'ms \<Rightarrow> 'kcp \<Rightarrow> 'nonce \<Rightarrow>
    'b IndyResult" where
  "new_credential_request U P blind cred_def ms key_correctness_proof nonce =
    bindr (us_build_key U (cdd_primary (cd_value cred_def)) (cdd_revocation (cd_value cred_def))) (\<lambda>key.
    bindr (pu_values_call P []) (\<lambda>_.
    bindr (pu_master_secret_value P ms) (\<lambda>mv.
    bindr (run_builder (pu_values_call P) [] [AddValueHidden ''master_secret'' mv]) (\<lambda>b.
    bindr (pu_values_finalize P b) (\<lambda>_. blind key key_correctness_proof b nonce)))))"

definition process_credential ::
  "('cp, 'nonce, 'bn, 'pk, 'rk, 'key, 'ak, 'reg) ursa \<Rightarrow> ('ms, 'mv, 'sig, 'key, 'reg, 'wit, 'cp, 'nonce) prover_ursa \<Rightarrow>
    ('sig \<Rightarrow> 'mv value_call list \<Rightarrow> 'scp \<Rightarrow> 'bf \<Rightarrow> 'key \<Rightarrow> 'nonce \<Rightarrow> 'ak option \<Rightarrow> 'reg option \<Rightarrow> 'wit option \<Rightarrow> 'sig IndyResult) \<Rightarrow>
    ('sig, 'scp, 'reg, 'wit) Credential \<Rightarrow> 'bf \<Rightarrow> 'nonce \<Rightarrow> 'ms \<Rightarrow> ('pk, 'rk) CredentialDefinitionV1 \<Rightarrow>
    'ak RevocationRegistryDefinitionV1 option \<Rightarrow> ('sig, 'scp, 'reg, 'wit) Credential IndyResult" where
  "process_credential U P process c blinding_data nonce ms cred_def rev_reg_def =
    bindr (us_build_key U (cdd_primary (cd_value cred_def)) (cdd_revocation (cd_value cred_def))) (\<lambda>key.
    bindr (build_credential_values U P (cr_values c) (Some ms)) (\<lambda>values.
    bindr (process (cr_signature c) values (cr_signature_correctness_proof c) blinding_data key nonce
        (map_option (\<lambda>d. rdv_accum_key (rd_value d)) rev_reg_def) (cr_rev_reg c) (cr_witness c)) (\<lambda>signature.
      Inr (c\<lparr>cr_signature := signature\<rparr>))))"

type_synonym proving = "(ProvingCredentialKey \<times> RequestedAttributeInfo list \<times> RequestedPredicateInfo list) list"

definition add_attr_for :: "ProvingCredentialKey \<Rightarrow> RequestedAttributeInfo \<Rightarrow> proving \<Rightarrow> proving" where
  "add_attr_for k a m =
    (case map_of m k of
       Some (as, ps) \<Rightarrow> AList.update k (as @ [a], ps) m
     | None \<Rightarrow> AList.update k ([a], []) m)"

definition add_predicate_for :: "ProvingCredentialKey \<Rightarrow> RequestedPredicateInfo \<Rightarrow> proving \<Rightarrow> proving" where
  "add_predicate_for k p m =
    (case map_of m k of
       Some (as, ps) \<Rightarrow> AList.update k (as, ps @ [p]) m
     | None \<Rightarrow> AList.update k ([], [p]) m)"

fun prepare_attrs :: "'nonce ProofRequestPayload \<Rightarrow> (string \<times> RequestedAttribute) list \<Rightarrow> proving \<Rightarrow> proving IndyResult" where
  "prepare_attrs req [] m = Inr m"
| "prepare_attrs req ((referent, ra) # rest) m =
    bindr (ok_or (map_of (pr_requested_attributes req) referent) (Error InvalidStructure)) (\<lambda>info.
      prepare_attrs req rest (add_attr_for \<lparr>pk_cred_id = ra_cred_id ra, pk_timestamp = ra_timestamp ra\<rparr>
        \<lparr>rqa_attr_referent = referent, rqa_attr_info = info, rqa_revealed = ra_revealed ra\<rparr> m))"

fun prepare_predicates :: "'nonce ProofRequestPayload \<Rightarrow> (string \<times> ProvingCredentialKey) list \<Rightarrow> proving \<Rightarrow> proving IndyResult" where
  "prepare_predicates req [] m = Inr m"
| "prepare_predicates req ((referent, k) # rest) m =
    bindr (ok_or (map_of (pr_requested_predicates req) referent) (Error InvalidStructure)) (\<lambda>info.
      prepare_predicates req rest (add_predicate_for k
        \<lparr>rqp_predicate_referent = referent, rqp_predicate_info = info\<rparr> m))"

definition prepare_credentials_for_proving :: "RequestedCredentials \<Rightarrow> 'nonce ProofRequestPayload \<Rightarrow> proving IndyResult" where
  "prepare_credentials_for_proving rc req =
    bindr (prepare_attrs req (rc_requested_attributes rc) []) (\<lambda>m. prepare_predicates req (rc_requested_predicates rc) m)"

definition get_credential_values_for_attribute ::
  "('cp, 'nonce, 'bn, 'pk, 'rk, 'key, 'ak, 'reg) ursa \<Rightarrow> (string \<times> AttributeValues) list \<Rightarrow> string \<Rightarrow> AttributeValues option" where
  "get_credential_values_for_attribute U attrs requested_attr =
    map_option snd (List.find (\<lambda>(key, _). attr_common_view U key = attr_common_view U requested_attr) attrs)"

fun group_values ::
  "('cp, 'nonce, 'bn, 'pk, 'rk, 'key, 'ak, 'reg) ursa \<Rightarrow> (string \<times> AttributeValues) list \<Rightarrow> string list \<Rightarrow>
    (string \<times> AttributeValue) list \<Rightarrow> (string \<times> AttributeValue) list IndyResult" where
  "group_values U attrs [] m = Inr m"
| "group_values U attrs (name # names) m =
    bindr (ok_or (get_credential_values_for_attribute U attrs name) (Error InvalidStructure)) (\<lambda>v.
      group_values U attrs names (AList.update name \<lparr>av_raw = cv_raw v, av_encoded = cv_encoded v\<rparr> m))"

definition update_attr ::
  "('cp, 'nonce, 'bn, 'pk, 'rk, 'key, 'ak, 'reg) ursa \<Rightarrow> 'nonce ProofRequestPayload \<Rightarrow> (string \<times> AttributeValues) list \<Rightarrow> nat \<Rightarrow>
    RequestedAttributeInfo \<Rightarrow> RequestedProof \<Rightarrow> RequestedProof IndyResult" where
  "update_attr U req values i a rp =
    (let r = rqa_attr_referent a in
     if rqa_revealed a then
       bindr (ok_or (map_of (pr_requested_attributes req) r) Panic) (\<lambda>attribute.
         case ai_name attribute of
           Some name \<Rightarrow>
             bindr (ok_or (get_credential_values_for_attribute U values name) (Error InvalidStructure)) (\<lambda>v.
               Inr (rp\<lparr>rp_revealed_attrs := AList.update r
                 \<lparr>rai_index = i, rai_raw = cv_raw v, rai_encoded = cv_encoded v\<rparr> (rp_revealed_attrs rp)\<rparr>))
         | None \<Rightarrow>
             (case ai_names attribute of
                Some names \<Rightarrow>
                  bindr (group_values U values names []) (\<lambda>value_map.
                    Inr (rp\<lparr>rp_revealed_attr_groups := AList.update r
                      \<lparr>rag_index = i, rag_values = value_map\<rparr> (rp_revealed_attr_groups rp)\<rparr>))
              | None \<Rightarrow> Inr rp))
     else Inr (rp\<lparr>rp_unrevealed_attrs := AList.update r \<lparr>spr_index = i\<rparr> (rp_unrevealed_attrs rp)\<rparr>))"

fun update_attrs ::
  "('cp, 'nonce, 'bn, 'pk, 'rk, 'key, 'ak, 'reg) ursa \<Rightarrow> 'nonce ProofRequestPayload \<Rightarrow> (string \<times> AttributeValues) list \<Rightarrow> nat \<Rightarrow>
    RequestedAttributeInfo list \<Rightarrow> RequestedProof \<Rightarrow> RequestedProof IndyResult" where
  "update_attrs U req values i [] rp = Inr rp"
| "update_attrs U req values i (a # as) rp =
    bindr (update_attr U req values i a rp) (\<lambda>rp'. update_attrs U req values i as rp')"

definition update_requested_proof ::
  "('cp, 'nonce, 'bn, 'pk, 'rk, 'key, 'ak, 'reg) ursa \<Rightarrow> RequestedAttributeInfo list \<Rightarrow> RequestedPredicateInfo list \<Rightarrow>
    'nonce ProofRequestPayload \<Rightarrow> ('sig, 'scp, 'reg, 'wit) Credential \<Rightarrow> nat \<Rightarrow> RequestedProof \<Rightarrow> RequestedProof IndyResult" where
  "update_requested_proof U as ps req c i rp =
    bindr (update_attrs U req (cr_values c) i as rp) (\<lambda>rp'.
      Inr (rp'\<lparr>rp_predicates := fold (\<lambda>p. AList.update (rqp_predicate_referent p) \<lparr>spr_index = i\<rparr>) ps (rp_predicates rp')\<rparr>))"

fun add_requested ::
  "('cp, 'nonce, 'bn, 'pk, 'rk, 'key, 'ak, 'reg) ursa \<Rightarrow> request_call list \<Rightarrow> RequestedAttributeInfo list \<Rightarrow>
    request_call list IndyResult" where
  "add_requested U b [] = Inr b"
| "add_requested U b (a # as) =
    bindr (if rqa_revealed a then
        run_builder (us_request_call U) b (map (\<lambda>n. AddRevealedAttr (attr_common_view U n))
          (case ai_name (rqa_attr_info a) of Some name \<Rightarrow> [name]
           | None \<Rightarrow> (case ai_names (rqa_attr_info a) of Some names \<Rightarrow> names | None \<Rightarrow> [])))
      else Inr b) (\<lambda>b'. add_requested U b' as)"

definition build_prover_request ::
  "('cp, 'nonce, 'bn, 'pk, 'rk, 'key, 'ak, 'reg) ursa \<Rightarrow> RequestedAttributeInfo list \<Rightarrow> RequestedPredicateInfo list \<Rightarrow>
    request_call list IndyResult" where
  "build_prover_request U as ps =
    bindr (us_request_call U []) (\<lambda>_.
    bindr (add_requested U [] as) (\<lambda>b.
    bindr (run_builder (us_request_call U) b (map (\<lambda>p. predicate_call U (rqp_predicate_info p)) ps)) (\<lambda>b'.
    bindr (us_request_finalize U b') (\<lambda>_. Inr b'))))"

definition proof_identifier ::
  "bool \<Rightarrow> ProofRequestsVersion \<Rightarrow> ('sig, 'scp, 'reg, 'wit) Credential \<Rightarrow> nat option \<Rightarrow> Identifier" where
  "proof_identifier node_1_3 version c timestamp =
    (case version of
       V1 \<Rightarrow> \<lparr>id_schema_id = schema_to_unqualified (cr_schema_id c),
              id_cred_def_id = cred_def_to_unqualified node_1_3 (cr_cred_def_id c),
              id_rev_reg_id = map_option (rev_reg_to_unqualified node_1_3) (cr_rev_reg_id c), id_timestamp = timestamp\<rparr>
     | V2 \<Rightarrow> \<lparr>id_schema_id = cr_schema_id c, id_cred_def_id = cr_cred_def_id c, id_rev_reg_id = cr_rev_reg_id c,
              id_timestamp = timestamp\<rparr>)"

record ('pk, 'rk, 'sig, 'scp, 'reg, 'wit) holder =
  ho_credentials :: "string \<Rightarrow> ('sig, 'scp, 'reg, 'wit) Credential option"
  ho_schemas :: "SchemaId \<Rightarrow> SchemaV1 option"
  ho_cred_defs :: "CredentialDefinitionId \<Rightarrow> ('pk, 'rk) CredentialDefinitionV1 option"
  ho_rev_states :: "string \<Rightarrow> (nat \<Rightarrow> ('reg, 'wit) RevocationState option) option"

definition rev_state_of ::
  "('pk, 'rk, 'sig, 'scp, 'reg, 'wit) holder \<Rightarrow> ('sig, 'scp, 'reg, 'wit) Credential \<Rightarrow> ProvingCredentialKey \<Rightarrow>
    ('reg, 'wit) RevocationState option IndyResult" where
  "rev_state_of H c k =
    (case pk_timestamp k of
       Some timestamp \<Rightarrow>
         bindr (ok_or (cr_rev_reg_id c) (Error InvalidStructure)) (\<lambda>rev_reg_id.
         bindr (ok_or (case ho_rev_states H (rev_reg_str rev_reg_id) of
             Some s \<Rightarrow> Some s | None \<Rightarrow> ho_rev_states H (pk_cred_id k)) (Error InvalidStructure)) (\<lambda>states.
         bindr (ok_or (states timestamp) (Error InvalidStructure)) (\<lambda>s. Inr (Some s))))
     | None \<Rightarrow> Inr None)"

definition build_proof_part ::
  "('cp, 'nonce, 'bn, 'pk, 'rk, 'key, 'ak, 'reg) ursa \<Rightarrow> ('ms, 'mv, 'sig, 'key, 'reg, 'wit, 'cp, 'nonce) prover_ursa \<Rightarrow>
    ('pk, 'rk, 'sig, 'scp, 'reg, 'wit) holder \<Rightarrow> 'ms \<Rightarrow> string list \<Rightarrow> ProvingCredentialKey \<Rightarrow> RequestedAttributeInfo list \<Rightarrow>
    RequestedPredicateInfo list \<Rightarrow> (('sig, 'scp, 'reg, 'wit) Credential \<times> ('mv, 'sig, 'key, 'reg, 'wit) proof_part) IndyResult" where
  "build_proof_part U P H ms non_schema k as ps =
    bindr (ok_or (ho_credentials H (pk_cred_id k)) (Error InvalidStructure)) (\<lambda>c.
    bindr (ok_or (ho_schemas H (cr_schema_id c)) (Error InvalidStructure)) (\<lambda>schema.
    bindr (ok_or (ho_cred_defs H (cr_cred_def_id c)) (Error InvalidStructure)) (\<lambda>cred_def.
    bindr (rev_state_of H c k) (\<lambda>rev_state.
    bindr (us_build_key U (cdd_primary (cd_value cred_def)) (cdd_revocation (cd_value cred_def))) (\<lambda>key.
    bindr (build_credential_schema U (sv_attr_names schema)) (\<lambda>credential_schema.
    bindr (build_credential_values U P (cr_values c) (Some ms)) (\<lambda>values.
    bindr (build_prover_request U as ps) (\<lambda>request.
      Inr (c, \<lparr>pp_request = request, pp_schema = credential_schema, pp_non_schema = non_schema, pp_signature = cr_signature c,
        pp_values = values, pp_key = key, pp_rev_reg = map_option rs_rev_reg rev_state,
        pp_witness = map_option rs_witness rev_state\<rparr>)))))))))"

fun prove_credentials ::
  "('cp, 'nonce, 'bn, 'pk, 'rk, 'key, 'ak, 'reg) ursa \<Rightarrow> ('ms, 'mv, 'sig, 'key, 'reg, 'wit, 'cp, 'nonce) prover_ursa \<Rightarrow> bool \<Rightarrow>
    ('pk, 'rk, 'sig, 'scp, 'reg, 'wit) holder \<Rightarrow> 'nonce ProofRequest \<Rightarrow> 'ms \<Rightarrow> string list \<Rightarrow> nat \<Rightarrow> proving \<Rightarrow>
    ('mv, 'sig, 'key, 'reg, 'wit) proof_part list \<Rightarrow> Identifier list \<Rightarrow> RequestedProof \<Rightarrow>
    (('mv, 'sig, 'key, 'reg, 'wit) proof_part list \<times> Identifier list \<times> RequestedProof) IndyResult" where
  "prove_credentials U P node_1_3 H req ms ns i [] parts ids rp = Inr (parts, ids, rp)"
| "prove_credentials U P node_1_3 H req ms ns i ((k, as, ps) # rest) parts ids rp =
    bindr (build_proof_part U P H ms ns k as ps) (\<lambda>(c, part).
    bindr (pu_add_sub_proof P (parts @ [part])) (\<lambda>_.
    bindr (update_requested_proof U as ps (payload req) c i rp) (\<lambda>rp'.
      prove_credentials U P node_1_3 H req ms ns (Suc i) rest (parts @ [part])
        (ids @ [proof_identifier node_1_3 (request_version req) c (pk_timestamp k)]) rp')))"

definition create_proof ::
  "('cp, 'nonce, 'bn, 'pk, 'rk, 'key, 'ak, 'reg) ursa \<Rightarrow> ('ms, 'mv, 'sig, 'key, 'reg, 'wit, 'cp, 'nonce) prover_ursa \<Rightarrow> bool \<Rightarrow>
    ('pk, 'rk, 'sig, 'scp, 'reg, 'wit) holder \<Rightarrow> 'nonce ProofRequest \<Rightarrow> RequestedCredentials \<Rightarrow> 'ms \<Rightarrow> 'cp FullProof IndyResult" where
  "create_proof U P node_1_3 H req rc ms =
    bindr (pu_new_proof_builder P) (\<lambda>_.
    bindr (pu_add_common_attribute P ''master_secret'') (\<lambda>_.
    let rp = \<lparr>rp_revealed_attrs = [], rp_revealed_attr_groups = [], rp_self_attested_attrs = rc_self_attested_attributes rc,
              rp_unrevealed_attrs = [], rp_predicates = []\<rparr> in
    bindr (prepare_credentials_for_proving rc (payload req)) (\<lambda>m.
    bindr (build_non_credential_schema U) (\<lambda>ns.
    bindr (prove_credentials U P node_1_3 H req ms ns 0 (pu_order_keys P m) [] [] rp) (\<lambda>(parts, ids, rp').
    bindr (pu_finalize P parts (pr_nonce (payload req))) (\<lambda>cp.
      Inr \<lparr>pf_proof = cp, pf_requested_proof = rp', pf_identifiers = ids\<rparr>))))))"

end
