(* ===== verification/Identifier_Laws.thy ===== *)
theory Identifier_Laws
  imports Identifiers
begin

text \<open>
  What holds of the identifiers of schemas, credential definitions and revocation registries. The locale
  \<open>identifier_kind\<close> states what the three kinds share: parts that go in come out again, and \<^verbatim>\<open>to_unqualified\<close>
  works on the parts. It is interpreted for each kind, every time on the functions of the code.
\<close>

section \<open>The interface of identifiers\<close>

locale identifier_kind =
  fixes build :: "'p \<Rightarrow> 'i" and parts :: "'i \<Rightarrow> 'p option" and good :: "'p \<Rightarrow> bool"
    and shorten :: "'p \<Rightarrow> 'p" and unqualified :: "'i \<Rightarrow> 'i"
  assumes parts_build: "good p \<Longrightarrow> parts (build p) = Some p"
    and unqualified_parts: "parts i = Some p \<Longrightarrow> unqualified i = build (shorten p)"
    and good_shorten: "good p \<Longrightarrow> good (shorten p)"
    and shorten_shorten: "good p \<Longrightarrow> shorten (shorten p) = shorten p"
begin

lemma build_inject: "good p \<Longrightarrow> good q \<Longrightarrow> build p = build q \<longleftrightarrow> p = q"
  using parts_build by (metis option.inject)

lemma unqualified_build: "good p \<Longrightarrow> unqualified (build p) = build (shorten p)"
  using parts_build unqualified_parts by blast

lemma unqualified_idem: "good p \<Longrightarrow> unqualified (unqualified (build p)) = unqualified (build p)"
  by (simp add: unqualified_build good_shorten shorten_shorten)

lemma unqualified_eq_iff:
  "good p \<Longrightarrow> good q \<Longrightarrow> unqualified (build p) = unqualified (build q) \<longleftrightarrow> shorten p = shorten q"
  by (simp add: unqualified_build build_inject good_shorten)

end

text \<open>Where an identifier can also be qualified with a method, \<^verbatim>\<open>to_unqualified\<close> takes that back.\<close>

locale qualifiable = identifier_kind build parts good shorten unqualified
  for build :: "'p \<Rightarrow> 'i" and parts :: "'i \<Rightarrow> 'p option" and good :: "'p \<Rightarrow> bool"
    and shorten :: "'p \<Rightarrow> 'p" and unqualified :: "'i \<Rightarrow> 'i" +
  fixes with_method :: "'i \<Rightarrow> string \<Rightarrow> 'i" and lengthen :: "'p \<Rightarrow> string \<Rightarrow> 'p" and liftable :: "'p \<Rightarrow> bool"
  assumes qualified_parts: "parts i = Some p \<Longrightarrow> with_method i m = build (lengthen p m)"
    and liftable_good: "liftable p \<Longrightarrow> good p"
    and lengthen_good: "liftable p \<Longrightarrow> method_name m \<Longrightarrow> good (lengthen p m)"
    and shorten_lengthen: "liftable p \<Longrightarrow> method_name m \<Longrightarrow> shorten (lengthen p m) = p"
begin

lemma parts_qualified:
  "liftable p \<Longrightarrow> method_name m \<Longrightarrow> parts (with_method (build p) m) = Some (lengthen p m)"
  by (simp add: qualified_parts parts_build liftable_good lengthen_good)

lemma unqualified_qualified: "liftable p \<Longrightarrow> method_name m \<Longrightarrow> unqualified (with_method (build p) m) = build p"
  using unqualified_parts [OF parts_qualified] by (simp add: shorten_lengthen)

end

section \<open>Splitting and joining\<close>

lemma split_on_nonempty [simp]: "split_on d s \<noteq> []"
  by (induction s) (auto split: list.split)

lemma split_on_snoc: "split_on d (s @ d # t) = split_on d s @ split_on d t"
proof (induction s)
  case (Cons c s)
  obtain p ps where "split_on d s = p # ps" using split_on_nonempty [of d s] by (cases "split_on d s") auto
  with Cons show ?case by simp
qed simp

lemma join_str_Cons: "ps \<noteq> [] \<Longrightarrow> join_str (p # ps) d = p @ d @ join_str ps d"
  by (cases ps) simp_all

lemma join_str_Cons_Cons: "join_str ((c # p) # ps) d = c # join_str (p # ps) d"
  by (cases ps) simp_all

lemma join_split: "join_str (split_on colon s) DELIMITER = s"
proof (induction s)
  case (Cons c s)
  obtain p ps where p: "split_on colon s = p # ps"
    using split_on_nonempty [of colon s] by (cases "split_on colon s") auto
  with Cons show ?case by (auto simp: join_str_Cons_Cons DELIMITER_def)
qed simp

lemma split_pieces_plain: "list_all no_colon (split_on colon s)"
proof (induction s)
  case (Cons c s)
  then show ?case by (cases "split_on colon s") (auto simp: no_colon_def)
qed (simp add: no_colon_def)

lemma plain_split: "no_colon s \<Longrightarrow> split_on colon s = [s]"
  by (simp add: no_colon_def split_on_plain)

lemma split_fields: "no_colon p \<Longrightarrow> split_on colon (p @ DELIMITER @ s) = p # split_on colon s"
  by (simp add: DELIMITER_def no_colon_def split_on_append)

lemma split_delimiter [simp]: "split_on colon (DELIMITER @ s) = [] # split_on colon s"
  by (simp add: DELIMITER_def)

lemma split_terminator_plain:
  "split_on colon s = ps \<Longrightarrow> last ps \<noteq> [] \<Longrightarrow> split_terminator colon s = ps"
  by (simp add: split_terminator_def)

lemma plain_literals [simp]: "no_colon ''2''" "no_colon ''3''" "no_colon ''4''" "no_colon ''did''" "no_colon ''schema''"
  "no_colon ''creddef''" "no_colon ''revreg''" "no_colon []"
  by (simp_all add: no_colon_def)

section \<open>DIDs\<close>

definition did_short :: "DidValue \<Rightarrow> bool" where
  "did_short did \<longleftrightarrow> short_did (did_str did)"

definition did_full :: "DidValue \<Rightarrow> bool" where
  "did_full did = (case split_on colon (did_str did) of
     [p, m, d] \<Rightarrow> p = ''did'' \<and> method_name m \<and> one_line d
   | _ \<Rightarrow> False)"

lemma did_fullE:
  assumes "did_full did"
  obtains m d where "did = full_did m d" "method_name m" "short_did d"
proof -
  from assms obtain m d where md: "split_on colon (did_str did) = [''did'', m, d]" "method_name m" "one_line d"
    by (auto simp: did_full_def split: list.splits)
  then have "did_str did = join_str [''did'', m, d] DELIMITER" "no_colon d"
    using join_split [of "did_str did"] split_pieces_plain [of "did_str did"] by simp_all
  then have "did = full_did m d" "short_did d"
    using md(3) by (cases did, simp_all add: full_did_def DELIMITER_def short_did_def)
  with md that show thesis by blast
qed

lemma did_shortE:
  assumes "did_short did"
  obtains d where "did = DidValue d" "short_did d"
  using assms by (cases did) (auto simp: did_short_def)

lemma full_did_full [simp]: "method_name m \<Longrightarrow> short_did d \<Longrightarrow> did_full (full_did m d)"
  using method_name_plain [of m]
  by (simp add: did_full_def full_did_def short_did_def no_colon_def split_on_append split_on_plain)

lemma short_did_short [simp]: "short_did d \<Longrightarrow> did_short (DidValue d)"
  by (simp add: did_short_def)

lemma did_full_not_short: "did_full did \<Longrightarrow> \<not> did_short did"
  by (auto simp: did_full_def did_short_def short_did_def plain_split split: list.splits)

lemma did_to_unqualified_short:
  "did_short did \<or> did_full did \<Longrightarrow> did_short (did_to_unqualified did)"
  "did_short did \<Longrightarrow> did_to_unqualified did = did"
  by (auto elim!: did_shortE did_fullE simp: did_simps)

lemma did_qualify_full:
  "did_short did \<Longrightarrow> method_name m \<Longrightarrow> did_full (did_qualify did m)"
  "did_short did \<Longrightarrow> method_name m \<Longrightarrow> did_to_unqualified (did_qualify did m) = did"
  by (auto elim!: did_shortE simp: did_simps)

section \<open>Schemas\<close>

type_synonym schema_pieces = "DidValue \<times> string \<times> string"

fun schema_build :: "schema_pieces \<Rightarrow> SchemaId" where
  "schema_build (did, name, version) = schema_new did name version"

fun schema_good :: "schema_pieces \<Rightarrow> bool" where
  "schema_good (did, name, version) \<longleftrightarrow>
    (did_short did \<or> did_full did) \<and> no_colon name \<and> no_colon version \<and> version \<noteq> []"

fun schema_shorten :: "schema_pieces \<Rightarrow> schema_pieces" where
  "schema_shorten (did, name, version) = (did_to_unqualified did, name, version)"

fun schema_lengthen :: "schema_pieces \<Rightarrow> string \<Rightarrow> schema_pieces" where
  "schema_lengthen (did, name, version) m = (did_qualify did m, name, version)"

lemma split_schema_short:
  assumes "short_did d" "no_colon n" "no_colon v"
  shows "split_on colon (schema_str (schema_new (DidValue d) n v)) = [d, ''2'', n, v]"
  using assms by (simp add: schema_new_def did_simps split_fields plain_split short_did_def)

lemma split_schema_full:
  assumes "method_name m" "short_did d" "no_colon n" "no_colon v"
  shows "split_on colon (schema_str (schema_new (full_did m d) n v)) = [''schema'', m, ''did'', m, d, ''2'', n, v]"
proof -
  have "schema_str (schema_new (full_did m d) n v) =
      ''schema'' @ DELIMITER @ m @ DELIMITER @ ''did'' @ DELIMITER @ m @ DELIMITER @ d @ DELIMITER @ ''2'' @ DELIMITER
        @ n @ DELIMITER @ v"
    using assms unfolding schema_new_def
    by (simp add: did_simps) (simp add: qualify_def SCHEMA_PREFIX_def full_did_def DELIMITER_def)
  then show ?thesis
    using assms method_name_plain by (simp add: split_fields plain_split short_did_def)
qed

lemma schema_parts_build:
  assumes "schema_good p"
  shows "schema_parts (schema_build p) = Some p"
proof -
  obtain did n v where p: "p = (did, n, v)" by (cases p) auto
  with assms have g: "did_short did \<or> did_full did" "no_colon n" "no_colon v" "v \<noteq> []" by simp_all
  show ?thesis
    using g(1)
  proof
    assume "did_short did"
    then obtain d where "did = DidValue d" "short_did d" by (rule did_shortE)
    with g split_schema_short [of d n v] split_terminator_plain show ?thesis by (simp add: p schema_parts_def)
  next
    assume "did_full did"
    then obtain m d where "did = full_did m d" "method_name m" "short_did d" by (rule did_fullE)
    with g split_schema_full [of m d n v] split_terminator_plain show ?thesis
      by (simp add: p schema_parts_def full_did_def DELIMITER_def)
  qed
qed

interpretation schema_ids: qualifiable schema_build schema_parts schema_good schema_shorten schema_to_unqualified
  schema_qualify schema_lengthen "\<lambda>p. schema_good p \<and> did_short (fst p)"
proof
  fix p :: schema_pieces and m :: string and i :: SchemaId
  obtain did n v where p: "p = (did, n, v)" by (cases p) auto
  show "schema_good p \<Longrightarrow> schema_parts (schema_build p) = Some p" by (rule schema_parts_build)
  show "schema_parts i = Some p \<Longrightarrow> schema_to_unqualified i = schema_build (schema_shorten p)"
    by (simp add: p schema_to_unqualified_def)
  show "schema_parts i = Some p \<Longrightarrow> schema_qualify i m = schema_build (schema_lengthen p m)"
    by (simp add: p schema_qualify_def)
  show "schema_good p \<Longrightarrow> schema_good (schema_shorten p)" using did_to_unqualified_short by (simp add: p)
  show "schema_good p \<Longrightarrow> schema_shorten (schema_shorten p) = schema_shorten p"
    using did_to_unqualified_short by (auto simp: p)
  show "schema_good p \<and> did_short (fst p) \<Longrightarrow> schema_good p" by simp
  show "schema_good p \<and> did_short (fst p) \<Longrightarrow> method_name m \<Longrightarrow> schema_good (schema_lengthen p m)"
    using did_qualify_full by (simp add: p)
  show "schema_good p \<and> did_short (fst p) \<Longrightarrow> method_name m \<Longrightarrow> schema_shorten (schema_lengthen p m) = p"
    using did_qualify_full by (simp add: p)
qed

section \<open>Credential definitions\<close>

type_synonym cred_def_pieces = "DidValue \<times> string \<times> SchemaId \<times> string"

text \<open>A schema is named by its sequence number or by an id that is qualified when \<open>f\<close> holds.\<close>

definition schema_ref :: "bool \<Rightarrow> SchemaId \<Rightarrow> bool" where
  "schema_ref f sid \<longleftrightarrow>
    no_colon (schema_str sid) \<and> schema_str sid \<noteq> [] \<or>
    (case schema_parts sid of
       Some p \<Rightarrow> schema_good p \<and> schema_build p = sid \<and> did_full (fst p) = f
     | None \<Rightarrow> False)"

fun cred_def_build :: "bool \<Rightarrow> cred_def_pieces \<Rightarrow> CredentialDefinitionId" where
  "cred_def_build node_1_3 (did, st, sid, tag) = cred_def_new node_1_3 did sid st tag"

fun cred_def_good :: "bool \<Rightarrow> cred_def_pieces \<Rightarrow> bool" where
  "cred_def_good node_1_3 (did, st, sid, tag) \<longleftrightarrow>
    no_colon st \<and> no_colon tag \<and>
    (did_short did \<and> schema_ref False sid \<and> (node_1_3 \<longrightarrow> tag = []) \<or>
     did_full did \<and> schema_ref True sid \<and> \<not> node_1_3 \<and> tag \<noteq> [])"

fun cred_def_shorten :: "cred_def_pieces \<Rightarrow> cred_def_pieces" where
  "cred_def_shorten (did, st, sid, tag) = (did_to_unqualified did, st, schema_to_unqualified sid, tag)"

fun cred_def_lengthen :: "cred_def_pieces \<Rightarrow> string \<Rightarrow> cred_def_pieces" where
  "cred_def_lengthen (did, st, sid, tag) m = (did_qualify did m, st, schema_qualify sid m, tag)"

fun cred_def_liftable :: "bool \<Rightarrow> cred_def_pieces \<Rightarrow> bool" where
  "cred_def_liftable node_1_3 (did, st, sid, tag) \<longleftrightarrow>
    did_short did \<and> no_colon st \<and> schema_ref False sid \<and> no_colon tag \<and> tag \<noteq> [] \<and> \<not> node_1_3"

lemma schema_refE:
  assumes "schema_ref f sid"
  obtains (number) "no_colon (schema_str sid)" "schema_str sid \<noteq> []" "split_on colon (schema_str sid) = [schema_str sid]"
  | (name) p where "schema_good p" "sid = schema_build p" "did_full (fst p) = f"
      "length (split_on colon (schema_str sid)) = (if f then 8 else 4)" "last (split_on colon (schema_str sid)) \<noteq> []"
proof -
  consider "no_colon (schema_str sid)" "schema_str sid \<noteq> []"
    | p where "schema_good p" "schema_build p = sid" "did_full (fst p) = f"
    using assms by (auto simp: schema_ref_def split: option.splits)
  then show thesis
  proof cases
    case 1
    then show thesis using plain_split number by blast
  next
    case 2
    obtain did n v where p: "p = (did, n, v)" by (cases p) auto
    have "length (split_on colon (schema_str sid)) = (if f then 8 else 4) \<and> last (split_on colon (schema_str sid)) = v"
    proof (cases "did_full did")
      case True
      then obtain m d where "did = full_did m d" "method_name m" "short_did d" by (rule did_fullE)
      with 2 p split_schema_full [of m d n v] True show ?thesis by auto
    next
      case False
      with 2 p have "did_short did" by simp
      then obtain d where "did = DidValue d" "short_did d" by (rule did_shortE)
      with 2 p split_schema_short [of d n v] False show ?thesis by auto
    qed
    with 2 p name [of p] show thesis by auto
  qed
qed

lemma schema_ref_number: "no_colon s \<Longrightarrow> s \<noteq> [] \<Longrightarrow> schema_parts (SchemaId s) = None"
  by (simp add: schema_parts_def split_terminator_def plain_split)

lemma schema_ref_unqualified:
  assumes "schema_ref f sid"
  shows "schema_ref False (schema_to_unqualified sid)"
    "schema_to_unqualified (schema_to_unqualified sid) = schema_to_unqualified sid"
    "\<not> f \<Longrightarrow> schema_to_unqualified sid = sid"
proof -
  from assms have "schema_ref False (schema_to_unqualified sid) \<and>
    schema_to_unqualified (schema_to_unqualified sid) = schema_to_unqualified sid \<and>
    (\<not> f \<longrightarrow> schema_to_unqualified sid = sid)"
  proof (cases rule: schema_refE)
    case number
    then have "schema_to_unqualified sid = sid"
      using schema_ref_number by (cases sid) (simp add: schema_to_unqualified_def)
    with number show ?thesis by (simp add: schema_ref_def)
  next
    case (name p)
    let ?q = "schema_shorten p"
    have q: "schema_good ?q" "did_short (fst ?q)"
      using schema_ids.good_shorten [OF name(1)] name(1) did_to_unqualified_short(1) by (cases p; auto)+
    have "\<not> f \<Longrightarrow> ?q = p" using name(1,3) did_to_unqualified_short(2) by (cases p) auto
    moreover have "schema_ref False (schema_build ?q)"
      using schema_parts_build [OF q(1)] q did_full_not_short by (auto simp: schema_ref_def)
    ultimately show ?thesis
      using schema_ids.unqualified_build [OF name(1)] schema_ids.unqualified_idem [OF name(1)] name(2) by auto
  qed
  then show "schema_ref False (schema_to_unqualified sid)"
    "schema_to_unqualified (schema_to_unqualified sid) = schema_to_unqualified sid"
    "\<not> f \<Longrightarrow> schema_to_unqualified sid = sid" by blast+
qed

lemma schema_ref_qualify:
  assumes "schema_ref False sid" "method_name m"
  shows "schema_ref True (schema_qualify sid m)" "schema_to_unqualified (schema_qualify sid m) = sid"
proof -
  from assms(1) have "schema_ref True (schema_qualify sid m) \<and> schema_to_unqualified (schema_qualify sid m) = sid"
  proof (cases rule: schema_refE)
    case number
    then have "schema_qualify sid m = sid" "schema_to_unqualified sid = sid"
      using schema_ref_number by (cases sid; simp add: schema_qualify_def schema_to_unqualified_def)+
    with number show ?thesis by (simp add: schema_ref_def)
  next
    case (name p)
    then have l: "schema_good p \<and> did_short (fst p)" by (cases p) auto
    have "schema_parts (schema_qualify sid m) = Some (schema_lengthen p m)"
      using schema_ids.parts_qualified [OF l assms(2)] name(2) by simp
    moreover have "schema_qualify sid m = schema_build (schema_lengthen p m)"
      using schema_ids.qualified_parts schema_ids.parts_build name(1,2) by blast
    moreover have "did_full (fst (schema_lengthen p m))" using l did_qualify_full(1) assms(2) by (cases p) auto
    ultimately show ?thesis
      using schema_ids.lengthen_good [OF l assms(2)] schema_ids.unqualified_qualified [OF l assms(2)] name(2)
      by (auto simp: schema_ref_def)
  qed
  then show "schema_ref True (schema_qualify sid m)" "schema_to_unqualified (schema_qualify sid m) = sid" by blast+
qed

lemma split_cred_def_short:
  assumes "short_did d" "no_colon st" "no_colon tag" "node \<longrightarrow> tag = []"
  shows "split_on colon (cred_def_str (cred_def_new node (DidValue d) sid st tag)) =
    d # ''3'' # st # split_on colon (schema_str sid) @ (if tag = [] then [] else [tag])"
proof -
  have "cred_def_str (cred_def_new node (DidValue d) sid st tag) =
      d @ DELIMITER @ ''3'' @ DELIMITER @ st @ DELIMITER @ schema_str sid @ (if tag = [] then [] else colon # tag)"
    using assms(1,4) by (simp add: cred_def_new_def did_simps DELIMITER_def)
  then show ?thesis
    using assms by (cases "tag = []") (simp_all add: split_fields short_did_def split_on_snoc plain_split)
qed

lemma split_cred_def_full:
  assumes "method_name m" "short_did d" "no_colon st" "no_colon tag" "tag \<noteq> []"
  shows "split_on colon (cred_def_str (cred_def_new False (full_did m d) sid st tag)) =
    ''creddef'' # m # ''did'' # m # d # ''3'' # st # split_on colon (schema_str sid) @ [tag]"
proof -
  have "cred_def_str (cred_def_new False (full_did m d) sid st tag) =
      ''creddef'' @ DELIMITER @ m @ DELIMITER @ ''did'' @ DELIMITER @ m @ DELIMITER @ d @ DELIMITER @ ''3'' @ DELIMITER
        @ st @ DELIMITER @ schema_str sid @ colon # tag"
    using assms unfolding cred_def_new_def
    by (simp add: did_simps) (simp add: qualify_def CREDDEF_PREFIX_def full_did_def DELIMITER_def)
  then show ?thesis
    using assms method_name_plain by (simp add: split_fields plain_split short_did_def split_on_snoc)
qed

lemma split_schema_cases:
  assumes "schema_ref f sid"
  shows "split_on colon (schema_str sid) = [schema_str sid] \<and> schema_str sid \<noteq> [] \<or>
    (\<exists>ps. split_on colon (schema_str sid) = ps \<and> length ps = (if f then 8 else 4) \<and> last ps \<noteq> [] \<and>
      join_str ps DELIMITER = schema_str sid)"
  using assms by (cases rule: schema_refE) (auto simp: join_split)

lemma cred_def_parts_build:
  assumes "cred_def_good node p"
  shows "cred_def_parts (cred_def_build node p) = Some p"
proof -
  obtain did st sid tag where p: "p = (did, st, sid, tag)" by (cases p) auto
  with assms have g: "no_colon st" "no_colon tag" by simp_all
  consider "did_short did" "schema_ref False sid" "node \<longrightarrow> tag = []"
    | "did_full did" "schema_ref True sid" "\<not> node" "tag \<noteq> []"
    using assms p by auto
  then show ?thesis
  proof cases
    case 1
    from 1(1) obtain d where d: "did = DidValue d" "short_did d" by (rule did_shortE)
    note split = split_cred_def_short [OF d(2) g 1(3), of sid]
    from split_schema_cases [OF 1(2)] show ?thesis
    proof (elim disjE exE conjE)
      assume "split_on colon (schema_str sid) = [schema_str sid]" "schema_str sid \<noteq> []"
      with split split_terminator_plain [OF split] show ?thesis
        by (cases "tag = []") (simp_all add: p d cred_def_parts_def)
    next
      fix ps
      assume ps: "split_on colon (schema_str sid) = ps" "length ps = (if False then 8 else 4)" "last ps \<noteq> []"
        "join_str ps DELIMITER = schema_str sid"
      then obtain a b c e where "ps = [a, b, c, e]" by (auto simp: length_Suc_conv numeral_eq_Suc)
      with ps split split_terminator_plain [OF split] show ?thesis
        by (cases "tag = []") (simp_all add: p d cred_def_parts_def)
    qed
  next
    case 2
    from 2(1) obtain m d where d: "did = full_did m d" "method_name m" "short_did d" by (rule did_fullE)
    note split = split_cred_def_full [OF d(2,3) g 2(4), of sid]
    have full: "did_str (full_did m d) = join_str [''did'', m, d] DELIMITER" by (simp add: full_did_def DELIMITER_def)
    from split_schema_cases [OF 2(2)] show ?thesis
    proof (elim disjE exE conjE)
      assume "split_on colon (schema_str sid) = [schema_str sid]" "schema_str sid \<noteq> []"
      with 2 split split_terminator_plain [OF split] full show ?thesis
        by (simp add: p d cred_def_parts_def full_did_def DELIMITER_def)
    next
      fix ps
      assume ps: "split_on colon (schema_str sid) = ps" "length ps = (if True then 8 else 4)" "last ps \<noteq> []"
        "join_str ps DELIMITER = schema_str sid"
      then have "split_terminator colon (cred_def_str (cred_def_new False (full_did m d) sid st tag)) =
          [''creddef'', m, ''did'', m, d, ''3'', st] @ ps @ [tag]"
        using split_terminator_plain [OF split] 2 by simp
      with ps 2 full show ?thesis
        by (simp add: p d cred_def_parts_def nth_append numeral_eq_Suc full_did_def DELIMITER_def)
    qed
  qed
qed

interpretation cred_def_ids: qualifiable "cred_def_build node_1_3" cred_def_parts "cred_def_good node_1_3"
  cred_def_shorten "cred_def_to_unqualified node_1_3" "cred_def_qualify node_1_3" cred_def_lengthen
  "cred_def_liftable node_1_3"
  for node_1_3 :: bool
proof
  fix p :: cred_def_pieces and m :: string and i :: CredentialDefinitionId
  obtain did st sid tag where p: "p = (did, st, sid, tag)" by (cases p) auto
  show "cred_def_good node_1_3 p \<Longrightarrow> cred_def_parts (cred_def_build node_1_3 p) = Some p" by (rule cred_def_parts_build)
  show "cred_def_parts i = Some p \<Longrightarrow> cred_def_to_unqualified node_1_3 i = cred_def_build node_1_3 (cred_def_shorten p)"
    by (simp add: p cred_def_to_unqualified_def)
  show "cred_def_parts i = Some p \<Longrightarrow> cred_def_qualify node_1_3 i m = cred_def_build node_1_3 (cred_def_lengthen p m)"
    by (simp add: p cred_def_qualify_def)
  show "cred_def_good node_1_3 p \<Longrightarrow> cred_def_good node_1_3 (cred_def_shorten p)"
    using did_to_unqualified_short schema_ref_unqualified(1) by (auto simp: p)
  show "cred_def_good node_1_3 p \<Longrightarrow> cred_def_shorten (cred_def_shorten p) = cred_def_shorten p"
    using did_to_unqualified_short schema_ref_unqualified(2) by (auto simp: p)
  show "cred_def_liftable node_1_3 p \<Longrightarrow> cred_def_good node_1_3 p" by (auto simp: p)
  show "cred_def_liftable node_1_3 p \<Longrightarrow> method_name m \<Longrightarrow> cred_def_good node_1_3 (cred_def_lengthen p m)"
    using did_qualify_full schema_ref_qualify by (auto simp: p)
  show "cred_def_liftable node_1_3 p \<Longrightarrow> method_name m \<Longrightarrow> cred_def_shorten (cred_def_lengthen p m) = p"
    using did_qualify_full schema_ref_qualify by (auto simp: p)
qed

section \<open>Revocation registries\<close>

lemma captures_Rep:
  assumes s: "s = r @ t" "list_all q r" "lo \<le> length r" "captures ps t = Some cs"
    and max: "\<And>r' t'. s = r' @ t' \<Longrightarrow> length r < length r' \<Longrightarrow> list_all q r' \<Longrightarrow> captures ps t' = None"
  shows "captures (Rep lo q # ps) s = Some (r # cs)"
proof -
  let ?f = "\<lambda>n. map_option (Cons (take n s)) (captures ps (drop n s))"
  have "length r \<le> length (takeWhile q s)" by (rule takeWhile_run [OF s(1,2)])
  moreover have "?f (length r) = Some (r # cs)" by (simp add: s)
  moreover have "?f k = None" if "length r < k" "k \<le> length (takeWhile q s)" for k
    using max [of "take k s" "drop k s"] that take_run [OF that(2)] length_takeWhile_le [of q s] by simp
  ultimately have "longest ?f lo (length (takeWhile q s)) = Some (r # cs)" using s(3) by (auto simp: longest_Some)
  then show ?thesis by simp
qed

lemma captures_Lit:
  "captures (Lit '':'' # ps) (colon # t) = captures ps t"
  "captures (Lit '':4:'' # ps) (colon # CHR ''4'' # colon # t) = captures ps t"
  "captures (Lit l # ps) (l @ t) = captures ps t"
  by simp_all

declare captures.simps [simp del]

text \<open>The number of colons in a string, which bounds what a pattern with literal colons can match.\<close>

definition colons :: "string \<Rightarrow> nat" where
  "colons s = count_list s colon"

lemma colons_simps [simp]:
  "colons [] = 0" "colons (c # s) = (if c = colon then Suc (colons s) else colons s)" "colons (s @ t) = colons s + colons t"
  by (simp_all add: colons_def)

lemma plain_colons: "no_colon s \<longleftrightarrow> colons s = 0"
  by (simp add: no_colon_def colons_def count_list_0_iff)

lemma length_split_on: "length (split_on colon s) = Suc (colons s)"
proof (induction s)
  case (Cons c s)
  then show ?case by (cases "split_on colon s") auto
qed simp

lemma captures_tail_None:
  "colons s < 1 \<Longrightarrow> captures [Lit '':'', Rep 1 dot] s = None"
  "colons s < 2 \<Longrightarrow> captures [Lit '':'', Rep 1 dot, Lit '':'', Rep 1 dot] s = None"
proof -
  have "\<And>cs. matches [Lit '':'', Rep 1 dot] cs s \<Longrightarrow> 1 \<le> colons s"
    "\<And>cs. matches [Lit '':'', Rep 1 dot, Lit '':'', Rep 1 dot] cs s \<Longrightarrow> 2 \<le> colons s" by auto
  then show "colons s < 1 \<Longrightarrow> captures [Lit '':'', Rep 1 dot] s = None"
    "colons s < 2 \<Longrightarrow> captures [Lit '':'', Rep 1 dot, Lit '':'', Rep 1 dot] s = None"
    using captures_sound by (metis not_less option.exhaust)+
qed

text \<open>A longer run than \<open>r\<close> takes the delimiter after it too.\<close>

lemma longer_run:
  assumes "r @ colon # t = r' @ t'" "length r < length r'"
  obtains w where "r' = r @ colon # w" "t = w @ t'"
proof -
  from assms obtain u where "r' = r @ u" "u \<noteq> []" "u @ t' = colon # t"
    by (auto simp: append_eq_append_conv2)
  then show thesis using that by (cases u) auto
qed

lemma captures_word: "s \<noteq> [] \<Longrightarrow> one_line s \<Longrightarrow> captures [Rep 1 dot] s = Some [s]"
  by (rule captures_Rep [where t = "[]"]) (auto simp: one_line_def Suc_le_eq captures.simps(1))

lemma captures_two:
  assumes "ty \<noteq> []" "one_line ty" "tag \<noteq> []" "one_line tag" "no_colon tag"
  shows "captures [Rep 1 dot, Lit '':'', Rep 1 dot] (ty @ colon # tag) = Some [ty, tag]"
proof (rule captures_Rep)
  fix r' t'
  assume "ty @ colon # tag = r' @ t'" "length ty < length r'"
  then obtain w where "tag = w @ t'" by (rule longer_run)
  then show "captures [Lit '':'', Rep 1 dot] t' = None"
    using assms(5) captures_tail_None(1) [of t'] by (simp add: plain_colons)
next
  show "captures [Lit '':'', Rep 1 dot] (colon # tag) = Some [tag]"
    using captures_word [of tag] assms by (simp add: captures_Lit)
qed (use assms in \<open>auto simp: one_line_def Suc_le_eq\<close>)

lemma captures_three:
  assumes "c \<noteq> []" "one_line c" "ty \<noteq> []" "one_line ty" "no_colon ty" "tag \<noteq> []" "one_line tag" "no_colon tag"
  shows "captures [Rep 1 dot, Lit '':'', Rep 1 dot, Lit '':'', Rep 1 dot] (c @ colon # ty @ colon # tag) = Some [c, ty, tag]"
proof (rule captures_Rep)
  fix r' t'
  assume "c @ colon # ty @ colon # tag = r' @ t'" "length c < length r'"
  then obtain w where "ty @ colon # tag = w @ t'" by (rule longer_run)
  then have "colons (ty @ colon # tag) = colons (w @ t')" by simp
  then have "colons t' < 2" using assms by (simp add: plain_colons)
  then show "captures [Lit '':'', Rep 1 dot, Lit '':'', Rep 1 dot] t' = None"
    by (rule captures_tail_None(2))
next
  show "captures [Lit '':'', Rep 1 dot, Lit '':'', Rep 1 dot] (colon # ty @ colon # tag) = Some [ty, tag]"
    using captures_two [of ty tag] assms by (simp add: captures_Lit)
qed (use assms in \<open>auto simp: one_line_def Suc_le_eq\<close>)

text \<open>
  The pattern takes as the DID everything up to the last \<^verbatim>\<open>:4:\<close> that leaves three parts. So the credential
  definition comes out whole if none of its pieces, but perhaps the last, is \<open>4\<close>.
\<close>

lemma captures_rev_reg:
  assumes "d \<noteq> []" "one_line d" "c \<noteq> []" "one_line c" "''4'' \<notin> set (butlast (split_on colon c))"
    and "ty \<noteq> []" "one_line ty" "no_colon ty" "tag \<noteq> []" "one_line tag" "no_colon tag"
  shows "captures REV_REG_BODY (d @ '':4:'' @ c @ colon # ty @ colon # tag) = Some [d, c, ty, tag]"
  unfolding REV_REG_BODY_def
proof (rule captures_Rep [where t = "'':4:'' @ c @ colon # ty @ colon # tag"])
  fix r' t'
  assume "d @ '':4:'' @ c @ colon # ty @ colon # tag = r' @ t'" "length d < length r'"
  then have "d @ colon # (''4:'' @ c @ colon # ty @ colon # tag) = r' @ t'" by simp
  then obtain w where w: "''4:'' @ c @ colon # ty @ colon # tag = w @ t'"
    using \<open>length d < length r'\<close> by (rule longer_run)
  show "captures [Lit '':4:'', Rep 1 dot, Lit '':'', Rep 1 dot, Lit '':'', Rep 1 dot] t' = None"
  proof (rule ccontr)
    assume "captures [Lit '':4:'', Rep 1 dot, Lit '':'', Rep 1 dot, Lit '':'', Rep 1 dot] t' \<noteq> None"
    then obtain cs where "matches [Lit '':4:'', Rep 1 dot, Lit '':'', Rep 1 dot, Lit '':'', Rep 1 dot] cs t'"
      using captures_sound by blast
    then obtain a b e where t': "t' = '':4:'' @ a @ colon # b @ colon # e" by auto
    let ?u = "a @ colon # b @ colon # e"
    have right: "split_on colon (w @ colon # ''4'' @ colon # ?u) = split_on colon w @ ''4'' # split_on colon ?u"
      by (simp add: split_on_snoc)
    have left: "split_on colon (''4'' @ colon # c @ colon # ty @ colon # tag) = ''4'' # split_on colon c @ [ty, tag]"
      using assms plain_split by (simp add: split_on_snoc)
    have "''4'' @ colon # c @ colon # ty @ colon # tag = w @ colon # ''4'' @ colon # ?u" using w t' by simp
    from arg_cong [OF this, of "split_on colon"]
    have eq: "''4'' # split_on colon c @ [ty, tag] = split_on colon w @ ''4'' # split_on colon ?u"
      unfolding left right .
    have len: "3 \<le> length (split_on colon ?u)" by (simp add: length_split_on)
    obtain x xs where x: "split_on colon w = x # xs" using split_on_nonempty [of colon w] by (cases "split_on colon w") auto
    with eq have eq': "split_on colon c @ [ty, tag] = xs @ ''4'' # split_on colon ?u" by simp
    then have "length (split_on colon c @ [ty, tag]) = length (xs @ ''4'' # split_on colon ?u)" by (rule arg_cong)
    then have "length xs < length (butlast (split_on colon c))" using len by simp
    moreover from this have "butlast (split_on colon c) ! length xs = ''4''"
      using eq' by (metis length_butlast less_diff_conv add_lessD1 nth_append nth_append_length nth_butlast)
    ultimately show False using assms(5) nth_mem by metis
  qed
next
  show "captures [Lit '':4:'', Rep 1 dot, Lit '':'', Rep 1 dot, Lit '':'', Rep 1 dot] ('':4:'' @ c @ colon # ty @ colon # tag)
      = Some [c, ty, tag]"
    using captures_three [of c ty tag] assms by (simp add: captures_Lit)
qed (use assms in \<open>auto simp: one_line_def Suc_le_eq\<close>)

type_synonym rev_reg_pieces = "DidValue \<times> CredentialDefinitionId \<times> string \<times> string"

fun rev_reg_build :: "rev_reg_pieces \<Rightarrow> RevocationRegistryId" where
  "rev_reg_build (did, cid, ty, tag) = rev_reg_new did cid ty tag"

definition word_ok :: "string \<Rightarrow> bool" where
  "word_ok s \<longleftrightarrow> s \<noteq> [] \<and> one_line s \<and> no_colon s"

fun rev_reg_good :: "bool \<Rightarrow> rev_reg_pieces \<Rightarrow> bool" where
  "rev_reg_good node_1_3 (did, cid, ty, tag) \<longleftrightarrow>
    word_ok ty \<and> word_ok tag \<and> (did_short did \<or> did_full did) \<and>
    did_str (did_to_unqualified did) \<notin> {[], ''revreg''} \<and>
    (case cred_def_parts cid of
       Some p \<Rightarrow> cred_def_good node_1_3 p \<and> cred_def_build node_1_3 p = cid
     | None \<Rightarrow> False) \<and>
    list_all one_line (split_on colon (cred_def_str cid)) \<and> ''4'' \<notin> set (split_on colon (cred_def_str cid))"

fun rev_reg_shorten :: "bool \<Rightarrow> rev_reg_pieces \<Rightarrow> rev_reg_pieces" where
  "rev_reg_shorten node_1_3 (did, cid, ty, tag) =
    (did_to_unqualified did, cred_def_to_unqualified node_1_3 cid, ty, tag)"

lemma one_line_split: "one_line s \<longleftrightarrow> list_all one_line (split_on colon s)"
proof (induction s)
  case (Cons c s)
  then show ?case by (cases "split_on colon s") (auto simp: one_line_def dot_def)
qed (simp add: one_line_def)

lemma rev_reg_str_short:
  assumes "short_did d"
  shows "rev_reg_str (rev_reg_new (DidValue d) cid ty tag) = d @ '':4:'' @ cred_def_str cid @ colon # ty @ colon # tag"
  using assms by (simp add: rev_reg_new_def did_simps DELIMITER_def)

lemma rev_reg_str_full:
  assumes "method_name m" "short_did d"
  shows "rev_reg_str (rev_reg_new (full_did m d) cid ty tag) =
    ''revreg:'' @ m @ colon # did_str (full_did m d) @ '':4:'' @ cred_def_str cid @ colon # ty @ colon # tag"
  using assms unfolding rev_reg_new_def by (simp add: did_simps) (simp add: qualify_def REVREG_PREFIX_def DELIMITER_def)

lemma captures_revreg_None:
  assumes "no_colon d" "d \<noteq> ''revreg''"
  shows "captures (Lit ''revreg:'' # ps) (d @ colon # t) = None"
proof -
  have "take 7 (d @ colon # t) \<noteq> ''revreg:''"
  proof
    assume "take 7 (d @ colon # t) = ''revreg:''"
    then have "d @ colon # t = ''revreg'' @ colon # drop 7 (d @ colon # t)"
      using append_take_drop_id [of 7 "d @ colon # t"] by simp
    then have "d = ''revreg''" using first_delimiter [of colon d "''revreg''"] assms(1) by (simp add: no_colon_def)
    with assms(2) show False by simp
  qed
  then show ?thesis by (simp add: captures.simps numeral_eq_Suc)
qed

lemma captures_method:
  assumes "method_name m"
  shows "captures (Rep 1 alnum # Lit '':'' # ps) (m @ colon # t) = map_option (Cons m) (captures ps t)"
proof (cases "captures ps t")
  case None
  have "\<not> matches (Rep 1 alnum # Lit '':'' # ps) cs (m @ colon # t)" for cs
  proof
    assume "matches (Rep 1 alnum # Lit '':'' # ps) cs (m @ colon # t)"
    then obtain r t' cs' where "m @ colon # t = r @ colon # t'" "1 \<le> length r" "list_all alnum r" "matches ps cs' t'"
      by auto
    moreover from this have "colon \<notin> set r" using method_name_plain [of r] by (cases r) (simp_all add: method_name_def no_colon_def)
    ultimately have "matches ps cs' t"
      using first_delimiter [of colon m r t t'] method_name_plain [OF assms] by (simp add: no_colon_def)
    with None show False using captures_complete by blast
  qed
  with None show ?thesis using captures_sound by (metis option.exhaust option.map_disc_iff)
next
  case (Some cs)
  have "captures (Rep 1 alnum # Lit '':'' # ps) (m @ colon # t) = Some (m # cs)"
  proof (rule captures_Rep)
    fix r' t'
    assume "m @ colon # t = r' @ t'" "length m < length r'" "list_all alnum r'"
    then show "captures (Lit '':'' # ps) t' = None"
      by (elim longer_run) (auto simp: alnum_def)
  qed (use assms Some in \<open>auto simp: method_name_def Suc_le_eq captures_Lit\<close>)
  with Some show ?thesis by simp
qed

lemma rev_reg_parts_build:
  assumes "rev_reg_good node p"
  shows "rev_reg_parts (rev_reg_build p) = Some p"
proof -
  obtain did cid ty tag where p: "p = (did, cid, ty, tag)" by (cases p) auto
  let ?c = "cred_def_str cid"
  have g: "ty \<noteq> []" "one_line ty" "no_colon ty" "tag \<noteq> []" "one_line tag" "no_colon tag" "one_line ?c"
    using assms by (auto simp: p word_ok_def one_line_split [of ?c])
  have no4: "''4'' \<notin> set (butlast (split_on colon ?c))" using assms by (auto simp: p dest: in_set_butlastD)
  have c: "?c \<noteq> []"
  proof
    assume "?c = []"
    then have "cred_def_parts cid = None" by (simp add: cred_def_parts_def split_terminator_def)
    with assms show False by (simp add: p)
  qed
  note body = captures_rev_reg [OF _ _ c g(7) no4 g(1-6)]
  from assms p consider "did_short did" | "did_full did" by auto
  then show ?thesis
  proof cases
    case 1
    then obtain d where d: "did = DidValue d" "short_did d" by (rule did_shortE)
    then have ne: "d \<noteq> []" "d \<noteq> ''revreg''" "one_line d" "no_colon d" using assms by (auto simp: p did_simps short_did_def)
    have "rev_reg_captures (rev_reg_str (rev_reg_build p)) = Some [d, ?c, ty, tag]"
      using captures_revreg_None [OF ne(4,2), of _ "''4:'' @ ?c @ colon # ty @ colon # tag"] body [OF ne(1,3)]
      by (simp add: p d rev_reg_str_short rev_reg_captures_def search_captures.simps)
    then show ?thesis by (simp add: rev_reg_parts_def p d)
  next
    case 2
    then obtain m d where d: "did = full_did m d" "method_name m" "short_did d" by (rule did_fullE)
    let ?d = "did_str (full_did m d)"
    have ne: "?d \<noteq> []" "one_line ?d"
      using d method_name_one_line [of m] by (auto simp: full_did_def short_did_def one_line_def dot_def)
    have "captures (Lit ''revreg:'' # Rep 1 alnum # Lit '':'' # REV_REG_BODY) (rev_reg_str (rev_reg_build p))
        = Some [m, ?d, ?c, ty, tag]"
      using captures_method [OF d(2), of REV_REG_BODY "?d @ '':4:'' @ ?c @ colon # ty @ colon # tag"] body [OF ne]
      unfolding p rev_reg_build.simps d(1) rev_reg_str_full [OF d(2,3)] captures_Lit(3) by simp
    then show ?thesis by (simp add: rev_reg_captures_def rev_reg_parts_def p d)
  qed
qed

text \<open>An unqualified id is made of pieces of the qualified one.\<close>

lemma schema_pieces_unqualified:
  assumes "schema_ref f sid"
  shows "set (split_on colon (schema_str (schema_to_unqualified sid))) \<subseteq> set (split_on colon (schema_str sid))"
  using assms
proof (cases rule: schema_refE)
  case number
  then have "schema_to_unqualified sid = sid"
    using schema_ref_number by (cases sid) (simp add: schema_to_unqualified_def)
  then show ?thesis by simp
next
  case (name p)
  obtain did n v where p: "p = (did, n, v)" by (cases p) auto
  have u: "schema_to_unqualified sid = schema_new (did_to_unqualified did) n v"
    using schema_ids.unqualified_build [OF name(1)] name(2) p by simp
  from name(1) p consider "did_short did" | "did_full did" by auto
  then show ?thesis
  proof cases
    case 1
    then show ?thesis using u name(2) p did_to_unqualified_short(2) by simp
  next
    case 2
    then obtain m d where "did = full_did m d" "method_name m" "short_did d" by (rule did_fullE)
    then show ?thesis
      using u name(1,2) p split_schema_full [of m d n v] split_schema_short [of d n v] by (auto simp: did_simps)
  qed
qed

lemma cred_def_pieces_unqualified:
  assumes "cred_def_good node p"
  shows "set (split_on colon (cred_def_str (cred_def_build node (cred_def_shorten p))))
    \<subseteq> set (split_on colon (cred_def_str (cred_def_build node p)))"
proof -
  obtain did st sid tag where p: "p = (did, st, sid, tag)" by (cases p) auto
  consider "did_short did" "schema_ref False sid"
    | "did_full did" "schema_ref True sid" "no_colon st" "no_colon tag" "tag \<noteq> []" "\<not> node"
    using assms p by auto
  then show ?thesis
  proof cases
    case 1
    then show ?thesis using p did_to_unqualified_short(2) schema_ref_unqualified(3) [OF 1(2)] by simp
  next
    case 2
    from 2(1) obtain m d where d: "did = full_did m d" "method_name m" "short_did d" by (rule did_fullE)
    have "split_on colon (cred_def_str (cred_def_build node (cred_def_shorten p))) =
        d # ''3'' # st # split_on colon (schema_str (schema_to_unqualified sid)) @ [tag]"
      using split_cred_def_short [of d st tag node "schema_to_unqualified sid"] 2 d p by (simp add: did_simps)
    moreover have "split_on colon (cred_def_str (cred_def_build node p)) =
        ''creddef'' # m # ''did'' # m # d # ''3'' # st # split_on colon (schema_str sid) @ [tag]"
      using split_cred_def_full [of m d st tag sid] 2 d p by simp
    ultimately show ?thesis using schema_pieces_unqualified [OF 2(2)] by auto
  qed
qed

lemma rev_reg_good_shorten:
  assumes "rev_reg_good node p"
  shows "rev_reg_good node (rev_reg_shorten node p)"
    "rev_reg_shorten node (rev_reg_shorten node p) = rev_reg_shorten node p"
proof -
  obtain did cid ty tag where p: "p = (did, cid, ty, tag)" by (cases p) auto
  obtain q where q: "cred_def_parts cid = Some q" "cred_def_good node q" "cid = cred_def_build node q"
    using assms p by (auto split: option.splits)
  let ?u = "cred_def_to_unqualified node cid"
  have u: "?u = cred_def_build node (cred_def_shorten q)" "cred_def_to_unqualified node ?u = ?u"
    "cred_def_parts ?u = Some (cred_def_shorten q)" "cred_def_good node (cred_def_shorten q)"
    using cred_def_ids.unqualified_build [OF q(2)] cred_def_ids.unqualified_idem [OF q(2)]
      cred_def_ids.good_shorten [OF q(2)] cred_def_ids.parts_build q(3) by simp_all
  have pieces: "set (split_on colon (cred_def_str ?u)) \<subseteq> set (split_on colon (cred_def_str cid))"
    using cred_def_pieces_unqualified [OF q(2)] q(3) u(1) by simp
  have did: "did_short (did_to_unqualified did)" "did_to_unqualified (did_to_unqualified did) = did_to_unqualified did"
    using assms p did_to_unqualified_short by auto
  show "rev_reg_good node (rev_reg_shorten node p)"
    using assms u did pieces by (auto simp: p list_all_iff)
  show "rev_reg_shorten node (rev_reg_shorten node p) = rev_reg_shorten node p"
    using u did by (simp add: p)
qed

interpretation rev_reg_ids: identifier_kind rev_reg_build rev_reg_parts "rev_reg_good node_1_3" "rev_reg_shorten node_1_3"
  "rev_reg_to_unqualified node_1_3" for node_1_3 :: bool
proof
  fix p :: rev_reg_pieces and i :: RevocationRegistryId
  obtain did cid ty tag where p: "p = (did, cid, ty, tag)" by (cases p) auto
  show "rev_reg_good node_1_3 p \<Longrightarrow> rev_reg_parts (rev_reg_build p) = Some p" by (rule rev_reg_parts_build)
  show "rev_reg_parts i = Some p \<Longrightarrow> rev_reg_to_unqualified node_1_3 i = rev_reg_build (rev_reg_shorten node_1_3 p)"
    by (simp add: p rev_reg_to_unqualified_def)
qed (rule rev_reg_good_shorten, assumption)+

section \<open>Properties\<close>

text \<open>
  C29: The id of a revocation registry can be taken apart into everything it was made of: the issuer, the
  credential definition, the type and the tag; the credential definition in turn into its issuer, signature type,
  schema and tag, and the issuer DID is the one \<^verbatim>\<open>issuer_did\<close> reads. This holds for unqualified and for qualified ids
  whose parts have no colons of their own and no piece \<open>4\<close>. Two such ids are equal exactly if their parts are.
\<close>

theorem rev_reg_id_roundtrip:
  assumes "rev_reg_good node (did, cid, ty, tag)" "cid = cred_def_new node cdid sid st cdtag"
    "cred_def_good node (cdid, st, sid, cdtag)"
  shows "rev_reg_parts (rev_reg_new did cid ty tag) = Some (did, cid, ty, tag) \<and>
    cred_def_parts cid = Some (cdid, st, sid, cdtag) \<and> cred_def_issuer_did cid = Some cdid \<and>
    (rev_reg_good node (did', cid', ty', tag') \<longrightarrow>
      rev_reg_new did cid ty tag = rev_reg_new did' cid' ty' tag' \<longrightarrow> (did, cid, ty, tag) = (did', cid', ty', tag'))"
proof (intro conjI impI)
  show "rev_reg_parts (rev_reg_new did cid ty tag) = Some (did, cid, ty, tag)"
    using rev_reg_ids.parts_build [OF assms(1)] by simp
  show c: "cred_def_parts cid = Some (cdid, st, sid, cdtag)"
    using cred_def_ids.parts_build [OF assms(3)] assms(2) by simp
  show "cred_def_issuer_did cid = Some cdid" by (simp add: cred_def_issuer_did_def c)
  assume "rev_reg_good node (did', cid', ty', tag')" "rev_reg_new did cid ty tag = rev_reg_new did' cid' ty' tag'"
  then show "(did, cid, ty, tag) = (did', cid', ty', tag')"
    using rev_reg_ids.build_inject [OF assms(1), of "(did', cid', ty', tag')"] by (metis rev_reg_build.simps)
qed

text \<open>Witness for C29: the id of a registry with a qualified issuer.\<close>

theorem rev_reg_id_roundtrip_witness:
  "rev_reg_parts (rev_reg_new (full_did ''sov'' ''Nc'')
      (cred_def_new False (full_did ''sov'' ''Nc'') (schema_new (full_did ''sov'' ''Nc'') ''gvt'' ''1.0'') ''CL'' ''tag'')
      ''CL_ACCUM'' ''TAG'')
    = Some (full_did ''sov'' ''Nc'',
        cred_def_new False (full_did ''sov'' ''Nc'') (schema_new (full_did ''sov'' ''Nc'') ''gvt'' ''1.0'') ''CL'' ''tag'',
        ''CL_ACCUM'', ''TAG'')"
proof -
  let ?d = "full_did ''sov'' ''Nc''"
  let ?s = "schema_new ?d ''gvt'' ''1.0''"
  let ?c = "cred_def_new False ?d ?s ''CL'' ''tag''"
  have d: "method_name ''sov''" "short_did ''Nc''" "did_full ?d"
    by (simp_all add: method_name_def alnum_def short_did_def no_colon_def one_line_def dot_def)
  have s: "schema_parts ?s = Some (?d, ''gvt'', ''1.0'')"
    using schema_ids.parts_build [of "(?d, ''gvt'', ''1.0'')"] d by (simp add: no_colon_def)
  have cg: "cred_def_good False (?d, ''CL'', ?s, ''tag'')" using d s by (simp add: schema_ref_def no_colon_def)
  then have c: "cred_def_parts ?c = Some (?d, ''CL'', ?s, ''tag'')" using cred_def_ids.parts_build by fastforce
  have "split_on colon (cred_def_str ?c) =
      [''creddef'', ''sov'', ''did'', ''sov'', ''Nc'', ''3'', ''CL'', ''schema'', ''sov'', ''did'', ''sov'', ''Nc'', ''2'',
        ''gvt'', ''1.0'', ''tag'']"
    using split_cred_def_full [of "''sov''" "''Nc''" "''CL''" "''tag''" ?s] split_schema_full [of "''sov''" "''Nc''" "''gvt''" "''1.0''"] d
    by (simp add: no_colon_def)
  then have rg: "rev_reg_good False (?d, ?c, ''CL_ACCUM'', ''TAG'')"
    using d c cg by (simp add: word_ok_def no_colon_def one_line_def dot_def did_simps)
  show ?thesis using rev_reg_id_roundtrip [OF rg refl cg] by (rule conjunct1)
qed

text \<open>
  \<^verbatim>\<open>to_unqualified\<close> takes back \<^verbatim>\<open>qualify\<close>: an unqualified id of a credential definition, made of an issuer,
  a schema (by number or by id) and a tag, is qualified with any method and comes back as it was; and the
  issuer DID read off the qualified id is the qualified issuer.
\<close>

theorem unqualify_qualify:
  assumes "cred_def_liftable False (did, st, sid, tag)" "method_name m"
  shows "cred_def_to_unqualified False (cred_def_qualify False (cred_def_new False did sid st tag) m)
      = cred_def_new False did sid st tag \<and>
    cred_def_issuer_did (cred_def_qualify False (cred_def_new False did sid st tag) m) = Some (did_qualify did m)"
  using cred_def_ids.unqualified_qualified [OF assms] cred_def_ids.parts_qualified [OF assms]
  by (simp_all add: cred_def_issuer_did_def)

text \<open>A credential definition over the schema with number 15.\<close>

theorem unqualify_qualify_witness:
  "cred_def_to_unqualified False (cred_def_qualify False (cred_def_new False (DidValue ''Nc'') (SchemaId ''15'') ''CL'' ''tag'') ''sov'')
    = cred_def_new False (DidValue ''Nc'') (SchemaId ''15'') ''CL'' ''tag''"
  by (rule unqualify_qualify [THEN conjunct1])
    (simp_all add: did_short_def short_did_def schema_ref_def no_colon_def one_line_def dot_def method_name_def alnum_def)

text \<open>
  The id of a revocation registry is misread when the schema of its credential definition has the sequence
  number 4, and when the ledger runs the protocol of version 1.3 a qualified id of a credential definition loses
  its tag and is misread too: the code then takes the literal \<^verbatim>\<open>creddef\<close> for the DID of the issuer. Both ids are
  accepted by \<^verbatim>\<open>validate\<close>.
\<close>

theorem ids_misread:
  assumes "short_did d" "word_ok d" "d \<noteq> ''revreg''" "no_colon st" "one_line st" "word_ok cdtag" "word_ok ty" "word_ok tag"
    and "method_name m" "no_colon seq" "seq \<noteq> []"
  shows "rev_reg_parts (rev_reg_new (DidValue d) (cred_def_new False (DidValue d) (SchemaId ''4'') st cdtag) ty tag)
      = Some (DidValue (d @ '':4:'' @ d @ '':3:'' @ st), CredentialDefinitionId cdtag, ty, tag) \<and>
    cred_def_issuer_did (cred_def_new True (full_did m d) (SchemaId seq) st cdtag) = Some (DidValue ''creddef'') \<and>
    cred_def_id_validate (cred_def_new True (full_did m d) (SchemaId seq) st cdtag)"
proof (intro conjI)
  let ?d = "d @ '':4:'' @ d @ '':3:'' @ st"
  have d: "one_line ?d" "?d \<noteq> []" "no_colon d" using assms by (auto simp: word_ok_def one_line_def dot_def)
  have str: "rev_reg_str (rev_reg_new (DidValue d) (cred_def_new False (DidValue d) (SchemaId ''4'') st cdtag) ty tag)
      = ?d @ '':4:'' @ cdtag @ colon # ty @ colon # tag"
    using assms by (auto simp: rev_reg_str_short cred_def_new_def did_simps DELIMITER_def word_ok_def)
  have "captures REV_REG_BODY (?d @ '':4:'' @ cdtag @ colon # ty @ colon # tag) = Some [?d, cdtag, ty, tag]"
    using assms d by (intro captures_rev_reg) (auto simp: word_ok_def plain_split)
  then show "rev_reg_parts (rev_reg_new (DidValue d) (cred_def_new False (DidValue d) (SchemaId ''4'') st cdtag) ty tag)
      = Some (DidValue ?d, CredentialDefinitionId cdtag, ty, tag)"
    using captures_revreg_None [OF d(3) assms(3)]
    unfolding rev_reg_parts_def str rev_reg_captures_def by (simp add: search_captures.simps)
  have "cred_def_str (cred_def_new True (full_did m d) (SchemaId seq) st cdtag) =
      ''creddef'' @ DELIMITER @ m @ DELIMITER @ ''did'' @ DELIMITER @ m @ DELIMITER @ d @ DELIMITER @ ''3'' @ DELIMITER
        @ st @ DELIMITER @ seq"
    using assms unfolding cred_def_new_def
    by (simp add: did_simps) (simp add: qualify_def CREDDEF_PREFIX_def full_did_def DELIMITER_def)
  then have "split_terminator colon (cred_def_str (cred_def_new True (full_did m d) (SchemaId seq) st cdtag)) =
      [''creddef'', m, ''did'', m, d, ''3'', st, seq]"
    using assms method_name_plain [of m] d by (intro split_terminator_plain) (simp_all add: split_fields plain_split)
  then show "cred_def_issuer_did (cred_def_new True (full_did m d) (SchemaId seq) st cdtag) = Some (DidValue ''creddef'')"
    "cred_def_id_validate (cred_def_new True (full_did m d) (SchemaId seq) st cdtag)"
    by (simp_all add: cred_def_issuer_did_def cred_def_parts_def cred_def_id_validate_def)
qed

text \<open>The registry of issuer \<open>Nc\<close> over the schema with number 4.\<close>

theorem ids_misread_witness:
  "rev_reg_parts (rev_reg_new (DidValue ''Nc'') (cred_def_new False (DidValue ''Nc'') (SchemaId ''4'') ''CL'' ''t'') ''CL_ACCUM'' ''g'')
    = Some (DidValue ''Nc:4:Nc:3:CL'', CredentialDefinitionId ''t'', ''CL_ACCUM'', ''g'')"
  using ids_misread [of "''Nc''" "''CL''" "''t''" "''CL_ACCUM''" "''g''" "''sov''" "''15''"]
  by (simp add: short_did_def word_ok_def no_colon_def one_line_def dot_def method_name_def alnum_def)

end
