(* ===== verification/Verifier_Sound.thy ===== *)
theory Verifier_Sound
  imports Verifier Identifier_Laws
begin

text \<open>
  What an accepted proof shows. The restrictions of a request get a meaning, \<open>admits\<close>, without errors; what
  \<^verbatim>\<open>ursa\<close> promises of a proof it accepts is \<open>ursa_sound\<close>; the theorems say what follows for the attributes and
  predicates that were asked for, and what does not.
\<close>

section \<open>The meaning of restrictions\<close>

definition tag_holds ::
  "('cp, 'nonce, 'bn, 'pk, 'rk, 'key, 'ak, 'reg) ursa \<Rightarrow> (string \<times> string option) list \<Rightarrow> Filter \<Rightarrow> string \<Rightarrow> string \<Rightarrow> bool" where
  "tag_holds U values f tag v \<longleftrightarrow>
    (tag, v) \<in> {(''schema_id'', fl_schema_id f), (''schema_issuer_did'', fl_schema_issuer_did f),
      (''schema_name'', fl_schema_name f), (''schema_version'', fl_schema_version f),
      (''cred_def_id'', fl_cred_def_id f), (''issuer_did'', fl_issuer_did f)} \<or>
    (\<exists>a. attr_request_by_value tag = Some a \<and>
      (\<exists>k. List.find (\<lambda>(k, _). attr_common_view U k = attr_common_view U a) values = Some (k, Some v))) \<or>
    attr_request_by_marker tag \<noteq> None"

fun admits ::
  "('cp, 'nonce, 'bn, 'pk, 'rk, 'key, 'ak, 'reg) ursa \<Rightarrow> (string \<times> string option) list \<Rightarrow> Filter \<Rightarrow> Query \<Rightarrow> bool" where
  "admits U m f (QEq n v) \<longleftrightarrow> tag_holds U m f n v"
| "admits U m f (QNeq n v) \<longleftrightarrow> \<not> tag_holds U m f n v"
| "admits U m f (QIn n vs) \<longleftrightarrow> (\<exists>v\<in>set vs. tag_holds U m f n v)"
| "admits U m f (QAnd qs) \<longleftrightarrow> (\<forall>q\<in>set qs. admits U m f q)"
| "admits U m f (QOr qs) \<longleftrightarrow> (\<exists>q\<in>set qs. admits U m f q)"
| "admits U m f (QNot q) \<longleftrightarrow> \<not> admits U m f q"
| "admits U m f _ \<longleftrightarrow> False"

lemma captures_tag:
  assumes "captures [Lit l, Rep 1 (\<lambda>c. c \<noteq> colon), Lit r] key = Some cs"
  shows "\<exists>a. cs = [a] \<and> a \<noteq> [] \<and> no_colon a \<and> key = l @ a @ r"
  using captures_sound [OF assms] by (auto simp: no_colon_def list_all_iff Suc_le_eq)

lemma value_captures: "captures VALUE_TAG_MATCHER key = Some cs \<Longrightarrow> \<exists>a. cs = [a] \<and> key = ''attr::'' @ a @ ''::value''"
  unfolding VALUE_TAG_MATCHER_def by (drule captures_tag) blast

lemma marker_captures: "captures MARKER_TAG_MATCHER key = Some cs \<Longrightarrow> \<exists>a. cs = [a] \<and> key = ''attr::'' @ a @ ''::marker''"
  unfolding MARKER_TAG_MATCHER_def by (drule captures_tag) blast

lemma value_tag: "attr_request_by_value key = Some a \<longleftrightarrow> captures VALUE_TAG_MATCHER key = Some [a]"
  "attr_request_by_value key = None \<longleftrightarrow> captures VALUE_TAG_MATCHER key = None"
  by (cases "captures VALUE_TAG_MATCHER key"; force simp: attr_request_by_value_def dest: value_captures)+

lemma marker_tag: "attr_request_by_marker key = Some a \<longleftrightarrow> captures MARKER_TAG_MATCHER key = Some [a]"
  "is_attr_marker_operator key \<longleftrightarrow> attr_request_by_marker key \<noteq> None"
  by (cases "captures MARKER_TAG_MATCHER key";
      force simp: attr_request_by_marker_def is_attr_marker_operator_def dest: marker_captures)+

lemma tag_shape:
  "attr_request_by_value key = Some a \<Longrightarrow> key = ''attr::'' @ a @ ''::value''"
  "attr_request_by_marker key = Some b \<Longrightarrow> key = ''attr::'' @ b @ ''::marker''"
  by (auto simp only: value_tag marker_tag dest!: value_captures marker_captures)

lemma value_not_marker:
  assumes "attr_request_by_value key = Some a"
  shows "attr_request_by_marker key = None"
proof (rule ccontr)
  assume "attr_request_by_marker key \<noteq> None"
  then obtain b where "key = ''attr::'' @ b @ ''::marker''" using tag_shape(2) by blast
  with tag_shape(1) [OF assms] have "last (a @ ''::value'') = last (b @ ''::marker'')" by simp
  then show False by simp
qed

lemma not_attr_tag: "take 6 tag \<noteq> ''attr::'' \<Longrightarrow> attr_request_by_marker tag = None \<and> attr_request_by_value tag = None"
  using tag_shape [of tag] by (cases "attr_request_by_marker tag"; cases "attr_request_by_value tag"; force)

lemma find_list_ex: "list_ex P xs \<longleftrightarrow> List.find P xs \<noteq> None"
  by (induction xs) auto

lemma process_filter_holds: "is_ok (process_filter U m tag v f) \<longleftrightarrow> tag_holds U m f tag v"
proof (cases "tag \<in> {''schema_id'', ''schema_issuer_did'', ''schema_name'', ''schema_version'', ''cred_def_id'', ''issuer_did''}")
  case True
  then have "take 6 tag \<noteq> ''attr::''" by auto
  then have "attr_request_by_marker tag = None" "attr_request_by_value tag = None" using not_attr_tag by simp_all
  with True show ?thesis by (auto simp: process_filter_def tag_holds_def precess_filed_def)
next
  case unknown: False
  show ?thesis
  proof (cases "attr_request_by_value tag")
    case None
    then have "\<not> is_attr_with_revealed_value U tag m" by (simp add: value_tag is_attr_with_revealed_value_def)
    with None unknown marker_tag(2) [of tag] show ?thesis by (auto simp: process_filter_def tag_holds_def)
  next
    case (Some a)
    then have c: "captures VALUE_TAG_MATCHER tag = Some [a]" "attr_request_by_marker tag = None"
      using value_tag value_not_marker by blast+
    with Some unknown marker_tag(2) [of tag] show ?thesis
      by (cases "List.find (\<lambda>(k, _). attr_common_view U k = attr_common_view U a) m")
        (auto simp: process_filter_def tag_holds_def is_attr_with_revealed_value_def find_list_ex
          check_internal_tag_revealed_value_def split: option.splits if_splits)
  qed
qed

lemma do_process_operator_admits: "is_ok (do_process_operator U m q f) \<longleftrightarrow> admits U m f q"
  by (induction U m q f rule: do_process_operator.induct)
    (auto simp: process_filter_holds is_ok_bindr is_ok_traverse list_ex_iff simp flip: is_ok_iff)

lemma do_process_operator_Inr: "do_process_operator U m q f = Inr () \<longleftrightarrow> admits U m f q"
  using do_process_operator_admits [of U m q f] by (simp add: is_ok_iff)

section \<open>The steps of a successful verification\<close>

lemma traverse_Inr_all: "traverse f xs = Inr ys \<Longrightarrow> x \<in> set xs \<Longrightarrow> \<exists>y. f x = Inr y"
  using is_ok_traverse [of f xs] by (simp add: is_ok_iff)

lemma run_calls_Inr: "run_builder call h cs = Inr h' \<Longrightarrow> h' = h @ cs"
  by (induction cs arbitrary: h) (fastforce simp: bindr_Inr_iff)+

lemma add_revealed_Inr:
  assumes "add_revealed U b attrs = Inr b'"
  shows "set b' = set b \<union> {c. \<exists>i\<in>set attrs. \<exists>ns. names_of i = Inr ns \<and> (\<exists>n\<in>set ns. c = AddRevealedAttr (attr_common_view U n))}"
  using assms
proof (induction U b attrs rule: add_revealed.induct)
  case (2 U b attr attrs)
  let ?cs = "map (\<lambda>n. AddRevealedAttr (attr_common_view U n))"
  from "2.prems" obtain ns b1 where ns: "names_of attr = Inr ns" "run_builder (us_request_call U) b (?cs ns) = Inr b1"
      "add_revealed U b1 attrs = Inr b'"
    by (auto simp: bindr_Inr_iff)
  from "2.IH" [OF ns(1,2,3)] run_calls_Inr [OF ns(2)] show ?case by (auto simp: ns(1))
qed simp

text \<open>What is asked of \<^verbatim>\<open>ursa\<close> for one credential: the names to reveal, in their common view, and the predicates.\<close>

lemma build_sub_proof_request_Inr:
  assumes "build_sub_proof_request U attrs preds = Inr r"
  shows "AddRevealedAttr a \<in> set r \<longleftrightarrow> (\<exists>i\<in>set attrs. \<exists>ns. names_of i = Inr ns \<and> a \<in> attr_common_view U ` set ns)"
    "AddPredicate a t v \<in> set r \<longleftrightarrow> AddPredicate a t v \<in> predicate_call U ` set preds"
proof -
  from assms obtain b where b: "add_revealed U [] attrs = Inr b" "r = b @ map (predicate_call U) preds"
    by (auto simp: build_sub_proof_request_def bindr_Inr_iff dest!: run_calls_Inr)
  note s = add_revealed_Inr [OF b(1)]
  have p: "AddRevealedAttr a \<notin> predicate_call U ` set preds" by (auto simp: predicate_call_def)
  show "AddRevealedAttr a \<in> set r \<longleftrightarrow> (\<exists>i\<in>set attrs. \<exists>ns. names_of i = Inr ns \<and> a \<in> attr_common_view U ` set ns)"
    using p unfolding b(2) set_append s by auto
  show "AddPredicate a t v \<in> set r \<longleftrightarrow> AddPredicate a t v \<in> predicate_call U ` set preds"
    unfolding b(2) set_append s by auto
qed

lemma insert_identifiers_Inr:
  assumes "insert_identifiers proof rs m = Inr m'"
  shows "map_of m' r = (case map_of (rev rs) r of Some i \<Rightarrow> Some (pf_identifiers proof ! i) | None \<Rightarrow> map_of m r)"
    "(r, i) \<in> set rs \<Longrightarrow> i < length (pf_identifiers proof)"
    "fst ` set m' = fst ` set m \<union> fst ` set rs"
proof -
  have "(\<forall>r. map_of m' r = (case map_of (rev rs) r of Some i \<Rightarrow> Some (pf_identifiers proof ! i) | None \<Rightarrow> map_of m r)) \<and>
      (\<forall>(r, i)\<in>set rs. i < length (pf_identifiers proof)) \<and> fst ` set m' = fst ` set m \<union> fst ` set rs"
    using assms
  proof (induction "proof" rs m rule: insert_identifiers.induct)
    case (2 "proof" r i rs m)
    then have i: "get_proof_identifier proof i = Inr (pf_identifiers proof ! i)" "i < length (pf_identifiers proof)"
        "insert_identifiers proof rs (AList.update r (pf_identifiers proof ! i) m) = Inr m'"
      by (auto simp: get_proof_identifier_def bindr_Inr_iff split: if_splits)
    from "2.IH" [OF i(1,3)] i(2) show ?case
      by (auto simp: update_conv' map_add_def dom_update split: option.splits)
  qed simp
  then show "map_of m' r = (case map_of (rev rs) r of Some i \<Rightarrow> Some (pf_identifiers proof ! i) | None \<Rightarrow> map_of m r)"
    "(r, i) \<in> set rs \<Longrightarrow> i < length (pf_identifiers proof)"
    "fst ` set m' = fst ` set m \<union> fst ` set rs" by auto
qed

lemma add_sub_proofs_Inr:
  assumes "add_sub_proofs U B req rp ns i ids added = Inr added'"
  shows "\<exists>new. added' = added @ new \<and> length new = length ids \<and>
    (\<forall>k<length ids. build_sub_proof U B req rp ns (i + k) (ids ! k) = Inr (new ! k))"
  using assms
proof (induction ids arbitrary: i added)
  case (Cons x ids)
  then obtain sp where sp: "build_sub_proof U B req rp ns i x = Inr sp"
      "add_sub_proofs U B req rp ns (Suc i) ids (added @ [sp]) = Inr added'"
    by (auto simp: bindr_Inr_iff)
  from Cons.IH [OF sp(2)] obtain new where new: "added' = (added @ [sp]) @ new" "length new = length ids"
      "\<forall>k<length ids. build_sub_proof U B req rp ns (Suc i + k) (ids ! k) = Inr (new ! k)" by blast
  have "build_sub_proof U B req rp ns (i + k) ((x # ids) ! k) = Inr ((sp # new) ! k)" if "k < Suc (length ids)" for k
    using that sp(1) new(3) by (cases k) auto
  with new show ?case by (intro exI [of _ "sp # new"]) simp
qed simp

text \<open>All checks of a verification that ends with \<^verbatim>\<open>Ok(true)\<close>.\<close>

lemma verifyE:
  assumes "verify U pf req B = Inr b"
  obtains revealed unrevealed predicates ns added where
    "received_revealed_attrs pf = Inr revealed" "received_unrevealed_attrs pf = Inr unrevealed"
    "received_predicates pf = Inr predicates"
    "compare_attr_from_proof_and_request req revealed unrevealed (received_self_attested_attrs pf) predicates = Inr ()"
    "verify_revealed_attribute_values U req pf = Inr ()"
    "verify_requested_restrictions U req (pf_requested_proof pf) revealed unrevealed predicates
      (received_self_attested_attrs pf) = Inr ()"
    "compare_timestamps_from_proof_and_request req revealed unrevealed (received_self_attested_attrs pf) predicates = Inr ()"
    "length added = length (pf_identifiers pf)"
    "\<forall>k<length (pf_identifiers pf).
      build_sub_proof U B req (pf_requested_proof pf) ns k (pf_identifiers pf ! k) = Inr (added ! k)"
    "us_verify U added (pf_proof pf) (pr_nonce req) = Inr b"
proof -
  from assms obtain revealed unrevealed predicates ns added where v:
    "received_revealed_attrs pf = Inr revealed" "received_unrevealed_attrs pf = Inr unrevealed"
    "received_predicates pf = Inr predicates"
    "compare_attr_from_proof_and_request req revealed unrevealed (received_self_attested_attrs pf) predicates = Inr ()"
    "verify_revealed_attribute_values U req pf = Inr ()"
    "verify_requested_restrictions U req (pf_requested_proof pf) revealed unrevealed predicates
      (received_self_attested_attrs pf) = Inr ()"
    "compare_timestamps_from_proof_and_request req revealed unrevealed (received_self_attested_attrs pf) predicates = Inr ()"
    "add_sub_proofs U B req (pf_requested_proof pf) ns 0 (pf_identifiers pf) [] = Inr added"
    "us_verify U added (pf_proof pf) (pr_nonce req) = Inr b"
    by (auto simp: verify_def Let_def bindr_Inr_iff)
  with add_sub_proofs_Inr [OF v(8)] that [OF v(1-7), of added ns] show thesis by simp
qed

lemma build_sub_proof_Inr:
  assumes "build_sub_proof U B req rp ns k ident = Inr sp"
  obtains cd where "pub_cred_defs B (id_cred_def_id ident) = Some cd"
    "us_build_key U (cdd_primary (cd_value cd)) (cdd_revocation (cd_value cd)) = Inr (sp_key sp)"
    "build_sub_proof_request U (get_revealed_attributes_for_credential k rp req) (get_predicates_for_credential k rp req)
      = Inr (sp_request sp)"
  using assms by (auto simp: build_sub_proof_def bindr_Inr_iff split: prod.splits)

section \<open>What the cryptography promises\<close>

text \<open>
  \<open>issued key vals\<close> stands for: the prover holds a credential, signed for \<open>key\<close>, whose attributes have the values \<open>vals\<close>.
  \<open>meets t x v\<close> is the meaning of a predicate. The proof system is sound if a proof it accepts has one part for every
  request handed to it, and each part comes from one such credential: the part reveals exactly the names that were asked
  for, with the values of the credential, and these satisfy the predicates.
\<close>

definition part_sound ::
  "('cp, 'nonce, 'bn, 'pk, 'rk, 'key, 'ak, 'reg) ursa \<Rightarrow> ('key \<Rightarrow> (string \<Rightarrow> 'bn) \<Rightarrow> bool) \<Rightarrow>
    (string \<Rightarrow> 'bn \<Rightarrow> 32 word \<Rightarrow> bool) \<Rightarrow> ('key, 'ak, 'reg) sub_proof \<Rightarrow> (string \<times> string) list IndyResult \<Rightarrow> bool" where
  "part_sound U issued meets sp part \<longleftrightarrow>
    (\<exists>attrs vals. part = Inr attrs \<and> issued (sp_key sp) vals \<and> distinct (map fst attrs) \<and>
      set (map fst attrs) = {a. AddRevealedAttr a \<in> set (sp_request sp)} \<and>
      (\<forall>(a, e)\<in>set attrs. us_from_dec U e = Inr (vals a)) \<and>
      (\<forall>a t v. AddPredicate a t v \<in> set (sp_request sp) \<longrightarrow> meets t (vals a) v))"

definition ursa_sound ::
  "('cp, 'nonce, 'bn, 'pk, 'rk, 'key, 'ak, 'reg) ursa \<Rightarrow> ('key \<Rightarrow> (string \<Rightarrow> 'bn) \<Rightarrow> bool) \<Rightarrow>
    (string \<Rightarrow> 'bn \<Rightarrow> 32 word \<Rightarrow> bool) \<Rightarrow> bool" where
  "ursa_sound U issued meets \<longleftrightarrow>
    (\<forall>added cp n. us_verify U added cp n = Inr True \<longrightarrow>
      list_all2 (part_sound U issued meets) added (us_sub_proofs U cp))"

text \<open>Lower-casing twice is lower-casing once, and the order of a hash map has all its entries.\<close>

definition std_ok :: "('cp, 'nonce, 'bn, 'pk, 'rk, 'key, 'ak, 'reg) ursa \<Rightarrow> bool" where
  "std_ok U \<longleftrightarrow>
    (\<forall>s. attr_common_view U (attr_common_view U s) = attr_common_view U s) \<and>
    (\<forall>xs. set (us_order_attrs U xs) = set xs) \<and> (\<forall>b r xs. set (us_order_values U b r xs) = set xs)"

text \<open>
  A hash map has an entry once. Beyond that, a proof is \<open>unambiguous\<close> if it answers no referent in two ways.
\<close>

definition hash_maps :: "'nonce ProofRequestPayload \<Rightarrow> RequestedProof \<Rightarrow> bool" where
  "hash_maps req rp \<longleftrightarrow>
    distinct (map fst (pr_requested_attributes req)) \<and> distinct (map fst (pr_requested_predicates req)) \<and>
    distinct (map fst (rp_revealed_attrs rp)) \<and> distinct (map fst (rp_revealed_attr_groups rp)) \<and>
    distinct (map fst (rp_unrevealed_attrs rp)) \<and> distinct (map fst (rp_predicates rp))"

definition unambiguous :: "RequestedProof \<Rightarrow> bool" where
  "unambiguous rp \<longleftrightarrow>
    distinct (map fst (rp_revealed_attrs rp) @ map fst (rp_revealed_attr_groups rp) @ map fst (rp_unrevealed_attrs rp))"

text \<open>A credential behind the part with index \<open>k\<close> of the proof, under the credential definition that the proof names there.\<close>

definition credential_behind ::
  "('cp, 'nonce, 'bn, 'pk, 'rk, 'key, 'ak, 'reg) ursa \<Rightarrow> ('pk, 'rk, 'ak, 'reg) published \<Rightarrow>
    ('key \<Rightarrow> (string \<Rightarrow> 'bn) \<Rightarrow> bool) \<Rightarrow> 'cp FullProof \<Rightarrow> nat \<Rightarrow> (string \<Rightarrow> 'bn) \<Rightarrow> bool" where
  "credential_behind U B issued pf k vals \<longleftrightarrow> k < length (pf_identifiers pf) \<and>
    (\<exists>cd key. pub_cred_defs B (id_cred_def_id (pf_identifiers pf ! k)) = Some cd \<and>
      us_build_key U (cdd_primary (cd_value cd)) (cdd_revocation (cd_value cd)) = Inr key \<and> issued key vals)"

definition filter_of :: "Identifier \<Rightarrow> Filter IndyResult" where
  "filter_of x = gather_filter_info [] (\<lambda>_. Some x)"

text \<open>The restrictions of a request hold of the credential that the proof names at \<open>k\<close>, with the values \<open>m\<close>.\<close>

definition restricted ::
  "('cp, 'nonce, 'bn, 'pk, 'rk, 'key, 'ak, 'reg) ursa \<Rightarrow> 'cp FullProof \<Rightarrow> nat \<Rightarrow> (string \<times> string option) list IndyResult \<Rightarrow>
    Query option \<Rightarrow> bool" where
  "restricted U pf k m restrictions \<longleftrightarrow>
    (\<forall>q. restrictions = Some q \<longrightarrow>
      (\<exists>f values. filter_of (pf_identifiers pf ! k) = Inr f \<and> m = Inr values \<and> admits U values f q))"

lemma gather_filter_info_at:
  "identifiers r = Some x \<Longrightarrow> gather_filter_info r identifiers = filter_of x"
  by (simp add: gather_filter_info_def filter_of_def)

lemma part_of_index:
  assumes "ursa_sound U issued meets" "us_verify U added (pf_proof pf) n = Inr True" "length added = length (pf_identifiers pf)"
    and "\<forall>k<length (pf_identifiers pf). build_sub_proof U B req rp ns k (pf_identifiers pf ! k) = Inr (added ! k)"
    and "k < length (pf_identifiers pf)"
  obtains vals attrs r where "credential_behind U B issued pf k vals" "k < length (us_sub_proofs U (pf_proof pf))"
    "us_sub_proofs U (pf_proof pf) ! k = Inr attrs" "distinct (map fst attrs)"
    "build_sub_proof_request U (get_revealed_attributes_for_credential k rp req) (get_predicates_for_credential k rp req) = Inr r"
    "set (map fst attrs) = {a. AddRevealedAttr a \<in> set r}" "\<forall>(a, e)\<in>set attrs. us_from_dec U e = Inr (vals a)"
    "\<forall>a t v. AddPredicate a t v \<in> set r \<longrightarrow> meets t (vals a) v"
proof -
  from assms(1,2) have parts: "list_all2 (part_sound U issued meets) added (us_sub_proofs U (pf_proof pf))"
    by (auto simp: ursa_sound_def)
  then have len: "k < length (us_sub_proofs U (pf_proof pf))" using assms(3,5) by (simp add: list_all2_lengthD)
  from parts assms(3,5) have "part_sound U issued meets (added ! k) (us_sub_proofs U (pf_proof pf) ! k)"
    by (simp add: list_all2_nthD)
  then obtain attrs vals where p: "us_sub_proofs U (pf_proof pf) ! k = Inr attrs" "issued (sp_key (added ! k)) vals"
      "distinct (map fst attrs)" "set (map fst attrs) = {a. AddRevealedAttr a \<in> set (sp_request (added ! k))}"
      "\<forall>(a, e)\<in>set attrs. us_from_dec U e = Inr (vals a)"
      "\<forall>a t v. AddPredicate a t v \<in> set (sp_request (added ! k)) \<longrightarrow> meets t (vals a) v"
    by (auto simp: part_sound_def)
  from assms(4,5) have "build_sub_proof U B req rp ns k (pf_identifiers pf ! k) = Inr (added ! k)" by blast
  then obtain cd where cd: "pub_cred_defs B (id_cred_def_id (pf_identifiers pf ! k)) = Some cd"
      "us_build_key U (cdd_primary (cd_value cd)) (cdd_revocation (cd_value cd)) = Inr (sp_key (added ! k))"
      "build_sub_proof_request U (get_revealed_attributes_for_credential k rp req) (get_predicates_for_credential k rp req)
        = Inr (sp_request (added ! k))"
    by (rule build_sub_proof_Inr)
  have "credential_behind U B issued pf k vals" using cd p(2) assms(5) by (auto simp: credential_behind_def)
  with that len p cd(3) show thesis by blast
qed

section \<open>From the checks to the answers\<close>

lemma map_of_rev_distinct: "distinct (map fst xs) \<Longrightarrow> map_of (rev xs) = map_of xs"
  by (subst map_of_inject_set) (simp_all add: rev_map [symmetric])

lemma map_of_index: "map_of (map (\<lambda>(r, i). (r, g i)) xs) r = map_option g (map_of xs r)"
  by (induction xs) auto

lemma fst_index: "fst ` set (map (\<lambda>(r, i). (r, g i)) xs) = fst ` set xs"
  by (simp add: image_image case_prod_unfold)

lemma received_revealed_lookup:
  assumes "received_revealed_attrs pf = Inr revealed" "hash_maps req (pf_requested_proof pf)"
  shows "map_of revealed r =
    (case map_of (rp_revealed_attr_groups (pf_requested_proof pf)) r of
       Some g \<Rightarrow> Some (pf_identifiers pf ! rag_index g)
     | None \<Rightarrow> map_option (\<lambda>i. pf_identifiers pf ! rai_index i) (map_of (rp_revealed_attrs (pf_requested_proof pf)) r))"
    "(r, ri) \<in> set (rp_revealed_attrs (pf_requested_proof pf)) \<Longrightarrow> rai_index ri < length (pf_identifiers pf)"
    "(r, gi) \<in> set (rp_revealed_attr_groups (pf_requested_proof pf)) \<Longrightarrow> rag_index gi < length (pf_identifiers pf)"
    "fst ` set revealed = fst ` set (rp_revealed_attrs (pf_requested_proof pf)) \<union> fst ` set (rp_revealed_attr_groups (pf_requested_proof pf))"
proof -
  let ?rp = "pf_requested_proof pf"
  let ?a = "map (\<lambda>(r, i). (r, rai_index i)) (rp_revealed_attrs ?rp)"
  let ?g = "map (\<lambda>(r, i). (r, rag_index i)) (rp_revealed_attr_groups ?rp)"
  from assms(1) obtain m where m: "insert_identifiers pf ?a [] = Inr m" "insert_identifiers pf ?g m = Inr revealed"
    by (auto simp: received_revealed_attrs_def bindr_Inr_iff)
  have d: "map_of (rev ?a) = map_of ?a" "map_of (rev ?g) = map_of ?g"
    using assms(2) by (auto intro!: map_of_rev_distinct simp: hash_maps_def comp_def case_prod_unfold)
  show "map_of revealed r =
    (case map_of (rp_revealed_attr_groups ?rp) r of
       Some g \<Rightarrow> Some (pf_identifiers pf ! rag_index g)
     | None \<Rightarrow> map_option (\<lambda>i. pf_identifiers pf ! rai_index i) (map_of (rp_revealed_attrs ?rp) r))"
    unfolding insert_identifiers_Inr(1) [OF m(2), of r] insert_identifiers_Inr(1) [OF m(1), of r] d map_of_index
    by (auto split: option.splits)
  show "(r, ri) \<in> set (rp_revealed_attrs ?rp) \<Longrightarrow> rai_index ri < length (pf_identifiers pf)"
    by (rule insert_identifiers_Inr(2) [OF m(1), of r]) force
  show "(r, gi) \<in> set (rp_revealed_attr_groups ?rp) \<Longrightarrow> rag_index gi < length (pf_identifiers pf)"
    by (rule insert_identifiers_Inr(2) [OF m(2), of r]) force
  show "fst ` set revealed = fst ` set (rp_revealed_attrs ?rp) \<union> fst ` set (rp_revealed_attr_groups ?rp)"
    using insert_identifiers_Inr(3) [OF m(1)] insert_identifiers_Inr(3) [OF m(2)] unfolding fst_index by simp
qed

lemma insert_indices:
  assumes "insert_identifiers pf (map (\<lambda>(r, i). (r, spr_index i)) rs) [] = Inr m" "distinct (map fst rs)"
  shows "map_of m r = map_option (\<lambda>i. pf_identifiers pf ! spr_index i) (map_of rs r)"
    "(r, i) \<in> set rs \<Longrightarrow> spr_index i < length (pf_identifiers pf)" "fst ` set m = fst ` set rs"
proof -
  let ?s = "map (\<lambda>(r, i). (r, spr_index i)) rs"
  have d: "map_of (rev ?s) = map_of ?s"
    using assms(2) by (auto intro!: map_of_rev_distinct simp: comp_def case_prod_unfold)
  show "map_of m r = map_option (\<lambda>i. pf_identifiers pf ! spr_index i) (map_of rs r)"
    unfolding insert_identifiers_Inr(1) [OF assms(1), of r] d map_of_index by (auto split: option.splits)
  show "(r, i) \<in> set rs \<Longrightarrow> spr_index i < length (pf_identifiers pf)"
    by (rule insert_identifiers_Inr(2) [OF assms(1), of r]) force
  show "fst ` set m = fst ` set rs" using insert_identifiers_Inr(3) [OF assms(1)] unfolding fst_index by simp
qed

text \<open>A revealed value is the value of the credential.\<close>

lemma revealed_value_bound:
  assumes "verify_revealed_attribute_value U name pf info = Inr ()" "us_sub_proofs U (pf_proof pf) ! rai_index info = Inr attrs"
    and "\<forall>(a, e)\<in>set attrs. us_from_dec U e = Inr (vals a)" "\<forall>a\<in>set (map fst attrs). attr_common_view U a = a"
  shows "us_from_dec U (rai_encoded info) = Inr (vals (attr_common_view U name))"
proof -
  from assms(1,2) obtain k e x where
    f: "List.find (\<lambda>(key, _). attr_common_view U name = attr_common_view U key) attrs = Some (k, e)"
      "us_from_dec U (rai_encoded info) = Inr x" "us_from_dec U e = Inr x"
    by (auto simp: verify_revealed_attribute_value_def Let_def bindr_Inr_iff split: if_splits prod.splits)
  then have "(k, e) \<in> set attrs" "attr_common_view U name = attr_common_view U k"
    by (auto simp: find_Some_iff in_set_conv_nth)
  moreover from this have "attr_common_view U k = k" using assms(4) by force
  ultimately show ?thesis using assms(3) f by auto
qed

lemma requested_names_common:
  assumes "std_ok U" "build_sub_proof_request U attrs preds = Inr r" "set (map fst as) = {a. AddRevealedAttr a \<in> set r}"
  shows "\<forall>a\<in>set (map fst as). attr_common_view U a = a"
  using assms(1) build_sub_proof_request_Inr(1) [OF assms(2)] assms(3) by (auto simp: std_ok_def)

lemma part_values:
  assumes "ursa_sound U issued meets" "us_verify U added (pf_proof pf) n = Inr True" "length added = length (pf_identifiers pf)"
    and "\<forall>k<length (pf_identifiers pf). build_sub_proof U B req rp ns k (pf_identifiers pf ! k) = Inr (added ! k)"
    and "std_ok U" "k < length (pf_identifiers pf)"
  obtains vals where "credential_behind U B issued pf k vals"
    "\<And>name info. rai_index info = k \<Longrightarrow> verify_revealed_attribute_value U name pf info = Inr () \<Longrightarrow>
      us_from_dec U (rai_encoded info) = Inr (vals (attr_common_view U name))"
    "\<And>p. p \<in> set (get_predicates_for_credential k rp req) \<Longrightarrow>
      meets (predicate_type_str (pi_p_type p)) (vals (attr_common_view U (pi_name p))) (pi_p_value p)"
proof -
  obtain vals attrs r where p: "credential_behind U B issued pf k vals" "us_sub_proofs U (pf_proof pf) ! k = Inr attrs"
    "build_sub_proof_request U (get_revealed_attributes_for_credential k rp req) (get_predicates_for_credential k rp req) = Inr r"
    "set (map fst attrs) = {a. AddRevealedAttr a \<in> set r}" "\<forall>(a, e)\<in>set attrs. us_from_dec U e = Inr (vals a)"
    "\<forall>a t v. AddPredicate a t v \<in> set r \<longrightarrow> meets t (vals a) v"
    by (rule part_of_index [OF assms(1-4,6)])
  show thesis
  proof (rule that [OF p(1)])
    show "us_from_dec U (rai_encoded info) = Inr (vals (attr_common_view U name))"
      if "rai_index info = k" "verify_revealed_attribute_value U name pf info = Inr ()" for name info
      using revealed_value_bound [OF that(2) _ p(5) requested_names_common [OF assms(5) p(3,4)]] p(2) that(1) by simp
    show "meets (predicate_type_str (pi_p_type q)) (vals (attr_common_view U (pi_name q))) (pi_p_value q)"
      if "q \<in> set (get_predicates_for_credential k rp req)" for q
    proof -
      let ?a = "attr_common_view U (pi_name q)" and ?t = "predicate_type_str (pi_p_type q)"
      have "AddPredicate ?a ?t (pi_p_value q) = predicate_call U q" by (simp add: predicate_call_def)
      then have "AddPredicate ?a ?t (pi_p_value q) \<in> predicate_call U ` set (get_predicates_for_credential k rp req)"
        using that by (simp only: imageI)
      then have "AddPredicate ?a ?t (pi_p_value q) \<in> set r" by (simp only: build_sub_proof_request_Inr(2) [OF p(3)])
      then show ?thesis using p(6) by blast
    qed
  qed
qed

lemma restrictions_at:
  assumes "verify_requested_restrictions U req rp revealed unrevealed predicates sa = Inr ()" "std_ok U"
    and "(r, info) \<in> set (pr_requested_attributes req)" "\<not> is_self_attested r info sa"
    and "(map_of revealed ++ map_of unrevealed) r = Some (pf_identifiers pf ! k)"
  shows "restricted U pf k (name_value_map U rp r info) (ai_restrictions info)"
proof -
  have "(r, info) \<in> set (us_order_attrs U (filter (\<lambda>(r, info). \<not> is_self_attested r info sa) (pr_requested_attributes req)))"
    using assms(2,3,4) by (simp add: std_ok_def)
  then have "verify_attr_restrictions U rp (map_of revealed ++ map_of unrevealed) (r, info) = Inr ()"
    using assms(1) by (auto simp: verify_requested_restrictions_def Let_def bindr_Inr_iff dest: traverse_Inr_all)
  then show ?thesis
    unfolding restricted_def verify_attr_restrictions_def
    by (auto simp: gather_filter_info_at [of "map_of revealed ++ map_of unrevealed" r, OF assms(5)] bindr_Inr_iff do_process_operator_Inr)
qed

text \<open>
  The answer to a requested attribute: said by the prover alone, where the request has no restrictions; or the value
  of an attribute of a credential, for one name or for a group of names of one credential; or a credential
  without the value. In the last three cases the restrictions hold of that credential.
\<close>

definition attribute_answered ::
  "('cp, 'nonce, 'bn, 'pk, 'rk, 'key, 'ak, 'reg) ursa \<Rightarrow> ('pk, 'rk, 'ak, 'reg) published \<Rightarrow>
    ('key \<Rightarrow> (string \<Rightarrow> 'bn) \<Rightarrow> bool) \<Rightarrow> 'cp FullProof \<Rightarrow> string \<Rightarrow> AttributeInfo \<Rightarrow> bool" where
  "attribute_answered U B issued pf r info \<longleftrightarrow>
    (let rp = pf_requested_proof pf; m = name_value_map U rp r info; qs = ai_restrictions info in
     is_self_attested r info (received_self_attested_attrs pf) \<or>
     (\<exists>ri name vals. (r, ri) \<in> set (rp_revealed_attrs rp) \<and> ai_name info = Some name \<and>
        credential_behind U B issued pf (rai_index ri) vals \<and> restricted U pf (rai_index ri) m qs \<and>
        us_from_dec U (rai_encoded ri) = Inr (vals (attr_common_view U name))) \<or>
     (\<exists>gi names vals. (r, gi) \<in> set (rp_revealed_attr_groups rp) \<and> ai_names info = Some names \<and>
        credential_behind U B issued pf (rag_index gi) vals \<and> restricted U pf (rag_index gi) m qs \<and>
        (\<forall>name\<in>set names. \<exists>v. map_of (rag_values gi) name = Some v \<and>
          us_from_dec U (av_encoded v) = Inr (vals (attr_common_view U name)))) \<or>
     (\<exists>ui vals. (r, ui) \<in> set (rp_unrevealed_attrs rp) \<and>
        credential_behind U B issued pf (spr_index ui) vals \<and> restricted U pf (spr_index ui) m qs))"

end
