(* ===== verification/Prover_Runs.thy ===== *)
theory Prover_Runs
  imports Prover Verifier_Sound "HOL-Library.Multiset"
begin

text \<open>
  What the prover puts into a proof: the credentials it groups the request by, the entries of the requested
  proof for each of them, and the parts handed to \<^verbatim>\<open>ursa\<close>, in their order.
\<close>

section \<open>Grouping by credential\<close>

definition all_attrs :: "proving \<Rightarrow> (ProvingCredentialKey \<times> RequestedAttributeInfo) list" where
  "all_attrs m = concat (map (\<lambda>(k, as, ps). map (Pair k) as) m)"

definition all_preds :: "proving \<Rightarrow> (ProvingCredentialKey \<times> RequestedPredicateInfo) list" where
  "all_preds m = concat (map (\<lambda>(k, as, ps). map (Pair k) ps) m)"

lemma all_attrs_simps [simp]:
  "all_attrs [] = []" "all_attrs ((k, as, ps) # m) = map (Pair k) as @ all_attrs m"
  "all_preds [] = []" "all_preds ((k, as, ps) # m) = map (Pair k) ps @ all_preds m"
  by (simp_all add: all_attrs_def all_preds_def)

lemma update_entry:
  assumes "map_of m k = Some (as, ps)"
  shows "mset (all_attrs (AList.update k (as @ xs, ps @ ys) m)) = mset (all_attrs m) + mset (map (Pair k) xs)"
    "mset (all_preds (AList.update k (as @ xs, ps @ ys) m)) = mset (all_preds m) + mset (map (Pair k) ys)"
  using assms by (induction m) (auto split: if_splits)

lemma update_no_entry:
  "map_of m k = None \<Longrightarrow> AList.update k v m = m @ [(k, v)]"
  by (induction m) (auto split: if_splits)

lemma all_attrs_append:
  "all_attrs (m @ m') = all_attrs m @ all_attrs m'" "all_preds (m @ m') = all_preds m @ all_preds m'"
  by (simp_all add: all_attrs_def all_preds_def)

lemma add_attr_for_mset:
  assumes "distinct (map fst m)"
  shows "mset (all_attrs (add_attr_for k a m)) = add_mset (k, a) (mset (all_attrs m))"
    "mset (all_preds (add_attr_for k a m)) = mset (all_preds m)" "distinct (map fst (add_attr_for k a m))"
proof -
  show "distinct (map fst (add_attr_for k a m))"
    using assms by (auto simp: add_attr_for_def distinct_update split: option.splits)
  show "mset (all_attrs (add_attr_for k a m)) = add_mset (k, a) (mset (all_attrs m))"
    "mset (all_preds (add_attr_for k a m)) = mset (all_preds m)"
    using update_entry [of m k _ _ "[a]" "[]"]
    by (auto simp: add_attr_for_def update_no_entry all_attrs_append split: option.splits)
qed

lemma add_predicate_for_mset:
  assumes "distinct (map fst m)"
  shows "mset (all_preds (add_predicate_for k p m)) = add_mset (k, p) (mset (all_preds m))"
    "mset (all_attrs (add_predicate_for k p m)) = mset (all_attrs m)" "distinct (map fst (add_predicate_for k p m))"
proof -
  show "distinct (map fst (add_predicate_for k p m))"
    using assms by (auto simp: add_predicate_for_def distinct_update split: option.splits)
  show "mset (all_preds (add_predicate_for k p m)) = add_mset (k, p) (mset (all_preds m))"
    "mset (all_attrs (add_predicate_for k p m)) = mset (all_attrs m)"
    using update_entry [of m k _ _ "[]" "[p]"]
    by (auto simp: add_predicate_for_def update_no_entry all_attrs_append split: option.splits)
qed

text \<open>What is asked of a credential for a referent, with the key of the credential.\<close>

definition asked_attr ::
  "'nonce ProofRequestPayload \<Rightarrow> string \<times> RequestedAttribute \<Rightarrow> ProvingCredentialKey \<times> RequestedAttributeInfo" where
  "asked_attr req = (\<lambda>(r, ra). (\<lparr>pk_cred_id = ra_cred_id ra, pk_timestamp = ra_timestamp ra\<rparr>,
    \<lparr>rqa_attr_referent = r, rqa_attr_info = the (map_of (pr_requested_attributes req) r), rqa_revealed = ra_revealed ra\<rparr>))"

definition asked_predicate ::
  "'nonce ProofRequestPayload \<Rightarrow> string \<times> ProvingCredentialKey \<Rightarrow> ProvingCredentialKey \<times> RequestedPredicateInfo" where
  "asked_predicate req = (\<lambda>(r, k). (k,
    \<lparr>rqp_predicate_referent = r, rqp_predicate_info = the (map_of (pr_requested_predicates req) r)\<rparr>))"

lemma prepare_attrs_Inr:
  assumes "prepare_attrs req ras m = Inr m'" "distinct (map fst m)"
  shows "mset (all_attrs m') = mset (all_attrs m) + mset (map (asked_attr req) ras) \<and>
    mset (all_preds m') = mset (all_preds m) \<and> distinct (map fst m') \<and>
    (\<forall>(r, ra)\<in>set ras. map_of (pr_requested_attributes req) r \<noteq> None)"
  using assms
proof (induction req ras m rule: prepare_attrs.induct)
  case (2 req r ra rest m)
  then obtain info where i: "map_of (pr_requested_attributes req) r = Some info" by (auto simp: bindr_Inr_iff)
  with "2.prems"(1) "2.IH" [OF _ _ add_attr_for_mset(3) [OF "2.prems"(2)], of info]
    add_attr_for_mset(1,2) [OF "2.prems"(2)]
  show ?case by (auto simp: bindr_Inr_iff asked_attr_def)
qed simp

lemma prepare_predicates_Inr:
  assumes "prepare_predicates req rps m = Inr m'" "distinct (map fst m)"
  shows "mset (all_preds m') = mset (all_preds m) + mset (map (asked_predicate req) rps) \<and>
    mset (all_attrs m') = mset (all_attrs m) \<and> distinct (map fst m') \<and>
    (\<forall>(r, k)\<in>set rps. map_of (pr_requested_predicates req) r \<noteq> None)"
  using assms
proof (induction req rps m rule: prepare_predicates.induct)
  case (2 req r k rest m)
  then obtain info where i: "map_of (pr_requested_predicates req) r = Some info" by (auto simp: bindr_Inr_iff)
  with "2.prems"(1) "2.IH" [OF _ _ add_predicate_for_mset(3) [OF "2.prems"(2)], of info]
    add_predicate_for_mset(1,2) [OF "2.prems"(2)]
  show ?case by (auto simp: bindr_Inr_iff asked_predicate_def)
qed simp

lemma prepare_Inr:
  assumes "prepare_credentials_for_proving rc req = Inr m"
  shows "mset (all_attrs m) = mset (map (asked_attr req) (rc_requested_attributes rc))"
    "mset (all_preds m) = mset (map (asked_predicate req) (rc_requested_predicates rc))"
    "(r, ra) \<in> set (rc_requested_attributes rc) \<Longrightarrow> \<exists>info. map_of (pr_requested_attributes req) r = Some info"
    "(p, k) \<in> set (rc_requested_predicates rc) \<Longrightarrow> \<exists>info. map_of (pr_requested_predicates req) p = Some info"
proof -
  from assms obtain m1 where m1: "prepare_attrs req (rc_requested_attributes rc) [] = Inr m1"
      "prepare_predicates req (rc_requested_predicates rc) m1 = Inr m"
    by (auto simp: prepare_credentials_for_proving_def bindr_Inr_iff)
  have a: "mset (all_attrs m1) = mset (map (asked_attr req) (rc_requested_attributes rc))" "mset (all_preds m1) = {#}"
      "distinct (map fst m1)" "\<forall>(r, ra)\<in>set (rc_requested_attributes rc). map_of (pr_requested_attributes req) r \<noteq> None"
    using prepare_attrs_Inr [OF m1(1)] by simp_all
  note p = prepare_predicates_Inr [OF m1(2) a(3)]
  show "mset (all_attrs m) = mset (map (asked_attr req) (rc_requested_attributes rc))"
    "mset (all_preds m) = mset (map (asked_predicate req) (rc_requested_predicates rc))"
    using a(1,2) p by simp_all
  show "(r, ra) \<in> set (rc_requested_attributes rc) \<Longrightarrow> \<exists>info. map_of (pr_requested_attributes req) r = Some info"
    using a(4) by fastforce
  show "(p, k) \<in> set (rc_requested_predicates rc) \<Longrightarrow> \<exists>info. map_of (pr_requested_predicates req) p = Some info"
    using p by fastforce
qed

section \<open>The entries of a requested proof\<close>

definition add_entries ::
  "(string \<times> RevealedAttributeInfo) list \<Rightarrow> (string \<times> RevealedAttributeGroupInfo) list \<Rightarrow> (string \<times> SubProofReferent) list \<Rightarrow>
    RequestedProof \<Rightarrow> RequestedProof" where
  "add_entries A G N rp = rp\<lparr>rp_revealed_attrs := rp_revealed_attrs rp @ A,
    rp_revealed_attr_groups := rp_revealed_attr_groups rp @ G, rp_unrevealed_attrs := rp_unrevealed_attrs rp @ N\<rparr>"

definition revealed_entry ::
  "('cp, 'nonce, 'bn, 'pk, 'rk, 'key, 'ak, 'reg) ursa \<Rightarrow> 'nonce ProofRequestPayload \<Rightarrow> (string \<times> AttributeValues) list \<Rightarrow> nat \<Rightarrow>
    RequestedAttributeInfo \<Rightarrow> (string \<times> RevealedAttributeInfo) option" where
  "revealed_entry U req vs i a =
    (if rqa_revealed a then
       Option.bind (map_of (pr_requested_attributes req) (rqa_attr_referent a)) (\<lambda>info.
       Option.bind (ai_name info) (\<lambda>name.
         map_option (\<lambda>v. (rqa_attr_referent a, \<lparr>rai_index = i, rai_raw = cv_raw v, rai_encoded = cv_encoded v\<rparr>))
           (get_credential_values_for_attribute U vs name)))
     else None)"

definition group_entry ::
  "('cp, 'nonce, 'bn, 'pk, 'rk, 'key, 'ak, 'reg) ursa \<Rightarrow> 'nonce ProofRequestPayload \<Rightarrow> (string \<times> AttributeValues) list \<Rightarrow> nat \<Rightarrow>
    RequestedAttributeInfo \<Rightarrow> (string \<times> RevealedAttributeGroupInfo) option" where
  "group_entry U req vs i a =
    (if rqa_revealed a then
       Option.bind (map_of (pr_requested_attributes req) (rqa_attr_referent a)) (\<lambda>info.
         if ai_name info \<noteq> None then None
         else Option.bind (ai_names info) (\<lambda>names.
           case group_values U vs names [] of
             Inr vm \<Rightarrow> Some (rqa_attr_referent a, \<lparr>rag_index = i, rag_values = vm\<rparr>)
           | Inl _ \<Rightarrow> None))
     else None)"

definition hidden_entry :: "nat \<Rightarrow> RequestedAttributeInfo \<Rightarrow> (string \<times> SubProofReferent) option" where
  "hidden_entry i a = (if rqa_revealed a then None else Some (rqa_attr_referent a, \<lparr>spr_index = i\<rparr>))"

definition answered_referents :: "RequestedProof \<Rightarrow> string set" where
  "answered_referents rp =
    fst ` set (rp_revealed_attrs rp) \<union> fst ` set (rp_revealed_attr_groups rp) \<union> fst ` set (rp_unrevealed_attrs rp)"

text \<open>The values that a revealed attribute or group needs are there.\<close>

definition attr_served ::
  "('cp, 'nonce, 'bn, 'pk, 'rk, 'key, 'ak, 'reg) ursa \<Rightarrow> 'nonce ProofRequestPayload \<Rightarrow> (string \<times> AttributeValues) list \<Rightarrow>
    RequestedAttributeInfo \<Rightarrow> bool" where
  "attr_served U req vs a \<longleftrightarrow> (rqa_revealed a \<longrightarrow>
    (\<exists>info. map_of (pr_requested_attributes req) (rqa_attr_referent a) = Some info \<and>
      (\<forall>name. ai_name info = Some name \<longrightarrow> get_credential_values_for_attribute U vs name \<noteq> None) \<and>
      (\<forall>names. ai_name info = None \<longrightarrow> ai_names info = Some names \<longrightarrow> (\<exists>vm. group_values U vs names [] = Inr vm))))"

lemma add_entries_compose [simp]:
  "add_entries A' G' N' (add_entries A G N rp) = add_entries (A @ A') (G @ G') (N @ N') rp" "add_entries [] [] [] rp = rp"
  by (simp_all add: add_entries_def)

lemma answered_add_entries [simp]:
  "answered_referents (add_entries A G N rp) = answered_referents rp \<union> fst ` set A \<union> fst ` set G \<union> fst ` set N"
  by (auto simp: answered_referents_def add_entries_def)

lemma update_attr_Inr:
  assumes "update_attr U req vs i a rp = Inr rp'" "rqa_attr_referent a \<notin> answered_referents rp"
  shows "rp' = add_entries (List.map_filter (revealed_entry U req vs i) [a]) (List.map_filter (group_entry U req vs i) [a])
      (List.map_filter (hidden_entry i) [a]) rp"
    "attr_served U req vs a"
proof -
  let ?r = "rqa_attr_referent a"
  have new: "AList.update ?r x (rp_revealed_attrs rp) = rp_revealed_attrs rp @ [(?r, x)]"
      "AList.update ?r y (rp_revealed_attr_groups rp) = rp_revealed_attr_groups rp @ [(?r, y)]"
      "AList.update ?r z (rp_unrevealed_attrs rp) = rp_unrevealed_attrs rp @ [(?r, z)]" for x y z
    using assms(2) by (auto intro!: update_no_entry simp: answered_referents_def map_of_eq_None_iff)
  show "rp' = add_entries (List.map_filter (revealed_entry U req vs i) [a]) (List.map_filter (group_entry U req vs i) [a])
      (List.map_filter (hidden_entry i) [a]) rp"
    using assms(1)
    by (auto simp: update_attr_def Let_def bindr_Inr_iff new add_entries_def revealed_entry_def group_entry_def hidden_entry_def
        map_filter_simps split: if_splits option.splits)
  show "attr_served U req vs a"
    using assms(1) by (auto simp: update_attr_def attr_served_def Let_def bindr_Inr_iff split: if_splits option.splits)
qed

lemma entry_referent:
  "revealed_entry U req vs i a = Some e \<Longrightarrow> fst e = rqa_attr_referent a"
  "group_entry U req vs i a = Some g \<Longrightarrow> fst g = rqa_attr_referent a"
  "hidden_entry i a = Some h \<Longrightarrow> fst h = rqa_attr_referent a"
  by (auto simp: revealed_entry_def group_entry_def hidden_entry_def bind_eq_Some_conv split: if_splits sum.splits)
    (metis fst_conv sum.exhaust)

lemma map_filter_step: "List.map_filter f (x # xs) = List.map_filter f [x] @ List.map_filter f xs"
  by (simp add: map_filter_simps split: option.splits)

lemma disjoint_step: "A \<subseteq> insert x B \<Longrightarrow> x \<notin> S \<Longrightarrow> S \<inter> B = {} \<Longrightarrow> S \<inter> A = {}"
  by blast

lemma disjoint_steps: "A \<subseteq> B \<union> C \<Longrightarrow> S \<inter> B = {} \<Longrightarrow> C \<inter> S = {} \<Longrightarrow> S \<inter> A = {}"
  by blast

lemma map_filter_referents:
  "(\<And>a e. f a = Some e \<Longrightarrow> fst e = g a) \<Longrightarrow> fst ` set (List.map_filter f as) \<subseteq> g ` set as"
  by (fastforce simp: set_flat_map)

lemma entry_referents:
  "fst ` set (List.map_filter (revealed_entry U req vs i) as) \<subseteq> rqa_attr_referent ` set as"
  "fst ` set (List.map_filter (group_entry U req vs i) as) \<subseteq> rqa_attr_referent ` set as"
  "fst ` set (List.map_filter (hidden_entry i) as) \<subseteq> rqa_attr_referent ` set as"
  by (rule map_filter_referents, erule entry_referent)+

lemma update_attrs_Inr:
  assumes "update_attrs U req vs i as rp = Inr rp'" "distinct (map rqa_attr_referent as)"
    and "rqa_attr_referent ` set as \<inter> answered_referents rp = {}"
  shows "rp' = add_entries (List.map_filter (revealed_entry U req vs i) as) (List.map_filter (group_entry U req vs i) as)
      (List.map_filter (hidden_entry i) as) rp \<and> (\<forall>a\<in>set as. attr_served U req vs a)"
  using assms
proof (induction as arbitrary: rp)
  case Nil
  then show ?case by (simp add: map_filter_simps)
next
  case (Cons a as)
  then obtain rp1 where rp1: "update_attr U req vs i a rp = Inr rp1" "update_attrs U req vs i as rp1 = Inr rp'"
    by (auto simp: bindr_Inr_iff)
  have a: "rqa_attr_referent a \<notin> answered_referents rp" using Cons.prems(3) by auto
  note u = update_attr_Inr [OF rp1(1) a]
  have "answered_referents rp1 \<subseteq> insert (rqa_attr_referent a) (answered_referents rp)"
    using entry_referent(1,2) [of U req vs i a] entry_referent(3) [of i a]
    by (auto simp: u(1) map_filter_simps split: option.splits)
  moreover have "rqa_attr_referent a \<notin> rqa_attr_referent ` set as" "rqa_attr_referent ` set as \<inter> answered_referents rp = {}"
    using Cons.prems(2,3) by auto
  ultimately have "rqa_attr_referent ` set as \<inter> answered_referents rp1 = {}" by (rule disjoint_step)
  from Cons.IH [OF rp1(2) _ this] Cons.prems(2) u show ?case
    unfolding map_filter_step [of _ a as] by simp
qed

section \<open>The run over the credentials\<close>

text \<open>The requests of all credentials, each with the index of the part of the proof that answers it.\<close>

fun attr_jobs :: "nat \<Rightarrow> proving \<Rightarrow> (nat \<times> ProvingCredentialKey \<times> RequestedAttributeInfo) list" where
  "attr_jobs i [] = []"
| "attr_jobs i ((k, as, ps) # rest) = map (\<lambda>a. (i, k, a)) as @ attr_jobs (Suc i) rest"

fun pred_jobs :: "nat \<Rightarrow> proving \<Rightarrow> (nat \<times> ProvingCredentialKey \<times> RequestedPredicateInfo) list" where
  "pred_jobs i [] = []"
| "pred_jobs i ((k, as, ps) # rest) = map (\<lambda>p. (i, k, p)) ps @ pred_jobs (Suc i) rest"

definition values_of :: "('pk, 'rk, 'sig, 'scp, 'reg, 'wit) holder \<Rightarrow> ProvingCredentialKey \<Rightarrow> (string \<times> AttributeValues) list" where
  "values_of H k = (case ho_credentials H (pk_cred_id k) of Some c \<Rightarrow> cr_values c | None \<Rightarrow> [])"

definition named_identifier ::
  "bool \<Rightarrow> ('pk, 'rk, 'sig, 'scp, 'reg, 'wit) holder \<Rightarrow> 'nonce ProofRequest \<Rightarrow> ProvingCredentialKey \<Rightarrow> Identifier" where
  "named_identifier node_1_3 H req k =
    proof_identifier node_1_3 (request_version req) (the (ho_credentials H (pk_cred_id k))) (pk_timestamp k)"

definition run_entries ::
  "((string \<times> AttributeValues) list \<Rightarrow> nat \<Rightarrow> RequestedAttributeInfo \<Rightarrow> 'e option) \<Rightarrow>
    ('pk, 'rk, 'sig, 'scp, 'reg, 'wit) holder \<Rightarrow> nat \<Rightarrow> proving \<Rightarrow> 'e list" where
  "run_entries f H i ks = List.map_filter (\<lambda>(i, k, a). f (values_of H k) i a) (attr_jobs i ks)"

definition run_predicates :: "nat \<Rightarrow> proving \<Rightarrow> (string \<times> SubProofReferent) list" where
  "run_predicates i ks = map (\<lambda>(i, k, p). (rqp_predicate_referent p, \<lparr>spr_index = i\<rparr>)) (pred_jobs i ks)"

lemma map_filter_append: "List.map_filter f (xs @ ys) = List.map_filter f xs @ List.map_filter f ys"
  by (simp add: map_filter_def)

lemma map_filter_map: "List.map_filter f (map g xs) = List.map_filter (\<lambda>x. f (g x)) xs"
  by (simp add: map_filter_def filter_map comp_def)

lemma run_entries_simps:
  "run_entries f H i [] = []"
  "run_entries f H i ((k, as, ps) # ks) = List.map_filter (f (values_of H k) i) as @ run_entries f H (Suc i) ks"
  "run_predicates i [] = []"
  "run_predicates i ((k, as, ps) # ks) = map (\<lambda>p. (rqp_predicate_referent p, \<lparr>spr_index = i\<rparr>)) ps @ run_predicates (Suc i) ks"
  by (simp_all add: run_entries_def run_predicates_def map_filter_append map_filter_map map_filter_simps)

lemma fold_new_keys:
  "distinct (map g ps) \<Longrightarrow> g ` set ps \<inter> fst ` set m = {} \<Longrightarrow>
    fold (\<lambda>p. AList.update (g p) (x p)) ps m = m @ map (\<lambda>p. (g p, x p)) ps"
proof (induction ps arbitrary: m)
  case (Cons p ps)
  then have "AList.update (g p) (x p) m = m @ [(g p, x p)]" by (intro update_no_entry) (auto simp: map_of_eq_None_iff)
  with Cons show ?case by auto
qed simp

lemma update_requested_proof_Inr:
  assumes "update_requested_proof U as ps req c i rp = Inr rp'" "distinct (map rqa_attr_referent as)"
    and "rqa_attr_referent ` set as \<inter> answered_referents rp = {}" "distinct (map rqp_predicate_referent ps)"
    and "rqp_predicate_referent ` set ps \<inter> fst ` set (rp_predicates rp) = {}"
  shows "rp' = (add_entries (List.map_filter (revealed_entry U req (cr_values c) i) as)
      (List.map_filter (group_entry U req (cr_values c) i) as) (List.map_filter (hidden_entry i) as) rp)
      \<lparr>rp_predicates := rp_predicates rp @ map (\<lambda>p. (rqp_predicate_referent p, \<lparr>spr_index = i\<rparr>)) ps\<rparr>"
    "\<forall>a\<in>set as. attr_served U req (cr_values c) a"
proof -
  from assms(1) obtain rp1 where rp1: "update_attrs U req (cr_values c) i as rp = Inr rp1"
      "rp' = rp1\<lparr>rp_predicates := fold (\<lambda>p. AList.update (rqp_predicate_referent p) \<lparr>spr_index = i\<rparr>) ps (rp_predicates rp1)\<rparr>"
    by (auto simp: update_requested_proof_def bindr_Inr_iff)
  note u = update_attrs_Inr [OF rp1(1) assms(2,3)]
  then have "rp_predicates rp1 = rp_predicates rp" by (simp add: add_entries_def)
  with u show "rp' = (add_entries (List.map_filter (revealed_entry U req (cr_values c) i) as)
      (List.map_filter (group_entry U req (cr_values c) i) as) (List.map_filter (hidden_entry i) as) rp)
      \<lparr>rp_predicates := rp_predicates rp @ map (\<lambda>p. (rqp_predicate_referent p, \<lparr>spr_index = i\<rparr>)) ps\<rparr>"
    unfolding rp1(2) by (simp add: fold_new_keys [OF assms(4)] assms(5))
  show "\<forall>a\<in>set as. attr_served U req (cr_values c) a" using u by blast
qed

text \<open>Everything that a run over the credentials \<open>ks\<close> has added, with the parts \<open>new\<close>.\<close>

definition proved_parts ::
  "('cp, 'nonce, 'bn, 'pk, 'rk, 'key, 'ak, 'reg) ursa \<Rightarrow> ('ms, 'mv, 'sig, 'key, 'reg, 'wit, 'cp, 'nonce) prover_ursa \<Rightarrow>
    ('pk, 'rk, 'sig, 'scp, 'reg, 'wit) holder \<Rightarrow> 'nonce ProofRequest \<Rightarrow> 'ms \<Rightarrow> string list \<Rightarrow> proving \<Rightarrow>
    ('mv, 'sig, 'key, 'reg, 'wit) proof_part list \<Rightarrow> ('mv, 'sig, 'key, 'reg, 'wit) proof_part list \<Rightarrow> bool" where
  "proved_parts U P H req ms ns ks parts new \<longleftrightarrow> length new = length ks \<and>
    (\<forall>j<length ks. case ks ! j of (k, as, ps) \<Rightarrow>
      pu_add_sub_proof P (parts @ take (Suc j) new) = Inr () \<and>
      (\<exists>c. build_proof_part U P H ms ns k as ps = Inr (c, new ! j) \<and> ho_credentials H (pk_cred_id k) = Some c \<and>
        (\<forall>a\<in>set as. attr_served U (payload req) (values_of H k) a)))"

lemma proved_parts_Cons:
  assumes "build_proof_part U P H ms ns k as ps = Inr (c, part)" "pu_add_sub_proof P (parts @ [part]) = Inr ()"
    and "\<forall>a\<in>set as. attr_served U (payload req) (values_of H k) a" "proved_parts U P H req ms ns ks (parts @ [part]) new"
  shows "proved_parts U P H req ms ns ((k, as, ps) # ks) parts (part # new)"
  unfolding proved_parts_def
proof (intro conjI allI impI)
  show "length (part # new) = length ((k, as, ps) # ks)" using assms(4) by (simp add: proved_parts_def)
  have "ho_credentials H (pk_cred_id k) = Some c" using assms(1) by (auto simp: build_proof_part_def bindr_Inr_iff)
  then show "case ((k, as, ps) # ks) ! j of (k, as, ps) \<Rightarrow>
      pu_add_sub_proof P (parts @ take (Suc j) (part # new)) = Inr () \<and>
      (\<exists>c. build_proof_part U P H ms ns k as ps = Inr (c, (part # new) ! j) \<and> ho_credentials H (pk_cred_id k) = Some c \<and>
        (\<forall>a\<in>set as. attr_served U (payload req) (values_of H k) a))" if "j < length ((k, as, ps) # ks)" for j
    using that assms by (cases j) (auto simp: proved_parts_def split: prod.splits)
qed

lemma prove_credentials_Inr:
  assumes "prove_credentials U P node_1_3 H req ms ns i ks parts ids rp = Inr (parts', ids', rp')"
    and "distinct (map (\<lambda>x. rqa_attr_referent (snd x)) (all_attrs ks))"
    and "(\<lambda>x. rqa_attr_referent (snd x)) ` set (all_attrs ks) \<inter> answered_referents rp = {}"
    and "distinct (map (\<lambda>x. rqp_predicate_referent (snd x)) (all_preds ks))"
    and "(\<lambda>x. rqp_predicate_referent (snd x)) ` set (all_preds ks) \<inter> fst ` set (rp_predicates rp) = {}"
  shows "\<exists>new. parts' = parts @ new \<and> ids' = ids @ map (\<lambda>x. named_identifier node_1_3 H req (fst x)) ks \<and>
    proved_parts U P H req ms ns ks parts new \<and>
    rp' = (add_entries (run_entries (revealed_entry U (payload req)) H i ks) (run_entries (group_entry U (payload req)) H i ks)
      (run_entries (\<lambda>_. hidden_entry) H i ks) rp)\<lparr>rp_predicates := rp_predicates rp @ run_predicates i ks\<rparr>"
  using assms
proof (induction ks arbitrary: i parts ids rp)
  case Nil
  then show ?case by (simp add: proved_parts_def run_entries_simps add_entries_def)
next
  case (Cons x ks)
  obtain k as ps where x: "x = (k, as, ps)" by (cases x)
  from Cons.prems(1) obtain c part rp1 where c: "build_proof_part U P H ms ns k as ps = Inr (c, part)"
      "pu_add_sub_proof P (parts @ [part]) = Inr ()" "update_requested_proof U as ps (payload req) c i rp = Inr rp1"
      "prove_credentials U P node_1_3 H req ms ns (Suc i) ks (parts @ [part])
        (ids @ [proof_identifier node_1_3 (request_version req) c (pk_timestamp k)]) rp1 = Inr (parts', ids', rp')"
    by (auto simp: x bindr_Inr_iff)
  have cred: "ho_credentials H (pk_cred_id k) = Some c" using c(1) by (auto simp: build_proof_part_def bindr_Inr_iff)
  then have vs: "cr_values c = values_of H k"
      and ident: "proof_identifier node_1_3 (request_version req) c (pk_timestamp k) = named_identifier node_1_3 H req k"
    by (simp_all add: values_of_def named_identifier_def)
  have d: "distinct (map rqa_attr_referent as)" "rqa_attr_referent ` set as \<inter> answered_referents rp = {}"
      "distinct (map rqp_predicate_referent ps)" "rqp_predicate_referent ` set ps \<inter> fst ` set (rp_predicates rp) = {}"
    using Cons.prems(2-5) by (auto simp: x comp_def image_Un image_image)
  note u = update_requested_proof_Inr [OF c(3) d, unfolded vs]
  have keys: "answered_referents rp1 \<subseteq> answered_referents rp \<union> rqa_attr_referent ` set as"
      "fst ` set (rp_predicates rp1) = fst ` set (rp_predicates rp) \<union> rqp_predicate_referent ` set ps"
  proof -
    have "answered_referents rp1 = answered_referents (add_entries (List.map_filter (revealed_entry U (payload req) (values_of H k) i) as)
      (List.map_filter (group_entry U (payload req) (values_of H k) i) as) (List.map_filter (hidden_entry i) as) rp)"
      unfolding u(1) by (simp add: answered_referents_def)
    then show "answered_referents rp1 \<subseteq> answered_referents rp \<union> rqa_attr_referent ` set as"
      using entry_referents(1,2) [of U "payload req" "values_of H k" i as] entry_referents(3) [of i as] by (simp add: subset_iff)
    show "fst ` set (rp_predicates rp1) = fst ` set (rp_predicates rp) \<union> rqp_predicate_referent ` set ps"
      unfolding u(1) by (simp add: image_Un image_image)
  qed
  have "distinct (map (\<lambda>x. rqa_attr_referent (snd x)) (all_attrs ks))"
      "(\<lambda>x. rqa_attr_referent (snd x)) ` set (all_attrs ks) \<inter> answered_referents rp1 = {}"
      "distinct (map (\<lambda>x. rqp_predicate_referent (snd x)) (all_preds ks))"
      "(\<lambda>x. rqp_predicate_referent (snd x)) ` set (all_preds ks) \<inter> fst ` set (rp_predicates rp1) = {}"
    using Cons.prems(2-5)
    by (auto intro!: disjoint_steps [OF keys(1)] disjoint_steps [OF equalityD1 [OF keys(2)]]
        simp: x comp_def image_Un image_image Int_Un_distrib2)
  from Cons.IH [OF c(4) this] obtain new where new: "parts' = (parts @ [part]) @ new"
      "ids' = (ids @ [named_identifier node_1_3 H req k]) @ map (\<lambda>x. named_identifier node_1_3 H req (fst x)) ks"
      "proved_parts U P H req ms ns ks (parts @ [part]) new"
      "rp' = (add_entries (run_entries (revealed_entry U (payload req)) H (Suc i) ks)
        (run_entries (group_entry U (payload req)) H (Suc i) ks) (run_entries (\<lambda>_. hidden_entry) H (Suc i) ks) rp1)
        \<lparr>rp_predicates := rp_predicates rp1 @ run_predicates (Suc i) ks\<rparr>"
    by (auto simp: ident)
  have "proved_parts U P H req ms ns (x # ks) parts (part # new)" unfolding x by (rule proved_parts_Cons [OF c(1,2) u(2) new(3)])
  moreover have "rp' = (add_entries (run_entries (revealed_entry U (payload req)) H i (x # ks))
      (run_entries (group_entry U (payload req)) H i (x # ks)) (run_entries (\<lambda>_. hidden_entry) H i (x # ks)) rp)
      \<lparr>rp_predicates := rp_predicates rp @ run_predicates i (x # ks)\<rparr>"
    unfolding new(4) u(1) x run_entries_simps add_entries_def by simp
  ultimately show ?case using new(1,2) by (auto simp: x)
qed

section \<open>The proof as a whole\<close>

text \<open>The maps of the requested credentials have a referent once; the order of a hash map has every entry once.\<close>

definition credential_maps :: "RequestedCredentials \<Rightarrow> bool" where
  "credential_maps rc \<longleftrightarrow> distinct (map fst (rc_requested_attributes rc)) \<and> distinct (map fst (rc_requested_predicates rc))"

definition order_ok :: "('ms, 'mv, 'sig, 'key, 'reg, 'wit, 'cp, 'nonce) prover_ursa \<Rightarrow> bool" where
  "order_ok P \<longleftrightarrow> (\<forall>m. mset (pu_order_keys P m) = mset m)"

definition proved ::
  "('cp, 'nonce, 'bn, 'pk, 'rk, 'key, 'ak, 'reg) ursa \<Rightarrow> ('ms, 'mv, 'sig, 'key, 'reg, 'wit, 'cp, 'nonce) prover_ursa \<Rightarrow> bool \<Rightarrow>
    ('pk, 'rk, 'sig, 'scp, 'reg, 'wit) holder \<Rightarrow> 'nonce ProofRequest \<Rightarrow> RequestedCredentials \<Rightarrow> 'ms \<Rightarrow> 'cp FullProof \<Rightarrow>
    proving \<Rightarrow> ('mv, 'sig, 'key, 'reg, 'wit) proof_part list \<Rightarrow> string list \<Rightarrow> bool" where
  "proved U P node_1_3 H req rc ms pf ks parts ns \<longleftrightarrow>
    mset (all_attrs ks) = mset (map (asked_attr (payload req)) (rc_requested_attributes rc)) \<and>
    mset (all_preds ks) = mset (map (asked_predicate (payload req)) (rc_requested_predicates rc)) \<and>
    (\<forall>(r, ra)\<in>set (rc_requested_attributes rc). \<exists>info. map_of (pr_requested_attributes (payload req)) r = Some info) \<and>
    (\<forall>(r, k)\<in>set (rc_requested_predicates rc). \<exists>info. map_of (pr_requested_predicates (payload req)) r = Some info) \<and>
    build_non_credential_schema U = Inr ns \<and> proved_parts U P H req ms ns ks [] parts \<and>
    pu_finalize P parts (pr_nonce (payload req)) = Inr (pf_proof pf) \<and>
    pf_identifiers pf = map (\<lambda>x. named_identifier node_1_3 H req (fst x)) ks \<and>
    pf_requested_proof pf =
      \<lparr>rp_revealed_attrs = run_entries (revealed_entry U (payload req)) H 0 ks,
       rp_revealed_attr_groups = run_entries (group_entry U (payload req)) H 0 ks,
       rp_self_attested_attrs = rc_self_attested_attributes rc,
       rp_unrevealed_attrs = run_entries (\<lambda>_. hidden_entry) H 0 ks, rp_predicates = run_predicates 0 ks\<rparr>"

lemma mset_concat_map: "mset xs = mset ys \<Longrightarrow> mset (concat (map f xs)) = mset (concat (map f ys))"
proof -
  have "mset (concat (map f zs)) = (\<Sum>x\<in>#mset zs. mset (f x))" for zs by (induction zs) simp_all
  then show "mset xs = mset ys \<Longrightarrow> mset (concat (map f xs)) = mset (concat (map f ys))" by simp
qed

lemma all_attrs_order:
  assumes "order_ok P"
  shows "mset (all_attrs (pu_order_keys P m)) = mset (all_attrs m)" "mset (all_preds (pu_order_keys P m)) = mset (all_preds m)"
proof -
  have "mset (pu_order_keys P m) = mset m" using assms by (simp add: order_ok_def)
  then show "mset (all_attrs (pu_order_keys P m)) = mset (all_attrs m)" "mset (all_preds (pu_order_keys P m)) = mset (all_preds m)"
    unfolding all_attrs_def all_preds_def by (rule mset_concat_map)+
qed

lemma asked_referents:
  "mset xs = mset (map (asked_attr q) ras) \<Longrightarrow> distinct (map (\<lambda>x. rqa_attr_referent (snd x)) xs) \<longleftrightarrow> distinct (map fst ras)"
  "mset ys = mset (map (asked_predicate q) rps) \<Longrightarrow> distinct (map (\<lambda>x. rqp_predicate_referent (snd x)) ys) \<longleftrightarrow> distinct (map fst rps)"
proof -
  have a: "(\<lambda>x. rqa_attr_referent (snd x)) \<circ> asked_attr q = fst" "(\<lambda>x. rqp_predicate_referent (snd x)) \<circ> asked_predicate q = fst"
    by (auto simp: asked_attr_def asked_predicate_def)
  show "distinct (map (\<lambda>x. rqa_attr_referent (snd x)) xs) \<longleftrightarrow> distinct (map fst ras)" if "mset xs = mset (map (asked_attr q) ras)"
  proof -
    from that have "mset (map (\<lambda>x. rqa_attr_referent (snd x)) xs) = mset (map (\<lambda>x. rqa_attr_referent (snd x)) (map (asked_attr q) ras))"
      by (simp only: mset_map)
    then show ?thesis using mset_eq_imp_distinct_iff by (simp only: map_map a(1)) blast
  qed
  show "distinct (map (\<lambda>x. rqp_predicate_referent (snd x)) ys) \<longleftrightarrow> distinct (map fst rps)" if "mset ys = mset (map (asked_predicate q) rps)"
  proof -
    from that have "mset (map (\<lambda>x. rqp_predicate_referent (snd x)) ys) = mset (map (\<lambda>x. rqp_predicate_referent (snd x)) (map (asked_predicate q) rps))"
      by (simp only: mset_map)
    then show ?thesis using mset_eq_imp_distinct_iff by (simp only: map_map a(2)) blast
  qed
qed

lemma create_proof_proved:
  assumes "create_proof U P node_1_3 H req rc ms = Inr pf" "credential_maps rc" "order_ok P"
  shows "\<exists>ks parts ns. proved U P node_1_3 H req rc ms pf ks parts ns"
proof -
  let ?rp = "\<lparr>rp_revealed_attrs = [], rp_revealed_attr_groups = [], rp_self_attested_attrs = rc_self_attested_attributes rc,
              rp_unrevealed_attrs = [], rp_predicates = []\<rparr>"
  from assms(1) obtain m ns parts ids rp where c: "prepare_credentials_for_proving rc (payload req) = Inr m"
      "build_non_credential_schema U = Inr ns"
      "prove_credentials U P node_1_3 H req ms ns 0 (pu_order_keys P m) [] [] ?rp = Inr (parts, ids, rp)"
      "pu_finalize P parts (pr_nonce (payload req)) = Inr (pf_proof pf)" "pf_requested_proof pf = rp" "pf_identifiers pf = ids"
    by (auto simp: create_proof_def Let_def bindr_Inr_iff)
  let ?ks = "pu_order_keys P m"
  note p = prepare_Inr [OF c(1)]
  note all = all_attrs_order [OF assms(3), of m, unfolded p(1,2)]
  have d: "distinct (map (\<lambda>x. rqa_attr_referent (snd x)) (all_attrs ?ks))" "distinct (map (\<lambda>x. rqp_predicate_referent (snd x)) (all_preds ?ks))"
    using asked_referents(1) [OF all(1)] asked_referents(2) [OF all(2)] assms(2) by (simp_all add: credential_maps_def)
  have e: "(\<lambda>x. rqa_attr_referent (snd x)) ` set (all_attrs ?ks) \<inter> answered_referents ?rp = {}"
      "(\<lambda>x. rqp_predicate_referent (snd x)) ` set (all_preds ?ks) \<inter> fst ` set (rp_predicates ?rp) = {}"
    by (simp_all add: answered_referents_def)
  from prove_credentials_Inr [OF c(3) d(1) e(1) d(2) e(2)] have
    "proved_parts U P H req ms ns ?ks [] parts" "ids = map (\<lambda>x. named_identifier node_1_3 H req (fst x)) ?ks"
    "rp = (add_entries (run_entries (revealed_entry U (payload req)) H 0 ?ks) (run_entries (group_entry U (payload req)) H 0 ?ks)
      (run_entries (\<lambda>_. hidden_entry) H 0 ?ks) ?rp)\<lparr>rp_predicates := rp_predicates ?rp @ run_predicates 0 ?ks\<rparr>"
    by auto
  with c p(3,4) all have "proved U P node_1_3 H req rc ms pf ?ks parts ns"
    by (auto simp: proved_def add_entries_def)
  then show ?thesis by blast
qed

section \<open>Looking up entries\<close>

lemma attr_jobs_mem:
  "(i, k, a) \<in> set (attr_jobs j ks) \<longleftrightarrow> (\<exists>n as ps. n < length ks \<and> i = j + n \<and> ks ! n = (k, as, ps) \<and> a \<in> set as)"
  "(i, k, p) \<in> set (pred_jobs j ks) \<longleftrightarrow> (\<exists>n as ps. n < length ks \<and> i = j + n \<and> ks ! n = (k, as, ps) \<and> p \<in> set ps)"
proof (induction ks arbitrary: j)
  case (Cons x ks)
  obtain k' as' ps' where x: "x = (k', as', ps')" by (cases x)
  { case 1 show ?case using Cons.IH(1) [of "Suc j"] by (auto simp: x less_Suc_eq_0_disj) }
  { case 2 show ?case using Cons.IH(2) [of "Suc j"] by (auto simp: x less_Suc_eq_0_disj) }
qed simp_all

lemma jobs_all: "map snd (attr_jobs i ks) = all_attrs ks" "map snd (pred_jobs i ks) = all_preds ks"
  by (induction ks arbitrary: i) (auto simp: comp_def)

lemma run_entries_mem:
  "e \<in> set (run_entries f H 0 ks) \<longleftrightarrow>
    (\<exists>i k a. (i, k, a) \<in> set (attr_jobs 0 ks) \<and> f (values_of H k) i a = Some e)"
  by (force simp: run_entries_def set_flat_map)

lemma distinct_map_filter:
  "distinct (map g xs) \<Longrightarrow> (\<And>x e. f x = Some e \<Longrightarrow> h e = g x) \<Longrightarrow> distinct (map h (List.map_filter f xs))"
proof (induction xs)
  case (Cons x xs)
  have "h ` set (List.map_filter f xs) \<subseteq> g ` set xs" using Cons.prems(2) by (fastforce simp: set_flat_map)
  with Cons show ?case by (auto simp: map_filter_simps split: option.splits)
qed (simp add: map_filter_simps)

end
