(* ===== verification/Verifier_Properties.thy ===== *)
theory Verifier_Properties
  imports Verifier_Sound
begin

text \<open>
  The properties of the verifier: what an accepted proof shows of the attributes and predicates that were asked for,
  what it does not show, and when the verifier cannot panic.
\<close>

section \<open>Attributes and predicates\<close>

lemma compare_attr_Inr:
  assumes "compare_attr_from_proof_and_request req revealed unrevealed sa predicates = Inr ()"
  shows "fst ` set (pr_requested_attributes req) = fst ` set revealed \<union> fst ` set unrevealed \<union> set sa"
    "fst ` set (pr_requested_predicates req) = fst ` set predicates"
  using assms by (simp_all add: compare_attr_from_proof_and_request_def image_Un split: if_splits)

lemma unambiguous_lookup:
  assumes "received_revealed_attrs pf = Inr revealed" "received_unrevealed_attrs pf = Inr unrevealed"
    and "hash_maps req (pf_requested_proof pf)" "unambiguous (pf_requested_proof pf)"
  shows "(r, ri) \<in> set (rp_revealed_attrs (pf_requested_proof pf)) \<Longrightarrow>
      (map_of revealed ++ map_of unrevealed) r = Some (pf_identifiers pf ! rai_index ri)"
    "(r, gi) \<in> set (rp_revealed_attr_groups (pf_requested_proof pf)) \<Longrightarrow>
      (map_of revealed ++ map_of unrevealed) r = Some (pf_identifiers pf ! rag_index gi)"
    "(r, ui) \<in> set (rp_unrevealed_attrs (pf_requested_proof pf)) \<Longrightarrow>
      (map_of revealed ++ map_of unrevealed) r = Some (pf_identifiers pf ! spr_index ui)"
proof -
  let ?rp = "pf_requested_proof pf"
  note lr = received_revealed_lookup [OF assms(1,3)]
  note lu = insert_indices [OF assms(2) [unfolded received_unrevealed_attrs_def]]
  have d: "distinct (map fst (rp_revealed_attrs ?rp))" "distinct (map fst (rp_revealed_attr_groups ?rp))"
      "distinct (map fst (rp_unrevealed_attrs ?rp))"
    using assms(3) by (simp_all add: hash_maps_def)
  have disj: "fst ` set (rp_revealed_attrs ?rp) \<inter> fst ` set (rp_revealed_attr_groups ?rp) = {}"
      "(fst ` set (rp_revealed_attrs ?rp) \<union> fst ` set (rp_revealed_attr_groups ?rp)) \<inter> fst ` set (rp_unrevealed_attrs ?rp) = {}"
    using assms(4) by (auto simp: unambiguous_def)
  have none: "map_of (rp_revealed_attr_groups ?rp) r = None" "map_of unrevealed r = None"
    if "r \<in> fst ` set (rp_revealed_attrs ?rp)"
    using that disj lu(1) [OF d(3), of r] by (auto simp: map_of_eq_None_iff)
  have none': "map_of unrevealed r = None" if "r \<in> fst ` set (rp_revealed_attr_groups ?rp)"
    using that disj lu(1) [OF d(3), of r] by (auto simp: map_of_eq_None_iff)
  show "(map_of revealed ++ map_of unrevealed) r = Some (pf_identifiers pf ! rai_index ri)"
    if "(r, ri) \<in> set (rp_revealed_attrs ?rp)"
  proof -
    from that have "r \<in> fst ` set (rp_revealed_attrs ?rp)" by force
    with that none lr(1) [of r] d(1) show ?thesis by (simp add: map_add_def)
  qed
  show "(map_of revealed ++ map_of unrevealed) r = Some (pf_identifiers pf ! rag_index gi)"
    if "(r, gi) \<in> set (rp_revealed_attr_groups ?rp)"
  proof -
    from that have "r \<in> fst ` set (rp_revealed_attr_groups ?rp)" by force
    with that none' lr(1) [of r] d(2) show ?thesis by (simp add: map_add_def)
  qed
  show "(r, ui) \<in> set (rp_unrevealed_attrs ?rp) \<Longrightarrow>
      (map_of revealed ++ map_of unrevealed) r = Some (pf_identifiers pf ! spr_index ui)"
    using lu(1) [OF d(3), of r] d(3) by (auto simp: map_add_def)
qed

lemma revealed_checked:
  assumes "verify_revealed_attribute_values U req pf = Inr ()" "(r, info) \<in> set (pr_requested_attributes req)"
    and "distinct (map fst (pr_requested_attributes req))"
  shows "(r, ri) \<in> set (rp_revealed_attrs (pf_requested_proof pf)) \<Longrightarrow>
      \<exists>name. ai_name info = Some name \<and> verify_revealed_attribute_value U name pf ri = Inr ()"
    "(r, gi) \<in> set (rp_revealed_attr_groups (pf_requested_proof pf)) \<Longrightarrow>
      \<exists>names. ai_names info = Some names \<and> (\<forall>name\<in>set names. \<exists>v. map_of (rag_values gi) name = Some v \<and>
        verify_revealed_attribute_value U name pf
          \<lparr>rai_index = rag_index gi, rai_raw = av_raw v, rai_encoded = av_encoded v\<rparr> = Inr ())"
proof -
  have at: "map_of (pr_requested_attributes req) r = Some info" using assms(2,3) by simp
  from assms(1) obtain xs ys where
    t: "traverse (\<lambda>(referent, info).
      bindr (ok_or (map_of (pr_requested_attributes req) referent) (Error ProofRejected)) (\<lambda>requested.
      bindr (ok_or (ai_name requested) (Error ProofRejected)) (\<lambda>attr_name.
        verify_revealed_attribute_value U attr_name pf info)))
      (rp_revealed_attrs (pf_requested_proof pf)) = Inr xs"
      "traverse (verify_revealed_group U req pf) (rp_revealed_attr_groups (pf_requested_proof pf)) = Inr ys"
    by (auto simp: verify_revealed_attribute_values_def bindr_Inr_iff)
  show "\<exists>name. ai_name info = Some name \<and> verify_revealed_attribute_value U name pf ri = Inr ()"
    if "(r, ri) \<in> set (rp_revealed_attrs (pf_requested_proof pf))"
    using traverse_Inr_all [OF t(1) that] at by (auto simp: bindr_Inr_iff)
  show "\<exists>names. ai_names info = Some names \<and> (\<forall>name\<in>set names. \<exists>v. map_of (rag_values gi) name = Some v \<and>
        verify_revealed_attribute_value U name pf
          \<lparr>rai_index = rag_index gi, rai_raw = av_raw v, rai_encoded = av_encoded v\<rparr> = Inr ())"
    if "(r, gi) \<in> set (rp_revealed_attr_groups (pf_requested_proof pf))"
    using traverse_Inr_all [OF t(2) that] at
    by (auto simp: verify_revealed_group_def bindr_Inr_iff split: if_splits dest!: traverse_Inr_all)
qed

lemma restriction_needs_identifier:
  assumes "verify_requested_restrictions U req rp revealed unrevealed predicates sa = Inr ()" "std_ok U"
    and "(r, info) \<in> set (pr_requested_attributes req)" "\<not> is_self_attested r info sa" "r \<in> set sa"
  shows "r \<in> fst ` set revealed \<union> fst ` set unrevealed"
proof (rule ccontr)
  assume "r \<notin> fst ` set revealed \<union> fst ` set unrevealed"
  then have none: "(map_of revealed ++ map_of unrevealed) r = None" by (simp add: map_of_eq_None_iff)
  from assms(4,5) obtain q where q: "ai_restrictions info = Some q" by (cases "ai_restrictions info") auto
  have "(r, info) \<in> set (us_order_attrs U (filter (\<lambda>(r, info). \<not> is_self_attested r info sa) (pr_requested_attributes req)))"
    using assms(2,3,4) by (simp add: std_ok_def)
  then have "verify_attr_restrictions U rp (map_of revealed ++ map_of unrevealed) (r, info) = Inr ()"
    using assms(1) by (auto simp: verify_requested_restrictions_def Let_def bindr_Inr_iff dest: traverse_Inr_all)
  then show False using q none by (simp add: verify_attr_restrictions_def gather_filter_info_def bindr_Inr_iff)
qed

text \<open>Where the prover's own word does not count, the proof names a credential for the referent.\<close>

lemma answer_cases:
  assumes "received_revealed_attrs pf = Inr revealed" "received_unrevealed_attrs pf = Inr unrevealed"
    and "compare_attr_from_proof_and_request req revealed unrevealed (received_self_attested_attrs pf) predicates = Inr ()"
    and "verify_requested_restrictions U req (pf_requested_proof pf) revealed unrevealed predicates
      (received_self_attested_attrs pf) = Inr ()"
    and "hash_maps req (pf_requested_proof pf)" "std_ok U" "(r, info) \<in> set (pr_requested_attributes req)"
    and other: "\<not> is_self_attested r info (received_self_attested_attrs pf)"
  obtains (attr) ri where "(r, ri) \<in> set (rp_revealed_attrs (pf_requested_proof pf))" "rai_index ri < length (pf_identifiers pf)"
  | (group) gi where "(r, gi) \<in> set (rp_revealed_attr_groups (pf_requested_proof pf))" "rag_index gi < length (pf_identifiers pf)"
  | (hidden) ui where "(r, ui) \<in> set (rp_unrevealed_attrs (pf_requested_proof pf))" "spr_index ui < length (pf_identifiers pf)"
proof -
  let ?rp = "pf_requested_proof pf"
  note lr = received_revealed_lookup [OF assms(1,5)]
  have d: "distinct (map fst (rp_unrevealed_attrs ?rp))" using assms(5) by (simp add: hash_maps_def)
  note lu = insert_indices [OF assms(2) [unfolded received_unrevealed_attrs_def] d]
  have "r \<in> fst ` set revealed \<union> fst ` set unrevealed"
    using compare_attr_Inr(1) [OF assms(3)] restriction_needs_identifier [OF assms(4,6,7) other] assms(7) by force
  then consider "r \<in> fst ` set (rp_revealed_attrs ?rp)" | "r \<in> fst ` set (rp_revealed_attr_groups ?rp)"
    | "r \<in> fst ` set (rp_unrevealed_attrs ?rp)"
    unfolding lr(4) lu(3) by blast
  then show thesis
  proof cases
    case 1
    then show thesis using attr lr(2) by force
  next
    case 2
    then show thesis using group lr(3) by force
  next
    case 3
    then show thesis using hidden lu(2) by force
  qed
qed

text \<open>
  C20: If the verifier accepts a proof, every requested attribute is answered: by the prover's own word only where
  the request has no restrictions, and else by a credential issued for the key of the credential definition the proof
  names. A revealed value, or each value of a revealed group, is the value of the credential, a group is from one
  credential, and the restrictions of the request hold of this very credential. Assumed are the soundness of
  the proof system and that the proof answers no referent in two ways.
\<close>

theorem accepted_attribute:
  assumes "verify U pf req B = Inr True" "ursa_sound U issued meets" "std_ok U"
    and "hash_maps req (pf_requested_proof pf)" "unambiguous (pf_requested_proof pf)"
    and "(r, info) \<in> set (pr_requested_attributes req)"
  shows "attribute_answered U B issued pf r info"
proof (cases "is_self_attested r info (received_self_attested_attrs pf)")
  case True
  then show ?thesis by (simp add: attribute_answered_def)
next
  case False
  let ?rp = "pf_requested_proof pf"
  let ?sa = "received_self_attested_attrs pf"
  from assms(1) obtain revealed unrevealed predicates ns added where v:
    "received_revealed_attrs pf = Inr revealed" "received_unrevealed_attrs pf = Inr unrevealed"
    "compare_attr_from_proof_and_request req revealed unrevealed ?sa predicates = Inr ()"
    "verify_requested_restrictions U req ?rp revealed unrevealed predicates ?sa = Inr ()"
    "verify_revealed_attribute_values U req pf = Inr ()" "length added = length (pf_identifiers pf)"
    "\<forall>k<length (pf_identifiers pf). build_sub_proof U B req ?rp ns k (pf_identifiers pf ! k) = Inr (added ! k)"
    "us_verify U added (pf_proof pf) (pr_nonce req) = Inr True"
    by (rule verifyE)
  note at = unambiguous_lookup [OF v(1,2) assms(4,5)]
  note credential = part_values [OF assms(2) v(8,6,7) assms(3)]
  note restr = restrictions_at [OF v(4) assms(3,6) False]
  have d: "distinct (map fst (pr_requested_attributes req))" using assms(4) by (simp add: hash_maps_def)
  note checked = revealed_checked [OF v(5) assms(6) d]
  from v(1-4) assms(4,3,6) False show ?thesis
  proof (cases rule: answer_cases)
    case (attr ri)
    obtain vals where "credential_behind U B issued pf (rai_index ri) vals"
        "\<And>name. verify_revealed_attribute_value U name pf ri = Inr () \<Longrightarrow>
          us_from_dec U (rai_encoded ri) = Inr (vals (attr_common_view U name))"
      using credential [OF attr(2)] by metis
    then show ?thesis
      using checked(1) [OF attr(1)] restr [OF at(1) [OF attr(1)]] attr(1) unfolding attribute_answered_def Let_def by blast
  next
    case (group gi)
    obtain vals where b: "credential_behind U B issued pf (rag_index gi) vals"
        "\<And>name info. rai_index info = rag_index gi \<Longrightarrow> verify_revealed_attribute_value U name pf info = Inr () \<Longrightarrow>
          us_from_dec U (rai_encoded info) = Inr (vals (attr_common_view U name))"
      using credential [OF group(2)] by metis
    obtain names where n: "ai_names info = Some names"
        "\<forall>name\<in>set names. \<exists>v. map_of (rag_values gi) name = Some v \<and> verify_revealed_attribute_value U name pf
          \<lparr>rai_index = rag_index gi, rai_raw = av_raw v, rai_encoded = av_encoded v\<rparr> = Inr ()"
      using checked(2) [OF group(1)] by blast
    have "\<forall>name\<in>set names. \<exists>v. map_of (rag_values gi) name = Some v \<and>
        us_from_dec U (av_encoded v) = Inr (vals (attr_common_view U name))"
      using n(2) b(2) by (metis RevealedAttributeInfo.select_convs(1,3))
    then show ?thesis
      using b(1) n(1) restr [OF at(2) [OF group(1)]] group(1) unfolding attribute_answered_def Let_def by blast
  next
    case (hidden ui)
    obtain vals where "credential_behind U B issued pf (spr_index ui) vals" using credential [OF hidden(2)] by metis
    then show ?thesis
      using restr [OF at(3) [OF hidden(1)]] hidden(1) unfolding attribute_answered_def Let_def by blast
  qed
qed

text \<open>The values that the restrictions of a predicate may speak of: those the same credential reveals.\<close>

definition predicate_value_map ::
  "('cp, 'nonce, 'bn, 'pk, 'rk, 'key, 'ak, 'reg) ursa \<Rightarrow> 'nonce ProofRequestPayload \<Rightarrow> 'cp FullProof \<Rightarrow> string \<Rightarrow> PredicateInfo \<Rightarrow>
    nat \<Rightarrow> (string \<times> string option) list IndyResult" where
  "predicate_value_map U req pf r info k =
    (let rp = pf_requested_proof pf;
         requested_attrs = us_order_attrs U
           (filter (\<lambda>(r, info). \<not> is_self_attested r info (received_self_attested_attrs pf)) (pr_requested_attributes req)) in
     bindr (revealed_values requested_attrs k (rp_revealed_attrs rp) [(pi_name info, None)]) (\<lambda>m.
       Inr (us_order_values U False r (revealed_group_values k (rp_revealed_attr_groups rp) m))))"

text \<open>
  C21: If the verifier accepts a proof, every requested predicate is met by the value of the named attribute in a
  credential issued for the key of the credential definition that the proof names for it, and the
  restrictions of the predicate hold of that credential. Nothing is assumed of how the proof answers attributes.
\<close>

theorem accepted_predicate:
  assumes "verify U pf req B = Inr True" "ursa_sound U issued meets" "std_ok U" "hash_maps req (pf_requested_proof pf)"
    and "(r, info) \<in> set (pr_requested_predicates req)"
  shows "\<exists>p vals. (r, p) \<in> set (rp_predicates (pf_requested_proof pf)) \<and> credential_behind U B issued pf (spr_index p) vals \<and>
    meets (predicate_type_str (pi_p_type info)) (vals (attr_common_view U (pi_name info))) (pi_p_value info) \<and>
    restricted U pf (spr_index p) (predicate_value_map U req pf r info (spr_index p)) (pi_restrictions info)"
proof -
  let ?rp = "pf_requested_proof pf"
  let ?sa = "received_self_attested_attrs pf"
  from assms(1) obtain revealed unrevealed predicates ns added where v:
    "received_predicates pf = Inr predicates"
    "compare_attr_from_proof_and_request req revealed unrevealed ?sa predicates = Inr ()"
    "verify_requested_restrictions U req ?rp revealed unrevealed predicates ?sa = Inr ()"
    "length added = length (pf_identifiers pf)"
    "\<forall>k<length (pf_identifiers pf). build_sub_proof U B req ?rp ns k (pf_identifiers pf ! k) = Inr (added ! k)"
    "us_verify U added (pf_proof pf) (pr_nonce req) = Inr True"
    by (rule verifyE)
  have d: "distinct (map fst (rp_predicates ?rp))" "distinct (map fst (pr_requested_predicates req))"
    using assms(4) by (simp_all add: hash_maps_def)
  note lp = insert_indices [OF v(1) [unfolded received_predicates_def] d(1)]
  have "r \<in> fst ` set (pr_requested_predicates req)" using assms(5) by force
  then have "r \<in> fst ` set (rp_predicates ?rp)" unfolding compare_attr_Inr(2) [OF v(2)] lp(3) .
  then obtain p where p: "(r, p) \<in> set (rp_predicates ?rp)" by auto
  then have mp: "map_of (rp_predicates ?rp) r = Some p" using d(1) by simp
  have at: "map_of predicates r = Some (pf_identifiers pf ! spr_index p)" by (simp add: lp(1) mp)
  obtain vals where vals: "credential_behind U B issued pf (spr_index p) vals"
      "\<And>q. q \<in> set (get_predicates_for_credential (spr_index p) ?rp req) \<Longrightarrow>
        meets (predicate_type_str (pi_p_type q)) (vals (attr_common_view U (pi_name q))) (pi_p_value q)"
    using part_values [OF assms(2) v(6,4,5) assms(3) lp(2) [OF p]] by metis
  have "info \<in> set (get_predicates_for_credential (spr_index p) ?rp req)"
    using p assms(5) d(2) by (force simp: get_predicates_for_credential_def set_flat_map)
  moreover have "verify_predicate_restrictions U ?rp
      (us_order_attrs U (filter (\<lambda>(r, info). \<not> is_self_attested r info ?sa) (pr_requested_attributes req))) predicates (r, info) = Inr ()"
    using v(3) assms(5) by (auto simp: verify_requested_restrictions_def Let_def bindr_Inr_iff dest: traverse_Inr_all)
  then have "restricted U pf (spr_index p) (predicate_value_map U req pf r info (spr_index p)) (pi_restrictions info)"
    unfolding restricted_def verify_predicate_restrictions_def predicate_value_map_def
    by (auto simp: gather_filter_info_at [of "map_of predicates" r, OF at] mp bindr_Inr_iff do_process_operator_Inr Let_def)
  ultimately show ?thesis using p vals by blast
qed

section \<open>Panics\<close>

definition no_panic :: "'a IndyResult \<Rightarrow> bool" where
  "no_panic r \<longleftrightarrow> r \<noteq> Inl Panic"

named_theorems no_panic_rules \<open>results that are not a panic\<close>

lemma no_panic_simps [simp]: "no_panic (Inr x)" "no_panic (Inl (Error k))" "no_panic (ok_or y (Error k))"
  by (cases y; simp add: no_panic_def)+

lemma no_panic_bindr [no_panic_rules]: "no_panic m \<Longrightarrow> (\<And>x. m = Inr x \<Longrightarrow> no_panic (f x)) \<Longrightarrow> no_panic (bindr m f)"
  by (cases m) (simp_all add: no_panic_def)

lemma no_panic_traverse [no_panic_rules]: "(\<And>x. x \<in> set xs \<Longrightarrow> no_panic (f x)) \<Longrightarrow> no_panic (traverse f xs)"
proof (induction xs)
  case (Cons x xs)
  then show ?case by (simp add: no_panic_bindr)
qed simp

lemma no_panic_or_else [no_panic_rules]: "no_panic b \<Longrightarrow> no_panic (or_result a b)"
  by (cases a) (simp_all add: or_result_def)

lemma no_panic_if [no_panic_rules]: "(c \<Longrightarrow> no_panic a) \<Longrightarrow> (\<not> c \<Longrightarrow> no_panic b) \<Longrightarrow> no_panic (if c then a else b)"
  by simp

definition ursa_no_panic :: "('cp, 'nonce, 'bn, 'pk, 'rk, 'key, 'ak, 'reg) ursa \<Rightarrow> bool" where
  "ursa_no_panic U \<longleftrightarrow> (\<forall>s. no_panic (us_from_dec U s)) \<and> (\<forall>cp. \<forall>p\<in>set (us_sub_proofs U cp). no_panic p) \<and>
    (\<forall>b. no_panic (us_schema_call U b) \<and> no_panic (us_schema_finalize U b) \<and> no_panic (us_non_schema_call U b) \<and>
      no_panic (us_non_schema_finalize U b)) \<and>
    (\<forall>b. no_panic (us_request_call U b) \<and> no_panic (us_request_finalize U b)) \<and>
    (\<forall>p r. no_panic (us_build_key U p r)) \<and> (\<forall>b. no_panic (us_verifier_call U b)) \<and>
    (\<forall>b cp n. no_panic (us_verify U b cp n))"

lemma run_calls_no_panic [no_panic_rules]: "(\<And>h. no_panic (call h)) \<Longrightarrow> no_panic (run_builder call h cs)"
  by (induction cs arbitrary: h) (auto intro: no_panic_rules)

lemma restriction_no_panic:
  "no_panic (process_filter U m tag v f)" "no_panic (do_process_operator U m q f)" "no_panic (gather_filter_info r ids)"
  "no_panic (name_value_map U rp r info)"
proof -
  show p: "no_panic (process_filter U m tag v f)" for m tag v
    by (auto simp: process_filter_def precess_filed_def check_internal_tag_revealed_value_def split: option.split list.split)
  show "no_panic (do_process_operator U m q f)"
    by (induction U m q f rule: do_process_operator.induct)
      (auto simp: process_filter_def precess_filed_def check_internal_tag_revealed_value_def
        split: option.split list.split intro!: no_panic_rules)
  show "no_panic (gather_filter_info r ids)"
    by (auto simp: gather_filter_info_def intro!: no_panic_rules split: prod.split)
  show "no_panic (name_value_map U rp r info)"
    by (auto simp: name_value_map_def intro!: no_panic_rules split: option.split)
qed

lemma received_no_panic:
  "no_panic (insert_identifiers pf rs m)" "no_panic (received_revealed_attrs pf)" "no_panic (received_unrevealed_attrs pf)"
  "no_panic (received_predicates pf)"
proof -
  show i: "no_panic (insert_identifiers pf rs m)" for rs m
    by (induction pf rs m rule: insert_identifiers.induct) (auto simp: get_proof_identifier_def intro!: no_panic_rules)
  show "no_panic (received_revealed_attrs pf)" "no_panic (received_unrevealed_attrs pf)" "no_panic (received_predicates pf)"
    by (auto simp: received_revealed_attrs_def received_unrevealed_attrs_def received_predicates_def intro!: no_panic_rules i)
qed

lemma comparisons_no_panic:
  "no_panic (compare_attr_from_proof_and_request req revealed unrevealed sa predicates)"
  "no_panic (compare_timestamps_from_proof_and_request req revealed unrevealed sa predicates)"
  by (auto simp: compare_attr_from_proof_and_request_def compare_timestamps_from_proof_and_request_def validate_timestamp_def
      split: prod.split intro!: no_panic_rules)

lemma revealed_no_panic:
  assumes "ursa_no_panic U"
  shows "no_panic (verify_revealed_attribute_values U req pf)"
proof -
  have v: "no_panic (verify_revealed_attribute_value U name pf info)" for name info
    using assms unfolding verify_revealed_attribute_value_def Let_def
    by (auto simp: ursa_no_panic_def split: prod.split intro!: no_panic_rules dest: nth_mem)
  show ?thesis
    unfolding verify_revealed_attribute_values_def verify_revealed_group_def
    by (auto split: prod.split intro!: no_panic_rules v)
qed

lemma sub_proofs_no_panic:
  assumes "ursa_no_panic U"
  shows "no_panic (add_sub_proofs U B req rp ns i ids added)" "no_panic (build_non_credential_schema U)"
proof -
  have r: "no_panic (add_revealed U b attrs)" for b attrs
    using assms by (induction U b attrs rule: add_revealed.induct)
      (auto simp: names_of_def ursa_no_panic_def split: option.split intro!: no_panic_rules)
  have "no_panic (build_sub_proof U B req rp ns i x)" for i x
    using assms unfolding build_sub_proof_def build_credential_schema_def build_sub_proof_request_def revocation_of_def
    by (auto simp: ursa_no_panic_def split: prod.split option.split intro!: no_panic_rules r)
  then show "no_panic (add_sub_proofs U B req rp ns i ids added)"
    using assms by (induction ids arbitrary: i added) (auto simp: ursa_no_panic_def intro!: no_panic_rules)
  show "no_panic (build_non_credential_schema U)"
    using assms by (auto simp: build_non_credential_schema_def ursa_no_panic_def simp del: run_builder.simps intro!: no_panic_rules)
qed

lemma revealed_values_no_panic:
  "\<forall>(r, ri)\<in>set xs. map_of requested_attrs r \<noteq> None \<Longrightarrow> no_panic (revealed_values requested_attrs i xs m)"
  by (induction requested_attrs i xs m rule: revealed_values.induct) (auto intro!: no_panic_rules)

lemma restrictions_no_panic:
  assumes "received_revealed_attrs pf = Inr revealed" "received_predicates pf = Inr predicates"
    and "compare_attr_from_proof_and_request req revealed unrevealed (received_self_attested_attrs pf) predicates = Inr ()"
    and "hash_maps req (pf_requested_proof pf)" "std_ok U"
    and safe: "fst ` set (rp_revealed_attrs (pf_requested_proof pf)) \<inter> set (received_self_attested_attrs pf) = {} \<or>
      (\<forall>(p, i)\<in>set (pr_requested_predicates req). pi_restrictions i = None)"
  shows "no_panic (verify_requested_restrictions U req (pf_requested_proof pf) revealed unrevealed predicates
    (received_self_attested_attrs pf))"
proof -
  let ?rp = "pf_requested_proof pf"
  let ?sa = "received_self_attested_attrs pf"
  let ?ra = "us_order_attrs U (filter (\<lambda>(r, info). \<not> is_self_attested r info ?sa) (pr_requested_attributes req))"
  have d: "distinct (map fst (rp_predicates ?rp))" using assms(4) by (simp add: hash_maps_def)
  note lp = insert_indices [OF assms(2) [unfolded received_predicates_def] d]
  have attrs: "no_panic (verify_attr_restrictions U ?rp ids x)" for ids x
    by (auto simp: verify_attr_restrictions_def split: prod.split option.split intro!: no_panic_rules restriction_no_panic)
  have "no_panic (verify_predicate_restrictions U ?rp ?ra predicates (r, info))"
    if mem: "(r, info) \<in> set (pr_requested_predicates req)" for r info
  proof (cases "pi_restrictions info")
    case None
    then show ?thesis by (simp add: verify_predicate_restrictions_def)
  next
    case (Some q)
    then have disj: "fst ` set (rp_revealed_attrs ?rp) \<inter> set ?sa = {}" using safe mem by fastforce
    have "map_of ?ra x \<noteq> None" if x: "(x, xi) \<in> set (rp_revealed_attrs ?rp)" for x xi
    proof
      assume none: "map_of ?ra x = None"
      have "x \<in> fst ` set (rp_revealed_attrs ?rp)" using x by force
      then have k: "x \<in> fst ` set revealed" "x \<notin> set ?sa"
        using received_revealed_lookup(4) [OF assms(1,4)] disj by auto
      then have "x \<in> fst ` set (pr_requested_attributes req)" unfolding compare_attr_Inr(1) [OF assms(3)] by blast
      then obtain a where a: "(x, a) \<in> set (pr_requested_attributes req)" by auto
      have "\<not> is_self_attested x a ?sa" using k(2) by (auto split: option.split Query.split)
      with a have "x \<in> fst ` set ?ra" using assms(5) by (force simp: std_ok_def)
      with none show False by (simp add: map_of_eq_None_iff)
    qed
    then have found: "\<forall>(x, xi)\<in>set (rp_revealed_attrs ?rp). map_of ?ra x \<noteq> None" by blast
    have "r \<in> fst ` set (pr_requested_predicates req)" using mem by force
    then have "r \<in> fst ` set (rp_predicates ?rp)" unfolding compare_attr_Inr(2) [OF assms(3)] lp(3) .
    then obtain pr where "map_of (rp_predicates ?rp) r = Some pr" by (metis map_of_eq_None_iff not_None_eq)
    then show ?thesis
      using Some found
      by (auto simp: verify_predicate_restrictions_def intro!: no_panic_rules restriction_no_panic revealed_values_no_panic)
  qed
  then show ?thesis
    unfolding verify_requested_restrictions_def Let_def by (auto intro!: no_panic_rules attrs)
qed

text \<open>
  C25: The verifier panics on one kind of input only: a referent that the proof both reveals and lists as
  self-attested, together with a requested predicate that has restrictions. Every other request and proof, whatever
  the prover put in it, ends with a verdict or an error, if the cryptographic package does not panic itself.
\<close>

theorem verify_panic_cause:
  assumes "verify U pf req B = Inl Panic" "ursa_no_panic U" "std_ok U" "hash_maps req (pf_requested_proof pf)"
  shows "fst ` set (rp_revealed_attrs (pf_requested_proof pf)) \<inter> set (received_self_attested_attrs pf) \<noteq> {} \<and>
    (\<exists>p info. (p, info) \<in> set (pr_requested_predicates req) \<and> pi_restrictions info \<noteq> None)"
proof (rule ccontr)
  assume "\<not> ?thesis"
  then have safe: "fst ` set (rp_revealed_attrs (pf_requested_proof pf)) \<inter> set (received_self_attested_attrs pf) = {} \<or>
      (\<forall>(p, i)\<in>set (pr_requested_predicates req). pi_restrictions i = None)" by auto
  have "no_panic (verify U pf req B)"
    unfolding verify_def Let_def
    using assms(2) restrictions_no_panic [OF _ _ _ assms(4,3) safe]
    by (intro no_panic_bindr received_no_panic comparisons_no_panic revealed_no_panic sub_proofs_no_panic) (auto simp: ursa_no_panic_def)
  with assms(1) show False by (simp add: no_panic_def)
qed

end
