(* ===== verification/Prover_Answers.thy ===== *)
theory Prover_Answers
  imports Prover_Runs Verifier_Properties
begin

text \<open>
  The entries of a proof that the prover made, and the requests they answer: every requested referent has one entry,
  with the index of the part that was made from the credential chosen for it.
\<close>

section \<open>What was asked and what is in the proof\<close>

definition key_of :: "RequestedAttribute \<Rightarrow> ProvingCredentialKey" where
  "key_of ra = \<lparr>pk_cred_id = ra_cred_id ra, pk_timestamp = ra_timestamp ra\<rparr>"

definition info_of :: "string \<Rightarrow> AttributeInfo \<Rightarrow> RequestedAttribute \<Rightarrow> RequestedAttributeInfo" where
  "info_of r info ra = \<lparr>rqa_attr_referent = r, rqa_attr_info = info, rqa_revealed = ra_revealed ra\<rparr>"

definition predicate_of :: "string \<Rightarrow> PredicateInfo \<Rightarrow> RequestedPredicateInfo" where
  "predicate_of r info = \<lparr>rqp_predicate_referent = r, rqp_predicate_info = info\<rparr>"

lemma mset_set: "mset xs = mset ys \<Longrightarrow> set xs = set ys"
  by (metis set_mset_mset)

lemma provedD:
  assumes "proved U P node_1_3 H req rc ms pf ks parts ns"
  shows "mset (all_attrs ks) = mset (map (asked_attr (payload req)) (rc_requested_attributes rc))"
    "mset (all_preds ks) = mset (map (asked_predicate (payload req)) (rc_requested_predicates rc))"
    "\<forall>(r, ra)\<in>set (rc_requested_attributes rc). \<exists>info. map_of (pr_requested_attributes (payload req)) r = Some info"
    "\<forall>(r, k)\<in>set (rc_requested_predicates rc). \<exists>info. map_of (pr_requested_predicates (payload req)) r = Some info"
    "build_non_credential_schema U = Inr ns" "proved_parts U P H req ms ns ks [] parts"
    "pu_finalize P parts (pr_nonce (payload req)) = Inr (pf_proof pf)"
    "pf_identifiers pf = map (\<lambda>x. named_identifier node_1_3 H req (fst x)) ks"
    "rp_revealed_attrs (pf_requested_proof pf) = run_entries (revealed_entry U (payload req)) H 0 ks"
    "rp_revealed_attr_groups (pf_requested_proof pf) = run_entries (group_entry U (payload req)) H 0 ks"
    "rp_self_attested_attrs (pf_requested_proof pf) = rc_self_attested_attributes rc"
    "rp_unrevealed_attrs (pf_requested_proof pf) = run_entries (\<lambda>_. hidden_entry) H 0 ks"
    "rp_predicates (pf_requested_proof pf) = run_predicates 0 ks"
  using assms unfolding proved_def by simp_all

lemma jobs_asked:
  assumes "proved U P node_1_3 H req rc ms pf ks parts ns"
  shows "set (map snd (attr_jobs 0 ks)) = asked_attr (payload req) ` set (rc_requested_attributes rc)"
    "set (map snd (pred_jobs 0 ks)) = asked_predicate (payload req) ` set (rc_requested_predicates rc)"
  using mset_set [OF provedD(1) [OF assms]] mset_set [OF provedD(2) [OF assms]] unfolding jobs_all by simp_all

lemma asked_pairs:
  "map_of (pr_requested_attributes q) r = Some info \<Longrightarrow> asked_attr q (r, ra) = (key_of ra, info_of r info ra)"
  "map_of (pr_requested_predicates q) r = Some pinfo \<Longrightarrow> asked_predicate q (r, k) = (k, predicate_of r pinfo)"
  by (simp_all add: asked_attr_def key_of_def info_of_def asked_predicate_def predicate_of_def)

lemma attr_job_asked:
  assumes "proved U P node_1_3 H req rc ms pf ks parts ns" "(i, k, a) \<in> set (attr_jobs 0 ks)"
  shows "i < length ks \<and> (\<exists>r ra info. (r, ra) \<in> set (rc_requested_attributes rc) \<and>
    map_of (pr_requested_attributes (payload req)) r = Some info \<and> k = key_of ra \<and> a = info_of r info ra)"
proof -
  have "(k, a) \<in> asked_attr (payload req) ` set (rc_requested_attributes rc)" using assms(2) jobs_asked(1) [OF assms(1)] by force
  then obtain r ra where r: "(r, ra) \<in> set (rc_requested_attributes rc)" "(k, a) = asked_attr (payload req) (r, ra)" by auto
  from provedD(3) [OF assms(1)] r(1) obtain info where i: "map_of (pr_requested_attributes (payload req)) r = Some info" by blast
  have "i < length ks" using assms(2) by (auto simp: attr_jobs_mem)
  with r i asked_pairs(1) [OF i] show ?thesis by auto
qed

lemma pred_job_asked:
  assumes "proved U P node_1_3 H req rc ms pf ks parts ns" "(i, k, p) \<in> set (pred_jobs 0 ks)"
  shows "i < length ks \<and> (\<exists>r info. (r, k) \<in> set (rc_requested_predicates rc) \<and>
    map_of (pr_requested_predicates (payload req)) r = Some info \<and> p = predicate_of r info)"
proof -
  have "(k, p) \<in> asked_predicate (payload req) ` set (rc_requested_predicates rc)" using assms(2) jobs_asked(2) [OF assms(1)] by force
  then obtain r k' where r: "(r, k') \<in> set (rc_requested_predicates rc)" "(k, p) = asked_predicate (payload req) (r, k')" by auto
  from provedD(4) [OF assms(1)] r(1) obtain info where i: "map_of (pr_requested_predicates (payload req)) r = Some info" by blast
  have "i < length ks" using assms(2) by (auto simp: attr_jobs_mem)
  with r i asked_pairs(2) [OF i] show ?thesis by auto
qed

lemma asked_has_job:
  assumes "proved U P node_1_3 H req rc ms pf ks parts ns"
  shows "(r, ra) \<in> set (rc_requested_attributes rc) \<Longrightarrow>
      \<exists>i info. (i, key_of ra, info_of r info ra) \<in> set (attr_jobs 0 ks) \<and> map_of (pr_requested_attributes (payload req)) r = Some info"
    "(r, k) \<in> set (rc_requested_predicates rc) \<Longrightarrow>
      \<exists>i info. (i, k, predicate_of r info) \<in> set (pred_jobs 0 ks) \<and> map_of (pr_requested_predicates (payload req)) r = Some info"
proof -
  note all = jobs_asked [OF assms]
  show "\<exists>i info. (i, key_of ra, info_of r info ra) \<in> set (attr_jobs 0 ks) \<and> map_of (pr_requested_attributes (payload req)) r = Some info"
    if "(r, ra) \<in> set (rc_requested_attributes rc)"
  proof -
    from provedD(3) [OF assms] that obtain info where i: "map_of (pr_requested_attributes (payload req)) r = Some info" by blast
    have "asked_attr (payload req) (r, ra) \<in> set (map snd (attr_jobs 0 ks))" using that all(1) by blast
    with i asked_pairs(1) [OF i] show ?thesis by force
  qed
  show "\<exists>i info. (i, k, predicate_of r info) \<in> set (pred_jobs 0 ks) \<and> map_of (pr_requested_predicates (payload req)) r = Some info"
    if "(r, k) \<in> set (rc_requested_predicates rc)"
  proof -
    from provedD(4) [OF assms] that obtain info where i: "map_of (pr_requested_predicates (payload req)) r = Some info" by blast
    have "asked_predicate (payload req) (r, k) \<in> set (map snd (pred_jobs 0 ks))" using that all(2) by blast
    with i asked_pairs(2) [OF i] show ?thesis by force
  qed
qed

lemma job_referents:
  assumes "proved U P node_1_3 H req rc ms pf ks parts ns" "credential_maps rc"
  shows "distinct (map (\<lambda>(i, k, a). rqa_attr_referent a) (attr_jobs 0 ks))"
    "distinct (map (\<lambda>(i, k, p). rqp_predicate_referent p) (pred_jobs 0 ks))"
proof -
  note p = provedD [OF assms(1)]
  have "distinct (map (\<lambda>x. rqa_attr_referent (snd x)) (map snd (attr_jobs 0 ks)))"
      "distinct (map (\<lambda>x. rqp_predicate_referent (snd x)) (map snd (pred_jobs 0 ks)))"
    using asked_referents(1) [OF p(1)] asked_referents(2) [OF p(2)] assms(2) unfolding jobs_all credential_maps_def by simp_all
  then show "distinct (map (\<lambda>(i, k, a). rqa_attr_referent a) (attr_jobs 0 ks))"
    "distinct (map (\<lambda>(i, k, p). rqp_predicate_referent p) (pred_jobs 0 ks))"
    by (simp_all add: comp_def case_prod_unfold)
qed

text \<open>A request for a referent has one entry, and one only.\<close>

lemma job_unique:
  assumes "proved U P node_1_3 H req rc ms pf ks parts ns" "credential_maps rc"
    and "(i, k, a) \<in> set (attr_jobs 0 ks)" "(j, l, b) \<in> set (attr_jobs 0 ks)" "rqa_attr_referent a = rqa_attr_referent b"
  shows "i = j \<and> k = l \<and> a = b"
proof -
  have "inj_on (\<lambda>(i, k, a). rqa_attr_referent a) (set (attr_jobs 0 ks))"
    using job_referents(1) [OF assms(1,2)] by (simp add: distinct_map)
  from inj_onD [OF this _ assms(3,4)] assms(5) show ?thesis by simp
qed

lemma entry_job:
  assumes "\<And>vs i a e. f vs i a = Some e \<Longrightarrow> fst e = rqa_attr_referent a" "e \<in> set (run_entries f H 0 ks)"
  obtains i k a where "(i, k, a) \<in> set (attr_jobs 0 ks)" "f (values_of H k) i a = Some e" "fst e = rqa_attr_referent a"
  using assms unfolding run_entries_mem by blast

lemma distinct_entries:
  assumes "proved U P node_1_3 H req rc ms pf ks parts ns" "credential_maps rc"
    and "\<And>vs i a e. f vs i a = Some e \<Longrightarrow> fst e = rqa_attr_referent a"
  shows "distinct (map fst (run_entries f H 0 ks))"
  unfolding run_entries_def by (rule distinct_map_filter [OF job_referents(1) [OF assms(1,2)]]) (use assms(3) in fastforce)

lemma entries_apart:
  assumes "proved U P node_1_3 H req rc ms pf ks parts ns" "credential_maps rc"
    and "\<And>vs i a e. f vs i a = Some e \<Longrightarrow> fst e = rqa_attr_referent a" "\<And>vs i a e. g vs i a = Some e \<Longrightarrow> fst e = rqa_attr_referent a"
    and "\<And>vs i a d e. f vs i a = Some d \<Longrightarrow> g vs i a = Some e \<Longrightarrow> False"
  shows "fst ` set (run_entries f H 0 ks) \<inter> fst ` set (run_entries g H 0 ks) = {}"
proof (rule ccontr)
  assume "fst ` set (run_entries f H 0 ks) \<inter> fst ` set (run_entries g H 0 ks) \<noteq> {}"
  then obtain d e where de: "d \<in> set (run_entries f H 0 ks)" "e \<in> set (run_entries g H 0 ks)" "fst d = fst e" by auto
  obtain i k a where a: "(i, k, a) \<in> set (attr_jobs 0 ks)" "f (values_of H k) i a = Some d" "fst d = rqa_attr_referent a"
    by (rule entry_job [OF assms(3) de(1)])
  obtain j l b where b: "(j, l, b) \<in> set (attr_jobs 0 ks)" "g (values_of H l) j b = Some e" "fst e = rqa_attr_referent b"
    by (rule entry_job [OF assms(4) de(2)])
  have "i = j \<and> k = l \<and> a = b" by (rule job_unique [OF assms(1,2) a(1) b(1)]) (use a(3) b(3) de(3) in simp)
  with a(2) b(2) assms(5) show False by blast
qed

lemma entry_exclusive:
  "revealed_entry U req vs i a = Some d \<Longrightarrow> group_entry U req vs i a = Some e \<Longrightarrow> False"
  "revealed_entry U req vs i a = Some d \<Longrightarrow> hidden_entry i a = Some h \<Longrightarrow> False"
  "group_entry U req vs i a = Some e \<Longrightarrow> hidden_entry i a = Some h \<Longrightarrow> False"
  by (auto simp: revealed_entry_def group_entry_def hidden_entry_def bind_eq_Some_conv split: if_splits)

lemma proved_maps:
  assumes "proved U P node_1_3 H req rc ms pf ks parts ns" "credential_maps rc"
    and "distinct (map fst (pr_requested_attributes q))" "distinct (map fst (pr_requested_predicates q))"
  shows "hash_maps q (pf_requested_proof pf)" "unambiguous (pf_requested_proof pf)"
proof -
  note p = provedD [OF assms(1)] and de = distinct_entries [OF assms(1,2)] and ea = entries_apart [OF assms(1,2)]
  have d: "distinct (map fst (run_entries (revealed_entry U (payload req)) H 0 ks))"
      "distinct (map fst (run_entries (group_entry U (payload req)) H 0 ks))"
      "distinct (map fst (run_entries (\<lambda>_. hidden_entry) H 0 ks))"
    by (rule de, erule entry_referent)+
  have "distinct (map fst (run_predicates 0 ks))"
    using job_referents(2) [OF assms(1,2)] by (simp add: run_predicates_def comp_def case_prod_unfold)
  with d assms(3,4) show "hash_maps q (pf_requested_proof pf)" by (simp add: hash_maps_def p)
  have "fst ` set (run_entries (revealed_entry U (payload req)) H 0 ks) \<inter> fst ` set (run_entries (group_entry U (payload req)) H 0 ks) = {}"
    by (rule ea) (auto dest: entry_referent entry_exclusive)
  moreover have "fst ` set (run_entries (revealed_entry U (payload req)) H 0 ks) \<inter> fst ` set (run_entries (\<lambda>_. hidden_entry) H 0 ks) = {}"
    by (rule ea) (auto dest: entry_referent entry_exclusive)
  moreover have "fst ` set (run_entries (group_entry U (payload req)) H 0 ks) \<inter> fst ` set (run_entries (\<lambda>_. hidden_entry) H 0 ks) = {}"
    by (rule ea) (auto dest: entry_referent entry_exclusive)
  ultimately show "unambiguous (pf_requested_proof pf)" using d by (simp add: unambiguous_def p Int_Un_distrib)
qed

text \<open>A request as it is meant: an attribute has a name or names, and no name twice.\<close>

definition plain_request :: "'nonce ProofRequestPayload \<Rightarrow> bool" where
  "plain_request q \<longleftrightarrow> distinct (map fst (pr_requested_attributes q)) \<and> distinct (map fst (pr_requested_predicates q)) \<and>
    list_all (\<lambda>(r, info). (ai_name info = None) = (ai_names info \<noteq> None) \<and>
      (case ai_names info of Some names \<Rightarrow> distinct names | None \<Rightarrow> True)) (pr_requested_attributes q)"

lemma plain_info:
  assumes "plain_request q" "map_of (pr_requested_attributes q) r = Some info"
  obtains n where "ai_name info = Some n" "ai_names info = None"
  | names where "ai_name info = None" "ai_names info = Some names" "distinct names"
proof -
  have "(r, info) \<in> set (pr_requested_attributes q)" by (rule map_of_SomeD [OF assms(2)])
  with assms(1) have "(ai_name info = None) = (ai_names info \<noteq> None) \<and> (case ai_names info of Some names \<Rightarrow> distinct names | None \<Rightarrow> True)"
    by (auto simp: plain_request_def list_all_iff)
  then show thesis using that by (cases "ai_name info"; cases "ai_names info") auto
qed

lemma job_served:
  assumes "proved U P node_1_3 H req rc ms pf ks parts ns" "(i, k, a) \<in> set (attr_jobs 0 ks)"
  shows "attr_served U (payload req) (values_of H k) a"
  using provedD(6) [OF assms(1)] assms(2) unfolding proved_parts_def attr_jobs_mem by (fastforce split: prod.splits)

lemma entry_of_job:
  assumes "proved U P node_1_3 H req rc ms pf ks parts ns" "(i, k, info_of r info ra) \<in> set (attr_jobs 0 ks)"
    and "map_of (pr_requested_attributes (payload req)) r = Some info"
  shows "ra_revealed ra \<Longrightarrow> ai_name info = Some n \<Longrightarrow>
      \<exists>v. get_credential_values_for_attribute U (values_of H k) n = Some v \<and>
        (r, \<lparr>rai_index = i, rai_raw = cv_raw v, rai_encoded = cv_encoded v\<rparr>) \<in> set (rp_revealed_attrs (pf_requested_proof pf))"
    "ra_revealed ra \<Longrightarrow> ai_name info = None \<Longrightarrow> ai_names info = Some names \<Longrightarrow>
      \<exists>vm. group_values U (values_of H k) names [] = Inr vm \<and>
        (r, \<lparr>rag_index = i, rag_values = vm\<rparr>) \<in> set (rp_revealed_attr_groups (pf_requested_proof pf))"
    "\<not> ra_revealed ra \<Longrightarrow> (r, \<lparr>spr_index = i\<rparr>) \<in> set (rp_unrevealed_attrs (pf_requested_proof pf))"
proof -
  note p = provedD [OF assms(1)] and s = job_served [OF assms(1,2)]
  show "\<exists>v. get_credential_values_for_attribute U (values_of H k) n = Some v \<and>
        (r, \<lparr>rai_index = i, rai_raw = cv_raw v, rai_encoded = cv_encoded v\<rparr>) \<in> set (rp_revealed_attrs (pf_requested_proof pf))"
    if c: "ra_revealed ra" "ai_name info = Some n"
  proof -
    from s c assms(3) obtain v where v: "get_credential_values_for_attribute U (values_of H k) n = Some v"
      by (auto simp: attr_served_def info_of_def)
    then have "revealed_entry U (payload req) (values_of H k) i (info_of r info ra) =
        Some (r, \<lparr>rai_index = i, rai_raw = cv_raw v, rai_encoded = cv_encoded v\<rparr>)"
      using c assms(3) by (simp add: revealed_entry_def info_of_def)
    with assms(2) v show ?thesis unfolding p(9) run_entries_mem by blast
  qed
  show "\<exists>vm. group_values U (values_of H k) names [] = Inr vm \<and>
        (r, \<lparr>rag_index = i, rag_values = vm\<rparr>) \<in> set (rp_revealed_attr_groups (pf_requested_proof pf))"
    if c: "ra_revealed ra" "ai_name info = None" "ai_names info = Some names"
  proof -
    from s c assms(3) obtain vm where v: "group_values U (values_of H k) names [] = Inr vm"
      by (auto simp: attr_served_def info_of_def)
    then have "group_entry U (payload req) (values_of H k) i (info_of r info ra) = Some (r, \<lparr>rag_index = i, rag_values = vm\<rparr>)"
      using c assms(3) by (simp add: group_entry_def info_of_def)
    with assms(2) v show ?thesis unfolding p(10) run_entries_mem by blast
  qed
  show "(r, \<lparr>spr_index = i\<rparr>) \<in> set (rp_unrevealed_attrs (pf_requested_proof pf))" if "\<not> ra_revealed ra"
  proof -
    have "hidden_entry i (info_of r info ra) = Some (r, \<lparr>spr_index = i\<rparr>)" using that by (simp add: hidden_entry_def info_of_def)
    with assms(2) show ?thesis unfolding p(12) run_entries_mem by blast
  qed
qed

lemma revealed_entry_job:
  assumes "proved U P node_1_3 H req rc ms pf ks parts ns" "(r, e) \<in> set (rp_revealed_attrs (pf_requested_proof pf))"
  shows "\<exists>ra info n v. (r, ra) \<in> set (rc_requested_attributes rc) \<and> map_of (pr_requested_attributes (payload req)) r = Some info \<and>
    (rai_index e, key_of ra, info_of r info ra) \<in> set (attr_jobs 0 ks) \<and> ra_revealed ra \<and> ai_name info = Some n \<and>
    get_credential_values_for_attribute U (values_of H (key_of ra)) n = Some v \<and>
    rai_raw e = cv_raw v \<and> rai_encoded e = cv_encoded v"
proof -
  from assms(2) obtain i k a where a: "(i, k, a) \<in> set (attr_jobs 0 ks)" "revealed_entry U (payload req) (values_of H k) i a = Some (r, e)"
    unfolding provedD(9) [OF assms(1)] run_entries_mem by blast
  from attr_job_asked [OF assms(1) a(1)] obtain r' ra info where j: "(r', ra) \<in> set (rc_requested_attributes rc)"
      "map_of (pr_requested_attributes (payload req)) r' = Some info" "k = key_of ra" "a = info_of r' info ra" by blast
  from a(2) j(2) have "r' = r \<and> rai_index e = i \<and> ra_revealed ra \<and> (\<exists>n v. ai_name info = Some n \<and>
      get_credential_values_for_attribute U (values_of H k) n = Some v \<and> rai_raw e = cv_raw v \<and> rai_encoded e = cv_encoded v)"
    by (auto simp: revealed_entry_def j(4) info_of_def bind_eq_Some_conv split: if_splits)
  with a(1) j show ?thesis by blast
qed

lemma group_entry_job:
  assumes "proved U P node_1_3 H req rc ms pf ks parts ns" "(r, g) \<in> set (rp_revealed_attr_groups (pf_requested_proof pf))"
  shows "\<exists>ra info names. (r, ra) \<in> set (rc_requested_attributes rc) \<and> map_of (pr_requested_attributes (payload req)) r = Some info \<and>
    (rag_index g, key_of ra, info_of r info ra) \<in> set (attr_jobs 0 ks) \<and> ra_revealed ra \<and> ai_name info = None \<and>
    ai_names info = Some names \<and> group_values U (values_of H (key_of ra)) names [] = Inr (rag_values g)"
proof -
  from assms(2) obtain i k a where a: "(i, k, a) \<in> set (attr_jobs 0 ks)" "group_entry U (payload req) (values_of H k) i a = Some (r, g)"
    unfolding provedD(10) [OF assms(1)] run_entries_mem by blast
  from attr_job_asked [OF assms(1) a(1)] obtain r' ra info where j: "(r', ra) \<in> set (rc_requested_attributes rc)"
      "map_of (pr_requested_attributes (payload req)) r' = Some info" "k = key_of ra" "a = info_of r' info ra" by blast
  have ref: "rqa_attr_referent a = r'" "rqa_revealed a = ra_revealed ra" by (simp_all add: j(4) info_of_def)
  from a(2) obtain names where n: "ra_revealed ra" "ai_name info = None" "ai_names info = Some names"
      "(case group_values U (values_of H k) names [] of Inr vm \<Rightarrow> Some (rqa_attr_referent a, \<lparr>rag_index = i, rag_values = vm\<rparr>)
        | Inl _ \<Rightarrow> None) = Some (r, g)"
    unfolding group_entry_def ref(1) j(2) by (auto simp: bind_eq_Some_conv ref split: if_splits)
  have "r' = r" using entry_referent(2) [OF a(2)] ref by simp
  from n(4) have "rag_index g = i" "group_values U (values_of H k) names [] = Inr (rag_values g)"
    by (cases "group_values U (values_of H k) names []"; auto)+
  with n \<open>r' = r\<close> a(1) j show ?thesis by blast
qed

lemma hidden_entry_job:
  assumes "proved U P node_1_3 H req rc ms pf ks parts ns" "(r, h) \<in> set (rp_unrevealed_attrs (pf_requested_proof pf))"
  shows "\<exists>ra info. (r, ra) \<in> set (rc_requested_attributes rc) \<and> map_of (pr_requested_attributes (payload req)) r = Some info \<and>
    (spr_index h, key_of ra, info_of r info ra) \<in> set (attr_jobs 0 ks) \<and> \<not> ra_revealed ra"
proof -
  from assms(2) obtain i k a where a: "(i, k, a) \<in> set (attr_jobs 0 ks)" "hidden_entry i a = Some (r, h)"
    unfolding provedD(12) [OF assms(1)] run_entries_mem by blast
  from attr_job_asked [OF assms(1) a(1)] obtain r' ra info where j: "(r', ra) \<in> set (rc_requested_attributes rc)"
      "map_of (pr_requested_attributes (payload req)) r' = Some info" "k = key_of ra" "a = info_of r' info ra" by blast
  from a(2) have "r' = r" "spr_index h = i" "\<not> ra_revealed ra" by (auto simp: hidden_entry_def j(4) info_of_def split: if_splits)
  with a(1) j show ?thesis by blast
qed

lemma predicate_entry_job:
  assumes "proved U P node_1_3 H req rc ms pf ks parts ns" "(r, p) \<in> set (rp_predicates (pf_requested_proof pf))"
  shows "\<exists>k info. (r, k) \<in> set (rc_requested_predicates rc) \<and> map_of (pr_requested_predicates (payload req)) r = Some info \<and>
    (spr_index p, k, predicate_of r info) \<in> set (pred_jobs 0 ks)"
proof -
  from assms(2) obtain i k b where b: "(i, k, b) \<in> set (pred_jobs 0 ks)" "rqp_predicate_referent b = r" "p = \<lparr>spr_index = i\<rparr>"
    unfolding provedD(13) [OF assms(1)] run_predicates_def by auto
  from pred_job_asked [OF assms(1) b(1)] obtain r' info where j: "(r', k) \<in> set (rc_requested_predicates rc)"
      "map_of (pr_requested_predicates (payload req)) r' = Some info" "b = predicate_of r' info" by blast
  with b show ?thesis by (auto simp: predicate_of_def)
qed

lemmas job_of_entry = revealed_entry_job group_entry_job hidden_entry_job predicate_entry_job

lemmas job_asked = attr_job_asked pred_job_asked asked_has_job

end
