(* ===== verification/Prover_Complete.thy ===== *)
theory Prover_Complete
  imports Prover_Answers
begin

text \<open>
  The parts of a proof that the prover made, what \<^verbatim>\<open>ursa\<close> promises of them, and the first checks of the verifier:
  the referents and the revealed values.
\<close>

section \<open>What the cryptography promises an honest prover\<close>

text \<open>
  \<open>genuine sig vals key\<close> stands for: the signature is one of \<open>key\<close> on the values. \<open>fresh reg wit ak\<close> stands for: the
  witness shows that the credential is not revoked in the registry, for the accumulator key. A part of a proof
  answers a part of the verification if both were built from the same request, schemas and key.
\<close>

definition answers_to ::
  "('sig \<Rightarrow> 'mv value_call list \<Rightarrow> 'key \<Rightarrow> bool) \<Rightarrow> ('reg \<Rightarrow> 'wit \<Rightarrow> 'ak \<Rightarrow> bool) \<Rightarrow>
    ('mv, 'sig, 'key, 'reg, 'wit) proof_part \<Rightarrow> ('key, 'ak, 'reg) sub_proof \<Rightarrow> bool" where
  "answers_to genuine fresh part sp \<longleftrightarrow>
    set (pp_request part) = set (sp_request sp) \<and> pp_schema part = sp_schema sp \<and> pp_non_schema part = sp_non_schema sp \<and>
    pp_key part = sp_key sp \<and> genuine (pp_signature part) (pp_values part) (pp_key part) \<and>
    (case (pp_rev_reg part, pp_witness part, sp_registry sp, sp_accum_key sp) of
       (None, None, None, None) \<Rightarrow> True
     | (Some reg, Some wit, Some reg', Some ak) \<Rightarrow> reg = reg' \<and> fresh reg wit ak
     | _ \<Rightarrow> False)"

text \<open>The part of a finished proof reveals the names that were asked for, with the numbers they were given.\<close>

definition reveals_asked ::
  "('cp, 'nonce, 'bn, 'pk, 'rk, 'key, 'ak, 'reg) ursa \<Rightarrow> ('mv, 'sig, 'key, 'reg, 'wit) proof_part \<Rightarrow>
    (string \<times> string) list IndyResult \<Rightarrow> bool" where
  "reveals_asked U part p \<longleftrightarrow> (\<exists>attrs. p = Inr attrs \<and>
    set (map fst attrs) = {a. AddRevealedAttr a \<in> set (pp_request part)} \<and>
    (\<forall>(a, e)\<in>set attrs. \<forall>e'. {d. AddDecKnown a d \<in> set (pp_values part)} = {e'} \<longrightarrow>
      (\<exists>x. us_from_dec U e = Inr x \<and> us_from_dec U e' = Inr x)))"

text \<open>
  The builder of a request refuses only a predicate of an unknown type. A proof that could be finished is accepted in
  every verification that it answers.
\<close>

fun known_call :: "request_call \<Rightarrow> bool" where
  "known_call (AddRevealedAttr a) = True"
| "known_call (AddPredicate a t v) = (t \<in> set (map predicate_type_str [GE, GT, LE, LT]))"

definition ursa_complete ::
  "('cp, 'nonce, 'bn, 'pk, 'rk, 'key, 'ak, 'reg) ursa \<Rightarrow> ('ms, 'mv, 'sig, 'key, 'reg, 'wit, 'cp, 'nonce) prover_ursa \<Rightarrow>
    ('sig \<Rightarrow> 'mv value_call list \<Rightarrow> 'key \<Rightarrow> bool) \<Rightarrow> ('reg \<Rightarrow> 'wit \<Rightarrow> 'ak \<Rightarrow> bool) \<Rightarrow> bool" where
  "ursa_complete U P genuine fresh \<longleftrightarrow>
    (\<forall>calls. list_all known_call calls \<longrightarrow> us_request_call U calls = Inr () \<and> us_request_finalize U calls = Inr ()) \<and>
    us_verifier_call U [] = Inr () \<and>
    (\<forall>parts added. pu_add_sub_proof P parts = Inr () \<and> list_all2 (answers_to genuine fresh) parts added \<longrightarrow>
      us_verifier_call U added = Inr ()) \<and>
    (\<forall>parts nonce cp. pu_finalize P parts nonce = Inr cp \<longrightarrow>
      list_all2 (reveals_asked U) parts (us_sub_proofs U cp) \<and>
      (\<forall>added. list_all2 (answers_to genuine fresh) parts added \<longrightarrow> us_verify U added cp nonce = Inr True))"

section \<open>The parts\<close>

definition asked_names :: "AttributeInfo \<Rightarrow> string list" where
  "asked_names info = (case ai_name info of Some n \<Rightarrow> [n] | None \<Rightarrow> (case ai_names info of Some ns \<Rightarrow> ns | None \<Rightarrow> []))"

lemma add_requested_Inr:
  assumes "add_requested U b as = Inr b'"
  shows "set b' = set b \<union> {c. \<exists>a\<in>set as. rqa_revealed a \<and> c \<in> (\<lambda>n. AddRevealedAttr (attr_common_view U n)) ` set (asked_names (rqa_attr_info a))}"
  using assms
proof (induction U b as rule: add_requested.induct)
  case (2 U b a as)
  let ?cs = "map (\<lambda>n. AddRevealedAttr (attr_common_view U n)) (asked_names (rqa_attr_info a))"
  from "2.prems" obtain b1 where b1: "(if rqa_revealed a then run_builder (us_request_call U) b ?cs else Inr b) = Inr b1"
      "add_requested U b1 as = Inr b'"
    unfolding asked_names_def by (auto simp: bindr_Inr_iff)
  then have "set b1 = set b \<union> (if rqa_revealed a then set ?cs else {})" by (auto split: if_splits dest!: run_calls_Inr)
  with "2.IH" [OF b1(1) [unfolded asked_names_def] b1(2)] show ?case by auto
qed simp

lemma proof_part_facts:
  assumes "build_proof_part U P H ms ns k as ps = Inr (c, part)"
  shows "AddRevealedAttr x \<in> set (pp_request part) \<longleftrightarrow>
      (\<exists>a\<in>set as. rqa_revealed a \<and> x \<in> attr_common_view U ` set (asked_names (rqa_attr_info a)))"
    "AddPredicate x t v \<in> set (pp_request part) \<longleftrightarrow> AddPredicate x t v \<in> (\<lambda>p. predicate_call U (rqp_predicate_info p)) ` set ps"
    "AddDecKnown x e \<in> set (pp_values part) \<longleftrightarrow> (x, e) \<in> (\<lambda>(a, v). (attr_common_view U a, cv_encoded v)) ` set (cr_values c)"
proof -
  from assms obtain request vals where r: "build_prover_request U as ps = Inr request" "pp_request part = request"
      "build_credential_values U P (cr_values c) (Some ms) = Inr vals" "pp_values part = vals"
    by (auto simp: build_proof_part_def bindr_Inr_iff)
  from r(1) obtain b where b: "add_requested U [] as = Inr b" "request = b @ map (\<lambda>p. predicate_call U (rqp_predicate_info p)) ps"
    by (auto simp: build_prover_request_def bindr_Inr_iff dest!: run_calls_Inr)
  note s = add_requested_Inr [OF b(1)]
  have n: "AddRevealedAttr x \<notin> (\<lambda>p. predicate_call U (rqp_predicate_info p)) ` set ps" by (auto simp: predicate_call_def)
  show "AddRevealedAttr x \<in> set (pp_request part) \<longleftrightarrow>
      (\<exists>a\<in>set as. rqa_revealed a \<and> x \<in> attr_common_view U ` set (asked_names (rqa_attr_info a)))"
    using n unfolding r(2) b(2) set_append s by auto
  show "AddPredicate x t v \<in> set (pp_request part) \<longleftrightarrow> AddPredicate x t v \<in> (\<lambda>p. predicate_call U (rqp_predicate_info p)) ` set ps"
    unfolding r(2) b(2) set_append s by auto
  from r(3) obtain mv where "vals = map (\<lambda>(attr, v). AddDecKnown (attr_common_view U attr) (cv_encoded v)) (cr_values c) @ [AddValueHidden ''master_secret'' mv]"
    by (auto simp: build_credential_values_def bindr_Inr_iff dest!: run_calls_Inr split: if_splits)
  then show "AddDecKnown x e \<in> set (pp_values part) \<longleftrightarrow> (x, e) \<in> (\<lambda>(a, v). (attr_common_view U a, cv_encoded v)) ` set (cr_values c)"
    unfolding r(4) by force
qed

lemma proved_part:
  assumes "proved U P node_1_3 H req rc ms pf ks parts ns" "i < length ks" "ks ! i = (k, as, ps)"
  obtains c where "build_proof_part U P H ms ns k as ps = Inr (c, parts ! i)" "ho_credentials H (pk_cred_id k) = Some c"
    "pu_add_sub_proof P (take (Suc i) parts) = Inr ()" "values_of H k = cr_values c"
proof -
  have "case ks ! i of (k, as, ps) \<Rightarrow> pu_add_sub_proof P ([] @ take (Suc i) parts) = Inr () \<and>
      (\<exists>c. build_proof_part U P H ms ns k as ps = Inr (c, parts ! i) \<and> ho_credentials H (pk_cred_id k) = Some c \<and>
        (\<forall>a\<in>set as. attr_served U (payload req) (values_of H k) a))"
    by (rule conjunct2 [OF provedD(6) [OF assms(1), unfolded proved_parts_def], THEN spec, THEN mp, OF assms(2)])
  then obtain c where "build_proof_part U P H ms ns k as ps = Inr (c, parts ! i)" "ho_credentials H (pk_cred_id k) = Some c"
    "pu_add_sub_proof P (take (Suc i) parts) = Inr ()" by (auto simp: assms(3))
  then show thesis using that by (simp add: values_of_def)
qed

text \<open>The names of a credential differ in their common view.\<close>

definition views_differ :: "('cp, 'nonce, 'bn, 'pk, 'rk, 'key, 'ak, 'reg) ursa \<Rightarrow> (string \<times> AttributeValues) list \<Rightarrow> bool" where
  "views_differ U vs \<longleftrightarrow> distinct (map (\<lambda>p. attr_common_view U (fst p)) vs)"

lemma found_values:
  assumes "get_credential_values_for_attribute U vs n = Some v" "views_differ U vs"
  shows "{d. (attr_common_view U n, d) \<in> (\<lambda>(a, v). (attr_common_view U a, cv_encoded v)) ` set vs} = {cv_encoded v}"
proof -
  from assms(1) obtain a where a: "(a, v) \<in> set vs" "attr_common_view U a = attr_common_view U n"
    by (fastforce simp: get_credential_values_for_attribute_def find_Some_iff in_set_conv_nth)
  have unique: "p = (a, v)" if "p \<in> set vs" "attr_common_view U (fst p) = attr_common_view U n" for p
  proof -
    have inj: "inj_on (\<lambda>p. attr_common_view U (fst p)) (set vs)" using assms(2) by (simp add: views_differ_def distinct_map)
    show ?thesis by (rule inj_onD [OF inj _ that(1) a(1)]) (simp add: that(2) a(2))
  qed
  show ?thesis
  proof (intro equalityI subsetI)
    fix d assume "d \<in> {d. (attr_common_view U n, d) \<in> (\<lambda>(a, v). (attr_common_view U a, cv_encoded v)) ` set vs}"
    then obtain p where p: "p \<in> set vs" "attr_common_view U (fst p) = attr_common_view U n" "d = cv_encoded (snd p)" by auto
    with unique [OF p(1,2)] show "d \<in> {cv_encoded v}" by simp
  next
    fix d assume "d \<in> {cv_encoded v}"
    with a show "d \<in> {d. (attr_common_view U n, d) \<in> (\<lambda>(a, v). (attr_common_view U a, cv_encoded v)) ` set vs}"
      by (auto simp: image_iff intro!: bexI [OF _ a(1)])
  qed
qed

lemma revealed_value_ok:
  assumes "reveals_asked U part (us_sub_proofs U (pf_proof pf) ! i)" "i < length (us_sub_proofs U (pf_proof pf))"
    and "AddRevealedAttr (attr_common_view U n) \<in> set (pp_request part)"
    and "\<And>x. AddRevealedAttr x \<in> set (pp_request part) \<Longrightarrow> attr_common_view U x = x"
    and "{d. AddDecKnown (attr_common_view U n) d \<in> set (pp_values part)} = {rai_encoded info}" "rai_index info = i"
  shows "verify_revealed_attribute_value U n pf info = Inr ()"
proof -
  from assms(1) obtain attrs where a: "us_sub_proofs U (pf_proof pf) ! i = Inr attrs"
      "set (map fst attrs) = {a. AddRevealedAttr a \<in> set (pp_request part)}"
      "\<forall>(a, e)\<in>set attrs. \<forall>e'. {d. AddDecKnown a d \<in> set (pp_values part)} = {e'} \<longrightarrow>
        (\<exists>x. us_from_dec U e = Inr x \<and> us_from_dec U e' = Inr x)"
    by (auto simp: reveals_asked_def)
  let ?f = "List.find (\<lambda>(key, _). attr_common_view U n = attr_common_view U key) attrs"
  have idem: "attr_common_view U (attr_common_view U n) = attr_common_view U n" by (rule assms(4) [OF assms(3)])
  have "attr_common_view U n \<in> set (map fst attrs)" unfolding a(2) using assms(3) by simp
  then obtain e0 where "(attr_common_view U n, e0) \<in> set attrs" by auto
  then have "?f \<noteq> None" using idem by (auto simp: find_None_iff)
  then obtain k e where f: "?f = Some (k, e)" by auto
  then have k: "(k, e) \<in> set attrs" "attr_common_view U n = attr_common_view U k" by (auto simp: find_Some_iff in_set_conv_nth)
  then have "AddRevealedAttr k \<in> set (pp_request part)" using a(2) by force
  then have "k = attr_common_view U n" using assms(4) k(2) by simp
  with a(3) k(1) assms(5) obtain x where "us_from_dec U e = Inr x" "us_from_dec U (rai_encoded info) = Inr x" by blast
  with f assms(2,6) a(1) show ?thesis by (simp add: verify_revealed_attribute_value_def Let_def)
qed

definition attribute_value :: "AttributeValues \<Rightarrow> AttributeValue" where
  "attribute_value v = \<lparr>av_raw = cv_raw v, av_encoded = cv_encoded v\<rparr>"

lemma group_values_Inr:
  assumes "group_values U vs names m = Inr vm" "distinct names" "set names \<inter> fst ` set m = {}"
  shows "vm = m @ map (\<lambda>n. (n, attribute_value (the (get_credential_values_for_attribute U vs n)))) names \<and>
    (\<forall>n\<in>set names. \<exists>v. get_credential_values_for_attribute U vs n = Some v)"
  using assms
proof (induction names arbitrary: m)
  case (Cons n names)
  then obtain v where v: "get_credential_values_for_attribute U vs n = Some v"
      "group_values U vs names (AList.update n (attribute_value v) m) = Inr vm"
    by (auto simp: bindr_Inr_iff attribute_value_def)
  have "AList.update n (attribute_value v) m = m @ [(n, attribute_value v)]"
    using Cons.prems(3) by (intro update_no_entry) (auto simp: map_of_eq_None_iff)
  with Cons.IH [of "m @ [(n, attribute_value v)]"] Cons.prems v show ?case by auto
qed simp

lemma group_lookup:
  assumes "group_values U vs names [] = Inr vm" "distinct names"
  shows "length vm = length names" "n \<in> set names \<Longrightarrow> \<exists>v. get_credential_values_for_attribute U vs n = Some v \<and>
    map_of vm n = Some (attribute_value v)"
proof -
  note g = group_values_Inr [OF assms(1,2)]
  show "length vm = length names" using g by simp
  show "\<exists>v. get_credential_values_for_attribute U vs n = Some v \<and> map_of vm n = Some (attribute_value v)" if "n \<in> set names"
  proof -
    from that g obtain v where v: "get_credential_values_for_attribute U vs n = Some v" by auto
    have "map_of (map (\<lambda>n. (n, h n)) names) n = Some (h n)" for h :: "_ \<Rightarrow> AttributeValue"
      using that by (simp add: map_of_map_restrict)
    with g v show ?thesis by simp
  qed
qed

section \<open>The checks of the verifier\<close>

definition credentials_clear ::
  "('cp, 'nonce, 'bn, 'pk, 'rk, 'key, 'ak, 'reg) ursa \<Rightarrow> ('pk, 'rk, 'sig, 'scp, 'reg, 'wit) holder \<Rightarrow> bool" where
  "credentials_clear U H \<longleftrightarrow> (\<forall>cred_id c. ho_credentials H cred_id = Some c \<longrightarrow> views_differ U (cr_values c))"

lemma parts_reveal:
  assumes "proved U P node_1_3 H req rc ms pf ks parts ns" "ursa_complete U P genuine fresh" "i < length ks"
  shows "i < length (us_sub_proofs U (pf_proof pf))" "reveals_asked U (parts ! i) (us_sub_proofs U (pf_proof pf) ! i)"
proof -
  have len: "length parts = length ks" using provedD(6) [OF assms(1)] by (simp add: proved_parts_def)
  have "list_all2 (reveals_asked U) parts (us_sub_proofs U (pf_proof pf))"
    using assms(2) provedD(7) [OF assms(1)] unfolding ursa_complete_def by blast
  then show "i < length (us_sub_proofs U (pf_proof pf))" "reveals_asked U (parts ! i) (us_sub_proofs U (pf_proof pf) ! i)"
    using assms(3) len by (auto simp: list_all2_conv_all_nth)
qed

lemma job_revealed:
  assumes "proved U P node_1_3 H req rc ms pf ks parts ns" "ursa_complete U P genuine fresh" "std_ok U" "credentials_clear U H"
    and "(i, k, info_of r info ra) \<in> set (attr_jobs 0 ks)" "ra_revealed ra" "n \<in> set (asked_names info)"
    and "get_credential_values_for_attribute U (values_of H k) n = Some v" "rai_index e = i" "rai_encoded e = cv_encoded v"
  shows "verify_revealed_attribute_value U n pf e = Inr ()"
proof -
  from assms(5) obtain as ps where i: "i < length ks" "ks ! i = (k, as, ps)" "info_of r info ra \<in> set as"
    by (auto simp: attr_jobs_mem)
  obtain c where c: "build_proof_part U P H ms ns k as ps = Inr (c, parts ! i)" "ho_credentials H (pk_cred_id k) = Some c"
      "pu_add_sub_proof P (take (Suc i) parts) = Inr ()" "values_of H k = cr_values c"
    by (rule proved_part [OF assms(1) i(1,2)])
  note f = proof_part_facts [OF c(1)]
  have "AddRevealedAttr (attr_common_view U n) \<in> set (pp_request (parts ! i))"
    unfolding f(1) using i(3) assms(6,7) by (intro bexI [of _ "info_of r info ra"]) (auto simp: info_of_def)
  moreover have "attr_common_view U x = x" if "AddRevealedAttr x \<in> set (pp_request (parts ! i))" for x
    using that assms(3) unfolding f(1) std_ok_def by auto
  moreover have "{d. AddDecKnown (attr_common_view U n) d \<in> set (pp_values (parts ! i))} = {rai_encoded e}"
    using found_values [OF assms(8)] assms(4,10) c(2,4) unfolding f(3) credentials_clear_def by auto
  ultimately show ?thesis
    using revealed_value_ok [OF parts_reveal(2,1) [OF assms(1,2) i(1)]] assms(9) by blast
qed

lemma values_verified:
  assumes "proved U P node_1_3 H req rc ms pf ks parts ns" "ursa_complete U P genuine fresh" "std_ok U" "credentials_clear U H"
    and "plain_request (payload req)"
  shows "verify_revealed_attribute_values U (payload req) pf = Inr ()"
proof -
  let ?rp = "pf_requested_proof pf" and ?q = "payload req"
  note jr = job_revealed [OF assms(1-4)]
  have a: "is_ok (bindr (ok_or (map_of (pr_requested_attributes ?q) r) (Error ProofRejected)) (\<lambda>requested.
      bindr (ok_or (ai_name requested) (Error ProofRejected)) (\<lambda>n. verify_revealed_attribute_value U n pf e)))"
    if re: "(r, e) \<in> set (rp_revealed_attrs ?rp)" for r e
  proof -
    from job_of_entry(1) [OF assms(1) re] obtain ra info n v where j: "map_of (pr_requested_attributes ?q) r = Some info"
        "(rai_index e, key_of ra, info_of r info ra) \<in> set (attr_jobs 0 ks)" "ra_revealed ra" "ai_name info = Some n"
        "get_credential_values_for_attribute U (values_of H (key_of ra)) n = Some v" "rai_encoded e = cv_encoded v" by blast
    have "verify_revealed_attribute_value U n pf e = Inr ()"
      by (rule jr [OF j(2,3) _ j(5) refl j(6)]) (simp add: asked_names_def j(4))
    with j(1,4) show ?thesis by simp
  qed
  have g: "is_ok (verify_revealed_group U ?q pf (r, gi))" if rg: "(r, gi) \<in> set (rp_revealed_attr_groups ?rp)" for r gi
  proof -
    from job_of_entry(2) [OF assms(1) rg] obtain ra info names where j: "map_of (pr_requested_attributes ?q) r = Some info"
        "(rag_index gi, key_of ra, info_of r info ra) \<in> set (attr_jobs 0 ks)" "ra_revealed ra" "ai_name info = None"
        "ai_names info = Some names" "group_values U (values_of H (key_of ra)) names [] = Inr (rag_values gi)" by blast
    have "distinct names" using plain_info [OF assms(5) j(1)] j(4,5) by auto
    note l = group_lookup [OF j(6) this]
    have "is_ok (bindr (ok_or (map_of (rag_values gi) n) (Error InvalidStructure)) (\<lambda>v. verify_revealed_attribute_value U n pf
          \<lparr>rai_index = rag_index gi, rai_raw = av_raw v, rai_encoded = av_encoded v\<rparr>))" if n: "n \<in> set names" for n
    proof -
      from l(2) [OF n] obtain v where v: "get_credential_values_for_attribute U (values_of H (key_of ra)) n = Some v"
          "map_of (rag_values gi) n = Some (attribute_value v)" by blast
      have "verify_revealed_attribute_value U n pf \<lparr>rai_index = rag_index gi, rai_raw = cv_raw v, rai_encoded = cv_encoded v\<rparr> = Inr ()"
        by (rule jr [OF j(2,3) _ v(1)]) (simp_all add: asked_names_def j(4,5) n)
      with v(2) show ?thesis by (simp add: attribute_value_def)
    qed
    then show ?thesis using j(1,5) l(1)
      by (auto simp: verify_revealed_group_def is_ok_bindr is_ok_traverse simp flip: is_ok_iff)
  qed
  have "is_ok (verify_revealed_attribute_values U ?q pf)"
    unfolding verify_revealed_attribute_values_def
    using a g by (auto simp: is_ok_bindr is_ok_traverse simp flip: is_ok_iff)
  then show ?thesis by (simp add: is_ok_iff)
qed

text \<open>The chosen credentials and the attributes the prover answers for itself are what the request asks for.\<close>

definition covers :: "RequestedCredentials \<Rightarrow> 'nonce ProofRequestPayload \<Rightarrow> bool" where
  "covers rc q \<longleftrightarrow>
    set (map fst (pr_requested_attributes q)) = set (map fst (rc_requested_attributes rc)) \<union> set (map fst (rc_self_attested_attributes rc)) \<and>
    set (map fst (rc_requested_attributes rc)) \<inter> set (map fst (rc_self_attested_attributes rc)) = {} \<and>
    set (map fst (pr_requested_predicates q)) = set (map fst (rc_requested_predicates rc)) \<and>
    list_all (\<lambda>(r, info). r \<in> set (map fst (rc_self_attested_attributes rc)) \<longrightarrow>
      is_self_attested r info (map fst (rc_self_attested_attributes rc))) (pr_requested_attributes q)"

lemma insert_identifiers_total:
  "(\<And>r i. (r, i) \<in> set rs \<Longrightarrow> i < length (pf_identifiers pf)) \<Longrightarrow> \<exists>m'. insert_identifiers pf rs m = Inr m'"
proof (induction rs arbitrary: m)
  case (Cons x rs)
  obtain r i where x: "x = (r, i)" by (cases x)
  have "i < length (pf_identifiers pf)" using Cons.prems [of r i] by (simp add: x)
  moreover have "\<exists>m'. insert_identifiers pf rs (AList.update r (pf_identifiers pf ! i) m) = Inr m'"
    by (rule Cons.IH) (use Cons.prems in auto)
  ultimately show ?case by (simp add: x get_proof_identifier_def)
qed simp

lemma entry_indices:
  assumes "proved U P node_1_3 H req rc ms pf ks parts ns"
  shows "length (pf_identifiers pf) = length ks"
    "(r, e) \<in> set (rp_revealed_attrs (pf_requested_proof pf)) \<Longrightarrow> rai_index e < length ks"
    "(r, g) \<in> set (rp_revealed_attr_groups (pf_requested_proof pf)) \<Longrightarrow> rag_index g < length ks"
    "(r, h) \<in> set (rp_unrevealed_attrs (pf_requested_proof pf)) \<Longrightarrow> spr_index h < length ks"
    "(r, p) \<in> set (rp_predicates (pf_requested_proof pf)) \<Longrightarrow> spr_index p < length ks"
proof -
  note j = job_of_entry [OF assms] and a = job_asked [OF assms]
  show "length (pf_identifiers pf) = length ks" by (simp add: provedD(8) [OF assms])
  show "(r, e) \<in> set (rp_revealed_attrs (pf_requested_proof pf)) \<Longrightarrow> rai_index e < length ks" using j(1) a(1) by blast
  show "(r, g) \<in> set (rp_revealed_attr_groups (pf_requested_proof pf)) \<Longrightarrow> rag_index g < length ks" using j(2) a(1) by blast
  show "(r, h) \<in> set (rp_unrevealed_attrs (pf_requested_proof pf)) \<Longrightarrow> spr_index h < length ks" using j(3) a(1) by blast
  show "(r, p) \<in> set (rp_predicates (pf_requested_proof pf)) \<Longrightarrow> spr_index p < length ks" using j(4) a(2) by blast
qed

lemma received_total:
  assumes "proved U P node_1_3 H req rc ms pf ks parts ns"
  obtains revealed unrevealed predicates where "received_revealed_attrs pf = Inr revealed"
    "received_unrevealed_attrs pf = Inr unrevealed" "received_predicates pf = Inr predicates"
proof -
  note i = entry_indices [OF assms]
  let ?a = "map (\<lambda>(r, i). (r, rai_index i)) (rp_revealed_attrs (pf_requested_proof pf))"
  let ?g = "map (\<lambda>(r, i). (r, rag_index i)) (rp_revealed_attr_groups (pf_requested_proof pf))"
  have "\<exists>m. insert_identifiers pf ?a [] = Inr m" by (rule insert_identifiers_total) (auto simp: i(1) dest: i(2))
  then obtain m where m: "insert_identifiers pf ?a [] = Inr m" by blast
  have "\<exists>m'. insert_identifiers pf ?g m = Inr m'" by (rule insert_identifiers_total) (auto simp: i(1) dest: i(3))
  with m have "\<exists>revealed. received_revealed_attrs pf = Inr revealed" by (simp add: received_revealed_attrs_def)
  moreover have "\<exists>unrevealed. received_unrevealed_attrs pf = Inr unrevealed"
    unfolding received_unrevealed_attrs_def by (rule insert_identifiers_total) (auto simp: i(1) dest: i(4))
  moreover have "\<exists>predicates. received_predicates pf = Inr predicates"
    unfolding received_predicates_def by (rule insert_identifiers_total) (auto simp: i(1) dest: i(5))
  ultimately show thesis using that by blast
qed

text \<open>Where the verifier looks up the credential of a referent, it finds the one the prover chose.\<close>

lemma answered_exactly:
  assumes "proved U P node_1_3 H req rc ms pf ks parts ns" "plain_request (payload req)"
  shows "fst ` set (rp_revealed_attrs (pf_requested_proof pf)) \<union> fst ` set (rp_revealed_attr_groups (pf_requested_proof pf)) \<union>
      fst ` set (rp_unrevealed_attrs (pf_requested_proof pf)) = fst ` set (rc_requested_attributes rc)"
    "fst ` set (rp_predicates (pf_requested_proof pf)) = fst ` set (rc_requested_predicates rc)"
proof -
  let ?rp = "pf_requested_proof pf"
  note j = job_of_entry [OF assms(1)] and a = job_asked [OF assms(1)]
  let ?all = "fst ` set (rp_revealed_attrs ?rp) \<union> fst ` set (rp_revealed_attr_groups ?rp) \<union> fst ` set (rp_unrevealed_attrs ?rp)"
  have sup: "r \<in> ?all"
    if ra: "(r, ra) \<in> set (rc_requested_attributes rc)" for r ra
  proof -
    from a(3) [OF ra] obtain i info where i: "(i, key_of ra, info_of r info ra) \<in> set (attr_jobs 0 ks)"
        "map_of (pr_requested_attributes (payload req)) r = Some info" by blast
    note e = entry_of_job [OF assms(1) i]
    show ?thesis
    proof (cases "ra_revealed ra")
      case True
      then show ?thesis by (cases rule: plain_info [OF assms(2) i(2)]; use e(1,2) in force)
    next
      case False
      with e(3) show ?thesis by force
    qed
  qed
  have sub: "r \<in> fst ` set (rc_requested_attributes rc)" if "r \<in> ?all" for r
  proof -
    from that consider e where "(r, e) \<in> set (rp_revealed_attrs ?rp)" | e where "(r, e) \<in> set (rp_revealed_attr_groups ?rp)"
      | e where "(r, e) \<in> set (rp_unrevealed_attrs ?rp)" by auto
    then have "\<exists>ra. (r, ra) \<in> set (rc_requested_attributes rc)" by cases (use j(1-3) in blast)+
    then show ?thesis by force
  qed
  show "?all = fst ` set (rc_requested_attributes rc)"
    by (rule equalityI; rule subsetI) (erule sub, elim imageE, metis prod.collapse sup)
  show "fst ` set (rp_predicates ?rp) = fst ` set (rc_requested_predicates rc)"
  proof (rule equalityI; rule subsetI)
    fix r assume "r \<in> fst ` set (rp_predicates ?rp)"
    then obtain p where "(r, p) \<in> set (rp_predicates ?rp)" by auto
    from j(4) [OF this] obtain k where "(r, k) \<in> set (rc_requested_predicates rc)" by blast
    then show "r \<in> fst ` set (rc_requested_predicates rc)" by force
  next
    fix r assume "r \<in> fst ` set (rc_requested_predicates rc)"
    then obtain k where "(r, k) \<in> set (rc_requested_predicates rc)" by auto
    from a(4) [OF this] show "r \<in> fst ` set (rp_predicates ?rp)"
      unfolding provedD(13) [OF assms(1)] run_predicates_def by (force simp: predicate_of_def)
  qed
qed

lemma attrs_compared:
  assumes "proved U P node_1_3 H req rc ms pf ks parts ns" "credential_maps rc" "plain_request (payload req)" "covers rc (payload req)"
    and "received_revealed_attrs pf = Inr revealed" "received_unrevealed_attrs pf = Inr unrevealed" "received_predicates pf = Inr predicates"
  shows "compare_attr_from_proof_and_request (payload req) revealed unrevealed (received_self_attested_attrs pf) predicates = Inr ()"
proof -
  have h: "hash_maps (payload req) (pf_requested_proof pf)"
    using assms(3) by (intro proved_maps(1) [OF assms(1,2)]) (simp_all add: plain_request_def)
  then have d: "distinct (map fst (rp_unrevealed_attrs (pf_requested_proof pf)))" "distinct (map fst (rp_predicates (pf_requested_proof pf)))"
    by (simp_all add: hash_maps_def)
  have "fst ` set revealed \<union> fst ` set unrevealed = fst ` set (rc_requested_attributes rc)"
    using answered_exactly(1) [OF assms(1,3)] received_revealed_lookup(4) [OF assms(5) h]
      insert_indices(3) [OF assms(6) [unfolded received_unrevealed_attrs_def] d(1)] by simp
  moreover have "fst ` set predicates = fst ` set (rc_requested_predicates rc)"
    using answered_exactly(2) [OF assms(1,3)] insert_indices(3) [OF assms(7) [unfolded received_predicates_def] d(2)] by simp
  ultimately show ?thesis
    using assms(4) provedD(11) [OF assms(1)]
    by (simp add: compare_attr_from_proof_and_request_def covers_def received_self_attested_attrs_def image_Un)
qed

end
