(* ===== verification/Verifier_Blind.thy ===== *)
theory Verifier_Blind
  imports Verifier_Properties
begin

text \<open>
  What the verdict of the verifier does not depend on: the bounds of a non-revocation interval, of which only the
  presence is read, and the raw values of revealed attributes, of which only the encoded ones are bound by the proof.
\<close>

section \<open>Changed intervals and raw values\<close>

definition attr_interval :: "(NonRevocedInterval \<Rightarrow> NonRevocedInterval) \<Rightarrow> AttributeInfo \<Rightarrow> AttributeInfo" where
  "attr_interval f a = a\<lparr>ai_non_revoked := map_option f (ai_non_revoked a)\<rparr>"

definition pred_interval :: "(NonRevocedInterval \<Rightarrow> NonRevocedInterval) \<Rightarrow> PredicateInfo \<Rightarrow> PredicateInfo" where
  "pred_interval f p = p\<lparr>pi_non_revoked := map_option f (pi_non_revoked p)\<rparr>"

definition with_intervals ::
  "(NonRevocedInterval \<Rightarrow> NonRevocedInterval) \<Rightarrow> 'nonce ProofRequestPayload \<Rightarrow> 'nonce ProofRequestPayload" where
  "with_intervals f req = req\<lparr>
    pr_requested_attributes := map (\<lambda>(r, a). (r, attr_interval f a)) (pr_requested_attributes req),
    pr_requested_predicates := map (\<lambda>(r, p). (r, pred_interval f p)) (pr_requested_predicates req),
    pr_non_revoked := map_option f (pr_non_revoked req)\<rparr>"

definition keeps_presence :: "(NonRevocedInterval \<Rightarrow> NonRevocedInterval) \<Rightarrow> bool" where
  "keeps_presence f \<longleftrightarrow> (\<forall>i. (nri_to (f i) \<noteq> None \<or> nri_from (f i) \<noteq> None) = (nri_to i \<noteq> None \<or> nri_from i \<noteq> None))"

definition raw_attr :: "(string \<Rightarrow> string \<Rightarrow> string) \<Rightarrow> string \<times> RevealedAttributeInfo \<Rightarrow> string \<times> RevealedAttributeInfo" where
  "raw_attr g = (\<lambda>(r, i). (r, i\<lparr>rai_raw := g r []\<rparr>))"

definition raw_group :: "(string \<Rightarrow> string \<Rightarrow> string) \<Rightarrow> string \<times> RevealedAttributeGroupInfo \<Rightarrow> string \<times> RevealedAttributeGroupInfo" where
  "raw_group g = (\<lambda>(r, i). (r, i\<lparr>rag_values := map (\<lambda>(n, v). (n, v\<lparr>av_raw := g r n\<rparr>)) (rag_values i)\<rparr>))"

definition with_raw :: "(string \<Rightarrow> string \<Rightarrow> string) \<Rightarrow> 'cp FullProof \<Rightarrow> 'cp FullProof" where
  "with_raw g pf = pf\<lparr>pf_requested_proof := (pf_requested_proof pf)\<lparr>
    rp_revealed_attrs := map (raw_attr g) (rp_revealed_attrs (pf_requested_proof pf)),
    rp_revealed_attr_groups := map (raw_group g) (rp_revealed_attr_groups (pf_requested_proof pf))\<rparr>\<rparr>"

fun query_tags :: "Query \<Rightarrow> string list" where
  "query_tags (QAnd qs) = concat (map query_tags qs)"
| "query_tags (QOr qs) = concat (map query_tags qs)"
| "query_tags (QNot q) = query_tags q"
| "query_tags (QIn n vs) = [n]"
| "query_tags (QEq n v) = [n]"
| "query_tags (QNeq n v) = [n]"
| "query_tags (QGt n v) = [n]"
| "query_tags (QGte n v) = [n]"
| "query_tags (QLt n v) = [n]"
| "query_tags (QLte n v) = [n]"
| "query_tags (QLike n v) = [n]"

text \<open>No restriction of the request looks at the value of an attribute.\<close>

definition no_value_tags :: "Query option \<Rightarrow> bool" where
  "no_value_tags restrictions =
    (case restrictions of Some q \<Rightarrow> list_all (\<lambda>t. attr_request_by_value t = None) (query_tags q) | None \<Rightarrow> True)"

definition values_unrestricted :: "'nonce ProofRequestPayload \<Rightarrow> bool" where
  "values_unrestricted req \<longleftrightarrow>
    (\<forall>(r, a)\<in>set (pr_requested_attributes req). no_value_tags (ai_restrictions a)) \<and>
    (\<forall>(r, p)\<in>set (pr_requested_predicates req). no_value_tags (pi_restrictions p))"

section \<open>Each check in turn\<close>

lemma admits_values:
  "list_all (\<lambda>t. attr_request_by_value t = None) (query_tags q) \<Longrightarrow> admits U m f q = admits U m' f q"
proof (induction q rule: query_tags.induct)
  case (1 qs)
  then show ?case by (fastforce simp: list_all_iff)
next
  case (2 qs)
  then show ?case by (fastforce simp: list_all_iff)
qed (auto simp: tag_holds_def)

lemma traverse_map: "traverse f (map g xs) = traverse (\<lambda>x. f (g x)) xs"
  by (induction xs) simp_all

lemma traverse_unit: "bindr (traverse f xs) (\<lambda>_. Inr ()) = Inr () \<longleftrightarrow> (\<forall>x\<in>set xs. is_ok (f x))"
  using is_ok_traverse [of f xs] by (cases "traverse f xs") auto

lemma is_ok_unit: "is_ok (r :: unit IndyResult) \<longleftrightarrow> r = Inr ()"
  by (cases r) simp_all

lemma with_raw_fields [simp]:
  "pf_proof (with_raw g pf) = pf_proof pf" "pf_identifiers (with_raw g pf) = pf_identifiers pf"
  "received_self_attested_attrs (with_raw g pf) = received_self_attested_attrs pf"
  "rp_predicates (pf_requested_proof (with_raw g pf)) = rp_predicates (pf_requested_proof pf)"
  "rp_unrevealed_attrs (pf_requested_proof (with_raw g pf)) = rp_unrevealed_attrs (pf_requested_proof pf)"
  "rp_revealed_attrs (pf_requested_proof (with_raw g pf)) = map (raw_attr g) (rp_revealed_attrs (pf_requested_proof pf))"
  "rp_revealed_attr_groups (pf_requested_proof (with_raw g pf)) = map (raw_group g) (rp_revealed_attr_groups (pf_requested_proof pf))"
  by (simp_all add: with_raw_def received_self_attested_attrs_def)

lemma insert_identifiers_raw: "insert_identifiers (with_raw g pf) rs m = insert_identifiers pf rs m"
  by (induction pf rs m rule: insert_identifiers.induct) (auto simp: get_proof_identifier_def intro!: bindr_cong)

lemma received_raw:
  "received_revealed_attrs (with_raw g pf) = received_revealed_attrs pf"
  "received_unrevealed_attrs (with_raw g pf) = received_unrevealed_attrs pf"
  "received_predicates (with_raw g pf) = received_predicates pf"
proof -
  have "(\<lambda>(r, i). (r, rai_index i)) \<circ> raw_attr g = (\<lambda>(r, i). (r, rai_index i))"
    "(\<lambda>(r, i). (r, rag_index i)) \<circ> raw_group g = (\<lambda>(r, i). (r, rag_index i))"
    by (auto simp: raw_attr_def raw_group_def)
  then show "received_revealed_attrs (with_raw g pf) = received_revealed_attrs pf"
    "received_unrevealed_attrs (with_raw g pf) = received_unrevealed_attrs pf"
    "received_predicates (with_raw g pf) = received_predicates pf"
    by (simp_all add: received_revealed_attrs_def received_unrevealed_attrs_def received_predicates_def insert_identifiers_raw)
qed

lemma with_intervals_fields [simp]:
  "pr_nonce (with_intervals f req) = pr_nonce req"
  "map fst (pr_requested_attributes (with_intervals f req)) = map fst (pr_requested_attributes req)"
  "map fst (pr_requested_predicates (with_intervals f req)) = map fst (pr_requested_predicates req)"
  "map_of (pr_requested_attributes (with_intervals f req)) r = map_option (attr_interval f) (map_of (pr_requested_attributes req) r)"
  "map_of (pr_requested_predicates (with_intervals f req)) r = map_option (pred_interval f) (map_of (pr_requested_predicates req) r)"
  by (simp_all add: with_intervals_def comp_def case_prod_unfold map_of_index [unfolded case_prod_unfold])

lemma interval_fields [simp]:
  "ai_name (attr_interval f a) = ai_name a" "ai_names (attr_interval f a) = ai_names a"
  "ai_restrictions (attr_interval f a) = ai_restrictions a" "names_of (attr_interval f a) = names_of a"
  "pi_name (pred_interval f p) = pi_name p" "pi_restrictions (pred_interval f p) = pi_restrictions p"
  "predicate_call U (pred_interval f p) = predicate_call U p"
  by (simp_all add: attr_interval_def pred_interval_def names_of_def predicate_call_def split: option.split)

lemma compare_attr_blind:
  "compare_attr_from_proof_and_request (with_intervals f req) revealed unrevealed sa predicates =
    compare_attr_from_proof_and_request req revealed unrevealed sa predicates"
  by (simp add: compare_attr_from_proof_and_request_def del: list.set_map)

lemma timestamp_blind:
  assumes "keeps_presence f"
  shows "validate_timestamp received r (map_option f global) (map_option f local) = validate_timestamp received r global local"
proof -
  have "get_non_revoc_interval (map_option f global) (map_option f local) = None \<longleftrightarrow> get_non_revoc_interval global local = None"
    using assms by (cases local; cases global) (auto simp: get_non_revoc_interval_def keeps_presence_def)
  then show ?thesis by (simp add: validate_timestamp_def)
qed

lemma compare_timestamps_blind:
  assumes "keeps_presence f"
  shows "compare_timestamps_from_proof_and_request (with_intervals f req) revealed unrevealed sa predicates =
    compare_timestamps_from_proof_and_request req revealed unrevealed sa predicates"
  unfolding compare_timestamps_from_proof_and_request_def with_intervals_def
  by (simp add: traverse_map case_prod_unfold attr_interval_def pred_interval_def timestamp_blind [OF assms])

lemma value_blind:
  "rai_index i = rai_index j \<Longrightarrow> rai_encoded i = rai_encoded j \<Longrightarrow>
    verify_revealed_attribute_value U name (with_raw g pf) i = verify_revealed_attribute_value U name pf j"
  by (simp add: verify_revealed_attribute_value_def)

lemma revealed_blind:
  "verify_revealed_attribute_values U (with_intervals f req) (with_raw g pf) = verify_revealed_attribute_values U req pf"
proof -
  have a: "bindr (ok_or (map_option (attr_interval f) (map_of (pr_requested_attributes req) (fst x))) e) (\<lambda>requested.
      bindr (ok_or (ai_name requested) e) (\<lambda>n. verify_revealed_attribute_value U n (with_raw g pf) (snd (raw_attr g x)))) =
    bindr (ok_or (map_of (pr_requested_attributes req) (fst x)) e) (\<lambda>requested.
      bindr (ok_or (ai_name requested) e) (\<lambda>n. verify_revealed_attribute_value U n pf (snd x)))" for x e
    using value_blind [of "snd (raw_attr g x)" "snd x" U _ g pf]
    by (cases "map_of (pr_requested_attributes req) (fst x)") (simp_all add: raw_attr_def case_prod_unfold)
  have "verify_revealed_group U (with_intervals f req) (with_raw g pf) (raw_group g x) = verify_revealed_group U req pf x" for x
  proof -
    obtain r i where x: "x = (r, i)" by (cases x)
    have "map_of (map (\<lambda>(n, v). (n, v\<lparr>av_raw := g r n\<rparr>)) vs) n = map_option (\<lambda>v. v\<lparr>av_raw := g r n\<rparr>) (map_of vs n)"
      for n and vs :: "(string \<times> AttributeValue) list"
      by (induction vs) auto
    then have "bindr (ok_or (map_of (map (\<lambda>(n, v). (n, v\<lparr>av_raw := g r n\<rparr>)) (rag_values i)) n) (Error InvalidStructure)) (\<lambda>v.
          verify_revealed_attribute_value U n (with_raw g pf)
            \<lparr>rai_index = rag_index i, rai_raw = av_raw v, rai_encoded = av_encoded v\<rparr>) =
        bindr (ok_or (map_of (rag_values i) n) (Error InvalidStructure)) (\<lambda>v.
          verify_revealed_attribute_value U n pf \<lparr>rai_index = rag_index i, rai_raw = av_raw v, rai_encoded = av_encoded v\<rparr>)" for n
      by (cases "map_of (rag_values i) n") (simp_all add: value_blind)
    then show ?thesis
      by (cases "map_of (pr_requested_attributes req) r") (simp_all add: verify_revealed_group_def x raw_group_def cong: if_cong)
  qed
  moreover have "fst (raw_attr g x) = fst x" for x by (simp add: raw_attr_def case_prod_unfold)
  ultimately show ?thesis
    unfolding verify_revealed_attribute_values_def by (simp add: traverse_map case_prod_unfold a)
qed

lemma revealed_values_ok:
  "is_ok (revealed_values ra k xs m) \<longleftrightarrow> (\<forall>(r, i)\<in>set xs. k = rai_index i \<longrightarrow> r \<in> fst ` set ra)"
proof (induction ra k xs m rule: revealed_values.induct)
  case (2 ra k r i rest m)
  show ?case
  proof (cases "map_of ra r")
    case None
    then have "r \<notin> fst ` set ra" by (simp add: map_of_eq_None_iff)
    with None 2 show ?thesis by auto
  next
    case (Some a)
    then have "r \<in> fst ` set ra" by (force dest: map_of_SomeD)
    with Some 2 show ?thesis by auto
  qed
qed simp

lemma attr_restrictions_ok:
  "verify_attr_restrictions U rp ids (r, info) = Inr () \<longleftrightarrow>
    (\<forall>q. ai_restrictions info = Some q \<longrightarrow>
      (\<exists>f m. gather_filter_info r ids = Inr f \<and> name_value_map U rp r info = Inr m \<and> admits U m f q))"
  by (auto simp: verify_attr_restrictions_def bindr_Inr_iff do_process_operator_Inr split: option.split)

lemma predicate_restrictions_ok:
  "verify_predicate_restrictions U rp ra predicates (r, info) = Inr () \<longleftrightarrow>
    (\<forall>q. pi_restrictions info = Some q \<longrightarrow>
      (\<exists>f p m. gather_filter_info r (map_of predicates) = Inr f \<and> map_of (rp_predicates rp) r = Some p \<and>
        revealed_values ra (spr_index p) (rp_revealed_attrs rp) [(pi_name info, None)] = Inr m \<and>
        admits U (us_order_values U False r (revealed_group_values (spr_index p) (rp_revealed_attr_groups rp) m)) f q))"
  by (auto simp: verify_predicate_restrictions_def bindr_Inr_iff do_process_operator_Inr ok_or_def split: option.split)

lemma restrictions_ok:
  assumes "std_ok U"
  shows "verify_requested_restrictions U req rp revealed unrevealed predicates sa = Inr () \<longleftrightarrow>
    (\<forall>(r, info)\<in>set (pr_requested_attributes req). \<not> is_self_attested r info sa \<longrightarrow>
      verify_attr_restrictions U rp (map_of revealed ++ map_of unrevealed) (r, info) = Inr ()) \<and>
    (\<forall>x\<in>set (pr_requested_predicates req). verify_predicate_restrictions U rp
      (us_order_attrs U (filter (\<lambda>(r, info). \<not> is_self_attested r info sa) (pr_requested_attributes req))) predicates x = Inr ())"
proof -
  let ?ra = "us_order_attrs U (filter (\<lambda>(r, info). \<not> is_self_attested r info sa) (pr_requested_attributes req))"
  have "set ?ra = {x \<in> set (pr_requested_attributes req). \<not> is_self_attested (fst x) (snd x) sa}"
    using assms by (auto simp: std_ok_def simp del: is_self_attested.simps)
  moreover have "verify_requested_restrictions U req rp revealed unrevealed predicates sa = Inr () \<longleftrightarrow>
      (\<forall>x\<in>set ?ra. verify_attr_restrictions U rp (map_of revealed ++ map_of unrevealed) x = Inr ()) \<and>
      (\<forall>x\<in>set (pr_requested_predicates req). verify_predicate_restrictions U rp ?ra predicates x = Inr ())"
    using is_ok_traverse [of "verify_attr_restrictions U rp (map_of revealed ++ map_of unrevealed)" ?ra]
      is_ok_traverse [of "verify_predicate_restrictions U rp ?ra predicates" "pr_requested_predicates req"]
    unfolding verify_requested_restrictions_def Let_def is_ok_unit by (auto simp: bindr_Inr_iff is_ok_iff)
  ultimately show ?thesis by (auto simp: case_prod_unfold simp del: is_self_attested.simps)
qed

lemma name_value_map_blind:
  "is_ok (name_value_map U (pf_requested_proof (with_raw g pf)) r (attr_interval f info)) \<longleftrightarrow>
    is_ok (name_value_map U (pf_requested_proof pf) r info)"
proof -
  have "map_of (map (raw_group g) xs) r = map_option (\<lambda>i. snd (raw_group g (r, i))) (map_of xs r)" for xs
    by (induction xs) (auto simp: raw_group_def)
  then show ?thesis
    by (auto simp: name_value_map_def is_ok_bindr ok_or_def is_ok_iff split: option.splits)
qed

lemma restrictions_blind:
  assumes "std_ok U" "values_unrestricted req"
  shows "verify_requested_restrictions U (with_intervals f req) (pf_requested_proof (with_raw g pf)) revealed unrevealed predicates sa = Inr ()
    \<longleftrightarrow> verify_requested_restrictions U req (pf_requested_proof pf) revealed unrevealed predicates sa = Inr ()"
proof -
  let ?ids = "map_of revealed ++ map_of unrevealed"
  let ?rp' = "pf_requested_proof (with_raw g pf)" and ?rp = "pf_requested_proof pf"
  have attr: "verify_attr_restrictions U ?rp' ?ids (r, attr_interval f a) = Inr () \<longleftrightarrow> verify_attr_restrictions U ?rp ?ids (r, a) = Inr ()"
    if "(r, a) \<in> set (pr_requested_attributes req)" for r a
  proof -
    have "no_value_tags (ai_restrictions a)" using assms(2) that by (auto simp: values_unrestricted_def)
    then show ?thesis
      using name_value_map_blind [of U g pf r f a] admits_values
      by (cases "ai_restrictions a") (fastforce simp: attr_restrictions_ok no_value_tags_def is_ok_iff)+
  qed
  have self: "is_self_attested r (attr_interval f a) sa = is_self_attested r a sa" for r a by simp
  let ?ra' = "us_order_attrs U (filter (\<lambda>(r, info). \<not> is_self_attested r info sa) (pr_requested_attributes (with_intervals f req)))"
  let ?ra = "us_order_attrs U (filter (\<lambda>(r, info). \<not> is_self_attested r info sa) (pr_requested_attributes req))"
  have keys: "fst ` set ?ra' = fst ` set ?ra"
  proof -
    have "set ?ra' = set (map (\<lambda>(r, a). (r, attr_interval f a)) (filter (\<lambda>(r, info). \<not> is_self_attested r info sa) (pr_requested_attributes req)))"
      using assms(1) by (simp add: std_ok_def with_intervals_def filter_map comp_def case_prod_unfold self del: is_self_attested.simps)
    then show ?thesis using assms(1) fst_index unfolding std_ok_def by metis
  qed
  have vals: "is_ok (revealed_values ?ra' k (map (raw_attr g) xs) m) = is_ok (revealed_values ?ra k xs m)" for k xs m
    unfolding revealed_values_ok keys by (auto simp: raw_attr_def)
  have pred: "verify_predicate_restrictions U ?rp' ?ra' predicates (r, pred_interval f p) = Inr () \<longleftrightarrow>
      verify_predicate_restrictions U ?rp ?ra predicates (r, p) = Inr ()"
    if "(r, p) \<in> set (pr_requested_predicates req)" for r p
  proof (cases "pi_restrictions p")
    case (Some q)
    then have "list_all (\<lambda>t. attr_request_by_value t = None) (query_tags q)"
      using assms(2) that by (auto simp: values_unrestricted_def no_value_tags_def)
    note a = admits_values [OF this]
    show ?thesis
    proof (cases "map_of (rp_predicates ?rp) r")
      case (Some x)
      then show ?thesis
        using vals [of "spr_index x" "rp_revealed_attrs ?rp" "[(pi_name p, None)]"] a
        unfolding predicate_restrictions_ok is_ok_iff by (simp add: \<open>pi_restrictions p = Some q\<close>) blast
    qed (simp add: predicate_restrictions_ok Some)
  qed (simp add: predicate_restrictions_ok)
  have "set (pr_requested_attributes (with_intervals f req)) = (\<lambda>(r, a). (r, attr_interval f a)) ` set (pr_requested_attributes req)"
      "set (pr_requested_predicates (with_intervals f req)) = (\<lambda>(r, p). (r, pred_interval f p)) ` set (pr_requested_predicates req)"
    by (simp_all add: with_intervals_def)
  note sets = this
  have "(\<forall>(r, info)\<in>set (pr_requested_attributes (with_intervals f req)). \<not> is_self_attested r info sa \<longrightarrow>
        verify_attr_restrictions U ?rp' ?ids (r, info) = Inr ()) \<longleftrightarrow>
      (\<forall>(r, info)\<in>set (pr_requested_attributes req). \<not> is_self_attested r info sa \<longrightarrow>
        verify_attr_restrictions U ?rp ?ids (r, info) = Inr ())"
    unfolding sets ball_simps(9)
  proof (rule ball_cong [OF refl])
    fix x
    assume "x \<in> set (pr_requested_attributes req)"
    moreover obtain r a where "x = (r, a)" by (cases x)
    ultimately show "(case (case x of (r, a) \<Rightarrow> (r, attr_interval f a)) of (r, info) \<Rightarrow> \<not> is_self_attested r info sa \<longrightarrow>
          verify_attr_restrictions U ?rp' ?ids (r, info) = Inr ()) \<longleftrightarrow>
        (case x of (r, info) \<Rightarrow> \<not> is_self_attested r info sa \<longrightarrow> verify_attr_restrictions U ?rp ?ids (r, info) = Inr ())"
      using attr [of r a] by (simp only: prod.case self)
  qed
  moreover have "(\<forall>x\<in>set (pr_requested_predicates (with_intervals f req)). verify_predicate_restrictions U ?rp' ?ra' predicates x = Inr ()) \<longleftrightarrow>
      (\<forall>x\<in>set (pr_requested_predicates req). verify_predicate_restrictions U ?rp ?ra predicates x = Inr ())"
    unfolding sets ball_simps(9) by (rule ball_cong [OF refl]) (use pred in auto)
  ultimately show ?thesis unfolding restrictions_ok [OF assms(1)] by (rule arg_cong2 [where f = conj])
qed

lemma add_revealed_blind: "add_revealed U b (map (attr_interval f) attrs) = add_revealed U b attrs"
proof (induction attrs arbitrary: b)
  case (Cons a attrs)
  then show ?case by (simp cong: bindr_cong)
qed simp

lemma build_sub_proof_blind:
  "build_sub_proof U B (with_intervals f req) (pf_requested_proof (with_raw g pf)) ns k x =
    build_sub_proof U B req (pf_requested_proof pf) ns k x"
proof -
  have mf: "List.map_filter (\<lambda>y. map_option h (F y)) xs = map h (List.map_filter F xs)"
    for h :: "'x \<Rightarrow> 'y" and F :: "'w \<Rightarrow> 'x option" and xs
    by (induction xs) (auto simp: map_filter_simps split: option.split)
  have mm: "List.map_filter F (map h xs) = List.map_filter (\<lambda>y. F (h y)) xs" for F :: "'x \<Rightarrow> 'y option" and h :: "'w \<Rightarrow> 'x" and xs
    by (induction xs) (auto simp: map_filter_simps split: option.split)
  have sel: "(if c then map_option h v else None) = map_option h (if c then v else None)" for c h v by simp
  have "get_revealed_attributes_for_credential k (pf_requested_proof (with_raw g pf)) (with_intervals f req) =
      map (attr_interval f) (get_revealed_attributes_for_credential k (pf_requested_proof pf) req)"
    unfolding get_revealed_attributes_for_credential_def
    by (simp add: mm raw_attr_def raw_group_def case_prod_unfold sel mf cong: if_cong)
  moreover have "get_predicates_for_credential k (pf_requested_proof (with_raw g pf)) (with_intervals f req) =
      map (pred_interval f) (get_predicates_for_credential k (pf_requested_proof pf) req)"
    unfolding get_predicates_for_credential_def by (simp add: case_prod_unfold sel mf cong: if_cong)
  ultimately show ?thesis
    by (simp add: build_sub_proof_def build_sub_proof_request_def add_revealed_blind comp_def)
qed

lemma add_sub_proofs_blind:
  "add_sub_proofs U B (with_intervals f req) (pf_requested_proof (with_raw g pf)) ns i ids added =
    add_sub_proofs U B req (pf_requested_proof pf) ns i ids added"
  by (induction ids arbitrary: i added) (simp_all add: build_sub_proof_blind)

text \<open>
  C26: The verdict on a proof depends neither on the bounds of the non-revocation intervals in the request, as long as
  they are present or absent as before, nor on the raw values of the revealed attributes, as long as no
  restriction looks at a value: the verifier accepts (or rejects) the proof with other raw values, and against the
  request with other bounds, exactly when it accepts (or rejects) the original.
\<close>

theorem verdict_blind:
  assumes "std_ok U" "keeps_presence f" "values_unrestricted req"
  shows "verify U (with_raw g pf) (with_intervals f req) B = Inr b \<longleftrightarrow> verify U pf req B = Inr b"
proof -
  have unit: "(\<exists>x :: unit. P x) \<longleftrightarrow> P ()" for P by auto
  show ?thesis
    unfolding verify_def Let_def received_raw compare_attr_blind revealed_blind compare_timestamps_blind [OF assms(2)]
      add_sub_proofs_blind with_raw_fields with_intervals_fields
    by (simp only: bindr_Inr_iff unit restrictions_blind [OF assms(1,3)])
qed

end
