(* ===== verification/Prover_Accepted.thy ===== *)
theory Prover_Accepted
  imports Prover_Complete Verifier_Blind
begin

text \<open>
  A proof that the prover makes from genuine credentials, which satisfy the request, is accepted by the verifier: the
  restrictions, the timestamps, and the parts handed to \<^verbatim>\<open>ursa\<close> on both sides.
\<close>

section \<open>The credential of a referent\<close>

lemma identifier_at:
  assumes "proved U P node_1_3 H req rc ms pf ks parts ns"
  shows "(i, k, a) \<in> set (attr_jobs 0 ks) \<Longrightarrow> pf_identifiers pf ! i = named_identifier node_1_3 H req k"
    "(i, k, p) \<in> set (pred_jobs 0 ks) \<Longrightarrow> pf_identifiers pf ! i = named_identifier node_1_3 H req k"
  by (auto simp: provedD(8) [OF assms] attr_jobs_mem)

lemma proved_distinct:
  assumes "proved U P node_1_3 H req rc ms pf ks parts ns" "credential_maps rc" "plain_request (payload req)"
  shows "hash_maps (payload req) (pf_requested_proof pf)" "unambiguous (pf_requested_proof pf)"
  using assms(3) proved_maps [OF assms(1,2), of "payload req"] by (simp_all add: plain_request_def)

lemma identifier_either:
  assumes "proved U P node_1_3 H req rc ms pf ks parts ns" "credential_maps rc" "plain_request (payload req)"
    and "received_revealed_attrs pf = Inr revealed" "received_unrevealed_attrs pf = Inr unrevealed"
    and "(i, key_of ra, info_of r info ra) \<in> set (attr_jobs 0 ks)" "map_of (pr_requested_attributes (payload req)) r = Some info"
  shows "if ra_revealed ra then map_of revealed r = Some (named_identifier node_1_3 H req (key_of ra))
     else map_of unrevealed r = Some (named_identifier node_1_3 H req (key_of ra))"
proof -
  let ?rp = "pf_requested_proof pf"
  note h = proved_distinct [OF assms(1-3)] and e = entry_of_job [OF assms(1,6,7)] and at = identifier_at(1) [OF assms(1,6)]
  have d: "distinct (map fst (rp_unrevealed_attrs ?rp))" "distinct (map fst (rp_revealed_attr_groups ?rp))"
      "distinct (map fst (rp_revealed_attrs ?rp))" using h(1) by (simp_all add: hash_maps_def)
  note lu = insert_indices(1) [OF assms(5) [unfolded received_unrevealed_attrs_def] d(1), of r]
  note lr = received_revealed_lookup(1) [OF assms(4) h(1), of r]
  consider (hidden) "\<not> ra_revealed ra" | (one) n where "ra_revealed ra" "ai_name info = Some n"
    | (many) names where "ra_revealed ra" "ai_name info = None" "ai_names info = Some names"
    by (cases rule: plain_info [OF assms(3,7)]) auto
  then show ?thesis
  proof cases
    case hidden
    have "map_of (rp_unrevealed_attrs ?rp) r = Some \<lparr>spr_index = i\<rparr>" using e(3) [OF hidden] d(1) by simp
    with hidden at lu show ?thesis by simp
  next
    case (one n)
    from e(1) [OF one] obtain v :: AttributeValues where
      "(r, \<lparr>rai_index = i, rai_raw = cv_raw v, rai_encoded = cv_encoded v\<rparr>) \<in> set (rp_revealed_attrs ?rp)" by blast
    then have "map_of (rp_revealed_attrs ?rp) r = Some \<lparr>rai_index = i, rai_raw = cv_raw v, rai_encoded = cv_encoded v\<rparr>"
        "r \<in> fst ` set (rp_revealed_attrs ?rp)" using d(3) by force+
    moreover from this(2) have "map_of (rp_revealed_attr_groups ?rp) r = None"
      using h(2) by (auto simp: unambiguous_def map_of_eq_None_iff)
    ultimately show ?thesis using one(1) at lr by simp
  next
    case (many names)
    from e(2) [OF many] obtain vm where "(r, \<lparr>rag_index = i, rag_values = vm\<rparr>) \<in> set (rp_revealed_attr_groups ?rp)" by blast
    then have "map_of (rp_revealed_attr_groups ?rp) r = Some \<lparr>rag_index = i, rag_values = vm\<rparr>" using d(2) by simp
    with many(1) at lr show ?thesis by simp
  qed
qed

lemma identifier_of_attr:
  assumes "proved U P node_1_3 H req rc ms pf ks parts ns" "credential_maps rc" "plain_request (payload req)"
    and "received_revealed_attrs pf = Inr revealed" "received_unrevealed_attrs pf = Inr unrevealed"
    and "(r, ra) \<in> set (rc_requested_attributes rc)"
  shows "(map_of revealed ++ map_of unrevealed) r = Some (named_identifier node_1_3 H req (key_of ra))"
    "if ra_revealed ra then map_of revealed r = Some (named_identifier node_1_3 H req (key_of ra))
     else map_of unrevealed r = Some (named_identifier node_1_3 H req (key_of ra))"
proof -
  from job_asked(3) [OF assms(1,6)] obtain i info where i: "(i, key_of ra, info_of r info ra) \<in> set (attr_jobs 0 ks)"
      "map_of (pr_requested_attributes (payload req)) r = Some info" by blast
  note e = entry_of_job [OF assms(1) i] and at = identifier_at(1) [OF assms(1) i(1)]
  note u = unambiguous_lookup [OF assms(4,5) proved_distinct [OF assms(1-3)]]
  show "if ra_revealed ra then map_of revealed r = Some (named_identifier node_1_3 H req (key_of ra))
     else map_of unrevealed r = Some (named_identifier node_1_3 H req (key_of ra))" by (rule identifier_either [OF assms(1-5) i])
  show "(map_of revealed ++ map_of unrevealed) r = Some (named_identifier node_1_3 H req (key_of ra))"
  proof (cases "ra_revealed ra")
    case True
    then show ?thesis
      by (cases rule: plain_info [OF assms(3) i(2)]) (use e(1,2) u(1,2) at in fastforce)+
  next
    case False
    from u(3) [OF e(3) [OF this]] at show ?thesis by simp
  qed
qed

lemma identifier_of_predicate:
  assumes "proved U P node_1_3 H req rc ms pf ks parts ns" "credential_maps rc" "plain_request (payload req)"
    and "received_predicates pf = Inr predicates" "(r, k) \<in> set (rc_requested_predicates rc)"
  shows "map_of predicates r = Some (named_identifier node_1_3 H req k)" "\<exists>p. map_of (rp_predicates (pf_requested_proof pf)) r = Some p"
proof -
  have d: "distinct (map fst (rp_predicates (pf_requested_proof pf)))"
    using proved_distinct(1) [OF assms(1-3)] by (simp add: hash_maps_def)
  from job_asked(4) [OF assms(1,5)] obtain i info where i: "(i, k, predicate_of r info) \<in> set (pred_jobs 0 ks)" by blast
  then have "(r, \<lparr>spr_index = i\<rparr>) \<in> set (rp_predicates (pf_requested_proof pf))"
    unfolding provedD(13) [OF assms(1)] run_predicates_def by (force simp: predicate_of_def)
  then have m: "map_of (rp_predicates (pf_requested_proof pf)) r = Some \<lparr>spr_index = i\<rparr>" using d by simp
  then show "\<exists>p. map_of (rp_predicates (pf_requested_proof pf)) r = Some p" by blast
  show "map_of predicates r = Some (named_identifier node_1_3 H req k)"
    using insert_indices(1) [OF assms(4) [unfolded received_predicates_def] d, of r] m identifier_at(2) [OF assms(1) i] by simp
qed

section \<open>Timestamps\<close>

definition times_fit :: "RequestedCredentials \<Rightarrow> 'nonce ProofRequestPayload \<Rightarrow> bool" where
  "times_fit rc q \<longleftrightarrow>
    list_all (\<lambda>(r, ra). case map_of (pr_requested_attributes q) r of
      Some info \<Rightarrow> get_non_revoc_interval (pr_non_revoked q) (ai_non_revoked info) \<noteq> None \<longrightarrow> ra_timestamp ra \<noteq> None
    | None \<Rightarrow> True) (rc_requested_attributes rc) \<and>
    list_all (\<lambda>(r, k). case map_of (pr_requested_predicates q) r of
      Some info \<Rightarrow> get_non_revoc_interval (pr_non_revoked q) (pi_non_revoked info) \<noteq> None \<longrightarrow> pk_timestamp k \<noteq> None
    | None \<Rightarrow> True) (rc_requested_predicates rc)"

lemma named_timestamp: "id_timestamp (named_identifier node_1_3 H req k) = pk_timestamp k"
  by (simp add: named_identifier_def proof_identifier_def split: ProofRequestsVersion.split)

lemma timestamp_valid:
  assumes "map_of received r = Some x" "get_non_revoc_interval g l \<noteq> None \<longrightarrow> id_timestamp x \<noteq> None"
  shows "validate_timestamp received r g l = Inr ()"
  using assms by (simp add: validate_timestamp_def)

lemma or_result_Inr: "or_result a b = Inr x \<longleftrightarrow> a = Inr x \<or> (\<exists>e. a = Inl e) \<and> b = Inr x"
  by (auto simp: or_result_def split: sum.splits)

lemma times_compared:
  assumes "proved U P node_1_3 H req rc ms pf ks parts ns" "credential_maps rc" "plain_request (payload req)" "covers rc (payload req)"
    and "times_fit rc (payload req)"
    and "received_revealed_attrs pf = Inr revealed" "received_unrevealed_attrs pf = Inr unrevealed" "received_predicates pf = Inr predicates"
  shows "compare_timestamps_from_proof_and_request (payload req) revealed unrevealed (received_self_attested_attrs pf) predicates = Inr ()"
proof -
  let ?q = "payload req" and ?sa = "received_self_attested_attrs pf"
  have sa: "?sa = map fst (rc_self_attested_attributes rc)" by (simp add: received_self_attested_attrs_def provedD(11) [OF assms(1)])
  have a: "or_result (validate_timestamp revealed r (pr_non_revoked ?q) (ai_non_revoked info))
        (or_result (validate_timestamp unrevealed r (pr_non_revoked ?q) (ai_non_revoked info))
          (if r \<in> set ?sa then Inr () else Inl (Error InvalidStructure))) = Inr ()"
    if i: "(r, info) \<in> set (pr_requested_attributes ?q)" for r info
  proof (cases "r \<in> set ?sa")
    case True
    then show ?thesis by (auto simp: or_result_def split: sum.splits)
  next
    case False
    have at: "map_of (pr_requested_attributes ?q) r = Some info" using i assms(3) by (simp add: plain_request_def)
    have "r \<in> set (map fst (pr_requested_attributes ?q))" using i by force
    then have "r \<in> set (map fst (rc_requested_attributes rc))" using False assms(4) unfolding covers_def sa by blast
    then obtain ra where ra: "(r, ra) \<in> set (rc_requested_attributes rc)" by auto
    have t: "get_non_revoc_interval (pr_non_revoked ?q) (ai_non_revoked info) \<noteq> None \<longrightarrow>
        id_timestamp (named_identifier node_1_3 H req (key_of ra)) \<noteq> None"
      using assms(5) ra at by (auto simp: times_fit_def list_all_iff named_timestamp key_of_def)
    note l = identifier_of_attr(2) [OF assms(1-3,6,7) ra]
    show ?thesis
    proof (cases "ra_revealed ra")
      case True
      with l timestamp_valid [OF _ t, of revealed r] show ?thesis by (simp add: or_result_def)
    next
      case False
      with l timestamp_valid [OF _ t, of unrevealed r] show ?thesis by (auto simp: or_result_def split: sum.splits)
    qed
  qed
  have p: "validate_timestamp predicates r (pr_non_revoked ?q) (pi_non_revoked info) = Inr ()"
    if i: "(r, info) \<in> set (pr_requested_predicates ?q)" for r info
  proof -
    have at: "map_of (pr_requested_predicates ?q) r = Some info" using i assms(3) by (simp add: plain_request_def)
    have "r \<in> set (map fst (pr_requested_predicates ?q))" using i by force
    then have "r \<in> set (map fst (rc_requested_predicates rc))" using assms(4) unfolding covers_def by blast
    then obtain k where k: "(r, k) \<in> set (rc_requested_predicates rc)" by auto
    show ?thesis
      by (rule timestamp_valid [OF identifier_of_predicate(1) [OF assms(1-3,8) k]])
        (use assms(5) k at in \<open>auto simp: times_fit_def list_all_iff named_timestamp\<close>)
  qed
  have "is_ok (compare_timestamps_from_proof_and_request ?q revealed unrevealed ?sa predicates)"
    unfolding compare_timestamps_from_proof_and_request_def
    using a p by (auto simp: is_ok_bindr is_ok_traverse simp flip: is_ok_iff)
  then show ?thesis by (simp add: is_ok_iff)
qed

section \<open>Restrictions\<close>

text \<open>The values that a restriction of an attribute may refer to, from the credential.\<close>

definition shown_values ::
  "('cp, 'nonce, 'bn, 'pk, 'rk, 'key, 'ak, 'reg) ursa \<Rightarrow> (string \<times> AttributeValues) list \<Rightarrow> AttributeInfo \<Rightarrow> bool \<Rightarrow>
    (string \<times> string option) list" where
  "shown_values U vs info revealed =
    map (\<lambda>n. (n, if revealed then map_option cv_raw (get_credential_values_for_attribute U vs n) else None)) (asked_names info)"

text \<open>
  A chosen credential satisfies the restrictions of the attribute, or, whatever is revealed, of the predicate. A group with
  restrictions is revealed.
\<close>

definition attr_fits ::
  "('cp, 'nonce, 'bn, 'pk, 'rk, 'key, 'ak, 'reg) ursa \<Rightarrow> bool \<Rightarrow> ('pk, 'rk, 'sig, 'scp, 'reg, 'wit) holder \<Rightarrow> 'nonce ProofRequest \<Rightarrow>
    string \<Rightarrow> RequestedAttribute \<Rightarrow> bool" where
  "attr_fits U node_1_3 H req r ra \<longleftrightarrow>
    (\<forall>info q. map_of (pr_requested_attributes (payload req)) r = Some info \<and> ai_restrictions info = Some q \<longrightarrow>
      (ra_revealed ra \<or> ai_name info \<noteq> None) \<and>
      (\<exists>f. filter_of (named_identifier node_1_3 H req (key_of ra)) = Inr f \<and>
        admits U (shown_values U (values_of H (key_of ra)) info (ra_revealed ra)) f q))"

definition predicate_fits ::
  "('cp, 'nonce, 'bn, 'pk, 'rk, 'key, 'ak, 'reg) ursa \<Rightarrow> bool \<Rightarrow> ('pk, 'rk, 'sig, 'scp, 'reg, 'wit) holder \<Rightarrow> 'nonce ProofRequest \<Rightarrow>
    string \<Rightarrow> ProvingCredentialKey \<Rightarrow> bool" where
  "predicate_fits U node_1_3 H req r k \<longleftrightarrow>
    (\<forall>info q. map_of (pr_requested_predicates (payload req)) r = Some info \<and> pi_restrictions info = Some q \<longrightarrow>
      (\<exists>f. filter_of (named_identifier node_1_3 H req k) = Inr f \<and> (\<forall>m. admits U m f q)))"

definition restrictions_fit ::
  "('cp, 'nonce, 'bn, 'pk, 'rk, 'key, 'ak, 'reg) ursa \<Rightarrow> bool \<Rightarrow> ('pk, 'rk, 'sig, 'scp, 'reg, 'wit) holder \<Rightarrow> 'nonce ProofRequest \<Rightarrow>
    RequestedCredentials \<Rightarrow> bool" where
  "restrictions_fit U node_1_3 H req rc \<longleftrightarrow>
    list_all (\<lambda>(r, ra). attr_fits U node_1_3 H req r ra) (rc_requested_attributes rc) \<and>
    list_all (\<lambda>(r, k). predicate_fits U node_1_3 H req r k) (rc_requested_predicates rc)"

text \<open>The order of the values does not matter where equal views have equal values.\<close>

lemma tag_holds_order:
  assumes "set m = set m'" "\<forall>(n, x)\<in>set m. x = g (attr_common_view U n)"
  shows "tag_holds U m f tag v = tag_holds U m' f tag v"
proof -
  have one: "(\<exists>k. List.find (\<lambda>(k, _). attr_common_view U k = w) xs = Some (k, Some v)) \<longleftrightarrow>
      w \<in> (\<lambda>p. attr_common_view U (fst p)) ` set xs \<and> g w = Some v"
    if "\<forall>(n, x)\<in>set xs. x = g (attr_common_view U n)" for xs w
    using that by (induction xs) auto
  have "\<forall>(n, x)\<in>set m'. x = g (attr_common_view U n)" using assms by simp
  then show ?thesis unfolding tag_holds_def using one [OF assms(2)] one assms(1) by simp
qed

lemma admits_order:
  assumes "set m = set m'" "\<forall>(n, x)\<in>set m. x = g (attr_common_view U n)"
  shows "admits U m f q = admits U m' f q"
  by (induction q) (simp_all add: tag_holds_order [OF assms])

lemma shown_by_view:
  "\<forall>(n, x)\<in>set (shown_values U vs info b). x = (if b then map_option (\<lambda>p. cv_raw (snd p))
    (List.find (\<lambda>(key, _). attr_common_view U key = attr_common_view U n) vs) else None)"
  by (auto simp: shown_values_def get_credential_values_for_attribute_def option.map_comp comp_def)

lemma name_values_shown:
  assumes "proved U P node_1_3 H req rc ms pf ks parts ns" "credential_maps rc" "plain_request (payload req)" "std_ok U"
    and "(r, ra) \<in> set (rc_requested_attributes rc)" "map_of (pr_requested_attributes (payload req)) r = Some info"
    and "ra_revealed ra \<or> ai_name info \<noteq> None"
  obtains m where "name_value_map U (pf_requested_proof pf) r info = Inr m"
    "set m = set (shown_values U (values_of H (key_of ra)) info (ra_revealed ra))"
proof -
  let ?rp = "pf_requested_proof pf"
  note h = proved_distinct [OF assms(1-3)]
  have d: "distinct (map fst (rp_revealed_attrs ?rp))" "distinct (map fst (rp_revealed_attr_groups ?rp))"
    using h(1) by (simp_all add: hash_maps_def)
  from job_asked(3) [OF assms(1,5)] assms(6) obtain i where i: "(i, key_of ra, info_of r info ra) \<in> set (attr_jobs 0 ks)" by auto
  note e = entry_of_job [OF assms(1) i assms(6)]
  show thesis
  proof (cases rule: plain_info [OF assms(3,6)])
    case (1 n)
    have "map_of (rp_revealed_attrs ?rp) r = (if ra_revealed ra then Some \<lparr>rai_index = i,
        rai_raw = cv_raw (the (get_credential_values_for_attribute U (values_of H (key_of ra)) n)),
        rai_encoded = cv_encoded (the (get_credential_values_for_attribute U (values_of H (key_of ra)) n))\<rparr> else None)"
    proof (cases "ra_revealed ra")
      case True
      from e(1) [OF this 1(1)] d(1) show ?thesis using True by auto
    next
      case False
      have "r \<in> fst ` set (rp_unrevealed_attrs ?rp)" using e(3) [OF False] by force
      then show ?thesis using h(2) False by (auto simp: unambiguous_def map_of_eq_None_iff)
    qed
    moreover have "ra_revealed ra \<longrightarrow> get_credential_values_for_attribute U (values_of H (key_of ra)) n \<noteq> None" using e(1) 1(1) by auto
    ultimately have "name_value_map U ?rp r info = Inr (shown_values U (values_of H (key_of ra)) info (ra_revealed ra))"
      by (auto simp: name_value_map_def shown_values_def asked_names_def 1)
    then show thesis using that by blast
  next
    case (2 names)
    with assms(7) have rev: "ra_revealed ra" by simp
    from e(2) [OF rev 2(1,2)] obtain vm where vm: "group_values U (values_of H (key_of ra)) names [] = Inr vm"
        "map_of (rp_revealed_attr_groups ?rp) r = Some \<lparr>rag_index = i, rag_values = vm\<rparr>" using d(2) by auto
    let ?h = "\<lambda>n. map_option av_raw (map_of vm n)"
    have "fold (\<lambda>n. AList.update n (?h n)) names [] = map (\<lambda>n. (n, ?h n)) names"
      using fold_new_keys [of "\<lambda>n. n" names "[]" ?h] 2(3) by simp
    moreover have "?h n = map_option cv_raw (get_credential_values_for_attribute U (values_of H (key_of ra)) n)" if "n \<in> set names" for n
      using group_lookup(2) [OF vm(1) 2(3) that] by (auto simp: attribute_value_def)
    ultimately have "fold (\<lambda>n. AList.update n (?h n)) names [] = shown_values U (values_of H (key_of ra)) info (ra_revealed ra)"
      by (simp add: shown_values_def asked_names_def 2 rev)
    then have "name_value_map U ?rp r info = Inr (us_order_values U True r (shown_values U (values_of H (key_of ra)) info (ra_revealed ra)))"
      by (simp add: name_value_map_def 2 vm(2))
    moreover have "set (us_order_values U True r xs) = set xs" for xs using assms(4) by (simp add: std_ok_def)
    ultimately show thesis using that by blast
  qed
qed

lemma attr_restriction_ok:
  assumes "proved U P node_1_3 H req rc ms pf ks parts ns" "credential_maps rc" "plain_request (payload req)" "std_ok U"
    and "received_revealed_attrs pf = Inr revealed" "received_unrevealed_attrs pf = Inr unrevealed"
    and "(r, ra) \<in> set (rc_requested_attributes rc)" "map_of (pr_requested_attributes (payload req)) r = Some info"
    and "attr_fits U node_1_3 H req r ra"
  shows "verify_attr_restrictions U (pf_requested_proof pf) (map_of revealed ++ map_of unrevealed) (r, info) = Inr ()"
proof (cases "ai_restrictions info")
  case None
  then show ?thesis by (simp add: verify_attr_restrictions_def)
next
  case (Some q)
  let ?shown = "shown_values U (values_of H (key_of ra)) info (ra_revealed ra)"
  from assms(8,9) Some obtain f where f: "ra_revealed ra \<or> ai_name info \<noteq> None" "filter_of (named_identifier node_1_3 H req (key_of ra)) = Inr f"
      "admits U ?shown f q" by (auto simp: attr_fits_def)
  obtain m where m: "name_value_map U (pf_requested_proof pf) r info = Inr m" "set m = set ?shown"
    by (rule name_values_shown [OF assms(1-4,7,8) f(1)])
  have "admits U m f q" using admits_order [OF m(2) [symmetric], of "\<lambda>w. if ra_revealed ra then map_option (\<lambda>p. cv_raw (snd p))
    (List.find (\<lambda>(key, _). attr_common_view U key = w) (values_of H (key_of ra))) else None"] shown_by_view f(3) by blast
  moreover have "gather_filter_info r (map_of revealed ++ map_of unrevealed) = Inr f"
    using gather_filter_info_at [of "map_of revealed ++ map_of unrevealed" r, OF identifier_of_attr(1) [OF assms(1-3,5-7)]] f(2) by simp
  ultimately show ?thesis using Some m(1) by (simp add: verify_attr_restrictions_def do_process_operator_Inr)
qed

lemma not_self_attested: "r \<notin> set sa \<Longrightarrow> \<not> is_self_attested r info sa"
  by (auto split: option.splits Query.splits)

text \<open>The attributes whose restrictions are checked: those that are answered with a credential.\<close>

lemma checked_attrs:
  assumes "proved U P node_1_3 H req rc ms pf ks parts ns" "std_ok U" "covers rc (payload req)"
  shows "(r, info) \<in> set (us_order_attrs U (filter (\<lambda>(r, info). \<not> is_self_attested r info (received_self_attested_attrs pf))
      (pr_requested_attributes (payload req)))) \<longleftrightarrow>
    (r, info) \<in> set (pr_requested_attributes (payload req)) \<and> (\<exists>ra. (r, ra) \<in> set (rc_requested_attributes rc))"
proof -
  let ?q = "payload req" and ?sa = "received_self_attested_attrs pf"
  have sa: "?sa = map fst (rc_self_attested_attributes rc)" by (simp add: received_self_attested_attrs_def provedD(11) [OF assms(1)])
  have "\<not> is_self_attested r info ?sa \<longleftrightarrow> r \<in> set (map fst (rc_requested_attributes rc))" if "(r, info) \<in> set (pr_requested_attributes ?q)"
  proof -
    have "r \<in> set (map fst (pr_requested_attributes ?q))" using that by force
    then have "r \<in> set (map fst (rc_requested_attributes rc)) \<longleftrightarrow> r \<notin> set ?sa" using assms(3) unfolding covers_def sa by blast
    moreover have "r \<in> set ?sa \<Longrightarrow> is_self_attested r info ?sa" using assms(3) that unfolding covers_def sa list_all_iff by blast
    ultimately show ?thesis using not_self_attested by blast
  qed
  moreover have "r \<in> set (map fst (rc_requested_attributes rc)) \<longleftrightarrow> (\<exists>ra. (r, ra) \<in> set (rc_requested_attributes rc))" by force
  ultimately show ?thesis using assms(2) by (auto simp: std_ok_def simp del: is_self_attested.simps)
qed

lemma predicate_restriction_ok:
  assumes "proved U P node_1_3 H req rc ms pf ks parts ns" "credential_maps rc" "plain_request (payload req)"
    and "received_predicates pf = Inr predicates" "(r, k) \<in> set (rc_requested_predicates rc)"
    and "map_of (pr_requested_predicates (payload req)) r = Some info" "predicate_fits U node_1_3 H req r k"
    and "\<And>r e. (r, e) \<in> set (rp_revealed_attrs (pf_requested_proof pf)) \<Longrightarrow> r \<in> fst ` set attrs"
  shows "verify_predicate_restrictions U (pf_requested_proof pf) attrs predicates (r, info) = Inr ()"
proof (cases "pi_restrictions info")
  case None
  then show ?thesis by (simp add: verify_predicate_restrictions_def)
next
  case (Some query)
  let ?rp = "pf_requested_proof pf"
  from assms(6,7) Some obtain f where f: "filter_of (named_identifier node_1_3 H req k) = Inr f" "\<forall>m. admits U m f query"
    by (auto simp: predicate_fits_def)
  note l = identifier_of_predicate [OF assms(1-5)]
  from l(2) obtain pr where pr: "map_of (rp_predicates ?rp) r = Some pr" by blast
  have "is_ok (revealed_values attrs (spr_index pr) (rp_revealed_attrs ?rp) [(pi_name info, None)])"
    unfolding revealed_values_ok using assms(8) by blast
  then obtain m where m: "revealed_values attrs (spr_index pr) (rp_revealed_attrs ?rp) [(pi_name info, None)] = Inr m"
    unfolding is_ok_iff by blast
  have "gather_filter_info r (map_of predicates) = Inr f"
    using gather_filter_info_at [of "map_of predicates" r, OF l(1)] f(1) by simp
  with Some pr m f(2) show ?thesis by (simp add: verify_predicate_restrictions_def do_process_operator_Inr)
qed

lemma restrictions_verified:
  assumes "proved U P node_1_3 H req rc ms pf ks parts ns" "credential_maps rc" "plain_request (payload req)" "std_ok U"
    and "covers rc (payload req)" "restrictions_fit U node_1_3 H req rc"
    and "received_revealed_attrs pf = Inr revealed" "received_unrevealed_attrs pf = Inr unrevealed" "received_predicates pf = Inr predicates"
  shows "verify_requested_restrictions U (payload req) (pf_requested_proof pf) revealed unrevealed predicates
    (received_self_attested_attrs pf) = Inr ()"
proof -
  let ?q = "payload req" and ?sa = "received_self_attested_attrs pf" and ?rp = "pf_requested_proof pf"
  let ?attrs = "us_order_attrs U (filter (\<lambda>(r, info). \<not> is_self_attested r info ?sa) (pr_requested_attributes ?q))"
  note ch = checked_attrs [OF assms(1,4,5)]
  have a: "verify_attr_restrictions U ?rp (map_of revealed ++ map_of unrevealed) (r, info) = Inr ()" if i: "(r, info) \<in> set ?attrs" for r info
  proof -
    from i obtain ra where ra: "(r, ra) \<in> set (rc_requested_attributes rc)" "(r, info) \<in> set (pr_requested_attributes ?q)" unfolding ch by blast
    have "map_of (pr_requested_attributes ?q) r = Some info" using ra(2) assms(3) by (simp add: plain_request_def)
    moreover have "attr_fits U node_1_3 H req r ra" using assms(6) ra(1) by (auto simp: restrictions_fit_def list_all_iff)
    ultimately show ?thesis by (rule attr_restriction_ok [OF assms(1-4,7,8) ra(1)])
  qed
  have rev: "r \<in> fst ` set ?attrs" if "(r, e) \<in> set (rp_revealed_attrs ?rp)" for r e
  proof -
    from job_of_entry(1) [OF assms(1) that] obtain ra info where "(r, ra) \<in> set (rc_requested_attributes rc)"
        "map_of (pr_requested_attributes ?q) r = Some info" by blast
    then have "(r, info) \<in> set ?attrs" unfolding ch by (blast dest: map_of_SomeD)
    then show ?thesis by force
  qed
  have p: "verify_predicate_restrictions U ?rp ?attrs predicates (r, info) = Inr ()" if i: "(r, info) \<in> set (pr_requested_predicates ?q)" for r info
  proof -
    have at: "map_of (pr_requested_predicates ?q) r = Some info" using i assms(3) by (simp add: plain_request_def)
    have "r \<in> set (map fst (pr_requested_predicates ?q))" using i by force
    then have "r \<in> set (map fst (rc_requested_predicates rc))" using assms(5) unfolding covers_def by blast
    then obtain k where k: "(r, k) \<in> set (rc_requested_predicates rc)" by auto
    have "predicate_fits U node_1_3 H req r k" using assms(6) k by (auto simp: restrictions_fit_def list_all_iff)
    from predicate_restriction_ok [OF assms(1-3,9) k at this rev] show ?thesis .
  qed
  have "is_ok (verify_requested_restrictions U ?q ?rp revealed unrevealed predicates ?sa)"
    unfolding verify_requested_restrictions_def Let_def
    using a p by (auto simp: is_ok_bindr is_ok_traverse simp del: is_self_attested.simps simp flip: is_ok_iff)
  then show ?thesis by (simp add: is_ok_iff)
qed

section \<open>The parts on both sides\<close>

lemma names_of_plain:
  assumes "plain_request q" "map_of (pr_requested_attributes q) r = Some info"
  shows "names_of info = Inr (asked_names info)"
  by (cases rule: plain_info [OF assms]) (simp_all add: names_of_def asked_names_def)

lemma asked_of_part:
  assumes "proved U P node_1_3 H req rc ms pf ks parts ns" "plain_request (payload req)"
  shows "info \<in> set (get_revealed_attributes_for_credential i (pf_requested_proof pf) (payload req)) \<longleftrightarrow>
      (\<exists>k r ra. (i, k, info_of r info ra) \<in> set (attr_jobs 0 ks) \<and> map_of (pr_requested_attributes (payload req)) r = Some info \<and> ra_revealed ra)"
    "pinfo \<in> set (get_predicates_for_credential i (pf_requested_proof pf) (payload req)) \<longleftrightarrow>
      (\<exists>k r. (i, k, predicate_of r pinfo) \<in> set (pred_jobs 0 ks) \<and> map_of (pr_requested_predicates (payload req)) r = Some pinfo)"
proof -
  let ?rp = "pf_requested_proof pf" and ?q = "payload req"
  note j = job_of_entry [OF assms(1)]
  show "info \<in> set (get_revealed_attributes_for_credential i ?rp ?q) \<longleftrightarrow>
      (\<exists>k r ra. (i, k, info_of r info ra) \<in> set (attr_jobs 0 ks) \<and> map_of (pr_requested_attributes ?q) r = Some info \<and> ra_revealed ra)"
    (is "?in \<longleftrightarrow> ?job")
  proof
    assume ?in
    then consider r e where "(r, e) \<in> set (rp_revealed_attrs ?rp)" "i = rai_index e" "map_of (pr_requested_attributes ?q) r = Some info"
      | r g where "(r, g) \<in> set (rp_revealed_attr_groups ?rp)" "i = rag_index g" "map_of (pr_requested_attributes ?q) r = Some info"
      by (auto simp: get_revealed_attributes_for_credential_def set_flat_map split: if_splits)
    then show ?job
    proof cases
      case (1 r e)
      with j(1) [OF 1(1)] show ?thesis by auto
    next
      case (2 r g)
      with j(2) [OF 2(1)] show ?thesis by auto
    qed
  next
    assume ?job
    then obtain k r ra where a: "(i, k, info_of r info ra) \<in> set (attr_jobs 0 ks)" "map_of (pr_requested_attributes ?q) r = Some info"
        "ra_revealed ra" by blast
    note e = entry_of_job [OF assms(1) a(1,2)]
    show ?in
    proof (cases rule: plain_info [OF assms(2) a(2)])
      case (1 n)
      from e(1) [OF a(3) 1(1)] obtain v :: AttributeValues where
        "(r, \<lparr>rai_index = i, rai_raw = cv_raw v, rai_encoded = cv_encoded v\<rparr>) \<in> set (rp_revealed_attrs ?rp)" by blast
      with a(2) show ?thesis by (force simp: get_revealed_attributes_for_credential_def set_flat_map)
    next
      case (2 names)
      from e(2) [OF a(3) 2(1,2)] obtain vm where "(r, \<lparr>rag_index = i, rag_values = vm\<rparr>) \<in> set (rp_revealed_attr_groups ?rp)" by blast
      with a(2) show ?thesis by (force simp: get_revealed_attributes_for_credential_def set_flat_map)
    qed
  qed
  show "pinfo \<in> set (get_predicates_for_credential i ?rp ?q) \<longleftrightarrow>
      (\<exists>k r. (i, k, predicate_of r pinfo) \<in> set (pred_jobs 0 ks) \<and> map_of (pr_requested_predicates ?q) r = Some pinfo)" (is "?in \<longleftrightarrow> ?job")
  proof
    assume ?in
    then obtain r p where p: "(r, p) \<in> set (rp_predicates ?rp)" "i = spr_index p" "map_of (pr_requested_predicates ?q) r = Some pinfo"
      by (auto simp: get_predicates_for_credential_def set_flat_map split: if_splits)
    with j(4) [OF p(1)] show ?job by auto
  next
    assume ?job
    then obtain k r where k: "(i, k, predicate_of r pinfo) \<in> set (pred_jobs 0 ks)" "map_of (pr_requested_predicates ?q) r = Some pinfo" by blast
    then have "(r, \<lparr>spr_index = i\<rparr>) \<in> set (rp_predicates ?rp)"
      unfolding provedD(13) [OF assms(1)] run_predicates_def by (force simp: predicate_of_def)
    with k(2) show ?in by (force simp: get_predicates_for_credential_def set_flat_map)
  qed
qed

lemma run_builder_total:
  "(\<And>calls. list_all Q calls \<Longrightarrow> call calls = Inr ()) \<Longrightarrow> list_all Q (h @ cs) \<Longrightarrow> run_builder call h cs = Inr (h @ cs)"
  by (induction cs arbitrary: h) simp_all

lemma add_revealed_total:
  assumes "\<And>calls. list_all known_call calls \<Longrightarrow> us_request_call U calls = Inr ()"
    and "\<And>info. info \<in> set infos \<Longrightarrow> names_of info = Inr (asked_names info)" "list_all known_call b"
  shows "\<exists>b'. add_revealed U b infos = Inr b' \<and> list_all known_call b'"
  using assms(2,3)
proof (induction infos arbitrary: b)
  case (Cons info infos)
  let ?cs = "map (\<lambda>n. AddRevealedAttr (attr_common_view U n)) (asked_names info)"
  have k: "list_all known_call (b @ ?cs)" using Cons.prems(2) by (auto simp: list_all_iff)
  from Cons.IH [OF Cons.prems(1) k] run_builder_total [OF assms(1) k] Cons.prems(1) [of info] show ?case by simp
qed simp

lemma predicate_known: "known_call (predicate_call U p)"
  by (cases "pi_p_type p") (simp_all add: predicate_call_def)

lemma sub_proof_request_total:
  assumes "ursa_complete U P genuine fresh" "\<And>info. info \<in> set infos \<Longrightarrow> names_of info = Inr (asked_names info)"
  shows "\<exists>r. build_sub_proof_request U infos preds = Inr r"
proof -
  have ok: "us_request_call U calls = Inr ()" "us_request_finalize U calls = Inr ()" if "list_all known_call calls" for calls
    using assms(1) that by (simp_all add: ursa_complete_def)
  from add_revealed_total [OF ok(1) assms(2), of infos "[]"] obtain b where b: "add_revealed U [] infos = Inr b" "list_all known_call b"
    by auto
  have k: "list_all known_call (b @ map (predicate_call U) preds)" using b(2) predicate_known by (auto simp: list_all_iff)
  from b(1) run_builder_total [OF ok(1) k] ok(2) [OF k] ok(1) [of "[]"] show ?thesis by (simp add: build_sub_proof_request_def)
qed

lemma jobs_of_part:
  assumes "i < length ks" "ks ! i = (k, as, ps)"
  shows "(i, k', a) \<in> set (attr_jobs 0 ks) \<longleftrightarrow> k' = k \<and> a \<in> set as" "(i, k', p) \<in> set (pred_jobs 0 ks) \<longleftrightarrow> k' = k \<and> p \<in> set ps"
  using assms by (auto simp: attr_jobs_mem)

lemma same_names:
  assumes "proved U P node_1_3 H req rc ms pf ks parts ns" "plain_request (payload req)" "i < length ks" "ks ! i = (k, as, ps)"
  shows "(\<exists>a\<in>set as. rqa_revealed a \<and> x \<in> attr_common_view U ` set (asked_names (rqa_attr_info a))) \<longleftrightarrow>
    (\<exists>info\<in>set (get_revealed_attributes_for_credential i (pf_requested_proof pf) (payload req)). \<exists>nms. names_of info = Inr nms \<and>
      x \<in> attr_common_view U ` set nms)" (is "?asked \<longleftrightarrow> ?requested")
proof
  note ask = asked_of_part(1) [OF assms(1,2)] and jobs = jobs_of_part(1) [OF assms(3,4)]
  assume ?asked
  then obtain a where a: "a \<in> set as" "rqa_revealed a" "x \<in> attr_common_view U ` set (asked_names (rqa_attr_info a))" by blast
  from a(1) jobs have "(i, k, a) \<in> set (attr_jobs 0 ks)" by simp
  from job_asked(1) [OF assms(1) this] obtain r ra info where j: "map_of (pr_requested_attributes (payload req)) r = Some info" "a = info_of r info ra"
    by blast
  have "ra_revealed ra" using a(2) j(2) by (simp add: info_of_def)
  then have "info \<in> set (get_revealed_attributes_for_credential i (pf_requested_proof pf) (payload req))"
    unfolding ask jobs using a(1) j by blast
  with a(3) names_of_plain [OF assms(2) j(1)] show ?requested by (auto simp: j(2) info_of_def)
next
  note ask = asked_of_part(1) [OF assms(1,2)] and jobs = jobs_of_part(1) [OF assms(3,4)]
  assume ?requested
  then obtain info nms where i: "info \<in> set (get_revealed_attributes_for_credential i (pf_requested_proof pf) (payload req))"
      "names_of info = Inr nms" "x \<in> attr_common_view U ` set nms" by blast
  from i(1) obtain r ra where j: "info_of r info ra \<in> set as" "map_of (pr_requested_attributes (payload req)) r = Some info" "ra_revealed ra"
    unfolding ask jobs by blast
  with i(2,3) names_of_plain [OF assms(2) j(2)] show ?asked by (intro bexI [OF _ j(1)]) (auto simp: info_of_def)
qed

lemma same_predicates:
  assumes "proved U P node_1_3 H req rc ms pf ks parts ns" "plain_request (payload req)" "i < length ks" "ks ! i = (k, as, ps)"
  shows "rqp_predicate_info ` set ps = set (get_predicates_for_credential i (pf_requested_proof pf) (payload req))"
proof (rule equalityI; rule subsetI)
  note ask = asked_of_part(2) [OF assms(1,2)] and jobs = jobs_of_part(2) [OF assms(3,4)]
  fix info assume "info \<in> rqp_predicate_info ` set ps"
  then obtain p where p: "p \<in> set ps" "info = rqp_predicate_info p" by blast
  from p(1) jobs have "(i, k, p) \<in> set (pred_jobs 0 ks)" by simp
  from job_asked(2) [OF assms(1) this] obtain r pinfo where j: "map_of (pr_requested_predicates (payload req)) r = Some pinfo" "p = predicate_of r pinfo"
    by blast
  then have "info = pinfo" using p(2) by (simp add: predicate_of_def)
  then show "info \<in> set (get_predicates_for_credential i (pf_requested_proof pf) (payload req))" unfolding ask jobs using p(1) j by blast
next
  note ask = asked_of_part(2) [OF assms(1,2)] and jobs = jobs_of_part(2) [OF assms(3,4)]
  fix info assume "info \<in> set (get_predicates_for_credential i (pf_requested_proof pf) (payload req))"
  then obtain r where "predicate_of r info \<in> set ps" unfolding ask jobs by blast
  then show "info \<in> rqp_predicate_info ` set ps" by (force simp: predicate_of_def)
qed

lemma same_request:
  assumes "proved U P node_1_3 H req rc ms pf ks parts ns" "plain_request (payload req)" "i < length ks" "ks ! i = (k, as, ps)"
    and "build_proof_part U P H ms ns k as ps = Inr (c, parts ! i)"
    and "build_sub_proof_request U (get_revealed_attributes_for_credential i (pf_requested_proof pf) (payload req))
      (get_predicates_for_credential i (pf_requested_proof pf) (payload req)) = Inr r"
  shows "set (pp_request (parts ! i)) = set r"
proof (rule set_eqI)
  note f = proof_part_facts [OF assms(5)] and b = build_sub_proof_request_Inr [OF assms(6)]
  have "AddRevealedAttr x \<in> set (pp_request (parts ! i)) \<longleftrightarrow> AddRevealedAttr x \<in> set r" for x
    unfolding f(1) b(1) by (rule same_names [OF assms(1-4)])
  moreover have "AddPredicate x t v \<in> set (pp_request (parts ! i)) \<longleftrightarrow> AddPredicate x t v \<in> set r" for x t v
    unfolding f(2) b(2) same_predicates [OF assms(1-4), symmetric] by (simp only: image_image)
  ultimately show "c \<in> set (pp_request (parts ! i)) \<longleftrightarrow> c \<in> set r" for c by (cases c) simp_all
qed

text \<open>
  The ledger the verifier reads agrees with the holder: the same schemas and credential definitions, signatures that are
  genuine, and revocation registries in which the witnesses are fresh.
\<close>

definition ledger_agrees ::
  "('cp, 'nonce, 'bn, 'pk, 'rk, 'key, 'ak, 'reg) ursa \<Rightarrow> ('ms, 'mv, 'sig, 'key, 'reg, 'wit, 'cp, 'nonce) prover_ursa \<Rightarrow> bool \<Rightarrow>
    ('pk, 'rk, 'sig, 'scp, 'reg, 'wit) holder \<Rightarrow> ('pk, 'rk, 'ak, 'reg) published \<Rightarrow> 'nonce ProofRequest \<Rightarrow> 'ms \<Rightarrow>
    ('sig \<Rightarrow> 'mv value_call list \<Rightarrow> 'key \<Rightarrow> bool) \<Rightarrow> ('reg \<Rightarrow> 'wit \<Rightarrow> 'ak \<Rightarrow> bool) \<Rightarrow> bool" where
  "ledger_agrees U P node_1_3 H B req ms genuine fresh \<longleftrightarrow>
    (\<forall>k c. ho_credentials H (pk_cred_id k) = Some c \<longrightarrow>
      pub_schemas B (id_schema_id (named_identifier node_1_3 H req k)) = ho_schemas H (cr_schema_id c) \<and>
      pub_cred_defs B (id_cred_def_id (named_identifier node_1_3 H req k)) = ho_cred_defs H (cr_cred_def_id c) \<and>
      (\<forall>cd key vals. ho_cred_defs H (cr_cred_def_id c) = Some cd \<and>
        us_build_key U (cdd_primary (cd_value cd)) (cdd_revocation (cd_value cd)) = Inr key \<and>
        build_credential_values U P (cr_values c) (Some ms) = Inr vals \<longrightarrow> genuine (cr_signature c) vals key) \<and>
      (\<forall>t s. pk_timestamp k = Some t \<and> rev_state_of H c k = Inr (Some s) \<longrightarrow>
        (\<exists>rid rdef regs. id_rev_reg_id (named_identifier node_1_3 H req k) = Some rid \<and> pub_rev_reg_defs B rid = Some rdef \<and>
          pub_rev_regs B rid = Some regs \<and> regs t = Some (rs_rev_reg s) \<and>
          fresh (rs_rev_reg s) (rs_witness s) (rdv_accum_key (rd_value rdef)))))"

lemma rev_state_cases:
  "rev_state_of H c k = Inr x \<Longrightarrow> (pk_timestamp k = None \<and> x = None) \<or> (\<exists>t s. pk_timestamp k = Some t \<and> x = Some s)"
  by (auto simp: rev_state_of_def bindr_Inr_iff split: option.splits)

lemma proof_part_built:
  assumes "build_proof_part U P H ms ns k as ps = Inr (c, part)"
  obtains schema cd rs key cs vals where "ho_schemas H (cr_schema_id c) = Some schema" "ho_cred_defs H (cr_cred_def_id c) = Some cd"
    "rev_state_of H c k = Inr rs" "us_build_key U (cdd_primary (cd_value cd)) (cdd_revocation (cd_value cd)) = Inr key"
    "build_credential_schema U (sv_attr_names schema) = Inr cs" "build_credential_values U P (cr_values c) (Some ms) = Inr vals"
    "pp_schema part = cs" "pp_non_schema part = ns" "pp_signature part = cr_signature c" "pp_values part = vals"
    "pp_key part = key" "pp_rev_reg part = map_option rs_rev_reg rs" "pp_witness part = map_option rs_witness rs"
  using assms by (auto simp: build_proof_part_def bindr_Inr_iff)

lemma part_answered:
  assumes "proved U P node_1_3 H req rc ms pf ks parts ns" "plain_request (payload req)" "ursa_complete U P genuine fresh"
    and "ledger_agrees U P node_1_3 H B req ms genuine fresh" "i < length ks"
  shows "\<exists>sp. build_sub_proof U B (payload req) (pf_requested_proof pf) ns i (pf_identifiers pf ! i) = Inr sp \<and>
    answers_to genuine fresh (parts ! i) sp"
proof -
  let ?q = "payload req" and ?rp = "pf_requested_proof pf"
  obtain k as ps where ki: "ks ! i = (k, as, ps)" by (cases "ks ! i")
  let ?id = "named_identifier node_1_3 H req k"
  have at: "pf_identifiers pf ! i = ?id" using provedD(8) [OF assms(1)] assms(5) ki by simp
  obtain c where c: "build_proof_part U P H ms ns k as ps = Inr (c, parts ! i)" "ho_credentials H (pk_cred_id k) = Some c"
    by (rule proved_part [OF assms(1,5) ki])
  obtain schema cd rs key cs vals where b: "ho_schemas H (cr_schema_id c) = Some schema" "ho_cred_defs H (cr_cred_def_id c) = Some cd"
      "rev_state_of H c k = Inr rs" "us_build_key U (cdd_primary (cd_value cd)) (cdd_revocation (cd_value cd)) = Inr key"
      "build_credential_schema U (sv_attr_names schema) = Inr cs" "build_credential_values U P (cr_values c) (Some ms) = Inr vals"
      "pp_schema (parts ! i) = cs" "pp_non_schema (parts ! i) = ns" "pp_signature (parts ! i) = cr_signature c" "pp_values (parts ! i) = vals"
      "pp_key (parts ! i) = key" "pp_rev_reg (parts ! i) = map_option rs_rev_reg rs" "pp_witness (parts ! i) = map_option rs_witness rs"
    by (rule proof_part_built [OF c(1)])
  have l: "pub_schemas B (id_schema_id ?id) = Some schema" "pub_cred_defs B (id_cred_def_id ?id) = Some cd" "genuine (cr_signature c) vals key"
    using assms(4) c(2) b(1,2,4,6) unfolding ledger_agrees_def by simp_all
  have "names_of info = Inr (asked_names info)" if "info \<in> set (get_revealed_attributes_for_credential i ?rp ?q)" for info
    using that names_of_plain [OF assms(2)] unfolding asked_of_part(1) [OF assms(1,2)] by blast
  from sub_proof_request_total [OF assms(3) this, of "get_revealed_attributes_for_credential i ?rp ?q" "get_predicates_for_credential i ?rp ?q"]
  obtain r where r: "build_sub_proof_request U (get_revealed_attributes_for_credential i ?rp ?q) (get_predicates_for_credential i ?rp ?q) = Inr r"
    by blast
  note same = same_request [OF assms(1,2,5) ki c(1) r]
  show ?thesis
  proof (cases "pk_timestamp k")
    case None
    then have "rs = None" using rev_state_cases [OF b(3)] by auto
    moreover have "revocation_of B ?id = Inr (None, None)" using None by (simp add: revocation_of_def named_timestamp)
    ultimately show ?thesis using l r b same by (simp add: at build_sub_proof_def answers_to_def)
  next
    case (Some t)
    then obtain s where s: "rs = Some s" using rev_state_cases [OF b(3)] by auto
    with assms(4) c(2) b(3) Some obtain rid rdef regs where g: "id_rev_reg_id ?id = Some rid" "pub_rev_reg_defs B rid = Some rdef"
        "pub_rev_regs B rid = Some regs" "regs t = Some (rs_rev_reg s)" "fresh (rs_rev_reg s) (rs_witness s) (rdv_accum_key (rd_value rdef))"
      unfolding ledger_agrees_def by blast
    then have "revocation_of B ?id = Inr (Some rdef, Some (rs_rev_reg s))" using Some by (simp add: revocation_of_def named_timestamp)
    with s g(5) l r b same show ?thesis by (simp add: at build_sub_proof_def answers_to_def)
  qed
qed

lemma add_sub_proofs_total:
  assumes "\<And>j. j < length ids \<Longrightarrow> build_sub_proof U B q rp ns (i + j) (ids ! j) = Inr (sps ! j)" "length sps = length ids"
    and "\<And>j. j < length ids \<Longrightarrow> us_verifier_call U (added @ take (Suc j) sps) = Inr ()"
  shows "add_sub_proofs U B q rp ns i ids added = Inr (added @ sps)"
  using assms
proof (induction ids arbitrary: i sps added)
  case (Cons x ids)
  then obtain sp sps' where sps: "sps = sp # sps'" by (cases sps) auto
  have "build_sub_proof U B q rp ns i x = Inr sp" "us_verifier_call U (added @ [sp]) = Inr ()"
    using Cons.prems(1) [of 0] Cons.prems(3) [of 0] by (simp_all add: sps)
  moreover have "add_sub_proofs U B q rp ns (Suc i) ids (added @ [sp]) = Inr ((added @ [sp]) @ sps')"
    by (rule Cons.IH) (use Cons.prems(1) [of "Suc _"] Cons.prems(3) [of "Suc _"] Cons.prems(2) in \<open>simp_all add: sps\<close>)
  ultimately show ?case by (simp add: sps)
qed simp

lemma parts_verified:
  assumes "proved U P node_1_3 H req rc ms pf ks parts ns" "plain_request (payload req)" "ursa_complete U P genuine fresh"
    and "ledger_agrees U P node_1_3 H B req ms genuine fresh"
  obtains added where "add_sub_proofs U B (payload req) (pf_requested_proof pf) ns 0 (pf_identifiers pf) [] = Inr added"
    "us_verify U added (pf_proof pf) (pr_nonce (payload req)) = Inr True"
proof -
  have len: "length parts = length ks" "length (pf_identifiers pf) = length ks"
    using provedD(6,8) [OF assms(1)] by (simp_all add: proved_parts_def)
  from part_answered [OF assms] obtain sp where sp: "\<And>i. i < length ks \<Longrightarrow>
      build_sub_proof U B (payload req) (pf_requested_proof pf) ns i (pf_identifiers pf ! i) = Inr (sp i) \<and> answers_to genuine fresh (parts ! i) (sp i)"
    by metis
  let ?sps = "map sp [0..<length ks]"
  have all: "list_all2 (answers_to genuine fresh) parts ?sps" using sp by (simp add: list_all2_conv_all_nth len)
  have "add_sub_proofs U B (payload req) (pf_requested_proof pf) ns 0 (pf_identifiers pf) [] = Inr ([] @ ?sps)"
  proof (rule add_sub_proofs_total)
    fix j assume j: "j < length (pf_identifiers pf)"
    then show "build_sub_proof U B (payload req) (pf_requested_proof pf) ns (0 + j) (pf_identifiers pf ! j) = Inr (?sps ! j)"
      using sp by (simp add: len)
    obtain k as ps where "ks ! j = (k, as, ps)" by (cases "ks ! j")
    with j obtain c where "pu_add_sub_proof P (take (Suc j) parts) = Inr ()" using proved_part [OF assms(1)] by (metis len(2))
    moreover have "list_all2 (answers_to genuine fresh) (take (Suc j) parts) (take (Suc j) ?sps)" by (rule list_all2_takeI [OF all])
    ultimately show "us_verifier_call U ([] @ take (Suc j) ?sps) = Inr ()"
      using assms(3) unfolding ursa_complete_def by (metis append_Nil)
  qed (simp add: len)
  moreover have "us_verify U ?sps (pf_proof pf) (pr_nonce (payload req)) = Inr True"
    using assms(3) provedD(7) [OF assms(1)] all unfolding ursa_complete_def by blast
  ultimately show thesis using that by simp
qed

section \<open>Completeness\<close>

text \<open>
  C22: A proof that \<^verbatim>\<open>create_proof\<close> makes is accepted by \<^verbatim>\<open>verify\<close>. The chosen credentials are those that the request
  asks for, they satisfy the restrictions and have timestamps where the request asks for non-revocation, the
  ledger agrees with the holder, and the proof system is complete.\<close>

theorem honest_proof_accepted:
  assumes "create_proof U P node_1_3 H req rc ms = Inr pf"
    and "ursa_complete U P genuine fresh" "std_ok U" "order_ok P"
    and "plain_request (payload req)" "credential_maps rc" "covers rc (payload req)" "credentials_clear U H"
    and "restrictions_fit U node_1_3 H req rc" "times_fit rc (payload req)"
    and "ledger_agrees U P node_1_3 H B req ms genuine fresh"
  shows "verify U pf (payload req) B = Inr True"
proof -
  from create_proof_proved [OF assms(1,6,4)] obtain ks parts ns where p: "proved U P node_1_3 H req rc ms pf ks parts ns" by blast
  obtain revealed unrevealed predicates where r: "received_revealed_attrs pf = Inr revealed"
    "received_unrevealed_attrs pf = Inr unrevealed" "received_predicates pf = Inr predicates"
    by (rule received_total [OF p])
  obtain added where "add_sub_proofs U B (payload req) (pf_requested_proof pf) ns 0 (pf_identifiers pf) [] = Inr added"
    "us_verify U added (pf_proof pf) (pr_nonce (payload req)) = Inr True"
    by (rule parts_verified [OF p assms(5,2,11)])
  moreover have "us_verifier_call U [] = Inr ()" using assms(2) by (simp add: ursa_complete_def)
  ultimately show ?thesis
    using r provedD(5) [OF p] attrs_compared [OF p assms(6,5,7) r] values_verified [OF p assms(2,3,8,5)]
      restrictions_verified [OF p assms(6,5,3,7,9) r] times_compared [OF p assms(6,5,7,10) r]
    by (simp add: verify_def Let_def)
qed

end
