(* ===== verification/Prover_Search.thy ===== *)
theory Prover_Search
  imports Prover Verifier_Sound Wql
begin

text \<open>
  The search for credentials against the check of the verifier: the wallet query that the prover makes from the
  restrictions of a request finds a credential, by its tags, exactly when the verifier will admit it.
\<close>

section \<open>The tags of a credential\<close>

definition known_tags :: "string list" where
  "known_tags = [''schema_id'', ''schema_issuer_did'', ''schema_name'', ''schema_version'', ''cred_def_id'', ''issuer_did'']"

lemma known_not_attr: "tag \<in> set known_tags \<Longrightarrow> take 6 tag \<noteq> ''attr::''"
  by (auto simp: known_tags_def)

lemma attr_tag_prefix: "take 6 (build_attr_value_tag U a) = ''attr::''" "take 6 (build_attr_marker_tag U a) = ''attr::''"
  by (simp_all add: build_attr_value_tag_def build_attr_marker_tag_def)

lemma value_tag_eq: "build_attr_value_tag U a = build_attr_value_tag U b \<longleftrightarrow> attr_common_view U a = attr_common_view U b"
  "build_attr_marker_tag U a = build_attr_marker_tag U b \<longleftrightarrow> attr_common_view U a = attr_common_view U b"
  by (simp_all add: build_attr_value_tag_def build_attr_marker_tag_def)

lemma value_neq_marker: "build_attr_value_tag U a \<noteq> build_attr_marker_tag U b"
proof
  assume "build_attr_value_tag U a = build_attr_marker_tag U b"
  then have "last (build_attr_value_tag U a) = last (build_attr_marker_tag U b)" by simp
  then show False by (simp add: build_attr_value_tag_def build_attr_marker_tag_def)
qed

lemma attr_tags_other:
  "take 6 k \<noteq> ''attr::'' \<Longrightarrow> map_of (fold (insert_attr_tags U catpol) vs res) k = map_of res k"
proof (induction vs arbitrary: res)
  case (Cons p vs)
  moreover have "k \<noteq> build_attr_value_tag U (fst p)" "k \<noteq> build_attr_marker_tag U (fst p)"
    using Cons.prems attr_tag_prefix by metis+
  ultimately show ?case by (simp add: insert_attr_tags_def update_conv' case_prod_unfold)
qed simp

lemma attr_value_stays:
  "attr_common_view U a \<notin> (\<lambda>p. attr_common_view U (fst p)) ` set vs \<Longrightarrow>
    map_of (fold (insert_attr_tags U catpol) vs res) (build_attr_value_tag U a) = map_of res (build_attr_value_tag U a)"
  by (induction vs arbitrary: res)
    (auto simp: insert_attr_tags_def update_conv' case_prod_unfold value_tag_eq value_neq_marker)

lemma attr_value_tag:
  assumes "distinct (map (\<lambda>p. attr_common_view U (fst p)) vs)" "(a, v) \<in> set vs"
  shows "map_of (fold (insert_attr_tags U None) vs res) (build_attr_value_tag U a) = Some (cv_raw v)"
  using assms
proof (induction vs arbitrary: res)
  case (Cons p vs)
  show ?case
  proof (cases "p = (a, v)")
    case True
    with Cons.prems show ?thesis by (simp add: attr_value_stays) (simp add: insert_attr_tags_def update_conv')
  next
    case False
    with Cons show ?thesis by simp
  qed
qed simp

lemma attr_marker_stays:
  "map_of res (build_attr_marker_tag U a) = Some ATTRIBUTE_EXISTENCE_MARKER \<Longrightarrow>
    map_of (fold (insert_attr_tags U catpol) vs res) (build_attr_marker_tag U a) = Some ATTRIBUTE_EXISTENCE_MARKER"
  by (induction vs arbitrary: res)
    (auto simp: insert_attr_tags_def update_conv' case_prod_unfold value_neq_marker [symmetric])

lemma attr_marker_tag:
  "a \<in> fst ` set vs \<Longrightarrow>
    map_of (fold (insert_attr_tags U None) vs res) (build_attr_marker_tag U a) = Some ATTRIBUTE_EXISTENCE_MARKER"
proof (induction vs arbitrary: res)
  case (Cons p vs)
  show ?case
  proof (cases "fst p = a")
    case True
    have "map_of (insert_attr_tags U None p res) (build_attr_marker_tag U a) = Some ATTRIBUTE_EXISTENCE_MARKER"
      by (simp add: insert_attr_tags_def update_conv' case_prod_unfold value_neq_marker [symmetric] True)
    then show ?thesis by (simp add: attr_marker_stays)
  next
    case False
    with Cons show ?thesis by simp
  qed
qed simp

lemma attr_marker_absent:
  "attr_common_view U n \<notin> (\<lambda>p. attr_common_view U (fst p)) ` set vs \<Longrightarrow>
    map_of (fold (insert_attr_tags U catpol) vs res) (build_attr_marker_tag U n) = map_of res (build_attr_marker_tag U n)"
  by (induction vs arbitrary: res)
    (auto simp: insert_attr_tags_def update_conv' case_prod_unfold value_tag_eq value_neq_marker [symmetric])

lemma tags_fold:
  assumes "build_credential_tags U node_1_3 c catpol = Inr T"
  obtains res where "T = fold (insert_attr_tags U catpol) (cr_values c) res" "\<forall>k\<in>fst ` set res. take 6 k \<noteq> ''attr::''"
  using assms
  by (auto simp: build_credential_tags_def bindr_Inr_iff Let_def add_extra_tag_suffix_def split: if_splits)

lemma values_for_attribute:
  assumes "get_credential_values_for_attribute U vs n = Some v"
  obtains a where "(a, v) \<in> set vs" "attr_common_view U a = attr_common_view U n"
  using assms by (fastforce simp: get_credential_values_for_attribute_def find_Some_iff in_set_conv_nth)

text \<open>The tag of every field that the verifier filters by has the value that the verifier sees.\<close>

lemma known_tag_value:
  assumes "build_credential_tags U node_1_3 c catpol = Inr T" "tag \<in> set known_tags"
  shows "\<exists>f w. filter_of (proof_identifier node_1_3 V2 c ts) = Inr f \<and> map_of T tag = Some w \<and>
    (\<forall>v. tag_holds U m f tag v \<longleftrightarrow> v = w)"
proof -
  have t: "attr_request_by_marker tag = None" "attr_request_by_value tag = None"
    using known_not_attr [OF assms(2)] not_attr_tag by simp_all
  show ?thesis
    using assms unfolding tag_holds_def t
    by (auto simp: build_credential_tags_def filter_of_def gather_filter_info_def proof_identifier_def bindr_Inr_iff Let_def
        attr_tags_other known_tags_def update_conv' add_extra_tag_suffix_def split: prod.splits)
qed

lemma revealed_tag_value:
  assumes "build_credential_tags U node_1_3 c None = Inr T" "distinct (map (\<lambda>p. attr_common_view U (fst p)) (cr_values c))"
    and "attr_request_by_value tag = Some a"
    and "\<exists>(n, x)\<in>set m. attr_common_view U n = attr_common_view U a"
    and "\<forall>(n, x)\<in>set m. \<exists>v. get_credential_values_for_attribute U (cr_values c) n = Some v \<and> x = Some (cv_raw v)"
  shows "\<exists>w. map_of T (insensitive_tag U tag) = Some w \<and> (\<forall>v. tag_holds U m f tag v \<longleftrightarrow> v = w)"
proof -
  let ?found = "List.find (\<lambda>(k, _). attr_common_view U k = attr_common_view U a) m"
  from assms(4) have "?found \<noteq> None" by (auto simp: find_None_iff)
  then obtain n x where f: "?found = Some (n, x)" by auto
  then have n: "(n, x) \<in> set m" "attr_common_view U n = attr_common_view U a"
    by (auto simp: find_Some_iff in_set_conv_nth)
  with assms(5) obtain v where v: "get_credential_values_for_attribute U (cr_values c) n = Some v" "x = Some (cv_raw v)" by blast
  from values_for_attribute [OF v(1)] obtain b where b: "(b, v) \<in> set (cr_values c)" "attr_common_view U b = attr_common_view U n"
    by blast
  obtain res where "T = fold (insert_attr_tags U None) (cr_values c) res" by (rule tags_fold [OF assms(1)])
  then have "map_of T (build_attr_value_tag U b) = Some (cv_raw v)" using attr_value_tag [OF assms(2) b(1)] by simp
  moreover have "insensitive_tag U tag = build_attr_value_tag U b" using assms(3) b(2) n(2) by (simp add: value_tag_eq)
  moreover have "tag_holds U m f tag u \<longleftrightarrow> u = cv_raw v" for u
  proof -
    have "take 6 tag = ''attr::''" using tag_shape(1) [OF assms(3)] by simp
    then have "tag \<notin> set known_tags" using known_not_attr by blast
    then show ?thesis using assms(3) value_not_marker [OF assms(3)] f v(2) by (auto simp: tag_holds_def known_tags_def)
  qed
  ultimately show ?thesis by auto
qed

section \<open>Queries\<close>

fun over_tags :: "(string \<Rightarrow> bool) \<Rightarrow> Query \<Rightarrow> bool" where
  "over_tags P (QAnd qs) \<longleftrightarrow> list_all (over_tags P) qs"
| "over_tags P (QOr qs) \<longleftrightarrow> list_all (over_tags P) qs"
| "over_tags P (QNot q) \<longleftrightarrow> over_tags P q"
| "over_tags P (QEq n _) \<longleftrightarrow> P n"
| "over_tags P (QNeq n _) \<longleftrightarrow> P n"
| "over_tags P (QGt n _) \<longleftrightarrow> P n"
| "over_tags P (QGte n _) \<longleftrightarrow> P n"
| "over_tags P (QLt n _) \<longleftrightarrow> P n"
| "over_tags P (QLte n _) \<longleftrightarrow> P n"
| "over_tags P (QLike n _) \<longleftrightarrow> P n"
| "over_tags P (QIn n _) \<longleftrightarrow> P n"

text \<open>A tag of a restriction that speaks of what the request asks for: a field of the credential, or the value of a requested name.\<close>

definition asked_tag :: "('cp, 'nonce, 'bn, 'pk, 'rk, 'key, 'ak, 'reg) ursa \<Rightarrow> string list \<Rightarrow> string \<Rightarrow> bool" where
  "asked_tag U names tag \<longleftrightarrow> tag \<in> set known_tags \<or>
    (case attr_request_by_value tag of
       Some a \<Rightarrow> list_ex (\<lambda>n. attr_common_view U n = attr_common_view U a) names
     | None \<Rightarrow> False)"

lemma insensitive_sat:
  assumes "make_restrictions_case_insensitive U q = Inr q'"
    and "over_tags (\<lambda>tag. \<exists>w. tags (insensitive_tag U tag) = Some w \<and> (\<forall>v. tag_holds U m f tag v \<longleftrightarrow> v = w)) q"
  shows "sat like tags q' \<longleftrightarrow> admits U m f q"
  using assms
proof (induction U q arbitrary: q' rule: make_restrictions_case_insensitive.induct)
  case (4 U qs)
  then obtain qs' where q': "traverse (make_restrictions_case_insensitive U) qs = Inr qs'" "q' = QAnd qs'" by (auto simp: bindr_Inr_iff)
  have "list_all2 (\<lambda>q r. sat like tags r \<longleftrightarrow> admits U m f q) qs qs'"
    using q'(1) [unfolded traverse_Inr_list_all2] "4.IH" "4.prems"(2)
    by (auto simp: list_all_iff elim!: list.rel_mono_strong)
  then show ?case unfolding q'(2) by (induction rule: list_all2_induct) auto
next
  case (5 U qs)
  then obtain qs' where q': "traverse (make_restrictions_case_insensitive U) qs = Inr qs'" "q' = QOr qs'" by (auto simp: bindr_Inr_iff)
  have "list_all2 (\<lambda>q r. sat like tags r \<longleftrightarrow> admits U m f q) qs qs'"
    using q'(1) [unfolded traverse_Inr_list_all2] "5.IH" "5.prems"(2)
    by (auto simp: list_all_iff elim!: list.rel_mono_strong)
  then show ?case unfolding q'(2) by (induction rule: list_all2_induct) auto
next
  case (6 U q)
  then show ?case by (auto simp: bindr_Inr_iff)
next
  case (1 U n v)
  then show ?case by (clarsimp simp: tag_sat_def simp del: insensitive_tag.simps) auto
next
  case (2 U n v)
  then show ?case by (clarsimp simp: tag_sat_def simp del: insensitive_tag.simps) auto
next
  case (3 U n vs)
  then show ?case by (clarsimp simp: tag_sat_def simp del: insensitive_tag.simps)
qed simp_all

lemma over_tags_mono: "over_tags P q \<Longrightarrow> (\<And>t. P t \<Longrightarrow> Q t) \<Longrightarrow> over_tags Q q"
  by (induction P q rule: over_tags.induct) (auto simp: list_all_iff)

lemma request_marker:
  assumes "build_credential_tags U node_1_3 c None = Inr T"
  shows "map_of T (build_attr_marker_tag U n) =
    (if get_credential_values_for_attribute U (cr_values c) n = None then None else Some ATTRIBUTE_EXISTENCE_MARKER)"
proof (cases "get_credential_values_for_attribute U (cr_values c) n")
  case None
  then have n: "attr_common_view U n \<notin> (\<lambda>p. attr_common_view U (fst p)) ` set (cr_values c)"
    by (auto simp: get_credential_values_for_attribute_def find_None_iff)
  obtain res where res: "T = fold (insert_attr_tags U None) (cr_values c) res" "\<forall>k\<in>fst ` set res. take 6 k \<noteq> ''attr::''"
    by (rule tags_fold [OF assms])
  have "map_of res (build_attr_marker_tag U n) = None"
    using res(2) attr_tag_prefix(2) [of U n] by (metis map_of_eq_None_iff)
  with None n res(1) show ?thesis by (simp add: attr_marker_absent)
next
  case (Some v)
  then obtain a where a: "(a, v) \<in> set (cr_values c)" "attr_common_view U a = attr_common_view U n" by (rule values_for_attribute)
  then have "a \<in> fst ` set (cr_values c)" "build_attr_marker_tag U n = build_attr_marker_tag U a" by (force simp: value_tag_eq)+
  moreover obtain res where "T = fold (insert_attr_tags U None) (cr_values c) res" by (rule tags_fold [OF assms])
  ultimately show ?thesis using Some by (simp add: attr_marker_tag)
qed

text \<open>
  The verifier admits a credential for an attribute, or a group, with these names: it has them, and under the restrictions the
  values that the proof would reveal are admitted.
\<close>

definition revealed_map ::
  "('cp, 'nonce, 'bn, 'pk, 'rk, 'key, 'ak, 'reg) ursa \<Rightarrow> (string \<times> AttributeValues) list \<Rightarrow> string list \<Rightarrow> (string \<times> string option) list" where
  "revealed_map U vs names = map (\<lambda>n. (n, map_option cv_raw (get_credential_values_for_attribute U vs n))) names"

definition credential_admitted ::
  "('cp, 'nonce, 'bn, 'pk, 'rk, 'key, 'ak, 'reg) ursa \<Rightarrow> bool \<Rightarrow> string list \<Rightarrow> Query \<Rightarrow> ('sig, 'scp, 'reg, 'wit) Credential \<Rightarrow> bool" where
  "credential_admitted U node_1_3 names q c \<longleftrightarrow>
    list_all (\<lambda>n. get_credential_values_for_attribute U (cr_values c) n \<noteq> None) names \<and>
    is_ok (bindr (filter_of (proof_identifier node_1_3 V2 c None)) (do_process_operator U (revealed_map U (cr_values c) names) q))"

text \<open>
  The wallet query that the prover builds for a requested attribute (one name, or a group of names) of a request with
  qualified identifiers finds a credential exactly when the verifier admits it. The restrictions speak of the fields of a
  credential and of the values of requested names; the names of the credential differ in their common view.
\<close>

lemma search_finds_admitted:
  assumes "build_credential_tags U node_1_3 c None = Inr T"
    and "distinct (map (\<lambda>p. attr_common_view U (fst p)) (cr_values c))"
    and "name = None \<and> names' = Some names \<or> names = [the name] \<and> name \<noteq> None \<and> names' = None"
    and "over_tags (asked_tag U names) q"
    and "process_proof_request_restrictions U V2 name names' referent (Some q) None = Inr w"
  shows "sat like (map_of T) w \<longleftrightarrow> credential_admitted U node_1_3 names q c"
proof -
  let ?m = "revealed_map U (cr_values c) names"
  obtain f where f: "filter_of (proof_identifier node_1_3 V2 c None) = Inr f"
    using known_tag_value [OF assms(1), of "''schema_id''" None] by (auto simp: known_tags_def)
  from assms(3,5) obtain q' where q': "make_restrictions_case_insensitive U q = Inr q'"
    "w = QAnd (q' # map (\<lambda>n. QEq (build_attr_marker_tag U n) ATTRIBUTE_EXISTENCE_MARKER) names)"
    by (auto simp: process_proof_request_restrictions_def bindr_Inr_iff Let_def)
  have s: "sat like (map_of T) w \<longleftrightarrow> sat like (map_of T) q' \<and> (\<forall>n\<in>set names. get_credential_values_for_attribute U (cr_values c) n \<noteq> None)"
    by (auto simp: q'(2) tag_sat_def request_marker [OF assms(1)])
  show ?thesis
  proof (cases "\<forall>n\<in>set names. get_credential_values_for_attribute U (cr_values c) n \<noteq> None")
    case True
    have tag: "\<exists>w. map_of T (insensitive_tag U tag) = Some w \<and> (\<forall>v. tag_holds U ?m f tag v \<longleftrightarrow> v = w)" if "asked_tag U names tag" for tag
    proof (cases "tag \<in> set known_tags")
      case True
      then have "insensitive_tag U tag = tag" using known_not_attr not_attr_tag by simp
      with known_tag_value [OF assms(1) True, of None ?m] f show ?thesis by simp
    next
      case False
      with that obtain a where a: "attr_request_by_value tag = Some a" "\<exists>n\<in>set names. attr_common_view U n = attr_common_view U a"
        by (auto simp: asked_tag_def list_ex_iff split: option.splits)
      show ?thesis
        by (rule revealed_tag_value [OF assms(1,2) a(1)]) (use a(2) True in \<open>auto simp: revealed_map_def\<close>)
    qed
    have "sat like (map_of T) q' \<longleftrightarrow> admits U ?m f q" by (rule insensitive_sat [OF q'(1) over_tags_mono [OF assms(4) tag]])
    with s True f show ?thesis by (simp add: credential_admitted_def do_process_operator_admits list_all_iff)
  next
    case False
    with s show ?thesis by (auto simp: credential_admitted_def list_all_iff)
  qed
qed

text \<open>
  C24: in a request with unqualified identifiers, \<open>$neq\<close> on an identifier is searched for under the short tag too, which
  only credentials with qualified identifiers have: no other credential is ever found by such a restriction.\<close>

theorem neq_restriction_finds_none:
  assumes "build_credential_tags U node_1_3 c catpol = Inr T" "\<not> cred_def_is_fully_qualified (cr_cred_def_id c)"
    and "tag \<in> set QUALIFIABLE_TAGS"
    and "process_proof_request_restrictions U V1 name names referent (Some (QNeq tag v)) extra = Inr w"
  shows "\<not> sat like (map_of T) w"
proof -
  have t: "take 6 tag \<noteq> ''attr::''" "take 6 (add_extra_tag_suffix tag) \<noteq> ''attr::''"
    using assms(3) by (auto simp: QUALIFIABLE_TAGS_def add_extra_tag_suffix_def)
  then have "insensitive_tag U tag = tag" using not_attr_tag by simp
  with assms(3,4) obtain qs where w: "w = QAnd (QAnd [QNeq tag v, QNeq (add_extra_tag_suffix tag) v] # qs)"
    by (auto simp: process_proof_request_restrictions_def bindr_Inr_iff Let_def simp del: insensitive_tag.simps)
  have "map_of T (add_extra_tag_suffix tag) = None"
  proof -
    from assms(1,2,3) obtain res where "T = fold (insert_attr_tags U catpol) (cr_values c) res"
        "map_of res (add_extra_tag_suffix tag) = None"
      by (auto simp: build_credential_tags_def bindr_Inr_iff Let_def update_conv' QUALIFIABLE_TAGS_def add_extra_tag_suffix_def)
    then show ?thesis by (simp add: attr_tags_other [OF t(2)])
  qed
  then show ?thesis by (simp add: w tag_sat_def)
qed

end
