(* ===== verification/Verifier_Limits.thy ===== *)
theory Verifier_Limits
  imports Verifier_Blind
begin

text \<open>
  Concrete proofs for the properties of the verifier, and what the verifier does not establish: how a prover evades a
  restriction by answering a referent twice, the values outside the cryptographic proof, the
  bounds of the non-revocation interval, and the negations of a request whose qualifiers are dropped.
\<close>

section \<open>A small proof system\<close>

text \<open>
  A proof shows the credentials themselves: the key, all values, and the values that are revealed. It is accepted if the
  credentials were issued. Numbers are compared as decimals.
\<close>

type_synonym toy_part = "string \<times> (string \<times> string) list \<times> (string \<times> string) list"

definition toy_lower_char :: "char \<Rightarrow> char" where
  "toy_lower_char c =
    (case map_of (zip ''ABCDEFGHIJKLMNOPQRSTUVWXYZ'' ''abcdefghijklmnopqrstuvwxyz'') c of Some d \<Rightarrow> d | None \<Rightarrow> c)"

definition toy_lower :: "string \<Rightarrow> string" where
  "toy_lower s = map toy_lower_char s"

definition toy_credentials :: "(string \<times> (string \<times> string) list) list" where
  "toy_credentials =
    [(''kg'', [(''name'', ''77''), (''age'', ''21'')]), (''km'', [(''name'', ''99'')])]"

definition toy_vals :: "(string \<times> string) list \<Rightarrow> string \<Rightarrow> string" where
  "toy_vals vs a = (case map_of vs a of Some x \<Rightarrow> x | None \<Rightarrow> [])"

definition toy_issued :: "string \<Rightarrow> (string \<Rightarrow> string) \<Rightarrow> bool" where
  "toy_issued k vals \<longleftrightarrow> (\<exists>vs. (k, vs) \<in> set toy_credentials \<and> vals = toy_vals vs)"

definition toy_meets :: "string \<Rightarrow> string \<Rightarrow> 32 word \<Rightarrow> bool" where
  "toy_meets t x v = (case parse_digits 0 x of Some n \<Rightarrow> t = ''GE'' \<and> sint v \<le> int n | None \<Rightarrow> False)"

fun toy_revealed_name :: "request_call \<Rightarrow> string option" where
  "toy_revealed_name (AddRevealedAttr a) = Some a"
| "toy_revealed_name (AddPredicate a t v) = None"

fun toy_predicate_ok :: "(string \<times> string) list \<Rightarrow> request_call \<Rightarrow> bool" where
  "toy_predicate_ok vs (AddRevealedAttr a) = True"
| "toy_predicate_ok vs (AddPredicate a t v) = toy_meets t (toy_vals vs a) v"

definition toy_check :: "(string, unit, unit) sub_proof \<Rightarrow> toy_part \<Rightarrow> bool" where
  "toy_check sp = (\<lambda>(k, vs, rs).
    sp_key sp = k \<and> (k, vs) \<in> set toy_credentials \<and> distinct (map fst rs) \<and>
    set (map fst rs) = set (List.map_filter toy_revealed_name (sp_request sp)) \<and>
    list_all (\<lambda>(a, e). toy_vals vs a = e) rs \<and> list_all (toy_predicate_ok vs) (sp_request sp))"

definition toy_ursa :: "(toy_part list, nat, string, string, unit, string, unit, unit) ursa" where
  "toy_ursa = \<lparr>us_lowercase = toy_lower, us_from_dec = Inr, us_sub_proofs = map (\<lambda>(k, vs, rs). Inr rs),
    us_schema_call = (\<lambda>_. Inr ()), us_schema_finalize = (\<lambda>_. Inr ()), us_non_schema_call = (\<lambda>_. Inr ()),
    us_non_schema_finalize = (\<lambda>_. Inr ()), us_request_call = (\<lambda>_. Inr ()), us_request_finalize = (\<lambda>_. Inr ()),
    us_build_key = (\<lambda>k _. Inr k), us_verifier_call = (\<lambda>_. Inr ()),
    us_verify = (\<lambda>added cp n. Inr (list_all2 toy_check added cp)), us_order_attrs = (\<lambda>xs. xs), us_order_values = (\<lambda>_ _ xs. xs)\<rparr>"

lemma toy_sound: "ursa_sound toy_ursa toy_issued toy_meets"
proof -
  have "part_sound toy_ursa toy_issued toy_meets sp (Inr rs)" if "toy_check sp (k, vs, rs)" for sp k vs rs
  proof -
    from that have c: "sp_key sp = k" "(k, vs) \<in> set toy_credentials" "distinct (map fst rs)"
        "set (map fst rs) = set (List.map_filter toy_revealed_name (sp_request sp))"
        "\<forall>(a, e)\<in>set rs. toy_vals vs a = e" "\<forall>c\<in>set (sp_request sp). toy_predicate_ok vs c"
      by (auto simp: toy_check_def list_all_iff)
    have "set (map fst rs) = {a. AddRevealedAttr a \<in> set (sp_request sp)}"
    proof -
      have "toy_revealed_name c = Some a \<longleftrightarrow> c = AddRevealedAttr a" for c a by (cases c) auto
      then show ?thesis unfolding c(4) by (auto simp: set_flat_map)
    qed
    with c show ?thesis unfolding part_sound_def
      by (intro exI [of _ rs] exI [of _ "toy_vals vs"]) (force simp: toy_issued_def toy_ursa_def)
  qed
  then have "list_all2 (part_sound toy_ursa toy_issued toy_meets) added (us_sub_proofs toy_ursa cp)"
    if "list_all2 toy_check added cp" for added cp
    using that by (auto simp: toy_ursa_def list.rel_map elim!: list.rel_mono_strong)
  then show ?thesis by (simp add: ursa_sound_def toy_ursa_def)
qed

lemma toy_lower_char:
  "toy_lower_char (toy_lower_char c) = toy_lower_char c" "c \<noteq> CHR '' '' \<Longrightarrow> toy_lower_char c \<noteq> CHR '' ''"
proof -
  let ?low = "''abcdefghijklmnopqrstuvwxyz''"
  have "list_all (\<lambda>d. toy_lower_char d = d \<and> d \<noteq> CHR '' '') ?low" by code_simp
  then have low: "toy_lower_char d = d \<and> d \<noteq> CHR '' ''" if "d \<in> set ?low" for d
    using that unfolding list_all_iff by blast
  have "toy_lower_char c = c \<or> toy_lower_char c \<in> set ?low"
  proof (cases "map_of (zip ''ABCDEFGHIJKLMNOPQRSTUVWXYZ'' ?low) c")
    case None
    then show ?thesis unfolding toy_lower_char_def by (simp only: option.case simp_thms)
  next
    case (Some d)
    then have "toy_lower_char c = d" unfolding toy_lower_char_def by (simp only: option.case)
    moreover have "d \<in> set ?low" using map_of_SomeD [OF Some] by (rule set_zip_rightD)
    ultimately show ?thesis by blast
  qed
  then show "toy_lower_char (toy_lower_char c) = toy_lower_char c" "c \<noteq> CHR '' '' \<Longrightarrow> toy_lower_char c \<noteq> CHR '' ''"
    using low by metis+
qed

lemma toy_lower_idem:
  "toy_lower (toy_lower t) = toy_lower t" "CHR '' '' \<notin> set t \<Longrightarrow> filter (\<lambda>c. c \<noteq> CHR '' '') (toy_lower t) = toy_lower t"
proof -
  show "toy_lower (toy_lower t) = toy_lower t" by (simp add: toy_lower_def toy_lower_char(1))
  show "CHR '' '' \<notin> set t \<Longrightarrow> filter (\<lambda>c. c \<noteq> CHR '' '') (toy_lower t) = toy_lower t"
    unfolding toy_lower_def filter_id_conv using toy_lower_char(2) by (metis imageE list.set_map)
qed

lemma toy_view: "attr_common_view toy_ursa (attr_common_view toy_ursa s) = attr_common_view toy_ursa s"
proof -
  have v: "attr_common_view toy_ursa t = toy_lower (filter (\<lambda>c. c \<noteq> CHR '' '') t)" for t
    by (simp add: attr_common_view_def toy_ursa_def)
  have "CHR '' '' \<notin> set (filter (\<lambda>c. c \<noteq> CHR '' '') s)" by simp
  from toy_lower_idem(2) [OF this] show ?thesis unfolding v by (simp only: toy_lower_idem(1))
qed

lemma toy_std: "std_ok toy_ursa"
  using toy_view by (simp add: std_ok_def toy_ursa_def)

section \<open>A request and its proofs\<close>

definition toy_published :: "(string, unit, unit, unit) published" where
  "toy_published = \<lparr>
    pub_schemas = (\<lambda>_. Some \<lparr>sv_id = SchemaId ''Gov:2:id:1.0'', sv_name = ''id'', sv_version = ''1.0'',
      sv_attr_names = [''Name'', ''age''], sv_seq_no = None\<rparr>),
    pub_cred_defs = (\<lambda>i. Some \<lparr>cd_id = i, cd_schema_id = SchemaId ''7'', cd_signature_type = CL, cd_tag = ''t'',
      cd_value = \<lparr>cdd_primary = (if i = CredentialDefinitionId ''Gov:3:CL:7:t'' then ''kg'' else ''km''), cdd_revocation = None\<rparr>\<rparr>),
    pub_rev_reg_defs = (\<lambda>_. None), pub_rev_regs = (\<lambda>_. None)\<rparr>"

definition toy_name_info :: AttributeInfo where
  "toy_name_info = \<lparr>ai_name = Some ''Name'', ai_names = None, ai_restrictions = Some (QEq ''issuer_did'' ''Gov''),
    ai_non_revoked = None\<rparr>"

definition toy_age_info :: PredicateInfo where
  "toy_age_info = \<lparr>pi_name = ''Age'', pi_p_type = GE, pi_p_value = 18,
    pi_restrictions = Some (QIn ''cred_def_id'' [''Gov:3:CL:7:t'']), pi_non_revoked = None\<rparr>"

definition toy_request :: "nat ProofRequestPayload" where
  "toy_request = \<lparr>pr_nonce = 5, pr_name = ''r'', pr_version = ''1'', pr_requested_attributes = [(''a'', toy_name_info)],
    pr_requested_predicates = [(''p'', toy_age_info)], pr_non_revoked = None\<rparr>"

definition toy_gov :: Identifier where
  "toy_gov = \<lparr>id_schema_id = SchemaId ''Gov:2:id:1.0'', id_cred_def_id = CredentialDefinitionId ''Gov:3:CL:7:t'',
    id_rev_reg_id = None, id_timestamp = None\<rparr>"

definition toy_mal :: Identifier where
  "toy_mal = \<lparr>id_schema_id = SchemaId ''Mal:2:id:1.0'', id_cred_def_id = CredentialDefinitionId ''Mal:3:CL:8:t'',
    id_rev_reg_id = None, id_timestamp = None\<rparr>"

text \<open>The holder of a credential of \<open>Gov\<close> reveals its name and shows its age.\<close>

definition honest_proof :: "toy_part list FullProof" where
  "honest_proof = \<lparr>
    pf_proof = [(''kg'', [(''name'', ''77''), (''age'', ''21'')], [(''name'', ''77'')])],
    pf_requested_proof = \<lparr>
      rp_revealed_attrs = [(''a'', \<lparr>rai_index = 0, rai_raw = ''Ann'', rai_encoded = ''77''\<rparr>)],
      rp_revealed_attr_groups = [], rp_self_attested_attrs = [], rp_unrevealed_attrs = [],
      rp_predicates = [(''p'', \<lparr>spr_index = 0\<rparr>)]\<rparr>,
    pf_identifiers = [toy_gov]\<rparr>"

text \<open>The name comes from a credential of \<open>Mal\<close>, the age from one of \<open>Gov\<close>.\<close>

definition mixed_proof :: "toy_part list FullProof" where
  "mixed_proof = \<lparr>
    pf_proof = [(''kg'', [(''name'', ''77''), (''age'', ''21'')], []), (''km'', [(''name'', ''99'')], [(''name'', ''99'')])],
    pf_requested_proof = \<lparr>
      rp_revealed_attrs = [(''a'', \<lparr>rai_index = 1, rai_raw = ''King'', rai_encoded = ''99''\<rparr>)],
      rp_revealed_attr_groups = [], rp_self_attested_attrs = [], rp_unrevealed_attrs = [],
      rp_predicates = [(''p'', \<lparr>spr_index = 0\<rparr>)]\<rparr>,
    pf_identifiers = [toy_gov, toy_mal]\<rparr>"

lemma honest_accepted: "verify toy_ursa honest_proof toy_request toy_published = Inr True"
  by code_simp

lemma toy_maps:
  "hash_maps toy_request (pf_requested_proof honest_proof)" "unambiguous (pf_requested_proof honest_proof)"
  "hash_maps toy_request (pf_requested_proof mixed_proof)"
  by (simp_all add: hash_maps_def unambiguous_def toy_request_def honest_proof_def mixed_proof_def)

text \<open>Witness for C20: the name that \<open>honest_proof\<close> reveals.\<close>

theorem accepted_attribute_witness: "attribute_answered toy_ursa toy_published toy_issued honest_proof ''a'' toy_name_info"
  by (rule accepted_attribute [OF honest_accepted toy_sound toy_std toy_maps(1,2)]) (simp add: toy_request_def)

text \<open>Witness for C21: the age that \<open>honest_proof\<close> shows.\<close>

theorem accepted_predicate_witness:
  "\<exists>p vals. (''p'', p) \<in> set (rp_predicates (pf_requested_proof honest_proof)) \<and>
    credential_behind toy_ursa toy_published toy_issued honest_proof (spr_index p) vals \<and>
    toy_meets (predicate_type_str (pi_p_type toy_age_info)) (vals (attr_common_view toy_ursa (pi_name toy_age_info)))
      (pi_p_value toy_age_info) \<and>
    restricted toy_ursa honest_proof (spr_index p) (predicate_value_map toy_ursa toy_request honest_proof ''p'' toy_age_info (spr_index p))
      (pi_restrictions toy_age_info)"
  by (rule accepted_predicate [OF honest_accepted toy_sound toy_std toy_maps(1)]) (simp add: toy_request_def)

section \<open>A referent answered twice\<close>

definition unrestrict :: "string \<Rightarrow> string \<times> AttributeInfo \<Rightarrow> string \<times> AttributeInfo" where
  "unrestrict r x = (if fst x = r then (r, snd x\<lparr>ai_restrictions := None\<rparr>) else x)"

text \<open>The request without the restrictions of one attribute; the proof that answers an attribute a second time.\<close>

definition without_restrictions :: "string \<Rightarrow> 'nonce ProofRequestPayload \<Rightarrow> 'nonce ProofRequestPayload" where
  "without_restrictions r req = req\<lparr>pr_requested_attributes := map (unrestrict r) (pr_requested_attributes req)\<rparr>"

definition also_unrevealed :: "string \<Rightarrow> nat \<Rightarrow> 'cp FullProof \<Rightarrow> 'cp FullProof" where
  "also_unrevealed r j pf = pf\<lparr>pf_requested_proof := (pf_requested_proof pf)\<lparr>
    rp_unrevealed_attrs := (r, \<lparr>spr_index = j\<rparr>) # rp_unrevealed_attrs (pf_requested_proof pf)\<rparr>\<rparr>"

lemma also_unrevealed_fields [simp]:
  "pf_proof (also_unrevealed r j pf) = pf_proof pf" "pf_identifiers (also_unrevealed r j pf) = pf_identifiers pf"
  "received_self_attested_attrs (also_unrevealed r j pf) = received_self_attested_attrs pf"
  "rp_revealed_attrs (pf_requested_proof (also_unrevealed r j pf)) = rp_revealed_attrs (pf_requested_proof pf)"
  "rp_revealed_attr_groups (pf_requested_proof (also_unrevealed r j pf)) = rp_revealed_attr_groups (pf_requested_proof pf)"
  "rp_predicates (pf_requested_proof (also_unrevealed r j pf)) = rp_predicates (pf_requested_proof pf)"
  by (simp_all add: also_unrevealed_def received_self_attested_attrs_def)

lemma unrestrict_fields [simp]:
  "fst (unrestrict r x) = fst x" "ai_name (snd (unrestrict r x)) = ai_name (snd x)" "ai_names (snd (unrestrict r x)) = ai_names (snd x)"
  "ai_non_revoked (snd (unrestrict r x)) = ai_non_revoked (snd x)" "names_of (snd (unrestrict r x)) = names_of (snd x)"
  by (auto simp: unrestrict_def names_of_def cong: option.case_cong)

lemma map_of_unrestrict: "map_of (map (unrestrict r) xs) s = map_option (\<lambda>a. snd (unrestrict r (s, a))) (map_of xs s)"
  by (induction xs) (auto simp: unrestrict_def)

lemma without_restrictions_fields [simp]:
  "pr_nonce (without_restrictions r req) = pr_nonce req" "pr_non_revoked (without_restrictions r req) = pr_non_revoked req"
  "pr_requested_predicates (without_restrictions r req) = pr_requested_predicates req"
  "pr_requested_attributes (without_restrictions r req) = map (unrestrict r) (pr_requested_attributes req)"
  by (simp_all add: without_restrictions_def)

lemma insert_identifiers_same: "pf_identifiers pf = pf_identifiers pf' \<Longrightarrow> insert_identifiers pf rs m = insert_identifiers pf' rs m"
  by (induction pf rs m rule: insert_identifiers.induct) (auto simp: get_proof_identifier_def intro!: bindr_cong)

lemma received_also:
  "received_revealed_attrs (also_unrevealed r j pf) = received_revealed_attrs pf"
  "received_predicates (also_unrevealed r j pf) = received_predicates pf"
  by (simp_all add: received_revealed_attrs_def received_predicates_def insert_identifiers_same [of "also_unrevealed r j pf" pf])

text \<open>A second answer to a referent is what the look-up finds.\<close>

lemma insert_identifiers_ok:
  "\<forall>(r, i)\<in>set rs. i < length (pf_identifiers pf) \<Longrightarrow> \<exists>m'. insert_identifiers pf rs m = Inr m'"
  by (induction pf rs m rule: insert_identifiers.induct) (auto simp: get_proof_identifier_def)

lemma received_unrevealed_also:
  assumes "received_unrevealed_attrs pf = Inr un" "j < length (pf_identifiers pf)"
    and "r \<notin> fst ` set (rp_unrevealed_attrs (pf_requested_proof pf))" "distinct (map fst (rp_unrevealed_attrs (pf_requested_proof pf)))"
  obtains un' where "received_unrevealed_attrs (also_unrevealed r j pf) = Inr un'" "fst ` set un' = insert r (fst ` set un)"
    "map_of un' = (map_of un)(r \<mapsto> pf_identifiers pf ! j)"
proof -
  let ?rs = "rp_unrevealed_attrs (pf_requested_proof pf)"
  let ?rs' = "(r, \<lparr>spr_index = j\<rparr>) # ?rs"
  note old = insert_indices [OF assms(1) [unfolded received_unrevealed_attrs_def] assms(4)]
  have "\<exists>un'. insert_identifiers pf (map (\<lambda>(r, i). (r, spr_index i)) ?rs') [] = Inr un'"
    using old(2) assms(2) by (intro insert_identifiers_ok) auto
  then obtain un' where un': "insert_identifiers pf (map (\<lambda>(r, i). (r, spr_index i)) ?rs') [] = Inr un'" by blast
  note new = insert_indices [OF un']
  have "received_unrevealed_attrs (also_unrevealed r j pf) = Inr un'"
    using un' insert_identifiers_same [of "also_unrevealed r j pf" pf] by (simp add: received_unrevealed_attrs_def) (simp add: also_unrevealed_def)
  moreover have "fst ` set un' = insert r (fst ` set un)" using new(3) old(3) assms(3,4) by simp
  moreover have "map_of un' = (map_of un)(r \<mapsto> pf_identifiers pf ! j)"
    using new(1) old(1) assms(3,4) by (auto simp: fun_eq_iff)
  ultimately show thesis by (rule that)
qed

lemma revealed_values_same:
  "(\<And>s. map_option ai_name (map_of ra s) = map_option ai_name (map_of ra' s)) \<Longrightarrow> revealed_values ra k xs m = revealed_values ra' k xs m"
proof (induction ra k xs m rule: revealed_values.induct)
  case (2 ra k s i rest m)
  then show ?case using "2.prems" [of s] by (cases "map_of ra s"; cases "map_of ra' s") (auto simp: ok_or_def)
qed simp

text \<open>What is read of the attributes that were asked for, apart from their restrictions.\<close>

lemma names_unrestricted:
  "verify_revealed_attribute_values U req (also_unrevealed r j pf) = verify_revealed_attribute_values U (without_restrictions r req) pf"
proof -
  have v: "verify_revealed_attribute_value U n (also_unrevealed r j pf) i = verify_revealed_attribute_value U n pf i" for n i
    by (simp add: verify_revealed_attribute_value_def)
  have "verify_revealed_group U req (also_unrevealed r j pf) x = verify_revealed_group U (without_restrictions r req) pf x" for x
    by (cases "map_of (pr_requested_attributes req) (fst x)") (simp_all add: verify_revealed_group_def v map_of_unrestrict case_prod_unfold cong: if_cong)
  then have "verify_revealed_group U req (also_unrevealed r j pf) = verify_revealed_group U (without_restrictions r req) pf" by (rule ext)
  moreover have "bindr (ok_or (map_of (pr_requested_attributes req) s) e) (\<lambda>q. bindr (ok_or (ai_name q) e) (\<lambda>n. verify_revealed_attribute_value U n pf i)) =
      bindr (ok_or (map_of (map (unrestrict r) (pr_requested_attributes req)) s) e) (\<lambda>q. bindr (ok_or (ai_name q) e) (\<lambda>n. verify_revealed_attribute_value U n pf i))"
    for s e i
    by (cases "map_of (pr_requested_attributes req) s") (simp_all add: map_of_unrestrict)
  ultimately show ?thesis unfolding verify_revealed_attribute_values_def by (simp add: v)
qed

lemma add_revealed_names:
  "list_all2 (\<lambda>a a'. names_of a = names_of a') as as' \<Longrightarrow> add_revealed U b as = add_revealed U b as'"
proof (induction arbitrary: b rule: list_all2_induct)
  case (Cons a as a' as')
  then show ?case by (simp cong: bindr_cong)
qed simp

lemma map_filter_names:
  "list_all2 (\<lambda>a a'. names_of a = names_of a')
    (List.map_filter (\<lambda>(s, i). if k = g i then map_of xs s else None) ys)
    (List.map_filter (\<lambda>(s, i). if k = g i then map_of (map (unrestrict r) xs) s else None) ys)"
proof (induction ys)
  case (Cons y ys)
  then show ?case by (cases y; cases "map_of xs (fst y)") (auto simp: map_filter_simps map_of_unrestrict)
qed (simp add: map_filter_simps)

lemma sub_proofs_unrestricted:
  "add_sub_proofs U B req (pf_requested_proof (also_unrevealed r j pf)) ns k ids added =
    add_sub_proofs U B (without_restrictions r req) (pf_requested_proof pf) ns k ids added"
proof -
  have "list_all2 (\<lambda>a a'. names_of a = names_of a')
      (get_revealed_attributes_for_credential k (pf_requested_proof (also_unrevealed r j pf)) req)
      (get_revealed_attributes_for_credential k (pf_requested_proof pf) (without_restrictions r req))" for k
    unfolding get_revealed_attributes_for_credential_def also_unrevealed_fields without_restrictions_fields
    by (intro list_all2_appendI map_filter_names)
  note names = add_revealed_names [OF this]
  have "get_predicates_for_credential k (pf_requested_proof (also_unrevealed r j pf)) req =
      get_predicates_for_credential k (pf_requested_proof pf) (without_restrictions r req)" for k
    unfolding get_predicates_for_credential_def also_unrevealed_fields without_restrictions_fields ..
  then have "build_sub_proof U B req (pf_requested_proof (also_unrevealed r j pf)) ns k x =
      build_sub_proof U B (without_restrictions r req) (pf_requested_proof pf) ns k x" for k x
    by (simp add: build_sub_proof_def build_sub_proof_request_def names)
  then show ?thesis by (induction ids arbitrary: k added) simp_all
qed

lemma timestamps_also:
  assumes "compare_timestamps_from_proof_and_request (without_restrictions r req) revealed un sa preds = Inr ()"
    and "map_of un' = (map_of un)(r \<mapsto> x)" "r \<notin> fst ` set un"
  shows "compare_timestamps_from_proof_and_request req revealed un' sa preds = Inr ()"
proof -
  have "map_of un r = None" using assms(3) by (simp add: map_of_eq_None_iff)
  then have v: "validate_timestamp un s g l = Inr () \<Longrightarrow> validate_timestamp un' s g l = Inr ()" for s g l
    using assms(2) by (cases "s = r") (auto simp: validate_timestamp_def split: if_splits)
  have i: "or_result a (or_result b c) = Inr () \<longleftrightarrow> a = Inr () \<or> b = Inr () \<or> c = Inr ()" for a b c :: "unit IndyResult"
    by (cases a; cases b) (simp_all add: or_result_def)
  show ?thesis using assms(1)
    unfolding compare_timestamps_from_proof_and_request_def without_restrictions_fields traverse_map
    by (simp only: bindr_Inr_iff) (auto simp: i case_prod_unfold is_ok_traverse is_ok_unit dest: v simp flip: is_ok_iff)
qed

lemma map_of_reordered:
  assumes "distinct (map fst xs)" "set ys = set (filter P xs)"
  shows "map_of ys s = map_of (filter P xs) s"
proof (cases "map_of ys s")
  case None
  then have "s \<notin> fst ` set (filter P xs)" using assms(2) by (simp add: map_of_eq_None_iff)
  then show ?thesis using None by (metis map_of_eq_None_iff)
next
  case (Some a)
  then have "(s, a) \<in> set (filter P xs)" using assms(2) map_of_SomeD by fastforce
  moreover have "distinct (map fst (filter P xs))" using assms(1) by (simp add: distinct_map_filter)
  ultimately show ?thesis using Some by simp
qed

lemma restrictions_also:
  assumes U: "std_ok U" and d: "distinct (map fst (pr_requested_attributes req))" and sa: "r \<notin> set sa"
    and ok: "verify_requested_restrictions U (without_restrictions r req) (pf_requested_proof pf) revealed un preds sa = Inr ()"
    and un': "map_of un' = (map_of un)(r \<mapsto> pf_identifiers pf ! j)"
    and other: "\<forall>info. (r, info) \<in> set (pr_requested_attributes req) \<longrightarrow>
      restricted U pf j (name_value_map U (pf_requested_proof pf) r info) (ai_restrictions info)"
  shows "verify_requested_restrictions U req (pf_requested_proof (also_unrevealed r j pf)) revealed un' preds sa = Inr ()"
proof -
  let ?rp = "pf_requested_proof pf" and ?rp' = "pf_requested_proof (also_unrevealed r j pf)"
  let ?P = "\<lambda>(s, info). \<not> is_self_attested s info sa"
  let ?ids = "map_of revealed ++ map_of un" and ?ids' = "map_of revealed ++ map_of un'"
  let ?ra = "us_order_attrs U (filter ?P (map (unrestrict r) (pr_requested_attributes req)))"
  let ?ra' = "us_order_attrs U (filter ?P (pr_requested_attributes req))"
  have self: "\<not> is_self_attested r info sa" for info using sa by (auto split: option.splits Query.splits)
  have P: "?P (unrestrict r x) = ?P x" for x using self by (simp add: unrestrict_def case_prod_unfold del: is_self_attested.simps)
  have old: "verify_attr_restrictions U ?rp ?ids (unrestrict r (s, info)) = Inr ()"
    if "(s, info) \<in> set (pr_requested_attributes req)" "\<not> is_self_attested s info sa" for s info
  proof -
    have all: "\<forall>(s, info)\<in>set (map (unrestrict r) (pr_requested_attributes req)). \<not> is_self_attested s info sa \<longrightarrow>
        verify_attr_restrictions U ?rp ?ids (s, info) = Inr ()"
      using ok unfolding restrictions_ok [OF U] without_restrictions_fields by (rule conjunct1)
    obtain s' info' where x: "unrestrict r (s, info) = (s', info')" by (rule prod.exhaust)
    have "(s', info') \<in> set (map (unrestrict r) (pr_requested_attributes req))" "\<not> is_self_attested s' info' sa"
      using that(1) imageI [of "(s, info)" _ "unrestrict r"] that(2) P [of "(s, info)"] unfolding x set_map prod.case by blast+
    with bspec [OF all this(1)] show ?thesis unfolding x prod.case by blast
  qed
  have nv: "name_value_map U ?rp' s info = name_value_map U ?rp s info" for s info by (simp add: name_value_map_def cong: option.case_cong)
  have attr: "verify_attr_restrictions U ?rp' ?ids' (s, info) = Inr ()"
    if s: "(s, info) \<in> set (pr_requested_attributes req)" "\<not> is_self_attested s info sa" for s info
  proof (cases "s = r")
    case True
    have "gather_filter_info r ?ids' = filter_of (pf_identifiers pf ! j)" by (rule gather_filter_info_at) (simp add: un')
    then show ?thesis using other s(1) True by (auto simp: attr_restrictions_ok nv restricted_def)
  next
    case False
    then have "gather_filter_info s ?ids' = gather_filter_info s ?ids" by (simp add: gather_filter_info_def un' map_add_def)
    then show ?thesis using old [OF s] False by (simp add: attr_restrictions_ok nv unrestrict_def)
  qed
  have "map_option ai_name (map_of ?ra' s) = map_option ai_name (map_of ?ra s)" for s
  proof -
    have "map_of ?ra' s = map_of (filter ?P (pr_requested_attributes req)) s"
      using U by (intro map_of_reordered [OF d]) (simp add: std_ok_def)
    moreover have "map_of ?ra s = map_of (filter ?P (map (unrestrict r) (pr_requested_attributes req))) s"
      using U d by (intro map_of_reordered) (simp_all add: std_ok_def comp_def)
    moreover have "filter ?P (map (unrestrict r) (pr_requested_attributes req)) = map (unrestrict r) (filter ?P (pr_requested_attributes req))"
      unfolding filter_map comp_def P ..
    ultimately show ?thesis by (simp add: map_of_unrestrict option.map_comp comp_def)
  qed
  from revealed_values_same [OF this]
  have "verify_predicate_restrictions U ?rp' ?ra' preds x = verify_predicate_restrictions U ?rp ?ra preds x" for x
    by (simp add: verify_predicate_restrictions_def case_prod_unfold cong: option.case_cong)
  then show ?thesis using ok attr unfolding restrictions_ok [OF U] without_restrictions_fields by auto
qed

text \<open>
  C27: The restrictions on an attribute do not bind the credential its value comes from. Take any proof, any request and an
  attribute that the proof reveals. If the verifier gives its verdict on the proof for the request without the restrictions
  on this attribute, whatever credential the value is from, and some other credential in the proof meets them, then it
  gives the same verdict for the request with the restrictions, once the prover lists the attribute a second time, as unrevealed and of that
  other credential. This holds for every proof system; no entry of a map is repeated.
\<close>

theorem restriction_evaded:
  assumes "std_ok U" and h: "hash_maps req (pf_requested_proof pf)"
    and v: "verify U pf (without_restrictions r req) B = Inr verdict"
    and r: "r \<in> fst ` set (rp_revealed_attrs (pf_requested_proof pf))" "r \<notin> set (received_self_attested_attrs pf)"
      "r \<notin> fst ` set (rp_unrevealed_attrs (pf_requested_proof pf))"
    and j: "j < length (pf_identifiers pf)"
      "\<forall>info. (r, info) \<in> set (pr_requested_attributes req) \<longrightarrow>
        restricted U pf j (name_value_map U (pf_requested_proof pf) r info) (ai_restrictions info)"
  shows "verify U (also_unrevealed r j pf) req B = Inr verdict \<and> hash_maps req (pf_requested_proof (also_unrevealed r j pf))"
proof -
  obtain revealed un preds ns added where ok:
    "received_revealed_attrs pf = Inr revealed" "received_unrevealed_attrs pf = Inr un" "received_predicates pf = Inr preds"
    "compare_attr_from_proof_and_request (without_restrictions r req) revealed un (received_self_attested_attrs pf) preds = Inr ()"
    "verify_revealed_attribute_values U (without_restrictions r req) pf = Inr ()"
    "verify_requested_restrictions U (without_restrictions r req) (pf_requested_proof pf) revealed un preds (received_self_attested_attrs pf) = Inr ()"
    "compare_timestamps_from_proof_and_request (without_restrictions r req) revealed un (received_self_attested_attrs pf) preds = Inr ()"
    "us_verifier_call U [] = Inr ()" "build_non_credential_schema U = Inr ns"
    "add_sub_proofs U B (without_restrictions r req) (pf_requested_proof pf) ns 0 (pf_identifiers pf) [] = Inr added"
    "us_verify U added (pf_proof pf) (pr_nonce req) = Inr verdict"
    using v by (auto simp: verify_def Let_def bindr_Inr_iff)
  have d: "distinct (map fst (pr_requested_attributes req))" "distinct (map fst (rp_unrevealed_attrs (pf_requested_proof pf)))"
    using h by (simp_all add: hash_maps_def)
  obtain un' where un': "received_unrevealed_attrs (also_unrevealed r j pf) = Inr un'" "fst ` set un' = insert r (fst ` set un)"
    "map_of un' = (map_of un)(r \<mapsto> pf_identifiers pf ! j)"
    using received_unrevealed_also [OF ok(2) j(1) r(3) d(2)] by blast
  have "r \<notin> fst ` set un" using insert_indices(3) [OF ok(2) [unfolded received_unrevealed_attrs_def] d(2)] r(3) by simp
  note t = timestamps_also [OF ok(7) un'(3) this]
  note q = restrictions_also [OF assms(1) d(1) r(2) ok(6) un'(3) j(2)]
  have "r \<in> fst ` set revealed" using received_revealed_lookup(4) [OF ok(1) h] r(1) by simp
  then have "compare_attr_from_proof_and_request req revealed un' (received_self_attested_attrs pf) preds = Inr ()"
    using ok(4) un'(2) by (auto simp: compare_attr_from_proof_and_request_def image_image image_Un split: if_splits)
  then have "verify U (also_unrevealed r j pf) req B = Inr verdict"
    using ok t q un'(1) by (simp add: verify_def Let_def received_also names_unrestricted sub_proofs_unrestricted)
  moreover have "hash_maps req (pf_requested_proof (also_unrevealed r j pf))"
    using h r(3) by (simp add: hash_maps_def) (simp add: also_unrevealed_def)
  ultimately show ?thesis by blast
qed

text \<open>
  Witness for C27: the request restricts the issuer of the name to \<open>Gov\<close>. The credential of \<open>Mal\<close> that the name is from
  does not meet this, the one that the age is from does.
\<close>

theorem restriction_evaded_witness:
  "verify toy_ursa mixed_proof toy_request toy_published = Inl (Error ProofRejected) \<and>
    verify toy_ursa (also_unrevealed ''a'' 0 mixed_proof) toy_request toy_published = Inr True \<and>
    \<not> restricted toy_ursa mixed_proof 1 (name_value_map toy_ursa (pf_requested_proof mixed_proof) ''a'' toy_name_info)
        (ai_restrictions toy_name_info)"
proof -
  have v: "verify toy_ursa mixed_proof (without_restrictions ''a'' toy_request) toy_published = Inr True"
    "verify toy_ursa mixed_proof toy_request toy_published = Inl (Error ProofRejected)" by code_simp+
  have none: "attr_request_by_value ''issuer_did'' = None" "attr_request_by_marker ''issuer_did'' = None" by code_simp+
  have f: "filter_of toy_gov = Inr \<lparr>fl_schema_id = ''Gov:2:id:1.0'', fl_schema_issuer_did = ''Gov'', fl_schema_name = ''id'',
      fl_schema_version = ''1.0'', fl_issuer_did = ''Gov'', fl_cred_def_id = ''Gov:3:CL:7:t''\<rparr>"
    "filter_of toy_mal = Inr \<lparr>fl_schema_id = ''Mal:2:id:1.0'', fl_schema_issuer_did = ''Mal'', fl_schema_name = ''id'',
      fl_schema_version = ''1.0'', fl_issuer_did = ''Mal'', fl_cred_def_id = ''Mal:3:CL:8:t''\<rparr>"
    by code_simp+
  have "\<not> restricted toy_ursa mixed_proof 1 (name_value_map toy_ursa (pf_requested_proof mixed_proof) ''a'' toy_name_info)
      (ai_restrictions toy_name_info)"
    using f(2) none by (simp add: restricted_def toy_name_info_def tag_holds_def) (simp add: mixed_proof_def)
  moreover have "restricted toy_ursa mixed_proof 0 (name_value_map toy_ursa (pf_requested_proof mixed_proof) ''a'' info) (ai_restrictions info)"
    if "(''a'', info) \<in> set (pr_requested_attributes toy_request)" for info
    using that f(1) by (simp add: restricted_def toy_request_def toy_name_info_def tag_holds_def name_value_map_def) (simp add: mixed_proof_def)
  ultimately show ?thesis
    using v(2) restriction_evaded [OF toy_std toy_maps(3) v(1), of 0] by (simp add: received_self_attested_attrs_def) (simp add: mixed_proof_def)
qed

section \<open>Raw values and intervals\<close>

definition forever :: "NonRevocedInterval \<Rightarrow> NonRevocedInterval" where
  "forever i = (if nri_to i \<noteq> None \<or> nri_from i \<noteq> None then \<lparr>nri_from = Some 0, nri_to = None\<rparr> else i)"

text \<open>Witness for C26: \<open>honest_proof\<close> with another raw name.\<close>

theorem verdict_blind_witness:
  "verify toy_ursa (with_raw (\<lambda>_ _. ''Queen'') honest_proof) (with_intervals forever toy_request) toy_published = Inr True"
proof -
  have "keeps_presence forever" by (simp add: keeps_presence_def forever_def)
  moreover have "values_unrestricted toy_request"
  proof -
    have "attr_request_by_value ''issuer_did'' = None" "attr_request_by_value ''cred_def_id'' = None" by code_simp+
    then show ?thesis
      by (simp add: values_unrestricted_def no_value_tags_def toy_request_def toy_name_info_def toy_age_info_def)
  qed
  ultimately show ?thesis using verdict_blind [OF toy_std] honest_accepted by blast
qed

section \<open>A referent that is revealed and self-attested\<close>

definition panic_request :: "nat ProofRequestPayload" where
  "panic_request = toy_request\<lparr>pr_requested_attributes := [(''a'', toy_name_info\<lparr>ai_restrictions := None\<rparr>)]\<rparr>"

definition panic_proof :: "toy_part list FullProof" where
  "panic_proof = honest_proof\<lparr>pf_requested_proof :=
    (pf_requested_proof honest_proof)\<lparr>rp_self_attested_attrs := [(''a'', ''Ann'')]\<rparr>\<rparr>"

lemma panic_reached: "verify toy_ursa panic_proof panic_request toy_published = Inl Panic"
  by code_simp

text \<open>Witness for C25: \<open>panic_proof\<close> makes the verifier panic.\<close>

theorem verify_panic_cause_witness:
  "fst ` set (rp_revealed_attrs (pf_requested_proof panic_proof)) \<inter> set (received_self_attested_attrs panic_proof) \<noteq> {} \<and>
    (\<exists>p info. (p, info) \<in> set (pr_requested_predicates panic_request) \<and> pi_restrictions info \<noteq> None)"
proof (rule verify_panic_cause [OF panic_reached _ toy_std])
  show "ursa_no_panic toy_ursa" by (auto simp: ursa_no_panic_def toy_ursa_def)
  show "hash_maps panic_request (pf_requested_proof panic_proof)"
    by (simp add: hash_maps_def panic_request_def panic_proof_def toy_request_def honest_proof_def)
qed

section \<open>Dropping the qualifiers of a request\<close>

text \<open>A query without \<^verbatim>\<open>$not\<close>.\<close>

fun not_free :: "Query \<Rightarrow> bool" where
  "not_free (QAnd qs) = list_all not_free qs"
| "not_free (QOr qs) = list_all not_free qs"
| "not_free (QNot q) = False"
| "not_free _ = True"

text \<open>
  What the converted restriction is meant to ask: as \<open>admits\<close>, where a tag holds if it holds with some value that differs
  from the wanted one in qualifiers at most.
\<close>

definition tag_holds_upto ::
  "('cp, 'nonce, 'bn, 'pk, 'rk, 'key, 'ak, 'reg) ursa \<Rightarrow> (string \<times> string option) list \<Rightarrow> bool \<Rightarrow> Filter \<Rightarrow> string \<Rightarrow> string \<Rightarrow> bool" where
  "tag_holds_upto U m b f n v \<longleftrightarrow>
    (\<exists>w. tag_holds U m f n w \<and> convert_value_to_unqualified b n w = convert_value_to_unqualified b n v)"

fun admits_upto ::
  "('cp, 'nonce, 'bn, 'pk, 'rk, 'key, 'ak, 'reg) ursa \<Rightarrow> (string \<times> string option) list \<Rightarrow> bool \<Rightarrow> Filter \<Rightarrow> Query \<Rightarrow> bool" where
  "admits_upto U m b f (QEq n v) \<longleftrightarrow> tag_holds_upto U m b f n v"
| "admits_upto U m b f (QNeq n v) \<longleftrightarrow> \<not> tag_holds_upto U m b f n v"
| "admits_upto U m b f (QIn n vs) \<longleftrightarrow> (\<exists>v\<in>set vs. tag_holds_upto U m b f n v)"
| "admits_upto U m b f (QAnd qs) \<longleftrightarrow> (\<forall>q\<in>set qs. admits_upto U m b f q)"
| "admits_upto U m b f (QOr qs) \<longleftrightarrow> (\<exists>q\<in>set qs. admits_upto U m b f q)"
| "admits_upto U m b f (QNot q) \<longleftrightarrow> \<not> admits_upto U m b f q"
| "admits_upto U m b f _ \<longleftrightarrow> False"

definition identifier_to_unqualified :: "bool \<Rightarrow> Identifier \<Rightarrow> Identifier" where
  "identifier_to_unqualified b x = x\<lparr>id_schema_id := schema_to_unqualified (id_schema_id x),
    id_cred_def_id := cred_def_to_unqualified b (id_cred_def_id x)\<rparr>"

definition filter_to_unqualified :: "bool \<Rightarrow> Filter \<Rightarrow> Filter" where
  "filter_to_unqualified b f = f\<lparr>
    fl_schema_id := convert_value_to_unqualified b ''schema_id'' (fl_schema_id f),
    fl_schema_issuer_did := convert_value_to_unqualified b ''schema_issuer_did'' (fl_schema_issuer_did f),
    fl_issuer_did := convert_value_to_unqualified b ''issuer_did'' (fl_issuer_did f),
    fl_cred_def_id := convert_value_to_unqualified b ''cred_def_id'' (fl_cred_def_id f)\<rparr>"

text \<open>The ids a credential names are well-formed.\<close>

definition identifier_good :: "bool \<Rightarrow> Identifier \<Rightarrow> bool" where
  "identifier_good b x \<longleftrightarrow>
    (\<exists>p. schema_good p \<and> id_schema_id x = schema_build p) \<and> (\<exists>p. cred_def_good b p \<and> id_cred_def_id x = cred_def_build b p)"

lemma filter_of_unqualified:
  assumes "identifier_good b x" "filter_of x = Inr f"
  shows "filter_of (identifier_to_unqualified b x) = Inr (filter_to_unqualified b f)"
proof -
  from assms(1) obtain p q where p: "schema_good p" "id_schema_id x = schema_build p"
    and q: "cred_def_good b q" "id_cred_def_id x = cred_def_build b q" unfolding identifier_good_def by blast
  obtain did n v where pp: "p = (did, n, v)" by (cases p) auto
  obtain cdid st sid tag where qq: "q = (cdid, st, sid, tag)" by (cases q) auto
  note s = schema_ids.parts_build [OF p(1)] schema_ids.unqualified_build [OF p(1)]
    schema_ids.parts_build [OF schema_ids.good_shorten [OF p(1)]]
  note c = cred_def_ids.parts_build [OF q(1)] cred_def_ids.unqualified_build [OF q(1)]
    cred_def_ids.parts_build [OF cred_def_ids.good_shorten [OF q(1)]]
  have "f = \<lparr>fl_schema_id = schema_str (schema_build p), fl_schema_issuer_did = did_str did, fl_schema_name = n,
      fl_schema_version = v, fl_issuer_did = did_str cdid, fl_cred_def_id = cred_def_str (cred_def_build b q)\<rparr>"
    using assms(2) s(1) c(1) p(2) q(2)
    by (auto simp: filter_of_def gather_filter_info_def cred_def_issuer_did_def pp qq simp del: schema_build.simps cred_def_build.simps)
  then show ?thesis
    using s(2,3) c(2,3) p(2) q(2)
    by (simp add: filter_of_def gather_filter_info_def cred_def_issuer_did_def pp qq identifier_to_unqualified_def
        filter_to_unqualified_def convert_value_to_unqualified_def del: schema_build.simps cred_def_build.simps)
qed

lemma tag_holds_unqualified:
  "tag_holds U m (filter_to_unqualified b f) n (convert_value_to_unqualified b n v) \<longleftrightarrow> tag_holds_upto U m b f n v"
proof (cases "n \<in> set QUALIFIABLE_TAGS")
  case True
  then have "take 6 n \<noteq> ''attr::''" unfolding QUALIFIABLE_TAGS_def by (simp, elim disjE) simp_all
  note none = not_attr_tag [OF this]
  have h: "tag_holds U m g n w \<longleftrightarrow> (n, w) \<in> {(''schema_id'', fl_schema_id g), (''schema_issuer_did'', fl_schema_issuer_did g),
      (''schema_name'', fl_schema_name g), (''schema_version'', fl_schema_version g),
      (''cred_def_id'', fl_cred_def_id g), (''issuer_did'', fl_issuer_did g)}" for g w
    unfolding tag_holds_def using none by simp
  from True have "n = ''rev_reg_id'' \<or> n = ''schema_id'' \<or> n = ''schema_issuer_did'' \<or> n = ''cred_def_id'' \<or> n = ''issuer_did''"
    by (auto simp: QUALIFIABLE_TAGS_def)
  then show ?thesis unfolding tag_holds_upto_def h filter_to_unqualified_def insert_iff
    by (elim disjE) (simp_all add: eq_commute [of _ "convert_value_to_unqualified b _ v"])
next
  case False
  then have "convert_value_to_unqualified b n w = w" for w
    by (simp add: convert_value_to_unqualified_def QUALIFIABLE_TAGS_def)
  with False show ?thesis by (auto simp: tag_holds_upto_def tag_holds_def filter_to_unqualified_def QUALIFIABLE_TAGS_def)
qed

lemma admits_unqualified:
  "not_free q \<Longrightarrow> admits U m (filter_to_unqualified b f) (convert_query_to_unqualified b q) \<longleftrightarrow> admits_upto U m b f q"
proof (induction q rule: not_free.induct)
  case (1 qs)
  then show ?case by (auto simp: list_all_iff)
next
  case (2 qs)
  then show ?case by (auto simp: list_all_iff)
qed (simp_all add: tag_holds_unqualified)

text \<open>
  C28: Dropping the qualifiers of a proof request keeps the meaning of a restriction without \<^verbatim>\<open>$not\<close>, and turns \<^verbatim>\<open>$not\<close>
  around. A credential with well-formed ids meets, once its own ids have lost their qualifiers, the converted restriction
  if and only if it meets the original one up to qualifiers; but it meets the conversion of \<^verbatim>\<open>$not\<close> of such a
  restriction if and only if it does not meet that \<^verbatim>\<open>$not\<close> up to qualifiers: exactly the credentials that were to be excluded.
\<close>

theorem unqualified_restrictions:
  assumes "identifier_good b x" "filter_of x = Inr f" "not_free q"
  shows "\<exists>f'. filter_of (identifier_to_unqualified b x) = Inr f' \<and>
    (admits U m f' (convert_query_to_unqualified b q) \<longleftrightarrow> admits_upto U m b f q) \<and>
    (admits U m f' (convert_query_to_unqualified b (QNot q)) \<longleftrightarrow> \<not> admits_upto U m b f (QNot q))"
  using filter_of_unqualified [OF assms(1,2)] admits_unqualified [OF assms(3)] by simp

text \<open>Witness for C28: the request that excludes the issuer \<open>did:sov:Gov\<close> asks for it after the conversion.\<close>

theorem unqualified_restrictions_witness:
  "\<exists>f'. filter_of (identifier_to_unqualified False toy_gov) = Inr f' \<and>
    admits toy_ursa [] f' (convert_query_to_unqualified False (QEq ''issuer_did'' ''did:sov:Gov'')) \<and>
    admits toy_ursa [] f' (convert_query_to_unqualified False (QNot (QEq ''issuer_did'' ''did:sov:Gov'')))"
proof -
  let ?f = "\<lparr>fl_schema_id = ''Gov:2:id:1.0'', fl_schema_issuer_did = ''Gov'', fl_schema_name = ''id'',
    fl_schema_version = ''1.0'', fl_issuer_did = ''Gov'', fl_cred_def_id = ''Gov:3:CL:7:t''\<rparr>"
  let ?q = "QEq ''issuer_did'' ''did:sov:Gov''"
  have d: "short_did ''Gov''" by (simp add: short_did_def no_colon_def one_line_def dot_def)
  have "schema_good (DidValue ''Gov'', ''id'', ''1.0'')" "cred_def_good False (DidValue ''Gov'', ''CL'', SchemaId ''7'', ''t'')"
    using d by (simp_all add: did_short_def schema_ref_def no_colon_def)
  moreover have "id_schema_id toy_gov = schema_build (DidValue ''Gov'', ''id'', ''1.0'')"
    "id_cred_def_id toy_gov = cred_def_build False (DidValue ''Gov'', ''CL'', SchemaId ''7'', ''t'')"
    using d by (simp_all add: toy_gov_def schema_new_def cred_def_new_def did_simps DELIMITER_def)
  ultimately have g: "identifier_good False toy_gov" unfolding identifier_good_def by blast
  have f: "filter_of toy_gov = Inr ?f" by code_simp
  have "convert_value_to_unqualified False ''issuer_did'' ''Gov'' = convert_value_to_unqualified False ''issuer_did'' ''did:sov:Gov''"
    by code_simp
  then have "admits_upto toy_ursa [] False ?f ?q"
    unfolding admits_upto.simps tag_holds_upto_def by (intro exI [of _ "''Gov''"]) (simp add: tag_holds_def)
  then show ?thesis using unqualified_restrictions [OF g f, of ?q toy_ursa "[]"] by simp
qed

end
