(* ===== verification/Prover_Examples.thy ===== *)
theory Prover_Examples
  imports Prover_Accepted Prover_Search Verifier_Limits
begin

text \<open>
  The prover on the small proof system of \<open>Verifier_Limits\<close>: the holder of a credential of \<open>Gov\<close> finds it, makes the
  proof for the request, and the verifier accepts it.
\<close>

section \<open>A complete proof system\<close>

fun known_value :: "unit value_call \<Rightarrow> (string \<times> string) option" where
  "known_value (AddDecKnown a e) = Some (a, e)"
| "known_value (AddValueHidden a v) = None"

definition toy_values :: "unit value_call list \<Rightarrow> (string \<times> string) list" where
  "toy_values vs = List.map_filter known_value vs"

definition toy_part_of :: "(unit, unit, string, unit, unit) proof_part \<Rightarrow> toy_part" where
  "toy_part_of p = (pp_key p, toy_values (pp_values p),
    map (\<lambda>a. (a, toy_vals (toy_values (pp_values p)) a)) (remdups (List.map_filter toy_revealed_name (pp_request p))))"

definition toy_prover :: "(unit, unit, unit, string, unit, unit, toy_part list, nat) prover_ursa" where
  "toy_prover = \<lparr>pu_master_secret_value = Inr, pu_values_call = (\<lambda>_. Inr ()), pu_values_finalize = (\<lambda>_. Inr ()),
    pu_new_proof_builder = Inr (), pu_add_common_attribute = (\<lambda>_. Inr ()), pu_add_sub_proof = (\<lambda>_. Inr ()),
    pu_finalize = (\<lambda>parts nonce.
      if list_all (\<lambda>p. list_all (toy_predicate_ok (toy_values (pp_values p))) (pp_request p)) parts
      then Inr (map toy_part_of parts) else Inl (Error InvalidStructure)),
    pu_order_keys = (\<lambda>m. m)\<rparr>"

definition toy_genuine :: "unit \<Rightarrow> unit value_call list \<Rightarrow> string \<Rightarrow> bool" where
  "toy_genuine sig vals key \<longleftrightarrow> (key, toy_values vals) \<in> set toy_credentials"

definition toy_fresh :: "unit \<Rightarrow> unit \<Rightarrow> unit \<Rightarrow> bool" where
  "toy_fresh reg wit ak \<longleftrightarrow> True"

lemma toy_values_mem: "(a, e) \<in> set (toy_values vs) \<longleftrightarrow> AddDecKnown a e \<in> set vs"
proof -
  have "known_value c = Some (a, e) \<longleftrightarrow> c = AddDecKnown a e" for c by (cases c) auto
  then show ?thesis by (auto simp: toy_values_def set_flat_map)
qed

lemma toy_revealed_names: "set (List.map_filter toy_revealed_name cs) = {a. AddRevealedAttr a \<in> set cs}"
proof -
  have "toy_revealed_name c = Some a \<longleftrightarrow> c = AddRevealedAttr a" for c a by (cases c) auto
  then show ?thesis by (auto simp: set_flat_map)
qed

lemma toy_reveals: "reveals_asked toy_ursa p (Inr (snd (snd (toy_part_of p))))"
proof -
  have "toy_vals (toy_values (pp_values p)) a = e" if "{d. AddDecKnown a d \<in> set (pp_values p)} = {e}" for a e
  proof -
    from that have "AddDecKnown a e \<in> set (pp_values p)" by blast
    then have "(a, e) \<in> set (toy_values (pp_values p))" by (simp only: toy_values_mem)
    then obtain d where d: "map_of (toy_values (pp_values p)) a = Some d" using weak_map_of_SomeI by fast
    then have "AddDecKnown a d \<in> set (pp_values p)" using map_of_SomeD [OF d] toy_values_mem by blast
    with that have "d = e" by blast
    with d show ?thesis by (simp add: toy_vals_def)
  qed
  then show ?thesis
    by (auto simp: reveals_asked_def toy_part_of_def toy_revealed_names toy_ursa_def image_image)
qed

lemma toy_accepts:
  assumes "answers_to toy_genuine toy_fresh p sp" "list_all (toy_predicate_ok (toy_values (pp_values p))) (pp_request p)"
  shows "toy_check sp (toy_part_of p)"
proof -
  from assms(1) have s: "set (pp_request p) = set (sp_request sp)" "pp_key p = sp_key sp"
      "(pp_key p, toy_values (pp_values p)) \<in> set toy_credentials"
    by (auto simp: answers_to_def toy_genuine_def)
  have "list_all (toy_predicate_ok (toy_values (pp_values p))) (sp_request sp)" using assms(2) s(1) by (simp add: list_all_iff)
  moreover have "set (List.map_filter toy_revealed_name (pp_request p)) = set (List.map_filter toy_revealed_name (sp_request sp))"
    unfolding toy_revealed_names s(1) ..
  ultimately show ?thesis using s by (simp add: toy_check_def toy_part_of_def comp_def list_all_iff image_image)
qed

lemma toy_complete: "ursa_complete toy_ursa toy_prover toy_genuine toy_fresh"
proof -
  have "list_all2 (reveals_asked toy_ursa) parts (us_sub_proofs toy_ursa (map toy_part_of parts))" for parts
    using toy_reveals by (simp add: toy_ursa_def list_all2_conv_all_nth case_prod_unfold)
  moreover have "list_all2 toy_check added (map toy_part_of parts)"
    if "list_all2 (answers_to toy_genuine toy_fresh) parts added"
      "list_all (\<lambda>p. list_all (toy_predicate_ok (toy_values (pp_values p))) (pp_request p)) parts" for parts added
    using that toy_accepts by (auto simp: list_all2_conv_all_nth list_all_length)
  ultimately show ?thesis
    by (auto simp: ursa_complete_def toy_prover_def split: if_splits) (simp_all add: toy_ursa_def)
qed

section \<open>A holder\<close>

definition toy_credential :: "(unit, unit, unit, unit) Credential" where
  "toy_credential = \<lparr>cr_schema_id = SchemaId ''Gov:2:id:1.0'', cr_cred_def_id = CredentialDefinitionId ''Gov:3:CL:7:t'',
    cr_rev_reg_id = None,
    cr_values = [(''Name'', \<lparr>cv_raw = ''Ann'', cv_encoded = ''77''\<rparr>), (''age'', \<lparr>cv_raw = ''21'', cv_encoded = ''21''\<rparr>)],
    cr_signature = (), cr_signature_correctness_proof = (), cr_rev_reg = None, cr_witness = None\<rparr>"

definition toy_holder :: "(string, unit, unit, unit, unit, unit) holder" where
  "toy_holder = \<lparr>ho_credentials = (\<lambda>i. if i = ''c1'' then Some toy_credential else None), ho_schemas = pub_schemas toy_published,
    ho_cred_defs = pub_cred_defs toy_published, ho_rev_states = (\<lambda>_. None)\<rparr>"

definition toy_chosen :: RequestedCredentials where
  "toy_chosen = \<lparr>rc_self_attested_attributes = [],
    rc_requested_attributes = [(''a'', \<lparr>ra_cred_id = ''c1'', ra_timestamp = None, ra_revealed = True\<rparr>)],
    rc_requested_predicates = [(''p'', \<lparr>pk_cred_id = ''c1'', pk_timestamp = None\<rparr>)]\<rparr>"

lemma toy_created: "create_proof toy_ursa toy_prover True toy_holder (ProofRequestV2 toy_request) toy_chosen () = Inr honest_proof"
  by code_simp

lemma toy_fits: "restrictions_fit toy_ursa True toy_holder (ProofRequestV2 toy_request) toy_chosen"
proof -
  let ?k = "\<lparr>pk_cred_id = ''c1'', pk_timestamp = None\<rparr>"
  have f: "filter_of (named_identifier True toy_holder (ProofRequestV2 toy_request) ?k) = Inr \<lparr>fl_schema_id = ''Gov:2:id:1.0'',
      fl_schema_issuer_did = ''Gov'', fl_schema_name = ''id'', fl_schema_version = ''1.0'', fl_issuer_did = ''Gov'', fl_cred_def_id = ''Gov:3:CL:7:t''\<rparr>"
    by code_simp
  show ?thesis
    using f by (simp add: restrictions_fit_def attr_fits_def predicate_fits_def toy_chosen_def toy_request_def toy_name_info_def
        toy_age_info_def key_of_def tag_holds_def)
qed

lemma toy_agrees: "ledger_agrees toy_ursa toy_prover True toy_holder toy_published (ProofRequestV2 toy_request) () toy_genuine toy_fresh"
proof -
  have v: "build_credential_values toy_ursa toy_prover (cr_values toy_credential) (Some ()) =
      Inr [AddDecKnown ''name'' ''77'', AddDecKnown ''age'' ''21'', AddValueHidden ''master_secret'' ()]" by code_simp
  have k: "c = toy_credential \<and> pk_cred_id k = ''c1''" if "ho_credentials toy_holder (pk_cred_id k) = Some c" for k c
    using that by (simp add: toy_holder_def split: if_splits)
  have g: "toy_genuine () [AddDecKnown ''name'' ''77'', AddDecKnown ''age'' ''21'', AddValueHidden ''master_secret'' ()] ''kg''" by code_simp
  have i: "id_schema_id (named_identifier True toy_holder (ProofRequestV2 toy_request) k) = cr_schema_id toy_credential \<and>
      id_cred_def_id (named_identifier True toy_holder (ProofRequestV2 toy_request) k) = cr_cred_def_id toy_credential"
    if "pk_cred_id k = ''c1''" for k
    using that by (simp add: named_identifier_def proof_identifier_def toy_holder_def)
  have s: "rev_state_of toy_holder toy_credential k \<noteq> Inr (Some x)" for k x
    by (auto simp: rev_state_of_def toy_holder_def toy_credential_def split: option.splits)
  have cd: "us_build_key toy_ursa (cdd_primary (cd_value cd)) (cdd_revocation (cd_value cd)) = Inr ''kg''"
    if "ho_cred_defs toy_holder (cr_cred_def_id toy_credential) = Some cd" for cd
    using that by (auto simp: toy_holder_def toy_published_def toy_credential_def toy_ursa_def)
  show ?thesis
    unfolding ledger_agrees_def
    using k v g i s cd by (auto simp: toy_holder_def)
qed

text \<open>Witness for C22: the proof of the holder is \<open>honest_proof\<close>.\<close>

theorem honest_proof_accepted_witness:
  "create_proof toy_ursa toy_prover True toy_holder (ProofRequestV2 toy_request) toy_chosen () = Inr honest_proof \<and>
    verify toy_ursa honest_proof (payload (ProofRequestV2 toy_request)) toy_published = Inr True"
proof (rule conjI [OF toy_created], rule honest_proof_accepted [OF toy_created toy_complete toy_std])
  show "order_ok toy_prover" by (simp add: order_ok_def toy_prover_def)
  show "plain_request (payload (ProofRequestV2 toy_request))"
    by (simp add: plain_request_def toy_request_def toy_name_info_def)
  show "credential_maps toy_chosen" by (simp add: credential_maps_def toy_chosen_def)
  show "covers toy_chosen (payload (ProofRequestV2 toy_request))" by (simp add: covers_def toy_chosen_def toy_request_def)
  have "views_differ toy_ursa (cr_values toy_credential)" by code_simp
  then show "credentials_clear toy_ursa toy_holder" by (simp add: credentials_clear_def toy_holder_def)
  show "times_fit toy_chosen (payload (ProofRequestV2 toy_request))"
    by (simp add: times_fit_def toy_chosen_def toy_request_def toy_name_info_def toy_age_info_def get_non_revoc_interval_def)
qed (rule toy_fits, rule toy_agrees)

section \<open>Searching\<close>

definition toy_cred_tags :: "(string \<times> string) list" where
  "toy_cred_tags = [(''schema_id'', ''Gov:2:id:1.0''), (''schema_issuer_did'', ''Gov''), (''schema_name'', ''id''), (''schema_version'', ''1.0''),
    (''issuer_did'', ''Gov''), (''cred_def_id'', ''Gov:3:CL:7:t''), (''rev_reg_id'', ''None''),
    (''attr::name::marker'', ''1''), (''attr::name::value'', ''Ann''), (''attr::age::marker'', ''1''), (''attr::age::value'', ''21'')]"

definition toy_restriction :: Query where
  "toy_restriction = QAnd [QNeq ''issuer_did'' ''Mal'', QIn ''attr::NAME::value'' [''Ann'', ''Bob'']]"

lemma toy_tagged: "build_credential_tags toy_ursa True toy_credential None = Inr toy_cred_tags"
  by code_simp

text \<open>Witness for C24: the restriction that the issuer is not \<open>Mal\<close> holds of the credential for the verifier, and does not find it.\<close>

theorem neq_restriction_finds_none_witness:
  "\<not> sat (\<lambda>_ _. False) (map_of toy_cred_tags)
      (QAnd [QAnd [QNeq ''issuer_did'' ''Mal'', QNeq ''issuer_did_short'' ''Mal''], QEq ''attr::name::marker'' ''1'']) \<and>
    is_ok (bindr (filter_of (proof_identifier True V1 toy_credential None))
      (do_process_operator toy_ursa [(''Name'', Some ''Ann'')] (QNeq ''issuer_did'' ''Mal'')))"
proof
  show "\<not> sat (\<lambda>_ _. False) (map_of toy_cred_tags)
      (QAnd [QAnd [QNeq ''issuer_did'' ''Mal'', QNeq ''issuer_did_short'' ''Mal''], QEq ''attr::name::marker'' ''1''])"
  proof (rule neq_restriction_finds_none [OF toy_tagged])
    show "\<not> cred_def_is_fully_qualified (cr_cred_def_id toy_credential)" by code_simp
    show "''issuer_did'' \<in> set QUALIFIABLE_TAGS" by (simp add: QUALIFIABLE_TAGS_def)
    show "process_proof_request_restrictions toy_ursa V1 (Some ''Name'') None ''a'' (Some (QNeq ''issuer_did'' ''Mal'')) None =
      Inr (QAnd [QAnd [QNeq ''issuer_did'' ''Mal'', QNeq ''issuer_did_short'' ''Mal''], QEq ''attr::name::marker'' ''1''])"
      by code_simp
  qed
  show "is_ok (bindr (filter_of (proof_identifier True V1 toy_credential None))
      (do_process_operator toy_ursa [(''Name'', Some ''Ann'')] (QNeq ''issuer_did'' ''Mal'')))" by code_simp
qed

end
