(* ===== verification/Prover_Wallet.thy ===== *)
theory Prover_Wallet
  imports Prover_Examples Wallet
begin

text \<open>
  From a proof request to the records of the wallet: the prover's query is printed as JSON, and the wallet parses, simplifies,
  encrypts and translates it to SQL; what comes back are the credentials that the verifier admits.
\<close>

section \<open>The query of the prover in the wallet\<close>

lemma simplified_list:
  assumes "\<And>q. q \<in> set qs \<Longrightarrow> \<exists>q'. optimise q = Some q' \<and> translatable q'" "qs \<noteq> []"
  shows "List.map_filter optimise qs \<noteq> []" "q \<in> set (List.map_filter optimise qs) \<Longrightarrow> translatable q"
proof -
  obtain x qs' where "qs = x # qs'" using assms(2) by (cases qs) auto
  then show "List.map_filter optimise qs \<noteq> []" using assms(1) [of x] by (auto simp: map_filter_simps)
  show "q \<in> set (List.map_filter optimise qs) \<Longrightarrow> translatable q" using assms(1) by (fastforce simp: set_flat_map)
qed

lemma collapsed_translatable:
  assumes "xs \<noteq> []" "\<And>q. q \<in> set xs \<Longrightarrow> translatable q"
  shows "\<exists>q'. (case xs of [] \<Rightarrow> None | [q] \<Rightarrow> Some q | qs \<Rightarrow> Some (QAnd qs)) = Some q' \<and> translatable q'"
    "\<exists>q'. (case xs of [] \<Rightarrow> None | [q] \<Rightarrow> Some q | qs \<Rightarrow> Some (QOr qs)) = Some q' \<and> translatable q'"
  using assms by (cases xs rule: remdups_adj.cases; simp)+

lemma optimise_translatable: "translatable q \<Longrightarrow> \<exists>q'. optimise q = Some q' \<and> translatable q'"
proof (induction q rule: optimise.induct)
  case (5 q1 q2 qs)
  then have e: "\<exists>q'. optimise q = Some q' \<and> translatable q'" if "q \<in> set (q1 # q2 # qs)" for q using that by auto
  have l: "List.map_filter optimise (q1 # q2 # qs) \<noteq> []" by (rule simplified_list(1) [OF e]) simp_all
  have t: "translatable q" if "q \<in> set (List.map_filter optimise (q1 # q2 # qs))" for q by (rule simplified_list(2) [OF e _ that]) simp_all
  show ?case unfolding optimise.simps by (rule collapsed_translatable [OF l t])
next
  case (8 q1 q2 qs)
  then have e: "\<exists>q'. optimise q = Some q' \<and> translatable q'" if "q \<in> set (q1 # q2 # qs)" for q using that by auto
  have l: "List.map_filter optimise (q1 # q2 # qs) \<noteq> []" by (rule simplified_list(1) [OF e]) simp_all
  have t: "translatable q" if "q \<in> set (List.map_filter optimise (q1 # q2 # qs))" for q by (rule simplified_list(2) [OF e _ that]) simp_all
  show ?case unfolding optimise.simps by (rule collapsed_translatable [OF l t])
qed auto

lemma translatable_restricts: "translatable q \<Longrightarrow> or_restricts q"
proof (induction q rule: or_restricts.induct)
  case (2 qs)
  then have "\<not> list_ex (\<lambda>q. optimise q = None) qs" using optimise_translatable by (fastforce simp: list_ex_iff)
  with 2 show ?case by auto
qed auto

lemma translatable_printable: "translatable q \<Longrightarrow> over_tags (\<lambda>t. \<not> reserved t) q \<Longrightarrow> printable q"
  by (induction q) (auto simp: list_all_iff)

lemma insensitive_name:
  assumes "asked_tag U names tag"
  shows "name_ok (insensitive_tag U tag)" "\<not> reserved (insensitive_tag U tag)" "\<not> starts_tilde tag"
proof -
  have "name_ok (insensitive_tag U tag) \<and> \<not> reserved (insensitive_tag U tag) \<and> \<not> starts_tilde tag"
  proof (cases "tag \<in> set known_tags")
    case True
    then have "insensitive_tag U tag = tag" using known_not_attr not_attr_tag by simp
    with True show ?thesis by (auto simp: known_tags_def name_ok_def reserved_def starts_tilde_def)
  next
    case False
    with assms obtain a where a: "attr_request_by_value tag = Some a" by (auto simp: asked_tag_def split: option.splits)
    with tag_shape(1) [OF a] show ?thesis by (auto simp: build_attr_value_tag_def name_ok_def reserved_def starts_tilde_def)
  qed
  then show "name_ok (insensitive_tag U tag)" "\<not> reserved (insensitive_tag U tag)" "\<not> starts_tilde tag" by blast+
qed

lemma insensitive_translatable:
  assumes "make_restrictions_case_insensitive U q = Inr q'" "translatable q" "over_tags (asked_tag U names) q"
  shows "translatable q' \<and> over_tags (\<lambda>t. \<not> reserved t) q'"
  using assms
proof (induction U q arbitrary: q' rule: make_restrictions_case_insensitive.induct)
  case (4 U qs)
  then obtain qs' where q': "list_all2 (\<lambda>q r. make_restrictions_case_insensitive U q = Inr r) qs qs'" "q' = QAnd qs'"
    by (auto simp: bindr_Inr_iff traverse_Inr_list_all2)
  have "list_all2 (\<lambda>q r. translatable r \<and> over_tags (\<lambda>t. \<not> reserved t) r) qs qs'"
    using q'(1) "4.IH" "4.prems"(2,3) by (auto simp: list_all_iff elim!: list.rel_mono_strong)
  then show ?case using "4.prems"(2) unfolding q'(2) by (auto simp: list_all2_conv_all_nth in_set_conv_nth list_all_length)
next
  case (5 U qs)
  then obtain qs' where q': "list_all2 (\<lambda>q r. make_restrictions_case_insensitive U q = Inr r) qs qs'" "q' = QOr qs'"
    by (auto simp: bindr_Inr_iff traverse_Inr_list_all2)
  have "list_all2 (\<lambda>q r. translatable r \<and> over_tags (\<lambda>t. \<not> reserved t) r) qs qs'"
    using q'(1) "5.IH" "5.prems"(2,3) by (auto simp: list_all_iff elim!: list.rel_mono_strong)
  then show ?case using "5.prems"(2) unfolding q'(2) by (auto simp: list_all2_conv_all_nth in_set_conv_nth list_all_length)
next
  case (6 U q)
  then show ?case by (auto simp: bindr_Inr_iff)
qed (auto simp del: insensitive_tag.simps dest: insensitive_name)

lemma prover_query_supported:
  assumes "process_proof_request_restrictions U V2 name names' referent (Some q) None = Inr w" "translatable q"
    and "name = None \<and> names' = Some names \<or> names = [the name] \<and> name \<noteq> None \<and> names' = None" "over_tags (asked_tag U names) q"
  shows "translatable w" "printable w"
proof -
  from assms(1,3) obtain q' where q': "make_restrictions_case_insensitive U q = Inr q'"
    "w = QAnd (q' # map (\<lambda>n. QEq (build_attr_marker_tag U n) ATTRIBUTE_EXISTENCE_MARKER) names)"
    by (auto simp: process_proof_request_restrictions_def bindr_Inr_iff Let_def)
  note i = insensitive_translatable [OF q'(1) assms(2,4)]
  have m: "name_ok (build_attr_marker_tag U n)" "\<not> reserved (build_attr_marker_tag U n)" for n
    by (simp_all add: build_attr_marker_tag_def name_ok_def reserved_def)
  show "translatable w" using i m by (simp add: q'(2))
  moreover have "over_tags (\<lambda>t. \<not> reserved t) w" using i m by (simp add: q'(2) list_all_iff)
  ultimately show "printable w" by (rule translatable_printable)
qed

section \<open>Credentials in a wallet\<close>

text \<open>The records of a type are credentials, under the tags that the prover builds for them.\<close>

definition keeps_credentials ::
  "('cp, 'nonce, 'bn, 'pk, 'rk, 'key, 'ak, 'reg) ursa \<Rightarrow> bool \<Rightarrow> string \<Rightarrow> (string \<Rightarrow> ('sig, 'scp, 'reg, 'wit) Credential) \<Rightarrow>
    vault \<Rightarrow> bool" where
  "keeps_credentials U node_1_3 t cred V \<longleftrightarrow>
    (\<forall>n p. V (t, n) = Some p \<longrightarrow> views_differ U (cr_values (cred n)) \<and>
      (\<exists>T. build_credential_tags U node_1_3 (cred n) None = Inr T \<and> pl_tags p = map_of T))"

text \<open>
  C23: Searching the wallet for a requested attribute, or a group, of a request with qualified identifiers finds the
  credentials that the verifier would admit. The restrictions are such that the storage can translate them, and speak of the
  fields of a credential and of the values of requested names. Then the search with the prover's query succeeds,
  and delivers, each once, the records of those credentials that have the names and satisfy the restrictions.\<close>

theorem search_delivers_admitted:
  assumes "process_proof_request_restrictions U V2 name names' referent (Some q) None = Inr wq"
    and "name = None \<and> names' = Some names \<or> names = [the name] \<and> name \<noteq> None \<and> names' = None"
    and "over_tags (asked_tag U names) q" "translatable q" "keeps_credentials U node_1_3 t cred V"
    and "sql_engine like E" "crypto_ok c" "search_options_of j sopts = Inr so" "so_records so"
    and "wallet_holds (SQLiteStorage E j chk) (db_inv fk) db_store c w V" "parse_json query = Some (to_value wq)"
  shows "\<exists>it wrs. wallet_search c parse_json w t query sopts = Inr it \<and>
    (\<forall>k > length wrs. fetch_all k c w it = Inr wrs) \<and>
    delivers (fetch_options so) V {(t, n) | n. V (t, n) \<noteq> None \<and> credential_admitted U node_1_3 names q (cred n)} wrs"
proof -
  note s = prover_query_supported [OF assms(1,4,2,3)]
  have d: "deserialize (to_value wq) = Inr wq" using s(2) by (simp add: query_json_roundtrip)
  obtain q' where q': "optimise wq = Some q'" "translatable q'" using optimise_translatable [OF s(1)] by blast
  have "sat like tags q' \<longleftrightarrow> sat like tags wq" for tags
    using optimise_exact [OF deserialize_or_nonempty [OF d] translatable_restricts [OF s(1)], of like tags] q'(1) by simp
  moreover have "sat like (pl_tags p) wq \<longleftrightarrow> credential_admitted U node_1_3 names q (cred n)" if "V (t, n) = Some p" for n p
  proof -
    from assms(5) that obtain T where T: "build_credential_tags U node_1_3 (cred n) None = Inr T" "pl_tags p = map_of T"
        "distinct (map (\<lambda>p. attr_common_view U (fst p)) (cr_values (cred n)))"
      unfolding keeps_credentials_def views_differ_def by blast
    show ?thesis unfolding T(2) by (rule search_finds_admitted [OF T(1,3) assms(2,3,1)])
  qed
  ultimately have "{k. fst k = t \<and> (\<exists>p. V k = Some p \<and> sat like (pl_tags p) q')} =
      {(t, n) | n. V (t, n) \<noteq> None \<and> credential_admitted U node_1_3 names q (cred n)}" by auto
  moreover have "\<exists>it wrs. wallet_search c parse_json w t query sopts = Inr it \<and> (\<forall>k > length wrs. fetch_all k c w it = Inr wrs) \<and>
      delivers (fetch_options so) V {k. fst k = t \<and> (\<exists>p. V k = Some p \<and> sat like (pl_tags p) q')} wrs \<and>
      (so_total_count so \<longrightarrow> iterator_total_count w it = Inr (Some (length wrs)))"
    by (rule encrypted_wallet.search_plain [where parse_json = parse_json and query = query,
      OF sqlite_wallet [OF assms(6,7)] assms(10,8,9,11) d]) (simp_all add: q')
  ultimately show ?thesis by (simp only:) blast
qed

section \<open>A wallet with a credential\<close>

definition cred_calls :: "wallet_call list" where
  "cred_calls = [WAdd toy_rnd ''Indy::Credential'' ''c1'' ''v'' toy_cred_tags]"

definition cred_vault :: vault where
  "cred_vault = [(''Indy::Credential'', ''c1'') \<mapsto> \<lparr> pl_value = ''v'', pl_tags = map_of toy_cred_tags \<rparr>]"

definition cred_wallet :: "(db, SQLiteStorageIterator) Wallet" where
  "cred_wallet = fst (run_calls (exec_wallet toy_crypto) toy_new cred_calls)"

definition cred_query :: Query where
  "cred_query = QAnd [QAnd [QNeq ''issuer_did'' ''Mal'', QIn ''attr::name::value'' [''Ann'', ''Bob'']], QEq ''attr::name::marker'' ''1'']"

lemma cred_wallet_holds:
  "wallet_holds (SQLiteStorage (ref_engine (=)) toy_serde True) (db_inv True) db_store toy_crypto cred_wallet cred_vault"
proof -
  have ok: "\<forall>x\<in>set cred_calls. wallet_call_ok x"
    by (simp add: cred_calls_def toy_cred_tags_def rnd_ok_def toy_rnd_def tags_ok_def rust_string_code byte_of_char_def)
  have "run_calls exec_vault Map.empty cred_calls = (cred_vault, [Inr ()])" by (simp add: cred_calls_def cred_vault_def)
  with sqlite_wallet.run_wallet_refines [OF toy_new_holds ok TrueI [THEN disjI1]] show ?thesis by (auto simp: cred_wallet_def)
qed

text \<open>Witness for C23: the credential of \<open>Gov\<close> is found by its issuer and by the name.\<close>

theorem search_delivers_admitted_witness:
  "\<exists>it wr. wallet_search toy_crypto (\<lambda>_. Some (to_value cred_query)) cred_wallet ''Indy::Credential'' ''q'' (Some ''all'') = Inr it \<and>
    fetch_all 2 toy_crypto cred_wallet it = Inr [wr] \<and> wr_id wr = ''c1''"
proof -
  have so: "search_options_of toy_serde (Some ''all'') =
      Inr \<lparr> so_records = True, so_total_count = True, so_type = True, so_value = True, so_tags = True \<rparr>"
    by (simp add: search_options_of_def toy_serde_def ok_or_def)
  have p: "process_proof_request_restrictions toy_ursa V2 (Some ''Name'') None ''a'' (Some toy_restriction) None = Inr cred_query"
    by code_simp
  have "views_differ toy_ursa (cr_values toy_credential)" by code_simp
  then have keeps: "keeps_credentials toy_ursa True ''Indy::Credential'' (\<lambda>_. toy_credential) cred_vault"
    using toy_tagged by (simp add: keeps_credentials_def cred_vault_def)
  have over: "over_tags (asked_tag toy_ursa [''Name'']) toy_restriction" by code_simp
  have tr: "translatable toy_restriction" by (simp add: toy_restriction_def name_ok_def)
  have "credential_admitted toy_ursa True [''Name''] toy_restriction toy_credential" by code_simp
  then have P: "{(''Indy::Credential'', n) | n. cred_vault (''Indy::Credential'', n) \<noteq> None \<and>
      credential_admitted toy_ursa True [''Name''] toy_restriction toy_credential} = {(''Indy::Credential'', ''c1'')}"
    by (auto simp: cred_vault_def split: if_splits)
  obtain it wrs where it: "wallet_search toy_crypto (\<lambda>_. Some (to_value cred_query)) cred_wallet ''Indy::Credential'' ''q'' (Some ''all'') = Inr it"
      "\<forall>k > length wrs. fetch_all k toy_crypto cred_wallet it = Inr wrs"
      "delivers (fetch_options \<lparr> so_records = True, so_total_count = True, so_type = True, so_value = True, so_tags = True \<rparr>) cred_vault
        {(''Indy::Credential'', ''c1'')} wrs"
    using search_delivers_admitted [OF p _ over tr keeps ref_engine_ok toy_crypto_ok so _ cred_wallet_holds,
        of "\<lambda>_. Some (to_value cred_query)" "''q''"] P by auto
  from it(3) obtain wr where "wrs = [wr]" "wr_id wr = ''c1''" unfolding delivers_singleton by (auto simp: shows_plain_def)
  with it show ?thesis by auto
qed

end
