(* ===== verification/Spec2Isabelle.thy ===== *)
theory Spec2Isabelle
  imports Merkle_Ops Merkle_Proof Merkle_Consistency Wallet_Lifecycle Pool_Session Prover_Wallet
begin

text \<open>
  A verification of core parts of \<^bold>\<open>libindy\<close>, the Rust library at the centre of the Hyperledger Indy SDK
  (\<^verbatim>\<open>src/indy-sdk/libindy\<close>). Three parts of it are modelled: the encrypted \<^emph>\<open>wallet\<close>, from the JSON of a
  query down to the rows of the SQLite database; the client side of the \<^emph>\<open>pool ledger\<close>, from the Merkle tree up to
  the state machine of an open pool; and the proofs of \<^emph>\<open>anonymous credentials\<close>, on the side of the prover
  and of the verifier. Paths below are relative to \<^verbatim>\<open>libindy\<close>.

  \<^bold>\<open>The ledger side.\<close>

  \<^item> \<open>Merkle_Tree\<close>, \<open>Merkle_Ops\<close>, \<open>Merkle_Proof\<close>, \<open>Merkle_Consistency\<close> model
    \<^verbatim>\<open>src/services/ledger/merkletree/\<close>: the tree and its two leaf iterators, \<^verbatim>\<open>from_vec\<close>, \<^verbatim>\<open>append\<close>,
    \<^verbatim>\<open>find_hash\<close>, membership proofs and \<^verbatim>\<open>consistency_proof\<close>. They are shown to be the tree of RFC 6962,
    proofs to be sound where the digest has no collision, and complete. Termination of the loops is by
    \<open>function\<close> with a measure.
  \<^item> \<open>Pool_Ledger\<close> models \<^verbatim>\<open>src/services/pool/merkle_tree_factory.rs\<close>: the genesis file and the cache of a
    pool, with operations the system refuses and a disk that runs full.
  \<^item> \<open>Catchup\<close> models \<^verbatim>\<open>catchup.rs\<close> with the processing of a reply: a reply that is accepted can only add
    transactions of the ledger the nodes agreed on. This rests on the Merkle theorems and on the cache.
  \<^item> \<open>Request_Handler\<close> models \<^verbatim>\<open>request_handler.rs\<close>, one function per state, with its effects (orders to
    the networker, acknowledgements) as a list in order; \<open>Request_Runs\<close> and \<open>Catchup_Agreement\<close> prove what
    holds of every run: one answer per command, agreement of more than \<open>f\<close> nodes behind it, an end for read
    requests once every node was heard and the answers could be checked.
  \<^item> \<open>Pool_Nodes\<close> models the node transactions and the keys of the nodes, \<open>Pool_SM\<close> the machine of \<^verbatim>\<open>pool.rs\<close>, whose
    states hold the request handlers; \<open>Pool_Commands\<close> says what a client gives it and is owed. \<open>Request_Phases\<close> and
    \<open>Pool_Runs\<close> carry the invariants of a handler to a pool, and \<open>Pool_Session\<close> proves what holds of every session: answers
    are backed by the nodes that the active pool has, which are those of a ledger agreed on before, each command is acknowledged at most once, closing answers all requests.
  \<^item> \<open>Patricia\<close> models \<^verbatim>\<open>state_proof/node.rs\<close>, the nodes of the state trie and the lookups in it, against an inductive
    definition of what a trie holds; \<open>State_Proof\<close> models \<^verbatim>\<open>state_proof/mod.rs\<close>, from the key of a request and the reply of
    a node to the verification. \<open>Trie_Proof\<close> shows that the root hash determines the value of a key and that an
    answer which only one node gave is signed by the others; \<open>Audit_Path\<close> what an audit path of a transaction shows.

  \<^bold>\<open>The wallet side.\<close>

  \<^item> \<open>Wql\<close> models \<^verbatim>\<open>indy-utils/src/wql.rs\<close>: parsing, printing and optimising queries, and their meaning.
  \<^item> \<open>Wallet_Crypto\<close> models \<^verbatim>\<open>indy-wallet/src/encryption.rs\<close> and the keys and values of \<^verbatim>\<open>wallet.rs\<close>.
  \<^item> \<open>Wallet_Query\<close> models \<^verbatim>\<open>query_encryption.rs\<close>, \<^verbatim>\<open>language.rs\<close> and the translation to SQL of
    \<^verbatim>\<open>storage/default/query.rs\<close>; \<open>Sql_Engine\<close> gives the SQL conditions their meaning and shows that their text can
    be parsed back.
  \<^item> \<open>Wallet_Storage\<close> states the interface of a storage (\<^verbatim>\<open>storage/mod.rs\<close>) as a locale over an abstract map of
    records; \<open>Sqlite\<close> models \<^verbatim>\<open>storage/default/mod.rs\<close> (tables, constraints, transactions, files) and is
    an instance of it. Deleting a record is part of the interface only where the connection enforces foreign keys: the
    code declares \<^verbatim>\<open>ON DELETE CASCADE\<close> and never sets the pragma, so the setting is the default of the SQLite library.
    The invariant \<open>db_inv\<close> carries it, and theorems with deletions assume it.
  \<^item> \<open>Wallet\<close> models \<^verbatim>\<open>wallet.rs\<close> and \<^verbatim>\<open>iterator.rs\<close>, for any storage that satisfies the interface, and is
    shown to be a plain map from type and id to value and tags.
  \<^item> \<open>Crypto_Stream\<close> models the chunked streams of \<^verbatim>\<open>chacha20poly1305_ietf\<close>, \<open>Wallet_Export\<close> the export and
    import of \<^verbatim>\<open>export_import.rs\<close> through them.
  \<^item> \<open>Wallet_Service\<close> models \<^verbatim>\<open>indy-wallet/src/lib.rs\<close>: the tables of open and pending wallets and every call;
    its calls are the steps of a transition relation. \<open>Wallet_Lifecycle\<close> proves the invariant of its
    reachable states and the properties that span calls.

  \<^bold>\<open>Anonymous credentials.\<close>

  \<^item> \<open>Identifiers\<close> models DIDs and the ids of schemas, credential definitions and revocation registries with their
    qualifiers (\<^verbatim>\<open>utils/qualifier.rs\<close>, \<^verbatim>\<open>domain/crypto/did.rs\<close>, \<^verbatim>\<open>domain/anoncreds/\<close>); \<open>Identifier_Laws\<close> states the laws
    the three kinds of ids share as locales and shows which ids are read back as they were made.
  \<^item> \<open>Proof_Request\<close> models \<^verbatim>\<open>proof_request.rs\<close> and \<^verbatim>\<open>proof.rs\<close>, \<open>Verifier\<close> the whole of
    \<^verbatim>\<open>services/anoncreds/verifier.rs\<close>. \<open>Verifier_Sound\<close> gives restrictions their meaning and \<open>Verifier_Properties\<close> shows what an
    accepted proof establishes and when the verifier can panic; \<open>Verifier_Blind\<close> and \<open>Verifier_Limits\<close> show what it
    does not check, and how a prover can use it.
  \<^item> \<open>Prover\<close> models \<^verbatim>\<open>services/anoncreds/prover.rs\<close>: the tags of a credential, the wallet query of a request, and
    \<^verbatim>\<open>create_proof\<close>. \<open>Prover_Search\<close> compares the query with the check of the verifier, and \<open>Prover_Wallet\<close> follows it
    through the wallet: the records that come back are the credentials the verifier admits. \<open>Prover_Runs\<close>, \<open>Prover_Answers\<close>,
    \<open>Prover_Complete\<close> and \<open>Prover_Accepted\<close> describe the proof that is made, from the grouping by credential on,
    and end with its acceptance by the verifier; \<open>Prover_Examples\<close> has the instances.

  \<^bold>\<open>Conventions.\<close> \<open>Prelude\<close> has the error kinds and results, \<open>Rust_Std\<close> what is used of Rust's library. A call
  that can fail returns \<open>Inl (Error kind)\<close>, and \<open>Inl Panic\<close> where the code panics; the text of messages and
  logging are left out. A Rust string is the list of its UTF-8 bytes, a vector a list, a hash map a map where its
  order does not matter and else the list of its entries in the order it iterates. Numbers are \<open>nat\<close> with the bound
  written out where the code can reach it; a flag says whether the build checks overflow. Handles of wallets are
  32-bit words.

  \<^bold>\<open>Parameters.\<close> Code of other packages is an argument: the digest; cipher, MAC and password hash (\<open>crypto_ok\<close>:
  opening undoes sealing, with the documented lengths); SQLite's evaluation of a condition (\<open>sql_engine\<close>); JSON,
  MessagePack and base58; the clock and all randomness. Their hypotheses are named, and every property that uses
  one has a witness with a concrete instance. Collision-freeness is assumed only of the strings hashed in the
  run at hand. The verification of state proofs is a parameter of the request handler,
  which \<open>Trie_Proof\<close> instantiates. The package \<^verbatim>\<open>ursa\<close> is the record \<open>ursa\<close> for the verifier and \<open>prover_ursa\<close> for the
  prover: an object that is built up by calls is the list of these calls, and the cryptography is a function of them.
  What is relied on is \<open>ursa_sound\<close> (an accepted part comes from an issued credential) and \<open>ursa_complete\<close> (a proof made
  of genuine signatures is accepted where both sides asked for the same). Lower-casing by the tables of Unicode and the orders of
  hash maps are arguments too (\<open>std_ok\<close>, \<open>order_ok\<close>).

  \<^bold>\<open>Loops without a bound.\<close> \<open>write_loop\<close>, \<open>export_records\<close> and \<open>import_records\<close> are partial functions into
  \<open>option\<close>; that they return is part of \<open>export_import_roundtrip\<close> and \<open>finish_import_returns\<close>. So are the lookups in a trie
  (\<open>get_node_at\<close>, \<open>get_all_values_at\<close>), which follow hashes, and \<open>calculate_turns_loop\<close>, which is shown to run for ever on
  a ledger of size zero. No fuel is used.

  \<^bold>\<open>Not modelled.\<close> The C interface (\<^verbatim>\<open>src/api\<close>) and the command executor (\<^verbatim>\<open>src/commands\<close>) hand calls on; the
  networker drives ZeroMQ sockets; the issuer of credentials only calls \<^verbatim>\<open>ursa\<close>; payments, the creation of keys and DIDs, and
  the builders of ledger requests are separate services that do not touch the parts above; the storage plugged in through C callbacks is foreign code;
  the command line, libvcx, the plugins and the language wrappers are other programs that use the library.
\<close>

end
